(* ===== verification/Os_Prelude.thy ===== *)
theory Os_Prelude
  imports Main "HOL-Library.Word" "HOL-Library.Signed_Division"
begin

text \<open>
  Shared vocabulary of the development: the fixed-width integers of
  \<^verbatim>\<open>include/libc/os_type.h\<close>, flat byte storage, the C rendering of a single bit test and
  update, and the generic lemmas on lists, intervals and words that the component theories use.
\<close>

unbundle bit_operations_syntax

section \<open>Machine types\<close>

type_synonym u8 = "8 word"
type_synonym u16 = "16 word"
type_synonym u32 = "32 word"

text \<open>
  Byte storage handed to a component by its caller: the byte at an offset from the base address.
  A write past the end of the object is a write to a later offset, as in the flat address space of
  the kernel; the frame lemmas of the components say which offsets an operation touches.
\<close>

type_synonym bytes = "nat \<Rightarrow> u8"

section \<open>Fact collections\<close>

named_theorems loop_simps \<open>equations of loops that are only unfolded by name\<close>
named_theorems inv_intros \<open>preservation of component invariants\<close>
named_theorems bit_simps' \<open>single-bit tests and updates on words\<close>

section \<open>Single bits\<close>

text \<open>
  \<open>byte_test b k\<close> is the C expression \<^verbatim>\<open>b & (1 << k)\<close> read as a truth value and
  \<open>byte_put b k v\<close> the clear-then-set update that \<^verbatim>\<open>BitMap::set\<close> and
  \<^verbatim>\<open>SET_MAP\<close> perform.
\<close>

definition byte_test :: "u8 \<Rightarrow> nat \<Rightarrow> bool" where
  "byte_test b k \<longleftrightarrow> b AND push_bit k 1 \<noteq> 0"

definition byte_put :: "u8 \<Rightarrow> nat \<Rightarrow> bool \<Rightarrow> u8" where
  "byte_put b k v =
     (let c = b AND NOT (push_bit k 1) in if v then c OR push_bit k 1 else c)"

lemma and_push_bit_1_eq_0_iff:
  fixes w :: "'a::len word"
  assumes "k < LENGTH('a)"
  shows "w AND push_bit k 1 = 0 \<longleftrightarrow> \<not> bit w k"
proof
  assume "w AND push_bit k 1 = 0"
  then have "\<not> bit (w AND push_bit k 1) k" by simp
  with assms show "\<not> bit w k" by (simp add: bit_and_iff bit_exp_iff)
next
  assume "\<not> bit w k"
  with assms show "w AND push_bit k 1 = 0"
    by (auto intro!: bit_word_eqI simp: bit_and_iff bit_exp_iff)
qed

lemma byte_test_bit [bit_simps']: "k < 8 \<Longrightarrow> byte_test b k \<longleftrightarrow> bit b k"
  using and_push_bit_1_eq_0_iff [of k b] by (simp add: byte_test_def)

lemma bit_byte_put [bit_simps']:
  "k < 8 \<Longrightarrow> j < 8 \<Longrightarrow> bit (byte_put b k v) j = (if j = k then v else bit b j)"
  by (auto simp: byte_put_def Let_def bit_and_iff bit_or_iff bit_not_iff bit_exp_iff)

lemma byte_test_put [simp]:
  "k < 8 \<Longrightarrow> j < 8 \<Longrightarrow> byte_test (byte_put b k v) j = (if j = k then v else byte_test b j)"
  by (simp add: bit_simps')

lemma byte_test_zero [simp]: "\<not> byte_test 0 k"
  by (simp add: byte_test_def)

section \<open>Division into byte and bit position\<close>

lemma div_mod_8_inj: "(i::nat) div 8 = j div 8 \<Longrightarrow> i mod 8 = j mod 8 \<Longrightarrow> i = j"
  by (metis div_mult_mod_eq)

section \<open>Interval bookkeeping\<close>

lemma int_atLeastLessThan_empty_iff: "{a..<b} = {} \<longleftrightarrow> b \<le> (a::int)"
  by auto

lemma nat_int_interval: "0 \<le> a \<Longrightarrow> nat ` {a..<b} = {nat a..<nat b}"
proof -
  assume "0 \<le> a"
  have "nat x \<in> {nat a..<nat b}" if "x \<in> {a..<b}" for x
    using that \<open>0 \<le> a\<close> by auto
  moreover have "y \<in> nat ` {a..<b}" if "y \<in> {nat a..<nat b}" for y
    using that \<open>0 \<le> a\<close> by (intro image_eqI [of _ _ "int y"]) auto
  ultimately show ?thesis by blast
qed

section \<open>Loops over an index range\<close>

text \<open>
  A C loop \<^verbatim>\<open>for (i = 0; i < n; ++i) body(i)\<close> is \<open>fold body [0..<n]\<close>; these two lemmas
  give the store after a loop whose body writes one cell per iteration.
\<close>

lemma fold_fun_upd_const:
  "fold (\<lambda>i m. m(i := c)) [0..<n] m = (\<lambda>i. if i < n then c else m i)"
  by (induction n) (auto simp: fun_eq_iff)

lemma fold_fun_upd_shift:
  "fold (\<lambda>i m. m(a + i := c)) [0..<n] m = (\<lambda>i. if a \<le> i \<and> i < a + n then c else m i)"
  for a :: nat
  by (induction n) (auto simp: fun_eq_iff)

section \<open>Fields of words\<close>

lemma unat_bound: "unat w < 2 ^ LENGTH('a)" for w :: "'a::len word"
  by (rule unsigned_less)

lemma unat_drop_div [simp]: "unat (drop_bit n w) = unat w div 2 ^ n" for w :: "'a::len word"
proof -
  have "unat (drop_bit n w) = drop_bit n (unat w)" by (simp only: unat_drop_bit_eq)
  then show ?thesis by (simp only: drop_bit_eq_div)
qed

lemma unat_and_mask_mod: "unat (w AND mask n) = unat w mod 2 ^ n" for w :: "'a::len word"
proof -
  have "w AND mask n = take_bit n w" by (simp only: take_bit_eq_mask)
  then have "unat (w AND mask n) = take_bit n (unat w)" by (simp only: unsigned_take_bit_eq)
  then show ?thesis by (simp only: take_bit_eq_mod)
qed

lemma and_not_mask_clears: "w AND NOT (mask n) = push_bit n (drop_bit n w)" for w :: "'a::len word"
  by (rule bit_word_eqI) (auto simp: bit_and_iff bit_not_iff bit_mask_iff bit_push_bit_iff bit_drop_bit_eq)

lemma unat_align_down: "unat (w AND NOT (mask n)) = unat w div 2 ^ n * 2 ^ n" for w :: "'a::len word"
proof -
  have le: "unat w div 2 ^ n * 2 ^ n \<le> unat w" by simp
  have "unat (push_bit n (drop_bit n w)) = unat w div 2 ^ n * 2 ^ n mod 2 ^ LENGTH('a)"
    unfolding unsigned_push_bit_eq unat_drop_div by (simp only: push_bit_eq_mult take_bit_eq_mod)
  also have "\<dots> = unat w div 2 ^ n * 2 ^ n"
    using le unat_bound [of w] by (intro mod_less) (rule le_less_trans)
  finally show ?thesis by (simp only: and_not_mask_clears)
qed

end
