(* ===== verification/Queue_Interface.thy ===== *)
theory Queue_Interface
  imports Os_Prelude
begin

text \<open>
  The contract of an intrusive queue: what the ready queue of the schedulers and the waiting queue
  of a semaphore rely on.  \<open>holds s l xs\<close> says that in the store \<open>s\<close> the list object
  \<open>l\<close> links exactly the items \<open>xs\<close>, in this order; an item may be linked only if it is
  \<open>fresh\<close> for the list.  An operation that returns \<open>None\<close> does not come back.
\<close>

locale intrusive_queue =
  fixes holds :: "'s \<Rightarrow> 'l \<Rightarrow> 'x list \<Rightarrow> bool"
    and fresh :: "'l \<Rightarrow> 'x list \<Rightarrow> 'x \<Rightarrow> bool"
    and pushb :: "'l \<Rightarrow> 'x \<Rightarrow> 's \<Rightarrow> 's option"
    and pushf :: "'l \<Rightarrow> 'x \<Rightarrow> 's \<Rightarrow> 's option"
    and popf :: "'l \<Rightarrow> 's \<Rightarrow> 's option"
    and frontq :: "'s \<Rightarrow> 'l \<Rightarrow> 'x option"
  assumes pushb_holds: "holds s l xs \<Longrightarrow> fresh l xs x \<Longrightarrow> \<exists>s'. pushb l x s = Some s' \<and> holds s' l (xs @ [x])"
    and pushf_holds: "holds s l xs \<Longrightarrow> fresh l xs x \<Longrightarrow> \<exists>s'. pushf l x s = Some s' \<and> holds s' l (x # xs)"
    and popf_holds: "holds s l xs \<Longrightarrow> \<exists>s'. popf l s = Some s' \<and> holds s' l (tl xs)"
    and front_holds: "holds s l xs \<Longrightarrow> frontq s l = (case xs of [] \<Rightarrow> None | x # _ \<Rightarrow> Some x)"
    and fresh_snoc: "fresh l (xs @ [y]) x \<longleftrightarrow> fresh l xs x \<and> x \<noteq> y"
begin

primrec push_all :: "'l \<Rightarrow> 'x list \<Rightarrow> 's \<Rightarrow> 's option" where
  "push_all l [] s = Some s"
| "push_all l (x # xs) s = Option.bind (pushb l x s) (push_all l xs)"

primrec drain :: "nat \<Rightarrow> 'l \<Rightarrow> 's \<Rightarrow> ('x list \<times> 's) option" where
  "drain 0 l s = Some ([], s)"
| "drain (Suc n) l s =
     (case frontq s l of None \<Rightarrow> Some ([], s)
      | Some x \<Rightarrow> Option.bind (popf l s) (\<lambda>s'. map_option (map_prod ((#) x) id) (drain n l s')))"

lemma push_all_holds:
  assumes "holds s l xs" and "distinct ys" and "\<forall>y\<in>set ys. fresh l xs y"
  shows "\<exists>s'. push_all l ys s = Some s' \<and> holds s' l (xs @ ys)"
  using assms
proof (induction ys arbitrary: s xs)
  case (Cons y ys)
  then obtain s1 where s1: "pushb l y s = Some s1" "holds s1 l (xs @ [y])"
    using pushb_holds [of s l xs y] by auto
  have "\<forall>z\<in>set ys. fresh l (xs @ [y]) z" using Cons.prems by (auto simp: fresh_snoc)
  with Cons.IH [OF s1(2)] Cons.prems(2) s1(1) show ?case by auto
qed simp

lemma drain_holds:
  "holds s l xs \<Longrightarrow> \<exists>s'. drain n l s = Some (take n xs, s') \<and> holds s' l (drop n xs)"
proof (induction n arbitrary: s xs)
  case (Suc n)
  show ?case
  proof (cases xs)
    case Nil
    then show ?thesis using Suc.prems front_holds [OF Suc.prems] by simp
  next
    case (Cons x ys)
    then obtain s1 where s1: "popf l s = Some s1" "holds s1 l ys"
      using popf_holds [OF Suc.prems] by auto
    then show ?thesis using Suc.IH [OF s1(2)] front_holds [OF Suc.prems] Cons by auto
  qed
qed simp

text \<open>First in, first out: items queued in some order leave in that order.\<close>

lemma fifo:
  assumes "holds s l []" and "distinct ys" and "\<forall>y\<in>set ys. fresh l [] y"
  shows "\<exists>s' s''. push_all l ys s = Some s' \<and> drain (length ys) l s' = Some (ys, s'') \<and> holds s'' l []"
proof -
  obtain s' where s': "push_all l ys s = Some s'" "holds s' l ys"
    using push_all_holds [OF assms] by auto
  with drain_holds [OF s'(2), of "length ys"] show ?thesis by auto
qed

end

end
