(* ===== verification/Intrusive_List.thy ===== *)
theory Intrusive_List
  imports Queue_Interface
begin

text \<open>
  The intrusive doubly linked list of \<^verbatim>\<open>include/kernel/list.h\<close> and
  \<^verbatim>\<open>src/kernel/list.cpp\<close>.  Items live in one store that all lists share, as the tags inside
  the PCBs do: a store maps an address to the two link fields found there, and a list object is the
  address of its \<^verbatim>\<open>head\<close> item.  A null pointer is \<open>None\<close>.  The operations return
  \<open>None\<close> when the call does not come back, because it walks a cyclic chain for ever or
  dereferences a null pointer.  The theorems show that on a well-formed list every operation
  returns and does to the links what its list counterpart does to the sequence of items.
\<close>

section \<open>Store and operations\<close>

type_synonym addr = nat
type_synonym ptr = "addr option"

record ListItem =
  previous :: ptr
  "next" :: ptr

type_synonym store = "addr \<Rightarrow> ListItem"

definition set_next :: "addr \<Rightarrow> ptr \<Rightarrow> store \<Rightarrow> store" where
  "set_next a p s = s(a := (s a)\<lparr>next := p\<rparr>)"

definition set_prev :: "addr \<Rightarrow> ptr \<Rightarrow> store \<Rightarrow> store" where
  "set_prev a p s = s(a := (s a)\<lparr>previous := p\<rparr>)"

definition List_initialize :: "addr \<Rightarrow> store \<Rightarrow> store" where
  "List_initialize l s = set_next l None (set_prev l None s)"

partial_function (option) size_loop :: "store \<Rightarrow> ptr \<Rightarrow> int \<Rightarrow> int option" where
  "size_loop s temp counter =
     (case temp of None \<Rightarrow> Some counter | Some a \<Rightarrow> size_loop s (next (s a)) (counter + 1))"

definition List_size :: "store \<Rightarrow> addr \<Rightarrow> int option" where
  "List_size s l = size_loop s (next (s l)) 0"

definition List_empty :: "store \<Rightarrow> addr \<Rightarrow> bool option" where
  "List_empty s l = map_option (\<lambda>n. n = 0) (List_size s l)"

partial_function (option) back_loop :: "store \<Rightarrow> addr \<Rightarrow> addr option" where
  "back_loop s temp = (case next (s temp) of None \<Rightarrow> Some temp | Some a \<Rightarrow> back_loop s a)"

definition List_back :: "store \<Rightarrow> addr \<Rightarrow> ptr option" where
  "List_back s l =
     (case next (s l) of None \<Rightarrow> Some None | Some temp \<Rightarrow> map_option Some (back_loop s temp))"

definition List_push_back :: "addr \<Rightarrow> addr \<Rightarrow> store \<Rightarrow> store option" where
  "List_push_back l item s =
     map_option (\<lambda>b. let temp = (case b of None \<Rightarrow> l | Some t \<Rightarrow> t)
       in set_next item None (set_prev item (Some temp) (set_next temp (Some item) s)))
     (List_back s l)"

definition List_pop_back :: "addr \<Rightarrow> store \<Rightarrow> store option" where
  "List_pop_back l s =
     (case List_back s l of
        None \<Rightarrow> None
      | Some None \<Rightarrow> Some s
      | Some (Some temp) \<Rightarrow>
          (case previous (s temp) of
             None \<Rightarrow> None
           | Some p \<Rightarrow> Some (set_prev temp None (set_next temp None (set_next p None s)))))"

definition List_front :: "store \<Rightarrow> addr \<Rightarrow> ptr" where
  "List_front s l = next (s l)"

definition List_push_front :: "addr \<Rightarrow> addr \<Rightarrow> store \<Rightarrow> store" where
  "List_push_front l item s =
     (let temp = next (s l);
          s1 = (case temp of None \<Rightarrow> s | Some t \<Rightarrow> set_prev t (Some item) s)
      in set_next item temp (set_prev item (Some l) (set_next l (Some item) s1)))"

definition List_pop_front :: "addr \<Rightarrow> store \<Rightarrow> store" where
  "List_pop_front l s =
     (case next (s l) of
        None \<Rightarrow> s
      | Some temp \<Rightarrow>
          let s1 = (case next (s temp) of None \<Rightarrow> s | Some n \<Rightarrow> set_prev n (Some l) s);
              s2 = set_next l (next (s1 temp)) s1
          in set_prev temp None (set_next temp None s2))"

function at_loop :: "store \<Rightarrow> ptr \<Rightarrow> int \<Rightarrow> int \<Rightarrow> ptr" where
  "at_loop s temp i pos =
     (case temp of
        None \<Rightarrow> None
      | Some a \<Rightarrow> if i < pos then at_loop s (next (s a)) (i + 1) pos else temp)"
  by pat_completeness auto
termination
  by (relation "measure (\<lambda>(s, temp, i, pos). nat (pos - i))") auto

definition List_at :: "store \<Rightarrow> addr \<Rightarrow> int \<Rightarrow> ptr" where
  "List_at s l pos = at_loop s (next (s l)) 0 pos"

text \<open>Unlinking one item: the tail shared by both \<^verbatim>\<open>erase\<close> functions.\<close>

definition unlink :: "addr \<Rightarrow> store \<Rightarrow> store option" where
  "unlink temp s =
     (case previous (s temp) of
        None \<Rightarrow> None
      | Some p \<Rightarrow>
          let s1 = set_next p (next (s temp)) s
          in Some (case next (s1 temp) of
               None \<Rightarrow> s1 | Some n \<Rightarrow> set_prev n (previous (s1 temp)) s1))"

definition List_insert :: "int \<Rightarrow> addr \<Rightarrow> addr \<Rightarrow> store \<Rightarrow> store option" where
  "List_insert pos l item s =
     (if pos = 0 then Some (List_push_front l item s)
      else Option.bind (List_size s l) (\<lambda>len.
        if pos = len then List_push_back l item s
        else if pos < len then
          (case List_at s l pos of
             None \<Rightarrow> None
           | Some temp \<Rightarrow>
               let s1 = set_prev item (previous (s temp)) s;
                   s2 = set_next item (Some temp) s1
               in case previous (s2 temp) of
                    None \<Rightarrow> None
                  | Some p \<Rightarrow> Some (set_prev temp (Some item) (set_next p (Some item) s2)))
        else Some s))"

definition List_erase_pos :: "int \<Rightarrow> addr \<Rightarrow> store \<Rightarrow> store option" where
  "List_erase_pos pos l s =
     (if pos = 0 then Some (List_pop_front l s)
      else Option.bind (List_size s l) (\<lambda>len.
        if pos < len then (case List_at s l pos of None \<Rightarrow> None | Some temp \<Rightarrow> unlink temp s)
        else Some s))"

partial_function (option) seek :: "store \<Rightarrow> ptr \<Rightarrow> addr \<Rightarrow> int \<Rightarrow> (ptr \<times> int) option" where
  "seek s temp item pos =
     (case temp of
        None \<Rightarrow> Some (None, pos)
      | Some a \<Rightarrow> if a = item then Some (temp, pos) else seek s (next (s a)) item (pos + 1))"

definition List_erase :: "addr \<Rightarrow> addr \<Rightarrow> store \<Rightarrow> store option" where
  "List_erase l item s =
     Option.bind (seek s (next (s l)) item 0)
       (\<lambda>(temp, _). case temp of None \<Rightarrow> Some s | Some a \<Rightarrow> unlink a s)"

definition List_find :: "store \<Rightarrow> addr \<Rightarrow> addr \<Rightarrow> int option" where
  "List_find s l item =
     map_option (\<lambda>(temp, pos). if temp = Some item then pos else - 1) (seek s (next (s l)) item 0)"

partial_function (option) clear_loop :: "ptr \<Rightarrow> store \<Rightarrow> store option" where
  "clear_loop temp s =
     (case temp of
        None \<Rightarrow> Some s
      | Some a \<Rightarrow> clear_loop (next (s a)) (set_prev a None (set_next a None s)))"

definition List_clear :: "addr \<Rightarrow> store \<Rightarrow> store option" where
  "List_clear l s =
     map_option (\<lambda>s'. set_prev l None (set_next l None s')) (clear_loop (next (s l)) s)"

declare at_loop.simps [simp del]

section \<open>Well-formed lists\<close>

primrec linked :: "store \<Rightarrow> addr \<Rightarrow> addr list \<Rightarrow> bool" where
  "linked s a [] \<longleftrightarrow> True"
| "linked s a (x # xs) \<longleftrightarrow> next (s a) = Some x \<and> previous (s x) = Some a \<and> linked s x xs"

definition list_at :: "store \<Rightarrow> addr \<Rightarrow> addr list \<Rightarrow> bool" where
  "list_at s l xs \<longleftrightarrow> distinct (l # xs) \<and> linked s l xs \<and> next (s (last (l # xs))) = None"

lemma next_set_next [simp]: "next (set_next a p s b) = (if b = a then p else next (s b))"
  and prev_set_next [simp]: "previous (set_next a p s b) = previous (s b)"
  and next_set_prev [simp]: "next (set_prev a p s b) = next (s b)"
  and prev_set_prev [simp]: "previous (set_prev a p s b) = (if b = a then p else previous (s b))"
  by (simp_all add: set_next_def set_prev_def)

lemma set_next_other [simp]: "b \<noteq> a \<Longrightarrow> set_next a p s b = s b"
  and set_prev_other [simp]: "b \<noteq> a \<Longrightarrow> set_prev a p s b = s b"
  by (simp_all add: set_next_def set_prev_def)

lemma linked_append: "linked s a (xs @ ys) \<longleftrightarrow> linked s a xs \<and> linked s (last (a # xs)) ys"
  by (induction xs arbitrary: a) auto

lemma linked_frame:
  assumes "\<forall>y\<in>set (butlast (a # xs)). next (s' y) = next (s y)"
    and "\<forall>y\<in>set xs. previous (s' y) = previous (s y)"
  shows "linked s' a xs = linked s a xs"
  using assms by (induction xs arbitrary: a) (auto split: if_splits)

lemma linked_set_next [simp]: "c \<notin> set (a # xs) \<Longrightarrow> linked (set_next c p s) a xs = linked s a xs"
  by (rule linked_frame) (auto dest!: in_set_butlastD split: if_splits)

lemma linked_set_prev [simp]: "c \<notin> set xs \<Longrightarrow> linked (set_prev c p s) a xs = linked s a xs"
  by (rule linked_frame) auto

lemma butlast_notin: "distinct (a # xs) \<Longrightarrow> last (a # xs) \<notin> set (butlast (a # xs))"
  by (metis append_butlast_last_id distinct.simps(2) distinct_append disjoint_iff list.distinct(1)
      list.set_intros(1))

text \<open>Redirecting the last item's \<^verbatim>\<open>next\<close> does not disturb the links inside the chain.\<close>

lemma linked_set_last:
  "distinct (a # xs) \<Longrightarrow> t = last (a # xs) \<Longrightarrow> linked (set_next t p s) a xs = linked s a xs"
  using butlast_notin [of a xs] by (intro linked_frame) auto

section \<open>The loops on a well-formed chain\<close>

lemma size_loop_chain:
  "linked s a xs \<Longrightarrow> next (s (last (a # xs))) = None \<Longrightarrow>
     size_loop s (next (s a)) c = Some (c + int (length xs))"
proof (induction xs arbitrary: a c)
  case Nil
  then show ?case by (simp add: size_loop.simps)
next
  case (Cons x xs)
  then have "size_loop s (next (s x)) (c + 1) = Some (c + 1 + int (length xs))" by simp
  with Cons.prems show ?case by (subst size_loop.simps) simp
qed

lemma back_loop_chain:
  "linked s a xs \<Longrightarrow> next (s (last (a # xs))) = None \<Longrightarrow> back_loop s a = Some (last (a # xs))"
  by (induction xs arbitrary: a) (auto simp: back_loop.simps)

lemma at_loop_chain:
  "linked s a xs \<Longrightarrow> next (s (last (a # xs))) = None \<Longrightarrow>
     at_loop s (next (s a)) i pos =
       (let k = nat (pos - i) in if k < length xs then Some (xs ! k) else None)"
proof (induction xs arbitrary: a i)
  case Nil
  then show ?case by (simp add: at_loop.simps)
next
  case (Cons x xs)
  then have IH: "at_loop s (next (s x)) (i + 1) pos =
      (let k = nat (pos - (i + 1)) in if k < length xs then Some (xs ! k) else None)" by simp
  show ?case
  proof (cases "i < pos")
    case True
    then have "nat (pos - i) = Suc (nat (pos - (i + 1)))" by simp
    with Cons.prems IH True show ?thesis by (subst at_loop.simps) simp
  next
    case False
    with Cons.prems show ?thesis by (subst at_loop.simps) simp
  qed
qed

lemma seek_chain:
  "linked s a xs \<Longrightarrow> next (s (last (a # xs))) = None \<Longrightarrow>
     seek s (next (s a)) item p =
       Some (if item \<in> set xs then Some item else None,
             p + int (length (takeWhile (\<lambda>y. y \<noteq> item) xs)))"
proof (induction xs arbitrary: a p)
  case Nil
  then show ?case by (simp add: seek.simps)
next
  case (Cons x xs)
  then have "seek s (next (s x)) item (p + 1) =
      Some (if item \<in> set xs then Some item else None,
            p + 1 + int (length (takeWhile (\<lambda>y. y \<noteq> item) xs)))" by simp
  with Cons.prems show ?case by (subst seek.simps) auto
qed

primrec forward :: "store \<Rightarrow> ptr \<Rightarrow> addr list \<Rightarrow> bool" where
  "forward s p [] \<longleftrightarrow> p = None"
| "forward s p (x # xs) \<longleftrightarrow> p = Some x \<and> forward s (next (s x)) xs"

lemma forward_chain: "linked s a xs \<Longrightarrow> next (s (last (a # xs))) = None \<Longrightarrow> forward s (next (s a)) xs"
  by (induction xs arbitrary: a) auto

lemma forward_frame: "\<forall>y\<in>set xs. next (s' y) = next (s y) \<Longrightarrow> forward s' p xs = forward s p xs"
  by (induction xs arbitrary: p) auto

lemma clear_loop_chain:
  "forward s p xs \<Longrightarrow> distinct xs \<Longrightarrow>
     \<exists>s'. clear_loop p s = Some s' \<and>
       (\<forall>y. s' y = (if y \<in> set xs then \<lparr>previous = None, next = None\<rparr> else s y))"
proof (induction xs arbitrary: p s)
  case Nil
  then show ?case by (simp add: clear_loop.simps)
next
  case (Cons x xs)
  define t where "t = set_prev x None (set_next x None s)"
  have "forward t (next (s x)) xs = forward s (next (s x)) xs"
    using Cons.prems by (intro forward_frame) (auto simp: t_def)
  then obtain s' where s': "clear_loop (next (s x)) t = Some s'"
      "\<forall>y. s' y = (if y \<in> set xs then \<lparr>previous = None, next = None\<rparr> else t y)"
    using Cons.IH [of t "next (s x)"] Cons.prems by auto
  moreover have "clear_loop p s = clear_loop (next (s x)) t"
    using Cons.prems by (subst clear_loop.simps) (simp add: t_def)
  moreover have "t y = (if y = x then \<lparr>previous = None, next = None\<rparr> else s y)" for y
    by (simp add: t_def set_prev_def set_next_def)
  ultimately show ?case by auto
qed

section \<open>Each operation on a well-formed list\<close>

lemma list_atD:
  assumes "list_at s l xs"
  shows "distinct (l # xs)" "linked s l xs" "next (s (last (l # xs))) = None"
  using assms by (simp_all add: list_at_def)

lemma List_size_at: "list_at s l xs \<Longrightarrow> List_size s l = Some (int (length xs))"
  using size_loop_chain [of s l xs 0] by (simp add: List_size_def list_at_def)

lemma List_back_at:
  assumes "list_at s l xs"
  shows "List_back s l = Some (if xs = [] then None else Some (last xs))"
proof (cases xs)
  case (Cons y ys)
  then show ?thesis
    using assms back_loop_chain [of s y ys] by (simp add: List_back_def list_at_def)
qed (use assms in \<open>simp add: List_back_def list_at_def\<close>)

lemma List_front_at: "list_at s l xs \<Longrightarrow> List_front s l = (case xs of [] \<Rightarrow> None | x # _ \<Rightarrow> Some x)"
  by (auto simp: List_front_def list_at_def split: list.splits)

lemma List_at_at:
  "list_at s l xs \<Longrightarrow>
     List_at s l pos = (if nat pos < length xs then Some (xs ! nat pos) else None)"
  using at_loop_chain [of s l xs 0 pos] by (simp add: List_at_def list_at_def Let_def)

text \<open>
  An operation leaves every item outside the list (and the item it is given) untouched:
  \<open>only s s' A\<close>.
\<close>

definition only :: "store \<Rightarrow> store \<Rightarrow> addr set \<Rightarrow> bool" where
  "only s s' A \<longleftrightarrow> (\<forall>y. y \<notin> A \<longrightarrow> s' y = s y)"

lemma only_refl: "only s s A"
  and only_set_next: "only s s' A \<Longrightarrow> a \<in> A \<Longrightarrow> only s (set_next a p s') A"
  and only_set_prev: "only s s' A \<Longrightarrow> a \<in> A \<Longrightarrow> only s (set_prev a p s') A"
  by (auto simp: only_def set_next_def set_prev_def)

lemmas only_intros = only_set_next only_set_prev only_refl

lemma List_push_back_at:
  assumes "list_at s l xs" and "x \<notin> set (l # xs)"
  shows "\<exists>s'. List_push_back l x s = Some s' \<and> list_at s' l (xs @ [x]) \<and> only s s' (set (l # x # xs))"
proof -
  define t where "t = last (l # xs)"
  define s' where "s' = set_next x None (set_prev x (Some t) (set_next t (Some x) s))"
  note d = list_atD [OF assms(1)]
  have t: "t \<in> set (l # xs)" using last_in_set [of "l # xs"] by (simp add: t_def)
  have eq: "List_push_back l x s = Some s'"
    by (simp add: List_push_back_def List_back_at [OF assms(1)] s'_def t_def Let_def)
  have "linked s' l xs"
    using d(2) assms(2) linked_set_last [OF d(1) t_def] by (simp add: s'_def)
  moreover have "x \<noteq> t" using t assms(2) by auto
  then have "linked s' t [x]" "next (s' x) = None" by (simp_all add: s'_def)
  ultimately have "list_at s' l (xs @ [x])"
    using d(1) assms(2) unfolding list_at_def linked_append t_def by simp
  moreover have "only s s' (set (l # x # xs))"
    unfolding s'_def using t by (intro only_intros) auto
  ultimately show ?thesis using eq by blast
qed

lemma List_pop_back_at:
  assumes "list_at s l (xs @ [x])"
  shows "\<exists>s'. List_pop_back l s = Some s' \<and> list_at s' l xs \<and> only s s' (set (l # x # xs)) \<and>
    s' x = \<lparr>previous = None, next = None\<rparr>"
proof -
  define t where "t = last (l # xs)"
  define s' where "s' = set_prev x None (set_next x None (set_next t None s))"
  note d = list_atD [OF assms]
  have dl: "distinct (l # xs)" and nx: "x \<notin> set (l # xs)" and lk: "linked s l xs"
    using d by (auto simp: linked_append)
  have t: "t \<in> set (l # xs)" using last_in_set [of "l # xs"] by (simp add: t_def)
  have "previous (s x) = Some t" using d(2) by (simp add: linked_append t_def)
  then have eq: "List_pop_back l s = Some s'"
    by (simp add: List_pop_back_def List_back_at [OF assms] s'_def)
  have "linked s' l xs" using linked_set_last [OF dl t_def] nx lk by (simp add: s'_def)
  moreover have "next (s' t) = None" by (simp add: s'_def)
  ultimately have "list_at s' l xs" using dl by (simp add: list_at_def t_def)
  moreover have "only s s' (set (l # x # xs))"
    unfolding s'_def using t by (intro only_intros) auto
  moreover have "x \<noteq> t" using t nx by auto
  ultimately show ?thesis using eq d(3) by (simp add: s'_def set_prev_def set_next_def)
qed

lemma List_push_front_at:
  assumes "list_at s l xs" and "x \<notin> set (l # xs)"
  shows "list_at (List_push_front l x s) l (x # xs) \<and>
    only s (List_push_front l x s) (set (l # x # xs))"
proof (cases xs)
  case Nil
  then show ?thesis using assms by (auto simp: list_at_def List_push_front_def only_def)
next
  case (Cons y ys)
  have "last xs \<in> set xs" using Cons by simp
  then have "last xs \<noteq> x" "last xs \<noteq> l" using assms by (auto simp: list_at_def)
  then show ?thesis
    using assms Cons by (auto simp: list_at_def List_push_front_def only_def Let_def)
qed

lemma List_pop_front_nil: "list_at s l [] \<Longrightarrow> List_pop_front l s = s"
  by (simp add: list_at_def List_pop_front_def)

lemma List_pop_front_at:
  assumes "list_at s l (x # xs)"
  shows "list_at (List_pop_front l s) l xs \<and> only s (List_pop_front l s) (set (l # x # xs)) \<and>
    List_pop_front l s x = \<lparr>previous = None, next = None\<rparr>"
proof (cases xs)
  case Nil
  then show ?thesis
    using assms by (auto simp: list_at_def List_pop_front_def only_def set_prev_def set_next_def Let_def)
next
  case (Cons y ys)
  define s' where "s' = set_prev x None (set_next x None (set_next l (Some y) (set_prev y (Some l) s)))"
  have d: "distinct (l # x # y # ys)" "next (s l) = Some x" "next (s x) = Some y" "linked s y ys"
      "next (s (last (y # ys))) = None"
    using assms Cons by (auto simp: list_at_def)
  have eq: "List_pop_front l s = s'" using d by (simp add: List_pop_front_def Let_def s'_def)
  have "last (y # ys) \<noteq> x" "last (y # ys) \<noteq> l" using d(1) last_in_set [of "y # ys"] by auto
  then have "linked s' y ys" "next (s' (last (y # ys))) = None" using d by (simp_all add: s'_def)
  then show ?thesis using d Cons unfolding eq by (auto simp: list_at_def only_def s'_def set_prev_def set_next_def)
qed


lemma split_middle:
  assumes "list_at s l (us @ a # vs)" and "t = last (l # us)"
  shows "distinct (l # us @ a # vs)" "linked s l us" "next (s t) = Some a" "previous (s a) = Some t"
    "linked s a vs" "next (s (last (a # vs))) = None" "t \<in> set (l # us)"
  using assms last_in_set [of "l # us"] by (auto simp: list_at_def linked_append)

lemma join_middle:
  assumes "distinct (l # us @ vs)" and "linked s l us" and "linked s (last (l # us)) vs"
    and "next (s (last (last (l # us) # vs))) = None"
  shows "list_at s l (us @ vs)"
  using assms by (auto simp: list_at_def linked_append split: if_splits)

lemma unlink_at:
  assumes "list_at s l (us @ a # vs)"
  shows "\<exists>s'. unlink a s = Some s' \<and> list_at s' l (us @ vs) \<and> only s s' (set (l # us @ vs))"
proof -
  define t where "t = last (l # us)"
  note m = split_middle [OF assms t_def]
  have dl: "distinct (l # us)" and at: "a \<noteq> t" using m(1,7) by auto
  show ?thesis
  proof (cases vs)
    case Nil
    define s' where "s' = set_next t None s"
    have "next (s a) = None" using m(6) Nil by simp
    then have eq: "unlink a s = Some s'" using m(4) at by (simp add: unlink_def s'_def Let_def)
    have "linked s' l us" using linked_set_last [OF dl t_def] m(2) by (simp add: s'_def)
    then have "list_at s' l (us @ vs)"
      using m(1) Nil by (intro join_middle) (auto simp: s'_def t_def)
    moreover have "only s s' (set (l # us @ vs))"
      unfolding s'_def using m(7) by (intro only_intros) auto
    ultimately show ?thesis using eq by blast
  next
    case (Cons v ws)
    define s' where "s' = set_prev v (Some t) (set_next t (Some v) s)"
    have v: "next (s a) = Some v" "linked s v ws" "next (s (last (v # ws))) = None"
      using m(5,6) Cons by auto
    then have eq: "unlink a s = Some s'" using m(4) at by (simp add: unlink_def s'_def Let_def)
    have nt: "t \<notin> set vs" "v \<notin> set us" "v \<notin> set ws" using m(1,7) Cons by auto
    have "linked s' l us" using linked_set_last [OF dl t_def] m(2) nt by (simp add: s'_def)
    moreover have "linked s' t vs" using v nt Cons by (simp add: s'_def)
    moreover have "last vs \<noteq> t" using nt Cons by (metis last_in_set list.distinct(1))
    then have "next (s' (last (t # vs))) = None" using v(3) Cons by (auto simp: s'_def)
    ultimately have "list_at s' l (us @ vs)" using m(1) by (intro join_middle) (auto simp: t_def)
    moreover have "only s s' (set (l # us @ vs))"
      unfolding s'_def using m(7) Cons by (intro only_intros) auto
    ultimately show ?thesis using eq by blast
  qed
qed

text \<open>The pointer surgery of \<^verbatim>\<open>List::insert\<close> in front of an item that is not the first.\<close>

lemma link_before:
  assumes "list_at s l (us @ a # vs)" and "x \<notin> set (l # us @ a # vs)" and "t = last (l # us)"
  shows "list_at (set_prev a (Some x) (set_next t (Some x) (set_next x (Some a) (set_prev x (Some t) s))))
           l (us @ x # a # vs)" (is "list_at ?s l _")
proof -
  note m = split_middle [OF assms(1,3)]
  have dl: "distinct (l # us)" using m(1) by auto
  have ne: "a \<noteq> t" "x \<noteq> t" "x \<noteq> a" "a \<notin> set us" "t \<notin> set (a # vs)"
    using m(1,7) assms(2) by auto
  have "linked ?s l us" using linked_set_last [OF dl assms(3)] m(2) ne assms(2) by simp
  moreover have "linked ?s t (x # a # vs)" using m(1,5) ne assms(2) by auto
  moreover have "last (a # vs) \<noteq> t" "last (a # vs) \<noteq> x"
    using ne assms(2) last_in_set [of "a # vs"] by (metis Un_iff list.distinct(1) list.set_intros(2) set_append)+
  then have "next (?s (last (t # x # a # vs))) = None" using m(6) by auto
  ultimately show ?thesis using m(1) assms(2,3) by (intro join_middle) auto
qed

lemma List_insert_at:
  assumes "list_at s l xs" and "x \<notin> set (l # xs)" and "0 \<le> pos"
  shows "\<exists>s'. List_insert pos l x s = Some s' \<and>
    list_at s' l (if nat pos \<le> length xs then take (nat pos) xs @ x # drop (nat pos) xs else xs)"
proof -
  consider (front) "pos = 0" | (rear) "pos \<noteq> 0" "pos = int (length xs)"
    | (mid) "pos \<noteq> 0" "pos < int (length xs)" | (out) "int (length xs) < pos"
    using assms(3) by linarith
  then show ?thesis
  proof cases
    case front
    then show ?thesis using List_push_front_at [OF assms(1,2)] by (simp add: List_insert_def)
  next
    case rear
    then show ?thesis
      using List_push_back_at [OF assms(1,2)] by (auto simp: List_insert_def List_size_at [OF assms(1)])
  next
    case mid
    define k where "k = nat pos"
    have k: "k < length xs" "0 < k" using mid assms(3) by (auto simp: k_def)
    then have xs: "xs = take k xs @ xs ! k # drop (Suc k) xs" by (simp add: id_take_nth_drop)
    define t where "t = last (l # take k xs)"
    have at: "list_at s l (take k xs @ xs ! k # drop (Suc k) xs)" using assms(1) xs by simp
    note m = split_middle [OF at t_def]
    have "x \<noteq> xs ! k" using assms(2) k by auto
    then have "List_insert pos l x s = Some (set_prev (xs ! k) (Some x)
        (set_next t (Some x) (set_next x (Some (xs ! k)) (set_prev x (Some t) s))))"
      using mid k m(4)
      by (simp add: List_insert_def List_size_at [OF assms(1)] List_at_at [OF assms(1)] k_def Let_def)
    moreover have "x \<notin> set (l # take k xs @ xs ! k # drop (Suc k) xs)"
      using assms(2) xs by metis
    moreover have "drop k xs = xs ! k # drop (Suc k) xs" using k by (simp add: Cons_nth_drop_Suc)
    ultimately show ?thesis using link_before [OF at _ t_def] k by (simp add: k_def)
  next
    case out
    then show ?thesis using assms(1) by (auto simp: List_insert_def List_size_at [OF assms(1)])
  qed
qed

lemma List_erase_at:
  assumes "list_at s l xs"
  shows "\<exists>s'. List_erase l x s = Some s' \<and> list_at s' l (remove1 x xs) \<and> only s s' (set (l # xs) - {x})"
proof (cases "x \<in> set xs")
  case False
  then show ?thesis
    using assms seek_chain [OF list_atD(2,3) [OF assms], of x 0]
    by (simp add: List_erase_def remove1_idem only_refl)
next
  case True
  then obtain us vs where xs: "xs = us @ x # vs" "x \<notin> set us" by (meson split_list_first)
  obtain s' where "unlink x s = Some s'" "list_at s' l (us @ vs)" "only s s' (set (l # us @ vs))"
    using unlink_at assms xs(1) by blast
  moreover have "set (l # us @ vs) \<subseteq> set (l # xs) - {x}" using xs list_atD(1) [OF assms] by auto
  ultimately show ?thesis
    using True xs seek_chain [OF list_atD(2,3) [OF assms], of x 0]
    by (auto simp: List_erase_def remove1_append only_def)
qed

lemma List_erase_pos_at:
  assumes "list_at s l xs" and "0 \<le> pos"
  shows "\<exists>s'. List_erase_pos pos l s = Some s' \<and>
    list_at s' l (take (nat pos) xs @ drop (Suc (nat pos)) xs)"
proof -
  define k where "k = nat pos"
  consider (front) "pos = 0" | (mid) "pos \<noteq> 0" "k < length xs" | (out) "pos \<noteq> 0" "length xs \<le> k"
    by linarith
  then show ?thesis
  proof cases
    case front
    then show ?thesis
      using assms(1) List_pop_front_at [of s l] List_pop_front_nil [of s l]
      by (cases xs) (auto simp: List_erase_pos_def)
  next
    case mid
    then have "list_at s l (take k xs @ xs ! k # drop (Suc k) xs)"
      using assms(1) by (simp add: id_take_nth_drop [symmetric])
    then show ?thesis
      using unlink_at mid assms(2)
      by (fastforce simp: List_erase_pos_def List_size_at [OF assms(1)] List_at_at [OF assms(1)] k_def)
  next
    case out
    then show ?thesis
      using assms by (auto simp: List_erase_pos_def List_size_at [OF assms(1)] k_def)
  qed
qed

lemma List_find_at:
  assumes "list_at s l xs"
  shows "List_find s l x =
    Some (if x \<in> set xs then int (length (takeWhile (\<lambda>y. y \<noteq> x) xs)) else - 1)"
  using seek_chain [OF list_atD(2,3) [OF assms], of x 0] by (simp add: List_find_def)

lemma List_clear_at:
  assumes "list_at s l xs"
  shows "\<exists>s'. List_clear l s = Some s' \<and> list_at s' l [] \<and>
    (\<forall>y. s' y = (if y \<in> set (l # xs) then \<lparr>previous = None, next = None\<rparr> else s y))"
proof -
  note d = list_atD [OF assms]
  obtain s1 where s1: "clear_loop (next (s l)) s = Some s1"
      "\<forall>y. s1 y = (if y \<in> set xs then \<lparr>previous = None, next = None\<rparr> else s y)"
    using clear_loop_chain [OF forward_chain [OF d(2,3)]] d(1) by auto
  then show ?thesis
    by (auto simp: List_clear_def list_at_def set_prev_def set_next_def)
qed

lemma List_initialize_at: "list_at (List_initialize l s) l []"
  by (simp add: List_initialize_def list_at_def)


text \<open>A list that shares no item with what an operation touches is unaffected by it.\<close>

lemma list_at_frame:
  assumes "list_at s l xs" and "only s s' A" and "A \<inter> set (l # xs) = {}"
  shows "list_at s' l xs"
proof -
  have same: "s' y = s y" if "y \<in> set (l # xs)" for y
    using assms(2,3) that by (auto simp: only_def)
  have "linked s' l xs = linked s l xs"
    using same in_set_butlastD [of _ "l # xs"] by (intro linked_frame) auto
  moreover have "s' (last (l # xs)) = s (last (l # xs))"
    using same last_in_set [of "l # xs"] by blast
  ultimately show ?thesis using assms(1) by (simp add: list_at_def)
qed

section \<open>The queue contract\<close>

interpretation ilist: intrusive_queue list_at "\<lambda>l xs x. x \<notin> set (l # xs)" List_push_back
  "\<lambda>l x s. Some (List_push_front l x s)" "\<lambda>l s. Some (List_pop_front l s)" List_front
proof unfold_locales
  fix s :: store and l x y :: addr and xs :: "addr list"
  show "x \<notin> set (l # xs @ [y]) \<longleftrightarrow> x \<notin> set (l # xs) \<and> x \<noteq> y" by auto
  assume a: "list_at s l xs"
  show "List_front s l = (case xs of [] \<Rightarrow> None | x # _ \<Rightarrow> Some x)" using a by (rule List_front_at)
  show "\<exists>s'. Some (List_pop_front l s) = Some s' \<and> list_at s' l (tl xs)"
    using a List_pop_front_at [of s l] List_pop_front_nil [of s l] by (cases xs) auto
  assume "x \<notin> set (l # xs)"
  with a show "\<exists>s'. List_push_back l x s = Some s' \<and> list_at s' l (xs @ [x])"
    "\<exists>s'. Some (List_push_front l x s) = Some s' \<and> list_at s' l (x # xs)"
    using List_push_back_at List_push_front_at by blast+
qed

section \<open>Properties\<close>

text \<open>
  \<^bold>\<open>C2\<close>: on a well-formed list every mutating member function of \<^verbatim>\<open>List\<close> returns and leaves
  a well-formed list whose sequence of items is the obvious function of the old one: append, prepend,
  drop the first, drop the last, insert at a position, delete a position, delete an item, clear.
\<close>

theorem List_operations_refine:
  assumes "list_at s l xs" and "x \<notin> set (l # xs)" and "0 \<le> pos"
  shows "(\<exists>s'. List_push_back l x s = Some s' \<and> list_at s' l (xs @ [x])) \<and>
    list_at (List_push_front l x s) l (x # xs) \<and>
    list_at (List_pop_front l s) l (tl xs) \<and>
    (\<exists>s'. List_pop_back l s = Some s' \<and> list_at s' l (butlast xs)) \<and>
    (\<exists>s'. List_insert pos l x s = Some s' \<and>
       list_at s' l (if nat pos \<le> length xs then take (nat pos) xs @ x # drop (nat pos) xs else xs)) \<and>
    (\<exists>s'. List_erase_pos pos l s = Some s' \<and>
       list_at s' l (take (nat pos) xs @ drop (Suc (nat pos)) xs)) \<and>
    (\<exists>s'. List_erase l y s = Some s' \<and> list_at s' l (remove1 y xs)) \<and>
    (\<exists>s'. List_clear l s = Some s' \<and> list_at s' l [])"
proof (intro conjI)
  show "\<exists>s'. List_pop_back l s = Some s' \<and> list_at s' l (butlast xs)"
    using assms(1) List_pop_back_at [of s l "butlast xs" "last xs"]
    by (cases "xs = []") (auto simp: List_pop_back_def List_back_at)
  show "list_at (List_pop_front l s) l (tl xs)"
    using ilist.popf_holds [OF assms(1)] by simp
  show "\<exists>s'. List_push_back l x s = Some s' \<and> list_at s' l (xs @ [x])"
    using List_push_back_at [OF assms(1,2)] by blast
  show "list_at (List_push_front l x s) l (x # xs)" using List_push_front_at [OF assms(1,2)] by blast
  show "\<exists>s'. List_erase l y s = Some s' \<and> list_at s' l (remove1 y xs)"
    using List_erase_at [OF assms(1)] by blast
  show "\<exists>s'. List_clear l s = Some s' \<and> list_at s' l []" using List_clear_at [OF assms(1)] by blast
qed (rule List_insert_at [OF assms] List_erase_pos_at [OF assms(1,3)])+

definition list_example :: store where
  "list_example = (\<lambda>_. \<lparr>previous = None, next = None\<rparr>)
     (1 := \<lparr>previous = None, next = Some 5\<rparr>,
      5 := \<lparr>previous = Some 1, next = Some 7\<rparr>,
      7 := \<lparr>previous = Some 5, next = None\<rparr>)"

lemma list_example_at: "list_at list_example 1 [5, 7]"
  by (simp add: list_at_def list_example_def)

theorem List_operations_refine_witness:
  "list_at list_example 1 [5, 7] \<and> 9 \<notin> set [1, 5, 7::nat] \<and>
   (\<exists>s'. List_insert 1 1 9 list_example = Some s' \<and> list_at s' 1 [5, 9, 7]) \<and>
   (\<exists>s'. List_erase 1 5 list_example = Some s' \<and> list_at s' 1 [7])"
  using List_operations_refine [OF list_example_at, of 9 1 5] list_example_at by simp

text \<open>
  The observers of a well-formed list return, and report the length, emptiness, first and
  last item, the item at a position and the position of an item of the sequence it holds.
\<close>

theorem List_observers:
  assumes "list_at s l xs"
  shows "List_size s l = Some (int (length xs)) \<and> List_empty s l = Some (xs = []) \<and>
    List_front s l = (case xs of [] \<Rightarrow> None | x # _ \<Rightarrow> Some x) \<and>
    List_back s l = Some (if xs = [] then None else Some (last xs)) \<and>
    List_at s l pos = (if nat pos < length xs then Some (xs ! nat pos) else None) \<and>
    List_find s l y = Some (if y \<in> set xs then int (length (takeWhile (\<lambda>z. z \<noteq> y) xs)) else - 1)"
  using assms
  by (simp add: List_size_at List_front_at List_back_at List_at_at List_find_at List_empty_def)

theorem List_observers_witness:
  "List_size list_example 1 = Some 2 \<and> List_back list_example 1 = Some (Some 7) \<and>
   List_at list_example 1 1 = Some 7 \<and> List_find list_example 1 6 = Some (- 1)"
  using List_observers [OF list_example_at, of 1 6] by simp

text \<open>
  Items that are appended to an empty list one after the other and then taken from its
  front come out in the order in which they went in, and the list is empty again.
\<close>

theorem List_fifo:
  assumes "list_at s l []" and "distinct ys" and "l \<notin> set ys"
  shows "\<exists>s' s''. ilist.push_all l ys s = Some s' \<and> ilist.drain (length ys) l s' = Some (ys, s'') \<and>
    list_at s'' l []"
  using ilist.fifo [OF assms(1,2)] assms(3) by auto

theorem List_fifo_witness:
  "\<exists>s' s''. ilist.push_all 1 [5, 3, 8] (List_initialize 1 list_example) = Some s' \<and>
     ilist.drain (length [5, 3, 8 :: nat]) 1 s' = Some ([5, 3, 8], s'') \<and> list_at s'' 1 []"
  by (rule List_fifo [OF List_initialize_at]) simp_all

end
