(* ===== verification/Paging_Words.thy ===== *)
theory Paging_Words
  imports Os_Prelude
begin

text \<open>
  The word-level part of paging: the flag bits of \<^verbatim>\<open>include/libc/enum.h\<close>, the mapping-count
  field of a page directory entry, the address arithmetic of the recursive page-table window
  (\<^verbatim>\<open>toPDE\<close>, \<^verbatim>\<open>toPTE\<close>, \<^verbatim>\<open>PTEVA2VADDR\<close>) and the alignment macros of
  \<^verbatim>\<open>include/kernel/memory.h\<close>.
\<close>

section \<open>Constants\<close>

definition PAGE_SIZE :: u32 where "PAGE_SIZE = 4096"

definition PTE_PRESENT :: u32 where "PTE_PRESENT = 0x1"
definition PTE_WRITABLE :: u32 where "PTE_WRITABLE = 0x2"
definition PTE_USER_ACCESS :: u32 where "PTE_USER_ACCESS = 0x4"
definition PTE_ACCESSED :: u32 where "PTE_ACCESSED = 0x20"
definition PTE_DIRTY :: u32 where "PTE_DIRTY = 0x40"
definition PTE_COW :: u32 where "PTE_COW = 0x200"
definition PTE_SWAP :: u32 where "PTE_SWAP = 0x400"
definition PTE_LAZY :: u32 where "PTE_LAZY = 0x800"
definition PTE_GET_ADDRESS :: u32 where "PTE_GET_ADDRESS = 0xfffff000"

definition PDE_PRESENT :: u32 where "PDE_PRESENT = 0x1"
definition PDE_COUNT_MASK :: u32 where "PDE_COUNT_MASK = 0xe00"
definition PDE_GET_ADDRESS :: u32 where "PDE_GET_ADDRESS = 0xfffff000"
definition PDE_KERNEL :: u32 where "PDE_KERNEL = 0xe07"
definition PDE_USER :: u32 where "PDE_USER = 0x7"

definition VP_CLEAR :: u8 where "VP_CLEAR = 0"
definition VP_RW :: u8 where "VP_RW = 0x1"
definition VP_USER :: u8 where "VP_USER = 0x2"
definition VP_COW :: u8 where "VP_COW = 0x4"
definition VP_FILE :: u8 where "VP_FILE = 0x8"
definition VP_SWAP :: u8 where "VP_SWAP = 0x10"

definition PG_RESERVED :: u16 where "PG_RESERVED = 0x1"
definition PG_FREE :: u16 where "PG_FREE = 0x2"
definition PG_LOCKED :: u16 where "PG_LOCKED = 0x8"
definition PG_KERNEL :: u16 where "PG_KERNEL = 0x20"
definition PG_SINGLE :: u16 where "PG_SINGLE = 0x40"

lemmas pte_flag_defs = PTE_PRESENT_def PTE_WRITABLE_def PTE_USER_ACCESS_def PTE_ACCESSED_def PTE_DIRTY_def
  PTE_COW_def PTE_SWAP_def PTE_LAZY_def PTE_GET_ADDRESS_def
lemmas pde_flag_defs = PDE_PRESENT_def PDE_COUNT_MASK_def PDE_GET_ADDRESS_def PDE_KERNEL_def PDE_USER_def
lemmas vp_flag_defs = VP_CLEAR_def VP_RW_def VP_USER_def VP_COW_def VP_FILE_def VP_SWAP_def
lemmas pg_flag_defs = PG_RESERVED_def PG_FREE_def PG_LOCKED_def PG_KERNEL_def PG_SINGLE_def

section \<open>Translations\<close>

definition vPageFlags2PTE :: "u8 \<Rightarrow> u32" where
  "vPageFlags2PTE flags =
     (let pteFlags = (0::u32);
          pteFlags = (if flags AND VP_COW \<noteq> 0 then pteFlags OR PTE_COW
                      else if flags AND VP_RW \<noteq> 0 then pteFlags OR PTE_WRITABLE else pteFlags);
          pteFlags = (if flags AND VP_USER \<noteq> 0 then pteFlags OR PTE_USER_ACCESS else pteFlags);
          pteFlags = (if flags AND VP_SWAP \<noteq> 0 then pteFlags OR PTE_SWAP else pteFlags)
      in pteFlags)"

definition ALIGN :: "u32 \<Rightarrow> u32 \<Rightarrow> u32" where
  "ALIGN align n = (n + (align - 1)) AND NOT (align - 1)"

definition PA2PGI :: "u32 \<Rightarrow> u32" where
  "PA2PGI pa = drop_bit 12 pa"

definition toPDE :: "u32 \<Rightarrow> u32" where
  "toPDE virtualAddress = 0xfffff000 + drop_bit 22 (virtualAddress AND 0xffc00000) * 4"

definition toPTE :: "u32 \<Rightarrow> u32" where
  "toPTE virtualAddress =
     0xffc00000 + drop_bit 10 (virtualAddress AND 0xffc00000) + drop_bit 12 (virtualAddress AND 0x003ff000) * 4"

definition PTEVA2VADDR :: "u32 \<Rightarrow> u32" where
  "PTEVA2VADDR pte_ptr =
     push_bit 22 (drop_bit 12 (pte_ptr - 0xffc00000)) OR
     push_bit 12 (drop_bit 2 (pte_ptr - 0xffc00000) AND 0x3ff)"

section \<open>The mapping count of a page directory entry\<close>

text \<open>The two macros read and write the entry that their pointer argument addresses.\<close>

definition PDE_GET_COUNT :: "u32 \<Rightarrow> u32" where
  "PDE_GET_COUNT pde = drop_bit 9 (pde AND PDE_COUNT_MASK)"

definition PDE_SET_COUNT :: "u32 \<Rightarrow> u32 \<Rightarrow> u32" where
  "PDE_SET_COUNT pde count =
     (pde AND NOT PDE_COUNT_MASK) OR push_bit 9 ((if 7 < count then 7 else count) AND 0x7)"

definition PDEinc :: "u32 \<Rightarrow> u32" where
  "PDEinc pde =
     (let count = PDE_GET_COUNT pde; count = count + 1; count = (if 7 < count then 7 else count)
      in PDE_SET_COUNT pde count)"

text \<open>\<open>None\<close> is the failed assertion \<^verbatim>\<open>count > 0\<close>; the flag says that the last mapping is gone.\<close>

definition PDEdec :: "u32 \<Rightarrow> (bool \<times> u32) option" where
  "PDEdec pde =
     (let count = PDE_GET_COUNT pde in
      if \<not> 0 < count then None
      else if count = 7 then Some (False, pde)
      else let count = count - 1; pde' = PDE_SET_COUNT pde count in Some (count = 0, pde'))"

section \<open>Words\<close>

text \<open>A masked field of a word, read as a number.\<close>

section \<open>The recursive window\<close>

text \<open>Directory index, table index and offset of an address.\<close>

definition dir_ix :: "u32 \<Rightarrow> nat" where "dir_ix v = unat v div 2 ^ 22"
definition tab_ix :: "u32 \<Rightarrow> nat" where "tab_ix v = unat v div 2 ^ 12 mod 2 ^ 10"

lemma dir_ix_less: "dir_ix v < 1024"
  using unat_bound [of v] by (simp add: dir_ix_def less_mult_imp_div_less)

lemma tab_ix_less: "tab_ix v < 1024"
  by (simp add: tab_ix_def)

lemma mask_consts:
  "(0xffc00000::u32) = NOT (mask 22)" "(0xfffff000::u32) = NOT (mask 12)" "(0xfff::u32) = mask 12"
  "(0x3ff::u32) = mask 10" "(0x3ff000::u32) = NOT (mask 12) AND mask 22" "(7::u32) = mask 3"
  by (simp_all add: mask_eq_exp_minus_1)

lemma unat_dir_field: "unat (drop_bit n (v AND 0xffc00000)) = dir_ix v * 2 ^ (22 - n)" if "n \<le> 22" for v :: u32
proof -
  have "unat (v AND 0xffc00000) = dir_ix v * 2 ^ 22"
    unfolding mask_consts unat_align_down by (simp add: dir_ix_def)
  moreover have "(2::nat) ^ 22 = 2 ^ (22 - n) * 2 ^ n" using that by (simp flip: power_add)
  ultimately show ?thesis by (simp only: unat_drop_div mult.assoc [symmetric]) simp
qed

lemma unat_tab_field: "unat (drop_bit 12 (v AND 0x003ff000)) = tab_ix v"
proof -
  have "unat (v AND 0x003ff000) = unat (v AND NOT (mask 12)) mod 2 ^ 22"
    unfolding mask_consts by (simp only: and.assoc [symmetric] unat_and_mask_mod)
  also have "\<dots> = unat v div 2 ^ 12 * 2 ^ 12 mod (2 ^ 10 * 2 ^ 12)" unfolding unat_align_down by simp
  also have "\<dots> = tab_ix v * 2 ^ 12" unfolding tab_ix_def by (rule mod_mult_mult2)
  finally show ?thesis by (simp only: unat_drop_div) simp
qed

lemma unat_toPTE: "unat (toPTE v) = 0xffc00000 + dir_ix v * 4096 + tab_ix v * 4"
proof -
  have f: "unat (drop_bit 10 (v AND 0xffc00000)) = dir_ix v * 4096" using unat_dir_field [of 10 v] by simp
  have g: "unat (drop_bit 12 (v AND 0x003ff000) * 4) = tab_ix v * 4"
    using tab_ix_less [of v] by (subst unat_mult_lem [THEN iffD1]) (simp_all only: unat_tab_field, simp_all)
  have "unat (0xffc00000 + drop_bit 10 (v AND 0xffc00000)) = 0xffc00000 + dir_ix v * 4096"
    using dir_ix_less [of v] by (subst unat_add_lem [THEN iffD1]) (simp_all only: f, simp_all)
  moreover from this have "unat (toPTE v) = unat (0xffc00000 + drop_bit 10 (v AND 0xffc00000)) + tab_ix v * 4"
    unfolding toPTE_def using dir_ix_less [of v] tab_ix_less [of v]
    by (subst unat_add_lem [THEN iffD1]) (simp_all only: g, simp_all)
  ultimately show ?thesis by simp
qed

lemma unat_toPDE: "unat (toPDE v) = 0xfffff000 + dir_ix v * 4"
proof -
  have f: "unat (drop_bit 22 (v AND 0xffc00000)) = dir_ix v" using unat_dir_field [of 22 v] by simp
  have g: "unat (drop_bit 22 (v AND 0xffc00000) * 4) = dir_ix v * 4"
    using dir_ix_less [of v] by (subst unat_mult_lem [THEN iffD1]) (simp_all only: f, simp_all)
  show ?thesis unfolding toPDE_def
    using dir_ix_less [of v] by (subst unat_add_lem [THEN iffD1]) (simp_all only: g, simp_all)
qed

lemma toPTE_ix: "dir_ix (toPTE v) = 1023" "tab_ix (toPTE v) = dir_ix v"
proof -
  have "unat (toPTE v) = 1023 * 2 ^ 22 + (dir_ix v * 4096 + tab_ix v * 4)" by (simp add: unat_toPTE)
  moreover have "dir_ix v * 4096 + tab_ix v * 4 < 2 ^ 22" using dir_ix_less [of v] tab_ix_less [of v] by simp
  ultimately show "dir_ix (toPTE v) = 1023" by (simp add: dir_ix_def)
  have "unat (toPTE v) = (1023 * 1024 + dir_ix v) * 2 ^ 12 + tab_ix v * 4" by (simp add: unat_toPTE)
  moreover have "tab_ix v * 4 < 2 ^ 12" using tab_ix_less [of v] by simp
  ultimately have "unat (toPTE v) div 2 ^ 12 = 1023 * 1024 + dir_ix v"
    by (metis div_mult_self3 div_less add.right_neutral power_not_zero zero_neq_numeral)
  moreover have "(1023 * 1024 + dir_ix v) mod 1024 = dir_ix v"
    using dir_ix_less [of v] by (subst mod_mult_self3) simp
  ultimately show "tab_ix (toPTE v) = dir_ix v" by (simp only: tab_ix_def) simp
qed

lemma toPTE_toPTE: "toPTE (toPTE v) = toPDE v"
proof -
  have "unat (toPTE (toPTE v)) = unat (toPDE v)"
    by (simp add: unat_toPTE [of "toPTE v"] unat_toPDE toPTE_ix)
  then show ?thesis by (rule unsigned_word_eqI)
qed

lemma page_of_ix: "unat (v AND 0xfffff000) = dir_ix v * 2 ^ 22 + tab_ix v * 2 ^ 12"
proof -
  have "unat v div 2 ^ 12 = unat v div 2 ^ 12 div 2 ^ 10 * 2 ^ 10 + unat v div 2 ^ 12 mod 2 ^ 10" by simp
  also have "unat v div 2 ^ 12 div 2 ^ 10 = dir_ix v" by (simp add: dir_ix_def flip: div_mult2_eq)
  finally have "unat v div 2 ^ 12 = dir_ix v * 2 ^ 10 + tab_ix v" by (simp add: tab_ix_def)
  then show ?thesis unfolding mask_consts unat_align_down by simp
qed

section \<open>The count field\<close>

lemma count_mask: "PDE_COUNT_MASK = push_bit 9 (mask 3)"
  by (simp add: PDE_COUNT_MASK_def mask_eq_exp_minus_1)

lemma PDE_GET_COUNT_eq: "PDE_GET_COUNT pde = take_bit 3 (drop_bit 9 pde)"
  unfolding PDE_GET_COUNT_def count_mask
  by (rule bit_word_eqI)
    (auto simp: bit_drop_bit_eq bit_and_iff bit_push_bit_iff bit_mask_iff bit_take_bit_iff)

lemma PDE_SET_COUNT_eq:
  "PDE_SET_COUNT pde c = (pde AND NOT (push_bit 9 (mask 3))) OR push_bit 9 (take_bit 3 (min c 7))"
  by (auto simp: PDE_SET_COUNT_def count_mask min_def mask_consts(6) take_bit_eq_mask)

lemma min_7_take_bit: "take_bit 3 (min c 7) = min c 7" for c :: u32
proof -
  have "unat (min c 7) < 2 ^ 3" by (auto simp: min_def word_le_nat_alt)
  then have "take_bit 3 (unat (min c 7)) = unat (min c 7)" by (simp add: take_bit_eq_mod)
  then show ?thesis by (metis unsigned_take_bit_eq unsigned_word_eqI)
qed

lemma GET_SET_COUNT: "PDE_GET_COUNT (PDE_SET_COUNT pde c) = min c 7"
proof -
  have "PDE_GET_COUNT (PDE_SET_COUNT pde c) = take_bit 3 (take_bit 3 (min c 7))"
    unfolding PDE_GET_COUNT_eq PDE_SET_COUNT_eq
    by (rule bit_word_eqI)
      (auto simp: bit_drop_bit_eq bit_and_iff bit_or_iff bit_not_iff bit_push_bit_iff bit_mask_iff bit_take_bit_iff)
  then show ?thesis by (simp only: min_7_take_bit)
qed

lemma SET_COUNT_rest: "PDE_SET_COUNT pde c AND NOT PDE_COUNT_MASK = pde AND NOT PDE_COUNT_MASK"
  unfolding PDE_SET_COUNT_eq count_mask
  by (rule bit_word_eqI) (auto simp: bit_and_iff bit_or_iff bit_not_iff bit_push_bit_iff bit_mask_iff bit_take_bit_iff)

lemma SET_SET_COUNT: "PDE_SET_COUNT (PDE_SET_COUNT pde c) d = PDE_SET_COUNT pde d"
  unfolding PDE_SET_COUNT_eq
  by (rule bit_word_eqI) (auto simp: bit_and_iff bit_or_iff bit_not_iff bit_push_bit_iff bit_mask_iff bit_take_bit_iff)

lemma PDE_GET_COUNT_le: "PDE_GET_COUNT pde \<le> 7"
proof -
  have "unat (take_bit 3 (drop_bit 9 pde)) = take_bit 3 (unat (drop_bit 9 pde))" by (rule unsigned_take_bit_eq)
  also have "\<dots> < 2 ^ 3" by (rule take_bit_nat_less_exp)
  also have "(2::nat) ^ 3 = 8" by simp
  finally have "unat (PDE_GET_COUNT pde) < 8" unfolding PDE_GET_COUNT_eq .
  then show ?thesis by (simp add: word_le_nat_alt)
qed

lemma SET_GET_COUNT: "PDE_SET_COUNT pde (PDE_GET_COUNT pde) = pde"
proof -
  have "min (PDE_GET_COUNT pde) 7 = PDE_GET_COUNT pde" using PDE_GET_COUNT_le by (simp add: min_absorb1)
  then show ?thesis unfolding PDE_SET_COUNT_eq PDE_GET_COUNT_eq
    by (simp only:) (rule bit_word_eqI,
      auto simp: bit_drop_bit_eq bit_and_iff bit_or_iff bit_not_iff bit_push_bit_iff bit_mask_iff bit_take_bit_iff)
qed

section \<open>Properties\<close>

text \<open>
  \<^bold>\<open>C7\<close>: The page-table window is self-consistent.  The address stored in the reverse map leads
  back to the page it maps; the directory entry of an address is the table entry of its table entry;
  and two addresses share a table entry exactly when they lie in the same page.
\<close>

theorem page_window_roundtrip:
  "(PTEVA2VADDR (toPTE v) = v AND 0xfffff000) \<and>
   (toPTE (toPTE v) = toPDE v) \<and>
   (toPTE v = toPTE w \<longleftrightarrow> v AND 0xfffff000 = w AND 0xfffff000)"
proof (rule conjI [OF _ conjI])
  have sub: "unat (toPTE v - 0xffc00000) = dir_ix v * 4096 + tab_ix v * 4"
    by (subst unat_sub) (simp_all add: word_le_nat_alt unat_toPTE)
  have hi: "unat (drop_bit 12 (toPTE v - 0xffc00000)) = dir_ix v"
    using tab_ix_less [of v] by (simp only: unat_drop_div sub) simp
  have "unat (drop_bit 2 (toPTE v - 0xffc00000) AND mask 10) = (dir_ix v * 1024 + tab_ix v) mod 1024"
    by (simp only: unat_and_mask_mod unat_drop_div sub) simp
  then have lo: "unat (drop_bit 2 (toPTE v - 0xffc00000) AND mask 10) = tab_ix v"
    using tab_ix_less [of v] by simp
  define h l where "h = drop_bit 12 (toPTE v - 0xffc00000)" and "l = drop_bit 2 (toPTE v - 0xffc00000) AND mask 10"
  have uh: "unat (push_bit 22 h) = dir_ix v * 2 ^ 22"
    unfolding unsigned_push_bit_eq h_def hi using dir_ix_less [of v] by (simp add: push_bit_eq_mult take_bit_eq_mod)
  have ul: "unat (push_bit 12 l) = tab_ix v * 2 ^ 12"
    unfolding unsigned_push_bit_eq l_def lo using tab_ix_less [of v] by (simp add: push_bit_eq_mult take_bit_eq_mod)
  have disj: "push_bit 22 h AND push_bit 12 l = 0"
    unfolding l_def by (rule bit_word_eqI) (auto simp: bit_and_iff bit_push_bit_iff bit_mask_iff)
  then have "PTEVA2VADDR (toPTE v) = push_bit 22 h + push_bit 12 l"
    by (simp only: PTEVA2VADDR_def mask_consts(4) h_def l_def disjunctive_add_eq_or)
  moreover have "unat (push_bit 22 h + push_bit 12 l) = dir_ix v * 2 ^ 22 + tab_ix v * 2 ^ 12"
    using dir_ix_less [of v] tab_ix_less [of v]
    by (subst unat_add_lem [THEN iffD1]) (simp_all only: uh ul, simp_all)
  ultimately show "PTEVA2VADDR (toPTE v) = v AND 0xfffff000"
    by (metis page_of_ix unsigned_word_eqI)
  show "toPTE (toPTE v) = toPDE v" by (rule toPTE_toPTE)
  show "toPTE v = toPTE w \<longleftrightarrow> v AND 0xfffff000 = w AND 0xfffff000"
  proof
    assume "toPTE v = toPTE w"
    then have eq: "dir_ix v * 1024 + tab_ix v = dir_ix w * 1024 + tab_ix w"
      using unat_toPTE [of v] unat_toPTE [of w] by simp
    then have "unat (v AND 0xfffff000) = unat (w AND 0xfffff000)" unfolding page_of_ix by simp
    then show "v AND 0xfffff000 = w AND 0xfffff000" by (rule unsigned_word_eqI)
  next
    assume a: "v AND 0xfffff000 = w AND 0xfffff000"
    have "dir_ix v * 1024 + tab_ix v = dir_ix w * 1024 + tab_ix w"
      using page_of_ix [of v] page_of_ix [of w] a by simp
    then have "unat (toPTE v) = unat (toPTE w)" by (simp add: unat_toPTE)
    then show "toPTE v = toPTE w" by (rule unsigned_word_eqI)
  qed
qed

text \<open>
  The mapping count of a directory entry saturates at seven.  \<^verbatim>\<open>PDEinc\<close> adds one up
  to the limit; \<^verbatim>\<open>PDEdec\<close> stops at an assertion on zero, leaves a saturated entry alone for
  ever and otherwise undoes one increment, reporting the last mapping; both keep the other bits.
\<close>

theorem PDE_count_saturates:
  "(PDE_GET_COUNT (PDEinc pde) = min 7 (PDE_GET_COUNT pde + 1)) \<and>
   (PDEinc pde AND NOT PDE_COUNT_MASK = pde AND NOT PDE_COUNT_MASK) \<and>
   (PDEdec pde = None \<longleftrightarrow> PDE_GET_COUNT pde = 0) \<and>
   (PDE_GET_COUNT pde < 6 \<longrightarrow> PDEdec (PDEinc pde) = Some (PDE_GET_COUNT pde = 0, pde)) \<and>
   (6 \<le> PDE_GET_COUNT pde \<longrightarrow> PDEdec (PDEinc pde) = Some (False, PDEinc pde))"
proof (rule conjI [OF _ conjI [OF _ conjI [OF _ conjI [OF impI impI]]]])
  define c where "c = PDE_GET_COUNT pde"
  have c7: "unat c \<le> 7" using PDE_GET_COUNT_le [of pde] by (simp add: c_def word_le_nat_alt)
  then have u1: "unat (c + 1) = unat c + 1" by (subst unat_add_lem [THEN iffD1]) simp_all
  have inc: "PDEinc pde = PDE_SET_COUNT pde (min (c + 1) 7)"
    by (auto simp: PDEinc_def Let_def c_def min_def)
  have get: "PDE_GET_COUNT (PDEinc pde) = min (c + 1) 7" by (simp add: inc GET_SET_COUNT)
  then show "PDE_GET_COUNT (PDEinc pde) = min 7 (PDE_GET_COUNT pde + 1)" by (simp add: c_def min.commute)
  show "PDEinc pde AND NOT PDE_COUNT_MASK = pde AND NOT PDE_COUNT_MASK" by (simp add: inc SET_COUNT_rest)
  show "PDEdec pde = None \<longleftrightarrow> PDE_GET_COUNT pde = 0" 
  proof -
    have "\<not> 0 < c \<longleftrightarrow> c = 0" by (metis word_gt_0)
    then show ?thesis by (auto simp: PDEdec_def Let_def c_def)
  qed
  show "PDEdec (PDEinc pde) = Some (PDE_GET_COUNT pde = 0, pde)" if "PDE_GET_COUNT pde < 6"
  proof -
    have c: "unat c < 6" using that by (simp add: c_def word_less_nat_alt)
    then have m: "min (c + 1) 7 = c + 1" using u1 by (simp add: min_def word_le_nat_alt)
    have "c + 1 \<noteq> 7" "0 < c + 1" using u1 c by (auto simp: word_less_nat_alt)
    then show ?thesis
      by (simp add: PDEdec_def Let_def get m) (simp add: inc SET_SET_COUNT c_def SET_GET_COUNT)
  qed
  show "PDEdec (PDEinc pde) = Some (False, PDEinc pde)" if "6 \<le> PDE_GET_COUNT pde"
  proof -
    have "6 \<le> unat c" using that by (simp add: c_def word_le_nat_alt)
    then have "7 \<le> c + 1" using u1 by (simp add: word_le_nat_alt)
    then have "min (c + 1) 7 = 7" by (rule min_absorb2)
    then show ?thesis by (simp add: PDEdec_def Let_def get)
  qed
qed

theorem PDE_count_saturates_witness:
  "PDEdec (PDEinc 0x5007) = Some (True, 0x5007) \<and> PDEdec (PDEinc 0x5e07) = Some (False, PDEinc 0x5e07)"
proof -
  have "PDE_GET_COUNT 0x5007 = 0" "PDE_GET_COUNT 0x5e07 = 7"
    by (simp_all add: PDE_GET_COUNT_def PDE_COUNT_MASK_def drop_bit_eq_div)
  then show ?thesis using PDE_count_saturates [of "0x5007"] PDE_count_saturates [of "0x5e07"] by simp
qed

text \<open>
  \<^verbatim>\<open>ALIGN\<close> with a power of two rounds up to the next multiple when the sum
  fits in 32 bits, and \<^verbatim>\<open>vPageFlags2PTE\<close> yields only permission bits: never an address bit or
  the present bit, and never a writable copy-on-write page.
\<close>

theorem ALIGN_and_flags:
  fixes n :: u32 and k :: nat
  assumes "k < 32" and "unat n + 2 ^ k \<le> 2 ^ 32"
  shows "(2 ^ k dvd unat (ALIGN (2 ^ k) n) \<and> unat n \<le> unat (ALIGN (2 ^ k) n) \<and> unat (ALIGN (2 ^ k) n) < unat n + 2 ^ k) \<and>
    (vPageFlags2PTE fl AND (PTE_GET_ADDRESS OR PTE_PRESENT) = 0) \<and>
    (vPageFlags2PTE fl AND PTE_COW \<noteq> 0 \<longrightarrow> vPageFlags2PTE fl AND PTE_WRITABLE = 0)"
proof (rule conjI [OF _ conjI [OF _ impI]])
  have m: "(2::u32) ^ k - 1 = mask k" by (simp add: mask_eq_exp_minus_1)
  have "unat (- 1 AND mask k :: u32) = mask 32 mod 2 ^ k"
    unfolding unat_and_mask_mod unsigned_minus_1_eq_mask by simp
  also have "\<dots> = mask (min k 32)" by (simp only: take_bit_of_mask flip: take_bit_eq_mod)
  finally have um: "unat (mask k :: u32) = 2 ^ k - 1" using assms(1) by (simp add: mask_eq_exp_minus_1)
  have "unat (n + mask k) = unat n + (2 ^ k - 1)"
    using assms(2) by (subst unat_add_lem [THEN iffD1]) (simp_all add: um)
  then have al: "unat (ALIGN (2 ^ k) n) = (unat n + (2 ^ k - 1)) div 2 ^ k * 2 ^ k"
    unfolding ALIGN_def m unat_align_down by simp
  define N r where "N = (2::nat) ^ k" and "r = (unat n + (2 ^ k - 1)) mod 2 ^ k"
  have "unat (ALIGN (2 ^ k) n) = unat n + (N - 1) - r"
    unfolding al N_def r_def by (rule minus_mod_eq_div_mult [symmetric])
  moreover have "r < N" "0 < N" by (simp_all add: N_def r_def)
  ultimately have "unat n \<le> unat (ALIGN (2 ^ k) n) \<and> unat (ALIGN (2 ^ k) n) < unat n + N" by linarith
  moreover have "2 ^ k dvd unat (ALIGN (2 ^ k) n)" by (simp add: al)
  ultimately show "2 ^ k dvd unat (ALIGN (2 ^ k) n) \<and> unat n \<le> unat (ALIGN (2 ^ k) n) \<and> unat (ALIGN (2 ^ k) n) < unat n + 2 ^ k"
    by (simp add: N_def)
  show "vPageFlags2PTE fl AND (PTE_GET_ADDRESS OR PTE_PRESENT) = 0"
    by (simp add: vPageFlags2PTE_def Let_def pte_flag_defs bit.conj_disj_distrib2)
  show "vPageFlags2PTE fl AND PTE_COW \<noteq> 0 \<Longrightarrow> vPageFlags2PTE fl AND PTE_WRITABLE = 0"
    by (simp add: vPageFlags2PTE_def Let_def pte_flag_defs split: if_splits)
qed

theorem ALIGN_and_flags_witness:
  "unat (5000 :: u32) \<le> unat (ALIGN (2 ^ 12) 5000) \<and> vPageFlags2PTE (VP_COW OR VP_RW) AND PTE_WRITABLE = 0"
proof -
  have "vPageFlags2PTE (VP_COW OR VP_RW) AND PTE_COW \<noteq> 0"
    by (simp add: vPageFlags2PTE_def vp_flag_defs pte_flag_defs)
  then show ?thesis
    using ALIGN_and_flags [of 12 5000 "VP_COW OR VP_RW"] by simp
qed

end
