(* ===== verification/Mmu.thy ===== *)
theory Mmu
  imports Paging_Words "HOL-Library.Monad_Syntax"
begin

text \<open>
  Two-level address translation and the boot page tables.  Physical memory is a word per (aligned)
  physical address; \<open>translate\<close> is what the processor does with the directory at \<^verbatim>\<open>cr3\<close>, so a
  dereference of a virtual address in the kernel sources is a load or store through it, and a page
  fault is \<open>None\<close>.  The last directory entry maps the directory itself; with that entry in place the
  window addresses \<^verbatim>\<open>toPDE\<close> and \<^verbatim>\<open>toPTE\<close> reach the directory and table entries.  Translations are
  not cached in this model, so \<^verbatim>\<open>asm_invlpg\<close> has no effect.
  \<^verbatim>\<open>src/boot/page.cpp\<close> builds the first directory.
\<close>

type_synonym phys_mem = "u32 \<Rightarrow> u32"

definition dirw :: "u32 \<Rightarrow> u32" where "dirw va = drop_bit 22 va"
definition tabw :: "u32 \<Rightarrow> u32" where "tabw va = drop_bit 12 va AND 0x3ff"

definition pde_at :: "u32 \<Rightarrow> u32 \<Rightarrow> u32" where
  "pde_at cr3 va = cr3 + dirw va * 4"

definition pte_at :: "u32 \<Rightarrow> u32 \<Rightarrow> u32" where
  "pte_at pde va = (pde AND PDE_GET_ADDRESS) + tabw va * 4"

definition translate :: "phys_mem \<Rightarrow> u32 \<Rightarrow> u32 \<Rightarrow> u32 option" where
  "translate m cr3 va =
     (let pde = m (pde_at cr3 va) in
      if pde AND PDE_PRESENT = 0 then None
      else let pte = m (pte_at pde va) in
           if pte AND PTE_PRESENT = 0 then None
           else Some ((pte AND PTE_GET_ADDRESS) + (va AND 0xfff)))"

section \<open>The boot page tables\<close>

definition PAGE_DIRECTORY :: u32 where "PAGE_DIRECTORY = 0x100000"

definition mem_clear :: "u32 \<Rightarrow> phys_mem \<Rightarrow> phys_mem" where
  "mem_clear base m = fold (\<lambda>i m. m(base + word_of_nat i * 4 := 0)) [0..<1024] m"

definition open_page_mechanism :: "phys_mem \<Rightarrow> phys_mem" where
  "open_page_mechanism m =
     (let directory = PAGE_DIRECTORY;
          page = PAGE_DIRECTORY + PAGE_SIZE;
          m = mem_clear page (mem_clear directory m);
          m = fold (\<lambda>i m. m(page + word_of_nat i * 4 := (word_of_nat i * PAGE_SIZE) OR 0x7)) [0..<256] m;
          m = m(directory := page OR PDE_KERNEL);
          m = m(directory + 768 * 4 := page OR PDE_KERNEL);
          m = m(directory + 1023 * 4 := directory OR PDE_KERNEL)
      in fold (\<lambda>i m. let pde = PAGE_DIRECTORY + PAGE_SIZE + word_of_nat i * PAGE_SIZE
                     in mem_clear pde (m(directory + (768 + word_of_nat i) * 4 := pde OR PDE_KERNEL))) [1..<255] m)"

section \<open>Window addresses\<close>

lemma unat_dirw: "unat (dirw v) = dir_ix v"
  by (simp add: dirw_def dir_ix_def)

lemma unat_tabw: "unat (tabw v) = tab_ix v"
  unfolding tabw_def mask_consts(4) unat_and_mask_mod by (simp add: tab_ix_def)

lemma word_eq_unatI: "unat a = unat b \<Longrightarrow> a = b"
  by (rule unsigned_word_eqI)

lemma dirw_toPTE: "dirw (toPTE v) = 1023"
  by (rule word_eq_unatI) (simp add: unat_dirw toPTE_ix)

lemma tabw_toPTE: "tabw (toPTE v) = dirw v"
  by (rule word_eq_unatI) (simp add: unat_dirw unat_tabw toPTE_ix)

lemma unat_tabw4: "unat (tabw v * 4) = tab_ix v * 4"
  using tab_ix_less [of v] by (subst unat_mult_lem [THEN iffD1]) (simp_all add: unat_tabw)

lemma unat_dirw4: "unat (dirw v * 4) = dir_ix v * 4"
  using dir_ix_less [of v] by (subst unat_mult_lem [THEN iffD1]) (simp_all add: unat_dirw)

lemma offset_toPTE: "toPTE v AND 0xfff = tabw v * 4"
proof (rule word_eq_unatI)
  have "unat (toPTE v AND mask 12) = (tab_ix v * 4 + (0xffc00000 div 4096 + dir_ix v) * 4096) mod 4096"
    unfolding unat_and_mask_mod unat_toPTE by (simp add: ac_simps)
  also have "\<dots> = tab_ix v * 4" using tab_ix_less [of v] by (subst mod_mult_self1) simp
  finally show "unat (toPTE v AND 0xfff) = unat (tabw v * 4)" by (simp only: mask_consts(3) unat_tabw4)
qed

lemma dirw_toPDE: "dirw (toPDE v) = 1023" and tabw_toPDE: "tabw (toPDE v) = 1023" and
  offset_toPDE: "toPDE v AND 0xfff = dirw v * 4"
  using dirw_toPTE [of "toPTE v"] tabw_toPTE [of "toPTE v"] dirw_toPTE [of v] offset_toPTE [of "toPTE v"] tabw_toPTE [of v]
  by (simp_all add: toPTE_toPTE)

text \<open>The directory maps itself through its last entry.\<close>

definition self_map :: "phys_mem \<Rightarrow> u32 \<Rightarrow> bool" where
  "self_map m cr3 \<longleftrightarrow> m (cr3 + 4092) AND PDE_PRESENT \<noteq> 0 \<and> m (cr3 + 4092) AND PDE_GET_ADDRESS = cr3"

lemma pde_at_window: "dirw va = 1023 \<Longrightarrow> pde_at cr3 va = cr3 + 4092"
  by (simp add: pde_at_def)

lemma translate_toPDE: "self_map m cr3 \<Longrightarrow> translate m cr3 (toPDE v) = Some (pde_at cr3 v)"
  by (simp add: translate_def pde_at_window dirw_toPDE self_map_def pte_at_def tabw_toPDE offset_toPDE
      PTE_PRESENT_def PDE_PRESENT_def PTE_GET_ADDRESS_def PDE_GET_ADDRESS_def Let_def) (simp add: pde_at_def)

lemma translate_toPTE:
  assumes "self_map m cr3"
  shows "translate m cr3 (toPTE v) =
    (if m (pde_at cr3 v) AND PDE_PRESENT = 0 then None else Some (pte_at (m (pde_at cr3 v)) v))"
  using assms
  by (simp add: translate_def pde_at_window dirw_toPTE self_map_def pte_at_def tabw_toPTE offset_toPTE
      PTE_PRESENT_def PDE_PRESENT_def PTE_GET_ADDRESS_def PDE_GET_ADDRESS_def Let_def) (simp add: pde_at_def)

section \<open>What the boot code builds\<close>

lemma mem_clear_other: "(\<And>i. i < 1024 \<Longrightarrow> a \<noteq> base + word_of_nat i * 4) \<Longrightarrow> mem_clear base m a = m a"
proof -
  have "fold (\<lambda>i m. m(base + word_of_nat i * 4 := 0)) [0..<n] m a = m a" if "\<And>i. i < n \<Longrightarrow> a \<noteq> base + word_of_nat i * 4" for n
    using that by (induction n) auto
  then show "(\<And>i. i < 1024 \<Longrightarrow> a \<noteq> base + word_of_nat i * 4) \<Longrightarrow> mem_clear base m a = m a"
    unfolding mem_clear_def by blast
qed

lemma mem_clear_hit: "i < 1024 \<Longrightarrow> mem_clear base m (base + word_of_nat i * 4) = 0"
proof -
  have "fold (\<lambda>i m. m(base + word_of_nat i * 4 := 0)) [0..<n] m (base + word_of_nat i * 4) = 0" if "i < n" for n
    using that by (induction n) (auto simp: less_Suc_eq)
  then show "i < 1024 \<Longrightarrow> mem_clear base m (base + word_of_nat i * 4) = 0" unfolding mem_clear_def by blast
qed

lemma unat_word_of_nat: "n < 2 ^ 32 \<Longrightarrow> unat (word_of_nat n :: u32) = n"
  by (simp add: unsigned_of_nat take_bit_nat_eq_self_iff)

lemma unat_slot: "b + i * 4 < 2 ^ 32 \<Longrightarrow> unat (word_of_nat b + word_of_nat i * 4 :: u32) = b + i * 4"
proof -
  assume a: "b + i * 4 < 2 ^ 32"
  have "(word_of_nat b + word_of_nat i * 4 :: u32) = word_of_nat (b + i * 4)" by simp
  then show ?thesis using a by (simp only: unat_word_of_nat)
qed

definition kernel_tables :: "nat \<Rightarrow> phys_mem \<Rightarrow> phys_mem" where
  "kernel_tables n m = fold (\<lambda>i m. let pde = PAGE_DIRECTORY + PAGE_SIZE + word_of_nat i * PAGE_SIZE
     in mem_clear pde (m(PAGE_DIRECTORY + (768 + word_of_nat i) * 4 := pde OR PDE_KERNEL))) [1..<n] m"

text \<open>The loop over the kernel's tables leaves the rest of the directory and the first table alone.\<close>

lemma kernel_tables_other:
  assumes "unat a < 0x102000" and "\<And>i. 1 \<le> i \<Longrightarrow> i < n \<Longrightarrow> unat a \<noteq> 0x100000 + (768 + i) * 4" and "n \<le> 255"
  shows "kernel_tables n m a = m a"
  using assms(2,3)
proof (induction n)
  case (Suc n)
  show ?case
  proof (cases "n = 0")
    case False
    have pde: "PAGE_DIRECTORY + PAGE_SIZE + word_of_nat n * PAGE_SIZE = (word_of_nat (0x101000 + n * 4096) :: u32)"
      by (simp add: PAGE_DIRECTORY_def PAGE_SIZE_def)
    have slot: "unat (PAGE_DIRECTORY + (768 + word_of_nat n) * 4 :: u32) = 0x100000 + (768 + n) * 4"
      using unat_slot [of "0x100000" "768 + n"] Suc.prems(2) by (simp add: PAGE_DIRECTORY_def)
    have "a \<noteq> word_of_nat (0x101000 + n * 4096) + word_of_nat i * 4" if "i < 1024" for i
      using unat_slot [of "0x101000 + n * 4096" i] that assms(1) False Suc.prems(2) by auto
    moreover have "a \<noteq> PAGE_DIRECTORY + (768 + word_of_nat n) * 4" using slot Suc.prems(1) [of n] False by auto
    ultimately have "kernel_tables (Suc n) m a = kernel_tables n m a"
      using False by (simp add: kernel_tables_def Let_def pde mem_clear_other)
    then show ?thesis using Suc by simp
  qed (simp add: kernel_tables_def)
qed (simp add: kernel_tables_def)

lemma identity_entry:
  fixes m :: phys_mem
  assumes "i < 256" and b: "b + 4096 < 2 ^ 32"
  shows "fold (\<lambda>i m. m(word_of_nat b + word_of_nat i * 4 := (word_of_nat i * PAGE_SIZE) OR 0x7)) [0..<256] m
    (word_of_nat b + word_of_nat i * 4) = (word_of_nat i * PAGE_SIZE) OR (0x7::u32)"
proof -
  have "fold (\<lambda>i m. m(word_of_nat b + word_of_nat i * 4 := (word_of_nat i * PAGE_SIZE) OR 0x7)) [0..<n] m
    (word_of_nat b + word_of_nat i * 4) = (word_of_nat i * PAGE_SIZE) OR 0x7" if "i < n" "n \<le> 256" for n
    using that
  proof (induction n)
    case (Suc n)
    have u: "unat (word_of_nat b + word_of_nat i * 4 :: u32) = b + i * 4" "unat (word_of_nat b + word_of_nat n * 4 :: u32) = b + n * 4"
      by (intro unat_slot, use b Suc.prems in simp)+
    show ?case
    proof (cases "i = n")
      case False
      then have "word_of_nat b + word_of_nat i * 4 \<noteq> (word_of_nat b + word_of_nat n * 4 :: u32)"
        using u by (metis add_left_cancel mult_right_cancel zero_neq_numeral)
      then show ?thesis using Suc False by simp
    qed simp
  qed simp
  then show ?thesis using assms(1) by blast
qed

lemma identity_other:
  assumes "\<And>i. i < 256 \<Longrightarrow> a \<noteq> b + word_of_nat i * 4"
  shows "fold (\<lambda>i m. m(b + word_of_nat i * 4 := (word_of_nat i * PAGE_SIZE) OR 0x7)) [0..<256] m a = m a"
proof -
  have "fold (\<lambda>i m. m(b + word_of_nat i * 4 := (word_of_nat i * PAGE_SIZE) OR 0x7)) [0..<n] m a = m a" if "n \<le> 256" for n
    using that assms by (induction n) auto
  then show ?thesis by blast
qed

lemma open_page_entries:
  fixes m :: phys_mem
  defines "b \<equiv> open_page_mechanism m"
  shows "b 0x100000 = 0x101000 OR PDE_KERNEL" "b (0x100000 + 768 * 4) = 0x101000 OR PDE_KERNEL"
    "b (0x100000 + 4092) = 0x100000 OR PDE_KERNEL"
    "i < 256 \<Longrightarrow> b (0x101000 + word_of_nat i * 4) = (word_of_nat i * PAGE_SIZE) OR 0x7"
    "256 \<le> i \<Longrightarrow> i < 1024 \<Longrightarrow> b (0x101000 + word_of_nat i * 4) = 0"
proof -
  define p where "p = fold (\<lambda>i m. m((0x101000::u32) + word_of_nat i * 4 := (word_of_nat i * PAGE_SIZE) OR 0x7)) [0..<256]
    (mem_clear 0x101000 (mem_clear 0x100000 m))"
  define q where "q = p(0x100000 := 0x101000 OR PDE_KERNEL, 0x100000 + 768 * 4 := 0x101000 OR PDE_KERNEL,
    0x100000 + 1023 * 4 := 0x100000 OR PDE_KERNEL)"
  have b: "b = kernel_tables 255 q"
    by (simp add: b_def open_page_mechanism_def kernel_tables_def Let_def q_def p_def PAGE_DIRECTORY_def PAGE_SIZE_def)
  have keep: "b a = q a" if "unat a < 0x102000" "\<And>i. 1 \<le> i \<Longrightarrow> i < 255 \<Longrightarrow> unat a \<noteq> 0x100000 + (768 + i) * 4" for a
    unfolding b using that by (intro kernel_tables_other) auto
  show "b 0x100000 = 0x101000 OR PDE_KERNEL" by (subst keep) (simp_all add: q_def)
  show "b (0x100000 + 768 * 4) = 0x101000 OR PDE_KERNEL" by (subst keep) (simp_all add: q_def)
  show "b (0x100000 + 4092) = 0x100000 OR PDE_KERNEL" by (subst keep) (simp_all add: q_def)
  have tab: "b (0x101000 + word_of_nat i * 4) = p (0x101000 + word_of_nat i * 4)" if "i < 1024" for i
  proof -
    have u: "unat (0x101000 + word_of_nat i * 4 :: u32) = 0x101000 + i * 4" using unat_slot [of "0x101000" i] that by simp
    have "b (0x101000 + word_of_nat i * 4) = q (0x101000 + word_of_nat i * 4)" using u that by (intro keep) auto
    moreover have "0x101000 + word_of_nat i * 4 \<noteq> (0x100000::u32)" "0x101000 + word_of_nat i * 4 \<noteq> (0x100000 + 768 * 4::u32)"
      "0x101000 + word_of_nat i * 4 \<noteq> (0x100000 + 1023 * 4::u32)"
      by (intro notI; drule arg_cong [of _ _ unat]; simp add: u)+
    ultimately show ?thesis by (simp add: q_def)
  qed
  show "b (0x101000 + word_of_nat i * 4) = (word_of_nat i * PAGE_SIZE) OR 0x7" if "i < 256"
    using identity_entry [OF that, of "0x101000"] tab [of i] that by (simp add: p_def)
  show "b (0x101000 + word_of_nat i * 4) = 0" if i: "256 \<le> i" "i < 1024"
  proof -
    have "0x101000 + word_of_nat i * 4 \<noteq> (0x101000 + word_of_nat j * 4 :: u32)" if "j < 256" for j
      using unat_slot [of "0x101000" i] unat_slot [of "0x101000" j] i that by (auto dest: arg_cong [of _ _ unat])
    then have "p (0x101000 + word_of_nat i * 4) = mem_clear 0x101000 (mem_clear 0x100000 m) (0x101000 + word_of_nat i * 4)"
      unfolding p_def by (intro identity_other) blast
    then show ?thesis using tab [OF i(2)] mem_clear_hit [OF i(2)] by simp
  qed
qed

lemma frame_of_entry: "(w * 4096 OR 0x7) AND PTE_GET_ADDRESS = w * 4096" for w :: u32
proof -
  have "w * 4096 = push_bit 12 w" by (simp add: push_bit_eq_mult)
  moreover have "(push_bit 12 w OR mask 3) AND NOT (mask 12) = push_bit 12 w"
    by (rule bit_word_eqI) (auto simp: bit_and_iff bit_or_iff bit_not_iff bit_mask_iff bit_push_bit_iff)
  ultimately show "(w * 4096 OR 0x7) AND PTE_GET_ADDRESS = w * 4096"
    by (simp only: PTE_GET_ADDRESS_def mask_consts)
qed

lemma entry_present: "(w OR 0x7) AND PTE_PRESENT \<noteq> 0" for w :: u32
proof -
  have "bit ((w OR mask 3) AND 1) 0" by (simp only: bit_and_iff bit_or_iff bit_mask_iff bit_1_iff) simp
  then have "(w OR mask 3) AND 1 \<noteq> 0" by (metis bit_0_eq bot_apply bot_bool_def)
  then show ?thesis unfolding PTE_PRESENT_def mask_consts(6) by simp
qed

lemma split_address: "unat x < 0x400000 \<Longrightarrow> tabw x * 4096 + (x AND 0xfff) = x"
proof (rule word_eq_unatI)
  assume x: "unat x < 0x400000"
  have t: "unat (tabw x * 4096) = tab_ix x * 4096"
    using tab_ix_less [of x] by (subst unat_mult_lem [THEN iffD1]) (simp_all add: unat_tabw)
  have o: "unat (x AND 0xfff) = unat x mod 4096" unfolding mask_consts(3) unat_and_mask_mod by simp
  have tx: "tab_ix x = unat x div 4096" using x by (simp add: tab_ix_def)
  have "tab_ix x * 4096 + unat x mod 4096 = unat x" unfolding tx by (rule div_mult_mod_eq)
  then show "unat (tabw x * 4096 + (x AND 0xfff)) = unat x"
    using x by (subst unat_add_lem [THEN iffD1]) (simp_all only: t o, simp_all)
qed

lemma translate_boot:
  assumes "unat x < 0x400000" and pde: "m (pde_at 0x100000 y) = 0x101000 OR PDE_KERNEL" and t: "tabw y = tabw x"
    and o: "y AND 0xfff = x AND 0xfff"
    and lo: "\<And>i. i < 256 \<Longrightarrow> m (0x101000 + word_of_nat i * 4) = (word_of_nat i * PAGE_SIZE) OR 0x7"
    and hi: "\<And>i. 256 \<le> i \<Longrightarrow> i < 1024 \<Longrightarrow> m (0x101000 + word_of_nat i * 4) = 0"
  shows "translate m 0x100000 y = (if unat x < 0x100000 then Some x else None)"
proof -
  have tx: "tab_ix x = unat x div 4096" using assms(1) by (simp add: tab_ix_def)
  have tw: "tabw x = word_of_nat (tab_ix x)"
    by (rule word_eq_unatI) (use tab_ix_less [of x] in \<open>simp add: unat_tabw unat_word_of_nat\<close>)
  have pa: "pte_at (0x101000 OR PDE_KERNEL) y = 0x101000 + word_of_nat (tab_ix x) * 4"
    by (simp add: pte_at_def PDE_KERNEL_def PDE_GET_ADDRESS_def t tw)
  have pres: "(0x101000 OR PDE_KERNEL) AND PDE_PRESENT \<noteq> (0::u32)" by (simp add: PDE_KERNEL_def PDE_PRESENT_def)
  show ?thesis
  proof (cases "unat x < 0x100000")
    case True
    then have i: "tab_ix x < 256" by (simp add: tx less_mult_imp_div_less)
    have "m (0x101000 + word_of_nat (tab_ix x) * 4) = (tabw x * 4096) OR 0x7" using lo [OF i] by (simp add: tw PAGE_SIZE_def)
    then show ?thesis
      using True pres split_address [OF assms(1)] frame_of_entry [of "tabw x"] entry_present [of "tabw x * 4096"]
      by (simp only: translate_def pde Let_def pa o if_False if_True)
  next
    case False
    then have "256 \<le> tab_ix x" by (simp add: tx div_le_mono [of "256 * 4096" _ 4096, simplified])
    then show ?thesis using hi [of "tab_ix x"] tab_ix_less [of x] pres False
      by (simp only: translate_def pde Let_def pa if_False) simp
  qed
qed

section \<open>Frames and offsets\<close>

definition page_aligned :: "u32 \<Rightarrow> bool" where
  "page_aligned a \<longleftrightarrow> a AND 0xfff = 0"

lemma page_aligned_dvd: "page_aligned a \<longleftrightarrow> 4096 dvd unat a"
proof -
  have "a AND 0xfff = 0 \<longleftrightarrow> unat (a AND mask 12) = 0" by (metis mask_consts(3) unsigned_0 unsigned_word_eqI)
  then show ?thesis unfolding page_aligned_def unat_and_mask_mod by (simp add: dvd_eq_mod_eq_0)
qed

lemma frame_aligned: "page_aligned (w AND PDE_GET_ADDRESS)" "page_aligned (w AND PTE_GET_ADDRESS)"
  unfolding page_aligned_dvd PDE_GET_ADDRESS_def PTE_GET_ADDRESS_def mask_consts unat_align_down by simp_all

lemma aligned_room: "4096 dvd a \<Longrightarrow> a < 2 ^ 32 \<Longrightarrow> a + 4096 \<le> (2 ^ 32 :: nat)"
proof -
  assume "4096 dvd a" "a < 2 ^ 32"
  then obtain k where "a = 4096 * k" "k < 2 ^ 20" by (auto elim!: dvdE)
  then show ?thesis by simp
qed

lemma unat_frame_offset: "page_aligned a \<Longrightarrow> unat x < 4096 \<Longrightarrow> unat (a + x) = unat a + unat x"
  using aligned_room [of "unat a"] unat_bound [of a] page_aligned_dvd [of a]
  by (subst unat_add_lem [THEN iffD1]) simp_all

lemma frame_offset_inj:
  assumes "page_aligned a" "page_aligned b" "unat x < 4096" "unat y < 4096" and "a + x = b + y"
  shows "a = b \<and> x = y"
proof -
  have eq: "unat a + unat x = unat b + unat y"
    using unat_frame_offset [OF assms(1,3)] unat_frame_offset [OF assms(2,4)] assms(5) by simp
  obtain k l where kl: "unat a = k * 4096" "unat b = l * 4096"
    using assms(1,2) unfolding page_aligned_dvd by (metis dvd_div_mult_self)
  have "k = l" using eq assms(3,4) unfolding kl
    by (metis div_less div_mult_self3 add.right_neutral zero_neq_numeral)
  then show ?thesis using eq kl by (auto intro: word_eq_unatI)
qed

lemma unat_off4: "unat (tabw v * 4) < 4096" "unat (dirw v * 4) < 4096"
  using tab_ix_less [of v] dir_ix_less [of v] by (simp_all add: unat_tabw4 unat_dirw4)

lemma off4_inj: "dirw v * 4 = dirw w * 4 \<Longrightarrow> dirw v = dirw w" "tabw v * 4 = tabw w * 4 \<Longrightarrow> tabw v = tabw w"
  using unat_dirw4 [of v] unat_dirw4 [of w] unat_tabw4 [of v] unat_tabw4 [of w] unat_dirw [of v] unat_dirw [of w]
    unat_tabw [of v] unat_tabw [of w] by (auto intro: word_eq_unatI)

lemma self_map_aligned: "self_map m cr3 \<Longrightarrow> page_aligned cr3"
  unfolding self_map_def using frame_aligned(1) by metis

lemma pde_at_inj: "page_aligned c \<Longrightarrow> pde_at c v = pde_at c w \<longleftrightarrow> dirw v = dirw w"
  unfolding pde_at_def using off4_inj(1) by (metis frame_offset_inj unat_off4(2))

lemma pde_at_self: "page_aligned c \<Longrightarrow> pde_at c v = c + 4092 \<longleftrightarrow> dirw v = 1023"
proof -
  assume c: "page_aligned c"
  have "pde_at c (toPTE v) = c + 4092" by (rule pde_at_window [OF dirw_toPTE])
  then show ?thesis using pde_at_inj [OF c, of v "toPTE v"] by (simp add: dirw_toPTE)
qed

text \<open>An entry of a table that is not the directory is no directory entry.\<close>

lemma pte_not_pde:
  assumes "page_aligned c" and "d AND PDE_GET_ADDRESS \<noteq> c"
  shows "pte_at d v \<noteq> pde_at c w" "pte_at d v \<noteq> c + 4092"
proof -
  show ne: "pte_at d v \<noteq> pde_at c w" for w
    unfolding pte_at_def pde_at_def using frame_offset_inj [OF frame_aligned(1) assms(1) unat_off4(1) unat_off4(2)] assms(2) by blast
  have "pde_at c (toPTE v) = c + 4092" by (rule pde_at_window [OF dirw_toPTE])
  then show "pte_at d v \<noteq> c + 4092" using ne [of "toPTE v"] by simp
qed

text \<open>Addresses in the same page.\<close>

lemma same_page:
  assumes "page_aligned v" and "unat x < 4096"
  shows "dirw (v + x) = dirw v" "tabw (v + x) = tabw v" "(v + x) AND 0xfff = x"
proof -
  have u: "unat (v + x) = unat v + unat x" by (rule unat_frame_offset [OF assms])
  obtain k where k: "unat v = k * 4096" using assms(1) unfolding page_aligned_dvd by (metis dvd_div_mult_self)
  have q: "(k * 4096 + unat x) div 4096 = k" using assms(2) by simp
  have "unat (v + x) div 4096 = unat v div 4096" unfolding u k q by simp
  then have "unat (v + x) div 4096 div 1024 = unat v div 4096 div 1024" "tab_ix (v + x) = tab_ix v"
    by (simp_all add: tab_ix_def)
  then have "dir_ix (v + x) = dir_ix v" by (simp add: dir_ix_def flip: div_mult2_eq)
  then show "dirw (v + x) = dirw v" by (intro word_eq_unatI) (simp add: unat_dirw)
  show "tabw (v + x) = tabw v" using \<open>tab_ix (v + x) = tab_ix v\<close> by (intro word_eq_unatI) (simp add: unat_tabw)
  have "unat ((v + x) AND mask 12) = unat x" unfolding unat_and_mask_mod u k using assms(2) by simp
  then show "(v + x) AND 0xfff = x" unfolding mask_consts(3) by (rule word_eq_unatI)
qed

lemma split_page: "(a AND NOT 0xfff) + (a AND 0xfff) = a" for a :: u32
proof (rule word_eq_unatI)
  have h: "unat (a AND NOT (mask 12)) = unat a div 4096 * 4096" unfolding unat_align_down by simp
  have l: "unat (a AND mask 12) = unat a mod 4096" unfolding unat_and_mask_mod by simp
  have "unat ((a AND NOT (mask 12)) + (a AND mask 12)) = unat a"
    using unat_bound [of a] by (subst unat_add_lem [THEN iffD1]) (simp_all only: h l div_mult_mod_eq)
  then show "unat ((a AND NOT 0xfff) + (a AND 0xfff)) = unat a" by (simp only: mask_consts(3))
qed

lemma unat_offset: "unat (a AND 0xfff) < 4096" for a :: u32
  unfolding mask_consts(3) unat_and_mask_mod by simp

section \<open>Properties\<close>

text \<open>
  \<^bold>\<open>C10\<close>: The page tables that the boot code builds, whatever memory held before, identity-map the
  first megabyte, map it a second time at 3 GB, leave the rest of the first 4 MB unmapped, and make
  the window addresses \<^verbatim>\<open>toPDE\<close> and \<^verbatim>\<open>toPTE\<close> reach the entries of any address.
\<close>

theorem boot_page_tables:
  fixes m :: phys_mem
  defines "b \<equiv> open_page_mechanism m"
  shows "(unat x < 0x400000 \<longrightarrow> translate b PAGE_DIRECTORY x = (if unat x < 0x100000 then Some x else None)) \<and>
    (unat x < 0x400000 \<longrightarrow> translate b PAGE_DIRECTORY (0xc0000000 + x) = (if unat x < 0x100000 then Some x else None)) \<and>
    (translate b PAGE_DIRECTORY (toPDE v) = Some (pde_at PAGE_DIRECTORY v)) \<and>
    (translate b PAGE_DIRECTORY (toPTE v) =
      (if b (pde_at PAGE_DIRECTORY v) AND PDE_PRESENT = 0 then None else Some (pte_at (b (pde_at PAGE_DIRECTORY v)) v)))"
proof (rule conjI [OF impI conjI [OF impI conjI]])
  note ents = open_page_entries [where m = m, folded b_def]
  have self: "self_map b PAGE_DIRECTORY"
    using ents(3) by (simp add: self_map_def PAGE_DIRECTORY_def PDE_KERNEL_def PDE_PRESENT_def PDE_GET_ADDRESS_def)
  show "translate b PAGE_DIRECTORY (toPDE v) = Some (pde_at PAGE_DIRECTORY v)" by (rule translate_toPDE [OF self])
  show "translate b PAGE_DIRECTORY (toPTE v) =
      (if b (pde_at PAGE_DIRECTORY v) AND PDE_PRESENT = 0 then None else Some (pte_at (b (pde_at PAGE_DIRECTORY v)) v))"
    by (rule translate_toPTE [OF self])
  assume x: "unat x < 0x400000"
  have "dir_ix x = 0" using x by (simp add: dir_ix_def)
  then have "dirw x = 0" by (intro word_eq_unatI) (simp add: unat_dirw)
  then have pd0: "b (pde_at 0x100000 x) = 0x101000 OR PDE_KERNEL" using ents(1) by (simp add: pde_at_def)
  show "translate b PAGE_DIRECTORY x = (if unat x < 0x100000 then Some x else None)"
    unfolding PAGE_DIRECTORY_def by (rule translate_boot [OF x pd0 refl refl ents(4,5)])
  have ux: "unat (0xc0000000 + x) = 0xc0000000 + unat x"
    using x by (subst unat_add_lem [THEN iffD1]) simp_all
  have "dirw (0xc0000000 + x) = 768"
    by (rule word_eq_unatI) (use x in \<open>simp add: unat_dirw dir_ix_def ux\<close>)
  then have pd1: "b (pde_at 0x100000 (0xc0000000 + x)) = 0x101000 OR PDE_KERNEL" using ents(2) by (simp add: pde_at_def)
  have t: "tabw (0xc0000000 + x) = tabw x"
  proof (rule word_eq_unatI)
    have "(0xc0000000 + unat x) div 4096 = (unat x + 0xc0000 * 4096) div 4096" by (simp add: add.commute)
    also have "\<dots> = unat x div 4096 + 768 * 1024" by (subst div_mult_self1) simp_all
    finally have "(0xc0000000 + unat x) div 4096 mod 1024 = unat x div 4096 mod 1024" by (simp only: mod_mult_self1)
    then show "unat (tabw (0xc0000000 + x)) = unat (tabw x)" by (simp add: unat_tabw tab_ix_def ux)
  qed
  have o: "(0xc0000000 + x) AND 0xfff = x AND 0xfff"
  proof (rule word_eq_unatI)
    have "(0xc0000000 + unat x) mod 4096 = (unat x + 0xc0000 * 4096) mod 4096" by (simp add: add.commute)
    also have "\<dots> = unat x mod 4096" by (rule mod_mult_self1)
    finally have "(0xc0000000 + unat x) mod 4096 = unat x mod 4096" .
    then show "unat ((0xc0000000 + x) AND 0xfff) = unat (x AND 0xfff)"
      unfolding mask_consts(3) unat_and_mask_mod ux by simp
  qed
  show "translate b PAGE_DIRECTORY (0xc0000000 + x) = (if unat x < 0x100000 then Some x else None)"
    unfolding PAGE_DIRECTORY_def by (rule translate_boot [OF x pd1 t o ents(4,5)])
qed

theorem boot_page_tables_witness:
  "translate (open_page_mechanism (\<lambda>_. 0)) PAGE_DIRECTORY 0xc00b8000 = Some 0xb8000"
  using boot_page_tables [of "0xb8000" "\<lambda>_. 0"] by simp

end
