(* ===== verification/Alloc_Interface.thy ===== *)
theory Alloc_Interface
  imports Os_Prelude
begin

text \<open>
  The contract between a page or slot allocator and its clients.  The clients in the kernel
  (\<^verbatim>\<open>VAddressPool\<close>, \<^verbatim>\<open>RMapManager\<close>, \<^verbatim>\<open>fat12_inode_pool\<close>,
  \<^verbatim>\<open>FileManager\<close>'s open file table) ask for a run of consecutive indices and give a run
  back; what they rely on is stated here once, and what follows for any allocator that keeps the
  contract is proved here once.  The bitmap theory interprets the locale for both search
  directions of \<^verbatim>\<open>BitMap::allocate\<close>.
\<close>

locale run_allocator =
  fixes alloc :: "'s \<Rightarrow> int \<Rightarrow> (int \<times> 's) option"
    and free :: "nat \<Rightarrow> int \<Rightarrow> 's \<Rightarrow> 's"
    and taken :: "'s \<Rightarrow> nat \<Rightarrow> bool"
    and cap :: "'s \<Rightarrow> int"
  assumes alloc_returns: "0 < n \<Longrightarrow> 0 \<le> cap s \<Longrightarrow> \<exists>r s'. alloc s n = Some (r, s')"
    and alloc_fail: "0 < n \<Longrightarrow> 0 \<le> cap s \<Longrightarrow> alloc s n = Some (- 1, s') \<Longrightarrow> s' = s"
    and alloc_range: "0 < n \<Longrightarrow> 0 \<le> cap s \<Longrightarrow> alloc s n = Some (r, s') \<Longrightarrow> r \<noteq> - 1 \<Longrightarrow>
          0 \<le> r \<and> r + n \<le> cap s"
    and alloc_fresh: "0 < n \<Longrightarrow> 0 \<le> cap s \<Longrightarrow> alloc s n = Some (r, s') \<Longrightarrow> r \<noteq> - 1 \<Longrightarrow>
          r \<le> int j \<Longrightarrow> int j < r + n \<Longrightarrow> \<not> taken s j"
    and alloc_taken: "0 < n \<Longrightarrow> 0 \<le> cap s \<Longrightarrow> alloc s n = Some (r, s') \<Longrightarrow> r \<noteq> - 1 \<Longrightarrow>
          taken s' j \<longleftrightarrow> taken s j \<or> r \<le> int j \<and> int j < r + n"
    and alloc_complete: "0 < n \<Longrightarrow> 0 \<le> cap s \<Longrightarrow> alloc s n = Some (- 1, s') \<Longrightarrow>
          0 \<le> a \<Longrightarrow> a + n \<le> cap s \<Longrightarrow> \<exists>j. a \<le> int j \<and> int j < a + n \<and> taken s j"
    and alloc_cap: "0 < n \<Longrightarrow> 0 \<le> cap s \<Longrightarrow> alloc s n = Some (r, s') \<Longrightarrow> cap s' = cap s"
    and free_taken: "taken (free i n s) j \<longleftrightarrow> taken s j \<and> \<not> (i \<le> j \<and> int j < int i + n)"
    and free_cap: "cap (free i n s) = cap s"
begin

lemma alloc_hit:
  assumes "0 < n" and "0 \<le> cap s" and "alloc s n = Some (r, s')" and "r \<noteq> - 1"
    and "r \<le> int j" and "int j < r + n"
  shows "\<not> taken s j \<and> taken s' j"
  using alloc_fresh [OF assms] alloc_taken [OF assms(1-4)] assms(5,6) by blast

text \<open>Two runs handed out one after the other do not overlap.\<close>

lemma alloc_twice_disjoint:
  assumes "0 < n" and "0 < m" and "0 \<le> cap s"
    and "alloc s n = Some (r, s')" and "alloc s' m = Some (q, s'')" and "r \<noteq> - 1" and "q \<noteq> - 1"
  shows "r + n \<le> q \<or> q + m \<le> r"
proof (rule ccontr)
  assume "\<not> ?thesis"
  then obtain j where j: "r \<le> j" "j < r + n" "q \<le> j" "j < q + m"
    using assms(1,2) that [of "max r q"] by auto
  have cap': "cap s' = cap s" using alloc_cap assms by blast
  have "0 \<le> r" using alloc_range assms by blast
  then have "int (nat j) = j" using j by simp
  then have "taken s' (nat j)" using alloc_hit [OF assms(1,3,4,6), of "nat j"] j by simp
  moreover have "\<not> taken s' (nat j)"
    using alloc_fresh [OF assms(2) _ assms(5,7), of "nat j"] cap' assms(3) j \<open>int (nat j) = j\<close> by simp
  ultimately show False by blast
qed

text \<open>Giving back the run just obtained restores the set of taken indices.\<close>

lemma alloc_free_taken:
  assumes "0 < n" and "0 \<le> cap s" and "alloc s n = Some (r, s')" and "r \<noteq> - 1"
  shows "taken (free (nat r) n s') j \<longleftrightarrow> taken s j"
proof -
  have "0 \<le> r" using alloc_range assms by blast
  then have "nat r \<le> j \<and> int j < int (nat r) + n \<longleftrightarrow> r \<le> int j \<and> int j < r + n" by auto
  then show ?thesis
    using alloc_taken [OF assms, of j] alloc_hit [OF assms, of j] free_taken [of "nat r" n s' j] by blast
qed

text \<open>A request can only fail when every window of that length holds a taken index.\<close>

lemma alloc_succeeds:
  assumes "0 < n" and "0 \<le> cap s" and "0 \<le> i" and "i + n \<le> cap s"
    and "\<forall>j. i \<le> int j \<and> int j < i + n \<longrightarrow> \<not> taken s j"
  shows "\<exists>r s'. alloc s n = Some (r, s') \<and> r \<noteq> - 1"
proof -
  obtain r s' where "alloc s n = Some (r, s')" using alloc_returns assms by blast
  moreover have "r \<noteq> - 1" using alloc_complete [of n s s' i] assms calculation by blast
  ultimately show ?thesis by blast
qed

end

text \<open>
  The single-slot use: tables of a fixed number of records, of which one is taken at a time.
\<close>

locale slot_allocator =
  fixes alloc1 :: "'s \<Rightarrow> (int \<times> 's) option"
    and free1 :: "nat \<Rightarrow> 's \<Rightarrow> 's"
    and used :: "'s \<Rightarrow> nat \<Rightarrow> bool"
    and slots :: "'s \<Rightarrow> int"
  assumes alloc1_returns: "0 \<le> slots s \<Longrightarrow> \<exists>r s'. alloc1 s = Some (r, s')"
    and alloc1_range: "0 \<le> slots s \<Longrightarrow> alloc1 s = Some (r, s') \<Longrightarrow> r \<noteq> - 1 \<Longrightarrow> 0 \<le> r \<and> r < slots s"
    and alloc1_used: "0 \<le> slots s \<Longrightarrow> alloc1 s = Some (r, s') \<Longrightarrow> r \<noteq> - 1 \<Longrightarrow>
          \<not> used s (nat r) \<and> (\<forall>j. used s' j \<longleftrightarrow> used s j \<or> j = nat r)"
    and alloc1_full: "0 \<le> slots s \<Longrightarrow> alloc1 s = Some (- 1, s') \<Longrightarrow>
          s' = s \<and> (\<forall>j. int j < slots s \<longrightarrow> used s j)"
    and alloc1_slots: "0 \<le> slots s \<Longrightarrow> alloc1 s = Some (r, s') \<Longrightarrow> slots s' = slots s"
    and free1_used: "used (free1 i s) j \<longleftrightarrow> used s j \<and> j \<noteq> i"
    and free1_slots: "slots (free1 i s) = slots s"
begin

lemma alloc1_cases:
  assumes "0 \<le> slots s"
  obtains (full) "alloc1 s = Some (- 1, s)" "\<forall>j. int j < slots s \<longrightarrow> used s j"
  | (slot) i s' where "alloc1 s = Some (int i, s')" "int i < slots s" "\<not> used s i"
      "\<forall>j. used s' j \<longleftrightarrow> used s j \<or> j = i" "slots s' = slots s"
proof -
  obtain r s' where eq: "alloc1 s = Some (r, s')" using alloc1_returns assms by blast
  show thesis
  proof (cases "r = - 1")
    case True
    then show thesis using eq alloc1_full [OF assms] full by blast
  next
    case False
    then have r: "0 \<le> r" "r < slots s" using eq alloc1_range assms by blast+
    then show thesis
      using slot [of "nat r" s'] alloc1_used [OF assms eq False] alloc1_slots [OF assms eq] eq by auto
  qed
qed

text \<open>A slot that was just freed can always be taken again.\<close>

lemma alloc1_after_free1:
  assumes "0 \<le> slots s" and "int i < slots s"
  shows "\<exists>k s'. alloc1 (free1 i s) = Some (int k, s')"
  using alloc1_cases [of "free1 i s"] assms free1_slots free1_used by metis

end

sublocale run_allocator \<subseteq> single: slot_allocator
  "\<lambda>s. alloc s 1" "\<lambda>i s. free i 1 s" taken cap
proof unfold_locales
  fix s s' :: 's and r :: int and i j :: nat
  show "taken (free i 1 s) j \<longleftrightarrow> taken s j \<and> j \<noteq> i" using free_taken [of i 1 s j] by auto
  show "cap (free i 1 s) = cap s" by (rule free_cap)
  assume c: "0 \<le> cap s"
  show "\<exists>r s'. alloc s 1 = Some (r, s')" using alloc_returns c by simp
  show "alloc s 1 = Some (r, s') \<Longrightarrow> cap s' = cap s" using alloc_cap c zero_less_one by blast
  show "alloc s 1 = Some (r, s') \<Longrightarrow> r \<noteq> - 1 \<Longrightarrow> 0 \<le> r \<and> r < cap s"
    using alloc_range [OF zero_less_one c] by fastforce
  show "\<not> taken s (nat r) \<and> (\<forall>j. taken s' j \<longleftrightarrow> taken s j \<or> j = nat r)"
    if "alloc s 1 = Some (r, s')" "r \<noteq> - 1"
  proof -
    have "0 \<le> r" using alloc_range [OF zero_less_one c that] by simp
    then have "r \<le> int j \<and> int j < r + 1 \<longleftrightarrow> j = nat r" for j by auto
    then show ?thesis
      using alloc_fresh [OF zero_less_one c that, of "nat r"] alloc_taken [OF zero_less_one c that]
      by blast
  qed
  show "s' = s \<and> (\<forall>j. int j < cap s \<longrightarrow> taken s j)" if eq: "alloc s 1 = Some (- 1, s')"
  proof -
    have "taken s j" if "int j < cap s" for j
      using alloc_complete [OF zero_less_one c eq, of "int j"] that by force
    then show ?thesis using alloc_fail [OF zero_less_one c eq] by blast
  qed
qed

end
