(* ===== verification/Bitmap.thy ===== *)
theory Bitmap
  imports Alloc_Interface
begin

text \<open>
  The resource bitmap of \<^verbatim>\<open>include/kernel/bitmap.h\<close> and
  \<^verbatim>\<open>src/kernel/bitmap.cpp\<close>, with the rounding-up division \<^verbatim>\<open>ceil\<close> of
  \<^verbatim>\<open>src/libc/stdlib.cpp\<close> that sizes it.  The record keeps the number of managed bits and the
  byte storage; the operations are the member functions.  The outer search loops of
  \<^verbatim>\<open>BitMap::allocate\<close> are partial functions, because for a negative count they spin on the first
  free bit: \<open>None\<close> is a call that never returns.  The theorems give the exact result of a search
  for a positive count in either direction, and the sets of bits the other operations change.
\<close>

section \<open>State and operations\<close>

record BitMap =
  length_of :: int
  bitmap_of :: bytes

definition c_ceil :: "int \<Rightarrow> int \<Rightarrow> int" where
  "c_ceil dividend divisor = (dividend + divisor - 1) sdiv divisor"

definition BitMap_initialize :: "bytes \<Rightarrow> int \<Rightarrow> BitMap" where
  "BitMap_initialize bitmap len =
     (let bytes = c_ceil len 8
      in \<lparr>length_of = len, bitmap_of = fold (\<lambda>i m. m(i := 0)) [0..<nat bytes] bitmap\<rparr>)"

definition BitMap_get :: "BitMap \<Rightarrow> nat \<Rightarrow> bool" where
  "BitMap_get b index =
     (let pos = index div 8; offset = index mod 8 in byte_test (bitmap_of b pos) offset)"

definition BitMap_set :: "nat \<Rightarrow> bool \<Rightarrow> BitMap \<Rightarrow> BitMap" where
  "BitMap_set index status b =
     (let pos = index div 8; offset = index mod 8
      in b\<lparr>bitmap_of := (bitmap_of b)(pos := byte_put (bitmap_of b pos) offset status)\<rparr>)"

subsection \<open>Forward search\<close>

function skip_used :: "BitMap \<Rightarrow> int \<Rightarrow> int" where
  "skip_used b index =
     (if index < length_of b \<and> BitMap_get b (nat index) then skip_used b (index + 1) else index)"
  by pat_completeness auto
termination
  by (relation "measure (\<lambda>(b, i). nat (length_of b - i))") auto

function count_free :: "BitMap \<Rightarrow> int \<Rightarrow> int \<Rightarrow> int \<Rightarrow> int \<times> int" where
  "count_free b count index emp =
     (if index < length_of b \<and> \<not> BitMap_get b (nat index) \<and> emp < count
      then count_free b count (index + 1) (emp + 1) else (emp, index))"
  by pat_completeness auto
termination
  by (relation "measure (\<lambda>(b, c, i, e). nat (length_of b - i))") auto

definition mark_up :: "int \<Rightarrow> int \<Rightarrow> BitMap \<Rightarrow> BitMap" where
  "mark_up start count b = fold (\<lambda>i. BitMap_set (nat (start + int i)) True) [0..<nat count] b"

partial_function (option) allocate_forward :: "BitMap \<Rightarrow> int \<Rightarrow> int \<Rightarrow> (int \<times> BitMap) option" where
  "allocate_forward b count index =
     (if index < length_of b then
        let start = skip_used b index in
        if start = length_of b then Some (- 1, b)
        else let (emp, index') = count_free b count start 0 in
          if emp = count then Some (start, mark_up start count b)
          else allocate_forward b count index'
      else Some (- 1, b))"

subsection \<open>Backward search\<close>

function skip_used_down :: "BitMap \<Rightarrow> int \<Rightarrow> int" where
  "skip_used_down b index =
     (if index \<ge> 0 \<and> BitMap_get b (nat index) then skip_used_down b (index - 1) else index)"
  by pat_completeness auto
termination
  by (relation "measure (\<lambda>(b, i). nat (i + 1))") auto

function count_free_down :: "BitMap \<Rightarrow> int \<Rightarrow> int \<Rightarrow> int \<Rightarrow> int \<times> int" where
  "count_free_down b count index emp =
     (if index \<ge> 0 \<and> \<not> BitMap_get b (nat index) \<and> emp < count
      then count_free_down b count (index - 1) (emp + 1) else (emp, index))"
  by pat_completeness auto
termination
  by (relation "measure (\<lambda>(b, c, i, e). nat (i + 1))") auto

definition mark_down :: "int \<Rightarrow> int \<Rightarrow> BitMap \<Rightarrow> BitMap" where
  "mark_down start count b = fold (\<lambda>i. BitMap_set (nat (start - int i)) True) [0..<nat count] b"

partial_function (option) allocate_reverse :: "BitMap \<Rightarrow> int \<Rightarrow> int \<Rightarrow> (int \<times> BitMap) option" where
  "allocate_reverse b count index =
     (if index \<ge> 0 then
        let start = skip_used_down b index in
        if start = - 1 then Some (- 1, b)
        else let (emp, index') = count_free_down b count start 0 in
          if emp = count then Some (start - count + 1, mark_down start count b)
          else allocate_reverse b count index'
      else Some (- 1, b))"

definition BitMap_allocate :: "BitMap \<Rightarrow> int \<Rightarrow> bool \<Rightarrow> (int \<times> BitMap) option" where
  "BitMap_allocate b count reverse =
     (if count = 0 then Some (- 1, b)
      else if \<not> reverse then allocate_forward b count 0
      else allocate_reverse b count (length_of b - 1))"

definition BitMap_release :: "nat \<Rightarrow> int \<Rightarrow> BitMap \<Rightarrow> BitMap" where
  "BitMap_release index count b = fold (\<lambda>i. BitMap_set (index + i) False) [0..<nat count] b"

definition BitMap_size :: "BitMap \<Rightarrow> int" where
  "BitMap_size b = length_of b"

declare skip_used.simps [simp del] count_free.simps [simp del]
  skip_used_down.simps [simp del] count_free_down.simps [simp del]

lemmas bitmap_loops =
  skip_used.simps count_free.simps skip_used_down.simps count_free_down.simps
  allocate_forward.simps allocate_reverse.simps

declare bitmap_loops [loop_simps]

section \<open>Reading back single bits\<close>

lemma length_of_set [simp]: "length_of (BitMap_set i v b) = length_of b"
  by (simp add: BitMap_set_def Let_def)

lemma get_set [simp]: "BitMap_get (BitMap_set i v b) j = (if j = i then v else BitMap_get b j)"
  by (auto simp: BitMap_get_def BitMap_set_def Let_def dest: div_mod_8_inj)

lemma length_of_fold_set [simp]:
  "length_of (fold (\<lambda>i. BitMap_set (f i) v) xs b) = length_of b"
  by (induction xs arbitrary: b) auto

lemma get_fold_set:
  "BitMap_get (fold (\<lambda>i. BitMap_set (f i) v) xs b) j =
     (if j \<in> f ` set xs then v else BitMap_get b j)"
  by (induction xs arbitrary: b) auto

lemma get_mark_up:
  assumes "0 \<le> start"
  shows "BitMap_get (mark_up start count b) j \<longleftrightarrow>
           BitMap_get b j \<or> start \<le> int j \<and> int j < start + count"
proof -
  have "j \<in> (\<lambda>i. nat (start + int i)) ` {0..<nat count} \<longleftrightarrow>
        start \<le> int j \<and> int j < start + count"
    using assms by (auto simp: image_iff intro!: bexI [of _ "j - nat start"])
  then show ?thesis by (auto simp: mark_up_def get_fold_set)
qed

lemma get_mark_down:
  assumes "0 \<le> start - count + 1"
  shows "BitMap_get (mark_down start count b) j \<longleftrightarrow>
           BitMap_get b j \<or> start - count < int j \<and> int j \<le> start"
proof -
  have "j \<in> (\<lambda>i. nat (start - int i)) ` {0..<nat count} \<longleftrightarrow>
        start - count < int j \<and> int j \<le> start"
    using assms by (auto simp: image_iff intro!: bexI [of _ "nat start - j"])
  then show ?thesis by (auto simp: mark_down_def get_fold_set)
qed

lemma length_of_mark [simp]:
  "length_of (mark_up s c b) = length_of b" "length_of (mark_down s c b) = length_of b"
  by (simp_all add: mark_up_def mark_down_def)

lemma get_release [simp]:
  "BitMap_get (BitMap_release i n b) j \<longleftrightarrow>
     BitMap_get b j \<and> \<not> (i \<le> j \<and> int j < int i + n)"
proof -
  have "j \<in> (+) i ` {0..<nat n} \<longleftrightarrow> i \<le> j \<and> int j < int i + n"
    by (auto simp: image_iff intro!: bexI [of _ "j - i"])
  then show ?thesis by (simp add: BitMap_release_def get_fold_set)
qed

lemma length_of_release [simp]: "length_of (BitMap_release i n b) = length_of b"
  by (simp add: BitMap_release_def)

section \<open>What a search looks for\<close>

text \<open>A run of \<open>n\<close> free bits that starts at \<open>i\<close> and lies inside the map.\<close>

definition fits :: "BitMap \<Rightarrow> int \<Rightarrow> int \<Rightarrow> bool" where
  "fits b i n \<longleftrightarrow> 0 \<le> i \<and> i + n \<le> length_of b \<and> (\<forall>j\<in>{i..<i + n}. \<not> BitMap_get b (nat j))"

lemma fitsD: "fits b i n \<Longrightarrow> i \<le> j \<Longrightarrow> j < i + n \<Longrightarrow> \<not> BitMap_get b (nat j)"
  by (simp add: fits_def)

lemma skip_used_bounds:
  "i \<le> length_of b \<Longrightarrow>
     i \<le> skip_used b i \<and> skip_used b i \<le> length_of b \<and>
     (\<forall>j. i \<le> j \<and> j < skip_used b i \<longrightarrow> BitMap_get b (nat j)) \<and>
     (skip_used b i < length_of b \<longrightarrow> \<not> BitMap_get b (nat (skip_used b i)))"
proof (induction b i rule: skip_used.induct)
  case (1 b i)
  show ?case
  proof (cases "i < length_of b \<and> BitMap_get b (nat i)")
    case True
    then have "skip_used b i = skip_used b (i + 1)" by (simp add: skip_used.simps [of b i])
    moreover have "BitMap_get b (nat j)" if "i \<le> j" "j < skip_used b (i + 1)" for j
      using 1 True that by (cases "j = i") auto
    ultimately show ?thesis using 1 True by auto
  next
    case False
    then show ?thesis using 1 by (auto simp: skip_used.simps [of b i])
  qed
qed

lemma count_free_run:
  assumes "count_free b n i e = (e', i')" and "i \<le> length_of b" and "e \<le> n"
  shows "i \<le> i' \<and> i' - i = e' - e \<and> i' \<le> length_of b \<and> e' \<le> n \<and>
    (\<forall>j. i \<le> j \<and> j < i' \<longrightarrow> \<not> BitMap_get b (nat j)) \<and>
    (e' < n \<longrightarrow> i' = length_of b \<or> BitMap_get b (nat i'))"
  using assms
proof (induction b n i e rule: count_free.induct)
  case (1 b n i e)
  show ?case
  proof (cases "i < length_of b \<and> \<not> BitMap_get b (nat i) \<and> e < n")
    case True
    then have "count_free b n (i + 1) (e + 1) = (e', i')"
      using "1.prems"(1) by (simp add: count_free.simps [of b n i e])
    with 1 True have IH: "i + 1 \<le> i' \<and> i' - (i + 1) = e' - (e + 1) \<and> i' \<le> length_of b \<and> e' \<le> n \<and>
        (\<forall>j. i + 1 \<le> j \<and> j < i' \<longrightarrow> \<not> BitMap_get b (nat j)) \<and>
        (e' < n \<longrightarrow> i' = length_of b \<or> BitMap_get b (nat i'))"
      by simp
    moreover have "\<not> BitMap_get b (nat j)" if "i \<le> j" "j < i'" for j
      using IH True that by (cases "j = i") auto
    ultimately show ?thesis by auto
  next
    case False
    with "1.prems" show ?thesis by (auto simp: count_free.simps [of b n i e])
  qed
qed


lemma fits_first: "fits b k n \<Longrightarrow> 0 < n \<Longrightarrow> 0 \<le> k \<and> k < length_of b \<and> \<not> BitMap_get b (nat k)"
  by (auto simp: fits_def)

text \<open>
  The run that starts at the first free bit is too short exactly when a used bit or the end of
  the map stops it, so no start up to the stopping point fits.
\<close>

lemma no_fit_before:
  assumes "\<forall>j. i \<le> j \<and> j < s \<longrightarrow> BitMap_get b (nat j)" and "t < s + n"
    and "0 < n" and "t = length_of b \<or> BitMap_get b (nat t)" and "i \<le> k" and "fits b k n"
  shows "t \<le> k"
proof (rule ccontr)
  assume "\<not> t \<le> k"
  have "\<not> k < s" using assms fits_first by blast
  then have "k \<le> t" "t < k + n" using assms \<open>\<not> t \<le> k\<close> by linarith+
  moreover have "k + n \<le> length_of b" using assms(6) by (simp add: fits_def)
  ultimately show False using fitsD [OF assms(6), of t] assms(4) by auto
qed

lemma forward_step:
  assumes "0 < n" and "0 \<le> i" and "i \<le> length_of b"
  shows "allocate_forward b n i = Some (- 1, b) \<and> (\<forall>k\<ge>i. \<not> fits b k n) \<or>
    (\<exists>s\<ge>i. allocate_forward b n i = Some (s, mark_up s n b) \<and> fits b s n \<and>
           (\<forall>k\<ge>i. fits b k n \<longrightarrow> s \<le> k)) \<or>
    (\<exists>t>i. t \<le> length_of b \<and> allocate_forward b n i = allocate_forward b n t \<and>
           (\<forall>k\<ge>i. fits b k n \<longrightarrow> t \<le> k))"
proof -
  define s where "s = skip_used b i"
  obtain e t where et: "count_free b n s 0 = (e, t)" by (cases "count_free b n s 0")
  note sk = skip_used_bounds [OF assms(3), folded s_def] and eq = allocate_forward.simps [of b n i]
  have hit: "s \<le> k" if "i \<le> k" "fits b k n" for k
    using fits_first [OF that(2) assms(1)] sk that by force
  show ?thesis
  proof (cases "i < length_of b \<and> s \<noteq> length_of b")
    case False
    then have "s = length_of b" using sk assms by auto
    moreover have "allocate_forward b n i = Some (- 1, b)" using False by (auto simp: eq Let_def s_def)
    ultimately show ?thesis using hit fits_first [OF _ assms(1)] by force
  next
    case True
    then have s: "s < length_of b" "\<not> BitMap_get b (nat s)" using sk by auto
    have run: "s \<le> t" "t - s = e" "t \<le> length_of b" "e \<le> n"
        "\<forall>j. s \<le> j \<and> j < t \<longrightarrow> \<not> BitMap_get b (nat j)"
        "e < n \<longrightarrow> t = length_of b \<or> BitMap_get b (nat t)"
      using count_free_run [OF et] s assms(1) by auto
    have res: "allocate_forward b n i =
        (if e = n then Some (s, mark_up s n b) else allocate_forward b n t)"
      using True et by (simp add: eq s_def Let_def)
    show ?thesis
    proof (cases "e = n")
      case True
      have "fits b s n" using run True sk assms by (auto simp: fits_def)
      then show ?thesis using res True sk hit by auto
    next
      case False
      then have "t \<noteq> s" "t < s + n" using run s assms(1) by auto
      then show ?thesis
        using no_fit_before [of i s b t n] run res False sk assms(1) by (intro disjI2 exI [of _ t]) auto
    qed
  qed
qed

lemma allocate_forward_spec:
  assumes "0 < n" and "0 \<le> i" and "i \<le> length_of b"
  shows "allocate_forward b n i = Some (- 1, b) \<and> (\<forall>k\<ge>i. \<not> fits b k n) \<or>
    (\<exists>s\<ge>i. allocate_forward b n i = Some (s, mark_up s n b) \<and> fits b s n \<and>
           (\<forall>k\<ge>i. fits b k n \<longrightarrow> s \<le> k))"
  using assms(2,3)
proof (induction "nat (length_of b - i)" arbitrary: i rule: less_induct)
  case less
  from forward_step [OF assms(1) less.prems] show ?case
  proof (elim disjE exE conjE)
    fix t assume t: "i < t" "t \<le> length_of b" "allocate_forward b n i = allocate_forward b n t"
      "\<forall>k\<ge>i. fits b k n \<longrightarrow> t \<le> k"
    have "nat (length_of b - t) < nat (length_of b - i)" "0 \<le> t" using t less.prems by auto
    from less.hyps [OF this t(2)] show ?case using t by (smt (verit) order_trans)
  qed blast+
qed

subsection \<open>The same, from the top\<close>

lemma skip_used_down_bounds:
  "- 1 \<le> i \<Longrightarrow>
     - 1 \<le> skip_used_down b i \<and> skip_used_down b i \<le> i \<and>
     (\<forall>j. skip_used_down b i < j \<and> j \<le> i \<longrightarrow> BitMap_get b (nat j)) \<and>
     (0 \<le> skip_used_down b i \<longrightarrow> \<not> BitMap_get b (nat (skip_used_down b i)))"
proof (induction b i rule: skip_used_down.induct)
  case (1 b i)
  show ?case
  proof (cases "i \<ge> 0 \<and> BitMap_get b (nat i)")
    case True
    then have "skip_used_down b i = skip_used_down b (i - 1)"
      by (simp add: skip_used_down.simps [of b i])
    moreover have "BitMap_get b (nat j)" if "skip_used_down b (i - 1) < j" "j \<le> i" for j
      using 1 True that by (cases "j = i") auto
    ultimately show ?thesis using 1 True by auto
  next
    case False
    then show ?thesis using 1 by (auto simp: skip_used_down.simps [of b i])
  qed
qed

lemma count_free_down_run:
  assumes "count_free_down b n i e = (e', i')" and "- 1 \<le> i" and "e \<le> n"
  shows "i' \<le> i \<and> i - i' = e' - e \<and> - 1 \<le> i' \<and> e' \<le> n \<and>
    (\<forall>j. i' < j \<and> j \<le> i \<longrightarrow> \<not> BitMap_get b (nat j)) \<and>
    (e' < n \<longrightarrow> i' = - 1 \<or> BitMap_get b (nat i'))"
  using assms
proof (induction b n i e rule: count_free_down.induct)
  case (1 b n i e)
  show ?case
  proof (cases "i \<ge> 0 \<and> \<not> BitMap_get b (nat i) \<and> e < n")
    case True
    then have "count_free_down b n (i - 1) (e + 1) = (e', i')"
      using "1.prems"(1) by (simp add: count_free_down.simps [of b n i e])
    with 1 True have IH: "i' \<le> i - 1 \<and> i - 1 - i' = e' - (e + 1) \<and> - 1 \<le> i' \<and> e' \<le> n \<and>
        (\<forall>j. i' < j \<and> j \<le> i - 1 \<longrightarrow> \<not> BitMap_get b (nat j)) \<and>
        (e' < n \<longrightarrow> i' = - 1 \<or> BitMap_get b (nat i'))"
      by simp
    moreover have "\<not> BitMap_get b (nat j)" if "i' < j" "j \<le> i" for j
      using IH True that by (cases "j = i") auto
    ultimately show ?thesis by auto
  next
    case False
    with "1.prems" show ?thesis by (auto simp: count_free_down.simps [of b n i e])
  qed
qed

lemma no_fit_above:
  assumes "\<forall>j. s < j \<and> j \<le> i \<longrightarrow> BitMap_get b (nat j)" and "s - n < t"
    and "0 < n" and "t = - 1 \<or> BitMap_get b (nat t)" and "k + n \<le> i + 1" and "fits b k n"
  shows "k + n \<le> t + 1"
proof (rule ccontr)
  assume far: "\<not> k + n \<le> t + 1"
  have k: "0 \<le> k" using fits_first [OF assms(6,3)] by simp
  show False
  proof (cases "s < k + n - 1")
    case True
    then show False using fitsD [OF assms(6), of "k + n - 1"] assms(1,3,5) by auto
  next
    case False
    then have "k \<le> t" "t < k + n" using assms(2) far by linarith+
    then show False using fitsD [OF assms(6), of t] assms(4) k by auto
  qed
qed

lemma reverse_step:
  assumes "0 < n" and "- 1 \<le> i" and "i < length_of b"
  shows "allocate_reverse b n i = Some (- 1, b) \<and> (\<forall>k. k + n \<le> i + 1 \<longrightarrow> \<not> fits b k n) \<or>
    (\<exists>s\<le>i. allocate_reverse b n i = Some (s - n + 1, mark_down s n b) \<and> fits b (s - n + 1) n \<and>
           (\<forall>k. k + n \<le> i + 1 \<and> fits b k n \<longrightarrow> k \<le> s - n + 1)) \<or>
    (\<exists>t<i. - 1 \<le> t \<and> allocate_reverse b n i = allocate_reverse b n t \<and>
           (\<forall>k. k + n \<le> i + 1 \<and> fits b k n \<longrightarrow> k + n \<le> t + 1))"
proof -
  define s where "s = skip_used_down b i"
  obtain e t where et: "count_free_down b n s 0 = (e, t)" by (cases "count_free_down b n s 0")
  note sk = skip_used_down_bounds [OF assms(2), of b, folded s_def]
    and eq = allocate_reverse.simps [of b n i]
  have hit: "k + n \<le> s + 1" if "k + n \<le> i + 1" "fits b k n" for k
    using fitsD [OF that(2), of "k + n - 1"] sk that assms(1) by (cases "s < k + n - 1") auto
  show ?thesis
  proof (cases "i \<ge> 0 \<and> s \<noteq> - 1")
    case False
    then have "s = - 1" using sk assms by auto
    moreover have "allocate_reverse b n i = Some (- 1, b)" using False by (auto simp: eq Let_def s_def)
    ultimately show ?thesis using hit fits_first [OF _ assms(1)] assms(1) by force
  next
    case True
    then have s: "0 \<le> s" "\<not> BitMap_get b (nat s)" using sk by auto
    have run: "t \<le> s" "s - t = e" "- 1 \<le> t" "e \<le> n"
        "\<forall>j. t < j \<and> j \<le> s \<longrightarrow> \<not> BitMap_get b (nat j)"
        "e < n \<longrightarrow> t = - 1 \<or> BitMap_get b (nat t)"
      using count_free_down_run [OF et] s assms(1) by auto
    have res: "allocate_reverse b n i =
        (if e = n then Some (s - n + 1, mark_down s n b) else allocate_reverse b n t)"
      using True et by (simp add: eq s_def Let_def)
    show ?thesis
    proof (cases "e = n")
      case True
      have "fits b (s - n + 1) n" using run True sk assms by (auto simp: fits_def)
      then show ?thesis using res True sk hit by fastforce
    next
      case False
      then have "t \<noteq> s" "s - n < t" using run s assms(1) by auto
      then show ?thesis
        using no_fit_above [of s i b n t] run res False sk assms(1)
        by (intro disjI2 exI [of _ t]) auto
    qed
  qed
qed

lemma allocate_reverse_spec:
  assumes "0 < n" and "- 1 \<le> i" and "i < length_of b"
  shows "allocate_reverse b n i = Some (- 1, b) \<and> (\<forall>k. k + n \<le> i + 1 \<longrightarrow> \<not> fits b k n) \<or>
    (\<exists>s\<le>i. allocate_reverse b n i = Some (s - n + 1, mark_down s n b) \<and> fits b (s - n + 1) n \<and>
           (\<forall>k. k + n \<le> i + 1 \<and> fits b k n \<longrightarrow> k \<le> s - n + 1))"
  using assms(2,3)
proof (induction "nat (i + 1)" arbitrary: i rule: less_induct)
  case less
  from reverse_step [OF assms(1) less.prems] show ?case
  proof (elim disjE exE conjE)
    fix t assume t: "t < i" "- 1 \<le> t" "allocate_reverse b n i = allocate_reverse b n t"
      "\<forall>k. k + n \<le> i + 1 \<and> fits b k n \<longrightarrow> k + n \<le> t + 1"
    have "nat (t + 1) < nat (i + 1)" "t < length_of b" using t less.prems by auto
    from less.hyps [OF this(1) t(2) this(2)] show ?case
      using t by (smt (verit))
  qed blast+
qed


section \<open>Allocation and release, as the callers see them\<close>

text \<open>
  A call with a positive count returns; it returns the lowest (with \<^verbatim>\<open>reverse\<close>: the highest)
  start at which the run fits and sets exactly the bits of that run, or it returns \<open>-1\<close>, changes
  nothing, and no run of that length is free.
\<close>

definition takes_run :: "BitMap \<Rightarrow> int \<Rightarrow> int \<Rightarrow> BitMap \<Rightarrow> bool" where
  "takes_run b r n b' \<longleftrightarrow> length_of b' = length_of b \<and>
     (\<forall>j. BitMap_get b' j \<longleftrightarrow> BitMap_get b j \<or> r \<le> int j \<and> int j < r + n)"

lemma takes_run_mark_up: "0 \<le> r \<Longrightarrow> takes_run b r n (mark_up r n b)"
  by (simp add: takes_run_def get_mark_up)

lemma takes_run_mark_down: "0 \<le> s - n + 1 \<Longrightarrow> takes_run b (s - n + 1) n (mark_down s n b)"
  by (auto simp: takes_run_def get_mark_down)

lemma BitMap_allocate_cases:
  assumes "0 < n" and "0 \<le> length_of b"
  obtains (full) "BitMap_allocate b n rv = Some (- 1, b)" "\<forall>k. \<not> fits b k n"
  | (hit) r b' where "BitMap_allocate b n rv = Some (r, b')" "fits b r n" "takes_run b r n b'"
      "\<forall>k. fits b k n \<longrightarrow> (if rv then k \<le> r else r \<le> k)"
proof (cases rv)
  case False
  then have eq: "BitMap_allocate b n rv = allocate_forward b n 0"
    using assms by (simp add: BitMap_allocate_def)
  have nn: "0 \<le> k" if "fits b k n" for k using that by (simp add: fits_def)
  from allocate_forward_spec [OF assms(1) order_refl assms(2)] show thesis
    using eq nn False full hit takes_run_mark_up by (smt (verit))
next
  case True
  then have eq: "BitMap_allocate b n rv = allocate_reverse b n (length_of b - 1)"
    using assms by (simp add: BitMap_allocate_def)
  have le: "0 \<le> k \<and> k + n \<le> length_of b - 1 + 1" if "fits b k n" for k
    using that by (simp add: fits_def)
  have "- 1 \<le> length_of b - 1" "length_of b - 1 < length_of b" using assms by simp_all
  from allocate_reverse_spec [OF assms(1) this] show thesis
    using eq le True full hit takes_run_mark_down by (smt (verit))
qed


text \<open>Both search directions keep the allocator contract.\<close>

lemma BitMap_run_allocator:
  "run_allocator (\<lambda>b n. BitMap_allocate b n rv) BitMap_release BitMap_get length_of"
proof unfold_locales
  fix n r i :: int and b b' :: BitMap and j k :: nat
  show "BitMap_get (BitMap_release k n b) j \<longleftrightarrow> BitMap_get b j \<and> \<not> (k \<le> j \<and> int j < int k + n)"
    by simp
  show "length_of (BitMap_release k n b) = length_of b" by simp
  assume n: "0 < n" and l: "0 \<le> length_of b"
  note cs = BitMap_allocate_cases [OF n l, of rv]
  show "\<exists>r b'. BitMap_allocate b n rv = Some (r, b')" by (rule cs) auto
  assume eq: "BitMap_allocate b n rv = Some (r, b')"
  show "length_of b' = length_of b" by (rule cs) (use eq in \<open>auto simp: takes_run_def\<close>)
next
  fix n r i :: int and b b' :: BitMap and j :: nat
  assume n: "0 < n" and l: "0 \<le> length_of b"
  note cs = BitMap_allocate_cases [OF n l, of rv]
  show "b' = b" if eq: "BitMap_allocate b n rv = Some (- 1, b')"
    by (rule cs) (use eq n in \<open>auto dest: fits_first\<close>)
  show "\<exists>j. i \<le> int j \<and> int j < i + n \<and> BitMap_get b j"
    if eq: "BitMap_allocate b n rv = Some (- 1, b')" and i: "0 \<le> i" "i + n \<le> length_of b"
  proof -
    have "\<not> fits b i n" by (rule cs) (use eq n in \<open>auto dest: fits_first\<close>)
    then obtain k where "i \<le> k" "k < i + n" "BitMap_get b (nat k)" using i by (auto simp: fits_def)
    then show ?thesis using i by (intro exI [of _ "nat k"]) auto
  qed
  assume eq: "BitMap_allocate b n rv = Some (r, b')" and r: "r \<noteq> - 1"
  have f: "fits b r n \<and> takes_run b r n b'" by (rule cs) (use eq r in auto)
  then show "0 \<le> r \<and> r + n \<le> length_of b" by (simp add: fits_def)
  show "r \<le> int j \<Longrightarrow> int j < r + n \<Longrightarrow> \<not> BitMap_get b j" using f fitsD [of b r n "int j"] by simp
  show "BitMap_get b' j \<longleftrightarrow> BitMap_get b j \<or> r \<le> int j \<and> int j < r + n"
    using f by (simp add: takes_run_def)
qed

interpretation bm_up: run_allocator "\<lambda>b n. BitMap_allocate b n False" BitMap_release BitMap_get length_of
  by (rule BitMap_run_allocator)

interpretation bm_down: run_allocator "\<lambda>b n. BitMap_allocate b n True" BitMap_release BitMap_get length_of
  by (rule BitMap_run_allocator)


section \<open>Properties\<close>

definition bm_example :: BitMap where
  "bm_example = \<lparr>length_of = 12, bitmap_of = (\<lambda>_. 0)(0 := 0b00001011, 1 := 0b00000001)\<rparr>"

text \<open>
  \<^bold>\<open>C1\<close>: for a positive count \<^verbatim>\<open>BitMap::allocate\<close> returns; if some run of that length is
  free it returns the lowest such start (the highest when searching backwards) and sets exactly
  the bits of that run, otherwise it returns \<open>-1\<close> and changes nothing.
\<close>

theorem BitMap_allocate_correct:
  assumes "0 < n" and "0 \<le> length_of b"
  shows "\<exists>r b'. BitMap_allocate b n rv = Some (r, b') \<and>
    (if \<exists>k. fits b k n
     then fits b r n \<and> (\<forall>k. fits b k n \<longrightarrow> (if rv then k \<le> r else r \<le> k)) \<and>
          length_of b' = length_of b \<and>
          (\<forall>j. BitMap_get b' j \<longleftrightarrow> BitMap_get b j \<or> r \<le> int j \<and> int j < r + n)
     else r = - 1 \<and> b' = b)"
  by (rule BitMap_allocate_cases [OF assms, of rv]) (force simp: takes_run_def)+

theorem BitMap_allocate_correct_witness:
  "0 < (2::int) \<and> 0 \<le> length_of bm_example \<and>
   (\<exists>r b'. BitMap_allocate bm_example 2 True = Some (r, b') \<and>
    (if \<exists>k. fits bm_example k 2
     then fits bm_example r 2 \<and> (\<forall>k. fits bm_example k 2 \<longrightarrow> (if True then k \<le> r else r \<le> k)) \<and>
          length_of b' = length_of bm_example \<and>
          (\<forall>j. BitMap_get b' j \<longleftrightarrow> BitMap_get bm_example j \<or> r \<le> int j \<and> int j < r + 2)
     else r = - 1 \<and> b' = bm_example))"
  using BitMap_allocate_correct [of 2 bm_example True] by (simp add: bm_example_def)

text \<open>The searches really run: first fit from below and from above on the example map.\<close>

lemma bm_example_runs:
  "map_option fst (BitMap_allocate bm_example 2 False) = Some 4"
  "map_option fst (BitMap_allocate bm_example 2 True) = Some 10"
  "map_option fst (BitMap_allocate bm_example 5 False) = Some (- 1)"
  by (simp_all add: BitMap_allocate_def bm_example_def loop_simps BitMap_get_def byte_test_def Let_def)

lemma allocate_forward_negative:
  assumes "allocate_forward b n i = Some r"
  shows "n < 0 \<longrightarrow> i \<le> length_of b \<longrightarrow> (\<forall>j. i \<le> j \<and> j < length_of b \<longrightarrow> BitMap_get b (nat j))"
proof (rule allocate_forward.raw_induct [where P = "\<lambda>b n i r. n < 0 \<longrightarrow> i \<le> length_of b \<longrightarrow>
    (\<forall>j. i \<le> j \<and> j < length_of b \<longrightarrow> BitMap_get b (nat j))", OF _ assms], intro impI)
  fix f :: "BitMap \<Rightarrow> int \<Rightarrow> int \<Rightarrow> (int \<times> BitMap) option"
    and b :: BitMap and n i :: int and r :: "int \<times> BitMap"
  assume IH: "\<And>b n i r. f b n i = Some r \<Longrightarrow> n < 0 \<longrightarrow> i \<le> length_of b \<longrightarrow>
      (\<forall>j. i \<le> j \<and> j < length_of b \<longrightarrow> BitMap_get b (nat j))"
    and n: "n < 0" and i: "i \<le> length_of b"
    and eq: "(if i < length_of b then
        let start = skip_used b i in
        if start = length_of b then Some (- 1, b)
        else let (emp, i') = count_free b n start 0 in
          if emp = n then Some (start, mark_up start n b) else f b n i'
      else Some (- 1, b)) = Some r"
  note sk = skip_used_bounds [OF i]
  have "count_free b n (skip_used b i) 0 = (0, skip_used b i)"
    using n by (simp add: count_free.simps)
  then show "\<forall>j. i \<le> j \<and> j < length_of b \<longrightarrow> BitMap_get b (nat j)"
    using eq sk n IH [of b n "skip_used b i" r]
    by (cases "skip_used b i = length_of b") (auto simp: Let_def split: if_splits)
qed

text \<open>
  a forward request for a negative number of units never returns while any unit is free:
  the inner loop takes no unit, the count never matches, and the outer loop resumes at the same
  index.  \<^verbatim>\<open>syscall_expandHeap\<close> passes its unsigned argument down to this call unchecked.
\<close>

theorem BitMap_allocate_negative_spins:
  assumes "n < 0" and "0 \<le> k" and "k < length_of b" and "\<not> BitMap_get b (nat k)"
  shows "BitMap_allocate b n False = None"
proof (cases "allocate_forward b n 0")
  case (Some r)
  from allocate_forward_negative [OF this] assms show ?thesis by auto
qed (use assms in \<open>simp add: BitMap_allocate_def\<close>)

theorem BitMap_allocate_negative_spins_witness:
  "(- 1 :: int) < 0 \<and> 2 < length_of bm_example \<and> \<not> BitMap_get bm_example 2 \<and>
   BitMap_allocate bm_example (- 1) False = None"
  using BitMap_allocate_negative_spins [of "- 1" 2 bm_example]
  by (simp add: bm_example_def BitMap_get_def byte_test_def Let_def)

text \<open>
  releasing the run that \<^verbatim>\<open>allocate\<close> just returned gives back the same bit values at
  every index, so an allocate/release pair leaks no unit.
\<close>

theorem BitMap_allocate_release_roundtrip:
  assumes "0 < n" and "0 \<le> length_of b" and "BitMap_allocate b n rv = Some (r, b')" and "r \<noteq> - 1"
  shows "BitMap_get (BitMap_release (nat r) n b') j = BitMap_get b j \<and>
    length_of (BitMap_release (nat r) n b') = length_of b"
  using assms bm_up.alloc_free_taken [of n b r b' j] bm_down.alloc_free_taken [of n b r b' j]
    bm_up.alloc_cap [of n b r b'] bm_down.alloc_cap [of n b r b'] by (cases rv) simp_all

theorem BitMap_allocate_release_roundtrip_witness:
  "BitMap_get (BitMap_release 4 2 (mark_up 4 2 bm_example)) 5 = BitMap_get bm_example 5"
proof -
  have "BitMap_allocate bm_example 2 False = Some (4, mark_up 4 2 bm_example)"
    by (simp add: BitMap_allocate_def bm_example_def loop_simps BitMap_get_def byte_test_def Let_def)
  from BitMap_allocate_release_roundtrip [OF _ _ this, of 5] show ?thesis
    by (simp add: bm_example_def)
qed

end
