(* ===== verification/Page_Info.thy ===== *)
theory Page_Info
  imports Paging_Words Bitmap "HOL-Library.Monad_Syntax"
begin

text \<open>
  Page descriptors and the reverse map: \<^verbatim>\<open>src/kernel/pageinfo.cpp\<close> and
  \<^verbatim>\<open>src/kernel/rmap.cpp\<close>.  A descriptor counts the references to a physical page and heads a
  singly linked list of reverse-map entries, one per page-table entry that maps the page.  Entries
  come from a table whose slots a bitmap manages (slot 0 is reserved as the null index).  A stopped
  kernel (a failed \<^verbatim>\<open>ASSERT\<close>) and a loop that does not end are \<open>None\<close>.  The theorems read the
  linked lists as one list of mappings per page and show that \<^verbatim>\<open>attach\<close> and \<^verbatim>\<open>detach\<close> add and
  remove one mapping of one page, keep the reference counts and never mix the lists of two pages.
\<close>

section \<open>Page descriptors\<close>

definition ASSERT :: "bool \<Rightarrow> unit option" where
  "ASSERT expr = (if expr then Some () else None)"

lemma ASSERT_simps [simp]: "ASSERT True = Some ()" "ASSERT False = None"
  by (simp_all add: ASSERT_def)

lemma ASSERT_bind [simp]: "ASSERT P \<bind> f = (if P then f () else None)"
  by (simp add: ASSERT_def)

record PageInfo =
  pi_ref :: u16
  pi_flags :: u16
  pi_extra :: nat

definition PageInfo_incRef :: "PageInfo \<Rightarrow> PageInfo option" where
  "PageInfo_incRef p = do { ASSERT (pi_ref p < 0xFFFF); Some (p\<lparr>pi_ref := pi_ref p + 1\<rparr>) }"

definition PageInfo_decRef :: "PageInfo \<Rightarrow> PageInfo option" where
  "PageInfo_decRef p = do { ASSERT (0 < pi_ref p); Some (p\<lparr>pi_ref := pi_ref p - 1\<rparr>) }"

definition PageInfo_getRef :: "PageInfo \<Rightarrow> u16" where
  "PageInfo_getRef p = pi_ref p"

definition PageInfo_setFlag :: "u16 \<Rightarrow> PageInfo \<Rightarrow> PageInfo" where
  "PageInfo_setFlag flag p = p\<lparr>pi_flags := pi_flags p OR flag\<rparr>"

definition PageInfo_clearFlag :: "u16 \<Rightarrow> PageInfo \<Rightarrow> PageInfo" where
  "PageInfo_clearFlag flag p = p\<lparr>pi_flags := pi_flags p AND NOT flag\<rparr>"

definition PageInfo_hasFlag :: "PageInfo \<Rightarrow> u16 \<Rightarrow> bool" where
  "PageInfo_hasFlag p flag \<longleftrightarrow> pi_flags p AND flag \<noteq> 0"

definition PageInfo_clear :: "PageInfo \<Rightarrow> PageInfo" where
  "PageInfo_clear p = p\<lparr>pi_flags := 0, pi_ref := 0, pi_extra := 0\<rparr>"

section \<open>The reverse map\<close>

record RMapEntry =
  pte_paddr :: u32
  pte_vaddr :: u32
  rm_next :: nat
  rm_owner :: u16

record RMapManager =
  RMapStart :: "nat \<Rightarrow> RMapEntry"
  rm_bitmap :: BitMap
  rm_length :: int

definition RMap_zero :: RMapEntry where
  "RMap_zero = \<lparr>pte_paddr = 0, pte_vaddr = 0, rm_next = 0, rm_owner = 0\<rparr>"

definition RMap_initialize :: "int \<Rightarrow> (nat \<Rightarrow> RMapEntry) \<Rightarrow> bytes \<Rightarrow> RMapManager" where
  "RMap_initialize len start bm =
     (let bm0 = fold (\<lambda>i m. m(i := 0)) [0..<nat ((len + 7) sdiv 8)] bm;
          b = BitMap_initialize bm0 len
      in \<lparr>RMapStart = start, rm_bitmap = BitMap_set 0 True b, rm_length = len\<rparr>)"

definition RMap_allocate :: "RMapManager \<Rightarrow> u32 \<Rightarrow> u32 \<Rightarrow> u16 \<Rightarrow> (int \<times> RMapManager) option" where
  "RMap_allocate R paddr vaddr owner = do {
     (idx, b) \<leftarrow> BitMap_allocate (rm_bitmap R) 1 False;
     let R = R\<lparr>rm_bitmap := b\<rparr>;
     if idx = - 1 then Some (- 1, R)
     else Some (idx, R\<lparr>RMapStart := (RMapStart R)(nat idx :=
            \<lparr>pte_paddr = paddr, pte_vaddr = vaddr, rm_next = 0, rm_owner = owner\<rparr>)\<rparr>)
   }"

definition RMap_release :: "nat \<Rightarrow> RMapManager \<Rightarrow> RMapManager option" where
  "RMap_release idx R = do {
     ASSERT (int idx < rm_length R);
     Some (R\<lparr>rm_bitmap := BitMap_release idx 1 (rm_bitmap R), RMapStart := (RMapStart R)(idx := RMap_zero)\<rparr>)
   }"

definition RMap_attach ::
    "RMapManager \<Rightarrow> PageInfo \<Rightarrow> u32 \<Rightarrow> u32 \<Rightarrow> u16 \<Rightarrow> (int \<times> RMapManager \<times> PageInfo) option" where
  "RMap_attach R p paddr vaddr owner = do {
     (idx, R) \<leftarrow> RMap_allocate R paddr vaddr owner;
     if idx = - 1 then Some (- 1, R, p)
     else do {
       let i = nat idx;
       let R = (if pi_extra p = 0 then R
                else R\<lparr>RMapStart := (RMapStart R)(i := (RMapStart R i)\<lparr>rm_next := pi_extra p\<rparr>)\<rparr>);
       let p = p\<lparr>pi_extra := i\<rparr>;
       p \<leftarrow> PageInfo_incRef p;
       Some (idx, R, p)
     }
   }"

partial_function (option) detach_loop ::
    "RMapManager \<Rightarrow> PageInfo \<Rightarrow> u32 \<Rightarrow> u16 \<Rightarrow> nat \<Rightarrow> nat \<Rightarrow> (bool \<times> RMapManager \<times> PageInfo) option" where
  "detach_loop R p paddr owner prv idx =
     (if idx \<noteq> 0 then
        if pte_paddr (RMapStart R idx) = paddr \<and> rm_owner (RMapStart R idx) = owner then
          let R1 = R\<lparr>RMapStart := (RMapStart R)(prv := (RMapStart R prv)\<lparr>rm_next := rm_next (RMapStart R idx)\<rparr>)\<rparr>
          in Option.bind (RMap_release idx R1) (\<lambda>R2. Option.bind (PageInfo_decRef p) (\<lambda>p'. Some (True, R2, p')))
        else detach_loop R p paddr owner idx (rm_next (RMapStart R idx))
      else Some (False, R, p))"

definition RMap_detach ::
    "RMapManager \<Rightarrow> PageInfo \<Rightarrow> u32 \<Rightarrow> u16 \<Rightarrow> (bool \<times> RMapManager \<times> PageInfo) option" where
  "RMap_detach R p paddr owner = do {
     ASSERT (0 < pi_ref p);
     let idx = pi_extra p;
     ASSERT (idx \<noteq> 0);
     if pte_paddr (RMapStart R idx) = paddr \<and> rm_owner (RMapStart R idx) = owner then do {
       let p = p\<lparr>pi_extra := rm_next (RMapStart R idx)\<rparr>;
       R \<leftarrow> RMap_release idx R;
       p \<leftarrow> PageInfo_decRef p;
       Some (True, R, p)
     }
     else detach_loop R p paddr owner (pi_extra p) (rm_next (RMapStart R idx))
   }"

section \<open>Chains of entries\<close>

fun rm_chain :: "(nat \<Rightarrow> RMapEntry) \<Rightarrow> nat \<Rightarrow> nat list \<Rightarrow> bool" where
  "rm_chain m i [] \<longleftrightarrow> i = 0"
| "rm_chain m i (j # js) \<longleftrightarrow> i = j \<and> j \<noteq> 0 \<and> rm_chain m (rm_next (m j)) js"

lemma rm_chain_cong: "(\<And>j. j \<in> set is \<Longrightarrow> rm_next (m' j) = rm_next (m j)) \<Longrightarrow> rm_chain m' i is = rm_chain m i is"
  by (induction "is" arbitrary: i) auto

lemma rm_chain_upd_other [simp]: "k \<notin> set is \<Longrightarrow> rm_chain (m(k := e)) i is = rm_chain m i is"
  by (rule rm_chain_cong) auto

lemma rm_chain_nonzero: "rm_chain m i is \<Longrightarrow> 0 \<notin> set is"
  by (induction "is" arbitrary: i) auto

type_synonym mapping_entry = "u32 \<times> u32 \<times> u16"

definition entry_of :: "RMapEntry \<Rightarrow> mapping_entry" where
  "entry_of e = (pte_paddr e, pte_vaddr e, rm_owner e)"

text \<open>
  The invariant over all page descriptors: page \<open>q\<close> has the chain \<open>X q\<close>; chains are duplicate free
  and disjoint; exactly the chained slots and slot 0 are in use; and the reference count of \<open>q\<close> is
  the length of its chain plus \<open>base q\<close>, the references that are not recorded in the reverse map
  (one for a reserved page or a page table).
\<close>

definition rmap_ok ::
    "RMapManager \<Rightarrow> (nat \<Rightarrow> PageInfo) \<Rightarrow> (nat \<Rightarrow> nat) \<Rightarrow> (nat \<Rightarrow> nat list) \<Rightarrow> bool" where
  "rmap_ok R P base X \<longleftrightarrow>
     0 < rm_length R \<and> length_of (rm_bitmap R) = rm_length R \<and> BitMap_get (rm_bitmap R) 0 \<and>
     (\<forall>q. rm_chain (RMapStart R) (pi_extra (P q)) (X q) \<and> distinct (X q) \<and>
          unat (pi_ref (P q)) = base q + length (X q) \<and>
          (\<forall>i\<in>set (X q). int i < rm_length R \<and> BitMap_get (rm_bitmap R) i)) \<and>
     (\<forall>q r. q \<noteq> r \<longrightarrow> set (X q) \<inter> set (X r) = {})"

definition mappings :: "RMapManager \<Rightarrow> nat list \<Rightarrow> mapping_entry list" where
  "mappings R is = map (\<lambda>i. entry_of (RMapStart R i)) is"

lemma mappings_upd_other: "k \<notin> set is \<Longrightarrow> mappings (R\<lparr>RMapStart := (RMapStart R)(k := e)\<rparr>) is = mappings R is"
  by (auto simp: mappings_def)

lemma mappings_cong:
  "(\<And>i. i \<in> set is \<Longrightarrow> entry_of (RMapStart R' i) = entry_of (RMapStart R i)) \<Longrightarrow> mappings R' is = mappings R is"
  by (auto simp: mappings_def)

lemma BitMap_get_release1: "BitMap_get (BitMap_release i 1 b) j \<longleftrightarrow> BitMap_get b j \<and> j \<noteq> i"
  by (rule bm_up.single.free1_used)

lemma BitMap_length_release1: "length_of (BitMap_release i 1 b) = length_of b"
  by (rule bm_up.single.free1_slots)

section \<open>Attaching\<close>

lemma rmap_okD:
  assumes "rmap_ok R P base X"
  shows "rm_chain (RMapStart R) (pi_extra (P q)) (X q)" "distinct (X q)" "unat (pi_ref (P q)) = base q + length (X q)"
    "i \<in> set (X q) \<Longrightarrow> int i < rm_length R \<and> BitMap_get (rm_bitmap R) i"
    "q \<noteq> r \<Longrightarrow> i \<in> set (X q) \<Longrightarrow> i \<notin> set (X r)"
  using assms unfolding rmap_ok_def by blast+

lemma RMap_allocate_cases:
  assumes "rmap_ok R P base X"
  obtains (full) "RMap_allocate R pa va ow = Some (- 1, R)" "\<forall>j. int j < rm_length R \<longrightarrow> BitMap_get (rm_bitmap R) j"
  | (slot) i b where "RMap_allocate R pa va ow = Some (int i,
        R\<lparr>rm_bitmap := b, RMapStart := (RMapStart R)(i := \<lparr>pte_paddr = pa, pte_vaddr = va, rm_next = 0, rm_owner = ow\<rparr>)\<rparr>)"
      "i \<noteq> 0" "int i < rm_length R" "\<forall>q. i \<notin> set (X q)" "length_of b = rm_length R"
      "\<And>j. BitMap_get b j \<longleftrightarrow> BitMap_get (rm_bitmap R) j \<or> j = i"
proof -
  have len: "length_of (rm_bitmap R) = rm_length R" "0 < rm_length R" "BitMap_get (rm_bitmap R) 0"
    using assms by (simp_all add: rmap_ok_def)
  have "0 \<le> length_of (rm_bitmap R)" using len by simp
  then show thesis
  proof (cases rule: bm_up.single.alloc1_cases)
    case full
    then show thesis using that(1) len by (simp add: RMap_allocate_def)
  next
    case (slot i b)
    moreover have "i \<noteq> 0" using slot(3) len(3) by metis
    moreover have "\<forall>q. i \<notin> set (X q)" using rmap_okD(4) [OF assms] slot(3) by blast
    ultimately show thesis using len by (intro that(2) [of i b]) (simp_all add: RMap_allocate_def)
  qed
qed

lemma RMap_attach_ok:
  assumes ok: "rmap_ok R P base X" and ref: "unat (pi_ref (P q)) < 0xFFFF"
  obtains (full) "RMap_attach R (P q) pa va ow = Some (- 1, R, P q)"
      "\<forall>j. int j < rm_length R \<longrightarrow> BitMap_get (rm_bitmap R) j"
  | (linked) i R' p' where "RMap_attach R (P q) pa va ow = Some (int i, R', p')" "pi_flags p' = pi_flags (P q)"
      "rmap_ok R' (P(q := p')) base (X(q := i # X q))" "mappings R' (i # X q) = (pa, va, ow) # mappings R (X q)"
      "\<And>r. r \<noteq> q \<Longrightarrow> mappings R' (X r) = mappings R (X r)"
proof (cases rule: RMap_allocate_cases [OF ok, of pa va ow])
  case 1
  then show thesis using that(1) by (simp add: RMap_attach_def)
next
  case (2 i b)
  define e where "e = \<lparr>pte_paddr = pa, pte_vaddr = va, rm_next = pi_extra (P q), rm_owner = ow\<rparr>"
  define R' where "R' = R\<lparr>rm_bitmap := b, RMapStart := (RMapStart R)(i := e)\<rparr>"
  define p' where "p' = (P q)\<lparr>pi_extra := i, pi_ref := pi_ref (P q) + 1\<rparr>"
  have att: "RMap_attach R (P q) pa va ow = Some (int i, R', p')"
    using 2(1) ref by (cases "pi_extra (P q) = 0")
      (simp_all add: RMap_attach_def PageInfo_incRef_def R'_def p'_def e_def word_less_nat_alt)
  have unref: "unat (pi_ref (P q) + 1) = unat (pi_ref (P q)) + 1"
    using ref by (subst unat_add_lem [THEN iffD1]) simp_all
  have "rmap_ok R' (P(q := p')) base (X(q := i # X q))"
    unfolding rmap_ok_def
  proof (intro conjI allI impI)
    fix r
    show "rm_chain (RMapStart R') (pi_extra ((P(q := p')) r)) ((X(q := i # X q)) r)"
      using rmap_okD(1) [OF ok] 2(2,4) by (simp add: R'_def p'_def e_def)
    show "distinct ((X(q := i # X q)) r)" using rmap_okD(2) [OF ok] 2(4) by simp
    show "unat (pi_ref ((P(q := p')) r)) = base r + length ((X(q := i # X q)) r)"
      using rmap_okD(3) [OF ok] unref by (simp add: p'_def)
    show "\<forall>j\<in>set ((X(q := i # X q)) r). int j < rm_length R' \<and> BitMap_get (rm_bitmap R') j"
      using rmap_okD(4) [OF ok] 2(3,6) by (auto simp: R'_def)
    fix t assume "r \<noteq> t"
    then show "set ((X(q := i # X q)) r) \<inter> set ((X(q := i # X q)) t) = {}"
      using rmap_okD(5) [OF ok] 2(4) by (auto simp: disjoint_iff)
  qed (use ok 2(5,6) in \<open>simp_all add: rmap_ok_def R'_def\<close>)
  moreover have "mappings R' (i # X q) = (pa, va, ow) # mappings R (X q)"
    using 2(4) by (auto simp: mappings_def R'_def e_def entry_of_def)
  moreover have "mappings R' (X r) = mappings R (X r)" for r
    using 2(4) by (intro mappings_cong) (auto simp: R'_def)
  ultimately show thesis using that(2) [OF att] by (simp add: p'_def)
qed

section \<open>Detaching\<close>

definition matches :: "u32 \<Rightarrow> u16 \<Rightarrow> mapping_entry \<Rightarrow> bool" where
  "matches pa ow e \<longleftrightarrow> fst e = pa \<and> snd (snd e) = ow"

fun remove_first :: "('a \<Rightarrow> bool) \<Rightarrow> 'a list \<Rightarrow> 'a list" where
  "remove_first P [] = []"
| "remove_first P (x # xs) = (if P x then xs else x # remove_first P xs)"

lemma remove_first_split: "\<forall>y\<in>set ys. \<not> P y \<Longrightarrow> P x \<Longrightarrow> remove_first P (ys @ x # zs) = ys @ zs"
  by (induction ys) auto

lemma detach_loop_absent:
  "rm_chain (RMapStart R) idx is \<Longrightarrow> \<forall>i\<in>set is. \<not> matches pa ow (entry_of (RMapStart R i)) \<Longrightarrow>
     detach_loop R p pa ow prv idx = Some (False, R, p)"
proof (induction "is" arbitrary: idx prv)
  case Nil
  then show ?case by (subst detach_loop.simps) simp
next
  case (Cons i "is")
  then show ?case by (subst detach_loop.simps) (auto simp: matches_def entry_of_def)
qed

lemma detach_loop_found:
  "rm_chain (RMapStart R) idx (ys @ i # zs) \<Longrightarrow> \<forall>i\<in>set ys. \<not> matches pa ow (entry_of (RMapStart R i)) \<Longrightarrow>
   matches pa ow (entry_of (RMapStart R i)) \<Longrightarrow> pv = last (prv # ys) \<Longrightarrow>
     detach_loop R p pa ow prv idx =
       do { R2 \<leftarrow> RMap_release i (R\<lparr>RMapStart := (RMapStart R)(pv := (RMapStart R pv)\<lparr>rm_next := rm_next (RMapStart R i)\<rparr>)\<rparr>);
            p' \<leftarrow> PageInfo_decRef p; Some (True, R2, p') }"
proof (induction ys arbitrary: idx prv)
  case Nil
  then show ?case by (subst detach_loop.simps) (simp add: matches_def entry_of_def)
next
  case (Cons y ys)
  then have ch: "rm_chain (RMapStart R) (rm_next (RMapStart R y)) (ys @ i # zs)" "idx = y" "y \<noteq> 0" by simp_all
  have "detach_loop R p pa ow prv idx = detach_loop R p pa ow y (rm_next (RMapStart R y))"
    using Cons.prems(2) ch(2,3) by (subst detach_loop.simps) (auto simp: matches_def entry_of_def)
  also have "\<dots> = do { R2 \<leftarrow> RMap_release i (R\<lparr>RMapStart := (RMapStart R)(pv := (RMapStart R pv)\<lparr>rm_next := rm_next (RMapStart R i)\<rparr>)\<rparr>);
            p' \<leftarrow> PageInfo_decRef p; Some (True, R2, p') }"
    using Cons.prems by (intro Cons.IH [OF ch(1)]) auto
  finally show ?case .
qed

lemma rm_chain_skip:
  "rm_chain m i0 (ys @ pv # i # zs) \<Longrightarrow> distinct (ys @ pv # i # zs) \<Longrightarrow>
     rm_chain (m(pv := (m pv)\<lparr>rm_next := rm_next (m i)\<rparr>)) i0 (ys @ pv # zs)"
  by (induction ys arbitrary: i0) auto

lemma rm_chain_tail: "rm_chain m i0 (i # zs) \<Longrightarrow> rm_chain m (rm_next (m i)) zs"
  by simp

lemma rmap_ok_unlink:
  assumes ok: "rmap_ok R P base X" and X: "X q = ys @ i # zs" and base: "unat r' = base q + length (ys @ zs)"
    and m: "rm_chain m e (ys @ zs)" "\<forall>r. r \<noteq> q \<longrightarrow> (\<forall>j\<in>set (X r). m j = RMapStart R j)"
      "\<forall>j\<in>set (ys @ zs). entry_of (m j) = entry_of (RMapStart R j)"
  defines "R' \<equiv> R\<lparr>rm_bitmap := BitMap_release i 1 (rm_bitmap R), RMapStart := m(i := RMap_zero)\<rparr>"
  shows "rmap_ok R' (P(q := (P q)\<lparr>pi_extra := e, pi_ref := r'\<rparr>)) base (X(q := ys @ zs))"
    and "mappings R' (ys @ zs) = mappings R (ys @ zs)" and "\<And>r. r \<noteq> q \<Longrightarrow> mappings R' (X r) = mappings R (X r)"
proof -
  have i: "i \<notin> set (ys @ zs)" using rmap_okD(2) [OF ok, of q] X by simp
  have i0: "i \<noteq> 0" using rm_chain_nonzero [OF rmap_okD(1) [OF ok, of q]] X by (cases "i = 0") simp_all
  have other: "i \<notin> set (X r)" if "r \<noteq> q" for r using rmap_okD(5) [OF ok, of q r i] that X by simp
  show "rmap_ok R' (P(q := (P q)\<lparr>pi_extra := e, pi_ref := r'\<rparr>)) base (X(q := ys @ zs))"
    unfolding rmap_ok_def
  proof (intro conjI allI impI)
    fix r
    have "rm_chain (m(i := RMap_zero)) (pi_extra (P r)) (X r)" if "r \<noteq> q"
    proof -
      have "rm_chain (m(i := RMap_zero)) (pi_extra (P r)) (X r) = rm_chain (RMapStart R) (pi_extra (P r)) (X r)"
        using m(2) other that by (intro rm_chain_cong) auto
      then show ?thesis using rmap_okD(1) [OF ok] by simp
    qed
    then show "rm_chain (RMapStart R') (pi_extra ((P(q := (P q)\<lparr>pi_extra := e, pi_ref := r'\<rparr>)) r)) ((X(q := ys @ zs)) r)"
      using m(1) i by (simp add: R'_def)
    show "distinct ((X(q := ys @ zs)) r)" using rmap_okD(2) [OF ok, of r] rmap_okD(2) [OF ok, of q] X by simp
    show "unat (pi_ref ((P(q := (P q)\<lparr>pi_extra := e, pi_ref := r'\<rparr>)) r)) = base r + length ((X(q := ys @ zs)) r)"
      using rmap_okD(3) [OF ok] base by simp
    show "\<forall>j\<in>set ((X(q := ys @ zs)) r). int j < rm_length R' \<and> BitMap_get (rm_bitmap R') j"
      using rmap_okD(4) [OF ok, of _ r] rmap_okD(4) [OF ok, of _ q] X i other [of r]
      by (auto simp: R'_def BitMap_get_release1)
    fix t assume "r \<noteq> t"
    then show "set ((X(q := ys @ zs)) r) \<inter> set ((X(q := ys @ zs)) t) = {}"
      using rmap_okD(5) [OF ok, of r t] rmap_okD(5) [OF ok, of q t] rmap_okD(5) [OF ok, of q r] X
      by (auto simp: disjoint_iff)
  next
    show "BitMap_get (rm_bitmap R') 0" using ok i0 by (simp add: R'_def BitMap_get_release1 rmap_ok_def)
  qed (use ok in \<open>simp_all add: rmap_ok_def R'_def BitMap_length_release1\<close>)
  show "mappings R' (ys @ zs) = mappings R (ys @ zs)" using m(3) i by (intro mappings_cong) (auto simp: R'_def)
  show "mappings R' (X r) = mappings R (X r)" if "r \<noteq> q" for r
    using m(2) that other [OF that] by (intro mappings_cong) (auto simp: R'_def)
qed

lemma RMap_detach_ok:
  assumes ok: "rmap_ok R P base X" and ne: "X q \<noteq> []"
  obtains (absent) "RMap_detach R (P q) pa ow = Some (False, R, P q)"
      "\<forall>e\<in>set (mappings R (X q)). \<not> matches pa ow e"
  | (unlinked) R' p' X' where "RMap_detach R (P q) pa ow = Some (True, R', p')" "pi_flags p' = pi_flags (P q)"
      "rmap_ok R' (P(q := p')) base (X(q := X'))" "length (X q) = Suc (length X')"
      "\<exists>e\<in>set (mappings R (X q)). matches pa ow e"
      "mappings R' X' = remove_first (matches pa ow) (mappings R (X q))"
      "\<And>r. r \<noteq> q \<Longrightarrow> mappings R' (X r) = mappings R (X r)"
proof -
  obtain h t where ht: "X q = h # t" using ne by (cases "X q") auto
  have chain: "rm_chain (RMapStart R) (pi_extra (P q)) (X q)" by (rule rmap_okD(1) [OF ok])
  have ref: "unat (pi_ref (P q)) = base q + Suc (length t)" using rmap_okD(3) [OF ok, of q] ht by simp
  then have pos: "0 < pi_ref (P q)" by (simp add: word_less_nat_alt)
  have dec: "unat (pi_ref (P q) - 1) = base q + length t" using ref by (subst unat_sub) (simp_all add: word_le_nat_alt)
  let ?mt = "\<lambda>i. matches pa ow (entry_of (RMapStart R i))"
  have h: "pi_extra (P q) = h" "h \<noteq> 0" and tl: "rm_chain (RMapStart R) (rm_next (RMapStart R h)) t"
    using chain ht by auto
  show thesis
  proof (cases "\<exists>i\<in>set (X q). ?mt i")
    case False
    then have "RMap_detach R (P q) pa ow = Some (False, R, P q)"
      using pos h ht detach_loop_absent [OF tl] by (auto simp: RMap_detach_def matches_def entry_of_def)
    then show thesis using absent False by (auto simp: mappings_def)
  next
    case True
    then obtain ys i zs where sp: "X q = ys @ i # zs" "?mt i" "\<forall>y\<in>set ys. \<not> ?mt y"
      using split_list_first_prop [of "X q" ?mt] by blast
    then have mem: "int i < rm_length R" using rmap_okD(4) [OF ok, of i q] by simp
    have len: "unat (pi_ref (P q) - 1) = base q + length (ys @ zs)"
      using dec ht sp(1) by (metis add_Suc_right length_Cons length_append nat.inject)
    have hit: "\<exists>e\<in>set (mappings R (X q)). matches pa ow e" using sp by (auto simp: mappings_def)
    have rem: "remove_first (matches pa ow) (mappings R (X q)) = mappings R (ys @ zs)"
      using remove_first_split [of "map (\<lambda>i. entry_of (RMapStart R i)) ys" "matches pa ow"
          "entry_of (RMapStart R i)" "map (\<lambda>i. entry_of (RMapStart R i)) zs"] sp by (simp add: mappings_def)
    have finish: thesis if det: "RMap_detach R (P q) pa ow =
        Some (True, R\<lparr>rm_bitmap := BitMap_release i 1 (rm_bitmap R), RMapStart := m(i := RMap_zero)\<rparr>,
          (P q)\<lparr>pi_extra := e, pi_ref := pi_ref (P q) - 1\<rparr>)"
      and m: "rm_chain m e (ys @ zs)" "\<forall>r. r \<noteq> q \<longrightarrow> (\<forall>j\<in>set (X r). m j = RMapStart R j)"
      "\<forall>j\<in>set (ys @ zs). entry_of (m j) = entry_of (RMapStart R j)" for m e
    proof -
      note u = rmap_ok_unlink [OF ok sp(1) len m]
      show thesis
        by (rule unlinked [OF det _ u(1) _ hit _ u(3)]) (simp_all only: rem u(2), simp_all add: sp(1))
    qed
    show thesis
    proof (cases ys rule: rev_cases)
      case Nil
      then have "i = h" "zs = t" using sp(1) ht by auto
      have "RMap_detach R (P q) pa ow =
        Some (True, R\<lparr>rm_bitmap := BitMap_release i 1 (rm_bitmap R), RMapStart := (RMapStart R)(i := RMap_zero)\<rparr>,
          (P q)\<lparr>pi_extra := rm_next (RMapStart R h), pi_ref := pi_ref (P q) - 1\<rparr>)"
        using sp(2) pos h mem \<open>i = h\<close>
        by (simp add: RMap_detach_def RMap_release_def PageInfo_decRef_def matches_def entry_of_def)
      then show thesis by (rule finish) (use tl Nil \<open>zs = t\<close> in simp_all)
    next
      case (snoc ys' pv)
      then obtain us where us: "ys = h # us"
        using sp(1) ht by (metis append_is_Nil_conv hd_append2 list.collapse list.sel(1) not_Cons_self2)
      then have "t = us @ i # zs" using sp(1) ht by simp
      have pv: "pv = last (h # us)" using snoc us by (metis last_snoc)
      have d: "distinct (ys' @ pv # i # zs)" using rmap_okD(2) [OF ok, of q] sp(1) snoc by simp
      let ?m = "(RMapStart R)(pv := (RMapStart R pv)\<lparr>rm_next := rm_next (RMapStart R i)\<rparr>)"
      have "detach_loop R (P q) pa ow h (rm_next (RMapStart R h)) =
        Some (True, R\<lparr>rm_bitmap := BitMap_release i 1 (rm_bitmap R), RMapStart := ?m(i := RMap_zero)\<rparr>,
          (P q)\<lparr>pi_ref := pi_ref (P q) - 1\<rparr>)"
        using detach_loop_found [OF tl [unfolded \<open>t = us @ i # zs\<close>], of pa ow pv h "P q"] sp us pv pos mem
        by (simp add: RMap_release_def PageInfo_decRef_def)
      then have "RMap_detach R (P q) pa ow =
        Some (True, R\<lparr>rm_bitmap := BitMap_release i 1 (rm_bitmap R), RMapStart := ?m(i := RMap_zero)\<rparr>,
          (P q)\<lparr>pi_extra := h, pi_ref := pi_ref (P q) - 1\<rparr>)"
        using sp(3) us pos h by (auto simp: RMap_detach_def matches_def entry_of_def)
      then show thesis
      proof (rule finish)
        show "rm_chain ?m h (ys @ zs)"
          using rm_chain_skip [of "RMapStart R" h ys' pv i zs] chain sp(1) snoc d h(1) by simp
        have "?m j = RMapStart R j" if "r \<noteq> q" "j \<in> set (X r)" for j r
          using rmap_okD(5) [OF ok that] sp(1) snoc by (cases "j = pv") auto
        then show "\<forall>r. r \<noteq> q \<longrightarrow> (\<forall>j\<in>set (X r). ?m j = RMapStart R j)" by blast
        show "\<forall>j\<in>set (ys @ zs). entry_of (?m j) = entry_of (RMapStart R j)" by (simp add: entry_of_def)
      qed
    qed
  qed
qed

section \<open>Properties\<close>

lemma RMap_initialize_ok:
  assumes "0 < len" and "\<And>q. pi_extra (P q) = 0" and "\<And>q. unat (pi_ref (P q)) = base q"
  shows "rmap_ok (RMap_initialize len start bm) P base (\<lambda>_. [])"
  using assms by (simp add: rmap_ok_def RMap_initialize_def Let_def BitMap_initialize_def)

text \<open>
  \<^bold>\<open>C6\<close>: \<^verbatim>\<open>RMapManager::attach\<close> and \<^verbatim>\<open>detach\<close> return on every well-formed reverse map
  (below the limit of the reference count; for a page with a mapping).  Attaching either fails
  without a change, when every slot is taken, or puts one mapping in front of the page's list;
  detaching either reports that the page has no such mapping, without a change, or removes the
  first one.  The reference count follows, and the lists of the other pages are untouched.
\<close>

theorem RMap_attach_detach_refine:
  assumes ok: "rmap_ok R P base X"
  shows "(unat (pi_ref (P q)) < 0xFFFF \<longrightarrow>
      RMap_attach R (P q) pa va ow = Some (- 1, R, P q) \<and> (\<forall>j. int j < rm_length R \<longrightarrow> BitMap_get (rm_bitmap R) j) \<or>
      (\<exists>i R' p'. RMap_attach R (P q) pa va ow = Some (int i, R', p') \<and>
        rmap_ok R' (P(q := p')) base (X(q := i # X q)) \<and> mappings R' (i # X q) = (pa, va, ow) # mappings R (X q) \<and>
        (\<forall>r. r \<noteq> q \<longrightarrow> mappings R' (X r) = mappings R (X r)))) \<and>
    (X q \<noteq> [] \<longrightarrow>
      RMap_detach R (P q) pa ow = Some (False, R, P q) \<and> (\<forall>e\<in>set (mappings R (X q)). \<not> matches pa ow e) \<or>
      (\<exists>R' p' is. RMap_detach R (P q) pa ow = Some (True, R', p') \<and> (\<exists>e\<in>set (mappings R (X q)). matches pa ow e) \<and>
        rmap_ok R' (P(q := p')) base (X(q := is)) \<and>
        mappings R' is = remove_first (matches pa ow) (mappings R (X q)) \<and>
        (\<forall>r. r \<noteq> q \<longrightarrow> mappings R' (X r) = mappings R (X r))))"
proof (rule conjI [OF impI impI])
  assume "unat (pi_ref (P q)) < 0xFFFF"
  then show "RMap_attach R (P q) pa va ow = Some (- 1, R, P q) \<and> (\<forall>j. int j < rm_length R \<longrightarrow> BitMap_get (rm_bitmap R) j) \<or>
      (\<exists>i R' p'. RMap_attach R (P q) pa va ow = Some (int i, R', p') \<and>
        rmap_ok R' (P(q := p')) base (X(q := i # X q)) \<and> mappings R' (i # X q) = (pa, va, ow) # mappings R (X q) \<and>
        (\<forall>r. r \<noteq> q \<longrightarrow> mappings R' (X r) = mappings R (X r)))"
    by (cases rule: RMap_attach_ok [OF ok, of q pa va ow]) blast+
next
  assume "X q \<noteq> []"
  then show "RMap_detach R (P q) pa ow = Some (False, R, P q) \<and> (\<forall>e\<in>set (mappings R (X q)). \<not> matches pa ow e) \<or>
      (\<exists>R' p' is. RMap_detach R (P q) pa ow = Some (True, R', p') \<and> (\<exists>e\<in>set (mappings R (X q)). matches pa ow e) \<and>
        rmap_ok R' (P(q := p')) base (X(q := is)) \<and>
        mappings R' is = remove_first (matches pa ow) (mappings R (X q)) \<and>
        (\<forall>r. r \<noteq> q \<longrightarrow> mappings R' (X r) = mappings R (X r)))"
    by (cases rule: RMap_detach_ok [OF ok, of q pa ow]) blast+
qed

definition no_pages :: "nat \<Rightarrow> PageInfo" where
  "no_pages _ = \<lparr>pi_ref = 0, pi_flags = 0, pi_extra = 0\<rparr>"

definition rmap_example :: RMapManager where
  "rmap_example = RMap_initialize 4 (\<lambda>_. RMap_zero) (\<lambda>_. 0)"

lemma rmap_example_ok: "rmap_ok rmap_example no_pages (\<lambda>_. 0) (\<lambda>_. [])"
  unfolding rmap_example_def by (rule RMap_initialize_ok) (simp_all add: no_pages_def)

lemma rmap_example_free: "\<not> BitMap_get (rm_bitmap rmap_example) 1 \<and> rm_length rmap_example = 4"
  by (simp add: rmap_example_def RMap_initialize_def BitMap_initialize_def Let_def c_ceil_def)
    (simp add: BitMap_get_def byte_test_def fold_fun_upd_const signed_divide_int_def)

theorem RMap_attach_detach_refine_witness:
  "\<exists>i R' p'. RMap_attach rmap_example (no_pages 7) 0x5000 0xffc00000 2 = Some (int i, R', p') \<and>
     rmap_ok R' (no_pages(7 := p')) (\<lambda>_. 0) ((\<lambda>_. [])(7 := [i])) \<and> mappings R' [i] = [(0x5000, 0xffc00000, 2)]"
  using RMap_attach_detach_refine [OF rmap_example_ok, of 7 "0x5000" "0xffc00000" 2, THEN conjunct1] rmap_example_free
  by (force simp: no_pages_def mappings_def)

text \<open>
  Detaching the mapping just attached restores the list of every page and the reference
  count, so a page whose only mapping goes away is left without references.
\<close>

theorem RMap_attach_detach_roundtrip:
  assumes ok: "rmap_ok R P base X" and "unat (pi_ref (P q)) < 0xFFFF"
    and att: "RMap_attach R (P q) pa va ow = Some (idx, R', p')" and "idx \<noteq> - 1"
  shows "\<exists>R'' p'' is. RMap_detach R' p' pa ow = Some (True, R'', p'') \<and> pi_ref p'' = pi_ref (P q) \<and>
    rmap_ok R'' (P(q := p'')) base (X(q := is)) \<and> mappings R'' is = mappings R (X q) \<and>
    (\<forall>r. r \<noteq> q \<longrightarrow> mappings R'' (X r) = mappings R (X r))"
proof -
  obtain i where i: "idx = int i" "rmap_ok R' (P(q := p')) base (X(q := i # X q))"
      "mappings R' (i # X q) = (pa, va, ow) # mappings R (X q)" "\<And>r. r \<noteq> q \<Longrightarrow> mappings R' (X r) = mappings R (X r)"
    using RMap_attach_ok [OF ok assms(2), of pa va ow] att assms(4) by auto
  have ne: "(X(q := i # X q)) q \<noteq> []" by simp
  show ?thesis
  proof (cases rule: RMap_detach_ok [OF i(2) ne, of pa ow])
    case 1
    then show ?thesis using i(3) by (simp add: matches_def)
  next
    case (2 R2 p2 X2)
    have ok2: "rmap_ok R2 (P(q := p2)) base (X(q := X2))" using 2(3) by (simp only: fun_upd_upd)
    have m: "mappings R2 X2 = mappings R (X q)" using 2(6) i(3) by (simp add: matches_def)
    have len: "length X2 = length (X q)" using 2(4) by simp
    have "unat (pi_ref p2) = unat (pi_ref (P q))"
      using rmap_okD(3) [OF ok2, of q] rmap_okD(3) [OF ok, of q] len by simp
    then have "pi_ref p2 = pi_ref (P q)" by (rule unsigned_word_eqI)
    moreover have "\<forall>r. r \<noteq> q \<longrightarrow> mappings R2 (X r) = mappings R (X r)" using 2(7) i(4) by simp
    moreover have "RMap_detach R' p' pa ow = Some (True, R2, p2)" using 2(1) by simp
    ultimately show ?thesis using ok2 m by blast
  qed
qed

theorem RMap_attach_detach_roundtrip_witness:
  "\<exists>i R' p'. RMap_attach rmap_example (no_pages 7) 0x5000 0xffc00000 2 = Some (int i, R', p') \<and>
     (\<exists>R'' p''. RMap_detach R' p' 0x5000 2 = Some (True, R'', p'') \<and> pi_ref p'' = 0)"
proof -
  obtain i R' p' where a: "RMap_attach rmap_example (no_pages 7) 0x5000 0xffc00000 2 = Some (int i, R', p')"
    using RMap_attach_ok [OF rmap_example_ok, of 7 "0x5000" "0xffc00000" 2] rmap_example_free
    by (force simp: no_pages_def)
  then show ?thesis
    using RMap_attach_detach_roundtrip [OF rmap_example_ok, of 7 "0x5000" "0xffc00000" 2 "int i" R' p']
    by (fastforce simp: no_pages_def)
qed

end
