(* ===== verification/Buddy.thy ===== *)
theory Buddy
  imports Os_Prelude
begin

text \<open>
  The buddy allocator of \<^verbatim>\<open>include/kernel/buddy.h\<close> and
  \<^verbatim>\<open>src/kernel/buddy.cpp\<close>, which hands out physical pages.  The record keeps the page bitmap,
  the static array of \<^verbatim>\<open>FreeNode\<close>s with its own bitmap, and the head pointers of the free
  lists; a \<^verbatim>\<open>FreeNode*\<close> is an index into the array, null is \<open>None\<close>.  The pointer model is
  shown to implement lists of block starts, one per order (\<open>rep\<close>), and these lists are read as
  the number of free blocks that cover each page (\<open>cover\<close>): an allocation takes one covering
  away from every page of the block it returns, a release adds one.  The exception is a release
  that merges two blocks of the largest order, which loses half of the pages.
\<close>

section \<open>State and operations\<close>

definition MAX_ORDER :: nat where
  "MAX_ORDER = 10"

definition GET_MAP :: "bytes \<Rightarrow> nat \<Rightarrow> bool" where
  "GET_MAP m idx = byte_test (m (idx div 8)) (idx mod 8)"

definition SET_MAP :: "nat \<Rightarrow> bool \<Rightarrow> bytes \<Rightarrow> bytes" where
  "SET_MAP idx state m = m(idx div 8 := byte_put (m (idx div 8)) (idx mod 8) state)"

function log2_loop :: "int \<Rightarrow> int \<Rightarrow> int" where
  "log2_loop num res = (if num > 1 then log2_loop (num div 2) (res + 1) else res)"
  by pat_completeness auto
termination
  by (relation "measure (\<lambda>(num, res). nat num)") auto

definition c_log2 :: "int \<Rightarrow> int" where
  "c_log2 num = (if num \<le> 0 then - 1 else log2_loop num 0)"

definition count2order :: "int \<Rightarrow> int" where
  "count2order count = c_log2 (count - 1) + 1"

record FreeNode =
  startIndex :: nat
  order_of :: nat
  fn_next :: "nat option"
  fn_prev :: "nat option"

record Buddy =
  freeBitmap :: bytes
  freeNodes :: "nat \<Rightarrow> FreeNode"
  freeArea :: "nat \<Rightarrow> nat option"
  page_map :: bytes
  totalPages :: int

definition FreeNode_release :: "nat \<Rightarrow> (nat \<Rightarrow> FreeNode) \<Rightarrow> (nat \<Rightarrow> FreeNode)" where
  "FreeNode_release node ns =
     (let ns1 = (case fn_prev (ns node) of
            None \<Rightarrow> ns | Some p \<Rightarrow> ns(p := (ns p)\<lparr>fn_next := fn_next (ns node)\<rparr>))
      in case fn_next (ns1 node) of
           None \<Rightarrow> ns1 | Some n \<Rightarrow> ns1(n := (ns1 n)\<lparr>fn_prev := fn_prev (ns1 node)\<rparr>))"

definition find_avail_freeNode :: "Buddy \<Rightarrow> nat option" where
  "find_avail_freeNode b = find (\<lambda>i. \<not> GET_MAP (freeBitmap b) i) [0..<nat (totalPages b)]"

definition malloc_freeNode :: "Buddy \<Rightarrow> (nat \<times> Buddy) option" where
  "malloc_freeNode b =
     map_option (\<lambda>idx. (idx, b\<lparr>freeBitmap := SET_MAP idx True (freeBitmap b)\<rparr>)) (find_avail_freeNode b)"

definition free_freeNode :: "nat \<Rightarrow> Buddy \<Rightarrow> Buddy" where
  "free_freeNode node b =
     b\<lparr>freeBitmap := SET_MAP node False (freeBitmap b), freeNodes := FreeNode_release node (freeNodes b)\<rparr>"

definition insert_freeNode :: "nat \<Rightarrow> nat \<Rightarrow> Buddy \<Rightarrow> int \<times> Buddy" where
  "insert_freeNode start order b =
     (case malloc_freeNode b of
        None \<Rightarrow> (- 1, b)
      | Some (node, b1) \<Rightarrow>
          let ns = (freeNodes b1)(node :=
                \<lparr>startIndex = start, order_of = order, fn_next = None, fn_prev = None\<rparr>)
          in case freeArea b1 order of
               Some h \<Rightarrow>
                 let ns1 = ns(node := (ns node)\<lparr>fn_next := Some h\<rparr>);
                     ns2 = ns1(h := (ns1 h)\<lparr>fn_prev := Some node\<rparr>)
                 in (0, b1\<lparr>freeNodes := ns2, freeArea := (freeArea b1)(order := Some node)\<rparr>)
             | None \<Rightarrow>
                 (0, b1\<lparr>freeNodes := ns, freeArea := (freeArea b1)(order := Some node)\<rparr>))"

definition remove_freeNode :: "nat \<Rightarrow> Buddy \<Rightarrow> Buddy" where
  "remove_freeNode node b =
     (let o' = order_of (freeNodes b node);
          b1 = (if Some node = freeArea b o'
                then b\<lparr>freeArea := (freeArea b)(o' := fn_next (freeNodes b node))\<rparr> else b)
      in free_freeNode node b1)"

function allocateBlock :: "nat \<Rightarrow> Buddy \<Rightarrow> int \<times> Buddy" where
  "allocateBlock order b =
     (if MAX_ORDER < order then (- 1, b)
      else case freeArea b order of
        Some node \<Rightarrow> (int (startIndex (freeNodes b node)), remove_freeNode node b)
      | None \<Rightarrow>
          let (idx, b1) = allocateBlock (order + 1) b in
          if idx = - 1 then (- 1, b1)
          else let idx_back = nat idx + push_bit order 1
               in (idx, snd (insert_freeNode idx_back order b1)))"
  by pat_completeness auto
termination
  by (relation "measure (\<lambda>(order, b). Suc MAX_ORDER - order)") auto

partial_function (option) findNode_loop ::
    "(nat \<Rightarrow> FreeNode) \<Rightarrow> nat option \<Rightarrow> nat \<Rightarrow> nat option option" where
  "findNode_loop ns cnt index =
     (case cnt of
        None \<Rightarrow> Some None
      | Some c \<Rightarrow> if startIndex (ns c) = index then Some cnt else findNode_loop ns (fn_next (ns c)) index)"

definition findNode :: "Buddy \<Rightarrow> nat \<Rightarrow> nat \<Rightarrow> nat option option" where
  "findNode b index order = findNode_loop (freeNodes b) (freeArea b order) index"

function release_loop :: "Buddy \<Rightarrow> nat \<Rightarrow> nat \<Rightarrow> (Buddy \<times> nat \<times> nat) option" where
  "release_loop b start order =
     (if order < MAX_ORDER + 1 then
        let buddyIndex = start XOR push_bit order 1 in
        if \<not> GET_MAP (page_map b) buddyIndex then
          (case findNode b buddyIndex order of
             None \<Rightarrow> None
           | Some None \<Rightarrow> Some (b, start, order)
           | Some (Some node) \<Rightarrow>
               release_loop (remove_freeNode node b) (min start buddyIndex) (order + 1))
        else Some (b, start, order)
      else Some (b, start, order))"
  by pat_completeness auto
termination
  by (relation "measure (\<lambda>(b, start, order). Suc MAX_ORDER - order)") auto

definition releaseBlock :: "nat \<Rightarrow> nat \<Rightarrow> Buddy \<Rightarrow> Buddy option" where
  "releaseBlock start order b =
     map_option (\<lambda>(b', start', order'). snd (insert_freeNode start' (min order' MAX_ORDER) b'))
       (release_loop b start order)"

definition Buddy_allocate :: "int \<Rightarrow> Buddy \<Rightarrow> int \<times> Buddy" where
  "Buddy_allocate count b =
     (let order = nat (count2order count);
          (start, b1) = allocateBlock order b
      in if start \<noteq> - 1
         then (start, b1\<lparr>page_map := fold (\<lambda>i. SET_MAP (nat start + i) True) [0..<push_bit order 1] (page_map b1)\<rparr>)
         else (start, b1))"

definition Buddy_release :: "nat \<Rightarrow> int \<Rightarrow> Buddy \<Rightarrow> Buddy option" where
  "Buddy_release index count b =
     (let order = nat (count2order count)
      in map_option (\<lambda>b1. b1\<lparr>page_map :=
             fold (\<lambda>i. SET_MAP (index + i) False) [0..<push_bit order 1] (page_map b1)\<rparr>)
           (releaseBlock index order b))"

definition Buddy_isAlloc :: "Buddy \<Rightarrow> u32 \<Rightarrow> bool" where
  "Buddy_isAlloc b idx =
     ((page_map b (unat (drop_bit 3 idx)) AND push_bit (unat (idx AND 7)) 1) AND 1 \<noteq> 0)"

subsection \<open>Initialisation\<close>

function align_order :: "nat \<Rightarrow> nat \<Rightarrow> nat" where
  "align_order start max_order =
     (if start AND push_bit max_order 1 = 0 \<and> max_order < MAX_ORDER
      then align_order start (max_order + 1) else max_order)"
  by pat_completeness auto
termination
  by (relation "measure (\<lambda>(s, m). MAX_ORDER - m)") auto

function scan_free :: "Buddy \<Rightarrow> nat \<Rightarrow> nat \<Rightarrow> nat \<Rightarrow> nat" where
  "scan_free b start max_order idx =
     (if \<not> GET_MAP (page_map b) idx \<and> int idx - int start + 1 \<le> int (push_bit max_order 1) \<and>
         int idx < totalPages b
      then scan_free b start max_order (idx + 1) else idx)"
  by pat_completeness auto
termination
  by (relation "measure (\<lambda>(b, s, m, idx). nat (totalPages b - int idx))") auto

declare log2_loop.simps [simp del] allocateBlock.simps [simp del] release_loop.simps [simp del]
  align_order.simps [simp del] scan_free.simps [simp del]

partial_function (option) init_loop :: "nat \<Rightarrow> Buddy \<Rightarrow> Buddy option" where
  "init_loop idx b =
     (if int idx < totalPages b then
        if GET_MAP (page_map b) idx then init_loop (idx + 1) b
        else
          let max_order = align_order idx 0;
              stop = scan_free b idx max_order idx;
              len = int stop - 1 - int idx + 1;
              order = nat (c_log2 len)
          in Option.bind (releaseBlock idx order b) (\<lambda>b1. init_loop (idx + push_bit order 1) b1)
      else Some b)"

definition Buddy_initialize ::
    "bytes \<Rightarrow> int \<Rightarrow> bytes \<Rightarrow> (nat \<Rightarrow> FreeNode) \<Rightarrow> (nat \<Rightarrow> nat option) \<Rightarrow> Buddy option" where
  "Buddy_initialize bitmap pages freeBm nodes area =
     init_loop 0 \<lparr>freeBitmap = freeBm, freeNodes = nodes, freeArea = area, page_map = bitmap, totalPages = pages\<rparr>"

section \<open>Bits and orders\<close>

lemma GET_SET_MAP [simp]: "GET_MAP (SET_MAP i v m) j = (if j = i then v else GET_MAP m j)"
  by (auto simp: GET_MAP_def SET_MAP_def dest: div_mod_8_inj)

lemma GET_fold_SET_MAP:
  "GET_MAP (fold (\<lambda>i. SET_MAP (a + i) v) [0..<n] m) j = (if a \<le> j \<and> j < a + n then v else GET_MAP m j)"
  by (induction n) auto

lemma log2_loop_bounds:
  "0 < num \<Longrightarrow> \<exists>k. log2_loop num res = res + int k \<and> 2 ^ k \<le> num \<and> num < 2 ^ (k + 1)"
proof (induction num res rule: log2_loop.induct)
  case (1 num res)
  show ?case
  proof (cases "num > 1")
    case True
    then obtain k where k: "log2_loop (num div 2) (res + 1) = res + 1 + int k"
        "2 ^ k \<le> num div 2" "num div 2 < 2 ^ (k + 1)"
      using 1 by force
    then have "log2_loop num res = res + int (Suc k)" using True by (subst log2_loop.simps) simp
    moreover have "2 ^ Suc k \<le> num" "num < 2 ^ (Suc k + 1)" using k by simp_all
    ultimately show ?thesis by blast
  next
    case False
    then show ?thesis using 1 by (intro exI [of _ 0]) (auto simp: log2_loop.simps [of num res])
  qed
qed

text \<open>The order computed for a page count is the least one whose block holds that many pages.\<close>

lemma count2order_least:
  assumes "0 < count"
  shows "count \<le> 2 ^ nat (count2order count)" "0 \<le> count2order count"
    "k < nat (count2order count) \<Longrightarrow> 2 ^ k < count"
proof -
  obtain m where m: "count2order count = int m" "count \<le> 2 ^ m" "m \<noteq> 0 \<longrightarrow> 2 ^ (m - 1) < count"
  proof (cases "count = 1")
    case True
    then show thesis using that [of 0] by (simp add: count2order_def c_log2_def)
  next
    case False
    then obtain j where "log2_loop (count - 1) 0 = int j" "2 ^ j \<le> count - 1" "count - 1 < 2 ^ (j + 1)"
      using log2_loop_bounds [of "count - 1" 0] assms by auto
    then show thesis using that [of "Suc j"] False assms by (simp add: count2order_def c_log2_def)
  qed
  then show "count \<le> 2 ^ nat (count2order count)" "0 \<le> count2order count" by simp_all
  assume "k < nat (count2order count)"
  then have "k \<le> m - 1" "m \<noteq> 0" using m(1) by auto
  then have "(2::int) ^ k \<le> 2 ^ (m - 1)" by (intro power_increasing) auto
  also have "\<dots> < count" using m(3) \<open>m \<noteq> 0\<close> by simp
  finally show "2 ^ k < count" .
qed

section \<open>Doubly linked chains of free nodes\<close>

fun chain :: "(nat \<Rightarrow> FreeNode) \<Rightarrow> nat option \<Rightarrow> nat list \<Rightarrow> nat option \<Rightarrow> bool" where
  "chain ns prv [] nxt = True"
| "chain ns prv (i # is) nxt =
     (fn_prev (ns i) = prv \<and> fn_next (ns i) = (case is of [] \<Rightarrow> nxt | j # _ \<Rightarrow> Some j) \<and>
      chain ns (Some i) is nxt)"

definition hd_or :: "nat list \<Rightarrow> nat option \<Rightarrow> nat option" where
  "hd_or xs n = (case xs of [] \<Rightarrow> n | j # _ \<Rightarrow> Some j)"

definition last_or :: "nat option \<Rightarrow> nat list \<Rightarrow> nat option" where
  "last_or p xs = (if xs = [] then p else Some (last xs))"

lemma hd_or_simps [simp]: "hd_or [] n = n" "hd_or (j # js) n = Some j"
  by (simp_all add: hd_or_def)

lemma last_or_simps [simp]: "last_or p [] = p" "last_or p (xs @ [x]) = Some x"
  by (simp_all add: last_or_def)

lemma chain_Cons [simp]:
  "chain ns prv (i # is) nxt \<longleftrightarrow> fn_prev (ns i) = prv \<and> fn_next (ns i) = hd_or is nxt \<and> chain ns (Some i) is nxt"
  by (simp add: hd_or_def)

declare chain.simps(2) [simp del]

lemma last_or_Cons [simp]: "last_or p (i # is) = last_or (Some i) is"
  by (simp add: last_or_def)

lemma hd_or_append [simp]: "hd_or (xs @ ys) n = hd_or xs (hd_or ys n)"
  by (cases xs) simp_all

lemma chain_append [simp]:
  "chain ns prv (xs @ ys) nxt \<longleftrightarrow> chain ns prv xs (hd_or ys nxt) \<and> chain ns (last_or prv xs) ys nxt"
  by (induction xs arbitrary: prv) auto

lemma chain_cong:
  "(\<And>i. i \<in> set is \<Longrightarrow> fn_prev (ns' i) = fn_prev (ns i) \<and> fn_next (ns' i) = fn_next (ns i)) \<Longrightarrow>
     chain ns' prv is nxt = chain ns prv is nxt"
  by (induction "is" arbitrary: prv) auto

lemma chain_fun_upd_other [simp]: "k \<notin> set is \<Longrightarrow> chain (ns(k := x)) prv is nxt = chain ns prv is nxt"
  by (rule chain_cong) auto

text \<open>Redirecting the outer links of a segment.\<close>

lemma chain_set_next:
  "chain ns prv (xs @ [x]) n \<Longrightarrow> x \<notin> set xs \<Longrightarrow>
     chain (ns(x := (ns x)\<lparr>fn_next := n'\<rparr>)) prv (xs @ [x]) n'"
  by simp

lemma chain_set_prev:
  "chain ns p (y # ys) n \<Longrightarrow> y \<notin> set ys \<Longrightarrow> chain (ns(y := (ns y)\<lparr>fn_prev := p'\<rparr>)) p' (y # ys) n"
  by simp

lemma FreeNode_release_fields [simp]:
  "startIndex (FreeNode_release i ns j) = startIndex (ns j)"
  "order_of (FreeNode_release i ns j) = order_of (ns j)"
  by (auto simp: FreeNode_release_def Let_def split: option.splits)

lemma FreeNode_release_chain:
  assumes c: "chain ns None (xs @ i # ys) None" and d: "distinct (xs @ i # ys)"
  shows "chain (FreeNode_release i ns) None (xs @ ys) None"
    and "j \<notin> set (xs @ ys) \<Longrightarrow> FreeNode_release i ns j = ns j"
proof -
  have links: "fn_prev (ns i) = last_or None xs" "fn_next (ns i) = hd_or ys None" using c by auto
  have "chain (FreeNode_release i ns) None (xs @ ys) None \<and>
        (j \<notin> set (xs @ ys) \<longrightarrow> FreeNode_release i ns j = ns j)"
  proof (cases xs rule: rev_cases)
    case Nil
    then show ?thesis using c d links by (cases ys) (auto simp: FreeNode_release_def)
  next
    case (snoc xs' x)
    then show ?thesis using c d links by (cases ys) (auto simp: FreeNode_release_def)
  qed
  then show "chain (FreeNode_release i ns) None (xs @ ys) None"
    and "j \<notin> set (xs @ ys) \<Longrightarrow> FreeNode_release i ns j = ns j" by auto
qed

section \<open>Free lists as lists of block starts\<close>

definition lists_ok :: "Buddy \<Rightarrow> (nat \<Rightarrow> nat list) \<Rightarrow> bool" where
  "lists_ok b L \<longleftrightarrow>
     (\<forall>k\<le>MAX_ORDER. chain (freeNodes b) None (L k) None \<and> freeArea b k = hd_or (L k) None \<and> distinct (L k) \<and>
        (\<forall>i\<in>set (L k). order_of (freeNodes b i) = k \<and> int i < totalPages b)) \<and>
     (\<forall>i. int i < totalPages b \<longrightarrow> (GET_MAP (freeBitmap b) i \<longleftrightarrow> (\<exists>k\<le>MAX_ORDER. i \<in> set (L k))))"

definition starts :: "Buddy \<Rightarrow> nat list \<Rightarrow> nat list" where
  "starts b is = map (\<lambda>i. startIndex (freeNodes b i)) is"

definition rep :: "Buddy \<Rightarrow> (nat \<Rightarrow> nat list) \<Rightarrow> bool" where
  "rep b A \<longleftrightarrow> (\<exists>L. lists_ok b L \<and> (\<forall>k\<le>MAX_ORDER. A k = starts b (L k)))"

lemma lists_ok_order:
  "lists_ok b L \<Longrightarrow> k \<le> MAX_ORDER \<Longrightarrow> i \<in> set (L k) \<Longrightarrow> order_of (freeNodes b i) = k"
  by (simp add: lists_ok_def)

lemma lists_ok_bound: "lists_ok b L \<Longrightarrow> k \<le> MAX_ORDER \<Longrightarrow> i \<in> set (L k) \<Longrightarrow> int i < totalPages b"
  by (simp add: lists_ok_def)

lemma lists_ok_area: "lists_ok b L \<Longrightarrow> k \<le> MAX_ORDER \<Longrightarrow> freeArea b k = hd_or (L k) None"
  by (simp add: lists_ok_def)

lemma lists_ok_chain:
  "lists_ok b L \<Longrightarrow> k \<le> MAX_ORDER \<Longrightarrow> chain (freeNodes b) None (L k) None \<and> distinct (L k)"
  by (simp add: lists_ok_def)

text \<open>Unlinking a node of the list of order \<open>k\<close>.\<close>

lemma remove_freeNode_ok:
  assumes ok: "lists_ok b L" and k: "k \<le> MAX_ORDER" and L: "L k = xs @ i # ys"
  shows "lists_ok (remove_freeNode i b) (L(k := xs @ ys))"
    and "starts (remove_freeNode i b) is = starts b is"
    and "page_map (remove_freeNode i b) = page_map b" "totalPages (remove_freeNode i b) = totalPages b"
proof -
  define b' where "b' = remove_freeNode i b"
  have ch: "chain (freeNodes b) None (xs @ i # ys) None" "distinct (xs @ i # ys)"
    using lists_ok_chain [OF ok k] L by auto
  have oi: "order_of (freeNodes b i) = k" "int i < totalPages b"
    using lists_ok_order [OF ok k] lists_ok_bound [OF ok k] L by auto
  have nodes: "freeNodes b' = FreeNode_release i (freeNodes b)"
    and fb: "freeBitmap b' = SET_MAP i False (freeBitmap b)"
    and pm: "page_map b' = page_map b" "totalPages b' = totalPages b"
    by (simp_all add: b'_def remove_freeNode_def free_freeNode_def Let_def)
  have area: "freeArea b' j = (if j = k then hd_or (xs @ ys) None else freeArea b j)" for j
    using ch oi(1) lists_ok_area [OF ok k] L
    by (cases xs) (auto simp: b'_def remove_freeNode_def free_freeNode_def Let_def)
  have other: "i \<notin> set (L j) \<and> set (L j) \<inter> set (xs @ ys) = {}" if "j \<le> MAX_ORDER" "j \<noteq> k" for j
  proof -
    have "order_of (freeNodes b n) = j" if "n \<in> set (L j)" for n
      using lists_ok_order [OF ok \<open>j \<le> MAX_ORDER\<close> that] .
    moreover have "order_of (freeNodes b n) = k" if "n \<in> set (xs @ i # ys)" for n
      using lists_ok_order [OF ok k, of n] that L by simp
    ultimately show ?thesis using \<open>j \<noteq> k\<close> by fastforce
  qed
  show "lists_ok b' (L(k := xs @ ys))"
    unfolding lists_ok_def
  proof (intro conjI allI impI)
    fix j assume j: "j \<le> MAX_ORDER"
    have "chain (freeNodes b') None (L j) None" if "j \<noteq> k"
    proof -
      have "freeNodes b' n = freeNodes b n" if "n \<in> set (L j)" for n
        unfolding nodes using other [OF j \<open>j \<noteq> k\<close>] that
        by (intro FreeNode_release_chain(2) [OF ch]) blast
      then have "chain (freeNodes b') None (L j) None = chain (freeNodes b) None (L j) None"
        by (intro chain_cong) auto
      then show ?thesis using lists_ok_chain [OF ok j] by simp
    qed
    then show "chain (freeNodes b') None ((L(k := xs @ ys)) j) None"
      using FreeNode_release_chain(1) [OF ch] by (simp add: nodes)
    show "freeArea b' j = hd_or ((L(k := xs @ ys)) j) None"
      using lists_ok_area [OF ok j] by (simp add: area)
    show "distinct ((L(k := xs @ ys)) j)" using lists_ok_chain [OF ok j] ch by simp
    show "\<forall>i\<in>set ((L(k := xs @ ys)) j). order_of (freeNodes b' i) = j \<and> int i < totalPages b'"
      using lists_ok_order [OF ok j] lists_ok_bound [OF ok j] L by (auto simp: nodes pm)
  next
    fix n assume n: "int n < totalPages b'"
    have "n \<in> set ((L(k := xs @ ys)) j) \<longleftrightarrow> n \<noteq> i \<and> n \<in> set (L j)" if "j \<le> MAX_ORDER" for j
      using other [OF that] L ch by auto
    moreover have "GET_MAP (freeBitmap b) n \<longleftrightarrow> (\<exists>j\<le>MAX_ORDER. n \<in> set (L j))"
      using ok n by (simp add: lists_ok_def pm)
    ultimately show "GET_MAP (freeBitmap b') n \<longleftrightarrow> (\<exists>j\<le>MAX_ORDER. n \<in> set ((L(k := xs @ ys)) j))"
      by (cases "n = i") (simp_all add: fb del: fun_upd_apply cong: conj_cong)
  qed
  show "starts b' is = starts b is" by (simp add: starts_def nodes)
  show "page_map b' = page_map b" "totalPages b' = totalPages b" by (fact pm)+
qed

lemma rep_remove_hd:
  assumes "rep b A" and "k \<le> MAX_ORDER" and "freeArea b k = Some i"
  shows "rep (remove_freeNode i b) (A(k := tl (A k)))" "A k = startIndex (freeNodes b i) # tl (A k)"
proof -
  obtain L where L: "lists_ok b L" "\<forall>k\<le>MAX_ORDER. A k = starts b (L k)"
    using assms(1) by (auto simp: rep_def)
  then obtain ys where ys: "L k = [] @ i # ys"
    using lists_ok_area [OF L(1) assms(2)] assms(3) by (cases "L k") auto
  then show "A k = startIndex (freeNodes b i) # tl (A k)" using L(2) assms(2) by (simp add: starts_def)
  have "lists_ok (remove_freeNode i b) (L(k := [] @ ys))"
    by (rule remove_freeNode_ok(1) [OF L(1) assms(2) ys])
  moreover have "\<forall>j\<le>MAX_ORDER. (A(k := tl (A k))) j = starts (remove_freeNode i b) ((L(k := [] @ ys)) j)"
    using L(2) ys by (auto simp: remove_freeNode_ok(2) [OF L(1) assms(2) ys]) (simp add: starts_def)
  ultimately show "rep (remove_freeNode i b) (A(k := tl (A k)))" unfolding rep_def by blast
qed

lemma rep_area: "rep b A \<Longrightarrow> k \<le> MAX_ORDER \<Longrightarrow> freeArea b k = None \<longleftrightarrow> A k = []"
  by (auto simp: rep_def lists_ok_area starts_def hd_or_def split: list.splits)

lemma remove_freeNode_frame:
  "page_map (remove_freeNode i b) = page_map b" "totalPages (remove_freeNode i b) = totalPages b"
  by (simp_all add: remove_freeNode_def free_freeNode_def Let_def)

lemma findNode_loop_chain:
  assumes "chain ns prv is None"
  shows "findNode_loop ns (hd_or is None) s = Some (find (\<lambda>i. startIndex (ns i) = s) is)"
  using assms
proof (induction "is" arbitrary: prv)
  case Nil
  then show ?case by (subst findNode_loop.simps) simp
next
  case (Cons i "is")
  then show ?case by (subst findNode_loop.simps) auto
qed

lemma find_split: "find P xs = Some x \<Longrightarrow> \<exists>ys zs. xs = ys @ x # zs \<and> P x \<and> (\<forall>y\<in>set ys. \<not> P y)"
proof (induction xs)
  case (Cons a xs)
  show ?case
  proof (cases "P a")
    case True
    then show ?thesis using Cons.prems by (intro exI [of _ "[]"] exI [of _ xs]) simp
  next
    case False
    then obtain ys zs where "xs = ys @ x # zs" "P x" "\<forall>y\<in>set ys. \<not> P y" using Cons by auto
    then show ?thesis using False by (intro exI [of _ "a # ys"] exI [of _ zs]) simp
  qed
qed simp

lemma remove1_append_other: "x \<notin> set xs \<Longrightarrow> remove1 x (xs @ x # ys) = xs @ ys"
  by (induction xs) auto

text \<open>The search returns, finds a block exactly when the list has it, and the node can be removed.\<close>

lemma rep_findNode:
  assumes "rep b A" and "k \<le> MAX_ORDER"
  obtains (absent) "findNode b s k = Some None" "s \<notin> set (A k)"
  | (found) i where "findNode b s k = Some (Some i)" "s \<in> set (A k)"
      "rep (remove_freeNode i b) (A(k := remove1 s (A k)))"
proof -
  obtain L where L: "lists_ok b L" "\<forall>k\<le>MAX_ORDER. A k = starts b (L k)"
    using assms(1) by (auto simp: rep_def)
  define P where "P i \<longleftrightarrow> startIndex (freeNodes b i) = s" for i
  have eq: "findNode b s k = Some (find P (L k))"
    unfolding findNode_def lists_ok_area [OF L(1) assms(2)] P_def
    by (rule findNode_loop_chain [of _ None]) (simp add: lists_ok_chain [OF L(1) assms(2)])
  show thesis
  proof (cases "find P (L k)")
    case None
    then have "s \<notin> set (A k)" using L(2) assms(2) by (auto simp: find_None_iff starts_def P_def)
    then show thesis using absent eq None by simp
  next
    case (Some i)
    from find_split [OF Some] obtain ys zs where sp: "L k = ys @ i # zs" "startIndex (freeNodes b i) = s"
        "\<forall>y\<in>set ys. startIndex (freeNodes b y) \<noteq> s"
      unfolding P_def by blast
    then have A: "A k = starts b ys @ s # starts b zs" "s \<notin> set (starts b ys)"
      using L(2) assms(2) by (auto simp: starts_def)
    note rem = remove_freeNode_ok [OF L(1) assms(2) sp(1)]
    have "remove1 s (A k) = starts b (ys @ zs)"
      unfolding A(1) remove1_append_other [OF A(2)] by (simp add: starts_def)
    then have "\<forall>j\<le>MAX_ORDER. (A(k := remove1 s (A k))) j = starts (remove_freeNode i b) ((L(k := ys @ zs)) j)"
      using L(2) by (simp add: rem(2))
    with rem(1) have "rep (remove_freeNode i b) (A(k := remove1 s (A k)))" unfolding rep_def by blast
    then show thesis using found eq Some A(1) by simp
  qed
qed

text \<open>Linking a new block: it succeeds while the node table has a free entry.\<close>

definition node_count :: "(nat \<Rightarrow> nat list) \<Rightarrow> nat" where
  "node_count A = (\<Sum>k\<le>MAX_ORDER. length (A k))"

lemma find_avail_some:
  assumes "lists_ok b L" and "(\<Sum>k\<le>MAX_ORDER. length (L k)) < nat (totalPages b)"
  shows "\<exists>i. find_avail_freeNode b = Some i \<and> int i < totalPages b \<and> (\<forall>k\<le>MAX_ORDER. i \<notin> set (L k))"
proof -
  have "card (\<Union>k\<le>MAX_ORDER. set (L k)) \<le> (\<Sum>k\<le>MAX_ORDER. card (set (L k)))"
    by (rule card_UN_le) simp
  also have "\<dots> \<le> (\<Sum>k\<le>MAX_ORDER. length (L k))" by (intro sum_mono card_length)
  finally have "card (\<Union>k\<le>MAX_ORDER. set (L k)) < card {0..<nat (totalPages b)}" using assms(2) by simp
  then obtain i where i: "i < nat (totalPages b)" "\<forall>k\<le>MAX_ORDER. i \<notin> set (L k)"
  proof -
    have "\<not> {0..<nat (totalPages b)} \<subseteq> (\<Union>k\<le>MAX_ORDER. set (L k))"
      using \<open>card _ < card _\<close> card_mono [of "\<Union>k\<le>MAX_ORDER. set (L k)" "{0..<nat (totalPages b)}"] by auto
    then obtain x where "x < nat (totalPages b)" "x \<notin> (\<Union>k\<le>MAX_ORDER. set (L k))"
      by (metis atLeastLessThan_iff subsetI)
    then show thesis using that [of x] by simp
  qed
  then have "\<not> GET_MAP (freeBitmap b) i" using assms(1) by (auto simp: lists_ok_def)
  then have "find_avail_freeNode b \<noteq> None" using i by (auto simp: find_avail_freeNode_def find_None_iff)
  then obtain j where j: "find_avail_freeNode b = Some j" by blast
  then have "int j < totalPages b" "\<not> GET_MAP (freeBitmap b) j"
    by (auto simp: find_avail_freeNode_def find_Some_iff)
  then show ?thesis using assms(1) j by (auto simp: lists_ok_def)
qed

lemma insert_freeNode_rep:
  assumes "rep b A" and k: "k \<le> MAX_ORDER" and "int (node_count A) < totalPages b"
  shows "fst (insert_freeNode s k b) = 0" and "rep (snd (insert_freeNode s k b)) (A(k := s # A k))"
    and "page_map (snd (insert_freeNode s k b)) = page_map b"
    and "totalPages (snd (insert_freeNode s k b)) = totalPages b"
proof -
  obtain L where L: "lists_ok b L" "\<forall>k\<le>MAX_ORDER. A k = starts b (L k)"
    using assms(1) by (auto simp: rep_def)
  have "(\<Sum>k\<le>MAX_ORDER. length (L k)) = node_count A" using L(2) by (simp add: node_count_def starts_def)
  then obtain i where i: "find_avail_freeNode b = Some i" "int i < totalPages b"
      "\<And>k. k \<le> MAX_ORDER \<Longrightarrow> i \<notin> set (L k)"
    using find_avail_some [OF L(1)] assms(3) by (auto simp: zless_nat_eq_int_zless)
  define b' where "b' = snd (insert_freeNode s k b)"
  have chk: "chain (freeNodes b) None (L k) None" "freeArea b k = hd_or (L k) None" "distinct (L k)"
    using L(1) k by (auto simp: lists_ok_def)
  note defs = insert_freeNode_def malloc_freeNode_def i(1) Let_def
  have b': "freeBitmap b' = SET_MAP i True (freeBitmap b)" "page_map b' = page_map b" "totalPages b' = totalPages b"
      "freeArea b' = (freeArea b)(k := Some i)"
    by (simp_all add: b'_def defs split: option.split)
  have nodes_other: "freeNodes b' j = freeNodes b j" if "j \<noteq> i" "j \<notin> set (L k)" for j
    using that chk(2) by (cases "L k") (auto simp: b'_def defs)
  have fields: "startIndex (freeNodes b' j) = (if j = i then s else startIndex (freeNodes b j))"
      "order_of (freeNodes b' j) = (if j = i then k else order_of (freeNodes b j))" for j
    using i(3) [OF k] chk(2) by (cases "L k"; auto simp: b'_def defs)+
  have chain_k: "chain (freeNodes b') None (i # L k) None"
    using chk i(3) [OF k] by (cases "L k") (auto simp: b'_def defs)
  have "lists_ok b' (L(k := i # L k))"
    unfolding lists_ok_def
  proof (intro conjI allI impI)
    fix j assume j: "j \<le> MAX_ORDER"
    have "chain (freeNodes b') None (L j) None" if "j \<noteq> k"
    proof -
      have "freeNodes b' n = freeNodes b n" if "n \<in> set (L j)" for n
        using nodes_other [of n] i(3) [OF j] that lists_ok_order [OF L(1)] j k \<open>j \<noteq> k\<close> by metis
      then have "chain (freeNodes b') None (L j) None = chain (freeNodes b) None (L j) None"
        by (intro chain_cong) auto
      then show ?thesis using lists_ok_chain [OF L(1) j] by simp
    qed
    then show "chain (freeNodes b') None ((L(k := i # L k)) j) None" using chain_k by simp
    show "freeArea b' j = hd_or ((L(k := i # L k)) j) None"
      using lists_ok_area [OF L(1) j] by (simp add: b')
    show "distinct ((L(k := i # L k)) j)" using lists_ok_chain [OF L(1) j] chk i(3) [OF k] by simp
    show "\<forall>n\<in>set ((L(k := i # L k)) j). order_of (freeNodes b' n) = j \<and> int n < totalPages b'"
      using lists_ok_order [OF L(1) j] lists_ok_bound [OF L(1) j] i(2) i(3) [OF j] by (auto simp: fields b')
  next
    fix n assume "int n < totalPages b'"
    then have "GET_MAP (freeBitmap b) n \<longleftrightarrow> (\<exists>j\<le>MAX_ORDER. n \<in> set (L j))"
      using L(1) by (simp add: lists_ok_def b')
    then show "GET_MAP (freeBitmap b') n \<longleftrightarrow> (\<exists>j\<le>MAX_ORDER. n \<in> set ((L(k := i # L k)) j))"
      using k by (auto simp: b')
  qed
  moreover have "\<forall>j\<le>MAX_ORDER. (A(k := s # A k)) j = starts b' ((L(k := i # L k)) j)"
    using L(2) i(3) k by (auto simp: starts_def fields)
  ultimately show "rep b' (A(k := s # A k))" unfolding rep_def by blast
  show "fst (insert_freeNode s k b) = 0" by (simp add: defs split: option.split)
  show "page_map b' = page_map b" "totalPages b' = totalPages b" by (fact b')+
qed

section \<open>The allocator on lists of block starts\<close>

text \<open>The contract of the allocator: split from above on allocation, merge with the buddy on release.\<close>

function aalloc :: "nat \<Rightarrow> (nat \<Rightarrow> nat list) \<Rightarrow> (nat \<times> (nat \<Rightarrow> nat list)) option" where
  "aalloc k A =
     (if MAX_ORDER < k then None
      else case A k of
        s # ss \<Rightarrow> Some (s, A(k := ss))
      | [] \<Rightarrow> map_option (\<lambda>(s, A'). (s, A'(k := (s + 2 ^ k) # A' k))) (aalloc (k + 1) A))"
  by pat_completeness auto
termination
  by (relation "measure (\<lambda>(k, A). Suc MAX_ORDER - k)") auto

function amerge :: "bytes \<Rightarrow> (nat \<Rightarrow> nat list) \<Rightarrow> nat \<Rightarrow> nat \<Rightarrow> (nat \<Rightarrow> nat list) \<times> nat \<times> nat" where
  "amerge m A s k =
     (let bd = s XOR push_bit k 1 in
      if k < MAX_ORDER + 1 \<and> \<not> GET_MAP m bd \<and> bd \<in> set (A k)
      then amerge m (A(k := remove1 bd (A k))) (min s bd) (k + 1) else (A, s, k))"
  by pat_completeness auto
termination
  by (relation "measure (\<lambda>(m, A, s, k). Suc MAX_ORDER - k)") auto

declare aalloc.simps [simp del] amerge.simps [simp del]

definition in_block :: "nat \<Rightarrow> nat \<Rightarrow> nat \<Rightarrow> nat" where
  "in_block k s p = (if s \<le> p \<and> p < s + 2 ^ k then 1 else 0)"

definition cover :: "(nat \<Rightarrow> nat list) \<Rightarrow> nat \<Rightarrow> nat" where
  "cover A p = (\<Sum>k\<le>MAX_ORDER. \<Sum>s\<leftarrow>A k. in_block k s p)"

definition aligned :: "(nat \<Rightarrow> nat list) \<Rightarrow> bool" where
  "aligned A \<longleftrightarrow> (\<forall>k\<le>MAX_ORDER. \<forall>s\<in>set (A k). 2 ^ k dvd s)"

lemma cover_upd:
  "k \<le> MAX_ORDER \<Longrightarrow>
     cover (A(k := xs)) p + (\<Sum>s\<leftarrow>A k. in_block k s p) = cover A p + (\<Sum>s\<leftarrow>xs. in_block k s p)"
  by (simp add: cover_def sum.remove [of "{..MAX_ORDER}" k])

lemma sum_list_remove1_add: "x \<in> set xs \<Longrightarrow> f x + (\<Sum>y\<leftarrow>remove1 x xs. f y) = (\<Sum>y\<leftarrow>xs. f y :: nat)"
  by (induction xs) auto

lemma cover_push: "k \<le> MAX_ORDER \<Longrightarrow> cover (A(k := s # A k)) p = cover A p + in_block k s p"
  using cover_upd [of k A "s # A k" p] by simp

lemma cover_pop: "k \<le> MAX_ORDER \<Longrightarrow> A k = s # ss \<Longrightarrow> cover A p = cover (A(k := ss)) p + in_block k s p"
  using cover_upd [of k A ss p] by simp

lemma cover_remove1:
  "k \<le> MAX_ORDER \<Longrightarrow> s \<in> set (A k) \<Longrightarrow> cover A p = cover (A(k := remove1 s (A k))) p + in_block k s p"
  using cover_upd [of k A "remove1 s (A k)" p] sum_list_remove1_add [of s "A k" "\<lambda>s. in_block k s p"] by simp

lemma cover_cong: "(\<And>k. k \<le> MAX_ORDER \<Longrightarrow> A k = B k) \<Longrightarrow> cover A p = cover B p"
  by (simp add: cover_def)

lemma in_block_split: "in_block (k + 1) s p = in_block k s p + in_block k (s + 2 ^ k) p"
  by (simp add: in_block_def)

text \<open>The buddy of an aligned block is the other half of the block of the next order.\<close>

lemma int_if_diff: "int x = (if c then int a - int b else int a + int b) \<Longrightarrow> x = (if c then a - b else a + b)"
  by (auto split: if_splits)

lemma xor_pow2: "(s::nat) XOR 2 ^ k = (if bit s k then s - 2 ^ k else s + 2 ^ k)"
proof -
  have "int (s XOR 2 ^ k) = flip_bit k (int s)" by (simp add: flip_bit_eq_xor of_nat_xor_eq)
  also have "\<dots> = (if bit s k then int s - 2 ^ k else int s + 2 ^ k)"
    by (simp add: flip_bit_eq_if unset_bit_eq set_bit_eq bit_of_nat_iff_bit)
  finally have "int (s XOR 2 ^ k) = (if bit s k then int s - 2 ^ k else int s + 2 ^ k)" .
  then have "int (s XOR 2 ^ k) = (if bit s k then int s - int (2 ^ k) else int s + int (2 ^ k))" by simp
  then show ?thesis by (simp only: int_if_diff)
qed

lemma buddy_block:
  fixes s k :: nat
  assumes "2 ^ k dvd s"
  defines "bd \<equiv> s XOR push_bit k 1"
  shows "2 ^ k dvd bd" "2 ^ (k + 1) dvd min s bd" "bd \<noteq> s"
    "in_block (k + 1) (min s bd) p = in_block k s p + in_block k bd p"
proof -
  obtain q where q: "s = 2 ^ k * q" using assms by blast
  have bd: "bd = (if odd q then s - 2 ^ k else s + 2 ^ k)"
    unfolding bd_def q by (simp add: xor_pow2 bit_iff_odd)
  have "2 ^ k dvd bd \<and> 2 ^ (k + 1) dvd min s bd \<and> bd \<noteq> s \<and>
    in_block (k + 1) (min s bd) p = in_block k s p + in_block k bd p"
  proof (cases "odd q")
    case True
    then obtain r where r: "q = 2 * r + 1" by (blast elim: oddE)
    have e: "s = 2 ^ (k + 1) * r + 2 ^ k" "bd = 2 ^ (k + 1) * r" using True bd q r by (simp_all add: algebra_simps)
    show ?thesis using in_block_split [of k bd p] by (simp add: e)
  next
    case False
    then obtain r where r: "q = 2 * r" by (blast elim: evenE)
    have e: "s = 2 ^ (k + 1) * r" "bd = 2 ^ (k + 1) * r + 2 ^ k" using False bd q r by (simp_all add: algebra_simps)
    show ?thesis using in_block_split [of k s p] by (simp add: e)
  qed
  then show "2 ^ k dvd bd" "2 ^ (k + 1) dvd min s bd" "bd \<noteq> s"
    "in_block (k + 1) (min s bd) p = in_block k s p + in_block k bd p" by blast+
qed

lemma aalloc_none: "aalloc k A = None \<longleftrightarrow> (\<forall>j. k \<le> j \<and> j \<le> MAX_ORDER \<longrightarrow> A j = [])"
proof (induction k A rule: aalloc.induct)
  case (1 k A)
  show ?case
  proof (cases "MAX_ORDER < k \<or> A k \<noteq> []")
    case True
    then show ?thesis by (subst aalloc.simps) (auto split: list.split)
  next
    case False
    then have "aalloc k A = None \<longleftrightarrow> aalloc (k + 1) A = None" by (subst aalloc.simps) simp
    also have "\<dots> \<longleftrightarrow> (\<forall>j. k + 1 \<le> j \<and> j \<le> MAX_ORDER \<longrightarrow> A j = [])" using 1 False by simp
    finally have "aalloc k A = None \<longleftrightarrow> (\<forall>j. Suc k \<le> j \<and> j \<le> MAX_ORDER \<longrightarrow> A j = [])" by simp
    moreover have "k \<le> j \<longleftrightarrow> j = k \<or> Suc k \<le> j" for j by auto
    ultimately show ?thesis using False by auto
  qed
qed

lemma aalloc_some:
  "aalloc k A = Some (s, A') \<Longrightarrow> aligned A \<Longrightarrow>
     aligned A' \<and> 2 ^ k dvd s \<and> (\<forall>p. cover A p = cover A' p + in_block k s p)"
proof (induction k A arbitrary: s A' rule: aalloc.induct)
  case (1 k A)
  then have k: "k \<le> MAX_ORDER" by (subst (asm) aalloc.simps) (simp split: if_splits)
  show ?case
  proof (cases "A k")
    case Nil
    then obtain B where B: "aalloc (k + 1) A = Some (s, B)" "A' = B(k := (s + 2 ^ k) # B k)"
      using "1.prems"(1) k by (subst (asm) aalloc.simps) auto
    have IH: "aligned B" "2 ^ (k + 1) dvd s" "\<And>p. cover A p = cover B p + in_block (k + 1) s p"
      using "1.IH" [OF _ Nil B(1)] k "1.prems"(2) by auto
    have "2 ^ k dvd s" using IH(2) by (metis dvd_trans le_imp_power_dvd le_add1)
    moreover have "aligned A'" using IH(1) \<open>2 ^ k dvd s\<close> by (auto simp: aligned_def B(2))
    moreover have "cover A p = cover A' p + in_block k s p" for p
      unfolding B(2) cover_push [OF k] IH(3) in_block_split by simp
    ultimately show ?thesis by blast
  next
    case (Cons t ts)
    then have "s = t" "A' = A(k := ts)" using "1.prems"(1) k by (subst (asm) aalloc.simps, simp)+
    moreover have "aligned (A(k := ts))" "2 ^ k dvd t" using Cons k "1.prems"(2) by (auto simp: aligned_def)
    ultimately show ?thesis using cover_pop [of k A t ts, OF k Cons] by blast
  qed
qed

lemma amerge_inv:
  "amerge m A s k = (A', s', k') \<Longrightarrow> aligned A \<Longrightarrow> 2 ^ k dvd s \<Longrightarrow> k \<le> MAX_ORDER + 1 \<Longrightarrow>
     aligned A' \<and> 2 ^ k' dvd s' \<and> k \<le> k' \<and> k' \<le> MAX_ORDER + 1 \<and>
     (\<forall>p. cover A' p + in_block k' s' p = cover A p + in_block k s p)"
proof (induction m A s k rule: amerge.induct)
  case (1 m A s k)
  define bd where "bd = s XOR push_bit k 1"
  show ?case
  proof (cases "k < MAX_ORDER + 1 \<and> \<not> GET_MAP m bd \<and> bd \<in> set (A k)")
    case True
    then have eq: "amerge m (A(k := remove1 bd (A k))) (min s bd) (k + 1) = (A', s', k')"
      using "1.prems"(1) by (subst (asm) amerge.simps) (simp add: bd_def Let_def)
    have al: "aligned (A(k := remove1 bd (A k)))"
      using "1.prems"(2) by (auto simp: aligned_def dest: notin_set_remove1)
    note bb = buddy_block [OF "1.prems"(3), folded bd_def]
    have "aligned A' \<and> 2 ^ k' dvd s' \<and> k + 1 \<le> k' \<and> k' \<le> MAX_ORDER + 1 \<and>
        (\<forall>p. cover A' p + in_block k' s' p = cover (A(k := remove1 bd (A k))) p + in_block (k + 1) (min s bd) p)"
      using "1.IH" [OF bd_def True eq al bb(2)] True by (simp del: fun_upd_apply)
    moreover have "cover (A(k := remove1 bd (A k))) p + in_block (k + 1) (min s bd) p = cover A p + in_block k s p"
      for p using cover_remove1 [of k bd A p] True bb(4) [of p] by simp
    ultimately show ?thesis by (simp del: fun_upd_apply)
  next
    case False
    then have "(A, s, k) = (A', s', k')"
      using "1.prems"(1) amerge.simps [of m A s k] by (simp only: bd_def [symmetric] Let_def if_False)
    then show ?thesis using "1.prems" by simp
  qed
qed

section \<open>The pointer model implements it\<close>

definition total_ok :: "int \<Rightarrow> (nat \<Rightarrow> nat list) \<Rightarrow> bool" where
  "total_ok n A \<longleftrightarrow> aligned A \<and> (\<forall>p. cover A p \<le> (if int p < n then 1 else 0))"

lemma in_block_self: "in_block k s s = 1"
  by (simp add: in_block_def)

lemma sum_in_block:
  assumes "0 \<le> n" "s + 2 ^ k \<le> nat n"
  shows "(\<Sum>p<nat n. in_block k s p) = 2 ^ k"
proof -
  have "(\<Sum>p<nat n. in_block k s p) = card {p \<in> {..<nat n}. s \<le> p \<and> p < s + 2 ^ k}"
    by (simp add: in_block_def sum.If_cases Int_def)
  also have "{p \<in> {..<nat n}. s \<le> p \<and> p < s + 2 ^ k} = {s..<s + 2 ^ k}" using assms by auto
  finally show ?thesis by simp
qed

lemma sum_list_sum_swap: "(\<Sum>s\<leftarrow>xs. \<Sum>p\<in>P. f s p) = (\<Sum>p\<in>P. \<Sum>s\<leftarrow>xs. f s p :: nat)"
  by (induction xs) (simp_all add: sum.distrib)

lemma node_count_le_cover:
  assumes "\<And>k s. k \<le> MAX_ORDER \<Longrightarrow> s \<in> set (A k) \<Longrightarrow> int s < n"
  shows "node_count A \<le> (\<Sum>p<nat n. cover A p)"
proof -
  have one: "1 \<le> (\<Sum>p<nat n. in_block k s p)" if "k \<le> MAX_ORDER" "s \<in> set (A k)" for k s
  proof -
    have "s < nat n" using assms [OF that] by simp
    then have "in_block k s s \<le> (\<Sum>p<nat n. in_block k s p)" by (intro member_le_sum) auto
    then show ?thesis by (simp add: in_block_self)
  qed
  have len: "length xs \<le> (\<Sum>s\<leftarrow>xs. \<Sum>p<nat n. in_block k s p)"
    if "k \<le> MAX_ORDER" "set xs \<subseteq> set (A k)" for k xs
    using that(2)
  proof (induction xs)
    case (Cons a xs)
    then show ?case using one [OF that(1), of a] by simp
  qed simp
  have "node_count A \<le> (\<Sum>k\<le>MAX_ORDER. \<Sum>s\<leftarrow>A k. \<Sum>p<nat n. in_block k s p)"
    unfolding node_count_def by (intro sum_mono len) auto
  also have "\<dots> = (\<Sum>p<nat n. cover A p)"
    unfolding cover_def sum_list_sum_swap by (rule sum.swap)
  finally show ?thesis .
qed

text \<open>
  While some page is not covered by a free block the node table, which has as many entries as there
  are pages, has room.
\<close>

lemma node_count_less:
  assumes ok: "total_ok n A" and q: "int q < n" "cover A q = 0"
  shows "int (node_count A) < n"
proof -
  have start: "int s < n" if "k \<le> MAX_ORDER" "s \<in> set (A k)" for k s
  proof -
    have "in_block k s s \<le> cover A s" using cover_remove1 [of k s A s, OF that] by simp
    then show ?thesis using ok by (auto simp: total_ok_def in_block_self split: if_splits dest: spec [of _ s])
  qed
  have "node_count A \<le> (\<Sum>p<nat n. cover A p)" using start by (rule node_count_le_cover)
  also have "\<dots> < (\<Sum>p<nat n. 1)"
  proof (rule sum_strict_mono_ex1)
    show "\<forall>p\<in>{..<nat n}. cover A p \<le> 1" using ok by (auto simp: total_ok_def split: if_splits)
    show "\<exists>p\<in>{..<nat n}. cover A p < 1" using q by (intro bexI [of _ q]) auto
  qed simp
  finally show ?thesis using q by simp
qed

lemma allocateBlock_refines:
  "rep b A \<Longrightarrow> total_ok (totalPages b) A \<Longrightarrow>
     page_map (snd (allocateBlock k b)) = page_map b \<and> totalPages (snd (allocateBlock k b)) = totalPages b \<and>
     (case aalloc k A of
        None \<Rightarrow> allocateBlock k b = (- 1, b)
      | Some (s, A') \<Rightarrow> fst (allocateBlock k b) = int s \<and> rep (snd (allocateBlock k b)) A')"
proof (induction k b rule: allocateBlock.induct)
  case (1 k b)
  consider "MAX_ORDER < k" | i where "k \<le> MAX_ORDER" "freeArea b k = Some i"
    | "k \<le> MAX_ORDER" "freeArea b k = None" by fastforce
  then show ?case
  proof cases
    case 1
    then show ?thesis by (simp add: allocateBlock.simps [of k b] aalloc.simps [of k A])
  next
    case (2 i)
    note hd = rep_remove_hd [OF "1.prems"(1) 2]
    have "aalloc k A = Some (startIndex (freeNodes b i), A(k := tl (A k)))"
      using 2 hd(2) by (subst aalloc.simps) (auto split: list.split)
    moreover have "allocateBlock k b = (int (startIndex (freeNodes b i)), remove_freeNode i b)"
      using 2 by (subst allocateBlock.simps) simp
    ultimately show ?thesis using hd(1) by (simp add: remove_freeNode_frame)
  next
    case 3
    have Nil: "A k = []" using rep_area [OF "1.prems"(1) 3(1)] 3(2) by simp
    note IH = "1.IH" [OF _ 3(2) "1.prems"]
    obtain r b1 where rec: "allocateBlock (k + 1) b = (r, b1)" by fastforce
    show ?thesis
    proof (cases "aalloc (k + 1) A")
      case None
      then have "allocateBlock (k + 1) b = (- 1, b)" using IH 3(1) by simp
      then have "allocateBlock k b = (- 1, b)" using 3 by (subst allocateBlock.simps) simp
      moreover have "aalloc k A = None" using 3 Nil None by (subst aalloc.simps) simp
      ultimately show ?thesis by simp
    next
      case (Some sA)
      obtain s B where sA: "sA = (s, B)" by fastforce
      have B: "rep b1 B" "r = int s" "page_map b1 = page_map b" "totalPages b1 = totalPages b"
        using IH 3(1) Some sA rec by auto
      have ab: "aligned B" "2 ^ (k + 1) dvd s" "\<And>p. cover A p = cover B p + in_block (k + 1) s p"
        using aalloc_some [of "k + 1" A s B] Some sA "1.prems"(2) by (auto simp: total_ok_def)
      have cov: "cover A p \<le> (if int p < totalPages b then 1 else 0)" for p
        using "1.prems"(2) by (simp add: total_ok_def)
      have "cover B p \<le> (if int p < totalPages b then 1 else 0)" for p
        using cov [of p] ab(3) [of p] by (simp split: if_splits)
      then have "total_ok (totalPages b1) B" using ab(1) B(4) by (simp add: total_ok_def)
      moreover have "int s < totalPages b1" "cover B s = 0"
        using cov [of s] ab(3) [of s] B(4) by (auto simp: in_block_self split: if_splits)
      ultimately have "int (node_count B) < totalPages b1" by (rule node_count_less)
      note ins = insert_freeNode_rep [OF B(1) 3(1) this, of "s + 2 ^ k"]
      have "allocateBlock k b = (int s, snd (insert_freeNode (s + 2 ^ k) k b1))"
        using 3 rec B(2) by (subst allocateBlock.simps) (simp add: Let_def)
      moreover have "aalloc k A = Some (s, B(k := (s + 2 ^ k) # B k))"
        using 3(1) Nil Some sA by (subst aalloc.simps) simp
      ultimately show ?thesis using ins(2,3,4) B(3,4) by simp
    qed
  qed
qed

lemma release_loop_refines:
  "rep b A \<Longrightarrow> amerge (page_map b) A s k = (A', s', k') \<Longrightarrow>
     \<exists>b'. release_loop b s k = Some (b', s', k') \<and> rep b' A' \<and> page_map b' = page_map b \<and>
        totalPages b' = totalPages b"
proof (induction b s k arbitrary: A rule: release_loop.induct)
  case (1 b s k)
  define bd where "bd = s XOR push_bit k 1"
  show ?case
  proof (cases "k < MAX_ORDER + 1 \<and> \<not> GET_MAP (page_map b) bd")
    case False
    then have "amerge (page_map b) A s k = (A, s, k)" "release_loop b s k = Some (b, s, k)"
      by (subst amerge.simps release_loop.simps, auto simp: bd_def Let_def)+
    then show ?thesis using "1.prems" by simp
  next
    case True
    then have "k \<le> MAX_ORDER" by simp
    show ?thesis
    proof (rule rep_findNode [OF "1.prems"(1) \<open>k \<le> MAX_ORDER\<close>, of bd])
      assume absent: "findNode b bd k = Some None" "bd \<notin> set (A k)"
      then have "amerge (page_map b) A s k = (A, s, k)" "release_loop b s k = Some (b, s, k)"
        using True by (subst amerge.simps release_loop.simps, auto simp: bd_def Let_def)+
      then show ?thesis using "1.prems" by simp
    next
      fix i
      assume found: "findNode b bd k = Some (Some i)" "bd \<in> set (A k)"
        "rep (remove_freeNode i b) (A(k := remove1 bd (A k)))"
      have "amerge (page_map b) A s k = amerge (page_map b) (A(k := remove1 bd (A k))) (min s bd) (k + 1)"
        using True found(2) by (subst amerge.simps) (simp add: bd_def Let_def)
      moreover have "release_loop b s k = release_loop (remove_freeNode i b) (min s bd) (k + 1)"
        using True found(1) by (subst release_loop.simps) (simp add: bd_def Let_def)
      ultimately show ?thesis
        using "1.IH" [of bd "Some i" i, OF _ bd_def _ found(1) refl found(3)] True "1.prems"(2)
        by (simp add: remove_freeNode_frame del: fun_upd_apply)
    qed
  qed
qed

section \<open>Invariant and the two operations\<close>

text \<open>
  \<open>buddy_inv b A\<close>: the free lists of \<open>b\<close> hold the blocks \<open>A\<close>, each aligned to its size; no page is
  covered twice, no page outside the pool is covered, and a covered page is clear in the page map.
\<close>

definition buddy_inv :: "Buddy \<Rightarrow> (nat \<Rightarrow> nat list) \<Rightarrow> bool" where
  "buddy_inv b A \<longleftrightarrow> rep b A \<and> total_ok (totalPages b) A \<and> (\<forall>p. cover A p = 1 \<longrightarrow> \<not> GET_MAP (page_map b) p)"

lemma in_block_le_1: "in_block k s p \<le> 1"
  by (simp add: in_block_def)

lemma in_block_eq_1 [simp]: "in_block k s p = Suc 0 \<longleftrightarrow> s \<le> p \<and> p < s + 2 ^ k"
  by (simp add: in_block_def)

lemma in_block_mono: "k \<le> j \<Longrightarrow> in_block k s p \<le> in_block j s p"
  by (auto simp: in_block_def intro: less_le_trans [OF _ add_left_mono [OF power_increasing]])

lemma total_ok_le:
  assumes "total_ok n A" and "aligned B" and "\<And>p. cover B p \<le> cover A p"
  shows "total_ok n B"
  using assms unfolding total_ok_def by (meson order_trans)

lemma total_okD: "total_ok n A \<Longrightarrow> cover A p \<le> 1 \<and> (cover A p = 1 \<longrightarrow> int p < n)"
  by (auto simp: total_ok_def dest: spec [of _ p] split: if_splits)

lemma block_in_pool: "(\<And>p. s \<le> p \<Longrightarrow> p < s + 2 ^ k \<Longrightarrow> int p < n) \<Longrightarrow> int s + 2 ^ k \<le> n"
proof -
  assume a: "\<And>p. s \<le> p \<Longrightarrow> p < s + 2 ^ k \<Longrightarrow> int p < n"
  have "(0::nat) < 2 ^ k" by simp
  then have "int (s + 2 ^ k - 1) < n" by (intro a) linarith+
  then show ?thesis using \<open>(0::nat) < 2 ^ k\<close> by (simp add: of_nat_diff)
qed

lemma count2order_nonneg: "0 \<le> count2order count"
proof (cases "0 < count - 1")
  case True
  then show ?thesis using log2_loop_bounds [of "count - 1" 0] by (auto simp: count2order_def c_log2_def)
next
  case False
  then show ?thesis by (simp add: count2order_def c_log2_def)
qed

lemma amerge_loss:
  "amerge m A s k = (A', s', k') \<Longrightarrow> 2 ^ k dvd s \<Longrightarrow> k \<le> MAX_ORDER \<Longrightarrow> k' = MAX_ORDER + 1 \<Longrightarrow>
     (s div 2 ^ MAX_ORDER * 2 ^ MAX_ORDER) XOR 2 ^ MAX_ORDER \<in> set (A MAX_ORDER)"
proof (induction m A s k rule: amerge.induct)
  case (1 m A s k)
  define bd where "bd = s XOR push_bit k 1"
  have step: "k < MAX_ORDER + 1 \<and> \<not> GET_MAP m bd \<and> bd \<in> set (A k)"
  proof (rule ccontr)
    assume "\<not> ?thesis"
    then have "(A, s, k) = (A', s', k')"
      using "1.prems"(1) amerge.simps [of m A s k] by (simp only: bd_def [symmetric] Let_def if_False)
    then show False using "1.prems" by simp
  qed
  show ?case
  proof (cases "k = MAX_ORDER")
    case True
    then show ?thesis using step "1.prems"(2) by (simp add: bd_def)
  next
    case False
    then have k: "k + 1 \<le> MAX_ORDER" using "1.prems"(3) by simp
    have eq: "amerge m (A(k := remove1 bd (A k))) (min s bd) (k + 1) = (A', s', k')"
      using "1.prems"(1) step by (subst (asm) amerge.simps) (simp add: bd_def Let_def)
    note bb = buddy_block [OF "1.prems"(2), folded bd_def]
    obtain j where j: "MAX_ORDER = (k + 1) + j" using k le_Suc_ex by blast
    have "s < min s bd + 2 ^ (k + 1) \<and> min s bd \<le> s"
      using bb(4) [of s] in_block_self [of k s] by (auto simp: in_block_def split: if_splits)
    moreover obtain q where q: "min s bd = 2 ^ (k + 1) * q" using bb(2) by blast
    ultimately have "s div 2 ^ (k + 1) = q" by (intro div_nat_eqI) (simp_all add: algebra_simps)
    then have "s div 2 ^ (k + 1) = min s bd div 2 ^ (k + 1)" by (simp add: q)
    then have "s div 2 ^ MAX_ORDER = min s bd div 2 ^ MAX_ORDER"
      unfolding j power_add div_mult2_eq by simp
    then show ?thesis using "1.IH" [OF bd_def step eq bb(2) k "1.prems"(4)] False by simp
  qed
qed

lemma releaseBlock_ok:
  assumes "rep b A" and ok: "total_ok (totalPages b) A" and k: "k \<le> MAX_ORDER" and al: "2 ^ k dvd s"
    and pool: "int s + 2 ^ k \<le> totalPages b" and taken: "\<And>p. s \<le> p \<Longrightarrow> p < s + 2 ^ k \<Longrightarrow> cover A p = 0"
    and am: "amerge (page_map b) A s k = (M, s', k')"
  defines "A' \<equiv> M(min k' MAX_ORDER := s' # M (min k' MAX_ORDER))"
  shows "\<exists>b'. releaseBlock s k b = Some b' \<and> rep b' A' \<and> page_map b' = page_map b \<and> totalPages b' = totalPages b"
    and "total_ok (totalPages b) A'"
    and "cover A' p = cover M p + in_block (min k' MAX_ORDER) s' p"
    and "cover M p + in_block k' s' p = cover A p + in_block k s p"
proof -
  have k1: "k \<le> MAX_ORDER + 1" and k'': "min k' MAX_ORDER \<le> MAX_ORDER" using k by simp_all
  have mi: "aligned M" "2 ^ k' dvd s'" "k' \<le> MAX_ORDER + 1"
      "\<And>p. cover M p + in_block k' s' p = cover A p + in_block k s p"
    using amerge_inv [OF am _ al k1] ok by (auto simp: total_ok_def)
  have cov: "cover A p + in_block k s p \<le> (if int p < totalPages b then 1 else 0)" for p
  proof (cases "s \<le> p \<and> p < s + 2 ^ k")
    case True
    then have "int p < int s + 2 ^ k" by (metis of_nat_less_iff of_nat_add of_nat_power of_nat_numeral)
    then show ?thesis using taken True pool in_block_le_1 [of k s p] by simp
  next
    case False
    then have "in_block k s p = 0" by (simp add: in_block_def)
    then show ?thesis using ok by (simp only: total_ok_def add_0_right)
  qed
  have covM: "cover M p + in_block k' s' p \<le> (if int p < totalPages b then 1 else 0)" for p
    using cov [of p] mi(4) [of p] by simp
  then have okM: "total_ok (totalPages b) M" using mi(1) unfolding total_ok_def by (meson add_leD1)
  have "int s' < totalPages b" "cover M s' = 0"
    using covM [of s'] by (simp_all add: in_block_self split: if_splits)
  then have nodes: "int (node_count M) < totalPages b" by (rule node_count_less [OF okM])
  obtain b1 where b1: "release_loop b s k = Some (b1, s', k')" "rep b1 M" "page_map b1 = page_map b"
      "totalPages b1 = totalPages b"
    using release_loop_refines [OF assms(1) am] by blast
  note ins = insert_freeNode_rep [OF b1(2) k'' , of s', unfolded b1, OF nodes, folded A'_def]
  show "\<exists>b'. releaseBlock s k b = Some b' \<and> rep b' A' \<and> page_map b' = page_map b \<and> totalPages b' = totalPages b"
    using ins by (simp add: releaseBlock_def b1)
  show cA: "cover A' p = cover M p + in_block (min k' MAX_ORDER) s' p" for p
    unfolding A'_def by (rule cover_push [OF k''])
  show "cover M p + in_block k' s' p = cover A p + in_block k s p" by (rule mi(4))
  have "2 ^ min k' MAX_ORDER dvd s'" using mi(2) by (meson dvd_trans le_imp_power_dvd min.cobounded1)
  then have "aligned A'" using mi(1) by (auto simp: A'_def aligned_def)
  moreover have "cover A' p \<le> (if int p < totalPages b then 1 else 0)" for p
    using covM [of p] in_block_mono [of "min k' MAX_ORDER" k' s' p] by (simp add: cA split: if_splits)
  ultimately show "total_ok (totalPages b) A'" by (simp add: total_ok_def)
qed

lemma releaseBlock_inv:
  assumes inv: "rep b A" "total_ok (totalPages b) A" and k: "k \<le> MAX_ORDER" and al: "2 ^ k dvd s"
    and pool: "int s + 2 ^ k \<le> totalPages b" and taken: "\<And>p. s \<le> p \<Longrightarrow> p < s + 2 ^ k \<Longrightarrow> cover A p = 0"
  obtains b' A' where "releaseBlock s k b = Some b'" "rep b' A'" "total_ok (totalPages b) A'"
    "page_map b' = page_map b" "totalPages b' = totalPages b" "\<And>p. cover A' p \<le> cover A p + in_block k s p"
    "(s div 2 ^ MAX_ORDER * 2 ^ MAX_ORDER) XOR 2 ^ MAX_ORDER \<notin> set (A MAX_ORDER) \<Longrightarrow>
       \<forall>p. cover A' p = cover A p + in_block k s p"
proof -
  obtain M s' k' where am: "amerge (page_map b) A s k = (M, s', k')" by (metis surj_pair)
  obtain b' where b': "releaseBlock s k b = Some b'" "rep b' (M(min k' MAX_ORDER := s' # M (min k' MAX_ORDER)))"
      "page_map b' = page_map b" "totalPages b' = totalPages b"
    using releaseBlock_ok(1) [OF inv k al pool taken am] by blast
  have le: "cover (M(min k' MAX_ORDER := s' # M (min k' MAX_ORDER))) p \<le> cover A p + in_block k s p" for p
    using releaseBlock_ok(3,4) [OF inv k al pool taken am, of p] in_block_mono [of "min k' MAX_ORDER" k' s' p] by simp
  have "cover (M(min k' MAX_ORDER := s' # M (min k' MAX_ORDER))) p = cover A p + in_block k s p"
    if "(s div 2 ^ MAX_ORDER * 2 ^ MAX_ORDER) XOR 2 ^ MAX_ORDER \<notin> set (A MAX_ORDER)" for p
  proof -
    have "k' \<noteq> MAX_ORDER + 1" using amerge_loss [OF am al k] that by blast
    moreover have "k' \<le> MAX_ORDER + 1" using amerge_inv [OF am _ al] inv(2) k by (auto simp: total_ok_def)
    ultimately have "min k' MAX_ORDER = k'" by simp
    then show ?thesis using releaseBlock_ok(3,4) [OF inv k al pool taken am, of p] by simp
  qed
  then show thesis using that [OF b'(1,2) releaseBlock_ok(2) [OF inv k al pool taken am] b'(3,4) le] by blast
qed

text \<open>In a pool of at most one largest block nothing can be lost.\<close>

lemma no_loss_small:
  assumes "total_ok n A" and "n \<le> 2 ^ MAX_ORDER" and "int s < n"
  shows "(s div 2 ^ MAX_ORDER * 2 ^ MAX_ORDER) XOR 2 ^ MAX_ORDER \<notin> set (A MAX_ORDER)"
proof
  assume a: "(s div 2 ^ MAX_ORDER * 2 ^ MAX_ORDER) XOR 2 ^ MAX_ORDER \<in> set (A MAX_ORDER)"
  have "s div 2 ^ MAX_ORDER = 0" using assms(2,3) by (simp add: MAX_ORDER_def)
  then have "(2::nat) ^ MAX_ORDER \<in> set (A MAX_ORDER)" using a by simp
  then have "1 \<le> cover A (2 ^ MAX_ORDER)"
    using cover_remove1 [of MAX_ORDER "2 ^ MAX_ORDER" A "2 ^ MAX_ORDER"] by (simp add: in_block_self)
  then show False using total_okD [OF assms(1), of "2 ^ MAX_ORDER"] assms(2) by (simp add: MAX_ORDER_def)
qed

section \<open>Initialisation\<close>

lemma align_order_props:
  "2 ^ m dvd s \<Longrightarrow> m \<le> MAX_ORDER \<Longrightarrow>
     2 ^ align_order s m dvd s \<and> align_order s m \<le> MAX_ORDER"
proof (induction s m rule: align_order.induct)
  case (1 s m)
  show ?case
  proof (cases "s AND push_bit m 1 = 0 \<and> m < MAX_ORDER")
    case True
    have "\<not> bit (s AND 2 ^ m) m" using True by simp
    then have "\<not> bit s m" by (simp add: bit_and_iff bit_exp_iff)
    moreover obtain q where q: "s = 2 ^ m * q" using "1.prems" by blast
    ultimately have "even q" by (simp add: bit_iff_odd)
    then have "2 ^ (m + 1) dvd s" unfolding q by (auto elim!: evenE)
    then show ?thesis using "1.IH" True by (simp add: align_order.simps [of s m])
  next
    case False
    then show ?thesis using "1.prems" by (subst (1 2) align_order.simps) auto
  qed
qed

lemma scan_free_props:
  "scan_free b st m i = j \<Longrightarrow> int i \<le> int st + 2 ^ m \<Longrightarrow> int i \<le> totalPages b \<Longrightarrow>
     i \<le> j \<and> (\<forall>p. i \<le> p \<and> p < j \<longrightarrow> \<not> GET_MAP (page_map b) p) \<and> int j \<le> int st + 2 ^ m \<and> int j \<le> totalPages b"
proof (induction b st m i rule: scan_free.induct)
  case (1 b st m i)
  show ?case
  proof (cases "\<not> GET_MAP (page_map b) i \<and> int i - int st + 1 \<le> int (push_bit m 1) \<and> int i < totalPages b")
    case True
    then have "scan_free b st m (i + 1) = j" using "1.prems"(1) by (subst (asm) scan_free.simps) simp
    then have IH: "i + 1 \<le> j" "\<forall>p. i + 1 \<le> p \<and> p < j \<longrightarrow> \<not> GET_MAP (page_map b) p" "int j \<le> int st + 2 ^ m"
        "int j \<le> totalPages b"
      using "1.IH" [OF True] True by simp_all
    then have "\<not> GET_MAP (page_map b) p" if "i \<le> p" "p < j" for p
      using that True by (cases "p = i") auto
    then show ?thesis using IH by simp
  next
    case False
    then show ?thesis using "1.prems" by (subst (asm) scan_free.simps) (auto split: if_splits)
  qed
qed

lemma c_log2_bounds: "0 < n \<Longrightarrow> (2::int) ^ nat (c_log2 n) \<le> n"
  using log2_loop_bounds [of n 0] by (auto simp: c_log2_def)

text \<open>The block that the initialisation releases at a free page.\<close>

lemma init_block:
  assumes "int idx < totalPages b" and "\<not> GET_MAP (page_map b) idx"
  defines "k \<equiv> nat (c_log2 (int (scan_free b idx (align_order idx 0) idx) - 1 - int idx + 1))"
  shows "k \<le> MAX_ORDER" "2 ^ k dvd idx" "int idx + 2 ^ k \<le> totalPages b"
    "idx \<le> p \<Longrightarrow> p < idx + 2 ^ k \<Longrightarrow> \<not> GET_MAP (page_map b) p"
proof -
  define m where "m = align_order idx 0"
  define j where "j = scan_free b idx m idx"
  have m: "2 ^ m dvd idx" "m \<le> MAX_ORDER" using align_order_props [of 0 idx] by (simp_all add: m_def)
  have "scan_free b idx m (idx + 1) = j"
    unfolding j_def using assms(1,2) by (subst (2) scan_free.simps) simp
  from scan_free_props [OF this] assms(1,2)
  have j: "idx + 1 \<le> j" "\<forall>p. idx + 1 \<le> p \<and> p < j \<longrightarrow> \<not> GET_MAP (page_map b) p"
      "int j \<le> int idx + 2 ^ m" "int j \<le> totalPages b" by simp_all
  have k: "k = nat (c_log2 (int j - int idx))" by (simp add: k_def j_def m_def)
  have le: "(2::int) ^ k \<le> int j - int idx" unfolding k using j(1) by (intro c_log2_bounds) simp
  also have "\<dots> \<le> 2 ^ m" using j(3) by simp
  finally have "k \<le> m" by simp
  then show "k \<le> MAX_ORDER" using m(2) by simp
  show "2 ^ k dvd idx" using m(1) \<open>k \<le> m\<close> by (meson dvd_trans le_imp_power_dvd)
  show "int idx + 2 ^ k \<le> totalPages b" using le j(4) by simp
  assume "idx \<le> p" "p < idx + 2 ^ k"
  moreover from this have "int p < int idx + 2 ^ k" by (metis of_nat_less_iff of_nat_add of_nat_power of_nat_numeral)
  then have "p < j" using le by simp
  ultimately show "\<not> GET_MAP (page_map b) p" using j(2) assms(2) by (cases "p = idx") auto
qed

lemma init_loop_inv:
  assumes "rep b A" "total_ok (totalPages b) A"
    and "\<And>p. cover A p = 1 \<Longrightarrow> \<not> GET_MAP (page_map b) p" and "\<And>p. idx \<le> p \<Longrightarrow> cover A p = 0"
  shows "\<exists>b' A'. init_loop idx b = Some b' \<and> buddy_inv b' A' \<and> page_map b' = page_map b \<and>
           totalPages b' = totalPages b \<and>
           (totalPages b \<le> 2 ^ MAX_ORDER \<longrightarrow> (\<forall>p<idx. \<not> GET_MAP (page_map b) p \<longrightarrow> int p < totalPages b \<longrightarrow> cover A p = 1) \<longrightarrow>
              (\<forall>p. \<not> GET_MAP (page_map b) p \<longrightarrow> int p < totalPages b \<longrightarrow> cover A' p = 1))"
  using assms
proof (induction "nat (totalPages b - int idx)" arbitrary: b A idx rule: less_induct)
  case less
  consider (finished) "totalPages b \<le> int idx" | (used) "int idx < totalPages b" "GET_MAP (page_map b) idx"
    | (free) "int idx < totalPages b" "\<not> GET_MAP (page_map b) idx" by fastforce
  then show ?case
  proof cases
    case finished
    then have "init_loop idx b = Some b" by (subst init_loop.simps) simp
    then show ?thesis using less.prems finished by (intro exI [of _ b] exI [of _ A]) (auto simp: buddy_inv_def)
  next
    case used
    have eq: "init_loop idx b = init_loop (idx + 1) b" using used by (subst init_loop.simps) simp
    have "\<forall>p<idx + 1. \<not> GET_MAP (page_map b) p \<longrightarrow> int p < totalPages b \<longrightarrow> cover A p = 1"
      if "\<forall>p<idx. \<not> GET_MAP (page_map b) p \<longrightarrow> int p < totalPages b \<longrightarrow> cover A p = 1"
      using that used(2) by (auto simp: less_Suc_eq)
    then show ?thesis using less.hyps [OF _ less.prems(1-3), of "idx + 1"] used(1) less.prems(4) unfolding eq by force
  next
    case free
    define k where "k = nat (c_log2 (int (scan_free b idx (align_order idx 0) idx) - 1 - int idx + 1))"
    note ib = init_block [OF free, folded k_def]
    obtain b1 A1 where b1: "releaseBlock idx k b = Some b1" "rep b1 A1" "total_ok (totalPages b) A1"
        "page_map b1 = page_map b" "totalPages b1 = totalPages b" "\<And>p. cover A1 p \<le> cover A p + in_block k idx p"
        "(idx div 2 ^ MAX_ORDER * 2 ^ MAX_ORDER) XOR 2 ^ MAX_ORDER \<notin> set (A MAX_ORDER) \<Longrightarrow>
           \<forall>p. cover A1 p = cover A p + in_block k idx p"
      using releaseBlock_inv [OF less.prems(1,2) ib(1-3)] less.prems(4) by blast
    have eq: "init_loop idx b = init_loop (idx + 2 ^ k) b1"
    proof -
      have "nat (c_log2 (int (scan_free b idx (align_order idx 0) idx) - int idx)) = k" by (simp add: k_def)
      then show ?thesis using free b1(1) by (subst init_loop.simps) (simp add: Let_def)
    qed
    have clear: "\<not> GET_MAP (page_map b1) p" if "cover A1 p = 1" for p
      using b1(6) [of p] that less.prems(3) [of p] ib(4) [of p] total_okD [OF less.prems(2), of p]
      by (auto simp: b1(4) in_block_def split: if_splits)
    have above: "cover A1 p = 0" if "idx + 2 ^ k \<le> p" for p
      using b1(6) [of p] that less.prems(4) [of p] by (simp add: in_block_def)
    have full: "\<forall>p<idx + 2 ^ k. \<not> GET_MAP (page_map b1) p \<longrightarrow> int p < totalPages b1 \<longrightarrow> cover A1 p = 1"
      if "totalPages b \<le> 2 ^ MAX_ORDER" "\<forall>p<idx. \<not> GET_MAP (page_map b) p \<longrightarrow> int p < totalPages b \<longrightarrow> cover A p = 1"
      using b1(7) [OF no_loss_small [OF less.prems(2) that(1) free(1)]] that(2) less.prems(4) b1(4,5)
      by (auto simp: in_block_def)
    have "nat (totalPages b1 - int (idx + 2 ^ k)) < nat (totalPages b - int idx)" using free(1) b1(5) by simp
    then obtain b' A' where "init_loop (idx + 2 ^ k) b1 = Some b'" "buddy_inv b' A'" "page_map b' = page_map b1"
        "totalPages b' = totalPages b1"
        "totalPages b1 \<le> 2 ^ MAX_ORDER \<longrightarrow> (\<forall>p<idx + 2 ^ k. \<not> GET_MAP (page_map b1) p \<longrightarrow> int p < totalPages b1 \<longrightarrow> cover A1 p = 1) \<longrightarrow>
              (\<forall>p. \<not> GET_MAP (page_map b1) p \<longrightarrow> int p < totalPages b1 \<longrightarrow> cover A' p = 1)"
      using less.hyps [of b1 "idx + 2 ^ k" A1] b1(2,3,5) clear above by metis
    then show ?thesis using full unfolding eq b1(4,5) by blast
  qed
qed

definition fresh_buddy :: "bytes \<Rightarrow> int \<Rightarrow> Buddy" where
  "fresh_buddy m n = \<lparr>freeBitmap = (\<lambda>_. 0),
     freeNodes = (\<lambda>_. \<lparr>startIndex = 0, order_of = 0, fn_next = None, fn_prev = None\<rparr>),
     freeArea = (\<lambda>_. None), page_map = m, totalPages = n\<rparr>"

lemma cover_empty [simp]: "cover (\<lambda>_. []) p = 0"
  by (simp add: cover_def)

lemma fresh_rep: "rep (fresh_buddy m n) (\<lambda>_. [])" "total_ok n (\<lambda>_. [])"
proof -
  have "lists_ok (fresh_buddy m n) (\<lambda>_. [])"
    by (simp add: lists_ok_def fresh_buddy_def GET_MAP_def)
  then show "rep (fresh_buddy m n) (\<lambda>_. [])" unfolding rep_def starts_def by (intro exI [of _ "\<lambda>_. []"]) simp
  show "total_ok n (\<lambda>_. [])" by (simp add: total_ok_def aligned_def)
qed

lemma fresh_fields [simp]: "page_map (fresh_buddy m n) = m" "totalPages (fresh_buddy m n) = n"
  by (simp_all add: fresh_buddy_def)

text \<open>A pool of four free pages, the example of the witnesses below.\<close>

definition four_pages :: Buddy where
  "four_pages = snd (insert_freeNode 0 2 (fresh_buddy (\<lambda>_. 0) 4))"

lemma four_pages_inv: "buddy_inv four_pages ((\<lambda>_. [])(2 := [0]))"
proof -
  have n: "int (node_count (\<lambda>_. [])) < totalPages (fresh_buddy (\<lambda>_. 0) 4)" by (simp add: node_count_def)
  note ins = insert_freeNode_rep [OF fresh_rep(1) _ n, of 2 0, folded four_pages_def]
  have c: "cover ((\<lambda>_. [])(2 := [0])) p = in_block 2 0 p" for p
    using cover_push [of 2 "\<lambda>_. []" 0 p] by (simp add: MAX_ORDER_def)
  have "aligned ((\<lambda>_. [])(2 := [0]))" by (simp add: aligned_def)
  then show ?thesis unfolding buddy_inv_def total_ok_def c using ins
    by (simp add: MAX_ORDER_def in_block_def GET_MAP_def)
qed

section \<open>Allocation and release as seen by clients\<close>

lemma Buddy_allocate_cases:
  fixes count :: int
  assumes inv: "buddy_inv b A"
  defines "k \<equiv> nat (count2order count)"
  obtains (full) "Buddy_allocate count b = (- 1, b)" "\<forall>j. k \<le> j \<and> j \<le> MAX_ORDER \<longrightarrow> A j = []"
  | (block) s b' A' where "Buddy_allocate count b = (int s, b')" "\<exists>j. k \<le> j \<and> j \<le> MAX_ORDER \<and> A j \<noteq> []"
      "2 ^ k dvd s" "int s + 2 ^ k \<le> totalPages b" "buddy_inv b' A'" "totalPages b' = totalPages b"
      "\<And>p. s \<le> p \<Longrightarrow> p < s + 2 ^ k \<Longrightarrow> cover A p = 1 \<and> \<not> GET_MAP (page_map b) p \<and> cover A' p = 0"
      "\<And>p. \<not> (s \<le> p \<and> p < s + 2 ^ k) \<Longrightarrow> cover A' p = cover A p"
      "\<And>p. GET_MAP (page_map b') p \<longleftrightarrow> GET_MAP (page_map b) p \<or> s \<le> p \<and> p < s + 2 ^ k" "k \<le> MAX_ORDER"
proof -
  have rt: "rep b A" "total_ok (totalPages b) A" and clear: "\<And>p. cover A p = 1 \<Longrightarrow> \<not> GET_MAP (page_map b) p"
    using inv by (auto simp: buddy_inv_def)
  note ref = allocateBlock_refines [OF rt, of k]
  show thesis
  proof (cases "aalloc k A")
    case None
    then have "Buddy_allocate count b = (- 1, b)"
      using ref by (simp add: Buddy_allocate_def k_def [symmetric] Let_def)
    then show thesis using full iffD1 [OF aalloc_none None] by blast
  next
    case (Some sA)
    then obtain s A' where sA: "aalloc k A = Some (s, A')" by (cases sA) auto
    have ex: "\<exists>j. k \<le> j \<and> j \<le> MAX_ORDER \<and> A j \<noteq> []" using aalloc_none [of k A] sA by auto
    have A': "aligned A'" "2 ^ k dvd s" "\<And>p. cover A p = cover A' p + in_block k s p"
      using aalloc_some [OF sA] rt(2) by (auto simp: total_ok_def)
    obtain b1 where b1: "allocateBlock k b = (int s, b1)" "rep b1 A'" "page_map b1 = page_map b" "totalPages b1 = totalPages b"
      using ref sA by (cases "allocateBlock k b") auto
    define b' where "b' = b1\<lparr>page_map := fold (\<lambda>i. SET_MAP (s + i) True) [0..<2 ^ k] (page_map b1)\<rparr>"
    have alloc: "Buddy_allocate count b = (int s, b')"
      using b1(1) by (simp add: Buddy_allocate_def k_def [symmetric] Let_def b'_def)
    have bits: "GET_MAP (page_map b') p \<longleftrightarrow> GET_MAP (page_map b) p \<or> s \<le> p \<and> p < s + 2 ^ k" for p
      by (auto simp: b'_def GET_fold_SET_MAP b1(3))
    have inb: "cover A p = 1 \<and> \<not> GET_MAP (page_map b) p \<and> cover A' p = 0" if "s \<le> p" "p < s + 2 ^ k" for p
      using A'(3) [of p] total_okD [OF rt(2), of p] clear [of p] that by (simp add: in_block_def)
    have outb: "cover A' p = cover A p" if "\<not> (s \<le> p \<and> p < s + 2 ^ k)" for p
      using A'(3) [of p] that by (simp add: in_block_def)
    have pool: "int s + 2 ^ k \<le> totalPages b"
      using inb total_okD [OF rt(2)] by (intro block_in_pool) blast
    have "rep b' A'" using b1(2) by (simp add: rep_def lists_ok_def starts_def b'_def)
    moreover have "total_ok (totalPages b) A'" using total_ok_le [OF rt(2) A'(1)] A'(3) by simp
    moreover have "\<not> GET_MAP (page_map b') p" if "cover A' p = 1" for p
      using clear [of p] that inb [of p] outb [of p] by (cases "s \<le> p \<and> p < s + 2 ^ k") (auto simp: bits)
    moreover have tp: "totalPages b' = totalPages b" by (simp add: b'_def b1(4))
    ultimately have "buddy_inv b' A'" by (simp add: buddy_inv_def)
    moreover have "k \<le> MAX_ORDER" using ex by auto
    ultimately show thesis using block [OF alloc ex A'(2) pool _ tp inb outb bits] by blast
  qed
qed

lemma Buddy_release_cases:
  fixes count :: int and index :: nat
  assumes inv: "buddy_inv b A"
  defines "k \<equiv> nat (count2order count)"
  assumes k: "k \<le> MAX_ORDER" and al: "2 ^ k dvd index" and pool: "int index + 2 ^ k \<le> totalPages b"
    and taken: "\<And>p. index \<le> p \<Longrightarrow> p < index + 2 ^ k \<Longrightarrow> cover A p = 0"
  obtains b' A' where "Buddy_release index count b = Some b'" "buddy_inv b' A'" "totalPages b' = totalPages b"
     "\<And>p. GET_MAP (page_map b') p \<longleftrightarrow> GET_MAP (page_map b) p \<and> \<not> (index \<le> p \<and> p < index + 2 ^ k)"
     "(index div 2 ^ MAX_ORDER * 2 ^ MAX_ORDER) XOR 2 ^ MAX_ORDER \<notin> set (A MAX_ORDER) \<Longrightarrow>
       \<forall>p. cover A' p = (if index \<le> p \<and> p < index + 2 ^ k then 1 else cover A p)"
     "\<And>p. cover A' p \<le> (if index \<le> p \<and> p < index + 2 ^ k then 1 else cover A p)"
proof -
  have rt: "rep b A" "total_ok (totalPages b) A" and clear: "\<And>p. cover A p = 1 \<Longrightarrow> \<not> GET_MAP (page_map b) p"
    using inv by (auto simp: buddy_inv_def)
  obtain b1 A' where b1: "releaseBlock index k b = Some b1" "rep b1 A'" "total_ok (totalPages b) A'"
      "page_map b1 = page_map b" "totalPages b1 = totalPages b" "\<And>p. cover A' p \<le> cover A p + in_block k index p"
      "(index div 2 ^ MAX_ORDER * 2 ^ MAX_ORDER) XOR 2 ^ MAX_ORDER \<notin> set (A MAX_ORDER) \<Longrightarrow>
         \<forall>p. cover A' p = cover A p + in_block k index p"
    using releaseBlock_inv [OF rt k al pool taken] by metis
  define b' where "b' = b1\<lparr>page_map := fold (\<lambda>i. SET_MAP (index + i) False) [0..<2 ^ k] (page_map b1)\<rparr>"
  have rel: "Buddy_release index count b = Some b'"
    using b1(1) by (simp add: Buddy_release_def k_def [symmetric] b'_def)
  have bits: "GET_MAP (page_map b') p \<longleftrightarrow> GET_MAP (page_map b) p \<and> \<not> (index \<le> p \<and> p < index + 2 ^ k)" for p
    by (auto simp: b'_def GET_fold_SET_MAP b1(4))
  have "rep b' A'" using b1(2) by (simp add: rep_def lists_ok_def starts_def b'_def)
  moreover have "\<not> GET_MAP (page_map b') p" if "cover A' p = 1" for p
    using b1(6) [of p] that clear [of p] total_okD [OF rt(2), of p] by (auto simp: bits in_block_def split: if_splits)
  moreover have tp: "totalPages b' = totalPages b" by (simp add: b'_def b1(5))
  ultimately have "buddy_inv b' A'" using b1(3) by (simp add: buddy_inv_def)
  moreover have "\<forall>p. cover A' p = (if index \<le> p \<and> p < index + 2 ^ k then 1 else cover A p)"
    if "(index div 2 ^ MAX_ORDER * 2 ^ MAX_ORDER) XOR 2 ^ MAX_ORDER \<notin> set (A MAX_ORDER)"
    using b1(7) [OF that] taken by (simp add: in_block_def)
  moreover have "cover A' p \<le> (if index \<le> p \<and> p < index + 2 ^ k then 1 else cover A p)" for p
    using b1(6) [of p] taken [of p] by (auto simp: in_block_def split: if_splits)
  ultimately show thesis using that [OF rel _ tp bits] by blast
qed

section \<open>Properties\<close>

text \<open>
  \<^bold>\<open>C3\<close>: \<^verbatim>\<open>Buddy::allocate\<close> on a well-formed allocator.  It fails, and then changes
  nothing, exactly when no block of a sufficient order is free; otherwise it returns the start of
  an aligned block of the least power of two that holds \<open>count\<close> pages, inside the pool, all of whose
  pages were free and clear.  The block leaves the free lists, every other page stays as it was, the
  block's bits are set, and the allocator is well formed again.
\<close>

theorem Buddy_allocate_correct:
  assumes inv: "buddy_inv b A" and "0 < count"
  defines "k \<equiv> nat (count2order count)"
  shows "(count \<le> 2 ^ k \<and> (\<forall>j<k. 2 ^ j < count)) \<and>
    ((\<forall>j. k \<le> j \<and> j \<le> MAX_ORDER \<longrightarrow> A j = []) \<longrightarrow> Buddy_allocate count b = (- 1, b)) \<and>
    (\<not> (\<forall>j. k \<le> j \<and> j \<le> MAX_ORDER \<longrightarrow> A j = []) \<longrightarrow>
      (\<exists>s b' A'. Buddy_allocate count b = (int s, b') \<and> 2 ^ k dvd s \<and> int s + 2 ^ k \<le> totalPages b \<and>
        buddy_inv b' A' \<and> totalPages b' = totalPages b \<and>
        (\<forall>p. s \<le> p \<and> p < s + 2 ^ k \<longrightarrow> cover A p = 1 \<and> \<not> GET_MAP (page_map b) p \<and> cover A' p = 0) \<and>
        (\<forall>p. \<not> (s \<le> p \<and> p < s + 2 ^ k) \<longrightarrow> cover A' p = cover A p) \<and>
        (\<forall>p. GET_MAP (page_map b') p \<longleftrightarrow> GET_MAP (page_map b) p \<or> s \<le> p \<and> p < s + 2 ^ k)))"
proof (rule conjI [OF _ conjI [OF impI impI]])
  show "count \<le> 2 ^ k \<and> (\<forall>j<k. 2 ^ j < count)"
    using count2order_least [OF assms(2)] by (simp add: k_def)
  show "Buddy_allocate count b = (- 1, b)" if "\<forall>j. k \<le> j \<and> j \<le> MAX_ORDER \<longrightarrow> A j = []"
    using that by (cases rule: Buddy_allocate_cases [OF inv, of count, folded k_def]) blast+
  assume "\<not> (\<forall>j. k \<le> j \<and> j \<le> MAX_ORDER \<longrightarrow> A j = [])"
  then show "\<exists>s b' A'. Buddy_allocate count b = (int s, b') \<and> 2 ^ k dvd s \<and> int s + 2 ^ k \<le> totalPages b \<and>
        buddy_inv b' A' \<and> totalPages b' = totalPages b \<and>
        (\<forall>p. s \<le> p \<and> p < s + 2 ^ k \<longrightarrow> cover A p = 1 \<and> \<not> GET_MAP (page_map b) p \<and> cover A' p = 0) \<and>
        (\<forall>p. \<not> (s \<le> p \<and> p < s + 2 ^ k) \<longrightarrow> cover A' p = cover A p) \<and>
        (\<forall>p. GET_MAP (page_map b') p \<longleftrightarrow> GET_MAP (page_map b) p \<or> s \<le> p \<and> p < s + 2 ^ k)"
    by (cases rule: Buddy_allocate_cases [OF inv, of count, folded k_def]) blast+
qed

lemma count2order_3: "nat (count2order 3) = 2"
  by (simp add: count2order_def c_log2_def log2_loop.simps)

theorem Buddy_allocate_correct_witness:
  "\<exists>s b' A'. Buddy_allocate 3 four_pages = (int s, b') \<and> 2 ^ 2 dvd s \<and> int s + 2 ^ 2 \<le> 4 \<and> buddy_inv b' A' \<and>
     (\<forall>p. s \<le> p \<and> p < s + 2 ^ 2 \<longrightarrow> cover A' p = 0)"
proof -
  have "totalPages four_pages = 4"
    using insert_freeNode_rep(4) [OF fresh_rep(1), of 2 "\<lambda>_. 0" 4 0]
    by (simp add: four_pages_def MAX_ORDER_def node_count_def)
  moreover have "\<not> (\<forall>j. 2 \<le> j \<and> j \<le> MAX_ORDER \<longrightarrow> ((\<lambda>_. [])(2 := [0::nat])) j = [])"
    by (auto simp: MAX_ORDER_def intro: exI [of _ 2])
  ultimately show ?thesis
    using Buddy_allocate_correct [OF four_pages_inv, of 3, unfolded count2order_3, THEN conjunct2, THEN conjunct2] by auto
qed

text \<open>
  \<^bold>\<open>C4\<close>: \<^verbatim>\<open>Buddy::release\<close> of an aligned block inside the pool none of whose pages is
  free returns, keeps the allocator well formed and clears the bits of the block.  It makes exactly
  the pages of the block free in addition, whatever merging happens, unless the buddy of the
  enclosing block of the largest order is free as well.
\<close>

theorem Buddy_release_correct:
  fixes count :: int and index :: nat
  assumes inv: "buddy_inv b A"
  defines "k \<equiv> nat (count2order count)"
  assumes k: "k \<le> MAX_ORDER" and al: "2 ^ k dvd index" and pool: "int index + 2 ^ k \<le> totalPages b"
    and taken: "\<And>p. index \<le> p \<Longrightarrow> p < index + 2 ^ k \<Longrightarrow> cover A p = 0"
  shows "\<exists>b' A'. Buddy_release index count b = Some b' \<and> buddy_inv b' A' \<and> totalPages b' = totalPages b \<and>
     (\<forall>p. GET_MAP (page_map b') p \<longleftrightarrow> GET_MAP (page_map b) p \<and> \<not> (index \<le> p \<and> p < index + 2 ^ k)) \<and>
     ((index div 2 ^ MAX_ORDER * 2 ^ MAX_ORDER) XOR 2 ^ MAX_ORDER \<notin> set (A MAX_ORDER) \<longrightarrow>
       (\<forall>p. cover A' p = (if index \<le> p \<and> p < index + 2 ^ k then 1 else cover A p)))"
proof (rule Buddy_release_cases [OF inv, where count = count and index = index, folded k_def])
  show "k \<le> MAX_ORDER" "2 ^ k dvd index" "int index + 2 ^ k \<le> totalPages b" by (fact k al pool)+
  show "cover A p = 0" if "index \<le> p" "p < index + 2 ^ k" for p using taken that .
qed blast

text \<open>Releasing the second of two one-page blocks of a pool of two pages.\<close>

definition half_pair :: Buddy where
  "half_pair = snd (insert_freeNode 0 0 (fresh_buddy (\<lambda>_. 2) 2))"

lemma half_pair_inv: "buddy_inv half_pair ((\<lambda>_. [])(0 := [0]))" "totalPages half_pair = 2"
    "cover ((\<lambda>_. [])(0 := [0])) p = in_block 0 0 p"
proof -
  have n: "int (node_count (\<lambda>_. [])) < totalPages (fresh_buddy (\<lambda>_. 2) 2)" by (simp add: node_count_def)
  note ins = insert_freeNode_rep [OF fresh_rep(1) _ n, of 0 0, folded half_pair_def]
  show c: "cover ((\<lambda>_. [])(0 := [0])) p = in_block 0 0 p" for p
    using cover_push [of 0 "\<lambda>_. []" 0 p] by (simp add: MAX_ORDER_def)
  have "aligned ((\<lambda>_. [])(0 := [0]))" by (simp add: aligned_def)
  then show "buddy_inv half_pair ((\<lambda>_. [])(0 := [0]))" unfolding buddy_inv_def total_ok_def c using ins
    by (simp add: in_block_def GET_MAP_def byte_test_def)
  show "totalPages half_pair = 2" using ins by simp
qed

theorem Buddy_release_correct_witness:
  "\<exists>b' A'. Buddy_release 1 1 half_pair = Some b' \<and> buddy_inv b' A' \<and> (\<forall>p<2. cover A' p = 1 \<and> \<not> GET_MAP (page_map b') p)"
proof -
  have o: "nat (count2order 1) = 0" by (simp add: count2order_def c_log2_def)
  obtain b' A' where *: "Buddy_release 1 1 half_pair = Some b'" "buddy_inv b' A'"
      "\<forall>p. GET_MAP (page_map b') p \<longleftrightarrow> GET_MAP (page_map half_pair) p \<and> \<not> (1 \<le> p \<and> p < 1 + 2 ^ 0)"
      "\<forall>p. cover A' p = (if 1 \<le> p \<and> p < 1 + 2 ^ 0 then 1 else cover ((\<lambda>_. [])(0 := [0])) p)"
    using Buddy_release_correct [OF half_pair_inv(1), where count = 1 and index = 1, unfolded o half_pair_inv(2)]
    by (auto simp: half_pair_inv(3) in_block_def MAX_ORDER_def)
  have "cover A' p = 1" if "p < 2" for p
    using *(4) that by (auto simp: half_pair_inv(3) in_block_def)
  moreover from this have "\<not> GET_MAP (page_map b') p" if "p < 2" for p
    using *(2) that by (simp add: buddy_inv_def)
  ultimately show ?thesis using *(1,2) by blast
qed

text \<open>
  \<^bold>\<open>C5\<close>: \<^verbatim>\<open>Buddy::initialize\<close> over cleared tables returns a well-formed
  allocator for any page map, and for a pool of at most 1024 pages exactly the clear pages are free.
\<close>

theorem Buddy_initialize_correct:
  "\<exists>b A. Buddy_initialize m n (\<lambda>_. 0) (freeNodes (fresh_buddy m n)) (\<lambda>_. None) = Some b \<and> buddy_inv b A \<and>
     page_map b = m \<and> totalPages b = n \<and>
     (n \<le> 1024 \<longrightarrow> (\<forall>p. cover A p = (if int p < n \<and> \<not> GET_MAP m p then 1 else 0)))"
proof -
  have start: "Buddy_initialize m n (\<lambda>_. 0) (freeNodes (fresh_buddy m n)) (\<lambda>_. None) = init_loop 0 (fresh_buddy m n)"
    by (simp add: Buddy_initialize_def fresh_buddy_def)
  obtain b A where b: "init_loop 0 (fresh_buddy m n) = Some b" "buddy_inv b A" "page_map b = m" "totalPages b = n"
      "n \<le> 2 ^ MAX_ORDER \<longrightarrow> (\<forall>p. \<not> GET_MAP m p \<longrightarrow> int p < n \<longrightarrow> cover A p = 1)"
    using init_loop_inv [OF fresh_rep(1), of m n 0] fresh_rep(2) by auto
  have "cover A p = (if int p < n \<and> \<not> GET_MAP m p then 1 else 0)" if "n \<le> 1024" for p
  proof (cases "int p < n \<and> \<not> GET_MAP m p")
    case True
    then show ?thesis using b(5) that by (simp add: MAX_ORDER_def)
  next
    case False
    have "total_ok n A" "cover A p = 1 \<longrightarrow> \<not> GET_MAP m p" using b(2,3,4) by (auto simp: buddy_inv_def)
    then show ?thesis using False total_okD [of n A p] by auto
  qed
  then show ?thesis using start b by auto
qed

theorem Buddy_initialize_correct_witness:
  "\<exists>b A. Buddy_initialize (\<lambda>_. 1) 8 (\<lambda>_. 0) (freeNodes (fresh_buddy (\<lambda>_. 1) 8)) (\<lambda>_. None) = Some b \<and> buddy_inv b A \<and>
     cover A 0 = 0 \<and> cover A 5 = 1"
proof -
  obtain b A where *: "Buddy_initialize (\<lambda>_. 1) 8 (\<lambda>_. 0) (freeNodes (fresh_buddy (\<lambda>_. 1) 8)) (\<lambda>_. None) = Some b"
      "buddy_inv b A" "\<forall>p. cover A p = (if int p < 8 \<and> \<not> GET_MAP (\<lambda>_. 1) p then 1 else 0)"
    using Buddy_initialize_correct [of "\<lambda>_. 1" 8] by auto
  moreover have "cover A 0 = 0" "cover A 5 = 1" by (simp_all add: *(3) GET_MAP_def byte_test_def)
  ultimately show ?thesis by blast
qed

text \<open>
  The loop of \<^verbatim>\<open>releaseBlock\<close> runs while \<^verbatim>\<open>order < MAX_ORDER + 1\<close>, so two free
  blocks of the largest order are merged too, and the result is filed under the largest order.
\<close>

lemma scan_free_all:
  "i \<le> st + 2 ^ m \<Longrightarrow> int (st + 2 ^ m) \<le> totalPages b \<Longrightarrow> (\<And>p. \<not> GET_MAP (page_map b) p) \<Longrightarrow>
     scan_free b st m i = st + 2 ^ m"
proof (induction "st + 2 ^ m - i" arbitrary: i)
  case 0
  then have "i = st + 2 ^ m" by simp
  then show ?case by (subst scan_free.simps) simp
next
  case (Suc x)
  then have lt: "i < st + 2 ^ m" by simp
  then have "int i < int (st + 2 ^ m)" by (simp only: of_nat_less_iff)
  then have "scan_free b st m i = scan_free b st m (i + 1)"
    using Suc.prems by (subst scan_free.simps) simp
  then show ?case using Suc lt by simp
qed

lemma init_step_full:
  assumes "\<And>p. \<not> GET_MAP (page_map b) p" and "int (idx + 2 ^ align_order idx 0) \<le> totalPages b"
  shows "init_loop idx b = Option.bind (releaseBlock idx (align_order idx 0) b) (init_loop (idx + 2 ^ align_order idx 0))"
proof -
  define a where "a = align_order idx 0"
  have "scan_free b idx a idx = idx + 2 ^ a" using assms by (intro scan_free_all) (simp_all add: a_def)
  moreover have "int idx < totalPages b"
  proof -
    have "int idx < int (idx + 2 ^ a)" by simp
    then show ?thesis using assms(2) unfolding a_def by linarith
  qed
  moreover have "nat (c_log2 (2 ^ a)) = a"
  proof -
    obtain k where k: "log2_loop (2 ^ a) 0 = int k" "(2::int) ^ k \<le> 2 ^ a" "(2::int) ^ a < 2 ^ (k + 1)"
      using log2_loop_bounds [of "2 ^ a" 0] by auto
    then have "k \<le> a" "a < k + 1" by (simp_all only: power_increasing_iff power_strict_increasing_iff one_less_numeral_iff semiring_norm)
    then show ?thesis using k(1) by (simp add: c_log2_def)
  qed
  ultimately show ?thesis using assms(1) by (subst init_loop.simps) (simp add: a_def [symmetric] Let_def)
qed

lemma align_0: "align_order 0 0 = 10" and align_1024: "align_order 1024 0 = 10"
  by (simp_all add: align_order.simps MAX_ORDER_def)

text \<open>
  Initialising the allocator over 2048 free pages leaves only 1024 of them free: the
  second block of 1024 pages is merged with the first into a block of twice the size, which is
  entered as a block of 1024 pages.
\<close>

theorem Buddy_initialize_loses_pages:
  "\<exists>b A. Buddy_initialize (\<lambda>_. 0) 2048 (\<lambda>_. 0) (freeNodes (fresh_buddy (\<lambda>_. 0) 2048)) (\<lambda>_. None) = Some b \<and>
     buddy_inv b A \<and> (\<forall>p. \<not> GET_MAP (page_map b) p) \<and> (\<forall>p. cover A p = (if p < 1024 then 1 else 0))"
proof -
  define b0 where "b0 = fresh_buddy (\<lambda>_. 0) 2048"
  have free: "\<not> GET_MAP (\<lambda>_. 0) p" for p by (simp add: GET_MAP_def)
  have f0: "page_map b0 = (\<lambda>_. 0)" "totalPages b0 = 2048" "rep b0 (\<lambda>_. [])" "total_ok (totalPages b0) (\<lambda>_. [])"
    using fresh_rep by (simp_all add: b0_def)
  have am0: "amerge (page_map b0) (\<lambda>_. []) 0 10 = (\<lambda>_. [], 0, 10)"
    by (subst amerge.simps) simp
  let ?A = "(\<lambda>_. [])(10 := [0])"
  have sz: "(10::nat) \<le> MAX_ORDER" "min 10 MAX_ORDER = 10" "min 11 MAX_ORDER = 10" by (simp_all add: MAX_ORDER_def)
  obtain b1 where b1: "releaseBlock 0 10 b0 = Some b1" "rep b1 ?A" "page_map b1 = (\<lambda>_. 0)" "totalPages b1 = 2048"
    and ok1: "total_ok 2048 ?A" and c1: "\<And>p. cover ?A p = in_block 10 0 p"
    using releaseBlock_ok [OF f0(3,4) sz(1) _ _ _ am0] by (auto simp: sz f0)
  have am1: "amerge (page_map b1) ?A 1024 10 = ((\<lambda>_. [])(10 := []), 0, 11)"
    by (subst amerge.simps, subst amerge.simps) (auto simp: b1(3) free MAX_ORDER_def fun_eq_iff)
  have t1: "cover ?A p = 0" if "1024 \<le> p" for p using that by (simp add: c1 in_block_def del: fun_upd_apply)
  have p1: "total_ok (totalPages b1) ?A" "int 1024 + 2 ^ 10 \<le> totalPages b1" "(2::nat) ^ 10 dvd 1024"
    using ok1 b1(4) by simp_all
  note r2 = releaseBlock_ok [OF b1(2) p1(1) sz(1) p1(3,2) t1 am1, unfolded sz]
  have A2: "((\<lambda>_. [])(10 := []))(10 := 0 # ((\<lambda>_. [])(10 := [])) 10) = ?A" by (simp add: fun_upd_def)
  obtain b2 where b2: "releaseBlock 1024 10 b1 = Some b2" "rep b2 ?A" "page_map b2 = (\<lambda>_. 0)" "totalPages b2 = 2048"
    using r2(1) unfolding A2 b1(3,4) by blast
  have "init_loop 0 b0 = init_loop 1024 b1"
    using init_step_full [of b0 0] by (simp add: align_0 f0 free b1(1))
  also have "\<dots> = init_loop 2048 b2"
    using init_step_full [of b1 1024] by (simp add: align_1024 b1 free b2(1))
  also have "\<dots> = Some b2" by (subst init_loop.simps) (simp add: b2(4))
  finally have "Buddy_initialize (\<lambda>_. 0) 2048 (\<lambda>_. 0) (freeNodes (fresh_buddy (\<lambda>_. 0) 2048)) (\<lambda>_. None) = Some b2"
    by (simp add: Buddy_initialize_def fresh_buddy_def b0_def)
  moreover have "buddy_inv b2 ?A" using b2 ok1 free by (simp add: buddy_inv_def)
  moreover have "cover ?A p = (if p < 1024 then 1 else 0)" for p unfolding c1 by (simp add: in_block_def)
  ultimately show ?thesis using b2(3) free by (intro exI [of _ b2] exI [of _ ?A]) auto
qed

text \<open>
  \<^verbatim>\<open>Buddy::isAlloc\<close> masks the selected bit with 1 after the test, so it
  answers for a page only when the page is the first of its group of eight.
\<close>

theorem Buddy_isAlloc_first_of_eight:
  "Buddy_isAlloc b idx \<longleftrightarrow> unat idx mod 8 = 0 \<and> GET_MAP (page_map b) (unat idx)"
proof -
  have m: "unat (idx AND 7) = unat idx mod 8"
  proof -
    have "idx AND 7 = take_bit 3 idx" by (simp add: take_bit_eq_mask mask_numeral)
    then have "unat (idx AND 7) = take_bit 3 (unat idx)" by (simp only: unsigned_take_bit_eq)
    then show ?thesis by (simp add: take_bit_eq_mod)
  qed
  have "unat (drop_bit 3 idx) = drop_bit 3 (unat idx)" by (simp only: unat_drop_bit_eq)
  then have d: "unat (drop_bit 3 idx) = unat idx div 8" by (simp add: drop_bit_eq_div)
  have "(w AND push_bit k 1) AND 1 \<noteq> 0 \<longleftrightarrow> k = 0 \<and> bit w 0" if "k < 8" for w :: u8 and k
  proof -
    have "(w AND push_bit k 1) AND push_bit 0 1 \<noteq> 0 \<longleftrightarrow> bit (w AND push_bit k 1) 0"
      by (subst and_push_bit_1_eq_0_iff) simp_all
    also have "\<dots> \<longleftrightarrow> bit w 0 \<and> bit (push_bit k (1::u8)) 0" by (rule bit_and_iff)
    also have "bit (push_bit k (1::u8)) 0 \<longleftrightarrow> k = 0" by (simp only: bit_push_bit_iff) auto
    finally show ?thesis by simp blast
  qed
  then show ?thesis unfolding Buddy_isAlloc_def m d GET_MAP_def by (auto simp: byte_test_bit)
qed

end
