(* ===== verification/Address_Pool.thy ===== *)
theory Address_Pool
  imports Page_Info Buddy
begin

text \<open>
  The address pools of \<^verbatim>\<open>src/kernel/address_pool.cpp\<close>.  A virtual pool hands out runs of pages of a
  fixed address range through a bitmap and records the privilege of each page; a process has four of
  them and three fixed segments (\<^verbatim>\<open>UserVAddressPool\<close>); a physical pool hands out page frames through
  the buddy allocator and chooses victims for eviction.  An address that the code returns as an
  \<^verbatim>\<open>int\<close> is its 32-bit pattern, so the failure value \<open>- 1\<close> is the largest word.
\<close>

section \<open>Virtual pools\<close>

record VAddressPool =
  va_length :: int
  va_resources :: BitMap
  va_startAddress :: u32
  va_endAddress :: u32
  va_privileges :: "nat \<Rightarrow> u8"
  va_isStatic :: bool
  va_static_privilege :: u8

text \<open>The caller passes zeroed privilege storage for a dynamic pool, none for a static one.\<close>

definition VAddressPool_initialize ::
    "bytes \<Rightarrow> int \<Rightarrow> u32 \<Rightarrow> u32 \<Rightarrow> (nat \<Rightarrow> u8) option \<Rightarrow> u8 \<Rightarrow> bool \<Rightarrow> VAddressPool option" where
  "VAddressPool_initialize bm len start stop privs static_priv is_static = do {
     ASSERT (len \<noteq> 0);
     ASSERT (word_of_int len = (stop - start + 1) div PAGE_SIZE);
     ASSERT (is_static \<longrightarrow> privs = None);
     Some \<lparr>va_length = len, va_resources = BitMap_initialize bm len, va_startAddress = start, va_endAddress = stop,
       va_privileges = (case privs of None \<Rightarrow> \<lambda>_. 0 | Some f \<Rightarrow> f), va_isStatic = is_static,
       va_static_privilege = static_priv\<rparr>
   }"

text \<open>Initialisation from a parent pool (fork): geometry and kind are copied, the map starts empty.\<close>

definition VAddressPool_clone :: "VAddressPool \<Rightarrow> bytes \<Rightarrow> (nat \<Rightarrow> u8) option \<Rightarrow> VAddressPool option" where
  "VAddressPool_clone parent bm privs = do {
     ASSERT (va_length parent \<noteq> 0);
     ASSERT (va_isStatic parent \<longrightarrow> privs = None);
     Some \<lparr>va_length = va_length parent, va_resources = BitMap_initialize bm (va_length parent),
       va_startAddress = va_startAddress parent, va_endAddress = va_endAddress parent,
       va_privileges = (case privs of None \<Rightarrow> \<lambda>_. 0 | Some f \<Rightarrow> f),
       va_isStatic = va_isStatic parent, va_static_privilege = va_static_privilege parent\<rparr>
   }"

definition VAddressPool_allocate :: "VAddressPool \<Rightarrow> int \<Rightarrow> u8 \<Rightarrow> bool \<Rightarrow> (u32 \<times> VAddressPool) option" where
  "VAddressPool_allocate v count privilege reverse = do {
     (start, b) \<leftarrow> BitMap_allocate (va_resources v) count reverse;
     let v = v\<lparr>va_resources := b\<rparr>;
     if start \<noteq> - 1 then do {
       let v = (if \<not> va_isStatic v
                then v\<lparr>va_privileges := fold (\<lambda>i f. f(nat start + i := privilege)) [0..<nat count] (va_privileges v)\<rparr>
                else v);
       Some (word_of_int start * PAGE_SIZE + va_startAddress v, v)
     }
     else Some (- 1, v)
   }"

definition VAddressPool_release :: "u32 \<Rightarrow> int \<Rightarrow> VAddressPool \<Rightarrow> VAddressPool" where
  "VAddressPool_release address count v =
     (let start = unat ((address - va_startAddress v) div PAGE_SIZE);
          v = v\<lparr>va_resources := BitMap_release start count (va_resources v)\<rparr>
      in if \<not> va_isStatic v
         then v\<lparr>va_privileges := fold (\<lambda>i f. f(start + i := VP_CLEAR)) [0..<nat count] (va_privileges v)\<rparr>
         else v)"

definition VAddressPool_isValidAddr :: "VAddressPool \<Rightarrow> u32 \<Rightarrow> bool" where
  "VAddressPool_isValidAddr v vaddr \<longleftrightarrow> va_startAddress v \<le> vaddr \<and> vaddr \<le> va_endAddress v"

definition VAddressPool_getVPageFlag :: "VAddressPool \<Rightarrow> u32 \<Rightarrow> u8 option" where
  "VAddressPool_getVPageFlag v vaddr =
     (if va_isStatic v then Some (va_static_privilege v)
      else do {
        ASSERT (VAddressPool_isValidAddr v vaddr);
        let idx = unat (((vaddr AND NOT 0xfff) - va_startAddress v) div PAGE_SIZE);
        ASSERT (BitMap_get (va_resources v) idx);
        Some (va_privileges v idx)
      })"

section \<open>The pools of a process\<close>

datatype UserSegment = TEXT | DATA | BSS | MMAP | TLS | HEAP | STACK | EMPTY

record Boundary =
  b_start :: u32
  b_end :: u32

definition Boundary_isValidAddr :: "Boundary \<Rightarrow> u32 \<Rightarrow> bool" where
  "Boundary_isValidAddr b addr \<longleftrightarrow> b_start b \<le> addr \<and> addr \<le> b_end b"

record SegBoundary =
  seg_text :: Boundary
  seg_data :: Boundary
  seg_bss :: Boundary

record UserVAddressPool =
  segBoundary :: SegBoundary
  heapPool :: VAddressPool
  stackPool :: VAddressPool
  mmapPool :: VAddressPool
  TLSPool :: VAddressPool
  bitmapStart :: u32
  privStart :: u32
  bitmapPage :: u32
  privPage :: u32
  uva_owner :: u16
  isInitialized :: bool

definition UserVAddressPool_allocate ::
    "UserVAddressPool \<Rightarrow> UserSegment \<Rightarrow> u32 \<Rightarrow> u8 \<Rightarrow> bool \<Rightarrow> (u32 \<times> UserVAddressPool) option" where
  "UserVAddressPool_allocate u seg count privilege reverse =
     (case seg of
        HEAP \<Rightarrow> do { (a, v) \<leftarrow> VAddressPool_allocate (heapPool u) (sint count) VP_CLEAR False; Some (a, u\<lparr>heapPool := v\<rparr>) }
      | STACK \<Rightarrow> do { (a, v) \<leftarrow> VAddressPool_allocate (stackPool u) (sint count) VP_CLEAR True; Some (a, u\<lparr>stackPool := v\<rparr>) }
      | TLS \<Rightarrow> do { (a, v) \<leftarrow> VAddressPool_allocate (TLSPool u) (sint count) privilege reverse; Some (a, u\<lparr>TLSPool := v\<rparr>) }
      | MMAP \<Rightarrow> do { (a, v) \<leftarrow> VAddressPool_allocate (mmapPool u) (sint count) privilege reverse; Some (a, u\<lparr>mmapPool := v\<rparr>) }
      | _ \<Rightarrow> Some (- 1, u))"

definition UserVAddressPool_release :: "UserSegment \<Rightarrow> u32 \<Rightarrow> u32 \<Rightarrow> UserVAddressPool \<Rightarrow> UserVAddressPool" where
  "UserVAddressPool_release seg vaddr count u =
     (case seg of
        HEAP \<Rightarrow> u\<lparr>heapPool := VAddressPool_release vaddr (sint count) (heapPool u)\<rparr>
      | STACK \<Rightarrow> u\<lparr>stackPool := VAddressPool_release vaddr (sint count) (stackPool u)\<rparr>
      | TLS \<Rightarrow> u\<lparr>TLSPool := VAddressPool_release vaddr (sint count) (TLSPool u)\<rparr>
      | MMAP \<Rightarrow> u\<lparr>mmapPool := VAddressPool_release vaddr (sint count) (mmapPool u)\<rparr>
      | _ \<Rightarrow> u)"

definition UserVAddressPool_getVPageFlag :: "UserVAddressPool \<Rightarrow> UserSegment \<Rightarrow> u32 \<Rightarrow> u8 option" where
  "UserVAddressPool_getVPageFlag u seg vaddr =
     (case seg of
        TEXT \<Rightarrow> Some VP_USER
      | DATA \<Rightarrow> Some (VP_RW OR VP_USER)
      | BSS \<Rightarrow> Some (VP_RW OR VP_USER)
      | HEAP \<Rightarrow> VAddressPool_getVPageFlag (heapPool u) vaddr
      | STACK \<Rightarrow> VAddressPool_getVPageFlag (stackPool u) vaddr
      | TLS \<Rightarrow> VAddressPool_getVPageFlag (TLSPool u) vaddr
      | MMAP \<Rightarrow> VAddressPool_getVPageFlag (mmapPool u) vaddr
      | EMPTY \<Rightarrow> None)"

definition UserVAddressPool_getBoundary :: "UserVAddressPool \<Rightarrow> UserSegment \<Rightarrow> Boundary option" where
  "UserVAddressPool_getBoundary u seg =
     (case seg of
        TEXT \<Rightarrow> Some (seg_text (segBoundary u))
      | DATA \<Rightarrow> Some (seg_data (segBoundary u))
      | BSS \<Rightarrow> Some (seg_bss (segBoundary u))
      | HEAP \<Rightarrow> Some \<lparr>b_start = va_startAddress (heapPool u), b_end = va_endAddress (heapPool u)\<rparr>
      | STACK \<Rightarrow> Some \<lparr>b_start = va_startAddress (stackPool u), b_end = va_endAddress (stackPool u)\<rparr>
      | TLS \<Rightarrow> Some \<lparr>b_start = va_startAddress (TLSPool u), b_end = va_endAddress (TLSPool u)\<rparr>
      | MMAP \<Rightarrow> Some \<lparr>b_start = va_startAddress (mmapPool u), b_end = va_endAddress (mmapPool u)\<rparr>
      | EMPTY \<Rightarrow> None)"

definition UserVAddressPool_vaddr2Seg :: "UserVAddressPool \<Rightarrow> u32 \<Rightarrow> UserSegment" where
  "UserVAddressPool_vaddr2Seg u vaddr =
     (if Boundary_isValidAddr (seg_text (segBoundary u)) vaddr then TEXT
      else if Boundary_isValidAddr (seg_data (segBoundary u)) vaddr then DATA
      else if Boundary_isValidAddr (seg_bss (segBoundary u)) vaddr then BSS
      else if VAddressPool_isValidAddr (heapPool u) vaddr then HEAP
      else if VAddressPool_isValidAddr (stackPool u) vaddr then STACK
      else if VAddressPool_isValidAddr (TLSPool u) vaddr then TLS
      else if VAddressPool_isValidAddr (mmapPool u) vaddr then MMAP
      else EMPTY)"

section \<open>Physical pools\<close>

record PAddressPool =
  pa_resources :: Buddy
  pa_startAddress :: u32
  victim_idx :: u32
  pa_length :: u32

definition PAddressPool_initialize ::
    "bytes \<Rightarrow> int \<Rightarrow> u32 \<Rightarrow> bytes \<Rightarrow> (nat \<Rightarrow> FreeNode) \<Rightarrow> (nat \<Rightarrow> nat option) \<Rightarrow> PAddressPool option" where
  "PAddressPool_initialize bm len start freeBm nodes area = do {
     b \<leftarrow> Buddy_initialize bm len freeBm nodes area;
     Some \<lparr>pa_resources = b, pa_startAddress = start, victim_idx = 0, pa_length = word_of_int len\<rparr>
   }"

definition PAddressPool_allocate :: "int \<Rightarrow> PAddressPool \<Rightarrow> u32 \<times> PAddressPool" where
  "PAddressPool_allocate count p =
     (let (start, b) = Buddy_allocate count (pa_resources p); p = p\<lparr>pa_resources := b\<rparr>
      in (if start = - 1 then - 1 else word_of_int start * PAGE_SIZE + pa_startAddress p, p))"

definition PAddressPool_release :: "u32 \<Rightarrow> int \<Rightarrow> PAddressPool \<Rightarrow> PAddressPool option" where
  "PAddressPool_release address amount p = do {
     b \<leftarrow> Buddy_release (unat ((address - pa_startAddress p) div PAGE_SIZE)) amount (pa_resources p);
     Some (p\<lparr>pa_resources := b\<rparr>)
   }"

partial_function (option) dump_list :: "(nat \<Rightarrow> FreeNode) \<Rightarrow> nat \<Rightarrow> nat option \<Rightarrow> u32 \<Rightarrow> u32 option" where
  "dump_list ns order cnt freePages =
     (case cnt of None \<Rightarrow> Some freePages
      | Some c \<Rightarrow> dump_list ns order (fn_next (ns c)) (freePages + push_bit order 1))"

definition PAddressPool_dump :: "PAddressPool \<Rightarrow> u32 option" where
  "PAddressPool_dump p =
     fold (\<lambda>order acc. acc \<bind> dump_list (freeNodes (pa_resources p)) order (freeArea (pa_resources p) order))
       [0..<MAX_ORDER + 1] (Some 0)"

subsection \<open>Choosing a victim\<close>

text \<open>
  The clock scan reads the descriptors \<open>P\<close> and reverse-map entries \<open>M\<close> and clears accessed bits
  through the entries' virtual addresses; \<open>mem\<close> is the word stored at a virtual address.
\<close>

record VictimInfo =
  vi_PTEptr :: u32
  vi_paddr :: u32

type_synonym scan_state = "(nat \<Rightarrow> VictimInfo) \<times> (u32 \<Rightarrow> u32)"

definition fv_visit ::
    "PAddressPool \<Rightarrow> (nat \<Rightarrow> PageInfo) \<Rightarrow> (nat \<Rightarrow> RMapEntry) \<Rightarrow> bool \<Rightarrow> u32 \<Rightarrow> scan_state \<Rightarrow>
       (VictimInfo option \<times> scan_state) option" where
  "fv_visit p P M last_round idx = (\<lambda>(victims, mem).
     if \<not> Buddy_isAlloc (pa_resources p) idx then None
     else
       let pi = P (unat (PA2PGI (pa_startAddress p) + idx)) in
       if PageInfo_hasFlag pi PG_SINGLE \<and> PageInfo_getRef pi = 1 then
         let ptr = pte_vaddr (M (pi_extra pi));
             access = (mem ptr AND PTE_ACCESSED \<noteq> 0);
             dirty = (mem ptr AND PTE_DIRTY \<noteq> 0)
         in if \<not> last_round \<and> access then Some (None, victims, mem(ptr := mem ptr AND NOT PTE_ACCESSED))
            else
              let priority = (if access then 2 else 0) + (if dirty then 1 else 0) :: nat in
              if vi_paddr (victims priority) = 0 then
                let v = \<lparr>vi_PTEptr = ptr, vi_paddr = pa_startAddress p + idx * PAGE_SIZE\<rparr>
                in Some (if priority = 0 then Some v else None, victims(priority := v), mem)
              else Some (None, victims, mem)
       else Some (None, victims, mem))"

fun fv_scan ::
    "PAddressPool \<Rightarrow> (nat \<Rightarrow> PageInfo) \<Rightarrow> (nat \<Rightarrow> RMapEntry) \<Rightarrow> bool \<Rightarrow> nat \<Rightarrow> u32 \<Rightarrow> scan_state \<Rightarrow>
       (VictimInfo option \<times> u32 \<times> scan_state) option" where
  "fv_scan p P M last_round 0 idx st = Some (None, idx, st)"
| "fv_scan p P M last_round (Suc n) idx st =
     (case fv_visit p P M last_round idx st of
        None \<Rightarrow> None
      | Some (Some v, st') \<Rightarrow> Some (Some v, idx, st')
      | Some (None, st') \<Rightarrow> fv_scan p P M last_round n ((idx + 1) mod pa_length p) st')"

fun fv_rounds ::
    "PAddressPool \<Rightarrow> (nat \<Rightarrow> PageInfo) \<Rightarrow> (nat \<Rightarrow> RMapEntry) \<Rightarrow> nat \<Rightarrow> nat \<Rightarrow> u32 \<Rightarrow> scan_state \<Rightarrow>
       (VictimInfo option \<times> u32 \<times> scan_state) option" where
  "fv_rounds p P M n 0 idx st = Some (None, idx, st)"
| "fv_rounds p P M n (Suc rounds) idx st =
     (case fv_scan p P M (rounds = 0) n (victim_idx p) st of
        None \<Rightarrow> None
      | Some (Some v, idx', st') \<Rightarrow> Some (Some v, idx', st')
      | Some (None, idx', st') \<Rightarrow> fv_rounds p P M n rounds idx' st')"

definition PAddressPool_findVictim ::
    "PAddressPool \<Rightarrow> (nat \<Rightarrow> PageInfo) \<Rightarrow> (nat \<Rightarrow> RMapEntry) \<Rightarrow> (u32 \<Rightarrow> u32) \<Rightarrow> u32 \<Rightarrow> u32 \<Rightarrow>
       (VictimInfo \<times> PAddressPool \<times> (u32 \<Rightarrow> u32)) option" where
  "PAddressPool_findVictim p P M mem search_length round =
     (let none = \<lparr>vi_PTEptr = 0, vi_paddr = 0\<rparr>;
          search_length = (if search_length = 0 \<or> pa_length p < search_length then pa_length p else search_length)
      in case fv_rounds p P M (unat search_length) (unat round) (victim_idx p) (\<lambda>_. none, mem) of
           None \<Rightarrow> None
         | Some (Some v, idx, (victims, mem')) \<Rightarrow> Some (v, p\<lparr>victim_idx := idx\<rparr>, mem')
         | Some (None, idx, (victims, mem')) \<Rightarrow>
             Some (case find (\<lambda>i. vi_paddr (victims i) \<noteq> 0 \<and> vi_PTEptr (victims i) \<noteq> 0) [1, 2, 3] of
                     Some i \<Rightarrow> victims i | None \<Rightarrow> none, p\<lparr>victim_idx := idx\<rparr>, mem'))"

section \<open>Well-formed virtual pools\<close>

text \<open>
  What the assertions of the initialisation establish for page-aligned bounds: the range holds
  exactly \<^verbatim>\<open>length\<close> pages.
\<close>

definition va_ok :: "VAddressPool \<Rightarrow> bool" where
  "va_ok v \<longleftrightarrow> length_of (va_resources v) = va_length v \<and> 0 \<le> va_length v \<and>
     int (unat (va_endAddress v)) + 1 = int (unat (va_startAddress v)) + va_length v * 4096 \<and>
     4096 dvd unat (va_startAddress v)"

definition va_page :: "VAddressPool \<Rightarrow> nat \<Rightarrow> u32" where
  "va_page v i = word_of_nat i * PAGE_SIZE + va_startAddress v"

lemma va_ok_range: "va_ok v \<Longrightarrow> int (unat (va_endAddress v)) + 1 = int (unat (va_startAddress v)) + va_length v * 4096"
  by (simp add: va_ok_def)

lemma page_arith: "int i < L \<Longrightarrow> int e + 1 = int s + L * 4096 \<Longrightarrow> s + i * 4096 \<le> e" for i e s :: nat
  by linarith

text \<open>The page at index \<open>i\<close> of the pool: its address does not wrap and leads back to the index.\<close>

lemma unat_va_page:
  assumes "va_ok v" and "int i < va_length v"
  shows "unat (va_page v i) = unat (va_startAddress v) + i * 4096"
proof -
  have e: "unat (va_endAddress v) < 2 ^ 32" using unat_bound [of "va_endAddress v"] by simp
  have le: "unat (va_startAddress v) + i * 4096 < 2 ^ 32"
    using page_arith [OF assms(2) va_ok_range [OF assms(1)]] e by (rule le_less_trans)
  then have "unat (word_of_nat i :: u32) = i" by (simp add: unsigned_of_nat take_bit_nat_eq_self_iff)
  moreover from this have "unat (word_of_nat i * PAGE_SIZE :: u32) = i * 4096"
    using le by (subst unat_mult_lem [THEN iffD1]) (simp_all add: PAGE_SIZE_def)
  ultimately show ?thesis unfolding va_page_def using le by (subst unat_add_lem [THEN iffD1]) simp_all
qed

lemma va_page_index:
  assumes "va_ok v" and "int i < va_length v"
  shows "unat ((va_page v i - va_startAddress v) div PAGE_SIZE) = i"
    and "unat (((va_page v i AND NOT 0xfff) - va_startAddress v) div PAGE_SIZE) = i"
    and "VAddressPool_isValidAddr v (va_page v i)"
proof -
  have u: "unat (va_page v i) = unat (va_startAddress v) + i * 4096" by (rule unat_va_page [OF assms])
  have d: "unat (va_page v i - va_startAddress v) = i * 4096"
    using u by (subst unat_sub) (simp_all add: word_le_nat_alt)
  then show "unat ((va_page v i - va_startAddress v) div PAGE_SIZE) = i"
    by (simp add: unat_div PAGE_SIZE_def)
  have "4096 dvd unat (va_page v i)" using u assms(1) by (simp add: va_ok_def)
  then have "unat (va_page v i AND NOT (mask 12)) = unat (va_page v i)" unfolding unat_align_down by simp
  then have "va_page v i AND NOT (mask 12) = va_page v i" by (rule unsigned_word_eqI)
  then have al: "va_page v i AND NOT 0xfff = va_page v i" by (simp only: mask_consts(3))
  show "unat (((va_page v i AND NOT 0xfff) - va_startAddress v) div PAGE_SIZE) = i"
    unfolding al by (simp add: unat_div PAGE_SIZE_def d)
  have "unat (va_page v i) \<le> unat (va_endAddress v)"
    using page_arith [OF assms(2) va_ok_range [OF assms(1)]] u by simp
  then show "VAddressPool_isValidAddr v (va_page v i)"
    by (simp add: VAddressPool_isValidAddr_def word_le_nat_alt u)
qed

text \<open>Storing one value at consecutive indices.\<close>

lemma fold_upd_range:
  "fold (\<lambda>i f. f(a + i := c)) [0..<n] f j = (if a \<le> j \<and> j < a + n then c else f j)" for a :: nat
  by (simp add: fold_fun_upd_shift)

lemma BitMap_run: "run_allocator (\<lambda>b n. BitMap_allocate b n rv) BitMap_release BitMap_get length_of"
  by (cases rv) (simp_all add: bm_up.run_allocator_axioms bm_down.run_allocator_axioms)

text \<open>Which run is free, in terms of pages of the pool.\<close>

definition va_free_run :: "VAddressPool \<Rightarrow> nat \<Rightarrow> int \<Rightarrow> bool" where
  "va_free_run v i n \<longleftrightarrow> int i + n \<le> va_length v \<and> (\<forall>j. i \<le> j \<and> int j < int i + n \<longrightarrow> \<not> BitMap_get (va_resources v) j)"

lemma VAddressPool_allocate_cases:
  assumes ok: "va_ok v" and n: "0 < n"
  obtains (full) "VAddressPool_allocate v n pr rv = Some (- 1, v)" "\<forall>i. \<not> va_free_run v i n"
  | (run) i v' where "VAddressPool_allocate v n pr rv = Some (va_page v i, v')" "va_free_run v i n" "va_ok v'"
      "\<forall>j. BitMap_get (va_resources v') j \<longleftrightarrow> BitMap_get (va_resources v) j \<or> i \<le> j \<and> int j < int i + n"
      "va_isStatic v' = va_isStatic v" "va_static_privilege v' = va_static_privilege v"
      "va_startAddress v' = va_startAddress v" "va_endAddress v' = va_endAddress v" "va_length v' = va_length v"
      "\<forall>j. va_privileges v' j = (if \<not> va_isStatic v \<and> i \<le> j \<and> int j < int i + n then pr else va_privileges v j)"
proof -
  have len: "0 \<le> length_of (va_resources v)" "length_of (va_resources v) = va_length v" using ok by (simp_all add: va_ok_def)
  obtain r b where rb: "BitMap_allocate (va_resources v) n rv = Some (r, b)"
    using run_allocator.alloc_returns [OF BitMap_run n len(1)] by blast
  show thesis
  proof (cases "r = - 1")
    case True
    then have "b = va_resources v" using run_allocator.alloc_fail [OF BitMap_run n len(1)] rb by blast
    then have "VAddressPool_allocate v n pr rv = Some (- 1, v)" using rb True by (simp add: VAddressPool_allocate_def)
    moreover have "\<not> va_free_run v i n" for i
      using run_allocator.alloc_complete [OF BitMap_run n len(1), of rv b "int i"] rb True len(2)
      by (auto simp: va_free_run_def)
    ultimately show thesis using full by blast
  next
    case False
    note f = run_allocator.alloc_range [OF BitMap_run n len(1) rb False]
      run_allocator.alloc_fresh [OF BitMap_run n len(1) rb False]
      run_allocator.alloc_taken [OF BitMap_run n len(1) rb False]
      run_allocator.alloc_cap [OF BitMap_run n len(1) rb]
    define i where "i = nat r"
    have r: "r = int i" using f(1) by (simp add: i_def)
    define v' where "v' = (let v1 = v\<lparr>va_resources := b\<rparr> in if \<not> va_isStatic v
      then v1\<lparr>va_privileges := fold (\<lambda>j f. f(i + j := pr)) [0..<nat n] (va_privileges v)\<rparr> else v1)"
    have alloc: "VAddressPool_allocate v n pr rv = Some (va_page v i, v')"
      using rb by (simp add: VAddressPool_allocate_def v'_def va_page_def Let_def r)
    have keep: "va_isStatic v' = va_isStatic v" "va_static_privilege v' = va_static_privilege v"
      "va_startAddress v' = va_startAddress v" "va_endAddress v' = va_endAddress v" "va_length v' = va_length v"
      "va_resources v' = b" by (simp_all add: v'_def Let_def)
    have "va_ok v'" using ok f(4) by (simp add: va_ok_def keep)
    moreover have "va_free_run v i n" using f(1,2) len(2) by (auto simp: va_free_run_def r)
    moreover have "\<forall>j. va_privileges v' j = (if \<not> va_isStatic v \<and> i \<le> j \<and> int j < int i + n then pr else va_privileges v j)"
      using n by (auto simp: v'_def Let_def fold_upd_range)
    ultimately show thesis using run [OF alloc] f(3) keep by (simp add: r)
  qed
qed

section \<open>Properties\<close>

text \<open>
  \<^bold>\<open>C8\<close>: \<^verbatim>\<open>VAddressPool::allocate\<close> returns for a positive page count.  It fails, unchanged,
  only when no free run of that length exists; otherwise the address is page aligned, the run lies
  inside the pool's range, all its pages were free and are now in use, no other page changes, and
  \<^verbatim>\<open>getVPageFlag\<close> of each page of the run is the privilege asked for (the fixed one in a static pool).
\<close>

theorem VAddressPool_allocate_correct:
  assumes ok: "va_ok v" and n: "0 < n"
  shows "(VAddressPool_allocate v n pr rv = Some (- 1, v) \<and> (\<forall>i. \<not> va_free_run v i n)) \<or>
    (\<exists>i v'. VAddressPool_allocate v n pr rv = Some (va_page v i, v') \<and> va_ok v' \<and> va_free_run v i n \<and>
      (\<forall>j. BitMap_get (va_resources v') j \<longleftrightarrow> BitMap_get (va_resources v) j \<or> i \<le> j \<and> int j < int i + n) \<and>
      (\<forall>j. i \<le> j \<and> int j < int i + n \<longrightarrow>
         unat (va_page v j) = unat (va_page v i) + (j - i) * 4096 \<and> VAddressPool_isValidAddr v (va_page v j) \<and>
         4096 dvd unat (va_page v j) \<and>
         VAddressPool_getVPageFlag v' (va_page v j) = Some (if va_isStatic v then va_static_privilege v else pr)))"
proof (cases rule: VAddressPool_allocate_cases [OF ok n, of pr rv])
  case 1
  then show ?thesis by blast
next
  case (2 i v')
  have "unat (va_page v j) = unat (va_page v i) + (j - i) * 4096 \<and> VAddressPool_isValidAddr v (va_page v j) \<and>
     4096 dvd unat (va_page v j) \<and>
     VAddressPool_getVPageFlag v' (va_page v j) = Some (if va_isStatic v then va_static_privilege v else pr)"
    if j: "i \<le> j" "int j < int i + n" for j
  proof -
    have jl: "int j < va_length v" "int i < va_length v" using j 2(2) n by (auto simp: va_free_run_def)
    have jl': "int j < va_length v'" and page': "va_page v' j = va_page v j" using jl 2 by (simp_all add: va_page_def)
    have u: "unat (va_page v j) = unat (va_startAddress v) + j * 4096" "unat (va_page v i) = unat (va_startAddress v) + i * 4096"
      using unat_va_page [OF ok] jl by simp_all
    have "VAddressPool_getVPageFlag v' (va_page v j) = Some (if va_isStatic v then va_static_privilege v else pr)"
      using va_page_index(2,3) [OF 2(3) jl'] 2 j by (simp add: VAddressPool_getVPageFlag_def page' del: word_not_simps)
    moreover have "4096 dvd unat (va_page v j)" using u(1) ok by (simp add: va_ok_def)
    moreover have "unat (va_page v j) = unat (va_page v i) + (j - i) * 4096" using u j(1) by (simp add: diff_mult_distrib)
    ultimately show ?thesis using va_page_index(3) [OF ok jl(1)] by simp
  qed
  then show ?thesis using 2(1,2,3,4) by blast
qed

definition va_example :: VAddressPool where
  "va_example = \<lparr>va_length = 8, va_resources = \<lparr>length_of = 8, bitmap_of = (\<lambda>_. 0)(0 := 0x3)\<rparr>,
     va_startAddress = 0x08048000, va_endAddress = 0x0804ffff, va_privileges = (\<lambda>_. 0), va_isStatic = False,
     va_static_privilege = 0\<rparr>"

lemma va_example_ok: "va_ok va_example"
  by (simp add: va_ok_def va_example_def)

lemma va_example_run: "va_free_run va_example 2 3"
proof -
  have "j = 2 \<or> j = 3 \<or> j = 4" if "2 \<le> j" "int j < int 2 + 3" for j :: nat using that by linarith
  then show ?thesis by (fastforce simp: va_free_run_def va_example_def BitMap_get_def byte_test_def)
qed

theorem VAddressPool_allocate_correct_witness:
  "\<exists>i v'. VAddressPool_allocate va_example 3 VP_RW False = Some (va_page va_example i, v') \<and> va_ok v' \<and>
     VAddressPool_getVPageFlag v' (va_page va_example i) = Some VP_RW"
proof -
  have st: "\<not> va_isStatic va_example" by (simp add: va_example_def)
  show ?thesis
    using VAddressPool_allocate_correct [OF va_example_ok, of 3 VP_RW False] va_example_run st by fastforce
qed

text \<open>
  Releasing the run that \<^verbatim>\<open>VAddressPool::allocate\<close> just returned, by its address,
  gives every page of the pool its old state.
\<close>

theorem VAddressPool_allocate_release_roundtrip:
  assumes ok: "va_ok v" and n: "0 < n" and a: "VAddressPool_allocate v n pr rv = Some (addr, v')" "addr \<noteq> - 1"
  shows "(va_ok (VAddressPool_release addr n v')) \<and>
    (BitMap_get (va_resources (VAddressPool_release addr n v')) j = BitMap_get (va_resources v) j) \<and>
    (va_isStatic v \<or> BitMap_get (va_resources v) j \<longrightarrow> va_privileges (VAddressPool_release addr n v') j = va_privileges v j)"
proof (rule conjI [OF _ conjI [OF _ impI]])
  obtain i where i: "addr = va_page v i" "va_free_run v i n" "va_ok v'"
      "\<forall>j. BitMap_get (va_resources v') j \<longleftrightarrow> BitMap_get (va_resources v) j \<or> i \<le> j \<and> int j < int i + n"
      "va_isStatic v' = va_isStatic v" "va_startAddress v' = va_startAddress v" "va_endAddress v' = va_endAddress v"
      "va_length v' = va_length v"
      "\<forall>j. va_privileges v' j = (if \<not> va_isStatic v \<and> i \<le> j \<and> int j < int i + n then pr else va_privileges v j)"
    by (rule VAddressPool_allocate_cases [OF ok n, of pr rv]) (use a in auto)
  have il: "int i < va_length v" using i(2) n by (simp add: va_free_run_def)
  have ix: "unat ((addr - va_startAddress v') div PAGE_SIZE) = i"
    using va_page_index(1) [OF ok il] i(1,6) by simp
  have rel: "VAddressPool_release addr n v' =
      (let w = v'\<lparr>va_resources := BitMap_release i n (va_resources v')\<rparr>
       in if \<not> va_isStatic v then w\<lparr>va_privileges := fold (\<lambda>k f. f(i + k := VP_CLEAR)) [0..<nat n] (va_privileges v')\<rparr> else w)"
    by (simp add: VAddressPool_release_def ix i(5) Let_def)
  show "va_ok (VAddressPool_release addr n v')"
    using i(3) bm_up.free_cap [of i n "va_resources v'"] by (simp add: rel va_ok_def Let_def)
  have res: "va_resources (VAddressPool_release addr n v') = BitMap_release i n (va_resources v')" by (simp add: rel Let_def)
  show "BitMap_get (va_resources (VAddressPool_release addr n v')) j = BitMap_get (va_resources v) j"
    using i(2,4) by (auto simp: res bm_up.free_taken va_free_run_def)
  show "va_privileges (VAddressPool_release addr n v') j = va_privileges v j"
    if "va_isStatic v \<or> BitMap_get (va_resources v) j"
    using that i(2,9) by (auto simp: rel Let_def fold_upd_range va_free_run_def)
qed

theorem VAddressPool_allocate_release_roundtrip_witness:
  "\<exists>addr v'. VAddressPool_allocate va_example 3 VP_RW False = Some (addr, v') \<and>
     BitMap_get (va_resources (VAddressPool_release addr 3 v')) 0 \<and>
     \<not> BitMap_get (va_resources (VAddressPool_release addr 3 v')) 2"
proof -
  obtain i v' where a: "VAddressPool_allocate va_example 3 VP_RW False = Some (va_page va_example i, v')" "va_free_run va_example i 3"
    by (rule VAddressPool_allocate_cases [OF va_example_ok, of 3 VP_RW False]) (use va_example_run in auto)
  have "va_page va_example i \<noteq> - 1"
  proof
    have "int i < va_length va_example" using a(2) by (simp add: va_free_run_def)
    from unat_va_page [OF va_example_ok this] have "unat (va_page va_example i) = 0x08048000 + i * 4096"
      by (simp add: va_example_def)
    moreover have "i < 8" using a(2) by (simp add: va_free_run_def va_example_def)
    moreover assume "va_page va_example i = - 1"
    ultimately show False by (simp add: unsigned_minus_1_eq_mask mask_eq_exp_minus_1)
  qed
  from VAddressPool_allocate_release_roundtrip [OF va_example_ok _ a(1) this]
  have "BitMap_get (va_resources (VAddressPool_release (va_page va_example i) 3 v')) j = BitMap_get (va_resources va_example) j" for j
    by simp
  moreover have "BitMap_get (va_resources va_example) 0" "\<not> BitMap_get (va_resources va_example) 2"
    by (simp_all add: va_example_def BitMap_get_def byte_test_def)
  ultimately show ?thesis using a(1) by blast
qed

section \<open>Segments of a process\<close>

definition pool_of :: "UserVAddressPool \<Rightarrow> UserSegment \<Rightarrow> VAddressPool option" where
  "pool_of u seg = (case seg of HEAP \<Rightarrow> Some (heapPool u) | STACK \<Rightarrow> Some (stackPool u) | TLS \<Rightarrow> Some (TLSPool u)
     | MMAP \<Rightarrow> Some (mmapPool u) | _ \<Rightarrow> None)"

definition segments_disjoint :: "UserVAddressPool \<Rightarrow> bool" where
  "segments_disjoint u \<longleftrightarrow> (\<forall>s t a b c. UserVAddressPool_getBoundary u s = Some b \<longrightarrow>
     UserVAddressPool_getBoundary u t = Some c \<longrightarrow> Boundary_isValidAddr b a \<longrightarrow> Boundary_isValidAddr c a \<longrightarrow> s = t)"

lemma vaddr2Seg_boundary:
  "UserVAddressPool_vaddr2Seg u a \<noteq> EMPTY \<Longrightarrow>
     \<exists>b. UserVAddressPool_getBoundary u (UserVAddressPool_vaddr2Seg u a) = Some b \<and> Boundary_isValidAddr b a"
  by (auto simp: UserVAddressPool_vaddr2Seg_def UserVAddressPool_getBoundary_def Boundary_isValidAddr_def
      VAddressPool_isValidAddr_def split: if_splits)

lemma vaddr2Seg_complete:
  "UserVAddressPool_getBoundary u s = Some b \<Longrightarrow> Boundary_isValidAddr b a \<Longrightarrow> UserVAddressPool_vaddr2Seg u a \<noteq> EMPTY"
  by (cases s) (auto simp: UserVAddressPool_vaddr2Seg_def UserVAddressPool_getBoundary_def Boundary_isValidAddr_def
      VAddressPool_isValidAddr_def)

lemma vaddr2Seg_unique:
  assumes "segments_disjoint u" and "UserVAddressPool_getBoundary u s = Some b" and "Boundary_isValidAddr b a"
  shows "UserVAddressPool_vaddr2Seg u a = s"
  using vaddr2Seg_boundary [OF vaddr2Seg_complete [OF assms(2,3)]] assms unfolding segments_disjoint_def by blast

lemma pool_of_boundary:
  "pool_of u s = Some v \<Longrightarrow> VAddressPool_isValidAddr v a \<Longrightarrow>
     \<exists>b. UserVAddressPool_getBoundary u s = Some b \<and> Boundary_isValidAddr b a"
  by (cases s) (auto simp: pool_of_def UserVAddressPool_getBoundary_def Boundary_isValidAddr_def VAddressPool_isValidAddr_def)

lemma pool_allocate_unfold:
  assumes "pool_of u s = Some v"
  obtains pr' rv' upd where "UserVAddressPool_allocate u s n pr rv =
      VAddressPool_allocate v (sint n) pr' rv' \<bind> (\<lambda>(a, w). Some (a, upd w))"
    "\<And>w t. pool_of (upd w) t = (if t = s then Some w else pool_of u t)"
proof (cases s)
  case HEAP
  with assms show thesis
    by (intro that [of VP_CLEAR False "\<lambda>w. u\<lparr>heapPool := w\<rparr>"])
      (auto simp: pool_of_def UserVAddressPool_allocate_def split: UserSegment.splits)
next
  case STACK
  with assms show thesis
    by (intro that [of VP_CLEAR True "\<lambda>w. u\<lparr>stackPool := w\<rparr>"])
      (auto simp: pool_of_def UserVAddressPool_allocate_def split: UserSegment.splits)
next
  case TLS
  with assms show thesis
    by (intro that [of pr rv "\<lambda>w. u\<lparr>TLSPool := w\<rparr>"])
      (auto simp: pool_of_def UserVAddressPool_allocate_def split: UserSegment.splits)
next
  case MMAP
  with assms show thesis
    by (intro that [of pr rv "\<lambda>w. u\<lparr>mmapPool := w\<rparr>"])
      (auto simp: pool_of_def UserVAddressPool_allocate_def split: UserSegment.splits)
qed (use assms in \<open>simp_all add: pool_of_def\<close>)

text \<open>
  The segment lookup and the per-segment allocation of a process fit together.  The
  lookup answers with a segment whose boundary holds the address, and with \<^verbatim>\<open>EMPTY\<close> only for an
  address in no segment.  The fixed segments refuse to allocate; when the segments do not overlap,
  every address that a pool segment hands out is looked up as that segment, and no other pool changes.
\<close>

theorem UserVAddressPool_segments:
  shows "(UserVAddressPool_vaddr2Seg u a \<noteq> EMPTY \<longleftrightarrow>
      (\<exists>s b. UserVAddressPool_getBoundary u s = Some b \<and> Boundary_isValidAddr b a)) \<and>
    (pool_of u s = None \<longrightarrow> UserVAddressPool_allocate u s n pr rv = Some (- 1, u)) \<and>
    (segments_disjoint u \<longrightarrow> pool_of u s = Some v \<longrightarrow> va_ok v \<longrightarrow> 0 < sint n \<longrightarrow>
      (\<exists>a u'. UserVAddressPool_allocate u s n pr rv = Some (a, u') \<and>
        (a = - 1 \<or> UserVAddressPool_vaddr2Seg u a = s) \<and> (\<forall>t. t \<noteq> s \<longrightarrow> pool_of u' t = pool_of u t)))"
proof (rule conjI [OF _ conjI [OF impI impI [OF impI [OF impI [OF impI]]]]])
  show "UserVAddressPool_vaddr2Seg u a \<noteq> EMPTY \<longleftrightarrow>
      (\<exists>s b. UserVAddressPool_getBoundary u s = Some b \<and> Boundary_isValidAddr b a)"
    using vaddr2Seg_boundary vaddr2Seg_complete by blast
  show "pool_of u s = None \<Longrightarrow> UserVAddressPool_allocate u s n pr rv = Some (- 1, u)"
    by (cases s) (simp_all add: pool_of_def UserVAddressPool_allocate_def)
  assume dj: "segments_disjoint u" and po: "pool_of u s = Some v" and ok: "va_ok v" and n: "0 < sint n"
  obtain pr' rv' upd where al: "UserVAddressPool_allocate u s n pr rv =
      VAddressPool_allocate v (sint n) pr' rv' \<bind> (\<lambda>(a, w). Some (a, upd w))"
    and upd: "\<And>w t. pool_of (upd w) t = (if t = s then Some w else pool_of u t)"
    by (rule pool_allocate_unfold [OF po, of n pr rv]) blast
  show "\<exists>a u'. UserVAddressPool_allocate u s n pr rv = Some (a, u') \<and>
        (a = - 1 \<or> UserVAddressPool_vaddr2Seg u a = s) \<and> (\<forall>t. t \<noteq> s \<longrightarrow> pool_of u' t = pool_of u t)"
  proof (cases rule: VAddressPool_allocate_cases [OF ok n, of pr' rv'])
    case 1
    then show ?thesis using al upd by simp
  next
    case (2 i v')
    have "int i < va_length v" using 2(2) n by (simp add: va_free_run_def)
    then have "VAddressPool_isValidAddr v (va_page v i)" by (rule va_page_index(3) [OF ok])
    then have "UserVAddressPool_vaddr2Seg u (va_page v i) = s"
      using vaddr2Seg_unique [OF dj] pool_of_boundary [OF po] by blast
    then show ?thesis using al upd 2(1) by simp
  qed
qed

definition user_example :: UserVAddressPool where
  "user_example =
     (let mk = (\<lambda>a b. va_example\<lparr>va_startAddress := a, va_endAddress := b\<rparr>)
      in \<lparr>segBoundary = \<lparr>seg_text = \<lparr>b_start = 0x1000, b_end = 0x1fff\<rparr>, seg_data = \<lparr>b_start = 0x2000, b_end = 0x2fff\<rparr>,
            seg_bss = \<lparr>b_start = 0x3000, b_end = 0x3fff\<rparr>\<rparr>,
          heapPool = mk 0x10000 0x17fff, stackPool = mk 0x20000 0x27fff, mmapPool = mk 0x30000 0x37fff,
          TLSPool = mk 0x40000 0x47fff, bitmapStart = 0, privStart = 0, bitmapPage = 0, privPage = 0, uva_owner = 1,
          isInitialized = True\<rparr>)"

theorem UserVAddressPool_segments_witness:
  "pool_of user_example TEXT = None \<and> UserVAddressPool_allocate user_example TEXT 1 0 False = Some (- 1, user_example) \<and>
   (\<exists>a u'. UserVAddressPool_allocate user_example STACK 2 0 False = Some (a, u') \<and>
      (a = - 1 \<or> UserVAddressPool_vaddr2Seg user_example a = STACK))"
proof -
  have "s = t" if "UserVAddressPool_getBoundary user_example s = Some b" "UserVAddressPool_getBoundary user_example t = Some c"
      "Boundary_isValidAddr b a" "Boundary_isValidAddr c a" for s t a b c
    using that by (cases s; cases t) (auto simp: UserVAddressPool_getBoundary_def user_example_def Boundary_isValidAddr_def
        word_le_nat_alt)
  then have "segments_disjoint user_example" unfolding segments_disjoint_def by blast
  moreover have "pool_of user_example STACK = Some (va_example\<lparr>va_startAddress := 0x20000, va_endAddress := 0x27fff\<rparr>)"
    by (simp add: pool_of_def user_example_def)
  moreover have "va_ok (va_example\<lparr>va_startAddress := 0x20000, va_endAddress := 0x27fff\<rparr>)"
    by (simp add: va_ok_def va_example_def)
  moreover have "0 < sint (2::u32)" by simp
  moreover have "pool_of user_example TEXT = None" by (simp add: pool_of_def)
  ultimately show ?thesis
    using UserVAddressPool_segments [of user_example 0 TEXT 1 0 False]
      UserVAddressPool_segments [of user_example 0 STACK 2 0 False] by blast
qed

section \<open>Physical pools\<close>

definition pa_ok :: "PAddressPool \<Rightarrow> (nat \<Rightarrow> nat list) \<Rightarrow> bool" where
  "pa_ok p A \<longleftrightarrow> buddy_inv (pa_resources p) A \<and> 4096 dvd unat (pa_startAddress p) \<and>
     int (unat (pa_startAddress p)) + totalPages (pa_resources p) * 4096 < 2 ^ 32"

definition pa_frame :: "PAddressPool \<Rightarrow> nat \<Rightarrow> u32" where
  "pa_frame p i = word_of_nat i * PAGE_SIZE + pa_startAddress p"

lemma frame_arith: "int i < T \<Longrightarrow> int s + T * 4096 < 2 ^ 32 \<Longrightarrow> s + i * 4096 < 2 ^ 32 - 4096" for i s :: nat
  by simp

lemma unat_pa_frame:
  assumes "pa_ok p A" and "int i < totalPages (pa_resources p)"
  shows "unat (pa_frame p i) = unat (pa_startAddress p) + i * 4096" and "pa_frame p i \<noteq> - 1"
    and "unat ((pa_frame p i - pa_startAddress p) div PAGE_SIZE) = i"
proof -
  have le: "unat (pa_startAddress p) + i * 4096 < 2 ^ 32 - 4096"
    using assms unfolding pa_ok_def by (intro frame_arith) auto
  then have "unat (word_of_nat i :: u32) = i" by (simp add: unsigned_of_nat take_bit_nat_eq_self_iff)
  moreover from this have "unat (word_of_nat i * PAGE_SIZE :: u32) = i * 4096"
    using le by (subst unat_mult_lem [THEN iffD1]) (simp_all add: PAGE_SIZE_def)
  ultimately show u: "unat (pa_frame p i) = unat (pa_startAddress p) + i * 4096"
    unfolding pa_frame_def using le by (subst unat_add_lem [THEN iffD1]) simp_all
  show "pa_frame p i \<noteq> - 1" using u le by (auto simp: unsigned_minus_1_eq_mask mask_eq_exp_minus_1)
  have "unat (pa_frame p i - pa_startAddress p) = i * 4096" using u by (subst unat_sub) (simp_all add: word_le_nat_alt)
  then show "unat ((pa_frame p i - pa_startAddress p) div PAGE_SIZE) = i" by (simp add: unat_div PAGE_SIZE_def)
qed

lemma small_pool_no_loss:
  assumes "buddy_inv b A" "totalPages b \<le> 1024" "int s < totalPages b"
  shows "(s div 2 ^ MAX_ORDER * 2 ^ MAX_ORDER) XOR 2 ^ MAX_ORDER \<notin> set (A MAX_ORDER)"
  using no_loss_small [of "totalPages b" A s] assms by (simp add: buddy_inv_def MAX_ORDER_def)

lemma pow2_pos_int: "int s + 2 ^ k \<le> n \<Longrightarrow> int s < n" for s k :: nat
  by (metis add_strict_left_mono add_0_right less_le_trans zero_less_numeral zero_less_power)

text \<open>
  A physical pool hands out frames inside its range whose frames were all free, or fails
  unchanged; and releasing what it returned, by its address, frees exactly those frames again (in a
  pool of at most 1024 frames, where no merge can exceed the largest order).
\<close>

theorem PAddressPool_allocate_release:
  assumes ok: "pa_ok p A" and "0 < count" and al: "PAddressPool_allocate count p = (a, p')"
  defines "k \<equiv> nat (count2order count)"
  shows "a = - 1 \<and> p' = p \<or>
    (\<exists>s A'. a = pa_frame p s \<and> a \<noteq> - 1 \<and> count \<le> 2 ^ k \<and> int s + 2 ^ k \<le> totalPages (pa_resources p) \<and> pa_ok p' A' \<and>
       (\<forall>i. s \<le> i \<and> i < s + 2 ^ k \<longrightarrow> cover A i = 1 \<and> cover A' i = 0) \<and>
       (\<forall>i. \<not> (s \<le> i \<and> i < s + 2 ^ k) \<longrightarrow> cover A' i = cover A i) \<and>
       (totalPages (pa_resources p) \<le> 1024 \<longrightarrow>
          (\<exists>p'' A''. PAddressPool_release a count p' = Some p'' \<and> pa_ok p'' A'' \<and> (\<forall>i. cover A'' i = cover A i))))"
proof -
  have inv: "buddy_inv (pa_resources p) A" using ok by (simp add: pa_ok_def)
  show ?thesis
  proof (cases rule: Buddy_allocate_cases [OF inv, of count, folded k_def])
    case 1
    then show ?thesis using al by (simp add: PAddressPool_allocate_def)
  next
    case (2 s b' A')
    have s: "int s < totalPages (pa_resources p)" by (rule pow2_pos_int [OF 2(4)])
    have p': "a = pa_frame p s" "p' = p\<lparr>pa_resources := b'\<rparr>"
      using al 2(1) by (simp_all add: PAddressPool_allocate_def pa_frame_def)
    have ok': "pa_ok p' A'" using ok 2(5,6) by (simp add: pa_ok_def p')
    have rel: "\<exists>p'' A''. PAddressPool_release a count p' = Some p'' \<and> pa_ok p'' A'' \<and> (\<forall>i. cover A'' i = cover A i)"
      if small: "totalPages (pa_resources p) \<le> 1024"
    proof (rule Buddy_release_cases [OF 2(5), where count = count and index = s, folded k_def])
      show "k \<le> MAX_ORDER" "2 ^ k dvd s" "int s + 2 ^ k \<le> totalPages b'" using 2(3,4,6,10) by simp_all
      show "cover A' i = 0" if "s \<le> i" "i < s + 2 ^ k" for i using 2(7) that by simp
      fix b'' A''
      assume r: "Buddy_release s count b' = Some b''" "buddy_inv b'' A''" "totalPages b'' = totalPages b'"
        "(s div 2 ^ MAX_ORDER * 2 ^ MAX_ORDER) XOR 2 ^ MAX_ORDER \<notin> set (A' MAX_ORDER) \<Longrightarrow>
          \<forall>i. cover A'' i = (if s \<le> i \<and> i < s + 2 ^ k then 1 else cover A' i)"
      have "cover A'' i = cover A i" for i
        using r(4) [OF small_pool_no_loss [OF 2(5)]] 2(6,7,8) small s by (cases "s \<le> i \<and> i < s + 2 ^ k") auto
      moreover have "PAddressPool_release a count p' = Some (p'\<lparr>pa_resources := b''\<rparr>)"
        using r(1) unat_pa_frame(3) [OF ok s] by (simp add: PAddressPool_release_def p')
      moreover have "pa_ok (p'\<lparr>pa_resources := b''\<rparr>) A''" using ok r(2,3) 2(6) by (simp add: pa_ok_def p')
      ultimately show ?thesis by blast
    qed
    have "count \<le> 2 ^ k" using count2order_least(1) [OF assms(2)] by (simp add: k_def)
    then show ?thesis using p'(1) unat_pa_frame(2) [OF ok s] 2(4,7,8) ok' rel by blast
  qed
qed

definition pa_example :: PAddressPool where
  "pa_example = \<lparr>pa_resources = four_pages, pa_startAddress = 0x200000, victim_idx = 0, pa_length = 4\<rparr>"

lemma four_pages_total: "totalPages four_pages = 4"
  using insert_freeNode_rep(4) [OF fresh_rep(1), of 2 "\<lambda>_. 0" 4 0]
  by (simp add: four_pages_def MAX_ORDER_def node_count_def)

lemma pa_example_ok: "pa_ok pa_example ((\<lambda>_. [])(2 := [0]))"
  using four_pages_inv by (simp add: pa_ok_def pa_example_def four_pages_total)

theorem PAddressPool_allocate_release_witness:
  "\<exists>a p'. PAddressPool_allocate 3 pa_example = (a, p') \<and>
     (a = - 1 \<and> p' = pa_example \<or> (\<exists>p''. PAddressPool_release a 3 p' = Some p''))"
proof -
  obtain a p' where al: "PAddressPool_allocate 3 pa_example = (a, p')" by fastforce
  have "totalPages (pa_resources pa_example) \<le> 1024" by (simp add: pa_example_def four_pages_total)
  then show ?thesis using PAddressPool_allocate_release [OF pa_example_ok _ al] al by auto
qed

subsection \<open>Counting free frames\<close>

lemma dump_list_chain:
  "chain ns prv is None \<Longrightarrow>
     dump_list ns k (hd_or is None) acc = Some (acc + of_nat (length is) * push_bit k 1)"
proof (induction "is" arbitrary: prv acc)
  case Nil
  then show ?case by (subst dump_list.simps) simp
next
  case (Cons i "is")
  then have "chain ns (Some i) is None" "fn_next (ns i) = hd_or is None" by simp_all
  then show ?case using Cons.IH [of "Some i" "acc + push_bit k 1"]
    by (subst dump_list.simps) (simp add: algebra_simps)
qed

lemma dump_sum:
  assumes "rep b A"
  shows "n \<le> MAX_ORDER + 1 \<Longrightarrow>
    fold (\<lambda>k acc. acc \<bind> dump_list (freeNodes b) k (freeArea b k)) [0..<n] (Some 0) =
      Some (\<Sum>k<n. of_nat (length (A k)) * push_bit k 1)"
proof (induction n)
  case (Suc n)
  obtain L where L: "lists_ok b L" "\<forall>k\<le>MAX_ORDER. A k = starts b (L k)" using assms by (auto simp: rep_def)
  have n: "n \<le> MAX_ORDER" using Suc.prems by simp
  have "dump_list (freeNodes b) n (freeArea b n) acc = Some (acc + of_nat (length (A n)) * push_bit n 1)" for acc
    using dump_list_chain [of "freeNodes b" None "L n" n acc] lists_ok_chain [OF L(1) n] lists_ok_area [OF L(1) n] L(2) n
    by (simp add: starts_def)
  then show ?case using Suc by simp
qed simp

lemma sum_cover:
  assumes "total_ok T A"
  shows "(\<Sum>p<nat T. cover A p) = (\<Sum>k\<le>MAX_ORDER. length (A k) * 2 ^ k)"
proof -
  have blk: "(\<Sum>p<nat T. in_block k s p) = 2 ^ k" if "k \<le> MAX_ORDER" "s \<in> set (A k)" for k s
  proof -
    have "int p < T" if "s \<le> p" "p < s + 2 ^ k" for p
    proof -
      have "1 \<le> cover A p"
        using cover_remove1 [of k s A p, OF \<open>k \<le> MAX_ORDER\<close> \<open>s \<in> set (A k)\<close>] that by (simp add: in_block_def)
      then show ?thesis using total_okD [OF assms, of p] by simp
    qed
    then have "int s + 2 ^ k \<le> T" by (rule block_in_pool)
    moreover from pow2_pos_int [OF this] have "0 \<le> T" by simp
    ultimately show ?thesis by (intro sum_in_block) (simp_all add: le_nat_iff)
  qed
  have "(\<Sum>p<nat T. cover A p) = (\<Sum>k\<le>MAX_ORDER. \<Sum>s\<leftarrow>A k. \<Sum>p<nat T. in_block k s p)"
    unfolding cover_def sum_list_sum_swap by (rule sum.swap)
  also have "\<dots> = (\<Sum>k\<le>MAX_ORDER. \<Sum>s\<leftarrow>A k. 2 ^ k)"
    using blk by (intro sum.cong refl arg_cong [of _ _ sum_list] map_cong) auto
  finally show ?thesis by (simp add: sum_list_triv)
qed

text \<open>
  \<^verbatim>\<open>PAddressPool::dump\<close> returns the number of frames that the pool can still hand out.
\<close>

theorem PAddressPool_dump_correct:
  assumes "pa_ok p A"
  shows "PAddressPool_dump p = Some (of_nat (card {i. cover A i = 1}))"
proof -
  let ?T = "totalPages (pa_resources p)"
  have inv: "rep (pa_resources p) A" "total_ok ?T A" using assms by (simp_all add: pa_ok_def buddy_inv_def)
  have "{i. cover A i = 1} = {i \<in> {..<nat ?T}. cover A i = 1}" using total_okD [OF inv(2)] by (auto simp: zless_nat_eq_int_zless)
  then have "card {i. cover A i = 1} = (\<Sum>i<nat ?T. if cover A i = 1 then 1 else 0)" by (simp add: sum.If_cases Int_def)
  also have "\<dots> = (\<Sum>i<nat ?T. cover A i)"
    using total_okD [OF inv(2)] by (intro sum.cong refl) (metis le_antisym less_one not_le)
  also have "\<dots> = (\<Sum>k\<le>MAX_ORDER. length (A k) * 2 ^ k)" by (rule sum_cover [OF inv(2)])
  finally have "of_nat (card {i. cover A i = 1}) = (\<Sum>k<MAX_ORDER + 1. of_nat (length (A k)) * push_bit k (1::u32))"
    by (simp add: lessThan_Suc_atMost push_bit_eq_mult)
  then show ?thesis using dump_sum [OF inv(1), of "MAX_ORDER + 1"] by (simp add: PAddressPool_dump_def)
qed

theorem PAddressPool_dump_correct_witness:
  "PAddressPool_dump pa_example = Some (of_nat (card {i. cover ((\<lambda>_. [])(2 := [0])) i = 1}))"
  by (rule PAddressPool_dump_correct [OF pa_example_ok])

subsection \<open>Victims\<close>

definition victim_page :: "PAddressPool \<Rightarrow> (nat \<Rightarrow> PageInfo) \<Rightarrow> (nat \<Rightarrow> RMapEntry) \<Rightarrow> VictimInfo \<Rightarrow> bool" where
  "victim_page p P M v \<longleftrightarrow> (\<exists>idx. idx < pa_length p \<and> vi_paddr v = pa_startAddress p + idx * PAGE_SIZE \<and>
     Buddy_isAlloc (pa_resources p) idx \<and>
     (let pi = P (unat (PA2PGI (pa_startAddress p) + idx))
      in PageInfo_hasFlag pi PG_SINGLE \<and> PageInfo_getRef pi = 1 \<and> vi_PTEptr v = pte_vaddr (M (pi_extra pi))))"

definition only_accessed_cleared :: "(u32 \<Rightarrow> u32) \<Rightarrow> (u32 \<Rightarrow> u32) \<Rightarrow> bool" where
  "only_accessed_cleared mem mem' \<longleftrightarrow> (\<forall>a. mem' a = mem a \<or> mem' a = mem a AND NOT PTE_ACCESSED)"

lemma only_accessed_refl [simp]: "only_accessed_cleared m m"
  by (simp add: only_accessed_cleared_def)

lemma only_accessed_clear:
  "only_accessed_cleared m m' \<Longrightarrow> only_accessed_cleared m (m'(a := m' a AND NOT PTE_ACCESSED))"
  unfolding only_accessed_cleared_def by (metis and.right_idem fun_upd_apply)

lemma fv_visit_safe:
  assumes "fv_visit p P M lst idx (victims, mem) = Some (res, victims', mem')" and "idx < pa_length p"
    and "\<forall>i. vi_paddr (victims i) = 0 \<or> victim_page p P M (victims i)" and "only_accessed_cleared m0 mem"
  shows "(\<forall>i. vi_paddr (victims' i) = 0 \<or> victim_page p P M (victims' i)) \<and> only_accessed_cleared m0 mem' \<and>
    (\<forall>v. res = Some v \<longrightarrow> victim_page p P M v)"
proof -
  let ?pi = "P (unat (PA2PGI (pa_startAddress p) + idx))"
  have new: "victim_page p P M \<lparr>vi_PTEptr = pte_vaddr (M (pi_extra ?pi)), vi_paddr = pa_startAddress p + idx * PAGE_SIZE\<rparr>"
    if "Buddy_isAlloc (pa_resources p) idx" "PageInfo_hasFlag ?pi PG_SINGLE" "PageInfo_getRef ?pi = 1"
    using that assms(2) unfolding victim_page_def by (auto intro!: exI [of _ idx])
  show ?thesis
    using assms new by (auto simp: fv_visit_def Let_def only_accessed_clear split: if_splits)
qed

lemma fv_scan_safe:
  "fv_scan p P M lst n idx (victims, mem) = Some (res, idx', victims', mem') \<Longrightarrow> idx < pa_length p \<Longrightarrow>
   \<forall>i. vi_paddr (victims i) = 0 \<or> victim_page p P M (victims i) \<Longrightarrow> only_accessed_cleared m0 mem \<Longrightarrow>
     (\<forall>i. vi_paddr (victims' i) = 0 \<or> victim_page p P M (victims' i)) \<and> only_accessed_cleared m0 mem' \<and>
     (\<forall>v. res = Some v \<longrightarrow> victim_page p P M v)"
proof (induction n arbitrary: idx victims mem)
  case (Suc n)
  obtain r vs m where vis: "fv_visit p P M lst idx (victims, mem) = Some (r, vs, m)"
    using Suc.prems(1) by (auto split: option.splits prod.splits)
  note safe = fv_visit_safe [OF vis Suc.prems(2-4)]
  show ?case
  proof (cases r)
    case None
    have "(idx + 1) mod pa_length p < pa_length p"
      using Suc.prems(2) by (metis word_gt_0_no word_mod_less_divisor le_less_trans word_zero_le)
    then show ?thesis using Suc.IH [of "(idx + 1) mod pa_length p" vs m] Suc.prems(1) vis None safe by simp
  next
    case (Some v)
    then show ?thesis using Suc.prems(1) vis safe by auto
  qed
qed auto

lemma fv_rounds_safe:
  "fv_rounds p P M n k idx (victims, mem) = Some (res, idx', victims', mem') \<Longrightarrow> victim_idx p < pa_length p \<Longrightarrow>
   \<forall>i. vi_paddr (victims i) = 0 \<or> victim_page p P M (victims i) \<Longrightarrow> only_accessed_cleared m0 mem \<Longrightarrow>
     (\<forall>i. vi_paddr (victims' i) = 0 \<or> victim_page p P M (victims' i)) \<and> only_accessed_cleared m0 mem' \<and>
     (\<forall>v. res = Some v \<longrightarrow> victim_page p P M v)"
proof (induction k arbitrary: idx victims mem)
  case (Suc k)
  obtain r i vs m where sc: "fv_scan p P M (k = 0) n (victim_idx p) (victims, mem) = Some (r, i, vs, m)"
    using Suc.prems(1) by (auto split: option.splits prod.splits)
  note safe = fv_scan_safe [OF sc Suc.prems(2-4)]
  show ?case
  proof (cases r)
    case None
    then show ?thesis using Suc.IH [of i vs m] Suc.prems sc safe by simp
  next
    case (Some v)
    then show ?thesis using Suc.prems(1) sc safe by auto
  qed
qed auto

text \<open>A frame that the scan takes into account, and the entry that it looks at.\<close>

definition scanned_frame :: "PAddressPool \<Rightarrow> u32 \<Rightarrow> nat" where
  "scanned_frame p idx = unat (PA2PGI (pa_startAddress p) + idx)"

definition candidate :: "PAddressPool \<Rightarrow> (nat \<Rightarrow> PageInfo) \<Rightarrow> u32 \<Rightarrow> bool" where
  "candidate p P idx \<longleftrightarrow> PageInfo_hasFlag (P (scanned_frame p idx)) PG_SINGLE \<and> PageInfo_getRef (P (scanned_frame p idx)) = 1"

lemma victim_page_eq:
  "victim_page p P M v \<longleftrightarrow> (\<exists>idx. idx < pa_length p \<and> vi_paddr v = pa_startAddress p + idx * PAGE_SIZE \<and>
     Buddy_isAlloc (pa_resources p) idx \<and> candidate p P idx \<and> vi_PTEptr v = pte_vaddr (M (pi_extra (P (scanned_frame p idx)))))"
  unfolding victim_page_def candidate_def scanned_frame_def Let_def by auto

subsubsection \<open>A candidate is found\<close>

definition filled :: "(nat \<Rightarrow> VictimInfo) \<Rightarrow> bool" where
  "filled vs \<longleftrightarrow> (\<exists>k\<in>{1, 2, 3}. vi_paddr (vs k) \<noteq> 0)"

definition named :: "(nat \<Rightarrow> VictimInfo) \<Rightarrow> bool" where
  "named vs \<longleftrightarrow> vi_paddr (vs 0) = 0 \<and> (\<forall>k. vi_paddr (vs k) \<noteq> 0 \<longrightarrow> vi_PTEptr (vs k) \<noteq> 0)"

definition reachable_entries :: "PAddressPool \<Rightarrow> (nat \<Rightarrow> PageInfo) \<Rightarrow> (nat \<Rightarrow> RMapEntry) \<Rightarrow> bool" where
  "reachable_entries p P M \<longleftrightarrow> (\<forall>idx<pa_length p. pa_startAddress p + idx * PAGE_SIZE \<noteq> 0 \<and>
     (candidate p P idx \<longrightarrow> pte_vaddr (M (pi_extra (P (scanned_frame p idx)))) \<noteq> 0))"

lemma fv_visit_fills:
  assumes v: "fv_visit p P M lst idx (vs, mem) = Some (res, vs', mem')" and i: "idx < pa_length p"
    and e: "reachable_entries p P M" and n: "named vs"
  shows "(res = None \<longrightarrow> named vs' \<and> (filled vs \<longrightarrow> filled vs') \<and> (lst \<longrightarrow> candidate p P idx \<longrightarrow> filled vs')) \<and> (\<forall>w. res = Some w \<longrightarrow> vi_paddr w \<noteq> 0)"
proof -
  have "pa_startAddress p + idx * PAGE_SIZE \<noteq> 0" "candidate p P idx \<Longrightarrow> pte_vaddr (M (pi_extra (P (scanned_frame p idx)))) \<noteq> 0"
    using e i by (auto simp: reachable_entries_def)
  then show ?thesis using v n
    unfolding fv_visit_def Let_def candidate_def scanned_frame_def [symmetric]
    by (auto simp: named_def filled_def split: if_splits)
qed

lemma next_index:
  fixes idx len :: u32
  assumes "idx < len"
  shows "(idx + 1) mod len < len" "(unat ((idx + 1) mod len) + j) mod unat len = (unat idx + Suc j) mod unat len"
proof -
  show "(idx + 1) mod len < len" using assms by (metis word_gt_0_no word_mod_less_divisor le_less_trans word_zero_le)
  have "unat idx < 2 ^ 32 - 1" using assms unat_bound [of len] by (simp add: word_less_nat_alt)
  then have "unat (idx + 1) = Suc (unat idx)" by (simp add: unat_word_ariths)
  then show "(unat ((idx + 1) mod len) + j) mod unat len = (unat idx + Suc j) mod unat len"
    by (simp add: unat_mod mod_add_left_eq)
qed

lemma fv_scan_fills:
  "fv_scan p P M lst n idx (vs, mem) = Some (res, idx', vs', mem') \<Longrightarrow> idx < pa_length p \<Longrightarrow> reachable_entries p P M \<Longrightarrow> named vs \<Longrightarrow>
     (\<forall>w. res = Some w \<longrightarrow> vi_paddr w \<noteq> 0) \<and> (res = None \<longrightarrow> named vs' \<and> (filled vs \<longrightarrow> filled vs')) \<and>
     (res = None \<longrightarrow> lst \<longrightarrow> (\<exists>j<n. candidate p P (word_of_nat ((unat idx + j) mod unat (pa_length p)))) \<longrightarrow> filled vs')"
proof (induction n arbitrary: idx vs mem)
  case (Suc n)
  obtain r vs1 m where vis: "fv_visit p P M lst idx (vs, mem) = Some (r, vs1, m)"
    using Suc.prems(1) by (auto split: option.splits prod.splits)
  note v = fv_visit_fills [OF vis Suc.prems(2-4)]
  note nx = next_index [OF Suc.prems(2)]
  show ?case
  proof (cases r)
    case None
    have sc: "fv_scan p P M lst n ((idx + 1) mod pa_length p) (vs1, m) = Some (res, idx', vs', mem')" using Suc.prems(1) vis None by simp
    have "named vs1" using v None by blast
    note ih = Suc.IH [OF sc nx(1) Suc.prems(3) this]
    have now: "filled vs'" if "lst" "res = None" "candidate p P (word_of_nat ((unat idx + j) mod unat (pa_length p)))" "j < Suc n" for j
    proof (cases j)
      case 0
      then have "candidate p P idx" using that(3) Suc.prems(2) by (simp add: word_less_nat_alt)
      then show ?thesis using v None that(1,2) ih by blast
    next
      case (Suc i)
      then show ?thesis using that v ih nx(2) by auto
    qed
    show ?thesis using v ih now None by blast
  next
    case (Some w)
    then show ?thesis using Suc.prems(1) vis v by auto
  qed
qed auto

lemma fv_rounds_fills:
  "fv_rounds p P M n k idx (vs, mem) = Some (res, idx', vs', mem') \<Longrightarrow> victim_idx p < pa_length p \<Longrightarrow> reachable_entries p P M \<Longrightarrow> named vs \<Longrightarrow>
     (\<forall>w. res = Some w \<longrightarrow> vi_paddr w \<noteq> 0) \<and> (res = None \<longrightarrow> named vs') \<and>
     (0 < k \<longrightarrow> res = None \<longrightarrow> (\<exists>j<n. candidate p P (word_of_nat ((unat (victim_idx p) + j) mod unat (pa_length p)))) \<longrightarrow> filled vs')"
proof (induction k arbitrary: idx vs mem)
  case (Suc k)
  obtain r i vs1 m where sc: "fv_scan p P M (k = 0) n (victim_idx p) (vs, mem) = Some (r, i, vs1, m)"
    using Suc.prems(1) by (auto split: option.splits prod.splits)
  note v = fv_scan_fills [OF sc Suc.prems(2-4)]
  show ?case
  proof (cases r)
    case None
    then have rr: "fv_rounds p P M n k i (vs1, m) = Some (res, idx', vs', mem')" using Suc.prems(1) sc by simp
    show ?thesis
    proof (cases k)
      case 0
      then show ?thesis using rr v None by auto
    next
      case (Suc l)
      then show ?thesis using Suc.IH [OF rr Suc.prems(2,3)] v None by blast
    qed
  next
    case (Some w)
    then show ?thesis using Suc.prems(1) sc v by auto
  qed
qed auto


definition clock_example :: PAddressPool where
  "clock_example = \<lparr>pa_resources = fresh_buddy (\<lambda>_. 1) 1, pa_startAddress = 0x200000, victim_idx = 0, pa_length = 1\<rparr>"

definition clock_pages :: "nat \<Rightarrow> PageInfo" where
  "clock_pages q = (if q = 0x200 then \<lparr>pi_ref = 1, pi_flags = PG_SINGLE, pi_extra = 5\<rparr> else \<lparr>pi_ref = 0, pi_flags = 0, pi_extra = 0\<rparr>)"

definition clock_map :: RMapManager where
  "clock_map = \<lparr>RMapStart = (\<lambda>_. RMap_zero)(5 := \<lparr>pte_paddr = 0x5000, pte_vaddr = 0xffc00000, rm_next = 0, rm_owner = 1\<rparr>),
     rm_bitmap = \<lparr>length_of = 8, bitmap_of = (\<lambda>_. 0x21)\<rparr>, rm_length = 8\<rparr>"

lemma clock_map_ok: "rmap_ok clock_map clock_pages (\<lambda>_. 0) (\<lambda>q. if q = 0x200 then [5] else [])"
  by (auto simp: rmap_ok_def clock_map_def clock_pages_def RMap_zero_def BitMap_get_def byte_test_def)

lemma clock_frame: "PA2PGI 0x200000 = 0x200"
  by (simp add: PA2PGI_def)

lemma clock_example_runs:
  "\<exists>mem. PAddressPool_findVictim clock_example clock_pages (RMapStart clock_map) (\<lambda>_. 0x21) 0 2 =
     Some (\<lparr>vi_PTEptr = 0xffc00000, vi_paddr = 0x200000\<rparr>, clock_example, mem)"
proof -
  have al: "Buddy_isAlloc (pa_resources clock_example) 0"
    by (simp add: clock_example_def fresh_buddy_def Buddy_isAlloc_def)
  have pg: "clock_pages (unat (PA2PGI (pa_startAddress clock_example) + 0)) = \<lparr>pi_ref = 1, pi_flags = PG_SINGLE, pi_extra = 5\<rparr>"
    by (simp add: clock_pages_def clock_example_def clock_frame)
  have en: "RMapStart clock_map 5 = \<lparr>pte_paddr = 0x5000, pte_vaddr = 0xffc00000, rm_next = 0, rm_owner = 1\<rparr>" by (simp add: clock_map_def)
  have v1: "fv_visit clock_example clock_pages (RMapStart clock_map) False 0 (vs, \<lambda>_. 0x21) =
      Some (None, vs, (\<lambda>_. 0x21)(0xffc00000 := 0x1))" for vs
    using al pg by (simp add: fv_visit_def Let_def en pg_flag_defs pte_flag_defs PageInfo_hasFlag_def PageInfo_getRef_def)
  have v2: "fv_visit clock_example clock_pages (RMapStart clock_map) True 0 (vs, (\<lambda>_. 0x21)(0xffc00000 := 0x1)) =
      Some (Some \<lparr>vi_PTEptr = 0xffc00000, vi_paddr = 0x200000\<rparr>,
        vs(0 := \<lparr>vi_PTEptr = 0xffc00000, vi_paddr = 0x200000\<rparr>), (\<lambda>_. 0x21)(0xffc00000 := 0x1))"
    if "vi_paddr (vs 0) = 0" for vs
    using al that pg by (simp add: fv_visit_def Let_def en pg_flag_defs pte_flag_defs
        PageInfo_hasFlag_def PageInfo_getRef_def) (simp add: clock_example_def)
  have f: "victim_idx clock_example = 0" "pa_length clock_example = 1" "clock_example\<lparr>victim_idx := 0\<rparr> = clock_example"
    by (simp_all add: clock_example_def)
  have two: "fv_rounds p P M n 2 i st = fv_rounds p P M n (Suc (Suc 0)) i st" for p P M n i st
    by (simp only: numeral_2_eq_2)
  show ?thesis by (simp add: PAddressPool_findVictim_def Let_def f two v1 v2)
qed


end
