(* ===== verification/Memory_Manager.thy ===== *)
theory Memory_Manager
  imports Mmu Address_Pool
begin

text \<open>
  The memory manager of \<^verbatim>\<open>src/kernel/memory.cpp\<close>: physical frames with their descriptors, virtual
  pages, the page tables that connect them, the temporary mapping slot and copy-on-write marking.
  The state is the manager's members, physical memory, the page-directory register and the running
  process (its pid and address pools).  Page-table entries are read and written through the window
  addresses, i.e. through the translation of the theory \<open>Mmu\<close>; \<open>None\<close> is a kernel that stops (a
  failed assertion, \<^verbatim>\<open>PANIC\<close>, a page fault in the kernel) or a loop that does not end.
\<close>

section \<open>State\<close>

datatype AddressPoolType = USER | KERNEL

record MM =
  kernelPhysical :: PAddressPool
  userPhysical :: PAddressPool
  kernelVirtual :: VAddressPool
  pageinfos :: "nat \<Rightarrow> PageInfo"
  rmapManager :: RMapManager
  phys :: phys_mem
  cr3 :: u32
  running :: "(u16 \<times> UserVAddressPool) option"

definition load :: "u32 \<Rightarrow> MM \<Rightarrow> u32 option" where
  "load va s = map_option (phys s) (translate (phys s) (cr3 s) va)"

definition store :: "u32 \<Rightarrow> u32 \<Rightarrow> MM \<Rightarrow> MM option" where
  "store va w s = map_option (\<lambda>pa. s\<lparr>phys := (phys s)(pa := w)\<rparr>) (translate (phys s) (cr3 s) va)"

definition upd_page :: "nat \<Rightarrow> (PageInfo \<Rightarrow> PageInfo) \<Rightarrow> MM \<Rightarrow> MM" where
  "upd_page i f s = s\<lparr>pageinfos := (pageinfos s)(i := f (pageinfos s i))\<rparr>"

definition running_pid :: "MM \<Rightarrow> u16" where
  "running_pid s = (case running s of None \<Rightarrow> 0 | Some (pid, _) \<Rightarrow> pid)"

section \<open>Physical frames\<close>

fun claim_frames :: "AddressPoolType \<Rightarrow> nat \<Rightarrow> nat \<Rightarrow> MM \<Rightarrow> MM option" where
  "claim_frames type pgi 0 s = Some s"
| "claim_frames type pgi (Suc n) s = do {
     ASSERT (PageInfo_hasFlag (pageinfos s pgi) PG_FREE);
     let s = upd_page pgi PageInfo_clear s;
     let s = (if type = KERNEL then upd_page pgi (PageInfo_setFlag PG_KERNEL) s else s);
     claim_frames type (pgi + 1) n s
   }"

definition allocatePhysicalPages :: "AddressPoolType \<Rightarrow> int \<Rightarrow> MM \<Rightarrow> (u32 \<times> MM) option" where
  "allocatePhysicalPages type count s =
     (let (start, s) = (case type of
            KERNEL \<Rightarrow> (let (a, p) = PAddressPool_allocate count (kernelPhysical s) in (a, s\<lparr>kernelPhysical := p\<rparr>))
          | USER \<Rightarrow> (let (a, p) = PAddressPool_allocate count (userPhysical s) in (a, s\<lparr>userPhysical := p\<rparr>)))
      in if start = - 1 then Some (0, s)
         else do {
           let pgi = unat (PA2PGI start);
           s \<leftarrow> claim_frames type pgi (nat count) s;
           if count = 1 then do {
             ASSERT (\<not> PageInfo_hasFlag (pageinfos s pgi) PG_SINGLE);
             Some (start, upd_page pgi (PageInfo_setFlag PG_SINGLE) s)
           }
           else Some (start, s)
         })"

fun mark_free :: "nat \<Rightarrow> nat \<Rightarrow> MM \<Rightarrow> MM option" where
  "mark_free pgi 0 s = Some s"
| "mark_free pgi (Suc n) s = do {
     ASSERT (\<not> PageInfo_hasFlag (pageinfos s pgi) PG_FREE);
     mark_free (pgi + 1) n (upd_page pgi (PageInfo_setFlag PG_FREE) s)
   }"

definition releasePhysicalPages :: "AddressPoolType \<Rightarrow> u32 \<Rightarrow> int \<Rightarrow> MM \<Rightarrow> MM option" where
  "releasePhysicalPages type paddr count s = do {
     s \<leftarrow> (case type of
            KERNEL \<Rightarrow> do { p \<leftarrow> PAddressPool_release paddr count (kernelPhysical s); Some (s\<lparr>kernelPhysical := p\<rparr>) }
          | USER \<Rightarrow> do { p \<leftarrow> PAddressPool_release paddr count (userPhysical s); Some (s\<lparr>userPhysical := p\<rparr>) });
     let pgi = unat (PA2PGI paddr);
     s \<leftarrow> mark_free pgi (nat count) s;
     if count = 1 then do {
       ASSERT (PageInfo_hasFlag (pageinfos s pgi) PG_SINGLE);
       Some (upd_page pgi (PageInfo_clearFlag PG_SINGLE) s)
     }
     else Some s
   }"

text \<open>\<open>w\<close> is the word that the boot loader left at \<^verbatim>\<open>MEMORY_SIZE_ADDRESS\<close>.\<close>

definition getTotalMemory :: "u32 \<Rightarrow> u32 \<Rightarrow> u32" where
  "getTotalMemory w totalMemory =
     (if totalMemory = 0
      then let low = w AND 0xffff; high = drop_bit 16 w AND 0xffff in low * 1024 + high * 64 * 1024
      else totalMemory)"

section \<open>Virtual pages\<close>

definition allocateVirtualPages ::
    "AddressPoolType \<Rightarrow> int \<Rightarrow> u8 \<Rightarrow> UserSegment \<Rightarrow> MM \<Rightarrow> (u32 \<times> MM) option" where
  "allocateVirtualPages type count vFlag seg s = do {
     (start, s) \<leftarrow> (case type of
         KERNEL \<Rightarrow> do {
           ASSERT (seg = EMPTY);
           (a, v) \<leftarrow> VAddressPool_allocate (kernelVirtual s) count vFlag False;
           Some (a, s\<lparr>kernelVirtual := v\<rparr>) }
       | USER \<Rightarrow> do {
           ASSERT (seg \<noteq> EMPTY);
           (pid, u) \<leftarrow> running s;
           (a, u) \<leftarrow> UserVAddressPool_allocate u seg (word_of_int count) vFlag False;
           Some (a, s\<lparr>running := Some (pid, u)\<rparr>) });
     Some (if start = - 1 then 0 else start, s)
   }"

definition releaseVirtualPages :: "AddressPoolType \<Rightarrow> u32 \<Rightarrow> int \<Rightarrow> UserSegment \<Rightarrow> MM \<Rightarrow> MM option" where
  "releaseVirtualPages type vaddr count seg s =
     (case type of
        KERNEL \<Rightarrow> do {
          ASSERT (seg = EMPTY);
          Some (s\<lparr>kernelVirtual := VAddressPool_release vaddr count (kernelVirtual s)\<rparr>) }
      | USER \<Rightarrow> do {
          ASSERT (seg \<noteq> EMPTY);
          (pid, u) \<leftarrow> running s;
          Some (s\<lparr>running := Some (pid, UserVAddressPool_release seg vaddr (word_of_int count) u)\<rparr>) })"

section \<open>Page tables\<close>

definition toPTEpa :: "u32 \<Rightarrow> MM \<Rightarrow> u32 option" where
  "toPTEpa vaddr s = do {
     pde \<leftarrow> load (toPDE vaddr) s;
     if pde AND PTE_PRESENT = 0 then Some 0
     else do { let pte_idx = drop_bit 12 vaddr AND 0x3ff; Some ((pde AND PTE_GET_ADDRESS) + push_bit 2 pte_idx) }
   }"

definition vaddr2paddr :: "u32 \<Rightarrow> MM \<Rightarrow> u32 option" where
  "vaddr2paddr vaddr s = do {
     pte \<leftarrow> load (toPTE vaddr) s;
     Some ((pte AND 0xfffff000) + (vaddr AND 0xfff))
   }"

definition MM_PDEinc :: "u32 \<Rightarrow> MM \<Rightarrow> MM option" where
  "MM_PDEinc PDEptr s = do { pde \<leftarrow> load PDEptr s; store PDEptr (PDEinc pde) s }"

definition MM_PDEdec :: "u32 \<Rightarrow> MM \<Rightarrow> (bool \<times> MM) option" where
  "MM_PDEdec PDEptr s = do {
     pde \<leftarrow> load PDEptr s;
     (zero, pde') \<leftarrow> PDEdec pde;
     s \<leftarrow> store PDEptr pde' s;
     Some (zero, s)
   }"

definition allocatePageTable :: "MM \<Rightarrow> (u32 \<times> MM) option" where
  "allocatePageTable s = do {
     (page, s) \<leftarrow> allocatePhysicalPages KERNEL 1 s;
     if page = 0 then Some (0, s)
     else do {
       let pgi = unat (PA2PGI page);
       pi \<leftarrow> PageInfo_incRef (pageinfos s pgi);
       Some (page, upd_page pgi (\<lambda>_. PageInfo_setFlag (PG_KERNEL OR PG_LOCKED) pi) s)
     }
   }"

definition releasePageTable :: "u32 \<Rightarrow> MM \<Rightarrow> MM option" where
  "releasePageTable PDEptr s = do {
     pde \<leftarrow> load PDEptr s;
     let page = pde AND PDE_GET_ADDRESS;
     let pgi = unat (PA2PGI page);
     ASSERT (PageInfo_hasFlag (pageinfos s pgi) PG_KERNEL);
     ASSERT (PageInfo_hasFlag (pageinfos s pgi) PG_LOCKED);
     ASSERT (PageInfo_getRef (pageinfos s pgi) = 1);
     s \<leftarrow> releasePhysicalPages KERNEL page 1 (upd_page pgi (PageInfo_clearFlag PG_LOCKED) s);
     store PDEptr 0 s
   }"

text \<open>Clearing the page table that the window shows at \<open>base\<close>.\<close>

definition clear_table :: "u32 \<Rightarrow> MM \<Rightarrow> MM option" where
  "clear_table base s = fold (\<lambda>i r. r \<bind> store (base + word_of_nat i * 4) 0) [0..<1024] (Some s)"

definition owner_type :: "u32 \<Rightarrow> MM \<Rightarrow> AddressPoolType option" where
  "owner_type virtualAddress s =
     (if VAddressPool_isValidAddr (kernelVirtual s) virtualAddress then Some KERNEL
      else do {
        (pid, u) \<leftarrow> running s;
        if UserVAddressPool_vaddr2Seg u virtualAddress \<noteq> EMPTY then Some USER else None })"

definition page_flags :: "u32 \<Rightarrow> MM \<Rightarrow> u32 option" where
  "page_flags virtualAddress s =
     (if VAddressPool_isValidAddr (kernelVirtual s) virtualAddress
      then map_option vPageFlags2PTE (VAddressPool_getVPageFlag (kernelVirtual s) virtualAddress)
      else do {
        (pid, u) \<leftarrow> running s;
        let seg = UserVAddressPool_vaddr2Seg u virtualAddress;
        if seg \<noteq> EMPTY then map_option vPageFlags2PTE (UserVAddressPool_getVPageFlag u seg virtualAddress) else None })"

definition attach_page :: "u32 \<Rightarrow> u32 \<Rightarrow> u32 \<Rightarrow> u16 \<Rightarrow> MM \<Rightarrow> (int \<times> MM) option" where
  "attach_page paddr pte_pa pte_va owner s = do {
     let pgi = unat (PA2PGI paddr);
     (idx, R, pi) \<leftarrow> RMap_attach (rmapManager s) (pageinfos s pgi) pte_pa pte_va owner;
     Some (idx, upd_page pgi (\<lambda>_. pi) (s\<lparr>rmapManager := R\<rparr>))
   }"

definition detach_page :: "u32 \<Rightarrow> u32 \<Rightarrow> u16 \<Rightarrow> MM \<Rightarrow> (bool \<times> MM) option" where
  "detach_page paddr pte_pa owner s = do {
     let pgi = unat (PA2PGI paddr);
     (found, R, pi) \<leftarrow> RMap_detach (rmapManager s) (pageinfos s pgi) pte_pa owner;
     Some (found, upd_page pgi (\<lambda>_. pi) (s\<lparr>rmapManager := R\<rparr>))
   }"

definition connectPhysicalVirtualPage :: "u32 \<Rightarrow> u32 \<Rightarrow> MM \<Rightarrow> (bool \<times> MM) option" where
  "connectPhysicalVirtualPage virtualAddress physicalPageAddress s = do {
     let pde = toPDE virtualAddress;
     let pte = toPTE virtualAddress;
     d \<leftarrow> load pde s;
     (ok, s) \<leftarrow>
       (if d AND PDE_PRESENT = 0 then do {
          (page, s) \<leftarrow> allocatePageTable s;
          if page = 0 then Some (False, s)
          else do {
            type \<leftarrow> owner_type virtualAddress s;
            s \<leftarrow> store pde (page OR (case type of KERNEL \<Rightarrow> PDE_KERNEL | USER \<Rightarrow> PDE_USER)) s;
            s \<leftarrow> clear_table (pte AND 0xfffff000) s;
            Some (True, s)
          }
        }
        else Some (True, s));
     if \<not> ok then Some (False, s)
     else do {
       pteFlag \<leftarrow> page_flags virtualAddress s;
       s \<leftarrow> store pte (physicalPageAddress OR pteFlag OR PTE_PRESENT) s;
       s \<leftarrow> MM_PDEinc pde s;
       let owner = running_pid s;
       pte_pa \<leftarrow> toPTEpa virtualAddress s;
       (idx, s) \<leftarrow> attach_page physicalPageAddress pte_pa pte owner s;
       ASSERT (idx \<noteq> - 1);
       Some (True, s)
     }
   }"

definition release_one_page :: "AddressPoolType \<Rightarrow> u32 \<Rightarrow> MM \<Rightarrow> MM option" where
  "release_one_page type vaddr s = do {
     let pde = toPDE vaddr;
     d \<leftarrow> load pde s;
     if d AND PDE_PRESENT = 0 then Some s
     else do {
       let pte = toPTE vaddr;
       e \<leftarrow> load pte s;
       if e AND PTE_PRESENT = 0 then store pte 0 s
       else do {
         paddr \<leftarrow> vaddr2paddr vaddr s;
         let owner = running_pid s;
         pte_pa \<leftarrow> toPTEpa vaddr s;
         (found, s) \<leftarrow> detach_page paddr pte_pa owner s;
         ASSERT found;
         s \<leftarrow> (if PageInfo_getRef (pageinfos s (unat (PA2PGI paddr))) = 0
              then releasePhysicalPages type paddr 1 s else Some s);
         s \<leftarrow> store pte 0 s;
         (last, s) \<leftarrow> MM_PDEdec pde s;
         if last then do { s \<leftarrow> releasePageTable pde s; store pde 0 s } else Some s
       }
     }
   }"

fun release_pages_loop :: "AddressPoolType \<Rightarrow> nat \<Rightarrow> u32 \<Rightarrow> MM \<Rightarrow> MM option" where
  "release_pages_loop type 0 vaddr s = Some s"
| "release_pages_loop type (Suc n) vaddr s =
     release_one_page type vaddr s \<bind> release_pages_loop type n (vaddr + PAGE_SIZE)"

definition releasePages :: "AddressPoolType \<Rightarrow> u32 \<Rightarrow> int \<Rightarrow> UserSegment \<Rightarrow> MM \<Rightarrow> MM option" where
  "releasePages type virtualAddress count seg s = do {
     s \<leftarrow> release_pages_loop type (nat count) virtualAddress s;
     releaseVirtualPages type virtualAddress count seg s
   }"

fun allocate_pages_loop ::
    "AddressPoolType \<Rightarrow> u32 \<Rightarrow> int \<Rightarrow> UserSegment \<Rightarrow> nat \<Rightarrow> nat \<Rightarrow> MM \<Rightarrow> (u32 \<times> MM) option" where
  "allocate_pages_loop type va count seg i 0 s = Some (va, s)"
| "allocate_pages_loop type va count seg i (Suc n) s = do {
     (pa, s) \<leftarrow> allocatePhysicalPages type 1 s;
     (flag, s) \<leftarrow> (if pa \<noteq> 0 then connectPhysicalVirtualPage (va + word_of_nat i * PAGE_SIZE) pa s else Some (False, s));
     if \<not> flag then do {
       s \<leftarrow> releasePages type va (int i) seg s;
       s \<leftarrow> releaseVirtualPages type (va + word_of_nat i * PAGE_SIZE) (count - int i) seg s;
       Some (0, s)
     }
     else allocate_pages_loop type va count seg (i + 1) n s
   }"

definition allocatePages :: "AddressPoolType \<Rightarrow> int \<Rightarrow> u8 \<Rightarrow> UserSegment \<Rightarrow> MM \<Rightarrow> (u32 \<times> MM) option" where
  "allocatePages type count vFlag seg s = do {
     (va, s) \<leftarrow> allocateVirtualPages type count vFlag seg s;
     if va = 0 then Some (0, s) else allocate_pages_loop type va count seg 0 (nat count) s
   }"

section \<open>Lazy allocation, temporary mappings, copy on write\<close>

text \<open>
  When no page table can be allocated the code rolls back and goes on: the directory entry is then
  written with frame 0 and the window page over it is cleared.
\<close>

fun allocate_lazy_loop ::
    "AddressPoolType \<Rightarrow> u32 \<Rightarrow> int \<Rightarrow> UserSegment \<Rightarrow> nat \<Rightarrow> nat \<Rightarrow> MM \<Rightarrow> (u32 \<times> MM) option" where
  "allocate_lazy_loop type start count seg i 0 s = Some (start, s)"
| "allocate_lazy_loop type start count seg i (Suc n) s = do {
     let vaddr = start + word_of_nat i * PAGE_SIZE;
     let pde = toPDE vaddr;
     let pte = toPTE vaddr;
     d \<leftarrow> load pde s;
     s \<leftarrow> (if d AND PDE_PRESENT = 0 then do {
            (page, s) \<leftarrow> allocatePageTable s;
            s \<leftarrow> (if page = 0 then do {
                   s \<leftarrow> releasePages type start (int i) seg s;
                   releaseVirtualPages type (start + word_of_nat i * PAGE_SIZE) (count - int i) seg s }
                 else Some s);
            s \<leftarrow> store pde (page OR (case type of KERNEL \<Rightarrow> PDE_KERNEL | USER \<Rightarrow> PDE_USER)) s;
            clear_table (pte AND 0xfffff000) s }
          else Some s);
     s \<leftarrow> store pte (PTE_LAZY OR PTE_WRITABLE) s;
     s \<leftarrow> MM_PDEinc pde s;
     allocate_lazy_loop type start count seg (i + 1) n s
   }"

definition allocatePagesLazy :: "AddressPoolType \<Rightarrow> int \<Rightarrow> u8 \<Rightarrow> UserSegment \<Rightarrow> MM \<Rightarrow> (u32 \<times> MM) option" where
  "allocatePagesLazy type count flag seg s = do {
     (start, s) \<leftarrow> allocateVirtualPages type count flag seg s;
     if start = 0 then Some (0, s) else allocate_lazy_loop type start count seg 0 (nat count) s
   }"

definition mapTemp :: "AddressPoolType \<Rightarrow> u32 \<Rightarrow> MM \<Rightarrow> (u32 \<times> MM) option" where
  "mapTemp type paddr s = do {
     ASSERT (type = KERNEL);
     let base = paddr AND NOT 0xfff;
     let offset = paddr AND 0xfff;
     let vaddr = va_startAddress (kernelVirtual s);
     if vaddr = 0 then Some (0, s)
     else do {
       let pde = toPDE vaddr;
       let pte = toPTE vaddr;
       d \<leftarrow> load pde s;
       (ok, s) \<leftarrow> (if d AND PDE_PRESENT = 0 then do {
            (page, s) \<leftarrow> allocatePageTable s;
            if page = 0 then Some (False, s)
            else do {
              s \<leftarrow> store pde (page OR PDE_KERNEL) s;
              s \<leftarrow> clear_table (pte AND 0xfffff000) s;
              Some (True, s) } }
          else Some (True, s));
       if \<not> ok then Some (0, s)
       else do {
         e \<leftarrow> load pte s;
         ASSERT (e mod PAGE_SIZE = 0);
         s \<leftarrow> store pte (base OR 0x7) s;
         Some (vaddr + offset, s)
       }
     }
   }"

definition unmapTemp :: "AddressPoolType \<Rightarrow> MM \<Rightarrow> MM option" where
  "unmapTemp type s = do {
     ASSERT (type = KERNEL);
     let vaddr = va_startAddress (kernelVirtual s);
     let pte = toPTE vaddr;
     e \<leftarrow> load pte s;
     ASSERT (e AND PTE_PRESENT \<noteq> 0);
     ASSERT (e AND PTE_GET_ADDRESS \<noteq> 0);
     store pte 0 s
   }"

definition cow_entry :: "u32 \<Rightarrow> MM \<Rightarrow> MM option" where
  "cow_entry pa s = do {
     ASSERT (pa \<noteq> 0);
     (tmp, s) \<leftarrow> mapTemp KERNEL pa s;
     ASSERT (tmp \<noteq> 0);
     e \<leftarrow> load tmp s;
     s \<leftarrow> store tmp ((e OR PTE_COW) AND NOT PTE_WRITABLE) s;
     unmapTemp KERNEL s
   }"

partial_function (option) cow_loop :: "nat \<Rightarrow> MM \<Rightarrow> MM option" where
  "cow_loop cnt s =
     (if cnt \<noteq> 0 then
        Option.bind (cow_entry (pte_paddr (RMapStart (rmapManager s) cnt)) s)
          (\<lambda>s'. cow_loop (rm_next (RMapStart (rmapManager s') cnt)) s')
      else Some s)"

definition RMap_setCOW :: "nat \<Rightarrow> MM \<Rightarrow> (bool \<times> MM) option" where
  "RMap_setCOW pgi s =
     (let pi = pageinfos s pgi in
      if PageInfo_hasFlag pi PG_FREE then Some (False, s)
      else if PageInfo_getRef pi = 0 then Some (False, s)
      else if \<not> (PageInfo_hasFlag pi PG_KERNEL \<and> PageInfo_hasFlag pi PG_RESERVED) \<and> pi_extra pi = 0 then Some (False, s)
      else do { s \<leftarrow> cow_loop (pi_extra pi) s; Some (True, s) })"

definition MM_setCOW :: "nat \<Rightarrow> MM \<Rightarrow> (bool \<times> MM) option" where
  "MM_setCOW pgi s = RMap_setCOW pgi s"

definition MM_findVictim :: "AddressPoolType \<Rightarrow> (u32 \<Rightarrow> u32) \<Rightarrow> MM \<Rightarrow> (VictimInfo \<times> MM \<times> (u32 \<Rightarrow> u32)) option" where
  "MM_findVictim type mem s = do {
     (v, p, mem) \<leftarrow> PAddressPool_findVictim (kernelPhysical s) (pageinfos s) (RMapStart (rmapManager s)) mem
        (case type of KERNEL \<Rightarrow> 0 | USER \<Rightarrow> 1000) (case type of KERNEL \<Rightarrow> 3 | USER \<Rightarrow> 2);
     Some (v, s\<lparr>kernelPhysical := p\<rparr>, mem)
   }"

section \<open>Page directories and the pools of a process\<close>

definition allocatePageDirTable :: "u16 \<Rightarrow> MM \<Rightarrow> (u32 \<times> MM) option" where
  "allocatePageDirTable owner s = do {
     (vaddr, s) \<leftarrow> allocatePages KERNEL 1 VP_RW EMPTY s;
     if vaddr = 0 then Some (0, s)
     else do {
       page \<leftarrow> vaddr2paddr vaddr s;
       pte_pa \<leftarrow> toPTEpa vaddr s;
       (pid, _) \<leftarrow> running s;
       (found, s) \<leftarrow> detach_page page pte_pa pid s;
       ASSERT found;
       (_, s) \<leftarrow> attach_page page pte_pa (toPTE vaddr) owner s;
       Some (vaddr, upd_page (unat (PA2PGI page)) (PageInfo_setFlag (PG_KERNEL OR PG_LOCKED)) s)
     }
   }"

definition releasePageDirTable :: "u32 \<Rightarrow> MM \<Rightarrow> MM option" where
  "releasePageDirTable pageDirAddr s = do {
     page \<leftarrow> vaddr2paddr pageDirAddr s;
     let pgi = unat (PA2PGI page);
     ASSERT (PageInfo_hasFlag (pageinfos s pgi) PG_KERNEL);
     ASSERT (PageInfo_hasFlag (pageinfos s pgi) PG_LOCKED);
     ASSERT (PageInfo_getRef (pageinfos s pgi) = 1);
     releasePages KERNEL pageDirAddr 1 EMPTY (upd_page pgi (PageInfo_clearFlag PG_LOCKED) s)
   }"

text \<open>Moving the reverse-map entries of \<open>n\<close> pages from one owner to another.\<close>

fun change_owner :: "u16 \<Rightarrow> u16 \<Rightarrow> nat \<Rightarrow> u32 \<Rightarrow> MM \<Rightarrow> MM option" where
  "change_owner from_pid to_pid 0 vaddr s = Some s"
| "change_owner from_pid to_pid (Suc n) vaddr s = do {
     paddr \<leftarrow> vaddr2paddr vaddr s;
     pte_pa \<leftarrow> toPTEpa vaddr s;
     (_, s) \<leftarrow> detach_page paddr pte_pa from_pid s;
     (_, s) \<leftarrow> attach_page paddr pte_pa (toPTE vaddr) to_pid s;
     change_owner from_pid to_pid n (vaddr + PAGE_SIZE) s
   }"

record VAPConfigLite =
  cl_length :: u32
  cl_start_addr :: u32
  cl_end_addr :: u32
  cl_static_privilege :: u8
  cl_is_static :: bool

definition pool_sizes :: "u32 \<Rightarrow> u32 \<Rightarrow> u32 \<Rightarrow> u32 \<Rightarrow> u32 \<times> u32" where
  "pool_sizes heap stack tls mmap =
     (let by = (\<lambda>n. word_of_int (c_ceil (sint n) 8))
      in (ALIGN PAGE_SIZE (by heap + by stack + by tls + by mmap), ALIGN PAGE_SIZE (tls + mmap)))"

definition pool_storage :: "u32 \<times> u32 \<Rightarrow> u16 \<Rightarrow> MM \<Rightarrow> ((u32 \<times> u32) option \<times> MM) option" where
  "pool_storage sizes owner s = do {
     let bitmapPages = fst sizes div PAGE_SIZE;
     let privPages = snd sizes div PAGE_SIZE;
     (bStart, s) \<leftarrow> allocatePages KERNEL (uint bitmapPages) VP_RW EMPTY s;
     (pStart, s) \<leftarrow> allocatePages KERNEL (uint privPages) VP_RW EMPTY s;
     if bStart = 0 \<or> pStart = 0 then do {
       s \<leftarrow> releasePages KERNEL bStart (uint bitmapPages) EMPTY s;
       s \<leftarrow> releasePages KERNEL pStart (uint privPages) EMPTY s;
       Some (None, s) }
     else do {
       (pid, _) \<leftarrow> running s;
       s \<leftarrow> change_owner pid owner (unat bitmapPages) bStart s;
       s \<leftarrow> change_owner pid owner (unat privPages) pStart s;
       Some (Some (bStart, pStart), s) }
   }"

definition config_pool :: "VAPConfigLite \<Rightarrow> (nat \<Rightarrow> u8) option \<Rightarrow> VAddressPool option" where
  "config_pool conf privs =
     VAddressPool_initialize (\<lambda>_. 0) (sint (cl_length conf)) (cl_start_addr conf) (cl_end_addr conf) privs
       (cl_static_privilege conf) (cl_is_static conf)"

definition UserVAddressPool_initialize ::
    "SegBoundary \<Rightarrow> VAPConfigLite \<Rightarrow> VAPConfigLite \<Rightarrow> VAPConfigLite \<Rightarrow> VAPConfigLite \<Rightarrow> u16 \<Rightarrow> UserVAddressPool \<Rightarrow> MM \<Rightarrow>
       (bool \<times> UserVAddressPool \<times> MM) option" where
  "UserVAddressPool_initialize segs heapConf stackConf mmapConf TLSConf owner u s = do {
     ASSERT (\<not> isInitialized u);
     let u = u\<lparr>uva_owner := owner\<rparr>;
     let sizes = pool_sizes (cl_length heapConf) (cl_length stackConf) (cl_length TLSConf) (cl_length mmapConf);
     (st, s) \<leftarrow> pool_storage sizes owner s;
     case st of
       None \<Rightarrow> Some (False, u, s)
     | Some (bStart, pStart) \<Rightarrow> do {
         heap \<leftarrow> config_pool heapConf None;
         stack \<leftarrow> config_pool stackConf None;
         mmap \<leftarrow> config_pool mmapConf (Some (\<lambda>_. 0));
         tls \<leftarrow> config_pool TLSConf (Some (\<lambda>_. 0));
         ASSERT (va_isStatic heap \<and> va_isStatic stack);
         ASSERT (VAddressPool_getVPageFlag heap 0 = Some (VP_RW OR VP_USER));
         ASSERT (VAddressPool_getVPageFlag stack 0 = Some (VP_RW OR VP_USER));
         Some (True, u\<lparr>segBoundary := segs, heapPool := heap, stackPool := stack, mmapPool := mmap, TLSPool := tls,
           bitmapStart := bStart, bitmapPage := fst sizes div PAGE_SIZE, privStart := pStart,
           privPage := snd sizes div PAGE_SIZE, isInitialized := True\<rparr>, s)
       }
   }"

text \<open>A fork copies the geometry, then the bitmaps and the privileges of the dynamic pools.\<close>

definition clone_pool :: "VAddressPool \<Rightarrow> VAddressPool option" where
  "clone_pool parent = do {
     v \<leftarrow> VAddressPool_clone parent (\<lambda>_. 0) (if va_isStatic parent then None else Some (va_privileges parent));
     Some (v\<lparr>va_resources := (va_resources v)\<lparr>bitmap_of :=
       (\<lambda>i. if int i < c_ceil (va_length parent) 8 then bitmap_of (va_resources parent) i else 0)\<rparr>\<rparr>)
   }"

definition UserVAddressPool_cloneFrom ::
    "UserVAddressPool \<Rightarrow> u16 \<Rightarrow> UserVAddressPool \<Rightarrow> MM \<Rightarrow> (bool \<times> UserVAddressPool \<times> MM) option" where
  "UserVAddressPool_cloneFrom parent owner u s = do {
     ASSERT (\<not> isInitialized u);
     let u = u\<lparr>uva_owner := owner\<rparr>;
     if \<not> isInitialized parent then Some (False, u, s)
     else do {
       let len = (\<lambda>v. word_of_int (va_length v));
       let sizes = pool_sizes (len (heapPool parent)) (len (stackPool parent)) (len (TLSPool parent)) (len (mmapPool parent));
       (st, s) \<leftarrow> pool_storage sizes owner s;
       case st of
         None \<Rightarrow> Some (False, u, s)
       | Some (bStart, pStart) \<Rightarrow> do {
           heap \<leftarrow> clone_pool (heapPool parent);
           stack \<leftarrow> clone_pool (stackPool parent);
           tls \<leftarrow> clone_pool (TLSPool parent);
           mmap \<leftarrow> clone_pool (mmapPool parent);
           ASSERT (va_isStatic heap \<and> va_isStatic stack);
           ASSERT (VAddressPool_getVPageFlag heap 0 = Some (VP_RW OR VP_USER));
           ASSERT (VAddressPool_getVPageFlag stack 0 = Some (VP_RW OR VP_USER));
           ASSERT (va_length stack \<noteq> 0);
           Some (True, u\<lparr>segBoundary := segBoundary parent, heapPool := heap, stackPool := stack, TLSPool := tls,
             mmapPool := mmap, bitmapStart := bStart, bitmapPage := fst sizes div PAGE_SIZE, privStart := pStart,
             privPage := snd sizes div PAGE_SIZE, isInitialized := True\<rparr>, s)
         }
     }
   }"

definition UserVAddressPool_destroy :: "UserVAddressPool \<Rightarrow> MM \<Rightarrow> (UserVAddressPool \<times> MM) option" where
  "UserVAddressPool_destroy u s =
     (if \<not> isInitialized u then Some (u, s)
      else do {
        (pid, _) \<leftarrow> running s;
        s \<leftarrow> (if pid = uva_owner u then Some s
             else do {
               s \<leftarrow> change_owner (uva_owner u) pid (unat (bitmapPage u)) (bitmapStart u) s;
               change_owner (uva_owner u) pid (unat (privPage u)) (privStart u) s });
        s \<leftarrow> releasePages KERNEL (bitmapStart u) (sint (bitmapPage u)) EMPTY s;
        s \<leftarrow> releasePages KERNEL (privStart u) (sint (privPage u)) EMPTY s;
        Some (u\<lparr>bitmapStart := 0, privStart := 0, bitmapPage := 0, privPage := 0, uva_owner := 0, isInitialized := False\<rparr>, s)
      })"

definition release_user_page_table_force :: "u32 \<Rightarrow> MM \<Rightarrow> MM option" where
  "release_user_page_table_force PDEptr s = releasePageTable PDEptr s"

definition USER_VADDR_END :: u32 where "USER_VADDR_END = 0xBFFFFFFF"

definition destroy_stride :: u32 where "destroy_stride = PAGE_SIZE * PAGE_SIZE"

function force_loop :: "u32 \<Rightarrow> MM \<Rightarrow> MM option" where
  "force_loop vaddr s =
     (if vaddr \<le> USER_VADDR_END then do {
        let PDEptr = toPDE vaddr;
        pde \<leftarrow> load PDEptr s;
        s \<leftarrow> (if pde AND PDE_PRESENT \<noteq> 0 then release_user_page_table_force PDEptr s else Some s);
        force_loop (vaddr + destroy_stride) s
      }
      else Some s)"
  by pat_completeness auto
termination
proof (relation "measure (\<lambda>(v, s). 2 ^ 32 - unat v)")
  fix v s x y z
  assume "v \<le> USER_VADDR_END"
  then have "unat v \<le> 0xBFFFFFFF" by (simp add: word_le_nat_alt USER_VADDR_END_def)
  then have "unat (v + destroy_stride) = unat v + 0x1000000"
    by (subst unat_add_lem [THEN iffD1]) (simp_all add: destroy_stride_def PAGE_SIZE_def)
  then show "((v + destroy_stride, z), v, s) \<in> measure (\<lambda>(v, s). 2 ^ 32 - unat v)"
    using \<open>unat v \<le> 0xBFFFFFFF\<close> by simp
qed simp

declare force_loop.simps [simp del]

definition release_segment :: "Boundary \<Rightarrow> UserSegment \<Rightarrow> MM \<Rightarrow> MM option" where
  "release_segment b seg s =
     (if b_start b \<le> b_end b then releasePages USER (b_start b) (sint ((b_end b - b_start b + 1) div PAGE_SIZE)) seg s
      else Some s)"

definition destroyUserVAPool :: "UserVAddressPool \<Rightarrow> u32 \<Rightarrow> MM \<Rightarrow> (UserVAddressPool \<times> MM) option" where
  "destroyUserVAPool u pageDirVAddr s = do {
     s \<leftarrow> release_segment (seg_text (segBoundary u)) TEXT s;
     s \<leftarrow> release_segment (seg_data (segBoundary u)) DATA s;
     s \<leftarrow> release_segment (seg_bss (segBoundary u)) BSS s;
     s \<leftarrow> releasePages USER (va_startAddress (heapPool u)) (va_length (heapPool u)) HEAP s;
     s \<leftarrow> releasePages USER (va_startAddress (stackPool u)) (va_length (stackPool u)) STACK s;
     s \<leftarrow> releasePages USER (va_startAddress (mmapPool u)) (va_length (mmapPool u)) MMAP s;
     s \<leftarrow> releasePages USER (va_startAddress (TLSPool u)) (va_length (TLSPool u)) TLS s;
     s \<leftarrow> force_loop 0 s;
     s \<leftarrow> releasePageDirTable pageDirVAddr (s\<lparr>cr3 := PAGE_DIRECTORY\<rparr>);
     UserVAddressPool_destroy u s
   }"

section \<open>Window accesses\<close>

abbreviation self_mapped :: "MM \<Rightarrow> bool" where
  "self_mapped s \<equiv> self_map (phys s) (cr3 s)"

definition dir_entry :: "u32 \<Rightarrow> MM \<Rightarrow> u32" where
  "dir_entry v s = phys s (pde_at (cr3 s) v)"

lemma load_toPDE: "self_mapped s \<Longrightarrow> load (toPDE v) s = Some (dir_entry v s)"
  by (simp add: load_def translate_toPDE dir_entry_def)

lemma store_toPDE: "self_mapped s \<Longrightarrow> store (toPDE v) w s = Some (s\<lparr>phys := (phys s)(pde_at (cr3 s) v := w)\<rparr>)"
  by (simp add: store_def translate_toPDE)

lemma load_toPTE:
  "self_mapped s \<Longrightarrow> dir_entry v s AND PDE_PRESENT \<noteq> 0 \<Longrightarrow> load (toPTE v) s = Some (phys s (pte_at (dir_entry v s) v))"
  by (simp add: load_def translate_toPTE dir_entry_def)

lemma store_toPTE:
  "self_mapped s \<Longrightarrow> dir_entry v s AND PDE_PRESENT \<noteq> 0 \<Longrightarrow>
     store (toPTE v) w s = Some (s\<lparr>phys := (phys s)(pte_at (dir_entry v s) v := w)\<rparr>)"
  by (simp add: store_def translate_toPTE dir_entry_def)

lemma self_map_upd: "self_map m c \<Longrightarrow> a \<noteq> c + 4092 \<Longrightarrow> self_map (m(a := w)) c"
  by (simp add: self_map_def)

text \<open>Counting a mapping changes neither the table's frame nor the present bit.\<close>

lemma and_submask: "x AND NOT m = y AND NOT m \<Longrightarrow> f AND m = 0 \<Longrightarrow> x AND f = y AND f" for x y m f :: u32
proof -
  assume a: "x AND NOT m = y AND NOT m" "f AND m = 0"
  show ?thesis
  proof (rule bit_word_eqI)
    fix n assume "n < LENGTH(32)"
    have "bit (x AND NOT m) n = bit (y AND NOT m) n" "\<not> bit (f AND m) n" using a by simp_all
    then show "bit (x AND f) n = bit (y AND f) n"
      using \<open>n < LENGTH(32)\<close> by (auto simp: bit_and_iff bit_not_iff)
  qed
qed

lemma PDEinc_keeps:
  "PDEinc pde AND PDE_GET_ADDRESS = pde AND PDE_GET_ADDRESS" "PDEinc pde AND PDE_PRESENT = pde AND PDE_PRESENT"
proof -
  have k: "PDEinc pde AND NOT PDE_COUNT_MASK = pde AND NOT PDE_COUNT_MASK"
    by (simp add: PDEinc_def Let_def SET_COUNT_rest)
  show "PDEinc pde AND PDE_GET_ADDRESS = pde AND PDE_GET_ADDRESS" "PDEinc pde AND PDE_PRESENT = pde AND PDE_PRESENT"
    by (rule and_submask [OF k], simp add: PDE_GET_ADDRESS_def PDE_PRESENT_def PDE_COUNT_MASK_def)+
qed

lemma PDEdec_keeps:
  "PDEdec pde = Some (z, pde') \<Longrightarrow> pde' AND NOT PDE_COUNT_MASK = pde AND NOT PDE_COUNT_MASK"
  by (auto simp: PDEdec_def Let_def SET_COUNT_rest split: if_splits)

lemma vPageFlags2PTE_bits: "vPageFlags2PTE fl AND PTE_GET_ADDRESS = 0"
  by (simp add: vPageFlags2PTE_def Let_def pte_flag_defs)

section \<open>Connecting a page\<close>

lemma page_flags_bits: "page_flags v s = Some fl \<Longrightarrow> fl AND PTE_GET_ADDRESS = 0"
  by (auto simp: page_flags_def Let_def vPageFlags2PTE_bits bind_eq_Some_conv split: if_splits)

lemma entry_frame:
  assumes "page_aligned pa" and "fl AND PTE_GET_ADDRESS = 0"
  shows "(pa OR fl OR PTE_PRESENT) AND PTE_GET_ADDRESS = pa" "(pa OR fl OR PTE_PRESENT) AND PTE_PRESENT \<noteq> 0"
proof -
  have "pa AND NOT (mask 12) = pa"
    using split_page [of pa] assms(1) unfolding page_aligned_def by (simp only: mask_consts(3)) simp
  then have pa: "pa AND PTE_GET_ADDRESS = pa" by (simp only: PTE_GET_ADDRESS_def mask_consts(2))
  have "PTE_PRESENT AND PTE_GET_ADDRESS = 0" by (simp add: pte_flag_defs)
  then show "(pa OR fl OR PTE_PRESENT) AND PTE_GET_ADDRESS = pa"
    using assms(2) pa by (simp only: bit.conj_disj_distrib2 or.right_neutral)
  have "(x OR PTE_PRESENT) AND PTE_PRESENT = PTE_PRESENT" for x
    by (rule bit_word_eqI) (auto simp: bit_and_iff bit_or_iff)
  then show "(pa OR fl OR PTE_PRESENT) AND PTE_PRESENT \<noteq> 0"
    by (metis or.assoc PTE_PRESENT_def one_neq_zero)
qed

lemma dirw_of_table:
  assumes "self_mapped s" and "dir_entry v s AND PDE_GET_ADDRESS \<noteq> cr3 s"
  shows "pde_at (cr3 s) v \<noteq> cr3 s + 4092"
  using assms unfolding self_map_def dir_entry_def by metis

lemma GET_ADDRESS_same: "PTE_GET_ADDRESS = PDE_GET_ADDRESS" "PTE_PRESENT = PDE_PRESENT"
  by (simp_all add: pte_flag_defs pde_flag_defs)

lemma toPTEpa_window:
  assumes "self_mapped s" and "dir_entry v s AND PDE_PRESENT \<noteq> 0"
  shows "toPTEpa v s = Some (pte_at (dir_entry v s) v)"
  using assms by (simp add: toPTEpa_def load_toPDE pte_at_def tabw_def push_bit_eq_mult GET_ADDRESS_same)

lemma pte_at_cong: "d AND PDE_GET_ADDRESS = d' AND PDE_GET_ADDRESS \<Longrightarrow> pte_at d v = pte_at d' v"
  by (simp add: pte_at_def)

text \<open>The memory after the two stores: the table entry and the counted directory entry.\<close>

lemma connect_stores:
  fixes e :: u32
  assumes self: "self_mapped s" and pres: "dir_entry v s AND PDE_PRESENT \<noteq> 0"
    and tab: "dir_entry v s AND PDE_GET_ADDRESS \<noteq> cr3 s"
  defines "pte \<equiv> pte_at (dir_entry v s) v" and "pde \<equiv> pde_at (cr3 s) v"
  defines "s2 \<equiv> s\<lparr>phys := (phys s)(pte := e, pde := PDEinc (dir_entry v s))\<rparr>"
  shows "store (toPTE v) e s \<bind> MM_PDEinc (toPDE v) = Some s2" and "self_mapped s2"
    and "dir_entry v s2 = PDEinc (dir_entry v s)" and "phys s2 pte = e"
proof -
  have al: "page_aligned (cr3 s)" by (rule self_map_aligned [OF self])
  have ne: "pte \<noteq> pde" "pte \<noteq> cr3 s + 4092" unfolding pte_def pde_def by (rule pte_not_pde [OF al tab])+
  have ne2: "pde \<noteq> cr3 s + 4092" unfolding pde_def by (rule dirw_of_table [OF self tab])
  define s1 where "s1 = s\<lparr>phys := (phys s)(pte := e)\<rparr>"
  have self1: "self_mapped s1" using self ne(2) by (simp add: s1_def self_map_upd)
  have d1: "dir_entry v s1 = dir_entry v s" using ne(1) by (simp add: s1_def dir_entry_def pde_def)
  have st: "store (toPTE v) e s = Some s1" unfolding s1_def pte_def by (rule store_toPTE [OF self pres])
  have "MM_PDEinc (toPDE v) s1 = Some s2"
    using load_toPDE [OF self1, of v] store_toPDE [OF self1, of v] d1
    by (simp add: MM_PDEinc_def) (simp add: s1_def s2_def pde_def)
  then show "store (toPTE v) e s \<bind> MM_PDEinc (toPDE v) = Some s2" by (simp add: st)
  show "self_mapped s2" using self ne(2) ne2 by (simp add: s2_def self_map_upd)
  show "dir_entry v s2 = PDEinc (dir_entry v s)" by (simp add: s2_def dir_entry_def pde_def)
  show "phys s2 pte = e" using ne(1) by (simp add: s2_def)
qed

text \<open>The state behind a connected page.\<close>

lemma connect_effect:
  assumes self: "self_mapped s" and pres: "dir_entry v s AND PDE_PRESENT \<noteq> 0"
    and tab: "dir_entry v s AND PDE_GET_ADDRESS \<noteq> cr3 s" and pa: "page_aligned pa"
    and fl: "page_flags v s = Some fl" and rm: "rmap_ok (rmapManager s) (pageinfos s) base X"
    and ref: "unat (pi_ref (pageinfos s (unat (PA2PGI pa)))) < 0xFFFF"
    and room: "\<exists>j. int j < rm_length (rmapManager s) \<and> \<not> BitMap_get (rm_bitmap (rmapManager s)) j"
  defines "q \<equiv> unat (PA2PGI pa)" and "pte \<equiv> pte_at (dir_entry v s) v" and "e \<equiv> pa OR fl OR PTE_PRESENT"
  shows "\<exists>R p i. connectPhysicalVirtualPage v pa s = Some (True, s\<lparr>phys := (phys s)(pte := e, pde_at (cr3 s) v := PDEinc (dir_entry v s)),
      rmapManager := R, pageinfos := (pageinfos s)(q := p)\<rparr>) \<and> pi_flags p = pi_flags (pageinfos s q) \<and>
    rmap_ok R ((pageinfos s)(q := p)) base (X(q := i # X q)) \<and>
    mappings R (i # X q) = (pte, toPTE v, running_pid s) # mappings (rmapManager s) (X q)"
proof -
  define s2 where "s2 = s\<lparr>phys := (phys s)(pte := e, pde_at (cr3 s) v := PDEinc (dir_entry v s))\<rparr>"
  note cs = connect_stores [OF self pres tab, where e = e, folded pte_def, folded s2_def]
  have pres2: "dir_entry v s2 AND PDE_PRESENT \<noteq> 0" using pres cs(3) by (simp add: PDEinc_keeps)
  have pt2: "pte_at (dir_entry v s2) v = pte" unfolding cs(3) pte_def by (rule pte_at_cong) (rule PDEinc_keeps)
  obtain i R' p' where att: "RMap_attach (rmapManager s) (pageinfos s q) pte (toPTE v) (running_pid s) = Some (int i, R', p')"
      and ok': "rmap_ok R' ((pageinfos s)(q := p')) base (X(q := i # X q))" and fp: "pi_flags p' = pi_flags (pageinfos s q)"
      and map': "mappings R' (i # X q) = (pte, toPTE v, running_pid s) # mappings (rmapManager s) (X q)"
    using room by (cases rule: RMap_attach_ok [OF rm ref [folded q_def], of pte "toPTE v" "running_pid s"]) auto
  define s' where "s' = s2\<lparr>rmapManager := R', pageinfos := (pageinfos s)(q := p')\<rparr>"
  have ap: "attach_page pa pte (toPTE v) (running_pid s) s2 = Some (int i, s')"
    using att by (simp add: attach_page_def q_def [symmetric] s'_def) (simp add: s2_def upd_page_def)
  have run2: "running_pid s2 = running_pid s" by (simp add: running_pid_def s2_def)
  obtain s1 where "store (toPTE v) e s = Some s1" "MM_PDEinc (toPDE v) s1 = Some s2"
    using cs(1) unfolding bind_eq_Some_conv by blast
  then have "connectPhysicalVirtualPage v pa s = Some (True, s')"
    using ap toPTEpa_window [OF cs(2) pres2] pt2 run2 load_toPDE [OF self, of v] pres fl
    by (simp add: connectPhysicalVirtualPage_def Let_def e_def)
  then show ?thesis using fp ok' map' unfolding s'_def s2_def by (intro exI conjI) simp_all
qed

text \<open>
  \<^bold>\<open>C11\<close>: Connecting a frame to a virtual page whose page table exists.  The call returns true
  (unless the reverse map is full); afterwards the processor translates every address of the page to
  the frame, with the permissions recorded for the page, \<^verbatim>\<open>vaddr2paddr\<close> agrees, the frame's reverse
  map records the entry with the running process as owner, and no other word of memory changes but
  the table entry and the count of the directory entry.
\<close>

theorem connect_maps_page:
  assumes self: "self_mapped s" and pres: "dir_entry v s AND PDE_PRESENT \<noteq> 0"
    and tab: "dir_entry v s AND PDE_GET_ADDRESS \<noteq> cr3 s" and pa: "page_aligned pa"
    and fl: "page_flags v s = Some fl" and rm: "rmap_ok (rmapManager s) (pageinfos s) base X"
    and ref: "unat (pi_ref (pageinfos s (unat (PA2PGI pa)))) < 0xFFFF"
    and room: "\<exists>j. int j < rm_length (rmapManager s) \<and> \<not> BitMap_get (rm_bitmap (rmapManager s)) j"
  defines "q \<equiv> unat (PA2PGI pa)" and "pte \<equiv> pte_at (dir_entry v s) v"
  shows "\<exists>s' i. connectPhysicalVirtualPage v pa s = Some (True, s') \<and>
    translate (phys s') (cr3 s') v = Some (pa + (v AND 0xfff)) \<and> vaddr2paddr v s' = Some (pa + (v AND 0xfff)) \<and>
    phys s' pte = pa OR fl OR PTE_PRESENT \<and> self_mapped s' \<and> cr3 s' = cr3 s \<and>
    (\<forall>a. a \<noteq> pte \<longrightarrow> a \<noteq> pde_at (cr3 s) v \<longrightarrow> phys s' a = phys s a) \<and>
    rmap_ok (rmapManager s') (pageinfos s') base (X(q := i # X q)) \<and>
    mappings (rmapManager s') (i # X q) = (pte, toPTE v, running_pid s) # mappings (rmapManager s) (X q)"
proof -
  let ?e = "pa OR fl OR PTE_PRESENT"
  define s2 where "s2 = s\<lparr>phys := (phys s)(pte := ?e, pde_at (cr3 s) v := PDEinc (dir_entry v s))\<rparr>"
  note cs = connect_stores [OF self pres tab, where e = ?e, folded pte_def, folded s2_def]
  have pres2: "dir_entry v s2 AND PDE_PRESENT \<noteq> 0" using pres cs(3) by (simp add: PDEinc_keeps)
  have pt2: "pte_at (dir_entry v s2) v = pte" unfolding cs(3) pte_def by (rule pte_at_cong) (rule PDEinc_keeps)
  have fr: "?e AND PTE_GET_ADDRESS = pa" "?e AND PTE_PRESENT \<noteq> 0" by (rule entry_frame [OF pa page_flags_bits [OF fl]])+
  obtain R p i where c: "connectPhysicalVirtualPage v pa s = Some (True, s2\<lparr>rmapManager := R, pageinfos := (pageinfos s)(q := p)\<rparr>)"
      "rmap_ok R ((pageinfos s)(q := p)) base (X(q := i # X q))"
      "mappings R (i # X q) = (pte, toPTE v, running_pid s) # mappings (rmapManager s) (X q)"
    using connect_effect [OF self pres tab pa fl rm ref room] unfolding q_def [symmetric] pte_def [symmetric] s2_def by blast
  define s' where "s' = s2\<lparr>rmapManager := R, pageinfos := (pageinfos s)(q := p)\<rparr>"
  have same: "phys s' = phys s2" "cr3 s' = cr3 s" "rmapManager s' = R" "pageinfos s' = (pageinfos s)(q := p)"
    by (simp_all add: s'_def s2_def)
  have de2: "phys s2 (pde_at (cr3 s) v) = dir_entry v s2" "cr3 s2 = cr3 s" by (simp_all add: dir_entry_def s2_def)
  have tr: "translate (phys s') (cr3 s') v = Some (pa + (v AND 0xfff))"
    using pres2 pt2 cs(4) fr by (simp add: translate_def Let_def same de2)
  have self': "self_mapped s'" using cs(2) by (simp add: same de2(2))
  have d': "dir_entry v s' = dir_entry v s2" by (simp add: dir_entry_def same de2(2))
  have "load (toPTE v) s' = Some ?e" using load_toPTE [OF self', of v] pres2 pt2 cs(4) by (simp add: d' same)
  then have "vaddr2paddr v s' = Some (pa + (v AND 0xfff))" using fr(1) by (simp add: vaddr2paddr_def PTE_GET_ADDRESS_def)
  moreover have "\<forall>a. a \<noteq> pte \<longrightarrow> a \<noteq> pde_at (cr3 s) v \<longrightarrow> phys s' a = phys s a" by (simp add: same s2_def)
  ultimately show ?thesis using c(1) [folded s'_def] tr self' same cs(4) c(2,3) by auto
qed

definition mm_example :: MM where
  "mm_example = \<lparr>kernelPhysical = pa_example, userPhysical = pa_example,
     kernelVirtual = va_example\<lparr>va_startAddress := 0xc0100000, va_endAddress := 0xc0107fff, va_isStatic := True,
       va_static_privilege := VP_RW\<rparr>,
     pageinfos = no_pages, rmapManager = rmap_example,
     phys = (\<lambda>_. 0)(0x100ffc := 0x100e07, 0x100c00 := 0x101e07), cr3 = 0x100000, running = None\<rparr>"

lemma mm_example_entry: "dir_entry 0xc0100000 mm_example = 0x101e07" "dir_entry 0xc0101000 mm_example = 0x101e07"
  by (simp_all add: dir_entry_def pde_at_def dirw_def mm_example_def drop_bit_eq_div)

lemma mm_example_self: "self_mapped mm_example"
  by (simp add: self_map_def mm_example_def PDE_PRESENT_def PDE_GET_ADDRESS_def)

theorem connect_maps_page_witness:
  "\<exists>s'. connectPhysicalVirtualPage 0xc0101000 0x5000 mm_example = Some (True, s') \<and>
     translate (phys s') (cr3 s') 0xc0101000 = Some 0x5000"
proof -
  have "dir_entry 0xc0101000 mm_example AND PDE_PRESENT \<noteq> 0" "dir_entry 0xc0101000 mm_example AND PDE_GET_ADDRESS \<noteq> cr3 mm_example"
    by (simp_all add: mm_example_entry pde_flag_defs) (simp add: mm_example_def)
  moreover have "page_aligned 0x5000" by (simp add: page_aligned_def)
  moreover have "page_flags 0xc0101000 mm_example = Some (vPageFlags2PTE VP_RW)"
    by (simp add: page_flags_def mm_example_def VAddressPool_isValidAddr_def VAddressPool_getVPageFlag_def)
  moreover have "rmap_ok (rmapManager mm_example) (pageinfos mm_example) (\<lambda>_. 0) (\<lambda>_. [])"
    using rmap_example_ok by (simp add: mm_example_def)
  moreover have "unat (pi_ref (pageinfos mm_example (unat (PA2PGI 0x5000)))) < 0xFFFF"
    by (simp add: mm_example_def no_pages_def)
  moreover have "\<exists>j. int j < rm_length (rmapManager mm_example) \<and> \<not> BitMap_get (rm_bitmap (rmapManager mm_example)) j"
    using rmap_example_free by (intro exI [of _ 1]) (simp add: mm_example_def)
  ultimately show ?thesis
    using connect_maps_page [OF mm_example_self, of "0xc0101000" "0x5000" "vPageFlags2PTE VP_RW" "\<lambda>_. 0" "\<lambda>_. []"] by auto
qed

section \<open>Copy on write\<close>

text \<open>
  The slot for temporary mappings: the first page of the kernel's virtual range, with its table
  present and its entry empty.  \<open>slot_entry\<close> is the physical address of the entry.
\<close>

definition temp_va :: "MM \<Rightarrow> u32" where
  "temp_va s = va_startAddress (kernelVirtual s)"

definition slot_entry :: "MM \<Rightarrow> u32" where
  "slot_entry s = pte_at (dir_entry (temp_va s) s) (temp_va s)"

definition temp_slot_ok :: "MM \<Rightarrow> bool" where
  "temp_slot_ok s \<longleftrightarrow> self_mapped s \<and> page_aligned (temp_va s) \<and> temp_va s \<noteq> 0 \<and>
     dir_entry (temp_va s) s AND PDE_PRESENT \<noteq> 0 \<and> dir_entry (temp_va s) s AND PDE_GET_ADDRESS \<noteq> cr3 s \<and>
     phys s (slot_entry s) = 0"

text \<open>A page-table entry that may be edited through the slot: not in frame 0, not one of the
  words that the temporary mapping itself uses.\<close>

definition editable :: "MM \<Rightarrow> u32 \<Rightarrow> bool" where
  "editable s pa \<longleftrightarrow> pa AND NOT 0xfff \<noteq> 0 \<and> pa \<noteq> slot_entry s \<and> pa \<noteq> pde_at (cr3 s) (temp_va s) \<and> pa \<noteq> cr3 s + 4092"

definition cow_word :: "u32 \<Rightarrow> u32" where
  "cow_word e = (e OR PTE_COW) AND NOT PTE_WRITABLE"

lemma cow_word_bits: "cow_word e AND PTE_COW \<noteq> 0" "cow_word e AND PTE_WRITABLE = 0" "cow_word (cow_word e) = cow_word e"
proof -
  have c: "PTE_COW = push_bit 9 1" and w: "PTE_WRITABLE = push_bit 1 1" by (simp_all add: pte_flag_defs)
  have b9: "bit (cow_word e) 9" "\<not> bit (cow_word e) 1"
    by (simp_all add: cow_word_def c w bit_and_iff bit_or_iff bit_not_iff bit_exp_iff)
  show "cow_word e AND PTE_COW \<noteq> 0" unfolding c by (subst and_push_bit_1_eq_0_iff) (simp_all add: b9)
  show "cow_word e AND PTE_WRITABLE = 0" unfolding w by (subst and_push_bit_1_eq_0_iff) (use b9(2) in simp_all)
  show "cow_word (cow_word e) = cow_word e"
    unfolding cow_word_def by (rule bit_word_eqI) (auto simp: bit_and_iff bit_or_iff bit_not_iff)
qed

lemma slot_frame: "(b AND NOT 0xfff OR 0x7) AND PTE_GET_ADDRESS = b AND NOT 0xfff" "(b AND NOT 0xfff OR 0x7) AND PTE_PRESENT \<noteq> 0" for b :: u32
proof -
  have "(b AND NOT (mask 12) OR mask 3) AND NOT (mask 12) = b AND NOT (mask 12)"
    by (rule bit_word_eqI) (auto simp: bit_and_iff bit_or_iff bit_not_iff bit_mask_iff)
  then show "(b AND NOT 0xfff OR 0x7) AND PTE_GET_ADDRESS = b AND NOT 0xfff"
    by (simp only: PTE_GET_ADDRESS_def mask_consts)
  show "(b AND NOT 0xfff OR 0x7) AND PTE_PRESENT \<noteq> 0" by (rule entry_present)
qed

lemma cow_entry_effect:
  assumes ok: "temp_slot_ok s" and ed: "editable s pa"
  shows "cow_entry pa s = Some (s\<lparr>phys := (phys s)(pa := cow_word (phys s pa))\<rparr>)"
proof -
  let ?t = "slot_entry s" and ?v = "temp_va s" and ?b = "pa AND NOT 0xfff" and ?o = "pa AND 0xfff"
  have self: "self_mapped s" and al: "page_aligned ?v" and nz: "?v \<noteq> 0"
    and pres: "dir_entry ?v s AND PDE_PRESENT \<noteq> 0" and tab: "dir_entry ?v s AND PDE_GET_ADDRESS \<noteq> cr3 s"
    and z: "phys s ?t = 0" using ok by (simp_all add: temp_slot_ok_def)
  have pa: "?b \<noteq> 0" "pa \<noteq> ?t" "pa \<noteq> pde_at (cr3 s) ?v" "pa \<noteq> cr3 s + 4092" using ed by (simp_all add: editable_def)
  have "pa \<noteq> 0" using pa(1) by auto
  have tne: "?t \<noteq> pde_at (cr3 s) ?v" "?t \<noteq> cr3 s + 4092"
    unfolding slot_entry_def by (rule pte_not_pde [OF self_map_aligned [OF self] tab])+
  define s1 where "s1 = s\<lparr>phys := (phys s)(?t := ?b OR 0x7)\<rparr>"
  have map: "mapTemp KERNEL pa s = Some (?v + ?o, s1)"
    using load_toPDE [OF self, of ?v] load_toPTE [OF self pres] store_toPTE [OF self pres] pres nz z
    by (simp add: mapTemp_def temp_va_def [symmetric] slot_entry_def [symmetric] s1_def)
  have "unat (?v + ?o) \<noteq> 0" using unat_frame_offset [OF al unat_offset [of pa]] nz by (simp add: unat_eq_zero)
  then have tmp: "?v + ?o \<noteq> 0" by (metis unsigned_0)
  have tr: "translate (phys x) (cr3 x) (?v + ?o) = Some pa"
    if "cr3 x = cr3 s" "phys x (pde_at (cr3 s) ?v) = dir_entry ?v s" "phys x ?t = ?b OR 0x7" for x
    using that pres slot_frame [of pa] split_page [of pa] same_page [OF al unat_offset [of pa]]
    by (simp add: translate_def Let_def pde_at_def pte_at_def slot_entry_def)
  have x1: "cr3 s1 = cr3 s" "phys s1 (pde_at (cr3 s) ?v) = dir_entry ?v s" "phys s1 ?t = ?b OR 0x7" "phys s1 pa = phys s pa"
    using tne pa(2) by (simp_all add: s1_def dir_entry_def)
  define s2 where "s2 = s1\<lparr>phys := (phys s1)(pa := cow_word (phys s pa))\<rparr>"
  have ld: "load (?v + ?o) s1 = Some (phys s pa)" using tr [OF x1(1-3)] x1(4) by (simp add: load_def)
  have st: "store (?v + ?o) (cow_word (phys s pa)) s1 = Some s2" using tr [OF x1(1-3)] by (simp add: store_def s2_def)
  have self2: "self_mapped s2" using self tne(2) pa(4) by (simp add: s2_def s1_def self_map_upd)
  have d2: "dir_entry ?v s2 = dir_entry ?v s" using tne(1) pa(3) by (simp add: s2_def s1_def dir_entry_def)
  have t2: "phys s2 ?t = ?b OR 0x7" using pa(2) by (simp add: s2_def s1_def)
  have v2: "va_startAddress (kernelVirtual s2) = ?v" by (simp add: s2_def s1_def temp_va_def)
  have pres2: "dir_entry ?v s2 AND PDE_PRESENT \<noteq> 0" using pres d2 by simp
  have "unmapTemp KERNEL s2 = Some (s2\<lparr>phys := (phys s2)(?t := 0)\<rparr>)"
    using load_toPTE [OF self2 pres2] store_toPTE [OF self2 pres2] t2 slot_frame [of pa] pa(1)
    by (simp add: unmapTemp_def v2 d2 slot_entry_def)
  moreover have "s2\<lparr>phys := (phys s2)(?t := 0)\<rparr> = s\<lparr>phys := (phys s)(pa := cow_word (phys s pa))\<rparr>"
    using pa(2) z by (auto simp: s2_def s1_def fun_upd_def fun_eq_iff)
  ultimately show ?thesis
    using map tmp ld st \<open>pa \<noteq> 0\<close> by (simp add: cow_entry_def cow_word_def)
qed

lemma temp_slot_upd:
  assumes "temp_slot_ok s" and "editable s pa"
  shows "temp_slot_ok (s\<lparr>phys := (phys s)(pa := w)\<rparr>)" and "editable (s\<lparr>phys := (phys s)(pa := w)\<rparr>) b = editable s b"
proof -
  let ?s' = "s\<lparr>phys := (phys s)(pa := w)\<rparr>"
  have d: "dir_entry (temp_va s) ?s' = dir_entry (temp_va s) s" using assms(2) by (auto simp: dir_entry_def editable_def)
  have e: "slot_entry ?s' = slot_entry s" using d by (simp add: slot_entry_def temp_va_def)
  show "editable ?s' b = editable s b" unfolding editable_def e by (simp add: temp_va_def)
  show "temp_slot_ok ?s'"
    using assms e d unfolding temp_slot_ok_def by (auto simp: temp_va_def editable_def self_map_upd)
qed

lemma cow_loop_effect:
  assumes "rm_chain (RMapStart (rmapManager s)) i is" and "temp_slot_ok s"
    and "\<forall>j\<in>set is. editable s (pte_paddr (RMapStart (rmapManager s) j))"
  shows "cow_loop i s = Some (s\<lparr>phys := (\<lambda>a. if a \<in> (\<lambda>j. pte_paddr (RMapStart (rmapManager s) j)) ` set is
     then cow_word (phys s a) else phys s a)\<rparr>)"
  using assms
proof (induction "is" arbitrary: i s)
  case Nil
  then show ?case by (subst cow_loop.simps) simp
next
  case (Cons j js)
  let ?pa = "pte_paddr (RMapStart (rmapManager s) j)"
  define s' where "s' = s\<lparr>phys := (phys s)(?pa := cow_word (phys s ?pa))\<rparr>"
  have ed: "editable s ?pa" using Cons.prems(3) by simp
  have rm: "rmapManager s' = rmapManager s" by (simp add: s'_def)
  have "cow_loop i s = cow_loop (rm_next (RMapStart (rmapManager s) j)) s'"
    using Cons.prems(1) cow_entry_effect [OF Cons.prems(2) ed] by (subst cow_loop.simps) (simp add: s'_def)
  also have "\<dots> = Some (s'\<lparr>phys := (\<lambda>a. if a \<in> (\<lambda>j. pte_paddr (RMapStart (rmapManager s') j)) ` set js
     then cow_word (phys s' a) else phys s' a)\<rparr>)"
  proof (rule Cons.IH)
    show "rm_chain (RMapStart (rmapManager s')) (rm_next (RMapStart (rmapManager s) j)) js" using Cons.prems(1) rm by simp
    show "temp_slot_ok s'" unfolding s'_def by (rule temp_slot_upd(1) [OF Cons.prems(2) ed])
    show "\<forall>k\<in>set js. editable s' (pte_paddr (RMapStart (rmapManager s') k))"
      using Cons.prems(3) rm temp_slot_upd(2) [OF Cons.prems(2) ed] by (simp add: s'_def)
  qed
  also have "\<dots> = Some (s\<lparr>phys := (\<lambda>a. if a \<in> (\<lambda>j. pte_paddr (RMapStart (rmapManager s) j)) ` set (j # js)
     then cow_word (phys s a) else phys s a)\<rparr>)"
    by (auto simp: s'_def fun_eq_iff cow_word_bits)
  finally show ?case .
qed

text \<open>
  \<^bold>\<open>C12\<close>: \<^verbatim>\<open>RMapManager::setCOW\<close> on a page in use returns true after turning exactly the page-table
  entries in the page's reverse map, whichever address space they belong to, into read-only
  copy-on-write entries; the temporary mapping it uses for each leaves no trace.  A free page and a
  page without references are refused.
\<close>

theorem setCOW_marks_mappings:
  assumes rm: "rmap_ok (rmapManager s) (pageinfos s) base X" and slot: "temp_slot_ok s"
    and ed: "\<forall>j\<in>set (X q). editable s (pte_paddr (RMapStart (rmapManager s) j))"
  shows "(\<not> PageInfo_hasFlag (pageinfos s q) PG_FREE \<longrightarrow> X q \<noteq> [] \<longrightarrow>
      (\<exists>s'. MM_setCOW q s = Some (True, s') \<and>
        (\<forall>j\<in>set (X q). phys s' (pte_paddr (RMapStart (rmapManager s) j)) AND PTE_COW \<noteq> 0 \<and>
           phys s' (pte_paddr (RMapStart (rmapManager s) j)) AND PTE_WRITABLE = 0) \<and>
        s' = s\<lparr>phys := (\<lambda>a. if a \<in> (\<lambda>j. pte_paddr (RMapStart (rmapManager s) j)) ` set (X q)
          then (phys s a OR PTE_COW) AND NOT PTE_WRITABLE else phys s a)\<rparr>)) \<and>
    (PageInfo_hasFlag (pageinfos s q) PG_FREE \<or> pi_ref (pageinfos s q) = 0 \<longrightarrow> MM_setCOW q s = Some (False, s))"
proof (rule conjI [OF impI [OF impI] impI])
  assume fr: "\<not> PageInfo_hasFlag (pageinfos s q) PG_FREE" and ne: "X q \<noteq> []"
  have ch: "rm_chain (RMapStart (rmapManager s)) (pi_extra (pageinfos s q)) (X q)" by (rule rmap_okD(1) [OF rm])
  have "unat (pi_ref (pageinfos s q)) \<noteq> 0" using rmap_okD(3) [OF rm, of q] ne by simp
  then have ref: "pi_ref (pageinfos s q) \<noteq> 0" by auto
  have ex: "pi_extra (pageinfos s q) \<noteq> 0" using ch ne by (cases "X q") auto
  define s' where "s' = s\<lparr>phys := (\<lambda>a. if a \<in> (\<lambda>j. pte_paddr (RMapStart (rmapManager s) j)) ` set (X q)
          then cow_word (phys s a) else phys s a)\<rparr>"
  have cow: "MM_setCOW q s = Some (True, s')"
    using cow_loop_effect [OF ch slot ed] fr ref ex
    by (simp add: MM_setCOW_def RMap_setCOW_def Let_def PageInfo_getRef_def s'_def)
  show "\<exists>s'. MM_setCOW q s = Some (True, s') \<and>
        (\<forall>j\<in>set (X q). phys s' (pte_paddr (RMapStart (rmapManager s) j)) AND PTE_COW \<noteq> 0 \<and>
           phys s' (pte_paddr (RMapStart (rmapManager s) j)) AND PTE_WRITABLE = 0) \<and>
        s' = s\<lparr>phys := (\<lambda>a. if a \<in> (\<lambda>j. pte_paddr (RMapStart (rmapManager s) j)) ` set (X q)
          then (phys s a OR PTE_COW) AND NOT PTE_WRITABLE else phys s a)\<rparr>"
  proof (intro exI [of _ s'] conjI)
    show "\<forall>j\<in>set (X q). phys s' (pte_paddr (RMapStart (rmapManager s) j)) AND PTE_COW \<noteq> 0 \<and>
        phys s' (pte_paddr (RMapStart (rmapManager s) j)) AND PTE_WRITABLE = 0"
      by (simp add: s'_def cow_word_bits)
    show "MM_setCOW q s = Some (True, s')" by (fact cow)
  qed (simp only: s'_def cow_word_def)
next
  assume "PageInfo_hasFlag (pageinfos s q) PG_FREE \<or> pi_ref (pageinfos s q) = 0"
  then show "MM_setCOW q s = Some (False, s)"
    by (auto simp: MM_setCOW_def RMap_setCOW_def Let_def PageInfo_getRef_def)
qed

definition cow_example :: MM where
  "cow_example = mm_example\<lparr>
     rmapManager := \<lparr>RMapStart = (\<lambda>_. RMap_zero)(1 := \<lparr>pte_paddr = 0x7004, pte_vaddr = 0xffc00000, rm_next = 0, rm_owner = 2\<rparr>),
       rm_bitmap = \<lparr>length_of = 4, bitmap_of = (\<lambda>_. 0)(0 := 3)\<rparr>, rm_length = 4\<rparr>,
     pageinfos := no_pages(5 := \<lparr>pi_ref = 1, pi_flags = 0, pi_extra = 1\<rparr>)\<rparr>"

lemma cow_example_ok:
  "rmap_ok (rmapManager cow_example) (pageinfos cow_example) (\<lambda>_. 0) ((\<lambda>_. [])(5 := [1]))"
  by (auto simp: rmap_ok_def cow_example_def no_pages_def BitMap_get_def byte_test_def)

lemma cow_example_slot: "temp_slot_ok cow_example" "slot_entry cow_example = 0x101400"
proof -
  have t: "temp_va cow_example = 0xc0100000" by (simp add: temp_va_def cow_example_def mm_example_def)
  have d: "dir_entry 0xc0100000 cow_example = 0x101e07"
    using mm_example_entry(1) by (simp add: dir_entry_def cow_example_def)
  show e: "slot_entry cow_example = 0x101400"
    by (simp add: slot_entry_def t d pte_at_def tabw_def PDE_GET_ADDRESS_def drop_bit_eq_div)
  have "self_mapped cow_example" using mm_example_self by (simp add: cow_example_def)
  then show "temp_slot_ok cow_example"
    by (simp add: temp_slot_ok_def t d e page_aligned_def pde_flag_defs) (simp add: cow_example_def mm_example_def)
qed

theorem setCOW_marks_mappings_witness:
  "\<exists>s'. MM_setCOW 5 cow_example = Some (True, s') \<and> phys s' 0x7004 AND PTE_COW \<noteq> 0"
proof -
  have "pde_at (cr3 cow_example) (temp_va cow_example) = 0x100c00"
    by (simp add: pde_at_def dirw_def temp_va_def cow_example_def mm_example_def drop_bit_eq_div)
  then have "editable cow_example 0x7004"
    by (simp add: editable_def cow_example_slot(2)) (simp add: cow_example_def mm_example_def)
  moreover have e: "pte_paddr (RMapStart (rmapManager cow_example) 1) = 0x7004" by (simp add: cow_example_def)
  ultimately have "\<forall>j\<in>set (((\<lambda>_. [])(5 := [1])) 5). editable cow_example (pte_paddr (RMapStart (rmapManager cow_example) j))"
    by simp
  from setCOW_marks_mappings [OF cow_example_ok cow_example_slot(1) this]
  have "\<exists>s'. MM_setCOW 5 cow_example = Some (True, s') \<and>
    phys s' (pte_paddr (RMapStart (rmapManager cow_example) 1)) AND PTE_COW \<noteq> 0"
    by (auto simp: cow_example_def PageInfo_hasFlag_def)
  then show ?thesis by (simp only: e)
qed

section \<open>Tearing down an address space\<close>

lemma releasePhysicalPages_phys:
  "releasePhysicalPages ty pa n s = Some s' \<Longrightarrow> phys s' = phys s \<and> cr3 s' = cr3 s"
proof -
  have mf: "mark_free pgi k s = Some s' \<Longrightarrow> phys s' = phys s \<and> cr3 s' = cr3 s" for pgi k s s'
  proof (induction k arbitrary: pgi s)
    case (Suc k)
    then show ?case by (fastforce simp: upd_page_def split: if_splits)
  qed simp
  show "releasePhysicalPages ty pa n s = Some s' \<Longrightarrow> phys s' = phys s \<and> cr3 s' = cr3 s"
    by (auto simp: releasePhysicalPages_def Let_def bind_eq_Some_conv upd_page_def split: AddressPoolType.splits if_splits dest!: mf)
qed

lemma releasePageTable_phys:
  assumes "self_mapped s" and "releasePageTable (toPDE v) s = Some s'"
  shows "phys s' = (phys s)(pde_at (cr3 s) v := 0) \<and> cr3 s' = cr3 s"
proof -
  obtain s1 where s1: "phys s1 = phys s" "cr3 s1 = cr3 s" "store (toPDE v) 0 s1 = Some s'"
    using assms(2) by (auto simp: releasePageTable_def Let_def bind_eq_Some_conv split: if_splits
        dest!: releasePhysicalPages_phys) (simp_all add: upd_page_def)
  then have "self_mapped s1" using assms(1) by simp
  from store_toPDE [OF this, of v 0] s1 show ?thesis by auto
qed

text \<open>The directory index of a user address, and of the addresses that the loop visits.\<close>

lemma dir_ix_stride: "unat v = k * 0x1000000 \<Longrightarrow> dir_ix v = 4 * k"
  by (simp add: dir_ix_def)

lemma force_loop_frame:
  "force_loop v s = Some s' \<Longrightarrow> self_mapped s \<Longrightarrow> unat v = k * 0x1000000 \<Longrightarrow> dir_ix w mod 4 \<noteq> 0 \<Longrightarrow>
     dir_entry w s' = dir_entry w s \<and> cr3 s' = cr3 s"
proof (induction v s arbitrary: k rule: force_loop.induct)
  case (1 v s)
  show ?case
  proof (cases "v \<le> USER_VADDR_END")
    case False
    then show ?thesis using "1.prems"(1) by (simp add: force_loop.simps [of v s])
  next
    case True
    then have vb: "unat v \<le> 0xBFFFFFFF" by (simp add: word_le_nat_alt USER_VADDR_END_def)
    have vn: "unat (v + destroy_stride) = (k + 1) * 0x1000000"
      using vb "1.prems"(3) by (subst unat_add_lem [THEN iffD1]) (simp_all add: destroy_stride_def PAGE_SIZE_def)
    have ld: "load (toPDE v) s = Some (dir_entry v s)" by (rule load_toPDE [OF "1.prems"(2)])
    obtain s1 where s1: "(if dir_entry v s AND PDE_PRESENT \<noteq> 0 then release_user_page_table_force (toPDE v) s else Some s) = Some s1"
        "force_loop (v + destroy_stride) s1 = Some s'"
      using "1.prems"(1) True ld by (subst (asm) force_loop.simps) (auto simp: Let_def bind_eq_Some_conv)
    have ph: "phys s1 = (if dir_entry v s AND PDE_PRESENT \<noteq> 0 then (phys s)(pde_at (cr3 s) v := 0) else phys s)" "cr3 s1 = cr3 s"
      using s1(1) releasePageTable_phys [OF "1.prems"(2), of v s1]
      by (auto simp: release_user_page_table_force_def split: if_splits)
    have al: "page_aligned (cr3 s)" by (rule self_map_aligned [OF "1.prems"(2)])
    have dv: "dir_ix v = 4 * k" by (rule dir_ix_stride [OF "1.prems"(3)])
    have "4 * k < 1023" using vb "1.prems"(3) by simp
    then have "dirw v \<noteq> 1023" using unat_dirw [of v] dv by auto
    then have "pde_at (cr3 s) v \<noteq> cr3 s + 4092" using pde_at_self [OF al] by blast
    then have self1: "self_mapped s1" using "1.prems"(2) by (simp add: ph self_map_upd)
    have "dirw w \<noteq> dirw v" using unat_dirw [of v] unat_dirw [of w] dv "1.prems"(4) by (metis mod_mult_self1_is_0)
    then have "pde_at (cr3 s) w \<noteq> pde_at (cr3 s) v" using pde_at_inj [OF al] by blast
    then have keep: "dir_entry w s1 = dir_entry w s" by (simp add: dir_entry_def ph)
    have "dir_entry w s' = dir_entry w s1 \<and> cr3 s' = cr3 s1"
      using "1.IH" [OF True refl ld s1(1) s1(2) self1 vn "1.prems"(4)] .
    then show ?thesis using keep ph(2) by simp
  qed
qed

text \<open>
  The loop that releases the page tables of a dying process advances by
  \<^verbatim>\<open>PAGE_SIZE * PAGE_SIZE\<close>, 16 MB, while one table covers 4 MB.  It therefore never visits, and
  never changes, the directory entry of an address whose directory index is not a multiple of four:
  a table that is still present there keeps its frame.
\<close>

theorem destroy_skips_page_tables:
  assumes "self_mapped s" and "force_loop 0 s = Some s'" and "dir_ix v mod 4 \<noteq> 0"
  shows "dir_entry v s' = dir_entry v s"
  using force_loop_frame [OF assms(2,1) _ assms(3), of 0] by simp

lemma force_loop_idle:
  "self_mapped s \<Longrightarrow> unat v = k * 0x1000000 \<Longrightarrow>
   \<forall>w. unat w \<le> 0xBFFFFFFF \<and> dir_ix w mod 4 = 0 \<longrightarrow> dir_entry w s AND PDE_PRESENT = 0 \<Longrightarrow> force_loop v s = Some s"
proof (induction v s arbitrary: k rule: force_loop.induct)
  case (1 v s)
  show ?case
  proof (cases "v \<le> USER_VADDR_END")
    case True
    then have vb: "unat v \<le> 0xBFFFFFFF" by (simp add: word_le_nat_alt USER_VADDR_END_def)
    have vn: "unat (v + destroy_stride) = (k + 1) * 0x1000000"
      using vb "1.prems"(2) by (subst unat_add_lem [THEN iffD1]) (simp_all add: destroy_stride_def PAGE_SIZE_def)
    have ld: "load (toPDE v) s = Some (dir_entry v s)" by (rule load_toPDE [OF "1.prems"(1)])
    have dv: "dir_ix v mod 4 = 0" using dir_ix_stride [OF "1.prems"(2)] by simp
    have ab: "dir_entry v s AND PDE_PRESENT = 0" by (rule "1.prems"(3) [THEN spec, THEN mp, OF conjI, OF vb dv])
    have br: "(if dir_entry v s AND PDE_PRESENT \<noteq> 0 then release_user_page_table_force (toPDE v) s else Some s) = Some s"
      using ab by simp
    have "force_loop (v + destroy_stride) s = Some s" by (rule "1.IH" [OF True refl ld br "1.prems"(1) vn "1.prems"(3)])
    then show ?thesis using True ld ab by (subst force_loop.simps) (simp add: Let_def)
  qed (simp add: force_loop.simps [of v s])
qed

definition left_over :: MM where
  "left_over = mm_example\<lparr>phys := (phys mm_example)(0x100004 := 0x105007)\<rparr>"

theorem destroy_skips_page_tables_witness:
  "force_loop 0 left_over = Some left_over \<and> dir_entry 0x400000 left_over AND PDE_PRESENT \<noteq> 0"
proof -
  have self: "self_mapped left_over" using mm_example_self by (simp add: left_over_def self_map_def mm_example_def)
  have "dir_entry w left_over AND PDE_PRESENT = 0" if "unat w \<le> 0xBFFFFFFF" "dir_ix w mod 4 = 0" for w
  proof -
    have "dir_ix w < 768" using that(1) by (simp add: dir_ix_def less_mult_imp_div_less)
    moreover have "page_aligned 0x100000" by (simp add: page_aligned_def)
    ultimately have u: "unat (pde_at 0x100000 w) = 0x100000 + dir_ix w * 4"
      unfolding pde_at_def by (subst unat_frame_offset) (simp_all add: unat_dirw4)
    have ne: "pde_at 0x100000 w \<noteq> x" if "unat (pde_at 0x100000 w) \<noteq> unat x" for x using that by blast
    have "dir_ix w \<noteq> 1" using that(2) by auto
    then have "pde_at 0x100000 w \<noteq> 0x100004" "pde_at 0x100000 w \<noteq> 0x100c00" "pde_at 0x100000 w \<noteq> 0x100ffc"
      using u \<open>dir_ix w < 768\<close> by (intro ne, simp)+
    then show ?thesis by (simp add: dir_entry_def left_over_def mm_example_def)
  qed
  then have loop: "force_loop 0 left_over = Some left_over" using self by (intro force_loop_idle [where k = 0]) auto
  have e: "dir_entry 0x400000 left_over = 0x105007"
    by (simp add: dir_entry_def pde_at_def dirw_def left_over_def mm_example_def drop_bit_eq_div)
  have "dir_ix 0x400000 mod 4 \<noteq> 0" by (simp add: dir_ix_def)
  from destroy_skips_page_tables [OF self loop this] show ?thesis using loop e by (simp add: PDE_PRESENT_def)
qed

section \<open>Frames and their descriptors\<close>

definition phys_pool :: "AddressPoolType \<Rightarrow> MM \<Rightarrow> PAddressPool" where
  "phys_pool ty s = (case ty of KERNEL \<Rightarrow> kernelPhysical s | USER \<Rightarrow> userPhysical s)"

definition set_phys_pool :: "AddressPoolType \<Rightarrow> PAddressPool \<Rightarrow> MM \<Rightarrow> MM" where
  "set_phys_pool ty p s = (case ty of KERNEL \<Rightarrow> s\<lparr>kernelPhysical := p\<rparr> | USER \<Rightarrow> s\<lparr>userPhysical := p\<rparr>)"

lemma phys_pool_simps [simp]:
  "phys_pool ty (set_phys_pool ty' p s) = (if ty = ty' then p else phys_pool ty s)"
  "set_phys_pool ty (phys_pool ty s) s = s"
  "phys_pool ty (upd_page i f s) = phys_pool ty s" "pageinfos (set_phys_pool ty p s) = pageinfos s"
  "pageinfos (upd_page i f s) j = (if j = i then f (pageinfos s i) else pageinfos s j)"
  by (cases ty; cases ty'; simp add: phys_pool_def set_phys_pool_def upd_page_def)+

definition frame_no :: "PAddressPool \<Rightarrow> nat \<Rightarrow> nat" where
  "frame_no p i = unat (PA2PGI (pa_frame p i))"

text \<open>
  The two pools are well formed, lie above frame 0, and do not share frames; a frame that a pool can
  hand out has a descriptor marked free.
\<close>

definition frames_ok :: "MM \<Rightarrow> (AddressPoolType \<Rightarrow> nat \<Rightarrow> nat list) \<Rightarrow> bool" where
  "frames_ok s A \<longleftrightarrow>
     (\<forall>ty. pa_ok (phys_pool ty s) (A ty) \<and> pa_startAddress (phys_pool ty s) \<noteq> 0 \<and>
        (\<forall>i. cover (A ty) i = 1 \<longrightarrow> PageInfo_hasFlag (pageinfos s (frame_no (phys_pool ty s) i)) PG_FREE)) \<and>
     (\<forall>i j. int i < totalPages (pa_resources (kernelPhysical s)) \<longrightarrow> int j < totalPages (pa_resources (userPhysical s)) \<longrightarrow>
        frame_no (kernelPhysical s) i \<noteq> frame_no (userPhysical s) j)"

lemma frame_no_eq:
  assumes "pa_ok p A" and "int i < totalPages (pa_resources p)"
  shows "frame_no p i = unat (pa_startAddress p) div 4096 + i"
  using unat_pa_frame(1) [OF assms] by (simp add: frame_no_def PA2PGI_def)

lemma frame_no_inj:
  assumes "pa_ok p A" "int i < totalPages (pa_resources p)" "int j < totalPages (pa_resources p)"
  shows "frame_no p i = frame_no p j \<longleftrightarrow> i = j"
  using frame_no_eq [OF assms(1,2)] frame_no_eq [OF assms(1,3)] by simp

lemma frame_no_cong: "pa_startAddress p = pa_startAddress p' \<Longrightarrow> frame_no p i = frame_no p' i"
  by (simp add: frame_no_def pa_frame_def)

lemma page_info_eq: "p\<lparr>pi_ref := a, pi_extra := b, pi_flags := c\<rparr> = \<lparr>pi_ref = a, pi_flags = c, pi_extra = b\<rparr>" for p :: PageInfo
  by (cases p) simp

lemma allocatePhysicalPages_one:
  "allocatePhysicalPages ty 1 s =
     (let (a, p) = PAddressPool_allocate 1 (phys_pool ty s); s1 = set_phys_pool ty p s; g = unat (PA2PGI a)
      in if a = - 1 then Some (0, s1)
         else if PageInfo_hasFlag (pageinfos s1 g) PG_FREE
         then Some (a, upd_page g (\<lambda>pi. \<lparr>pi_ref = 0, pi_flags = (if ty = KERNEL then PG_KERNEL else 0) OR PG_SINGLE, pi_extra = 0\<rparr>) s1)
         else None)"
  by (cases ty) (auto simp: allocatePhysicalPages_def phys_pool_def set_phys_pool_def Let_def upd_page_def
      PageInfo_clear_def PageInfo_setFlag_def PageInfo_hasFlag_def pg_flag_defs page_info_eq split: prod.splits)

text \<open>The descriptor of a frame that is given back.\<close>

definition freed :: "PageInfo \<Rightarrow> PageInfo" where
  "freed p = p\<lparr>pi_flags := (pi_flags p OR PG_FREE) AND NOT PG_SINGLE\<rparr>"

lemma freed_flag: "PageInfo_hasFlag (freed p) PG_FREE"
  by (simp add: freed_def PageInfo_hasFlag_def pg_flag_defs and.assoc word_ao_absorbs)

lemma flag_kept: "(f OR PG_FREE) AND PG_SINGLE = f AND PG_SINGLE"
  by (simp add: pg_flag_defs bit.conj_disj_distrib2)

lemma releasePhysicalPages_one:
  assumes "PageInfo_hasFlag (pageinfos s (unat (PA2PGI a))) PG_SINGLE" "\<not> PageInfo_hasFlag (pageinfos s (unat (PA2PGI a))) PG_FREE"
    and "PAddressPool_release a 1 (phys_pool ty s) = Some p"
  shows "releasePhysicalPages ty a 1 s = Some (upd_page (unat (PA2PGI a)) freed (set_phys_pool ty p s))"
  using assms by (cases ty) (auto simp: releasePhysicalPages_def phys_pool_def set_phys_pool_def Let_def upd_page_def ASSERT_def
      PageInfo_clearFlag_def PageInfo_setFlag_def PageInfo_hasFlag_def flag_kept freed_def)

lemma order_of_one: "nat (count2order 1) = 0"
  by (simp add: count2order_def c_log2_def)

lemma pa_alloc_one:
  assumes ok: "pa_ok p A"
  obtains (full) "PAddressPool_allocate 1 p = (- 1, p)" "\<And>i. cover A i = 0"
  | (frame) i p' A' where "PAddressPool_allocate 1 p = (pa_frame p i, p')" "cover A i = 1"
      "int i < totalPages (pa_resources p)" "pa_ok p' A'" "pa_startAddress p' = pa_startAddress p"
      "totalPages (pa_resources p') = totalPages (pa_resources p)" "\<And>j. cover A' j = (if j = i then 0 else cover A j)"
proof -
  have inv: "buddy_inv (pa_resources p) A" using ok by (simp add: pa_ok_def)
  show thesis
  proof (cases rule: Buddy_allocate_cases [OF inv, of 1, unfolded order_of_one])
    case 1
    have "cover A i = 0" for i using 1(2) by (simp add: cover_def)
    then show thesis using full 1(1) by (simp add: PAddressPool_allocate_def)
  next
    case (2 i b' A')
    have c: "cover A' j = (if j = i then 0 else cover A j)" for j
      using 2(7) [of i] 2(8) [of j] by (cases "j = i") auto
    have one: "cover A i = 1" using 2(7) [of i] by simp
    have al: "PAddressPool_allocate 1 p = (pa_frame p i, p\<lparr>pa_resources := b'\<rparr>)"
      using 2(1) by (simp add: PAddressPool_allocate_def pa_frame_def)
    show thesis
      by (rule frame [OF al one _ _ _ _ c]) (use 2(4,5,6) ok in \<open>simp_all add: pa_ok_def\<close>)
  qed
qed

lemma pa_release_one:
  assumes ok: "pa_ok p A" and i: "int i < totalPages (pa_resources p)" and taken: "cover A i = 0"
  obtains p' A' where "PAddressPool_release (pa_frame p i) 1 p = Some p'" "pa_ok p' A'" "pa_startAddress p' = pa_startAddress p"
    "totalPages (pa_resources p') = totalPages (pa_resources p)" "\<And>j. cover A' j \<le> (if j = i then 1 else cover A j)"
    "(i div 2 ^ MAX_ORDER * 2 ^ MAX_ORDER) XOR 2 ^ MAX_ORDER \<notin> set (A MAX_ORDER) \<Longrightarrow> \<forall>j. cover A' j = (if j = i then 1 else cover A j)"
proof -
  have inv: "buddy_inv (pa_resources p) A" using ok by (simp add: pa_ok_def)
  show thesis
  proof (rule Buddy_release_cases [OF inv, where count = 1 and index = i, unfolded order_of_one])
    show "0 \<le> MAX_ORDER" "2 ^ 0 dvd i" "int i + 2 ^ 0 \<le> totalPages (pa_resources p)" using i by simp_all
    show "cover A j = 0" if "i \<le> j" "j < i + 2 ^ 0" for j
    proof -
      have "j = i" using that by simp
      then show ?thesis using taken by simp
    qed
    fix b' A'
    assume r: "Buddy_release i 1 (pa_resources p) = Some b'" "buddy_inv b' A'" "totalPages b' = totalPages (pa_resources p)"
      "(i div 2 ^ MAX_ORDER * 2 ^ MAX_ORDER) XOR 2 ^ MAX_ORDER \<notin> set (A MAX_ORDER) \<Longrightarrow>
         \<forall>j. cover A' j = (if i \<le> j \<and> j < i + 2 ^ 0 then 1 else cover A j)"
      "\<And>j. cover A' j \<le> (if i \<le> j \<and> j < i + 2 ^ 0 then 1 else cover A j)"
    have e: "\<forall>j. cover A' j = (if j = i then 1 else cover A j)" if "(i div 2 ^ MAX_ORDER * 2 ^ MAX_ORDER) XOR 2 ^ MAX_ORDER \<notin> set (A MAX_ORDER)"
    proof
      fix j
      have "(i \<le> j \<and> j < i + 2 ^ 0) = (j = i)" by auto
      then show "cover A' j = (if j = i then 1 else cover A j)" using r(4) [OF that] by simp
    qed
    have c: "cover A' j \<le> (if j = i then 1 else cover A j)" for j
    proof -
      have "(i \<le> j \<and> j < i + 2 ^ 0) = (j = i)" by auto
      then show ?thesis using r(5) [of j] by simp
    qed
    have rel: "PAddressPool_release (pa_frame p i) 1 p = Some (p\<lparr>pa_resources := b'\<rparr>)"
      using r(1) unat_pa_frame(3) [OF ok i] by (simp add: PAddressPool_release_def)
    show thesis by (rule that [OF rel _ _ _ c e]) (use r(2,3) ok in \<open>simp_all add: pa_ok_def\<close>)
  qed
qed

text \<open>Changing one descriptor and one pool keeps the frame invariant.\<close>

lemma frames_ok_upd:
  assumes ok: "frames_ok s A" and p': "pa_ok p' A'" "pa_startAddress p' = pa_startAddress (phys_pool ty s)"
      "totalPages (pa_resources p') = totalPages (pa_resources (phys_pool ty s))"
    and i: "int i < totalPages (pa_resources (phys_pool ty s))"
    and free: "\<And>j. cover A' j = 1 \<Longrightarrow> j \<noteq> i \<Longrightarrow> cover (A ty) j = 1"
    and self: "cover A' i = 1 \<Longrightarrow> PageInfo_hasFlag pi PG_FREE"
  shows "frames_ok (upd_page (frame_no (phys_pool ty s) i) (\<lambda>_. pi) (set_phys_pool ty p' s)) (A(ty := A'))"
proof -
  let ?g = "frame_no (phys_pool ty s) i"
  let ?s' = "upd_page ?g (\<lambda>_. pi) (set_phys_pool ty p' s)"
  have old: "pa_ok (phys_pool t s) (A t)" "pa_startAddress (phys_pool t s) \<noteq> 0"
      "cover (A t) j = 1 \<Longrightarrow> PageInfo_hasFlag (pageinfos s (frame_no (phys_pool t s) j)) PG_FREE" for t j
    using ok unfolding frames_ok_def by blast+
  have disj: "frame_no (phys_pool t s) a \<noteq> frame_no (phys_pool u s) b"
    if "t \<noteq> u" "int a < totalPages (pa_resources (phys_pool t s))" "int b < totalPages (pa_resources (phys_pool u s))" for t u a b
  proof -
    have ku: "frame_no (kernelPhysical s) c \<noteq> frame_no (userPhysical s) d"
      if "int c < totalPages (pa_resources (kernelPhysical s))" "int d < totalPages (pa_resources (userPhysical s))" for c d
      using ok that unfolding frames_ok_def by blast
    show ?thesis using that ku [of a b] not_sym [OF ku [of b a]] by (cases t; cases u) (simp_all add: phys_pool_def)
  qed
  have fn: "frame_no p' j = frame_no (phys_pool ty s) j" "frame_no (phys_pool t ?s') j = frame_no (phys_pool t s) j" for t j
    using p'(2) by (auto intro: frame_no_cong)
  have bound: "cover (A t) j = 1 \<Longrightarrow> int j < totalPages (pa_resources (phys_pool t s))" for t j
    using old(1) [of t] total_okD [of "totalPages (pa_resources (phys_pool t s))" "A t" j] by (auto simp: pa_ok_def buddy_inv_def)
  have flag: "PageInfo_hasFlag (pageinfos ?s' (frame_no (phys_pool t ?s') j)) PG_FREE" if "cover ((A(ty := A')) t) j = 1" for t j
  proof (cases "t = ty \<and> j = i")
    case True
    then show ?thesis using that self by (simp add: fn)
  next
    case False
    have c: "cover (A t) j = 1" using that free [of j] False by (cases "t = ty") auto
    have "frame_no (phys_pool t s) j \<noteq> ?g"
      using disj [of t ty j i] bound [OF c] i frame_no_inj [OF old(1) [of ty], of j i] False by (cases "t = ty") auto
    then show ?thesis using old(3) [OF c] by (auto simp: fn)
  qed
  have kd: "frame_no (kernelPhysical ?s') a \<noteq> frame_no (userPhysical ?s') b"
    if "int a < totalPages (pa_resources (kernelPhysical ?s'))" "int b < totalPages (pa_resources (userPhysical ?s'))" for a b
  proof -
    have k: "phys_pool KERNEL ?s' = kernelPhysical ?s'" "phys_pool USER ?s' = userPhysical ?s'" by (simp_all add: phys_pool_def)
    have "frame_no (phys_pool KERNEL s) a \<noteq> frame_no (phys_pool USER s) b"
      by (rule disj) (use that p'(3) in \<open>auto simp flip: k split: if_splits\<close>)
    then show ?thesis using fn(2) [of KERNEL a] fn(2) [of USER b] by (simp only: k not_False_eq_True)
  qed
  show ?thesis
    unfolding frames_ok_def using old(1,2) p'(1,2) flag kd by (auto simp del: fun_upd_apply)
      (auto)
qed

lemma frames_frame:
  assumes ok: "frames_ok s A" and i: "int i < totalPages (pa_resources (phys_pool ty s))"
  shows "pa_frame (phys_pool ty s) i \<noteq> 0" "pa_frame (phys_pool ty s) i \<noteq> - 1"
proof -
  have p: "pa_ok (phys_pool ty s) (A ty)" and z: "pa_startAddress (phys_pool ty s) \<noteq> 0"
    using ok unfolding frames_ok_def by blast+
  note u = unat_pa_frame [OF p i]
  have "unat (pa_startAddress (phys_pool ty s)) \<noteq> 0" using z by (simp add: unat_eq_zero)
  then show "pa_frame (phys_pool ty s) i \<noteq> 0" using u(1) by force
  show "pa_frame (phys_pool ty s) i \<noteq> - 1"
  proof
    assume "pa_frame (phys_pool ty s) i = - 1"
    then show False using u by simp
  qed
qed

lemma frames_allocate:
  assumes ok: "frames_ok s A"
  shows "if \<forall>i. cover (A ty) i = 0 then allocatePhysicalPages ty 1 s = Some (0, s)
     else \<exists>i s1 A1. allocatePhysicalPages ty 1 s = Some (pa_frame (phys_pool ty s) i, s1) \<and> pa_frame (phys_pool ty s) i \<noteq> 0 \<and>
       cover (A ty) i = 1 \<and> int i < totalPages (pa_resources (phys_pool ty s)) \<and>
       pa_startAddress (phys_pool ty s1) = pa_startAddress (phys_pool ty s) \<and>
       totalPages (pa_resources (phys_pool ty s1)) = totalPages (pa_resources (phys_pool ty s)) \<and>
       frames_ok s1 (A(ty := A1)) \<and> (\<forall>j. cover A1 j = (if j = i then 0 else cover (A ty) j)) \<and>
       s1 = upd_page (frame_no (phys_pool ty s) i)
          (\<lambda>_. \<lparr>pi_ref = 0, pi_flags = (if ty = KERNEL then PG_KERNEL else 0) OR PG_SINGLE, pi_extra = 0\<rparr>) (set_phys_pool ty (phys_pool ty s1) s)"
proof -
  let ?p = "phys_pool ty s"
  let ?d = "\<lparr>pi_ref = 0, pi_flags = (if ty = KERNEL then PG_KERNEL else 0) OR PG_SINGLE, pi_extra = 0\<rparr>"
  have p: "pa_ok ?p (A ty)" using ok unfolding frames_ok_def by blast
  show ?thesis
  proof (cases rule: pa_alloc_one [OF p])
    case 1
    then show ?thesis by (simp add: allocatePhysicalPages_one)
  next
    case (2 i p' A')
    let ?s1 = "upd_page (frame_no ?p i) (\<lambda>_. ?d) (set_phys_pool ty p' s)"
    have free: "PageInfo_hasFlag (pageinfos s (frame_no ?p i)) PG_FREE" using ok 2(2) unfolding frames_ok_def by blast
    have al: "allocatePhysicalPages ty 1 s = Some (pa_frame ?p i, ?s1)"
      using 2(1) frames_frame [OF ok 2(3)] free by (simp add: allocatePhysicalPages_one frame_no_def)
    have c1: "cover A' j = 1 \<Longrightarrow> j \<noteq> i \<Longrightarrow> cover (A ty) j = 1" for j using 2(7) [of j] by simp
    have "frames_ok ?s1 (A(ty := A'))" by (rule frames_ok_upd [OF ok 2(4,5,6,3) c1]) (simp_all add: 2(7))
    moreover have "\<not> (\<forall>i. cover (A ty) i = 0)" using 2(2) by (metis zero_neq_one)
    moreover have "phys_pool ty ?s1 = p'" by simp
    ultimately show ?thesis using al 2(2,3,5,6,7) frames_frame(1) [OF ok 2(3)]
      by (simp only: if_False) (rule exI [of _ i], rule exI [of _ ?s1], rule exI [of _ A'], simp)
  qed
qed

lemma frames_release:
  assumes ok: "frames_ok s A" and i: "int i < totalPages (pa_resources (phys_pool ty s))" "cover (A ty) i = 0"
    and d: "PageInfo_hasFlag (pageinfos s (frame_no (phys_pool ty s) i)) PG_SINGLE" "\<not> PageInfo_hasFlag (pageinfos s (frame_no (phys_pool ty s) i)) PG_FREE"
  shows "\<exists>s2 A2. releasePhysicalPages ty (pa_frame (phys_pool ty s) i) 1 s = Some s2 \<and> frames_ok s2 (A(ty := A2)) \<and>
       ((i div 2 ^ MAX_ORDER * 2 ^ MAX_ORDER) XOR 2 ^ MAX_ORDER \<notin> set (A ty MAX_ORDER) \<longrightarrow> (\<forall>j. cover A2 j = (if j = i then 1 else cover (A ty) j))) \<and>
       s2 = upd_page (frame_no (phys_pool ty s) i) freed (set_phys_pool ty (phys_pool ty s2) s)"
proof -
  let ?p = "phys_pool ty s" and ?g = "frame_no (phys_pool ty s) i"
  have p: "pa_ok ?p (A ty)" using ok unfolding frames_ok_def by blast
  obtain p2 A2 where r: "PAddressPool_release (pa_frame ?p i) 1 ?p = Some p2" "pa_ok p2 A2" "pa_startAddress p2 = pa_startAddress ?p"
    "totalPages (pa_resources p2) = totalPages (pa_resources ?p)" "\<And>j. cover A2 j \<le> (if j = i then 1 else cover (A ty) j)"
    "(i div 2 ^ MAX_ORDER * 2 ^ MAX_ORDER) XOR 2 ^ MAX_ORDER \<notin> set (A ty MAX_ORDER) \<Longrightarrow> \<forall>j. cover A2 j = (if j = i then 1 else cover (A ty) j)"
    by (rule pa_release_one [OF p i]) (rule that)
  have tot: "total_ok (totalPages (pa_resources ?p)) (A ty)" using p by (simp add: pa_ok_def buddy_inv_def)
  let ?s2 = "upd_page ?g freed (set_phys_pool ty p2 s)"
  have rel: "releasePhysicalPages ty (pa_frame ?p i) 1 s = Some ?s2"
    unfolding frame_no_def by (rule releasePhysicalPages_one) (use r(1) d in \<open>simp_all add: frame_no_def\<close>)
  have le: "cover A2 j = 1 \<Longrightarrow> j \<noteq> i \<Longrightarrow> cover (A ty) j = 1" for j
    using r(5) [of j] total_okD [OF tot, of j] by fastforce
  have c: "?s2 = upd_page ?g (\<lambda>_. freed (pageinfos s ?g)) (set_phys_pool ty p2 s)" by (simp add: upd_page_def)
  have "frames_ok ?s2 (A(ty := A2))" unfolding c by (rule frames_ok_upd [OF ok r(2,3,4) i(1) le]) (simp_all add: freed_flag)
  moreover have "phys_pool ty ?s2 = p2" by simp
  ultimately show ?thesis using rel r(6) by - (rule exI [of _ ?s2], rule exI [of _ A2], simp)
qed

text \<open>
  \<^bold>\<open>C15\<close>: Single frames and their descriptors (memory.cpp, \<^verbatim>\<open>allocatePhysicalPages\<close> and
  \<^verbatim>\<open>releasePhysicalPages\<close> with count 1), in a state in which the two physical pools are well formed and
  the free frames carry free descriptors.  An allocation never trips an assertion; it returns 0, changing nothing,
  exactly when its pool has no free frame.  Otherwise it returns a free frame of the pool, which is the only one that is
  no longer free, and its descriptor, the only one that changes, is cleared but for the flag of its pool and
  \<^verbatim>\<open>PG_SINGLE\<close>.  Giving back any allocated single frame succeeds, whatever happened since it was handed out; its
  descriptor becomes that of a free frame, no other changes, and the frame, and no other, is free in addition (unless
  the allocator merges two blocks of the largest order).  The invariant holds again after both.
\<close>

theorem frames_allocate_release:
  assumes ok: "frames_ok s A"
  shows "(if \<forall>i. cover (A ty) i = 0 then allocatePhysicalPages ty 1 s = Some (0, s)
     else \<exists>i s1 A1. allocatePhysicalPages ty 1 s = Some (pa_frame (phys_pool ty s) i, s1) \<and> pa_frame (phys_pool ty s) i \<noteq> 0 \<and>
       cover (A ty) i = 1 \<and> int i < totalPages (pa_resources (phys_pool ty s)) \<and>
       pa_startAddress (phys_pool ty s1) = pa_startAddress (phys_pool ty s) \<and>
       totalPages (pa_resources (phys_pool ty s1)) = totalPages (pa_resources (phys_pool ty s)) \<and>
       frames_ok s1 (A(ty := A1)) \<and> (\<forall>j. cover A1 j = (if j = i then 0 else cover (A ty) j)) \<and>
       s1 = upd_page (frame_no (phys_pool ty s) i)
          (\<lambda>_. \<lparr>pi_ref = 0, pi_flags = (if ty = KERNEL then PG_KERNEL else 0) OR PG_SINGLE, pi_extra = 0\<rparr>) (set_phys_pool ty (phys_pool ty s1) s)) \<and>
    (\<forall>i. int i < totalPages (pa_resources (phys_pool ty s)) \<and> cover (A ty) i = 0 \<and>
       PageInfo_hasFlag (pageinfos s (frame_no (phys_pool ty s) i)) PG_SINGLE \<and> \<not> PageInfo_hasFlag (pageinfos s (frame_no (phys_pool ty s) i)) PG_FREE \<longrightarrow>
       (\<exists>s2 A2. releasePhysicalPages ty (pa_frame (phys_pool ty s) i) 1 s = Some s2 \<and> frames_ok s2 (A(ty := A2)) \<and>
          ((i div 2 ^ MAX_ORDER * 2 ^ MAX_ORDER) XOR 2 ^ MAX_ORDER \<notin> set (A ty MAX_ORDER) \<longrightarrow> (\<forall>j. cover A2 j = (if j = i then 1 else cover (A ty) j))) \<and>
          s2 = upd_page (frame_no (phys_pool ty s) i) freed (set_phys_pool ty (phys_pool ty s2) s)))"
  using frames_allocate [OF ok, of ty] frames_release [OF ok, of _ ty] by blast

definition free_frames :: MM where
  "free_frames = mm_example\<lparr>userPhysical := pa_example\<lparr>pa_startAddress := 0x800000\<rparr>,
     pageinfos := (\<lambda>_. \<lparr>pi_ref = 0, pi_flags = PG_FREE, pi_extra = 0\<rparr>)\<rparr>"

lemma free_frames_ok: "frames_ok free_frames (\<lambda>_. (\<lambda>_. [])(2 := [0]))"
proof -
  have k: "pa_ok (kernelPhysical free_frames) ((\<lambda>_. [])(2 := [0]))"
    using pa_example_ok by (simp add: free_frames_def mm_example_def)
  have u: "pa_ok (userPhysical free_frames) ((\<lambda>_. [])(2 := [0]))"
    using four_pages_inv by (simp add: free_frames_def pa_ok_def pa_example_def four_pages_total)
  have t: "totalPages (pa_resources (kernelPhysical free_frames)) = 4" "totalPages (pa_resources (userPhysical free_frames)) = 4"
    "pa_startAddress (kernelPhysical free_frames) = 0x200000" "pa_startAddress (userPhysical free_frames) = 0x800000"
    by (simp_all add: free_frames_def mm_example_def pa_example_def four_pages_total)
  have "frame_no (kernelPhysical free_frames) i \<noteq> frame_no (userPhysical free_frames) j"
    if "int i < totalPages (pa_resources (kernelPhysical free_frames))" "int j < totalPages (pa_resources (userPhysical free_frames))" for i j
    using frame_no_eq [OF k that(1)] frame_no_eq [OF u that(2)] that t by simp
  moreover have "PageInfo_hasFlag (pageinfos free_frames i) PG_FREE" for i
    by (simp add: free_frames_def PageInfo_hasFlag_def pg_flag_defs)
  moreover have "pa_ok (phys_pool ty free_frames) ((\<lambda>_. [])(2 := [0])) \<and> pa_startAddress (phys_pool ty free_frames) \<noteq> 0" for ty
    using k u t by (cases ty) (simp_all add: phys_pool_def)
  ultimately show ?thesis unfolding frames_ok_def by blast
qed

lemma cover_member: "b \<in> set (A MAX_ORDER) \<Longrightarrow> 0 < cover A b"
proof -
  assume "b \<in> set (A MAX_ORDER)"
  then obtain xs ys where "A MAX_ORDER = xs @ b # ys" by (auto dest: split_list)
  then have "0 < (\<Sum>s\<leftarrow>A MAX_ORDER. in_block MAX_ORDER s b)" by (simp add: in_block_self)
  also have "\<dots> \<le> cover A b" unfolding cover_def by (rule member_le_sum) simp_all
  finally show ?thesis .
qed

theorem frames_allocate_release_witness:
  "\<exists>i s1 s2 A2. allocatePhysicalPages USER 1 free_frames = Some (pa_frame (userPhysical free_frames) i, s1) \<and> i < 4 \<and>
     releasePhysicalPages USER (pa_frame (userPhysical free_frames) i) 1 s1 = Some s2 \<and> frames_ok s2 A2 \<and> (\<forall>j<4. cover (A2 USER) j = 1)"
proof -
  let ?A = "\<lambda>_::AddressPoolType. (\<lambda>_::nat. [] :: nat list)(2 := [0])"
  have c: "cover (?A USER) j = (if j < 4 then 1 else 0)" for j 
    using cover_push [of 2 "\<lambda>_. []" 0 j] by (simp add: MAX_ORDER_def in_block_def)
  have t: "totalPages (pa_resources (userPhysical free_frames)) = 4"
    by (simp add: free_frames_def mm_example_def pa_example_def four_pages_total)
  have u: "phys_pool USER s = userPhysical s" for s by (simp add: phys_pool_def)
  have ne: "\<not> (\<forall>i. cover (?A USER) i = 0)" using c [of 0] by (auto intro!: exI [of _ 0])
  obtain i s1 A1 where al: "allocatePhysicalPages USER 1 free_frames = Some (pa_frame (userPhysical free_frames) i, s1)"
      "int i < totalPages (pa_resources (userPhysical free_frames))"
      "pa_startAddress (userPhysical s1) = pa_startAddress (userPhysical free_frames)" "totalPages (pa_resources (userPhysical s1)) = 4"
      "frames_ok s1 (?A(USER := A1))" "\<forall>j. cover A1 j = (if j = i then 0 else cover (?A USER) j)"
      "s1 = upd_page (frame_no (userPhysical free_frames) i) (\<lambda>_. \<lparr>pi_ref = 0, pi_flags = (if USER = KERNEL then PG_KERNEL else 0) OR PG_SINGLE, pi_extra = 0\<rparr>)
         (set_phys_pool USER (userPhysical s1) free_frames)"
    using frames_allocate_release [OF free_frames_ok, of USER, THEN conjunct1] unfolding u t if_not_P [OF ne] by blast
  have i: "i < 4" using al(2) t by simp
  have tag: "pageinfos s1 (frame_no (userPhysical s1) i) = \<lparr>pi_ref = 0, pi_flags = PG_SINGLE, pi_extra = 0\<rparr>"
    by (subst al(7)) (simp add: frame_no_cong [OF al(3)])
  have pf: "pa_frame (userPhysical s1) i = pa_frame (userPhysical free_frames) i" using al(3) by (simp add: pa_frame_def)
  have big: "(i div 2 ^ MAX_ORDER * 2 ^ MAX_ORDER) XOR 2 ^ MAX_ORDER \<notin> set (A1 MAX_ORDER)"
  proof
    have "i div 2 ^ MAX_ORDER * 2 ^ MAX_ORDER = 0" using i by (simp add: MAX_ORDER_def)
    moreover assume "(i div 2 ^ MAX_ORDER * 2 ^ MAX_ORDER) XOR 2 ^ MAX_ORDER \<in> set (A1 MAX_ORDER)"
    ultimately have "2 ^ MAX_ORDER \<in> set (A1 MAX_ORDER)" by simp
    then have "cover A1 (2 ^ MAX_ORDER) > 0" by (rule cover_member)
    then show False using al(6) i c [of "2 ^ MAX_ORDER"] by (simp add: MAX_ORDER_def split: if_splits)
  qed
  obtain s2 A2 where "releasePhysicalPages USER (pa_frame (userPhysical free_frames) i) 1 s1 = Some s2" "frames_ok s2 (?A(USER := A1, USER := A2))"
      "\<forall>j. cover A2 j = (if j = i then 1 else cover A1 j)"
    using frames_allocate_release [OF al(5), of USER, THEN conjunct2, rule_format, of i] i al(4,6) tag big unfolding u pf
    by (auto simp: PageInfo_hasFlag_def pg_flag_defs)
  moreover from this(3) have "\<forall>j<4. cover A2 j = 1" using al(6) c by simp
  ultimately show ?thesis using al(1) i by (intro exI [of _ i] exI [of _ s1] exI [of _ s2] exI [of _ "?A(USER := A1, USER := A2)"]) simp
qed

end
