(* ===== verification/Libc.thy ===== *)
theory Libc
  imports Os_Prelude
begin

text \<open>
  \<^verbatim>\<open>src/libc/stdlib.cpp\<close> and the inline helpers of \<^verbatim>\<open>include/libc/stdlib.h\<close>, on the flat
  memory of a process: number formatting, the memory and string routines, and what they mean for the
  NUL-terminated strings that memory holds.  A loop that scans for a NUL may run on forever, so the
  string routines are partial: \<^const>\<open>None\<close> is a scan that never ends.
\<close>

type_synonym mem = "u32 \<Rightarrow> u8"

text \<open>A NUL-terminated \<^verbatim>\<open>char\<close> array as a value: the bytes before the NUL.\<close>

type_synonym cstr = "u8 list"

section \<open>Characters\<close>

definition is_alpha :: "u8 \<Rightarrow> bool" where
  "is_alpha c \<longleftrightarrow> 0x41 \<le> c \<and> c \<le> 0x5A \<or> 0x61 \<le> c \<and> c \<le> 0x7A"

definition to_lower :: "u8 \<Rightarrow> u8" where
  "to_lower c = (if 0x41 \<le> c \<and> c \<le> 0x5A then c + 0x20 else c)"

definition to_upper :: "u8 \<Rightarrow> u8" where
  "to_upper c = (if 0x61 \<le> c \<and> c \<le> 0x7A then c - 0x20 else c)"

section \<open>Numbers\<close>

definition digit_char :: "u32 \<Rightarrow> u8" where
  "digit_char temp = (if temp > 9 then ucast (temp - 10) + 0x41 else ucast temp + 0x30)"

text \<open>The digits are produced lowest first, \<open>i\<close> of them so far.\<close>

function itos_digits :: "mem \<Rightarrow> u32 \<Rightarrow> u32 \<Rightarrow> u32 \<Rightarrow> u32 \<Rightarrow> u32 \<times> mem" where
  "itos_digits m numStr num md i =
     (if num = 0 \<or> md < 2 then (i, m)
      else itos_digits (m(numStr + i := digit_char (num mod md))) numStr (num div md) md (i + 1))"
  by pat_completeness auto

termination
proof (relation "measure (\<lambda>(m, p, num, md, i). unat num)", goal_cases)
  case (2 m p num md i)
  then have "2 \<le> unat md" "num \<noteq> 0" by (auto simp: word_less_nat_alt)
  then have "unat num div unat md < unat num" by (intro div_less_dividend) (auto simp: unat_eq_zero intro!: Nat.gr0I)
  then show ?case by (simp add: unat_div)
qed simp

fun reverse_range :: "nat \<Rightarrow> mem \<Rightarrow> u32 \<Rightarrow> u32 \<Rightarrow> mem" where
  "reverse_range 0 m i j = m"
| "reverse_range (Suc n) m i j = reverse_range n (m(i := m j, j := m i)) (i + 1) (j - 1)"

definition itos :: "mem \<Rightarrow> u32 \<Rightarrow> u32 \<Rightarrow> u32 \<Rightarrow> mem" where
  "itos m numStr num md =
     (if md < 2 \<or> 26 < md then m
      else let (len, m) = itos_digits m numStr num md 0;
               (len, m) = (if len = 0 then (1, m(numStr := 0x30)) else (len, m));
               m = reverse_range (unat len div 2) m numStr (numStr + len - 1)
           in m(numStr + len := 0))"

section \<open>Memory\<close>

definition memset :: "u32 \<Rightarrow> u8 \<Rightarrow> nat \<Rightarrow> mem \<Rightarrow> mem" where
  "memset p v n m = fold (\<lambda>i m. m(p + word_of_nat i := v)) [0..<n] m"

definition copy_byte :: "u32 \<Rightarrow> u32 \<Rightarrow> nat \<Rightarrow> mem \<Rightarrow> mem" where
  "copy_byte d s i m = m(d + word_of_nat i := m (s + word_of_nat i))"

text \<open>One aligned 32-bit load and store.\<close>

definition copy_word :: "u32 \<Rightarrow> u32 \<Rightarrow> nat \<Rightarrow> mem \<Rightarrow> mem" where
  "copy_word d s i m =
     (let a = d + word_of_nat (4 * i); b = s + word_of_nat (4 * i)
      in m(a := m b, a + 1 := m (b + 1), a + 2 := m (b + 2), a + 3 := m (b + 3)))"

definition memcpy :: "u32 \<Rightarrow> u32 \<Rightarrow> u32 \<Rightarrow> mem \<Rightarrow> mem" where
  "memcpy str1 str2 n m =
     (if str1 AND 3 \<noteq> 0 \<or> str2 AND 3 \<noteq> 0 then fold (copy_byte str1 str2) [0..<unat n] m
      else fold (copy_byte str1 str2) [unat n - unat n mod 4..<unat n] (fold (copy_word str1 str2) [0..<unat n div 4] m))"

section \<open>Strings\<close>

partial_function (option) strlen_loop :: "mem \<Rightarrow> u32 \<Rightarrow> u32 \<Rightarrow> u32 option" where
  "strlen_loop m ptr k = (if m (ptr + k) \<noteq> 0 then strlen_loop m ptr (k + 1) else Some k)"

definition strlen :: "mem \<Rightarrow> u32 \<Rightarrow> u32 option" where
  "strlen m ptr = strlen_loop m ptr 0"

partial_function (option) strcpy :: "u32 \<Rightarrow> u32 \<Rightarrow> mem \<Rightarrow> mem option" where
  "strcpy dest src m =
     (if m src \<noteq> 0 then strcpy (dest + 1) (src + 1) (m(dest := m src)) else Some (m(dest := m src)))"

partial_function (option) strcmp :: "mem \<Rightarrow> u32 \<Rightarrow> u32 \<Rightarrow> int option" where
  "strcmp m cs ct =
     (if m cs \<noteq> m ct then Some (if m cs < m ct then - 1 else 1)
      else if m cs = 0 then Some 0
      else strcmp m (cs + 1) (ct + 1))"

section \<open>The strings that memory holds\<close>

fun str_at :: "mem \<Rightarrow> u32 \<Rightarrow> cstr \<Rightarrow> bool" where
  "str_at m p [] \<longleftrightarrow> m p = 0"
| "str_at m p (c # cs) \<longleftrightarrow> m p = c \<and> c \<noteq> 0 \<and> str_at m (p + 1) cs"

text \<open>The comparison of two strings as values.\<close>

fun cstr_cmp :: "cstr \<Rightarrow> cstr \<Rightarrow> int" where
  "cstr_cmp [] [] = 0"
| "cstr_cmp [] (c # cs) = - 1"
| "cstr_cmp (c # cs) [] = 1"
| "cstr_cmp (c # cs) (d # ds) = (if c = d then cstr_cmp cs ds else if c < d then - 1 else 1)"

lemma cstr_cmp_eq_0 [simp]: "cstr_cmp xs ys = 0 \<longleftrightarrow> xs = ys"
  by (induction xs ys rule: cstr_cmp.induct) auto

lemma strlen_loop_str:
  "str_at m (p + k) cs \<Longrightarrow> strlen_loop m p k = Some (k + word_of_nat (length cs))"
  by (induction cs arbitrary: k) (subst strlen_loop.simps, simp add: algebra_simps)+

lemma strcmp_str: "str_at m p xs \<Longrightarrow> str_at m q ys \<Longrightarrow> strcmp m p q = Some (cstr_cmp xs ys)"
  by (induction xs ys arbitrary: p q rule: cstr_cmp.induct)
    (subst strcmp.simps, auto simp: word_gt_0 word_not_simps)+

section \<open>Copying\<close>

text \<open>Memory after \<open>n\<close> bytes have been copied from \<open>s\<close> to \<open>d\<close>.\<close>

definition copied :: "u32 \<Rightarrow> u32 \<Rightarrow> nat \<Rightarrow> mem \<Rightarrow> mem" where
  "copied d s n m = (\<lambda>a. if unat (a - d) < n then m (s + (a - d)) else m a)"

definition apart :: "u32 \<Rightarrow> u32 \<Rightarrow> nat \<Rightarrow> bool" where
  "apart d s n \<longleftrightarrow> n \<le> 2 ^ 32 \<and> (\<forall>i<n. \<forall>j<n. d + word_of_nat i \<noteq> s + word_of_nat j)"

lemma unat_index: "i < 2 ^ 32 \<Longrightarrow> unat (word_of_nat i :: u32) = i"
  by (simp add: unsigned_of_nat take_bit_nat_eq_self)

lemma apart_ranges:
  assumes "unat s + n \<le> unat d" and "unat d + n \<le> 2 ^ 32"
  shows "apart d s n"
proof -
  have u: "unat (x + word_of_nat i) = unat x + i" if "unat x + n \<le> 2 ^ 32" "i < n" for x :: u32 and i
    using that by (subst unat_add_lem [THEN iffD1]) (simp_all add: unat_index)
  have "d + word_of_nat i \<noteq> s + word_of_nat j" if ij: "i < n" "j < n" for i j
  proof
    assume "d + word_of_nat i = s + word_of_nat j"
    then have "unat d + i = unat s + j" using u [of d i] u [of s j] ij assms by simp
    then show False using assms(1) ij by linarith
  qed
  then show ?thesis using assms by (simp add: apart_def)
qed

lemma copied_source: "apart d s n \<Longrightarrow> i < n \<Longrightarrow> k \<le> n \<Longrightarrow> copied d s k m (s + word_of_nat i) = m (s + word_of_nat i)"
proof -
  assume a: "apart d s n" "i < n" "k \<le> n"
  let ?x = "s + word_of_nat i - d"
  have "\<not> unat ?x < k"
  proof
    assume "unat ?x < k"
    then have "unat ?x < n" using a by simp
    then have "d + word_of_nat (unat ?x) \<noteq> s + word_of_nat i" using a(1,2) unfolding apart_def by blast
    then show False by simp
  qed
  then show ?thesis by (simp add: copied_def)
qed

lemma copied_step:
  assumes "apart d s n" and "i < n"
  shows "(copied d s i m)(d + word_of_nat i := m (s + word_of_nat i)) = copied d s (Suc i) m"
proof
  fix a
  have i: "unat (word_of_nat i :: u32) = i" using assms by (intro unat_index) (simp add: apart_def)
  have "a = d + word_of_nat i \<longleftrightarrow> unat (a - d) = i"
  proof
    assume "unat (a - d) = i"
    then have "a - d = word_of_nat i" by auto
    then show "a = d + word_of_nat i" by (simp add: algebra_simps)
  qed (simp add: i)
  then show "((copied d s i m)(d + word_of_nat i := m (s + word_of_nat i))) a = copied d s (Suc i) m a"
    by (auto simp: copied_def less_Suc_eq i)
qed

lemma copy_byte_copied: "apart d s n \<Longrightarrow> i < n \<Longrightarrow> copy_byte d s i (copied d s i m) = copied d s (Suc i) m"
  unfolding copy_byte_def by (subst copied_source [of d s n]) (simp_all add: copied_step)

lemma copy_word_copied:
  assumes "apart d s n" and "4 * i + 4 \<le> n"
  shows "copy_word d s i (copied d s (4 * i) m) = copied d s (4 * Suc i) m"
proof -
  let ?c = "copied d s (4 * i) m"
  have w: "word_of_nat (4 * i) + 1 = (word_of_nat (4 * i + 1) :: u32)" "word_of_nat (4 * i) + 2 = (word_of_nat (4 * i + 2) :: u32)"
    "word_of_nat (4 * i) + 3 = (word_of_nat (4 * i + 3) :: u32)" by (simp_all add: add.commute)
  have e: "?c (s + word_of_nat (4 * i + j)) = m (s + word_of_nat (4 * i + j))" if "j < 4" for j
    by (rule copied_source [OF assms(1)]) (use assms(2) that in auto)
  have "copy_word d s i ?c = ?c(d + word_of_nat (4 * i) := m (s + word_of_nat (4 * i)), d + word_of_nat (4 * i + 1) := m (s + word_of_nat (4 * i + 1)),
      d + word_of_nat (4 * i + 2) := m (s + word_of_nat (4 * i + 2)), d + word_of_nat (4 * i + 3) := m (s + word_of_nat (4 * i + 3)))"
    using e [of 0] e [of 1] e [of 2] e [of 3] by (simp add: copy_word_def Let_def add.assoc w del: of_nat_add of_nat_mult)
  also have "\<dots> = copied d s (4 * Suc i) m"
    using assms copied_step [OF assms(1), of "4 * i" m] copied_step [OF assms(1), of "4 * i + 1" m]
      copied_step [OF assms(1), of "4 * i + 2" m] copied_step [OF assms(1), of "4 * i + 3" m]
    by (simp add: eval_nat_numeral del: of_nat_add of_nat_mult of_nat_Suc)
  finally show ?thesis .
qed

lemma fold_copy_byte: "apart d s n \<Longrightarrow> k \<le> n \<Longrightarrow> j \<le> k \<Longrightarrow> fold (copy_byte d s) [j..<k] (copied d s j m) = copied d s k m"
proof (induction k)
  case (Suc k)
  then show ?case using copy_byte_copied [of d s n k m] by (cases "j = Suc k") auto
qed (simp add: copied_def)

lemma fold_copy_word: "apart d s n \<Longrightarrow> 4 * k \<le> n \<Longrightarrow> fold (copy_word d s) [0..<k] m = copied d s (4 * k) m"
proof (induction k)
  case (Suc k)
  then show ?case using copy_word_copied [of d s n k m] by simp
qed (simp add: copied_def)

text \<open>
  The word-wise copy loop is equivalent to the byte-wise one (stdlib.cpp, \<^verbatim>\<open>memcpy\<close>).
  When source and destination do not overlap, \<^verbatim>\<open>memcpy\<close> copies exactly the requested bytes and
  changes nothing else, whichever of its two loops the alignment of the pointers selects.
\<close>

theorem memcpy_correct:
  assumes "apart d s (unat n)"
  shows "memcpy d s n m = copied d s (unat n) m \<and> memcpy d s n m = fold (copy_byte d s) [0..<unat n] m"
proof -
  have b: "fold (copy_byte d s) [0..<unat n] m = copied d s (unat n) m"
    using fold_copy_byte [OF assms, of "unat n" 0 m] by (simp add: copied_def)
  have "unat n - unat n mod 4 = 4 * (unat n div 4)" by (simp add: minus_mod_eq_mult_div)
  then have "fold (copy_byte d s) [unat n - unat n mod 4..<unat n] (fold (copy_word d s) [0..<unat n div 4] m) = copied d s (unat n) m"
    using fold_copy_byte [OF assms, of "unat n" "4 * (unat n div 4)" m] fold_copy_word [OF assms, of "unat n div 4" m] by simp
  then show ?thesis using b by (simp add: memcpy_def)
qed

theorem memcpy_correct_witness:
  "memcpy 0x2000 0x1000 6 (\<lambda>a. ucast a) 0x2005 = 0x05 \<and> memcpy 0x2000 0x1000 6 (\<lambda>a. ucast a) 0x2106 = 0x06"
proof -
  have "apart 0x2000 0x1000 (unat (6 :: u32))" by (rule apart_ranges) simp_all
  then have "memcpy 0x2000 0x1000 6 m = copied 0x2000 0x1000 6 m" for m using memcpy_correct by fastforce
  then show ?thesis by (simp add: copied_def)
qed

end
