(* ===== verification/File_Paths.thy ===== *)
theory File_Paths
  imports Libc
begin

text \<open>
  The path helpers of \<^verbatim>\<open>src/kernel/fileSys/file_manager.cpp\<close>: walking the components of a path,
  appending and popping them, \<^verbatim>\<open>normalizePath\<close> and \<^verbatim>\<open>splitPath\<close>.  A NUL-terminated
  \<^verbatim>\<open>char\<close> array is the list of the bytes before its NUL; a cursor into a string is the suffix that
  is left.  \<^const>\<open>None\<close> is the error return -1, after which no caller looks at the output buffer.
\<close>

abbreviation slash :: u8 where "slash \<equiv> 0x2F"
abbreviation period :: u8 where "period \<equiv> 0x2E"

definition MAX_PATH_LENGTH :: nat where "MAX_PATH_LENGTH = 256"

section \<open>Helpers\<close>

fun equals_loop :: "cstr \<Rightarrow> nat \<Rightarrow> cstr \<Rightarrow> nat \<Rightarrow> bool option \<times> nat" where
  "equals_loop component len [] i = (None, i)"
| "equals_loop component len (t # ts) i =
     (if i < len then if component ! i \<noteq> t then (Some False, i) else equals_loop component len ts (i + 1) else (None, i))"

definition component_equals :: "cstr \<Rightarrow> nat \<Rightarrow> cstr \<Rightarrow> bool" where
  "component_equals component len target =
     (case equals_loop component len target 0 of (Some b, i) \<Rightarrow> b | (None, i) \<Rightarrow> i = len \<and> i = length target)"

definition path_length :: "cstr \<Rightarrow> int" where
  "path_length path = (if MAX_PATH_LENGTH \<le> length path then - 1 else int (length path))"

fun back_to_slash :: "cstr \<Rightarrow> nat \<Rightarrow> nat" where
  "back_to_slash out 0 = 0"
| "back_to_slash out (Suc n) = (if 1 < Suc n \<and> out ! n \<noteq> slash then back_to_slash out n else Suc n)"

definition path_pop_component :: "cstr \<Rightarrow> cstr" where
  "path_pop_component out =
     (let len = length out in
      if len \<le> 1 then [slash]
      else let len = (if out ! (len - 1) = slash then len - 1 else len);
               len = back_to_slash out len
           in if len = 1 then take 1 out else take (len - 1) out)"

definition path_append_component :: "cstr \<Rightarrow> cstr \<Rightarrow> cstr option" where
  "path_append_component out component =
     (let len = length component in
      if len = 0 \<or> component_equals component len [period] then Some out
      else if component_equals component len [period, period] then Some (path_pop_component out)
      else let out_len = length out;
               need_slash = (if out_len = 1 \<and> out ! 0 = slash then 0 else 1)
           in if MAX_PATH_LENGTH \<le> out_len + need_slash + len then None
              else Some (out @ (if need_slash = 1 then [slash] else []) @ component))"

lemma consume_shrinks:
  "dropWhile (\<lambda>c. c = slash) part \<noteq> [] \<Longrightarrow> length (dropWhile (\<lambda>c. c \<noteq> slash) (dropWhile (\<lambda>c. c = slash) part)) < length part"
proof -
  assume "dropWhile (\<lambda>c. c = slash) part \<noteq> []"
  then obtain x xs where r: "dropWhile (\<lambda>c. c = slash) part = x # xs" by (cases "dropWhile (\<lambda>c. c = slash) part") auto
  then have "x \<noteq> slash" using hd_dropWhile [of "\<lambda>c. c = slash" part] by simp
  then have "length (dropWhile (\<lambda>c. c \<noteq> slash) (x # xs)) \<le> length xs" by (simp add: length_dropWhile_le)
  moreover have "length (x # xs) \<le> length part" using length_dropWhile_le [of "\<lambda>c. c = slash" part] r by simp
  ultimately show ?thesis using r by simp
qed

function path_consume_part :: "cstr \<Rightarrow> cstr \<Rightarrow> cstr option" where
  "path_consume_part part out =
     (if part = [] then Some out
      else let rest = dropWhile (\<lambda>c. c = slash) part in
        if rest = [] then Some out
        else let component = takeWhile (\<lambda>c. c \<noteq> slash) rest in
          if MAX_PATH_LENGTH \<le> length component then None
          else case path_append_component out component of
            None \<Rightarrow> None
          | Some out \<Rightarrow> path_consume_part (dropWhile (\<lambda>c. c \<noteq> slash) rest) out)"
  by pat_completeness auto

termination
  by (relation "measure (\<lambda>(part, out). length part)") (auto intro: consume_shrinks)

text \<open>The next component and the rest of the path; no component is left when the name is empty.\<close>

definition path_next_component :: "cstr \<Rightarrow> (cstr \<times> cstr) option" where
  "path_next_component path =
     (let rest = dropWhile (\<lambda>c. c = slash) path in
      if rest = [] then Some ([], rest)
      else let name = takeWhile (\<lambda>c. c \<noteq> slash) rest in
        if MAX_PATH_LENGTH - 1 < length name then None else Some (name, dropWhile (\<lambda>c. c \<noteq> slash) rest))"

definition path_is_mnt_prefix :: "cstr \<Rightarrow> bool" where
  "path_is_mnt_prefix path \<longleftrightarrow> take 4 path = [slash, 0x6D, 0x6E, 0x74] \<and> (length path = 4 \<or> path ! 4 = slash)"

section \<open>Normalising and splitting\<close>

definition normalizePath :: "cstr option \<Rightarrow> cstr \<Rightarrow> cstr option" where
  "normalizePath cwd path =
     (if path_length path < 0 then None
      else if (case cwd of Some c \<Rightarrow> path_length c < 0 | None \<Rightarrow> False) then None
      else if path \<noteq> [] \<and> hd path = slash then path_consume_part path [slash]
      else case (case cwd of
                   Some c \<Rightarrow> if c = [] then Some [slash] else if hd c \<noteq> slash then None else path_consume_part c [slash]
                 | None \<Rightarrow> Some [slash]) of
             None \<Rightarrow> None
           | Some out \<Rightarrow> path_consume_part path out)"

fun find_slash :: "cstr \<Rightarrow> nat \<Rightarrow> nat" where
  "find_slash s 0 = 0"
| "find_slash s (Suc n) = (if s ! Suc n \<noteq> slash then find_slash s n else Suc n)"

text \<open>\<open>cwd\<close> is the working directory of the running process.\<close>

definition splitPath :: "cstr \<Rightarrow> cstr \<Rightarrow> (cstr \<times> cstr) option" where
  "splitPath cwd path =
     (case normalizePath (Some cwd) path of
        None \<Rightarrow> None
      | Some normalized \<Rightarrow>
          let len = length normalized in
          if len \<le> 1 then None
          else let sl = find_slash normalized (len - 1); name_len = len - sl - 1 in
            if name_len = 0 \<or> MAX_PATH_LENGTH \<le> name_len then None
            else let name = take name_len (drop (sl + 1) normalized) in
              if sl = 0 then Some ([slash], name) else Some (take sl normalized, name))"

section \<open>Paths as lists of components\<close>

declare path_consume_part.simps [simp del]

text \<open>The components of a path, the directory they lead to, and a list of components as a path.\<close>

function components :: "cstr \<Rightarrow> cstr list" where
  "components s =
     (let rest = dropWhile (\<lambda>c. c = slash) s in
      if rest = [] then [] else takeWhile (\<lambda>c. c \<noteq> slash) rest # components (dropWhile (\<lambda>c. c \<noteq> slash) rest))"
  by pat_completeness auto

termination
  by (relation "measure length") (auto intro: consume_shrinks)

declare components.simps [simp del]

definition step_component :: "cstr list \<Rightarrow> cstr \<Rightarrow> cstr list" where
  "step_component cs c = (if c = [period] then cs else if c = [period, period] then butlast cs else cs @ [c])"

definition resolve :: "cstr list \<Rightarrow> cstr \<Rightarrow> cstr list" where
  "resolve cs path = foldl step_component cs (components path)"

definition joined :: "cstr list \<Rightarrow> cstr" where
  "joined cs = concat (map (\<lambda>c. slash # c) cs)"

definition render :: "cstr list \<Rightarrow> cstr" where
  "render cs = (if cs = [] then [slash] else joined cs)"

definition plain_name :: "cstr \<Rightarrow> bool" where
  "plain_name c \<longleftrightarrow> c \<noteq> [] \<and> slash \<notin> set c \<and> c \<noteq> [period] \<and> c \<noteq> [period, period]"

lemma joined_simps [simp]: "joined [] = []" "joined (cs @ ds) = joined cs @ joined ds" "joined [c] = slash # c"
  by (simp_all add: joined_def)

lemma joined_eq_Nil [simp]: "joined cs = [] \<longleftrightarrow> cs = []"
  by (cases cs) (simp_all add: joined_def)

lemma equals_loop_drop:
  "i \<le> length c \<Longrightarrow>
     (case equals_loop c (length c) ts i of (Some b, j) \<Rightarrow> b | (None, j) \<Rightarrow> j = length c \<and> j = i + length ts) \<longleftrightarrow> drop i c = ts"
proof (induction ts arbitrary: i)
  case (Cons t ts)
  show ?case
  proof (cases "i < length c")
    case True
    then have "drop i c = c ! i # drop (Suc i) c" by (simp add: Cons_nth_drop_Suc)
    then show ?thesis using Cons.IH [of "Suc i"] True by (auto split: prod.splits option.splits)
  qed (use Cons.prems in auto)
qed auto

lemma component_equals_iff [simp]: "component_equals c (length c) t \<longleftrightarrow> c = t"
  using equals_loop_drop [of 0 c t] by (cases "equals_loop c (length c) t 0") (auto simp: component_equals_def split: option.splits)

lemma back_to_slash_name:
  "slash \<notin> set c \<Longrightarrow> back_to_slash (xs @ slash # c @ ys) (length xs + 1 + length c) = length xs + 1"
proof (induction c arbitrary: ys rule: rev_induct)
  case (snoc x c)
  have "(xs @ slash # (c @ [x]) @ ys) ! (length xs + 1 + length c) = x" by (simp add: nth_append)
  then have "back_to_slash (xs @ slash # (c @ [x]) @ ys) (Suc (length xs + 1 + length c)) =
      back_to_slash (xs @ slash # (c @ [x]) @ ys) (length xs + 1 + length c)" using snoc.prems by auto
  then show ?case using snoc.IH [of "x # ys"] snoc.prems by simp
qed simp

lemma pop_joined:
  assumes "plain_name c"
  shows "path_pop_component (joined cs @ slash # c) = render cs"
proof -
  let ?o = "joined cs @ slash # c"
  have "?o ! (length ?o - 1) = last c" using assms by (simp add: plain_name_def nth_append last_conv_nth)
  moreover have "last c \<noteq> slash" using assms last_in_set [of c] by (metis plain_name_def)
  ultimately have l: "?o ! (length ?o - 1) \<noteq> slash" by simp
  have b: "back_to_slash ?o (length ?o) = length (joined cs) + 1"
    using back_to_slash_name [of c "joined cs" "[]"] assms by (simp add: plain_name_def)
  have n: "\<not> length ?o \<le> 1" using assms by (simp add: plain_name_def)
  show ?thesis
  proof (cases "cs = []")
    case True
    then show ?thesis using l b n by (simp add: path_pop_component_def Let_def render_def)
  next
    case False
    then have "joined cs \<noteq> []" by simp
    then show ?thesis using l b n False by (simp add: path_pop_component_def Let_def render_def)
  qed
qed

lemma pop_render: "list_all plain_name cs \<Longrightarrow> path_pop_component (render cs) = render (butlast cs)"
proof (cases cs rule: rev_cases)
  case (snoc ds d)
  then show "list_all plain_name cs \<Longrightarrow> ?thesis" using pop_joined [of d ds] by (simp add: render_def)
qed (simp add: render_def path_pop_component_def)

text \<open>Appending a component is one step, unless the path becomes too long.\<close>

lemma append_refine:
  assumes "list_all plain_name cs" and "c \<noteq> []" and "slash \<notin> set c"
  shows "path_append_component (render cs) c =
     (if c \<noteq> [period] \<and> c \<noteq> [period, period] \<and> MAX_PATH_LENGTH \<le> length (render (step_component cs c)) then None
      else Some (render (step_component cs c)))"
proof -
  have "(length (render cs) = 1 \<and> render cs ! 0 = slash) \<longleftrightarrow> cs = []"
  proof
    assume a: "length (render cs) = 1 \<and> render cs ! 0 = slash"
    show "cs = []"
    proof (cases cs)
      case (Cons d ds)
      then show ?thesis using a assms(1) by (simp add: render_def joined_def plain_name_def)
    qed simp
  qed (simp add: render_def)
  then show ?thesis using assms pop_render [OF assms(1)]
    unfolding path_append_component_def Let_def component_equals_iff by (auto simp: step_component_def) (auto simp: render_def)
qed

section \<open>Consuming a path\<close>

lemma next_component:
  assumes "dropWhile (\<lambda>c. c = slash) p = x # xs"
  shows "takeWhile (\<lambda>c. c \<noteq> slash) (x # xs) \<noteq> []" "slash \<notin> set (takeWhile (\<lambda>c. c \<noteq> slash) (x # xs))"
proof -
  have "x \<noteq> slash" using hd_dropWhile [of "\<lambda>c. c = slash" p] assms by simp
  then show "takeWhile (\<lambda>c. c \<noteq> slash) (x # xs) \<noteq> []" by simp
  show "slash \<notin> set (takeWhile (\<lambda>c. c \<noteq> slash) (x # xs))" by (blast dest: set_takeWhileD)
qed

lemma plain_step: "list_all plain_name cs \<Longrightarrow> c \<noteq> [] \<Longrightarrow> slash \<notin> set c \<Longrightarrow> list_all plain_name (step_component cs c)"
  by (auto simp: step_component_def plain_name_def list_all_iff dest: in_set_butlastD)

lemma joined_butlast: "length (joined (butlast cs)) \<le> length (joined cs)"
  by (cases cs rule: rev_cases) simp_all

lemma joined_step: "length (joined (step_component cs c)) \<le> length (joined cs) + 1 + length c"
  using joined_butlast [of cs] by (simp add: step_component_def)

lemma length_render: "length (render cs) = max 1 (length (joined cs))"
  by (cases cs) (simp_all add: render_def joined_def)

lemma consume_simps:
  "dropWhile (\<lambda>c. c = slash) p = [] \<Longrightarrow> path_consume_part p out = Some out"
  "dropWhile (\<lambda>c. c = slash) p = x # xs \<Longrightarrow> path_consume_part p out =
     (if MAX_PATH_LENGTH \<le> length (takeWhile (\<lambda>c. c \<noteq> slash) (x # xs)) then None
      else case path_append_component out (takeWhile (\<lambda>c. c \<noteq> slash) (x # xs)) of
        None \<Rightarrow> None | Some out \<Rightarrow> path_consume_part (dropWhile (\<lambda>c. c \<noteq> slash) (x # xs)) out)"
  by (subst path_consume_part.simps, simp)+ (auto simp: Let_def)

lemma resolve_simps:
  "dropWhile (\<lambda>c. c = slash) p = [] \<Longrightarrow> resolve cs p = cs"
  "dropWhile (\<lambda>c. c = slash) p = x # xs \<Longrightarrow>
     resolve cs p = resolve (step_component cs (takeWhile (\<lambda>c. c \<noteq> slash) (x # xs))) (dropWhile (\<lambda>c. c \<noteq> slash) (x # xs))"
  by (simp_all add: resolve_def components.simps [of p])

lemma consume_Some:
  assumes "path_consume_part p (render cs) = Some out" and "list_all plain_name cs" and "length (render cs) < MAX_PATH_LENGTH"
  shows "out = render (resolve cs p) \<and> list_all plain_name (resolve cs p) \<and> length out < MAX_PATH_LENGTH"
  using assms
proof (induction p arbitrary: cs rule: length_induct)
  case (1 p)
  show ?case
  proof (cases "dropWhile (\<lambda>c. c = slash) p")
    case Nil
    then show ?thesis using 1 by (simp add: consume_simps(1) resolve_simps(1))
  next
    case (Cons x xs)
    let ?c = "takeWhile (\<lambda>c. c \<noteq> slash) (x # xs)" and ?r = "dropWhile (\<lambda>c. c \<noteq> slash) (x # xs)"
    note c = next_component [OF Cons]
    have r: "path_consume_part ?r (render (step_component cs ?c)) = Some out"
      and l: "?c \<noteq> [period] \<Longrightarrow> ?c \<noteq> [period, period] \<Longrightarrow> length (render (step_component cs ?c)) < MAX_PATH_LENGTH"
      using 1(2) append_refine [OF 1(3) c] by (auto simp: consume_simps(2) [OF Cons] split: if_splits)
    have "length (render (step_component cs ?c)) < MAX_PATH_LENGTH"
    proof (cases "?c = [period] \<or> ?c = [period, period]")
      case True
      then show ?thesis using 1(4) joined_butlast [of cs] by (auto simp: step_component_def length_render)
    qed (use l in blast)
    moreover have "length ?r < length p" using consume_shrinks [of p] Cons by simp
    ultimately show ?thesis using 1(1) r plain_step [OF 1(3) c] by (simp add: resolve_simps(2) [OF Cons])
  qed
qed

lemma consume_total:
  assumes "list_all plain_name cs" and "length (joined cs) + length p + (if p = [] \<or> hd p = slash then 0 else 1) < MAX_PATH_LENGTH"
  shows "path_consume_part p (render cs) \<noteq> None"
  using assms
proof (induction p arbitrary: cs rule: length_induct)
  case (1 p)
  show ?case
  proof (cases "dropWhile (\<lambda>c. c = slash) p")
    case Nil
    then show ?thesis by (simp add: consume_simps(1))
  next
    case (Cons x xs)
    let ?c = "takeWhile (\<lambda>c. c \<noteq> slash) (x # xs)" and ?r = "dropWhile (\<lambda>c. c \<noteq> slash) (x # xs)"
    note c = next_component [OF Cons]
    have len: "length ?c + length ?r = length (x # xs)" by (metis length_append takeWhile_dropWhile_id)
    have "length (x # xs) + (if p = [] \<or> hd p = slash then 1 else 0) \<le> length p"
    proof (cases p)
      case (Cons y ys)
      then show ?thesis using \<open>dropWhile (\<lambda>c. c = slash) p = x # xs\<close> length_dropWhile_le [of "\<lambda>c. c = slash" ys] by (cases "y = slash") auto
    qed (use Cons in simp)
    then have b: "length (joined cs) + 1 + length ?c + length ?r < MAX_PATH_LENGTH" using 1(3) len by (auto split: if_splits)
    then have s: "length (joined (step_component cs ?c)) + length ?r < MAX_PATH_LENGTH" using joined_step [of cs ?c] by linarith
    have "?r = [] \<or> hd ?r = slash" using hd_dropWhile [of "\<lambda>c. c \<noteq> slash" "x # xs"] by auto
    moreover have "length ?r < length p" using consume_shrinks [of p] Cons by simp
    ultimately have "path_consume_part ?r (render (step_component cs ?c)) \<noteq> None"
      using 1(1) plain_step [OF 1(2) c] s by simp
    moreover have "length (render (step_component cs ?c)) < MAX_PATH_LENGTH" "length ?c < MAX_PATH_LENGTH"
      using s b by (auto simp: length_render MAX_PATH_LENGTH_def)
    ultimately show ?thesis using append_refine [OF 1(2) c] by (simp add: consume_simps(2) [OF Cons])
  qed
qed

lemma components_joined: "list_all plain_name cs \<Longrightarrow> components (joined cs) = cs"
proof (induction cs)
  case Nil
  then show ?case by (simp add: components.simps)
next
  case (Cons c cs)
  then have c: "c \<noteq> []" "slash \<notin> set c" "hd c \<noteq> slash" by (cases c; auto simp: plain_name_def)+
  have j: "joined (c # cs) = slash # c @ joined cs" by (simp add: joined_def)
  have d: "dropWhile (\<lambda>c. c = slash) (joined (c # cs)) = c @ joined cs" using c unfolding j by (cases c) simp_all
  have "takeWhile (\<lambda>c. c \<noteq> slash) (c @ joined cs) = c" "dropWhile (\<lambda>c. c \<noteq> slash) (c @ joined cs) = joined cs"
    using c by (auto simp: takeWhile_append dropWhile_append joined_def) (cases cs; simp)+
  then show ?case using Cons c d by (subst components.simps) simp
qed

lemma resolve_render: "list_all plain_name cs \<Longrightarrow> resolve [] (render cs) = cs"
proof -
  assume p: "list_all plain_name cs"
  have f: "foldl step_component ds cs = ds @ cs" if "list_all plain_name cs" for ds
    using that by (induction cs arbitrary: ds) (auto simp: step_component_def plain_name_def)
  show ?thesis
  proof (cases "cs = []")
    case False
    then show ?thesis using components_joined [OF p] f [OF p, of "[]"] by (simp add: resolve_def render_def)
  qed (simp add: resolve_def render_def components.simps)
qed

text \<open>The directory that a path names, seen from a working directory.\<close>

definition target :: "cstr \<Rightarrow> cstr \<Rightarrow> cstr list" where
  "target cwd path = (if path \<noteq> [] \<and> hd path = slash then resolve [] path else resolve (resolve [] cwd) path)"

definition path_fits :: "cstr \<Rightarrow> cstr \<Rightarrow> bool" where
  "path_fits cwd path \<longleftrightarrow> length path < MAX_PATH_LENGTH \<and> length cwd < MAX_PATH_LENGTH \<and>
     (path \<noteq> [] \<and> hd path = slash \<or> length cwd + length path + 1 < MAX_PATH_LENGTH)"

lemma render_Nil: "render [] = [slash]"
  by (simp add: render_def)

lemma joined_resolve: "list_all plain_name cs \<Longrightarrow> (p = [] \<or> hd p = slash) \<Longrightarrow> length (joined (resolve cs p)) \<le> length (joined cs) + length p"
proof (induction p arbitrary: cs rule: length_induct)
  case (1 p)
  show ?case
  proof (cases "dropWhile (\<lambda>c. c = slash) p")
    case (Cons x xs)
    let ?c = "takeWhile (\<lambda>c. c \<noteq> slash) (x # xs)" and ?r = "dropWhile (\<lambda>c. c \<noteq> slash) (x # xs)"
    note c = next_component [OF Cons]
    have len: "length ?c + length ?r = length (x # xs)" by (metis length_append takeWhile_dropWhile_id)
    obtain ys where p: "p = slash # ys" using 1(3) Cons by (cases p) auto
    have "length (x # xs) \<le> length ys" using Cons p length_dropWhile_le [of "\<lambda>c. c = slash" ys] by simp
    moreover have "length (joined (resolve (step_component cs ?c) ?r)) \<le> length (joined (step_component cs ?c)) + length ?r"
    proof (rule 1(1) [rule_format])
      show "length ?r < length p" using consume_shrinks [of p] Cons by simp
      show "?r = [] \<or> hd ?r = slash" using hd_dropWhile [of "\<lambda>c. c \<noteq> slash" "x # xs"] by auto
    qed (rule plain_step [OF 1(2) c])
    ultimately show ?thesis using joined_step [of cs ?c] len p unfolding resolve_simps(2) [OF Cons] by simp
  qed (simp add: resolve_simps(1))
qed

lemma root_short: "length (render []) < MAX_PATH_LENGTH"
  by (simp add: render_def MAX_PATH_LENGTH_def)

lemmas consume_root = consume_Some [of _ "[]", OF _ list.pred_inject(1) root_short, unfolded render_Nil]

lemma normalize_total:
  assumes "cwd \<noteq> []" and "hd cwd = slash" and f: "path_fits cwd path"
  shows "normalizePath (Some cwd) path \<noteq> None"
proof (cases "path \<noteq> [] \<and> hd path = slash")
  case True
  then show ?thesis using f consume_total [of "[]" path] by (auto simp: normalizePath_def path_length_def path_fits_def render_Nil)
next
  case False
  then have len: "length cwd + length path + 1 < MAX_PATH_LENGTH" using f by (auto simp: path_fits_def)
  obtain out where o: "path_consume_part cwd [slash] = Some out" using consume_total [of "[]" cwd] assms len by (auto simp: render_Nil)
  note ou = consume_root [OF o]
  have "path_consume_part path (render (resolve [] cwd)) \<noteq> None"
    by (rule consume_total) (use ou joined_resolve [of "[]" cwd] assms len in auto)
  then show ?thesis using False assms len o ou by (auto simp: normalizePath_def path_length_def)
qed

lemma normalize_sound:
  assumes "cwd \<noteq> []" and "hd cwd = slash" and n: "normalizePath (Some cwd) path = Some out"
  shows "out = render (target cwd path) \<and> list_all plain_name (target cwd path) \<and> length out < MAX_PATH_LENGTH"
proof (cases "path \<noteq> [] \<and> hd path = slash")
  case True
  then have "path_consume_part path [slash] = Some out" using n by (simp add: normalizePath_def split: if_splits)
  moreover have "target cwd path = resolve [] path" using True by (simp add: target_def)
  ultimately show ?thesis using consume_root by metis
next
  case False
  then obtain o1 where o: "path_consume_part cwd [slash] = Some o1" "path_consume_part path o1 = Some out"
    using n assms by (auto simp: normalizePath_def split: if_splits option.splits)
  then show ?thesis using consume_root [OF o(1)] False consume_Some [of path "resolve [] cwd" out] by (auto simp: target_def)
qed

lemma normalize_again:
  assumes "cwd \<noteq> []" and "hd cwd = slash" and "length cwd < MAX_PATH_LENGTH" and "list_all plain_name cs" and "length (render cs) < MAX_PATH_LENGTH"
  shows "normalizePath (Some cwd) (render cs) = Some (render cs)"
proof -
  have sl: "render cs \<noteq> [] \<and> hd (render cs) = slash" by (cases cs) (simp_all add: render_def joined_def)
  then have "path_fits cwd (render cs)" using assms by (simp add: path_fits_def)
  then obtain o2 where o2: "normalizePath (Some cwd) (render cs) = Some o2" using normalize_total [OF assms(1,2)] by blast
  then show ?thesis using normalize_sound [OF assms(1,2) o2] resolve_render [OF assms(4)] sl by (simp add: target_def)
qed

text \<open>
  \<^bold>\<open>C24\<close>: \<^verbatim>\<open>normalizePath\<close> computes the canonical absolute path (file_manager.cpp,
  \<^verbatim>\<open>normalizePath\<close>, \<^verbatim>\<open>path_consume_part\<close>, \<^verbatim>\<open>path_append_component\<close>,
  \<^verbatim>\<open>path_pop_component\<close>).  For an absolute working directory it returns whenever the paths are not
  too long; what it returns is the path of the directory reached by following the components, with
  \<^verbatim>\<open>.\<close> skipped and \<^verbatim>\<open>..\<close> undoing a component (and staying at the root), it is shorter than the
  limit, has only proper components, and normalising it again gives it back.
\<close>

theorem normalizePath_correct:
  assumes "cwd \<noteq> []" and "hd cwd = slash"
  shows "(path_fits cwd path \<longrightarrow> normalizePath (Some cwd) path \<noteq> None) \<and>
     (\<forall>out. normalizePath (Some cwd) path = Some out \<longrightarrow>
        out = render (target cwd path) \<and> list_all plain_name (target cwd path) \<and> length out < MAX_PATH_LENGTH \<and>
        normalizePath (Some cwd) out = Some out)"
proof (intro conjI allI impI)
  assume "path_fits cwd path"
  then show "normalizePath (Some cwd) path \<noteq> None" by (rule normalize_total [OF assms])
next
  fix out assume n: "normalizePath (Some cwd) path = Some out"
  note s = normalize_sound [OF assms n]
  then show "out = render (target cwd path)" "list_all plain_name (target cwd path)" "length out < MAX_PATH_LENGTH" by auto
  have "length cwd < MAX_PATH_LENGTH" using n by (simp add: normalizePath_def path_length_def split: if_splits)
  then show "normalizePath (Some cwd) out = Some out" using normalize_again [OF assms, of "target cwd path"] s by metis
qed

text \<open>In \<^verbatim>\<open>/mnt\<close>, the path \<^verbatim>\<open>a/./../b//c\<close> is \<^verbatim>\<open>/mnt/b/c\<close>.\<close>

theorem normalizePath_correct_witness:
  "normalizePath (Some [0x2F, 0x6D, 0x6E, 0x74]) [0x61, 0x2F, 0x2E, 0x2F, 0x2E, 0x2E, 0x2F, 0x62, 0x2F, 0x2F, 0x63] =
     Some [0x2F, 0x6D, 0x6E, 0x74, 0x2F, 0x62, 0x2F, 0x63]"
proof -
  let ?c = "[0x2F, 0x6D, 0x6E, 0x74] :: cstr" and ?p = "[0x61, 0x2F, 0x2E, 0x2F, 0x2E, 0x2E, 0x2F, 0x62, 0x2F, 0x2F, 0x63] :: cstr"
  have "path_fits ?c ?p" by (simp add: path_fits_def MAX_PATH_LENGTH_def)
  then have "normalizePath (Some ?c) ?p = Some (render (target ?c ?p))"
    using normalizePath_correct [of ?c ?p] by auto
  moreover have "target ?c ?p = [[0x6D, 0x6E, 0x74], [0x62], [0x63]]"
    by (simp add: target_def resolve_def components.simps step_component_def)
  ultimately show ?thesis by (simp add: render_def joined_def)
qed

section \<open>Splitting\<close>

lemma find_slash_name:
  "slash \<notin> set c \<Longrightarrow> find_slash (xs @ slash # c @ ys) (length xs + length c) = length xs"
proof (induction c arbitrary: ys rule: rev_induct)
  case Nil
  have "(xs @ slash # ys) ! length xs = slash" by simp
  then show ?case by (cases "length xs") auto
next
  case (snoc x c)
  have "(xs @ slash # (c @ [x]) @ ys) ! Suc (length xs + length c) = x" by (simp add: nth_append)
  then have "find_slash (xs @ slash # (c @ [x]) @ ys) (Suc (length xs + length c)) =
      find_slash (xs @ slash # (c @ [x]) @ ys) (length xs + length c)" using snoc.prems by auto
  then show ?case using snoc.IH [of "x # ys"] snoc.prems by simp
qed

text \<open>
  \<^verbatim>\<open>splitPath\<close> takes the canonical path apart (file_manager.cpp).  It fails exactly when
  the path cannot be normalised or names the root; otherwise the name is the last component and the
  parent the canonical path of the directory above it, so that putting them together again gives the
  normalised path.
\<close>

theorem splitPath_correct:
  assumes "cwd \<noteq> []" and "hd cwd = slash" and "normalizePath (Some cwd) path = Some out"
  shows "splitPath cwd path =
     (if target cwd path = [] then None else Some (render (butlast (target cwd path)), last (target cwd path)))"
proof (cases "target cwd path" rule: rev_cases)
  case Nil
  then show ?thesis using normalize_sound [OF assms] assms(3) by (simp add: splitPath_def render_def)
next
  case (snoc ds c)
  have o: "out = joined ds @ slash # c" "length out < MAX_PATH_LENGTH" and c: "plain_name c"
    using normalize_sound [OF assms] by (auto simp: snoc render_def)
  have "find_slash out (length out - 1) = length (joined ds)"
    using find_slash_name [of c "joined ds" "[]"] c o(1) by (simp add: plain_name_def)
  then show ?thesis using snoc o c assms(3) by (auto simp: splitPath_def Let_def plain_name_def render_def)
qed

theorem splitPath_correct_witness:
  "splitPath [0x2F] [0x61, 0x2F, 0x62] = Some ([0x2F, 0x61], [0x62]) \<and> splitPath [0x2F] [0x2E, 0x2E] = None"
proof -
  have t: "target [0x2F] [0x61, 0x2F, 0x62] = [[0x61], [0x62]]" "target [0x2F] [0x2E, 0x2E] = []"
    by (simp_all add: target_def resolve_def components.simps step_component_def)
  have "path_fits [0x2F] [0x61, 0x2F, 0x62]" "path_fits [0x2F] [0x2E, 0x2E]" by (simp_all add: path_fits_def MAX_PATH_LENGTH_def)
  then obtain o1 o2 where "normalizePath (Some [0x2F]) [0x61, 0x2F, 0x62] = Some o1" "normalizePath (Some [0x2F]) [0x2E, 0x2E] = Some o2"
    using normalize_total [of "[0x2F]"] by fastforce
  then show ?thesis using splitPath_correct [of "[0x2F]"] t by (simp add: render_def joined_def)
qed

end
