(* ===== verification/Console.thy ===== *)
theory Console
  imports Libc
begin

text \<open>
  The text screen (\<^verbatim>\<open>src/kernel/screen.cpp\<close>) and the keyboard
  (\<^verbatim>\<open>src/kernel/keyboard.cpp\<close>): the cursor behind the ports of the display controller, printing
  and scrolling; the ring of typed characters, the decoding of scan codes, and \<^verbatim>\<open>read\<close> with its line
  editing.
\<close>

section \<open>The screen\<close>

text \<open>
  \<open>vram\<close> is the memory from \<^verbatim>\<open>SCREEN_MEMORY\<close> on; \<open>crt_index\<close> and \<open>crt_reg\<close> are the index and the
  registers of the display controller, reached through ports 0x3d4 and 0x3d5.  Positions are built
  from two bytes, so they need no wrap-around.
\<close>

record Screen =
  vram :: "nat \<Rightarrow> u8"
  crt_index :: u8
  crt_reg :: "u8 \<Rightarrow> u8"

definition crt_out :: "u16 \<Rightarrow> u8 \<Rightarrow> Screen \<Rightarrow> Screen" where
  "crt_out port v s =
     (if port = 0x3d4 then s\<lparr>crt_index := v\<rparr>
      else if port = 0x3d5 then s\<lparr>crt_reg := (crt_reg s)(crt_index s := v)\<rparr> else s)"

definition crt_in :: "Screen \<Rightarrow> u8" where
  "crt_in s = crt_reg s (crt_index s)"

definition put_cell :: "nat \<Rightarrow> u8 \<Rightarrow> u8 \<Rightarrow> Screen \<Rightarrow> Screen" where
  "put_cell pos c color s = s\<lparr>vram := (vram s)(2 * pos := c, 2 * pos + 1 := color)\<rparr>"

definition print_at :: "nat \<Rightarrow> nat \<Rightarrow> u8 \<Rightarrow> u8 \<Rightarrow> Screen \<Rightarrow> Screen" where
  "print_at x y c color s = (if 25 \<le> x \<or> 80 \<le> y then s else put_cell (x * 80 + y) c color s)"

definition moveCursor :: "nat \<Rightarrow> Screen \<Rightarrow> Screen" where
  "moveCursor position s =
     (if 80 * 25 \<le> position then s
      else let s = crt_out 0x3d4 0x0e s;
               s = crt_out 0x3d5 (word_of_nat (position div 256)) s;
               s = crt_out 0x3d4 0x0f s
           in crt_out 0x3d5 (word_of_nat position) s)"

definition moveCursor_xy :: "nat \<Rightarrow> nat \<Rightarrow> Screen \<Rightarrow> Screen" where
  "moveCursor_xy x y s = (if 25 \<le> x \<or> 80 \<le> y then s else moveCursor (x * 80 + y) s)"

definition getCursor :: "Screen \<Rightarrow> nat \<times> Screen" where
  "getCursor s =
     (let s = crt_out 0x3d4 0x0e s; hi = crt_in s;
          s = crt_out 0x3d4 0x0f s; lo = crt_in s
      in (unat hi * 256 + unat lo, s))"

definition backspace :: "Screen \<Rightarrow> Screen" where
  "backspace s =
     (let (cursor, s) = getCursor s
      in if cursor = 0 then s else moveCursor (cursor - 1) (put_cell (cursor - 1) 0x20 0x07 s))"

definition copy_cell :: "nat \<Rightarrow> Screen \<Rightarrow> Screen" where
  "copy_cell i s = put_cell (i - 80) (vram s (2 * i)) (vram s (2 * i + 1)) s"

definition rollUp :: "Screen \<Rightarrow> Screen" where
  "rollUp s = fold (\<lambda>i. put_cell i 0x20 0x07) [24 * 80..<25 * 80] (fold copy_cell [80..<25 * 80] s)"

definition print_color :: "u8 \<Rightarrow> u8 \<Rightarrow> Screen \<Rightarrow> Screen" where
  "print_color c color s =
     (if c = 0x0a then
        let (pos, s) = getCursor s; row = pos div 80
        in if row = 24 then moveCursor (row * 80) (rollUp s) else moveCursor ((row + 1) * 80) s
      else if c = 0x08 then backspace s
      else let (cursor, s) = getCursor s;
               s = put_cell cursor c color s
           in if cursor + 1 = 25 * 80 then moveCursor (24 * 80) (rollUp s) else moveCursor (cursor + 1) s)"

definition print_char :: "u8 \<Rightarrow> Screen \<Rightarrow> Screen" where
  "print_char c = print_color c 0x07"

definition print_str :: "cstr \<Rightarrow> Screen \<Rightarrow> nat \<times> Screen" where
  "print_str str s = (length str, fold print_char str s)"

section \<open>The keyboard\<close>

definition KEYBOARD_BUFFER_SIZE :: nat where "KEYBOARD_BUFFER_SIZE = 256"

definition keymap :: "u8 list" where
  "keymap = [0x0, 0x0, 0x31, 0x32, 0x33, 0x34, 0x35, 0x36, 0x37, 0x38, 0x39, 0x30, 0x2d, 0x3d, 0x8,
    0x9, 0x71, 0x77, 0x65, 0x72, 0x74, 0x79, 0x75, 0x69, 0x6f, 0x70, 0x5b, 0x5d, 0xa, 0x0,
    0x61, 0x73, 0x64, 0x66, 0x67, 0x68, 0x6a, 0x6b, 0x6c, 0x3b, 0x27, 0x60, 0x0, 0x5c,
    0x7a, 0x78, 0x63, 0x76, 0x62, 0x6e, 0x6d, 0x2c, 0x2e, 0x2f, 0x0, 0x2a, 0x0, 0x20]
    @ replicate 70 0"

definition shift_keymap :: "u8 list" where
  "shift_keymap = [0x0, 0x0, 0x21, 0x40, 0x23, 0x24, 0x25, 0x5e, 0x26, 0x2a, 0x28, 0x29, 0x5f, 0x2b, 0x8,
    0x9, 0x51, 0x57, 0x45, 0x52, 0x54, 0x59, 0x55, 0x49, 0x4f, 0x50, 0x7b, 0x7d, 0xa, 0x0,
    0x41, 0x53, 0x44, 0x46, 0x47, 0x48, 0x4a, 0x4b, 0x4c, 0x3a, 0x22, 0x7e, 0x0, 0x7c,
    0x5a, 0x58, 0x43, 0x56, 0x42, 0x4e, 0x4d, 0x3c, 0x3e, 0x3f, 0x0, 0x2a, 0x0, 0x20]
    @ replicate 70 0"

record KeyboardManager =
  kb_buffer :: "nat \<Rightarrow> u8"
  kb_head :: nat
  kb_tail :: nat
  kb_count :: nat
  shift :: bool

definition kb_initialize :: "KeyboardManager \<Rightarrow> KeyboardManager" where
  "kb_initialize k = k\<lparr>kb_head := 0, kb_tail := 0, kb_count := 0, shift := False\<rparr>"

definition kb_push :: "u8 \<Rightarrow> KeyboardManager \<Rightarrow> KeyboardManager" where
  "kb_push c k =
     (if KEYBOARD_BUFFER_SIZE \<le> kb_count k then k
      else k\<lparr>kb_buffer := (kb_buffer k)(kb_tail k := c), kb_tail := (kb_tail k + 1) mod KEYBOARD_BUFFER_SIZE,
             kb_count := kb_count k + 1\<rparr>)"

definition kb_pop :: "KeyboardManager \<Rightarrow> (u8 \<times> KeyboardManager) option" where
  "kb_pop k =
     (if kb_count k = 0 then None
      else Some (kb_buffer k (kb_head k),
        k\<lparr>kb_head := (kb_head k + 1) mod KEYBOARD_BUFFER_SIZE, kb_count := kb_count k - 1\<rparr>))"

definition decode :: "u8 \<Rightarrow> KeyboardManager \<Rightarrow> u8" where
  "decode scancode k =
     (if length keymap \<le> unat scancode then 0
      else (if shift k then shift_keymap else keymap) ! unat scancode)"

definition handleScancode :: "u8 \<Rightarrow> KeyboardManager \<Rightarrow> KeyboardManager" where
  "handleScancode scancode k =
     (let released = (scancode AND 0x80 \<noteq> 0); code = scancode AND 0x7f
      in if code = 0x2a \<or> code = 0x36 then k\<lparr>shift := \<not> released\<rparr>
         else if released then k
         else let c = decode code k in if c \<noteq> 0 then kb_push c k else k)"

lemma kb_pop_count: "kb_pop k = Some (c, k') \<Longrightarrow> kb_count k' < kb_count k"
  by (auto simp: kb_pop_def split: if_splits)

text \<open>
  \<^verbatim>\<open>read\<close> waits by giving up the processor.  \<open>waits\<close> lists what the rest of the system (the
  keyboard interrupt, other programs) does to the keyboard and the screen in each wait;
  \<^const>\<open>None\<close> means that the reader still waits when the list is used up.
\<close>

function read_loop :: "int \<Rightarrow> int \<Rightarrow> bytes \<Rightarrow> KeyboardManager \<Rightarrow> Screen \<Rightarrow>
    (KeyboardManager \<times> Screen \<Rightarrow> KeyboardManager \<times> Screen) list \<Rightarrow> (int \<times> bytes \<times> KeyboardManager \<times> Screen) option" where
  "read_loop sz n buf k s waits =
     (if n < sz then
        case kb_pop k of
          None \<Rightarrow> (case waits of [] \<Rightarrow> None | w # ws \<Rightarrow> (case w (k, s) of (k, s) \<Rightarrow> read_loop sz n buf k s ws))
        | Some (c, k) \<Rightarrow>
            if c = 0x08 then (if 0 < n then read_loop sz (n - 1) buf k (backspace s) waits else read_loop sz n buf k s waits)
            else if c = 0x0a then Some (n + 1, buf(nat n := c), k, print_char c s)
            else read_loop sz (n + 1) (buf(nat n := c)) k (print_char c s) waits
      else Some (n, buf, k, s))"
  by pat_completeness auto

termination
  by (relation "measures [\<lambda>(sz, n, buf, k, s, waits). length waits, \<lambda>(sz, n, buf, k, s, waits). kb_count k]")
    (auto dest: kb_pop_count)

definition keyboard_read ::
    "bytes option \<Rightarrow> int \<Rightarrow> KeyboardManager \<Rightarrow> Screen \<Rightarrow> (KeyboardManager \<times> Screen \<Rightarrow> KeyboardManager \<times> Screen) list \<Rightarrow>
     (int \<times> bytes option \<times> KeyboardManager \<times> Screen) option" where
  "keyboard_read buf sz k s waits =
     (case buf of
        None \<Rightarrow> Some (- 1, buf, k, s)
      | Some b \<Rightarrow>
          if sz \<le> 0 then Some (- 1, buf, k, s)
          else map_option (\<lambda>(n, b, k, s). (n, Some b, k, s)) (read_loop sz 0 b k s waits))"

section \<open>The screen as a terminal\<close>

declare upt_rec_numeral [simp del]

type_synonym cell = "u8 \<times> u8"

definition cell_at :: "Screen \<Rightarrow> nat \<Rightarrow> cell" where
  "cell_at s i = (vram s (2 * i), vram s (2 * i + 1))"

definition cells :: "Screen \<Rightarrow> cell list" where
  "cells s = map (cell_at s) [0..<2000]"

definition cursor :: "Screen \<Rightarrow> nat" where
  "cursor s = fst (getCursor s)"

text \<open>The text and the cursor, and what printing does to them.\<close>

definition scroll :: "cell list \<Rightarrow> cell list" where
  "scroll cs = drop 80 cs @ replicate 80 (0x20, 0x07)"

definition tty_print :: "u8 \<Rightarrow> u8 \<Rightarrow> cell list \<times> nat \<Rightarrow> cell list \<times> nat" where
  "tty_print c color = (\<lambda>(cs, p).
     if c = 0x0a then (if p div 80 = 24 then (scroll cs, 1920) else (cs, (p div 80 + 1) * 80))
     else if c = 0x08 then (if p = 0 then (cs, 0) else (cs[p - 1 := (0x20, 0x07)], p - 1))
     else if p + 1 = 2000 then (scroll (cs[p := (c, color)]), 1920)
     else (cs[p := (c, color)], p + 1))"

definition beyond :: "Screen \<Rightarrow> nat \<Rightarrow> u8" where
  "beyond s i = vram s (4000 + i)"

lemma cell_put [simp]: "cell_at (put_cell p c col s) i = (if i = p then (c, col) else cell_at s i)"
  by (auto simp: cell_at_def put_cell_def)

lemma beyond_put [simp]: "p < 2000 \<Longrightarrow> beyond (put_cell p c col s) = beyond s"
  by (auto simp: beyond_def put_cell_def fun_eq_iff)

lemma cells_put: "p < 2000 \<Longrightarrow> cells (put_cell p c col s) = (cells s)[p := (c, col)]"
  by (rule nth_equalityI) (auto simp: cells_def nth_list_update)

lemma getCursor_simps:
  "getCursor s = (unat (crt_reg s 0x0e) * 256 + unat (crt_reg s 0x0f), s\<lparr>crt_index := 0x0f\<rparr>)"
  by (simp add: getCursor_def crt_out_def crt_in_def Let_def)

lemma cursor_put [simp]: "cursor (put_cell p c col s) = cursor s"
  by (simp add: cursor_def getCursor_simps put_cell_def)

lemma cells_index [simp]:
  "cell_at (s\<lparr>crt_index := x\<rparr>) = cell_at s" "cells (s\<lparr>crt_index := x\<rparr>) = cells s" "beyond (s\<lparr>crt_index := x\<rparr>) = beyond s"
  "cursor (s\<lparr>crt_index := x\<rparr>) = cursor s"
  by (simp_all add: cell_at_def cells_def beyond_def fun_eq_iff cursor_def getCursor_simps)

lemma moveCursor_effect:
  assumes "p < 2000"
  shows "cursor (moveCursor p s) = p" "cells (moveCursor p s) = cells s" "beyond (moveCursor p s) = beyond s"
proof -
  have "unat (word_of_nat (p div 256) :: u8) = p div 256" "unat (word_of_nat p :: u8) = p mod 256"
    using assms by (simp_all add: unat_of_nat)
  then show "cursor (moveCursor p s) = p"
    using assms by (simp add: cursor_def getCursor_simps moveCursor_def crt_out_def Let_def)
  show "cells (moveCursor p s) = cells s" "beyond (moveCursor p s) = beyond s"
    using assms by (simp_all add: moveCursor_def crt_out_def Let_def cells_def cell_at_def beyond_def fun_eq_iff)
qed

lemma copy_cells:
  "80 \<le> n \<Longrightarrow> n \<le> 2000 \<Longrightarrow> cell_at (fold copy_cell [80..<n] s) i = (if i < n - 80 then cell_at s (i + 80) else cell_at s i) \<and>
     beyond (fold copy_cell [80..<n] s) = beyond s \<and> cursor (fold copy_cell [80..<n] s) = cursor s"
proof (induction n arbitrary: i rule: nat_induct_at_least)
  case (Suc n)
  let ?s = "fold copy_cell [80..<n] s"
  have f: "cell_at ?s i = (if i < n - 80 then cell_at s (i + 80) else cell_at s i)" "beyond ?s = beyond s" "cursor ?s = cursor s" for i
    using Suc by simp_all
  have "\<not> n < n - 80" by linarith
  then have "cell_at ?s n = cell_at s n" using f(1) [of n] by metis
  then have c: "(vram ?s (2 * n), vram ?s (2 * n + 1)) = cell_at s n" by (simp add: cell_at_def)
  have "cell_at (copy_cell n ?s) i = (if i = n - 80 then cell_at s n else cell_at ?s i)" using c by (simp add: copy_cell_def)
  moreover have "beyond (copy_cell n ?s) = beyond s" "cursor (copy_cell n ?s) = cursor s" using Suc.prems f(2,3) by (simp_all add: copy_cell_def)
  ultimately show ?case using Suc.hyps f(1) [of i] by auto
qed simp

lemma clear_cells:
  "n \<le> 2000 \<Longrightarrow> cell_at (fold (\<lambda>i. put_cell i 0x20 0x07) [m..<n] s) i = (if m \<le> i \<and> i < n then (0x20, 0x07) else cell_at s i) \<and>
     beyond (fold (\<lambda>i. put_cell i 0x20 0x07) [m..<n] s) = beyond s \<and> cursor (fold (\<lambda>i. put_cell i 0x20 0x07) [m..<n] s) = cursor s"
  by (induction n) auto

lemma rollUp_effect: "cells (rollUp s) = scroll (cells s)" "beyond (rollUp s) = beyond s" "cursor (rollUp s) = cursor s"
proof -
  note a = clear_cells [where n = "25 * 80" and m = "24 * 80" and s = "fold copy_cell [80..<25 * 80] s"] and b = copy_cells [where n = "25 * 80" and s = s]
  have c: "cell_at (rollUp s) i = (if 1920 \<le> i then if i < 2000 then (0x20, 0x07) else cell_at s i else cell_at s (i + 80))" for i
    using a [where i = i] b [where i = i] by (simp add: rollUp_def)
  show "beyond (rollUp s) = beyond s" "cursor (rollUp s) = cursor s" using a b by (simp_all add: rollUp_def)
  show "cells (rollUp s) = scroll (cells s)"
    by (rule nth_equalityI) (auto simp: cells_def c scroll_def nth_append add.commute)
qed

lemma length_cells [simp]: "length (cells s) = 2000"
  by (simp add: cells_def)

text \<open>
  \<^bold>\<open>C27\<close>: Printing implements a scrolling terminal (screen.cpp, \<^verbatim>\<open>print\<close>,
  \<^verbatim>\<open>backspace\<close>, \<^verbatim>\<open>rollUp\<close>, \<^verbatim>\<open>moveCursor\<close>).  With the cursor on the screen, printing a
  character has exactly the effect of \<^const>\<open>tty_print\<close> on the 2000 cells and the cursor, newlines,
  backspaces and scrolling included; the cursor stays on the screen and no byte behind the screen
  memory is written.
\<close>

theorem screen_print_refines:
  assumes "cursor s < 2000"
  shows "(cells (print_color c color s), cursor (print_color c color s)) = tty_print c color (cells s, cursor s) \<and>
     cursor (print_color c color s) < 2000 \<and> beyond (print_color c color s) = beyond s"
proof -
  let ?s = "s\<lparr>crt_index := 0x0f\<rparr>"
  have g: "getCursor s = (cursor s, ?s)" by (simp add: cursor_def getCursor_simps)
  consider "c = 0x0a" | "c = 0x08" | "c \<noteq> 0x0a" "c \<noteq> 0x08" by blast
  then show ?thesis
  proof cases
    case 1
    have "cursor s div 80 < 25" using assms by auto
    then show ?thesis using 1 by (auto simp: print_color_def g tty_print_def moveCursor_effect rollUp_effect)
  next
    case 2
    then show ?thesis using assms
      by (auto simp: print_color_def backspace_def g tty_print_def moveCursor_effect cells_put)
  next
    case 3
    then show ?thesis using assms
      by (auto simp: print_color_def g tty_print_def moveCursor_effect rollUp_effect cells_put)
  qed
qed

text \<open>The last character of the screen scrolls it.\<close>

definition full_screen :: Screen where
  "full_screen = \<lparr>vram = (\<lambda>i. if even i then 0x61 else 0x07), crt_index = 0, crt_reg = (\<lambda>r. if r = 0x0e then 7 else if r = 0x0f then 0xcf else 0)\<rparr>"

theorem screen_print_refines_witness:
  "cursor (print_color 0x62 0x07 full_screen) = 1920 \<and> cells (print_color 0x62 0x07 full_screen) ! 1919 = (0x62, 0x07)"
proof -
  have c: "cursor full_screen = 1999" by (simp add: cursor_def getCursor_simps full_screen_def)
  have "tty_print 0x62 0x07 (cells full_screen, 1999) = (scroll ((cells full_screen)[1999 := (0x62, 0x07)]), 1920)"
    by (simp add: tty_print_def)
  then have "cells (print_color 0x62 0x07 full_screen) = scroll ((cells full_screen)[1999 := (0x62, 0x07)])"
    "cursor (print_color 0x62 0x07 full_screen) = 1920"
    using screen_print_refines [where s = full_screen and c = "0x62" and color = "0x07"] c by auto
  then show ?thesis by (simp add: scroll_def nth_append)
qed

section \<open>The keyboard as a queue\<close>

definition kb_queue :: "KeyboardManager \<Rightarrow> u8 list" where
  "kb_queue k = map (\<lambda>i. kb_buffer k ((kb_head k + i) mod KEYBOARD_BUFFER_SIZE)) [0..<kb_count k]"

definition kb_ok :: "KeyboardManager \<Rightarrow> bool" where
  "kb_ok k \<longleftrightarrow> kb_head k < KEYBOARD_BUFFER_SIZE \<and> kb_count k \<le> KEYBOARD_BUFFER_SIZE \<and>
     kb_tail k = (kb_head k + kb_count k) mod KEYBOARD_BUFFER_SIZE"

lemma length_kb_queue [simp]: "length (kb_queue k) = kb_count k"
  by (simp add: kb_queue_def)

lemma kb_queue_shift [simp]: "kb_queue (k\<lparr>shift := b\<rparr>) = kb_queue k" "kb_ok (k\<lparr>shift := b\<rparr>) = kb_ok k"
  by (simp_all add: kb_queue_def kb_ok_def)

lemma ring_apart: "(h + i) mod n = (h + c) mod n \<Longrightarrow> i < c \<Longrightarrow> c < (n :: nat) \<Longrightarrow> False"
  using mod_eq_dvd_iff_nat [of "h + i" "h + c" n] by (auto dest!: dvd_imp_le)

lemma kb_push_queue:
  assumes "kb_ok k"
  shows "kb_ok (kb_push c k)" "kb_queue (kb_push c k) = take KEYBOARD_BUFFER_SIZE (kb_queue k @ [c])" "shift (kb_push c k) = shift k"
proof -
  show "kb_ok (kb_push c k)" using assms by (auto simp: kb_push_def kb_ok_def mod_Suc_eq)
  show "shift (kb_push c k) = shift k" by (simp add: kb_push_def)
  show "kb_queue (kb_push c k) = take KEYBOARD_BUFFER_SIZE (kb_queue k @ [c])"
  proof (cases "kb_count k < KEYBOARD_BUFFER_SIZE")
    case True
    then show ?thesis using assms
      by (auto simp: kb_push_def kb_queue_def kb_ok_def dest: ring_apart)
  next
    case False
    then show ?thesis using assms by (simp add: kb_push_def kb_ok_def)
  qed
qed

lemma kb_pop_queue:
  assumes "kb_ok k"
  shows "kb_queue k = [] \<Longrightarrow> kb_pop k = None"
    and "kb_queue k = c # cs \<Longrightarrow> \<exists>k'. kb_pop k = Some (c, k') \<and> kb_ok k' \<and> kb_queue k' = cs \<and> shift k' = shift k"
proof -
  show "kb_queue k = [] \<Longrightarrow> kb_pop k = None" by (simp add: kb_pop_def kb_queue_def)
  assume q: "kb_queue k = c # cs"
  then have n: "kb_count k = Suc (length cs)" by (metis length_Cons length_kb_queue)
  have nth: "(c # cs) ! i = kb_buffer k ((kb_head k + i) mod KEYBOARD_BUFFER_SIZE)" if "i < kb_count k" for i
    using that by (simp add: q [symmetric] kb_queue_def)
  have h: "kb_head k mod KEYBOARD_BUFFER_SIZE = kb_head k" using assms by (simp add: kb_ok_def)
  have c: "kb_buffer k (kb_head k) = c" using nth [of 0] n h by simp
  let ?k = "k\<lparr>kb_head := (kb_head k + 1) mod KEYBOARD_BUFFER_SIZE, kb_count := kb_count k - 1\<rparr>"
  have "kb_queue ?k = cs"
  proof (rule nth_equalityI)
    fix i assume "i < length (kb_queue ?k)"
    then have i: "Suc i < kb_count k" by simp
    then show "kb_queue ?k ! i = cs ! i" using nth [OF i] nth_upt [of 0 i "kb_count k - 1"] by (simp add: kb_queue_def mod_add_left_eq)
  qed (simp add: n)
  moreover have "kb_ok ?k" using assms n by (simp add: kb_ok_def KEYBOARD_BUFFER_SIZE_def mod_add_left_eq)
  moreover have "kb_pop k = Some (c, ?k)" using n c by (simp add: kb_pop_def)
  ultimately show "\<exists>k'. kb_pop k = Some (c, k') \<and> kb_ok k' \<and> kb_queue k' = cs \<and> shift k' = shift k" by auto
qed

text \<open>The characters that a sequence of scan codes types, given whether shift is held.\<close>

fun typed :: "bool \<Rightarrow> u8 list \<Rightarrow> u8 list" where
  "typed sh [] = []"
| "typed sh (sc # scs) =
     (if sc AND 0x7f = 0x2a \<or> sc AND 0x7f = 0x36 then typed (sc AND 0x80 = 0) scs
      else if sc AND 0x80 = 0 \<and> (if sh then shift_keymap else keymap) ! unat (sc AND 0x7f) \<noteq> 0
        then (if sh then shift_keymap else keymap) ! unat (sc AND 0x7f) # typed sh scs
      else typed sh scs)"

lemma code_bound: "unat (sc AND 0x7f :: u8) < 128"
  using word_and_le1 [of sc "0x7f :: u8"] by (simp add: word_le_nat_alt)

lemma decode_eq: "decode (sc AND 0x7f) k = (if shift k then shift_keymap else keymap) ! unat (sc AND 0x7f)"
proof -
  have "length keymap = 128" by (simp add: keymap_def)
  then show ?thesis using code_bound [of sc] by (simp add: decode_def)
qed

lemma ring_refines:
  assumes "kb_ok k"
  shows "kb_ok (fold handleScancode scs k) \<and>
     kb_queue (fold handleScancode scs k) = take KEYBOARD_BUFFER_SIZE (kb_queue k @ typed (shift k) scs)"
  using assms
proof (induction scs arbitrary: k)
  case Nil
  then show ?case by (simp add: kb_ok_def)
next
  case (Cons sc scs)
  let ?c = "(if shift k then shift_keymap else keymap) ! unat (sc AND 0x7f)"
  consider "sc AND 0x7f = 0x2a \<or> sc AND 0x7f = 0x36"
    | "sc AND 0x7f \<noteq> 0x2a" "sc AND 0x7f \<noteq> 0x36" "sc AND 0x80 = 0" "?c \<noteq> 0"
    | "sc AND 0x7f \<noteq> 0x2a" "sc AND 0x7f \<noteq> 0x36" "sc AND 0x80 \<noteq> 0 \<or> ?c = 0" by blast
  then show ?case
  proof cases
    case 1
    then show ?thesis using Cons.IH [of "k\<lparr>shift := (sc AND 0x80 = 0)\<rparr>"] Cons.prems by (auto simp: handleScancode_def)
  next
    case 2
    then have h: "handleScancode sc k = kb_push ?c k" by (simp add: handleScancode_def decode_eq)
    note p = kb_push_queue [OF Cons.prems, of ?c]
    have "kb_queue (fold handleScancode scs (kb_push ?c k)) =
        take KEYBOARD_BUFFER_SIZE (take KEYBOARD_BUFFER_SIZE (kb_queue k @ [?c]) @ typed (shift k) scs)"
      using Cons.IH [OF p(1)] p(2,3) by simp
    also have "\<dots> = take KEYBOARD_BUFFER_SIZE (kb_queue k @ ?c # typed (shift k) scs)" by (simp add: take_Cons' min_def not_le)
    finally show ?thesis using 2 Cons.IH [OF p(1)] h by simp
  next
    case 3
    then have "handleScancode sc k = k" by (auto simp: handleScancode_def decode_eq Let_def)
    then show ?thesis using 3 Cons.IH [OF Cons.prems] by auto
  qed
qed

text \<open>
  \<^bold>\<open>C26\<close>: The keyboard ring (keyboard.cpp, \<^verbatim>\<open>handleScancode\<close>, \<^verbatim>\<open>decode\<close>,
  \<^verbatim>\<open>push\<close>).  Whatever scan codes arrive, the ring stays well formed and is a queue: it holds what
  was in it followed by the characters that the codes type, shift presses and releases taken into
  account, cut off at its 256 places, so a full buffer loses the newest characters and never an older
  one.
\<close>

theorem keyboard_ring_refines:
  assumes "kb_ok k"
  shows "kb_ok (fold handleScancode scs k) \<and>
     kb_queue (fold handleScancode scs k) = take KEYBOARD_BUFFER_SIZE (kb_queue k @ typed (shift k) scs)"
  by (rule ring_refines [OF assms])

definition fresh_keyboard :: KeyboardManager where
  "fresh_keyboard = \<lparr>kb_buffer = (\<lambda>_. 0), kb_head = 0, kb_tail = 0, kb_count = 0, shift = False\<rparr>"

lemma fresh_keyboard_ok: "kb_ok fresh_keyboard" "kb_queue fresh_keyboard = []"
  by (simp_all add: kb_ok_def kb_queue_def fresh_keyboard_def KEYBOARD_BUFFER_SIZE_def)

text \<open>Shift pressed, \<open>a\<close>, shift released, \<open>a\<close>, and \<open>a\<close> released.\<close>

theorem keyboard_ring_refines_witness:
  "kb_queue (fold handleScancode [0x2a, 0x1e, 0xaa, 0x1e, 0x9e] fresh_keyboard) = [0x41, 0x61]"
proof -
  have "typed False [0x2a, 0x1e, 0xaa, 0x1e, 0x9e] = [0x41, 0x61]" by (simp add: keymap_def shift_keymap_def)
  moreover have "kb_queue (fold handleScancode scs fresh_keyboard) = take KEYBOARD_BUFFER_SIZE (typed False scs)" for scs
    using keyboard_ring_refines [OF fresh_keyboard_ok(1)] fresh_keyboard_ok(2) by (simp add: fresh_keyboard_def)
  ultimately show ?thesis by (simp only: KEYBOARD_BUFFER_SIZE_def) simp
qed

section \<open>Reading a line\<close>

text \<open>
  Line editing on lists: \<open>acc\<close> is the line so far.  \<^const>\<open>Inl\<close> is an unfinished line when the
  characters are used up, \<^const>\<open>Inr\<close> a finished one with the characters that are left.
\<close>

fun edit :: "nat \<Rightarrow> u8 list \<Rightarrow> u8 list \<Rightarrow> u8 list + (u8 list \<times> u8 list)" where
  "edit sz acc [] = (if length acc < sz then Inl acc else Inr (acc, []))"
| "edit sz acc (c # cs) =
     (if length acc < sz then
        if c = 0x08 then edit sz (butlast acc) cs
        else if c = 0x0a then Inr (acc @ [c], cs)
        else edit sz (acc @ [c]) cs
      else Inr (acc, c # cs))"

definition holds :: "bytes \<Rightarrow> u8 list \<Rightarrow> bool" where
  "holds b xs \<longleftrightarrow> (\<forall>i<length xs. b i = xs ! i)"

declare read_loop.simps [simp del]

lemma holds_append: "holds b acc \<Longrightarrow> holds (b(length acc := c)) (acc @ [c])"
  by (auto simp: holds_def nth_append less_Suc_eq)

lemma holds_butlast: "holds b acc \<Longrightarrow> holds b (butlast acc)"
  by (auto simp: holds_def nth_butlast)

lemma edit_append:
  "edit sz acc (xs @ ys) = (case edit sz acc xs of Inl a \<Rightarrow> edit sz a ys | Inr (l, r) \<Rightarrow> Inr (l, r @ ys))"
  by (induction sz acc xs rule: edit.induct) (auto, cases ys, auto)

lemma edit_Inl_length: "edit sz acc xs = Inl a \<Longrightarrow> length a < sz"
  by (induction sz acc xs rule: edit.induct) (auto split: if_splits)

lemma read_loop_queue:
  assumes "kb_ok k" and "holds b acc"
  shows "case edit sz acc (kb_queue k) of
      Inr (line, rest) \<Rightarrow> \<exists>b' k' s'. read_loop (int sz) (int (length acc)) b k s waits = Some (int (length line), b', k', s') \<and>
        holds b' line \<and> kb_queue k' = rest \<and> kb_ok k'
    | Inl acc' \<Rightarrow> \<exists>b' k' s'. holds b' acc' \<and> kb_queue k' = [] \<and> kb_ok k' \<and> shift k' = shift k \<and>
        read_loop (int sz) (int (length acc)) b k s waits = read_loop (int sz) (int (length acc')) b' k' s' waits"
  using assms
proof (induction "kb_queue k" arbitrary: k b acc s)
  case Nil
  show ?case
  proof (cases "length acc < sz")
    case True
    then show ?thesis using Nil.prems
      by (simp add: Nil.hyps [symmetric]) (rule exI [of _ b], simp, rule exI [of _ k], simp add: Nil.hyps [symmetric], blast)
  next
    case False
    then have "read_loop (int sz) (int (length acc)) b k s waits = Some (int (length acc), b, k, s)" by (subst read_loop.simps) simp
    then show ?thesis using Nil False by (simp add: Nil(1) [symmetric])
  qed
next
  case (Cons c cs)
  obtain k' where k': "kb_pop k = Some (c, k')" "kb_ok k'" "kb_queue k' = cs" "shift k' = shift k"
    using kb_pop_queue(2) [OF Cons.prems(1) Cons.hyps(2) [symmetric]] by auto
  note q = Cons.hyps(2) [symmetric]
  note IH = Cons.hyps(1) [OF k'(3) [symmetric] k'(2)]
  consider "\<not> length acc < sz" | "length acc < sz" "c = 0x08" | "length acc < sz" "c = 0x0a"
    | "length acc < sz" "c \<noteq> 0x08" "c \<noteq> 0x0a" by blast
  then show ?case
  proof cases
    case 1
    then have "read_loop (int sz) (int (length acc)) b k s waits = Some (int (length acc), b, k, s)" by (subst read_loop.simps) simp
    then show ?thesis using 1 Cons.prems q by simp
  next
    case 2
    have r: "read_loop (int sz) (int (length acc)) b k s waits = read_loop (int sz) (int (length (butlast acc))) b k'
        (if acc = [] then s else backspace s) waits"
      using 2 k'(1) by (subst read_loop.simps) (auto simp: of_nat_diff Suc_leI)
    have e: "edit sz acc (kb_queue k) = edit sz (butlast acc) (kb_queue k')" using 2 q k'(3) by simp
    show ?thesis unfolding r e k'(4) [symmetric] by (rule IH [OF holds_butlast [OF Cons.prems(2)]])
  next
    case 3
    then have "read_loop (int sz) (int (length acc)) b k s waits = Some (int (length acc) + 1, b(length acc := c), k', print_char c s)"
      using k'(1) by (subst read_loop.simps) simp
    then show ?thesis using 3 q k' holds_append [OF Cons.prems(2)] by (auto simp: add.commute)
  next
    case 4
    have r: "read_loop (int sz) (int (length acc)) b k s waits =
        read_loop (int sz) (int (length (acc @ [c]))) (b(length acc := c)) k' (print_char c s) waits"
      using 4 k'(1) by (subst read_loop.simps) (simp add: add.commute)
    have e: "edit sz acc (kb_queue k) = edit sz (acc @ [c]) (kb_queue k')" using 4 q k'(3) by simp
    show ?thesis unfolding r e k'(4) [symmetric] by (rule IH [OF holds_append [OF Cons.prems(2)]])
  qed
qed

text \<open>In a wait the keyboard interrupt delivers some scan codes and the screen may change.\<close>

definition typing :: "u8 list \<times> (Screen \<Rightarrow> Screen) \<Rightarrow> KeyboardManager \<times> Screen \<Rightarrow> KeyboardManager \<times> Screen" where
  "typing w = (\<lambda>(k, s). (fold handleScancode (fst w) k, snd w s))"

lemma typed_append: "typed sh (xs @ ys) = typed sh xs @ typed (fold (\<lambda>sc sh. if sc AND 0x7f = 0x2a \<or> sc AND 0x7f = 0x36 then sc AND 0x80 = 0 else sh) xs sh) ys"
  by (induction xs arbitrary: sh) auto

lemma fold_shift:
  "shift (fold handleScancode xs k) = fold (\<lambda>sc sh. if sc AND 0x7f = 0x2a \<or> sc AND 0x7f = 0x36 then sc AND 0x80 = 0 else sh) xs (shift k)"
  by (induction xs arbitrary: k) (auto simp: handleScancode_def kb_push_def Let_def)

lemma length_typed: "length (typed sh xs) \<le> length xs"
  by (induction xs arbitrary: sh) (auto intro: le_SucI)

lemma read_loop_waits:
  assumes "kb_ok k" and "holds b acc" and "\<forall>w\<in>set ws. length (fst w) \<le> KEYBOARD_BUFFER_SIZE"
  shows "case edit sz acc (kb_queue k @ typed (shift k) (concat (map fst ws))) of
      Inr (line, rest) \<Rightarrow> \<exists>b' k' s'. read_loop (int sz) (int (length acc)) b k s (map typing ws) = Some (int (length line), b', k', s') \<and> holds b' line
    | Inl acc' \<Rightarrow> read_loop (int sz) (int (length acc)) b k s (map typing ws) = None"
  using assms
proof (induction ws arbitrary: k b acc s)
  case Nil
  have e: "read_loop (int sz) (int (length a)) b' k' s' [] = None" if "length a < sz" "kb_ok k'" "kb_queue k' = []" for a b' k' s'
    using that kb_pop_queue(1) by (subst read_loop.simps) simp
  show ?case using read_loop_queue [OF Nil.prems(1,2), of sz s "[]"] edit_Inl_length [of sz acc "kb_queue k"]
    by (auto split: sum.splits simp: e)
next
  case (Cons w ws)
  show ?case
  proof (cases "edit sz acc (kb_queue k)")
    case (Inr lr)
    then show ?thesis using read_loop_queue [OF Cons.prems(1,2), of sz s "map typing (w # ws)"]
      by (cases lr) (auto simp: edit_append)
  next
    case (Inl acc')
    then obtain b' k' s' where r: "holds b' acc'" "kb_queue k' = []" "kb_ok k'" "shift k' = shift k"
      "read_loop (int sz) (int (length acc)) b k s (map typing (w # ws)) = read_loop (int sz) (int (length acc')) b' k' s' (map typing (w # ws))"
      using read_loop_queue [OF Cons.prems(1,2), of sz s "map typing (w # ws)"] by auto
    let ?k = "fold handleScancode (fst w) k'"
    have q: "kb_ok ?k" "kb_queue ?k = typed (shift k) (fst w)"
      using ring_refines [OF r(3)] r(2,4) Cons.prems(3) length_typed [of "shift k" "fst w"] by (auto simp: order.trans)
    have ed: "edit sz acc (kb_queue k @ typed (shift k) (concat (map fst (w # ws)))) =
        edit sz acc' (kb_queue ?k @ typed (shift ?k) (concat (map fst ws)))"
      using Inl by (simp add: edit_append typed_append fold_shift q(2) r(4))
    have l: "read_loop (int sz) (int (length acc')) b' k' s' (map typing (w # ws)) =
        read_loop (int sz) (int (length acc')) b' ?k (snd w s') (map typing ws)"
      using edit_Inl_length [OF Inl] kb_pop_queue(1) [OF r(3,2)] by (subst read_loop.simps) (simp add: typing_def)
    show ?thesis unfolding ed r(5) l using Cons.IH [OF q(1) r(1), of "snd w s'"] Cons.prems(3) by simp
  qed
qed

text \<open>
  \<^bold>\<open>C25\<close>: Reading from the keyboard comes to an end (keyboard.cpp, \<^verbatim>\<open>read\<close>).  The reader
  waits for keys by giving up the processor; in each wait the keyboard interrupt delivers at most a
  buffer full of scan codes and other programs may print.  As soon as what was typed makes a complete
  line (a newline, or as many characters as were asked for, backspaces having removed theirs) the call
  returns, with exactly that line and its length; until then it waits and returns nothing.
\<close>

theorem keyboard_read_returns_line:
  assumes "kb_ok k" and "0 < sz" and "\<forall>w\<in>set ws. length (fst w) \<le> KEYBOARD_BUFFER_SIZE"
  shows "case edit sz [] (kb_queue k @ typed (shift k) (concat (map fst ws))) of
      Inr (line, rest) \<Rightarrow> \<exists>b' k' s'. keyboard_read (Some b) (int sz) k s (map typing ws) = Some (int (length line), Some b', k', s') \<and> holds b' line
    | Inl acc \<Rightarrow> keyboard_read (Some b) (int sz) k s (map typing ws) = None"
proof -
  have "holds b []" by (simp add: holds_def)
  then show ?thesis using read_loop_waits [OF assms(1) _ assms(3), of b "[]" sz s] assms(2)
    by (fastforce simp: keyboard_read_def split: sum.splits)
qed

text \<open>The user types \<open>ab\<close>, a backspace, \<open>c\<close> and return in two waits.\<close>

theorem keyboard_read_returns_line_witness:
  "\<exists>b' k' s'. keyboard_read (Some (\<lambda>_. 0)) 16 fresh_keyboard full_screen
       (map typing [([0x1e, 0x30], id), ([0x0e, 0x2e, 0x1c], id)]) = Some (3, Some b', k', s') \<and> holds b' [0x61, 0x63, 0x0a]"
proof -
  have "typed False (concat (map fst [([0x1e, 0x30], id :: Screen \<Rightarrow> Screen), ([0x0e, 0x2e, 0x1c], id)])) = [0x61, 0x62, 0x08, 0x63, 0x0a]"
    by (simp add: keymap_def)
  then have "edit 16 [] (kb_queue fresh_keyboard @ typed (shift fresh_keyboard) (concat (map fst [([0x1e, 0x30], id :: Screen \<Rightarrow> Screen), ([0x0e, 0x2e, 0x1c], id)]))) =
      Inr ([0x61, 0x63, 0x0a], [])" unfolding fresh_keyboard_ok(2) by (simp add: fresh_keyboard_def)
  then show ?thesis
    using keyboard_read_returns_line [OF fresh_keyboard_ok(1), of 16 "[([0x1e, 0x30], id), ([0x0e, 0x2e, 0x1c], id)]" "\<lambda>_. 0" full_screen]
    by (simp add: KEYBOARD_BUFFER_SIZE_def)
qed

end
