(* ===== verification/Fat12_Entry.thy ===== *)
theory Fat12_Entry
  imports Libc
begin

text \<open>
  FAT12 directory entries (\<^verbatim>\<open>src/kernel/fileSys/fat12_entry.cpp\<close>, \<^verbatim>\<open>fat12_entry.h\<close>): the
  32-byte short-name entry on the disk, the normalised entry in memory, and the translation between
  them.  The write position \<^verbatim>\<open>tail\<close> of an entry buffer is 0 between calls and its
  \<^verbatim>\<open>checksum\<close> is never used, so neither is part of the state here.  A NUL-terminated \<^verbatim>\<open>char\<close> array is the list of the bytes before its NUL.
\<close>

section \<open>Characters\<close>

definition c_string :: "u8 list \<Rightarrow> cstr" where
  "c_string = takeWhile (\<lambda>c. c \<noteq> 0)"

abbreviation space :: u8 where "space \<equiv> 0x20"
abbreviation dot :: u8 where "dot \<equiv> 0x2E"

section \<open>Entries\<close>

definition READ_ONLY :: u8 where "READ_ONLY = 0x01"
definition VOLUME_ID :: u8 where "VOLUME_ID = 0x08"
definition DIRECTORY :: u8 where "DIRECTORY = 0x10"
definition ARCHIVE :: u8 where "ARCHIVE = 0x20"
lemmas attr_defs = READ_ONLY_def VOLUME_ID_def DIRECTORY_def ARCHIVE_def

definition FAT12_ENTRY_BYTES :: nat where "FAT12_ENTRY_BYTES = 32"
definition FAT12_MAX_FILENAME :: nat where "FAT12_MAX_FILENAME = 256"

record fat12_normalized_entry =
  name :: cstr
  start_cluster :: u16
  attr :: u8
  create_time_tenths :: u8
  create_time :: u16
  create_date :: u16
  last_access_date :: u16
  write_time :: u16
  write_date :: u16
  file_size :: u32

definition zero_entry :: fat12_normalized_entry where
  "zero_entry = \<lparr>name = [], start_cluster = 0, attr = 0, create_time_tenths = 0, create_time = 0, create_date = 0,
     last_access_date = 0, write_time = 0, write_date = 0, file_size = 0\<rparr>"

datatype fat12_entry_buf_status = FREE | DELETE | VALID | SKIP_LFN | SKIP_SFN | WRITE | END_OF_DIR

record fat12_entry_buf =
  normalized_entry :: fat12_normalized_entry
  status :: fat12_entry_buf_status

definition entry_buf_reset :: fat12_entry_buf where
  "entry_buf_reset = \<lparr>normalized_entry = zero_entry, status = FREE\<rparr>"

section \<open>Little-endian fields\<close>

definition get16 :: "bytes \<Rightarrow> nat \<Rightarrow> u16" where
  "get16 b i = ucast (b i) OR push_bit 8 (ucast (b (i + 1)))"

definition get32 :: "bytes \<Rightarrow> nat \<Rightarrow> u32" where
  "get32 b i = ucast (get16 b i) OR push_bit 16 (ucast (get16 b (i + 2)))"

definition put16 :: "nat \<Rightarrow> u16 \<Rightarrow> bytes \<Rightarrow> bytes" where
  "put16 i v b = b(i := ucast v, i + 1 := ucast (drop_bit 8 v))"

definition put32 :: "nat \<Rightarrow> u32 \<Rightarrow> bytes \<Rightarrow> bytes" where
  "put32 i v b = put16 (i + 2) (ucast (drop_bit 16 v)) (put16 i (ucast v) b)"

definition put_bytes :: "nat \<Rightarrow> u8 list \<Rightarrow> bytes \<Rightarrow> bytes" where
  "put_bytes off xs b = (\<lambda>i. if off \<le> i \<and> i < off + length xs then xs ! (i - off) else b i)"

section \<open>Decoding and encoding\<close>

text \<open>The offsets are those of the packed structure \<^verbatim>\<open>fat12_sfn_entry\<close>.\<close>

definition decode_name :: "bytes \<Rightarrow> nat \<Rightarrow> cstr" where
  "decode_name b off =
     (let base = map to_lower (takeWhile (\<lambda>c. c \<noteq> space) (map (\<lambda>i. b (off + i)) [0..<8]));
          ext = map to_lower (takeWhile (\<lambda>c. c \<noteq> space) (map (\<lambda>i. b (off + 8 + i)) [0..<3]))
      in c_string (base @ (if b (off + 11) AND DIRECTORY = 0 \<and> b (off + 8) \<noteq> space then dot # ext else [])))"

definition decode_entry :: "bytes \<Rightarrow> nat \<Rightarrow> fat12_normalized_entry" where
  "decode_entry b off =
     \<lparr>name = decode_name b off, start_cluster = get16 b (off + 26), attr = b (off + 11), create_time_tenths = b (off + 13),
      create_time = get16 b (off + 14), create_date = get16 b (off + 16), last_access_date = get16 b (off + 18),
      write_time = get16 b (off + 22), write_date = get16 b (off + 24), file_size = get32 b (off + 28)\<rparr>"

definition entry_buf_read :: "bytes \<Rightarrow> nat \<Rightarrow> fat12_entry_buf \<Rightarrow> bool \<times> fat12_entry_buf" where
  "entry_buf_read b off eb =
     (if b (off + 11) = 0x0F then (False, eb\<lparr>status := SKIP_LFN\<rparr>)
      else if b off = 0 then (False, eb\<lparr>status := END_OF_DIR\<rparr>)
      else if b off = 0xE5 then (False, eb\<lparr>status := DELETE\<rparr>)
      else if status eb = SKIP_LFN then (False, eb\<lparr>status := SKIP_SFN\<rparr>)
      else (True, eb\<lparr>normalized_entry := decode_entry b off, status := VALID\<rparr>))"

fun last_dot :: "nat \<Rightarrow> cstr \<Rightarrow> int \<Rightarrow> int" where
  "last_dot i [] d = d"
| "last_dot i (c # cs) d = last_dot (i + 1) cs (if c = dot then int i else d)"

definition pad :: "nat \<Rightarrow> u8 list \<Rightarrow> u8 list" where
  "pad n xs = take n (xs @ replicate n space)"

definition encode_name :: "fat12_normalized_entry \<Rightarrow> u8 list" where
  "encode_name e =
     (if attr e AND DIRECTORY \<noteq> 0 then pad 8 (map to_upper (take 8 (name e))) @ pad 3 []
      else let dot_idx = last_dot 0 (take FAT12_MAX_FILENAME (name e)) (- 1)
        in if dot_idx = - 1 then pad 8 (map to_upper (take 8 (name e))) @ pad 3 []
           else pad 8 (map to_upper (take (min 8 (nat dot_idx)) (name e))) @
                pad 3 (map to_upper (take 3 (drop (nat dot_idx + 1) (name e)))))"

definition encode_entry :: "nat \<Rightarrow> fat12_normalized_entry \<Rightarrow> bytes \<Rightarrow> bytes" where
  "encode_entry off e b =
     (let b = put_bytes off (replicate FAT12_ENTRY_BYTES 0) b;
          b = put_bytes off (encode_name e) b;
          b = put16 (off + 26) (start_cluster e) b;
          b = b(off + 11 := attr e);
          b = b(off + 13 := create_time_tenths e);
          b = put16 (off + 14) (create_time e) b;
          b = put16 (off + 16) (create_date e) b;
          b = put16 (off + 18) (last_access_date e) b;
          b = put16 (off + 22) (write_time e) b;
          b = put16 (off + 24) (write_date e) b
      in put32 (off + 28) (file_size e) b)"

definition entry_buf_write :: "nat \<Rightarrow> bool \<Rightarrow> fat12_entry_buf \<Rightarrow> bytes \<Rightarrow> bytes \<times> fat12_entry_buf" where
  "entry_buf_write off setDelete eb b =
     (if setDelete then (b(off := 0xE5), eb)
      else (encode_entry off (normalized_entry eb) b, eb\<lparr>status := WRITE\<rparr>))"

text \<open>\<^verbatim>\<open>fat12_normalized_entry::copy\<close> copies every field, the name with \<^verbatim>\<open>strcpy\<close>.\<close>

definition entry_copy :: "fat12_normalized_entry \<Rightarrow> fat12_normalized_entry \<Rightarrow> fat12_normalized_entry" where
  "entry_copy other this =
     this\<lparr>attr := attr other, create_date := create_date other, create_time := create_time other,
       create_time_tenths := create_time_tenths other, file_size := file_size other,
       last_access_date := last_access_date other, name := name other, start_cluster := start_cluster other,
       write_date := write_date other, write_time := write_time other\<rparr>"

section \<open>Locations and inodes\<close>

record fat12_entry_location =
  is_root :: bool
  parent_cluster :: u16
  current_cluster :: u16
  entry_index_in_cluster :: u16
  root_index :: u32

definition location_is_same :: "fat12_entry_location \<Rightarrow> fat12_entry_location \<Rightarrow> bool" where
  "location_is_same this other =
     (if is_root this then is_root other \<and> root_index this = root_index other
      else \<not> is_root other \<and> current_cluster this = current_cluster other \<and>
           entry_index_in_cluster this = entry_index_in_cluster other)"

text \<open>\<open>fat12_fs\<close> is the address of the file system that owns the inode, 0 for none.\<close>

record fat12_inode =
  fat12_fs :: nat
  ino_size :: u32
  ino_start_cluster :: u16
  parent_dir_start_cluster :: u16
  ino_attr :: u8
  refcount :: u32
  location :: fat12_entry_location

definition zero_location :: fat12_entry_location where
  "zero_location = \<lparr>is_root = False, parent_cluster = 0, current_cluster = 0, entry_index_in_cluster = 0, root_index = 0\<rparr>"

definition zero_inode :: fat12_inode where
  "zero_inode = \<lparr>fat12_fs = 0, ino_size = 0, ino_start_cluster = 0, parent_dir_start_cluster = 0, ino_attr = 0,
     refcount = 0, location = zero_location\<rparr>"

section \<open>Fields that are written and read back\<close>

lemma get16_put16 [simp]: "get16 (put16 i v b) i = v"
  by (rule bit_word_eqI) (auto simp: get16_def put16_def bit_or_iff bit_push_bit_iff bit_ucast_iff bit_drop_bit_eq)

lemma put16_frame: "j \<noteq> i \<Longrightarrow> j \<noteq> i + 1 \<Longrightarrow> put16 i v b j = b j"
  by (simp add: put16_def)

lemma get16_frame: "b i = b' i \<Longrightarrow> b (i + 1) = b' (i + 1) \<Longrightarrow> get16 b i = get16 b' i"
  by (simp add: get16_def)

lemma get16_put16_frame: "j + 1 < i \<or> i + 1 < j \<Longrightarrow> get16 (put16 i v b) j = get16 b j"
  by (rule get16_frame) (auto simp: put16_frame)

lemma get16_upd_frame: "i \<noteq> j \<Longrightarrow> i \<noteq> j + 1 \<Longrightarrow> get16 (b(i := v)) j = get16 b j"
  by (rule get16_frame) auto

lemma get32_put32 [simp]: "get32 (put32 i v b) i = v"
proof -
  have "get16 (put32 i v b) i = ucast v" "get16 (put32 i v b) (i + 2) = ucast (drop_bit 16 v)"
    by (simp_all add: put32_def get16_put16_frame)
  then show ?thesis
    by (intro bit_word_eqI) (auto simp: get32_def bit_or_iff bit_push_bit_iff bit_ucast_iff bit_drop_bit_eq)
qed

lemma put32_frame: "j < i \<or> i + 4 \<le> j \<Longrightarrow> put32 i v b j = b j"
  by (auto simp: put32_def put16_frame)

lemma get16_put32_frame: "j + 2 \<le> i \<or> i + 4 \<le> j \<Longrightarrow> get16 (put32 i v b) j = get16 b j"
  by (rule get16_frame) (auto simp: put32_frame)

lemmas field_frames = put16_frame put32_frame get16_put16_frame get16_upd_frame get16_put32_frame

section \<open>Names that survive the disk\<close>

definition plain :: "u8 \<Rightarrow> bool" where
  "plain c \<longleftrightarrow> c \<noteq> 0 \<and> c \<noteq> space \<and> c \<noteq> dot \<and> \<not> (0x41 \<le> c \<and> c \<le> 0x5A)"

definition valid_name :: "u8 \<Rightarrow> cstr \<Rightarrow> bool" where
  "valid_name a nm \<longleftrightarrow>
     (let base = takeWhile (\<lambda>c. c \<noteq> dot) nm; rest = dropWhile (\<lambda>c. c \<noteq> dot) nm
      in base \<noteq> [] \<and> length base \<le> 8 \<and> (\<forall>c\<in>set base. plain c) \<and> hd base \<noteq> 0xE5 \<and>
         (rest = [] \<or> a AND DIRECTORY = 0 \<and> tl rest \<noteq> [] \<and> length (tl rest) \<le> 3 \<and> (\<forall>c\<in>set (tl rest). plain c)))"

lemma valid_nameE:
  assumes "valid_name a nm"
  obtains (base) "length nm \<le> 8" "\<forall>c\<in>set nm. plain c" "nm \<noteq> []" "hd nm \<noteq> 0xE5"
  | (ext) b e where "nm = b @ dot # e" "a AND DIRECTORY = 0" "b \<noteq> []" "length b \<le> 8" "\<forall>c\<in>set b. plain c" "hd b \<noteq> 0xE5"
      "e \<noteq> []" "length e \<le> 3" "\<forall>c\<in>set e. plain c"
proof (cases "dropWhile (\<lambda>c. c \<noteq> dot) nm")
  case Nil
  then have t: "takeWhile (\<lambda>c. c \<noteq> dot) nm = nm" by (metis append_Nil2 takeWhile_dropWhile_id)
  show thesis by (rule base) (use assms in \<open>auto simp only: valid_name_def Let_def t\<close>)
next
  case (Cons c e)
  then have "c = dot" by (metis (mono_tags, lifting) dropWhile_eq_Cons_conv)
  moreover have "nm = takeWhile (\<lambda>c. c \<noteq> dot) nm @ c # e" using Cons by (metis takeWhile_dropWhile_id)
  ultimately show thesis using assms Cons ext by (simp add: valid_name_def Let_def)
qed

lemma plain_case: "plain c \<Longrightarrow> to_lower (to_upper c) = c \<and> to_upper c \<noteq> 0 \<and> to_upper c \<noteq> space"
proof -
  assume p: "plain c"
  show ?thesis
  proof (cases "0x61 \<le> c \<and> c \<le> 0x7A")
    case True
    then have u: "0x61 \<le> unat c" "unat c \<le> 0x7A" by (simp_all add: word_le_nat_alt)
    then have s: "unat (c - 0x20) = unat c - 0x20" by (subst unat_sub) (simp_all add: word_le_nat_alt)
    then have "0x41 \<le> c - 0x20" "c - 0x20 \<le> 0x5A" "c - 0x20 \<noteq> 0" "c - 0x20 \<noteq> 0x20"
      using u by (auto simp: word_le_nat_alt unsigned_eq_0_iff)
    then show ?thesis using True by (simp add: to_upper_def to_lower_def)
  next
    case False
    then show ?thesis using p by (auto simp: to_upper_def to_lower_def plain_def)
  qed
qed

lemma to_upper_E5: "to_upper c = 0xE5 \<longleftrightarrow> c = 0xE5"
proof (cases "0x61 \<le> c \<and> c \<le> 0x7A")
  case True
  then have u: "0x61 \<le> unat c" "unat c \<le> 0x7A" by (simp_all add: word_le_nat_alt)
  then have "unat (c - 0x20) = unat c - 0x20" by (subst unat_sub) (simp_all add: word_le_nat_alt)
  then show ?thesis using True u by (auto simp: to_upper_def)
next
  case False
  then show ?thesis by (auto simp: to_upper_def)
qed

lemma upper_plain:
  assumes "\<forall>c\<in>set xs. plain c"
  shows "map to_lower (map to_upper xs) = xs" "\<forall>c\<in>set (map to_upper xs). c \<noteq> space"
proof -
  have "to_lower (to_upper c) = c" if "c \<in> set xs" for c using assms plain_case that by blast
  then show "map to_lower (map to_upper xs) = xs" by (simp add: map_idI)
  show "\<forall>c\<in>set (map to_upper xs). c \<noteq> space" using assms plain_case by auto
qed

lemma takeWhile_pad: "length xs \<le> n \<Longrightarrow> \<forall>c\<in>set xs. c \<noteq> space \<Longrightarrow> takeWhile (\<lambda>c. c \<noteq> space) (pad n xs) = xs"
  by (cases "length xs = n") (auto simp: pad_def takeWhile_append takeWhile_replicate)

lemma length_pad [simp]: "length (pad n xs) = n"
  by (simp add: pad_def)

lemma last_dot_none: "\<forall>c\<in>set xs. c \<noteq> dot \<Longrightarrow> last_dot i xs d = d"
  by (induction xs arbitrary: i) auto

lemma last_dot_append: "\<forall>c\<in>set e. c \<noteq> dot \<Longrightarrow> last_dot i (b @ dot # e) d = int i + int (length b)"
  by (induction b arbitrary: i d) (auto simp: last_dot_none)

lemma plain_ne: "plain c \<Longrightarrow> c \<noteq> 0 \<and> c \<noteq> dot"
  by (simp add: plain_def)

lemma encode_name_valid:
  assumes "valid_name (attr e) (name e)"
  obtains b x where "encode_name e = pad 8 (map to_upper b) @ pad 3 (map to_upper x)"
    "name e = b @ (if x = [] then [] else dot # x)" "length b \<le> 8" "length x \<le> 3" "b \<noteq> []" "hd b \<noteq> 0xE5"
    "\<forall>c\<in>set b. plain c" "\<forall>c\<in>set x. plain c" "attr e AND DIRECTORY \<noteq> 0 \<longrightarrow> x = []"
  using assms
proof (cases rule: valid_nameE)
  case base
  have "last_dot 0 (take FAT12_MAX_FILENAME (name e)) (- 1) = - 1"
    using base(2) by (intro last_dot_none) (auto simp: plain_def dest: in_set_takeD)
  then have "encode_name e = pad 8 (map to_upper (name e)) @ pad 3 (map to_upper [])"
    using base(1) by (simp add: encode_name_def)
  then show thesis by (rule that) (use base in auto)
next
  case (ext b x)
  have "take FAT12_MAX_FILENAME (name e) = b @ dot # x" using ext by (simp add: FAT12_MAX_FILENAME_def)
  moreover have "last_dot 0 (b @ dot # x) (- 1) = int (length b)" using ext(9) by (subst last_dot_append) (auto simp: plain_def)
  ultimately have "encode_name e = pad 8 (map to_upper b) @ pad 3 (map to_upper x)"
    using ext by (simp add: encode_name_def)
  then show thesis by (rule that) (use ext in auto)
qed

lemma encode_entry_name_bytes:
  assumes "length (encode_name e) = 11" and "i < 11"
  shows "encode_entry off e b (off + i) = encode_name e ! i"
  using assms by (simp add: encode_entry_def Let_def field_frames) (simp add: put_bytes_def)

lemma length_encode_name [simp]: "length (encode_name e) = 11"
  by (simp add: encode_name_def Let_def)

lemma encode_entry_fields:
  "encode_entry off e b (off + 11) = attr e" "encode_entry off e b (off + 13) = create_time_tenths e"
  "get16 (encode_entry off e b) (off + 26) = start_cluster e" "get16 (encode_entry off e b) (off + 14) = create_time e"
  "get16 (encode_entry off e b) (off + 16) = create_date e" "get16 (encode_entry off e b) (off + 18) = last_access_date e"
  "get16 (encode_entry off e b) (off + 22) = write_time e" "get16 (encode_entry off e b) (off + 24) = write_date e"
  "get32 (encode_entry off e b) (off + 28) = file_size e"
  by (simp_all add: encode_entry_def Let_def field_frames)

lemma encode_entry_frame: "j < off \<or> off + 32 \<le> j \<Longrightarrow> encode_entry off e b j = b j"
  by (auto simp: encode_entry_def Let_def field_frames put_bytes_def FAT12_ENTRY_BYTES_def)

lemma decode_encode_name:
  assumes "valid_name (attr e) (name e)"
  shows "decode_name (encode_entry off e b) off = name e"
proof -
  obtain bs x where en: "encode_name e = pad 8 (map to_upper bs) @ pad 3 (map to_upper x)"
    and nm: "name e = bs @ (if x = [] then [] else dot # x)" and l: "length bs \<le> 8" "length x \<le> 3"
    and p: "\<forall>c\<in>set bs. plain c" "\<forall>c\<in>set x. plain c" and dir: "attr e AND DIRECTORY \<noteq> 0 \<longrightarrow> x = []"
    by (rule encode_name_valid [OF assms])
  let ?m = "encode_entry off e b"
  have nb: "?m (off + i) = encode_name e ! i" if "i < 11" for i using that by (intro encode_entry_name_bytes) simp_all
  have base: "map (\<lambda>i. ?m (off + i)) [0..<8] = pad 8 (map to_upper bs)"
    by (rule nth_equalityI) (simp_all add: nb en nth_append)
  have ext: "map (\<lambda>i. ?m (off + 8 + i)) [0..<3] = pad 3 (map to_upper x)"
    by (rule nth_equalityI) (simp_all add: nb [of "8 + _", simplified add.assoc [symmetric]] en nth_append)
  have e8: "?m (off + 8) = space \<longleftrightarrow> x = []"
  proof -
    have "?m (off + 8) = pad 3 (map to_upper x) ! 0" by (simp add: nb en nth_append)
    then show ?thesis using upper_plain(2) [OF p(2)] by (cases x) (simp_all add: pad_def)
  qed
  have tw: "takeWhile (\<lambda>c. c \<noteq> space) (pad 8 (map to_upper bs)) = map to_upper bs"
      "takeWhile (\<lambda>c. c \<noteq> space) (pad 3 (map to_upper x)) = map to_upper x"
    using l upper_plain(2) [OF p(1)] upper_plain(2) [OF p(2)] by (simp_all add: takeWhile_pad)
  have "c_string (name e) = name e"
    using p nm by (auto simp: c_string_def takeWhile_eq_all_conv dest!: plain_ne split: if_splits)
  then show ?thesis
    unfolding decode_name_def Let_def base ext tw upper_plain(1) [OF p(1)] upper_plain(1) [OF p(2)] e8 encode_entry_fields
    using dir nm by auto
qed

section \<open>Properties\<close>

text \<open>
  \<^bold>\<open>C17\<close>: Directory entries survive the disk (fat12_entry.cpp, \<^verbatim>\<open>fat12_entry_buf::write\<close> and
  \<^verbatim>\<open>read\<close>).  An entry with a lower-case 8.3 name and an attribute other than the long-name mark,
  written at any offset of a buffer and read back by a reader that is not skipping a long name, is
  returned unchanged, in every field; the rest of the buffer is untouched.  An entry marked as deleted
  is reported as such.
\<close>

theorem fat12_entry_roundtrip:
  assumes nm: "valid_name (attr e) (name e)" and at: "attr e \<noteq> 0x0F" and st: "status eb \<noteq> SKIP_LFN"
  shows "(let (b', w) = entry_buf_write off False (eb'\<lparr>normalized_entry := e\<rparr>) b
     in entry_buf_read b' off eb = (True, eb\<lparr>normalized_entry := e, status := VALID\<rparr>) \<and>
        (\<forall>j. j < off \<or> off + FAT12_ENTRY_BYTES \<le> j \<longrightarrow> b' j = b j) \<and>
        (let (b'', _) = entry_buf_write off True w b'
         in entry_buf_read b'' off eb = (False, eb\<lparr>status := DELETE\<rparr>) \<and> (\<forall>j. j \<noteq> off \<longrightarrow> b'' j = b' j)))"
proof -
  let ?m = "encode_entry off e b"
  obtain bs x where en: "encode_name e = pad 8 (map to_upper bs) @ pad 3 (map to_upper x)"
    and bs: "bs \<noteq> []" "hd bs \<noteq> 0xE5" "\<forall>c\<in>set bs. plain c"
    by (rule encode_name_valid [OF nm])
  have "?m off = to_upper (hd bs)"
    using encode_entry_name_bytes [of e 0 off b] bs(1) by (cases bs) (simp_all add: en nth_append pad_def)
  moreover have "to_upper (hd bs) \<noteq> 0" "to_upper (hd bs) \<noteq> 0xE5" using bs plain_case by (auto simp: to_upper_E5)
  moreover have "decode_entry ?m off = e"
    by (simp add: decode_entry_def decode_encode_name [OF nm] encode_entry_fields)
  ultimately have "entry_buf_read ?m off eb = (True, eb\<lparr>normalized_entry := e, status := VALID\<rparr>)"
    using at st by (simp add: entry_buf_read_def encode_entry_fields)
  moreover have "entry_buf_read (?m(off := 0xE5)) off eb = (False, eb\<lparr>status := DELETE\<rparr>)"
    using at by (simp add: entry_buf_read_def encode_entry_fields)
  ultimately show ?thesis
    by (simp add: entry_buf_write_def encode_entry_frame FAT12_ENTRY_BYTES_def)
qed

definition sample_entry :: fat12_normalized_entry where
  "sample_entry = zero_entry\<lparr>name := [0x61, 0x2E, 0x74, 0x78, 0x74], start_cluster := 7, attr := ARCHIVE, file_size := 300\<rparr>"

theorem fat12_entry_roundtrip_witness:
  "entry_buf_read (fst (entry_buf_write 64 False (entry_buf_reset\<lparr>normalized_entry := sample_entry\<rparr>) (\<lambda>_. 0))) 64 entry_buf_reset =
     (True, entry_buf_reset\<lparr>normalized_entry := sample_entry, status := VALID\<rparr>)"
proof -
  have "valid_name (attr sample_entry) (name sample_entry)"
    by (simp add: valid_name_def sample_entry_def zero_entry_def attr_defs plain_def Let_def)
  moreover have "attr sample_entry \<noteq> 0x0F" by (simp add: sample_entry_def attr_defs)
  moreover have "status entry_buf_reset \<noteq> SKIP_LFN" by (simp add: entry_buf_reset_def)
  ultimately show ?thesis
    using fat12_entry_roundtrip [of sample_entry entry_buf_reset 64 entry_buf_reset "\<lambda>_. 0"] by (auto simp: Let_def split: prod.splits)
qed

end
