(* ===== verification/Ide_Disk.thy ===== *)
theory Ide_Disk
  imports Os_Prelude "HOL-Library.Monad_Syntax"
begin

text \<open>
  The polling IDE driver of \<^verbatim>\<open>src/kernel/fileSys/disk_driver.cpp\<close> and its header, and the part of
  an ATA channel that it talks to.  The driver is translated port access by port access.  The channel
  is the environment: its task-file registers, the two drives on it, the sectors that cannot be
  accessed, and the number of status reads for which it stays busy after a command.
\<close>

section \<open>The channel\<close>

datatype ata_phase = Idle | Data_In nat | Data_Out nat | Failed

record ata_channel =
  reg_count :: u8
  reg_lba_low :: u8
  reg_lba_mid :: u8
  reg_lba_high :: u8
  reg_select :: u8
  phase :: ata_phase
  busy :: nat
  latency :: nat
  defect :: "bool \<Rightarrow> nat \<Rightarrow> bool"
  media :: "bool \<Rightarrow> nat \<Rightarrow> bytes"

type_synonym ide = "u16 \<Rightarrow> ata_channel"

definition slave :: "ata_channel \<Rightarrow> bool" where
  "slave c \<longleftrightarrow> reg_select c AND 0x10 \<noteq> 0"

definition task_lba :: "ata_channel \<Rightarrow> nat" where
  "task_lba c = unat (reg_lba_low c) + 2 ^ 8 * unat (reg_lba_mid c) + 2 ^ 16 * unat (reg_lba_high c) +
     2 ^ 24 * unat (reg_select c AND 0x0f)"

definition ata_command :: "u8 \<Rightarrow> ata_channel \<Rightarrow> ata_channel" where
  "ata_command v c =
     (let p = (if v = 0x20 then (if defect c (slave c) (task_lba c) then Failed else Data_In (task_lba c))
               else if v = 0x30 then (if defect c (slave c) (task_lba c) then Failed else Data_Out (task_lba c))
               else if v = 0xE7 then Idle else Failed)
      in c\<lparr>phase := p, busy := latency c\<rparr>)"

definition ata_out :: "u16 \<Rightarrow> u8 \<Rightarrow> ata_channel \<Rightarrow> ata_channel" where
  "ata_out reg v c =
     (if reg = 2 then c\<lparr>reg_count := v\<rparr>
      else if reg = 3 then c\<lparr>reg_lba_low := v\<rparr>
      else if reg = 4 then c\<lparr>reg_lba_mid := v\<rparr>
      else if reg = 5 then c\<lparr>reg_lba_high := v\<rparr>
      else if reg = 6 then c\<lparr>reg_select := v\<rparr>
      else if reg = 7 then ata_command v c else c)"

definition ata_status :: "ata_channel \<Rightarrow> u8" where
  "ata_status c = (if 0 < busy c then 0x80 else
     (case phase c of Idle \<Rightarrow> 0x40 | Data_In _ \<Rightarrow> 0x48 | Data_Out _ \<Rightarrow> 0x48 | Failed \<Rightarrow> 0x41))"

text \<open>The two control ports only switch the interrupt line of a channel, which the driver never uses.\<close>

definition port_base :: "u16 \<Rightarrow> u16" where "port_base port = port AND NOT 7"

definition outb :: "u16 \<Rightarrow> u8 \<Rightarrow> ide \<Rightarrow> ide" where
  "outb port v d =
     (if port = 0x3F6 \<or> port = 0x376 then d
      else let b = port_base port in d(b := ata_out (port AND 7) v (d b)))"

definition inb_status :: "u16 \<Rightarrow> ide \<Rightarrow> u8 \<times> ide" where
  "inb_status port d = (let b = port_base port in (ata_status (d b), d(b := (d b)\<lparr>busy := busy (d b) - 1\<rparr>)))"

definition insw :: "u16 \<Rightarrow> nat \<Rightarrow> bytes \<Rightarrow> ide \<Rightarrow> bytes \<times> ide" where
  "insw port count buf d =
     (let b = port_base port; c = d b in
      case phase c of
        Data_In lba \<Rightarrow> (\<lambda>i. if i < 2 * count then media c (slave c) lba i else buf i, d(b := c\<lparr>phase := Idle\<rparr>))
      | _ \<Rightarrow> (\<lambda>i. if i < 2 * count then 0xff else buf i, d))"

definition outsw :: "u16 \<Rightarrow> bytes \<Rightarrow> nat \<Rightarrow> ide \<Rightarrow> ide" where
  "outsw port buf count d =
     (let b = port_base port; c = d b in
      case phase c of
        Data_Out lba \<Rightarrow>
          d(b := c\<lparr>phase := Idle, busy := latency c,
             media := (media c)(slave c := (media c (slave c))(lba :=
               (\<lambda>i. if i < 2 * count then buf i else media c (slave c) lba i)))\<rparr>)
      | _ \<Rightarrow> d)"

section \<open>The driver\<close>

datatype IdeDrive = PrimaryMaster | PrimarySlave | SecondaryMaster | SecondarySlave | INVALID

record IdeChannel =
  io_base :: u16
  ctrl_base :: u16
  drive_select :: u8

text \<open>For \<^verbatim>\<open>INVALID\<close> the code returns an uninitialised structure; here that is \<^const>\<open>None\<close>.\<close>

definition ide_get_channel :: "IdeDrive \<Rightarrow> IdeChannel option" where
  "ide_get_channel drive =
     (case drive of
        PrimaryMaster \<Rightarrow> Some \<lparr>io_base = 0x1F0, ctrl_base = 0x3F6, drive_select = 0xE0\<rparr>
      | PrimarySlave \<Rightarrow> Some \<lparr>io_base = 0x1F0, ctrl_base = 0x3F6, drive_select = 0xF0\<rparr>
      | SecondaryMaster \<Rightarrow> Some \<lparr>io_base = 0x170, ctrl_base = 0x376, drive_select = 0xE0\<rparr>
      | SecondarySlave \<Rightarrow> Some \<lparr>io_base = 0x170, ctrl_base = 0x376, drive_select = 0xF0\<rparr>
      | INVALID \<Rightarrow> None)"

definition ide_reg :: "IdeChannel \<Rightarrow> u16 \<Rightarrow> u16" where
  "ide_reg ch reg = io_base ch + reg"

definition IDE_WAIT_RETRY :: nat where "IDE_WAIT_RETRY = 100000"

fun wait_loop :: "nat \<Rightarrow> IdeChannel \<Rightarrow> bool \<Rightarrow> ide \<Rightarrow> bool \<times> ide" where
  "wait_loop 0 ch require_drq d = (False, d)"
| "wait_loop (Suc n) ch require_drq d =
     (let (status, d) = inb_status (ide_reg ch 7) d
      in if status AND 0x21 \<noteq> 0 then (False, d)
         else if status AND 0x80 = 0 \<and> (\<not> require_drq \<or> status AND 0x08 \<noteq> 0) then (True, d)
         else wait_loop n ch require_drq d)"

definition ide_wait_ready :: "IdeDrive \<Rightarrow> bool \<Rightarrow> ide \<Rightarrow> (bool \<times> ide) option" where
  "ide_wait_ready drive require_drq d = do {
     ch \<leftarrow> ide_get_channel drive;
     Some (wait_loop IDE_WAIT_RETRY ch require_drq d)
   }"

definition ide_send_control :: "IdeDrive \<Rightarrow> u8 \<Rightarrow> ide \<Rightarrow> ide option" where
  "ide_send_control drive v d = do { ch \<leftarrow> ide_get_channel drive; Some (outb (ctrl_base ch) v d) }"

definition ide_select_drive_delay :: "IdeDrive \<Rightarrow> ide \<Rightarrow> ide option" where
  "ide_select_drive_delay drive d = do {
     ch \<leftarrow> ide_get_channel drive;
     Some (((\<lambda>d. snd (inb_status (ide_reg ch 7) d)) ^^ 4) d)
   }"

definition ide_read_sector :: "IdeDrive \<Rightarrow> u32 \<Rightarrow> bytes \<Rightarrow> ide \<Rightarrow> (bool \<times> bytes \<times> ide) option" where
  "ide_read_sector drive lba buf d = do {
     ch \<leftarrow> ide_get_channel drive;
     let d = outb (ide_reg ch 6) (drive_select ch OR ucast (drop_bit 24 lba AND 0x0f)) d;
     d \<leftarrow> ide_send_control drive 0x02 d;
     d \<leftarrow> ide_select_drive_delay drive d;
     let d = outb (ide_reg ch 2) 1 d;
     let d = outb (ide_reg ch 3) (ucast (lba AND 0xff)) d;
     let d = outb (ide_reg ch 4) (ucast (drop_bit 8 lba AND 0xff)) d;
     let d = outb (ide_reg ch 5) (ucast (drop_bit 16 lba AND 0xff)) d;
     let d = outb (ide_reg ch 7) 0x20 d;
     (ok, d) \<leftarrow> ide_wait_ready drive True d;
     if \<not> ok then Some (False, buf, d)
     else do {
       let (buf, d) = insw (ide_reg ch 0) 256 buf d;
       (ok, d) \<leftarrow> ide_wait_ready drive False d;
       Some (ok, buf, d)
     }
   }"

definition ide_write_sector :: "IdeDrive \<Rightarrow> u32 \<Rightarrow> bytes \<Rightarrow> ide \<Rightarrow> (bool \<times> ide) option" where
  "ide_write_sector drive lba buf d = do {
     ch \<leftarrow> ide_get_channel drive;
     let d = outb (ide_reg ch 6) (drive_select ch OR ucast (drop_bit 24 lba AND 0x0f)) d;
     d \<leftarrow> ide_select_drive_delay drive d;
     let d = outb (ide_reg ch 2) 1 d;
     let d = outb (ide_reg ch 3) (ucast lba) d;
     let d = outb (ide_reg ch 4) (ucast (drop_bit 8 lba)) d;
     let d = outb (ide_reg ch 5) (ucast (drop_bit 16 lba)) d;
     let d = outb (ide_reg ch 7) 0x30 d;
     (ok, d) \<leftarrow> ide_wait_ready drive True d;
     if \<not> ok then Some (False, d)
     else do {
       let d = outsw (ide_reg ch 0) buf 256 d;
       (ok, d) \<leftarrow> ide_wait_ready drive False d;
       if \<not> ok then Some (False, d)
       else do {
         (ok, d) \<leftarrow> ide_wait_ready drive False (outb (ide_reg ch 7) 0xE7 d);
         if \<not> ok then Some (False, d)
         else do {
           d \<leftarrow> ide_send_control drive 0x02 d;
           ide_wait_ready drive False (outb (ide_reg ch 7) 0xE7 d)
         }
       }
     }
   }"

section \<open>What the driver does to a drive\<close>

text \<open>A channel that accepts commands: nothing pending, and quick enough for the retry limit.\<close>

definition base_of :: "IdeDrive \<Rightarrow> u16" where
  "base_of drive = (if drive = PrimaryMaster \<or> drive = PrimarySlave then 0x1F0 else 0x170)"

definition is_slave :: "IdeDrive \<Rightarrow> bool" where
  "is_slave drive \<longleftrightarrow> drive = PrimarySlave \<or> drive = SecondarySlave"

definition ide_ok :: "IdeDrive \<Rightarrow> ide \<Rightarrow> bool" where
  "ide_ok drive d \<longleftrightarrow> drive \<noteq> INVALID \<and> latency (d (base_of drive)) < IDE_WAIT_RETRY"

text \<open>The contents and the defects of a drive, by the 28 bits of the sector number.\<close>

definition sector :: "IdeDrive \<Rightarrow> ide \<Rightarrow> u32 \<Rightarrow> bytes" where
  "sector drive d lba = media (d (base_of drive)) (is_slave drive) (unat lba mod 2 ^ 28)"

definition bad_sector :: "IdeDrive \<Rightarrow> ide \<Rightarrow> u32 \<Rightarrow> bool" where
  "bad_sector drive d lba = defect (d (base_of drive)) (is_slave drive) (unat lba mod 2 ^ 28)"

definition same_media :: "ide \<Rightarrow> ide \<Rightarrow> bool" where
  "same_media d d' \<longleftrightarrow>
     (\<forall>b. latency (d' b) = latency (d b) \<and> defect (d' b) = defect (d b) \<and> media (d' b) = media (d b))"

lemma same_media_refl [simp]: "same_media d d"
  by (simp add: same_media_def)

lemma same_media_sector:
  "same_media d d' \<Longrightarrow> sector drive d' = sector drive d \<and> bad_sector drive d' = bad_sector drive d \<and> (ide_ok drive d' \<longleftrightarrow> ide_ok drive d)"
  by (auto simp: same_media_def sector_def bad_sector_def ide_ok_def fun_eq_iff)

definition channel_of :: "IdeDrive \<Rightarrow> IdeChannel" where
  "channel_of drive = \<lparr>io_base = base_of drive, ctrl_base = (if base_of drive = 0x1F0 then 0x3F6 else 0x376),
     drive_select = (if is_slave drive then 0xF0 else 0xE0)\<rparr>"

lemma ide_get_channel_eq: "ide_get_channel drive = (if drive = INVALID then None else Some (channel_of drive))"
  by (cases drive) (simp_all add: ide_get_channel_def channel_of_def base_of_def is_slave_def)

lemma port_simps:
  assumes "r < 8"
  shows "outb (ide_reg (channel_of drive) r) v d = d(base_of drive := ata_out r v (d (base_of drive)))"
    and "inb_status (ide_reg (channel_of drive) r) d =
      (ata_status (d (base_of drive)), d(base_of drive := (d (base_of drive))\<lparr>busy := busy (d (base_of drive)) - 1\<rparr>))"
    and "port_base (ide_reg (channel_of drive) r) = base_of drive"
proof -
  have r: "r \<in> {0, 1, 2, 3, 4, 5, 6, 7}"
  proof -
    have "unat r < 8" using assms by (simp add: word_less_nat_alt)
    then have "unat r \<in> {0, 1, 2, 3, 4, 5, 6, 7}" by auto
    moreover have "r = word_of_nat (unat r)" by simp
    ultimately have "r \<in> word_of_nat ` {0, 1, 2, 3, 4, 5, 6, 7}" by blast
    then show ?thesis by simp
  qed
  show *: "port_base (ide_reg (channel_of drive) r) = base_of drive"
    using r by (auto simp: port_base_def ide_reg_def channel_of_def base_of_def)
  show "inb_status (ide_reg (channel_of drive) r) d =
      (ata_status (d (base_of drive)), d(base_of drive := (d (base_of drive))\<lparr>busy := busy (d (base_of drive)) - 1\<rparr>))"
    by (simp add: inb_status_def * Let_def)
  have "(ide_reg (channel_of drive) r) AND 7 = r" "ide_reg (channel_of drive) r \<noteq> 0x3F6" "ide_reg (channel_of drive) r \<noteq> 0x376"
    using r by (auto simp: ide_reg_def channel_of_def base_of_def)
  then show "outb (ide_reg (channel_of drive) r) v d = d(base_of drive := ata_out r v (d (base_of drive)))"
    by (simp add: outb_def * Let_def)
qed

lemma ide_send_control_spec: "drive \<noteq> INVALID \<Longrightarrow> ide_send_control drive v d = Some d"
  by (simp add: ide_send_control_def ide_get_channel_eq outb_def channel_of_def)

lemma wait_loop_spec:
  assumes "busy (d (base_of drive)) < n"
  shows "wait_loop n (channel_of drive) drq d =
    (case phase (d (base_of drive)) of Idle \<Rightarrow> \<not> drq | Failed \<Rightarrow> False | _ \<Rightarrow> True,
     d(base_of drive := (d (base_of drive))\<lparr>busy := 0\<rparr>))"
  using assms
proof (induction n arbitrary: d)
  case (Suc n)
  show ?case
  proof (cases "busy (d (base_of drive))")
    case 0
    have idle: "wait_loop n (channel_of drive) True d = (False, d)"
      if "phase (d (base_of drive)) = Idle" using that 0
    proof (induction n)
      case (Suc n)
      have "d(base_of drive := (d (base_of drive))\<lparr>busy := 0\<rparr>) = d" using 0 by (simp add: fun_upd_idem)
      then show ?case using Suc 0 by (simp add: port_simps ata_status_def)
    qed simp
    have same: "(d (base_of drive))\<lparr>busy := 0\<rparr> = d (base_of drive)" using 0 by simp
    show ?thesis
      using 0 idle same by (cases "phase (d (base_of drive))") (simp_all add: port_simps ata_status_def fun_upd_idem)
  next
    case (Suc k)
    let ?d = "d(base_of drive := (d (base_of drive))\<lparr>busy := k\<rparr>)"
    have "wait_loop n (channel_of drive) drq ?d =
      (case phase (?d (base_of drive)) of Idle \<Rightarrow> \<not> drq | Failed \<Rightarrow> False | _ \<Rightarrow> True,
        ?d(base_of drive := (?d (base_of drive))\<lparr>busy := 0\<rparr>))"
      by (rule Suc.IH) (use Suc.prems Suc in simp)
    then show ?thesis using Suc by (simp add: port_simps ata_status_def fun_eq_iff)
  qed
qed simp

lemma ide_wait_ready_spec:
  assumes "drive \<noteq> INVALID" and "busy (d (base_of drive)) < IDE_WAIT_RETRY"
  shows "ide_wait_ready drive drq d =
    Some (case phase (d (base_of drive)) of Idle \<Rightarrow> \<not> drq | Failed \<Rightarrow> False | _ \<Rightarrow> True,
     d(base_of drive := (d (base_of drive))\<lparr>busy := 0\<rparr>))"
  using wait_loop_spec [of d drive, OF assms(2)] assms(1) by (simp add: ide_wait_ready_def ide_get_channel_eq)

lemma ide_select_drive_delay_spec:
  "drive \<noteq> INVALID \<Longrightarrow> ide_select_drive_delay drive d =
     Some (d(base_of drive := (d (base_of drive))\<lparr>busy := busy (d (base_of drive)) - 4\<rparr>))"
proof -
  assume "drive \<noteq> INVALID"
  moreover have "(f ^^ 4) x = f (f (f (f x)))" for f :: "ide \<Rightarrow> ide" and x by (simp add: eval_nat_numeral)
  ultimately show ?thesis by (simp add: ide_select_drive_delay_def ide_get_channel_eq port_simps)
    (simp add: eval_nat_numeral)
qed

lemma nat_split_lba: "(n::nat) mod 256 + 256 * (n div 256 mod 256) + 65536 * (n div 65536 mod 256) + 16777216 * (n div 16777216 mod 16) = n mod 2 ^ 28"
proof -
  have "n mod (256 * 256) = 256 * (n div 256 mod 256) + n mod 256" by (rule mod_mult2_eq)
  moreover have "n mod (65536 * 256) = 65536 * (n div 65536 mod 256) + n mod 65536" by (rule mod_mult2_eq)
  moreover have "n mod (16777216 * 16) = 16777216 * (n div 16777216 mod 16) + n mod 16777216" by (rule mod_mult2_eq)
  ultimately show ?thesis by simp
qed

lemma unat_byte_of: "unat (ucast (w :: u32) :: u8) = unat w mod 256"
  by (simp add: unsigned_ucast_eq take_bit_eq_mod)

lemma ucast_and_ff: "ucast (w AND 0xff :: u32) = (ucast w :: u8)"
proof -
  have m: "(0xff :: u32) = mask 8" by (simp add: mask_eq_exp_minus_1)
  show ?thesis unfolding m by (rule bit_word_eqI) (simp add: bit_and_iff bit_mask_iff bit_ucast_iff)
qed

text \<open>Selecting a drive and loading the four address registers makes the channel address the sector.\<close>

definition load_task :: "IdeDrive \<Rightarrow> u32 \<Rightarrow> ata_channel \<Rightarrow> ata_channel" where
  "load_task drive lba c =
     c\<lparr>reg_select := (if is_slave drive then 0xF0 else 0xE0) OR ucast (drop_bit 24 lba AND 0x0f), reg_count := 1,
       reg_lba_low := ucast lba, reg_lba_mid := ucast (drop_bit 8 lba), reg_lba_high := ucast (drop_bit 16 lba)\<rparr>"

lemma load_task_addr:
  "slave (load_task drive lba c) = is_slave drive" "task_lba (load_task drive lba c) = unat lba mod 2 ^ 28"
proof -
  define h where "h = (ucast (drop_bit 24 lba AND 0x0f) :: u8)"
  have m: "(0x0f :: u32) = mask 4" "(0x0f :: u8) = mask 4" by (simp_all add: mask_eq_exp_minus_1)
  have hm: "h AND mask 4 = h" "h AND 0x10 = 0"
  proof -
    show "h AND mask 4 = h" unfolding h_def m
      by (rule bit_word_eqI) (auto simp: bit_and_iff bit_mask_iff bit_ucast_iff)
    have "\<not> bit h 4" by (simp add: h_def m bit_and_iff bit_mask_iff bit_ucast_iff)
    then show "h AND 0x10 = 0" using and_push_bit_1_eq_0_iff [of 4 h] by simp
  qed
  show "slave (load_task drive lba c) = is_slave drive"
    by (simp add: slave_def load_task_def bit.conj_disj_distrib2 hm(2) flip: h_def)
  have uh: "unat h = unat lba div 16777216 mod 16"
    unfolding h_def m unat_byte_of unat_and_mask_mod by simp
  show "task_lba (load_task drive lba c) = unat lba mod 2 ^ 28"
  proof -
    have "((if is_slave drive then 0xF0 else 0xE0) OR h) AND 0x0f = h"
    proof -
      have "(if is_slave drive then 0xF0 else 0xE0 :: u8) AND 0x0f = 0" by simp
      then show ?thesis using hm(1) by (simp only: bit.conj_disj_distrib2 m(2) or.left_neutral)
    qed
    then show ?thesis
      by (simp only: task_lba_def load_task_def ata_channel.simps h_def [symmetric] uh unat_byte_of unat_drop_div)
        (simp add: uh unat_byte_of nat_split_lba [simplified])
  qed
qed

lemma ide_read_sector_unfold:
  fixes lba :: u32
  assumes ok: "ide_ok drive d"
  defines "c \<equiv> load_task drive lba ((d (base_of drive))\<lparr>busy := 0\<rparr>)"
  shows "ide_read_sector drive lba buf d =
    (if bad_sector drive d lba then Some (False, buf, d(base_of drive := c\<lparr>phase := Failed\<rparr>))
     else Some (True, \<lambda>i. if i < 512 then sector drive d lba i else buf i, d(base_of drive := c\<lparr>phase := Idle\<rparr>)))"
proof -
  have inv: "drive \<noteq> INVALID" and lat: "latency (d (base_of drive)) < IDE_WAIT_RETRY" using ok by (auto simp: ide_ok_def)
  have pos: "0 < IDE_WAIT_RETRY" by (simp add: IDE_WAIT_RETRY_def)
  let ?b = "base_of drive"
  have ds: "drive_select (channel_of drive) = (if is_slave drive then 0xF0 else 0xE0)" by (simp add: channel_of_def)
  define e where "e = load_task drive lba ((d ?b)\<lparr>busy := busy (d ?b) - 4\<rparr>)"
  have addr: "slave e = is_slave drive" "task_lba e = unat lba mod 2 ^ 28" unfolding e_def by (rule load_task_addr)+
  have e: "(d ?b)\<lparr>reg_select := drive_select (channel_of drive) OR ucast (drop_bit 24 lba AND 0x0f), busy := busy (d ?b) - 4, reg_count := 1,
     reg_lba_low := ucast lba, reg_lba_mid := ucast (drop_bit 8 lba), reg_lba_high := ucast (drop_bit 16 lba)\<rparr> = e"
    by (simp add: e_def load_task_def ds)
  have df: "defect e = defect (d ?b)" "latency e = latency (d ?b)" "media e = media (d ?b)" by (simp_all add: e_def load_task_def)
  have sl: "slave (e\<lparr>phase := p, busy := n\<rparr>) = slave e" for p n by (simp add: slave_def)
  have ce: "e\<lparr>phase := p, busy := 0\<rparr> = c\<lparr>phase := p\<rparr>" "(e\<lparr>phase := q, busy := 0\<rparr>)\<lparr>phase := p\<rparr> = c\<lparr>phase := p\<rparr>" for p q
    by (simp_all add: e_def c_def load_task_def)
  have cm: "media c = media (d ?b)" and cb: "busy c = 0" "c\<lparr>phase := p, busy := 0\<rparr> = c\<lparr>phase := p\<rparr>" for p by (simp_all add: c_def load_task_def)
  have cmd: "ata_command 0x20 e = e\<lparr>phase := (if bad_sector drive d lba then Failed else Data_In (unat lba mod 2 ^ 28)), busy := latency (d ?b)\<rparr>"
    by (simp add: ata_command_def addr df bad_sector_def)
  let ?d1 = "d(?b := ata_command 0x20 e)"
  have "ide_read_sector drive lba buf d =
    Option.bind (ide_wait_ready drive True ?d1) (\<lambda>(ok, d). if \<not> ok then Some (False, buf, d)
     else let (buf, d) = insw (ide_reg (channel_of drive) 0) 256 buf d in
       Option.bind (ide_wait_ready drive False d) (\<lambda>(ok, d). Some (ok, buf, d)))"
    by (simp add: ide_read_sector_def ide_get_channel_eq inv ide_send_control_spec port_simps ide_select_drive_delay_spec
        ata_out_def Let_def ucast_and_ff e)
  moreover have "ide_wait_ready drive True ?d1 =
      Some (\<not> bad_sector drive d lba, d(?b := c\<lparr>phase := (if bad_sector drive d lba then Failed else Data_In (unat lba mod 2 ^ 28))\<rparr>))"
    using lat by (subst ide_wait_ready_spec [OF inv]) (simp_all add: cmd ce)
  moreover have "insw (ide_reg (channel_of drive) 0) 256 buf (d(?b := c\<lparr>phase := Data_In (unat lba mod 2 ^ 28)\<rparr>)) =
      (\<lambda>i. if i < 512 then sector drive d lba i else buf i, d(?b := c\<lparr>phase := Idle\<rparr>))"
    using addr sl [of 0 "Data_In (unat lba mod 2 ^ 28)"] by (simp add: insw_def port_simps ce sector_def cm Let_def fun_eq_iff)
  moreover have "ide_wait_ready drive False (d(?b := c\<lparr>phase := Idle\<rparr>)) = Some (True, d(?b := c\<lparr>phase := Idle\<rparr>))"
    using pos by (subst ide_wait_ready_spec [OF inv]) (simp_all add: cb)
  ultimately show ?thesis by simp
qed

lemma ide_write_sector_unfold:
  fixes lba :: u32
  assumes ok: "ide_ok drive d"
  defines "c \<equiv> load_task drive lba ((d (base_of drive))\<lparr>busy := 0\<rparr>)"
  shows "ide_write_sector drive lba buf d =
    (if bad_sector drive d lba then Some (False, d(base_of drive := c\<lparr>phase := Failed\<rparr>))
     else Some (True, d(base_of drive := c\<lparr>phase := Idle, media := (media c)(is_slave drive := (media c (is_slave drive))
       (unat lba mod 2 ^ 28 := (\<lambda>i. if i < 512 then buf i else sector drive d lba i)))\<rparr>)))"
proof -
  have inv: "drive \<noteq> INVALID" and lat: "latency (d (base_of drive)) < IDE_WAIT_RETRY" using ok by (auto simp: ide_ok_def)
  let ?b = "base_of drive"
  have ds: "drive_select (channel_of drive) = (if is_slave drive then 0xF0 else 0xE0)" by (simp add: channel_of_def)
  define e where "e = load_task drive lba ((d ?b)\<lparr>busy := busy (d ?b) - 4\<rparr>)"
  have addr: "slave e = is_slave drive" "task_lba e = unat lba mod 2 ^ 28" unfolding e_def by (rule load_task_addr)+
  have e: "(d ?b)\<lparr>reg_select := drive_select (channel_of drive) OR ucast (drop_bit 24 lba AND 0x0f), busy := busy (d ?b) - 4, reg_count := 1,
     reg_lba_low := ucast lba, reg_lba_mid := ucast (drop_bit 8 lba), reg_lba_high := ucast (drop_bit 16 lba)\<rparr> = e"
    by (simp add: e_def load_task_def ds)
  have df: "defect e = defect (d ?b)" "latency e = latency (d ?b)" by (simp_all add: e_def load_task_def)
  have ce: "e\<lparr>phase := p, busy := 0\<rparr> = c\<lparr>phase := p\<rparr>" for p by (simp add: e_def c_def load_task_def)
  have cc: "media c = media (d ?b)" "latency c = latency (d ?b)" "slave (c\<lparr>phase := p\<rparr>) = is_slave drive" for p
    using addr(1) by (simp_all add: c_def e_def load_task_def slave_def)
  have cu: "c\<lparr>phase := Idle, media := m, busy := 0\<rparr> = c\<lparr>phase := Idle, media := m\<rparr>" for m by (simp add: c_def load_task_def)
  have cx: "x\<lparr>media := m, phase := p, busy := n\<rparr> = x\<lparr>phase := p, busy := n, media := m\<rparr>" for x :: ata_channel and m p n by simp
  have cmd: "ata_command 0x30 e = e\<lparr>phase := (if bad_sector drive d lba then Failed else Data_Out (unat lba mod 2 ^ 28)), busy := latency (d ?b)\<rparr>"
    by (simp add: ata_command_def addr df bad_sector_def)
  let ?m = "(media c)(is_slave drive := (media c (is_slave drive))
       (unat lba mod 2 ^ 28 := (\<lambda>i. if i < 512 then buf i else sector drive d lba i)))"
  let ?d1 = "d(?b := ata_command 0x30 e)" and ?d2 = "d(?b := c\<lparr>phase := Data_Out (unat lba mod 2 ^ 28)\<rparr>)"
    and ?d3 = "d(?b := c\<lparr>phase := Idle, media := ?m\<rparr>)"
  have wait: "ide_wait_ready drive False (d(?b := c\<lparr>phase := Idle, busy := latency (d ?b), media := ?m\<rparr>)) = Some (True, ?d3)"
    using lat by (subst ide_wait_ready_spec [OF inv]) (simp_all add: cu)
  have flush: "outb (ide_reg (channel_of drive) 7) 0xE7 ?d3 = d(?b := c\<lparr>phase := Idle, busy := latency (d ?b), media := ?m\<rparr>)"
    by (simp add: port_simps ata_out_def ata_command_def cc cx)
  have start: "ide_write_sector drive lba buf d =
    Option.bind (ide_wait_ready drive True ?d1) (\<lambda>(ok, d). if \<not> ok then Some (False, d)
     else Option.bind (ide_wait_ready drive False (outsw (ide_reg (channel_of drive) 0) buf 256 d)) (\<lambda>(ok, d).
       if \<not> ok then Some (False, d)
       else Option.bind (ide_wait_ready drive False (outb (ide_reg (channel_of drive) 7) 0xE7 d)) (\<lambda>(ok, d).
         if \<not> ok then Some (False, d) else ide_wait_ready drive False (outb (ide_reg (channel_of drive) 7) 0xE7 d))))"
    by (simp add: ide_write_sector_def ide_get_channel_eq inv ide_send_control_spec port_simps ide_select_drive_delay_spec
        ata_out_def Let_def e cong: if_cong)
  have w1: "ide_wait_ready drive True ?d1 = Some (\<not> bad_sector drive d lba, if bad_sector drive d lba then d(?b := c\<lparr>phase := Failed\<rparr>) else ?d2)"
    using lat by (subst ide_wait_ready_spec [OF inv]) (simp_all add: cmd ce)
  have o: "outsw (ide_reg (channel_of drive) 0) buf 256 ?d2 = d(?b := c\<lparr>phase := Idle, busy := latency (d ?b), media := ?m\<rparr>)"
    by (simp add: outsw_def port_simps Let_def cc sector_def cong: if_cong)
  show ?thesis
  proof (cases "bad_sector drive d lba")
    case True
    then show ?thesis unfolding start w1 by simp
  next
    case False
    then show ?thesis unfolding start w1 by (simp only: o wait flush Option.bind.simps prod.case simp_thms if_True if_False refl)
  qed
qed

lemma ide_read_spec:
  assumes ok: "ide_ok drive d"
  obtains d' where "ide_read_sector drive lba buf d =
      Some (\<not> bad_sector drive d lba, \<lambda>i. if \<not> bad_sector drive d lba \<and> i < 512 then sector drive d lba i else buf i, d')"
    and "same_media d d'"
proof -
  let ?c = "load_task drive lba ((d (base_of drive))\<lparr>busy := 0\<rparr>)"
  show thesis
    by (rule that [of "d(base_of drive := ?c\<lparr>phase := if bad_sector drive d lba then Failed else Idle\<rparr>)"])
      (simp_all add: ide_read_sector_unfold [OF ok] same_media_def load_task_def)
qed

text \<open>
  \<open>written drive lba buf d d'\<close>: the drives of \<open>d'\<close> are those of \<open>d\<close> with one sector replaced.
\<close>

definition written :: "IdeDrive \<Rightarrow> u32 \<Rightarrow> bytes \<Rightarrow> ide \<Rightarrow> ide \<Rightarrow> bool" where
  "written drive lba buf d d' \<longleftrightarrow>
     (\<forall>r. r \<noteq> INVALID \<longrightarrow> bad_sector r d' = bad_sector r d \<and> (ide_ok r d' \<longleftrightarrow> ide_ok r d) \<and>
        (\<forall>l i. sector r d' l i = (if r = drive \<and> unat l mod 2 ^ 28 = unat lba mod 2 ^ 28 \<and> i < 512 then buf i else sector r d l i)))"

lemma drive_eq:
  "r \<noteq> INVALID \<Longrightarrow> q \<noteq> INVALID \<Longrightarrow> base_of r = base_of q \<and> is_slave r = is_slave q \<longleftrightarrow> r = q"
  by (cases r; cases q) (simp_all add: base_of_def is_slave_def)

lemma ide_write_spec:
  assumes ok: "ide_ok drive d"
  obtains d' where "ide_write_sector drive lba buf d = Some (\<not> bad_sector drive d lba, d')"
    and "if bad_sector drive d lba then same_media d d' else written drive lba buf d d'"
proof -
  let ?c = "load_task drive lba ((d (base_of drive))\<lparr>busy := 0\<rparr>)"
  have inv: "drive \<noteq> INVALID" using ok by (simp add: ide_ok_def)
  show thesis
  proof (cases "bad_sector drive d lba")
    case True
    then show thesis
      by (intro that [of "d(base_of drive := ?c\<lparr>phase := Failed\<rparr>)"])
        (simp_all add: ide_write_sector_unfold [OF ok] same_media_def load_task_def)
  next
    case False
    let ?d = "d(base_of drive := ?c\<lparr>phase := Idle, media := (media ?c)(is_slave drive := (media ?c (is_slave drive))
       (unat lba mod 2 ^ 28 := (\<lambda>i. if i < 512 then buf i else sector drive d lba i)))\<rparr>)"
    have "written drive lba buf d ?d"
      unfolding written_def
    proof (intro allI impI conjI)
      fix r l i assume r: "r \<noteq> INVALID"
      show "bad_sector r ?d = bad_sector r d" "ide_ok r ?d = ide_ok r d"
        by (auto simp: bad_sector_def ide_ok_def load_task_def fun_eq_iff)
      show "sector r ?d l i = (if r = drive \<and> unat l mod 2 ^ 28 = unat lba mod 2 ^ 28 \<and> i < 512 then buf i else sector r d l i)"
        using drive_eq [OF r inv] by (auto simp: sector_def load_task_def)
    qed
    then show thesis using False
      by (intro that [of ?d]) (simp_all only: ide_write_sector_unfold [OF ok] if_False simp_thms)
  qed
qed

section \<open>Property\<close>

text \<open>
  \<^bold>\<open>C16\<close>: The IDE driver (disk_driver.cpp).  On a drive that answers within the retry limit,
  \<^verbatim>\<open>ide_read_sector\<close> fails exactly on a sector that the drive cannot access and otherwise
  delivers its 512 bytes and changes no drive.  \<^verbatim>\<open>ide_write_sector\<close> fails exactly there too, and
  otherwise replaces exactly that sector of exactly that drive; reading it back then returns what was
  written.
\<close>

theorem ide_sector_io:
  assumes ok: "ide_ok drive d"
  shows "(\<exists>d'. ide_read_sector drive lba buf d =
        Some (\<not> bad_sector drive d lba, \<lambda>i. if \<not> bad_sector drive d lba \<and> i < 512 then sector drive d lba i else buf i, d') \<and>
        same_media d d') \<and>
    (\<exists>d'. ide_write_sector drive lba buf d = Some (\<not> bad_sector drive d lba, d') \<and>
       (if bad_sector drive d lba then same_media d d'
        else written drive lba buf d d' \<and>
          (\<forall>buf'. \<exists>d''. ide_read_sector drive lba buf' d' = Some (True, \<lambda>i. if i < 512 then buf i else buf' i, d''))))"
proof
  show "\<exists>d'. ide_read_sector drive lba buf d =
        Some (\<not> bad_sector drive d lba, \<lambda>i. if \<not> bad_sector drive d lba \<and> i < 512 then sector drive d lba i else buf i, d') \<and>
        same_media d d'"
    by (rule ide_read_spec [OF ok, of lba buf]) blast
  obtain d' where w: "ide_write_sector drive lba buf d = Some (\<not> bad_sector drive d lba, d')"
    and eff: "if bad_sector drive d lba then same_media d d' else written drive lba buf d d'"
    by (rule ide_write_spec [OF ok])
  have "\<exists>d''. ide_read_sector drive lba buf' d' = Some (True, \<lambda>i. if i < 512 then buf i else buf' i, d'')"
    if good: "\<not> bad_sector drive d lba" for buf'
  proof -
    have wr: "written drive lba buf d d'" using eff good by simp
    then have ok': "ide_ok drive d'" and b: "\<not> bad_sector drive d' lba" and
      sec: "\<And>i. i < 512 \<Longrightarrow> sector drive d' lba i = buf i"
      using ok good by (auto simp: written_def ide_ok_def)
    show ?thesis by (rule ide_read_spec [OF ok', of lba buf']) (use b sec in \<open>auto simp: fun_eq_iff cong: if_cong\<close>)
  qed
  then show "\<exists>d'. ide_write_sector drive lba buf d = Some (\<not> bad_sector drive d lba, d') \<and>
       (if bad_sector drive d lba then same_media d d'
        else written drive lba buf d d' \<and>
          (\<forall>buf'. \<exists>d''. ide_read_sector drive lba buf' d' = Some (True, \<lambda>i. if i < 512 then buf i else buf' i, d'')))"
    using w eff by (intro exI [of _ d']) simp
qed

definition blank_channel :: ata_channel where
  "blank_channel = \<lparr>reg_count = 0, reg_lba_low = 0, reg_lba_mid = 0, reg_lba_high = 0, reg_select = 0, phase = Idle, busy = 0,
     latency = 3, defect = (\<lambda>s l. l = 7), media = (\<lambda>s l i. 0)\<rparr>"

theorem ide_sector_io_witness:
  "\<exists>d'. ide_write_sector PrimarySlave 5 (\<lambda>i. 0xab) (\<lambda>_. blank_channel) = Some (True, d') \<and>
     (\<exists>d''. ide_read_sector PrimarySlave 5 (\<lambda>i. 0) d' = Some (True, \<lambda>i. if i < 512 then 0xab else 0, d''))"
proof -
  have "ide_ok PrimarySlave (\<lambda>_. blank_channel)" by (simp add: ide_ok_def blank_channel_def IDE_WAIT_RETRY_def)
  moreover have "\<not> bad_sector PrimarySlave (\<lambda>_. blank_channel) 5" by (simp add: bad_sector_def blank_channel_def)
  ultimately show ?thesis using ide_sector_io [of PrimarySlave "\<lambda>_. blank_channel" 5 "\<lambda>i. 0xab"] by auto
qed

end
