(* ===== verification/Fat12_State.thy ===== *)
theory Fat12_State
  imports Fat12_Entry Ide_Disk Memory_Manager
begin

text \<open>
  The state of a mounted FAT12 file system and its lower half: the inode pool
  (\<^verbatim>\<open>fat12_inode_pool.cpp\<close>), the cluster cache, the allocation table on disk and in memory
  (\<^verbatim>\<open>fat12_fs.cpp\<close>).  Operations return \<^const>\<open>None\<close> when the kernel stops in an
  assertion or panic or a loop never ends.  An operation is one step and the flag of interrupts is not part of
  the state.  The code runs the operations that change names, directories and descriptors with interrupts off; the transfers
  \<^verbatim>\<open>FAT12_FS::read\<close> and \<^verbatim>\<open>write\<close> do not disable them (see the findings), so for these the model describes a
  transfer that is not interrupted by another one.  The table in memory is a function of the cluster number; in the
  code it is an array of 4096 entries.
\<close>

section \<open>Inode pool\<close>

record fat12_inode_pool =
  ip_bitmap :: BitMap
  inodes :: "nat \<Rightarrow> fat12_inode"
  inodes_addr :: u32
  node_count :: u32
  total_pages :: u32

definition SIZEOF_INODE :: u32 where "SIZEOF_INODE = 32"

definition inode_pool_initialize :: "u32 \<Rightarrow> fat12_inode_pool \<Rightarrow> MM \<Rightarrow> (bool \<times> fat12_inode_pool \<times> MM) option" where
  "inode_pool_initialize total_inode p s = do {
     let inodes_total_bytes = total_inode * SIZEOF_INODE;
     let bitmap_total_bytes = (total_inode + 7) div 8;
     let p = p\<lparr>node_count := total_inode,
               total_pages := (inodes_total_bytes + bitmap_total_bytes + PAGE_SIZE - 1) div PAGE_SIZE\<rparr>;
     (a, s) \<leftarrow> allocatePagesLazy KERNEL (uint (total_pages p)) VP_RW EMPTY s;
     let p = p\<lparr>inodes_addr := a\<rparr>;
     if a = 0 then Some (False, p, s)
     else Some (True, p\<lparr>inodes := (\<lambda>_. zero_inode), ip_bitmap := BitMap_initialize (\<lambda>_. 0) (uint total_inode)\<rparr>, s)
   }"

definition inode_pool_destroy :: "fat12_inode_pool \<Rightarrow> MM \<Rightarrow> MM option" where
  "inode_pool_destroy p s = do {
     ASSERT (inodes_addr p \<noteq> 0);
     ASSERT (total_pages p \<noteq> 0);
     releasePages KERNEL (inodes_addr p) (uint (total_pages p)) EMPTY s
   }"

text \<open>A pointer into the pool is an index; the null pointer is \<^const>\<open>None\<close>.\<close>

definition inode_pool_allocate :: "fat12_inode_pool \<Rightarrow> (nat option \<times> fat12_inode_pool) option" where
  "inode_pool_allocate p = do {
     (idx, bm) \<leftarrow> BitMap_allocate (ip_bitmap p) 1 False;
     if idx = - 1 then Some (None, p\<lparr>ip_bitmap := bm\<rparr>)
     else Some (Some (nat idx), p\<lparr>ip_bitmap := bm, inodes := (inodes p)(nat idx := zero_inode)\<rparr>)
   }"

definition inode_pool_release :: "nat \<Rightarrow> fat12_inode_pool \<Rightarrow> fat12_inode_pool" where
  "inode_pool_release idx p = p\<lparr>ip_bitmap := BitMap_release idx 1 (ip_bitmap p)\<rparr>"

definition get_inode_cluster :: "fat12_inode_pool \<Rightarrow> u16 \<Rightarrow> nat option" where
  "get_inode_cluster p cluster =
     (if cluster = 0 then None
      else find (\<lambda>i. BitMap_get (ip_bitmap p) i \<and> ino_start_cluster (inodes p i) = cluster) [0..<unat (node_count p)])"

definition get_inode_location :: "fat12_inode_pool \<Rightarrow> fat12_entry_location \<Rightarrow> nat option" where
  "get_inode_location p loc =
     find (\<lambda>i. BitMap_get (ip_bitmap p) i \<and> ino_start_cluster (inodes p i) = 0 \<and>
               location_is_same (location (inodes p i)) loc) [0..<unat (node_count p)]"

section \<open>File system state\<close>

record fat12_cluster_buffer =
  cluster_num :: u16
  last_used_time :: u32
  buf :: bytes
  buf_addr :: u32
  dirty :: bool
  cb_refcount :: int

record fat12_BPB =
  bytes_per_sector :: u16
  sectors_per_cluster :: u8
  reserved_sector_count :: u16
  num_fats :: u8
  root_entry_count :: u16
  total_sectors_16 :: u16
  media_byte :: u8
  fat_size_16 :: u16
  sectors_per_track :: u16
  number_of_heads :: u16
  hidden_sectors :: u32
  total_sectors_32 :: u32

definition FAT12_MAX_CACHE :: nat where "FAT12_MAX_CACHE = 64"
definition FAT12_MAX_CLUSTERS :: nat where "FAT12_MAX_CLUSTERS = 4096"
definition FAT12_SECTOR_SIZE :: nat where "FAT12_SECTOR_SIZE = 512"
definition FAT12_MAX_INODES :: u32 where "FAT12_MAX_INODES = 256"

text \<open>
  \<open>this\<close> is the address of the object, which inodes refer to; \<open>disks\<close> is the hardware behind the
  driver.
\<close>

record FAT12_FS =
  this :: nat
  cache_pool :: "nat \<Rightarrow> fat12_cluster_buffer"
  inodepool :: fat12_inode_pool
  root_dir :: "nat \<Rightarrow> fat12_normalized_entry"
  root_dir_addr :: u32
  root_dir_dirty :: bool
  tmp_sector_buffer :: bytes
  bpb :: fat12_BPB
  access_time :: u32
  fat_table :: "nat \<Rightarrow> u16"
  fat_table_dirty :: bool
  device :: IdeDrive
  fat_start_sector :: u32
  root_start_sector :: u32
  data_start_sector :: u32
  root_sector_count :: u32
  root_entries :: u32
  root_pages :: u32
  cluster_count :: u32
  cluster_size :: u32
  disks :: ide

definition upd_cache :: "nat \<Rightarrow> (fat12_cluster_buffer \<Rightarrow> fat12_cluster_buffer) \<Rightarrow> FAT12_FS \<Rightarrow> FAT12_FS" where
  "upd_cache i f fs = fs\<lparr>cache_pool := (cache_pool fs)(i := f (cache_pool fs i))\<rparr>"

definition upd_inode :: "nat \<Rightarrow> (fat12_inode \<Rightarrow> fat12_inode) \<Rightarrow> FAT12_FS \<Rightarrow> FAT12_FS" where
  "upd_inode i f fs = fs\<lparr>inodepool := (inodepool fs)\<lparr>inodes := (inodes (inodepool fs))(i := f (inodes (inodepool fs) i))\<rparr>\<rparr>"

definition set_fat :: "u16 \<Rightarrow> u16 \<Rightarrow> FAT12_FS \<Rightarrow> FAT12_FS" where
  "set_fat c v fs = fs\<lparr>fat_table := (fat_table fs)(unat c := v)\<rparr>"

definition fat_next :: "FAT12_FS \<Rightarrow> u16 \<Rightarrow> u16" where
  "fat_next fs c = fat_table fs (unat c)"

section \<open>Sectors into and out of buffers\<close>

definition read_at :: "IdeDrive \<Rightarrow> u32 \<Rightarrow> nat \<Rightarrow> bytes \<Rightarrow> ide \<Rightarrow> (bool \<times> bytes \<times> ide) option" where
  "read_at dev lba off b d = do {
     (ok, c, d) \<leftarrow> ide_read_sector dev lba (\<lambda>k. b (off + k)) d;
     Some (ok, \<lambda>k. if off \<le> k then c (k - off) else b k, d)
   }"

definition write_at :: "IdeDrive \<Rightarrow> u32 \<Rightarrow> nat \<Rightarrow> bytes \<Rightarrow> ide \<Rightarrow> (bool \<times> ide) option" where
  "write_at dev lba off b d = ide_write_sector dev lba (\<lambda>k. b (off + k)) d"

fun read_sectors :: "IdeDrive \<Rightarrow> u32 \<Rightarrow> nat \<Rightarrow> nat \<Rightarrow> nat \<Rightarrow> bytes \<Rightarrow> ide \<Rightarrow> (bool \<times> bytes \<times> ide) option" where
  "read_sectors dev lba bps i 0 b d = Some (True, b, d)"
| "read_sectors dev lba bps i (Suc n) b d = do {
     (ok, b, d) \<leftarrow> read_at dev (lba + word_of_nat i) (i * bps) b d;
     if \<not> ok then Some (False, b, d) else read_sectors dev lba bps (i + 1) n b d
   }"

fun write_sectors :: "IdeDrive \<Rightarrow> u32 \<Rightarrow> nat \<Rightarrow> nat \<Rightarrow> nat \<Rightarrow> bytes \<Rightarrow> ide \<Rightarrow> (bool \<times> ide) option" where
  "write_sectors dev lba bps i 0 b d = Some (True, d)"
| "write_sectors dev lba bps i (Suc n) b d = do {
     (ok, d) \<leftarrow> write_at dev (lba + word_of_nat i) (i * bps) b d;
     if \<not> ok then Some (False, d) else write_sectors dev lba bps (i + 1) n b d
   }"

section \<open>Cluster cache\<close>

definition cluster2sector :: "FAT12_FS \<Rightarrow> u16 \<Rightarrow> u32 option" where
  "cluster2sector fs cluster = do {
     ASSERT (2 \<le> cluster);
     ASSERT (data_start_sector fs \<noteq> 0);
     ASSERT (sectors_per_cluster (bpb fs) \<noteq> 0);
     Some (data_start_sector fs + (ucast cluster - 2) * ucast (sectors_per_cluster (bpb fs)))
   }"

definition read_cluster :: "nat \<Rightarrow> FAT12_FS \<Rightarrow> (bool \<times> FAT12_FS) option" where
  "read_cluster i fs = do {
     let fs = upd_cache i (\<lambda>c. c\<lparr>last_used_time := access_time fs\<rparr>) fs;
     let fs = fs\<lparr>access_time := access_time fs + 1\<rparr>;
     sector \<leftarrow> cluster2sector fs (cluster_num (cache_pool fs i));
     (ok, b, d) \<leftarrow> read_sectors (device fs) sector (unat (bytes_per_sector (bpb fs))) 0 (unat (sectors_per_cluster (bpb fs)))
        (buf (cache_pool fs i)) (disks fs);
     let fs = upd_cache i (\<lambda>c. c\<lparr>buf := b\<rparr>) (fs\<lparr>disks := d\<rparr>);
     Some (ok, if ok then upd_cache i (\<lambda>c. c\<lparr>dirty := False\<rparr>) fs else fs)
   }"

definition write_cluster :: "nat \<Rightarrow> FAT12_FS \<Rightarrow> (bool \<times> FAT12_FS) option" where
  "write_cluster i fs = do {
     let fs = upd_cache i (\<lambda>c. c\<lparr>last_used_time := access_time fs\<rparr>) fs;
     let fs = fs\<lparr>access_time := access_time fs + 1\<rparr>;
     if \<not> dirty (cache_pool fs i) then Some (True, fs)
     else do {
       sector \<leftarrow> cluster2sector fs (cluster_num (cache_pool fs i));
       (ok, d) \<leftarrow> write_sectors (device fs) sector (unat (bytes_per_sector (bpb fs))) 0 (unat (sectors_per_cluster (bpb fs)))
          (buf (cache_pool fs i)) (disks fs);
       let fs = fs\<lparr>disks := d\<rparr>;
       Some (ok, if ok then upd_cache i (\<lambda>c. c\<lparr>dirty := False\<rparr>) fs else fs)
     }
   }"

definition find_cache :: "FAT12_FS \<Rightarrow> u16 \<Rightarrow> nat option" where
  "find_cache fs cluster = find (\<lambda>i. cluster_num (cache_pool fs i) = cluster) [0..<FAT12_MAX_CACHE]"

definition get_cache :: "u16 \<Rightarrow> FAT12_FS \<Rightarrow> (nat option \<times> FAT12_FS) option" where
  "get_cache cluster fs =
     (if cluster < 2 \<or> 0xFF0 \<le> cluster then Some (None, fs)
      else case find_cache fs cluster of
        Some i \<Rightarrow> Some (Some i, upd_cache i (\<lambda>c. c\<lparr>cb_refcount := cb_refcount c + 1\<rparr>) fs)
      | None \<Rightarrow>
          (case find (\<lambda>i. cb_refcount (cache_pool fs i) = 0) [0..<FAT12_MAX_CACHE] of
             Some i \<Rightarrow> do {
               let fs = upd_cache i (\<lambda>c. c\<lparr>cluster_num := cluster, cb_refcount := 1, dirty := False,
                          last_used_time := access_time fs\<rparr>) fs;
               (ok, fs) \<leftarrow> read_cluster i fs;
               ASSERT ok;
               Some (Some i, fs)
             }
           | None \<Rightarrow> Some (None, fs)))"

definition release_cache :: "nat \<Rightarrow> FAT12_FS \<Rightarrow> FAT12_FS option" where
  "release_cache i fs =
     (if cb_refcount (cache_pool fs i) \<le> 0 then Some fs
      else do {
        let fs = upd_cache i (\<lambda>c. c\<lparr>cb_refcount := cb_refcount c - 1\<rparr>) fs;
        if cb_refcount (cache_pool fs i) \<le> 0 \<and> dirty (cache_pool fs i) then do {
          (ok, fs) \<leftarrow> write_cluster i fs;
          ASSERT ok;
          Some (upd_cache i (\<lambda>c. c\<lparr>dirty := False\<rparr>) fs)
        }
        else Some fs
      })"

definition flush_cache :: "u16 \<Rightarrow> FAT12_FS \<Rightarrow> (bool \<times> FAT12_FS) option" where
  "flush_cache cluster fs = (case find_cache fs cluster of Some i \<Rightarrow> write_cluster i fs | None \<Rightarrow> Some (True, fs))"

fun flush_from :: "nat \<Rightarrow> nat \<Rightarrow> FAT12_FS \<Rightarrow> (bool \<times> FAT12_FS) option" where
  "flush_from i 0 fs = Some (True, fs)"
| "flush_from i (Suc n) fs = do {
     (ok, fs) \<leftarrow> write_cluster i fs;
     (res, fs) \<leftarrow> flush_from (i + 1) n fs;
     Some (ok \<and> res, fs)
   }"

definition flush_all_cache :: "FAT12_FS \<Rightarrow> (bool \<times> FAT12_FS) option" where
  "flush_all_cache fs = flush_from 0 FAT12_MAX_CACHE fs"

section \<open>Allocation table\<close>

text \<open>An entry is twelve bits: even ones start at a byte, odd ones in the middle of a byte.\<close>

definition fat_value :: "nat \<Rightarrow> u8 \<Rightarrow> u8 \<Rightarrow> u16" where
  "fat_value idx a b =
     (if idx mod 2 = 0 then ucast a OR push_bit 8 (ucast (b AND 0x0F)) else ucast (drop_bit 4 a) OR push_bit 4 (ucast b))"

definition unpack_entry :: "bytes \<Rightarrow> nat \<Rightarrow> nat \<Rightarrow> (nat \<Rightarrow> u16) \<Rightarrow> nat \<Rightarrow> u16" where
  "unpack_entry tmp idx j fat = fat(idx + j := fat_value (idx + j) (tmp (j + j div 2)) (tmp (j + j div 2 + 1)))"

definition read_tmp :: "u32 \<Rightarrow> nat \<Rightarrow> FAT12_FS \<Rightarrow> (bool \<times> FAT12_FS) option" where
  "read_tmp lba off fs = do {
     (ok, b, d) \<leftarrow> read_at (device fs) lba off (tmp_sector_buffer fs) (disks fs);
     Some (ok, fs\<lparr>tmp_sector_buffer := b, disks := d\<rparr>)
   }"

definition write_tmp :: "u32 \<Rightarrow> nat \<Rightarrow> FAT12_FS \<Rightarrow> (bool \<times> FAT12_FS) option" where
  "write_tmp lba off fs = do {
     (ok, d) \<leftarrow> write_at (device fs) lba off (tmp_sector_buffer fs) (disks fs);
     Some (ok, fs\<lparr>disks := d\<rparr>)
   }"

text \<open>The first loop: three sectors at a time; \<open>i\<close> is the sector, \<open>idx\<close> the next table index.\<close>

fun read_fat_groups :: "u32 \<Rightarrow> nat \<Rightarrow> nat \<Rightarrow> nat \<Rightarrow> FAT12_FS \<Rightarrow> (bool \<times> nat \<times> FAT12_FS) option" where
  "read_fat_groups start i idx 0 fs = Some (True, idx, fs)"
| "read_fat_groups start i idx (Suc n) fs = do {
     (r1, fs) \<leftarrow> read_tmp (word_of_nat i + start) 0 fs;
     (r2, fs) \<leftarrow> read_tmp (word_of_nat (i + 1) + start) FAT12_SECTOR_SIZE fs;
     (r3, fs) \<leftarrow> read_tmp (word_of_nat (i + 2) + start) (FAT12_SECTOR_SIZE * 2) fs;
     if \<not> (r1 \<and> r2 \<and> r3) then Some (False, idx, fs)
     else do {
       let n' = unat (bytes_per_sector (bpb fs)) div 2;
       let fs = fs\<lparr>fat_table := fold (unpack_entry (tmp_sector_buffer fs) idx) [0..<n'] (fat_table fs)\<rparr>;
       read_fat_groups start (i + 3) (idx + n') n fs
     }
   }"

fun read_fat_rest :: "u32 \<Rightarrow> nat \<Rightarrow> nat \<Rightarrow> nat \<Rightarrow> FAT12_FS \<Rightarrow> (bool \<times> FAT12_FS) option" where
  "read_fat_rest start i idx 0 fs = Some (True, fs)"
| "read_fat_rest start i idx (Suc n) fs = do {
     (ok, fs) \<leftarrow> read_tmp (word_of_nat i + start) 0 fs;
     let n' = unat (bytes_per_sector (bpb fs)) * 8 div 12;
     let fs = fs\<lparr>fat_table := fold (unpack_entry (tmp_sector_buffer fs) idx) [0..<n'] (fat_table fs)\<rparr>;
     (res, fs) \<leftarrow> read_fat_rest start (i + 1) (idx + n') n fs;
     Some (ok \<and> res, fs)
   }"

definition read_fat_table :: "FAT12_FS \<Rightarrow> (bool \<times> FAT12_FS) option" where
  "read_fat_table fs = do {
     let total_fat_sectors = unat (fat_size_16 (bpb fs));
     let start = ucast (reserved_sector_count (bpb fs));
     let first_part = total_fat_sectors - total_fat_sectors mod 3;
     (res, idx, fs) \<leftarrow> read_fat_groups start 0 0 (first_part div 3) fs;
     if \<not> res then Some (False, fs)
     else read_fat_rest start first_part idx (total_fat_sectors - first_part) fs
   }"

definition pack_entry :: "(nat \<Rightarrow> u16) \<Rightarrow> nat \<Rightarrow> nat \<Rightarrow> bytes \<Rightarrow> bytes" where
  "pack_entry fat idx j tmp =
     (let off = j + j div 2; v = fat (idx + j)
      in if (idx + j) mod 2 = 0
         then tmp(off := ucast (v AND 0xFF), off + 1 := (tmp (off + 1) AND 0xF0) OR ucast (drop_bit 8 v AND 0x0F))
         else tmp(off := (tmp off AND 0x0F) OR ucast (push_bit 4 v AND 0xF0), off + 1 := ucast (drop_bit 4 v AND 0xFF)))"

fun flush_fat_groups :: "u32 \<Rightarrow> nat \<Rightarrow> nat \<Rightarrow> nat \<Rightarrow> FAT12_FS \<Rightarrow> (bool \<times> FAT12_FS) option" where
  "flush_fat_groups start i idx 0 fs = Some (True, fs)"
| "flush_fat_groups start i idx (Suc n) fs = do {
     let fs = fs\<lparr>tmp_sector_buffer := fold (pack_entry (fat_table fs) idx) [0..<1024] (tmp_sector_buffer fs)\<rparr>;
     (r1, fs) \<leftarrow> write_tmp (word_of_nat i + start) 0 fs;
     (r2, fs) \<leftarrow> write_tmp (word_of_nat (i + 1) + start) FAT12_SECTOR_SIZE fs;
     (r3, fs) \<leftarrow> write_tmp (word_of_nat (i + 2) + start) (FAT12_SECTOR_SIZE * 2) fs;
     if \<not> (r1 \<and> r2 \<and> r3) then Some (False, fs)
     else flush_fat_groups start (i + 3) (idx + 1024) n fs
   }"

definition flush_fat_table :: "FAT12_FS \<Rightarrow> (bool \<times> FAT12_FS) option" where
  "flush_fat_table fs =
     (let total_fat_sectors = unat (fat_size_16 (bpb fs))
      in flush_fat_groups (ucast (reserved_sector_count (bpb fs))) 0 0 ((total_fat_sectors + 2) div 3) fs)"

definition allocate_cluster :: "FAT12_FS \<Rightarrow> u16" where
  "allocate_cluster fs =
     (case find (\<lambda>i. fat_table fs i = 0) [2..<unat (cluster_count fs)] of Some i \<Rightarrow> word_of_nat i | None \<Rightarrow> 0)"

definition free_cluster :: "u16 \<Rightarrow> FAT12_FS \<Rightarrow> FAT12_FS" where
  "free_cluster c fs = set_fat c 0 fs"

end
