(* ===== verification/Fat12_Table.thy ===== *)
theory Fat12_Table
  imports Fat12_State
begin

text \<open>
  The allocation table of a FAT12 volume: packing and unpacking of twelve-bit entries, what
  \<^verbatim>\<open>flush_fat_table\<close> puts on the disk and what \<^verbatim>\<open>read_fat_table\<close> takes from it.
\<close>

section \<open>Twelve-bit entries\<close>

lemma fat_masks:
  "(0xFF :: u16) = mask 8" "(0x0F :: u16) = mask 4" "(0xF0 :: u16) = push_bit 4 (mask 4)"
  "(0x0F :: u8) = mask 4" "(0xF0 :: u8) = push_bit 4 (mask 4)"
  by (simp_all add: mask_eq_exp_minus_1)

lemmas fat_bits = bit_or_iff bit_and_iff bit_push_bit_iff bit_drop_bit_eq bit_mask_iff bit_ucast_iff

lemma twelve_bits: "v < 0x1000 \<Longrightarrow> bit v n \<Longrightarrow> n < 12" for v :: u16
proof -
  assume "v < 0x1000" "bit v n"
  then have "unat v < 2 ^ 12" by (simp add: word_less_nat_alt)
  then have "take_bit 12 (unat v) = unat v" by (simp add: take_bit_nat_eq_self_iff)
  then have "take_bit 12 v = v" by (metis unsigned_take_bit_eq unsigned_word_eqI)
  then show "n < 12" using \<open>bit v n\<close> by (metis bit_take_bit_iff)
qed

lemma word16_eqI:
  fixes a b :: u16
  assumes "\<And>n. n \<in> {0, 1, 2, 3, 4, 5, 6, 7, 8, 9, 10, 11, 12, 13, 14, 15} \<Longrightarrow> bit a n = bit b n"
  shows "a = b"
proof (rule bit_word_eqI)
  fix n assume "n < LENGTH(16)"
  then have "n < 16" by simp
  then have "n \<in> {0, 1, 2, 3, 4, 5, 6, 7, 8, 9, 10, 11, 12, 13, 14, 15}" by (simp only: insert_iff empty_iff) presburger
  then show "bit a n = bit b n" by (rule assms)
qed

lemma no_bit8: "8 \<le> n \<Longrightarrow> \<not> bit a n" for a :: u8
  using bit_imp_le_length [of a n] by auto

lemma fat_value_pack:
  assumes v: "v < 0x1000"
  shows "i mod 2 = 0 \<Longrightarrow> fat_value i (ucast (v AND 0xFF)) ((x AND 0xF0) OR ucast (drop_bit 8 v AND 0x0F)) = v"
    and "i mod 2 \<noteq> 0 \<Longrightarrow> fat_value i ((x AND 0x0F) OR ucast (push_bit 4 v AND 0xF0)) (ucast (drop_bit 4 v AND 0xFF)) = v"
    and "i mod 2 = 0 \<Longrightarrow> fat_value i a ((b AND 0x0F) OR ucast (push_bit 4 v AND 0xF0)) = fat_value i a b"
proof -
  have hi: "\<not> bit v 12" "\<not> bit v 13" "\<not> bit v 14" "\<not> bit v 15" using twelve_bits [OF v] by force+
  show "i mod 2 = 0 \<Longrightarrow> fat_value i (ucast (v AND 0xFF)) ((x AND 0xF0) OR ucast (drop_bit 8 v AND 0x0F)) = v"
    unfolding fat_value_def fat_masks
    by (rule word16_eqI, elim insertE emptyE) (simp_all add: fat_bits hi)
  show "i mod 2 \<noteq> 0 \<Longrightarrow> fat_value i ((x AND 0x0F) OR ucast (push_bit 4 v AND 0xF0)) (ucast (drop_bit 4 v AND 0xFF)) = v"
    unfolding fat_value_def fat_masks
    by (rule word16_eqI, elim insertE emptyE) (simp_all add: fat_bits hi)
  show "i mod 2 = 0 \<Longrightarrow> fat_value i a ((b AND 0x0F) OR ucast (push_bit 4 v AND 0xF0)) = fat_value i a b"
    unfolding fat_value_def fat_masks
    by (rule word16_eqI, elim insertE emptyE) (simp_all add: fat_bits hi)
qed

lemma fat_value_less: "fat_value i a b < 0x1000"
proof -
  have "take_bit 12 (fat_value i a b) = fat_value i a b"
    unfolding fat_value_def fat_masks
    by (rule word16_eqI, elim insertE emptyE) (simp_all add: bit_take_bit_iff fat_bits no_bit8)
  then have "unat (fat_value i a b) = take_bit 12 (unat (fat_value i a b))" by (metis unsigned_take_bit_eq)
  then have "unat (fat_value i a b) < 2 ^ 12" by (metis take_bit_nat_less_exp)
  then show ?thesis by (simp add: word_less_nat_alt)
qed

lemma fat_value_parity: "i mod 2 = j mod 2 \<Longrightarrow> fat_value i = fat_value j"
  by (simp add: fat_value_def fun_eq_iff)

definition entry_at :: "bytes \<Rightarrow> nat \<Rightarrow> u16" where
  "entry_at b n = fat_value n (b (n + n div 2)) (b (n + n div 2 + 1))"

lemma shared_parity:
  fixes j n :: nat
  assumes "j + j div 2 + 1 = n + n div 2"
  shows "n mod 2 = 1 \<and> j mod 2 = 0"
proof -
  have "3 * b + q + 1 = 3 * a + r \<Longrightarrow> q < 2 \<Longrightarrow> r < 2 \<Longrightarrow> r = 1 \<and> q = 0" for a b q r :: nat by presburger
  moreover have "3 * (j div 2) + j mod 2 + 1 = 3 * (n div 2) + n mod 2"
    using assms mult_div_mod_eq [of 2 j] mult_div_mod_eq [of 2 n] by linarith
  ultimately show ?thesis by simp
qed

lemma pack_entries:
  assumes "idx mod 2 = 0" and v: "\<forall>j<n. fat (idx + j) < 0x1000"
  shows "\<forall>j<n. fat_value j (fold (pack_entry fat idx) [0..<n] tmp (j + j div 2)) (fold (pack_entry fat idx) [0..<n] tmp (j + j div 2 + 1)) = fat (idx + j)"
  using v
proof (induction n)
  case (Suc n)
  let ?t = "fold (pack_entry fat idx) [0..<n] tmp"
  have step: "fold (pack_entry fat idx) [0..<Suc n] tmp = pack_entry fat idx n ?t" by simp
  have par: "(idx + n) mod 2 = n mod 2" using assms(1) by presburger
  show ?case
  proof (intro allI impI)
    fix j assume "j < Suc n"
    show "fat_value j (fold (pack_entry fat idx) [0..<Suc n] tmp (j + j div 2))
        (fold (pack_entry fat idx) [0..<Suc n] tmp (j + j div 2 + 1)) = fat (idx + j)"
    proof (cases "j = n")
      case True
      have "fat (idx + n) < 0x1000" using Suc.prems by simp
      then show ?thesis unfolding step True by (simp add: pack_entry_def Let_def par fat_value_pack)
    next
      case False
      then have jn: "j < n" using \<open>j < Suc n\<close> by simp
      then have old: "fat_value j (?t (j + j div 2)) (?t (j + j div 2 + 1)) = fat (idx + j)" using Suc by simp
      have lt: "fat (idx + n) < 0x1000" using Suc.prems by simp
      have "j + j div 2 + 1 \<le> n + n div 2" using jn by presburger
      then consider (apart) "j + j div 2 + 1 < n + n div 2" | (shared) "j + j div 2 + 1 = n + n div 2" by linarith
      then show ?thesis
      proof cases
        case apart
        then show ?thesis unfolding step using old by (simp add: pack_entry_def Let_def)
      next
        case shared
        have odd: "n mod 2 \<noteq> 0" "j mod 2 = 0" using shared_parity [OF shared] by simp_all
        have ne: "j + j div 2 \<noteq> n + n div 2" "j + j div 2 \<noteq> n + n div 2 + 1" using shared by linarith+
        have "pack_entry fat idx n t k = t k" if "k \<noteq> n + n div 2" "k \<noteq> n + n div 2 + 1" for t k
          using that by (simp add: pack_entry_def Let_def)
        then have "pack_entry fat idx n ?t (j + j div 2) = ?t (j + j div 2)" using ne by blast
        moreover have "pack_entry fat idx n ?t (n + n div 2) = (?t (n + n div 2) AND 0x0F) OR ucast (push_bit 4 (fat (idx + n)) AND 0xF0)"
          using odd(1) by (simp add: pack_entry_def Let_def par)
        ultimately show ?thesis unfolding step shared using old fat_value_pack(3) [OF lt odd(2)] by (simp only: shared)
      qed
    qed
  qed
qed simp

section \<open>One sector to and from the sector buffer\<close>

definition put_sector :: "nat \<Rightarrow> bytes \<Rightarrow> bytes \<Rightarrow> bytes" where
  "put_sector off s t = (\<lambda>k. if off \<le> k \<and> k < off + 512 then s (k - off) else t k)"

lemma read_tmp_spec:
  assumes "ide_ok (device fs) (disks fs)" and "\<not> bad_sector (device fs) (disks fs) lba"
  obtains d' where "read_tmp lba off fs = Some (True, fs\<lparr>tmp_sector_buffer :=
      put_sector off (sector (device fs) (disks fs) lba) (tmp_sector_buffer fs), disks := d'\<rparr>)"
    and "same_media (disks fs) d'"
proof (rule ide_read_spec [OF assms(1), of lba "\<lambda>k. tmp_sector_buffer fs (off + k)"])
  fix d' assume r: "ide_read_sector (device fs) lba (\<lambda>k. tmp_sector_buffer fs (off + k)) (disks fs) =
      Some (\<not> bad_sector (device fs) (disks fs) lba,
        \<lambda>i. if \<not> bad_sector (device fs) (disks fs) lba \<and> i < 512 then sector (device fs) (disks fs) lba i else tmp_sector_buffer fs (off + i), d')"
    and m: "same_media (disks fs) d'"
  have e: "(\<lambda>k. if off \<le> k then (if k - off < 512 then sector (device fs) (disks fs) lba (k - off) else tmp_sector_buffer fs (off + (k - off))) else tmp_sector_buffer fs k) =
     put_sector off (sector (device fs) (disks fs) lba) (tmp_sector_buffer fs)"
    by (rule ext) (auto simp: put_sector_def)
  have "read_at (device fs) lba off (tmp_sector_buffer fs) (disks fs) =
      Some (True, put_sector off (sector (device fs) (disks fs) lba) (tmp_sector_buffer fs), d')"
    unfolding read_at_def r using assms(2) by (simp add: e)
  then show thesis by (intro that [OF _ m]) (simp add: read_tmp_def)
qed

lemma write_tmp_spec:
  assumes "ide_ok (device fs) (disks fs)" and "\<not> bad_sector (device fs) (disks fs) lba"
  obtains d' where "write_tmp lba off fs = Some (True, fs\<lparr>disks := d'\<rparr>)"
    and "written (device fs) lba (\<lambda>k. tmp_sector_buffer fs (off + k)) (disks fs) d'"
proof (rule ide_write_spec [OF assms(1), of lba "\<lambda>k. tmp_sector_buffer fs (off + k)"])
  fix d' assume w: "ide_write_sector (device fs) lba (\<lambda>k. tmp_sector_buffer fs (off + k)) (disks fs) = Some (\<not> bad_sector (device fs) (disks fs) lba, d')"
    and e: "if bad_sector (device fs) (disks fs) lba then same_media (disks fs) d'
      else written (device fs) lba (\<lambda>k. tmp_sector_buffer fs (off + k)) (disks fs) d'"
  have "write_tmp lba off fs = Some (True, fs\<lparr>disks := d'\<rparr>)" using w assms(2) by (simp add: write_tmp_def write_at_def)
  then show thesis by (rule that) (use e assms(2) in simp)
qed

lemma fold_unpack:
  "fold (unpack_entry tmp idx) [0..<n] fat =
    (\<lambda>m. if idx \<le> m \<and> m < idx + n then fat_value m (tmp (m - idx + (m - idx) div 2)) (tmp (m - idx + (m - idx) div 2 + 1)) else fat m)"
  by (induction n) (auto simp: unpack_entry_def fun_eq_iff)

text \<open>The bytes of the drive from sector \<open>start\<close> on, as one run.\<close>

definition run :: "IdeDrive \<Rightarrow> ide \<Rightarrow> u32 \<Rightarrow> bytes" where
  "run dev d start k = sector dev d (word_of_nat (k div 512) + start) (k mod 512)"

lemma run_same: "same_media d d' \<Longrightarrow> run dev d' start = run dev d start"
  by (simp add: run_def fun_eq_iff same_media_sector)

lemma same_media_trans: "same_media d e \<Longrightarrow> same_media e f \<Longrightarrow> same_media d f"
  by (simp add: same_media_def)

lemma read_three:
  assumes ok: "ide_ok (device fs) (disks fs)" and good: "\<forall>k<3. \<not> bad_sector (device fs) (disks fs) (word_of_nat (i + k) + start)"
  obtains fs1 fs2 t d' where "read_tmp (word_of_nat i + start) 0 fs = Some (True, fs1)"
    "read_tmp (word_of_nat (i + 1) + start) FAT12_SECTOR_SIZE fs1 = Some (True, fs2)"
    "read_tmp (word_of_nat (i + 2) + start) (FAT12_SECTOR_SIZE * 2) fs2 = Some (True, fs\<lparr>tmp_sector_buffer := t, disks := d'\<rparr>)"
    "same_media (disks fs) d'" "\<forall>k<1536. t k = run (device fs) (disks fs) start (512 * i + k)"
proof -
  let ?b = "\<lambda>k. sector (device fs) (disks fs) (word_of_nat (i + k) + start)"
  have bad: "\<not> bad_sector (device fs) (disks fs) (word_of_nat i + start)"
      "\<not> bad_sector (device fs) (disks fs) (word_of_nat (i + 1) + start)"
      "\<not> bad_sector (device fs) (disks fs) (word_of_nat (i + 2) + start)"
    using good [rule_format, of 0] good [rule_format, of 1] good [rule_format, of 2] by simp_all
  obtain d1 where r1: "read_tmp (word_of_nat i + start) 0 fs =
      Some (True, fs\<lparr>tmp_sector_buffer := put_sector 0 (sector (device fs) (disks fs) (word_of_nat i + start)) (tmp_sector_buffer fs), disks := d1\<rparr>)"
    and m1: "same_media (disks fs) d1"
    by (rule read_tmp_spec [OF ok bad(1)])
  let ?f1 = "fs\<lparr>tmp_sector_buffer := put_sector 0 (sector (device fs) (disks fs) (word_of_nat i + start)) (tmp_sector_buffer fs), disks := d1\<rparr>"
  obtain d2 where r2: "read_tmp (word_of_nat (i + 1) + start) FAT12_SECTOR_SIZE ?f1 =
      Some (True, ?f1\<lparr>tmp_sector_buffer := put_sector FAT12_SECTOR_SIZE (sector (device ?f1) (disks ?f1) (word_of_nat (i + 1) + start)) (tmp_sector_buffer ?f1), disks := d2\<rparr>)"
    and m2: "same_media (disks ?f1) d2"
    by (rule read_tmp_spec [of ?f1 "word_of_nat (i + 1) + start" FAT12_SECTOR_SIZE]) (use ok bad(2) same_media_sector [OF m1] in simp_all)
  let ?f2 = "?f1\<lparr>tmp_sector_buffer := put_sector FAT12_SECTOR_SIZE (sector (device ?f1) (disks ?f1) (word_of_nat (i + 1) + start)) (tmp_sector_buffer ?f1), disks := d2\<rparr>"
  have m12: "same_media (disks fs) d2" using same_media_trans [OF m1] m2 by simp
  obtain d3 where r3: "read_tmp (word_of_nat (i + 2) + start) (FAT12_SECTOR_SIZE * 2) ?f2 =
      Some (True, ?f2\<lparr>tmp_sector_buffer := put_sector (FAT12_SECTOR_SIZE * 2) (sector (device ?f2) (disks ?f2) (word_of_nat (i + 2) + start)) (tmp_sector_buffer ?f2), disks := d3\<rparr>)"
    and m3: "same_media (disks ?f2) d3"
    by (rule read_tmp_spec [of ?f2 "word_of_nat (i + 2) + start" "FAT12_SECTOR_SIZE * 2"]) (use ok bad(3) same_media_sector [OF m12] in simp_all)
  have sec: "sector (device fs) d1 = sector (device fs) (disks fs)" "sector (device fs) d2 = sector (device fs) (disks fs)"
    using same_media_sector [OF m1] same_media_sector [OF m12] by blast+
  let ?t = "put_sector 1024 (?b 2) (put_sector 512 (?b 1) (put_sector 0 (?b 0) (tmp_sector_buffer fs)))"
  have r3': "read_tmp (word_of_nat (i + 2) + start) (FAT12_SECTOR_SIZE * 2) ?f2 = Some (True, fs\<lparr>tmp_sector_buffer := ?t, disks := d3\<rparr>)"
    using r3 by (simp add: FAT12_SECTOR_SIZE_def sec)
  have "?t k = run (device fs) (disks fs) start (512 * i + k)" if "k < 1536" for k
  proof -
    have d: "(512 * i + k) div 512 = i + k div 512" "(512 * i + k) mod 512 = k mod 512" by simp_all
    consider "k < 512" | "512 \<le> k" "k < 1024" | "1024 \<le> k" "k < 1536" using \<open>k < 1536\<close> by linarith
    then show ?thesis
    proof cases
      case 1
      then show ?thesis unfolding run_def d by (simp add: put_sector_def)
    next
      case 2
      then have "k div 512 = 1" "k mod 512 = k - 512" by (simp_all add: div_nat_eqI le_mod_geq)
      then show ?thesis unfolding run_def d using 2 by (simp add: put_sector_def)
    next
      case 3
      then have "k div 512 = 2" "k mod 512 = k - 1024" by (simp_all add: div_nat_eqI le_mod_geq)
      then show ?thesis unfolding run_def d using 3 by (simp add: put_sector_def)
    qed
  qed
  moreover have "same_media (disks fs) d3" using same_media_trans [OF m12] m3 by simp
  ultimately show thesis by (intro that [OF r1 r2 r3']) blast+
qed

section \<open>Reading the table\<close>

lemma div_mod_group: "m < 256 + 256 * (n::nat) \<Longrightarrow> 256 \<le> m \<Longrightarrow> m div 256 = (m - 256) div 256 + 1 \<and> m mod 256 = (m - 256) mod 256"
  by (simp add: le_div_geq le_mod_geq)

lemma read_fat_groups_spec:
  assumes "ide_ok (device fs) (disks fs)" and "bytes_per_sector (bpb fs) = 512"
    and "\<forall>k<3 * n. \<not> bad_sector (device fs) (disks fs) (word_of_nat (i + k) + start)"
  shows "\<exists>t d'. read_fat_groups start i idx n fs = Some (True, idx + 256 * n, fs\<lparr>tmp_sector_buffer := t, disks := d',
      fat_table := (\<lambda>m. if idx \<le> m \<and> m < idx + 256 * n
        then let q = 512 * i + 1536 * ((m - idx) div 256) + ((m - idx) mod 256 + (m - idx) mod 256 div 2)
          in fat_value m (run (device fs) (disks fs) start q) (run (device fs) (disks fs) start (q + 1))
        else fat_table fs m)\<rparr>) \<and> same_media (disks fs) d'"
  using assms
proof (induction n arbitrary: i idx fs)
  case 0
  have "(\<lambda>m. if idx \<le> m \<and> m < idx then X m else fat_table fs m) = fat_table fs" for X by (rule ext) auto
  then show ?case by (intro exI [of _ "tmp_sector_buffer fs"] exI [of _ "disks fs"]) simp
next
  case (Suc n)
  let ?R = "run (device fs) (disks fs) start"
  have g: "\<forall>k<3. \<not> bad_sector (device fs) (disks fs) (word_of_nat (i + k) + start)" using Suc.prems(3) by simp
  obtain fs1 fs2 t d' where r: "read_tmp (word_of_nat i + start) 0 fs = Some (True, fs1)"
    "read_tmp (word_of_nat (i + 1) + start) FAT12_SECTOR_SIZE fs1 = Some (True, fs2)"
    "read_tmp (word_of_nat (i + 2) + start) (FAT12_SECTOR_SIZE * 2) fs2 = Some (True, fs\<lparr>tmp_sector_buffer := t, disks := d'\<rparr>)"
    and m: "same_media (disks fs) d'" and t: "\<forall>k<1536. t k = ?R (512 * i + k)"
    by (rule read_three [OF Suc.prems(1) g])
  let ?f3 = "fs\<lparr>tmp_sector_buffer := t, disks := d', fat_table := fold (unpack_entry t idx) [0..<256] (fat_table fs)\<rparr>"
  have step: "read_fat_groups start i idx (Suc n) fs = read_fat_groups start (i + 3) (idx + 256) n ?f3"
    using r Suc.prems(2) by simp
  note sm = same_media_sector [OF m, of "device fs"]
  have "\<forall>k<3 * n. \<not> bad_sector (device ?f3) (disks ?f3) (word_of_nat (i + 3 + k) + start)"
  proof (intro allI impI)
    fix k assume "k < 3 * n"
    then have "3 + k < 3 * Suc n" by simp
    then have "\<not> bad_sector (device fs) (disks fs) (word_of_nat (i + (3 + k)) + start)" using Suc.prems(3) by blast
    then show "\<not> bad_sector (device ?f3) (disks ?f3) (word_of_nat (i + 3 + k) + start)" using sm by (simp add: add.assoc)
  qed
  then obtain t2 d2 where ih: "read_fat_groups start (i + 3) (idx + 256) n ?f3 =
      Some (True, idx + 256 + 256 * n, ?f3\<lparr>tmp_sector_buffer := t2, disks := d2,
      fat_table := (\<lambda>m. if idx + 256 \<le> m \<and> m < idx + 256 + 256 * n
        then let q = 512 * (i + 3) + 1536 * ((m - (idx + 256)) div 256) + ((m - (idx + 256)) mod 256 + (m - (idx + 256)) mod 256 div 2)
          in fat_value m (run (device ?f3) (disks ?f3) start q) (run (device ?f3) (disks ?f3) start (q + 1))
        else fat_table ?f3 m)\<rparr>)" "same_media (disks ?f3) d2"
    using Suc.IH [of ?f3 "i + 3" "idx + 256"] Suc.prems(1,2) sm by auto
  have rr: "run (device ?f3) (disks ?f3) start = ?R" using run_same [OF m] by simp
  have tab: "(\<lambda>m. if idx + 256 \<le> m \<and> m < idx + 256 + 256 * n
        then let q = 512 * (i + 3) + 1536 * ((m - (idx + 256)) div 256) + ((m - (idx + 256)) mod 256 + (m - (idx + 256)) mod 256 div 2)
          in fat_value m (?R q) (?R (q + 1)) else fat_table ?f3 m) =
    (\<lambda>m. if idx \<le> m \<and> m < idx + 256 * Suc n
        then let q = 512 * i + 1536 * ((m - idx) div 256) + ((m - idx) mod 256 + (m - idx) mod 256 div 2)
          in fat_value m (?R q) (?R (q + 1)) else fat_table fs m)" (is "?L = ?M")
  proof
    fix m
    consider (low) "m < idx" | (first) "idx \<le> m" "m - idx < 256" | (later) "idx + 256 \<le> m" "m < idx + 256 + 256 * n"
      | (high) "idx + 256 + 256 * n \<le> m" by linarith
    then show "?L m = ?M m"
    proof cases
      case first
      define j where "j = m - idx"
      have m: "m = idx + j" "j < 256" using first by (simp_all add: j_def)
      then have "j + j div 2 + 1 < 1536" by linarith
      then have "t (j + j div 2) = ?R (512 * i + (j + j div 2))" "t (j + j div 2 + 1) = ?R (512 * i + (j + j div 2 + 1))" using t by simp_all
      then show ?thesis unfolding m(1) using m(2) by (simp add: fold_unpack Let_def)
    next
      case later
      have "(m - idx) div 256 = (m - (idx + 256)) div 256 + 1" "(m - idx) mod 256 = (m - (idx + 256)) mod 256"
        using div_mod_group [of "m - idx" n] later by simp_all
      then show ?thesis using later by (simp add: algebra_simps)
    qed (simp_all add: fold_unpack)
  qed
  show ?case
    by (intro exI [of _ t2] exI [of _ d2] conjI)
      (use ih(1) in \<open>simp only: step rr tab, simp\<close>, use same_media_trans [OF m] ih(2) in simp)
qed

section \<open>Writing the table\<close>

text \<open>Two states of the hardware that differ in the given sectors of one drive only.\<close>

definition only_sectors :: "IdeDrive \<Rightarrow> nat set \<Rightarrow> ide \<Rightarrow> ide \<Rightarrow> bool" where
  "only_sectors dev L d d' \<longleftrightarrow>
     (\<forall>r. r \<noteq> INVALID \<longrightarrow> bad_sector r d' = bad_sector r d \<and> (ide_ok r d' \<longleftrightarrow> ide_ok r d) \<and>
        (\<forall>l. r \<noteq> dev \<or> unat l mod 2 ^ 28 \<notin> L \<longrightarrow> sector r d' l = sector r d l))"

lemma only_sectors_trans: "only_sectors dev L d e \<Longrightarrow> only_sectors dev M e f \<Longrightarrow> only_sectors dev (L \<union> M) d f"
  unfolding only_sectors_def by auto

lemma only_sectors_refl [simp]: "only_sectors dev {} d d"
  by (simp add: only_sectors_def)

lemma written_only: "written dev lba b d d' \<Longrightarrow> only_sectors dev {unat lba mod 2 ^ 28} d d'"
  unfolding written_def only_sectors_def by (auto simp: fun_eq_iff)

lemma written_sector: "written dev lba b d d' \<Longrightarrow> dev \<noteq> INVALID \<Longrightarrow> k < 512 \<Longrightarrow> sector dev d' lba k = b k"
  unfolding written_def by simp

lemma only_sectorsD:
  assumes "only_sectors dev L d d'" and "dev \<noteq> INVALID"
  shows "bad_sector dev d' = bad_sector dev d" "ide_ok dev d' \<longleftrightarrow> ide_ok dev d"
    "unat l mod 2 ^ 28 \<notin> L \<Longrightarrow> sector dev d' l = sector dev d l"
  using assms by (auto simp: only_sectors_def)

lemma unat_lba: "i + unat start < 2 ^ 28 \<Longrightarrow> unat (word_of_nat i + start :: u32) mod 2 ^ 28 = i + unat start"
proof -
  assume a: "i + unat start < 2 ^ 28"
  then have i: "unat (word_of_nat i :: u32) = i" by (simp add: unsigned_of_nat take_bit_nat_eq_self_iff)
  have "unat (word_of_nat i + start) = i + unat start"
    using a by (subst unat_add_lem [THEN iffD1]) (simp_all add: i)
  then show ?thesis using a by simp
qed

lemma write_three:
  assumes ok: "ide_ok (device fs) (disks fs)" and good: "\<forall>k<3. \<not> bad_sector (device fs) (disks fs) (word_of_nat (i + k) + start)"
    and small: "i + 2 + unat start < 2 ^ 28"
  obtains fs1 fs2 d' where "write_tmp (word_of_nat i + start) 0 fs = Some (True, fs1)"
    "write_tmp (word_of_nat (i + 1) + start) FAT12_SECTOR_SIZE fs1 = Some (True, fs2)"
    "write_tmp (word_of_nat (i + 2) + start) (FAT12_SECTOR_SIZE * 2) fs2 = Some (True, fs\<lparr>disks := d'\<rparr>)"
    "only_sectors (device fs) {i + unat start..<i + 3 + unat start} (disks fs) d'"
    "\<forall>k<1536. run (device fs) d' start (512 * i + k) = tmp_sector_buffer fs k"
proof -
  let ?dev = "device fs" and ?t = "tmp_sector_buffer fs" and ?l = "\<lambda>k. word_of_nat (i + k) + start :: u32"
  have inv: "?dev \<noteq> INVALID" using ok by (simp add: ide_ok_def)
  have bad: "\<not> bad_sector ?dev (disks fs) (word_of_nat i + start)" "\<not> bad_sector ?dev (disks fs) (?l 1)" "\<not> bad_sector ?dev (disks fs) (?l 2)"
    using good [rule_format, of 0] good [rule_format, of 1] good [rule_format, of 2] by simp_all
  have u: "unat (word_of_nat i + start) mod 2 ^ 28 = i + unat start" "unat (?l 1) mod 2 ^ 28 = i + 1 + unat start"
      "unat (?l 2) mod 2 ^ 28 = i + 2 + unat start"
    using small by (intro unat_lba, linarith)+
  obtain d1 where w1: "write_tmp (word_of_nat i + start) 0 fs = Some (True, fs\<lparr>disks := d1\<rparr>)"
    and e1: "written ?dev (word_of_nat i + start) (\<lambda>k. ?t (0 + k)) (disks fs) d1"
    by (rule write_tmp_spec [OF ok bad(1)])
  note o1 = written_only [OF e1] and d1 = only_sectorsD [OF written_only [OF e1] inv]
  obtain d2 where w2: "write_tmp (?l 1) FAT12_SECTOR_SIZE (fs\<lparr>disks := d1\<rparr>) = Some (True, fs\<lparr>disks := d1\<rparr>\<lparr>disks := d2\<rparr>)"
    and e2: "written (device (fs\<lparr>disks := d1\<rparr>)) (?l 1) (\<lambda>k. tmp_sector_buffer (fs\<lparr>disks := d1\<rparr>) (FAT12_SECTOR_SIZE + k)) (disks (fs\<lparr>disks := d1\<rparr>)) d2"
    by (rule write_tmp_spec [of "fs\<lparr>disks := d1\<rparr>" "?l 1" FAT12_SECTOR_SIZE]) (use ok bad(2) d1 in simp_all)
  have e2': "written ?dev (?l 1) (\<lambda>k. ?t (512 + k)) d1 d2" using e2 by (simp add: FAT12_SECTOR_SIZE_def)
  note o2 = written_only [OF e2'] and d2 = only_sectorsD [OF written_only [OF e2'] inv]
  obtain d3 where w3: "write_tmp (?l 2) (FAT12_SECTOR_SIZE * 2) (fs\<lparr>disks := d2\<rparr>) = Some (True, fs\<lparr>disks := d2\<rparr>\<lparr>disks := d3\<rparr>)"
    and e3: "written (device (fs\<lparr>disks := d2\<rparr>)) (?l 2) (\<lambda>k. tmp_sector_buffer (fs\<lparr>disks := d2\<rparr>) (FAT12_SECTOR_SIZE * 2 + k)) (disks (fs\<lparr>disks := d2\<rparr>)) d3"
    by (rule write_tmp_spec [of "fs\<lparr>disks := d2\<rparr>" "?l 2" "FAT12_SECTOR_SIZE * 2"]) (use ok bad(3) d1 d2 in simp_all)
  have e3': "written ?dev (?l 2) (\<lambda>k. ?t (1024 + k)) d2 d3" using e3 by (simp add: FAT12_SECTOR_SIZE_def)
  note d3 = only_sectorsD [OF written_only [OF e3'] inv]
  have "only_sectors ?dev ({unat (word_of_nat i + start) mod 2 ^ 28} \<union> {unat (?l 1) mod 2 ^ 28} \<union> {unat (?l 2) mod 2 ^ 28}) (disks fs) d3"
    by (rule only_sectors_trans [OF only_sectors_trans [OF o1 o2] written_only [OF e3']])
  moreover have "{i + unat start} \<union> {i + 1 + unat start} \<union> {i + 2 + unat start} = {i + unat start..<i + 3 + unat start}" by auto
  ultimately have only: "only_sectors ?dev {i + unat start..<i + 3 + unat start} (disks fs) d3" by (simp only: u)
  have "run ?dev d3 start (512 * i + k) = ?t k" if "k < 1536" for k
  proof -
    have dm: "(512 * i + k) div 512 = i + k div 512" "(512 * i + k) mod 512 = k mod 512" by simp_all
    consider "k < 512" | "512 \<le> k" "k < 1024" | "1024 \<le> k" "k < 1536" using \<open>k < 1536\<close> by linarith
    then show ?thesis
    proof cases
      case 1
      have "sector ?dev d3 (word_of_nat i + start) = sector ?dev d1 (word_of_nat i + start)" using d3(3) d2(3) u by simp
      then show ?thesis unfolding run_def dm using 1 written_sector [OF e1 inv, of k] by simp
    next
      case 2
      have "sector ?dev d3 (?l 1) = sector ?dev d2 (?l 1)" using d3(3) u by simp
      moreover have "k div 512 = 1" "k mod 512 = k - 512" using 2 by (simp_all add: div_nat_eqI le_mod_geq)
      ultimately show ?thesis unfolding run_def dm using 2 written_sector [OF e2' inv, of "k - 512"] by simp
    next
      case 3
      have "k div 512 = 2" "k mod 512 = k - 1024" using 3 by (simp_all add: div_nat_eqI le_mod_geq)
      then show ?thesis unfolding run_def dm using 3 written_sector [OF e3' inv, of "k - 1024"] by simp
    qed
  qed
  then show thesis using w2 w3 by (intro that [OF w1 _ _ only]) simp_all
qed

lemma flush_fat_groups_spec:
  assumes "ide_ok (device fs) (disks fs)" and "\<forall>k<3 * n. \<not> bad_sector (device fs) (disks fs) (word_of_nat (i + k) + start)"
    and "i + 3 * n + unat start < 2 ^ 28" and "idx mod 2 = 0" and "\<forall>m<1024 * n. fat_table fs (idx + m) < 0x1000"
  shows "\<exists>t d'. flush_fat_groups start i idx n fs = Some (True, fs\<lparr>tmp_sector_buffer := t, disks := d'\<rparr>) \<and>
     only_sectors (device fs) {i + unat start..<i + 3 * n + unat start} (disks fs) d' \<and>
     (\<forall>m<1024 * n. fat_value m (run (device fs) d' start (512 * i + (m + m div 2))) (run (device fs) d' start (512 * i + (m + m div 2) + 1)) =
        fat_table fs (idx + m))"
  using assms
proof (induction n arbitrary: i idx fs)
  case 0
  show ?case by (intro exI [of _ "tmp_sector_buffer fs"] exI [of _ "disks fs"]) simp
next
  case (Suc n)
  let ?t = "fold (pack_entry (fat_table fs) idx) [0..<1024] (tmp_sector_buffer fs)"
  let ?f0 = "fs\<lparr>tmp_sector_buffer := ?t\<rparr>"
  have inv: "device fs \<noteq> INVALID" using Suc.prems(1) by (simp add: ide_ok_def)
  have pk: "fat_value m (?t (m + m div 2)) (?t (m + m div 2 + 1)) = fat_table fs (idx + m)" if "m < 1024" for m
    using pack_entries [OF Suc.prems(4), of 1024 "fat_table fs" "tmp_sector_buffer fs"] Suc.prems(5) that by simp
  obtain fs1 fs2 d1 where w: "write_tmp (word_of_nat i + start) 0 ?f0 = Some (True, fs1)"
    "write_tmp (word_of_nat (i + 1) + start) FAT12_SECTOR_SIZE fs1 = Some (True, fs2)"
    "write_tmp (word_of_nat (i + 2) + start) (FAT12_SECTOR_SIZE * 2) fs2 = Some (True, ?f0\<lparr>disks := d1\<rparr>)"
    and o1: "only_sectors (device ?f0) {i + unat start..<i + 3 + unat start} (disks ?f0) d1"
    and t1: "\<forall>k<1536. run (device ?f0) d1 start (512 * i + k) = tmp_sector_buffer ?f0 k"
    by (rule write_three [of ?f0 i start]) (use Suc.prems in simp_all)
  have o1': "only_sectors (device fs) {i + unat start..<i + 3 + unat start} (disks fs) d1" using o1 by simp
  note p1 = only_sectorsD [OF o1' inv]
  let ?f3 = "fs\<lparr>tmp_sector_buffer := ?t, disks := d1\<rparr>"
  have step: "flush_fat_groups start i idx (Suc n) fs = flush_fat_groups start (i + 3) (idx + 1024) n ?f3"
    using w by simp
  have "\<exists>t d'. flush_fat_groups start (i + 3) (idx + 1024) n ?f3 = Some (True, ?f3\<lparr>tmp_sector_buffer := t, disks := d'\<rparr>) \<and>
     only_sectors (device ?f3) {i + 3 + unat start..<i + 3 + 3 * n + unat start} (disks ?f3) d' \<and>
     (\<forall>m<1024 * n. fat_value m (run (device ?f3) d' start (512 * (i + 3) + (m + m div 2))) (run (device ?f3) d' start (512 * (i + 3) + (m + m div 2) + 1)) =
        fat_table ?f3 (idx + 1024 + m))"
  proof (rule Suc.IH)
    show "\<forall>k<3 * n. \<not> bad_sector (device ?f3) (disks ?f3) (word_of_nat (i + 3 + k) + start)"
    proof (intro allI impI)
      fix k assume "k < 3 * n"
      then have "3 + k < 3 * Suc n" by simp
      then have "\<not> bad_sector (device fs) (disks fs) (word_of_nat (i + (3 + k)) + start)" using Suc.prems(2) by blast
      then show "\<not> bad_sector (device ?f3) (disks ?f3) (word_of_nat (i + 3 + k) + start)" using p1(1) by (simp add: add.assoc)
    qed
    show "\<forall>m<1024 * n. fat_table ?f3 (idx + 1024 + m) < 0x1000"
    proof (intro allI impI)
      fix m assume "m < 1024 * n"
      then have "1024 + m < 1024 * Suc n" by simp
      then have "fat_table fs (idx + (1024 + m)) < 0x1000" using Suc.prems(5) by blast
      then show "fat_table ?f3 (idx + 1024 + m) < 0x1000" by (simp add: add.assoc)
    qed
    show "(idx + 1024) mod 2 = 0" using Suc.prems(4) by presburger
  qed (use Suc.prems p1(2) in simp_all)
  then obtain t d' where f: "flush_fat_groups start (i + 3) (idx + 1024) n ?f3 = Some (True, ?f3\<lparr>tmp_sector_buffer := t, disks := d'\<rparr>)"
    and o2: "only_sectors (device fs) {i + 3 + unat start..<i + 3 + 3 * n + unat start} d1 d'"
    and en: "\<forall>m<1024 * n. fat_value m (run (device fs) d' start (512 * (i + 3) + (m + m div 2))) (run (device fs) d' start (512 * (i + 3) + (m + m div 2) + 1)) =
        fat_table fs (idx + 1024 + m)" by auto
  have keep: "run (device fs) d' start (512 * i + k) = ?t k" if "k < 1536" for k
  proof -
    have "(512 * i + k) div 512 < i + 3" "i \<le> (512 * i + k) div 512" using that by simp_all
    then have "unat (word_of_nat ((512 * i + k) div 512) + start) mod 2 ^ 28 \<notin> {i + 3 + unat start..<i + 3 + 3 * n + unat start}"
      using Suc.prems(3) by (subst unat_lba) simp_all
    then have "run (device fs) d' start (512 * i + k) = run (device fs) d1 start (512 * i + k)"
      using only_sectorsD(3) [OF o2 inv] by (simp add: run_def)
    then show ?thesis using t1 that by simp
  qed
  have "fat_value m (run (device fs) d' start (512 * i + (m + m div 2))) (run (device fs) d' start (512 * i + (m + m div 2) + 1)) =
        fat_table fs (idx + m)" if "m < 1024 * Suc n" for m
  proof (cases "m < 1024")
    case True
    have "m + m div 2 + 1 < 1536" using True by linarith
    then show ?thesis using pk [OF True] keep [of "m + m div 2"] keep [of "m + m div 2 + 1"] by (simp add: add.assoc)
  next
    case False
    define m' where "m' = m - 1024"
    have m: "m = m' + 2 * 512" "m' < 1024 * n" using False that by (simp_all add: m'_def)
    have "m div 2 = m' div 2 + 512" unfolding m(1) by simp
    then have "512 * i + (m + m div 2) = 512 * (i + 3) + (m' + m' div 2)" using m(1) by simp
    moreover have "fat_value m = fat_value m'" unfolding m(1) by (intro fat_value_parity) presburger
    ultimately show ?thesis using en m by (simp add: algebra_simps)
  qed
  moreover have "only_sectors (device fs) {i + unat start..<i + 3 * Suc n + unat start} (disks fs) d'"
  proof -
    have "{i + unat start..<i + 3 + unat start} \<union> {i + 3 + unat start..<i + 3 + 3 * n + unat start} = {i + unat start..<i + 3 * Suc n + unat start}" by auto
    then show ?thesis using only_sectors_trans [OF o1' o2] by simp
  qed
  ultimately show ?case using f step by (intro exI [of _ t] exI [of _ d']) simp
qed

section \<open>Properties\<close>

text \<open>The table as it stands on the disk, in its first copy.\<close>

definition disk_fat :: "FAT12_FS \<Rightarrow> nat \<Rightarrow> u16" where
  "disk_fat fs = entry_at (run (device fs) (disks fs) (ucast (reserved_sector_count (bpb fs))))"

text \<open>A volume whose table is a whole number of three-sector groups and whose drive can access it.\<close>

definition fat_ok :: "nat \<Rightarrow> FAT12_FS \<Rightarrow> bool" where
  "fat_ok g fs \<longleftrightarrow> ide_ok (device fs) (disks fs) \<and> bytes_per_sector (bpb fs) = 512 \<and> unat (fat_size_16 (bpb fs)) = 3 * g \<and>
     (\<forall>k<3 * g. \<not> bad_sector (device fs) (disks fs) (word_of_nat k + ucast (reserved_sector_count (bpb fs))))"

lemma fat_ok_small: "fat_ok g fs \<Longrightarrow> 3 * g + unat (ucast (reserved_sector_count (bpb fs)) :: u32) < 2 ^ 28"
proof -
  assume "fat_ok g fs"
  then have "3 * g < 2 ^ 16" using unat_bound [of "fat_size_16 (bpb fs)"] by (simp add: fat_ok_def)
  moreover have "unat (ucast (reserved_sector_count (bpb fs)) :: u32) < 2 ^ 16"
    using unat_bound [of "reserved_sector_count (bpb fs)"] by (simp add: unsigned_ucast_eq take_bit_nat_eq_self)
  ultimately show ?thesis by simp
qed

lemma flush_fat_table_spec:
  assumes ok: "fat_ok g fs" and v: "\<forall>m<1024 * g. fat_table fs m < 0x1000"
  obtains t d' where "flush_fat_table fs = Some (True, fs\<lparr>tmp_sector_buffer := t, disks := d'\<rparr>)"
    and "\<forall>m<1024 * g. disk_fat (fs\<lparr>tmp_sector_buffer := t, disks := d'\<rparr>) m = fat_table fs m"
    and "fat_ok g (fs\<lparr>tmp_sector_buffer := t, disks := d'\<rparr>)"
    and "only_sectors (device fs) {unat (reserved_sector_count (bpb fs))..<3 * g + unat (reserved_sector_count (bpb fs))} (disks fs) d'"
proof -
  let ?s = "ucast (reserved_sector_count (bpb fs)) :: u32"
  have us: "unat ?s = unat (reserved_sector_count (bpb fs))"
    using unat_bound [of "reserved_sector_count (bpb fs)"] by (simp add: unsigned_ucast_eq take_bit_nat_eq_self)
  have h: "ide_ok (device fs) (disks fs)" "\<forall>k<3 * g. \<not> bad_sector (device fs) (disks fs) (word_of_nat (0 + k) + ?s)"
    "unat (fat_size_16 (bpb fs)) = 3 * g" using ok by (simp_all add: fat_ok_def)
  have "\<exists>t d'. flush_fat_groups ?s 0 0 g fs = Some (True, fs\<lparr>tmp_sector_buffer := t, disks := d'\<rparr>) \<and>
     only_sectors (device fs) {0 + unat ?s..<0 + 3 * g + unat ?s} (disks fs) d' \<and>
     (\<forall>m<1024 * g. fat_value m (run (device fs) d' ?s (512 * 0 + (m + m div 2))) (run (device fs) d' ?s (512 * 0 + (m + m div 2) + 1)) =
        fat_table fs (0 + m))"
    by (rule flush_fat_groups_spec [OF h(1,2)]) (use fat_ok_small [OF ok] v in simp_all)
  then obtain t d' where f: "flush_fat_groups ?s 0 0 g fs = Some (True, fs\<lparr>tmp_sector_buffer := t, disks := d'\<rparr>)"
    and o: "only_sectors (device fs) {unat ?s..<3 * g + unat ?s} (disks fs) d'"
    and e: "\<forall>m<1024 * g. fat_value m (run (device fs) d' ?s (m + m div 2)) (run (device fs) d' ?s (m + m div 2 + 1)) = fat_table fs m"
    by auto
  have inv: "device fs \<noteq> INVALID" using h(1) by (simp add: ide_ok_def)
  have "(3 * g + 2) div 3 = g" by simp
  then have fl: "flush_fat_table fs = Some (True, fs\<lparr>tmp_sector_buffer := t, disks := d'\<rparr>)" using f by (simp add: flush_fat_table_def h(3) Let_def)
  show thesis
  proof (rule that [OF fl])
    show "\<forall>m<1024 * g. disk_fat (fs\<lparr>tmp_sector_buffer := t, disks := d'\<rparr>) m = fat_table fs m"
      using e by (simp add: disk_fat_def entry_at_def)
    show "fat_ok g (fs\<lparr>tmp_sector_buffer := t, disks := d'\<rparr>)"
      using ok only_sectorsD [OF o inv] by (simp add: fat_ok_def)
    show "only_sectors (device fs) {unat (reserved_sector_count (bpb fs))..<3 * g + unat (reserved_sector_count (bpb fs))} (disks fs) d'"
      using o by (simp only: us)
  qed
qed

lemma read_fat_table_spec:
  assumes ok: "fat_ok g fs"
  obtains t d' where "read_fat_table fs = Some (True, fs\<lparr>tmp_sector_buffer := t, disks := d',
      fat_table := (\<lambda>m. if m < 256 * g then disk_fat fs (1024 * (m div 256) + m mod 256) else fat_table fs m)\<rparr>)"
    and "same_media (disks fs) d'"
proof -
  let ?s = "ucast (reserved_sector_count (bpb fs)) :: u32"
  let ?R = "run (device fs) (disks fs) ?s"
  have h: "ide_ok (device fs) (disks fs)" "bytes_per_sector (bpb fs) = 512"
    "\<forall>k<3 * g. \<not> bad_sector (device fs) (disks fs) (word_of_nat (0 + k) + ?s)" "unat (fat_size_16 (bpb fs)) = 3 * g"
    using ok by (simp_all add: fat_ok_def)
  obtain t d' where r: "read_fat_groups ?s 0 0 g fs = Some (True, 0 + 256 * g, fs\<lparr>tmp_sector_buffer := t, disks := d',
      fat_table := (\<lambda>m. if 0 \<le> m \<and> m < 0 + 256 * g
        then let q = 512 * 0 + 1536 * ((m - 0) div 256) + ((m - 0) mod 256 + (m - 0) mod 256 div 2) in fat_value m (?R q) (?R (q + 1))
        else fat_table fs m)\<rparr>)" and sm: "same_media (disks fs) d'"
    using read_fat_groups_spec [OF h(1-3)] by blast
  have q: "1024 * (m div 256) + m mod 256 + (1024 * (m div 256) + m mod 256) div 2 = 1536 * (m div 256) + (m mod 256 + m mod 256 div 2)" for m :: nat
  proof -
    have "1024 * (m div 256) + m mod 256 = 2 * (512 * (m div 256)) + m mod 256" by simp
    then have "(1024 * (m div 256) + m mod 256) div 2 = 512 * (m div 256) + m mod 256 div 2" by (simp only:) simp
    then show ?thesis by simp
  qed
  have "fat_value (1024 * (m div 256) + m mod 256) = fat_value m" for m :: nat
  proof (rule fat_value_parity)
    have "(1024 * (m div 256) + m mod 256) mod 2 = (m mod 256 + 2 * (512 * (m div 256))) mod 2" by (simp add: add.commute)
    also have "\<dots> = m mod 256 mod 2" by (rule mod_mult_self2)
    also have "\<dots> = m mod 2" by (rule mod_mod_cancel) simp
    finally show "(1024 * (m div 256) + m mod 256) mod 2 = m mod 2" .
  qed
  then have "(\<lambda>m. if m < 256 * g then disk_fat fs (1024 * (m div 256) + m mod 256) else fat_table fs m) =
     (\<lambda>m. if 0 \<le> m \<and> m < 0 + 256 * g
        then let q = 512 * 0 + 1536 * ((m - 0) div 256) + ((m - 0) mod 256 + (m - 0) mod 256 div 2) in fat_value m (?R q) (?R (q + 1))
        else fat_table fs m)"
    by (simp add: fun_eq_iff disk_fat_def entry_at_def q Let_def)
  then show thesis using r sm by (intro that [of d' t]) (simp_all add: read_fat_table_def h(4) Let_def)
qed

text \<open>A volume with one reserved sector and one three-sector group.\<close>

definition blank_bpb :: fat12_BPB where
  "blank_bpb = \<lparr>bytes_per_sector = 512, sectors_per_cluster = 1, reserved_sector_count = 1, num_fats = 2, root_entry_count = 16,
     total_sectors_16 = 64, media_byte = 0, fat_size_16 = 3, sectors_per_track = 0, number_of_heads = 0, hidden_sectors = 0,
     total_sectors_32 = 0\<rparr>"

definition blank_fs :: FAT12_FS where
  "blank_fs = \<lparr>this = 1, cache_pool = (\<lambda>_. \<lparr>cluster_num = 0, last_used_time = 0, buf = (\<lambda>_. 0), buf_addr = 0, dirty = False, cb_refcount = 0\<rparr>),
     inodepool = \<lparr>ip_bitmap = \<lparr>length_of = 0, bitmap_of = (\<lambda>_. 0)\<rparr>, inodes = (\<lambda>_. zero_inode), inodes_addr = 0, node_count = 0, total_pages = 0\<rparr>,
     root_dir = (\<lambda>_. zero_entry), root_dir_addr = 0, root_dir_dirty = False, tmp_sector_buffer = (\<lambda>_. 0), bpb = blank_bpb,
     access_time = 0, fat_table = (\<lambda>_. 0), fat_table_dirty = False, device = PrimarySlave, fat_start_sector = 1,
     root_start_sector = 7, data_start_sector = 8, root_sector_count = 1, root_entries = 16, root_pages = 0, cluster_count = 58,
     cluster_size = 512, disks = (\<lambda>_. blank_channel\<lparr>defect := (\<lambda>_ _. False)\<rparr>)\<rparr>"

lemma blank_fat_ok: "fat_ok 1 blank_fs"
  by (simp add: fat_ok_def blank_fs_def blank_bpb_def ide_ok_def bad_sector_def blank_channel_def IDE_WAIT_RETRY_def)

text \<open>
  \<^bold>\<open>C18\<close>: Writing the allocation table (fat12_fs.cpp, \<^verbatim>\<open>flush_fat_table\<close>).  On a volume whose
  table is a whole number of three-sector groups and on a drive that can access it, the flush succeeds,
  every entry of the table in memory is then found, as a twelve-bit entry, at its place on the disk, and
  no sector outside the table's first copy changes.
\<close>

theorem flush_fat_table_correct:
  assumes ok: "fat_ok g fs" and v: "\<forall>m<1024 * g. fat_table fs m < 0x1000"
  shows "\<exists>fs'. flush_fat_table fs = Some (True, fs') \<and> (\<forall>m<1024 * g. disk_fat fs' m = fat_table fs m) \<and>
     fat_table fs' = fat_table fs \<and>
     (\<forall>l. unat l < 2 ^ 28 \<and> \<not> (unat (reserved_sector_count (bpb fs)) \<le> unat l \<and> unat l < 3 * g + unat (reserved_sector_count (bpb fs))) \<longrightarrow>
        sector (device fs) (disks fs') l = sector (device fs) (disks fs) l)"
proof (rule flush_fat_table_spec [OF ok v])
  fix t d'
  assume a: "flush_fat_table fs = Some (True, fs\<lparr>tmp_sector_buffer := t, disks := d'\<rparr>)"
    "\<forall>m<1024 * g. disk_fat (fs\<lparr>tmp_sector_buffer := t, disks := d'\<rparr>) m = fat_table fs m"
    and o: "only_sectors (device fs) {unat (reserved_sector_count (bpb fs))..<3 * g + unat (reserved_sector_count (bpb fs))} (disks fs) d'"
  have "device fs \<noteq> INVALID" using ok by (simp add: fat_ok_def ide_ok_def)
  from only_sectorsD(3) [OF o this] show ?thesis using a by (intro exI [of _ "fs\<lparr>tmp_sector_buffer := t, disks := d'\<rparr>"]) simp
qed

theorem flush_fat_table_correct_witness:
  "\<exists>fs'. flush_fat_table (blank_fs\<lparr>fat_table := (\<lambda>i. if i = 300 then 0xFFF else 0)\<rparr>) = Some (True, fs') \<and> disk_fat fs' 300 = 0xFFF"
proof -
  let ?f = "blank_fs\<lparr>fat_table := (\<lambda>i. if i = 300 then 0xFFF else 0)\<rparr>"
  have "fat_ok 1 ?f" using blank_fat_ok by (simp add: fat_ok_def)
  moreover have "\<forall>m<1024 * 1. fat_table ?f m < 0x1000" by simp
  ultimately show ?thesis using flush_fat_table_correct [of 1 ?f] by fastforce
qed

text \<open>
  Reading the table back (fat12_fs.cpp, \<^verbatim>\<open>read_fat_table\<close>) takes only the first 256 of
  the 1024 entries of each three-sector group, since the loop runs to \<^verbatim>\<open>bytes_per_sector / 2\<close>.  So
  entry \<open>m\<close> of the table in memory is entry \<open>1024 (m div 256) + m mod 256\<close> of the disk; after
  mounting a volume (the table starts out zero) and flushing the table unchanged, the disk has lost
  every entry from 256 times the number of groups on, and moved the others.
\<close>

theorem read_fat_table_drops_entries:
  assumes ok: "fat_ok g fs" and zero: "\<forall>m. fat_table fs m = 0"
  shows "\<exists>fs' fs''. read_fat_table fs = Some (True, fs') \<and> flush_fat_table fs' = Some (True, fs'') \<and>
     (\<forall>m<256 * g. fat_table fs' m = disk_fat fs (1024 * (m div 256) + m mod 256)) \<and>
     (\<forall>m<1024 * g. disk_fat fs'' m = (if m < 256 * g then disk_fat fs (1024 * (m div 256) + m mod 256) else 0))"
proof (rule read_fat_table_spec [OF ok])
  fix t d'
  let ?f = "fs\<lparr>tmp_sector_buffer := t, disks := d',
      fat_table := (\<lambda>m. if m < 256 * g then disk_fat fs (1024 * (m div 256) + m mod 256) else fat_table fs m)\<rparr>"
  assume r: "read_fat_table fs = Some (True, ?f)" and sm: "same_media (disks fs) d'"
  have ok': "fat_ok g ?f" using ok same_media_sector [OF sm] by (simp add: fat_ok_def)
  have v: "\<forall>m<1024 * g. fat_table ?f m < 0x1000" by (simp add: zero disk_fat_def entry_at_def fat_value_less)
  show ?thesis
    by (rule flush_fat_table_spec [OF ok' v]) (use r zero in auto)
qed

definition full_fs :: FAT12_FS where
  "full_fs = blank_fs\<lparr>disks := (\<lambda>_. blank_channel\<lparr>defect := (\<lambda>_ _. False), media := (\<lambda>_ _ _. 0xFF)\<rparr>)\<rparr>"

theorem read_fat_table_drops_entries_witness:
  "disk_fat full_fs 300 = 0xFFF \<and>
   (\<exists>fs' fs''. read_fat_table full_fs = Some (True, fs') \<and> flush_fat_table fs' = Some (True, fs'') \<and> disk_fat fs'' 300 = 0)"
proof -
  have "fat_ok 1 full_fs"
    by (simp add: full_fs_def fat_ok_def blank_fs_def blank_bpb_def ide_ok_def bad_sector_def blank_channel_def IDE_WAIT_RETRY_def)
  moreover have "\<forall>m. fat_table full_fs m = 0" by (simp add: full_fs_def blank_fs_def)
  moreover have "disk_fat full_fs 300 = 0xFFF" by (simp add: disk_fat_def entry_at_def run_def sector_def full_fs_def fat_value_def)
  ultimately show ?thesis using read_fat_table_drops_entries [of 1 full_fs] by fastforce
qed

end
