(* ===== verification/Fat12_Fs.thy ===== *)
theory Fat12_Fs
  imports Fat12_Table
begin

text \<open>
  The operations of the FAT12 file system (\<^verbatim>\<open>fat12_fs.cpp\<close>, and the directory iterator of
  \<^verbatim>\<open>fat12_entry.cpp\<close>): lookup, the root directory, reading, writing and appending, creating and
  removing files and directories, flushing, mounting.  A null inode pointer, which stands for the root
  directory in the directory operations, is \<^const>\<open>None\<close>.  Loops along a chain of clusters may not end
  when the table is corrupt; they are partial functions.
\<close>

definition inode :: "FAT12_FS \<Rightarrow> nat \<Rightarrow> fat12_inode" where
  "inode fs i = inodes (inodepool fs) i"

definition entries_per_cluster :: "FAT12_FS \<Rightarrow> nat" where
  "entries_per_cluster fs = unat (ucast (cluster_size fs div 32) :: u16)"

definition copy_into :: "nat \<Rightarrow> nat \<Rightarrow> bytes \<Rightarrow> nat \<Rightarrow> bytes \<Rightarrow> bytes" where
  "copy_into off n src soff dst = (\<lambda>i. if off \<le> i \<and> i < off + n then src (soff + (i - off)) else dst i)"

section \<open>Inodes\<close>

text \<open>\<open>q\<close> is the location searched for, \<open>l\<close> the location recorded.\<close>

definition acquire_inode ::
    "fat12_normalized_entry \<Rightarrow> u16 \<Rightarrow> fat12_entry_location \<Rightarrow> fat12_entry_location \<Rightarrow> FAT12_FS \<Rightarrow> (nat option \<times> FAT12_FS) option" where
  "acquire_inode entry parent q l fs = do {
     let found = (if start_cluster entry = 0 then get_inode_location (inodepool fs) q
                  else get_inode_cluster (inodepool fs) (start_cluster entry));
     (res, fs) \<leftarrow> (case found of
         Some i \<Rightarrow> Some (Some i, upd_inode i (\<lambda>n. n\<lparr>refcount := refcount n + 1\<rparr>) fs)
       | None \<Rightarrow> do {
           (r, p) \<leftarrow> inode_pool_allocate (inodepool fs);
           let fs = fs\<lparr>inodepool := p\<rparr>;
           case r of
             None \<Rightarrow> Some (None, fs)
           | Some i \<Rightarrow> Some (Some i, upd_inode i (\<lambda>n. n\<lparr>ino_attr := attr entry, fat12_fs := this fs,
               parent_dir_start_cluster := parent, refcount := 1, ino_size := file_size entry,
               ino_start_cluster := start_cluster entry\<rparr>) fs)
         });
     case res of None \<Rightarrow> Some (None, fs) | Some i \<Rightarrow> Some (Some i, upd_inode i (\<lambda>n. n\<lparr>location := l\<rparr>) fs)
   }"

definition release_inode :: "nat option \<Rightarrow> FAT12_FS \<Rightarrow> FAT12_FS" where
  "release_inode node fs =
     (case node of
        None \<Rightarrow> fs
      | Some i \<Rightarrow>
          if fat12_fs (inode fs i) = this fs
          then let fs = upd_inode i (\<lambda>n. n\<lparr>refcount := refcount n - 1\<rparr>) fs
            in if refcount (inode fs i) = 0 then fs\<lparr>inodepool := inode_pool_release i (inodepool fs)\<rparr> else fs
          else fs)"

section \<open>Lookup\<close>

definition root_location :: "nat \<Rightarrow> fat12_entry_location" where
  "root_location idx = \<lparr>is_root = True, parent_cluster = 0, current_cluster = 0, entry_index_in_cluster = 0, root_index = word_of_nat idx\<rparr>"

definition root_match :: "FAT12_FS \<Rightarrow> cstr \<Rightarrow> nat \<Rightarrow> bool" where
  "root_match fs nm idx \<longleftrightarrow>
     (let e = root_dir fs idx
      in name e \<noteq> [] \<and> hd (name e) \<noteq> 0xE5 \<and> attr e AND 0x08 = 0 \<and> cstr_cmp nm (name e) = 0)"

datatype scan = Hit nat fat12_normalized_entry | End_Of_Dir | Not_Here

fun lookup_scan :: "bytes \<Rightarrow> cstr \<Rightarrow> nat \<Rightarrow> nat \<Rightarrow> fat12_entry_buf \<Rightarrow> scan" where
  "lookup_scan b nm i 0 eb = Not_Here"
| "lookup_scan b nm i (Suc n) eb =
     (let (ok, eb) = entry_buf_read b (i * FAT12_ENTRY_BYTES) eb
      in if ok \<and> cstr_cmp (name (normalized_entry eb)) nm = 0 then Hit i (normalized_entry eb)
         else if \<not> ok \<and> status eb = END_OF_DIR then End_Of_Dir
         else lookup_scan b nm (i + 1) n eb)"

partial_function (option) lookup_dir :: "nat \<Rightarrow> cstr \<Rightarrow> u16 \<Rightarrow> FAT12_FS \<Rightarrow> (nat option \<times> FAT12_FS) option" where
  "lookup_dir dir nm cnt fs =
     (if 2 \<le> cnt \<and> cnt \<le> 0xFF7
      then Option.bind (get_cache cnt fs) (\<lambda>r.
        case fst r of
          None \<Rightarrow> Some (None, snd r)
        | Some c \<Rightarrow>
           (case lookup_scan (buf (cache_pool (snd r) c)) nm 0 (entries_per_cluster fs) entry_buf_reset of
              Hit i e \<Rightarrow>
                (let l = \<lparr>is_root = False, parent_cluster = ino_start_cluster (inode fs dir), current_cluster = cnt,
                          entry_index_in_cluster = word_of_nat i, root_index = 0\<rparr>
                 in Option.bind (acquire_inode e (ino_start_cluster (inode fs dir)) (l\<lparr>parent_cluster := 0\<rparr>) l (snd r))
                      (\<lambda>a. Option.bind (release_cache c (snd a)) (\<lambda>fs. Some (fst a, fs))))
            | End_Of_Dir \<Rightarrow> Option.bind (release_cache c (snd r)) (\<lambda>fs. Some (None, fs))
            | Not_Here \<Rightarrow> Option.bind (release_cache c (snd r)) (\<lambda>fs. lookup_dir dir nm (fat_next fs cnt) fs)))
      else Some (None, fs))"

definition lookup :: "nat option \<Rightarrow> cstr \<Rightarrow> FAT12_FS \<Rightarrow> (nat option \<times> FAT12_FS) option" where
  "lookup dir nm fs =
     (case dir of
        None \<Rightarrow>
          (case find (root_match fs nm) [0..<unat (root_entries fs)] of
             None \<Rightarrow> Some (None, fs)
           | Some idx \<Rightarrow> acquire_inode (root_dir fs idx) 0 (root_location idx) (root_location idx) fs)
      | Some d \<Rightarrow>
          if fat12_fs (inode fs d) \<noteq> this fs then Some (None, fs)
          else lookup_dir d nm (ino_start_cluster (inode fs d)) fs)"

section \<open>Root directory\<close>

text \<open>One sector of entries; the result says whether the end of the directory was met.\<close>

fun root_scan :: "bytes \<Rightarrow> nat \<Rightarrow> nat \<Rightarrow> u32 \<Rightarrow> fat12_entry_buf \<times> nat \<times> (nat \<Rightarrow> fat12_normalized_entry) \<Rightarrow>
    bool \<times> fat12_entry_buf \<times> nat \<times> (nat \<Rightarrow> fat12_normalized_entry)" where
  "root_scan b i 0 entries (eb, idx, root) = (False, eb, idx, root)"
| "root_scan b i (Suc n) entries (eb, idx, root) =
     (let (ok, eb) = entry_buf_read b (FAT12_ENTRY_BYTES * i) eb
      in if ok then
           (if idx < unat entries then root_scan b (i + 1) n entries (eb, idx + 1, root(idx := normalized_entry eb))
            else root_scan b (i + 1) n entries (eb, idx, root))
         else if status eb = END_OF_DIR then (True, eb, idx, root)
         else root_scan b (i + 1) n entries (eb, idx, root))"

fun init_root_loop :: "u32 \<Rightarrow> nat \<Rightarrow> fat12_entry_buf \<Rightarrow> nat \<Rightarrow> FAT12_FS \<Rightarrow> FAT12_FS option" where
  "init_root_loop lba 0 eb idx fs = Some fs"
| "init_root_loop lba (Suc n) eb idx fs = do {
     (ok, fs) \<leftarrow> read_tmp lba 0 fs;
     let (finish, eb, idx, root) = root_scan (tmp_sector_buffer fs) 0 (unat (bytes_per_sector (bpb fs)) div FAT12_ENTRY_BYTES)
       (root_entries fs) (eb, idx, root_dir fs);
     let fs = fs\<lparr>root_dir := root\<rparr>;
     if finish then Some fs else init_root_loop (lba + 1) n eb idx fs
   }"

definition SIZEOF_ENTRY :: u32 where "SIZEOF_ENTRY = 276"

definition init_root_dir :: "FAT12_FS \<Rightarrow> MM \<Rightarrow> (bool \<times> FAT12_FS \<times> MM) option" where
  "init_root_dir fs s = do {
     let root_bytes = root_entries fs * SIZEOF_ENTRY;
     let fs = fs\<lparr>root_pages := (root_bytes + PAGE_SIZE - 1) div PAGE_SIZE\<rparr>;
     (a, s) \<leftarrow> allocatePagesLazy KERNEL (uint (root_pages fs)) VP_RW EMPTY s;
     let fs = fs\<lparr>root_dir_addr := a\<rparr>;
     if a = 0 then Some (False, fs, s)
     else do {
       let fs = fs\<lparr>root_dir := (\<lambda>_. zero_entry)\<rparr>;
       fs \<leftarrow> init_root_loop (root_start_sector fs) (unat (root_sector_count fs)) entry_buf_reset 0 fs;
       Some (True, fs\<lparr>root_dir_dirty := False\<rparr>, s)
     }
   }"

fun put_root_entries :: "(nat \<Rightarrow> fat12_normalized_entry) \<Rightarrow> u32 \<Rightarrow> nat \<Rightarrow> nat \<Rightarrow> nat \<Rightarrow> fat12_entry_buf \<Rightarrow> bytes \<Rightarrow> nat \<times> bytes" where
  "put_root_entries root entries i idx 0 eb b = (idx, b)"
| "put_root_entries root entries i idx (Suc n) eb b =
     (if idx < unat entries then
        let eb = eb\<lparr>normalized_entry := entry_copy (root idx) (normalized_entry eb)\<rparr>;
            (b, eb) = (if name (root idx) = [] then (b, eb)
                       else entry_buf_write (FAT12_ENTRY_BYTES * i) (hd (name (root idx)) = 0xE5) eb b)
        in put_root_entries root entries (i + 1) (idx + 1) n eb b
      else put_root_entries root entries (i + 1) idx n eb b)"

fun flush_root_loop :: "u32 \<Rightarrow> nat \<Rightarrow> nat \<Rightarrow> FAT12_FS \<Rightarrow> (bool \<times> FAT12_FS) option" where
  "flush_root_loop lba idx 0 fs = Some (True, fs)"
| "flush_root_loop lba idx (Suc n) fs = do {
     let cleared = (\<lambda>k. if k < unat (bytes_per_sector (bpb fs)) then 0 else tmp_sector_buffer fs k);
     let (idx, b) = put_root_entries (root_dir fs) (root_entries fs) 0 idx (unat (bytes_per_sector (bpb fs)) div FAT12_ENTRY_BYTES)
        entry_buf_reset cleared;
     (ok, fs) \<leftarrow> write_tmp lba 0 (fs\<lparr>tmp_sector_buffer := b\<rparr>);
     (res, fs) \<leftarrow> flush_root_loop (lba + 1) idx n fs;
     Some (ok \<and> res, fs)
   }"

definition flush_root_dir :: "FAT12_FS \<Rightarrow> (bool \<times> FAT12_FS) option" where
  "flush_root_dir fs = do {
     (res, fs) \<leftarrow> flush_root_loop (root_start_sector fs) 0 (unat (root_sector_count fs)) fs;
     Some (res, fs\<lparr>root_dir_dirty := False\<rparr>)
   }"

definition destroy_root_dir :: "FAT12_FS \<Rightarrow> MM \<Rightarrow> (bool \<times> FAT12_FS \<times> MM) option" where
  "destroy_root_dir fs s = do {
     (res, fs) \<leftarrow> flush_root_dir fs;
     s \<leftarrow> releasePages KERNEL (root_dir_addr fs) (uint (root_pages fs)) EMPTY s;
     Some (res, fs, s)
   }"

section \<open>Reading and writing\<close>

partial_function (option) skip_clusters :: "FAT12_FS \<Rightarrow> u16 \<Rightarrow> u32 \<Rightarrow> (u16 \<times> u32) option option" where
  "skip_clusters fs cnt offset =
     (if cluster_size fs \<le> offset
      then if cnt < 2 \<or> 0xFF8 < cnt then Some None
           else skip_clusters fs (fat_next fs cnt) (offset - cluster_size fs)
      else Some (Some (cnt, offset)))"

text \<open>\<open>chunk\<close> is a 16-bit variable.\<close>

definition chunk_of :: "u32 \<Rightarrow> FAT12_FS \<Rightarrow> u32" where
  "chunk_of sz fs = ucast (ucast (if sz < cluster_size fs then sz else cluster_size fs) :: u16)"

partial_function (option) read_clusters :: "u32 \<Rightarrow> u16 \<Rightarrow> u32 \<Rightarrow> bytes \<Rightarrow> FAT12_FS \<Rightarrow> (u32 \<times> bytes \<times> FAT12_FS) option" where
  "read_clusters sz cnt read_size out fs =
     (if 0 < sint sz \<and> 2 \<le> cnt \<and> cnt < 0xFF8
      then Option.bind (get_cache cnt fs) (\<lambda>r.
        case fst r of
          None \<Rightarrow> Some (read_size, out, snd r)
        | Some c \<Rightarrow>
            let chunk = chunk_of sz fs;
                out = copy_into (unat read_size) (unat chunk) (buf (cache_pool (snd r) c)) 0 out
            in Option.bind (release_cache c (snd r)) (\<lambda>fs. read_clusters (sz - chunk) (fat_next fs cnt) (read_size + chunk) out fs))
      else Some (read_size, out, fs))"

definition io_check :: "nat option \<Rightarrow> u32 \<Rightarrow> u32 \<Rightarrow> FAT12_FS \<Rightarrow> u32 + (nat \<times> u32)" where
  "io_check node sz offset fs =
     (case node of
        None \<Rightarrow> Inl 0
      | Some i \<Rightarrow>
          let n = inode fs i in
          if ino_start_cluster n < 2 \<or> fat12_fs n \<noteq> this fs then Inl 0
          else if ino_size n \<le> offset then Inl 0
          else if sint offset < 0 then Inl (- 1)
          else if sint sz \<le> 0 then Inl 0
          else if ino_attr n AND DIRECTORY \<noteq> 0 \<or> ino_attr n AND VOLUME_ID \<noteq> 0 then Inl (- 1)
          else Inr (i, if ino_size n < sz + offset then ino_size n - offset else sz))"

definition FAT12_read :: "nat option \<Rightarrow> bytes \<Rightarrow> u32 \<Rightarrow> u32 \<Rightarrow> FAT12_FS \<Rightarrow> (u32 \<times> bytes \<times> FAT12_FS) option" where
  "FAT12_read node out sz offset fs =
     (case io_check node sz offset fs of
        Inl r \<Rightarrow> Some (r, out, fs)
      | Inr (i, sz) \<Rightarrow> do {
          w \<leftarrow> skip_clusters fs (ino_start_cluster (inode fs i)) offset;
          case w of
            None \<Rightarrow> Some (0, out, fs)
          | Some (cnt, offset) \<Rightarrow> do {
              (c, fs) \<leftarrow> get_cache cnt fs;
              case c of
                None \<Rightarrow> Some (- 1, out, fs)
              | Some c \<Rightarrow> do {
                  let left = cluster_size fs - offset;
                  if sz < left then do {
                    let out = copy_into 0 (unat sz) (buf (cache_pool fs c)) (unat offset) out;
                    fs \<leftarrow> release_cache c fs;
                    Some (sz, out, fs)
                  }
                  else do {
                    let out = copy_into 0 (unat left) (buf (cache_pool fs c)) (unat offset) out;
                    fs \<leftarrow> release_cache c fs;
                    read_clusters (sz - left) (fat_next fs cnt) left out fs
                  }
                }
            }
        })"

definition poke :: "nat \<Rightarrow> nat \<Rightarrow> nat \<Rightarrow> bytes \<Rightarrow> nat \<Rightarrow> FAT12_FS \<Rightarrow> FAT12_FS" where
  "poke c off n src soff fs = upd_cache c (\<lambda>b. b\<lparr>buf := copy_into off n src soff (buf b), dirty := True\<rparr>) fs"

partial_function (option) write_clusters :: "u32 \<Rightarrow> u16 \<Rightarrow> u32 \<Rightarrow> bytes \<Rightarrow> FAT12_FS \<Rightarrow> (u32 \<times> FAT12_FS) option" where
  "write_clusters sz cnt write_size src fs =
     (if 0 < sint sz \<and> 2 \<le> cnt \<and> cnt < 0xFF8
      then Option.bind (get_cache cnt fs) (\<lambda>r.
        case fst r of
          None \<Rightarrow> Some (write_size, snd r)
        | Some c \<Rightarrow>
            let chunk = chunk_of sz fs
            in Option.bind (release_cache c (poke c 0 (unat chunk) src (unat write_size) (snd r)))
                 (\<lambda>fs. write_clusters (sz - chunk) (fat_next fs cnt) (write_size + chunk) src fs))
      else Some (write_size, fs))"

definition FAT12_write :: "nat option \<Rightarrow> bytes \<Rightarrow> u32 \<Rightarrow> u32 \<Rightarrow> FAT12_FS \<Rightarrow> (u32 \<times> FAT12_FS) option" where
  "FAT12_write node src sz offset fs =
     (case io_check node sz offset fs of
        Inl r \<Rightarrow> Some (r, fs)
      | Inr (i, sz) \<Rightarrow> do {
          w \<leftarrow> skip_clusters fs (ino_start_cluster (inode fs i)) offset;
          case w of
            None \<Rightarrow> Some (0, fs)
          | Some (cnt, offset) \<Rightarrow> do {
              (c, fs) \<leftarrow> get_cache cnt fs;
              case c of
                None \<Rightarrow> Some (- 1, fs)
              | Some c \<Rightarrow> do {
                  let left = cluster_size fs - offset;
                  if sz < left then do {
                    fs \<leftarrow> release_cache c (poke c (unat offset) (unat sz) src 0 fs);
                    Some (sz, fs)
                  }
                  else do {
                    fs \<leftarrow> release_cache c (poke c (unat offset) (unat left) src 0 fs);
                    write_clusters (sz - left) (fat_next fs cnt) left src fs
                  }
                }
            }
        })"

section \<open>Appending\<close>

partial_function (option) last_cluster :: "FAT12_FS \<Rightarrow> u16 \<Rightarrow> u16 option" where
  "last_cluster fs c = (if 2 \<le> fat_next fs c \<and> fat_next fs c < 0xFF8 then last_cluster fs (fat_next fs c) else Some c)"

text \<open>The new clusters; \<open>pos\<close> is how far the source has been consumed.  The result is the number of bytes appended.\<close>

partial_function (option) append_clusters :: "int \<Rightarrow> u16 \<Rightarrow> int \<Rightarrow> nat \<Rightarrow> bytes \<Rightarrow> FAT12_FS \<Rightarrow> (int \<times> FAT12_FS) option" where
  "append_clusters sz cluster appended pos src fs =
     (if 0 < sz then
        let new_cluster = allocate_cluster fs in
        if new_cluster = 0 then Some (appended, fs)
        else Option.bind (flush_fat_table ((set_fat new_cluster 0xFFF (set_fat cluster new_cluster fs))\<lparr>fat_table_dirty := True\<rparr>)) (\<lambda>r.
          if \<not> fst r then Some (appended, set_fat cluster 0xFFF (free_cluster new_cluster (snd r)))
          else Option.bind (get_cache new_cluster (snd r)) (\<lambda>g.
            case fst g of
              None \<Rightarrow> None
            | Some c \<Rightarrow>
                let fs = upd_cache c (\<lambda>b. b\<lparr>buf := (\<lambda>k. if k < unat (cluster_size (snd g)) then 0 else buf b k)\<rparr>) (snd g);
                    chunk = min sz (uint (cluster_size fs));
                    fs = poke c 0 (nat chunk) src pos fs
                in Option.bind (write_cluster c fs) (\<lambda>w.
                  if \<not> fst w then Option.bind (release_cache c (snd w)) (\<lambda>fs. Some (appended + chunk, fs))
                  else Option.bind (release_cache c (snd w)) (\<lambda>fs.
                    append_clusters (sz - chunk) new_cluster (appended + chunk) (pos + nat chunk) src fs))))
      else Some (appended, fs))"

text \<open>Recording the size and the first cluster of an inode in its directory entry.\<close>

definition update_entry :: "nat \<Rightarrow> FAT12_FS \<Rightarrow> FAT12_FS option" where
  "update_entry i fs = do {
     let n = inode fs i;
     let l = location n;
     if is_root l then
       (let r = unat (root_index l)
        in Some (fs\<lparr>root_dir := (root_dir fs)(r := (root_dir fs r)\<lparr>start_cluster := ino_start_cluster n, file_size := ino_size n\<rparr>),
                    root_dir_dirty := True\<rparr>))
     else do {
       (c, fs) \<leftarrow> get_cache (current_cluster l) fs;
       c \<leftarrow> c;
       let off = unat (entry_index_in_cluster l) * FAT12_ENTRY_BYTES;
       let (ok, eb) = entry_buf_read (buf (cache_pool fs c)) off entry_buf_reset;
       ASSERT ok;
       let eb = eb\<lparr>normalized_entry := (normalized_entry eb)\<lparr>start_cluster := ino_start_cluster n, file_size := ino_size n\<rparr>\<rparr>;
       release_cache c (upd_cache c (\<lambda>b. b\<lparr>buf := fst (entry_buf_write off False eb (buf b)), dirty := True\<rparr>) fs)
     }
   }"

definition first_cluster :: "nat \<Rightarrow> FAT12_FS \<Rightarrow> (bool \<times> FAT12_FS) option" where
  "first_cluster i fs =
     (if ino_start_cluster (inode fs i) \<noteq> 0 then Some (True, fs)
      else do {
        let c = allocate_cluster fs;
        if c = 0 then Some (False, fs)
        else do {
          (ok, fs) \<leftarrow> flush_fat_table ((set_fat c 0xFFF fs)\<lparr>fat_table_dirty := True\<rparr>);
          if \<not> ok then Some (False, free_cluster c fs)
          else Some (True, upd_inode i (\<lambda>n. n\<lparr>ino_start_cluster := c\<rparr>) fs)
        }
      })"

definition FAT12_append :: "nat option \<Rightarrow> bytes \<Rightarrow> u32 \<Rightarrow> FAT12_FS \<Rightarrow> (int \<times> FAT12_FS) option" where
  "FAT12_append node src size32 fs =
     (case node of
        None \<Rightarrow> Some (- 1, fs)
      | Some i \<Rightarrow>
          let n = inode fs i; sz = sint size32 in
          if fat12_fs n \<noteq> this fs then Some (- 1, fs)
          else if ino_start_cluster n \<noteq> 0 \<and> ino_start_cluster n < 2 then Some (- 1, fs)
          else if ino_attr n AND DIRECTORY \<noteq> 0 \<or> ino_attr n AND VOLUME_ID \<noteq> 0 then Some (- 1, fs)
          else if sz \<le> 0 then Some (0, fs)
          else do {
            (ok, fs) \<leftarrow> first_cluster i fs;
            if \<not> ok then Some (- 1, fs)
            else do {
              cluster \<leftarrow> last_cluster fs (ino_start_cluster (inode fs i));
              let used = uint (ino_size n mod cluster_size fs);
              (sz, appended, fs) \<leftarrow>
                (if used < uint (cluster_size fs) then do {
                   (c, fs) \<leftarrow> get_cache cluster fs;
                   c \<leftarrow> c;
                   let chunk = min sz (uint (cluster_size fs) - used);
                   (ok, fs) \<leftarrow> write_cluster c (poke c (nat used) (nat chunk) src 0 fs);
                   let sz = (if ok then sz else 0);
                   fs \<leftarrow> release_cache c fs;
                   Some (sz - chunk, chunk, fs)
                 }
                 else Some (sz, 0, fs));
              (appended, fs) \<leftarrow> append_clusters sz cluster appended (nat appended) src fs;
              if 0 < appended then do {
                let fs = upd_inode i (\<lambda>n. n\<lparr>ino_size := ino_size n + word_of_int appended\<rparr>) fs;
                fs \<leftarrow> update_entry i fs;
                Some (appended, fs)
              }
              else Some (appended, fs)
            }
          })"

section \<open>Directory entries\<close>

partial_function (option) find_in_dir :: "u16 \<Rightarrow> u16 \<Rightarrow> u16 \<Rightarrow> FAT12_FS \<Rightarrow> (fat12_entry_location option \<times> FAT12_FS) option" where
  "find_in_dir parent target cnt fs =
     (if 2 \<le> cnt \<and> cnt \<le> 0xFF7
      then Option.bind (get_cache cnt fs) (\<lambda>r.
        case fst r of
          None \<Rightarrow> Some (None, snd r)
        | Some c \<Rightarrow>
           (case (let b = buf (cache_pool (snd r) c) in
                  fold (\<lambda>i (res, eb). if res \<noteq> Not_Here then (res, eb)
                     else let (ok, eb) = entry_buf_read b (i * FAT12_ENTRY_BYTES) eb in
                       (if ok then (if start_cluster (normalized_entry eb) = target then Hit i (normalized_entry eb) else Not_Here)
                        else if status eb = END_OF_DIR then End_Of_Dir else Not_Here, eb))
                   [0..<entries_per_cluster fs] (Not_Here, entry_buf_reset)) of
              (Hit i e, _) \<Rightarrow> Option.bind (release_cache c (snd r)) (\<lambda>fs.
                 Some (Some \<lparr>is_root = False, parent_cluster = parent, current_cluster = cnt,
                             entry_index_in_cluster = word_of_nat i, root_index = 0\<rparr>, fs))
            | (End_Of_Dir, _) \<Rightarrow> Option.bind (release_cache c (snd r)) (\<lambda>fs. Some (None, fs))
            | (Not_Here, _) \<Rightarrow> Option.bind (release_cache c (snd r)) (\<lambda>fs. find_in_dir parent target (fat_next fs cnt) fs)))
      else Some (None, fs))"

definition find_dir_entry :: "nat option \<Rightarrow> FAT12_FS \<Rightarrow> (fat12_entry_location option \<times> FAT12_FS) option" where
  "find_dir_entry target fs =
     (case target of
        None \<Rightarrow> Some (None, fs)
      | Some t \<Rightarrow>
          let n = inode fs t in
          if fat12_fs n \<noteq> this fs then Some (None, fs)
          else if parent_dir_start_cluster n = 0 then
            Some (map_option root_location (find (\<lambda>idx. let e = root_dir fs idx in
               name e \<noteq> [] \<and> hd (name e) \<noteq> 0xE5 \<and> attr e AND 0x08 = 0 \<and> start_cluster e = ino_start_cluster n)
               [0..<unat (root_entries fs)]), fs)
          else find_in_dir (parent_dir_start_cluster n) (ino_start_cluster n) (parent_dir_start_cluster n) fs)"

text \<open>The result of the search for a free slot: the code's -1, 0, 1 and 2.\<close>

datatype free_slot = Slot_Error | Slot fat12_entry_location | Need_Cluster u16 | Root_Full

fun free_scan :: "bytes \<Rightarrow> nat \<Rightarrow> nat \<Rightarrow> fat12_entry_buf \<Rightarrow> nat option" where
  "free_scan b i 0 eb = None"
| "free_scan b i (Suc n) eb =
     (let eb = snd (entry_buf_read b (i * FAT12_ENTRY_BYTES) eb)
      in if status eb = DELETE \<or> status eb = END_OF_DIR then Some i else free_scan b (i + 1) n eb)"

partial_function (option) free_in_dir :: "u16 \<Rightarrow> u16 \<Rightarrow> u16 \<Rightarrow> FAT12_FS \<Rightarrow> (free_slot \<times> FAT12_FS) option" where
  "free_in_dir parent prev cnt fs =
     (if 2 \<le> cnt \<and> cnt \<le> 0xFF7
      then Option.bind (get_cache cnt fs) (\<lambda>r.
        case fst r of
          None \<Rightarrow> Some (Slot_Error, snd r)
        | Some c \<Rightarrow>
           (case free_scan (buf (cache_pool (snd r) c)) 0 (entries_per_cluster fs) entry_buf_reset of
              Some i \<Rightarrow> Option.bind (release_cache c (snd r)) (\<lambda>fs.
                 Some (Slot \<lparr>is_root = False, parent_cluster = parent, current_cluster = cnt,
                             entry_index_in_cluster = word_of_nat i, root_index = 0\<rparr>, fs))
            | None \<Rightarrow> Option.bind (release_cache c (snd r)) (\<lambda>fs. free_in_dir parent cnt (fat_next fs cnt) fs)))
      else Some (Need_Cluster prev, fs))"

definition find_free_entry :: "nat option \<Rightarrow> FAT12_FS \<Rightarrow> (free_slot \<times> FAT12_FS) option" where
  "find_free_entry dir fs =
     (case dir of
        None \<Rightarrow>
          Some (case find (\<lambda>idx. let e = root_dir fs idx in attr e AND 0x08 = 0 \<and> (name e = [] \<or> hd (name e) = 0xE5))
                  [0..<unat (root_entries fs)] of
                  Some idx \<Rightarrow> Slot (root_location idx) | None \<Rightarrow> Root_Full, fs)
      | Some d \<Rightarrow>
          if fat12_fs (inode fs d) \<noteq> this fs then Some (Slot_Error, fs)
          else let c = ino_start_cluster (inode fs d) in free_in_dir c c c fs)"

definition location_ok :: "fat12_entry_location \<Rightarrow> FAT12_FS \<Rightarrow> bool" where
  "location_ok l fs \<longleftrightarrow> ucast (entry_index_in_cluster l) < cluster_size fs div 32 \<and> 2 \<le> current_cluster l \<and> current_cluster l \<le> 0xFF7"

definition write_dir_entry :: "fat12_entry_location \<Rightarrow> fat12_normalized_entry \<Rightarrow> FAT12_FS \<Rightarrow> (bool \<times> FAT12_FS) option" where
  "write_dir_entry l e fs =
     (if is_root l then
        (if root_entries fs \<le> root_index l then Some (False, fs)
         else let r = unat (root_index l)
              in Some (True, fs\<lparr>root_dir_dirty := True, root_dir := (root_dir fs)(r := entry_copy e (root_dir fs r))\<rparr>))
      else if \<not> location_ok l fs then Some (False, fs)
      else do {
        (c, fs) \<leftarrow> get_cache (current_cluster l) fs;
        case c of
          None \<Rightarrow> Some (False, fs)
        | Some c \<Rightarrow> do {
            let eb = entry_buf_reset\<lparr>normalized_entry := entry_copy e zero_entry\<rparr>;
            fs \<leftarrow> release_cache c (upd_cache c (\<lambda>b. b\<lparr>buf := fst (entry_buf_write (unat (entry_index_in_cluster l) * 32) False eb (buf b)),
              dirty := True\<rparr>) fs);
            Some (True, fs)
          }
      })"

definition delete_dir_entry :: "fat12_entry_location \<Rightarrow> FAT12_FS \<Rightarrow> (bool \<times> FAT12_FS) option" where
  "delete_dir_entry l fs =
     (if is_root l then
        (if root_entries fs \<le> root_index l then Some (False, fs)
         else let r = unat (root_index l)
              in Some (True, fs\<lparr>root_dir_dirty := True, root_dir := (root_dir fs)(r := (root_dir fs r)\<lparr>name := 0xE5 # tl (name (root_dir fs r))\<rparr>)\<rparr>))
      else if \<not> location_ok l fs then Some (False, fs)
      else do {
        (c, fs) \<leftarrow> get_cache (current_cluster l) fs;
        case c of
          None \<Rightarrow> Some (False, fs)
        | Some c \<Rightarrow> do {
            fs \<leftarrow> release_cache c (upd_cache c (\<lambda>b. b\<lparr>buf := fst (entry_buf_write (unat (entry_index_in_cluster l) * 32) True entry_buf_reset (buf b)),
              dirty := True\<rparr>) fs);
            Some (True, fs)
          }
      })"

section \<open>Creating\<close>

text \<open>
  Extending a directory by a cluster.  The result is the location of the first slot of the new cluster,
  or \<^const>\<open>None\<close> when the cluster cannot be had; then the table link stays behind.
\<close>

definition extend_dir :: "u16 \<Rightarrow> u16 \<Rightarrow> FAT12_FS \<Rightarrow> (fat12_entry_location option \<times> u16 \<times> FAT12_FS) option" where
  "extend_dir parent prev fs = do {
     let new_cluster = allocate_cluster fs;
     if new_cluster = 0 then Some (None, 0, fs)
     else do {
       let fs = (set_fat new_cluster 0xFFF (set_fat prev new_cluster fs))\<lparr>fat_table_dirty := True\<rparr>;
       (c, fs) \<leftarrow> get_cache new_cluster fs;
       case c of
         None \<Rightarrow> Some (None, new_cluster, free_cluster new_cluster fs)
       | Some c \<Rightarrow> do {
           fs \<leftarrow> release_cache c (upd_cache c (\<lambda>b. b\<lparr>buf := (\<lambda>k. if k < unat (cluster_size fs) then 0 else buf b k), dirty := True\<rparr>) fs);
           Some (Some \<lparr>is_root = False, parent_cluster = parent, current_cluster = new_cluster, entry_index_in_cluster = 0,
             root_index = 0\<rparr>, new_cluster, fs)
         }
     }
   }"

text \<open>Finding a slot for a new entry; the second component is the link to undo: previous and new cluster.\<close>

definition new_slot :: "nat option \<Rightarrow> FAT12_FS \<Rightarrow> (fat12_entry_location option \<times> (u16 \<times> u16) option \<times> FAT12_FS) option" where
  "new_slot dir fs = do {
     (slot, fs) \<leftarrow> find_free_entry dir fs;
     case slot of
       Slot_Error \<Rightarrow> Some (None, None, fs)
     | Root_Full \<Rightarrow> Some (None, None, fs)
     | Slot l \<Rightarrow> Some (Some l, None, fs)
     | Need_Cluster prev \<Rightarrow> do {
         (l, new_cluster, fs) \<leftarrow> extend_dir (case dir of Some d \<Rightarrow> ino_start_cluster (inode fs d) | None \<Rightarrow> 0) prev fs;
         Some (l, Some (prev, new_cluster), fs)
       }
   }"

definition undo_link :: "(u16 \<times> u16) option \<Rightarrow> FAT12_FS \<Rightarrow> FAT12_FS" where
  "undo_link link fs = (case link of None \<Rightarrow> fs | Some (prev, new_cluster) \<Rightarrow> set_fat prev 0xFFF (set_fat new_cluster 0 fs))"

definition create_file :: "nat option \<Rightarrow> cstr \<Rightarrow> u8 \<Rightarrow> FAT12_FS \<Rightarrow> (bool \<times> FAT12_FS) option" where
  "create_file dir nm at fs =
     (if at AND VOLUME_ID \<noteq> 0 \<or> at AND DIRECTORY \<noteq> 0 then Some (False, fs)
      else do {
        (file, fs) \<leftarrow> lookup dir nm fs;
        case file of
          Some i \<Rightarrow> Some (False, release_inode (Some i) fs)
        | None \<Rightarrow> do {
            (slot, link, fs) \<leftarrow> new_slot dir fs;
            case slot of
              None \<Rightarrow> Some (False, fs)
            | Some l \<Rightarrow> do {
                (ok, fs) \<leftarrow> write_dir_entry l (zero_entry\<lparr>attr := at, name := nm\<rparr>) fs;
                if ok then Some (True, fs) else Some (False, undo_link link fs)
              }
          }
      })"

definition create_directory :: "nat option \<Rightarrow> cstr \<Rightarrow> FAT12_FS \<Rightarrow> (bool \<times> FAT12_FS) option" where
  "create_directory dir nm fs = do {
     (new_dir, fs) \<leftarrow> lookup dir nm fs;
     case new_dir of
       Some i \<Rightarrow> Some (False, release_inode (Some i) fs)
     | None \<Rightarrow> do {
         (slot, link, fs) \<leftarrow> new_slot dir fs;
         case slot of
           None \<Rightarrow> Some (False, fs)
         | Some l \<Rightarrow> do {
             let start = allocate_cluster fs;
             if start = 0 then Some (False, undo_link link fs)
             else do {
               let fs = set_fat start 0xFFF fs;
               (ok, fs) \<leftarrow> write_dir_entry l (zero_entry\<lparr>attr := DIRECTORY, name := nm, start_cluster := start\<rparr>) fs;
               if \<not> ok then Some (False, free_cluster start (undo_link link fs))
               else do {
                 (c, fs) \<leftarrow> get_cache start fs;
                 c \<leftarrow> c;
                 fs \<leftarrow> release_cache c (upd_cache c (\<lambda>b. b\<lparr>buf := (\<lambda>k. if k < unat (cluster_size fs) then 0 else buf b k), dirty := True\<rparr>) fs);
                 Some (True, fs)
               }
             }
           }
       }
   }"

section \<open>Removing\<close>

text \<open>
  A freed entry reads as 0 and ends the walk, so the loop that frees a chain ends on every table, even
  one whose chain runs in a circle.
\<close>

definition in_use :: "FAT12_FS \<Rightarrow> nat set" where
  "in_use fs = {i. i < 2 ^ 16 \<and> fat_table fs i \<noteq> 0}"

lemma in_use_free:
  "fat_next fs c \<noteq> 0 \<Longrightarrow> card (in_use ((free_cluster c fs)\<lparr>fat_table_dirty := True\<rparr>)) < card (in_use fs)"
  "fat_next fs c = 0 \<Longrightarrow> in_use ((free_cluster c fs)\<lparr>fat_table_dirty := True\<rparr>) = in_use fs"
proof -
  have e: "in_use ((free_cluster c fs)\<lparr>fat_table_dirty := True\<rparr>) = in_use fs - {unat c}"
    by (auto simp: in_use_def free_cluster_def set_fat_def)
  have c: "unat c < 2 ^ 16" using unat_bound [of c] by simp
  show "fat_next fs c \<noteq> 0 \<Longrightarrow> card (in_use ((free_cluster c fs)\<lparr>fat_table_dirty := True\<rparr>)) < card (in_use fs)"
    unfolding e using c by (intro card_Diff1_less) (auto simp: in_use_def fat_next_def)
  show "fat_next fs c = 0 \<Longrightarrow> in_use ((free_cluster c fs)\<lparr>fat_table_dirty := True\<rparr>) = in_use fs"
    unfolding e by (auto simp: in_use_def fat_next_def)
qed

function free_chain :: "u16 \<Rightarrow> FAT12_FS \<Rightarrow> FAT12_FS" where
  "free_chain c fs =
     (if 2 \<le> c \<and> c \<le> 0xFF7 then free_chain (fat_next fs c) ((free_cluster c fs)\<lparr>fat_table_dirty := True\<rparr>) else fs)"
  by pat_completeness auto

termination
proof (relation "measures [\<lambda>(c, fs). card (in_use fs), \<lambda>(c, fs). if 2 \<le> c then 1 else 0]", goal_cases)
  case (2 c fs)
  then show ?case using in_use_free [of fs c] by (cases "fat_next fs c = 0") auto
qed simp

definition FAT12_remove :: "nat option \<Rightarrow> cstr \<Rightarrow> FAT12_FS \<Rightarrow> (bool \<times> FAT12_FS) option" where
  "FAT12_remove dir nm fs = do {
     (file, fs) \<leftarrow> lookup dir nm fs;
     case file of
       None \<Rightarrow> Some (False, fs)
     | Some i \<Rightarrow>
         if refcount (inode fs i) \<noteq> 1 then Some (False, release_inode (Some i) fs)
         else do {
           (ok, fs) \<leftarrow> delete_dir_entry (location (inode fs i)) fs;
           if \<not> ok then Some (False, release_inode (Some i) fs)
           else Some (True, release_inode (Some i) (free_chain (ino_start_cluster (inode fs i)) fs))
         }
   }"

section \<open>Directory iteration\<close>

record fat12_dir_iter =
  it_dir :: "nat option"
  it_current :: fat12_entry_buf
  global_idx :: u32
  it_cluster :: u16
  it_entry :: u16
  it_root :: u32
  it_count :: u32

definition dir_iter_init :: "nat option \<Rightarrow> FAT12_FS \<Rightarrow> fat12_dir_iter option" where
  "dir_iter_init dir fs =
     (let it = \<lparr>it_dir = dir, it_current = entry_buf_reset, global_idx = 0, it_cluster = 0, it_entry = 0, it_root = 0, it_count = 0\<rparr>
      in case dir of
           None \<Rightarrow> Some it
         | Some d \<Rightarrow>
             if fat12_fs (inode fs d) \<noteq> this fs \<or> ino_attr (inode fs d) AND DIRECTORY = 0 then None
             else Some (it\<lparr>it_cluster := ino_start_cluster (inode fs d)\<rparr>))"

fun next_root :: "nat \<Rightarrow> FAT12_FS \<Rightarrow> fat12_dir_iter \<Rightarrow> bool \<times> fat12_dir_iter" where
  "next_root 0 fs it = (False, it)"
| "next_root (Suc n) fs it =
     (let e = root_dir fs (unat (it_root it));
          it = it\<lparr>it_root := it_root it + 1, global_idx := global_idx it + 1\<rparr>
      in if name e = [] then (False, it)
         else if hd (name e) = 0xE5 \<or> attr e AND VOLUME_ID \<noteq> 0 then next_root n fs it
         else (True, it\<lparr>it_current := \<lparr>normalized_entry = e, status = VALID\<rparr>, it_count := it_count it + 1\<rparr>))"

text \<open>The entries of one cluster; \<^const>\<open>None\<close> means that the cluster is exhausted.\<close>

fun next_entry :: "nat \<Rightarrow> bytes \<Rightarrow> fat12_dir_iter \<Rightarrow> bool option \<times> fat12_dir_iter" where
  "next_entry 0 b it = (None, it)"
| "next_entry (Suc n) b it =
     (let (ok, eb) = entry_buf_read b (unat (it_entry it) * FAT12_ENTRY_BYTES) (it_current it);
          it = it\<lparr>it_entry := it_entry it + 1, global_idx := global_idx it + 1, it_current := eb\<rparr>
      in if ok then
           (if attr (normalized_entry eb) AND VOLUME_ID \<noteq> 0 then next_entry n b it
            else (Some True, it\<lparr>it_count := it_count it + 1\<rparr>))
         else if status eb = END_OF_DIR then (Some False, it)
         else next_entry n b it)"

partial_function (option) next_in_dir :: "fat12_dir_iter \<Rightarrow> FAT12_FS \<Rightarrow> (bool \<times> fat12_dir_iter \<times> FAT12_FS) option" where
  "next_in_dir it fs =
     (if 2 \<le> it_cluster it \<and> it_cluster it < 0xFF8
      then Option.bind (get_cache (it_cluster it) fs) (\<lambda>r.
        case fst r of
          None \<Rightarrow> Some (False, it, snd r)
        | Some c \<Rightarrow>
           (case next_entry (entries_per_cluster fs - unat (it_entry it)) (buf (cache_pool (snd r) c)) it of
              (Some res, it) \<Rightarrow> Option.bind (release_cache c (snd r)) (\<lambda>fs. Some (res, it, fs))
            | (None, it) \<Rightarrow> Option.bind (release_cache c (snd r)) (\<lambda>fs.
                next_in_dir (it\<lparr>it_cluster := fat_next fs (it_cluster it), it_entry := 0\<rparr>) fs)))
      else Some (False, it, fs))"

definition dir_iter_next :: "fat12_dir_iter \<Rightarrow> FAT12_FS \<Rightarrow> (bool \<times> fat12_dir_iter \<times> FAT12_FS) option" where
  "dir_iter_next it fs =
     (case it_dir it of
        None \<Rightarrow> (let (res, it) = next_root (unat (root_entries fs) - unat (it_root it)) fs it in Some (res, it, fs))
      | Some d \<Rightarrow> next_in_dir it fs)"

definition is_dir_empty :: "nat option \<Rightarrow> FAT12_FS \<Rightarrow> (int \<times> FAT12_FS) option" where
  "is_dir_empty dir fs =
     (case dir_iter_init dir fs of
        None \<Rightarrow> Some (- 1, fs)
      | Some it \<Rightarrow> do { (res, it, fs) \<leftarrow> dir_iter_next it fs; Some (if res then 0 else 1, fs) })"

definition remove_directory :: "nat option \<Rightarrow> cstr \<Rightarrow> FAT12_FS \<Rightarrow> (bool \<times> FAT12_FS) option" where
  "remove_directory dir nm fs = do {
     (target, fs) \<leftarrow> lookup dir nm fs;
     case target of
       None \<Rightarrow> Some (False, fs)
     | Some i \<Rightarrow>
         if ino_attr (inode fs i) AND DIRECTORY = 0 then Some (False, release_inode (Some i) fs)
         else do {
           (e, fs) \<leftarrow> is_dir_empty (Some i) fs;
           if e \<noteq> 1 \<or> refcount (inode fs i) \<noteq> 1 then Some (False, release_inode (Some i) fs)
           else do {
             (ok, fs) \<leftarrow> delete_dir_entry (location (inode fs i)) fs;
             if \<not> ok then Some (False, release_inode (Some i) fs)
             else Some (True, release_inode (Some i) (free_chain (ino_start_cluster (inode fs i)) fs))
           }
         }
   }"

section \<open>Flushing, mounting\<close>

partial_function (option) flush_chain :: "u16 \<Rightarrow> FAT12_FS \<Rightarrow> FAT12_FS option" where
  "flush_chain c fs =
     (if 2 \<le> c \<and> c \<le> 0xFF7
      then Option.bind (flush_cache c fs) (\<lambda>r. flush_chain (fat_next (snd r) c) (snd r))
      else Some fs)"

definition FAT12_flush :: "nat \<Rightarrow> FAT12_FS \<Rightarrow> FAT12_FS option" where
  "FAT12_flush i fs = do {
     (_, fs) \<leftarrow> flush_fat_table fs;
     fs \<leftarrow> flush_chain (ino_start_cluster (inode fs i)) fs;
     update_entry i fs
   }"

definition FAT12_flush_all :: "FAT12_FS \<Rightarrow> FAT12_FS option" where
  "FAT12_flush_all fs = do {
     (_, fs) \<leftarrow> flush_root_dir fs;
     (_, fs) \<leftarrow> flush_all_cache fs;
     (_, fs) \<leftarrow> flush_fat_table fs;
     Some fs
   }"

definition cluster_pages :: "FAT12_FS \<Rightarrow> u32" where
  "cluster_pages fs = (cluster_size fs + PAGE_SIZE - 1) div PAGE_SIZE"

fun release_buffers :: "nat \<Rightarrow> nat \<Rightarrow> FAT12_FS \<Rightarrow> MM \<Rightarrow> MM option" where
  "release_buffers i 0 fs s = Some s"
| "release_buffers i (Suc n) fs s =
     (if buf_addr (cache_pool fs i) \<noteq> 0
      then releasePages KERNEL (buf_addr (cache_pool fs i)) (uint (cluster_pages fs)) EMPTY s \<bind> release_buffers (i + 1) n fs
      else Some s)"

definition destroy_cache_pool :: "FAT12_FS \<Rightarrow> MM \<Rightarrow> (bool \<times> FAT12_FS \<times> MM) option" where
  "destroy_cache_pool fs s = do {
     ASSERT (cluster_size fs \<noteq> 0);
     (res, fs) \<leftarrow> flush_all_cache fs;
     s \<leftarrow> release_buffers 0 FAT12_MAX_CACHE fs s;
     Some (res, fs, s)
   }"

fun allocate_buffers :: "nat \<Rightarrow> nat \<Rightarrow> FAT12_FS \<Rightarrow> MM \<Rightarrow> (bool \<times> FAT12_FS \<times> MM) option" where
  "allocate_buffers i 0 fs s = Some (True, fs, s)"
| "allocate_buffers i (Suc n) fs s = do {
     (a, s) \<leftarrow> allocatePagesLazy KERNEL (uint (cluster_pages fs)) VP_RW EMPTY s;
     let fs = upd_cache i (\<lambda>c. c\<lparr>buf_addr := a\<rparr>) fs;
     if a = 0 then do { (_, fs, s) \<leftarrow> destroy_cache_pool fs s; Some (False, fs, s) }
     else allocate_buffers (i + 1) n fs s
   }"

definition init_cache_pool :: "FAT12_FS \<Rightarrow> MM \<Rightarrow> (bool \<times> FAT12_FS \<times> MM) option" where
  "init_cache_pool fs s = do {
     ASSERT (cluster_size fs \<noteq> 0);
     let fs = fs\<lparr>cache_pool := (\<lambda>i. \<lparr>cluster_num = 0, last_used_time = 0, buf = buf (cache_pool fs i), buf_addr = 0, dirty = False, cb_refcount = 0\<rparr>)\<rparr>;
     allocate_buffers 0 FAT12_MAX_CACHE fs s
   }"

definition parse_bpb :: "bytes \<Rightarrow> fat12_BPB" where
  "parse_bpb b =
     \<lparr>bytes_per_sector = get16 b 11, sectors_per_cluster = b 13, reserved_sector_count = get16 b 14, num_fats = b 16,
      root_entry_count = get16 b 17, total_sectors_16 = get16 b 19, media_byte = b 21, fat_size_16 = get16 b 22,
      sectors_per_track = get16 b 24, number_of_heads = get16 b 26, hidden_sectors = get32 b 28, total_sectors_32 = get32 b 32\<rparr>"

definition bpb_valid :: "fat12_BPB \<Rightarrow> bool" where
  "bpb_valid p \<longleftrightarrow> bytes_per_sector p = 512 \<and> num_fats p = 2 \<and> sectors_per_cluster p \<noteq> 0 \<and> sectors_per_cluster p \<le> 128 \<and>
     sectors_per_cluster p AND (sectors_per_cluster p - 1) = 0"

definition set_geometry :: "FAT12_FS \<Rightarrow> FAT12_FS option" where
  "set_geometry fs = do {
     let p = bpb fs;
     let fs = fs\<lparr>root_entries := ucast (root_entry_count p),
                 root_sector_count := (ucast (root_entry_count p) * 32 + ucast (bytes_per_sector p) - 1) div ucast (bytes_per_sector p),
                 fat_start_sector := ucast (reserved_sector_count p)\<rparr>;
     let fs = fs\<lparr>root_start_sector := fat_start_sector fs + ucast (num_fats p) * ucast (fat_size_16 p)\<rparr>;
     let fs = fs\<lparr>data_start_sector := root_start_sector fs + root_sector_count fs,
                 cluster_size := ucast (bytes_per_sector p) * ucast (sectors_per_cluster p)\<rparr>;
     let total_sector = (if total_sectors_16 p \<noteq> 0 then ucast (total_sectors_16 p) else total_sectors_32 p);
     let fs = fs\<lparr>cluster_count := (total_sector - data_start_sector fs) div ucast (sectors_per_cluster p) + 2\<rparr>;
     ASSERT ((total_sector - data_start_sector fs) mod ucast (sectors_per_cluster p) = 0);
     Some fs
   }"

text \<open>\<open>fs\<close> is the object after the \<^verbatim>\<open>memset\<close> with which mounting starts.\<close>

definition FAT12_mount :: "IdeDrive \<Rightarrow> FAT12_FS \<Rightarrow> MM \<Rightarrow> (bool \<times> FAT12_FS \<times> MM) option" where
  "FAT12_mount disk fs s = do {
     (ok, b, d) \<leftarrow> ide_read_sector disk 0 (tmp_sector_buffer fs) (disks fs);
     let fs = fs\<lparr>tmp_sector_buffer := b, disks := d\<rparr>;
     if \<not> ok then Some (False, fs, s)
     else do {
       let fs = fs\<lparr>bpb := parse_bpb b\<rparr>;
       if \<not> bpb_valid (bpb fs) then Some (False, fs, s)
       else do {
         fs \<leftarrow> set_geometry (fs\<lparr>device := disk, access_time := 0\<rparr>);
         (ok, fs) \<leftarrow> read_fat_table fs;
         if \<not> ok then Some (False, fs, s)
         else do {
           (ok, fs, s) \<leftarrow> init_cache_pool (fs\<lparr>fat_table_dirty := False\<rparr>) s;
           if \<not> ok then Some (False, fs, s)
           else do {
             (_, p, s) \<leftarrow> inode_pool_initialize FAT12_MAX_INODES (inodepool fs) s;
             (_, fs, s) \<leftarrow> init_root_dir (fs\<lparr>inodepool := p\<rparr>) s;
             Some (True, fs, s)
           }
         }
       }
     }
   }"

definition FAT12_umount :: "FAT12_FS \<Rightarrow> MM \<Rightarrow> (bool \<times> FAT12_FS \<times> MM) option" where
  "FAT12_umount fs s = do {
     (r1, fs, s) \<leftarrow> destroy_root_dir fs s;
     s \<leftarrow> inode_pool_destroy (inodepool fs) s;
     (r2, fs, s) \<leftarrow> destroy_cache_pool fs s;
     (r3, fs) \<leftarrow> flush_fat_table fs;
     Some (r1 \<and> r2 \<and> r3, fs\<lparr>device := INVALID\<rparr>, s)
   }"

end
