(* ===== verification/Cache_Interface.thy ===== *)
theory Cache_Interface
  imports Os_Prelude "HOL-Library.Monad_Syntax"
begin

text \<open>
  The contract between a block cache and the file operations above it.  A caller fetches a block, looks
  at or changes the bytes behind the handle, and releases it before it fetches another, so the states
  that matter are \<open>idle\<close> (nothing held) and \<open>held s h c\<close> (exactly handle \<open>h\<close> on block \<open>c\<close> is held).
  \<open>view s c\<close> is what block \<open>c\<close> contains as far as any caller can tell, wherever its current copy is,
  and \<open>rest s\<close> is everything outside the cache.
\<close>

locale block_cache =
  fixes idle :: "'s \<Rightarrow> bool" and held :: "'s \<Rightarrow> 'h \<Rightarrow> 'c \<Rightarrow> bool" and valid :: "'c \<Rightarrow> bool"
    and view :: "'s \<Rightarrow> 'c \<Rightarrow> nat \<Rightarrow> u8" and rest :: "'s \<Rightarrow> 'r" and bsize :: "'r \<Rightarrow> nat"
    and get :: "'c \<Rightarrow> 's \<Rightarrow> ('h option \<times> 's) option" and release :: "'h \<Rightarrow> 's \<Rightarrow> 's option"
    and data :: "'s \<Rightarrow> 'h \<Rightarrow> bytes" and modify :: "'h \<Rightarrow> (bytes \<Rightarrow> bytes) \<Rightarrow> 's \<Rightarrow> 's"
  assumes get_ok: "idle s \<Longrightarrow> valid c \<Longrightarrow>
      \<exists>h s'. get c s = Some (Some h, s') \<and> held s' h c \<and> rest s' = rest s \<and>
        (\<forall>d k. valid d \<longrightarrow> k < bsize (rest s) \<longrightarrow> view s' d k = view s d k)"
    and data_view: "held s h c \<Longrightarrow> k < bsize (rest s) \<Longrightarrow> data s h k = view s c k"
    and modify_ok: "held s h c \<Longrightarrow> held (modify h f s) h c \<and> rest (modify h f s) = rest s \<and> data (modify h f s) h = f (data s h) \<and>
        (\<forall>d k. valid d \<longrightarrow> d \<noteq> c \<longrightarrow> k < bsize (rest s) \<longrightarrow> view (modify h f s) d k = view s d k)"
    and release_ok: "held s h c \<Longrightarrow>
      \<exists>s'. release h s = Some s' \<and> idle s' \<and> rest s' = rest s \<and>
        (\<forall>d k. valid d \<longrightarrow> k < bsize (rest s) \<longrightarrow> view s' d k = view s d k)"
begin

text \<open>Two states that no caller can tell apart.\<close>

definition same :: "'s \<Rightarrow> 's \<Rightarrow> bool" where
  "same s s' \<longleftrightarrow> rest s' = rest s \<and> (\<forall>d k. valid d \<longrightarrow> k < bsize (rest s) \<longrightarrow> view s' d k = view s d k)"

lemma same_refl [simp]: "same s s"
  by (simp add: same_def)

lemma same_trans: "same s t \<Longrightarrow> same t u \<Longrightarrow> same s u"
  by (simp add: same_def)

text \<open>Fetching, reading and releasing a block.\<close>

lemma read_block:
  assumes "idle s" and "valid c"
  obtains h s1 s2 where "get c s = Some (Some h, s1)" "\<forall>k<bsize (rest s). data s1 h k = view s c k" "rest s1 = rest s"
    "release h s1 = Some s2" "idle s2" "same s s2"
proof -
  obtain h s1 where g: "get c s = Some (Some h, s1)" "held s1 h c" "rest s1 = rest s"
      "\<forall>d k. valid d \<longrightarrow> k < bsize (rest s) \<longrightarrow> view s1 d k = view s d k"
    using get_ok [OF assms] by blast
  obtain s2 where r: "release h s1 = Some s2" "idle s2" "rest s2 = rest s1"
      "\<forall>d k. valid d \<longrightarrow> k < bsize (rest s1) \<longrightarrow> view s2 d k = view s1 d k"
    using release_ok [OF g(2)] by blast
  have "\<forall>k<bsize (rest s). data s1 h k = view s c k" using data_view [OF g(2)] g(3,4) assms(2) by simp
  moreover have "same s s2" using g(3,4) r(3,4) by (simp add: same_def)
  ultimately show thesis using that g(1,3) r(1,2) by blast
qed

text \<open>Fetching, changing and releasing a block.\<close>

lemma update_block:
  assumes "idle s" and "valid c"
  obtains h s1 s2 where "get c s = Some (Some h, s1)" "\<forall>k<bsize (rest s). data s1 h k = view s c k" "rest s1 = rest s"
    "release h (modify h f s1) = Some s2" "idle s2" "rest s2 = rest s"
    "\<forall>k<bsize (rest s). view s2 c k = f (data s1 h) k"
    "\<forall>d k. valid d \<longrightarrow> d \<noteq> c \<longrightarrow> k < bsize (rest s) \<longrightarrow> view s2 d k = view s d k"
proof -
  obtain h s1 where g: "get c s = Some (Some h, s1)" "held s1 h c" "rest s1 = rest s"
      "\<forall>d k. valid d \<longrightarrow> k < bsize (rest s) \<longrightarrow> view s1 d k = view s d k"
    using get_ok [OF assms] by blast
  let ?m = "modify h f s1"
  have m: "held ?m h c" "rest ?m = rest s1" "data ?m h = f (data s1 h)"
      "\<forall>d k. valid d \<longrightarrow> d \<noteq> c \<longrightarrow> k < bsize (rest s1) \<longrightarrow> view ?m d k = view s1 d k"
    using modify_ok [OF g(2)] by blast+
  obtain s2 where r: "release h ?m = Some s2" "idle s2" "rest s2 = rest ?m"
      "\<forall>d k. valid d \<longrightarrow> k < bsize (rest ?m) \<longrightarrow> view s2 d k = view ?m d k"
    using release_ok [OF m(1)] by blast
  have "\<forall>k<bsize (rest s). data s1 h k = view s c k" using data_view [OF g(2)] g(3,4) assms(2) by simp
  moreover have "\<forall>k<bsize (rest s). view s2 c k = f (data s1 h) k"
    using data_view [OF m(1)] m(2,3) r(4) g(3) assms(2) by simp
  moreover have "\<forall>d k. valid d \<longrightarrow> d \<noteq> c \<longrightarrow> k < bsize (rest s) \<longrightarrow> view s2 d k = view s d k"
    using m(2,4) r(4) g(3,4) by simp
  ultimately show thesis using that g(1,3) r(1,2,3) m(2) by simp
qed

end

end
