(* ===== verification/Fat12_Cache.thy ===== *)
theory Fat12_Cache
  imports Fat12_Fs Cache_Interface
begin

text \<open>
  The cluster cache of the FAT12 file system keeps the contract of a block cache: whatever mixture of
  cached, modified and uncached clusters there is, a caller sees one consistent content per cluster.
\<close>

section \<open>Runs of sectors\<close>

lemma read_sectors_spec:
  assumes "ide_ok dev d" and "\<forall>j. i \<le> j \<and> j < i + n \<longrightarrow> \<not> bad_sector dev d (word_of_nat j + lba)"
  shows "\<exists>d'. read_sectors dev lba 512 i n b d =
     Some (True, \<lambda>k. if 512 * i \<le> k \<and> k < 512 * (i + n) then run dev d lba k else b k, d') \<and> same_media d d'"
  using assms
proof (induction n arbitrary: i b d)
  case 0
  have "(\<lambda>k. if 512 * i \<le> k \<and> k < 512 * i then run dev d lba k else b k) = b" by (rule ext) auto
  then show ?case by simp
next
  case (Suc n)
  have good: "\<not> bad_sector dev d (lba + word_of_nat i)" using Suc.prems(2) by (simp add: add.commute)
  obtain d1 where r: "ide_read_sector dev (lba + word_of_nat i) (\<lambda>k. b (i * 512 + k)) d =
      Some (\<not> bad_sector dev d (lba + word_of_nat i), \<lambda>k. if \<not> bad_sector dev d (lba + word_of_nat i) \<and> k < 512 then sector dev d (lba + word_of_nat i) k else b (i * 512 + k), d1)"
    and m: "same_media d d1"
    by (rule ide_read_spec [OF Suc.prems(1)])
  let ?b = "\<lambda>k. if 512 * i \<le> k \<and> k < 512 * (i + 1) then run dev d lba k else b k"
  have "(\<lambda>k. if i * 512 \<le> k then (if k - i * 512 < 512 then sector dev d (lba + word_of_nat i) (k - i * 512) else b (i * 512 + (k - i * 512))) else b k) = ?b"
  proof
    fix k
    consider "k < 512 * i" | "512 * i \<le> k" "k < 512 * (i + 1)" | "512 * (i + 1) \<le> k" by linarith
    then show "(if i * 512 \<le> k then (if k - i * 512 < 512 then sector dev d (lba + word_of_nat i) (k - i * 512) else b (i * 512 + (k - i * 512))) else b k) = ?b k"
    proof cases
      case 2
      then have "k div 512 = i" "k mod 512 = k - i * 512" "k - i * 512 < 512" by (auto simp: div_nat_eqI minus_mult_div_eq_mod [symmetric] mult.commute)
      then show ?thesis using 2 by (simp add: run_def add.commute mult.commute)
    qed auto
  qed
  then have r1: "read_at dev (lba + word_of_nat i) (i * 512) b d = Some (True, ?b, d1)"
    unfolding read_at_def r using good by simp
  obtain d2 where r2: "read_sectors dev lba 512 (i + 1) n ?b d1 =
      Some (True, \<lambda>k. if 512 * (i + 1) \<le> k \<and> k < 512 * (i + 1 + n) then run dev d1 lba k else ?b k, d2)" "same_media d1 d2"
    using Suc.IH [of d1 "i + 1" ?b] Suc.prems same_media_sector [OF m, of dev] by auto
  have "(\<lambda>k. if 512 * (i + 1) \<le> k \<and> k < 512 * (i + 1 + n) then run dev d1 lba k else ?b k) =
      (\<lambda>k. if 512 * i \<le> k \<and> k < 512 * (i + Suc n) then run dev d lba k else b k)"
    by (rule ext) (auto simp: run_same [OF m])
  then show ?case using r1 r2 same_media_trans [OF m] by (intro exI [of _ d2]) simp
qed

lemma write_sectors_spec:
  assumes "ide_ok dev d" and "\<forall>j. i \<le> j \<and> j < i + n \<longrightarrow> \<not> bad_sector dev d (word_of_nat j + lba)"
    and "i + n + unat lba < 2 ^ 28"
  shows "\<exists>d'. write_sectors dev lba 512 i n b d = Some (True, d') \<and>
     only_sectors dev {i + unat lba..<i + n + unat lba} d d' \<and>
     (\<forall>k. 512 * i \<le> k \<and> k < 512 * (i + n) \<longrightarrow> run dev d' lba k = b k)"
  using assms
proof (induction n arbitrary: i d)
  case 0
  then show ?case by (auto simp: only_sectors_def)
next
  case (Suc n)
  have inv: "dev \<noteq> INVALID" using Suc.prems(1) by (simp add: ide_ok_def)
  have good: "\<not> bad_sector dev d (lba + word_of_nat i)" using Suc.prems(2) by (simp add: add.commute)
  obtain d1 where w: "ide_write_sector dev (lba + word_of_nat i) (\<lambda>k. b (i * 512 + k)) d = Some (True, d1)"
    and wr: "written dev (lba + word_of_nat i) (\<lambda>k. b (i * 512 + k)) d d1"
    by (rule ide_write_spec [OF Suc.prems(1), of "lba + word_of_nat i" "\<lambda>k. b (i * 512 + k)"]) (use good in auto)
  have u: "unat (lba + word_of_nat i) mod 2 ^ 28 = i + unat lba"
    using unat_lba [of i lba] Suc.prems(3) by (simp add: add.commute)
  note o1 = written_only [OF wr, unfolded u] and p1 = only_sectorsD [OF written_only [OF wr, unfolded u] inv]
  have "\<exists>d'. write_sectors dev lba 512 (i + 1) n b d1 = Some (True, d') \<and>
     only_sectors dev {i + 1 + unat lba..<i + 1 + n + unat lba} d1 d' \<and>
     (\<forall>k. 512 * (i + 1) \<le> k \<and> k < 512 * (i + 1 + n) \<longrightarrow> run dev d' lba k = b k)"
    by (rule Suc.IH) (use Suc.prems p1 in simp_all)
  then obtain d2 where w2: "write_sectors dev lba 512 (i + 1) n b d1 = Some (True, d2)"
    and o2: "only_sectors dev {i + 1 + unat lba..<i + 1 + n + unat lba} d1 d2"
    and e2: "\<forall>k. 512 * (i + 1) \<le> k \<and> k < 512 * (i + 1 + n) \<longrightarrow> run dev d2 lba k = b k" by blast
  have "run dev d2 lba k = b k" if "512 * i \<le> k" "k < 512 * (i + Suc n)" for k
  proof (cases "k < 512 * (i + 1)")
    case True
    then have k: "k div 512 = i" "k mod 512 = k - i * 512" using that by (auto simp: div_nat_eqI minus_mult_div_eq_mod [symmetric] mult.commute)
    have "unat (word_of_nat i + lba) mod 2 ^ 28 \<notin> {i + 1 + unat lba..<i + 1 + n + unat lba}" using u by (simp add: add.commute)
    then have "sector dev d2 (word_of_nat i + lba) = sector dev d1 (word_of_nat i + lba)" by (rule only_sectorsD(3) [OF o2 inv])
    then show ?thesis using written_sector [OF wr inv, of "k - i * 512"] that True by (simp add: run_def k add.commute)
  next
    case False
    then show ?thesis using e2 that by simp
  qed
  moreover have "{i + unat lba} \<union> {i + 1 + unat lba..<i + 1 + n + unat lba} = {i + unat lba..<i + Suc n + unat lba}" by auto
  then have "only_sectors dev {i + unat lba..<i + Suc n + unat lba} d d2" using only_sectors_trans [OF o1 o2] by simp
  ultimately show ?case using w w2 by (intro exI [of _ d2]) (simp add: write_at_def)
qed

section \<open>Clusters\<close>

definition valid_cluster :: "u16 \<Rightarrow> bool" where
  "valid_cluster c \<longleftrightarrow> 2 \<le> c \<and> c < 0xFF0"

definition clus_lba :: "FAT12_FS \<Rightarrow> u16 \<Rightarrow> u32" where
  "clus_lba fs c = data_start_sector fs + (ucast c - 2) * ucast (sectors_per_cluster (bpb fs))"

definition bsize :: "FAT12_FS \<Rightarrow> nat" where
  "bsize fs = 512 * unat (sectors_per_cluster (bpb fs))"

definition disk_cluster :: "FAT12_FS \<Rightarrow> u16 \<Rightarrow> bytes" where
  "disk_cluster fs c = run (device fs) (disks fs) (clus_lba fs c)"

text \<open>A mounted volume on a drive that works.\<close>

definition volume_ok :: "FAT12_FS \<Rightarrow> bool" where
  "volume_ok fs \<longleftrightarrow> ide_ok (device fs) (disks fs) \<and> (\<forall>l. \<not> bad_sector (device fs) (disks fs) l) \<and>
     bytes_per_sector (bpb fs) = 512 \<and> sectors_per_cluster (bpb fs) \<noteq> 0 \<and> data_start_sector fs \<noteq> 0 \<and>
     unat (data_start_sector fs) + 0xFEE * unat (sectors_per_cluster (bpb fs)) < 2 ^ 28"

lemma unat_up:
  "unat (ucast (x :: u16) :: u32) = unat x" "unat (ucast (y :: u8) :: u32) = unat y"
  using unat_bound [of x] unat_bound [of y] by (simp_all add: unsigned_ucast_eq take_bit_nat_eq_self)

lemma unat_cluster: "valid_cluster c \<Longrightarrow> 2 \<le> unat c \<and> unat c < 0xFF0"
  by (auto simp: valid_cluster_def word_le_nat_alt word_less_nat_alt)

lemma unat_clus_lba:
  assumes "volume_ok fs" and "valid_cluster c"
  shows "unat (clus_lba fs c) = unat (data_start_sector fs) + (unat c - 2) * unat (sectors_per_cluster (bpb fs))"
    and "unat (clus_lba fs c) + unat (sectors_per_cluster (bpb fs)) < 2 ^ 28"
proof -
  let ?s = "unat (sectors_per_cluster (bpb fs))"
  have c: "2 \<le> unat c" "unat c < 0xFF0" using unat_cluster [OF assms(2)] by auto
  have b: "unat (data_start_sector fs) + 0xFEE * ?s < 2 ^ 28" using assms(1) by (simp add: volume_ok_def)
  have "Suc (unat c - 2) * ?s \<le> 0xFEE * ?s" using c by (intro mult_right_mono) auto
  then have "(unat c - 2) * ?s + ?s \<le> 0xFEE * ?s" by simp
  then have l: "unat (data_start_sector fs) + (unat c - 2) * ?s + ?s < 2 ^ 28" using b by linarith
  then have sm: "(unat c - 2) * ?s < 2 ^ 28" by linarith
  have u: "unat (ucast c - 2 :: u32) = unat c - 2"
    using c by (subst unat_sub) (simp_all add: word_le_nat_alt unat_up)
  have m: "unat ((ucast c - 2) * ucast (sectors_per_cluster (bpb fs)) :: u32) = (unat c - 2) * ?s"
    using sm by (subst unat_mult_lem [THEN iffD1]) (simp_all add: u unat_up)
  show "unat (clus_lba fs c) = unat (data_start_sector fs) + (unat c - 2) * ?s"
    unfolding clus_lba_def using l by (subst unat_add_lem [THEN iffD1]) (simp_all add: m)
  then show "unat (clus_lba fs c) + ?s < 2 ^ 28" using l by simp
qed

lemma cluster2sector_ok: "volume_ok fs \<Longrightarrow> valid_cluster c \<Longrightarrow> cluster2sector fs c = Some (clus_lba fs c)"
  by (simp add: cluster2sector_def clus_lba_def volume_ok_def valid_cluster_def)

lemma geometry_unaffected [simp]:
  "cluster2sector (fs\<lparr>cache_pool := p\<rparr>) = cluster2sector fs" "cluster2sector (fs\<lparr>access_time := t\<rparr>) = cluster2sector fs"
  "clus_lba (fs\<lparr>cache_pool := p\<rparr>) = clus_lba fs" "clus_lba (fs\<lparr>access_time := t\<rparr>) = clus_lba fs"
  "clus_lba (fs\<lparr>disks := d\<rparr>) = clus_lba fs" "bsize (fs\<lparr>cache_pool := p\<rparr>) = bsize fs"
  "bsize (fs\<lparr>access_time := t\<rparr>) = bsize fs" "bsize (fs\<lparr>disks := d\<rparr>) = bsize fs"
  "volume_ok (fs\<lparr>cache_pool := p\<rparr>) = volume_ok fs" "volume_ok (fs\<lparr>access_time := t\<rparr>) = volume_ok fs"
  "disk_cluster (fs\<lparr>cache_pool := p\<rparr>) = disk_cluster fs" "disk_cluster (fs\<lparr>access_time := t\<rparr>) = disk_cluster fs"
  by (simp_all add: fun_eq_iff cluster2sector_def clus_lba_def bsize_def volume_ok_def disk_cluster_def)

text \<open>Two clusters do not share a sector.\<close>

lemma clusters_apart:
  assumes "volume_ok fs" and "valid_cluster c" and "valid_cluster d" and "c \<noteq> d" and "j < unat (sectors_per_cluster (bpb fs))"
  shows "j + unat (clus_lba fs d) \<notin> {unat (clus_lba fs c)..<unat (sectors_per_cluster (bpb fs)) + unat (clus_lba fs c)}"
proof -
  let ?s = "unat (sectors_per_cluster (bpb fs))"
  have ne: "unat c \<noteq> unat d" using assms(4) word_unat_eq_iff by blast
  have c: "2 \<le> unat c" "2 \<le> unat d" using unat_cluster assms(2,3) by auto
  consider "unat d < unat c" | "unat c < unat d" using ne by linarith
  then show ?thesis
  proof cases
    case 1
    then have "Suc (unat d - 2) * ?s \<le> (unat c - 2) * ?s" using c by (intro mult_right_mono) auto
    then show ?thesis using assms(5) by (simp add: unat_clus_lba(1) [OF assms(1)] assms(2,3))
  next
    case 2
    then have "Suc (unat c - 2) * ?s \<le> (unat d - 2) * ?s" using c by (intro mult_right_mono) auto
    then show ?thesis using assms(5) by (simp add: unat_clus_lba(1) [OF assms(1)] assms(2,3))
  qed
qed

lemma run_apart:
  assumes "only_sectors dev L d d'" and "dev \<noteq> INVALID" and "k < 512 * n" and "n + unat lba < 2 ^ 28"
    and "\<And>j. j < n \<Longrightarrow> j + unat lba \<notin> L"
  shows "run dev d' lba k = run dev d lba k"
proof -
  have k: "k div 512 < n" using assms(3) by (simp add: less_mult_imp_div_less mult.commute)
  then have "unat (word_of_nat (k div 512) + lba) mod 2 ^ 28 = k div 512 + unat lba" using assms(4) by (intro unat_lba) simp
  then have "sector dev d' (word_of_nat (k div 512) + lba) = sector dev d (word_of_nat (k div 512) + lba)"
    using only_sectorsD(3) [OF assms(1,2)] assms(5) [OF k] by simp
  then show ?thesis by (simp add: run_def)
qed

section \<open>The cache\<close>

definition clean_slot :: "FAT12_FS \<Rightarrow> nat \<Rightarrow> bool" where
  "clean_slot fs i \<longleftrightarrow> \<not> dirty (cache_pool fs i) \<and>
     (valid_cluster (cluster_num (cache_pool fs i)) \<longrightarrow>
       (\<forall>k<bsize fs. buf (cache_pool fs i) k = disk_cluster fs (cluster_num (cache_pool fs i)) k))"

definition no_aliases :: "FAT12_FS \<Rightarrow> bool" where
  "no_aliases fs \<longleftrightarrow> (\<forall>i<FAT12_MAX_CACHE. \<forall>j<FAT12_MAX_CACHE. valid_cluster (cluster_num (cache_pool fs i)) \<longrightarrow>
     cluster_num (cache_pool fs i) = cluster_num (cache_pool fs j) \<longrightarrow> i = j)"

definition cache_idle :: "FAT12_FS \<Rightarrow> bool" where
  "cache_idle fs \<longleftrightarrow> volume_ok fs \<and> no_aliases fs \<and> (\<forall>i<FAT12_MAX_CACHE. cb_refcount (cache_pool fs i) = 0 \<and> clean_slot fs i)"

definition cache_held :: "FAT12_FS \<Rightarrow> nat \<Rightarrow> u16 \<Rightarrow> bool" where
  "cache_held fs h c \<longleftrightarrow> volume_ok fs \<and> no_aliases fs \<and> h < FAT12_MAX_CACHE \<and> valid_cluster c \<and>
     cluster_num (cache_pool fs h) = c \<and> cb_refcount (cache_pool fs h) = 1 \<and> (dirty (cache_pool fs h) \<or> clean_slot fs h) \<and>
     (\<forall>i<FAT12_MAX_CACHE. i \<noteq> h \<longrightarrow> cb_refcount (cache_pool fs i) = 0 \<and> clean_slot fs i)"

definition cluster_view :: "FAT12_FS \<Rightarrow> u16 \<Rightarrow> bytes" where
  "cluster_view fs c = (case find_cache fs c of Some i \<Rightarrow> buf (cache_pool fs i) | None \<Rightarrow> disk_cluster fs c)"

definition modify_cluster :: "nat \<Rightarrow> (bytes \<Rightarrow> bytes) \<Rightarrow> FAT12_FS \<Rightarrow> FAT12_FS" where
  "modify_cluster h f fs = upd_cache h (\<lambda>b. b\<lparr>buf := f (buf b), dirty := True\<rparr>) fs"

text \<open>Everything but the cache pool, its clock and the disks.\<close>

definition beside_cache :: "FAT12_FS \<Rightarrow> FAT12_FS" where
  "beside_cache fs = fs\<lparr>cache_pool := (\<lambda>_. undefined), access_time := 0, disks := (\<lambda>_. undefined)\<rparr>"

lemma bsize_beside [simp]: "bsize (beside_cache fs) = bsize fs"
  by (simp add: bsize_def beside_cache_def)

lemma find_upt: "find P [0..<n] = Some i \<longleftrightarrow> i < n \<and> P i \<and> (\<forall>j<i. \<not> P j)"
proof
  assume "i < n \<and> P i \<and> (\<forall>j<i. \<not> P j)"
  then show "find P [0..<n] = Some i" unfolding find_Some_iff by (intro exI [of _ i]) auto
qed (auto simp: find_Some_iff)

lemma find_cache_Some:
  assumes "no_aliases fs" and "valid_cluster c"
  shows "find_cache fs c = Some i \<longleftrightarrow> i < FAT12_MAX_CACHE \<and> cluster_num (cache_pool fs i) = c"
  using assms unfolding find_cache_def find_upt no_aliases_def by (metis less_trans nat_neq_iff)

lemma find_cache_None: "find_cache fs c = None \<longleftrightarrow> (\<forall>i<FAT12_MAX_CACHE. cluster_num (cache_pool fs i) \<noteq> c)"
  by (auto simp: find_cache_def find_None_iff)

text \<open>What can be seen of a cluster, slot by slot.\<close>

lemma cluster_view_cached:
  "no_aliases fs \<Longrightarrow> i < FAT12_MAX_CACHE \<Longrightarrow> valid_cluster (cluster_num (cache_pool fs i)) \<Longrightarrow>
     cluster_view fs (cluster_num (cache_pool fs i)) = buf (cache_pool fs i)"
  using find_cache_Some [of fs "cluster_num (cache_pool fs i)" i] by (simp add: cluster_view_def)

lemma cluster_view_uncached: "\<forall>i<FAT12_MAX_CACHE. cluster_num (cache_pool fs i) \<noteq> c \<Longrightarrow> cluster_view fs c = disk_cluster fs c"
  by (simp add: cluster_view_def find_cache_None [THEN iffD2])

lemma cluster_view_clean:
  assumes "no_aliases fs" and "valid_cluster c" and "k < bsize fs"
    and "\<forall>i<FAT12_MAX_CACHE. cluster_num (cache_pool fs i) = c \<longrightarrow> clean_slot fs i"
  shows "cluster_view fs c k = disk_cluster fs c k"
proof (cases "\<exists>i<FAT12_MAX_CACHE. cluster_num (cache_pool fs i) = c")
  case True
  then obtain i where "i < FAT12_MAX_CACHE" "cluster_num (cache_pool fs i) = c" by blast
  then show ?thesis using assms cluster_view_cached [of fs i] by (auto simp: clean_slot_def)
qed (simp add: cluster_view_uncached)

section \<open>Fetching and releasing\<close>

lemmas volume_defs = volume_ok_def bsize_def clus_lba_def disk_cluster_def

text \<open>A change of the state that leaves the geometry and the disk contents alone.\<close>

definition same_volume :: "FAT12_FS \<Rightarrow> FAT12_FS \<Rightarrow> bool" where
  "same_volume fs fs' \<longleftrightarrow> bpb fs' = bpb fs \<and> data_start_sector fs' = data_start_sector fs \<and> device fs' = device fs \<and>
     same_media (disks fs) (disks fs')"

lemma same_volumeD:
  assumes "same_volume fs fs'"
  shows "volume_ok fs' \<longleftrightarrow> volume_ok fs" "bsize fs' = bsize fs" "disk_cluster fs' = disk_cluster fs"
  using assms same_media_sector [of "disks fs" "disks fs'" "device fs"]
  by (auto simp: same_volume_def volume_defs run_same fun_eq_iff)

lemma read_cluster_ok:
  assumes "volume_ok fs" and "valid_cluster (cluster_num (cache_pool fs i))"
  obtains t b d where
    "read_cluster i fs = Some (True, fs\<lparr>cache_pool := (cache_pool fs)(i := (cache_pool fs i)\<lparr>last_used_time := t, buf := b, dirty := False\<rparr>),
       access_time := access_time fs + 1, disks := d\<rparr>)"
    "same_media (disks fs) d" "\<forall>k<bsize fs. b k = disk_cluster fs (cluster_num (cache_pool fs i)) k"
proof -
  let ?c = "cluster_num (cache_pool fs i)" and ?s = "unat (sectors_per_cluster (bpb fs))"
  obtain d where r: "read_sectors (device fs) (clus_lba fs ?c) 512 0 ?s (buf (cache_pool fs i)) (disks fs) =
      Some (True, \<lambda>k. if k < 512 * ?s then run (device fs) (disks fs) (clus_lba fs ?c) k else buf (cache_pool fs i) k, d)"
    and d: "same_media (disks fs) d"
    using read_sectors_spec [of "device fs" "disks fs" 0 ?s "clus_lba fs ?c" "buf (cache_pool fs i)"] assms(1)
    by (auto simp: volume_ok_def)
  have c: "cluster2sector fs ?c = Some (clus_lba fs ?c)" by (rule cluster2sector_ok [OF assms])
  have b: "unat (bytes_per_sector (bpb fs)) = 512" using assms(1) by (simp add: volume_ok_def)
  show thesis
    by (rule that [where d = d and t = "access_time fs" and b = "\<lambda>k. if k < 512 * ?s then run (device fs) (disks fs) (clus_lba fs ?c) k else buf (cache_pool fs i) k"])
      (use c r b d in \<open>simp_all add: read_cluster_def upd_cache_def bsize_def disk_cluster_def Let_def\<close>)
qed

lemma write_cluster_ok:
  assumes "volume_ok fs" and "valid_cluster (cluster_num (cache_pool fs i))" and "dirty (cache_pool fs i)"
  obtains t d where
    "write_cluster i fs = Some (True, fs\<lparr>cache_pool := (cache_pool fs)(i := (cache_pool fs i)\<lparr>last_used_time := t, dirty := False\<rparr>),
       access_time := access_time fs + 1, disks := d\<rparr>)"
    "volume_ok (fs\<lparr>disks := d\<rparr>)"
    "\<forall>k<bsize fs. disk_cluster (fs\<lparr>disks := d\<rparr>) (cluster_num (cache_pool fs i)) k = buf (cache_pool fs i) k"
    "\<forall>c k. valid_cluster c \<and> c \<noteq> cluster_num (cache_pool fs i) \<and> k < bsize fs \<longrightarrow>
       disk_cluster (fs\<lparr>disks := d\<rparr>) c k = disk_cluster fs c k"
proof -
  let ?c = "cluster_num (cache_pool fs i)" and ?s = "unat (sectors_per_cluster (bpb fs))"
  note v = assms(1) [unfolded volume_ok_def]
  obtain d where w: "write_sectors (device fs) (clus_lba fs ?c) 512 0 ?s (buf (cache_pool fs i)) (disks fs) = Some (True, d)"
    and o: "only_sectors (device fs) {unat (clus_lba fs ?c)..<?s + unat (clus_lba fs ?c)} (disks fs) d"
    and r: "\<forall>k<512 * ?s. run (device fs) d (clus_lba fs ?c) k = buf (cache_pool fs i) k"
    using write_sectors_spec [of "device fs" "disks fs" 0 ?s "clus_lba fs ?c" "buf (cache_pool fs i)"] v
      unat_clus_lba(2) [OF assms(1,2)] by (auto simp: add.commute)
  have inv: "device fs \<noteq> INVALID" using v by (simp add: ide_ok_def)
  have c: "cluster2sector fs ?c = Some (clus_lba fs ?c)" by (rule cluster2sector_ok [OF assms(1,2)])
  have b: "unat (bytes_per_sector (bpb fs)) = 512" using v by simp
  have vd: "volume_ok (fs\<lparr>disks := d\<rparr>)" using v only_sectorsD(1,2) [OF o inv] by (simp add: volume_ok_def)
  have "run (device fs) d (clus_lba fs e) k = run (device fs) (disks fs) (clus_lba fs e) k"
    if "valid_cluster e" "e \<noteq> ?c" "k < bsize fs" for e k
    using that clusters_apart [OF assms(1,2), of e] unat_clus_lba(2) [OF assms(1), of e]
    by (intro run_apart [OF o inv, of _ ?s]) (auto simp: bsize_def add.commute)
  then show thesis using r vd c b w assms(3)
    by (intro that [where d = d and t = "access_time fs"]) (simp_all add: write_cluster_def upd_cache_def disk_cluster_def bsize_def Let_def)
qed

text \<open>
  Changing slot \<open>h\<close> of the pool: the other slots keep their state when the disk contents of their
  clusters do not change.
\<close>

lemma clean_slot_cong:
  assumes "cache_pool fs' i = cache_pool fs i" and "bsize fs' = bsize fs" and "clean_slot fs i"
    and "valid_cluster (cluster_num (cache_pool fs i)) \<Longrightarrow>
      \<forall>k<bsize fs. disk_cluster fs' (cluster_num (cache_pool fs i)) k = disk_cluster fs (cluster_num (cache_pool fs i)) k"
  shows "clean_slot fs' i"
  using assms by (auto simp: clean_slot_def)

lemma no_aliases_cong: "(\<And>i. cluster_num (cache_pool fs' i) = cluster_num (cache_pool fs i)) \<Longrightarrow> no_aliases fs' = no_aliases fs"
  by (simp add: no_aliases_def)

lemma find_cache_cong: "(\<And>i. cluster_num (cache_pool fs' i) = cluster_num (cache_pool fs i)) \<Longrightarrow> find_cache fs' = find_cache fs"
  by (simp add: find_cache_def fun_eq_iff)

lemma cluster_view_cong:
  assumes "\<And>i. cluster_num (cache_pool fs' i) = cluster_num (cache_pool fs i)" and "disk_cluster fs' d = disk_cluster fs d"
    and "\<And>i. cluster_num (cache_pool fs i) = d \<Longrightarrow> buf (cache_pool fs' i) = buf (cache_pool fs i)"
  shows "cluster_view fs' d = cluster_view fs d"
proof (cases "find_cache fs d")
  case (Some i)
  then have "cluster_num (cache_pool fs i) = d" by (auto simp: find_cache_def find_Some_iff)
  then show ?thesis using Some assms(3) by (simp add: cluster_view_def find_cache_cong [OF assms(1)])
qed (simp add: cluster_view_def find_cache_cong [OF assms(1)] assms(2))

lemma get_cached:
  assumes "cache_idle fs" and "valid_cluster c" and f: "find_cache fs c = Some i"
  shows "\<exists>h fs'. get_cache c fs = Some (Some h, fs') \<and> cache_held fs' h c \<and> beside_cache fs' = beside_cache fs \<and>
     (\<forall>d k. valid_cluster d \<longrightarrow> k < bsize fs \<longrightarrow> cluster_view fs' d k = cluster_view fs d k)"
proof -
  let ?fs = "upd_cache i (\<lambda>c. c\<lparr>cb_refcount := cb_refcount c + 1\<rparr>) fs"
  have i: "i < FAT12_MAX_CACHE" "cluster_num (cache_pool fs i) = c"
    using f assms by (simp_all add: find_cache_Some cache_idle_def)
  have g: "get_cache c fs = Some (Some i, ?fs)"
    using assms f by (simp add: get_cache_def valid_cluster_def not_less not_le)
  have n: "cluster_num (cache_pool ?fs j) = cluster_num (cache_pool fs j)" "buf (cache_pool ?fs j) = buf (cache_pool fs j)"
    "dirty (cache_pool ?fs j) = dirty (cache_pool fs j)" for j
    by (simp_all add: upd_cache_def)
  have v: "volume_ok ?fs = volume_ok fs" "bsize ?fs = bsize fs" "disk_cluster ?fs = disk_cluster fs"
    by (simp_all add: upd_cache_def)
  have "clean_slot ?fs j = clean_slot fs j" for j by (simp add: clean_slot_def n v)
  then have "cache_held ?fs i c"
    using assms i no_aliases_cong [OF n(1)] v(1) by (auto simp: cache_held_def cache_idle_def n) (simp_all add: upd_cache_def)
  moreover have "cluster_view ?fs d = cluster_view fs d" for d
    by (rule cluster_view_cong [OF n(1)]) (simp_all add: n v)
  ultimately show ?thesis using g by (auto simp: beside_cache_def upd_cache_def)
qed

lemma get_uncached:
  assumes idle: "cache_idle fs" and c: "valid_cluster c" and f: "find_cache fs c = None"
  shows "\<exists>h fs'. get_cache c fs = Some (Some h, fs') \<and> cache_held fs' h c \<and> beside_cache fs' = beside_cache fs \<and>
     (\<forall>d k. valid_cluster d \<longrightarrow> k < bsize fs \<longrightarrow> cluster_view fs' d k = cluster_view fs d k)"
proof -
  note v = idle [unfolded cache_idle_def]
  have z: "find (\<lambda>i. cb_refcount (cache_pool fs i) = 0) [0..<FAT12_MAX_CACHE] = Some 0"
    using v by (simp add: find_upt FAT12_MAX_CACHE_def)
  let ?fs = "upd_cache 0 (\<lambda>b. b\<lparr>cluster_num := c, cb_refcount := 1, dirty := False, last_used_time := access_time fs\<rparr>) fs"
  have n: "cluster_num (cache_pool ?fs 0) = c" by (simp add: upd_cache_def)
  have vo: "volume_ok ?fs" "bsize ?fs = bsize fs" "disk_cluster ?fs = disk_cluster fs" using v by (simp_all add: upd_cache_def)
  obtain t b d where r: "read_cluster 0 ?fs = Some (True, ?fs\<lparr>cache_pool := (cache_pool ?fs)(0 := (cache_pool ?fs 0)\<lparr>last_used_time := t, buf := b, dirty := False\<rparr>),
       access_time := access_time ?fs + 1, disks := d\<rparr>)"
    and d: "same_media (disks ?fs) d" and b: "\<forall>k<bsize ?fs. b k = disk_cluster ?fs (cluster_num (cache_pool ?fs 0)) k"
    by (rule read_cluster_ok [of ?fs 0]) (use c vo n in simp_all)
  define fs' where "fs' = ?fs\<lparr>cache_pool := (cache_pool ?fs)(0 := (cache_pool ?fs 0)\<lparr>last_used_time := t, buf := b, dirty := False\<rparr>),
       access_time := access_time ?fs + 1, disks := d\<rparr>"
  have g: "get_cache c fs = Some (Some 0, fs')"
    using c f z r by (simp add: get_cache_def valid_cluster_def not_less not_le fs'_def Let_def)
  have sv: "same_volume fs fs'" using d by (simp add: same_volume_def fs'_def upd_cache_def)
  have p: "cache_pool fs' = (cache_pool fs)(0 := (cache_pool fs 0)\<lparr>cluster_num := c, cb_refcount := 1, dirty := False, last_used_time := t, buf := b\<rparr>)"
    by (simp add: fs'_def upd_cache_def fun_eq_iff)
  have fresh: "\<forall>i<FAT12_MAX_CACHE. cluster_num (cache_pool fs i) \<noteq> c" using f by (simp add: find_cache_None)
  have na: "no_aliases fs'" using v fresh by (auto simp: no_aliases_def p)
  have cl: "clean_slot fs' i" if "i < FAT12_MAX_CACHE" for i
  proof (cases "i = 0")
    case True
    then show ?thesis using b n vo by (simp add: clean_slot_def same_volumeD [OF sv] p)
  next
    case False
    then show ?thesis using v that by (intro clean_slot_cong [of fs' i fs]) (simp_all add: p same_volumeD [OF sv])
  qed
  have "cache_held fs' 0 c"
    using v c cl na by (auto simp: cache_held_def same_volumeD [OF sv] p FAT12_MAX_CACHE_def)
  moreover have "cluster_view fs' e k = cluster_view fs e k" if "valid_cluster e" "k < bsize fs" for e k
    using that cluster_view_clean [of fs' e k] cluster_view_clean [of fs e k] na cl v by (simp add: same_volumeD [OF sv])
  moreover have "beside_cache fs' = beside_cache fs" by (simp add: beside_cache_def fs'_def upd_cache_def)
  ultimately show ?thesis using g by blast
qed

lemma modify_held:
  assumes "cache_held fs h c"
  shows "cache_held (modify_cluster h f fs) h c \<and> beside_cache (modify_cluster h f fs) = beside_cache fs \<and>
     buf (cache_pool (modify_cluster h f fs) h) = f (buf (cache_pool fs h)) \<and>
     (\<forall>d k. valid_cluster d \<longrightarrow> d \<noteq> c \<longrightarrow> k < bsize fs \<longrightarrow> cluster_view (modify_cluster h f fs) d k = cluster_view fs d k)"
proof -
  let ?fs = "modify_cluster h f fs"
  note a = assms [unfolded cache_held_def]
  have n: "cluster_num (cache_pool ?fs j) = cluster_num (cache_pool fs j)" "cb_refcount (cache_pool ?fs j) = cb_refcount (cache_pool fs j)"
    "j \<noteq> h \<Longrightarrow> cache_pool ?fs j = cache_pool fs j" for j
    by (simp_all add: modify_cluster_def upd_cache_def)
  have h: "dirty (cache_pool ?fs h)" "buf (cache_pool ?fs h) = f (buf (cache_pool fs h))" by (simp_all add: modify_cluster_def upd_cache_def)
  have v: "volume_ok ?fs = volume_ok fs" "bsize ?fs = bsize fs" "disk_cluster ?fs = disk_cluster fs"
    by (simp_all add: modify_cluster_def upd_cache_def)
  have "clean_slot ?fs j = clean_slot fs j" if "j \<noteq> h" for j using that by (simp add: clean_slot_def n v)
  then have "cache_held ?fs h c" using a no_aliases_cong [OF n(1)] h by (simp add: cache_held_def n(1,2) v)
  moreover have "cluster_view ?fs d = cluster_view fs d" if "valid_cluster d" "d \<noteq> c" for d
  proof (rule cluster_view_cong [OF n(1)])
    fix i assume "cluster_num (cache_pool fs i) = d"
    then have "i \<noteq> h" using that a by auto
    then show "buf (cache_pool ?fs i) = buf (cache_pool fs i)" by (simp add: n(3))
  qed (simp add: v)
  moreover have "beside_cache ?fs = beside_cache fs" by (simp add: beside_cache_def modify_cluster_def upd_cache_def)
  ultimately show ?thesis using h by simp
qed

text \<open>Writing back the one modified slot: all slots are clean afterwards and no cluster looks different.\<close>

definition quiet_but :: "nat \<Rightarrow> FAT12_FS \<Rightarrow> bool" where
  "quiet_but h fs \<longleftrightarrow> volume_ok fs \<and> no_aliases fs \<and> h < FAT12_MAX_CACHE \<and> valid_cluster (cluster_num (cache_pool fs h)) \<and>
     (\<forall>i<FAT12_MAX_CACHE. i \<noteq> h \<longrightarrow> clean_slot fs i)"

lemma write_back_slots:
  assumes "quiet_but h fs" and "dirty (cache_pool fs h)"
  obtains t d fs' where "write_cluster h fs = Some (True, fs')"
    "fs' = fs\<lparr>cache_pool := (cache_pool fs)(h := (cache_pool fs h)\<lparr>last_used_time := t, dirty := False\<rparr>),
       access_time := access_time fs + 1, disks := d\<rparr>"
    "volume_ok fs'" "\<forall>i<FAT12_MAX_CACHE. clean_slot fs' i"
    "\<forall>c k. valid_cluster c \<and> c \<noteq> cluster_num (cache_pool fs h) \<and> k < bsize fs \<longrightarrow> disk_cluster fs' c k = disk_cluster fs c k"
proof -
  note q = assms(1) [unfolded quiet_but_def]
  obtain t d where w: "write_cluster h fs = Some (True, fs\<lparr>cache_pool := (cache_pool fs)(h := (cache_pool fs h)\<lparr>last_used_time := t, dirty := False\<rparr>),
       access_time := access_time fs + 1, disks := d\<rparr>)"
    and vd: "volume_ok (fs\<lparr>disks := d\<rparr>)"
    and dc: "\<forall>k<bsize fs. disk_cluster (fs\<lparr>disks := d\<rparr>) (cluster_num (cache_pool fs h)) k = buf (cache_pool fs h) k"
    and de: "\<forall>c k. valid_cluster c \<and> c \<noteq> cluster_num (cache_pool fs h) \<and> k < bsize fs \<longrightarrow>
       disk_cluster (fs\<lparr>disks := d\<rparr>) c k = disk_cluster fs c k"
    by (rule write_cluster_ok [of fs h]) (use q assms(2) in simp_all)
  define fs' where "fs' = fs\<lparr>cache_pool := (cache_pool fs)(h := (cache_pool fs h)\<lparr>last_used_time := t, dirty := False\<rparr>),
       access_time := access_time fs + 1, disks := d\<rparr>"
  have v': "volume_ok fs'" "bsize fs' = bsize fs" "disk_cluster fs' = disk_cluster (fs\<lparr>disks := d\<rparr>)"
    using vd by (simp_all add: fs'_def volume_defs fun_eq_iff)
  have "clean_slot fs' j" if "j < FAT12_MAX_CACHE" for j
  proof (cases "j = h")
    case True
    then show ?thesis using dc v' by (simp add: clean_slot_def) (simp add: fs'_def)
  next
    case False
    then have "valid_cluster (cluster_num (cache_pool fs j)) \<Longrightarrow> cluster_num (cache_pool fs j) \<noteq> cluster_num (cache_pool fs h)"
      using q that by (auto simp: no_aliases_def)
    then show ?thesis using False q that de by (intro clean_slot_cong [of fs' j fs]) (auto simp: v', simp add: fs'_def)
  qed
  then show thesis using w v' de by (intro that [where fs' = fs' and t = t and d = d]) (simp_all add: fs'_def)
qed

lemma write_back:
  assumes "quiet_but h fs" and "dirty (cache_pool fs h)"
  obtains fs' where "write_cluster h fs = Some (True, fs')" "volume_ok fs'" "no_aliases fs'" "\<forall>i<FAT12_MAX_CACHE. clean_slot fs' i"
    "beside_cache fs' = beside_cache fs" "\<forall>c k. valid_cluster c \<longrightarrow> k < bsize fs \<longrightarrow> cluster_view fs' c k = cluster_view fs c k"
    "\<forall>i. cluster_num (cache_pool fs' i) = cluster_num (cache_pool fs i)" "\<forall>i. cb_refcount (cache_pool fs' i) = cb_refcount (cache_pool fs i)"
proof -
  note q = assms(1) [unfolded quiet_but_def]
  obtain t d fs' where w: "write_cluster h fs = Some (True, fs')"
    and fs': "fs' = fs\<lparr>cache_pool := (cache_pool fs)(h := (cache_pool fs h)\<lparr>last_used_time := t, dirty := False\<rparr>),
       access_time := access_time fs + 1, disks := d\<rparr>"
    and v: "volume_ok fs'" and cl: "\<forall>i<FAT12_MAX_CACHE. clean_slot fs' i"
    and de: "\<forall>c k. valid_cluster c \<and> c \<noteq> cluster_num (cache_pool fs h) \<and> k < bsize fs \<longrightarrow> disk_cluster fs' c k = disk_cluster fs c k"
    by (rule write_back_slots [OF assms])
  have n: "cluster_num (cache_pool fs' i) = cluster_num (cache_pool fs i)" "cb_refcount (cache_pool fs' i) = cb_refcount (cache_pool fs i)"
    "buf (cache_pool fs' i) = buf (cache_pool fs i)" for i by (simp_all add: fs')
  have bs: "bsize fs' = bsize fs" by (simp add: fs' bsize_def)
  have na: "no_aliases fs'" using q no_aliases_cong [OF n(1)] by simp
  have "cluster_view fs' e k = cluster_view fs e k" if "valid_cluster e" "k < bsize fs" for e k
  proof (cases "e = cluster_num (cache_pool fs h)")
    case True
    then show ?thesis using cluster_view_cached [OF na, of h] cluster_view_cached [of fs h] q n by simp
  next
    case False
    have "cluster_view fs' e k = disk_cluster fs' e k" by (rule cluster_view_clean [OF na]) (use that cl bs in auto)
    also have "\<dots> = disk_cluster fs e k" using de that False by simp
    also have "\<dots> = cluster_view fs e k" by (rule cluster_view_clean [symmetric]) (use q that False in auto)
    finally show ?thesis .
  qed
  moreover have "beside_cache fs' = beside_cache fs" by (simp add: fs' beside_cache_def)
  ultimately show thesis using that w v na cl n by blast
qed

lemma flush_held:
  assumes "cache_held fs h c"
  shows "\<exists>fs'. write_cluster h fs = Some (True, fs') \<and> cache_held fs' h c \<and> beside_cache fs' = beside_cache fs \<and>
     (\<forall>d k. valid_cluster d \<longrightarrow> k < bsize fs \<longrightarrow> cluster_view fs' d k = cluster_view fs d k)"
proof (cases "dirty (cache_pool fs h)")
  case True
  have "quiet_but h fs" using assms by (simp add: cache_held_def quiet_but_def)
  then obtain fs' where w: "write_cluster h fs = Some (True, fs')" "volume_ok fs'" "no_aliases fs'" "\<forall>i<FAT12_MAX_CACHE. clean_slot fs' i"
      "beside_cache fs' = beside_cache fs" "\<forall>c k. valid_cluster c \<longrightarrow> k < bsize fs \<longrightarrow> cluster_view fs' c k = cluster_view fs c k"
      "\<forall>i. cluster_num (cache_pool fs' i) = cluster_num (cache_pool fs i)" "\<forall>i. cb_refcount (cache_pool fs' i) = cb_refcount (cache_pool fs i)"
    by (rule write_back [OF _ True])
  then have "cache_held fs' h c" using assms by (simp add: cache_held_def)
  then show ?thesis using w by blast
next
  case False
  let ?fs = "(upd_cache h (\<lambda>c. c\<lparr>last_used_time := access_time fs\<rparr>) fs)\<lparr>access_time := access_time fs + 1\<rparr>"
  have n: "cluster_num (cache_pool ?fs j) = cluster_num (cache_pool fs j)" "dirty (cache_pool ?fs j) = dirty (cache_pool fs j)"
    "buf (cache_pool ?fs j) = buf (cache_pool fs j)" "cb_refcount (cache_pool ?fs j) = cb_refcount (cache_pool fs j)" for j
    by (simp_all add: upd_cache_def)
  have v: "volume_ok ?fs = volume_ok fs" "bsize ?fs = bsize fs" "disk_cluster ?fs = disk_cluster fs" by (simp_all add: upd_cache_def)
  have c: "clean_slot ?fs j = clean_slot fs j" for j by (simp only: clean_slot_def n v)
  have "cache_held ?fs h c" using assms no_aliases_cong [OF n(1)] unfolding cache_held_def n v c by blast
  moreover have "cluster_view ?fs d = cluster_view fs d" for d by (rule cluster_view_cong [OF n(1)]) (simp_all only: n v)
  moreover have "write_cluster h fs = Some (True, ?fs)"
    using False n(2) [of h] by (simp add: write_cluster_def Let_def) (simp add: upd_cache_def)
  ultimately show ?thesis by (intro exI [of _ ?fs]) (simp add: beside_cache_def upd_cache_def)
qed

lemma release_held:
  assumes "cache_held fs h c"
  shows "\<exists>fs'. release_cache h fs = Some fs' \<and> cache_idle fs' \<and> beside_cache fs' = beside_cache fs \<and>
     (\<forall>d k. valid_cluster d \<longrightarrow> k < bsize fs \<longrightarrow> cluster_view fs' d k = cluster_view fs d k)"
proof -
  note a = assms [unfolded cache_held_def]
  let ?fs = "upd_cache h (\<lambda>c. c\<lparr>cb_refcount := cb_refcount c - 1\<rparr>) fs"
  have n: "cluster_num (cache_pool ?fs j) = cluster_num (cache_pool fs j)" "dirty (cache_pool ?fs j) = dirty (cache_pool fs j)"
    "buf (cache_pool ?fs j) = buf (cache_pool fs j)" for j
    by (simp_all add: upd_cache_def)
  have v: "volume_ok ?fs = volume_ok fs" "bsize ?fs = bsize fs" "disk_cluster ?fs = disk_cluster fs" by (simp_all add: upd_cache_def)
  have clean: "clean_slot ?fs j = clean_slot fs j" for j by (simp add: clean_slot_def n v)
  have rc: "cb_refcount (cache_pool ?fs j) = 0" if "j < FAT12_MAX_CACHE" for j using a that by (simp add: upd_cache_def)
  have view: "cluster_view ?fs d = cluster_view fs d" for d by (rule cluster_view_cong [OF n(1)]) (simp_all add: n v)
  have beside: "beside_cache ?fs = beside_cache fs" by (simp add: beside_cache_def upd_cache_def)
  have na: "no_aliases ?fs" using a no_aliases_cong [OF n(1)] by simp
  show ?thesis
  proof (cases "dirty (cache_pool fs h)")
    case False
    then have "release_cache h fs = Some ?fs" using a by (simp add: release_cache_def n(2) Let_def)
    moreover have "cache_idle ?fs" using a rc False clean na by (simp add: cache_idle_def v) blast
    ultimately show ?thesis using view beside by simp
  next
    case True
    have "quiet_but h ?fs" using a na clean by (simp add: quiet_but_def n v)
    then obtain fs' where w: "write_cluster h ?fs = Some (True, fs')" "volume_ok fs'" "no_aliases fs'" "\<forall>i<FAT12_MAX_CACHE. clean_slot fs' i"
        "beside_cache fs' = beside_cache ?fs" "\<forall>c k. valid_cluster c \<longrightarrow> k < bsize ?fs \<longrightarrow> cluster_view fs' c k = cluster_view ?fs c k"
        "\<forall>i. cb_refcount (cache_pool fs' i) = cb_refcount (cache_pool ?fs i)"
      by (rule write_back) (use True n in simp_all)
    then have "\<not> dirty (cache_pool fs' h)" using a by (simp add: clean_slot_def)
    then have "(cache_pool fs' h)\<lparr>dirty := False\<rparr> = cache_pool fs' h" by (cases "cache_pool fs' h") simp
    then have "upd_cache h (\<lambda>c. c\<lparr>dirty := False\<rparr>) fs' = fs'" by (simp add: upd_cache_def)
    then have "release_cache h fs = Some fs'" using a True w rc by (simp add: release_cache_def n(2) Let_def)
    moreover have "cache_idle fs'" using w rc by (simp add: cache_idle_def)
    ultimately show ?thesis using w(5,6) view beside v by simp
  qed
qed

interpretation cache: block_cache cache_idle cache_held valid_cluster cluster_view beside_cache bsize get_cache release_cache
  "\<lambda>fs h. buf (cache_pool fs h)" modify_cluster
proof
  fix fs c assume "cache_idle fs" "valid_cluster c"
  then show "\<exists>h fs'. get_cache c fs = Some (Some h, fs') \<and> cache_held fs' h c \<and> beside_cache fs' = beside_cache fs \<and>
      (\<forall>d k. valid_cluster d \<longrightarrow> k < bsize (beside_cache fs) \<longrightarrow> cluster_view fs' d k = cluster_view fs d k)"
    using get_cached [of fs c] get_uncached [of fs c] by (cases "find_cache fs c") simp_all
next
  fix fs h c k assume "cache_held fs h c"
  then show "buf (cache_pool fs h) k = cluster_view fs c k"
    using cluster_view_cached [of fs h] by (auto simp: cache_held_def)
next
  fix fs h c f assume "cache_held fs h c"
  then show "cache_held (modify_cluster h f fs) h c \<and> beside_cache (modify_cluster h f fs) = beside_cache fs \<and>
      buf (cache_pool (modify_cluster h f fs) h) = f (buf (cache_pool fs h)) \<and>
      (\<forall>d k. valid_cluster d \<longrightarrow> d \<noteq> c \<longrightarrow> k < bsize (beside_cache fs) \<longrightarrow> cluster_view (modify_cluster h f fs) d k = cluster_view fs d k)"
    using modify_held [of fs h c f] by simp
next
  fix fs h c assume "cache_held fs h c"
  then show "\<exists>fs'. release_cache h fs = Some fs' \<and> cache_idle fs' \<and> beside_cache fs' = beside_cache fs \<and>
      (\<forall>d k. valid_cluster d \<longrightarrow> k < bsize (beside_cache fs) \<longrightarrow> cluster_view fs' d k = cluster_view fs d k)"
    using release_held [of fs h c] by simp
qed

end
