(* ===== verification/Fat12_Io.thy ===== *)
theory Fat12_Io
  imports Fat12_Cache
begin

text \<open>
  Files of the FAT12 file system as byte sequences.  A file is the chain of clusters that starts at its
  first cluster; its contents are what the cluster cache shows of them.  Reading returns the bytes of
  the requested range and writing changes exactly those, whatever is cached.
\<close>

section \<open>Chains and contents\<close>

fun links :: "FAT12_FS \<Rightarrow> u16 \<Rightarrow> u16 list \<Rightarrow> bool" where
  "links fs c [] \<longleftrightarrow> 0xFF8 \<le> c"
| "links fs c (x # xs) \<longleftrightarrow> x = c \<and> valid_cluster c \<and> links fs (fat_next fs c) xs"

definition contents :: "FAT12_FS \<Rightarrow> u16 list \<Rightarrow> bytes" where
  "contents fs cs k = cluster_view fs (cs ! (k div bsize fs)) (k mod bsize fs)"

definition io_ok :: "FAT12_FS \<Rightarrow> bool" where
  "io_ok fs \<longleftrightarrow> cache_idle fs \<and> unat (cluster_size fs) = bsize fs \<and> bsize fs < 2 ^ 16"

lemma bsize_pos: "io_ok fs \<Longrightarrow> 0 < bsize fs"
  by (auto simp: io_ok_def cache_idle_def volume_ok_def bsize_def unat_gt_0)

lemma links_valid: "links fs c cs \<Longrightarrow> x \<in> set cs \<Longrightarrow> valid_cluster x"
  by (induction cs arbitrary: c) auto

text \<open>States that differ at most in the clusters \<open>D\<close>, and states with the same files.\<close>

definition files_but :: "u16 set \<Rightarrow> FAT12_FS \<Rightarrow> FAT12_FS \<Rightarrow> bool" where
  "files_but D fs fs' \<longleftrightarrow> beside_cache fs' = beside_cache fs \<and>
     (\<forall>c k. valid_cluster c \<longrightarrow> c \<notin> D \<longrightarrow> k < bsize fs \<longrightarrow> cluster_view fs' c k = cluster_view fs c k)"

abbreviation same_files :: "FAT12_FS \<Rightarrow> FAT12_FS \<Rightarrow> bool" where
  "same_files \<equiv> files_but {}"

lemma besideD:
  assumes "beside_cache fs' = beside_cache fs"
  shows "fat_table fs' = fat_table fs" "cluster_size fs' = cluster_size fs" "bsize fs' = bsize fs" "inodepool fs' = inodepool fs"
    "links fs' c cs = links fs c cs" "fat_next fs' = fat_next fs" "this fs' = this fs"
proof -
  have f: "fat_table (beside_cache fs') = fat_table (beside_cache fs)" "cluster_size (beside_cache fs') = cluster_size (beside_cache fs)"
    "bsize (beside_cache fs') = bsize (beside_cache fs)" "inodepool (beside_cache fs') = inodepool (beside_cache fs)"
    "this (beside_cache fs') = this (beside_cache fs)"
    using assms by simp_all
  then show t: "fat_table fs' = fat_table fs" "cluster_size fs' = cluster_size fs" "bsize fs' = bsize fs" "inodepool fs' = inodepool fs"
    "this fs' = this fs"
    by (simp_all add: beside_cache_def bsize_def)
  then show n: "fat_next fs' = fat_next fs" by (simp add: fun_eq_iff fat_next_def)
  show "links fs' c cs = links fs c cs" by (induction cs arbitrary: c) (simp_all add: n)
qed

lemma same_filesI: "cache.same fs fs' \<Longrightarrow> same_files fs fs'"
  by (simp add: cache.same_def files_but_def)

lemma files_but_refl [simp]: "files_but D fs fs"
  by (simp add: files_but_def)

lemma files_but_trans: "files_but D fs gs \<Longrightarrow> files_but E gs hs \<Longrightarrow> files_but (D \<union> E) fs hs"
  using besideD(3) [of gs fs] by (simp add: files_but_def)

lemmas same_files_trans = files_but_trans [where D = "{}" and E = "{}", simplified]

lemma files_but_io: "files_but D fs fs' \<Longrightarrow> cache_idle fs' \<Longrightarrow> io_ok fs \<Longrightarrow> io_ok fs'"
  using besideD [of fs' fs] by (simp add: files_but_def io_ok_def)

lemma files_but_contents:
  assumes "files_but D fs fs'" and "links fs c cs" and "set cs \<inter> D = {}" and "io_ok fs" and "k < length cs * bsize fs"
  shows "contents fs' cs k = contents fs cs k"
proof -
  have "k div bsize fs < length cs" using assms(5) by (simp add: less_mult_imp_div_less)
  then have "cs ! (k div bsize fs) \<in> set cs" by simp
  then have "valid_cluster (cs ! (k div bsize fs))" "cs ! (k div bsize fs) \<notin> D" using links_valid [OF assms(2)] assms(3) by auto
  then show ?thesis using assms(1) bsize_pos [OF assms(4)] besideD(3) [of fs' fs] by (simp add: files_but_def contents_def)
qed

text \<open>A chain that ends visits no cluster twice.\<close>

lemma links_unique: "links fs c xs \<Longrightarrow> links fs c ys \<Longrightarrow> xs = ys"
proof (induction xs arbitrary: c ys)
  case Nil
  then show ?case using unat_cluster [of c] by (cases ys) (auto simp: word_le_nat_alt)
next
  case (Cons x xs)
  then show ?case using unat_cluster [of c] by (cases ys) (auto simp: word_le_nat_alt)
qed

lemma links_drop: "links fs c cs \<Longrightarrow> n < length cs \<Longrightarrow> links fs (cs ! n) (drop n cs)"
  by (induction cs arbitrary: c n) (auto simp: nth_Cons' drop_Cons')

lemma links_distinct: "links fs c cs \<Longrightarrow> distinct cs"
proof (rule ccontr)
  assume l: "links fs c cs" and "\<not> distinct cs"
  then obtain i j where ij: "i < length cs" "j < length cs" "i \<noteq> j" "cs ! i = cs ! j" by (auto simp: distinct_conv_nth)
  then have "drop i cs = drop j cs" using links_unique links_drop [OF l] by metis
  then have "length (drop i cs) = length (drop j cs)" by simp
  then show False using ij by simp
qed

lemma contents_Cons:
  assumes "io_ok fs"
  shows "k < bsize fs \<Longrightarrow> contents fs (c # cs) k = cluster_view fs c k"
    and "bsize fs \<le> k \<Longrightarrow> contents fs (c # cs) k = contents fs cs (k - bsize fs)"
  using bsize_pos [OF assms] by (simp_all add: contents_def le_div_geq le_mod_geq)

section \<open>Finding the cluster of an offset\<close>

lemma skip_clusters_ok:
  assumes "links fs c cs" and "unat (cluster_size fs) = bsize fs" and "0 < bsize fs" and "unat off < length cs * bsize fs"
  shows "\<exists>o'. skip_clusters fs c off = Some (Some (cs ! (unat off div bsize fs), o')) \<and> unat o' = unat off mod bsize fs \<and>
     links fs (cs ! (unat off div bsize fs)) (drop (unat off div bsize fs) cs)"
  using assms(1,4)
proof (induction cs arbitrary: c off)
  case (Cons x xs)
  then have x: "x = c" "valid_cluster c" "links fs (fat_next fs c) xs" by auto
  have v: "\<not> (c < 2 \<or> 0xFF8 < c)" using unat_cluster [OF x(2)] by (simp add: word_less_nat_alt)
  show ?case
  proof (cases "cluster_size fs \<le> off")
    case False
    then have "unat off < bsize fs" using assms(2) by (simp add: word_le_nat_alt)
    then show ?thesis using Cons.prems False x(1) by (subst skip_clusters.simps) simp
  next
    case True
    then have le: "bsize fs \<le> unat off" using assms(2) by (simp add: word_le_nat_alt)
    have u: "unat (off - cluster_size fs) = unat off - bsize fs" using True assms(2) by (simp add: unat_sub)
    have d: "unat off div bsize fs = Suc ((unat off - bsize fs) div bsize fs)" "unat off mod bsize fs = (unat off - bsize fs) mod bsize fs"
      using le assms(3) by (simp_all add: le_div_geq le_mod_geq)
    have "unat (off - cluster_size fs) < length xs * bsize fs" using Cons.prems(2) le u by simp
    from Cons.IH [OF x(3) this] show ?thesis
      unfolding d u by (subst skip_clusters.simps) (simp add: True v)
  qed
qed simp

lemma unat_down: "unat w < 2 ^ 16 \<Longrightarrow> unat (ucast w :: u16) = unat w" for w :: u32
  by (simp add: unsigned_ucast_eq take_bit_nat_eq_self)

lemma unat_chunk_of:
  assumes "unat (cluster_size fs) = bsize fs" and "bsize fs < 2 ^ 16"
  shows "unat (chunk_of sz fs) = min (unat sz) (bsize fs)"
proof -
  let ?m = "if sz < cluster_size fs then sz else cluster_size fs"
  have m: "unat ?m = min (unat sz) (bsize fs)" using assms(1) by (simp add: word_less_nat_alt)
  have lt: "unat ?m < 2 ^ 16" unfolding m using assms(2) by simp
  have "unat (chunk_of sz fs) = unat (ucast ?m :: u16)" unfolding chunk_of_def by (rule unat_up(1))
  also have "\<dots> = unat ?m" by (rule unat_down [OF lt])
  also note m
  finally show ?thesis .
qed

lemma sint_small: "sint w = int (unat w)" if "unat w < 2 ^ 31" for w :: u32
proof -
  have "uint w < 2 ^ 31" using that by (simp only: uint_nat of_nat_less_iff [where 'a = int, symmetric]) simp
  moreover have "0 \<le> uint w" by simp
  ultimately have "signed_take_bit 31 (uint w) = uint w" by (intro signed_take_bit_int_eq_self) linarith+
  then have "sint w = uint w" by (simp add: sint_uint)
  then show ?thesis by (simp only: uint_nat)
qed

lemma pos_sint: "0 < sint w \<longleftrightarrow> 0 < unat w" if "unat w < 2 ^ 31" for w :: u32
  unfolding sint_small [OF that] by (rule of_nat_0_less_iff)

section \<open>Reading\<close>

lemma read_clusters_ok:
  assumes "io_ok fs" and "links fs c cs" and "unat sz \<le> length cs * bsize fs" and "unat rd + unat sz < 2 ^ 31"
  shows "\<exists>fs'. read_clusters sz c rd out fs =
       Some (rd + sz, \<lambda>k. if unat rd \<le> k \<and> k < unat rd + unat sz then contents fs cs (k - unat rd) else out k, fs') \<and>
     cache_idle fs' \<and> same_files fs fs'"
  using assms
proof (induction cs arbitrary: c sz rd out fs)
  case Nil
  then have "sz = 0" by (simp add: unat_eq_zero)
  then show ?case using Nil by (subst read_clusters.simps) (auto simp: io_ok_def fun_eq_iff)
next
  case (Cons x xs)
  then have x: "x = c" "valid_cluster c" "links fs (fat_next fs c) xs" by auto
  have idle: "cache_idle fs" and cs: "unat (cluster_size fs) = bsize fs" and b: "bsize fs < 2 ^ 16"
    using Cons.prems(1) by (auto simp: io_ok_def)
  show ?case
  proof (cases "sz = 0")
    case True
    then show ?thesis using idle by (subst read_clusters.simps) (auto simp: fun_eq_iff)
  next
    case False
    then have z: "0 < sint sz" using Cons.prems(4) by (simp add: pos_sint unat_gt_0)
    have v: "2 \<le> c" "c < 0xFF8" using unat_cluster [OF x(2)] by (simp_all add: word_less_nat_alt word_le_nat_alt)
    obtain h fs1 fs2 where g: "get_cache c fs = Some (Some h, fs1)" "\<forall>k<bsize fs. buf (cache_pool fs1 h) k = cluster_view fs c k"
        "release_cache h fs1 = Some fs2" "cache_idle fs2" "same_files fs fs2"
      by (rule cache.read_block [OF idle x(2)]) (simp add: same_filesI)
    note same = g(5) and be = besideD [of fs2 fs]
    have be2: "beside_cache fs2 = beside_cache fs" using same by (simp add: files_but_def)
    let ?ch = "chunk_of sz fs"
    have uc: "unat ?ch = min (unat sz) (bsize fs)" by (rule unat_chunk_of [OF cs b])
    have le: "?ch \<le> sz" using uc by (simp add: word_le_nat_alt)
    have us: "unat (sz - ?ch) = unat sz - unat ?ch" using le by (simp add: unat_sub)
    have ur: "unat (rd + ?ch) = unat rd + unat ?ch" using Cons.prems(4) uc by (subst unat_add_lem [THEN iffD1]) auto
    have io2: "io_ok fs2" by (rule files_but_io [OF same g(4) Cons.prems(1)])
    let ?out = "copy_into (unat rd) (unat ?ch) (buf (cache_pool fs1 h)) 0 out"
    have "\<exists>fs'. read_clusters (sz - ?ch) (fat_next fs2 c) (rd + ?ch) ?out fs2 =
         Some (rd + ?ch + (sz - ?ch), \<lambda>k. if unat (rd + ?ch) \<le> k \<and> k < unat (rd + ?ch) + unat (sz - ?ch)
            then contents fs2 xs (k - unat (rd + ?ch)) else ?out k, fs') \<and> cache_idle fs' \<and> same_files fs2 fs'"
      by (rule Cons.IH [OF io2]) (use x be [OF be2] Cons.prems(3,4) us ur uc in auto)
    then obtain fs' where r: "read_clusters (sz - ?ch) (fat_next fs2 c) (rd + ?ch) ?out fs2 =
         Some (rd + sz, \<lambda>k. if unat (rd + ?ch) \<le> k \<and> k < unat (rd + ?ch) + unat (sz - ?ch)
            then contents fs2 xs (k - unat (rd + ?ch)) else ?out k, fs')" "cache_idle fs'" "same_files fs2 fs'"
      by auto
    have "(\<lambda>k. if unat (rd + ?ch) \<le> k \<and> k < unat (rd + ?ch) + unat (sz - ?ch) then contents fs2 xs (k - unat (rd + ?ch)) else ?out k) =
        (\<lambda>k. if unat rd \<le> k \<and> k < unat rd + unat sz then contents fs (x # xs) (k - unat rd) else out k)"
    proof
      fix k
      consider "k < unat rd + unat ?ch" | "unat rd + unat ?ch \<le> k" by linarith
      then show "(if unat (rd + ?ch) \<le> k \<and> k < unat (rd + ?ch) + unat (sz - ?ch) then contents fs2 xs (k - unat (rd + ?ch)) else ?out k) =
        (if unat rd \<le> k \<and> k < unat rd + unat sz then contents fs (x # xs) (k - unat rd) else out k)"
      proof cases
        case 1
        then show ?thesis using g(2) ur uc x(1) contents_Cons(1) [OF Cons.prems(1), of "k - unat rd" c xs]
          by (auto simp: copy_into_def)
      next
        case 2
        show ?thesis
        proof (cases "k < unat rd + unat sz")
          case True
          then have ch: "unat ?ch = bsize fs" using 2 uc by linarith
          then have "contents fs2 xs (k - unat rd - bsize fs) = contents fs xs (k - unat rd - bsize fs)"
            using files_but_contents [OF same x(3) _ Cons.prems(1)] True 2 Cons.prems(3) by simp
          then show ?thesis using True 2 ur us uc ch contents_Cons(2) [OF Cons.prems(1), of "k - unat rd" x xs] by simp
        next
          case False
          then show ?thesis using 2 ur us uc by (auto simp: copy_into_def)
        qed
      qed
    qed
    then show ?thesis using r z v g(1,3) same_files_trans [OF same]
      by (subst read_clusters.simps) (simp add: Let_def)
  qed
qed

text \<open>The range of a request, cut off at the end of the file.\<close>

definition span :: "u32 \<Rightarrow> u32 \<Rightarrow> u32 \<Rightarrow> nat" where
  "span sz off fsize = min (unat sz) (unat fsize - unat off)"

text \<open>Inode \<open>i\<close> is an open file on the chain \<open>cs\<close>.\<close>

definition open_file :: "FAT12_FS \<Rightarrow> nat \<Rightarrow> u16 list \<Rightarrow> bool" where
  "open_file fs i cs \<longleftrightarrow> fat12_fs (inode fs i) = this fs \<and> links fs (ino_start_cluster (inode fs i)) cs \<and>
     ino_attr (inode fs i) AND (DIRECTORY OR VOLUME_ID) = 0 \<and> unat (ino_size (inode fs i)) \<le> length cs * bsize fs \<and>
     unat (ino_size (inode fs i)) < 2 ^ 31"

lemma io_check_ok:
  assumes "open_file fs i cs" and "2 \<le> ino_start_cluster (inode fs i)"
    and "unat off < unat (ino_size (inode fs i))" and "0 < unat sz" and "unat sz < 2 ^ 31"
  obtains n where "io_check (Some i) sz off fs = Inr (i, n)" and "unat n = span sz off (ino_size (inode fs i))"
proof -
  let ?s = "ino_size (inode fs i)"
  note f = assms(1) [unfolded open_file_def]
  have so: "0 \<le> sint off" using assms(3) f by (simp add: sint_small)
  have sz: "0 < sint sz" using assms(4,5) by (simp add: pos_sint)
  have a: "ino_attr (inode fs i) AND DIRECTORY = 0" "ino_attr (inode fs i) AND VOLUME_ID = 0"
    using f by (simp_all add: bit.conj_disj_distrib or_eq_0_iff)
  have u: "unat (sz + off) = unat sz + unat off" using assms(3,5) f by (subst unat_add_lem [THEN iffD1]) auto
  have "unat (if ?s < sz + off then ?s - off else sz) = span sz off ?s"
    using assms(3) u by (auto simp: span_def word_less_nat_alt unat_sub word_le_nat_alt)
  moreover have "io_check (Some i) sz off fs = Inr (i, if ?s < sz + off then ?s - off else sz)"
    using assms(2,3) f so sz a by (simp add: io_check_def Let_def not_less word_le_nat_alt word_less_nat_alt)
  ultimately show thesis by (rule that [rotated])
qed

lemma contents_append:
  assumes "io_ok fs"
  shows "contents fs (ys @ zs) (length ys * bsize fs + k) = contents fs zs k"
    and "k < length ys * bsize fs \<Longrightarrow> contents fs (ys @ zs) k = contents fs ys k"
  using bsize_pos [OF assms] by (simp_all add: contents_def nth_append less_mult_imp_div_less)

text \<open>A request splits the chain: the clusters before the offset, the cluster of the offset, the rest.\<close>

lemma locate:
  assumes io: "io_ok fs" and f: "open_file fs i cs" and off: "unat off < unat (ino_size (inode fs i))" and sz: "0 < unat sz" "unat sz < 2 ^ 31"
  obtains n o' ys x xs where "io_check (Some i) sz off fs = Inr (i, n)" "unat n = span sz off (ino_size (inode fs i))" "unat n < 2 ^ 31"
    "skip_clusters fs (ino_start_cluster (inode fs i)) off = Some (Some (x, o'))" "unat o' < bsize fs"
    "cs = ys @ x # xs" "unat off = length ys * bsize fs + unat o'" "valid_cluster x" "links fs (fat_next fs x) xs"
    "unat n + unat o' \<le> length (x # xs) * bsize fs"
proof -
  let ?s = "ino_start_cluster (inode fs i)" and ?q = "unat off div bsize fs"
  note ff = f [unfolded open_file_def]
  have pos: "0 < bsize fs" by (rule bsize_pos [OF io])
  have lt: "unat off < length cs * bsize fs" using off ff by simp
  then have "cs \<noteq> []" by auto
  then have "2 \<le> ?s" using ff by (cases cs) (auto simp: valid_cluster_def)
  then obtain n where n: "io_check (Some i) sz off fs = Inr (i, n)" "unat n = span sz off (ino_size (inode fs i))"
    using io_check_ok [OF f _ off sz] by blast
  obtain o' where sk: "skip_clusters fs ?s off = Some (Some (cs ! ?q, o'))" and o': "unat o' = unat off mod bsize fs"
    and ld: "links fs (cs ! ?q) (drop ?q cs)"
    using skip_clusters_ok [of fs ?s cs off] ff io pos lt by (auto simp: io_ok_def)
  have q: "?q < length cs" using lt by (simp add: less_mult_imp_div_less)
  have dr: "drop ?q cs = cs ! ?q # drop (Suc ?q) cs" using q by (simp add: Cons_nth_drop_Suc)
  have sp: "cs = take ?q cs @ cs ! ?q # drop (Suc ?q) cs" using q by (simp add: id_take_nth_drop [symmetric])
  have oq: "unat off = length (take ?q cs) * bsize fs + unat o'" using q by (simp add: o' min_absorb2)
  have "unat n + unat off \<le> length cs * bsize fs" using n(2) ff off by (auto simp: span_def)
  also have "length cs = length (take ?q cs) + length (cs ! ?q # drop (Suc ?q) cs)" using sp by (metis length_append)
  finally have "unat n + unat off \<le> length (take ?q cs) * bsize fs + length (cs ! ?q # drop (Suc ?q) cs) * bsize fs"
    by (simp only: add_mult_distrib)
  then have nl: "unat n + unat o' \<le> length (cs ! ?q # drop (Suc ?q) cs) * bsize fs" using oq by linarith
  show thesis
    by (rule that [OF n(1) n(2) _ sk _ sp oq _ _ nl]) (use n(2) sz(2) pos o' ld dr in \<open>auto simp: span_def\<close>)
qed

lemma FAT12_read_ok:
  assumes "io_ok fs" and "open_file fs i cs" and "unat off < unat (ino_size (inode fs i))" and "0 < unat sz" and "unat sz < 2 ^ 31"
  shows "\<exists>n fs'. FAT12_read (Some i) out sz off fs =
       Some (n, \<lambda>k. if k < unat n then contents fs cs (unat off + k) else out k, fs') \<and>
     unat n = span sz off (ino_size (inode fs i)) \<and> cache_idle fs' \<and> same_files fs fs'"
proof -
  obtain n o' ys x xs where n: "io_check (Some i) sz off fs = Inr (i, n)" "unat n = span sz off (ino_size (inode fs i))" "unat n < 2 ^ 31"
    and sk: "skip_clusters fs (ino_start_cluster (inode fs i)) off = Some (Some (x, o'))" and o': "unat o' < bsize fs"
    and sp: "cs = ys @ x # xs" "unat off = length ys * bsize fs + unat o'" and x: "valid_cluster x" "links fs (fat_next fs x) xs"
    and nl: "unat n + unat o' \<le> length (x # xs) * bsize fs"
    by (rule locate [OF assms])
  have split: "contents fs cs (unat off + k) = contents fs (x # xs) (unat o' + k)" for k
    using contents_append(1) [OF assms(1), of ys "x # xs" "unat o' + k"] by (simp add: sp add.assoc)
  have idle: "cache_idle fs" and us: "unat (cluster_size fs) = bsize fs" using assms(1) by (auto simp: io_ok_def)
  obtain h fs1 fs2 where g: "get_cache x fs = Some (Some h, fs1)" "\<forall>k<bsize fs. buf (cache_pool fs1 h) k = cluster_view fs x k"
      "beside_cache fs1 = beside_cache fs" "release_cache h fs1 = Some fs2" "cache_idle fs2" "same_files fs fs2"
    by (rule cache.read_block [OF idle x(1)]) (simp add: same_filesI)
  have be2: "beside_cache fs2 = beside_cache fs" using g(6) by (simp add: files_but_def)
  let ?l = "cluster_size fs - o'"
  have ul: "unat ?l = bsize fs - unat o'" using us o' by (simp add: unat_sub word_le_nat_alt)
  have first: "m \<le> bsize fs - unat o' \<Longrightarrow> copy_into 0 m (buf (cache_pool fs1 h)) (unat o') out =
      (\<lambda>k. if k < m then contents fs cs (unat off + k) else out k)" for m
    using g(2) by (auto simp: copy_into_def fun_eq_iff split contents_Cons(1) [OF assms(1)])
  show ?thesis
  proof (cases "n < ?l")
    case True
    then show ?thesis using n sk g first [of "unat n"] ul besideD(2) [OF g(3)]
      by (intro exI [of _ n] exI [of _ fs2]) (simp add: FAT12_read_def word_less_nat_alt)
  next
    case False
    then have "?l \<le> n" by simp
    then have um: "unat (n - ?l) = unat n - unat ?l" "unat ?l \<le> unat n" by (simp_all add: unat_sub word_le_nat_alt)
    let ?o = "\<lambda>k. if k < unat ?l then contents fs cs (unat off + k) else out k"
    have "\<exists>fs'. read_clusters (n - ?l) (fat_next fs2 x) ?l ?o fs2 = Some (?l + (n - ?l), \<lambda>k. if unat ?l \<le> k \<and> k < unat ?l + unat (n - ?l)
         then contents fs2 xs (k - unat ?l) else ?o k, fs') \<and> cache_idle fs' \<and> same_files fs2 fs'"
      by (rule read_clusters_ok [OF files_but_io [OF g(6,5) assms(1)]]) (use x(2) besideD [OF be2] nl um ul n(3) o' in auto)
    then obtain fs' where r: "read_clusters (n - ?l) (fat_next fs2 x) ?l ?o fs2 = Some (n, \<lambda>k. if unat ?l \<le> k \<and> k < unat ?l + unat (n - ?l)
         then contents fs2 xs (k - unat ?l) else ?o k, fs')" "cache_idle fs'" "same_files fs2 fs'" by auto
    have "contents fs2 xs (k - unat ?l) = contents fs cs (unat off + k)" if "unat ?l \<le> k" "k < unat n" for k
      using files_but_contents [OF g(6) x(2) _ assms(1), of "k - unat ?l"] that nl ul o' contents_Cons(2) [OF assms(1), of "unat o' + k" x xs] split [of k]
      by (simp add: add.commute)
    then have "(\<lambda>k. if unat ?l \<le> k \<and> k < unat ?l + unat (n - ?l) then contents fs2 xs (k - unat ?l) else ?o k) =
        (\<lambda>k. if k < unat n then contents fs cs (unat off + k) else out k)" using um by (auto simp: fun_eq_iff)
    then show ?thesis using n sk g r False first [of "unat ?l"] ul besideD(2) [OF g(3)] same_files_trans [OF g(6) r(3)]
      by (intro exI [of _ n] exI [of _ fs']) (simp add: FAT12_read_def)
  qed
qed

text \<open>
  \<^bold>\<open>C19\<close>: Reading a file (fat12_fs.cpp, \<^verbatim>\<open>FAT12_FS::read\<close>).  For an open file whose chain of
  clusters covers its size, a read of a positive number of bytes at an offset inside the file returns
  the number of bytes up to the end of the file, delivers exactly the bytes of the file in that range,
  and leaves every file as it was.
\<close>

theorem FAT12_read_correct:
  assumes "io_ok fs" and "open_file fs i cs" and "unat off < unat (ino_size (inode fs i))" and "0 < unat sz" and "unat sz < 2 ^ 31"
  shows "\<exists>n fs'. FAT12_read (Some i) out sz off fs =
       Some (n, \<lambda>k. if k < unat n then contents fs cs (unat off + k) else out k, fs') \<and>
     unat n = span sz off (ino_size (inode fs i)) \<and> cache_idle fs' \<and> same_files fs fs'"
  by (rule FAT12_read_ok [OF assms])

definition two_cluster_fs :: FAT12_FS where
  "two_cluster_fs = blank_fs\<lparr>fat_table := (\<lambda>i. if i = 2 then 3 else if i = 3 then 0xFFF else 0),
     inodepool := (inodepool blank_fs)\<lparr>inodes := (\<lambda>_. zero_inode\<lparr>fat12_fs := 1, ino_size := 700, ino_start_cluster := 2\<rparr>)\<rparr>,
     disks := (\<lambda>_. blank_channel\<lparr>defect := (\<lambda>_ _. False), media := (\<lambda>_ l k. of_nat (l + k))\<rparr>)\<rparr>"

lemma two_cluster_io: "io_ok two_cluster_fs"
  by (simp add: io_ok_def cache_idle_def volume_ok_def no_aliases_def clean_slot_def valid_cluster_def bsize_def two_cluster_fs_def
    blank_fs_def blank_bpb_def ide_ok_def bad_sector_def blank_channel_def IDE_WAIT_RETRY_def)

lemma two_cluster_file: "open_file two_cluster_fs i [2, 3]"
  by (simp add: open_file_def inode_def valid_cluster_def fat_next_def bsize_def two_cluster_fs_def blank_fs_def blank_bpb_def
    zero_inode_def attr_defs)

lemma two_cluster_contents:
  "k < 1024 \<Longrightarrow> contents two_cluster_fs [2, 3] k = of_nat (8 + k div 512 + k mod 512)"
proof -
  assume k: "k < 1024"
  then have "k div 512 = 0 \<or> k div 512 = 1" by auto
  moreover have "cluster_view two_cluster_fs c = disk_cluster two_cluster_fs c" if "c \<noteq> 0" for c
    using that by (intro cluster_view_uncached) (simp add: two_cluster_fs_def blank_fs_def)
  ultimately show ?thesis
    by (auto simp: contents_def bsize_def two_cluster_fs_def blank_fs_def blank_bpb_def disk_cluster_def run_def sector_def clus_lba_def)
qed

theorem FAT12_read_correct_witness:
  "\<exists>n out fs'. FAT12_read (Some 0) (\<lambda>_. 0) 600 300 two_cluster_fs = Some (n, out, fs') \<and> unat n = 400 \<and> out 211 = 0x07 \<and> out 212 = 0x09"
proof -
  have sz: "ino_size (inode two_cluster_fs 0) = 700" by (simp add: inode_def two_cluster_fs_def)
  then obtain n fs' where "FAT12_read (Some 0) (\<lambda>_. 0) 600 300 two_cluster_fs =
      Some (n, \<lambda>k. if k < unat n then contents two_cluster_fs [2, 3] (unat (300 :: u32) + k) else 0, fs')" "unat n = span 600 300 700"
    using FAT12_read_correct [OF two_cluster_io two_cluster_file [of 0], of 300 600 "\<lambda>_. 0"] by auto
  then show ?thesis by (simp add: span_def two_cluster_contents)
qed

section \<open>Writing\<close>

lemma poke_modify: "poke h off n src soff fs = modify_cluster h (copy_into off n src soff) fs"
  by (simp add: poke_def modify_cluster_def)

lemma poke_block:
  assumes "cache_idle fs" and "valid_cluster c"
  obtains h fs1 fs2 where "get_cache c fs = Some (Some h, fs1)" "beside_cache fs1 = beside_cache fs"
    "release_cache h (poke h off n src soff fs1) = Some fs2" "cache_idle fs2" "files_but {c} fs fs2"
    "\<forall>k<bsize fs. cluster_view fs2 c k = (if off \<le> k \<and> k < off + n then src (soff + (k - off)) else cluster_view fs c k)"
  by (rule cache.update_block [OF assms, of "copy_into off n src soff"])
    (rule that, auto simp: poke_modify files_but_def copy_into_def)

text \<open>\<open>rewritten fs fs' cs a n src\<close>: the file on \<open>cs\<close> has the bytes of \<open>src\<close> from \<open>a\<close> to \<open>a + n\<close>, and nothing else is different.\<close>

definition rewritten :: "FAT12_FS \<Rightarrow> FAT12_FS \<Rightarrow> u16 list \<Rightarrow> nat \<Rightarrow> nat \<Rightarrow> bytes \<Rightarrow> bool" where
  "rewritten fs fs' cs a n src \<longleftrightarrow> files_but (set cs) fs fs' \<and>
     (\<forall>k<length cs * bsize fs. contents fs' cs k = (if a \<le> k \<and> k < a + n then src (k - a) else contents fs cs k))"

lemma rewritten_Cons:
  assumes io: "io_ok fs" and l: "links fs c (c # xs)" and f: "files_but {c} fs fs1" and idle: "cache_idle fs1"
    and v: "\<forall>k<bsize fs. cluster_view fs1 c k = (if a \<le> k \<and> k < a + m then src (k - a) else cluster_view fs c k)"
    and r: "rewritten fs1 fs2 xs 0 n (\<lambda>k. src (m + k))" and m: "a + m = bsize fs \<or> a + m \<le> bsize fs \<and> n = 0"
  shows "rewritten fs fs2 (c # xs) a (m + n) src"
proof -
  have d: "c \<notin> set xs" "links fs (fat_next fs c) xs" "valid_cluster c" using links_distinct [OF l] l by auto
  have b: "beside_cache fs1 = beside_cache fs" "beside_cache fs2 = beside_cache fs1" using f r by (auto simp: files_but_def rewritten_def)
  note bs = besideD(3) [OF b(1)] besideD(3) [OF b(2)]
  have io1: "io_ok fs1" by (rule files_but_io [OF f idle io])
  have "files_but ({c} \<union> set xs) fs fs2" using r by (intro files_but_trans [OF f]) (simp add: rewritten_def)
  moreover have "contents fs2 (c # xs) k = (if a \<le> k \<and> k < a + (m + n) then src (k - a) else contents fs (c # xs) k)"
    if "k < length (c # xs) * bsize fs" for k
  proof (cases "k < bsize fs")
    case True
    have "cluster_view fs2 c k = cluster_view fs1 c k" using r d True bs by (simp add: rewritten_def files_but_def)
    moreover have "contents fs2 (c # xs) k = cluster_view fs2 c k" using True bs bsize_pos [OF io] by (simp add: contents_def)
    moreover have "a \<le> k \<and> k < a + (m + n) \<longleftrightarrow> a \<le> k \<and> k < a + m" using m True by auto
    ultimately show ?thesis using v True by (simp add: contents_Cons(1) [OF io])
  next
    case False
    then have kl: "k - bsize fs < length xs * bsize fs" using that by auto
    have "contents fs2 (c # xs) k = contents fs2 xs (k - bsize fs)" using False bs bsize_pos [OF io] by (simp add: contents_def le_div_geq le_mod_geq)
    also have "\<dots> = (if k - bsize fs < n then src (m + (k - bsize fs)) else contents fs1 xs (k - bsize fs))"
      using r kl bs by (simp add: rewritten_def)
    also have "contents fs1 xs (k - bsize fs) = contents fs xs (k - bsize fs)"
      using d kl by (intro files_but_contents [OF f d(2) _ io]) auto
    finally have e: "contents fs2 (c # xs) k = (if k - bsize fs < n then src (m + (k - bsize fs)) else contents fs (c # xs) k)"
      using False contents_Cons(2) [OF io, of k c xs] by simp
    have "a + m = bsize fs \<Longrightarrow> m + (k - bsize fs) = k - a" using False by linarith
    then show ?thesis using m False by (subst e) auto
  qed
  ultimately show ?thesis by (simp add: rewritten_def)
qed

lemma rewritten_append:
  assumes io: "io_ok fs" and l: "links fs c (ys @ zs)" and r: "rewritten fs fs' zs a n src"
  shows "rewritten fs fs' (ys @ zs) (length ys * bsize fs + a) n src"
proof -
  have f: "files_but (set zs) fs fs'" using r by (simp add: rewritten_def)
  have bs: "bsize fs' = bsize fs" using besideD(3) [of fs' fs] f by (simp add: files_but_def)
  have d: "set ys \<inter> set zs = {}" using links_distinct [OF l] by simp
  have pos: "0 < bsize fs" by (rule bsize_pos [OF io])
  have "contents fs' (ys @ zs) k = (if length ys * bsize fs + a \<le> k \<and> k < length ys * bsize fs + a + n
      then src (k - (length ys * bsize fs + a)) else contents fs (ys @ zs) k)" if "k < length (ys @ zs) * bsize fs" for k
  proof (cases "k < length ys * bsize fs")
    case True
    then have "k div bsize fs < length ys" by (simp add: less_mult_imp_div_less)
    then have "ys ! (k div bsize fs) \<in> set ys" by simp
    then have "valid_cluster (ys ! (k div bsize fs))" "ys ! (k div bsize fs) \<notin> set zs" using links_valid [OF l] d by auto
    then show ?thesis using True f pos \<open>k div bsize fs < length ys\<close> by (simp add: contents_def bs nth_append files_but_def)
  next
    case False
    then obtain j where j: "k = length ys * bsize fs + j" by (metis le_add_diff_inverse not_less)
    have "contents fs' (ys @ zs) k = contents fs' zs j" using pos by (simp add: contents_def j bs nth_append)
    moreover have "j < length zs * bsize fs" using that by (simp add: j add_mult_distrib)
    ultimately show ?thesis using r contents_append(1) [OF io, of ys zs j] by (simp add: rewritten_def j)
  qed
  moreover have "files_but (set (ys @ zs)) fs fs'" using f by (simp add: files_but_def)
  ultimately show ?thesis by (simp add: rewritten_def)
qed

lemma write_clusters_ok:
  assumes "io_ok fs" and "links fs c cs" and "unat sz \<le> length cs * bsize fs" and "unat wr + unat sz < 2 ^ 31"
  shows "\<exists>fs'. write_clusters sz c wr src fs = Some (wr + sz, fs') \<and> cache_idle fs' \<and> rewritten fs fs' cs 0 (unat sz) (\<lambda>k. src (unat wr + k))"
  using assms
proof (induction cs arbitrary: c sz wr fs)
  case Nil
  then have "sz = 0" by (simp add: unat_eq_zero)
  then show ?case using Nil by (subst write_clusters.simps) (auto simp: io_ok_def rewritten_def)
next
  case (Cons x xs)
  then have x: "x = c" "valid_cluster c" "links fs (fat_next fs c) xs" by auto
  have idle: "cache_idle fs" and cs: "unat (cluster_size fs) = bsize fs" and b: "bsize fs < 2 ^ 16"
    using Cons.prems(1) by (auto simp: io_ok_def)
  show ?case
  proof (cases "sz = 0")
    case True
    then show ?thesis using idle by (subst write_clusters.simps) (auto simp: rewritten_def)
  next
    case False
    then have z: "0 < sint sz" using Cons.prems(4) by (simp add: pos_sint unat_gt_0)
    have v: "2 \<le> c" "c < 0xFF8" using unat_cluster [OF x(2)] by (simp_all add: word_less_nat_alt word_le_nat_alt)
    let ?ch = "chunk_of sz fs"
    have uc: "unat ?ch = min (unat sz) (bsize fs)" by (rule unat_chunk_of [OF cs b])
    have us: "unat (sz - ?ch) = unat sz - unat ?ch" using uc by (simp add: unat_sub word_le_nat_alt)
    have ur: "unat (wr + ?ch) = unat wr + unat ?ch" using Cons.prems(4) uc by (subst unat_add_lem [THEN iffD1]) auto
    obtain h fs1 fs2 where g: "get_cache c fs = Some (Some h, fs1)" "release_cache h (poke h 0 (unat ?ch) src (unat wr) fs1) = Some fs2"
        "cache_idle fs2" "files_but {c} fs fs2"
        "\<forall>k<bsize fs. cluster_view fs2 c k = (if 0 \<le> k \<and> k < 0 + unat ?ch then src (unat wr + (k - 0)) else cluster_view fs c k)"
      by (rule poke_block [OF idle x(2)])
    have be: "beside_cache fs2 = beside_cache fs" using g(4) by (simp add: files_but_def)
    have "\<exists>fs'. write_clusters (sz - ?ch) (fat_next fs2 c) (wr + ?ch) src fs2 = Some (wr + ?ch + (sz - ?ch), fs') \<and> cache_idle fs' \<and>
        rewritten fs2 fs' xs 0 (unat (sz - ?ch)) (\<lambda>k. src (unat (wr + ?ch) + k))"
      by (rule Cons.IH [OF files_but_io [OF g(4,3) Cons.prems(1)]]) (use x besideD [OF be] Cons.prems(3,4) us ur uc in auto)
    then obtain fs' where r: "write_clusters (sz - ?ch) (fat_next fs2 c) (wr + ?ch) src fs2 = Some (wr + sz, fs')" "cache_idle fs'"
      "rewritten fs2 fs' xs 0 (unat (sz - ?ch)) (\<lambda>k. src (unat wr + (unat ?ch + k)))" using ur by (auto simp: add.assoc)
    have "rewritten fs fs' (c # xs) 0 (unat ?ch + unat (sz - ?ch)) (\<lambda>k. src (unat wr + k))"
      by (rule rewritten_Cons [OF Cons.prems(1) _ g(4,3) _ r(3)]) (use Cons.prems(2) x(1) g(5) uc us in auto)
    then show ?thesis using r(1,2) z v g(1,2) us uc x(1) by (subst write_clusters.simps) (simp add: Let_def)
  qed
qed

text \<open>
  \<^bold>\<open>C20\<close>: Writing a file (fat12_fs.cpp, \<^verbatim>\<open>FAT12_FS::write\<close>).  For an open file whose chain of
  clusters covers its size, a write of a positive number of bytes at an offset inside the file returns
  the number of bytes up to the end of the file; afterwards the file holds the new bytes in that range
  and its old bytes elsewhere, and no cluster of another file has changed.
\<close>

theorem FAT12_write_correct:
  assumes "io_ok fs" and "open_file fs i cs" and "unat off < unat (ino_size (inode fs i))" and "0 < unat sz" and "unat sz < 2 ^ 31"
  shows "\<exists>n fs'. FAT12_write (Some i) src sz off fs = Some (n, fs') \<and> unat n = span sz off (ino_size (inode fs i)) \<and>
     io_ok fs' \<and> rewritten fs fs' cs (unat off) (unat n) src"
proof -
  obtain n o' ys x xs where n: "io_check (Some i) sz off fs = Inr (i, n)" "unat n = span sz off (ino_size (inode fs i))" "unat n < 2 ^ 31"
    and sk: "skip_clusters fs (ino_start_cluster (inode fs i)) off = Some (Some (x, o'))" and o': "unat o' < bsize fs"
    and sp: "cs = ys @ x # xs" "unat off = length ys * bsize fs + unat o'" and x: "valid_cluster x" "links fs (fat_next fs x) xs"
    and nl: "unat n + unat o' \<le> length (x # xs) * bsize fs"
    by (rule locate [OF assms])
  have idle: "cache_idle fs" and us: "unat (cluster_size fs) = bsize fs" using assms(1) by (auto simp: io_ok_def)
  let ?l = "cluster_size fs - o'" and ?m = "min (unat n) (bsize fs - unat o')"
  have ul: "unat ?l = bsize fs - unat o'" using us o' by (simp add: unat_sub word_le_nat_alt)
  obtain h fs1 fs2 where g: "get_cache x fs = Some (Some h, fs1)" "beside_cache fs1 = beside_cache fs"
      "release_cache h (poke h (unat o') ?m src 0 fs1) = Some fs2" "cache_idle fs2" "files_but {x} fs fs2"
      "\<forall>k<bsize fs. cluster_view fs2 x k = (if unat o' \<le> k \<and> k < unat o' + ?m then src (0 + (k - unat o')) else cluster_view fs x k)"
    by (rule poke_block [OF idle x(1)])
  have be2: "beside_cache fs2 = beside_cache fs" using g(5) by (simp add: files_but_def)
  have io2: "io_ok fs2" by (rule files_but_io [OF g(5,4) assms(1)])
  have "\<exists>fs'. FAT12_write (Some i) src sz off fs = Some (n, fs') \<and> cache_idle fs' \<and>
      rewritten fs2 fs' xs 0 (unat n - ?m) (\<lambda>k. src (?m + k))"
  proof (cases "n < ?l")
    case True
    then have "?m = unat n" using ul by (simp add: word_less_nat_alt)
    then show ?thesis using n sk g True besideD(2) [OF g(2)] by (intro exI [of _ fs2]) (simp add: FAT12_write_def rewritten_def)
  next
    case False
    then have le: "?l \<le> n" by simp
    then have um: "unat (n - ?l) = unat n - ?m" "?m = unat ?l" using ul by (simp_all add: unat_sub word_le_nat_alt)
    have "\<exists>fs'. write_clusters (n - ?l) (fat_next fs2 x) ?l src fs2 = Some (?l + (n - ?l), fs') \<and> cache_idle fs' \<and>
        rewritten fs2 fs' xs 0 (unat (n - ?l)) (\<lambda>k. src (unat ?l + k))"
      by (rule write_clusters_ok [OF io2]) (use x(2) besideD [OF be2] nl um ul n(3) o' in auto)
    then show ?thesis using n sk g False um besideD(2) [OF g(2)] by (auto simp: FAT12_write_def)
  qed
  then obtain fs' where w: "FAT12_write (Some i) src sz off fs = Some (n, fs')" "cache_idle fs'"
    and r: "rewritten fs2 fs' xs 0 (unat n - ?m) (\<lambda>k. src (?m + k))" by blast
  have "rewritten fs fs' (x # xs) (unat o') (?m + (unat n - ?m)) src"
    by (rule rewritten_Cons [OF assms(1) _ g(5,4) _ r]) (use x g(6) o' in auto)
  then have tail: "rewritten fs fs' (x # xs) (unat o') (unat n) src" by simp
  have "rewritten fs fs' cs (unat off) (unat n) src"
    using rewritten_append [OF assms(1) _ tail, of "ino_start_cluster (inode fs i)" ys] assms(2) sp by (simp add: open_file_def)
  then show ?thesis using w n(2) files_but_io [OF _ w(2) assms(1), of "set cs"] by (auto simp: rewritten_def)
qed

theorem FAT12_write_correct_witness:
  "\<exists>n fs'. FAT12_write (Some 0) (\<lambda>_. 0xAB) 100 500 two_cluster_fs = Some (n, fs') \<and> unat n = 100 \<and>
     contents fs' [2, 3] 599 = 0xAB \<and> contents fs' [2, 3] 600 = 0x61"
proof -
  have sz: "ino_size (inode two_cluster_fs 0) = 700" by (simp add: inode_def two_cluster_fs_def)
  then obtain n fs' where w: "FAT12_write (Some 0) (\<lambda>_. 0xAB) 100 500 two_cluster_fs = Some (n, fs')" "unat n = span 100 500 700"
    "rewritten two_cluster_fs fs' [2, 3] 500 (unat n) (\<lambda>_. 0xAB)"
    using FAT12_write_correct [OF two_cluster_io two_cluster_file [of 0], of 500 100 "\<lambda>_. 0xAB"] by auto
  have bs: "bsize two_cluster_fs = 512" by (simp add: bsize_def two_cluster_fs_def blank_fs_def blank_bpb_def)
  have "unat n = 100" using w(2) by (simp add: span_def)
  then have "contents fs' [2, 3] 599 = 0xAB" "contents fs' [2, 3] 600 = contents two_cluster_fs [2, 3] 600"
    using w(3) by (simp_all add: rewritten_def bs)
  then show ?thesis using w(1) \<open>unat n = 100\<close> by (auto simp: two_cluster_contents)
qed

section \<open>Appending\<close>

lemma last_cluster_ok: "links fs c cs \<Longrightarrow> cs \<noteq> [] \<Longrightarrow> last_cluster fs c = Some (last cs)"
proof (induction cs arbitrary: c)
  case (Cons x xs)
  show ?case
  proof (cases xs)
    case Nil
    then have "\<not> fat_next fs c < 0xFF8" using Cons.prems by (simp add: not_less)
    then show ?thesis using Cons.prems Nil by (subst last_cluster.simps) simp
  next
    case (Cons y ys)
    then have "valid_cluster (fat_next fs c)" "links fs (fat_next fs c) xs" using Cons.prems by auto
    moreover then have "2 \<le> fat_next fs c" "fat_next fs c < 0xFF8"
      using unat_cluster [of "fat_next fs c"] by (simp_all add: word_less_nat_alt word_le_nat_alt)
    ultimately show ?thesis using Cons.IH [of "fat_next fs c"] Cons.prems \<open>xs = y # ys\<close> by (subst last_cluster.simps) simp
  qed
qed simp

text \<open>Modifying a cluster, writing it through and releasing it.\<close>

lemma poke_through:
  assumes "cache_idle fs" and "valid_cluster c"
  obtains h fs1 fs2 fs3 where "get_cache c fs = Some (Some h, fs1)" "beside_cache fs1 = beside_cache fs"
    "write_cluster h (poke h off n src soff fs1) = Some (True, fs2)" "release_cache h fs2 = Some fs3" "cache_idle fs3" "files_but {c} fs fs3"
    "\<forall>k<bsize fs. cluster_view fs3 c k = (if off \<le> k \<and> k < off + n then src (soff + (k - off)) else cluster_view fs c k)"
proof -
  obtain h fs1 where g: "get_cache c fs = Some (Some h, fs1)" "cache_held fs1 h c" "beside_cache fs1 = beside_cache fs"
      "\<forall>d k. valid_cluster d \<longrightarrow> k < bsize fs \<longrightarrow> cluster_view fs1 d k = cluster_view fs d k"
    using cache.get_ok [OF assms] by auto
  let ?m = "poke h off n src soff fs1"
  have m: "cache_held ?m h c" "beside_cache ?m = beside_cache fs1" "buf (cache_pool ?m h) = copy_into off n src soff (buf (cache_pool fs1 h))"
      "\<forall>d k. valid_cluster d \<longrightarrow> d \<noteq> c \<longrightarrow> k < bsize fs1 \<longrightarrow> cluster_view ?m d k = cluster_view fs1 d k"
    using modify_held [OF g(2)] unfolding poke_modify by blast+
  obtain fs2 where w: "write_cluster h ?m = Some (True, fs2)" "cache_held fs2 h c" "beside_cache fs2 = beside_cache ?m"
      "\<forall>d k. valid_cluster d \<longrightarrow> k < bsize ?m \<longrightarrow> cluster_view fs2 d k = cluster_view ?m d k"
    using flush_held [OF m(1)] by blast
  obtain fs3 where r: "release_cache h fs2 = Some fs3" "cache_idle fs3" "beside_cache fs3 = beside_cache fs2"
      "\<forall>d k. valid_cluster d \<longrightarrow> k < bsize fs2 \<longrightarrow> cluster_view fs3 d k = cluster_view fs2 d k"
    using release_held [OF w(2)] by blast
  have bs: "bsize fs1 = bsize fs" "bsize ?m = bsize fs" "bsize fs2 = bsize fs"
    using besideD(3) [OF g(3)] besideD(3) [OF m(2)] besideD(3) [OF w(3)] by simp_all
  have "cluster_view fs3 c k = (if off \<le> k \<and> k < off + n then src (soff + (k - off)) else cluster_view fs c k)" if "k < bsize fs" for k
  proof -
    have "cluster_view fs3 c k = buf (cache_pool ?m h) k" using r(4) w(4) that assms(2) bs cache.data_view [OF m(1), of k] by simp
    moreover have "buf (cache_pool fs1 h) k = cluster_view fs c k" using that assms(2) bs cache.data_view [OF g(2), of k] g(4) by simp
    ultimately show ?thesis by (simp add: m(3) copy_into_def)
  qed
  moreover have "files_but {c} fs fs3" using g m w r bs by (simp add: files_but_def)
  ultimately show thesis using that g(1,3) w(1) r(1,2) by blast
qed

lemma inode_update_io [simp]:
  "io_ok (upd_inode i f fs) = io_ok fs" "contents (upd_inode i f fs) = contents fs" "bsize (upd_inode i f fs) = bsize fs"
  "io_ok (fs\<lparr>root_dir := r\<rparr>) = io_ok fs" "contents (fs\<lparr>root_dir := r\<rparr>) = contents fs" "bsize (fs\<lparr>root_dir := r\<rparr>) = bsize fs"
  "io_ok (fs\<lparr>root_dir_dirty := b\<rparr>) = io_ok fs" "contents (fs\<lparr>root_dir_dirty := b\<rparr>) = contents fs" "bsize (fs\<lparr>root_dir_dirty := b\<rparr>) = bsize fs"
  by (simp_all add: upd_inode_def io_ok_def cache_idle_def volume_ok_def no_aliases_def clean_slot_def bsize_def disk_cluster_def
    clus_lba_def contents_def fun_eq_iff cluster_view_def find_cache_def split: option.splits)

lemma update_entry_root:
  assumes "is_root (location (inode fs i))"
  shows "\<exists>fs'. update_entry i fs = Some fs' \<and> io_ok fs' = io_ok fs \<and> contents fs' = contents fs \<and> fat_table fs' = fat_table fs \<and>
     inode fs' = inode fs \<and> file_size (root_dir fs' (unat (root_index (location (inode fs i))))) = ino_size (inode fs i)"
  using assms by (simp add: update_entry_def Let_def) (simp add: inode_def fun_eq_iff)

lemma append_clusters_done: "\<not> 0 < sz \<Longrightarrow> append_clusters sz c appended pos src fs = Some (appended, fs)"
  by (subst append_clusters.simps) simp

lemma append_fits:
  assumes "fat12_fs (inode fs i) = this fs" and "ino_start_cluster (inode fs i) \<noteq> 0" and "\<not> ino_start_cluster (inode fs i) < 2"
    and "ino_attr (inode fs i) AND DIRECTORY = 0" and "ino_attr (inode fs i) AND VOLUME_ID = 0"
    and "sint sz = m" and "0 < m" and "uint (ino_size (inode fs i) mod cluster_size fs) = u" and "uint (cluster_size fs) = b" and "u < b" and "m \<le> b - u"
    and "last_cluster fs (ino_start_cluster (inode fs i)) = Some c" and "get_cache c fs = Some (Some h, fs1)" and "cluster_size fs1 = cluster_size fs"
    and "write_cluster h (poke h (nat u) (nat m) src 0 fs1) = Some (True, fs2)" and "release_cache h fs2 = Some fs3"
    and "fs4 = upd_inode i (\<lambda>n. n\<lparr>ino_size := ino_size n + word_of_int m\<rparr>) fs3" and "update_entry i fs4 = Some fs5"
  shows "FAT12_append (Some i) src sz fs = Some (m, fs5)"
  using assms by (simp add: FAT12_append_def first_cluster_def append_clusters_done min_absorb1 Let_def)

text \<open>The bytes that fit into the last cluster of a chain.\<close>

lemma rewritten_last:
  assumes "io_ok fs" and "links fs c cs" and "cs \<noteq> []" and "cache_idle fs'" and "files_but {last cs} fs fs'" and "u + n \<le> bsize fs"
    and "\<forall>k<bsize fs. cluster_view fs' (last cs) k = (if u \<le> k \<and> k < u + n then src (0 + (k - u)) else cluster_view fs (last cs) k)"
  shows "rewritten fs fs' cs ((length cs - 1) * bsize fs + u) n src"
proof -
  have sp: "cs = butlast cs @ [last cs]" using assms(3) by simp
  have l: "links fs (last cs) [last cs]" using links_drop [OF assms(2), of "length cs - 1"] assms(3) by (simp add: last_conv_nth Cons_nth_drop_Suc [symmetric])
  have "rewritten fs fs' [last cs] u (n + 0) src"
    by (rule rewritten_Cons [OF assms(1) l assms(5,4)]) (use assms(6,7) in \<open>auto simp: rewritten_def\<close>)
  then have "rewritten fs fs' (butlast cs @ [last cs]) (length (butlast cs) * bsize fs + u) n src"
    using assms(2) sp by (intro rewritten_append [OF assms(1)]) auto
  then show ?thesis using assms(3) by simp
qed

text \<open>
  Appending (fat12_fs.cpp, \<^verbatim>\<open>FAT12_FS::append\<close>) bytes that fit into the last cluster of a
  file of the root directory.  The bytes go to the end of the file when its last cluster has room left;
  but when the size is a multiple of the cluster size the code takes the last cluster to be empty and
  overwrites its beginning, although the size grows as if the bytes had been added behind it.  In both
  cases the table does not change and inode and directory entry record the new size.
\<close>

theorem FAT12_append_in_place:
  assumes "io_ok fs" and "open_file fs i cs" and "cs \<noteq> []" and "is_root (location (inode fs i))"
    and "(length cs - 1) * bsize fs \<le> unat (ino_size (inode fs i))"
    and "0 < unat sz" and "unat sz \<le> bsize fs - unat (ino_size (inode fs i)) mod bsize fs"
    and "a = (if unat (ino_size (inode fs i)) < length cs * bsize fs then unat (ino_size (inode fs i)) else unat (ino_size (inode fs i)) - bsize fs)"
  shows "\<exists>fs'. FAT12_append (Some i) src sz fs = Some (int (unat sz), fs') \<and> io_ok fs' \<and> fat_table fs' = fat_table fs \<and>
     ino_size (inode fs' i) = ino_size (inode fs i) + sz \<and>
     file_size (root_dir fs' (unat (root_index (location (inode fs i))))) = ino_size (inode fs i) + sz \<and>
     (\<forall>k<length cs * bsize fs. contents fs' cs k = (if a \<le> k \<and> k < a + unat sz then src (k - a) else contents fs cs k))"
proof -
  let ?n = "inode fs i" and ?u = "unat (ino_size (inode fs i)) mod bsize fs"
  note f = assms(2) [unfolded open_file_def]
  have pos: "0 < bsize fs" and us: "unat (cluster_size fs) = bsize fs" and bl: "bsize fs < 2 ^ 16" and idle: "cache_idle fs"
    using bsize_pos [OF assms(1)] assms(1) by (auto simp: io_ok_def)
  have v: "valid_cluster (ino_start_cluster ?n)" "valid_cluster (last cs)" using f assms(3) links_valid [of fs "ino_start_cluster ?n" cs "last cs"] by (cases cs; auto)+
  have ss: "sint sz = int (unat sz)" using assms(7) bl by (intro sint_small) simp
  have at: "ino_attr ?n AND DIRECTORY = 0" "ino_attr ?n AND VOLUME_ID = 0" using f by (simp_all add: bit.conj_disj_distrib or_eq_0_iff)
  have st: "ino_start_cluster ?n \<noteq> 0" "\<not> ino_start_cluster ?n < 2" using v(1) by (auto simp: valid_cluster_def)
  have uu: "uint (ino_size ?n mod cluster_size fs) = int ?u" "uint (cluster_size fs) = int (bsize fs)"
    by (simp_all add: uint_nat unat_mod us)
  have ap: "(length cs - 1) * bsize fs + ?u = a"
  proof -
    have len: "length cs * bsize fs = (length cs - 1) * bsize fs + bsize fs" using assms(3) by (cases cs) simp_all
    define r where "r = unat (ino_size ?n) - (length cs - 1) * bsize fs"
    have s: "unat (ino_size ?n) = (length cs - 1) * bsize fs + r" "r \<le> bsize fs" using assms(5) f len by (auto simp: r_def)
    then show ?thesis using assms(8) len by (cases "r = bsize fs") auto
  qed
  obtain h fs1 fs2 fs3 where g: "get_cache (last cs) fs = Some (Some h, fs1)" "beside_cache fs1 = beside_cache fs"
    "write_cluster h (poke h ?u (unat sz) src 0 fs1) = Some (True, fs2)" "release_cache h fs2 = Some fs3" "cache_idle fs3" "files_but {last cs} fs fs3"
    "\<forall>k<bsize fs. cluster_view fs3 (last cs) k = (if ?u \<le> k \<and> k < ?u + unat sz then src (0 + (k - ?u)) else cluster_view fs (last cs) k)"
    by (rule poke_through [OF idle v(2)])
  have "?u + unat sz \<le> bsize fs" using assms(7) pos by (simp add: less_imp_le_nat add.commute le_diff_conv2)
  then have rw: "rewritten fs fs3 cs a (unat sz) src"
    using rewritten_last [OF assms(1) _ assms(3) g(5,6) _ g(7)] f ap by auto
  have be: "beside_cache fs3 = beside_cache fs" using g(6) by (simp add: files_but_def)
  have io3: "io_ok fs3" by (rule files_but_io [OF g(6,5) assms(1)])
  have in3: "inode fs3 = inode fs" using besideD(4) [OF be] by (simp add: inode_def fun_eq_iff)
  define fs4 where "fs4 = upd_inode i (\<lambda>n. n\<lparr>ino_size := ino_size n + word_of_int (int (unat sz))\<rparr>) fs3"
  have in4: "inode fs4 i = ?n\<lparr>ino_size := ino_size ?n + sz\<rparr>" by (simp add: fs4_def inode_def upd_inode_def in3 [unfolded inode_def fun_eq_iff, rule_format])
  obtain fs5 where u5: "update_entry i fs4 = Some fs5" "io_ok fs5 = io_ok fs4" "contents fs5 = contents fs4" "fat_table fs5 = fat_table fs4"
    "inode fs5 = inode fs4" "file_size (root_dir fs5 (unat (root_index (location ?n)))) = ino_size ?n + sz"
    using update_entry_root [of fs4 i] assms(4) in4 by auto
  have "FAT12_append (Some i) src sz fs = Some (int (unat sz), fs5)"
  proof (rule append_fits)
    show "write_cluster h (poke h (nat (int ?u)) (nat (int (unat sz))) src 0 fs1) = Some (True, fs2)" using g(3) by (simp only: nat_int)
    show "int (unat sz) \<le> int (bsize fs) - int ?u" using assms(7) pos by (simp only: of_nat_diff [symmetric] pos mod_less_divisor less_imp_le_nat of_nat_le_iff)
  qed (use f at st ss assms(3,6) g(1,4) u5(1) uu pos last_cluster_ok [of fs "ino_start_cluster ?n" cs] besideD(2) [OF g(2)] fs4_def
      in \<open>simp_all only: of_nat_less_iff of_nat_0_less_iff mod_less_divisor not_False_eq_True\<close>)
  moreover have "fat_table fs5 = fat_table fs" using u5(4) besideD(1) [OF be] by (simp add: fs4_def upd_inode_def)
  ultimately show ?thesis using u5 io3 in4 rw by (intro exI [of _ fs5]) (simp add: fs4_def rewritten_def)
qed

definition full_cluster_fs :: FAT12_FS where
  "full_cluster_fs = upd_inode 0 (\<lambda>n. n\<lparr>ino_size := 1024, location := root_location 0\<rparr>) two_cluster_fs"

text \<open>A file of two full clusters: three more bytes replace the first three of its second cluster.\<close>

theorem FAT12_append_in_place_witness:
  "\<exists>fs'. FAT12_append (Some 0) (\<lambda>_. 0xAB) 3 full_cluster_fs = Some (3, fs') \<and> ino_size (inode fs' 0) = 1027 \<and>
     contents fs' [2, 3] 512 = 0xAB \<and> contents full_cluster_fs [2, 3] 512 = 0x09"
proof -
  have s: "io_ok full_cluster_fs = io_ok two_cluster_fs" "contents full_cluster_fs = contents two_cluster_fs" "bsize full_cluster_fs = bsize two_cluster_fs"
    by (simp_all only: full_cluster_fs_def inode_update_io)
  have bs: "bsize two_cluster_fs = 512" by (simp add: bsize_def two_cluster_fs_def blank_fs_def blank_bpb_def)
  have o: "open_file full_cluster_fs 0 [2, 3]"
    by (simp add: open_file_def s bs) (simp add: inode_def valid_cluster_def fat_next_def full_cluster_fs_def upd_inode_def two_cluster_fs_def blank_fs_def
      zero_inode_def attr_defs)
  have n: "ino_size (inode full_cluster_fs 0) = 1024" "is_root (location (inode full_cluster_fs 0))"
    by (simp_all add: inode_def full_cluster_fs_def upd_inode_def root_location_def)
  have "io_ok full_cluster_fs" using s two_cluster_io by simp
  then have "\<exists>fs'. FAT12_append (Some 0) (\<lambda>_. 0xAB) 3 full_cluster_fs = Some (int (unat (3 :: u32)), fs') \<and> io_ok fs' \<and> fat_table fs' = fat_table full_cluster_fs \<and>
     ino_size (inode fs' 0) = ino_size (inode full_cluster_fs 0) + 3 \<and>
     file_size (root_dir fs' (unat (root_index (location (inode full_cluster_fs 0))))) = ino_size (inode full_cluster_fs 0) + 3 \<and>
     (\<forall>k<length [2 :: u16, 3] * bsize full_cluster_fs. contents fs' [2, 3] k = (if 512 \<le> k \<and> k < 512 + unat (3 :: u32) then 0xAB else contents full_cluster_fs [2, 3] k))"
    by (rule FAT12_append_in_place [OF _ o]) (simp_all add: n s(3) bs)
  then obtain fs' where f: "FAT12_append (Some 0) (\<lambda>_. 0xAB) 3 full_cluster_fs = Some (3, fs')" "ino_size (inode fs' 0) = 1024 + 3"
    "\<forall>k<1024. contents fs' [2, 3] k = (if 512 \<le> k \<and> k < 515 then 0xAB else contents full_cluster_fs [2, 3] k)"
    by (auto simp: n s(3) bs)
  then have "contents fs' [2, 3] 512 = 0xAB" by simp
  with f show ?thesis using s(2) by (auto simp: two_cluster_contents)
qed

end
