(* ===== verification/Fat12_Dir.thy ===== *)
theory Fat12_Dir
  imports Fat12_Io
begin

text \<open>
  The life of a file of the root directory, from \<^verbatim>\<open>create_file\<close> over \<^verbatim>\<open>lookup\<close> to
  \<^verbatim>\<open>remove\<close>, and what removing does to the allocation table.
\<close>

section \<open>Freeing a chain\<close>

declare free_chain.simps [simp del]

lemma links_free:
  "links fs c cs \<Longrightarrow> x \<notin> set cs \<Longrightarrow> links ((free_cluster x fs)\<lparr>fat_table_dirty := True\<rparr>) c cs"
proof (induction cs arbitrary: c)
  case (Cons y ys)
  then have "c \<noteq> x" by auto
  then have "unat c \<noteq> unat x" using word_unat_eq_iff by blast
  then have "fat_next ((free_cluster x fs)\<lparr>fat_table_dirty := True\<rparr>) c = fat_next fs c"
    by (simp add: fat_next_def free_cluster_def set_fat_def)
  then show ?case using Cons by simp
qed simp

lemma free_chain_links:
  assumes "links fs c cs"
  shows "free_chain c fs = fs\<lparr>fat_table := (\<lambda>k. if k \<in> unat ` set cs then 0 else fat_table fs k), fat_table_dirty := (cs \<noteq> [] \<or> fat_table_dirty fs)\<rparr>"
  using assms
proof (induction cs arbitrary: c fs)
  case Nil
  then have "\<not> c \<le> 0xFF7" by (simp add: word_le_nat_alt)
  then show ?case by (subst free_chain.simps) simp
next
  case (Cons x xs)
  let ?fs = "(free_cluster c fs)\<lparr>fat_table_dirty := True\<rparr>"
  have x: "x = c" "valid_cluster c" "links fs (fat_next fs c) xs" using Cons.prems by auto
  have "c \<notin> set xs" using links_distinct [OF Cons.prems] x by simp
  then have "links ?fs (fat_next fs c) xs" by (rule links_free [OF x(3)])
  then have i: "free_chain (fat_next fs c) ?fs = ?fs\<lparr>fat_table := (\<lambda>k. if k \<in> unat ` set xs then 0 else fat_table ?fs k),
      fat_table_dirty := (xs \<noteq> [] \<or> fat_table_dirty ?fs)\<rparr>" by (rule Cons.IH)
  have "(\<lambda>k. if k \<in> unat ` set xs then 0 else fat_table ?fs k) = (\<lambda>k. if k \<in> unat ` set (x # xs) then 0 else fat_table fs k)"
    by (auto simp: fun_eq_iff free_cluster_def set_fat_def x(1))
  then have "free_chain (fat_next fs c) ?fs =
      fs\<lparr>fat_table := (\<lambda>k. if k \<in> unat ` set (x # xs) then 0 else fat_table fs k), fat_table_dirty := True\<rparr>"
    unfolding i by (simp add: free_cluster_def set_fat_def)
  moreover have "2 \<le> c" "c \<le> 0xFF7" using unat_cluster [OF x(2)] by (simp_all add: word_le_nat_alt)
  ultimately show ?case by (subst free_chain.simps) simp
qed

section \<open>The root directory\<close>

definition free_root :: "FAT12_FS \<Rightarrow> nat \<Rightarrow> bool" where
  "free_root fs idx \<longleftrightarrow> attr (root_dir fs idx) AND 0x08 = 0 \<and> (name (root_dir fs idx) = [] \<or> hd (name (root_dir fs idx)) = 0xE5)"

text \<open>The state after an entry of the root directory has been replaced.\<close>

definition put_root :: "nat \<Rightarrow> fat12_normalized_entry \<Rightarrow> FAT12_FS \<Rightarrow> FAT12_FS" where
  "put_root idx e fs = fs\<lparr>root_dir_dirty := True, root_dir := (root_dir fs)(idx := e)\<rparr>"

lemma put_root_simps [simp]:
  "root_dir (put_root idx e fs) = (root_dir fs)(idx := e)" "root_entries (put_root idx e fs) = root_entries fs"
  "inodepool (put_root idx e fs) = inodepool fs" "this (put_root idx e fs) = this fs" "inode (put_root idx e fs) = inode fs"
  by (simp_all add: put_root_def inode_def fun_eq_iff)

lemma root_match_put:
  "root_match (put_root idx e fs) nm j =
     (if j = idx then name e \<noteq> [] \<and> hd (name e) \<noteq> 0xE5 \<and> attr e AND 0x08 = 0 \<and> name e = nm else root_match fs nm j)"
  by (auto simp: root_match_def Let_def)

lemma root_slot:
  assumes "idx < unat (root_entries fs)"
  shows "unat (root_index (root_location idx)) = idx" "\<not> root_entries fs \<le> root_index (root_location idx)" "is_root (root_location idx)"
proof -
  have "idx < 2 ^ 32" using assms unat_bound [of "root_entries fs"] by simp
  then show u: "unat (root_index (root_location idx)) = idx" by (simp add: root_location_def unsigned_of_nat take_bit_nat_eq_self)
  show "\<not> root_entries fs \<le> root_index (root_location idx)" using assms u by (simp add: word_le_nat_alt)
qed (simp add: root_location_def)

lemma entry_copy_id: "entry_copy e e' = e"
  by (cases e, cases e') (simp add: entry_copy_def)

lemma lookup_root_None: "\<forall>j<unat (root_entries fs). \<not> root_match fs nm j \<Longrightarrow> lookup None nm fs = Some (None, fs)"
  by (simp add: lookup_def find_None_iff [THEN iffD2])

lemma create_file_root:
  assumes "at AND VOLUME_ID = 0" and "at AND DIRECTORY = 0" and "\<forall>j<unat (root_entries fs). \<not> root_match fs nm j"
    and "idx < unat (root_entries fs)" and "free_root fs idx" and "\<forall>j<idx. \<not> free_root fs j"
  shows "create_file None nm at fs = Some (True, put_root idx (zero_entry\<lparr>attr := at, name := nm\<rparr>) fs)"
proof -
  have "find (free_root fs) [0..<unat (root_entries fs)] = Some idx" using assms(4-6) by (simp add: find_upt)
  then have "find_free_entry None fs = Some (Slot (root_location idx), fs)" by (simp add: find_free_entry_def free_root_def [abs_def] Let_def)
  then have "new_slot None fs = Some (Some (root_location idx), None, fs)" by (simp add: new_slot_def)
  moreover have "write_dir_entry (root_location idx) e fs = Some (True, put_root idx e fs)" for e
    using root_slot [OF assms(4)] by (simp add: write_dir_entry_def put_root_def entry_copy_id Let_def)
  ultimately show ?thesis using assms(1,2) lookup_root_None [OF assms(3)] by (simp add: create_file_def)
qed

text \<open>The inode that looking up an entry whose file is not open creates.\<close>

definition entry_inode :: "fat12_normalized_entry \<Rightarrow> nat \<Rightarrow> FAT12_FS \<Rightarrow> fat12_inode" where
  "entry_inode e idx fs = zero_inode\<lparr>ino_attr := attr e, fat12_fs := this fs, refcount := 1, ino_size := file_size e,
     ino_start_cluster := start_cluster e, location := root_location idx\<rparr>"

definition not_open :: "FAT12_FS \<Rightarrow> nat \<Rightarrow> bool" where
  "not_open fs idx \<longleftrightarrow> (if start_cluster (root_dir fs idx) = 0 then get_inode_location (inodepool fs) (root_location idx)
     else get_inode_cluster (inodepool fs) (start_cluster (root_dir fs idx))) = None"

lemma lookup_root_Some:
  assumes "idx < unat (root_entries fs)" and "root_match fs nm idx" and "\<forall>j<idx. \<not> root_match fs nm j"
    and "not_open fs idx" and "inode_pool_allocate (inodepool fs) = Some (Some i, p)"
  shows "lookup None nm fs = Some (Some i, fs\<lparr>inodepool := p\<lparr>inodes := (inodes p)(i := entry_inode (root_dir fs idx) idx fs)\<rparr>\<rparr>)"
proof -
  have "find (root_match fs nm) [0..<unat (root_entries fs)] = Some idx" using assms(1-3) by (simp add: find_upt)
  moreover have "inodes p i = zero_inode"
    using assms(5) by (cases "BitMap_allocate (ip_bitmap (inodepool fs)) 1 False") (auto simp: inode_pool_allocate_def split: if_splits)
  then have "zero_inode\<lparr>ino_attr := attr (root_dir fs idx), fat12_fs := this fs, parent_dir_start_cluster := 0, refcount := 1,
      ino_size := file_size (root_dir fs idx), ino_start_cluster := start_cluster (root_dir fs idx), location := root_location idx\<rparr> =
      entry_inode (root_dir fs idx) idx fs" by (simp add: entry_inode_def zero_inode_def)
  moreover note \<open>inodes p i = zero_inode\<close>
  ultimately show ?thesis using assms(4,5) by (simp add: lookup_def acquire_inode_def not_open_def upd_inode_def Let_def)
qed

text \<open>
  \<^bold>\<open>C21\<close>: Creating a file in the root directory (fat12_fs.cpp, \<^verbatim>\<open>create_file\<close>, \<^verbatim>\<open>lookup\<close>,
  \<^verbatim>\<open>find_free_entry\<close>, \<^verbatim>\<open>write_dir_entry\<close>).  With a proper name that is not taken and a free
  slot, creation succeeds; a lookup then finds the file in the first free slot, with the attributes
  given, size 0 and no cluster, under an inode of its own, and every other entry is as before.  Creating
  the name again fails and changes nothing in the directory.
\<close>

theorem create_lookup_root:
  assumes "nm \<noteq> []" and "hd nm \<noteq> 0xE5" and "at AND VOLUME_ID = 0" and "at AND DIRECTORY = 0"
    and "\<forall>j<unat (root_entries fs). \<not> root_match fs nm j"
    and "idx < unat (root_entries fs)" and "free_root fs idx" and "\<forall>j<idx. \<not> free_root fs j"
    and "get_inode_location (inodepool fs) (root_location idx) = None" and "inode_pool_allocate (inodepool fs) = Some (Some i, p)"
  shows "\<exists>fs1 fs2 fs3. create_file None nm at fs = Some (True, fs1) \<and> (\<forall>j. j \<noteq> idx \<longrightarrow> root_dir fs1 j = root_dir fs j) \<and>
     lookup None nm fs1 = Some (Some i, fs2) \<and> ino_attr (inode fs2 i) = at \<and> ino_size (inode fs2 i) = 0 \<and>
     ino_start_cluster (inode fs2 i) = 0 \<and> location (inode fs2 i) = root_location idx \<and> refcount (inode fs2 i) = 1 \<and>
     create_file None nm at fs1 = Some (False, fs3) \<and> root_dir fs3 = root_dir fs1"
proof -
  define e where "e = zero_entry\<lparr>attr := at, name := nm\<rparr>"
  have c: "create_file None nm at fs = Some (True, put_root idx e fs)"
    unfolding e_def by (rule create_file_root [OF assms(3-8)])
  have e: "name e = nm" "attr e = at" "start_cluster e = 0" "file_size e = 0" by (simp_all add: e_def zero_entry_def)
  have m: "root_match (put_root idx e fs) nm j \<longleftrightarrow> j = idx" if "j < unat (root_entries fs)" for j
    using that assms(1,2,3,5) by (auto simp: root_match_put e VOLUME_ID_def)
  have l: "lookup None nm (put_root idx e fs) = Some (Some i, (put_root idx e fs)\<lparr>inodepool := p\<lparr>inodes := (inodes p)(i := entry_inode e idx fs)\<rparr>\<rparr>)"
    using lookup_root_Some [of idx "put_root idx e fs" nm i p] assms(6,9,10) m by (simp add: not_open_def e entry_inode_def)
  then have "\<exists>fs3. create_file None nm at (put_root idx e fs) = Some (False, fs3) \<and> root_dir fs3 = (root_dir fs)(idx := e)"
    using assms(3,4) by (simp add: create_file_def release_inode_def Let_def upd_inode_def)
  then show ?thesis using c l by (auto simp: inode_def entry_inode_def e)
qed

text \<open>
  \<^bold>\<open>C22\<close>: Removing a file of the root directory that is not open (fat12_fs.cpp, \<^verbatim>\<open>remove\<close>,
  \<^verbatim>\<open>delete_dir_entry\<close>).  Removal succeeds, marks exactly this entry as deleted, so that the name
  is no longer found, and frees exactly the clusters of the file's chain.
\<close>

theorem FAT12_remove_root:
  assumes "idx < unat (root_entries fs)" and "root_match fs nm idx" and "\<forall>j<unat (root_entries fs). j \<noteq> idx \<longrightarrow> \<not> root_match fs nm j"
    and "not_open fs idx" and "inode_pool_allocate (inodepool fs) = Some (Some i, p)"
    and "start_cluster (root_dir fs idx) = 0 \<and> cs = [] \<or> links fs (start_cluster (root_dir fs idx)) cs"
  shows "\<exists>fs'. FAT12_remove None nm fs = Some (True, fs') \<and>
     root_dir fs' = (root_dir fs)(idx := (root_dir fs idx)\<lparr>name := 0xE5 # tl nm\<rparr>) \<and>
     (\<forall>k. fat_table fs' k = (if k \<in> unat ` set cs then 0 else fat_table fs k)) \<and> lookup None nm fs' = Some (None, fs')"
proof -
  let ?e = "root_dir fs idx"
  have nm: "name ?e = nm" using assms(2) by (simp add: root_match_def Let_def)
  define fs1 where "fs1 = fs\<lparr>inodepool := p\<lparr>inodes := (inodes p)(i := entry_inode ?e idx fs)\<rparr>\<rparr>"
  have l: "lookup None nm fs = Some (Some i, fs1)"
    unfolding fs1_def by (rule lookup_root_Some [OF assms(1,2) _ assms(4,5)]) (use assms(1,3) in simp)
  have n: "inode fs1 i = entry_inode ?e idx fs" "root_dir fs1 = root_dir fs" "fat_table fs1 = fat_table fs" "root_entries fs1 = root_entries fs"
    "this fs1 = this fs" by (simp_all add: fs1_def inode_def)
  define fs2 where "fs2 = put_root idx (?e\<lparr>name := 0xE5 # tl nm\<rparr>) fs1"
  have d: "delete_dir_entry (root_location idx) fs1 = Some (True, fs2)"
    using root_slot [of idx fs1] assms(1) n nm by (simp add: delete_dir_entry_def put_root_def fs2_def Let_def)
  define fs3 where "fs3 = free_chain (start_cluster ?e) fs2"
  have f: "fs3 = fs2\<lparr>fat_table := (\<lambda>k. if k \<in> unat ` set cs then 0 else fat_table fs k), fat_table_dirty := fat_table_dirty fs3\<rparr>"
  proof -
    have t: "fat_table fs2 = fat_table fs" by (simp add: fs2_def put_root_def n)
    then have "links fs2 c ds = links fs c ds" for c ds by (induction ds arbitrary: c) (simp_all add: fat_next_def)
    then show ?thesis using assms(6) free_chain_links [of fs2 "start_cluster ?e" cs] t free_chain.simps [of 0 fs2]
      by (auto simp: fs3_def cong: if_cong)
  qed
  define fs4 where "fs4 = release_inode (Some i) fs3"
  have r: "root_dir fs4 = root_dir fs3" "fat_table fs4 = fat_table fs3" "root_entries fs4 = root_entries fs3"
    by (simp_all add: fs4_def release_inode_def upd_inode_def Let_def)
  have rd: "root_dir fs3 = root_dir fs2" "root_entries fs3 = root_entries fs2" "inode fs2 = inode fs1"
    by (subst f, simp)+ (simp add: fs2_def)
  have "FAT12_remove None nm fs = Some (True, fs4)"
    using l d n rd(3) by (simp add: FAT12_remove_def entry_inode_def fs4_def fs3_def)
  moreover have "root_match fs4 nm j = root_match fs2 nm j" for j by (simp add: root_match_def r rd)
  then have "lookup None nm fs4 = Some (None, fs4)"
    using assms(3) by (intro lookup_root_None) (auto simp: r rd fs2_def root_match_put n root_match_def)
  moreover have "fat_table fs4 = (\<lambda>k. if k \<in> unat ` set cs then 0 else fat_table fs k)" unfolding r by (subst f) simp
  ultimately show ?thesis by (intro exI [of _ fs4]) (simp add: r rd fs2_def n)
qed

definition sample_pool :: fat12_inode_pool where
  "sample_pool = \<lparr>ip_bitmap = \<lparr>length_of = 8, bitmap_of = (\<lambda>_. 0)\<rparr>, inodes = (\<lambda>_. zero_inode), inodes_addr = 0, node_count = 8, total_pages = 1\<rparr>"

lemma sample_pool_allocate: "map_option fst (inode_pool_allocate sample_pool) = Some (Some 0)"
  by (simp add: inode_pool_allocate_def sample_pool_def BitMap_allocate_def loop_simps BitMap_get_def byte_test_def Let_def)

definition sample_fs :: FAT12_FS where
  "sample_fs = blank_fs\<lparr>inodepool := sample_pool, fat_table := (\<lambda>i. if i = 2 then 3 else if i = 3 then 0xFFF else 0),
     root_dir := (\<lambda>i. if i = 0 then zero_entry\<lparr>name := [0x61], start_cluster := 2, file_size := 700\<rparr> else zero_entry)\<rparr>"

lemma sample_not_open: "get_inode_location (inodepool sample_fs) l = None" "get_inode_cluster (inodepool sample_fs) c = None"
  by (auto simp: get_inode_location_def get_inode_cluster_def find_None_iff sample_fs_def sample_pool_def BitMap_get_def byte_test_def)

theorem create_lookup_root_witness:
  "\<exists>fs1 fs2. create_file None [0x62, 0x63] ARCHIVE sample_fs = Some (True, fs1) \<and> lookup None [0x62, 0x63] fs1 = Some (Some 0, fs2) \<and>
     location (inode fs2 0) = root_location 1"
proof -
  obtain p where p: "inode_pool_allocate (inodepool sample_fs) = Some (Some 0, p)"
    using sample_pool_allocate by (auto simp: sample_fs_def)
  have m: "\<forall>j<unat (root_entries sample_fs). \<not> root_match sample_fs [0x62, 0x63] j"
    by (simp add: root_match_def sample_fs_def zero_entry_def Let_def)
  have f: "free_root sample_fs 1" "\<forall>j<1. \<not> free_root sample_fs j" by (simp_all add: free_root_def sample_fs_def zero_entry_def)
  have n: "1 < unat (root_entries sample_fs)" by (simp add: sample_fs_def blank_fs_def)
  show ?thesis using create_lookup_root [OF _ _ _ _ m n f sample_not_open(1) p, of ARCHIVE] by (auto simp: attr_defs)
qed

theorem FAT12_remove_root_witness:
  "\<exists>fs'. FAT12_remove None [0x61] sample_fs = Some (True, fs') \<and> fat_table fs' 2 = 0 \<and> fat_table fs' 3 = 0 \<and>
     lookup None [0x61] fs' = Some (None, fs')"
proof -
  obtain p where p: "inode_pool_allocate (inodepool sample_fs) = Some (Some 0, p)"
    using sample_pool_allocate by (auto simp: sample_fs_def)
  have m: "root_match sample_fs [0x61] 0" "\<forall>j<unat (root_entries sample_fs). j \<noteq> 0 \<longrightarrow> \<not> root_match sample_fs [0x61] j"
    by (simp_all add: root_match_def sample_fs_def zero_entry_def Let_def)
  have n: "0 < unat (root_entries sample_fs)" "not_open sample_fs 0" by (simp_all add: not_open_def sample_not_open) (simp add: sample_fs_def blank_fs_def)
  have l: "links sample_fs (start_cluster (root_dir sample_fs 0)) [2, 3]"
    by (simp add: sample_fs_def valid_cluster_def fat_next_def)
  obtain fs' where "FAT12_remove None [0x61] sample_fs = Some (True, fs')" "lookup None [0x61] fs' = Some (None, fs')"
    "\<forall>k. fat_table fs' k = (if k \<in> unat ` set [2 :: u16, 3] then 0 else fat_table sample_fs k)"
    using FAT12_remove_root [OF n(1) m n(2) p disjI2 [OF l]] by blast
  then show ?thesis by auto
qed

end
