(* ===== verification/File_Manager.thy ===== *)
theory File_Manager
  imports File_Paths Console Fat12_Dir
begin

text \<open>
  The file manager (\<^verbatim>\<open>src/kernel/fileSys/file_manager.cpp\<close>): the table of open files shared by
  all processes, the mounted file systems, the descriptors and the working directory of a process, and
  the operations behind the file system calls.

  \<open>current\<close> is the file part of the running process (\<^verbatim>\<open>programManager.running\<close>).  A pointer into
  the table of open files is an index; an inode pointer is the slot of its file system and its index
  in that system's pool; a null pointer is \<^const>\<open>None\<close>.  Path and name arguments are not null.  The
  disks are shared by the file systems, so they are handed to a file system for each call.  Every
  operation runs with interrupts off or is a short sequence of such calls; the flag is not modelled.
  \<^const>\<open>None\<close> as a result is a null pointer dereference, a panic or a loop that does not end.
\<close>

section \<open>State\<close>

datatype fs_type = FXT12 | NO_FS

datatype FDType = NO_FILE | FILE | STDIN | STDOUT | STDERR

record OpenFile =
  of_node :: "(nat \<times> nat) option"
  of_type :: fs_type
  of_refcount :: int
  of_attr :: int

record File =
  fd_openfile :: "nat option"
  fd_offset :: u32
  fd_type :: FDType

record FS_info =
  disk_name :: cstr
  fsi_type :: fs_type
  fsi_disk :: IdeDrive
  inuse :: bool

text \<open>The members of a \<^verbatim>\<open>PCB\<close> that the file manager uses.\<close>

record Process =
  cwd_path :: cstr
  fd_table :: "nat \<Rightarrow> File"

record FileManager =
  openfile_table :: "nat \<Rightarrow> OpenFile"
  openfile_map :: BitMap
  fs_table :: "nat \<Rightarrow> FS_info"
  fileSystems :: "nat \<Rightarrow> FAT12_FS"
  total_mount_disk :: nat
  fm_dirty :: bool
  fm_disks :: ide
  current :: "Process option"

definition MAX_OPENFILE_COUNT :: nat where "MAX_OPENFILE_COUNT = 1024"
definition MAX_DISK_COUNT :: nat where "MAX_DISK_COUNT = 4"
definition MAX_FD_COUNT :: nat where "MAX_FD_COUNT = 64"

definition zero_openfile :: OpenFile where
  "zero_openfile = \<lparr>of_node = None, of_type = FXT12, of_refcount = 0, of_attr = 0\<rparr>"

definition zero_file :: File where
  "zero_file = \<lparr>fd_openfile = None, fd_offset = 0, fd_type = NO_FILE\<rparr>"

definition zero_info :: FS_info where
  "zero_info = \<lparr>disk_name = [], fsi_type = FXT12, fsi_disk = PrimaryMaster, inuse = False\<rparr>"

text \<open>The cleared object in slot \<open>i\<close>; the address of the slot is modelled by \<open>i + 1\<close>.\<close>

definition zero_fs :: "nat \<Rightarrow> FAT12_FS" where
  "zero_fs i = \<lparr>this = i + 1,
     cache_pool = (\<lambda>_. \<lparr>cluster_num = 0, last_used_time = 0, buf = (\<lambda>_. 0), buf_addr = 0, dirty = False, cb_refcount = 0\<rparr>),
     inodepool = \<lparr>ip_bitmap = \<lparr>length_of = 0, bitmap_of = (\<lambda>_. 0)\<rparr>, inodes = (\<lambda>_. zero_inode), inodes_addr = 0,
       node_count = 0, total_pages = 0\<rparr>,
     root_dir = (\<lambda>_. zero_entry), root_dir_addr = 0, root_dir_dirty = False, tmp_sector_buffer = (\<lambda>_. 0),
     bpb = \<lparr>bytes_per_sector = 0, sectors_per_cluster = 0, reserved_sector_count = 0, num_fats = 0, root_entry_count = 0,
       total_sectors_16 = 0, media_byte = 0, fat_size_16 = 0, sectors_per_track = 0, number_of_heads = 0,
       hidden_sectors = 0, total_sectors_32 = 0\<rparr>,
     access_time = 0, fat_table = (\<lambda>_. 0), fat_table_dirty = False, device = PrimaryMaster, fat_start_sector = 0,
     root_start_sector = 0, data_start_sector = 0, root_sector_count = 0, root_entries = 0, root_pages = 0,
     cluster_count = 0, cluster_size = 0, disks = (\<lambda>_. undefined)\<rparr>"

text \<open>A call into the file system of a slot.\<close>

definition with_fs :: "nat \<Rightarrow> (FAT12_FS \<Rightarrow> ('a \<times> FAT12_FS) option) \<Rightarrow> FileManager \<Rightarrow> ('a \<times> FileManager) option" where
  "with_fs i f fm = do {
     (r, fs) \<leftarrow> f ((fileSystems fm i)\<lparr>disks := fm_disks fm\<rparr>);
     Some (r, fm\<lparr>fileSystems := (fileSystems fm)(i := fs), fm_disks := disks fs\<rparr>)
   }"

definition upd_openfile :: "nat \<Rightarrow> (OpenFile \<Rightarrow> OpenFile) \<Rightarrow> FileManager \<Rightarrow> FileManager" where
  "upd_openfile i f fm = fm\<lparr>openfile_table := (openfile_table fm)(i := f (openfile_table fm i))\<rparr>"

definition node_of :: "FileManager \<Rightarrow> nat \<times> nat \<Rightarrow> fat12_inode" where
  "node_of fm n = inode (fileSystems fm (fst n)) (snd n)"

text \<open>The file system that the inode refers to, which must be the one it lives in.\<close>

definition node_fs :: "FileManager \<Rightarrow> nat \<times> nat \<Rightarrow> nat option" where
  "node_fs fm n = (if fat12_fs (node_of fm n) = fst n + 1 then Some (fst n) else None)"

section \<open>The table of open files\<close>

definition allocate_openfile :: "FileManager \<Rightarrow> (int \<times> FileManager) option" where
  "allocate_openfile fm = do {
     (idx, bm) \<leftarrow> BitMap_allocate (openfile_map fm) 1 False;
     Some (idx, fm\<lparr>openfile_map := bm\<rparr>)
   }"

definition release_openfile :: "nat \<Rightarrow> FileManager \<Rightarrow> FileManager" where
  "release_openfile idx fm =
     fm\<lparr>openfile_table := (openfile_table fm)(idx := zero_openfile), openfile_map := BitMap_release idx 1 (openfile_map fm)\<rparr>"

definition put_node :: "nat \<Rightarrow> nat option \<Rightarrow> FileManager \<Rightarrow> FileManager option" where
  "put_node slot n fm = do { (_, fm) \<leftarrow> with_fs slot (\<lambda>fs. Some ((), release_inode n fs)) fm; Some fm }"

definition release_openfile_node :: "nat \<Rightarrow> FileManager \<Rightarrow> FileManager option" where
  "release_openfile_node idx fm =
     (case of_node (openfile_table fm idx) of
        None \<Rightarrow> Some fm
      | Some n \<Rightarrow>
          (case of_type (openfile_table fm idx) of
             FXT12 \<Rightarrow> do { slot \<leftarrow> node_fs fm n; put_node slot (Some (snd n)) fm }
           | NO_FS \<Rightarrow> Some fm))"

definition release_lookup_openfile :: "nat option \<Rightarrow> FileManager \<Rightarrow> FileManager option" where
  "release_lookup_openfile file fm =
     (case file of
        None \<Rightarrow> Some fm
      | Some idx \<Rightarrow>
          if of_refcount (openfile_table fm idx) \<le> 0
          then do { fm \<leftarrow> release_openfile_node idx fm; Some (release_openfile idx fm) }
          else Some fm)"

section \<open>Paths\<close>

definition fm_cwd :: "FileManager \<Rightarrow> cstr" where
  "fm_cwd fm = (case current fm of Some p \<Rightarrow> if cwd_path p \<noteq> [] then cwd_path p else [slash] | None \<Rightarrow> [slash])"

definition fm_normalizePath :: "FileManager \<Rightarrow> cstr \<Rightarrow> cstr option" where
  "fm_normalizePath fm path = normalizePath (Some (fm_cwd fm)) path"

text \<open>The file system of a normalised path, and the rest of the path inside it.\<close>

definition path_resolve_fs :: "FileManager \<Rightarrow> cstr \<Rightarrow> (nat \<times> cstr) option" where
  "path_resolve_fs fm normalized =
     (if \<not> path_is_mnt_prefix normalized \<or> length normalized = 4 then Some (0, drop 1 normalized)
      else case path_next_component (drop 5 normalized) of
        None \<Rightarrow> None
      | Some (component, rest) \<Rightarrow>
          if component = [] then Some (0, drop 1 normalized)
          else case find (\<lambda>i. inuse (fs_table fm i) \<and> cstr_cmp (disk_name (fs_table fm i)) component = 0) [1..<MAX_DISK_COUNT] of
            None \<Rightarrow> None
          | Some i \<Rightarrow> Some (i, dropWhile (\<lambda>c. c = slash) rest))"

definition path_is_fs_root :: "FileManager \<Rightarrow> cstr \<Rightarrow> nat \<Rightarrow> bool" where
  "path_is_fs_root fm path expected \<longleftrightarrow>
     (case path_resolve_fs fm path of None \<Rightarrow> False | Some (i, sub) \<Rightarrow> i = expected \<and> sub = [])"

text \<open>The walk from the root of a file system along a path; the inner \<^const>\<open>None\<close> is a missing component.\<close>

lemma next_component_shorter [termination_simp]:
  "path_next_component path = Some (nm, rest) \<Longrightarrow> nm \<noteq> [] \<Longrightarrow> length rest < length path"
  using consume_shrinks [of path] by (auto simp: path_next_component_def Let_def simp del: dropWhile_eq_Nil_conv split: if_splits)

function walk :: "cstr \<Rightarrow> nat option \<Rightarrow> FAT12_FS \<Rightarrow> (nat option option \<times> FAT12_FS) option" where
  "walk path cur fs =
     (case path_next_component path of
        None \<Rightarrow> Some (None, release_inode cur fs)
      | Some (component, rest) \<Rightarrow>
          if component = [] then Some (Some cur, fs)
          else Option.bind (lookup cur component fs) (\<lambda>r.
            (case fst r of
               None \<Rightarrow> Some (None, release_inode cur (snd r))
             | Some n \<Rightarrow> walk rest (Some n) (release_inode cur (snd r)))))"
  by pat_completeness auto

termination
  by (relation "measure (\<lambda>(path, cur, fs). length path)") (auto intro: next_component_shorter)

declare walk.simps [simp del]

section \<open>Lookup\<close>

definition fm_lookup :: "cstr \<Rightarrow> FileManager \<Rightarrow> (nat option \<times> FileManager) option" where
  "fm_lookup path fm =
     (case fm_normalizePath fm path of
        None \<Rightarrow> Some (None, fm)
      | Some normalized \<Rightarrow>
     (case path_resolve_fs fm normalized of
        None \<Rightarrow> Some (None, fm)
      | Some (slot, sub) \<Rightarrow>
          if fsi_type (fs_table fm slot) \<noteq> FXT12 then Some (None, fm)
          else do {
            (r, fm) \<leftarrow> with_fs slot (walk sub None) fm;
            case r of
              None \<Rightarrow> Some (None, fm)
            | Some cur \<Rightarrow>
                let node = map_option (Pair slot) cur in
                (case find (\<lambda>i. BitMap_get (openfile_map fm) i \<and> of_type (openfile_table fm i) = fsi_type (fs_table fm slot) \<and>
                                of_node (openfile_table fm i) = node) [0..<MAX_OPENFILE_COUNT] of
                   Some i \<Rightarrow> do { fm \<leftarrow> put_node slot cur fm; Some (Some i, fm) }
                 | None \<Rightarrow> do {
                     (idx, fm) \<leftarrow> allocate_openfile fm;
                     if idx \<noteq> - 1
                     then Some (Some (nat idx), upd_openfile (nat idx)
                            (\<lambda>f. f\<lparr>of_node := node, of_type := fsi_type (fs_table fm slot), of_refcount := 0, of_attr := 0\<rparr>) fm)
                     else do { fm \<leftarrow> put_node slot cur fm; Some (None, fm) }
                   })
          }))"

text \<open>The result is the error flag, the name, the slot, the parent's inode and its open file.\<close>

definition resolve_parent ::
    "cstr \<Rightarrow> FileManager \<Rightarrow> ((bool \<times> cstr \<times> nat \<times> (nat \<times> nat) option \<times> nat option) \<times> FileManager) option" where
  "resolve_parent path fm =
     (case fm_normalizePath fm path of
        None \<Rightarrow> Some ((False, [], 0, None, None), fm)
      | Some normalized \<Rightarrow>
     (case splitPath (fm_cwd fm) normalized of
        None \<Rightarrow> Some ((False, [], 0, None, None), fm)
      | Some (parent, nm) \<Rightarrow>
     (case path_resolve_fs fm normalized of
        None \<Rightarrow> Some ((False, nm, 0, None, None), fm)
      | Some (slot, sub) \<Rightarrow>
          if fsi_type (fs_table fm slot) \<noteq> FXT12 then Some ((False, nm, slot, None, None), fm)
          else if path_is_fs_root fm parent slot then Some ((True, nm, slot, None, None), fm)
          else do {
            (f, fm) \<leftarrow> fm_lookup parent fm;
            case f of
              None \<Rightarrow> Some ((False, nm, slot, None, None), fm)
            | Some i \<Rightarrow>
                if of_type (openfile_table fm i) \<noteq> FXT12 then Some ((False, nm, slot, None, Some i), fm)
                else Some ((True, nm, slot, of_node (openfile_table fm i), Some i), fm)
          })))"

section \<open>Descriptors\<close>

definition init_process_fs :: "Process \<Rightarrow> Process" where
  "init_process_fs p = p\<lparr>fd_table := (\<lambda>_. zero_file)(0 := zero_file\<lparr>fd_type := STDIN\<rparr>, 1 := zero_file\<lparr>fd_type := STDOUT\<rparr>,
     2 := zero_file\<lparr>fd_type := STDERR\<rparr>), cwd_path := [slash]\<rparr>"

definition fm_open :: "cstr \<Rightarrow> FileManager \<Rightarrow> (int \<times> FileManager) option" where
  "fm_open path fm =
     (case current fm of
        None \<Rightarrow> Some (- 1, fm)
      | Some p \<Rightarrow> do {
          (f, fm) \<leftarrow> fm_lookup path fm;
          case f of
            None \<Rightarrow> Some (- 1, fm)
          | Some o_idx \<Rightarrow>
              (case find (\<lambda>i. fd_type (fd_table p i) = NO_FILE) [3..<MAX_FD_COUNT] of
                 Some fd \<Rightarrow> Some (int fd, upd_openfile o_idx (\<lambda>f. f\<lparr>of_refcount := of_refcount f + 1\<rparr>)
                   (fm\<lparr>current := Some (p\<lparr>fd_table := (fd_table p)(fd := \<lparr>fd_openfile = Some o_idx, fd_offset = 0, fd_type = FILE\<rparr>)\<rparr>)\<rparr>))
               | None \<Rightarrow>
                   if of_refcount (openfile_table fm o_idx) = 0
                   then do { fm \<leftarrow> release_openfile_node o_idx fm; Some (- 1, release_openfile o_idx fm) }
                   else Some (- 1, fm))
        })"

definition close_fd :: "Process \<Rightarrow> int \<Rightarrow> FileManager \<Rightarrow> (int \<times> Process \<times> FileManager) option" where
  "close_fd p fd fm =
     (if fd < 0 \<or> int MAX_FD_COUNT \<le> fd then Some (- 1, p, fm)
      else let file = fd_table p (nat fd) in
        if fd_type file \<in> {STDIN, STDOUT, STDERR} then Some (- 1, p, fm)
        else case fd_openfile file of
          None \<Rightarrow> Some (- 1, p, fm)
        | Some o_idx \<Rightarrow>
            if fd_type file \<noteq> FILE then Some (- 1, p, fm)
            else do {
              let p = p\<lparr>fd_table := (fd_table p)(nat fd := \<lparr>fd_openfile = None, fd_offset = 0, fd_type = NO_FILE\<rparr>)\<rparr>;
              let fm = upd_openfile o_idx (\<lambda>f. f\<lparr>of_refcount := of_refcount f - 1\<rparr>) fm;
              if of_refcount (openfile_table fm o_idx) \<le> 0
              then do { fm \<leftarrow> release_openfile_node o_idx fm; Some (0, p, release_openfile o_idx fm) }
              else Some (0, p, fm)
            })"

definition fm_close :: "int \<Rightarrow> FileManager \<Rightarrow> (int \<times> FileManager) option" where
  "fm_close fd fm =
     (case current fm of
        None \<Rightarrow> Some (- 1, fm)
      | Some p \<Rightarrow> do { (r, p, fm) \<leftarrow> close_fd p fd fm; Some (r, fm\<lparr>current := Some p\<rparr>) })"

text \<open>What a child inherits; \<open>child\<close> is its freshly cleared process.\<close>

fun share_files :: "nat \<Rightarrow> nat \<Rightarrow> Process \<Rightarrow> Process \<Rightarrow> FileManager \<Rightarrow> Process \<times> FileManager" where
  "share_files 0 i parent child fm = (child, fm)"
| "share_files (Suc n) i parent child fm =
     (let child = child\<lparr>fd_table := (fd_table child)(i := fd_table parent i)\<rparr>
      in share_files n (i + 1) parent child
        (case fd_openfile (fd_table child i) of
           Some o_idx \<Rightarrow> if fd_type (fd_table child i) = FILE then upd_openfile o_idx (\<lambda>f. f\<lparr>of_refcount := of_refcount f + 1\<rparr>) fm else fm
         | None \<Rightarrow> fm))"

definition fork_process_fs :: "Process \<Rightarrow> Process \<Rightarrow> FileManager \<Rightarrow> Process \<times> FileManager" where
  "fork_process_fs child parent fm = share_files MAX_FD_COUNT 0 parent (child\<lparr>cwd_path := cwd_path parent\<rparr>) fm"

definition exec_process_fs :: "Process \<Rightarrow> Process" where
  "exec_process_fs p = (if cwd_path p = [] then p\<lparr>cwd_path := [slash]\<rparr> else p)"

fun close_from :: "nat \<Rightarrow> nat \<Rightarrow> Process \<Rightarrow> FileManager \<Rightarrow> (Process \<times> FileManager) option" where
  "close_from 0 i p fm = Some (p, fm)"
| "close_from (Suc n) i p fm = do { (_, p, fm) \<leftarrow> close_fd p (int i) fm; close_from n (i + 1) p fm }"

definition release_process_fs :: "Process \<Rightarrow> FileManager \<Rightarrow> (Process \<times> FileManager) option" where
  "release_process_fs p fm = do {
     (p, fm) \<leftarrow> close_from (MAX_FD_COUNT - 3) 3 p fm;
     Some (init_process_fs p, fm)
   }"

section \<open>Working directory\<close>

definition fm_chdir :: "cstr \<Rightarrow> FileManager \<Rightarrow> (int \<times> FileManager) option" where
  "fm_chdir path fm =
     (case current fm of
        None \<Rightarrow> Some (- 1, fm)
      | Some p \<Rightarrow>
     (case fm_normalizePath fm path of
        None \<Rightarrow> Some (- 1, fm)
      | Some normalized \<Rightarrow>
          if (case path_resolve_fs fm normalized of Some (_, sub) \<Rightarrow> sub = [] | None \<Rightarrow> False)
          then Some (0, fm\<lparr>current := Some (p\<lparr>cwd_path := normalized\<rparr>)\<rparr>)
          else do {
            (f, fm) \<leftarrow> fm_lookup normalized fm;
            case f of
              None \<Rightarrow> Some (- 1, fm)
            | Some i \<Rightarrow>
                let is_dir = (of_type (openfile_table fm i) = FXT12 \<and>
                      (case of_node (openfile_table fm i) of None \<Rightarrow> False | Some n \<Rightarrow> ino_attr (node_of fm n) AND DIRECTORY \<noteq> 0));
                    fm = (if is_dir then fm\<lparr>current := Some (p\<lparr>cwd_path := normalized\<rparr>)\<rparr> else fm)
                in do { fm \<leftarrow> release_lookup_openfile (Some i) fm; Some (if is_dir then 0 else - 1, fm) }
          }))"

definition put_string :: "cstr \<Rightarrow> bytes \<Rightarrow> bytes" where
  "put_string str b = (\<lambda>i. if i < length str then str ! i else if i = length str then 0 else b i)"

definition fm_getcwd :: "bytes option \<Rightarrow> int \<Rightarrow> FileManager \<Rightarrow> int \<times> bytes option" where
  "fm_getcwd out sz fm =
     (case (current fm, out) of
        (Some p, Some b) \<Rightarrow>
          if sz \<le> 0 then (- 1, out)
          else if sz < int (length (fm_cwd fm)) + 1 then (- 1, out)
          else (int (length (fm_cwd fm)), Some (put_string (fm_cwd fm) b))
      | _ \<Rightarrow> (- 1, out))"

section \<open>Reading and writing\<close>

text \<open>A position in a file of the running process.\<close>

definition set_offset :: "nat \<Rightarrow> u32 \<Rightarrow> FileManager \<Rightarrow> FileManager" where
  "set_offset fd off fm =
     fm\<lparr>current := map_option (\<lambda>p. p\<lparr>fd_table := (fd_table p)(fd := (fd_table p fd)\<lparr>fd_offset := off\<rparr>)\<rparr>) (current fm)\<rparr>"

text \<open>The inode behind a descriptor; a root directory has none, and following it is an error of the code.\<close>

definition fm_read ::
    "int \<Rightarrow> bytes option \<Rightarrow> u32 \<Rightarrow> (KeyboardManager \<times> Screen \<Rightarrow> KeyboardManager \<times> Screen) list \<Rightarrow> FileManager \<times> KeyboardManager \<times> Screen \<Rightarrow>
     (int \<times> bytes option \<times> FileManager \<times> KeyboardManager \<times> Screen) option" where
  "fm_read fd out sz waits = (\<lambda>(fm, k, s).
     case (current fm, out) of
       (Some p, Some b) \<Rightarrow>
         if fd < 0 \<or> int MAX_FD_COUNT \<le> fd \<or> sint sz \<le> 0 then Some (- 1, out, fm, k, s)
         else let file = fd_table p (nat fd) in
           if fd_type file = STDIN
           then do { (n, out, k, s) \<leftarrow> keyboard_read out (sint sz) k s waits; Some (n, out, fm, k, s) }
           else if fd_type file \<noteq> FILE then Some (- 1, out, fm, k, s)
           else (case fd_openfile file of
             None \<Rightarrow> Some (- 1, out, fm, k, s)
           | Some o_idx \<Rightarrow>
               if of_type (openfile_table fm o_idx) \<noteq> FXT12 then Some (- 1, out, fm, k, s)
               else do {
                 n \<leftarrow> of_node (openfile_table fm o_idx);
                 slot \<leftarrow> node_fs fm n;
                 ((ret, b), fm) \<leftarrow> with_fs slot
                    (\<lambda>fs. map_option (\<lambda>(r, b, fs). ((r, b), fs)) (FAT12_read (Some (snd n)) b sz (fd_offset file) fs)) fm;
                 Some (sint ret, Some b,
                   if 0 < sint ret then set_offset (nat fd) (fd_offset file + ret) fm else fm, k, s)
               })
     | _ \<Rightarrow> Some (- 1, out, fm, k, s))"

definition fm_write :: "int \<Rightarrow> bytes option \<Rightarrow> u32 \<Rightarrow> FileManager \<times> Screen \<Rightarrow> (int \<times> FileManager \<times> Screen) option" where
  "fm_write fd src sz = (\<lambda>(fm, s).
     case (current fm, src) of
       (Some p, Some b) \<Rightarrow>
         if fd < 0 \<or> int MAX_FD_COUNT \<le> fd \<or> sint sz \<le> 0 then Some (- 1, fm, s)
         else let file = fd_table p (nat fd) in
           if fd_type file = STDOUT \<or> fd_type file = STDERR
           then Some (sint sz, fm, fold (\<lambda>i. print_char (b i)) [0..<unat sz] s)
           else if fd_type file \<noteq> FILE then Some (- 1, fm, s)
           else (case fd_openfile file of
             None \<Rightarrow> Some (- 1, fm, s)
           | Some o_idx \<Rightarrow>
               if of_type (openfile_table fm o_idx) \<noteq> FXT12 then Some (- 1, fm, s)
               else do {
                 n \<leftarrow> of_node (openfile_table fm o_idx);
                 slot \<leftarrow> node_fs fm n;
                 (ret, fm) \<leftarrow> with_fs slot (FAT12_write (Some (snd n)) b sz (fd_offset file)) fm;
                 Some (sint ret,
                   if 0 < sint ret then (set_offset (nat fd) (fd_offset file + ret) fm)\<lparr>fm_dirty := True\<rparr> else fm, s)
               })
     | _ \<Rightarrow> Some (- 1, fm, s))"

definition fm_append :: "int \<Rightarrow> bytes option \<Rightarrow> u32 \<Rightarrow> FileManager \<Rightarrow> (int \<times> FileManager) option" where
  "fm_append fd src sz fm =
     (case (current fm, src) of
        (Some p, Some b) \<Rightarrow>
          if fd \<le> 2 \<or> int MAX_FD_COUNT \<le> fd \<or> sint sz \<le> 0 then Some (- 1, fm)
          else let file = fd_table p (nat fd) in
            (case fd_openfile file of
               None \<Rightarrow> Some (- 1, fm)
             | Some o_idx \<Rightarrow>
                 if fd_type file \<noteq> FILE then Some (- 1, fm)
                 else if of_type (openfile_table fm o_idx) \<noteq> FXT12 then Some (- 1, fm)
                 else do {
                   n \<leftarrow> of_node (openfile_table fm o_idx);
                   slot \<leftarrow> node_fs fm n;
                   (ret, fm) \<leftarrow> with_fs slot (FAT12_append (Some (snd n)) b sz) fm;
                   Some (ret, if 0 < ret then (set_offset (nat fd) (ino_size (node_of fm n)) fm)\<lparr>fm_dirty := True\<rparr> else fm)
                 })
      | _ \<Rightarrow> Some (- 1, fm))"

definition fm_fseek :: "int \<Rightarrow> u32 \<Rightarrow> u32 \<Rightarrow> FileManager \<Rightarrow> (int \<times> FileManager) option" where
  "fm_fseek fd bias whence fm =
     (case current fm of
        None \<Rightarrow> Some (- 1, fm)
      | Some p \<Rightarrow>
          if fd < 0 \<or> int MAX_FD_COUNT \<le> fd then Some (- 1, fm)
          else let file = fd_table p (nat fd) in
            (case fd_openfile file of
               None \<Rightarrow> Some (- 1, fm)
             | Some o_idx \<Rightarrow>
                 if of_type (openfile_table fm o_idx) \<noteq> FXT12 then Some (- 1, fm)
                 else do {
                   n \<leftarrow> of_node (openfile_table fm o_idx);
                   let file_size = ino_size (node_of fm n);
                   (case (if whence = 0 then Some 0 else if whence = 1 then Some (fd_offset file)
                          else if whence = 2 then Some file_size else None) of
                      None \<Rightarrow> Some (- 1, fm)
                    | Some base \<Rightarrow>
                        let next_offset = base + bias in
                        if sint next_offset < 0 \<or> sint file_size < sint next_offset then Some (- 1, fm)
                        else Some (sint next_offset, set_offset (nat fd) next_offset fm))
                 }))"

section \<open>Creating and removing\<close>

definition in_parent ::
    "(nat option \<Rightarrow> cstr \<Rightarrow> FAT12_FS \<Rightarrow> (bool \<times> FAT12_FS) option) \<Rightarrow> cstr \<Rightarrow> FileManager \<Rightarrow> (int \<times> FileManager) option" where
  "in_parent act path fm = do {
     ((ok, nm, slot, node, file), fm) \<leftarrow> resolve_parent path fm;
     (ret, fm) \<leftarrow>
       (if \<not> ok then Some (- 1, fm)
        else if (case node of None \<Rightarrow> False
                 | Some n \<Rightarrow> node_fs fm n \<noteq> Some slot \<or> ino_attr (node_of fm n) AND DIRECTORY = 0) then Some (- 1, fm)
        else do {
          (done_it, fm) \<leftarrow> with_fs slot (act (map_option snd node) nm) fm;
          Some (if done_it then (0, fm\<lparr>fm_dirty := True\<rparr>) else (- 1, fm))
        });
     fm \<leftarrow> release_lookup_openfile file fm;
     Some (ret, fm)
   }"

definition fm_create_file :: "cstr \<Rightarrow> FileManager \<Rightarrow> (int \<times> FileManager) option" where
  "fm_create_file = in_parent (\<lambda>dir nm. create_file dir nm ARCHIVE)"

definition fm_remove_file :: "cstr \<Rightarrow> FileManager \<Rightarrow> (int \<times> FileManager) option" where
  "fm_remove_file = in_parent FAT12_remove"

definition fm_mkdir :: "cstr \<Rightarrow> FileManager \<Rightarrow> (int \<times> FileManager) option" where
  "fm_mkdir = in_parent create_directory"

definition fm_rmdir :: "cstr \<Rightarrow> FileManager \<Rightarrow> (int \<times> FileManager) option" where
  "fm_rmdir = in_parent remove_directory"

section \<open>Listing a directory\<close>

datatype VfsEntryType = VFS_ENTRY_UNKNOWN | VFS_ENTRY_FILE | VFS_ENTRY_DIR

record LsEntry =
  ls_name :: cstr
  ls_type :: VfsEntryType
  ls_attr :: u8
  ls_start_cluster :: u16
  ls_size :: u32

definition fill_ls_entry :: "fat12_normalized_entry \<Rightarrow> LsEntry" where
  "fill_ls_entry src =
     \<lparr>ls_name = name src, ls_type = (if attr src AND DIRECTORY \<noteq> 0 then VFS_ENTRY_DIR else VFS_ENTRY_FILE), ls_attr = attr src,
      ls_start_cluster = start_cluster src, ls_size = file_size src\<rparr>"

partial_function (option) ls_loop :: "int \<Rightarrow> fat12_dir_iter \<Rightarrow> LsEntry list \<Rightarrow> FAT12_FS \<Rightarrow> (LsEntry list \<times> FAT12_FS) option" where
  "ls_loop max_entries it es fs =
     (if int (length es) < max_entries
      then Option.bind (dir_iter_next it fs) (\<lambda>r.
        if fst r
        then let e = normalized_entry (it_current (fst (snd r))) in
          if name e = [] \<or> hd (name e) = 0xE5 then ls_loop max_entries (fst (snd r)) es (snd (snd r))
          else ls_loop max_entries (fst (snd r)) (es @ [fill_ls_entry e]) (snd (snd r))
        else Some (es, snd (snd r)))
      else Some (es, fs))"

definition fm_ls :: "cstr \<Rightarrow> int \<Rightarrow> FileManager \<Rightarrow> (int \<times> LsEntry list \<times> FileManager) option" where
  "fm_ls path max_entries fm =
     (if max_entries \<le> 0 then Some (- 1, [], fm)
      else case fm_normalizePath fm path of
        None \<Rightarrow> Some (- 1, [], fm)
      | Some normalized \<Rightarrow>
     (case path_resolve_fs fm normalized of
        None \<Rightarrow> Some (- 1, [], fm)
      | Some (slot, sub) \<Rightarrow>
          if fsi_type (fs_table fm slot) \<noteq> FXT12 then Some (- 1, [], fm)
          else do {
            (file, fm) \<leftarrow> (if sub \<noteq> [] then fm_lookup normalized fm else Some (None, fm));
            (ret, es, fm) \<leftarrow>
              (if sub \<noteq> [] \<and> (case file of None \<Rightarrow> True
                   | Some i \<Rightarrow> of_type (openfile_table fm i) \<noteq> FXT12 \<or>
                       (case of_node (openfile_table fm i) of None \<Rightarrow> True
                        | Some n \<Rightarrow> node_fs fm n \<noteq> Some slot \<or> ino_attr (node_of fm n) AND DIRECTORY = 0))
               then Some (- 1, [], fm)
               else let node = (case file of None \<Rightarrow> None | Some i \<Rightarrow> of_node (openfile_table fm i)) in
                 (case dir_iter_init (map_option snd node) (fileSystems fm slot) of
                    None \<Rightarrow> Some (- 1, [], fm)
                  | Some it \<Rightarrow> do {
                      (es, fm) \<leftarrow> with_fs slot (ls_loop max_entries it []) fm;
                      Some (int (length es), es, fm)
                    }));
            fm \<leftarrow> release_lookup_openfile file fm;
            Some (ret, es, fm)
          }))"

section \<open>Mounting\<close>

definition fm_initialize :: "IdeDrive \<Rightarrow> fs_type \<Rightarrow> FileManager \<times> MM \<Rightarrow> (FileManager \<times> MM) option" where
  "fm_initialize disk fs_t = (\<lambda>(fm, mm). do {
     let fm = fm\<lparr>openfile_table := (\<lambda>_. zero_openfile), openfile_map := BitMap_initialize (\<lambda>_. 0) (int MAX_OPENFILE_COUNT),
       fs_table := (\<lambda>_. zero_info)(0 := \<lparr>disk_name = [slash], fsi_type = fs_t, fsi_disk = disk, inuse = True\<rparr>),
       fileSystems := zero_fs, total_mount_disk := 1, fm_dirty := False\<rparr>;
     case fs_t of
       FXT12 \<Rightarrow> do {
         ((_, mm), fm) \<leftarrow> with_fs 0 (\<lambda>fs. map_option (\<lambda>(r, fs, mm). ((r, mm), fs)) (FAT12_mount disk fs mm)) fm;
         Some (fm, mm)
       }
     | NO_FS \<Rightarrow> None
   })"

definition fm_mount :: "cstr \<Rightarrow> IdeDrive \<Rightarrow> fs_type \<Rightarrow> FileManager \<times> MM \<Rightarrow> (int \<times> FileManager \<times> MM) option" where
  "fm_mount nm disk fs_t = (\<lambda>(fm, mm).
     if MAX_DISK_COUNT \<le> total_mount_disk fm then Some (- 1, fm, mm)
     else do {
       let i = total_mount_disk fm;
       let fm = fm\<lparr>fileSystems := (fileSystems fm)(i := zero_fs i),
         fs_table := (fs_table fm)(i := \<lparr>disk_name = nm, fsi_type = fs_t, fsi_disk = disk, inuse = False\<rparr>)\<rparr>;
       (res, fm, mm) \<leftarrow>
         (case fs_t of
            FXT12 \<Rightarrow> do {
              ((r, mm), fm) \<leftarrow> with_fs i (\<lambda>fs. map_option (\<lambda>(r, fs, mm). ((r, mm), fs)) (FAT12_mount disk fs mm)) fm;
              Some (r, fm, mm)
            }
          | NO_FS \<Rightarrow> Some (False, fm, mm));
       if res then Some (0, fm\<lparr>fs_table := (fs_table fm)(i := (fs_table fm i)\<lparr>inuse := True\<rparr>), total_mount_disk := i + 1\<rparr>, mm)
       else Some (- 1, fm, mm)
     })"

fun sync_from :: "nat \<Rightarrow> nat \<Rightarrow> FileManager \<Rightarrow> FileManager option" where
  "sync_from 0 i fm = Some fm"
| "sync_from (Suc n) i fm =
     (if inuse (fs_table fm i) \<and> fsi_type (fs_table fm i) = FXT12
      then do { (_, fm) \<leftarrow> with_fs i (\<lambda>fs. map_option (Pair ()) (FAT12_flush_all fs)) fm; sync_from n (i + 1) fm }
      else sync_from n (i + 1) fm)"

definition fm_sync_all :: "FileManager \<Rightarrow> FileManager option" where
  "fm_sync_all fm =
     (if \<not> fm_dirty fm then Some fm
      else do { fm \<leftarrow> sync_from MAX_DISK_COUNT 0 fm; Some (fm\<lparr>fm_dirty := False\<rparr>) })"

end
