(* ===== verification/File_Refs.thy ===== *)
theory File_Refs
  imports File_Manager
begin

text \<open>
  The reference counts of the table of open files: over any sequence of file system calls, forks and
  exits of the processes, an entry is in use exactly while some descriptor refers to it, and its count
  is the number of those descriptors.
\<close>

section \<open>Counting references\<close>

definition MAX_PROGRAM_AMOUNT :: nat where "MAX_PROGRAM_AMOUNT = 16"

definition fds_on :: "Process \<Rightarrow> nat \<Rightarrow> nat set" where
  "fds_on p i = {fd. fd < MAX_FD_COUNT \<and> fd_type (fd_table p fd) = FILE \<and> fd_openfile (fd_table p fd) = Some i}"

definition refs :: "(nat \<Rightarrow> Process) \<Rightarrow> nat \<Rightarrow> nat" where
  "refs P i = (\<Sum>p<MAX_PROGRAM_AMOUNT. card (fds_on (P p) i))"

definition process_ok :: "Process \<Rightarrow> bool" where
  "process_ok p \<longleftrightarrow> (\<forall>fd<MAX_FD_COUNT. if fd_type (fd_table p fd) = FILE
     then 3 \<le> fd \<and> (\<exists>i<MAX_OPENFILE_COUNT. fd_openfile (fd_table p fd) = Some i) else fd_openfile (fd_table p fd) = None)"

definition count_of :: "FileManager \<Rightarrow> nat \<Rightarrow> int" where
  "count_of fm i = of_refcount (openfile_table fm i)"

definition taken :: "FileManager \<Rightarrow> nat \<Rightarrow> bool" where
  "taken fm = BitMap_get (openfile_map fm)"

text \<open>The invariant: \<open>P\<close> gives the file part of every process.\<close>

definition refs_ok :: "(nat \<Rightarrow> Process) \<Rightarrow> FileManager \<Rightarrow> bool" where
  "refs_ok P fm \<longleftrightarrow> length_of (openfile_map fm) = int MAX_OPENFILE_COUNT \<and>
     (\<forall>i<MAX_OPENFILE_COUNT. count_of fm i = int (refs P i) \<and> (taken fm i \<longleftrightarrow> 0 < refs P i)) \<and>
     (\<forall>p<MAX_PROGRAM_AMOUNT. process_ok (P p))"

lemma finite_fds [simp]: "finite (fds_on p i)"
  by (simp add: fds_on_def)

lemma refs_upd: "p < MAX_PROGRAM_AMOUNT \<Longrightarrow> refs (P(p := q)) i + card (fds_on (P p) i) = refs P i + card (fds_on q i)"
proof -
  assume p: "p < MAX_PROGRAM_AMOUNT"
  have "(\<Sum>x\<in>{..<MAX_PROGRAM_AMOUNT} - {p}. card (fds_on ((P(p := q)) x) i)) = (\<Sum>x\<in>{..<MAX_PROGRAM_AMOUNT} - {p}. card (fds_on (P x) i))"
    by (rule sum.cong) auto
  then show ?thesis using p sum.remove [of "{..<MAX_PROGRAM_AMOUNT}" p "\<lambda>x. card (fds_on ((P(p := q)) x) i)"]
      sum.remove [of "{..<MAX_PROGRAM_AMOUNT}" p "\<lambda>x. card (fds_on (P x) i)"] by (simp add: refs_def)
qed

lemma refs_ge: "p < MAX_PROGRAM_AMOUNT \<Longrightarrow> card (fds_on (P p) i) \<le> refs P i"
  unfolding refs_def by (rule member_le_sum) simp_all

text \<open>Changing one descriptor.\<close>

definition fd_bit :: "File \<Rightarrow> nat \<Rightarrow> nat" where
  "fd_bit f i = (if fd_type f = FILE \<and> fd_openfile f = Some i then 1 else 0)"

lemma fds_on_upd:
  assumes "fd < MAX_FD_COUNT"
  shows "card (fds_on (p\<lparr>fd_table := (fd_table p)(fd := f)\<rparr>) i) + fd_bit (fd_table p fd) i = card (fds_on p i) + fd_bit f i"
proof -
  let ?q = "p\<lparr>fd_table := (fd_table p)(fd := f)\<rparr>"
  have "fds_on ?q i - {fd} = fds_on p i - {fd}" by (auto simp: fds_on_def)
  moreover have "card (fds_on r i) = card (fds_on r i - {fd}) + fd_bit (fd_table r fd) i" for r
    using assms card.remove [of "fds_on r i" fd] by (auto simp: fds_on_def fd_bit_def)
  ultimately show ?thesis by (metis (no_types, lifting) Process.select_convs(2) Process.surjective Process.update_convs(2) add.commute add.left_commute fun_upd_same)
qed

text \<open>Two states with the same entries and counts; two processes with the same descriptors.\<close>

definition same_counts :: "FileManager \<Rightarrow> FileManager \<Rightarrow> bool" where
  "same_counts fm fm' \<longleftrightarrow> length_of (openfile_map fm') = length_of (openfile_map fm) \<and>
     (\<forall>i<MAX_OPENFILE_COUNT. count_of fm' i = count_of fm i \<and> (taken fm' i \<longleftrightarrow> taken fm i))"

definition same_fds :: "Process \<Rightarrow> Process \<Rightarrow> bool" where
  "same_fds p q \<longleftrightarrow> (\<forall>fd. fd_type (fd_table q fd) = fd_type (fd_table p fd) \<and> fd_openfile (fd_table q fd) = fd_openfile (fd_table p fd))"

lemma same_fds_refl [simp]: "same_fds p p"
  by (simp add: same_fds_def)

lemma same_fdsD: "same_fds p q \<Longrightarrow> fds_on q i = fds_on p i" "same_fds p q \<Longrightarrow> process_ok q = process_ok p"
  by (auto simp: same_fds_def fds_on_def process_ok_def)

lemma same_counts_refl [simp]: "same_counts fm fm"
  by (simp add: same_counts_def)

lemma same_counts_trans: "same_counts a b \<Longrightarrow> same_counts b c \<Longrightarrow> same_counts a c"
  by (simp add: same_counts_def)

lemma refs_ok_same:
  assumes "refs_ok P fm" and "same_counts fm fm'" and "same_fds (P p) q" and "p < MAX_PROGRAM_AMOUNT"
  shows "refs_ok (P(p := q)) fm'"
proof -
  have "refs (P(p := q)) i = refs P i" for i using refs_upd [OF assms(4), of P q i] same_fdsD(1) [OF assms(3)] by simp
  then show ?thesis using assms same_fdsD(2) [OF assms(3)] by (auto simp: refs_ok_def same_counts_def)
qed

section \<open>What the helpers change\<close>

lemma with_fs_tab:
  assumes "with_fs i f fm = Some (r, fm')"
  shows "openfile_table fm' = openfile_table fm" "openfile_map fm' = openfile_map fm" "current fm' = current fm"
    "fs_table fm' = fs_table fm"
  using assms by (auto simp: with_fs_def bind_eq_Some_conv split: prod.splits)

lemma same_counts_tab:
  "openfile_table fm' = openfile_table fm \<Longrightarrow> openfile_map fm' = openfile_map fm \<Longrightarrow> same_counts fm fm'"
  by (simp add: same_counts_def count_of_def taken_def)

lemma put_node_tab:
  assumes "put_node slot n fm = Some fm'"
  shows "openfile_table fm' = openfile_table fm" "openfile_map fm' = openfile_map fm" "current fm' = current fm"
  using assms by (auto simp: put_node_def bind_eq_Some_conv dest: with_fs_tab)

lemma release_node_tab:
  assumes "release_openfile_node i fm = Some fm'"
  shows "openfile_table fm' = openfile_table fm" "openfile_map fm' = openfile_map fm" "current fm' = current fm"
proof -
  have "fm' = fm \<or> (\<exists>slot n. put_node slot n fm = Some fm')"
  proof (cases "of_node (openfile_table fm i)")
    case (Some n)
    then show ?thesis using assms by (cases "of_type (openfile_table fm i)") (auto simp: release_openfile_node_def bind_eq_Some_conv)
  qed (use assms in \<open>simp add: release_openfile_node_def\<close>)
  then have "openfile_table fm' = openfile_table fm \<and> openfile_map fm' = openfile_map fm \<and> current fm' = current fm"
  proof (elim disjE exE)
    fix slot n assume p: "put_node slot n fm = Some fm'"
    show ?thesis by (simp add: put_node_tab [OF p])
  qed simp
  then show "openfile_table fm' = openfile_table fm" "openfile_map fm' = openfile_map fm" "current fm' = current fm" by simp_all
qed

lemma release_openfile_counts:
  "current (release_openfile i fm) = current fm" "length_of (openfile_map (release_openfile i fm)) = length_of (openfile_map fm)"
  "count_of (release_openfile i fm) j = (if j = i then 0 else count_of fm j)" "taken (release_openfile i fm) j \<longleftrightarrow> taken fm j \<and> j \<noteq> i"
  by (auto simp: release_openfile_def count_of_def taken_def zero_openfile_def)

lemma upd_count:
  "current (upd_openfile i g fm) = current fm" "openfile_map (upd_openfile i g fm) = openfile_map fm"
  "taken (upd_openfile i g fm) = taken fm"
  "count_of (upd_openfile i g fm) j = (if j = i then of_refcount (g (openfile_table fm i)) else count_of fm j)"
  by (simp_all add: upd_openfile_def taken_def count_of_def)

text \<open>Lookup may take a new entry, whose count is 0.\<close>

lemma lookup_counts:
  assumes l: "fm_lookup path fm = Some (r, fm')" and len: "length_of (openfile_map fm) = int MAX_OPENFILE_COUNT"
    and free: "\<forall>i<MAX_OPENFILE_COUNT. \<not> taken fm i \<longrightarrow> count_of fm i = 0"
  shows "current fm' = current fm" "r = None \<Longrightarrow> same_counts fm fm'"
    "r = Some i \<Longrightarrow> i < MAX_OPENFILE_COUNT \<and> length_of (openfile_map fm') = length_of (openfile_map fm) \<and>
       (\<forall>j<MAX_OPENFILE_COUNT. count_of fm' j = count_of fm j \<and> (taken fm' j \<longleftrightarrow> taken fm j \<or> j = i))"
proof -
  consider "r = None" "fm' = fm"
    | normalized slot sub w fm1 where "fm_normalizePath fm path = Some normalized" "path_resolve_fs fm normalized = Some (slot, sub)"
      "with_fs slot (walk sub None) fm = Some (w, fm1)" "fsi_type (fs_table fm slot) = FXT12"
    using l by (auto simp: fm_lookup_def bind_eq_Some_conv split: option.splits if_splits prod.splits)
  then have "current fm' = current fm \<and> (r = None \<longrightarrow> same_counts fm fm') \<and> (\<forall>i. r = Some i \<longrightarrow> i < MAX_OPENFILE_COUNT \<and>
     length_of (openfile_map fm') = length_of (openfile_map fm) \<and>
     (\<forall>j<MAX_OPENFILE_COUNT. count_of fm' j = count_of fm j \<and> (taken fm' j \<longleftrightarrow> taken fm j \<or> j = i)))"
  proof cases
    case 2
    note tab = with_fs_tab [OF 2(3)]
    have same: "same_counts fm fm1" by (rule same_counts_tab [OF tab(1,2)])
    show ?thesis
    proof (cases w)
      case None
      then show ?thesis using l 2 tab(3) same by (simp add: fm_lookup_def)
    next
      case (Some cur)
      let ?P = "\<lambda>i. BitMap_get (openfile_map fm1) i \<and> of_type (openfile_table fm1 i) = FXT12 \<and> of_node (openfile_table fm1 i) = map_option (Pair slot) cur"
      show ?thesis
      proof (cases "find ?P [0..<MAX_OPENFILE_COUNT]")
        case f: (Some k)
        then have k: "k < MAX_OPENFILE_COUNT" "taken fm k" using tab by (auto simp: find_Some_iff taken_def)
        obtain fm2 where "put_node slot cur fm1 = Some fm2" "r = Some k" "fm' = fm2"
          using l 2 Some f tab by (auto simp: fm_lookup_def bind_eq_Some_conv)
        then show ?thesis using put_node_tab [of slot cur fm1 fm2] tab k by (auto simp: count_of_def taken_def)
      next
        case f: None
        show ?thesis
        proof (rule BitMap_allocate_cases [of 1 "openfile_map fm1" False])
          show "0 < (1 :: int)" "0 \<le> length_of (openfile_map fm1)" using len tab by simp_all
        next
          assume a: "BitMap_allocate (openfile_map fm1) 1 False = Some (- 1, openfile_map fm1)"
          obtain fm2 where "put_node slot cur (fm1\<lparr>openfile_map := openfile_map fm\<rparr>) = Some fm2" "r = None" "fm' = fm2"
            using l 2 Some f tab a by (auto simp: fm_lookup_def bind_eq_Some_conv allocate_openfile_def)
          then show ?thesis using put_node_tab [of slot cur "fm1\<lparr>openfile_map := openfile_map fm\<rparr>" fm2] tab by (auto intro: same_counts_tab)
        next
          fix k b assume a: "BitMap_allocate (openfile_map fm1) 1 False = Some (k, b)" "fits (openfile_map fm1) k 1" "takes_run (openfile_map fm1) k 1 b"
          have k: "0 \<le> k" "nat k < MAX_OPENFILE_COUNT" "\<not> taken fm (nat k)"
            using a(2) len tab by (auto simp: fits_def taken_def MAX_OPENFILE_COUNT_def)
          have g: "BitMap_get b j \<longleftrightarrow> taken fm j \<or> j = nat k" for j
          proof -
            have "k \<le> int j \<and> int j < k + 1 \<longleftrightarrow> j = nat k" using k(1) by linarith
            then show ?thesis using a(3) by (simp add: takes_run_def taken_def tab(2))
          qed
          have "r = Some (nat k)" "fm' = upd_openfile (nat k)
              (\<lambda>f. f\<lparr>of_node := map_option (Pair slot) cur, of_type := FXT12, of_refcount := 0, of_attr := 0\<rparr>) (fm1\<lparr>openfile_map := b\<rparr>)"
            using l 2 Some f tab a k by (auto simp: fm_lookup_def bind_eq_Some_conv allocate_openfile_def)
          moreover have "length_of b = length_of (openfile_map fm)" using a(3) tab by (simp add: takes_run_def)
          ultimately show ?thesis using k g free tab by (auto simp: upd_openfile_def count_of_def taken_def)
        qed
      qed
    qed
  qed simp
  then show "current fm' = current fm" "r = None \<Longrightarrow> same_counts fm fm'"
    "r = Some i \<Longrightarrow> i < MAX_OPENFILE_COUNT \<and> length_of (openfile_map fm') = length_of (openfile_map fm) \<and>
       (\<forall>j<MAX_OPENFILE_COUNT. count_of fm' j = count_of fm j \<and> (taken fm' j \<longleftrightarrow> taken fm j \<or> j = i))" by auto
qed

section \<open>Calls that keep the descriptors\<close>

definition table_ok :: "FileManager \<Rightarrow> bool" where
  "table_ok fm \<longleftrightarrow> length_of (openfile_map fm) = int MAX_OPENFILE_COUNT \<and>
     (\<forall>i<MAX_OPENFILE_COUNT. 0 \<le> count_of fm i \<and> (taken fm i \<longleftrightarrow> 0 < count_of fm i))"

definition keeps :: "FileManager \<Rightarrow> FileManager \<Rightarrow> bool" where
  "keeps fm fm' \<longleftrightarrow> same_counts fm fm' \<and> (\<forall>p. current fm = Some p \<longrightarrow> (\<exists>q. current fm' = Some q \<and> same_fds p q))"

lemma keepsI: "same_counts fm fm' \<Longrightarrow> current fm' = current fm \<Longrightarrow> keeps fm fm'"
  by (auto simp: keeps_def)

lemma keeps_refl [simp]: "keeps fm fm"
  by (simp add: keepsI)

lemma same_fds_trans: "same_fds p q \<Longrightarrow> same_fds q r \<Longrightarrow> same_fds p r"
  by (simp add: same_fds_def)

lemma keeps_trans: "keeps a b \<Longrightarrow> keeps b c \<Longrightarrow> keeps a c"
  unfolding keeps_def by (blast intro: same_counts_trans same_fds_trans)

lemma with_fs_keeps: "with_fs i f fm = Some (r, fm') \<Longrightarrow> keeps fm fm'"
  by (frule with_fs_tab(1), frule with_fs_tab(2), drule with_fs_tab(3)) (rule keepsI [OF same_counts_tab])

lemma dirty_keeps: "keeps fm (fm\<lparr>fm_dirty := b\<rparr>)"
  by (simp add: keepsI same_counts_tab)

lemma set_offset_keeps: "keeps fm (set_offset fd off fm)"
  by (auto simp: keeps_def set_offset_def same_fds_def intro: same_counts_tab)

lemma set_cwd_keeps: "current fm = Some p \<Longrightarrow> keeps fm (fm\<lparr>current := Some (p\<lparr>cwd_path := w\<rparr>)\<rparr>)"
  by (auto simp: keeps_def same_fds_def intro: same_counts_tab)

lemma release_lookup_effect:
  assumes "release_lookup_openfile (Some i) fm = Some fm'"
  shows "current fm' = current fm \<and> length_of (openfile_map fm') = length_of (openfile_map fm) \<and>
     (\<forall>j. count_of fm' j = (if j = i \<and> count_of fm i \<le> 0 then 0 else count_of fm j) \<and>
          (taken fm' j \<longleftrightarrow> taken fm j \<and> \<not> (j = i \<and> count_of fm i \<le> 0)))"
proof (cases "count_of fm i \<le> 0")
  case True
  then obtain fm1 where r: "release_openfile_node i fm = Some fm1" "fm' = release_openfile i fm1"
    using assms by (auto simp: release_lookup_openfile_def count_of_def bind_eq_Some_conv)
  have "count_of fm1 = count_of fm" "taken fm1 = taken fm" by (simp_all add: fun_eq_iff count_of_def taken_def release_node_tab [OF r(1)])
  then show ?thesis using True by (simp add: r(2) release_openfile_counts release_node_tab [OF r(1)])
next
  case False
  then show ?thesis using assms by (simp add: release_lookup_openfile_def count_of_def)
qed

text \<open>A lookup whose result is given back, with calls in between that keep the table.\<close>

lemma lookup_give_back:
  assumes ok: "table_ok fm" and l: "fm_lookup path fm = Some (r, fm1)" and k: "keeps fm1 fm2" and "release_lookup_openfile r fm2 = Some fm3"
  shows "keeps fm fm3"
proof -
  note lc = lookup_counts [OF l]
  have pre: "length_of (openfile_map fm) = int MAX_OPENFILE_COUNT" "\<forall>i<MAX_OPENFILE_COUNT. \<not> taken fm i \<longrightarrow> count_of fm i = 0"
    using ok by (auto simp: table_ok_def order.order_iff_strict)
  have c: "current fm1 = current fm" by (rule lc(1) [OF pre])
  have "same_counts fm fm3 \<and> current fm3 = current fm2"
  proof (cases r)
    case None
    then show ?thesis using lc(2) [OF pre None] k assms(4) by (auto simp: release_lookup_openfile_def keeps_def intro: same_counts_trans)
  next
    case (Some i)
    note li = lc(3) [OF pre Some] and re = release_lookup_effect [of i fm2 fm3]
    have sc: "same_counts fm1 fm2" using k by (simp add: keeps_def)
    have "count_of fm2 i = count_of fm i" using li sc by (simp add: same_counts_def)
    then show ?thesis using li sc re assms(4) Some ok by (auto simp: same_counts_def table_ok_def not_le)
  qed
  then show ?thesis using k c by (simp add: keeps_def)
qed

lemma in_parent_keeps:
  assumes "table_ok fm" and "in_parent act path fm = Some (r, fm')"
  shows "keeps fm fm'"
proof -
  obtain ok nm slot node f fm1 r2 fm2 where
    rp: "resolve_parent path fm = Some ((ok, nm, slot, node, f), fm1)"
    and mid: "(if \<not> ok then Some (- 1 :: int, fm1)
        else if (case node of None \<Rightarrow> False
                 | Some n \<Rightarrow> node_fs fm1 n \<noteq> Some slot \<or> ino_attr (node_of fm1 n) AND DIRECTORY = 0) then Some (- 1, fm1)
        else do {
          (done_it, fm) \<leftarrow> with_fs slot (act (map_option snd node) nm) fm1;
          Some (if done_it then (0, fm\<lparr>fm_dirty := True\<rparr>) else (- 1, fm))
        }) = Some (r2, fm2)"
    and re: "release_lookup_openfile f fm2 = Some fm'"
    using assms(2) unfolding in_parent_def by (auto simp: bind_eq_Some_conv simp del: if_split_asm split del: if_split)
  have k: "keeps fm1 fm2" using mid by (auto simp: bind_eq_Some_conv split: if_splits dest!: with_fs_keeps intro: keeps_trans dirty_keeps)
  consider "fm1 = fm" "f = None" | parent where "fm_lookup parent fm = Some (f, fm1)"
    using rp unfolding resolve_parent_def by (auto split: Option.bind_split_asm option.split_asm if_split_asm prod.split_asm)
  then show ?thesis
  proof cases
    case 1
    then show ?thesis using k re by (simp add: release_lookup_openfile_def)
  next
    case 2
    show ?thesis by (rule lookup_give_back [OF assms(1) 2 k re])
  qed
qed

lemma chdir_cases:
  assumes "fm_chdir path fm = Some (r, fm')" and "current fm = Some p"
  obtains (same) "r \<noteq> 0" "fm' = fm"
  | (root) w where "r = 0" "fm_normalizePath fm path = Some w" "fm' = fm\<lparr>current := Some (p\<lparr>cwd_path := w\<rparr>)\<rparr>"
  | (dir) w f fm1 fm2 where "fm_normalizePath fm path = Some w" "fm_lookup w fm = Some (f, fm1)"
      "r = 0 \<and> fm2 = fm1\<lparr>current := Some (p\<lparr>cwd_path := w\<rparr>)\<rparr> \<or> r \<noteq> 0 \<and> fm2 = fm1" "release_lookup_openfile f fm2 = Some fm'"
  using assms unfolding fm_chdir_def Let_def
  by (auto split: Option.bind_split_asm option.split_asm if_split_asm prod.split_asm)
    (fastforce simp: release_lookup_openfile_def)+

lemma chdir_keeps:
  assumes "table_ok fm" and "fm_chdir path fm = Some (r, fm')"
  shows "keeps fm fm'"
proof (cases "current fm")
  case (Some p)
  from assms(2) Some show ?thesis
  proof (cases rule: chdir_cases)
    case (dir w f fm1 fm2)
    have "current fm1 = Some p" using lookup_counts(1) [OF dir(2)] assms(1) Some by (auto simp: table_ok_def order.order_iff_strict)
    then have "keeps fm1 fm2" using dir(3) set_cwd_keeps [of fm1 p w] by auto
    then show ?thesis by (rule lookup_give_back [OF assms(1) dir(2) _ dir(4)])
  qed (simp_all add: set_cwd_keeps [OF Some])
qed (use assms(2) in \<open>simp add: fm_chdir_def\<close>)

lemma release_lookup_None: "release_lookup_openfile None fm = Some fm"
  by (simp add: release_lookup_openfile_def)

lemma ls_keeps:
  assumes "table_ok fm" and "fm_ls path n fm = Some (r, es, fm')"
  shows "keeps fm fm'"
proof -
  note give = lookup_give_back [OF assms(1)]
  show ?thesis
  proof (cases "n \<le> 0 \<or> fm_normalizePath fm path = None")
    case False
    then obtain w where w: "\<not> n \<le> 0" "fm_normalizePath fm path = Some w" by auto
    show ?thesis
    proof (cases "path_resolve_fs fm w")
      case (Some ss)
      obtain slot sub where ss: "ss = (slot, sub)" by (cases ss)
      show ?thesis
      proof (cases "fsi_type (fs_table fm slot) = FXT12")
        case True
        note u = assms(2) w Some ss True
        show ?thesis
        proof (cases "sub = []")
          case s: True
          show ?thesis using u s by (simp add: fm_ls_def Let_def)
            (auto simp: release_lookup_None split: Option.bind_split_asm option.split_asm prod.split_asm dest!: with_fs_keeps)
        next
          case False
          then obtain f fm1 where l: "fm_lookup w fm = Some (f, fm1)" using u by (auto simp: fm_ls_def bind_eq_Some_conv)
          have "\<exists>fm2. keeps fm1 fm2 \<and> release_lookup_openfile f fm2 = Some fm'"
            using u False l by (simp add: fm_ls_def Let_def)
              (auto split: Option.bind_split_asm option.split_asm if_split_asm prod.split_asm dest!: with_fs_keeps intro: keeps_refl)
          then show ?thesis using give [OF l] by auto
        qed
      qed (use assms(2) w Some ss in \<open>simp add: fm_ls_def\<close>)
    qed (use assms(2) w in \<open>simp add: fm_ls_def\<close>)
  qed (use assms(2) in \<open>auto simp: fm_ls_def split: if_split_asm\<close>)
qed

text \<open>Reading, writing, appending and moving the position.\<close>

lemma moved_dirty: "keeps fm ((set_offset fd off fm)\<lparr>fm_dirty := True\<rparr>)"
  by (rule keeps_trans [OF set_offset_keeps dirty_keeps])

lemma read_keeps:
  assumes "fm_read fd out sz waits (fm, k, s) = Some (r, out', fm', k', s')"
  shows "keeps fm fm'"
  using assms unfolding fm_read_def Let_def
  by (auto split: Option.bind_split_asm option.split_asm if_split_asm prod.split_asm dest!: with_fs_keeps
      intro: keeps_trans [OF _ set_offset_keeps] keeps_trans [OF _ moved_dirty])

lemma write_keeps:
  assumes "fm_write fd src sz (fm, s) = Some (r, fm', s')"
  shows "keeps fm fm'"
  using assms unfolding fm_write_def Let_def
  by (auto split: Option.bind_split_asm option.split_asm if_split_asm prod.split_asm dest!: with_fs_keeps
      intro: keeps_trans [OF _ set_offset_keeps] keeps_trans [OF _ moved_dirty])

lemma append_keeps:
  assumes "fm_append fd src sz fm = Some (r, fm')"
  shows "keeps fm fm'"
  using assms unfolding fm_append_def Let_def
  by (auto split: Option.bind_split_asm option.split_asm if_split_asm prod.split_asm dest!: with_fs_keeps
      intro: keeps_trans [OF _ set_offset_keeps] keeps_trans [OF _ moved_dirty])

lemma fseek_keeps:
  assumes "fm_fseek fd bias whence fm = Some (r, fm')"
  shows "keeps fm fm'"
  using assms unfolding fm_fseek_def Let_def
  by (auto split: Option.bind_split_asm option.split_asm if_split_asm prod.split_asm simp: set_offset_keeps)

lemma sync_keeps: "fm_sync_all fm = Some fm' \<Longrightarrow> keeps fm fm'"
proof -
  have "sync_from n i fm = Some fm' \<Longrightarrow> keeps fm fm'" for n i fm fm'
    by (induction n i fm rule: sync_from.induct)
      (auto split: Option.bind_split_asm if_split_asm dest!: with_fs_keeps intro: keeps_trans)
  then show "fm_sync_all fm = Some fm' \<Longrightarrow> keeps fm fm'"
    by (auto simp: fm_sync_all_def bind_eq_Some_conv split: if_splits intro: keeps_trans [OF _ dirty_keeps])
qed

section \<open>Opening and closing\<close>

lemma refs_table_ok: "refs_ok P fm \<Longrightarrow> table_ok fm"
  by (simp add: refs_ok_def table_ok_def)

lemma refs_current: "refs_ok P (fm\<lparr>current := c\<rparr>) = refs_ok P fm" "table_ok (fm\<lparr>current := c\<rparr>) = table_ok fm"
  by (simp_all add: refs_ok_def table_ok_def count_of_def taken_def)

text \<open>A descriptor \<open>fd\<close> of process \<open>p\<close> is set to \<open>f\<close>, and the counts follow.\<close>

lemma refs_ok_fd:
  assumes ok: "refs_ok P fm" and p: "p < MAX_PROGRAM_AMOUNT" and fd: "fd < MAX_FD_COUNT"
    and q: "process_ok (P p\<lparr>fd_table := (fd_table (P p))(fd := f)\<rparr>)"
    and len: "length_of (openfile_map fm') = length_of (openfile_map fm)"
    and count: "\<forall>i<MAX_OPENFILE_COUNT. count_of fm' i = count_of fm i + int (fd_bit f i) - int (fd_bit (fd_table (P p) fd) i) \<and>
      (taken fm' i \<longleftrightarrow> 0 < count_of fm' i)"
  shows "refs_ok (P(p := P p\<lparr>fd_table := (fd_table (P p))(fd := f)\<rparr>)) fm'"
proof -
  let ?q = "P p\<lparr>fd_table := (fd_table (P p))(fd := f)\<rparr>"
  have r: "int (refs (P(p := ?q)) i) = int (refs P i) + int (fd_bit f i) - int (fd_bit (fd_table (P p) fd) i)" for i
    using refs_upd [OF p, of P ?q i] fds_on_upd [OF fd, of "P p" f i] by linarith
  have "0 < refs (P(p := ?q)) i \<longleftrightarrow> 0 < int (refs P i) + int (fd_bit f i) - int (fd_bit (fd_table (P p) fd) i)" for i
    using r [of i] by linarith
  then show ?thesis using ok q len count r by (auto simp: refs_ok_def)
qed

lemma fd_bit_simps [simp]:
  "fd_bit \<lparr>fd_openfile = Some k, fd_offset = off, fd_type = FILE\<rparr> i = (if i = k then 1 else 0)"
  "fd_type f \<noteq> FILE \<Longrightarrow> fd_bit f i = 0"
  by (simp_all add: fd_bit_def)

lemma open_refs:
  assumes ok: "refs_ok P fm" and p: "p < MAX_PROGRAM_AMOUNT" and c: "current fm = Some (P p)"
    and "fm_open path fm = Some (r, fm')"
  shows "\<exists>q. current fm' = Some q \<and> refs_ok (P(p := q)) fm'"
proof -
  obtain f fm1 where l: "fm_lookup path fm = Some (f, fm1)" using assms(4) c by (auto simp: fm_open_def bind_eq_Some_conv)
  have pre: "length_of (openfile_map fm) = int MAX_OPENFILE_COUNT" "\<forall>i<MAX_OPENFILE_COUNT. \<not> taken fm i \<longrightarrow> count_of fm i = 0"
    using ok by (auto simp: refs_ok_def)
  note lc = lookup_counts [OF l pre]
  show ?thesis
  proof (cases f)
    case None
    have "refs_ok (P(p := P p)) fm1" using refs_ok_same [OF ok lc(2) [OF None] same_fds_refl p] .
    then show ?thesis using assms(4) l None c lc(1) by (auto simp: fm_open_def)
  next
    case (Some k)
    note lk = lc(3) [OF Some]
    show ?thesis
    proof (cases "find (\<lambda>i. fd_type (fd_table (P p) i) = NO_FILE) [3..<MAX_FD_COUNT]")
      case f: (Some fd)
      let ?f = "\<lparr>fd_openfile = Some k, fd_offset = 0, fd_type = FILE\<rparr>" and ?g = "\<lambda>f. f\<lparr>of_refcount := of_refcount f + 1\<rparr>"
      let ?q = "P p\<lparr>fd_table := (fd_table (P p))(fd := ?f)\<rparr>"
      have fd: "3 \<le> fd" "fd < MAX_FD_COUNT" "fd_type (fd_table (P p) fd) = NO_FILE" using f by (auto simp: find_Some_iff)
      have fm': "fm' = upd_openfile k ?g (fm1\<lparr>current := Some ?q\<rparr>)"
        using assms(4) l Some f c by (simp add: fm_open_def)
      have n: "count_of fm' i = count_of fm i + (if i = k then 1 else 0)" "taken fm' i \<longleftrightarrow> taken fm i \<or> i = k" if "i < MAX_OPENFILE_COUNT" for i
        using lk that by (auto simp: fm' upd_openfile_def count_of_def taken_def)
      have "refs_ok (P(p := ?q)) fm'"
      proof (rule refs_ok_fd [OF ok p fd(2)])
        show "process_ok ?q" using ok p lk fd by (auto simp: refs_ok_def process_ok_def)
        show "length_of (openfile_map fm') = length_of (openfile_map fm)" using lk by (simp add: fm' upd_count)
        show "\<forall>i<MAX_OPENFILE_COUNT. count_of fm' i = count_of fm i + int (fd_bit ?f i) - int (fd_bit (fd_table (P p) fd) i) \<and>
            (taken fm' i \<longleftrightarrow> 0 < count_of fm' i)" using n fd ok by (auto simp: refs_ok_def)
      qed
      then show ?thesis using fm' by (auto simp: upd_count)
    next
      case f: None
      have cur: "current fm1 = Some (P p)" using lc(1) c by simp
      have "release_lookup_openfile (Some k) fm1 = Some fm' \<or> fm' = fm1 \<and> 0 < count_of fm k"
      proof (cases "count_of fm k = 0")
        case True
        then show ?thesis using assms(4) l Some f c lk
          by (auto simp: fm_open_def release_lookup_openfile_def count_of_def bind_eq_Some_conv)
      next
        case False
        then have "0 < count_of fm k" using ok lk by (auto simp: refs_ok_def)
        then show ?thesis using assms(4) l Some f c lk
          by (auto simp: fm_open_def count_of_def)
      qed
      then have "keeps fm fm'"
      proof (elim disjE conjE)
        assume "release_lookup_openfile (Some k) fm1 = Some fm'"
        then show ?thesis using lookup_give_back [OF refs_table_ok [OF ok] l keeps_refl] Some by simp
      next
        assume "fm' = fm1" "0 < count_of fm k"
        then have "same_counts fm fm'" using lk ok by (auto simp: same_counts_def refs_ok_def)
        then show ?thesis using \<open>fm' = fm1\<close> lc(1) by (simp add: keepsI)
      qed
      then show ?thesis using c refs_ok_same [OF ok _ _ p] by (fastforce simp: keeps_def)
    qed
  qed
qed

lemma close_refs:
  assumes ok: "refs_ok P fm" and p: "p < MAX_PROGRAM_AMOUNT" and cl: "close_fd (P p) fd fm = Some (r, q, fm')"
  shows "refs_ok (P(p := q)) fm' \<and> current fm' = current fm \<and>
     (0 \<le> fd \<and> fd < int MAX_FD_COUNT \<longrightarrow> fd_type (fd_table q (nat fd)) \<noteq> FILE) \<and>
     (\<forall>k. k \<noteq> nat fd \<longrightarrow> fd_table q k = fd_table (P p) k)"
proof (cases "0 \<le> fd \<and> fd < int MAX_FD_COUNT \<and> fd_type (fd_table (P p) (nat fd)) = FILE")
  case True
  let ?file = "fd_table (P p) (nat fd)" and ?f = "\<lparr>fd_openfile = None, fd_offset = 0, fd_type = NO_FILE\<rparr>"
  have n: "nat fd < MAX_FD_COUNT" using True by (simp add: nat_less_iff)
  have pk: "process_ok (P p)" using ok p by (simp add: refs_ok_def)
  obtain k where k: "fd_openfile ?file = Some k" "k < MAX_OPENFILE_COUNT" using pk [unfolded process_ok_def, rule_format, OF n] True by auto
  let ?q = "P p\<lparr>fd_table := (fd_table (P p))(nat fd := ?f)\<rparr>" and ?fm = "upd_openfile k (\<lambda>f. f\<lparr>of_refcount := of_refcount f - 1\<rparr>) fm"
  have bit: "fd_bit ?file i = (if i = k then 1 else 0)" "fd_bit ?f i = 0" for i using True k by (auto simp: fd_bit_def)
  have used: "0 < refs P k"
  proof -
    have "nat fd \<in> fds_on (P p) k" using True k n by (simp add: fds_on_def)
    then have "0 < card (fds_on (P p) k)" by (auto simp: card_gt_0_iff)
    then show ?thesis using refs_ge [OF p, of P k] by linarith
  qed
  have c: "count_of ?fm i = count_of fm i - (if i = k then 1 else 0)" "taken ?fm i = taken fm i" for i
    by (auto simp: upd_openfile_def count_of_def taken_def)
  have "refs_ok (P(p := ?q)) fm' \<and> current fm' = current fm"
  proof (cases "count_of ?fm k \<le> 0")
    case le: True
    then obtain fm1 where r: "release_openfile_node k ?fm = Some fm1" "fm' = release_openfile k fm1"
      using cl True k by (auto simp: close_fd_def bind_eq_Some_conv count_of_def Let_def)
    have e: "count_of fm1 = count_of ?fm" "taken fm1 = taken ?fm" by (simp_all add: fun_eq_iff count_of_def taken_def release_node_tab [OF r(1)])
    have one: "count_of fm k = 1" using le c [of k] ok used k by (auto simp: refs_ok_def)
    have "refs_ok (P(p := ?q)) fm'"
    proof (rule refs_ok_fd [OF ok p n])
      show "process_ok ?q" using pk by (auto simp: process_ok_def)
      show "length_of (openfile_map fm') = length_of (openfile_map fm)"
        by (simp add: r(2) release_openfile_counts release_node_tab [OF r(1)] upd_count)
      show "\<forall>i<MAX_OPENFILE_COUNT. count_of fm' i = count_of fm i + int (fd_bit ?f i) - int (fd_bit ?file i) \<and> (taken fm' i \<longleftrightarrow> 0 < count_of fm' i)"
        using ok one by (auto simp: r(2) release_openfile_counts e c bit refs_ok_def)
    qed
    then show ?thesis by (simp add: r(2) release_openfile_counts release_node_tab [OF r(1)] upd_count)
  next
    case gt: False
    then have r: "fm' = ?fm" using cl True k by (auto simp: close_fd_def count_of_def Let_def)
    have "refs_ok (P(p := ?q)) fm'"
    proof (rule refs_ok_fd [OF ok p n])
      show "process_ok ?q" using pk by (auto simp: process_ok_def)
      show "length_of (openfile_map fm') = length_of (openfile_map fm)" by (simp add: r upd_count)
      show "\<forall>i<MAX_OPENFILE_COUNT. count_of fm' i = count_of fm i + int (fd_bit ?f i) - int (fd_bit ?file i) \<and> (taken fm' i \<longleftrightarrow> 0 < count_of fm' i)"
        using ok gt c by (auto simp: r bit refs_ok_def)
    qed
    then show ?thesis by (simp add: r upd_count)
  qed
  moreover have "q = ?q" using cl True k by (auto simp: close_fd_def Let_def bind_eq_Some_conv split: if_splits)
  ultimately show ?thesis by simp
next
  case False
  then have "q = P p" "fm' = fm" using cl by (auto simp: close_fd_def Let_def bind_eq_Some_conv split: if_splits option.splits)
  then show ?thesis using False ok by auto
qed

lemma close_from_refs:
  assumes "refs_ok P fm" and p: "p < MAX_PROGRAM_AMOUNT" and "close_from n i (P p) fm = Some (q, fm')" and "i + n \<le> MAX_FD_COUNT"
  shows "refs_ok (P(p := q)) fm' \<and> current fm' = current fm \<and>
     (\<forall>k. i \<le> k \<and> k < i + n \<longrightarrow> fd_type (fd_table q k) \<noteq> FILE) \<and> (\<forall>k<i. fd_table q k = fd_table (P p) k)"
  using assms
proof (induction n arbitrary: P i fm)
  case (Suc n)
  obtain r q1 fm1 where c: "close_fd (P p) (int i) fm = Some (r, q1, fm1)" "close_from n (i + 1) q1 fm1 = Some (q, fm')"
    using Suc.prems(3) by (auto simp: bind_eq_Some_conv)
  note cr = close_refs [OF Suc.prems(1) p c(1)]
  define Q where "Q = P(p := q1)"
  have Q: "Q p = q1" "Q(p := q) = P(p := q)" "refs_ok Q fm1" using cr by (simp_all add: Q_def)
  have ih: "refs_ok (Q(p := q)) fm' \<and> current fm' = current fm1 \<and>
     (\<forall>k. i + 1 \<le> k \<and> k < i + 1 + n \<longrightarrow> fd_type (fd_table q k) \<noteq> FILE) \<and> (\<forall>k<i + 1. fd_table q k = fd_table (Q p) k)"
  proof (rule Suc.IH)
    show "refs_ok Q fm1" by (rule Q(3))
    show "close_from n (i + 1) (Q p) fm1 = Some (q, fm')" using c(2) Q(1) by simp
    show "i + 1 + n \<le> MAX_FD_COUNT" using Suc.prems(4) by simp
  qed (rule p)
  have t: "fd_type (fd_table q1 i) \<noteq> FILE" "\<forall>k. k \<noteq> i \<longrightarrow> fd_table q1 k = fd_table (P p) k" using cr Suc.prems(4) by simp_all
  show ?case
  proof (intro conjI allI impI)
    show "refs_ok (P(p := q)) fm'" "current fm' = current fm" using ih cr Q(2) by simp_all
  next
    fix k assume "i \<le> k \<and> k < i + Suc n"
    then show "fd_type (fd_table q k) \<noteq> FILE" using ih t(1) Q(1) by (cases "k = i") simp_all
  next
    fix k assume "k < i"
    then show "fd_table q k = fd_table (P p) k" using ih t(2) Q(1) by simp
  qed
qed auto

lemma init_process_ok: "process_ok (init_process_fs q)" "fds_on (init_process_fs q) i = {}"
  by (auto simp: process_ok_def fds_on_def init_process_fs_def zero_file_def)

lemma release_refs:
  assumes ok: "refs_ok P fm" and p: "p < MAX_PROGRAM_AMOUNT" and "release_process_fs (P p) fm = Some (q, fm')"
  shows "refs_ok (P(p := q)) fm' \<and> current fm' = current fm \<and> (\<forall>i. fds_on q i = {})"
proof -
  obtain q1 where q1: "close_from (MAX_FD_COUNT - 3) 3 (P p) fm = Some (q1, fm')" "q = init_process_fs q1"
    using assms(3) by (auto simp: release_process_fs_def bind_eq_Some_conv)
  have r: "refs_ok (P(p := q1)) fm'" "current fm' = current fm"
    "\<forall>k. 3 \<le> k \<and> k < MAX_FD_COUNT \<longrightarrow> fd_type (fd_table q1 k) \<noteq> FILE" "\<forall>k<3. fd_table q1 k = fd_table (P p) k"
    using close_from_refs [OF ok p q1(1)] by (simp_all add: MAX_FD_COUNT_def)
  have pk: "process_ok (P p)" using ok p by (simp add: refs_ok_def)
  have "fds_on q1 i = {}" for i
  proof -
    have "fd_type (fd_table q1 k) \<noteq> FILE" if "k < MAX_FD_COUNT" for k
      using r(3,4) pk that by (cases "k < 3") (auto simp: process_ok_def split: if_splits)
    then show ?thesis by (auto simp: fds_on_def)
  qed
  then have "refs (P(p := q)) i = refs (P(p := q1)) i" for i
    using refs_upd [OF p, of P q i] refs_upd [OF p, of P q1 i] by (simp add: q1(2) init_process_ok)
  then show ?thesis using r by (auto simp: refs_ok_def q1(2) init_process_ok)
qed

lemma share_files_effect:
  assumes "share_files n i parent child fm = (child', fm')"
  shows "fd_table child' k = (if i \<le> k \<and> k < i + n then fd_table parent k else fd_table child k) \<and>
     openfile_map fm' = openfile_map fm \<and> current fm' = current fm \<and>
     count_of fm' o_idx = count_of fm o_idx + int (\<Sum>k\<in>{i..<i + n}. fd_bit (fd_table parent k) o_idx)"
  using assms
proof (induction n arbitrary: i child fm)
  case (Suc n)
  let ?child = "child\<lparr>fd_table := (fd_table child)(i := fd_table parent i)\<rparr>"
  define fm1 where "fm1 = (case fd_openfile (fd_table parent i) of
     Some o_idx \<Rightarrow> if fd_type (fd_table parent i) = FILE then upd_openfile o_idx (\<lambda>f. f\<lparr>of_refcount := of_refcount f + 1\<rparr>) fm else fm
   | None \<Rightarrow> fm)"
  have s: "share_files n (i + 1) parent ?child fm1 = (child', fm')" using Suc.prems by (simp add: fm1_def Let_def cong: if_cong option.case_cong)
  have 1: "openfile_map fm1 = openfile_map fm" "current fm1 = current fm"
    "count_of fm1 o_idx = count_of fm o_idx + int (fd_bit (fd_table parent i) o_idx)"
    by (auto simp: fm1_def upd_openfile_def count_of_def fd_bit_def split: option.splits)
  have "(\<Sum>k\<in>{i..<i + Suc n}. fd_bit (fd_table parent k) o_idx) =
      fd_bit (fd_table parent i) o_idx + (\<Sum>k\<in>{i + 1..<i + 1 + n}. fd_bit (fd_table parent k) o_idx)"
    by (subst sum.atLeast_Suc_lessThan) simp_all
  then show ?case using Suc.IH [OF s] 1 by (auto simp: le_less Suc_le_eq)
qed auto

lemma fork_refs:
  assumes ok: "refs_ok P fm" and p: "p < MAX_PROGRAM_AMOUNT" "c < MAX_PROGRAM_AMOUNT" and free: "\<forall>i. fds_on (P c) i = {}"
    and f: "fork_process_fs fresh (P p) fm = (child, fm')"
  shows "refs_ok (P(c := child)) fm' \<and> current fm' = current fm"
proof -
  have s: "share_files MAX_FD_COUNT 0 (P p) (fresh\<lparr>cwd_path := cwd_path (P p)\<rparr>) fm = (child, fm')"
    using f by (simp add: fork_process_fs_def)
  have t: "fd_table child k = fd_table (P p) k" if "k < MAX_FD_COUNT" for k using share_files_effect [OF s, of k] that by simp
  have fds: "fds_on child i = fds_on (P p) i" for i using t by (auto simp: fds_on_def)
  have "card (fds_on (P p) i) = (\<Sum>k\<in>{0..<MAX_FD_COUNT}. fd_bit (fd_table (P p) k) i)" for i
  proof -
    have "fds_on (P p) i = {k \<in> {0..<MAX_FD_COUNT}. fd_type (fd_table (P p) k) = FILE \<and> fd_openfile (fd_table (P p) k) = Some i}"
      by (auto simp: fds_on_def)
    then show ?thesis by (simp add: fd_bit_def sum.If_cases Int_def)
  qed
  then have cnt: "count_of fm' i = count_of fm i + int (card (fds_on child i))" for i
    using share_files_effect [OF s, of 0 i] fds by simp
  have r: "refs (P(c := child)) i = refs P i + card (fds_on child i)" for i using refs_upd [OF p(2), of P child i] free by simp
  have m: "openfile_map fm' = openfile_map fm" "current fm' = current fm" using share_files_effect [OF s] by simp_all
  have used: "0 < refs P i" if "0 < card (fds_on child i)" for i
    using that refs_ge [OF p(1), of P i] fds [of i] by simp
  have "process_ok (P p)" using ok p by (simp add: refs_ok_def)
  then have "process_ok child" using t by (simp add: process_ok_def)
  then show ?thesis using ok cnt r m used by (auto simp: refs_ok_def taken_def)
qed

section \<open>Steps of the system\<close>

text \<open>The file system calls, as what they do to the file manager; arguments and results vary.\<close>

inductive fs_call :: "(FileManager \<Rightarrow> FileManager option) \<Rightarrow> bool" where
  call_open: "fs_call (\<lambda>fm. map_option snd (fm_open path fm))"
| call_close: "fs_call (\<lambda>fm. map_option snd (fm_close fd fm))"
| call_read: "fs_call (\<lambda>fm. map_option (\<lambda>(n, out, fm, k, s). fm) (fm_read fd out sz waits (fm, k, s)))"
| call_write: "fs_call (\<lambda>fm. map_option (\<lambda>(n, fm, s). fm) (fm_write fd src sz (fm, s)))"
| call_append: "fs_call (\<lambda>fm. map_option snd (fm_append fd src sz fm))"
| call_fseek: "fs_call (\<lambda>fm. map_option snd (fm_fseek fd bias whence fm))"
| call_create: "fs_call (\<lambda>fm. map_option snd (fm_create_file path fm))"
| call_remove: "fs_call (\<lambda>fm. map_option snd (fm_remove_file path fm))"
| call_mkdir: "fs_call (\<lambda>fm. map_option snd (fm_mkdir path fm))"
| call_rmdir: "fs_call (\<lambda>fm. map_option snd (fm_rmdir path fm))"
| call_chdir: "fs_call (\<lambda>fm. map_option snd (fm_chdir path fm))"
| call_ls: "fs_call (\<lambda>fm. map_option (snd \<circ> snd) (fm_ls path n fm))"
| call_sync: "fs_call fm_sync_all"

text \<open>
  A step of the system: process \<open>p\<close> makes a call, forks into the unused process \<open>c\<close>, executes a new
  program, or exits.
\<close>

inductive fs_step :: "(nat \<Rightarrow> Process) \<times> FileManager \<Rightarrow> (nat \<Rightarrow> Process) \<times> FileManager \<Rightarrow> bool" where
  step_call: "fs_call f \<Longrightarrow> p < MAX_PROGRAM_AMOUNT \<Longrightarrow> f (fm\<lparr>current := Some (P p)\<rparr>) = Some fm' \<Longrightarrow> current fm' = Some q \<Longrightarrow>
     fs_step (P, fm) (P(p := q), fm')"
| step_fork: "p < MAX_PROGRAM_AMOUNT \<Longrightarrow> c < MAX_PROGRAM_AMOUNT \<Longrightarrow> \<forall>i. fds_on (P c) i = {} \<Longrightarrow>
     fork_process_fs (init_process_fs (P c)) (P p) fm = (child, fm') \<Longrightarrow> fs_step (P, fm) (P(c := child), fm')"
| step_exec: "p < MAX_PROGRAM_AMOUNT \<Longrightarrow> fs_step (P, fm) (P(p := exec_process_fs (P p)), fm)"
| step_exit: "p < MAX_PROGRAM_AMOUNT \<Longrightarrow> release_process_fs (P p) fm = Some (q, fm') \<Longrightarrow> fs_step (P, fm) (P(p := q), fm')"

inductive_cases fs_stepE: "fs_step (P, fm) s'"

lemma call_refs:
  assumes "fs_call f" and ok: "refs_ok P fm" and p: "p < MAX_PROGRAM_AMOUNT" and c: "current fm = Some (P p)"
    and f: "f fm = Some fm'" and q: "current fm' = Some q"
  shows "refs_ok (P(p := q)) fm'"
proof -
  have kept: "refs_ok (P(p := q)) fm'" if "keeps fm fm'"
    using that c q refs_ok_same [OF ok _ _ p] by (auto simp: keeps_def)
  note t = refs_table_ok [OF ok]
  from assms(1) show ?thesis
  proof cases
    case call_open
    then obtain r path where "fm_open path fm = Some (r, fm')" using f by (auto simp: map_option_eq_Some)
    then show ?thesis using open_refs [OF ok p c] q by fastforce
  next
    case (call_close fd)
    then obtain r q' fm1 where "close_fd (P p) fd fm = Some (r, q', fm1)" "fm' = fm1\<lparr>current := Some q'\<rparr>"
      using f c by (auto simp: fm_close_def bind_eq_Some_conv map_option_eq_Some)
    then show ?thesis using close_refs [OF ok p] q by (auto simp: refs_current)
  next
    case call_read
    then show ?thesis using f read_keeps kept by (auto simp: map_option_eq_Some)
  next
    case call_write
    then show ?thesis using f write_keeps kept by (auto simp: map_option_eq_Some)
  next
    case call_append
    then show ?thesis using f append_keeps kept by (auto simp: map_option_eq_Some)
  next
    case call_fseek
    then show ?thesis using f fseek_keeps kept by (auto simp: map_option_eq_Some)
  next
    case call_chdir
    then show ?thesis using f chdir_keeps [OF t] kept by (auto simp: map_option_eq_Some)
  next
    case call_ls
    then show ?thesis using f ls_keeps [OF t] kept by (auto simp: map_option_eq_Some)
  next
    case call_sync
    then show ?thesis using f sync_keeps kept by auto
  qed (use f in_parent_keeps [OF t] kept in \<open>auto simp: map_option_eq_Some fm_create_file_def fm_remove_file_def fm_mkdir_def fm_rmdir_def\<close>)
qed

lemma exec_keeps_fds: "same_fds p (exec_process_fs p)"
  by (simp add: same_fds_def exec_process_fs_def)

lemma step_refs: "fs_step (P, fm) (P', fm') \<Longrightarrow> refs_ok P fm \<Longrightarrow> refs_ok P' fm'"
proof (erule fs_stepE)
  fix f p fm1 q
  assume "refs_ok P fm" "fs_call f" "p < MAX_PROGRAM_AMOUNT" "f (fm\<lparr>current := Some (P p)\<rparr>) = Some fm1" "current fm1 = Some q"
    "(P', fm') = (P(p := q), fm1)"
  then show "refs_ok P' fm'" using call_refs [of f P "fm\<lparr>current := Some (P p)\<rparr>" p fm1 q] by (simp add: refs_current)
qed (auto dest: fork_refs release_refs intro: refs_ok_same exec_keeps_fds)

text \<open>
  \<^bold>\<open>C28\<close>: The reference counts of open files (file_manager.cpp, \<^verbatim>\<open>open\<close>, \<^verbatim>\<open>close_fd\<close>,
  \<^verbatim>\<open>lookup\<close>, \<^verbatim>\<open>release_lookup_openfile\<close>, \<^verbatim>\<open>fork_process_fs\<close>,
  \<^verbatim>\<open>release_process_fs\<close>).  However the processes interleave file system calls, forks and exits,
  from a state where the counts are right: the count of every entry stays the number of descriptors
  that refer to it, an entry is taken exactly while there is one, so no descriptor dangles and no entry
  leaks, whatever errors the calls meet; and the standard descriptors are never files.
\<close>

theorem openfile_counts_invariant:
  assumes "fs_step\<^sup>*\<^sup>* (P, fm) (P', fm')" and "refs_ok P fm"
  shows "refs_ok P' fm' \<and>
     (\<forall>p<MAX_PROGRAM_AMOUNT. \<forall>fd<MAX_FD_COUNT. \<forall>i. fd_type (fd_table (P' p) fd) = FILE \<and> fd_openfile (fd_table (P' p) fd) = Some i \<longrightarrow>
        taken fm' i \<and> 0 < count_of fm' i)"
proof -
  have ok: "refs_ok P' fm'" using assms by (induction "(P', fm')" arbitrary: P' fm' rule: rtranclp_induct) (auto dest: step_refs)
  have "taken fm' i \<and> 0 < count_of fm' i"
    if a: "p < MAX_PROGRAM_AMOUNT" "fd < MAX_FD_COUNT" "fd_type (fd_table (P' p) fd) = FILE" "fd_openfile (fd_table (P' p) fd) = Some i" for p fd i
  proof -
    have "process_ok (P' p)" using ok a(1) by (simp add: refs_ok_def)
    then have i: "i < MAX_OPENFILE_COUNT" using a unfolding process_ok_def by fastforce
    have "fd \<in> fds_on (P' p) i" using a by (simp add: fds_on_def)
    then have "0 < card (fds_on (P' p) i)" by (auto simp: card_gt_0_iff)
    then show ?thesis using refs_ge [OF a(1), of P' i] ok i by (auto simp: refs_ok_def)
  qed
  then show ?thesis using ok by blast
qed

text \<open>Process 1 has one open file, on descriptor 3, and forks into process 2.\<close>

definition one_open :: "nat \<Rightarrow> Process" where
  "one_open p = (let q = init_process_fs \<lparr>cwd_path = [], fd_table = (\<lambda>_. zero_file)\<rparr>
     in if p = 1 then q\<lparr>fd_table := (fd_table q)(3 := \<lparr>fd_openfile = Some 0, fd_offset = 0, fd_type = FILE\<rparr>)\<rparr> else q)"

definition one_open_fm :: FileManager where
  "one_open_fm = \<lparr>openfile_table = (\<lambda>_. zero_openfile)(0 := zero_openfile\<lparr>of_node := Some (0, 0), of_refcount := 1\<rparr>),
     openfile_map = BitMap_set 0 True \<lparr>length_of = 1024, bitmap_of = (\<lambda>_. 0)\<rparr>, fs_table = (\<lambda>_. zero_info), fileSystems = zero_fs,
     total_mount_disk = 1, fm_dirty = False, fm_disks = (\<lambda>_. blank_channel), current = None\<rparr>"

lemma one_open_fds: "fds_on (one_open p) i = (if p = 1 \<and> i = 0 then {3} else {})"
  by (auto simp: fds_on_def one_open_def init_process_fs_def zero_file_def Let_def MAX_FD_COUNT_def)

lemma one_open_ok: "refs_ok one_open one_open_fm"
proof -
  have "(\<Sum>p<MAX_PROGRAM_AMOUNT. card (fds_on (one_open p) i)) = (\<Sum>p<MAX_PROGRAM_AMOUNT. if p = 1 then if i = 0 then 1 else 0 else 0)" for i
    by (rule sum.cong) (auto simp: one_open_fds)
  then have r: "refs one_open i = (if i = 0 then 1 else 0)" for i
    by (simp add: refs_def MAX_PROGRAM_AMOUNT_def)
  have "process_ok (one_open p)" for p
    by (auto simp: process_ok_def one_open_def init_process_fs_def zero_file_def Let_def MAX_OPENFILE_COUNT_def)
  moreover have "BitMap_get \<lparr>length_of = 1024, bitmap_of = (\<lambda>_. 0)\<rparr> i = False" for i by (simp add: BitMap_get_def byte_test_def)
  ultimately show ?thesis
    by (auto simp: refs_ok_def r count_of_def taken_def one_open_fm_def zero_openfile_def MAX_OPENFILE_COUNT_def)
qed

theorem openfile_counts_invariant_witness:
  "\<exists>P fm. fs_step\<^sup>*\<^sup>* (one_open, one_open_fm) (P, fm) \<and> fd_type (fd_table (P 2) 3) = FILE \<and> taken fm 0 \<and> 0 < count_of fm 0"
proof -
  obtain child fm where f: "fork_process_fs (init_process_fs (one_open 2)) (one_open 1) one_open_fm = (child, fm)" by fastforce
  have s: "fs_step (one_open, one_open_fm) (one_open(2 := child), fm)"
    by (rule step_fork [where p = 1, OF _ _ _ f]) (simp_all add: MAX_PROGRAM_AMOUNT_def one_open_fds)
  have "share_files MAX_FD_COUNT 0 (one_open 1) ((init_process_fs (one_open 2))\<lparr>cwd_path := cwd_path (one_open 1)\<rparr>) one_open_fm = (child, fm)"
    using f by (simp add: fork_process_fs_def)
  then have "fd_table child 3 = fd_table (one_open 1) 3" using share_files_effect by (fastforce simp: MAX_FD_COUNT_def)
  then have fd: "fd_type (fd_table ((one_open(2 := child)) 2) 3) = FILE" "fd_openfile (fd_table ((one_open(2 := child)) 2) 3) = Some 0"
    by (simp_all add: one_open_def Let_def)
  have "2 < MAX_PROGRAM_AMOUNT" "3 < MAX_FD_COUNT" by (simp_all add: MAX_PROGRAM_AMOUNT_def MAX_FD_COUNT_def)
  then have "taken fm 0 \<and> 0 < count_of fm 0"
    using openfile_counts_invariant [OF r_into_rtranclp [of fs_step, OF s] one_open_ok] fd by blast
  then show ?thesis using r_into_rtranclp [of fs_step, OF s] fd by blast
qed

end
