(* ===== verification/File_Ops.thy ===== *)
theory File_Ops
  imports File_Refs
begin

text \<open>
  What the calls of the file manager deliver: reading a file piece by piece through a descriptor,
  moving the position, and changing the working directory.
\<close>

section \<open>Reading through a descriptor\<close>

definition slot_fs :: "FileManager \<Rightarrow> nat \<Rightarrow> FAT12_FS" where
  "slot_fs fm slot = (fileSystems fm slot)\<lparr>disks := fm_disks fm\<rparr>"

text \<open>Descriptor \<open>fd\<close> of the running process stands at \<open>off\<close> in inode \<open>i\<close> of a file system, on the chain \<open>cs\<close>.\<close>

definition open_at :: "FileManager \<Rightarrow> nat \<Rightarrow> nat \<Rightarrow> nat \<Rightarrow> u16 list \<Rightarrow> u32 \<Rightarrow> bool" where
  "open_at fm fd slot i cs off \<longleftrightarrow> fd < MAX_FD_COUNT \<and>
     (\<exists>p k. current fm = Some p \<and> fd_table p fd = \<lparr>fd_openfile = Some k, fd_offset = off, fd_type = FILE\<rparr> \<and>
        of_type (openfile_table fm k) = FXT12 \<and> of_node (openfile_table fm k) = Some (slot, i)) \<and>
     this (slot_fs fm slot) = slot + 1 \<and> io_ok (slot_fs fm slot) \<and> open_file (slot_fs fm slot) i cs"

definition file_size_at :: "FileManager \<Rightarrow> nat \<Rightarrow> nat \<Rightarrow> u32" where
  "file_size_at fm slot i = ino_size (inode (slot_fs fm slot) i)"

lemma slot_inode [simp]: "inode (slot_fs fm slot) i = inode (fileSystems fm slot) i"
  by (simp add: slot_fs_def inode_def)

lemma with_slot:
  assumes "f (slot_fs fm slot) = Some (r, fs)"
  shows "\<exists>fm'. with_fs slot f fm = Some (r, fm') \<and> slot_fs fm' slot = fs \<and> current fm' = current fm \<and>
     openfile_table fm' = openfile_table fm"
proof -
  let ?fm = "fm\<lparr>fileSystems := (fileSystems fm)(slot := fs), fm_disks := disks fs\<rparr>"
  have "with_fs slot f fm = Some (r, ?fm)" unfolding with_fs_def slot_fs_def [symmetric] assms by simp
  moreover have "slot_fs ?fm slot = fs" by (simp add: slot_fs_def)
  ultimately show ?thesis by (intro exI [of _ ?fm]) simp
qed

lemma same_files_open:
  assumes "same_files fs fs'" and "open_file fs i cs"
  shows "open_file fs' i cs" "inode fs' i = inode fs i" "this fs' = this fs"
proof -
  have b: "beside_cache fs' = beside_cache fs" using assms(1) by (simp add: files_but_def)
  then show "inode fs' i = inode fs i" "this fs' = this fs" by (simp_all add: inode_def besideD [OF b])
  then show "open_file fs' i cs" using assms(2) by (simp add: open_file_def besideD [OF b])
qed

lemma read_at_offset:
  assumes o: "open_at fm fd slot i cs off" and "0 < unat sz" and "unat sz < 2 ^ 31" and le: "unat off \<le> unat (file_size_at fm slot i)"
  shows "\<exists>m fm' out. fm_read (int fd) (Some b) sz ws (fm, k, s) = Some (int m, Some out, fm', k, s) \<and>
     m = span sz off (file_size_at fm slot i) \<and> (\<forall>j<m. out j = contents (slot_fs fm slot) cs (unat off + j)) \<and>
     open_at fm' fd slot i cs (off + word_of_nat m) \<and> same_files (slot_fs fm slot) (slot_fs fm' slot)"
proof -
  let ?fs = "slot_fs fm slot"
  obtain p o_idx where p: "fd < MAX_FD_COUNT" "current fm = Some p"
      "fd_table p fd = \<lparr>fd_openfile = Some o_idx, fd_offset = off, fd_type = FILE\<rparr>"
      "of_type (openfile_table fm o_idx) = FXT12" "of_node (openfile_table fm o_idx) = Some (slot, i)"
    and fs: "this ?fs = slot + 1" "io_ok ?fs" "open_file ?fs i cs"
    using o by (auto simp: open_at_def)
  have node: "node_fs fm (slot, i) = Some slot" using fs by (auto simp: node_fs_def node_of_def open_file_def)
  have sz: "0 < sint sz" using assms(2,3) by (simp add: pos_sint)
  have fz: "unat (file_size_at fm slot i) < 2 ^ 31" using fs by (simp add: file_size_at_def open_file_def)
  obtain n out fs' where r: "FAT12_read (Some i) b sz off ?fs = Some (n, out, fs')" "unat n = span sz off (file_size_at fm slot i)"
    "\<forall>j<unat n. out j = contents ?fs cs (unat off + j)" "io_ok fs'" "same_files ?fs fs'"
  proof (cases "unat off < unat (file_size_at fm slot i)")
    case True
    then obtain n fs' where r: "FAT12_read (Some i) b sz off ?fs = Some (n, \<lambda>k. if k < unat n then contents ?fs cs (unat off + k) else b k, fs')"
      "unat n = span sz off (file_size_at fm slot i)" "cache_idle fs'" "same_files ?fs fs'"
      using FAT12_read_ok [OF fs(2,3) _ assms(2,3)] by (fastforce simp: file_size_at_def)
    then show thesis using files_but_io [OF r(4,3) fs(2)] by (intro that) auto
  next
    case False
    then have "FAT12_read (Some i) b sz off ?fs = Some (0, b, ?fs)"
      by (simp add: FAT12_read_def io_check_def file_size_at_def word_le_nat_alt Let_def)
    then show thesis using False fs by (intro that) (auto simp: span_def)
  qed
  then obtain fm1 where w: "with_fs slot (\<lambda>fs. map_option (\<lambda>(r, b, fs). ((r, b), fs)) (FAT12_read (Some i) b sz off fs)) fm = Some ((n, out), fm1)"
    "slot_fs fm1 slot = fs'" "current fm1 = current fm" "openfile_table fm1 = openfile_table fm"
    using with_slot [of "\<lambda>fs. map_option (\<lambda>(r, b, fs). ((r, b), fs)) (FAT12_read (Some i) b sz off fs)" fm slot "(n, out)" fs'] by auto
  have n31: "unat n < 2 ^ 31" using r(2) fz by (simp add: span_def)
  then have sn: "sint n = int (unat n)" by (simp add: sint_small)
  let ?fm' = "if 0 < sint n then set_offset fd (off + n) fm1 else fm1"
  have read: "fm_read (int fd) (Some b) sz ws (fm, k, s) = Some (int (unat n), Some out, ?fm', k, s)"
    using p node sz w(1) sn by (simp add: fm_read_def Let_def)
  have op: "open_at ?fm' fd slot i cs (off + n)"
  proof (cases "0 < sint n")
    case True
    then show ?thesis using p w fs r(4,5) same_files_open [OF r(5) fs(3)]
      by (auto simp: open_at_def set_offset_def slot_fs_def)
  next
    case False
    then have "unat n = 0" using sn by linarith
    then have "n = 0" by (simp add: unat_eq_0)
    then show ?thesis using p w fs r(4,5) same_files_open [OF r(5) fs(3)] by (auto simp: open_at_def)
  qed
  have "slot_fs ?fm' slot = fs'" using w(2) by (auto simp: set_offset_def slot_fs_def)
  then have "same_files ?fs (slot_fs ?fm' slot)" using r(5) by simp
  moreover have "open_at ?fm' fd slot i cs (off + word_of_nat (unat n))" using op by simp
  ultimately show ?thesis using read r(2,3) by blast
qed

text \<open>A sequence of reads, each into a fresh buffer, and the bytes that they deliver one after the other.\<close>

fun fm_reads :: "nat \<Rightarrow> u32 list \<Rightarrow> FileManager \<times> KeyboardManager \<times> Screen \<Rightarrow> (u8 list \<times> FileManager) option" where
  "fm_reads fd [] (fm, k, s) = Some ([], fm)"
| "fm_reads fd (sz # szs) (fm, k, s) = do {
     (n, out, fm, k, s) \<leftarrow> fm_read (int fd) (Some (\<lambda>_. 0)) sz [] (fm, k, s);
     b \<leftarrow> out;
     (bs, fm) \<leftarrow> fm_reads fd szs (fm, k, s);
     Some (map b [0..<nat n] @ bs, fm)
   }"

text \<open>
  \<^bold>\<open>C29\<close>: Reading a file in pieces (file_manager.cpp, \<^verbatim>\<open>read\<close>; fat12_fs.cpp,
  \<^verbatim>\<open>read\<close>).  However a program cuts its reads, the bytes it gets one after the other are
  exactly those of the file from the current position on, without gap or repetition, up to the total
  it asked for or the end of the file; the position ends up behind the last byte read, and no file
  changes.
\<close>

theorem file_read_stream:
  assumes "open_at fm fd slot i cs off" and "\<forall>sz\<in>set szs. 0 < unat sz \<and> unat sz < 2 ^ 31" and "unat off \<le> unat (file_size_at fm slot i)"
  shows "\<exists>fm' m. m = min (unat (file_size_at fm slot i)) (unat off + (\<Sum>sz\<leftarrow>szs. unat sz)) \<and>
     fm_reads fd szs (fm, k, s) = Some (map (contents (slot_fs fm slot) cs) [unat off..<m], fm') \<and>
     open_at fm' fd slot i cs (word_of_nat m) \<and> same_files (slot_fs fm slot) (slot_fs fm' slot)"
  using assms
proof (induction szs arbitrary: fm off)
  case Nil
  then show ?case by (simp add: min_absorb2)
next
  case (Cons sz szs)
  let ?fs = "slot_fs fm slot" and ?z = "unat (file_size_at fm slot i)"
  obtain m fm1 out where r: "fm_read (int fd) (Some (\<lambda>_. 0)) sz [] (fm, k, s) = Some (int m, Some out, fm1, k, s)"
    "m = span sz off (file_size_at fm slot i)" "\<forall>j<m. out j = contents ?fs cs (unat off + j)"
    "open_at fm1 fd slot i cs (off + word_of_nat m)" "same_files ?fs (slot_fs fm1 slot)"
    using read_at_offset [OF Cons.prems(1) _ _ Cons.prems(3), of sz "\<lambda>_. 0" "[]" k s] Cons.prems(2) by auto
  have fs: "io_ok ?fs" "open_file ?fs i cs" using Cons.prems(1) by (simp_all add: open_at_def)
  have z: "file_size_at fm1 slot i = file_size_at fm slot i" "?z \<le> length cs * bsize ?fs" "?z < 2 ^ 31"
    using same_files_open(2) [OF r(5) fs(2)] fs(2) by (simp_all add: file_size_at_def open_file_def)
  have u: "unat (off + word_of_nat m) = unat off + m"
  proof -
    have "unat off + m \<le> ?z" using Cons.prems(3) r(2) by (simp add: span_def)
    then have "unat (word_of_nat m :: u32) = m" "unat off + m < 2 ^ 32" using z(3) by (simp_all add: unat_of_nat take_bit_eq_mod)
    then show ?thesis by (simp add: unat_add_lem [THEN iffD1])
  qed
  obtain fm2 m2 where ih: "m2 = min ?z (unat off + m + (\<Sum>sz\<leftarrow>szs. unat sz))"
    "fm_reads fd szs (fm1, k, s) = Some (map (contents (slot_fs fm1 slot) cs) [unat off + m..<m2], fm2)"
    "open_at fm2 fd slot i cs (word_of_nat m2)" "same_files (slot_fs fm1 slot) (slot_fs fm2 slot)"
  proof -
    have "unat (off + word_of_nat m) \<le> unat (file_size_at fm1 slot i)" using r(2) Cons.prems(3) unfolding u z(1) span_def by linarith
    then show thesis using Cons.IH [OF r(4)] Cons.prems(2) that unfolding u z(1) by auto
  qed
  have m2: "m2 = min ?z (unat off + (\<Sum>sz\<leftarrow>sz # szs. unat sz))" using ih(1) r(2) Cons.prems(3) by (simp add: span_def)
  have same: "contents (slot_fs fm1 slot) cs j = contents ?fs cs j" if "j < m2" for j
    using files_but_contents [OF r(5), of "ino_start_cluster (inode ?fs i)" cs j] fs that ih(1) z(2) by (simp add: open_file_def)
  have "map out [0..<m] = map (contents ?fs cs) [unat off..<unat off + m]"
    using r(3) by (intro nth_equalityI) simp_all
  moreover have "map (contents (slot_fs fm1 slot) cs) [unat off + m..<m2] = map (contents ?fs cs) [unat off + m..<m2]"
    using same by simp
  moreover have "[unat off..<m2] = [unat off..<unat off + m] @ [unat off + m..<m2]"
  proof -
    have "unat off + m \<le> m2" using ih(1) r(2) Cons.prems(3) by (simp add: span_def)
    then obtain d where "m2 = unat off + m + d" using le_Suc_ex by blast
    then show ?thesis using upt_add_eq_append [of "unat off" "unat off + m" d] by simp
  qed
  ultimately have "map out [0..<m] @ map (contents (slot_fs fm1 slot) cs) [unat off + m..<m2] = map (contents ?fs cs) [unat off..<m2]"
    by simp
  then have "fm_reads fd (sz # szs) (fm, k, s) = Some (map (contents ?fs cs) [unat off..<m2], fm2)"
    using r(1) ih(2) by simp
  then show ?case using m2 ih(3) same_files_trans [OF r(5) ih(4)] by blast
qed

text \<open>Descriptor 3 of process 1 on the file of 700 bytes of the sample volume.\<close>

definition reading_fm :: FileManager where
  "reading_fm = one_open_fm\<lparr>fileSystems := (\<lambda>_. two_cluster_fs), fm_disks := disks two_cluster_fs, current := Some (one_open 1)\<rparr>"

lemma reading_open: "open_at reading_fm 3 0 0 [2, 3] 0" "slot_fs reading_fm 0 = two_cluster_fs"
proof -
  show s: "slot_fs reading_fm 0 = two_cluster_fs" by (simp add: slot_fs_def reading_fm_def)
  have "this two_cluster_fs = 1" by (simp add: two_cluster_fs_def blank_fs_def)
  then show "open_at reading_fm 3 0 0 [2, 3] 0" unfolding open_at_def s
    by (simp add: two_cluster_io two_cluster_file reading_fm_def one_open_fm_def one_open_def Let_def zero_openfile_def MAX_FD_COUNT_def)
qed

theorem file_read_stream_witness:
  "\<exists>fm'. fm_reads 3 [300, 300, 300] (reading_fm, fresh_keyboard, full_screen) = Some (map (contents two_cluster_fs [2, 3]) [0..<700], fm')"
proof -
  have "file_size_at reading_fm 0 0 = 700" unfolding file_size_at_def reading_open(2)
    by (simp add: inode_def two_cluster_fs_def)
  then show ?thesis using file_read_stream [OF reading_open(1), of "[300, 300, 300]" fresh_keyboard full_screen] reading_open(2) by auto
qed

section \<open>Moving the position\<close>

definition seek_base :: "u32 \<Rightarrow> u32 \<Rightarrow> u32 \<Rightarrow> u32 option" where
  "seek_base whence off fsize = (if whence = 0 then Some 0 else if whence = 1 then Some off else if whence = 2 then Some fsize else None)"

lemma wrap_mod: "2147483648 \<le> t \<Longrightarrow> t < 4294967296 \<Longrightarrow> (t + 2147483648) mod 4294967296 = (t :: int) - 2147483648"
  using mod_add_self2 [of "t - 2147483648" 4294967296] by (simp add: add.commute)

lemma fseek_ok:
  assumes o: "open_at fm fd slot i cs off" and in_file: "unat off \<le> unat (file_size_at fm slot i)"
  shows "case seek_base whence off (file_size_at fm slot i) of
      None \<Rightarrow> fm_fseek (int fd) bias whence fm = Some (- 1, fm)
    | Some base \<Rightarrow>
        if 0 \<le> int (unat base) + sint bias \<and> int (unat base) + sint bias \<le> int (unat (file_size_at fm slot i))
        then fm_fseek (int fd) bias whence fm =
            Some (int (unat base) + sint bias, set_offset fd (word_of_int (int (unat base) + sint bias)) fm) \<and>
          open_at (set_offset fd (word_of_int (int (unat base) + sint bias)) fm) fd slot i cs (word_of_int (int (unat base) + sint bias))
        else fm_fseek (int fd) bias whence fm = Some (- 1, fm)"
proof -
  let ?z = "file_size_at fm slot i"
  obtain p k where p: "fd < MAX_FD_COUNT" "current fm = Some p" "fd_table p fd = \<lparr>fd_openfile = Some k, fd_offset = off, fd_type = FILE\<rparr>"
      "of_type (openfile_table fm k) = FXT12" "of_node (openfile_table fm k) = Some (slot, i)"
    and fs: "this (slot_fs fm slot) = slot + 1" "io_ok (slot_fs fm slot)" "open_file (slot_fs fm slot) i cs"
    using o by (auto simp: open_at_def)
  have z: "ino_size (node_of fm (slot, i)) = ?z" by (simp add: node_of_def file_size_at_def)
  have z31: "unat ?z < 2 ^ 31" using fs by (simp add: file_size_at_def open_file_def)
  note run = fm_fseek_def [of "int fd" bias whence fm]
  have u: "fm_fseek (int fd) bias whence fm = (case seek_base whence off ?z of None \<Rightarrow> Some (- 1, fm)
      | Some base \<Rightarrow> if sint (base + bias) < 0 \<or> sint ?z < sint (base + bias) then Some (- 1, fm)
          else Some (sint (base + bias), set_offset fd (base + bias) fm))"
    using p z by (simp add: run seek_base_def Let_def)
  show ?thesis
  proof (cases "seek_base whence off ?z")
    case (Some base)
    have b: "unat base < 2 ^ 31" using Some in_file z31 by (auto simp: seek_base_def split: if_splits)
    have bs: "sint base = int (unat base)" "sint ?z = int (unat ?z)" using b z31 by (simp_all add: sint_small)
    let ?t = "int (unat base) + sint bias"
    have st: "sint (base + bias) = ?t" if "?t < 2 ^ 31"
    proof -
      have "- (2 ^ 31) \<le> sint bias" using sint_ge [of bias] by simp
      then have "- (2 ^ 31) \<le> ?t" by linarith
      then show ?thesis using that bs by (simp add: sint_word_ariths signed_take_bit_int_eq_self)
    qed
    have wrap: "sint (base + bias) < 0" if "2 ^ 31 \<le> ?t"
    proof -
      have "?t < 2 ^ 32" using sint_lt [of bias] sint_lt [of base] bs(1) by simp
      then have "(?t + 2 ^ 31) mod 2 ^ 32 = ?t + 2 ^ 31 - 2 ^ 32"
        using that wrap_mod [of ?t] by simp
      then have "sint (base + bias) = ?t - 2 ^ 32" using bs
        by (simp add: sint_word_ariths signed_take_bit_eq_take_bit_shift take_bit_eq_mod)
      then show ?thesis using \<open>?t < 2 ^ 32\<close> by simp
    qed
    show ?thesis
    proof (cases "0 \<le> ?t \<and> ?t \<le> int (unat ?z)")
      case True
      then have "?t < 2 ^ 31" using bs(2) sint_lt [of ?z] by simp
      then have s: "sint (base + bias) = ?t" by (rule st)
      have "word_of_int (sint (base + bias)) = base + bias" by (simp add: signed_scast_eq scast_id)
      then have "word_of_int ?t = base + bias" using s by (simp only:)
      moreover have "open_at (set_offset fd (base + bias) fm) fd slot i cs (base + bias)"
        using p fs by (auto simp: open_at_def set_offset_def slot_fs_def)
      ultimately show ?thesis using True s bs by (simp add: u Some)
    next
      case False
      then have "sint (base + bias) < 0 \<or> sint ?z < sint (base + bias)"
        using st wrap bs by (cases "?t < 2 ^ 31") auto
      then show ?thesis using False by (auto simp: u Some)
    qed
  qed (simp add: u)
qed

text \<open>
  Seeking stays inside the file (file_manager.cpp, \<^verbatim>\<open>fseek\<close>).  For an open file whose
  position is inside it, \<^verbatim>\<open>fseek\<close> returns the new position, start, current position or end plus the
  signed distance, exactly when it is a position between the start and the end of the file; for an
  unknown origin, a position outside, or a distance so large that the sum wraps around, it returns -1
  and changes nothing.
\<close>

theorem fseek_in_bounds:
  assumes o: "open_at fm fd slot i cs off" and in_file: "unat off \<le> unat (file_size_at fm slot i)"
  shows "case seek_base whence off (file_size_at fm slot i) of
      None \<Rightarrow> fm_fseek (int fd) bias whence fm = Some (- 1, fm)
    | Some base \<Rightarrow>
        if 0 \<le> int (unat base) + sint bias \<and> int (unat base) + sint bias \<le> int (unat (file_size_at fm slot i))
        then \<exists>fm'. fm_fseek (int fd) bias whence fm = Some (int (unat base) + sint bias, fm') \<and>
          open_at fm' fd slot i cs (word_of_int (int (unat base) + sint bias))
        else fm_fseek (int fd) bias whence fm = Some (- 1, fm)"
  using fseek_ok [OF assms, of bias whence] by (cases "seek_base whence off (file_size_at fm slot i)") (auto split: if_splits)

text \<open>Ten bytes before the end of the sample file, and one byte too far.\<close>

theorem fseek_in_bounds_witness:
  "(\<exists>fm'. fm_fseek 3 (- 10) 2 reading_fm = Some (690, fm')) \<and> fm_fseek 3 701 0 reading_fm = Some (- 1, reading_fm)"
proof -
  have z: "file_size_at reading_fm 0 0 = 700" unfolding file_size_at_def reading_open(2) by (simp add: inode_def two_cluster_fs_def)
  have "sint (- 10 :: u32) = - 10" "sint (701 :: u32) = 701" by simp_all
  then show ?thesis
    using fseek_in_bounds [OF reading_open(1), of "- 10" 2] fseek_in_bounds [OF reading_open(1), of 701 0] z
    by (auto simp: seek_base_def)
qed

section \<open>The working directory\<close>

lemma takeWhile_stop: "\<not> Q y \<Longrightarrow> takeWhile Q (xs @ y # ys) = takeWhile Q xs"
  by (induction xs) auto

lemma dropWhile_stop: "\<not> Q y \<Longrightarrow> dropWhile Q (xs @ y # ys) = dropWhile Q xs @ y # ys"
  by (induction xs) auto

lemma components_join: "components (xs @ slash # ys) = components xs @ components ys"
proof (induction xs rule: length_induct)
  case (1 xs)
  show ?case
  proof (cases "dropWhile (\<lambda>c. c = slash) xs")
    case Nil
    then have all: "\<forall>x\<in>set xs. x = slash" by simp
    then have "dropWhile (\<lambda>c. c = slash) (xs @ slash # ys) = dropWhile (\<lambda>c. c = slash) ys"
      by (simp add: dropWhile_append2)
    moreover have "components xs = []" using Nil by (subst components.simps) simp
    ultimately show ?thesis by (simp add: components.simps [of ys] components.simps [of "xs @ slash # ys"])
  next
    case (Cons z zs)
    then have z: "z \<noteq> slash" using hd_dropWhile [of "\<lambda>c. c = slash" xs] by simp
    let ?t = "takeWhile (\<lambda>c. c \<noteq> slash) (z # zs)" and ?d = "dropWhile (\<lambda>c. c \<noteq> slash) (z # zs)"
    have dw: "dropWhile (\<lambda>c. c = slash) (xs @ slash # ys) = z # zs @ slash # ys"
    proof -
      have "\<not> (\<forall>x\<in>set xs. x = slash)" unfolding dropWhile_eq_Nil_conv [symmetric] using Cons by simp
      then obtain x where "x \<in> set xs" "x \<noteq> slash" by blast
      then show ?thesis using dropWhile_append1 [of x xs "\<lambda>c. c = slash" "slash # ys"] Cons by simp
    qed
    have td: "takeWhile (\<lambda>c. c \<noteq> slash) (z # zs @ slash # ys) = ?t" 
      "dropWhile (\<lambda>c. c \<noteq> slash) (z # zs @ slash # ys) = ?d @ slash # ys"
      using takeWhile_stop [of "\<lambda>c. c \<noteq> slash" slash "z # zs" ys] dropWhile_stop [of "\<lambda>c. c \<noteq> slash" slash "z # zs" ys] by simp_all
    have "length ?d < length xs" using consume_shrinks [of xs] Cons by simp
    then have ih: "components (?d @ slash # ys) = components ?d @ components ys" using 1 by blast
    have "components (xs @ slash # ys) = ?t # components (?d @ slash # ys)"
      by (subst components.simps) (simp only: dw td Let_def list.distinct if_False)
    moreover have "components xs = ?t # components ?d"
      by (subst components.simps) (simp only: Cons Let_def list.distinct if_False)
    ultimately show ?thesis by (simp only: ih append_Cons)
  qed
qed

text \<open>A relative path is appended to the working directory with a slash.\<close>

definition beneath :: "cstr \<Rightarrow> cstr \<Rightarrow> cstr" where
  "beneath path q = path @ slash # q"

lemma target_beneath:
  assumes "list_all plain_name (target cwd path)" and "path \<noteq> []" and "q = [] \<or> hd q \<noteq> slash"
  shows "target (render (target cwd path)) q = target cwd (beneath path q)"
  using assms(2,3) resolve_render [OF assms(1)]
  by (auto simp: target_def beneath_def resolve_def components_join)

lemma current_dirty: "fm_cwd (fm\<lparr>current := Some (p\<lparr>cwd_path := w\<rparr>)\<rparr>) = (if w = [] then [slash] else w)"
  by (simp add: fm_cwd_def)

text \<open>
  Changing the working directory (file_manager.cpp, \<^verbatim>\<open>chdir\<close>, \<^verbatim>\<open>getcwd\<close>).  After a
  successful \<^verbatim>\<open>chdir\<close> the working directory is the canonical form of the path, \<^verbatim>\<open>getcwd\<close> hands it out
  when the buffer holds it with its NUL and refuses otherwise, and a relative path names from there what
  the two paths joined by a slash named before.  A failing \<^verbatim>\<open>chdir\<close> leaves the directory as it was.
\<close>

theorem chdir_getcwd:
  assumes cur: "current fm = Some p" and abs: "hd (fm_cwd fm) = slash" and ch: "fm_chdir path fm = Some (r, fm')" and ok: "table_ok fm"
  shows "(r \<noteq> 0 \<longrightarrow> fm_cwd fm' = fm_cwd fm) \<and>
     (r = 0 \<longrightarrow> fm_normalizePath fm path = Some (fm_cwd fm') \<and>
        fm_getcwd (Some b) sz fm' = (if int (length (fm_cwd fm')) < sz then (int (length (fm_cwd fm')), Some (put_string (fm_cwd fm') b)) else (- 1, Some b)) \<and>
        (\<forall>q a c. path \<noteq> [] \<and> (q = [] \<or> hd q \<noteq> slash) \<and> fm_normalizePath fm' q = Some a \<and> fm_normalizePath fm (beneath path q) = Some c \<longrightarrow> a = c))"
proof -
  have lc: "length_of (openfile_map fm) = int MAX_OPENFILE_COUNT" "\<forall>i<MAX_OPENFILE_COUNT. \<not> taken fm i \<longrightarrow> count_of fm i = 0"
    using ok by (auto simp: table_ok_def order.order_iff_strict)
  have cw: "fm_cwd fm1 = fm_cwd fm" if "current fm1 = current fm" for fm1 using that by (simp add: fm_cwd_def)
  have ne: "fm_cwd fm \<noteq> []" by (auto simp: fm_cwd_def split: option.split)
  consider (failed) "r \<noteq> 0" "current fm' = current fm"
    | (moved) w where "r = 0" "fm_normalizePath fm path = Some w" "current fm' = Some (p\<lparr>cwd_path := w\<rparr>)"
    using ch cur
  proof (cases rule: chdir_cases)
    case (dir w f fm1 fm2)
    have "current fm1 = Some p" using lookup_counts(1) [OF dir(2) lc] cur by simp
    moreover have "current fm' = current fm2"
    proof (cases f)
      case (Some k)
      then show ?thesis using release_lookup_effect [of k fm2 fm'] dir(4) by simp
    qed (use dir(4) in \<open>simp add: release_lookup_None\<close>)
    ultimately have "r = 0 \<and> current fm' = Some (p\<lparr>cwd_path := w\<rparr>) \<or> r \<noteq> 0 \<and> current fm' = current fm"
      using dir(3) cur by auto
    then show thesis using dir(1) that by blast
  next
    case same
    then show thesis by (intro that(1)) simp_all
  next
    case (root w)
    then show thesis by (intro that(2)) simp_all
  qed
  then show ?thesis
  proof cases
    case failed
    then show ?thesis using cw [OF failed(2)] by simp
  next
    case (moved w)
    have n: "normalizePath (Some (fm_cwd fm)) path = Some w" using moved(2) by (simp add: fm_normalizePath_def)
    note w = normalize_sound [OF ne abs n]
    have wr: "w = render (target (fm_cwd fm) path)" "list_all plain_name (target (fm_cwd fm) path)" using w by auto
    have wne: "w \<noteq> []" "hd w = slash" unfolding wr(1)
      by (cases "target (fm_cwd fm) path"; simp add: render_def joined_def)+
    have fw: "fm_cwd fm' = w" using moved(3) wne by (simp add: fm_cwd_def)
    have rel: "a = c" if "path \<noteq> []" "q = [] \<or> hd q \<noteq> slash" "fm_normalizePath fm' q = Some a" "fm_normalizePath fm (beneath path q) = Some c" for q a c
    proof -
      have "a = render (target w q)" using normalize_sound [OF wne] that(3) fw by (simp add: fm_normalizePath_def)
      moreover have "c = render (target (fm_cwd fm) (beneath path q))" using normalize_sound [OF ne abs] that(4) by (simp add: fm_normalizePath_def)
      ultimately show ?thesis using target_beneath [OF wr(2) that(1,2)] wr(1) by simp
    qed
    have "fm_getcwd (Some b) sz fm' = (if int (length w) < sz then (int (length w), Some (put_string w b)) else (- 1, Some b))"
      using moved(3) wne by (auto simp: fm_getcwd_def fw)
    then show ?thesis using moved(1,2) fw rel by blast
  qed
qed

text \<open>From \<^verbatim>\<open>/a\<close> up to the root.\<close>

theorem chdir_getcwd_witness:
  "\<exists>fm'. fm_chdir [dot, dot] (reading_fm\<lparr>current := Some ((one_open 1)\<lparr>cwd_path := [slash, 0x61]\<rparr>)\<rparr>) = Some (0, fm') \<and>
     (\<forall>b. fm_getcwd (Some b) 2 fm' = (1, Some (put_string [slash] b)) \<and> fm_getcwd (Some b) 1 fm' = (- 1, Some b))"
proof -
  let ?p = "(one_open 1)\<lparr>cwd_path := [slash, 0x61]\<rparr>" and ?path = "[dot, dot] :: cstr"
  let ?fm = "reading_fm\<lparr>current := Some ?p\<rparr>"
  have cur: "current ?fm = Some ?p" and cwd: "fm_cwd ?fm = [slash, 0x61]" by (simp_all add: fm_cwd_def)
  have n: "fm_normalizePath ?fm ?path = Some [slash]"
  proof -
    have "path_fits [slash, 0x61] ?path" by (simp add: path_fits_def MAX_PATH_LENGTH_def)
    then obtain out where o: "normalizePath (Some [slash, 0x61]) ?path = Some out" using normalize_total [of "[slash, 0x61]" ?path] by auto
    have "target [slash, 0x61] ?path = []" by (simp add: target_def resolve_def components.simps step_component_def)
    then show ?thesis unfolding fm_normalizePath_def cwd using normalize_sound [of "[slash, 0x61]" ?path out] o
      by (simp add: render_def joined_def)
  qed
  have "path_resolve_fs ?fm [slash] = Some (0, [])" by (simp add: path_resolve_fs_def path_is_mnt_prefix_def)
  then have ch: "fm_chdir ?path ?fm = Some (0, ?fm\<lparr>current := Some (?p\<lparr>cwd_path := [slash]\<rparr>)\<rparr>)"
    unfolding fm_chdir_def cur n by simp
  have ok: "table_ok ?fm" using refs_table_ok [OF one_open_ok] by (simp add: reading_fm_def table_ok_def count_of_def taken_def)
  let ?fm' = "?fm\<lparr>current := Some (?p\<lparr>cwd_path := [slash]\<rparr>)\<rparr>"
  have "hd (fm_cwd ?fm) = slash" unfolding cwd by simp
  note getcwd = chdir_getcwd [OF cur this ch ok, THEN conjunct2, THEN mp, OF refl, THEN conjunct2, THEN conjunct1]
  have c: "fm_cwd ?fm' = [slash]" by (simp add: fm_cwd_def)
  have "fm_getcwd (Some b) 2 ?fm' = (1, Some (put_string [slash] b))" for b unfolding getcwd [of b 2] c by simp
  moreover have "fm_getcwd (Some b) 1 ?fm' = (- 1, Some b)" for b unfolding getcwd [of b 1] c by simp
  ultimately show ?thesis using ch by blast
qed

end
