(* ===== verification/Scheduler.thy ===== *)
theory Scheduler
  imports Intrusive_List Memory_Manager File_Refs
begin

text \<open>
  The program table and the schedulers: \<^verbatim>\<open>include/kernel/thread.h\<close>,
  \<^verbatim>\<open>src/kernel/schduler.cpp\<close>, \<^verbatim>\<open>src/kernel/sync.cpp\<close> and the scheduling part of
  \<^verbatim>\<open>src/kernel/program.cpp\<close>.  A pointer to a PCB is its slot in \<^verbatim>\<open>PCB_SET\<close>; the two list
  tags of a PCB are addresses inside its page, linked by the intrusive lists of \<open>Intrusive_List\<close> in one
  store with the heads of the lists.  \<^const>\<open>None\<close> is a kernel that stops or a loop that does not end.
\<close>

section \<open>State\<close>

datatype ProgramStatus = CREATED | RUNNING | READY | BLOCKED | DEAD

datatype SchedulerType = RR | FIFS

record ThreadStartStack =
  ts_edi :: u32
  ts_esi :: u32
  ts_ebx :: u32
  ts_ebp :: u32
  function_entry :: u32
  return_address :: u32
  parameter :: u32

record ProcessStartStack =
  pss_edi :: u32
  pss_esi :: u32
  pss_ebp :: u32
  pss_esp_dummy :: u32
  pss_ebx :: u32
  pss_edx :: u32
  pss_ecx :: u32
  pss_eax :: u32
  pss_gs :: u32
  pss_fs :: u32
  pss_es :: u32
  pss_ds :: u32
  pss_eip :: u32
  pss_cs :: u32
  pss_eflags :: u32
  pss_esp :: u32
  pss_ss :: u32

text \<open>
  What \<^verbatim>\<open>PCB.stack\<close> leads to: the frame laid out for a program that has not run, or the
  frame \<^verbatim>\<open>asm_switch_thread\<close> pushed inside \<^verbatim>\<open>schedule\<close>, whose local \<^verbatim>\<open>status\<close>
  waits there.
\<close>

datatype KStack = NoStack | Start ThreadStartStack | Suspended bool

record PCB =
  p_stack :: KStack
  p_name :: cstr
  p_status :: ProgramStatus
  p_priority :: u32
  p_pid :: int
  p_ticks :: u32
  p_ticksPassedBy :: u32
  p_pageDirectoryAddress :: u32
  p_userVirtual :: UserVAddressPool
  p_parentPid :: int
  p_retValue :: u32
  needExecveReload :: bool
  needFork :: bool
  p_entry :: u32
  p_argc :: int
  p_argv :: u32
  p_args :: "nat \<Rightarrow> cstr"
  p_fs :: Process
  p_frame :: ProcessStartStack

definition PCB_SIZE :: nat where "PCB_SIZE = 4096"

text \<open>
  The kernel's state around the program manager.  The first fields are addresses the linker chose: the
  array of PCBs, the heads of the lists, and functions that are entered through a stack frame.  \<open>run\<close> is
  \<^verbatim>\<open>programManager.running\<close>, \<open>esp0\<close> that field of the task state.
\<close>

record OS =
  PCB_SET :: addr
  all_list :: addr
  rr_list :: addr
  fifs_list :: addr
  load_process_at :: u32
  program_exit_at :: u32
  start_process_at :: u32
  k_exit_at :: u32
  links :: Intrusive_List.store
  pcbs :: "nat \<Rightarrow> PCB"
  PCB_SET_STATUS :: "nat \<Rightarrow> bool"
  run :: "nat option"
  sType :: SchedulerType
  USER_CODE_SELECTOR :: u32
  USER_DATA_SELECTOR :: u32
  USER_STACK_SELECTOR :: u32
  interrupts :: bool
  esp0 :: u32
  os_mm :: MM
  os_fm :: FileManager
  os_keyboard :: KeyboardManager
  os_screen :: Screen

text \<open>A cleared PCB.\<close>

definition zero_pool :: VAddressPool where
  "zero_pool = \<lparr>va_length = 0, va_resources = \<lparr>length_of = 0, bitmap_of = (\<lambda>_. 0)\<rparr>, va_startAddress = 0, va_endAddress = 0,
     va_privileges = (\<lambda>_. 0), va_isStatic = False, va_static_privilege = 0\<rparr>"

definition zero_boundary :: Boundary where
  "zero_boundary = \<lparr>b_start = 0, b_end = 0\<rparr>"

definition zero_user :: UserVAddressPool where
  "zero_user = \<lparr>segBoundary = \<lparr>seg_text = zero_boundary, seg_data = zero_boundary, seg_bss = zero_boundary\<rparr>,
     heapPool = zero_pool, stackPool = zero_pool, mmapPool = zero_pool, TLSPool = zero_pool,
     bitmapStart = 0, privStart = 0, bitmapPage = 0, privPage = 0, uva_owner = 0, isInitialized = False\<rparr>"

definition zero_frame :: ProcessStartStack where
  "zero_frame = \<lparr>pss_edi = 0, pss_esi = 0, pss_ebp = 0, pss_esp_dummy = 0, pss_ebx = 0, pss_edx = 0, pss_ecx = 0, pss_eax = 0,
     pss_gs = 0, pss_fs = 0, pss_es = 0, pss_ds = 0, pss_eip = 0, pss_cs = 0, pss_eflags = 0, pss_esp = 0, pss_ss = 0\<rparr>"

definition zero_pcb :: PCB where
  "zero_pcb = \<lparr>p_stack = NoStack, p_name = [], p_status = CREATED, p_priority = 0, p_pid = 0, p_ticks = 0, p_ticksPassedBy = 0,
     p_pageDirectoryAddress = 0, p_userVirtual = zero_user, p_parentPid = 0, p_retValue = 0, needExecveReload = False,
     needFork = False, p_entry = 0, p_argc = 0, p_argv = 0, p_args = (\<lambda>_. []),
     p_fs = \<lparr>cwd_path = [], fd_table = (\<lambda>_. zero_file)\<rparr>, p_frame = zero_frame\<rparr>"

text \<open>The offsets of the tags in a PCB.\<close>

definition tagInGeneralList :: "OS \<Rightarrow> nat \<Rightarrow> addr" where
  "tagInGeneralList os p = PCB_SET os + PCB_SIZE * p + 44"

definition tagInAllList :: "OS \<Rightarrow> nat \<Rightarrow> addr" where
  "tagInAllList os p = PCB_SET os + PCB_SIZE * p + 52"

definition ListItem2PCB :: "OS \<Rightarrow> addr \<Rightarrow> nat \<Rightarrow> nat" where
  "ListItem2PCB os a tag = (a - tag - PCB_SET os) div PCB_SIZE"

definition upd_pcb :: "nat \<Rightarrow> (PCB \<Rightarrow> PCB) \<Rightarrow> OS \<Rightarrow> OS" where
  "upd_pcb p f os = os\<lparr>pcbs := (pcbs os)(p := f (pcbs os p))\<rparr>"

definition set_status :: "nat \<Rightarrow> ProgramStatus \<Rightarrow> OS \<Rightarrow> OS" where
  "set_status p st = upd_pcb p (\<lambda>c. c\<lparr>p_status := st\<rparr>)"

text \<open>A list operation of the kernel.\<close>

definition on_links :: "(Intrusive_List.store \<Rightarrow> Intrusive_List.store option) \<Rightarrow> OS \<Rightarrow> OS option" where
  "on_links f os = map_option (\<lambda>s. os\<lparr>links := s\<rparr>) (f (links os))"

text \<open>
  The memory manager works for \<^verbatim>\<open>programManager.running\<close>: it sees its pid and its address pools,
  and changes the pools in place.
\<close>

definition mm_of :: "OS \<Rightarrow> MM" where
  "mm_of os = (os_mm os)\<lparr>running := map_option (\<lambda>r. (word_of_int (p_pid (pcbs os r)), p_userVirtual (pcbs os r))) (run os)\<rparr>"

definition put_mm :: "MM \<Rightarrow> OS \<Rightarrow> OS" where
  "put_mm mm os = (case (run os, running mm) of
       (Some r, Some (_, u)) \<Rightarrow> upd_pcb r (\<lambda>c. c\<lparr>p_userVirtual := u\<rparr>) (os\<lparr>os_mm := mm\<rparr>)
     | _ \<Rightarrow> os\<lparr>os_mm := mm\<rparr>)"

definition with_mm :: "(MM \<Rightarrow> ('a \<times> MM) option) \<Rightarrow> OS \<Rightarrow> ('a \<times> OS) option" where
  "with_mm f os = map_option (\<lambda>(r, mm). (r, put_mm mm os)) (f (mm_of os))"

definition with_fm :: "(FileManager \<Rightarrow> ('a \<times> FileManager) option) \<Rightarrow> OS \<Rightarrow> ('a \<times> OS) option" where
  "with_fm f os = map_option (\<lambda>(a, fm).
      (a, (case (run os, current fm) of
             (Some r, Some q) \<Rightarrow> upd_pcb r (\<lambda>c. c\<lparr>p_fs := q\<rparr>) (os\<lparr>os_fm := fm\<rparr>)
           | _ \<Rightarrow> os\<lparr>os_fm := fm\<rparr>)))
    (f ((os_fm os)\<lparr>current := map_option (\<lambda>r. p_fs (pcbs os r)) (run os)\<rparr>))"

section \<open>Round robin\<close>

partial_function (option) fill_loop :: "addr \<Rightarrow> ptr \<Rightarrow> OS \<Rightarrow> OS option" where
  "fill_loop ready item os =
     Option.bind (List_back (links os) (all_list os)) (\<lambda>b.
       if item = b then Some os
       else case item of
         None \<Rightarrow> None
       | Some a \<Rightarrow>
           Option.bind
             (if p_status (pcbs os (ListItem2PCB os a 52)) = READY
              then on_links (List_push_back ready (tagInGeneralList os (ListItem2PCB os a 52))) os
              else Some os)
             (\<lambda>os. fill_loop ready (next (links os a)) os))"

definition RR_initialize :: "OS \<Rightarrow> OS option" where
  "RR_initialize os = do {
     os \<leftarrow> on_links (List_clear (rr_list os)) os;
     os \<leftarrow> on_links (\<lambda>s. Some (List_initialize (rr_list os) s)) os;
     fill_loop (rr_list os) (next (links os (all_list os))) os
   }"

definition RR_enqueue :: "nat \<Rightarrow> OS \<Rightarrow> OS option" where
  "RR_enqueue readyThread os = on_links (List_push_back (rr_list os) (tagInGeneralList os readyThread)) os"

definition RR_pickNext :: "OS \<Rightarrow> nat option \<times> OS" where
  "RR_pickNext os =
     (let item = List_front (links os) (rr_list os)
      in (map_option (\<lambda>a. ListItem2PCB os a 44) item, os\<lparr>links := List_pop_front (rr_list os) (links os)\<rparr>))"

definition RR_onTick :: "nat option \<Rightarrow> OS \<Rightarrow> bool \<times> OS" where
  "RR_onTick thread os =
     (case thread of
        None \<Rightarrow> (True, os)
      | Some r \<Rightarrow>
          if p_status (pcbs os r) \<noteq> RUNNING then (True, os)
          else let os = upd_pcb r (\<lambda>c. c\<lparr>p_ticks := p_ticks c - 1, p_ticksPassedBy := p_ticksPassedBy c + 1\<rparr>) os
               in (sint (p_ticks (pcbs os r)) \<le> 0, os))"

definition RR_MESA_Wakeup :: "nat \<Rightarrow> OS \<Rightarrow> OS" where
  "RR_MESA_Wakeup program os = os\<lparr>links := List_push_front (rr_list os) (tagInGeneralList os program) (links os)\<rparr>"

section \<open>First in, first served\<close>

definition FIFS_initialize :: "OS \<Rightarrow> OS option" where
  "FIFS_initialize os = do {
     os \<leftarrow> on_links (List_clear (fifs_list os)) os;
     os \<leftarrow> on_links (\<lambda>s. Some (List_initialize (fifs_list os) s)) os;
     fill_loop (fifs_list os) (next (links os (all_list os))) os
   }"

definition FIFS_enqueue :: "nat \<Rightarrow> OS \<Rightarrow> OS option" where
  "FIFS_enqueue readyThread os = on_links (List_push_back (fifs_list os) (tagInGeneralList os readyThread)) os"

definition FIFS_pickNext :: "OS \<Rightarrow> nat option \<times> OS" where
  "FIFS_pickNext os =
     (let item = List_front (links os) (fifs_list os)
      in (map_option (\<lambda>a. ListItem2PCB os a 44) item, os\<lparr>links := List_pop_front (fifs_list os) (links os)\<rparr>))"

definition FIFS_onTick :: "nat option \<Rightarrow> OS \<Rightarrow> bool \<times> OS" where
  "FIFS_onTick thread os =
     (case thread of None \<Rightarrow> (True, os) | Some r \<Rightarrow> (p_status (pcbs os r) \<noteq> RUNNING, os))"

definition FIFS_MESA_Wakeup :: "nat \<Rightarrow> OS \<Rightarrow> OS" where
  "FIFS_MESA_Wakeup program os = os\<lparr>links := List_push_front (fifs_list os) (tagInGeneralList os program) (links os)\<rparr>"

text \<open>The switches on \<^verbatim>\<open>sType\<close>.\<close>

definition enqueue :: "nat \<Rightarrow> OS \<Rightarrow> OS option" where
  "enqueue p os = (case sType os of RR \<Rightarrow> RR_enqueue p os | FIFS \<Rightarrow> FIFS_enqueue p os)"

definition pickNext :: "OS \<Rightarrow> nat option \<times> OS" where
  "pickNext os = (case sType os of RR \<Rightarrow> RR_pickNext os | FIFS \<Rightarrow> FIFS_pickNext os)"

definition MESA_WakeUp :: "nat \<Rightarrow> OS \<Rightarrow> OS" where
  "MESA_WakeUp program os =
     (let os = set_status program READY os
      in case sType os of RR \<Rightarrow> RR_MESA_Wakeup program os | FIFS \<Rightarrow> FIFS_MESA_Wakeup program os)"

definition switch_scheduler :: "SchedulerType \<Rightarrow> OS \<Rightarrow> OS option" where
  "switch_scheduler type os =
     (let st = interrupts os; os = os\<lparr>interrupts := False\<rparr>
      in if type \<noteq> sType os then do {
           let os = os\<lparr>sType := type\<rparr>;
           os \<leftarrow> (case type of RR \<Rightarrow> RR_initialize os | FIFS \<Rightarrow> FIFS_initialize os);
           Some (os\<lparr>interrupts := st\<rparr>)
         }
         else Some (os\<lparr>interrupts := st\<rparr>))"

section \<open>Switching\<close>

text \<open>
  \<^verbatim>\<open>activateProgramPage\<close>; \<^verbatim>\<open>vaddr2paddr\<close> goes through the page tables that are active.
\<close>

definition activateProgramPage :: "nat \<Rightarrow> OS \<Rightarrow> OS option" where
  "activateProgramPage program os =
     (let dir = p_pageDirectoryAddress (pcbs os program)
      in if dir \<noteq> 0 then do {
           let os = os\<lparr>esp0 := word_of_nat (PCB_SET os + PCB_SIZE * program) + PAGE_SIZE\<rparr>;
           paddr \<leftarrow> vaddr2paddr dir (mm_of os);
           Some (os\<lparr>os_mm := (os_mm os)\<lparr>cr3 := paddr\<rparr>\<rparr>)
         }
         else Some (os\<lparr>os_mm := (os_mm os)\<lparr>cr3 := PAGE_DIRECTORY\<rparr>\<rparr>))"

text \<open>
  \<^verbatim>\<open>asm_switch_thread\<close> (src/kernel/asm_utils.asm) saves the frame of the current program,
  takes up that of the next and enables interrupts; a program that was suspended in \<^verbatim>\<open>schedule\<close>
  then restores the interrupt status it had.
\<close>

definition switch_thread :: "nat \<Rightarrow> nat \<Rightarrow> bool \<Rightarrow> OS \<Rightarrow> OS" where
  "switch_thread cur nxt st os =
     (let os = upd_pcb cur (\<lambda>c. c\<lparr>p_stack := Suspended st\<rparr>) os
      in os\<lparr>interrupts := (case p_stack (pcbs os nxt) of Suspended old \<Rightarrow> old | _ \<Rightarrow> True)\<rparr>)"

definition reload_stack :: "OS \<Rightarrow> PCB \<Rightarrow> PCB" where
  "reload_stack os c =
     c\<lparr>p_stack := Start \<lparr>ts_edi = 0, ts_esi = 0, ts_ebx = 0, ts_ebp = 0, function_entry = load_process_at os,
         return_address = program_exit_at os, parameter = p_entry c\<rparr>, p_entry := 0, needExecveReload := False\<rparr>"

definition schedule :: "OS \<Rightarrow> OS option" where
  "schedule os = do {
     let st = interrupts os;
     let os = os\<lparr>interrupts := False\<rparr>;
     cur \<leftarrow> run os;
     let isDEAD = (p_status (pcbs os cur) = DEAD);
     let (nxt, os) = pickNext os;
     case nxt of
       Some n \<Rightarrow> do {
         let os = set_status n RUNNING os;
         os \<leftarrow> (if \<not> isDEAD then enqueue cur (set_status cur READY os) else Some os);
         os \<leftarrow> activateProgramPage n (os\<lparr>run := Some n\<rparr>);
         let os = (if needExecveReload (pcbs os n) then upd_pcb n (reload_stack os) os else os);
         Some (switch_thread cur n st os)
       }
     | None \<Rightarrow> if isDEAD then None else Some (os\<lparr>interrupts := st\<rparr>)
   }"

definition c_time_interrupt_handler :: "OS \<Rightarrow> OS option" where
  "c_time_interrupt_handler os =
     (let cur = run os;
          (cond, os) = (case sType os of RR \<Rightarrow> RR_onTick cur os | FIFS \<Rightarrow> FIFS_onTick cur os)
      in if cond then schedule os else Some os)"

section \<open>Locks and semaphores\<close>

text \<open>The spin: on one processor a taken lock is never freed by the loop itself.\<close>

definition asm_atomic_exchange :: "u32 \<Rightarrow> u32 \<Rightarrow> u32 \<times> u32" where
  "asm_atomic_exchange register memory = (memory, register)"

partial_function (option) SpinLock_lock :: "u32 \<Rightarrow> u32 option" where
  "SpinLock_lock bolt =
     (if fst (asm_atomic_exchange 1 bolt) \<noteq> 0 then SpinLock_lock (snd (asm_atomic_exchange 1 bolt))
      else Some (snd (asm_atomic_exchange 1 bolt)))"

definition SpinLock_unlock :: "u32 \<Rightarrow> u32" where
  "SpinLock_unlock bolt = 0"

record Semaphore =
  counter :: u32
  waiting :: addr
  semLock :: u32

definition Semaphore_initialize :: "u32 \<Rightarrow> Semaphore \<Rightarrow> OS \<Rightarrow> Semaphore \<times> OS" where
  "Semaphore_initialize n sem os =
     (sem\<lparr>counter := n, semLock := 0\<rparr>, os\<lparr>links := List_initialize (waiting sem) (links os)\<rparr>)"

text \<open>
  One round of the loop of \<^verbatim>\<open>P\<close>: \<^const>\<open>True\<close> when it returns, \<^const>\<open>False\<close> when it has called
  \<^verbatim>\<open>schedule\<close> and tries again once the program runs again.
\<close>

definition Semaphore_P :: "Semaphore \<Rightarrow> OS \<Rightarrow> (bool \<times> Semaphore \<times> OS) option" where
  "Semaphore_P sem os = do {
     b \<leftarrow> SpinLock_lock (semLock sem);
     let sem = sem\<lparr>semLock := b\<rparr>;
     if 0 < counter sem then Some (True, sem\<lparr>counter := counter sem - 1, semLock := SpinLock_unlock b\<rparr>, os)
     else do {
       cur \<leftarrow> run os;
       os \<leftarrow> on_links (List_push_back (waiting sem) (tagInGeneralList os cur)) os;
       let os = set_status cur BLOCKED os;
       os \<leftarrow> schedule os;
       Some (False, sem\<lparr>semLock := SpinLock_unlock b\<rparr>, os)
     }
   }"

definition Semaphore_V :: "Semaphore \<Rightarrow> OS \<Rightarrow> (Semaphore \<times> OS) option" where
  "Semaphore_V sem os = do {
     b \<leftarrow> SpinLock_lock (semLock sem);
     let sem = sem\<lparr>semLock := b, counter := counter sem + 1\<rparr>;
     sz \<leftarrow> List_size (links os) (waiting sem);
     if sz \<noteq> 0 then do {
       item \<leftarrow> List_front (links os) (waiting sem);
       let program = ListItem2PCB os item 44;
       let os = os\<lparr>links := List_pop_front (waiting sem) (links os)\<rparr>;
       Some (sem\<lparr>semLock := SpinLock_unlock b\<rparr>, MESA_WakeUp program os)
     }
     else Some (sem\<lparr>semLock := SpinLock_unlock b\<rparr>, os)
   }"

section \<open>The table behind the links\<close>

definition ready_head :: "OS \<Rightarrow> addr" where
  "ready_head os = (case sType os of RR \<Rightarrow> rr_list os | FIFS \<Rightarrow> fifs_list os)"

text \<open>The heads of the lists lie outside the array of PCBs.\<close>

definition heads_ok :: "OS \<Rightarrow> bool" where
  "heads_ok os \<longleftrightarrow> distinct [all_list os, rr_list os, fifs_list os] \<and>
     (\<forall>l\<in>{all_list os, rr_list os, fifs_list os}. l < PCB_SET os \<or> PCB_SET os + PCB_SIZE * MAX_PROGRAM_AMOUNT \<le> l)"

text \<open>
  \<open>ps\<close> are the programs in the list of all programs, \<open>rs\<close> those in the ready queue of the scheduler in use.
\<close>

definition table :: "OS \<Rightarrow> nat list \<Rightarrow> nat list \<Rightarrow> bool" where
  "table os ps rs \<longleftrightarrow> heads_ok os \<and> list_at (links os) (all_list os) (map (tagInAllList os) ps) \<and>
     list_at (links os) (ready_head os) (map (tagInGeneralList os) rs) \<and>
     set ps = {p. p < MAX_PROGRAM_AMOUNT \<and> PCB_SET_STATUS os p} \<and> set rs \<subseteq> set ps"

lemma tag_simps [simp]:
  "tagInGeneralList os p = tagInGeneralList os q \<longleftrightarrow> p = q" "tagInAllList os p = tagInAllList os q \<longleftrightarrow> p = q"
  by (simp_all add: tagInGeneralList_def tagInAllList_def PCB_SIZE_def)

lemma tag_neq [simp]: "tagInGeneralList os p \<noteq> tagInAllList os q" "tagInAllList os q \<noteq> tagInGeneralList os p"
proof -
  have "PCB_SIZE * p + 44 \<noteq> PCB_SIZE * q + 52"
  proof
    assume "PCB_SIZE * p + 44 = PCB_SIZE * q + 52"
    then have "(PCB_SIZE * p + 44) mod PCB_SIZE = (PCB_SIZE * q + 52) mod PCB_SIZE" by simp
    then show False by (simp add: PCB_SIZE_def)
  qed
  then show "tagInGeneralList os p \<noteq> tagInAllList os q" "tagInAllList os q \<noteq> tagInGeneralList os p"
    by (simp_all add: tagInGeneralList_def tagInAllList_def)
qed

lemma ListItem2PCB_tag [simp]:
  "ListItem2PCB os (tagInGeneralList os p) 44 = p" "ListItem2PCB os (tagInAllList os p) 52 = p"
  by (simp_all add: ListItem2PCB_def tagInGeneralList_def tagInAllList_def PCB_SIZE_def)

lemma tag_not_head:
  assumes "heads_ok os" and "p < MAX_PROGRAM_AMOUNT" and "l \<in> {all_list os, rr_list os, fifs_list os}"
  shows "tagInGeneralList os p \<noteq> l" "tagInAllList os p \<noteq> l"
proof -
  have out: "l < PCB_SET os \<or> PCB_SET os + PCB_SIZE * MAX_PROGRAM_AMOUNT \<le> l" using assms(1,3) unfolding heads_ok_def by blast
  have in_area: "PCB_SET os \<le> t \<and> t < PCB_SET os + PCB_SIZE * MAX_PROGRAM_AMOUNT" if "t = PCB_SET os + PCB_SIZE * p + k" "k < PCB_SIZE" for t k
  proof -
    have "PCB_SIZE * p + k < PCB_SIZE * Suc p" using that by simp
    also have "\<dots> \<le> PCB_SIZE * MAX_PROGRAM_AMOUNT" using assms(2) by (intro mult_le_mono2) simp
    finally show ?thesis using that by simp
  qed
  have "PCB_SET os \<le> tagInGeneralList os p \<and> tagInGeneralList os p < PCB_SET os + PCB_SIZE * MAX_PROGRAM_AMOUNT"
      "PCB_SET os \<le> tagInAllList os p \<and> tagInAllList os p < PCB_SET os + PCB_SIZE * MAX_PROGRAM_AMOUNT"
    using in_area [OF tagInGeneralList_def] in_area [OF tagInAllList_def] by (simp_all add: PCB_SIZE_def)
  then show "tagInGeneralList os p \<noteq> l" "tagInAllList os p \<noteq> l" using out by linarith+
qed

text \<open>What the table does not look at.\<close>

lemma tag_cong [simp]:
  "tagInGeneralList (os\<lparr>links := s\<rparr>) = tagInGeneralList os" "tagInAllList (os\<lparr>links := s\<rparr>) = tagInAllList os"
  "tagInGeneralList (os\<lparr>pcbs := c\<rparr>) = tagInGeneralList os" "tagInAllList (os\<lparr>pcbs := c\<rparr>) = tagInAllList os"
  "tagInGeneralList (os\<lparr>run := r\<rparr>) = tagInGeneralList os" "tagInAllList (os\<lparr>run := r\<rparr>) = tagInAllList os"
  "tagInGeneralList (os\<lparr>interrupts := i\<rparr>) = tagInGeneralList os" "tagInAllList (os\<lparr>interrupts := i\<rparr>) = tagInAllList os"
  "tagInGeneralList (os\<lparr>esp0 := e\<rparr>) = tagInGeneralList os" "tagInAllList (os\<lparr>esp0 := e\<rparr>) = tagInAllList os"
  "tagInGeneralList (os\<lparr>os_mm := mm\<rparr>) = tagInGeneralList os" "tagInAllList (os\<lparr>os_mm := mm\<rparr>) = tagInAllList os"
  "tagInGeneralList (os\<lparr>os_fm := fm\<rparr>) = tagInGeneralList os" "tagInAllList (os\<lparr>os_fm := fm\<rparr>) = tagInAllList os"
  "tagInGeneralList (os\<lparr>PCB_SET_STATUS := b\<rparr>) = tagInGeneralList os" "tagInAllList (os\<lparr>PCB_SET_STATUS := b\<rparr>) = tagInAllList os"
  by (simp_all add: fun_eq_iff tagInGeneralList_def tagInAllList_def)

lemma ListItem2PCB_cong [simp]: "ListItem2PCB (os\<lparr>links := s\<rparr>) = ListItem2PCB os"
  by (simp add: fun_eq_iff ListItem2PCB_def)

lemma head_cong [simp]:
  "ready_head (os\<lparr>links := s\<rparr>) = ready_head os" "heads_ok (os\<lparr>links := s\<rparr>) = heads_ok os"
  "ready_head (os\<lparr>pcbs := c\<rparr>) = ready_head os" "heads_ok (os\<lparr>pcbs := c\<rparr>) = heads_ok os"
  "ready_head (os\<lparr>run := r\<rparr>) = ready_head os" "heads_ok (os\<lparr>run := r\<rparr>) = heads_ok os"
  "ready_head (os\<lparr>interrupts := i\<rparr>) = ready_head os" "heads_ok (os\<lparr>interrupts := i\<rparr>) = heads_ok os"
  "ready_head (os\<lparr>esp0 := e\<rparr>) = ready_head os" "heads_ok (os\<lparr>esp0 := e\<rparr>) = heads_ok os"
  "ready_head (os\<lparr>os_mm := mm\<rparr>) = ready_head os" "heads_ok (os\<lparr>os_mm := mm\<rparr>) = heads_ok os"
  "ready_head (os\<lparr>os_fm := fm\<rparr>) = ready_head os" "heads_ok (os\<lparr>os_fm := fm\<rparr>) = heads_ok os"
  "ready_head (os\<lparr>PCB_SET_STATUS := b\<rparr>) = ready_head os" "heads_ok (os\<lparr>PCB_SET_STATUS := b\<rparr>) = heads_ok os"
  by (cases "sType os"; simp add: ready_head_def heads_ok_def)+

lemma table_cong [simp]:
  "table (os\<lparr>pcbs := c\<rparr>) = table os" "table (os\<lparr>run := r\<rparr>) = table os" "table (os\<lparr>interrupts := i\<rparr>) = table os"
  "table (os\<lparr>esp0 := e\<rparr>) = table os" "table (os\<lparr>os_mm := mm\<rparr>) = table os" "table (os\<lparr>os_fm := fm\<rparr>) = table os"
  by (simp_all add: fun_eq_iff table_def)

lemma table_links_cong [simp]:
  "table (os\<lparr>pcbs := c, links := s\<rparr>) = table (os\<lparr>links := s\<rparr>)"
  "table (os\<lparr>run := r, links := s\<rparr>) = table (os\<lparr>links := s\<rparr>)"
  "table (os\<lparr>interrupts := i, links := s\<rparr>) = table (os\<lparr>links := s\<rparr>)"
  "table (os\<lparr>esp0 := e, links := s\<rparr>) = table (os\<lparr>links := s\<rparr>)"
  "table (os\<lparr>os_mm := mm, links := s\<rparr>) = table (os\<lparr>links := s\<rparr>)"
  "table (os\<lparr>os_fm := fm, links := s\<rparr>) = table (os\<lparr>links := s\<rparr>)"
  by (simp_all add: fun_eq_iff table_def)

lemma tableD:
  assumes "table os ps rs"
  shows "heads_ok os" "distinct ps" "distinct rs" "\<And>p. p \<in> set ps \<Longrightarrow> p < MAX_PROGRAM_AMOUNT" "set rs \<subseteq> set ps"
  using assms by (auto simp: table_def list_at_def distinct_map)

lemma ready_head_cases: "ready_head os \<in> {rr_list os, fifs_list os}" "ready_head os \<in> {all_list os, rr_list os, fifs_list os}"
  by (cases "sType os"; simp add: ready_head_def)+

text \<open>An operation on the ready queue leaves the list of all programs alone.\<close>

lemma all_list_frame:
  assumes t: "table os ps rs" and o: "only (links os) s (set (ready_head os # map (tagInGeneralList os) xs))"
    and x: "set xs \<subseteq> {..<MAX_PROGRAM_AMOUNT}"
  shows "list_at s (all_list os) (map (tagInAllList os) ps)"
proof (rule list_at_frame [OF _ o])
  show "list_at (links os) (all_list os) (map (tagInAllList os) ps)" using t by (simp add: table_def)
  have h: "heads_ok os" "\<forall>p\<in>set ps. p < MAX_PROGRAM_AMOUNT" using tableD [OF t] by auto
  have "all_list os \<noteq> ready_head os" using h(1) ready_head_cases(1) [of os] by (auto simp: heads_ok_def)
  moreover have "\<forall>p\<in>set ps. tagInAllList os p \<noteq> ready_head os" using h tag_not_head(2) ready_head_cases(2) by blast
  moreover have "\<forall>p\<in>set xs. tagInGeneralList os p \<noteq> all_list os" using h(1) x tag_not_head(1) by (metis insertI1 lessThan_iff subsetD)
  ultimately show "set (ready_head os # map (tagInGeneralList os) xs) \<inter> set (all_list os # map (tagInAllList os) ps) = {}"
    by (simp add: disjoint_iff image_iff) (metis tag_neq(1))
qed

lemma enqueue_links: "enqueue p os = on_links (List_push_back (ready_head os) (tagInGeneralList os p)) os"
  by (cases "sType os") (simp_all add: enqueue_def ready_head_def RR_enqueue_def FIFS_enqueue_def)

lemma pickNext_links:
  "pickNext os = (map_option (\<lambda>a. ListItem2PCB os a 44) (List_front (links os) (ready_head os)),
     os\<lparr>links := List_pop_front (ready_head os) (links os)\<rparr>)"
  by (cases "sType os") (simp_all add: pickNext_def ready_head_def RR_pickNext_def FIFS_pickNext_def Let_def)

lemma fresh_tag:
  assumes "table os ps rs" and "p < MAX_PROGRAM_AMOUNT" and "p \<notin> set rs"
  shows "tagInGeneralList os p \<notin> set (ready_head os # map (tagInGeneralList os) rs)"
  using tag_not_head(1) [OF tableD(1) [OF assms(1)] assms(2) ready_head_cases(2)] assms(3) by auto

lemma enqueue_table:
  assumes t: "table os ps rs" and p: "p \<in> set ps" and n: "p \<notin> set rs"
  shows "\<exists>s. enqueue p os = Some (os\<lparr>links := s\<rparr>) \<and> table (os\<lparr>links := s\<rparr>) ps (rs @ [p])"
proof -
  have l: "list_at (links os) (ready_head os) (map (tagInGeneralList os) rs)" using t by (simp add: table_def)
  have pm: "p < MAX_PROGRAM_AMOUNT" using tableD(4) [OF t p] .
  obtain s where s: "List_push_back (ready_head os) (tagInGeneralList os p) (links os) = Some s"
      "list_at s (ready_head os) (map (tagInGeneralList os) (rs @ [p]))"
      "only (links os) s (set (ready_head os # map (tagInGeneralList os) (p # rs)))"
    using List_push_back_at [OF l fresh_tag [OF t pm n]] by auto
  have "set (p # rs) \<subseteq> {..<MAX_PROGRAM_AMOUNT}" using tableD(4,5) [OF t] pm by auto
  then have "list_at s (all_list os) (map (tagInAllList os) ps)" by (rule all_list_frame [OF t s(3)])
  then show ?thesis using t s(1,2) p by (auto simp: enqueue_links on_links_def table_def)
qed

lemma pickNext_table:
  assumes t: "table os ps rs"
  shows "\<exists>s. pickNext os = ((case rs of [] \<Rightarrow> None | n # _ \<Rightarrow> Some n), os\<lparr>links := s\<rparr>) \<and> table (os\<lparr>links := s\<rparr>) ps (tl rs) \<and> (rs = [] \<longrightarrow> s = links os)"
proof -
  have l: "list_at (links os) (ready_head os) (map (tagInGeneralList os) rs)" using t by (simp add: table_def)
  show ?thesis
  proof (cases rs)
    case Nil
    then show ?thesis using l t List_front_at [OF l] by (simp add: pickNext_links List_pop_front_nil)
  next
    case (Cons n ns)
    define s where "s = List_pop_front (ready_head os) (links os)"
    have s: "list_at s (ready_head os) (map (tagInGeneralList os) ns)" "only (links os) s (set (ready_head os # map (tagInGeneralList os) rs))"
      using List_pop_front_at [of "links os" "ready_head os" "tagInGeneralList os n" "map (tagInGeneralList os) ns"] l Cons by (simp_all add: s_def)
    have "set rs \<subseteq> {..<MAX_PROGRAM_AMOUNT}" using tableD(4,5) [OF t] by auto
    then have "list_at s (all_list os) (map (tagInAllList os) ps)" by (rule all_list_frame [OF t s(2)])
    then have "table (os\<lparr>links := s\<rparr>) ps ns" using t s(1) Cons by (auto simp: table_def)
    moreover have "pickNext os = (Some n, os\<lparr>links := s\<rparr>)" using List_front_at [OF l] Cons by (simp add: pickNext_links s_def)
    ultimately show ?thesis using Cons by auto
  qed
qed

lemma wakeup_table:
  assumes t: "table os ps rs" and p: "p \<in> set ps" and n: "p \<notin> set rs"
  shows "\<exists>s. MESA_WakeUp p os = (set_status p READY os)\<lparr>links := s\<rparr> \<and> table (MESA_WakeUp p os) ps (p # rs)"
proof -
  have l: "list_at (links os) (ready_head os) (map (tagInGeneralList os) rs)" using t by (simp add: table_def)
  have pm: "p < MAX_PROGRAM_AMOUNT" using tableD(4) [OF t p] .
  define s where "s = List_push_front (ready_head os) (tagInGeneralList os p) (links os)"
  have s: "list_at s (ready_head os) (map (tagInGeneralList os) (p # rs))" "only (links os) s (set (ready_head os # map (tagInGeneralList os) (p # rs)))"
    using List_push_front_at [OF l fresh_tag [OF t pm n]] by (simp_all add: s_def)
  have "set (p # rs) \<subseteq> {..<MAX_PROGRAM_AMOUNT}" using tableD(4,5) [OF t] pm by auto
  then have "list_at s (all_list os) (map (tagInAllList os) ps)" by (rule all_list_frame [OF t s(2)])
  moreover have "MESA_WakeUp p os = (set_status p READY os)\<lparr>links := s\<rparr>"
    by (cases "sType os") (simp_all add: MESA_WakeUp_def s_def ready_head_def RR_MESA_Wakeup_def FIFS_MESA_Wakeup_def set_status_def upd_pcb_def)
  ultimately show ?thesis using t s(1) p by (auto simp: table_def set_status_def upd_pcb_def)
qed

section \<open>What a switch does\<close>

text \<open>
  The table is in order: some program of the table runs and is not queued; every program knows its slot;
  of the others exactly those that are READY are in the ready queue.
\<close>

definition sched :: "OS \<Rightarrow> nat list \<Rightarrow> nat list \<Rightarrow> bool" where
  "sched os ps rs \<longleftrightarrow> table os ps rs \<and> (\<exists>r. run os = Some r \<and> r \<in> set ps \<and> r \<notin> set rs) \<and>
     (\<forall>p\<in>set ps. p_pid (pcbs os p) = int p) \<and>
     (\<forall>p\<in>set ps. run os \<noteq> Some p \<longrightarrow> (p_status (pcbs os p) = READY \<longleftrightarrow> p \<in> set rs))"

lemma schedD:
  assumes "sched os ps rs" and "run os = Some c"
  shows "table os ps rs" "c \<in> set ps" "c \<notin> set rs" "\<And>p. p \<in> set ps \<Longrightarrow> p_pid (pcbs os p) = int p"
    "\<And>p. p \<in> set ps \<Longrightarrow> p \<noteq> c \<Longrightarrow> p_status (pcbs os p) = READY \<longleftrightarrow> p \<in> set rs"
  using assms by (auto simp: sched_def)

lemma schedI:
  assumes "table os ps rs" and "run os = Some c" and "c \<in> set ps" and "c \<notin> set rs" and "\<And>p. p \<in> set ps \<Longrightarrow> p_pid (pcbs os p) = int p"
    and "\<And>p. p \<in> set ps \<Longrightarrow> p \<noteq> c \<Longrightarrow> p_status (pcbs os p) = READY \<longleftrightarrow> p \<in> set rs"
  shows "sched os ps rs"
  using assms by (auto simp: sched_def)

definition page_dir :: "OS \<Rightarrow> nat \<Rightarrow> u32" where
  "page_dir os p = p_pageDirectoryAddress (pcbs os p)"

lemma vaddr2paddr_running [simp]: "vaddr2paddr v (s\<lparr>running := r\<rparr>) = vaddr2paddr v s"
  by (simp add: vaddr2paddr_def load_def)

text \<open>\<^verbatim>\<open>activateProgramPage\<close> only loads the page-directory register and the stack of the task state.\<close>

definition dir_at :: "OS \<Rightarrow> nat \<Rightarrow> u32 option" where
  "dir_at os p = (if page_dir os p = 0 then Some PAGE_DIRECTORY else vaddr2paddr (page_dir os p) (os_mm os))"

lemma activate_effect:
  "dir_at os n = Some a \<Longrightarrow> \<exists>e. activateProgramPage n os = Some (os\<lparr>esp0 := e, os_mm := (os_mm os)\<lparr>cr3 := a\<rparr>\<rparr>)"
proof (cases "page_dir os n = 0")
  case True
  moreover assume "dir_at os n = Some a"
  ultimately have "activateProgramPage n os = Some (os\<lparr>esp0 := esp0 os, os_mm := (os_mm os)\<lparr>cr3 := a\<rparr>\<rparr>)"
    by (simp add: activateProgramPage_def dir_at_def page_dir_def)
  then show ?thesis ..
next
  case False
  moreover assume "dir_at os n = Some a"
  ultimately show ?thesis by (auto simp: activateProgramPage_def dir_at_def page_dir_def mm_of_def Let_def)
qed

lemma reload_stack_cong [simp]:
  "reload_stack (os\<lparr>links := s\<rparr>) = reload_stack os"
  "reload_stack (os\<lparr>pcbs := c\<rparr>) = reload_stack os"
  "reload_stack (os\<lparr>run := r\<rparr>) = reload_stack os"
  "reload_stack (os\<lparr>interrupts := i\<rparr>) = reload_stack os"
  "reload_stack (os\<lparr>esp0 := e\<rparr>) = reload_stack os"
  "reload_stack (os\<lparr>os_mm := mm\<rparr>) = reload_stack os"
  by (simp_all add: fun_eq_iff reload_stack_def)

text \<open>What the program that is taken up and the program that is left look like afterwards.\<close>

definition taken_up :: "OS \<Rightarrow> PCB \<Rightarrow> PCB" where
  "taken_up os c = (let c = c\<lparr>p_status := RUNNING\<rparr> in if needExecveReload c then reload_stack os c else c)"

definition left :: "bool \<Rightarrow> PCB \<Rightarrow> PCB" where
  "left st c = c\<lparr>p_status := (if p_status c = DEAD then DEAD else READY), p_stack := Suspended st\<rparr>"

lemma taken_up_simps [simp]:
  "p_status (taken_up os c) = RUNNING" "p_pid (taken_up os c) = p_pid c" "p_parentPid (taken_up os c) = p_parentPid c"
  "p_pageDirectoryAddress (taken_up os c) = p_pageDirectoryAddress c" "p_userVirtual (taken_up os c) = p_userVirtual c"
  "p_retValue (taken_up os c) = p_retValue c" "p_fs (taken_up os c) = p_fs c" "p_argv (taken_up os c) = p_argv c"
  by (simp_all add: taken_up_def reload_stack_def Let_def)

lemma left_simps [simp]:
  "p_status (left st c) = (if p_status c = DEAD then DEAD else READY)" "p_pid (left st c) = p_pid c" "p_parentPid (left st c) = p_parentPid c"
  "p_pageDirectoryAddress (left st c) = p_pageDirectoryAddress c" "p_userVirtual (left st c) = p_userVirtual c"
  "p_retValue (left st c) = p_retValue c" "p_fs (left st c) = p_fs c" "p_argv (left st c) = p_argv c"
  by (simp_all add: left_def)

lemma schedule_effect:
  assumes s: "sched os ps (n # rs)" and c: "run os = Some c" and a: "dir_at os n = Some a"
  shows "\<exists>e i lk. schedule os = Some (os\<lparr>links := lk, run := Some n, interrupts := i, esp0 := e, os_mm := (os_mm os)\<lparr>cr3 := a\<rparr>,
      pcbs := (pcbs os)(n := taken_up os (pcbs os n), c := left (interrupts os) (pcbs os c))\<rparr>) \<and>
    table (os\<lparr>links := lk\<rparr>) ps (if p_status (pcbs os c) = DEAD then rs else rs @ [c])"
proof -
  note d = schedD [OF s c]
  have nc: "n \<noteq> c" and cr: "c \<notin> set rs" using d(3) by auto
  have t0: "table (os\<lparr>interrupts := False\<rparr>) ps (n # rs)" using d(1) by simp
  obtain k where k: "pickNext (os\<lparr>interrupts := False\<rparr>) = (Some n, os\<lparr>interrupts := False, links := k\<rparr>)"
      "table (os\<lparr>interrupts := False, links := k\<rparr>) ps rs"
    using pickNext_table [OF t0] by auto
  let ?o1 = "set_status n RUNNING (os\<lparr>interrupts := False, links := k\<rparr>)"
  let ?D = "p_status (pcbs os c) = DEAD"
  have "\<exists>m. (if \<not> ?D then enqueue c (set_status c READY ?o1) else Some ?o1) =
      Some ((if ?D then ?o1 else set_status c READY ?o1)\<lparr>links := m\<rparr>) \<and>
      table (os\<lparr>interrupts := False, links := m\<rparr>) ps (if ?D then rs else rs @ [c])"
  proof (cases ?D)
    case True
    then show ?thesis using k(2) by (auto intro!: exI [of _ k] simp: set_status_def upd_pcb_def)
  next
    case False
    have "table (set_status c READY ?o1) ps rs" using k(2) by (simp add: set_status_def upd_pcb_def)
    then show ?thesis using enqueue_table [of "set_status c READY ?o1" ps rs c] d(2) cr False
      by (auto simp: set_status_def upd_pcb_def)
  qed
  then obtain m where m: "(if \<not> ?D then enqueue c (set_status c READY ?o1) else Some ?o1) =
      Some ((if ?D then ?o1 else set_status c READY ?o1)\<lparr>links := m\<rparr>)" "table (os\<lparr>interrupts := False, links := m\<rparr>) ps (if ?D then rs else rs @ [c])"
    by blast
  let ?o2 = "((if ?D then ?o1 else set_status c READY ?o1)\<lparr>links := m\<rparr>)\<lparr>run := Some n\<rparr>"
  have p2: "pcbs ?o2 = (pcbs os)(n := (pcbs os n)\<lparr>p_status := RUNNING\<rparr>, c := (pcbs os c)\<lparr>p_status := (if ?D then DEAD else READY)\<rparr>)"
    using nc by (auto simp: set_status_def upd_pcb_def fun_eq_iff)
  have "dir_at ?o2 n = Some a" using a nc unfolding dir_at_def page_dir_def by (auto simp: set_status_def upd_pcb_def split: if_splits)
  then obtain e where e: "activateProgramPage n ?o2 = Some (?o2\<lparr>esp0 := e, os_mm := (os_mm ?o2)\<lparr>cr3 := a\<rparr>\<rparr>)"
    using activate_effect by blast
  let ?o3 = "?o2\<lparr>esp0 := e, os_mm := (os_mm ?o2)\<lparr>cr3 := a\<rparr>\<rparr>"
  let ?o4 = "if needExecveReload (pcbs ?o3 n) then upd_pcb n (reload_stack os) ?o3 else ?o3"
  have r: "schedule os = Some (switch_thread c n (interrupts os) ?o4)"
    unfolding schedule_def Let_def using c k(1) m(1) e by (simp add: set_status_def upd_pcb_def)
  let ?P = "(pcbs os)(n := (pcbs os n)\<lparr>p_status := RUNNING\<rparr>, c := (pcbs os c)\<lparr>p_status := (if ?D then DEAD else READY)\<rparr>)"
  let ?base = "os\<lparr>links := m, run := Some n, interrupts := False, esp0 := e, os_mm := (os_mm os)\<lparr>cr3 := a\<rparr>\<rparr>"
  have "?o3 = ?base\<lparr>pcbs := pcbs ?o2\<rparr>" by (simp add: set_status_def upd_pcb_def)
  then have o3: "?o3 = ?base\<lparr>pcbs := ?P\<rparr>" unfolding p2 .
  have P': "?P(n := f (?P n)) = (pcbs os)(n := f ((pcbs os n)\<lparr>p_status := RUNNING\<rparr>), c := (pcbs os c)\<lparr>p_status := (if ?D then DEAD else READY)\<rparr>)" for f
    using nc by (simp add: fun_upd_twist)
  have "?o4 = ?base\<lparr>pcbs := (pcbs os)(n := taken_up os (pcbs os n), c := (pcbs os c)\<lparr>p_status := (if ?D then DEAD else READY)\<rparr>)\<rparr>"
  proof (cases "needExecveReload (pcbs os n)")
    case True
    then have "?o4 = upd_pcb n (reload_stack os) (?base\<lparr>pcbs := ?P\<rparr>)" unfolding o3 using nc by simp
    also have "\<dots> = ?base\<lparr>pcbs := ?P(n := reload_stack os (?P n))\<rparr>" by (simp add: upd_pcb_def)
    finally show ?thesis unfolding P' using True by (simp add: taken_up_def Let_def)
  next
    case False
    then have "?o4 = ?base\<lparr>pcbs := ?P\<rparr>" unfolding o3 using nc by simp
    then show ?thesis using False by (simp add: taken_up_def Let_def)
  qed
  then show ?thesis using r m(2) nc
    by (intro exI [of _ e] exI [of _ "case p_stack (taken_up os (pcbs os n)) of Suspended old \<Rightarrow> old | _ \<Rightarrow> True"] exI [of _ m])
      (simp add: switch_thread_def upd_pcb_def left_def Let_def)
qed

section \<open>Taking turns\<close>

text \<open>
  The kernel half of every address space maps the page directories of all programs: \<open>C\<close> holds the
  physical addresses of the directories.
\<close>

definition kernel_mapped :: "OS \<Rightarrow> nat list \<Rightarrow> bool" where
  "kernel_mapped os ps \<longleftrightarrow> (\<exists>C. cr3 (os_mm os) \<in> C \<and>
     (\<forall>c\<in>C. \<forall>p\<in>set ps. \<exists>a\<in>C. dir_at (os\<lparr>os_mm := (os_mm os)\<lparr>cr3 := c\<rparr>\<rparr>) p = Some a))"

lemma dir_at_cong: "page_dir os' p = page_dir os p \<Longrightarrow> os_mm os' = os_mm os \<Longrightarrow> dir_at os' p = dir_at os p"
  by (simp add: dir_at_def)

lemma schedule_sched:
  assumes s: "sched os ps (n # rs)" and c: "run os = Some c" and a: "dir_at os n = Some a"
  shows "\<exists>os'. schedule os = Some os' \<and> run os' = Some n \<and> sched os' ps (if p_status (pcbs os c) = DEAD then rs else rs @ [c]) \<and>
    pcbs os' = (pcbs os)(n := taken_up os (pcbs os n), c := left (interrupts os) (pcbs os c)) \<and> os_mm os' = (os_mm os)\<lparr>cr3 := a\<rparr>"
proof -
  note d = schedD [OF s c]
  have nc: "n \<noteq> c" and np: "n \<in> set ps" and nr: "n \<notin> set rs" "distinct rs" using d(3) tableD(3,5) [OF d(1)] by auto
  obtain e i lk where os': "schedule os = Some (os\<lparr>links := lk, run := Some n, interrupts := i, esp0 := e, os_mm := (os_mm os)\<lparr>cr3 := a\<rparr>,
      pcbs := (pcbs os)(n := taken_up os (pcbs os n), c := left (interrupts os) (pcbs os c))\<rparr>)"
      "table (os\<lparr>links := lk\<rparr>) ps (if p_status (pcbs os c) = DEAD then rs else rs @ [c])"
    using schedule_effect [OF s c a] by blast
  let ?os = "os\<lparr>links := lk, run := Some n, interrupts := i, esp0 := e, os_mm := (os_mm os)\<lparr>cr3 := a\<rparr>,
      pcbs := (pcbs os)(n := taken_up os (pcbs os n), c := left (interrupts os) (pcbs os c))\<rparr>"
  have "sched ?os ps (if p_status (pcbs os c) = DEAD then rs else rs @ [c])"
  proof (rule schedI)
    show "table ?os ps (if p_status (pcbs os c) = DEAD then rs else rs @ [c])"
    proof -
      have "table ?os = table (os\<lparr>links := lk\<rparr>)" by (simp add: fun_eq_iff table_def)
      then show ?thesis using os'(2) by (simp only:)
    qed
    show "run ?os = Some n" by simp
    show "n \<in> set ps" by (rule np)
    show "n \<notin> set (if p_status (pcbs os c) = DEAD then rs else rs @ [c])" using nr nc by auto
    show "p_pid (pcbs ?os p) = int p" if "p \<in> set ps" for p using d(4) [OF that] by auto
    show "p_status (pcbs ?os p) = READY \<longleftrightarrow> p \<in> set (if p_status (pcbs os c) = DEAD then rs else rs @ [c])" if "p \<in> set ps" "p \<noteq> n" for p
      using d(5) [OF that(1)] that(2) nc d(3) by (cases "p = c") auto
  qed
  then show ?thesis using os'(1) by (intro exI [of _ ?os]) simp
qed

lemma schedule_step:
  assumes s: "sched os ps (n # rs)" and c: "run os = Some c" and m: "kernel_mapped os ps"
  shows "\<exists>os'. schedule os = Some os' \<and> run os' = Some n \<and> kernel_mapped os' ps \<and>
    sched os' ps (if p_status (pcbs os c) = DEAD then rs else rs @ [c]) \<and>
    pcbs os' = (pcbs os)(n := taken_up os (pcbs os n), c := left (interrupts os) (pcbs os c))"
proof -
  have np: "n \<in> set ps" using tableD(5) [OF schedD(1) [OF s c]] by auto
  obtain C where C: "cr3 (os_mm os) \<in> C" "\<And>d p. d \<in> C \<Longrightarrow> p \<in> set ps \<Longrightarrow> \<exists>a\<in>C. dir_at (os\<lparr>os_mm := (os_mm os)\<lparr>cr3 := d\<rparr>\<rparr>) p = Some a"
    using m by (auto simp: kernel_mapped_def)
  obtain a where a: "a \<in> C" "dir_at os n = Some a" using C(2) [OF C(1) np] by auto
  obtain os' where o: "schedule os = Some os'" "run os' = Some n" "sched os' ps (if p_status (pcbs os c) = DEAD then rs else rs @ [c])"
      "pcbs os' = (pcbs os)(n := taken_up os (pcbs os n), c := left (interrupts os) (pcbs os c))" "os_mm os' = (os_mm os)\<lparr>cr3 := a\<rparr>"
    using schedule_sched [OF s c a(2)] by blast
  have "kernel_mapped os' ps" unfolding kernel_mapped_def
  proof (intro exI [of _ C] conjI ballI)
    show "cr3 (os_mm os') \<in> C" using a(1) o(5) by simp
    fix b p assume "b \<in> C" "p \<in> set ps"
    then obtain a' where "a' \<in> C" "dir_at (os\<lparr>os_mm := (os_mm os)\<lparr>cr3 := b\<rparr>\<rparr>) p = Some a'" using C(2) by blast
    moreover have "dir_at (os'\<lparr>os_mm := (os_mm os')\<lparr>cr3 := b\<rparr>\<rparr>) p = dir_at (os\<lparr>os_mm := (os_mm os)\<lparr>cr3 := b\<rparr>\<rparr>) p"
      by (rule dir_at_cong) (simp_all add: page_dir_def o(4,5))
    ultimately show "\<exists>a\<in>C. dir_at (os'\<lparr>os_mm := (os_mm os')\<lparr>cr3 := b\<rparr>\<rparr>) p = Some a" by auto
  qed
  then show ?thesis using o by blast
qed

text \<open>\<open>k\<close> calls of \<^verbatim>\<open>schedule\<close> one after the other, each by the program that runs then.\<close>

primrec yields :: "nat \<Rightarrow> OS \<Rightarrow> OS option" where
  "yields 0 os = Some os"
| "yields (Suc k) os = Option.bind (schedule os) (yields k)"

lemma schedule_alone:
  assumes "sched os ps []" and "run os = Some c" and "p_status (pcbs os c) \<noteq> DEAD"
  shows "schedule os = Some os"
proof -
  have t: "table (os\<lparr>interrupts := False\<rparr>) ps []" using schedD(1) [OF assms(1,2)] by simp
  have "pickNext (os\<lparr>interrupts := False\<rparr>) = (None, os\<lparr>interrupts := False\<rparr>)" using pickNext_table [OF t] by auto
  then show ?thesis using assms(2,3) by (simp add: schedule_def Let_def)
qed

text \<open>
  \<^bold>\<open>C34\<close>: The ready queue goes round (program.cpp, \<^verbatim>\<open>schedule\<close>; schduler.cpp,
  \<^verbatim>\<open>pickNext\<close>, \<^verbatim>\<open>enqueue\<close>).  Think of the running program and the ready queue as one
  ring: each call of \<^verbatim>\<open>schedule\<close> by a live program turns the ring by one place and keeps the program
  table in order.  So the program at position \<open>k\<close> of the ring runs after exactly \<open>k\<close> calls, and no ready
  program waits longer than one round, under either scheduler.
\<close>

theorem schedule_turns_ring:
  assumes "sched os ps rs" and "run os = Some c" and "p_status (pcbs os c) = RUNNING" and "kernel_mapped os ps"
  shows "\<exists>os' q. yields k os = Some os' \<and> run os' = Some ((c # rs) ! (k mod Suc (length rs))) \<and>
    rotate k (c # rs) = (c # rs) ! (k mod Suc (length rs)) # q \<and> sched os' ps q \<and>
    p_status (pcbs os' ((c # rs) ! (k mod Suc (length rs)))) = RUNNING"
proof -
  have "\<exists>os' r q. yields k os = Some os' \<and> run os' = Some r \<and> rotate k (c # rs) = r # q \<and> sched os' ps q \<and> p_status (pcbs os' r) = RUNNING"
    using assms
  proof (induction k arbitrary: os c rs)
    case 0
    then show ?case by auto
  next
    case (Suc k)
    show ?case
    proof (cases rs)
      case Nil
      have "schedule os = Some os" using schedule_alone [of os ps c] Suc.prems Nil by simp
      then show ?thesis using Suc.IH [OF Suc.prems] Nil by (simp add: rotate_length01)
    next
      case (Cons n ns)
      have nc: "n \<noteq> c" using Suc.prems(1,2) Cons by (auto simp: sched_def)
      obtain os1 where o: "schedule os = Some os1" "run os1 = Some n" "kernel_mapped os1 ps" "sched os1 ps (ns @ [c])"
          "pcbs os1 = (pcbs os)(n := taken_up os (pcbs os n), c := left (interrupts os) (pcbs os c))"
        using schedule_step [of os ps n ns c] Suc.prems Cons by auto
      have "p_status (pcbs os1 n) = RUNNING" using o(5) nc by simp
      then show ?thesis using Suc.IH [OF o(4,2) _ o(3)] o(1) Cons by (auto simp: rotate1_rotate_swap)
    qed
  qed
  then obtain os' r q where o: "yields k os = Some os'" "run os' = Some r" "rotate k (c # rs) = r # q" "sched os' ps q" "p_status (pcbs os' r) = RUNNING"
    by blast
  have "hd (rotate k (c # rs)) = (c # rs) ! (k mod length (c # rs))" by (rule hd_rotate_conv_nth) simp
  then show ?thesis using o by auto
qed

text \<open>Two kernel threads, the first of them running.\<close>

definition two_threads :: "MM \<Rightarrow> FileManager \<Rightarrow> KeyboardManager \<Rightarrow> Screen \<Rightarrow> OS" where
  "two_threads mm fm kb sc = \<lparr>PCB_SET = 65536, all_list = 8, rr_list = 16, fifs_list = 24,
     load_process_at = 1, program_exit_at = 2, start_process_at = 3, k_exit_at = 4,
     links = (\<lambda>_. \<lparr>previous = None, next = None\<rparr>)
       (8 := \<lparr>previous = None, next = Some 65588\<rparr>, 65588 := \<lparr>previous = Some 8, next = Some 69684\<rparr>,
        69684 := \<lparr>previous = Some 65588, next = None\<rparr>, 16 := \<lparr>previous = None, next = Some 69676\<rparr>,
        69676 := \<lparr>previous = Some 16, next = None\<rparr>),
     pcbs = (\<lambda>p. zero_pcb\<lparr>p_pid := int p, p_status := (if p = 0 then RUNNING else READY)\<rparr>),
     PCB_SET_STATUS = (\<lambda>p. p < 2), run = Some 0, sType = RR,
     USER_CODE_SELECTOR = 0, USER_DATA_SELECTOR = 0, USER_STACK_SELECTOR = 0, interrupts = True, esp0 = 0,
     os_mm = mm\<lparr>cr3 := PAGE_DIRECTORY\<rparr>, os_fm = fm,
     os_keyboard = kb, os_screen = sc\<rparr>"

lemma two_threads_sched: "sched (two_threads mm fm kb sc) [0, 1] [1]" "kernel_mapped (two_threads mm fm kb sc) [0, 1]"
proof -
  have "{p. p < MAX_PROGRAM_AMOUNT \<and> p < 2} = {0, 1::nat}" by (auto simp: MAX_PROGRAM_AMOUNT_def)
  then have "table (two_threads mm fm kb sc) [0, 1] [1]"
    by (auto simp: table_def heads_ok_def ready_head_def two_threads_def list_at_def tagInAllList_def tagInGeneralList_def PCB_SIZE_def MAX_PROGRAM_AMOUNT_def)
  then show "sched (two_threads mm fm kb sc) [0, 1] [1]" by (auto simp: sched_def two_threads_def)
  show "kernel_mapped (two_threads mm fm kb sc) [0, 1]" unfolding kernel_mapped_def
    by (rule exI [of _ "{PAGE_DIRECTORY}"]) (auto simp: two_threads_def dir_at_def page_dir_def zero_pcb_def)
qed

theorem schedule_turns_ring_witness:
  "\<forall>mm fm kb sc. \<exists>a b. yields 1 (two_threads mm fm kb sc) = Some a \<and> run a = Some 1 \<and> yields 2 (two_threads mm fm kb sc) = Some b \<and> run b = Some 0"
proof (intro allI)
  fix mm fm kb sc
  have c: "run (two_threads mm fm kb sc) = Some 0" "p_status (pcbs (two_threads mm fm kb sc) 0) = RUNNING" by (simp_all add: two_threads_def)
  show "\<exists>a b. yields 1 (two_threads mm fm kb sc) = Some a \<and> run a = Some 1 \<and> yields 2 (two_threads mm fm kb sc) = Some b \<and> run b = Some 0"
    using schedule_turns_ring [OF two_threads_sched(1) c two_threads_sched(2), of 1]
      schedule_turns_ring [OF two_threads_sched(1) c two_threads_sched(2), of 2]
    by (auto simp: numeral_2_eq_2)
qed

end
