(* ===== verification/Elf.thy ===== *)
theory Elf
  imports Scheduler File_Ops
begin

text \<open>
  Program images (\<^verbatim>\<open>src/kernel/program.cpp\<close>): the ELF reader \<^verbatim>\<open>parseELF\<close> with its
  structures, the layout of an address space it decides and the image made from a kernel function.  A configuration keeps its
  segments in a list; the array of the code has room for \<open>ELF_SEGMENT_AMOUNT\<close> of them.
\<close>

section \<open>Structures\<close>

record Elf32_Ehdr =
  e_ident :: "u8 list"
  e_type :: u16
  e_machine :: u16
  e_version :: u32
  e_entry :: u32
  e_phoff :: u32
  e_shoff :: u32
  e_flags :: u32
  e_ehsize :: u16
  e_phentsize :: u16
  e_phnum :: u16
  e_shentsize :: u16
  e_shnum :: u16
  e_shstrndx :: u16

record Elf32_Phdr =
  p_type :: u32
  p_offset :: u32
  p_vaddr :: u32
  p_paddr :: u32
  p_filesz :: u32
  p_memsz :: u32
  p_flags :: u32
  p_align :: u32

definition SIZEOF_EHDR :: u32 where "SIZEOF_EHDR = 52"
definition SIZEOF_PHDR :: u32 where "SIZEOF_PHDR = 32"

text \<open>The bytes of a packed structure as its fields.\<close>

definition Ehdr_of :: "bytes \<Rightarrow> Elf32_Ehdr" where
  "Ehdr_of b = \<lparr>e_ident = map b [0..<16], e_type = get16 b 16, e_machine = get16 b 18, e_version = get32 b 20,
     e_entry = get32 b 24, e_phoff = get32 b 28, e_shoff = get32 b 32, e_flags = get32 b 36, e_ehsize = get16 b 40,
     e_phentsize = get16 b 42, e_phnum = get16 b 44, e_shentsize = get16 b 46, e_shnum = get16 b 48, e_shstrndx = get16 b 50\<rparr>"

definition Phdr_of :: "bytes \<Rightarrow> Elf32_Phdr" where
  "Phdr_of b = \<lparr>p_type = get32 b 0, p_offset = get32 b 4, p_vaddr = get32 b 8, p_paddr = get32 b 12,
     p_filesz = get32 b 16, p_memsz = get32 b 20, p_flags = get32 b 24, p_align = get32 b 28\<rparr>"

record ElfSegment =
  userSegment :: UserSegment
  sg_vaddr :: u32
  file_vaddr :: u32
  memsz :: u32
  filesz :: u32
  sg_offset :: u32
  sg_flags :: u8

record ELFConfig =
  c_entry :: u32
  entry_in_kernel :: u32
  source_fd :: int
  segments :: "ElfSegment list"
  stack_top :: u32
  stack_begin :: u32
  stack_size :: u32
  stack_pages :: u32
  heap_begin :: u32
  heap_size :: u32
  tls_begin :: u32
  tls_size :: u32
  mmap_begin :: u32
  mmap_size :: u32

definition zero_config :: ELFConfig where
  "zero_config = \<lparr>c_entry = 0, entry_in_kernel = 0, source_fd = 0, segments = [], stack_top = 0, stack_begin = 0,
     stack_size = 0, stack_pages = 0, heap_begin = 0, heap_size = 0, tls_begin = 0, tls_size = 0, mmap_begin = 0, mmap_size = 0\<rparr>"

definition USER_VADDR_START :: u32 where "USER_VADDR_START = 0x08048000"
definition STACK_TOP :: u32 where "STACK_TOP = 0xbfff0000"
definition STACK_SIZE :: u32 where "STACK_SIZE = 0x400000"
definition STACK_PREALLOC_PAGE :: u32 where "STACK_PREALLOC_PAGE = 1"
definition HEAP_SIZE :: u32 where "HEAP_SIZE = 0x40000000"
definition MAX_THREAD_AMOUNT :: u32 where "MAX_THREAD_AMOUNT = 32"
definition ELF_SEGMENT_AMOUNT :: nat where "ELF_SEGMENT_AMOUNT = 8"

section \<open>Segments\<close>

definition align_down :: "u32 \<Rightarrow> u32 \<Rightarrow> u32" where
  "align_down v al = v AND NOT (al - 1)"

definition align_up :: "u32 \<Rightarrow> u32 \<Rightarrow> u32" where
  "align_up v al = (v + al - 1) AND NOT (al - 1)"

definition add_elf_segment :: "ElfSegment \<Rightarrow> ELFConfig \<Rightarrow> bool \<times> ELFConfig" where
  "add_elf_segment seg conf =
     (if memsz seg = 0 then (True, conf)
      else if ELF_SEGMENT_AMOUNT \<le> length (segments conf) then (False, conf)
      else (True, conf\<lparr>segments := segments conf @ [seg]\<rparr>))"

definition PT_LOAD :: u32 where "PT_LOAD = 1"
definition PF_X :: u32 where "PF_X = 1"
definition PF_W :: u32 where "PF_W = 2"

definition phdr_invalid :: "Elf32_Phdr \<Rightarrow> bool" where
  "phdr_invalid ph \<longleftrightarrow> p_memsz ph < p_filesz ph \<or> p_vaddr ph < USER_VADDR_START \<or>
     p_vaddr ph + p_memsz ph < p_vaddr ph \<or> STACK_TOP \<le> p_vaddr ph + p_memsz ph"

text \<open>
  The body of the loop over the program headers behind the read: \<open>False\<close> is the jump to the error exit.
\<close>

definition add_load_segment :: "Elf32_Phdr \<Rightarrow> ELFConfig \<Rightarrow> u32 \<Rightarrow> bool \<times> ELFConfig \<times> u32" where
  "add_load_segment ph conf max_end =
     (if p_type ph \<noteq> PT_LOAD \<or> p_memsz ph = 0 then (True, conf, max_end)
      else if phdr_invalid ph then (False, conf, max_end)
      else let file_end = p_vaddr ph + p_filesz ph;
               mem_end = p_vaddr ph + p_memsz ph;
               flags = VP_USER OR (if p_flags ph AND PF_W \<noteq> 0 then VP_RW else 0)
      in if p_flags ph AND PF_X \<noteq> 0 then
           let text_begin = align_down (p_vaddr ph) PAGE_SIZE;
               text_end = align_up mem_end PAGE_SIZE;
               (ok, conf) = add_elf_segment \<lparr>userSegment = TEXT, sg_vaddr = text_begin, file_vaddr = p_vaddr ph,
                  memsz = text_end - text_begin, filesz = p_filesz ph, sg_offset = p_offset ph, sg_flags = flags\<rparr> conf
           in if ok then (True, conf, max max_end text_end) else (False, conf, max_end)
         else
           let data_begin = align_down (p_vaddr ph) PAGE_SIZE;
               data_end = (if p_filesz ph \<noteq> 0 then align_up file_end PAGE_SIZE else data_begin);
               (ok, conf, max_end) =
                 (if p_filesz ph \<noteq> 0 \<and> data_begin < data_end then
                    let (ok, conf) = add_elf_segment \<lparr>userSegment = DATA, sg_vaddr = data_begin, file_vaddr = p_vaddr ph,
                       memsz = data_end - data_begin, filesz = p_filesz ph, sg_offset = p_offset ph, sg_flags = flags\<rparr> conf
                    in (ok, conf, if ok then max max_end data_end else max_end)
                  else (True, conf, max_end));
               bss_begin = data_end;
               bss_end = align_up mem_end PAGE_SIZE
           in if ok \<and> bss_begin < bss_end then
                let (ok, conf) = add_elf_segment \<lparr>userSegment = BSS, sg_vaddr = bss_begin, file_vaddr = bss_begin,
                   memsz = bss_end - bss_begin, filesz = 0, sg_offset = 0, sg_flags = VP_USER OR VP_RW\<rparr> conf
                in (ok, conf, if ok then max max_end bss_end else max_end)
              else (ok, conf, max_end))"

section \<open>Layout of the address space\<close>

definition elf_layout :: "u32 \<Rightarrow> ELFConfig \<Rightarrow> ELFConfig" where
  "elf_layout max_end conf =
     (let st_begin = STACK_TOP - STACK_SIZE;
          cnt_end = align_up max_end PAGE_SIZE;
          heap = cnt_end;
          cnt_end = cnt_end + HEAP_SIZE;
          tls = cnt_end;
          cnt_end = cnt_end + MAX_THREAD_AMOUNT * PAGE_SIZE
      in conf\<lparr>stack_top := STACK_TOP, stack_size := STACK_SIZE, stack_begin := st_begin, stack_pages := STACK_PREALLOC_PAGE,
         heap_begin := heap, heap_size := HEAP_SIZE, tls_begin := tls, tls_size := MAX_THREAD_AMOUNT * PAGE_SIZE,
         mmap_begin := cnt_end, mmap_size := st_begin - cnt_end\<rparr>)"

definition layout_ok :: "ELFConfig \<Rightarrow> bool" where
  "layout_ok conf \<longleftrightarrow> mmap_begin conf < stack_begin conf \<and> mmap_size conf mod PAGE_SIZE = 0"

section \<open>Reading an image\<close>

type_synonym io = "FileManager \<times> KeyboardManager \<times> Screen"

definition io_seek :: "int \<Rightarrow> u32 \<Rightarrow> io \<Rightarrow> (int \<times> io) option" where
  "io_seek fd pos = (\<lambda>(fm, k, s). do { (r, fm) \<leftarrow> fm_fseek fd pos 0 fm; Some (r, fm, k, s) })"

definition io_close :: "int \<Rightarrow> io \<Rightarrow> io option" where
  "io_close fd = (\<lambda>(fm, k, s). do { (_, fm) \<leftarrow> fm_close fd fm; Some (fm, k, s) })"

text \<open>Reading into a local structure of \<open>sz\<close> bytes: \<open>Inl\<close> when not all of it could be read.\<close>

definition io_struct :: "int \<Rightarrow> u32 \<Rightarrow> io \<Rightarrow> (bytes option \<times> io) option" where
  "io_struct fd sz io = do {
     (n, out, io) \<leftarrow> fm_read fd (Some (\<lambda>_. 0)) sz [] io;
     Some (if n = sint sz then out else None, io)
   }"

definition ehdr_valid :: "Elf32_Ehdr \<Rightarrow> bool" where
  "ehdr_valid eh \<longleftrightarrow> take 4 (e_ident eh) = [0x7f, 0x45, 0x4c, 0x46] \<and> e_ident eh ! 4 = 1 \<and> e_ident eh ! 5 = 1 \<and>
     e_type eh = 2 \<and> e_machine eh = 3 \<and> e_version eh = 1 \<and> ucast (e_phentsize eh) = SIZEOF_PHDR \<and> e_phnum eh \<noteq> 0"

definition elf_fail :: "int \<Rightarrow> ELFConfig \<Rightarrow> io \<Rightarrow> (ELFConfig \<times> io) option" where
  "elf_fail fd conf io = do { io \<leftarrow> io_close fd io; Some (conf\<lparr>source_fd := - 1, c_entry := 0\<rparr>, io) }"

fun phdr_loop :: "int \<Rightarrow> u32 \<Rightarrow> nat \<Rightarrow> nat \<Rightarrow> ELFConfig \<Rightarrow> u32 \<Rightarrow> io \<Rightarrow> (bool \<times> ELFConfig \<times> u32 \<times> io) option" where
  "phdr_loop fd phoff 0 i conf max_end io = Some (True, conf, max_end, io)"
| "phdr_loop fd phoff (Suc n) i conf max_end io = do {
     (r, io) \<leftarrow> io_seek fd (phoff + word_of_nat i * SIZEOF_PHDR) io;
     if r < 0 then Some (False, conf, max_end, io)
     else do {
       (b, io) \<leftarrow> io_struct fd SIZEOF_PHDR io;
       case b of
         None \<Rightarrow> Some (False, conf, max_end, io)
       | Some b \<Rightarrow>
           (case add_load_segment (Phdr_of b) conf max_end of
              (ok, conf, max_end) \<Rightarrow>
                if ok then phdr_loop fd phoff n (i + 1) conf max_end io else Some (False, conf, max_end, io))
     }
   }"

text \<open>\<^verbatim>\<open>parseELF\<close> from the point where the file is open.\<close>

definition read_image :: "int \<Rightarrow> io \<Rightarrow> (ELFConfig \<times> io) option" where
  "read_image fd io = do {
     let conf = zero_config\<lparr>source_fd := - 1\<rparr>;
     (b, io) \<leftarrow> io_struct fd SIZEOF_EHDR io;
     case b of
       None \<Rightarrow> do { io \<leftarrow> io_close fd io; Some (conf, io) }
     | Some b \<Rightarrow>
         let eh = Ehdr_of b in
         if \<not> ehdr_valid eh then do { io \<leftarrow> io_close fd io; Some (conf, io) }
         else do {
           let conf = conf\<lparr>c_entry := e_entry eh, entry_in_kernel := 0, source_fd := fd\<rparr>;
           (ok, conf, max_end, io) \<leftarrow> phdr_loop fd (e_phoff eh) (unat (e_phnum eh)) 0 conf USER_VADDR_START io;
           if \<not> ok then elf_fail fd conf io
           else if segments conf = [] \<or> c_entry conf < USER_VADDR_START \<or> max_end \<le> c_entry conf then elf_fail fd conf io
           else let conf = elf_layout max_end conf in
             if \<not> layout_ok conf then elf_fail fd conf io else Some (conf, io)
         }
   }"

definition parseELF :: "cstr \<Rightarrow> io \<Rightarrow> (ELFConfig \<times> io) option" where
  "parseELF filename = (\<lambda>(fm, k, s). do {
     (fd, fm) \<leftarrow> fm_open filename fm;
     if fd < 0 then Some (zero_config\<lparr>source_fd := - 1\<rparr>, fm, k, s) else read_image fd (fm, k, s)
   })"

section \<open>An image made from a kernel function\<close>

definition func2ELF :: "u32 \<Rightarrow> ELFConfig option" where
  "func2ELF ent =
     (let size5 = PAGE_SIZE * 5;
          text = \<lparr>userSegment = TEXT, sg_vaddr = USER_VADDR_START, file_vaddr = USER_VADDR_START, memsz = size5,
                  filesz = size5, sg_offset = 0, sg_flags = VP_USER\<rparr>;
          other = (\<lambda>u. \<lparr>userSegment = u, sg_vaddr = USER_VADDR_START + size5, file_vaddr = USER_VADDR_START + size5, memsz = 0,
                  filesz = 0, sg_offset = 0, sg_flags = VP_USER OR VP_RW\<rparr>);
          segs = [text, other DATA, other BSS];
          st_begin = STACK_TOP - STACK_SIZE;
          cnt_end = fold (\<lambda>sg e. e + memsz sg) segs USER_VADDR_START;
          heap = cnt_end;
          cnt_end = cnt_end + HEAP_SIZE;
          tls = cnt_end;
          cnt_end = cnt_end + MAX_THREAD_AMOUNT * PAGE_SIZE;
          conf = \<lparr>c_entry = (ent AND 0xfff) + USER_VADDR_START, entry_in_kernel = ent, source_fd = - 1, segments = segs,
                  stack_top = STACK_TOP, stack_begin = st_begin, stack_size = STACK_SIZE, stack_pages = STACK_PREALLOC_PAGE,
                  heap_begin = heap, heap_size = HEAP_SIZE, tls_begin = tls, tls_size = MAX_THREAD_AMOUNT * PAGE_SIZE,
                  mmap_begin = cnt_end, mmap_size = st_begin - cnt_end\<rparr>
      in if stack_pages conf * PAGE_SIZE \<le> stack_size conf \<and> mmap_size conf mod PAGE_SIZE = 0 then Some conf else None)"

section \<open>The image a file holds\<close>

text \<open>
  What \<^verbatim>\<open>parseELF\<close> computes, as a function of the bytes \<open>B\<close> of a file of \<open>z\<close> bytes: a structure can be
  read at a position when it lies inside the file.
\<close>

definition struct_at :: "nat \<Rightarrow> bytes \<Rightarrow> u32 \<Rightarrow> u32 \<Rightarrow> bytes option" where
  "struct_at z B pos sz = (if unat pos < 2 ^ 31 \<and> unat pos + unat sz \<le> z then Some (\<lambda>j. B (unat pos + j)) else None)"

fun headers :: "nat \<Rightarrow> bytes \<Rightarrow> u32 \<Rightarrow> nat \<Rightarrow> nat \<Rightarrow> ELFConfig \<Rightarrow> u32 \<Rightarrow> (ELFConfig \<times> u32) option" where
  "headers z B phoff 0 i conf max_end = Some (conf, max_end)"
| "headers z B phoff (Suc n) i conf max_end =
     (case struct_at z B (phoff + word_of_nat i * SIZEOF_PHDR) SIZEOF_PHDR of
        None \<Rightarrow> None
      | Some b \<Rightarrow> (case add_load_segment (Phdr_of b) conf max_end of
          (ok, conf, max_end) \<Rightarrow> if ok then headers z B phoff n (i + 1) conf max_end else None))"

definition elf_image :: "nat \<Rightarrow> bytes \<Rightarrow> int \<Rightarrow> ELFConfig option" where
  "elf_image z B fd = do {
     b \<leftarrow> struct_at z B 0 SIZEOF_EHDR;
     let eh = Ehdr_of b;
     if \<not> ehdr_valid eh then None
     else do {
       (conf, max_end) \<leftarrow> headers z B (e_phoff eh) (unat (e_phnum eh)) 0
         (zero_config\<lparr>c_entry := e_entry eh, source_fd := fd\<rparr>) USER_VADDR_START;
       if segments conf = [] \<or> c_entry conf < USER_VADDR_START \<or> max_end \<le> c_entry conf \<or> \<not> layout_ok (elf_layout max_end conf)
       then None else Some (elf_layout max_end conf)
     }
   }"

section \<open>Segments of an image\<close>

lemma align_unat:
  fixes v :: u32
  shows "unat (align_down v PAGE_SIZE) = unat v div 4096 * 4096"
    and "unat v + 4095 < 2 ^ 32 \<Longrightarrow> unat (align_up v PAGE_SIZE) = (unat v + 4095) div 4096 * 4096"
proof -
  have d: "unat (w AND NOT (PAGE_SIZE - 1)) = unat w div 4096 * 4096" for w :: u32
  proof -
    have m: "PAGE_SIZE - 1 = (mask 12 :: u32)" by (simp add: PAGE_SIZE_def mask_eq_exp_minus_1)
    have "w AND NOT (mask 12) = push_bit 12 (drop_bit 12 w)"
      by (rule bit_word_eqI) (auto simp: bit_simps)
    then have "unat (w AND NOT (mask 12)) = unat (push_bit 12 (drop_bit 12 w))" by (simp only:)
    also have "\<dots> = take_bit LENGTH(32) (push_bit 12 (unat (drop_bit 12 w)))" by (simp only: unsigned_push_bit_eq)
    also have "\<dots> = (unat w div 4096 * 4096) mod 2 ^ 32"
      by (simp only: unat_drop_div push_bit_eq_mult take_bit_eq_mod) simp
    also have "\<dots> = unat w div 4096 * 4096"
      using unat_bound [of w] div_times_less_eq_dividend [of "unat w" 4096] by simp
    finally show ?thesis by (simp add: m)
  qed
  then show "unat (align_down v PAGE_SIZE) = unat v div 4096 * 4096" by (simp add: align_down_def)
  assume "unat v + 4095 < 2 ^ 32"
  then have u: "unat (v + 4095) = unat v + 4095" by (subst unat_add_lem [THEN iffD1]) simp_all
  have e: "v + PAGE_SIZE - 1 = v + 4095" by (simp add: PAGE_SIZE_def)
  show "unat (align_up v PAGE_SIZE) = (unat v + 4095) div 4096 * 4096" unfolding align_up_def e d u ..
qed

text \<open>Where the byte at address \<open>a\<close> of a segment comes from: a position of the file, or nowhere (zero).\<close>

definition seg_holds :: "ElfSegment \<Rightarrow> nat \<Rightarrow> bool" where
  "seg_holds sg a \<longleftrightarrow> unat (sg_vaddr sg) \<le> a \<and> a < unat (sg_vaddr sg) + unat (memsz sg)"

definition seg_source :: "ElfSegment \<Rightarrow> nat \<Rightarrow> u32 option" where
  "seg_source sg a = (if unat (file_vaddr sg) \<le> a \<and> a < unat (file_vaddr sg) + unat (filesz sg)
     then Some (sg_offset sg + word_of_nat (a - unat (file_vaddr sg))) else None)"

text \<open>A segment of whole pages inside \<open>[USER_VADDR_START, max_end)\<close>.\<close>

definition seg_ok :: "u32 \<Rightarrow> ElfSegment \<Rightarrow> bool" where
  "seg_ok max_end sg \<longleftrightarrow> memsz sg \<noteq> 0 \<and> 4096 dvd unat (sg_vaddr sg) \<and> 4096 dvd unat (memsz sg) \<and>
     unat USER_VADDR_START \<le> unat (sg_vaddr sg) \<and> unat (sg_vaddr sg) + unat (memsz sg) \<le> unat max_end \<and>
     sg_flags sg AND VP_USER \<noteq> 0 \<and> (filesz sg \<noteq> 0 \<longrightarrow> unat (sg_vaddr sg) \<le> unat (file_vaddr sg) \<and> unat (file_vaddr sg) + unat (filesz sg) \<le> unat (sg_vaddr sg) + unat (memsz sg))"

definition conf_ok :: "ELFConfig \<Rightarrow> u32 \<Rightarrow> bool" where
  "conf_ok conf max_end \<longleftrightarrow> 4096 dvd unat max_end \<and> unat USER_VADDR_START \<le> unat max_end \<and> unat max_end \<le> unat STACK_TOP \<and>
     length (segments conf) \<le> ELF_SEGMENT_AMOUNT \<and> (\<forall>sg\<in>set (segments conf). seg_ok max_end sg)"

lemma seg_ok_mono: "seg_ok m sg \<Longrightarrow> unat m \<le> unat m' \<Longrightarrow> seg_ok m' sg"
  by (simp add: seg_ok_def)

lemma add_elf_segmentD:
  assumes "add_elf_segment sg conf = (True, conf')" and "memsz sg \<noteq> 0"
  shows "conf' = conf\<lparr>segments := segments conf @ [sg]\<rparr>" "length (segments conf) < ELF_SEGMENT_AMOUNT"
  using assms by (auto simp: add_elf_segment_def split: if_splits)

text \<open>The segments that one program header adds.\<close>

definition covers :: "Elf32_Phdr \<Rightarrow> ElfSegment list \<Rightarrow> bool" where
  "covers ph new \<longleftrightarrow> (\<forall>a. unat (p_vaddr ph) \<le> a \<and> a < unat (p_vaddr ph) + unat (p_memsz ph) \<longrightarrow>
     (\<exists>sg\<in>set new. seg_holds sg a) \<and>
     (\<forall>sg\<in>set new. seg_holds sg a \<longrightarrow> seg_source sg a =
        (if a < unat (p_vaddr ph) + unat (p_filesz ph) then Some (p_offset ph + word_of_nat (a - unat (p_vaddr ph))) else None)))"

lemma down_bounds: "x div 4096 * 4096 \<le> x" "x < x div 4096 * 4096 + (4096::nat)"
  using div_mult_mod_eq [of x 4096] mod_less_divisor [of 4096 x] by linarith+

lemma up_bounds: "x \<le> (x + 4095) div 4096 * 4096" "(x + 4095) div 4096 * 4096 < x + (4096::nat)"
  using down_bounds [of "x + 4095"] by linarith+

lemma up_le: "x \<le> 4096 * k \<Longrightarrow> (x + 4095) div 4096 * 4096 \<le> 4096 * (k::nat)"
  using less_mult_imp_div_less [of "x + 4095" "Suc k" 4096] by simp

lemma phdr_bounds:
  assumes "\<not> phdr_invalid ph" and "p_memsz ph \<noteq> 0"
  shows "unat (p_vaddr ph + p_memsz ph) = unat (p_vaddr ph) + unat (p_memsz ph)"
    "unat (p_vaddr ph + p_filesz ph) = unat (p_vaddr ph) + unat (p_filesz ph)"
    "unat (p_filesz ph) \<le> unat (p_memsz ph)" "unat USER_VADDR_START \<le> unat (p_vaddr ph)" "0 < unat (p_memsz ph)"
    "unat (p_vaddr ph) + unat (p_memsz ph) < unat STACK_TOP"
proof -
  have n: "p_vaddr ph \<le> p_vaddr ph + p_memsz ph" using assms(1) by (simp add: phdr_invalid_def not_less)
  then show m: "unat (p_vaddr ph + p_memsz ph) = unat (p_vaddr ph) + unat (p_memsz ph)" by (rule unat_plus_simple [THEN iffD1])
  show f: "unat (p_filesz ph) \<le> unat (p_memsz ph)" using assms(1) by (simp add: phdr_invalid_def not_less word_le_nat_alt)
  show "unat (p_vaddr ph + p_filesz ph) = unat (p_vaddr ph) + unat (p_filesz ph)"
    using m f unat_bound [of "p_vaddr ph + p_memsz ph"] by (intro unat_add_lem [THEN iffD1]) simp
  show "unat USER_VADDR_START \<le> unat (p_vaddr ph)" using assms(1) by (simp add: phdr_invalid_def not_less word_le_nat_alt)
  show "0 < unat (p_memsz ph)" using assms(2) by (simp add: unat_gt_0)
  show "unat (p_vaddr ph) + unat (p_memsz ph) < unat STACK_TOP" using assms(1) m by (simp add: phdr_invalid_def not_le word_less_nat_alt)
qed

lemma unat_STACK_TOP: "unat STACK_TOP = 4096 * 786416" "unat USER_VADDR_START = 4096 * 32840"
  by (simp_all add: STACK_TOP_def USER_VADDR_START_def)

lemma unat_max: "unat (max a b) = max (unat a) (unat b)" for a b :: u32
  by (simp add: max_def word_le_nat_alt)

text \<open>A segment of whole pages between two page boundaries is in order for every larger end.\<close>

lemma seg_okI:
  assumes "unat (sg_vaddr sg) = 4096 * x" and "unat e = 4096 * y" and "x < y" and "memsz sg = e - sg_vaddr sg"
    and "unat USER_VADDR_START \<le> 4096 * x" and "sg_flags sg AND VP_USER \<noteq> 0"
    and "filesz sg \<noteq> 0 \<longrightarrow> 4096 * x \<le> unat (file_vaddr sg) \<and> unat (file_vaddr sg) + unat (filesz sg) \<le> 4096 * y"
  shows "seg_ok (max m e) sg" "memsz sg \<noteq> 0" "\<And>a. seg_holds sg a \<longleftrightarrow> 4096 * x \<le> a \<and> a < 4096 * y"
proof -
  have "sg_vaddr sg \<le> e" using assms(1-3) by (simp add: word_le_nat_alt)
  then have u: "unat (memsz sg) = 4096 * y - 4096 * x" using assms(1,2,4) by (simp add: unat_sub)
  then show nz: "memsz sg \<noteq> 0" using assms(3) by (metis diff_is_0_eq mult_le_cancel1 not_le unat_0 zero_less_numeral)
  have d: "4096 dvd 4096 * y - 4096 * x" by (simp flip: right_diff_distrib')
  show "seg_ok (max m e) sg" using assms nz u d by (auto simp: seg_ok_def unat_max)
  show "seg_holds sg a \<longleftrightarrow> 4096 * x \<le> a \<and> a < 4096 * y" for a using assms(1,3) u by (auto simp: seg_holds_def)
qed

lemma user_flag: "(VP_USER OR w) AND VP_USER \<noteq> 0" for w :: u8
proof
  assume "(VP_USER OR w) AND VP_USER = 0"
  then have "bit ((VP_USER OR w) AND VP_USER) 1 = False" by simp
  then show False by (simp add: bit_simps VP_USER_def)
qed

text \<open>Adding a segment of the pages from \<open>x\<close> to \<open>y\<close>.\<close>

lemma add_pages:
  assumes c: "conf_ok conf m" and a: "add_elf_segment sg conf = (True, conf')"
    and p: "unat (sg_vaddr sg) = 4096 * x" "unat e = 4096 * y" "x < y" "memsz sg = e - sg_vaddr sg"
    and b: "32840 \<le> x" "y \<le> 786416" and f: "sg_flags sg AND VP_USER \<noteq> 0"
    and g: "filesz sg \<noteq> 0 \<longrightarrow> 4096 * x \<le> unat (file_vaddr sg) \<and> unat (file_vaddr sg) + unat (filesz sg) \<le> 4096 * y"
  shows "conf_ok conf' (max m e)" "conf' = conf\<lparr>segments := segments conf @ [sg]\<rparr>" "\<And>a. seg_holds sg a \<longleftrightarrow> 4096 * x \<le> a \<and> a < 4096 * y"
    "unat m \<le> unat (max m e)"
proof -
  have u: "unat USER_VADDR_START \<le> 4096 * x" using b(1) by (simp add: unat_STACK_TOP)
  note k = seg_okI [where sg = sg, OF p u f g]
  show "seg_holds sg a \<longleftrightarrow> 4096 * x \<le> a \<and> a < 4096 * y" for a by (rule k(3))
  note d = add_elf_segmentD [OF a k(2)]
  show "conf' = conf\<lparr>segments := segments conf @ [sg]\<rparr>" by (rule d(1))
  have m: "unat m \<le> unat (max m e)" by (simp add: unat_max)
  then show "unat m \<le> unat (max m e)" .
  have "\<forall>s\<in>set (segments conf). seg_ok (max m e) s" using c seg_ok_mono [OF _ m] by (auto simp: conf_ok_def)
  moreover have "4096 dvd unat (max m e)" "unat (max m e) \<le> unat STACK_TOP" "unat USER_VADDR_START \<le> unat (max m e)"
    using c p(2) b m by (auto simp: conf_ok_def max_def unat_STACK_TOP)
  ultimately show "conf_ok conf' (max m e)" using d k(1) by (simp add: conf_ok_def)
qed

lemma add_load_segment_ok:
  assumes c: "conf_ok conf m" and a: "add_load_segment ph conf m = (True, conf', m')"
  shows "conf_ok conf' m' \<and> unat m \<le> unat m' \<and> (\<exists>new. conf' = conf\<lparr>segments := segments conf @ new\<rparr> \<and>
     (p_type ph = PT_LOAD \<longrightarrow> p_memsz ph \<noteq> 0 \<longrightarrow> covers ph new))"
proof (cases "p_type ph \<noteq> PT_LOAD \<or> p_memsz ph = 0")
  case True
  then show ?thesis using assms by (auto simp: add_load_segment_def intro: exI [of _ "[]"])
next
  case False
  then have inv: "\<not> phdr_invalid ph" and load: "p_type ph = PT_LOAD" "p_memsz ph \<noteq> 0" using a by (auto simp: add_load_segment_def)
  note b = phdr_bounds [OF inv load(2)]
  let ?V = "unat (p_vaddr ph)" and ?M = "unat (p_memsz ph)" and ?F = "unat (p_filesz ph)"
  let ?flags = "VP_USER OR (if p_flags ph AND PF_W \<noteq> 0 then VP_RW else 0)"
  let ?lo = "align_down (p_vaddr ph) PAGE_SIZE" and ?hi = "align_up (p_vaddr ph + p_memsz ph) PAGE_SIZE"
    and ?mid = "align_up (p_vaddr ph + p_filesz ph) PAGE_SIZE"
  define x where "x = ?V div 4096"
  define y where "y = (?V + ?M + 4095) div 4096"
  define w where "w = (?V + ?F + 4095) div 4096"
  have top: "?V + ?M < 4096 * 786416" and low: "4096 * 32840 \<le> ?V" using b by (simp_all add: unat_STACK_TOP)
  have ub: "unat ?lo = 4096 * x" using align_unat(1) by (simp add: x_def mult.commute)
  have ue: "unat ?hi = 4096 * y" using align_unat(2) [of "p_vaddr ph + p_memsz ph"] b(1) top by (simp add: y_def mult.commute)
  have uf: "unat ?mid = 4096 * w" using align_unat(2) [of "p_vaddr ph + p_filesz ph"] b(2,3) top by (simp add: w_def mult.commute)
  have xV: "4096 * x \<le> ?V" and yV: "?V + ?M \<le> 4096 * y" and wV: "?V + ?F \<le> 4096 * w"
    unfolding x_def y_def w_def mult.commute [of "4096::nat"] using down_bounds(1) [of ?V] up_bounds(1) by simp_all
  have xl: "32840 \<le> x" and yh: "y \<le> 786416"
    using low div_le_mono [of "4096 * 32840" ?V 4096] up_le [of "?V + ?M" 786416] top by (simp_all add: x_def y_def)
  have wy: "w \<le> y" using b(3) by (simp add: w_def y_def div_le_mono)
  have "4096 * x < 4096 * y" using xV yV b(5) by linarith
  then have xy: "x < y" by simp
  show ?thesis
  proof (cases "p_flags ph AND PF_X \<noteq> 0")
    case True
    let ?sg = "\<lparr>userSegment = TEXT, sg_vaddr = ?lo, file_vaddr = p_vaddr ph, memsz = ?hi - ?lo, filesz = p_filesz ph,
      sg_offset = p_offset ph, sg_flags = ?flags\<rparr>"
    have r: "add_elf_segment ?sg conf = (True, conf')" "m' = max m ?hi"
      using a True inv load by (auto simp: add_load_segment_def Let_def split: prod.splits if_splits)
    have p: "unat (sg_vaddr ?sg) = 4096 * x" "memsz ?sg = ?hi - sg_vaddr ?sg" "sg_flags ?sg AND VP_USER \<noteq> 0"
      "filesz ?sg \<noteq> 0 \<longrightarrow> 4096 * x \<le> unat (file_vaddr ?sg) \<and> unat (file_vaddr ?sg) + unat (filesz ?sg) \<le> 4096 * y"
      using ub user_flag xV yV b(3) by simp_all
    note k = add_pages [OF c r(1) p(1) ue xy p(2) xl yh p(3,4)]
    have "covers ph [?sg]" using k(3) xV yV b(3) by (auto simp: covers_def seg_source_def)
    then show ?thesis using k(1,2,4) r(2) by auto
  next
    case nx: False
    let ?ds = "\<lparr>userSegment = DATA, sg_vaddr = ?lo, file_vaddr = p_vaddr ph, memsz = ?mid - ?lo, filesz = p_filesz ph,
      sg_offset = p_offset ph, sg_flags = ?flags\<rparr>"
    let ?bs = "\<lambda>from. \<lparr>userSegment = BSS, sg_vaddr = from, file_vaddr = from, memsz = ?hi - from, filesz = 0, sg_offset = 0,
      sg_flags = VP_USER OR VP_RW\<rparr>"
    have bss: "conf_ok conf2 (max m1 ?hi) \<and> conf2 = conf1\<lparr>segments := segments conf1 @ [?bs from]\<rparr> \<and> unat m1 \<le> unat (max m1 ?hi) \<and>
        (\<forall>a. seg_holds (?bs from) a \<longleftrightarrow> 4096 * z \<le> a \<and> a < 4096 * y) \<and> (\<forall>a. seg_source (?bs from) a = None)"
      if "conf_ok conf1 m1" "add_elf_segment (?bs from) conf1 = (True, conf2)" "unat from = 4096 * z" "x \<le> z" "z < y" for conf1 conf2 m1 "from" z
    proof -
      have p: "unat (sg_vaddr (?bs from)) = 4096 * z" "memsz (?bs from) = ?hi - sg_vaddr (?bs from)" "sg_flags (?bs from) AND VP_USER \<noteq> 0"
        "filesz (?bs from) \<noteq> 0 \<longrightarrow> 4096 * z \<le> unat (file_vaddr (?bs from)) \<and> unat (file_vaddr (?bs from)) + unat (filesz (?bs from)) \<le> 4096 * y"
        using that(3) user_flag by simp_all
      have "32840 \<le> z" using xl that(4) by simp
      note k = add_pages [OF that(1,2) p(1) ue that(5) p(2) this yh p(3,4)]
      show ?thesis using k by (simp add: seg_source_def)
    qed
    show ?thesis
    proof (cases "p_filesz ph = 0")
      case True
      have lh: "?lo < ?hi" using ub ue xy by (simp add: word_less_nat_alt)
      have r: "add_elf_segment (?bs ?lo) conf = (True, conf')" "m' = max m ?hi"
        using a True nx inv load lh by (auto simp: add_load_segment_def Let_def split: prod.splits if_splits)
      note k = bss [OF c r(1) ub order_refl xy]
      have "covers ph [?bs ?lo]" using k xV yV True by (auto simp: covers_def)
      then show ?thesis using k r(2) by auto
    next
      case nz: False
      then have "?F \<noteq> 0" by (simp add: unat_eq_0)
      then have "4096 * x < 4096 * w" using xV wV by linarith
      then have xw: "x < w" by simp
      then have lm: "?lo < ?mid" using ub uf by (simp add: word_less_nat_alt)
      obtain conf1 where d: "add_elf_segment ?ds conf = (True, conf1)"
        and r: "if ?mid < ?hi then add_elf_segment (?bs ?mid) conf1 = (True, conf') \<and> m' = max (max m ?mid) ?hi else conf' = conf1 \<and> m' = max m ?mid"
        using a nz nx inv load lm by (auto simp: add_load_segment_def Let_def split: prod.splits if_splits)
      have p: "unat (sg_vaddr ?ds) = 4096 * x" "memsz ?ds = ?mid - sg_vaddr ?ds" "sg_flags ?ds AND VP_USER \<noteq> 0"
        "filesz ?ds \<noteq> 0 \<longrightarrow> 4096 * x \<le> unat (file_vaddr ?ds) \<and> unat (file_vaddr ?ds) + unat (filesz ?ds) \<le> 4096 * w"
        using ub user_flag xV wV by simp_all
      have "w \<le> 786416" using wy yh by simp
      note k = add_pages [OF c d p(1) uf xw p(2) xl this p(3,4)]
      show ?thesis
      proof (cases "?mid < ?hi")
        case True
        have wy': "w < y" using True uf ue by (simp add: word_less_nat_alt)
        note q = bss [OF k(1) _ uf less_imp_le [OF xw] wy', of conf']
        have q: "conf_ok conf' (max (max m ?mid) ?hi)" "conf' = conf1\<lparr>segments := segments conf1 @ [?bs ?mid]\<rparr>"
          "unat (max m ?mid) \<le> unat (max (max m ?mid) ?hi)" "\<And>a. seg_holds (?bs ?mid) a \<longleftrightarrow> 4096 * w \<le> a \<and> a < 4096 * y" "\<And>a. seg_source (?bs ?mid) a = None"
          using q r True by auto
        have "covers ph [?ds, ?bs ?mid]" using k(3) q(4,5) xV yV wV b(3) by (auto simp: covers_def seg_source_def)
        moreover have "conf' = conf\<lparr>segments := segments conf @ [?ds, ?bs ?mid]\<rparr>" using q(2) k(2) by simp
        moreover have "unat m \<le> unat m'" "conf_ok conf' m'" using q(1,3) k(4) r True by auto
        ultimately show ?thesis by blast
      next
        case False
        then have "w = y" using wy uf ue by (simp add: word_less_nat_alt)
        then have "covers ph [?ds]" using k(3) xV yV b(3) by (auto simp: covers_def seg_source_def)
        then show ?thesis using k r False by auto
      qed
    qed
  qed
qed

text \<open>The program header at index \<open>k\<close> of a file.\<close>

definition header_at :: "bytes \<Rightarrow> u32 \<Rightarrow> nat \<Rightarrow> Elf32_Phdr" where
  "header_at B phoff k = Phdr_of (\<lambda>j. B (unat (phoff + word_of_nat k * SIZEOF_PHDR) + j))"

lemma headers_ok:
  assumes "headers z B phoff n i conf m = Some (conf', m')" and "conf_ok conf m"
  shows "conf_ok conf' m' \<and> unat m \<le> unat m' \<and> (\<exists>new. conf' = conf\<lparr>segments := segments conf @ new\<rparr>) \<and>
    (\<forall>k. i \<le> k \<and> k < i + n \<and> p_type (header_at B phoff k) = PT_LOAD \<and> p_memsz (header_at B phoff k) \<noteq> 0 \<longrightarrow>
       (\<exists>new. set new \<subseteq> set (segments conf') \<and> covers (header_at B phoff k) new))"
  using assms
proof (induction n arbitrary: i conf m)
  case 0
  then show ?case by (auto intro: exI [of _ "[]"])
next
  case (Suc n)
  let ?ph = "header_at B phoff i"
  obtain conf1 m1 where s: "add_load_segment ?ph conf m = (True, conf1, m1)" "headers z B phoff n (i + 1) conf1 m1 = Some (conf', m')"
    using Suc.prems(1) by (auto simp: header_at_def struct_at_def split: option.splits prod.splits if_splits)
  obtain new where one: "conf_ok conf1 m1" "unat m \<le> unat m1" "conf1 = conf\<lparr>segments := segments conf @ new\<rparr>"
      "p_type ?ph = PT_LOAD \<longrightarrow> p_memsz ?ph \<noteq> 0 \<longrightarrow> covers ?ph new"
    using add_load_segment_ok [OF Suc.prems(2) s(1)] by blast
  note ih = Suc.IH [OF s(2) one(1)]
  obtain rest where rest: "conf' = conf1\<lparr>segments := segments conf1 @ rest\<rparr>" using ih by blast
  then have "set new \<subseteq> set (segments conf')" using one(3) by auto
  moreover have "conf' = conf\<lparr>segments := segments conf @ new @ rest\<rparr>" using rest one(3) by simp
  ultimately show ?case using ih one
    by (intro conjI allI impI) (blast, linarith, blast, metis Suc_eq_plus1 add_Suc_right le_eq_less_or_eq less_eq_Suc_le plus_nat.simps(2))
qed

lemma unat_sum: "unat a + unat b < 2 ^ 32 \<Longrightarrow> unat (a + b) = unat a + unat b" for a b :: u32
  by (simp add: unat_add_lem [THEN iffD1])

text \<open>The regions behind the image, as long as their sum does not wrap around.\<close>

lemma layout_regions:
  assumes a: "4096 dvd unat m" "unat m \<le> unat STACK_TOP" and l: "layout_ok (elf_layout m conf)" and w: "unat m < 0xbffe0000"
  shows "heap_begin (elf_layout m conf) = m"
    "unat m + unat HEAP_SIZE = unat (tls_begin (elf_layout m conf))"
    "unat (tls_begin (elf_layout m conf)) + 32 * 4096 = unat (mmap_begin (elf_layout m conf))"
    "unat (mmap_begin (elf_layout m conf)) + unat (mmap_size (elf_layout m conf)) = unat (stack_begin (elf_layout m conf))"
    "0 < unat (mmap_size (elf_layout m conf))"
proof -
  obtain k where k: "unat m = 4096 * k" using a(1) by (auto simp: dvd_def)
  have "(4096 * k + 4095) div 4096 = k" by simp
  then have "unat (align_up m PAGE_SIZE) = unat m" using align_unat(2) [of m] w k by simp
  then have m: "align_up m PAGE_SIZE = m" by (simp add: word_unat_eq_iff)
  then show "heap_begin (elf_layout m conf) = m" by (simp add: elf_layout_def Let_def)
  have t: "tls_begin (elf_layout m conf) = m + HEAP_SIZE" "mmap_begin (elf_layout m conf) = m + HEAP_SIZE + 0x20000"
    "stack_begin (elf_layout m conf) = 0xbfbf0000" "mmap_size (elf_layout m conf) = 0xbfbf0000 - (m + HEAP_SIZE + 0x20000)"
    using m by (simp_all add: elf_layout_def Let_def MAX_THREAD_AMOUNT_def PAGE_SIZE_def STACK_TOP_def STACK_SIZE_def)
  have h: "unat (m + HEAP_SIZE) = unat m + 0x40000000" using w unat_sum [where a = m and b = HEAP_SIZE] by (simp add: HEAP_SIZE_def)
  then show "unat m + unat HEAP_SIZE = unat (tls_begin (elf_layout m conf))" using t by (simp add: HEAP_SIZE_def)
  have mm: "unat (m + HEAP_SIZE + 0x20000) = unat m + 0x40000000 + 0x20000" using w h unat_sum [where a = "m + HEAP_SIZE" and b = "0x20000"] by simp
  then show "unat (tls_begin (elf_layout m conf)) + 32 * 4096 = unat (mmap_begin (elf_layout m conf))" using t h by simp
  have lt: "m + HEAP_SIZE + 0x20000 < (0xbfbf0000 :: u32)" using l t by (simp add: layout_ok_def)
  then have "unat (0xbfbf0000 - (m + HEAP_SIZE + 0x20000)) = unat (0xbfbf0000 :: u32) - unat (m + HEAP_SIZE + 0x20000)"
    by (intro unat_sub less_imp_le)
  then show "unat (mmap_begin (elf_layout m conf)) + unat (mmap_size (elf_layout m conf)) = unat (stack_begin (elf_layout m conf))"
    "0 < unat (mmap_size (elf_layout m conf))"
    using lt t by (simp_all add: word_less_nat_alt)
qed

text \<open>
  \<^bold>\<open>C35\<close>: The image that \<^verbatim>\<open>parseELF\<close> accepts (program.cpp, \<^verbatim>\<open>parseELF\<close>,
  \<^verbatim>\<open>add_elf_segment\<close>).  Its segments are at most eight, made of whole pages between
  \<^verbatim>\<open>USER_VADDR_START\<close> and the heap, and the file part of each lies inside it; every address that a
  load header asks for lies in a segment made for that header, and all of them take its byte from the right
  place of the file, or zero behind the file part; the entry point lies in the image.  Heap, thread storage,
  mapping area and stack follow one another without gap or overlap, for images below 0xbffe0000 (above, the sum
  wraps around).
\<close>

theorem elf_image_sound:
  assumes i: "elf_image z B fd = Some conf"
  shows "length (segments conf) \<le> ELF_SEGMENT_AMOUNT \<and> (\<forall>sg\<in>set (segments conf). seg_ok (heap_begin conf) sg) \<and>
    USER_VADDR_START \<le> c_entry conf \<and> c_entry conf < heap_begin conf \<and>
    (\<forall>k<unat (e_phnum (Ehdr_of B)). let ph = header_at B (e_phoff (Ehdr_of B)) k
       in p_type ph = PT_LOAD \<and> p_memsz ph \<noteq> 0 \<longrightarrow> (\<exists>new. set new \<subseteq> set (segments conf) \<and> covers ph new)) \<and>
    (unat (heap_begin conf) < 0xbffe0000 \<longrightarrow>
       unat (heap_begin conf) + unat HEAP_SIZE = unat (tls_begin conf) \<and>
       unat (tls_begin conf) + 32 * 4096 = unat (mmap_begin conf) \<and>
       unat (mmap_begin conf) + unat (mmap_size conf) = unat (stack_begin conf) \<and> 0 < unat (mmap_size conf) \<and>
       unat (stack_begin conf) + unat STACK_SIZE = unat STACK_TOP)"
proof -
  let ?c0 = "zero_config\<lparr>c_entry := e_entry (Ehdr_of B), source_fd := fd\<rparr>"
  have b: "(\<lambda>j. B (unat (0::u32) + j)) = B" by simp
  obtain c1 m where h: "headers z B (e_phoff (Ehdr_of B)) (unat (e_phnum (Ehdr_of B))) 0 ?c0 USER_VADDR_START = Some (c1, m)"
    and e: "USER_VADDR_START \<le> c_entry c1" "c_entry c1 < m" and l: "layout_ok (elf_layout m c1)" and conf: "conf = elf_layout m c1"
    using i by (auto simp: elf_image_def struct_at_def Let_def bind_eq_Some_conv not_le split: if_splits)
  have "conf_ok ?c0 USER_VADDR_START" by (simp add: conf_ok_def unat_STACK_TOP zero_config_def)
  note k = headers_ok [OF h this]
  have ok: "conf_ok c1 m" using k by blast
  have m: "4096 dvd unat m" "unat m \<le> unat STACK_TOP" using ok by (simp_all add: conf_ok_def)
  have al: "align_up m PAGE_SIZE = m"
  proof -
    obtain j where j: "unat m = 4096 * j" using m(1) by (auto simp: dvd_def)
    have "unat m + 4095 < 2 ^ 32" using m(2) by (simp add: unat_STACK_TOP)
    then have "unat (align_up m PAGE_SIZE) = unat m" using align_unat(2) [of m] j by simp
    then show ?thesis by (simp add: word_unat_eq_iff)
  qed
  have s: "segments conf = segments c1" "c_entry conf = c_entry c1" "heap_begin conf = m" "unat (stack_begin conf) + unat STACK_SIZE = unat STACK_TOP"
    using al by (simp_all add: conf elf_layout_def Let_def STACK_TOP_def STACK_SIZE_def)
  have r: "unat (heap_begin conf) < 0xbffe0000 \<longrightarrow> unat (heap_begin conf) + unat HEAP_SIZE = unat (tls_begin conf) \<and>
       unat (tls_begin conf) + 32 * 4096 = unat (mmap_begin conf) \<and>
       unat (mmap_begin conf) + unat (mmap_size conf) = unat (stack_begin conf) \<and> 0 < unat (mmap_size conf)"
    using layout_regions [OF m l] unfolding s(3) unfolding conf by blast
  have cov: "\<forall>k<unat (e_phnum (Ehdr_of B)). let ph = header_at B (e_phoff (Ehdr_of B)) k
       in p_type ph = PT_LOAD \<and> p_memsz ph \<noteq> 0 \<longrightarrow> (\<exists>new. set new \<subseteq> set (segments conf) \<and> covers ph new)"
    using k unfolding s(1) Let_def by auto
  show ?thesis using ok e r cov s by (auto simp: conf_ok_def)
qed

text \<open>A file of one header, which loads the whole file, as code, to an address.\<close>

definition small_elf :: "u32 \<Rightarrow> bytes" where
  "small_elf v = (\<lambda>i. if i \<in> {24..<28} then ucast (drop_bit (8 * (i - 24)) v)
     else if i \<in> {60..<64} then ucast (drop_bit (8 * (i - 60)) v)
     else case map_of [(0, 0x7f), (1, 0x45), (2, 0x4c), (3, 0x46), (4, 1), (5, 1), (6, 1), (16, 2), (18, 3), (20, 1), (28, 52),
         (42, 32), (44, 1), (52, 1), (68, 84), (72, 84), (76, 5)] i of Some b \<Rightarrow> b | None \<Rightarrow> 0)"

lemma get32_split: "b i = ucast v \<Longrightarrow> b (i + 1) = ucast (drop_bit 8 v) \<Longrightarrow> b (i + 2) = ucast (drop_bit 16 v) \<Longrightarrow>
    b (i + 3) = ucast (drop_bit 24 v) \<Longrightarrow> get32 b i = v"
proof -
  assume a: "b i = ucast v" "b (i + 1) = ucast (drop_bit 8 v)" "b (i + 2) = ucast (drop_bit 16 v)" "b (i + 3) = ucast (drop_bit 24 v)"
  have c: "ucast (drop_bit 8 (ucast w :: u16)) = (ucast (drop_bit 8 w) :: u8)" "ucast (ucast w :: u16) = (ucast w :: u8)" for w :: u32
    by (rule bit_word_eqI; simp add: bit_simps)+
  have "b (Suc (Suc (Suc i))) = ucast (drop_bit 24 v)" using a(4) by (simp add: numeral_3_eq_3)
  then have "get32 b i = get32 (put32 i v b) i"
    using a(1-3) c [of v] c [of "drop_bit 16 v"] by (simp add: get32_def get16_def put32_def put16_def drop_bit_drop_bit)
  then show ?thesis by simp
qed

lemma small_elf_headers:
  "ehdr_valid (Ehdr_of (small_elf v))" "e_entry (Ehdr_of (small_elf v)) = v" "e_phoff (Ehdr_of (small_elf v)) = 52" "e_phnum (Ehdr_of (small_elf v)) = 1"
  "p_type (header_at (small_elf v) 52 0) = PT_LOAD" "p_offset (header_at (small_elf v) 52 0) = 0" "p_vaddr (header_at (small_elf v) 52 0) = v"
  "p_filesz (header_at (small_elf v) 52 0) = 84" "p_memsz (header_at (small_elf v) 52 0) = 84" "p_flags (header_at (small_elf v) 52 0) = 5"
proof -
  have e: "get32 (small_elf v) 24 = v" by (rule get32_split) (simp_all add: small_elf_def)
  then show "e_entry (Ehdr_of (small_elf v)) = v" by (simp add: Ehdr_of_def)
  have "get32 (\<lambda>j. small_elf v (52 + j)) 8 = v" by (rule get32_split) (simp_all add: small_elf_def)
  then show "p_vaddr (header_at (small_elf v) 52 0) = v" by (simp add: header_at_def Phdr_of_def)
  show "ehdr_valid (Ehdr_of (small_elf v))"
  proof -
    have "take 4 (map f [0..<16]) = [f 0, f 1, f 2, f 3]" for f :: bytes by (simp add: take_map upt_conv_Cons numeral_2_eq_2 numeral_3_eq_3)
    then show ?thesis by (simp add: ehdr_valid_def Ehdr_of_def get16_def get32_def small_elf_def SIZEOF_PHDR_def)
  qed
qed (simp_all add: Ehdr_of_def header_at_def Phdr_of_def get16_def get32_def small_elf_def PT_LOAD_def)

text \<open>The one segment of the sample, and where an image at the top of the user space leads.\<close>

definition small_segment :: "u32 \<Rightarrow> ElfSegment" where
  "small_segment v = \<lparr>userSegment = TEXT, sg_vaddr = align_down v PAGE_SIZE, file_vaddr = v,
     memsz = align_up (v + 84) PAGE_SIZE - align_down v PAGE_SIZE, filesz = 84, sg_offset = 0, sg_flags = VP_USER\<rparr>"

definition small_conf :: "u32 \<Rightarrow> ELFConfig" where
  "small_conf v = elf_layout (max USER_VADDR_START (align_up (v + 84) PAGE_SIZE)) (zero_config\<lparr>c_entry := v, source_fd := 3, segments := [small_segment v]\<rparr>)"

lemma small_elf_image:
  assumes "\<not> phdr_invalid (header_at (small_elf v) 52 0)" and "memsz (small_segment v) \<noteq> 0"
    and "USER_VADDR_START \<le> v" and "v < align_up (v + 84) PAGE_SIZE" and "layout_ok (small_conf v)"
  shows "elf_image 84 (small_elf v) 3 = Some (small_conf v)"
proof -
  note h = small_elf_headers [of v]
  have f: "(5 :: u32) AND PF_W = 0" "(5 :: u32) AND PF_X \<noteq> 0" by (simp_all add: PF_W_def PF_X_def)
  have "add_load_segment (header_at (small_elf v) 52 0) (zero_config\<lparr>c_entry := v, source_fd := 3\<rparr>) USER_VADDR_START =
      (True, zero_config\<lparr>c_entry := v, source_fd := 3, segments := [small_segment v]\<rparr>, max USER_VADDR_START (align_up (v + 84) PAGE_SIZE))"
    using assms(1,2) f by (simp add: add_load_segment_def add_elf_segment_def h small_segment_def Let_def zero_config_def ELF_SEGMENT_AMOUNT_def)
  moreover have "struct_at 84 (small_elf v) 52 SIZEOF_PHDR = Some (\<lambda>j. small_elf v (52 + j))" by (simp add: struct_at_def SIZEOF_PHDR_def)
  moreover have "Phdr_of (\<lambda>j. small_elf v (52 + j)) = header_at (small_elf v) 52 0" by (simp add: header_at_def)
  ultimately have "headers 84 (small_elf v) 52 1 0 (zero_config\<lparr>c_entry := v, source_fd := 3\<rparr>) USER_VADDR_START =
      Some (zero_config\<lparr>c_entry := v, source_fd := 3, segments := [small_segment v]\<rparr>, max USER_VADDR_START (align_up (v + 84) PAGE_SIZE))"
    by simp
  moreover have "struct_at 84 (small_elf v) 0 SIZEOF_EHDR = Some (small_elf v)" by (simp add: struct_at_def SIZEOF_EHDR_def)
  ultimately show ?thesis using assms(3-5) h
    by (simp add: elf_image_def Let_def small_conf_def less_max_iff_disj not_le)
qed

lemma small_elf_fits:
  "elf_image 84 (small_elf 0x08048000) 3 = Some (small_conf 0x08048000)"
  "elf_image 84 (small_elf 0xbffef000) 3 = Some (small_conf 0xbffef000)"
  by (rule small_elf_image;
      simp add: phdr_invalid_def small_elf_headers small_segment_def small_conf_def layout_ok_def elf_layout_def Let_def align_up_def
        align_down_def PAGE_SIZE_def USER_VADDR_START_def STACK_TOP_def STACK_SIZE_def HEAP_SIZE_def MAX_THREAD_AMOUNT_def max_def)+

theorem elf_image_sound_witness:
  "\<exists>conf. elf_image 84 (small_elf 0x08048000) 3 = Some conf \<and> c_entry conf < heap_begin conf \<and>
     (\<exists>new. set new \<subseteq> set (segments conf) \<and> covers (header_at (small_elf 0x08048000) 52 0) new)"
  using elf_image_sound [OF small_elf_fits(1)] small_elf_fits(1)
  by (simp add: small_elf_headers Let_def)

text \<open>
  An image that ends at \<^verbatim>\<open>STACK_TOP\<close> passes the check for an overflow of the layout, since the sum
  itself wraps around: the mapping area begins below the image and the heap lies above the stack.
\<close>

theorem layout_check_wraps:
  "elf_image 84 (small_elf 0xbffef000) 3 = Some (small_conf 0xbffef000) \<and> heap_begin (small_conf 0xbffef000) = STACK_TOP \<and>
   mmap_begin (small_conf 0xbffef000) = 0x00010000 \<and> stack_begin (small_conf 0xbffef000) < c_entry (small_conf 0xbffef000)"
  using small_elf_fits(2)
  by (simp add: small_conf_def elf_layout_def Let_def align_up_def PAGE_SIZE_def USER_VADDR_START_def STACK_TOP_def STACK_SIZE_def
      HEAP_SIZE_def MAX_THREAD_AMOUNT_def max_def)

section \<open>The reader computes the image\<close>

lemma Ehdr_of_cong: "\<forall>j<52. b j = b' j \<Longrightarrow> Ehdr_of b = Ehdr_of b'"
  by (simp add: Ehdr_of_def get32_def get16_def)

lemma Phdr_of_cong: "\<forall>j<32. b j = b' j \<Longrightarrow> Phdr_of b = Phdr_of b'"
  by (simp add: Phdr_of_def get32_def get16_def)

text \<open>A file that is open and holds the bytes \<open>B\<close>; reads and moves keep it so.\<close>

definition holds_file :: "FileManager \<Rightarrow> nat \<Rightarrow> nat \<Rightarrow> nat \<Rightarrow> u16 list \<Rightarrow> nat \<Rightarrow> bytes \<Rightarrow> u32 \<Rightarrow> bool" where
  "holds_file fm fd slot i cs z B off \<longleftrightarrow> open_at fm fd slot i cs off \<and> unat (file_size_at fm slot i) = z \<and> unat off \<le> z \<and>
     (\<forall>j<z. contents (slot_fs fm slot) cs j = B j)"

lemma holds_small: "holds_file fm fd slot i cs z B off \<Longrightarrow> z < 2 ^ 31"
  by (auto simp: holds_file_def open_at_def open_file_def file_size_at_def)

lemma seek_holds:
  assumes h: "holds_file fm fd slot i cs z B off"
  shows "if unat pos < 2 ^ 31 \<and> unat pos \<le> z
    then \<exists>fm'. io_seek (int fd) pos (fm, k, s) = Some (int (unat pos), fm', k, s) \<and> holds_file fm' fd slot i cs z B pos
    else io_seek (int fd) pos (fm, k, s) = Some (- 1, fm, k, s)"
proof -
  have o: "open_at fm fd slot i cs off" and z: "unat (file_size_at fm slot i) = z" and f: "unat off \<le> unat (file_size_at fm slot i)"
    and c: "\<forall>j<z. contents (slot_fs fm slot) cs j = B j" using h by (simp_all add: holds_file_def)
  have t: "seek_base 0 off (file_size_at fm slot i) = Some 0" by (simp add: seek_base_def)
  have w: "word_of_int (sint pos) = pos" by (simp add: signed_scast_eq scast_id)
  have f: "if 0 \<le> sint pos \<and> sint pos \<le> int (unat (file_size_at fm slot i))
    then fm_fseek (int fd) pos 0 fm = Some (sint pos, set_offset fd pos fm) \<and> open_at (set_offset fd pos fm) fd slot i cs pos
    else fm_fseek (int fd) pos 0 fm = Some (- 1, fm)"
    using fseek_ok [OF o f, of pos 0] unfolding t option.case by (simp only: unat_0 int_ops(1) add_0_left w)
  show ?thesis
  proof (cases "unat pos < 2 ^ 31 \<and> unat pos \<le> z")
    case True
    then have p: "sint pos = int (unat pos)" by (simp add: sint_small)
    have "fm_fseek (int fd) pos 0 fm = Some (int (unat pos), set_offset fd pos fm) \<and> open_at (set_offset fd pos fm) fd slot i cs pos"
    proof -
      have g: "0 \<le> int (unat pos) \<and> int (unat pos) \<le> int z" using True by (simp only: of_nat_0_le_iff of_nat_le_iff)
      show ?thesis using f unfolding p z if_P [OF g] .
    qed
    then show ?thesis using True z c by (auto simp: io_seek_def holds_file_def file_size_at_def slot_fs_def set_offset_def)
  next
    case False
    have "\<not> (0 \<le> sint pos \<and> sint pos \<le> int z)"
    proof
      assume a: "0 \<le> sint pos \<and> sint pos \<le> int z"
      have "uint pos = take_bit 32 (sint pos)" using uint_sint [of pos] by simp
      also have "\<dots> = sint pos" using a sint_lt [of pos] by (simp add: take_bit_int_eq_self)
      finally have "uint pos = sint pos" .
      then have "int (unat pos) = sint pos" by simp
      then have "int (unat pos) \<le> int z \<and> int (unat pos) < int (2 ^ 31)" using a sint_lt [of pos] by (simp only:) simp
      then have "unat pos \<le> z \<and> unat pos < 2 ^ 31" by (simp only: of_nat_le_iff of_nat_less_iff)
      then show False using False by simp
    qed
    then have "fm_fseek (int fd) pos 0 fm = Some (- 1, fm)" using f unfolding z by (simp only: if_False)
    then show ?thesis unfolding if_not_P [OF False] by (simp add: io_seek_def)
  qed
qed

lemma struct_holds:
  assumes h: "holds_file fm fd slot i cs z B off" and sz: "0 < unat sz" "unat sz < 2 ^ 31"
  shows "\<exists>r fm' off'. io_struct (int fd) sz (fm, k, s) = Some (r, fm', k, s) \<and> holds_file fm' fd slot i cs z B off' \<and>
    (r \<noteq> None \<longleftrightarrow> unat off + unat sz \<le> z) \<and> (\<forall>b. r = Some b \<longrightarrow> (\<forall>j<unat sz. b j = B (unat off + j)))"
proof -
  have o: "open_at fm fd slot i cs off" and z: "unat (file_size_at fm slot i) = z" and f: "unat off \<le> unat (file_size_at fm slot i)"
    and c: "\<forall>j<z. contents (slot_fs fm slot) cs j = B j" using h by (simp_all add: holds_file_def)
  obtain m fm' out where r: "fm_read (int fd) (Some (\<lambda>_. 0)) sz [] (fm, k, s) = Some (int m, Some out, fm', k, s)"
    "m = span sz off (file_size_at fm slot i)" "\<forall>j<m. out j = contents (slot_fs fm slot) cs (unat off + j)"
    "open_at fm' fd slot i cs (off + word_of_nat m)" "same_files (slot_fs fm slot) (slot_fs fm' slot)"
    using read_at_offset [OF o sz f, of "\<lambda>_. 0" "[]" k s] by auto
  have m: "m = min (unat sz) (z - unat off)" using r(2) z by (simp add: span_def)
  have ss: "sint sz = int (unat sz)" using sz(2) by (rule sint_small)
  have full: "int m = sint sz \<longleftrightarrow> unat off + unat sz \<le> z" unfolding ss of_nat_eq_iff m using sz(1) f z by linarith
  have fs: "io_ok (slot_fs fm slot)" "open_file (slot_fs fm slot) i cs" using o by (simp_all add: open_at_def)
  have z31: "z < 2 ^ 31" by (rule holds_small [OF h])
  have "unat (word_of_nat m :: u32) = m" using m z31 by (simp add: unat_of_nat take_bit_eq_mod)
  then have u: "unat (off + word_of_nat m) = unat off + m" using m z31 f z by (subst unat_sum) auto
  have zz: "file_size_at fm' slot i = file_size_at fm slot i" "z \<le> length cs * bsize (slot_fs fm slot)"
    using same_files_open(2) [OF r(5) fs(2)] fs(2) z by (simp_all add: file_size_at_def open_file_def)
  have "contents (slot_fs fm' slot) cs j = B j" if "j < z" for j
    using files_but_contents [OF r(5), of "ino_start_cluster (inode (slot_fs fm slot) i)" cs j] fs that zz(2) c by (simp add: open_file_def)
  then have "holds_file fm' fd slot i cs z B (off + word_of_nat m)" using r(4) zz(1) z u m f by (auto simp: holds_file_def)
  moreover have "io_struct (int fd) sz (fm, k, s) = Some (if int m = sint sz then Some out else None, fm', k, s)"
    using r(1) by (simp add: io_struct_def)
  moreover have "\<forall>j<unat sz. out j = B (unat off + j)" if "int m = sint sz"
  proof -
    have "m = unat sz" using that full m by auto
    then show ?thesis using r(3) c full that by simp
  qed
  ultimately show ?thesis using full by (intro exI conjI) auto
qed

lemma loop_holds:
  assumes "holds_file fm fd slot i cs z B off"
  shows "\<exists>ok conf' m' fm' off'. phdr_loop (int fd) phoff n k conf m (fm, kb, sc) = Some (ok, conf', m', fm', kb, sc) \<and>
    holds_file fm' fd slot i cs z B off' \<and> headers z B phoff n k conf m = (if ok then Some (conf', m') else None)"
  using assms
proof (induction n arbitrary: k conf m fm off)
  case (Suc n)
  define pos where "pos = phoff + word_of_nat k * SIZEOF_PHDR"
  have sz: "unat SIZEOF_PHDR = 32" by (simp add: SIZEOF_PHDR_def)
  show ?case
  proof (cases "unat pos < 2 ^ 31 \<and> unat pos \<le> z")
    case True
    then obtain fm1 where s: "io_seek (int fd) pos (fm, kb, sc) = Some (int (unat pos), fm1, kb, sc)" "holds_file fm1 fd slot i cs z B pos"
      using seek_holds [OF Suc.prems, of pos kb sc] by (auto simp del: uint_nat)
    obtain r fm2 off2 where r: "io_struct (int fd) SIZEOF_PHDR (fm1, kb, sc) = Some (r, fm2, kb, sc)" "holds_file fm2 fd slot i cs z B off2"
        "r \<noteq> None \<longleftrightarrow> unat pos + 32 \<le> z" "\<forall>b. r = Some b \<longrightarrow> (\<forall>j<32. b j = B (unat pos + j))"
      using struct_holds [OF s(2), of SIZEOF_PHDR kb sc] sz by auto
    have st: "struct_at z B pos SIZEOF_PHDR = (if r = None then None else Some (\<lambda>j. B (unat pos + j)))"
      using r(3) True sz by (auto simp: struct_at_def)
    show ?thesis
    proof (cases r)
      case None
      then have "phdr_loop (int fd) phoff (Suc n) k conf m (fm, kb, sc) = Some (False, conf, m, fm2, kb, sc)"
        using s(1) r(1) by (simp add: pos_def [symmetric])
      moreover have "headers z B phoff (Suc n) k conf m = None" using st None by (simp add: pos_def [symmetric])
      ultimately show ?thesis using r(2) by auto
    next
      case (Some b)
      have p: "Phdr_of b = Phdr_of (\<lambda>j. B (unat pos + j))" using r(4) Some by (intro Phdr_of_cong) simp
      obtain ok conf1 m1 where a: "add_load_segment (Phdr_of b) conf m = (ok, conf1, m1)" by (cases "add_load_segment (Phdr_of b) conf m") auto
      have l: "phdr_loop (int fd) phoff (Suc n) k conf m (fm, kb, sc) =
          (if ok then phdr_loop (int fd) phoff n (k + 1) conf1 m1 (fm2, kb, sc) else Some (False, conf1, m1, fm2, kb, sc))"
        using s(1) r(1) Some a by (simp add: pos_def [symmetric])
      have hd: "headers z B phoff (Suc n) k conf m = (if ok then headers z B phoff n (k + 1) conf1 m1 else None)"
        using st Some a by (simp add: pos_def [symmetric] p)
      show ?thesis
      proof (cases ok)
        case True
        then show ?thesis using Suc.IH [OF r(2), of "k + 1" conf1 m1] unfolding l hd by simp
      next
        case False
        then show ?thesis using r(2) unfolding l hd by auto
      qed
    qed
  next
    case False
    have "io_seek (int fd) pos (fm, kb, sc) = Some (- 1, fm, kb, sc)"
      using seek_holds [OF Suc.prems, of pos kb sc] unfolding if_not_P [OF False] .
    then have "phdr_loop (int fd) phoff (Suc n) k conf m (fm, kb, sc) = Some (False, conf, m, fm, kb, sc)" by (simp add: pos_def [symmetric])
    moreover have "headers z B phoff (Suc n) k conf m = None" using False by (auto simp: struct_at_def pos_def [symmetric])
    ultimately show ?thesis using Suc.prems by auto
  qed
qed auto

text \<open>
  \<^bold>\<open>C36\<close>: \<^verbatim>\<open>parseELF\<close> computes the image of the file (program.cpp, \<^verbatim>\<open>parseELF\<close>; file_manager.cpp,
  \<^verbatim>\<open>fseek\<close>, \<^verbatim>\<open>read\<close>).  On an open file that holds the bytes \<open>B\<close>, through the file system, its cache
  and the disk driver, the reader returns exactly the configuration that \<open>elf_image\<close> gives for \<open>B\<close>, and leaves the
  file open and unchanged for the loader; when \<open>elf_image\<close> refuses \<open>B\<close> (a header that is cut off or wrong, a
  segment outside user space, too many segments, a bad entry point, no room for the heap), it closes the file and
  returns a configuration with entry 0 and no file.
\<close>

theorem parseELF_computes_image:
  assumes "holds_file fm fd slot i cs z B 0"
  shows "\<exists>fm' off c. holds_file fm' fd slot i cs z B off \<and> c_entry c = 0 \<and> source_fd c = - 1 \<and>
    read_image (int fd) (fm, kb, sc) = (case elf_image z B (int fd) of
        Some conf \<Rightarrow> Some (conf, fm', kb, sc)
      | None \<Rightarrow> map_option (Pair c) (io_close (int fd) (fm', kb, sc)))"
proof -
  have sz: "unat SIZEOF_EHDR = 52" by (simp add: SIZEOF_EHDR_def)
  obtain r fm1 off1 where r: "io_struct (int fd) SIZEOF_EHDR (fm, kb, sc) = Some (r, fm1, kb, sc)" "holds_file fm1 fd slot i cs z B off1"
      "r \<noteq> None \<longleftrightarrow> 52 \<le> z" "\<forall>b. r = Some b \<longrightarrow> (\<forall>j<52. b j = B j)"
    using struct_holds [OF assms, of SIZEOF_EHDR kb sc] sz by auto
  have st: "struct_at z B 0 SIZEOF_EHDR = (if r = None then None else Some B)" using r(3) sz by (auto simp: struct_at_def)
  let ?e = "zero_config\<lparr>source_fd := - 1\<rparr>"
  have e: "c_entry ?e = 0 \<and> source_fd ?e = - 1" by (simp add: zero_config_def)
  have close: "io_close (int fd) io \<bind> (\<lambda>io. Some (c, io)) = map_option (Pair c) (io_close (int fd) io)" for c :: ELFConfig and io
    by (cases "io_close (int fd) io") auto
  show ?thesis
  proof (cases r)
    case None
    then have "read_image (int fd) (fm, kb, sc) = map_option (Pair ?e) (io_close (int fd) (fm1, kb, sc))" "elf_image z B (int fd) = None"
      using r(1) st close by (simp_all add: read_image_def elf_image_def Let_def)
    then show ?thesis using r(2) e by (intro exI [of _ fm1] exI [of _ off1] exI [of _ ?e]) simp
  next
    case (Some b)
    have eh: "Ehdr_of b = Ehdr_of B" using r(4) Some by (intro Ehdr_of_cong) simp
    show ?thesis
    proof (cases "ehdr_valid (Ehdr_of B)")
      case False
      then have "read_image (int fd) (fm, kb, sc) = map_option (Pair ?e) (io_close (int fd) (fm1, kb, sc))" "elf_image z B (int fd) = None"
        using r(1) st Some eh close by (simp_all add: read_image_def elf_image_def Let_def)
      then show ?thesis using r(2) e by (intro exI [of _ fm1] exI [of _ off1] exI [of _ ?e]) simp
    next
      case True
      let ?c0 = "zero_config\<lparr>c_entry := e_entry (Ehdr_of B), source_fd := int fd\<rparr>"
      have c0: "?e\<lparr>c_entry := e_entry (Ehdr_of B), entry_in_kernel := 0, source_fd := int fd\<rparr> = ?c0" by (simp add: zero_config_def)
      obtain ok c1 m fm2 off2 where l: "phdr_loop (int fd) (e_phoff (Ehdr_of B)) (unat (e_phnum (Ehdr_of B))) 0 ?c0 USER_VADDR_START (fm1, kb, sc) =
            Some (ok, c1, m, fm2, kb, sc)" "holds_file fm2 fd slot i cs z B off2"
          "headers z B (e_phoff (Ehdr_of B)) (unat (e_phnum (Ehdr_of B))) 0 ?c0 USER_VADDR_START = (if ok then Some (c1, m) else None)"
        using loop_holds [OF r(2), of "e_phoff (Ehdr_of B)" "unat (e_phnum (Ehdr_of B))" 0 ?c0 USER_VADDR_START kb sc] by blast
      define bad where "bad = (segments c1 = [] \<or> c_entry c1 < USER_VADDR_START \<or> m \<le> c_entry c1)"
      let ?l = "elf_layout m c1"
      have rd: "read_image (int fd) (fm, kb, sc) = (if \<not> ok \<or> bad then elf_fail (int fd) c1 (fm2, kb, sc)
          else if \<not> layout_ok ?l then elf_fail (int fd) ?l (fm2, kb, sc) else Some (?l, fm2, kb, sc))"
        using r(1) Some True l(1) unfolding read_image_def by (simp add: eh c0 Let_def bad_def)
      have im: "elf_image z B (int fd) = (if \<not> ok \<or> bad \<or> \<not> layout_ok ?l then None else Some ?l)"
        using st Some True l(3) unfolding elf_image_def by (simp add: Let_def bad_def)
      have fail: "elf_fail (int fd) c (fm2, kb, sc) = map_option (Pair (c\<lparr>source_fd := - 1, c_entry := 0\<rparr>)) (io_close (int fd) (fm2, kb, sc))" for c
        by (simp add: elf_fail_def close)
      define c where "c = (if \<not> ok \<or> bad then c1 else ?l)\<lparr>source_fd := - 1, c_entry := 0\<rparr>"
      have "c_entry c = 0" "source_fd c = - 1" by (simp_all add: c_def)
      then show ?thesis using l(2) unfolding rd im
        by (intro exI [of _ fm2] exI [of _ off2] exI [of _ c]) (auto simp: fail c_def)
    qed
  qed
qed

text \<open>The sample image in a file of a volume, open at descriptor 3.\<close>

definition elf_fs :: FAT12_FS where
  "elf_fs = two_cluster_fs\<lparr>inodepool := (inodepool blank_fs)\<lparr>inodes := (\<lambda>_. zero_inode\<lparr>fat12_fs := 1, ino_size := 84, ino_start_cluster := 2\<rparr>)\<rparr>,
     disks := (\<lambda>_. blank_channel\<lparr>defect := (\<lambda>_ _. False), media := (\<lambda>_ l k. if l = 8 then small_elf 0x08048000 k else 0)\<rparr>)\<rparr>"

definition elf_fm :: FileManager where
  "elf_fm = reading_fm\<lparr>fileSystems := (\<lambda>_. elf_fs), fm_disks := disks elf_fs\<rparr>"

lemma elf_fs_facts:
  "io_ok elf_fs" "open_file elf_fs i [2, 3]" "k < 84 \<Longrightarrow> contents elf_fs [2, 3] k = small_elf 0x08048000 k"
proof -
  show "io_ok elf_fs"
    by (simp add: io_ok_def cache_idle_def volume_ok_def no_aliases_def clean_slot_def valid_cluster_def bsize_def elf_fs_def two_cluster_fs_def
      blank_fs_def blank_bpb_def ide_ok_def bad_sector_def blank_channel_def IDE_WAIT_RETRY_def)
  show "open_file elf_fs i [2, 3]"
    by (simp add: open_file_def inode_def valid_cluster_def fat_next_def bsize_def elf_fs_def two_cluster_fs_def blank_fs_def blank_bpb_def
      zero_inode_def attr_defs)
  assume k: "k < 84"
  have "cluster_view elf_fs c = disk_cluster elf_fs c" if "c \<noteq> 0" for c
    using that by (intro cluster_view_uncached) (simp add: elf_fs_def two_cluster_fs_def blank_fs_def)
  then show "contents elf_fs [2, 3] k = small_elf 0x08048000 k" using k
    by (auto simp: contents_def bsize_def elf_fs_def two_cluster_fs_def blank_fs_def blank_bpb_def disk_cluster_def Fat12_Table.run_def sector_def clus_lba_def)
qed

theorem parseELF_computes_image_witness:
  "\<exists>fm' off. read_image 3 (elf_fm, fresh_keyboard, full_screen) = Some (small_conf 0x08048000, fm', fresh_keyboard, full_screen) \<and>
     holds_file fm' 3 0 0 [2, 3] 84 (small_elf 0x08048000) off"
proof -
  have s: "slot_fs elf_fm 0 = elf_fs" by (simp add: slot_fs_def elf_fm_def)
  have "this elf_fs = 1" by (simp add: elf_fs_def two_cluster_fs_def blank_fs_def)
  then have "open_at elf_fm 3 0 0 [2, 3] 0" unfolding open_at_def s
    by (simp add: elf_fs_facts elf_fm_def reading_fm_def one_open_fm_def one_open_def Let_def zero_openfile_def MAX_FD_COUNT_def)
  moreover have "file_size_at elf_fm 0 0 = 84" unfolding file_size_at_def s by (simp add: inode_def elf_fs_def)
  ultimately have "holds_file elf_fm 3 0 0 [2, 3] 84 (small_elf 0x08048000) 0"
    using elf_fs_facts(3) by (simp add: holds_file_def s)
  then show ?thesis using parseELF_computes_image [of elf_fm 3 0 0 "[2, 3]" 84 "small_elf 0x08048000" fresh_keyboard full_screen] small_elf_fits(1)
    by auto
qed

end
