(* ===== verification/Exec_Args.thy ===== *)
theory Exec_Args
  imports Elf
begin

text \<open>
  The arguments of \<^verbatim>\<open>execve\<close> (\<^verbatim>\<open>src/kernel/program.cpp\<close>): the check and the copy into the page
  \<^verbatim>\<open>argv\<close> of a program, and the first frame of its user stack.  The page is a map from the
  row to its string; the frame is a list of byte writes.  The theorem at the end says that what the caller
  passed is what the program finds above its stack pointer.
\<close>

section \<open>Arguments\<close>

definition MAX_ARGC_COUNT :: nat where "MAX_ARGC_COUNT = 16"
definition MAX_ARGV_LENGTH :: int where "MAX_ARGV_LENGTH = 128"

fun arg_len_loop :: "cstr \<Rightarrow> int \<Rightarrow> int" where
  "arg_len_loop [] len = len"
| "arg_len_loop (c # str) len = (if MAX_ARGV_LENGTH \<le> len + 1 then - 1 else arg_len_loop str (len + 1))"

definition exec_arg_strlen :: "cstr option \<Rightarrow> int" where
  "exec_arg_strlen str = (case str of None \<Rightarrow> - 1 | Some t \<Rightarrow> arg_len_loop t 0)"

definition clear_process_args :: "PCB \<Rightarrow> PCB" where
  "clear_process_args p = (if p_argv p = 0 then p else p\<lparr>p_argc := 0, p_args := (\<lambda>_. [])\<rparr>)"

fun arg_loop :: "nat \<Rightarrow> nat \<Rightarrow> (nat \<Rightarrow> cstr option) \<Rightarrow> PCB \<Rightarrow> bool \<times> PCB" where
  "arg_loop 0 i argv p = (True, p)"
| "arg_loop (Suc n) i argv p =
     (case argv i of
        None \<Rightarrow> (True, p)
      | Some str \<Rightarrow>
          if exec_arg_strlen (Some str) < 0 then (False, p)
          else arg_loop n (i + 1) argv (p\<lparr>p_args := (p_args p)(i := str), p_argc := p_argc p + 1\<rparr>))"

definition copy_exec_args :: "cstr option \<Rightarrow> (nat \<Rightarrow> cstr option) option \<Rightarrow> PCB \<Rightarrow> bool \<times> PCB" where
  "copy_exec_args filename argv p =
     (if p_argv p = 0 then (False, p)
      else let p = clear_process_args p in
        case argv of
          Some args \<Rightarrow>
            if args 0 \<noteq> None then
              let (ok, p) = arg_loop MAX_ARGC_COUNT 0 args p
              in if \<not> ok then (False, p)
                 else if p_argc p = int MAX_ARGC_COUNT \<and> args MAX_ARGC_COUNT \<noteq> None then (False, p) else (True, p)
            else (case filename of
                None \<Rightarrow> (False, p)
              | Some str \<Rightarrow> if exec_arg_strlen filename < 0 then (False, p) else (True, p\<lparr>p_args := (p_args p)(0 := str), p_argc := 1\<rparr>))
        | None \<Rightarrow> (case filename of
                None \<Rightarrow> (False, p)
              | Some str \<Rightarrow> if exec_arg_strlen filename < 0 then (False, p) else (True, p\<lparr>p_args := (p_args p)(0 := str), p_argc := 1\<rparr>)))"

text \<open>Writes into the address space of the program, byte by byte, in order.\<close>

type_synonym writes = "(u32 \<times> u8) list"

definition str_writes :: "u32 \<Rightarrow> cstr \<Rightarrow> writes" where
  "str_writes sp str = map (\<lambda>i. (sp + word_of_nat i, (str @ [0]) ! i)) [0..<length str + 1]"

definition word_writes :: "u32 \<Rightarrow> u32 \<Rightarrow> writes" where
  "word_writes sp w = map (\<lambda>i. (sp + word_of_nat i, ucast (drop_bit (8 * i) w))) [0..<4]"

text \<open>The strings from the last to the first, then the words; \<open>argv_user\<close> collects the addresses.\<close>

fun push_strings :: "nat \<Rightarrow> PCB \<Rightarrow> u32 \<times> (nat \<Rightarrow> u32) \<times> writes \<Rightarrow> u32 \<times> (nat \<Rightarrow> u32) \<times> writes" where
  "push_strings 0 p st = st"
| "push_strings (Suc i) p (sp, argv_user, ws) =
     (let sp = sp - word_of_nat (length (p_args p i) + 1)
      in push_strings i p (sp, argv_user(i := sp), ws @ str_writes sp (p_args p i)))"

fun push_pointers :: "nat \<Rightarrow> (nat \<Rightarrow> u32) \<Rightarrow> u32 \<times> writes \<Rightarrow> u32 \<times> writes" where
  "push_pointers 0 argv_user st = st"
| "push_pointers (Suc i) argv_user (sp, ws) =
     (let sp = sp - 4 in push_pointers i argv_user (sp, ws @ word_writes sp (argv_user i)))"

definition push_exec_args_to_user_stack :: "u32 \<Rightarrow> PCB option \<Rightarrow> u32 \<times> writes" where
  "push_exec_args_to_user_stack k_exit process =
     (let argc = (case process of None \<Rightarrow> 0 | Some p \<Rightarrow> p_argc p);
          argc = (if argc < 0 then 0 else argc);
          argc = (if int MAX_ARGC_COUNT < argc then int MAX_ARGC_COUNT else argc);
          (sp, argv_user, ws) = push_strings (nat argc) (case process of None \<Rightarrow> zero_pcb | Some p \<Rightarrow> p) (STACK_TOP - 4, \<lambda>_. 0, []);
          sp = sp AND NOT 3;
          sp = sp - 4;
          ws = ws @ word_writes sp 0;
          (sp, ws) = push_pointers (nat argc) argv_user (sp, ws);
          argv_ptr = sp;
          sp = sp - 4;
          ws = ws @ word_writes sp argv_ptr;
          sp = sp - 4;
          ws = ws @ word_writes sp (word_of_int argc);
          sp = sp - 4
      in (sp, ws @ word_writes sp k_exit))"

section \<open>Delivering the arguments\<close>

definition apply_writes :: "writes \<Rightarrow> (u32 \<Rightarrow> u8) \<Rightarrow> u32 \<Rightarrow> u8" where
  "apply_writes ws m = fold (\<lambda>(a, v) m. m(a := v)) ws m"

lemma apply_writes_append [simp]: "apply_writes (ws @ vs) m = apply_writes vs (apply_writes ws m)"
  by (simp add: apply_writes_def)

text \<open>A block of \<open>n\<close> bytes at \<open>sp\<close> that does not wrap around.\<close>

lemma apply_block:
  assumes "unat sp + n < 2 ^ 32"
  shows "apply_writes (map (\<lambda>i. (sp + word_of_nat i, f i)) [0..<n]) m a =
    (if unat sp \<le> unat a \<and> unat a < unat sp + n then f (unat a - unat sp) else m a)"
  using assms
proof (induction n)
  case (Suc n)
  have "unat (sp + word_of_nat n) = unat sp + n" using Suc.prems by (subst unat_sum) (simp_all add: unat_of_nat take_bit_eq_mod)
  then have "a = sp + word_of_nat n \<longleftrightarrow> unat a = unat sp + n" by (simp add: word_unat_eq_iff)
  then show ?case using Suc by (auto simp: less_Suc_eq) (simp add: apply_writes_def)+
qed (auto simp: apply_writes_def)

definition str_at :: "(u32 \<Rightarrow> u8) \<Rightarrow> nat \<Rightarrow> cstr \<Rightarrow> bool" where
  "str_at m x str \<longleftrightarrow> (\<forall>j\<le>length str. m (word_of_nat (x + j)) = (str @ [0]) ! j)"

definition word_at :: "(u32 \<Rightarrow> u8) \<Rightarrow> nat \<Rightarrow> u32 \<Rightarrow> bool" where
  "word_at m x w \<longleftrightarrow> (\<forall>j<4. m (word_of_nat (x + j)) = ucast (drop_bit (8 * j) w))"

lemma unat_nat: "x < 2 ^ 32 \<Longrightarrow> unat (word_of_nat x :: u32) = x"
  by (simp add: unat_of_nat take_bit_eq_mod)

lemma str_writes_effect:
  assumes "unat sp + length str + 1 < 2 ^ 32"
  shows "apply_writes (str_writes sp str) m a = (if unat sp \<le> unat a \<and> unat a < unat sp + length str + 1 then (str @ [0]) ! (unat a - unat sp) else m a)"
    "str_at (apply_writes (str_writes sp str) m) (unat sp) str"
proof -
  show e: "apply_writes (str_writes sp str) m a = (if unat sp \<le> unat a \<and> unat a < unat sp + length str + 1 then (str @ [0]) ! (unat a - unat sp) else m a)" for a
    using apply_block [of sp "length str + 1" "(!) (str @ [0])" m a] assms by (simp add: str_writes_def del: upt_Suc)
  have "unat (word_of_nat (unat sp + j) :: u32) = unat sp + j" if "j \<le> length str" for j
    using that assms by (intro unat_nat) simp
  then show "str_at (apply_writes (str_writes sp str) m) (unat sp) str" unfolding str_at_def e by simp
qed

lemma word_writes_effect:
  assumes "unat sp + 4 < 2 ^ 32"
  shows "unat a < unat sp \<or> unat sp + 4 \<le> unat a \<Longrightarrow> apply_writes (word_writes sp w) m a = m a"
    "word_at (apply_writes (word_writes sp w) m) (unat sp) w"
proof -
  have e: "apply_writes (word_writes sp w) m a = (if unat sp \<le> unat a \<and> unat a < unat sp + 4 then ucast (drop_bit (8 * (unat a - unat sp)) w) else m a)" for a
    using apply_block [of sp 4 "\<lambda>i. ucast (drop_bit (8 * i) w)" m a] assms by (simp add: word_writes_def del: upt_Suc)
  then show "unat a < unat sp \<or> unat sp + 4 \<le> unat a \<Longrightarrow> apply_writes (word_writes sp w) m a = m a" by auto
  have "unat (word_of_nat (unat sp + j) :: u32) = unat sp + j" if "j < 4" for j
    using that assms by (intro unat_nat) simp
  then show "word_at (apply_writes (word_writes sp w) m) (unat sp) w" unfolding word_at_def e by simp
qed

text \<open>Memory that is kept from an address on, or below one.\<close>

lemma str_at_keep: "str_at m x str \<Longrightarrow> x + length str < 2 ^ 32 \<Longrightarrow> \<forall>a. x \<le> unat a \<longrightarrow> m' a = m a \<Longrightarrow> str_at m' x str"
proof -
  assume a: "str_at m x str" "x + length str < 2 ^ 32" "\<forall>a. x \<le> unat a \<longrightarrow> m' a = m a"
  have "m' (word_of_nat (x + j)) = m (word_of_nat (x + j))" if "j \<le> length str" for j
    using a(3) unat_nat [of "x + j"] a(2) that by (simp del: of_nat_add)
  then show ?thesis using a(1) by (simp add: str_at_def del: of_nat_add)
qed

lemma word_at_keep: "word_at m x w \<Longrightarrow> x + 4 < 2 ^ 32 \<Longrightarrow> \<forall>a. x \<le> unat a \<longrightarrow> m' a = m a \<Longrightarrow> word_at m' x w"
proof -
  assume a: "word_at m x w" "x + 4 < 2 ^ 32" "\<forall>a. x \<le> unat a \<longrightarrow> m' a = m a"
  have "m' (word_of_nat (x + j)) = m (word_of_nat (x + j))" if "j < 4" for j
    using a(3) unat_nat [of "x + j"] a(2) that by (simp del: of_nat_add)
  then show ?thesis using a(1) by (simp add: word_at_def del: of_nat_add)
qed

lemma push_strings_effect:
  assumes "push_strings i p (sp, av, ws) = (sp', av', ws')" and "\<forall>k<i. length (p_args p k) < 128" and "128 * i \<le> unat sp" and "unat sp < 2 ^ 32 - 1"
  shows "unat sp' \<le> unat sp \<and> unat sp \<le> unat sp' + 128 * i \<and> (\<forall>k\<ge>i. av' k = av k) \<and>
    (\<forall>a. unat sp \<le> unat a \<or> unat a < unat sp' \<longrightarrow> apply_writes ws' m a = apply_writes ws m a) \<and>
    (\<forall>k<i. unat sp' \<le> unat (av' k) \<and> unat (av' k) + length (p_args p k) + 1 \<le> unat sp \<and> str_at (apply_writes ws' m) (unat (av' k)) (p_args p k))"
  using assms
proof (induction i arbitrary: sp av ws)
  case (Suc i)
  let ?str = "p_args p i"
  define s1 where "s1 = sp - word_of_nat (length ?str + 1)"
  let ?av = "av(i := s1)" and ?ws = "ws @ str_writes s1 ?str"
  have len: "length ?str < 128" using Suc.prems(2) by simp
  then have "unat (word_of_nat (length ?str + 1) :: u32) = length ?str + 1" by (intro unat_nat) simp
  moreover have "(word_of_nat (length ?str + 1) :: u32) \<le> sp"
    using calculation len Suc.prems(3) unfolding word_le_nat_alt by simp
  ultimately have u: "unat s1 + length ?str + 1 = unat sp" unfolding s1_def by (subst unat_sub) (simp_all add: word_le_nat_alt)
  have r: "push_strings i p (s1, ?av, ?ws) = (sp', av', ws')" using Suc.prems(1) by (simp add: s1_def Let_def)
  have "128 * i \<le> unat s1" using u len Suc.prems(3) by simp
  moreover have "unat s1 < 2 ^ 32 - 1" using u Suc.prems(4) by simp
  ultimately have ih: "unat sp' \<le> unat s1 \<and> unat s1 \<le> unat sp' + 128 * i \<and> (\<forall>k\<ge>i. av' k = ?av k) \<and>
    (\<forall>a. unat s1 \<le> unat a \<or> unat a < unat sp' \<longrightarrow> apply_writes ws' m a = apply_writes ?ws m a) \<and>
    (\<forall>k<i. unat sp' \<le> unat (av' k) \<and> unat (av' k) + length (p_args p k) + 1 \<le> unat s1 \<and> str_at (apply_writes ws' m) (unat (av' k)) (p_args p k))"
    using Suc.prems(2) by (intro Suc.IH [OF r]) simp_all
  have b: "unat s1 + length ?str + 1 < 2 ^ 32" using u Suc.prems(4) by simp
  note e = str_writes_effect(1) [OF b, where m = "apply_writes ws m"] str_writes_effect(2) [OF b, where m = "apply_writes ws m"]
  have k: "\<forall>a. unat s1 \<le> unat a \<longrightarrow> apply_writes ws' m a = apply_writes ?ws m a" using ih by blast
  have "str_at (apply_writes ws' m) (unat s1) ?str"
    by (rule str_at_keep [OF _ _ k]) (use e(2) b in simp_all)
  moreover have "av' i = s1" using ih by simp
  moreover have "apply_writes ws' m a = apply_writes ws m a" if "unat sp \<le> unat a \<or> unat a < unat sp'" for a
  proof -
    have "apply_writes ws' m a = apply_writes ?ws m a" using ih that u by auto
    then show ?thesis using that u ih by (simp add: e(1)) linarith
  qed
  ultimately show ?case using ih u len by (auto simp: less_Suc_eq)
qed auto

lemma push_pointers_effect:
  assumes "push_pointers i av (sp, ws) = (sp', ws')" and "4 * i \<le> unat sp" and "unat sp < 2 ^ 32 - 4"
  shows "unat sp' + 4 * i = unat sp \<and> (\<forall>a. unat sp \<le> unat a \<or> unat a < unat sp' \<longrightarrow> apply_writes ws' m a = apply_writes ws m a) \<and>
    (\<forall>k<i. word_at (apply_writes ws' m) (unat sp' + 4 * k) (av k))"
  using assms
proof (induction i arbitrary: sp ws)
  case (Suc i)
  define s1 where "s1 = sp - 4"
  let ?ws = "ws @ word_writes s1 (av i)"
  have u: "unat s1 + 4 = unat sp" unfolding s1_def using Suc.prems(2) by (subst unat_sub) (simp_all add: word_le_nat_alt)
  have r: "push_pointers i av (s1, ?ws) = (sp', ws')" using Suc.prems(1) by (simp add: s1_def Let_def)
  have ih: "unat sp' + 4 * i = unat s1 \<and> (\<forall>a. unat s1 \<le> unat a \<or> unat a < unat sp' \<longrightarrow> apply_writes ws' m a = apply_writes ?ws m a) \<and>
    (\<forall>k<i. word_at (apply_writes ws' m) (unat sp' + 4 * k) (av k))"
    using Suc.IH [OF r] Suc.prems u by simp
  have b: "unat s1 + 4 < 2 ^ 32" using u Suc.prems(3) by simp
  note e = word_writes_effect(1) [OF b, where w = "av i" and m = "apply_writes ws m"]
  have k: "\<forall>a. unat s1 \<le> unat a \<longrightarrow> apply_writes ws' m a = apply_writes ?ws m a" using ih by blast
  have "word_at (apply_writes ws' m) (unat s1) (av i)"
    by (rule word_at_keep [OF _ b k]) (use word_writes_effect(2) [OF b] in simp)
  moreover have "unat s1 = unat sp' + 4 * i" using ih by simp
  moreover have "apply_writes ws' m a = apply_writes ws m a" if "unat sp \<le> unat a \<or> unat a < unat sp'" for a
  proof -
    have "apply_writes ws' m a = apply_writes ?ws m a" using ih that u by auto
    moreover have "unat a < unat s1 \<or> unat s1 + 4 \<le> unat a" using that u ih by linarith
    ultimately show ?thesis using e(1) by simp
  qed
  moreover have "word_at (apply_writes ws' m) (unat sp' + 4 * k) (av k)" if "k < Suc i" for k
  proof (cases "k = i")
    case True
    then show ?thesis using calculation(1,2) by simp
  next
    case False
    then have "k < i" using that by simp
    then show ?thesis using ih by blast
  qed
  moreover have "unat sp' + 4 * Suc i = unat sp" using ih u by simp
  ultimately show ?case by blast
qed simp

text \<open>
  The first frame of a program: return address, \<^verbatim>\<open>argc\<close>, \<^verbatim>\<open>argv\<close>, the pointers with a null pointer behind
  them, and above them the strings, all inside the page at the top of the stack.
\<close>

definition user_frame :: "(u32 \<Rightarrow> u8) \<Rightarrow> u32 \<Rightarrow> u32 \<Rightarrow> cstr list \<Rightarrow> bool" where
  "user_frame m sp k_exit strs \<longleftrightarrow> 4 dvd unat sp \<and> unat STACK_TOP - 4096 \<le> unat sp \<and>
     word_at m (unat sp) k_exit \<and> word_at m (unat sp + 4) (word_of_nat (length strs)) \<and> word_at m (unat sp + 8) (sp + 12) \<and>
     word_at m (unat sp + 12 + 4 * length strs) 0 \<and>
     (\<exists>av. \<forall>k<length strs. word_at m (unat sp + 12 + 4 * k) (av k) \<and> str_at m (unat (av k)) (strs ! k) \<and>
        unat sp + 16 + 4 * length strs \<le> unat (av k) \<and> unat (av k) + length (strs ! k) + 1 \<le> unat STACK_TOP - 4)"

lemma push_word:
  assumes "4 \<le> unat sp" and "unat sp < 2 ^ 32 - 4"
  shows "unat (sp - 4) + 4 = unat sp" "word_at (apply_writes (ws @ word_writes (sp - 4) w) m) (unat (sp - 4)) w"
    "\<forall>a. unat sp \<le> unat a \<or> unat a < unat (sp - 4) \<longrightarrow> apply_writes (ws @ word_writes (sp - 4) w) m a = apply_writes ws m a"
proof -
  show u: "unat (sp - 4) + 4 = unat sp" using assms(1) by (subst unat_sub) (simp_all add: word_le_nat_alt)
  have b: "unat (sp - 4) + 4 < 2 ^ 32" using u assms(2) by simp
  show "word_at (apply_writes (ws @ word_writes (sp - 4) w) m) (unat (sp - 4)) w" using word_writes_effect(2) [OF b] by simp
  show "\<forall>a. unat sp \<le> unat a \<or> unat a < unat (sp - 4) \<longrightarrow> apply_writes (ws @ word_writes (sp - 4) w) m a = apply_writes ws m a"
    using word_writes_effect(1) [OF b] u by auto
qed

lemma align4: "unat (w AND NOT 3) = unat w div 4 * 4" for w :: u32
proof -
  have m: "(3 :: u32) = mask 2" by (simp add: mask_eq_exp_minus_1)
  have "w AND NOT (mask 2) = push_bit 2 (drop_bit 2 w)"
    by (rule bit_word_eqI) (auto simp: bit_simps not_le simp del: add_2_eq_Suc add_2_eq_Suc')
  then have "unat (w AND NOT (mask 2)) = unat (push_bit 2 (drop_bit 2 w))" by (simp only:)
  also have "\<dots> = take_bit LENGTH(32) (push_bit 2 (unat (drop_bit 2 w)))" by (simp only: unsigned_push_bit_eq)
  also have "\<dots> = (unat w div 4 * 4) mod 2 ^ 32" by (simp only: unat_drop_div push_bit_eq_mult take_bit_eq_mod) simp
  also have "\<dots> = unat w div 4 * 4" using unat_bound [of w] div_times_less_eq_dividend [of "unat w" 4] by simp
  finally show ?thesis by (simp add: m)
qed

lemma push_frame:
  assumes p: "p_argc p = int n" "n \<le> MAX_ARGC_COUNT" "\<forall>k<n. length (p_args p k) < 128"
    and f: "push_exec_args_to_user_stack e (Some p) = (sp, ws)"
  shows "user_frame (apply_writes ws m) sp e (map (p_args p) [0..<n])"
    and "\<forall>a. unat a < unat sp \<or> unat STACK_TOP - 4 \<le> unat a \<longrightarrow> apply_writes ws m a = m a"
proof -
  have n: "n \<le> 16" using p(2) by (simp add: MAX_ARGC_COUNT_def)
  obtain s0 av w0 where s0: "push_strings n p (STACK_TOP - 4, \<lambda>_. 0, []) = (s0, av, w0)" by (metis prod_cases3)
  define s1 where "s1 = s0 AND NOT 3"
  define w1 where "w1 = w0 @ word_writes (s1 - 4) 0"
  obtain s2 w2 where s2: "push_pointers n av (s1 - 4, w1) = (s2, w2)" by fastforce
  define w3 where "w3 = w2 @ word_writes (s2 - 4) s2"
  define w4 where "w4 = w3 @ word_writes (s2 - 4 - 4) (word_of_nat n)"
  define w5 where "w5 = w4 @ word_writes (s2 - 4 - 4 - 4) e"
  have c: "(if int (MAX_ARGC_COUNT) < (if int n < 0 then 0 else int n) then int MAX_ARGC_COUNT else if int n < 0 then 0 else int n) = int n"
    using n by (simp add: MAX_ARGC_COUNT_def)
  have r: "sp = s2 - 4 - 4 - 4" "ws = w5"
    using f s0 s2 unfolding push_exec_args_to_user_stack_def Let_def option.case p(1) c prod.case nat_int s1_def w1_def w3_def w4_def w5_def
    by auto
  have top: "unat (STACK_TOP - 4) = 3221159932" "unat STACK_TOP = 3221159936" by (simp_all add: STACK_TOP_def)
  note S = push_strings_effect [OF s0 p(3), of m, unfolded top]
  have S: "unat s0 \<le> 3221159932" "3221159932 \<le> unat s0 + 128 * n" "\<forall>a. 3221159932 \<le> unat a \<longrightarrow> apply_writes w0 m a = m a"
      "\<forall>a. unat a < unat s0 \<longrightarrow> apply_writes w0 m a = m a"
      "\<forall>k<n. unat s0 \<le> unat (av k) \<and> unat (av k) + length (p_args p k) + 1 \<le> 3221159932 \<and> str_at (apply_writes w0 m) (unat (av k)) (p_args p k)"
    using S n by (simp_all add: apply_writes_def)
  have u1: "unat s1 \<le> unat s0" "unat s0 < unat s1 + 4" "4 dvd unat s1"
    unfolding s1_def align4 using div_mult_mod_eq [of "unat s0" 4] mod_less_divisor [of 4 "unat s0"] by (linarith, linarith, simp)
  have b1: "4 \<le> unat s1" "unat s1 < 2 ^ 32 - 4" using S(1,2) u1 n by simp_all
  note Z = push_word(1) [OF b1] push_word(2,3) [OF b1, of w0 0 m, folded w1_def]
  have b2: "4 * n \<le> unat (s1 - 4)" "unat (s1 - 4) < 2 ^ 32 - 4" using Z(1) S(1,2) u1 n by simp_all
  note P = push_pointers_effect [OF s2 b2, of m]
  have u2: "unat s2 + 4 * n + 4 = unat s1" using P Z(1) by simp
  have b3: "4 \<le> unat s2" "unat s2 < 2 ^ 32 - 4" using u2 S(1,2) u1 n by simp_all
  note A = push_word(1) [OF b3] push_word(2,3) [OF b3, of w2 s2 m, folded w3_def]
  have b4: "4 \<le> unat (s2 - 4)" "unat (s2 - 4) < 2 ^ 32 - 4" using A(1) u2 S(1,2) u1 n by simp_all
  note C = push_word(1) [OF b4] push_word(2,3) [OF b4, of w3 "word_of_nat n" m, folded w4_def]
  have b5: "4 \<le> unat (s2 - 4 - 4)" "unat (s2 - 4 - 4) < 2 ^ 32 - 4" using C(1) A(1) u2 S(1,2) u1 n by simp_all
  note E = push_word(1) [OF b5] push_word(2,3) [OF b5, of w4 e m, folded w5_def]
  have usp: "unat sp + 12 = unat s2" using A(1) C(1) E(1) r(1) by simp
  have q4: "unat (s2 - 4) = unat sp + 8" and q8: "unat (s2 - 4 - 4) = unat sp + 4" using A(1) C(1) E(1) r(1) by simp_all
  have top3: "unat sp + 12 < 2 ^ 32 - 4" using usp b3(2) by simp
  text \<open>What is written later lies below.\<close>
  have k5: "\<forall>a. unat sp + 4 \<le> unat a \<longrightarrow> apply_writes ws m a = apply_writes w4 m a" using E r by auto
  have k4: "\<forall>a. unat sp + 8 \<le> unat a \<longrightarrow> apply_writes ws m a = apply_writes w3 m a" using k5 C E(1) r by auto
  have k3: "\<forall>a. unat sp + 12 \<le> unat a \<longrightarrow> apply_writes ws m a = apply_writes w2 m a" using k4 A usp C(1) E(1) r by auto
  have k2: "\<forall>a. unat s1 - 4 \<le> unat a \<longrightarrow> apply_writes ws m a = apply_writes w1 m a" using k3 P usp u2 Z(1) by auto
  have k1: "\<forall>a. unat s1 \<le> unat a \<longrightarrow> apply_writes ws m a = apply_writes w0 m a" using k2 Z(3) by auto
  have W: "word_at (apply_writes ws m) (unat sp) e" using E(2) r by simp
  have W4: "word_at (apply_writes ws m) (unat sp + 4) (word_of_nat n)"
    by (rule word_at_keep [OF C(2), unfolded q8]) (use k5 top3 in auto)
  have W8: "word_at (apply_writes ws m) (unat sp + 8) (sp + 12)"
  proof -
    have e: "sp + 12 = s2" using r(1) by simp
    show ?thesis unfolding e by (rule word_at_keep [OF A(2), unfolded q4]) (use k4 top3 in auto)
  qed
  have W0: "word_at (apply_writes ws m) (unat sp + 12 + 4 * n) 0"
  proof -
    have q: "unat (s1 - 4) = unat sp + 12 + 4 * n" using Z(1) usp u2 by simp
    have q': "unat s1 - 4 = unat sp + 12 + 4 * n" using Z(1) q by simp
    show ?thesis by (rule word_at_keep [OF Z(2), unfolded q]) (use k2 q' q b1(2) Z(1) in auto)
  qed
  have AV: "word_at (apply_writes ws m) (unat sp + 12 + 4 * k) (av k) \<and> str_at (apply_writes ws m) (unat (av k)) (p_args p k) \<and>
        unat sp + 16 + 4 * n \<le> unat (av k) \<and> unat (av k) + length (p_args p k) + 1 \<le> unat STACK_TOP - 4" if "k < n" for k
  proof -
    have "word_at (apply_writes w2 m) (unat s2 + 4 * k) (av k)" using P that by blast
    then have "word_at (apply_writes ws m) (unat s2 + 4 * k) (av k)"
      by (rule word_at_keep) (use that u2 b1(2) k3 usp in auto)
    moreover have s: "unat s0 \<le> unat (av k)" "unat (av k) + length (p_args p k) + 1 \<le> 3221159932" "str_at (apply_writes w0 m) (unat (av k)) (p_args p k)"
      using S(5) that by auto
    moreover have "str_at (apply_writes ws m) (unat (av k)) (p_args p k)"
      by (rule str_at_keep [OF s(3)]) (use s k1 u1(1) in auto)
    ultimately show ?thesis using usp u2 u1(1) unfolding top by simp
  qed
  have "4 dvd unat sp"
  proof -
    obtain j where "unat s1 = 4 * j" using u1(3) by (auto simp: dvd_def)
    then have "unat sp = 4 * (j - n - 4)" using usp u2 by simp
    then show ?thesis by simp
  qed
  moreover have "unat STACK_TOP - 4096 \<le> unat sp" using usp u2 u1 S(2) n unfolding top by simp
  ultimately show "user_frame (apply_writes ws m) sp e (map (p_args p) [0..<n])"
    using W W4 W8 W0 AV unfolding user_frame_def by (simp del: unat_0 of_nat_0) blast
  show "\<forall>a. unat a < unat sp \<or> unat STACK_TOP - 4 \<le> unat a \<longrightarrow> apply_writes ws m a = m a"
  proof (intro allI impI, elim disjE)
    fix a :: u32 assume a: "unat a < unat sp"
    have "apply_writes ws m a = apply_writes w4 m a" using E(3) a r by auto
    also have "\<dots> = apply_writes w3 m a" using C(3) a E(1) r by auto
    also have "\<dots> = apply_writes w2 m a" using A(3) a C(1) E(1) r by auto
    also have "\<dots> = apply_writes w1 m a" using P a usp by auto
    also have "\<dots> = apply_writes w0 m a" using Z(3) Z(1) a usp u2 by auto
    also have "\<dots> = m a" using S(4) a usp u2 u1(1) by auto
    finally show "apply_writes ws m a = m a" .
  next
    fix a :: u32 assume a: "unat STACK_TOP - 4 \<le> unat a"
    then show "apply_writes ws m a = m a" using k1 S(1,3) u1(1) unfolding top by auto
  qed
qed

lemma arg_len_loop_neg: "0 \<le> len \<Longrightarrow> len < 128 \<Longrightarrow> (arg_len_loop str len < 0) = (128 \<le> len + int (length str))"
  by (induction str len rule: arg_len_loop.induct) (auto simp: MAX_ARGV_LENGTH_def)

lemma arg_strlen_neg: "(exec_arg_strlen (Some str) < 0) = (128 \<le> length str)"
  using arg_len_loop_neg [of 0 str] by (simp add: exec_arg_strlen_def)

lemma arg_loop_result:
  assumes "\<forall>k<length strs. argv k = Some (strs ! k)" "argv (length strs) = None" "p_argc p = int i" "i \<le> length strs"
    and "arg_loop n i argv p = (ok, p')"
  shows "ok = (\<forall>k. i \<le> k \<and> k < min (i + n) (length strs) \<longrightarrow> length (strs ! k) < 128) \<and>
    (ok \<longrightarrow> p_argc p' = int (min (i + n) (length strs)) \<and> (\<forall>k. i \<le> k \<and> k < min (i + n) (length strs) \<longrightarrow> p_args p' k = strs ! k) \<and>
      (\<forall>k<i. p_args p' k = p_args p k))"
  using assms
proof (induction n arbitrary: i p)
  case (Suc n)
  show ?case
  proof (cases "i < length strs")
    case False
    then have "ok" "p' = p" using Suc.prems by auto
    then show ?thesis using Suc.prems False by auto
  next
    case True
    note a = Suc.prems(1) [rule_format, OF True]
    show ?thesis
    proof (cases "128 \<le> length (strs ! i)")
      case bad: True
      then have "\<not> ok" using Suc.prems(5) a by (simp add: arg_strlen_neg)
      then show ?thesis using bad True by (intro conjI) auto
    next
      case good: False
      let ?q = "p\<lparr>p_args := (p_args p)(i := strs ! i), p_argc := p_argc p + 1\<rparr>"
      have r: "arg_loop n (i + 1) argv ?q = (ok, p')" using Suc.prems(5) a good by (simp add: arg_strlen_neg)
      have ih: "ok = (\<forall>k. i + 1 \<le> k \<and> k < min (i + 1 + n) (length strs) \<longrightarrow> length (strs ! k) < 128) \<and>
        (ok \<longrightarrow> p_argc p' = int (min (i + 1 + n) (length strs)) \<and>
          (\<forall>k. i + 1 \<le> k \<and> k < min (i + 1 + n) (length strs) \<longrightarrow> p_args p' k = strs ! k) \<and> (\<forall>k<i + 1. p_args p' k = p_args ?q k))"
        by (rule Suc.IH [OF Suc.prems(1,2) _ _ r]) (use Suc.prems(3) True in simp_all)
      have e: "i \<le> k \<and> k < min (i + Suc n) (length strs) \<longleftrightarrow> k = i \<or> i + 1 \<le> k \<and> k < min (i + 1 + n) (length strs)" for k
        using True by auto
      have "ok = (\<forall>k. i \<le> k \<and> k < min (i + Suc n) (length strs) \<longrightarrow> length (strs ! k) < 128)" unfolding e using ih good by auto
      moreover have "p_argc p' = int (min (i + Suc n) (length strs))" if ok using ih that by simp
      moreover have "\<forall>k. i \<le> k \<and> k < min (i + Suc n) (length strs) \<longrightarrow> p_args p' k = strs ! k" if ok unfolding e using ih that by auto
      moreover have "\<forall>k<i. p_args p' k = p_args p k" if ok using ih that by simp
      ultimately show ?thesis by blast
    qed
  qed
qed auto

lemma copy_exec_args_result:
  assumes "p_argv p \<noteq> 0" "strs \<noteq> []" "\<forall>k<length strs. argv k = Some (strs ! k)" "argv (length strs) = None"
    and "copy_exec_args filename (Some argv) p = (ok, p')"
  shows "ok = (length strs \<le> 16 \<and> (\<forall>s\<in>set strs. length s < 128))"
    and "ok \<Longrightarrow> p_argc p' = int (length strs) \<and> (\<forall>k<length strs. p_args p' k = strs ! k)"
proof -
  have a0: "argv 0 \<noteq> None" using assms(2,3) by auto
  obtain ok1 p1 where l: "arg_loop MAX_ARGC_COUNT 0 argv (clear_process_args p) = (ok1, p1)" by fastforce
  have R: "ok1 = (\<forall>k. k < min 16 (length strs) \<longrightarrow> length (strs ! k) < 128) \<and>
    (ok1 \<longrightarrow> p_argc p1 = int (min 16 (length strs)) \<and> (\<forall>k. k < min 16 (length strs) \<longrightarrow> p_args p1 k = strs ! k))"
    using arg_loop_result [OF assms(3,4) _ _ l] assms(1) by (simp add: clear_process_args_def MAX_ARGC_COUNT_def)
  have c: "(ok, p') = (if \<not> ok1 then (False, p1) else if p_argc p1 = 16 \<and> argv 16 \<noteq> None then (False, p1) else (True, p1))"
    using assms(1,5) a0 l by (auto simp: copy_exec_args_def MAX_ARGC_COUNT_def split: if_splits)
  show o: "ok = (length strs \<le> 16 \<and> (\<forall>s\<in>set strs. length s < 128))"
  proof (cases "length strs \<le> 16")
    case True
    then have m: "min 16 (length strs) = length strs" by simp
    have "\<not> (p_argc p1 = 16 \<and> argv 16 \<noteq> None)" if ok1 using R that assms(4) unfolding m by auto
    then show ?thesis using c R True unfolding m all_set_conv_all_nth by (auto split: if_splits)
  next
    case False
    then have m: "min 16 (length strs) = 16" by simp
    have "argv 16 = Some (strs ! 16)" using assms(3) False by simp
    then show ?thesis using c R False unfolding m by (auto split: if_splits)
  qed
  assume ok
  then have "min 16 (length strs) = length strs" "p' = p1" ok1 using o c by (auto split: if_splits)
  then show "p_argc p' = int (length strs) \<and> (\<forall>k<length strs. p_args p' k = strs ! k)" using R by simp
qed

text \<open>
  \<^bold>\<open>C37\<close>: The arguments of \<^verbatim>\<open>execve\<close> reach the program (program.cpp, \<^verbatim>\<open>copy_exec_args\<close>,
  \<^verbatim>\<open>push_exec_args_to_user_stack\<close>).  A vector of at least one argument is accepted exactly when it has at most 16 entries of
  fewer than 128 characters; then the first frame, which lies in the one page of stack that is mapped in advance,
  starts with the address of \<^verbatim>\<open>k_exit\<close>, \<^verbatim>\<open>argc\<close> and the address of a null-terminated vector of pointers to copies of exactly
  these strings, none of which overlaps the frame; no byte outside the frame and its strings is written.
\<close>

theorem exec_arguments_delivered:
  assumes "p_argv p \<noteq> 0" and "strs \<noteq> []" and "\<forall>k<length strs. argv k = Some (strs ! k)" and "argv (length strs) = None"
    and "copy_exec_args filename (Some argv) p = (ok, p')" and "push_exec_args_to_user_stack k_exit (Some p') = (sp, ws)"
  shows "ok = (length strs \<le> 16 \<and> (\<forall>s\<in>set strs. length s < 128)) \<and>
    (ok \<longrightarrow> user_frame (apply_writes ws m) sp k_exit strs \<and>
      (\<forall>a. unat a < unat sp \<or> unat STACK_TOP - 4 \<le> unat a \<longrightarrow> apply_writes ws m a = m a))"
proof -
  note c = copy_exec_args_result [OF assms(1-5)]
  have "user_frame (apply_writes ws m) sp k_exit strs \<and>
      (\<forall>a. unat a < unat sp \<or> unat STACK_TOP - 4 \<le> unat a \<longrightarrow> apply_writes ws m a = m a)" if ok
  proof -
    have n: "length strs \<le> MAX_ARGC_COUNT" "\<forall>k<length strs. length (p_args p' k) < 128" "p_argc p' = int (length strs)"
      using c that by (auto simp: MAX_ARGC_COUNT_def)
    have "map (p_args p') [0..<length strs] = strs" using c(2) [OF that] by (intro nth_equalityI) simp_all
    then show ?thesis using push_frame [OF n(3,1,2) assms(6), of m] by simp
  qed
  then show ?thesis using c(1) by blast
qed

theorem exec_arguments_delivered_witness:
  "\<exists>p' sp ws. copy_exec_args None (Some (\<lambda>k. if k = 0 then Some [99, 97, 116] else if k = 1 then Some [120] else None)) (zero_pcb\<lparr>p_argv := 1\<rparr>) = (True, p') \<and>
     push_exec_args_to_user_stack 77 (Some p') = (sp, ws) \<and> user_frame (apply_writes ws (\<lambda>_. 0)) sp 77 [[99, 97, 116], [120]]"
proof -
  let ?argv = "\<lambda>k. if k = 0 then Some [99, 97, 116] else if k = 1 then Some [120] else None :: cstr option"
  obtain ok p' where c: "copy_exec_args None (Some ?argv) (zero_pcb\<lparr>p_argv := 1\<rparr>) = (ok, p')" by fastforce
  obtain sp ws where f: "push_exec_args_to_user_stack 77 (Some p') = (sp, ws)" by fastforce
  have "\<forall>k<length [[99, 97, 116], [120]]. ?argv k = Some ([[99, 97, 116], [120]] ! k)" by (auto simp: less_Suc_eq)
  from exec_arguments_delivered [OF _ _ this _ c f, of "\<lambda>_. 0"] show ?thesis using c f by auto
qed

end
