(* ===== verification/Process_Pages.thy ===== *)
theory Process_Pages
  imports Exec_Args
begin

text \<open>
  The address space of a program (\<^verbatim>\<open>src/kernel/program.cpp\<close>): its page directory, the pages of
  its image, and the copy-on-write pages of a fork.  The page tables of a program that is not running are
  reached through the temporary mapping; a directory lies in the kernel half of every address space.
  \<open>None\<close> is a kernel that stops, as in the theory \<open>Memory_Manager\<close>.
\<close>

section \<open>The file manager for the running program\<close>

definition fm_of :: "OS \<Rightarrow> FileManager" where
  "fm_of os = (os_fm os)\<lparr>current := map_option (\<lambda>r. p_fs (pcbs os r)) (run os)\<rparr>"

definition put_fm :: "FileManager \<Rightarrow> OS \<Rightarrow> OS" where
  "put_fm fm os = (case (run os, current fm) of
       (Some r, Some q) \<Rightarrow> upd_pcb r (\<lambda>c. c\<lparr>p_fs := q\<rparr>) (os\<lparr>os_fm := fm\<rparr>)
     | _ \<Rightarrow> os\<lparr>os_fm := fm\<rparr>)"

definition with_io :: "(io \<Rightarrow> ('a \<times> io) option) \<Rightarrow> OS \<Rightarrow> ('a \<times> OS) option" where
  "with_io f os = map_option (\<lambda>(a, fm, k, s). (a, (put_fm fm os)\<lparr>os_keyboard := k, os_screen := s\<rparr>))
     (f (fm_of os, os_keyboard os, os_screen os))"

definition run_mm :: "(MM \<Rightarrow> MM option) \<Rightarrow> OS \<Rightarrow> OS option" where
  "run_mm f os = map_option snd (with_mm (\<lambda>mm. map_option (Pair ()) (f mm)) os)"

definition os_close :: "int \<Rightarrow> OS \<Rightarrow> OS option" where
  "os_close fd os = map_option snd (with_io (\<lambda>io. map_option (Pair ()) (io_close fd io)) os)"

section \<open>Words in pages\<close>

definition PDE_RESERVE :: u32 where "PDE_RESERVE = 0xE07"
definition PTE_ANON_VADDR :: u32 where "PTE_ANON_VADDR = 0xff"

definition store_words :: "u32 \<Rightarrow> nat \<Rightarrow> (nat \<Rightarrow> u32) \<Rightarrow> MM \<Rightarrow> MM option" where
  "store_words base n w s = fold (\<lambda>i r. r \<bind> store (base + word_of_nat i * 4) (w i)) [0..<n] (Some s)"

definition copy_words :: "u32 \<Rightarrow> u32 \<Rightarrow> nat \<Rightarrow> MM \<Rightarrow> MM option" where
  "copy_words dst src n s = fold (\<lambda>i r. do { s \<leftarrow> r; w \<leftarrow> load (src + word_of_nat i * 4) s; store (dst + word_of_nat i * 4) w s }) [0..<n] (Some s)"

text \<open>One byte of user memory.\<close>

definition store_byte :: "u32 \<Rightarrow> u8 \<Rightarrow> MM \<Rightarrow> MM option" where
  "store_byte va b s = do {
     let sh = 8 * unat (va AND 3);
     w \<leftarrow> load (va AND NOT 3) s;
     store (va AND NOT 3) ((w AND NOT (push_bit sh 0xff)) OR push_bit sh (ucast b)) s
   }"

definition do_writes :: "writes \<Rightarrow> MM \<Rightarrow> MM option" where
  "do_writes ws s = fold (\<lambda>(a, b) r. r \<bind> store_byte a b) ws (Some s)"

section \<open>Page directories\<close>

definition createProcessPageDirectory :: "u16 \<Rightarrow> MM \<Rightarrow> (u32 \<times> MM) option" where
  "createProcessPageDirectory owner s = do {
     (vaddr, s) \<leftarrow> allocatePageDirTable owner s;
     if vaddr = 0 then Some (0, s)
     else do {
       s \<leftarrow> clear_table vaddr s;
       s \<leftarrow> copy_words (vaddr + 0x300 * 4) (0xfffff000 + 0x300 * 4) 256 s;
       pa \<leftarrow> vaddr2paddr vaddr s;
       s \<leftarrow> store (vaddr + 1023 * 4) (pa OR PDE_RESERVE) s;
       Some (vaddr, s)
     }
   }"

section \<open>Pages of an image\<close>

definition update_boundary :: "u32 \<Rightarrow> u32 \<Rightarrow> Boundary \<Rightarrow> Boundary" where
  "update_boundary st en b =
     (if b_end b < b_start b then \<lparr>b_start = st, b_end = en\<rparr>
      else \<lparr>b_start = min (b_start b) st, b_end = max (b_end b) en\<rparr>)"

text \<open>The directory entry and the page-table entry of a page, the latter as a physical address.\<close>

definition pde_ptr :: "u32 \<Rightarrow> u32 \<Rightarrow> u32" where
  "pde_ptr pgdir vaddr = pgdir + drop_bit 22 vaddr * 4"

definition pte_phys :: "u32 \<Rightarrow> u32 \<Rightarrow> u32" where
  "pte_phys d vaddr = (d AND PTE_GET_ADDRESS) + (drop_bit 12 vaddr AND 0x3ff) * 4"

definition map_process_page :: "u32 \<Rightarrow> u16 \<Rightarrow> u32 \<Rightarrow> u32 \<Rightarrow> u8 \<Rightarrow> MM \<Rightarrow> (bool \<times> MM) option" where
  "map_process_page pgdir pid vaddr paddr flags s = do {
     let pde = pde_ptr pgdir vaddr;
     d \<leftarrow> load pde s;
     (ok, s) \<leftarrow>
       (if d AND PDE_PRESENT = 0 then do {
          (tbl, s) \<leftarrow> allocatePageTable s;
          if tbl = 0 then Some (False, s)
          else do {
            s \<leftarrow> store pde (tbl OR PDE_USER) s;
            (tv, s) \<leftarrow> mapTemp KERNEL tbl s;
            if tv = 0 then Some (False, s)
            else do { s \<leftarrow> clear_table tv s; s \<leftarrow> unmapTemp KERNEL s; Some (True, s) }
          }
        }
        else Some (True, s));
     if \<not> ok then Some (False, s)
     else do {
       d \<leftarrow> load pde s;
       let pte_pa = pte_phys d vaddr;
       (pv, s) \<leftarrow> mapTemp KERNEL pte_pa s;
       if pv = 0 then Some (False, s)
       else do {
         e \<leftarrow> load pv s;
         if e AND PTE_PRESENT \<noteq> 0 then do { s \<leftarrow> unmapTemp KERNEL s; Some (False, s) }
         else do {
           s \<leftarrow> store pv (paddr OR vPageFlags2PTE flags OR PTE_PRESENT) s;
           s \<leftarrow> MM_PDEinc pde s;
           s \<leftarrow> unmapTemp KERNEL s;
           (idx, s) \<leftarrow> attach_page paddr pte_pa PTE_ANON_VADDR pid s;
           if idx = - 1 then do {
             (pv, s) \<leftarrow> mapTemp KERNEL pte_pa s;
             s \<leftarrow> (if pv \<noteq> 0 then do { s \<leftarrow> store pv 0 s; unmapTemp KERNEL s } else Some s);
             (_, s) \<leftarrow> MM_PDEdec pde s;
             Some (False, s)
           }
           else Some (True, s)
         }
       }
     }
   }"

definition release_process_page :: "u32 \<Rightarrow> u16 \<Rightarrow> u32 \<Rightarrow> MM \<Rightarrow> (bool \<times> MM) option" where
  "release_process_page pgdir pid vaddr s = do {
     let pde = pde_ptr pgdir vaddr;
     d \<leftarrow> load pde s;
     if d AND PDE_PRESENT = 0 then Some (False, s)
     else do {
       let pte_pa = pte_phys d vaddr;
       (pv, s) \<leftarrow> mapTemp KERNEL pte_pa s;
       if pv = 0 then Some (False, s)
       else do {
         e \<leftarrow> load pv s;
         if e AND PTE_PRESENT = 0 then do { s \<leftarrow> unmapTemp KERNEL s; Some (False, s) }
         else do {
           let paddr = e AND PTE_GET_ADDRESS;
           s \<leftarrow> store pv 0 s;
           s \<leftarrow> unmapTemp KERNEL s;
           (_, s) \<leftarrow> detach_page paddr pte_pa pid s;
           s \<leftarrow> releasePhysicalPages USER paddr 1 s;
           (_, s) \<leftarrow> MM_PDEdec pde s;
           Some (True, s)
         }
       }
     }
   }"

text \<open>The pages of a segment; both bounds are page aligned, so the loop over them ends exactly at the upper one.\<close>

definition page_range :: "u32 \<Rightarrow> u32 \<Rightarrow> u32 list" where
  "page_range b e = map (\<lambda>i. b + word_of_nat i * PAGE_SIZE) [0..<(unat e - unat b) div 4096]"

definition segment_pages :: "ElfSegment \<Rightarrow> u32 list" where
  "segment_pages sg = page_range (align_down (sg_vaddr sg) PAGE_SIZE) (align_up (sg_vaddr sg + memsz sg) PAGE_SIZE)"

definition rollback_loaded_segments :: "u32 \<Rightarrow> u16 \<Rightarrow> ELFConfig \<Rightarrow> MM \<Rightarrow> MM option" where
  "rollback_loaded_segments pgdir pid conf s =
     fold (\<lambda>v r. do { s \<leftarrow> r; (_, s) \<leftarrow> release_process_page pgdir pid v s; Some s })
       (concat (map segment_pages (segments conf))) (Some s)"

definition load_segment_page :: "int \<Rightarrow> ElfSegment \<Rightarrow> u32 \<Rightarrow> u32 \<Rightarrow> u32 \<Rightarrow> OS \<Rightarrow> (bool \<times> OS) option" where
  "load_segment_page fd sg page_vaddr page_paddr io_buffer os =
     (if io_buffer = 0 then Some (False, os)
      else do {
        os \<leftarrow> run_mm (clear_table io_buffer) os;
        let seg_file_begin = file_vaddr sg;
        let seg_file_end = file_vaddr sg + filesz sg;
        let copy_begin = max page_vaddr seg_file_begin;
        let copy_end = min (page_vaddr + PAGE_SIZE) seg_file_end;
        (ok, os) \<leftarrow>
          (if copy_begin < copy_end then do {
             let chunk = copy_end - copy_begin;
             (r, os) \<leftarrow> with_io (io_seek fd (sg_offset sg + copy_begin - file_vaddr sg)) os;
             if r < 0 then Some (False, os)
             else do {
               ((n, out), os) \<leftarrow> with_io (\<lambda>io. map_option (\<lambda>(n, out, io). ((n, out), io)) (fm_read fd (Some (\<lambda>_. 0)) chunk [] io)) os;
               b \<leftarrow> out;
               let at = unat (copy_begin - page_vaddr);
               let page = (\<lambda>j. if at \<le> j \<and> j < at + unat chunk then b (j - at) else 0);
               os \<leftarrow> run_mm (store_words io_buffer 1024 (\<lambda>i. get32 page (4 * i))) os;
               Some (n = sint chunk, os)
             }
           }
           else Some (True, os));
        if \<not> ok then Some (False, os)
        else do {
          (kaddr, os) \<leftarrow> with_mm (mapTemp KERNEL page_paddr) os;
          if kaddr = 0 then Some (False, os)
          else do {
            os \<leftarrow> run_mm (copy_words kaddr io_buffer 1024) os;
            os \<leftarrow> run_mm (unmapTemp KERNEL) os;
            Some (True, os)
          }
        }
      })"

section \<open>Copy-on-write pages\<close>

definition rollbackCOWSetup :: "u32 \<Rightarrow> u32 \<Rightarrow> u32 \<Rightarrow> nat \<Rightarrow> u16 \<Rightarrow> MM \<Rightarrow> MM option" where
  "rollbackCOWSetup pgdir paddrStart vaddrStart n owner s =
     fold (\<lambda>i r. do {
         s \<leftarrow> r;
         let vaddr = vaddrStart + word_of_nat i * PAGE_SIZE;
         let paddr = paddrStart + word_of_nat i * PAGE_SIZE;
         d \<leftarrow> load (pde_ptr pgdir vaddr) s;
         (_, s) \<leftarrow> detach_page paddr (pte_phys d vaddr) owner s;
         Some s
       }) [0..<n] (Some s)"

definition cow_page :: "u32 \<Rightarrow> u32 \<Rightarrow> u32 \<Rightarrow> u16 \<Rightarrow> MM \<Rightarrow> (bool \<times> MM) option" where
  "cow_page pgdir paddr vaddr owner s = do {
     let pde = pde_ptr pgdir vaddr;
     d \<leftarrow> load pde s;
     (ok, s) \<leftarrow>
       (if d AND PDE_PRESENT = 0 then do {
          (tbl, s) \<leftarrow> allocatePageTable s;
          if tbl = 0 then Some (False, s)
          else do {
            s \<leftarrow> store pde (tbl OR PDE_USER) s;
            (tv, s) \<leftarrow> mapTemp KERNEL tbl s;
            ASSERT (tv \<noteq> 0 \<and> tv mod PAGE_SIZE = 0);
            s \<leftarrow> clear_table tv s;
            s \<leftarrow> unmapTemp KERNEL s;
            Some (True, s)
          }
        }
        else Some (True, s));
     if \<not> ok then Some (False, s)
     else do {
       (res, s) \<leftarrow> MM_setCOW (unat (PA2PGI paddr)) s;
       d \<leftarrow> load pde s;
       let pte_pa = pte_phys d vaddr;
       (tmp, s) \<leftarrow> mapTemp KERNEL pte_pa s;
       if \<not> res \<or> tmp = 0 then do {
         s \<leftarrow> (if tmp \<noteq> 0 then unmapTemp KERNEL s else Some s);
         Some (False, s)
       }
       else do {
         s \<leftarrow> store tmp ((paddr OR PTE_PRESENT OR PTE_USER_ACCESS OR PTE_COW) AND NOT PTE_WRITABLE) s;
         s \<leftarrow> MM_PDEinc pde s;
         s \<leftarrow> unmapTemp KERNEL s;
         let at = (if running s \<noteq> None \<and> running_pid s = owner then toPTE vaddr else PTE_ANON_VADDR);
         (_, s) \<leftarrow> attach_page paddr pte_pa at owner s;
         Some (True, s)
       }
     }
   }"

fun cow_pages :: "u32 \<Rightarrow> u32 \<Rightarrow> u32 \<Rightarrow> u16 \<Rightarrow> nat \<Rightarrow> nat \<Rightarrow> MM \<Rightarrow> (bool \<times> MM) option" where
  "cow_pages pgdir paddrStart vaddrStart owner 0 i s = Some (True, s)"
| "cow_pages pgdir paddrStart vaddrStart owner (Suc n) i s = do {
     (ok, s) \<leftarrow> cow_page pgdir (paddrStart + word_of_nat i * PAGE_SIZE) (vaddrStart + word_of_nat i * PAGE_SIZE) owner s;
     if \<not> ok then do { s \<leftarrow> rollbackCOWSetup pgdir paddrStart vaddrStart i owner s; Some (False, s) }
     else cow_pages pgdir paddrStart vaddrStart owner n (i + 1) s
   }"

definition setupCOWPages :: "u32 \<Rightarrow> u32 \<Rightarrow> u32 \<Rightarrow> u32 \<Rightarrow> u16 \<Rightarrow> MM \<Rightarrow> (bool \<times> MM) option" where
  "setupCOWPages pgdir paddrStart vaddrStart n owner s = do {
     ASSERT (paddrStart mod PAGE_SIZE = 0);
     ASSERT (vaddrStart mod PAGE_SIZE = 0);
     cow_pages pgdir paddrStart vaddrStart owner (unat n) 0 s
   }"

text \<open>
  The loops of \<^verbatim>\<open>copyProcess\<close> over all pages of user space.  The clean-up reads every window entry
  below the page that failed, whether or not its page table is there.
\<close>

definition FORK_PAGES :: nat where "FORK_PAGES = 0xb7fb8"

definition fork_rollback :: "u32 \<Rightarrow> nat \<Rightarrow> u16 \<Rightarrow> MM \<Rightarrow> MM option" where
  "fork_rollback pgdir n owner s =
     fold (\<lambda>i r. do {
         s \<leftarrow> r;
         let vaddr = USER_VADDR_START + word_of_nat i * PAGE_SIZE;
         e \<leftarrow> load (toPTE vaddr) s;
         rollbackCOWSetup pgdir (e AND PTE_GET_ADDRESS) vaddr 1 owner s
       }) [0..<n] (Some s)"

fun fork_pages :: "u32 \<Rightarrow> u16 \<Rightarrow> nat \<Rightarrow> nat \<Rightarrow> MM \<Rightarrow> (bool \<times> MM) option" where
  "fork_pages pgdir owner 0 i s = Some (True, s)"
| "fork_pages pgdir owner (Suc n) i s = do {
     let vaddr = USER_VADDR_START + word_of_nat i * PAGE_SIZE;
     d \<leftarrow> load (toPDE vaddr) s;
     if d AND PTE_PRESENT = 0 then fork_pages pgdir owner n (i + 1) s
     else do {
       e \<leftarrow> load (toPTE vaddr) s;
       if e AND PTE_PRESENT = 0 then fork_pages pgdir owner n (i + 1) s
       else do {
         (ok, s) \<leftarrow> setupCOWPages pgdir (e AND PTE_GET_ADDRESS) vaddr 1 owner s;
         if \<not> ok then do { s \<leftarrow> fork_rollback pgdir i owner s; Some (False, s) }
         else fork_pages pgdir owner n (i + 1) s
       }
     }
   }"

section \<open>The address pools of a program\<close>

definition seg_bounds :: "ELFConfig \<Rightarrow> SegBoundary" where
  "seg_bounds conf =
     (let none = \<lparr>b_start = heap_begin conf, b_end = heap_begin conf - 1\<rparr>
      in fold (\<lambda>sg b. let upd = update_boundary (sg_vaddr sg) (sg_vaddr sg + memsz sg - 1) in
             (case userSegment sg of
                TEXT \<Rightarrow> b\<lparr>seg_text := upd (seg_text b)\<rparr>
              | DATA \<Rightarrow> b\<lparr>seg_data := upd (seg_data b)\<rparr>
              | BSS \<Rightarrow> b\<lparr>seg_bss := upd (seg_bss b)\<rparr>
              | _ \<Rightarrow> b))
           (segments conf) \<lparr>seg_text = none, seg_data = none, seg_bss = none\<rparr>)"

definition heapConf :: "ELFConfig \<Rightarrow> VAPConfigLite" where
  "heapConf conf = \<lparr>cl_length = heap_size conf div PAGE_SIZE, cl_start_addr = heap_begin conf,
     cl_end_addr = heap_begin conf + heap_size conf - 1, cl_static_privilege = VP_RW OR VP_USER, cl_is_static = True\<rparr>"

definition stackConf :: "ELFConfig \<Rightarrow> VAPConfigLite" where
  "stackConf conf = \<lparr>cl_length = stack_size conf div PAGE_SIZE, cl_start_addr = stack_begin conf,
     cl_end_addr = stack_top conf - 1, cl_static_privilege = VP_RW OR VP_USER, cl_is_static = True\<rparr>"

definition mmapConf :: "ELFConfig \<Rightarrow> VAPConfigLite" where
  "mmapConf conf = \<lparr>cl_length = mmap_size conf div PAGE_SIZE, cl_start_addr = mmap_begin conf,
     cl_end_addr = mmap_begin conf + mmap_size conf - 1, cl_static_privilege = VP_CLEAR, cl_is_static = False\<rparr>"

definition TLSConf :: "ELFConfig \<Rightarrow> VAPConfigLite" where
  "TLSConf conf = \<lparr>cl_length = tls_size conf div PAGE_SIZE, cl_start_addr = tls_begin conf,
     cl_end_addr = tls_begin conf + tls_size conf - 1, cl_static_privilege = VP_CLEAR, cl_is_static = False\<rparr>"

definition init_pool :: "nat \<Rightarrow> ELFConfig \<Rightarrow> OS \<Rightarrow> (bool \<times> OS) option" where
  "init_pool p conf os = do {
     ((ok, u), os) \<leftarrow> with_mm (\<lambda>mm. map_option (\<lambda>(ok, u, mm). ((ok, u), mm))
        (UserVAddressPool_initialize (seg_bounds conf) (heapConf conf) (stackConf conf) (mmapConf conf) (TLSConf conf)
           (word_of_int (p_pid (pcbs os p))) (p_userVirtual (pcbs os p)) mm)) os;
     Some (ok, upd_pcb p (\<lambda>c. c\<lparr>p_userVirtual := u\<rparr>) os)
   }"

definition destroy_pool :: "nat \<Rightarrow> OS \<Rightarrow> OS option" where
  "destroy_pool p os = do {
     (u, os) \<leftarrow> with_mm (UserVAddressPool_destroy (p_userVirtual (pcbs os p))) os;
     Some (upd_pcb p (\<lambda>c. c\<lparr>p_userVirtual := u\<rparr>) os)
   }"

text \<open>The clean-up behind a failed page of an image.\<close>

definition load_failed :: "nat \<Rightarrow> ELFConfig \<Rightarrow> u32 \<Rightarrow> OS \<Rightarrow> (bool \<times> OS) option" where
  "load_failed p conf io_buffer os = do {
     os \<leftarrow> run_mm (rollback_loaded_segments (p_pageDirectoryAddress (pcbs os p)) (word_of_int (p_pid (pcbs os p))) conf) os;
     os \<leftarrow> destroy_pool p os;
     os \<leftarrow> run_mm (releasePages KERNEL io_buffer 1 EMPTY) os;
     Some (False, os)
   }"

fun load_pages :: "nat \<Rightarrow> ELFConfig \<Rightarrow> u32 \<Rightarrow> (ElfSegment \<times> u32) list \<Rightarrow> OS \<Rightarrow> (bool \<times> OS) option" where
  "load_pages p conf io_buffer [] os = do { os \<leftarrow> run_mm (releasePages KERNEL io_buffer 1 EMPTY) os; Some (True, os) }"
| "load_pages p conf io_buffer ((sg, vaddr) # pgs) os = do {
     (paddr, os) \<leftarrow> with_mm (allocatePhysicalPages USER 1) os;
     if paddr = 0 then load_failed p conf io_buffer os
     else do {
       (ok, os) \<leftarrow> load_segment_page (source_fd conf) sg vaddr paddr io_buffer os;
       if \<not> ok then do {
         os \<leftarrow> run_mm (releasePhysicalPages USER paddr 1) os;
         load_failed p conf io_buffer os
       }
       else do {
         (ok, os) \<leftarrow> with_mm (map_process_page (p_pageDirectoryAddress (pcbs os p)) (word_of_int (p_pid (pcbs os p))) vaddr paddr (sg_flags sg)) os;
         if \<not> ok then do {
           os \<leftarrow> run_mm (releasePhysicalPages USER paddr 1) os;
           load_failed p conf io_buffer os
         }
         else load_pages p conf io_buffer pgs os
       }
     }
   }"

definition createUserVirtualPool :: "nat \<Rightarrow> ELFConfig \<Rightarrow> int \<Rightarrow> OS \<Rightarrow> (bool \<times> OS) option" where
  "createUserVirtualPool p conf mode os =
     (if mode = 0 then do {
        (ok, os) \<leftarrow> init_pool p conf os;
        if \<not> ok then Some (False, os)
        else do {
          (io_buffer, os) \<leftarrow> with_mm (allocatePages KERNEL 1 VP_RW EMPTY) os;
          if io_buffer = 0 then do { os \<leftarrow> destroy_pool p os; Some (False, os) }
          else load_pages p conf io_buffer (concat (map (\<lambda>sg. map (Pair sg) (segment_pages sg)) (segments conf))) os
        }
      }
      else if mode = 1 then do {
        (ok, os) \<leftarrow> init_pool p conf os;
        if \<not> ok then Some (False, os)
        else do {
          let b = seg_text (seg_bounds conf);
          paddrStart \<leftarrow> vaddr2paddr (entry_in_kernel conf AND NOT 0xfff) (mm_of os);
          let total_bytes = b_end b + 1 - b_start b;
          ASSERT (total_bytes mod PAGE_SIZE = 0);
          (res, os) \<leftarrow> with_mm (setupCOWPages (p_pageDirectoryAddress (pcbs os p)) paddrStart (b_start b) (total_bytes div PAGE_SIZE)
             (word_of_int (p_pid (pcbs os p)))) os;
          os \<leftarrow> (if \<not> res then destroy_pool p os else Some os);
          Some (res, os)
        }
      }
      else None)"

end
