(* ===== verification/Program_Life.thy ===== *)
theory Program_Life
  imports Process_Pages
begin

text \<open>
  The life of a program (\<^verbatim>\<open>src/kernel/program.cpp\<close>): slots of the table of PCBs, creation of threads
  and processes, \<^verbatim>\<open>fork\<close>, \<^verbatim>\<open>execve\<close>, \<^verbatim>\<open>exit\<close> and \<^verbatim>\<open>waitpid\<close>.
  A program is its slot in the table; the page of its arguments is the map \<open>p_args\<close>.
\<close>

section \<open>Slots\<close>

definition MAX_PROGRAM_NAME :: nat where "MAX_PROGRAM_NAME = 16"

text \<open>
  \<^verbatim>\<open>memset\<close> clears the whole PCB, the items by which it is linked included.
\<close>

definition allocatePCB :: "OS \<Rightarrow> nat option \<times> OS" where
  "allocatePCB os =
     (case find (\<lambda>i. \<not> PCB_SET_STATUS os i) [0..<MAX_PROGRAM_AMOUNT] of
        None \<Rightarrow> (None, os)
      | Some i \<Rightarrow>
          (Some i, os\<lparr>PCB_SET_STATUS := (PCB_SET_STATUS os)(i := True), pcbs := (pcbs os)(i := zero_pcb),
             links := (links os)(tagInGeneralList os i := \<lparr>previous = None, next = None\<rparr>,
                                 tagInAllList os i := \<lparr>previous = None, next = None\<rparr>)\<rparr>))"

definition release_fs :: "nat \<Rightarrow> OS \<Rightarrow> OS option" where
  "release_fs p os = do {
     (q, fm) \<leftarrow> release_process_fs (p_fs (pcbs os p)) (os_fm os);
     Some (upd_pcb p (\<lambda>c. c\<lparr>p_fs := q\<rparr>) (os\<lparr>os_fm := fm\<rparr>))
   }"

definition releasePCB :: "nat \<Rightarrow> OS \<Rightarrow> OS option" where
  "releasePCB program os = do {
     os \<leftarrow> release_fs program os;
     os \<leftarrow> (if p_argv (pcbs os program) \<noteq> 0 then do {
             os \<leftarrow> run_mm (releasePages KERNEL (p_argv (pcbs os program)) 1 EMPTY) os;
             Some (upd_pcb program (\<lambda>c. c\<lparr>p_argv := 0, p_argc := 0\<rparr>) os) }
           else Some os);
     let os = os\<lparr>PCB_SET_STATUS := (PCB_SET_STATUS os)(program := False)\<rparr>;
     on_links (List_erase (all_list os) (tagInAllList os program)) os
   }"

text \<open>
  \<^verbatim>\<open>ProgramManager::initialize\<close>; the segment selectors are what
  \<^verbatim>\<open>asm_add_global_descriptor\<close> returns.
\<close>

definition PM_initialize :: "SchedulerType \<Rightarrow> u32 \<Rightarrow> u32 \<Rightarrow> u32 \<Rightarrow> OS \<Rightarrow> OS option" where
  "PM_initialize type code_sel data_sel stack_sel os =
     (let os = os\<lparr>links := List_initialize (all_list os) (links os), run := None, sType := type, PCB_SET_STATUS := (\<lambda>_. False),
             USER_CODE_SELECTOR := push_bit 3 code_sel OR 3, USER_DATA_SELECTOR := push_bit 3 data_sel OR 3,
             USER_STACK_SELECTOR := push_bit 3 stack_sel OR 3, esp0 := 0\<rparr>
      in case type of RR \<Rightarrow> RR_initialize os | FIFS \<Rightarrow> FIFS_initialize os)"

section \<open>Threads\<close>

definition start_frame :: "u32 \<Rightarrow> u32 \<Rightarrow> u32 \<Rightarrow> KStack" where
  "start_frame fn ret par = Start \<lparr>ts_edi = 0, ts_esi = 0, ts_ebx = 0, ts_ebp = 0, function_entry = fn, return_address = ret, parameter = par\<rparr>"

definition new_thread :: "OS \<Rightarrow> nat \<Rightarrow> cstr \<Rightarrow> u32 \<Rightarrow> PCB \<Rightarrow> PCB" where
  "new_thread os t nm prio c =
     c\<lparr>p_name := take MAX_PROGRAM_NAME nm, p_status := CREATED, p_priority := prio, p_ticks := prio * 10, p_ticksPassedBy := 0,
       p_pid := int t, p_parentPid := (case run os of Some r \<Rightarrow> p_pid (pcbs os r) | None \<Rightarrow> 0)\<rparr>"

definition executeThread :: "u32 \<Rightarrow> u32 \<Rightarrow> cstr \<Rightarrow> u32 \<Rightarrow> bool \<Rightarrow> OS \<Rightarrow> (int \<times> OS) option" where
  "executeThread fn par nm prio needEnqueue os =
     (let st = interrupts os;
          (thread, os) = allocatePCB (os\<lparr>interrupts := False\<rparr>)
      in case thread of
           None \<Rightarrow> Some (- 1, os)
         | Some t \<Rightarrow> do {
             let os = upd_pcb t (new_thread os t nm prio) os;
             (argv, os) \<leftarrow> with_mm (allocatePages KERNEL 1 VP_RW EMPTY) os;
             let os = upd_pcb t (\<lambda>c. c\<lparr>p_argv := argv\<rparr>) os;
             if argv = 0 then Some (- 1, os\<lparr>PCB_SET_STATUS := (PCB_SET_STATUS os)(t := False), interrupts := st\<rparr>)
             else do {
               let os = upd_pcb t (\<lambda>c. (clear_process_args c)\<lparr>p_fs := init_process_fs (p_fs c),
                          p_stack := start_frame fn (program_exit_at os) par\<rparr>) os;
               os \<leftarrow> on_links (List_push_back (all_list os) (tagInAllList os t)) os;
               os \<leftarrow> (if needEnqueue then enqueue t (set_status t READY os) else Some os);
               Some (int t, os\<lparr>interrupts := st\<rparr>)
             }
           })"

text \<open>A thread function that returns; the last instruction of the kernel is a jump to itself.\<close>

definition program_exit :: "OS \<Rightarrow> OS option" where
  "program_exit os = do {
     thread \<leftarrow> run os;
     os \<leftarrow> release_fs thread os;
     let os = set_status thread DEAD os;
     if p_pid (pcbs os thread) \<noteq> 0 then schedule os else None
   }"

section \<open>Processes\<close>

text \<open>The program that was appended last.\<close>

definition youngest :: "OS \<Rightarrow> nat option" where
  "youngest os = do { item \<leftarrow> List_back (links os) (all_list os); a \<leftarrow> item; Some (ListItem2PCB os a 52) }"

text \<open>
  \<open>filename\<close> is the string at the address \<open>addr\<close>; with mode 1 the address is a function of the kernel.
\<close>

definition load_image :: "cstr \<Rightarrow> u32 \<Rightarrow> int \<Rightarrow> OS \<Rightarrow> (ELFConfig \<times> OS) option" where
  "load_image filename addr mode os =
     (if mode = 0 then with_io (parseELF filename) os
      else if mode = 1 then map_option (\<lambda>conf. (conf, os)) (func2ELF addr)
      else None)"

definition close_image :: "ELFConfig \<Rightarrow> OS \<Rightarrow> OS option" where
  "close_image conf os = (if 0 \<le> source_fd conf then os_close (source_fd conf) os else Some os)"

definition executeProcess :: "cstr \<Rightarrow> u32 \<Rightarrow> u32 \<Rightarrow> int \<Rightarrow> OS \<Rightarrow> (int \<times> OS) option" where
  "executeProcess filename addr prio mode os = do {
     let st = interrupts os;
     (conf, os) \<leftarrow> load_image filename addr mode (os\<lparr>interrupts := False\<rparr>);
     if c_entry conf = 0 then Some (- 1, os\<lparr>interrupts := st\<rparr>)
     else do {
       (pid, os) \<leftarrow> executeThread (load_process_at os) (c_entry conf) filename prio False os;
       if pid = - 1 then do { os \<leftarrow> close_image conf os; Some (- 1, os\<lparr>interrupts := st\<rparr>) }
       else do {
         p \<leftarrow> youngest os;
         (dir, os) \<leftarrow> with_mm (createProcessPageDirectory (word_of_int (p_pid (pcbs os p)))) os;
         let os = upd_pcb p (\<lambda>c. c\<lparr>p_pageDirectoryAddress := dir\<rparr>) os;
         if dir = 0 then do { os \<leftarrow> close_image conf (set_status p DEAD os); Some (- 1, os\<lparr>interrupts := st\<rparr>) }
         else do {
           (res, os) \<leftarrow> createUserVirtualPool p conf mode os;
           if \<not> res then do { os \<leftarrow> close_image conf (set_status p DEAD os); Some (- 1, os\<lparr>interrupts := st\<rparr>) }
           else do {
             os \<leftarrow> close_image conf os;
             os \<leftarrow> enqueue p (set_status p READY os);
             Some (pid, os\<lparr>interrupts := st\<rparr>)
           }
         }
       }
     }
   }"

text \<open>The frame that enters user mode with interrupts enabled.\<close>

definition user_entry :: "OS \<Rightarrow> u32 \<Rightarrow> u32 \<Rightarrow> ProcessStartStack" where
  "user_entry os ent sp = zero_frame\<lparr>pss_fs := USER_DATA_SELECTOR os, pss_es := USER_DATA_SELECTOR os, pss_ds := USER_DATA_SELECTOR os,
     pss_eip := ent, pss_cs := USER_CODE_SELECTOR os, pss_eflags := 0x202, pss_esp := sp, pss_ss := USER_STACK_SELECTOR os\<rparr>"

text \<open>The stack of a new program: one page at once, the rest on demand.\<close>

definition user_stack :: "nat \<Rightarrow> OS \<Rightarrow> OS option" where
  "user_stack p os = do {
     let n = va_length (stackPool (p_userVirtual (pcbs os p)));
     (_, os) \<leftarrow> with_mm (allocatePages USER 1 (VP_USER OR VP_RW) STACK) os;
     (_, os) \<leftarrow> with_mm (allocatePagesLazy USER (n - 1) (VP_USER OR VP_RW) STACK) os;
     Some os
   }"

definition load_process :: "u32 \<Rightarrow> OS \<Rightarrow> OS option" where
  "load_process ent os = do {
     let os = os\<lparr>interrupts := False\<rparr>;
     p \<leftarrow> run os;
     if ent \<noteq> 0 then do {
       let os = upd_pcb p (\<lambda>c. c\<lparr>p_frame := user_entry os ent (STACK_TOP - 4)\<rparr>) os;
       os \<leftarrow> user_stack p os;
       let sp = STACK_TOP - 4 - 12;
       os \<leftarrow> run_mm (store sp (k_exit_at os)) os;
       os \<leftarrow> run_mm (store (sp + 4) 0) os;
       os \<leftarrow> run_mm (store (sp + 8) 0) os;
       Some (upd_pcb p (\<lambda>c. c\<lparr>p_frame := (p_frame c)\<lparr>pss_esp := sp\<rparr>\<rparr>) (os\<lparr>interrupts := True\<rparr>))
     }
     else Some (os\<lparr>interrupts := True\<rparr>)
   }"

section \<open>Fork\<close>

definition copy_pcb :: "OS \<Rightarrow> nat \<Rightarrow> PCB \<Rightarrow> PCB \<Rightarrow> PCB" where
  "copy_pcb os child parent c =
     c\<lparr>p_frame := (p_frame parent)\<lparr>pss_eax := 0\<rparr>,
       p_stack := start_frame (start_process_at os) 0 (word_of_nat (PCB_SET os + PCB_SIZE * child) + PAGE_SIZE - 68),
       p_status := READY, p_parentPid := p_pid parent, p_priority := p_priority parent, p_ticks := p_ticks parent,
       p_ticksPassedBy := p_ticksPassedBy parent, p_name := p_name parent, p_argc := p_argc parent,
       p_args := (if p_argv c \<noteq> 0 \<and> p_argv parent \<noteq> 0 then p_args parent else p_args c)\<rparr>"

definition copyProcess :: "nat \<Rightarrow> nat \<Rightarrow> OS \<Rightarrow> (bool \<times> OS) option" where
  "copyProcess parent child os = do {
     r \<leftarrow> run os;
     ASSERT (p_pid (pcbs os r) = p_pid (pcbs os parent));
     let os = upd_pcb child (copy_pcb os child (pcbs os parent)) os;
     let pgdir = p_pageDirectoryAddress (pcbs os child);
     os \<leftarrow> run_mm (store_words pgdir 768 (\<lambda>_. 0)) os;
     (ok, os) \<leftarrow> with_mm (fork_pages pgdir (word_of_int (p_pid (pcbs os child))) FORK_PAGES 0) os;
     if \<not> ok then Some (False, os)
     else do {
       let (q, fm) = fork_process_fs (p_fs (pcbs os child)) (p_fs (pcbs os parent)) (os_fm os);
       Some (True, upd_pcb child (\<lambda>c. c\<lparr>p_fs := q\<rparr>) (os\<lparr>os_fm := fm\<rparr>))
     }
   }"

definition fork_name :: cstr where "fork_name = [102, 111, 114, 107, 32, 99, 104, 105, 108, 100]"

definition fork :: "OS \<Rightarrow> (int \<times> OS) option" where
  "fork os = do {
     let st = interrupts os;
     let os = os\<lparr>interrupts := False\<rparr>;
     parent \<leftarrow> run os;
     if p_pageDirectoryAddress (pcbs os parent) = 0 then Some (- 1, os\<lparr>interrupts := st\<rparr>)
     else do {
       (pid, os) \<leftarrow> executeThread (load_process_at os) 0 fork_name 0 True os;
       if pid = - 1 then Some (- 1, os\<lparr>interrupts := st\<rparr>)
       else do {
         p \<leftarrow> youngest os;
         let os = upd_pcb p (\<lambda>c. c\<lparr>needFork := True\<rparr>) os;
         (dir, os) \<leftarrow> with_mm (createProcessPageDirectory (word_of_int (p_pid (pcbs os p)))) os;
         let os = upd_pcb p (\<lambda>c. c\<lparr>p_pageDirectoryAddress := dir\<rparr>) os;
         if dir = 0 then Some (- 1, (set_status p DEAD os)\<lparr>interrupts := st\<rparr>)
         else do {
           ((res, u), os) \<leftarrow> with_mm (\<lambda>mm. map_option (\<lambda>(ok, u, mm). ((ok, u), mm))
               (UserVAddressPool_cloneFrom (p_userVirtual (pcbs os parent)) (word_of_int (p_pid (pcbs os p))) (p_userVirtual (pcbs os p)) mm)) os;
           let os = upd_pcb p (\<lambda>c. c\<lparr>p_userVirtual := u\<rparr>) os;
           ASSERT (va_length (stackPool u) \<noteq> 0);
           if \<not> res then Some (- 1, (set_status p DEAD os)\<lparr>interrupts := st\<rparr>)
           else do {
             (flag, os) \<leftarrow> copyProcess parent p os;
             if \<not> flag then do {
               os \<leftarrow> destroy_pool p ((set_status p DEAD os)\<lparr>interrupts := st\<rparr>);
               Some (- 1, os)
             }
             else Some (pid, os\<lparr>interrupts := st\<rparr>)
           }
         }
       }
     }
   }"

section \<open>Exit and waitpid\<close>

text \<open>
  Releasing the address space of the running program: the pools in its PCB are those the memory manager
  has changed on the way, with what \<^verbatim>\<open>destroy\<close> resets.
\<close>

definition destroy_space :: "nat \<Rightarrow> OS \<Rightarrow> OS option" where
  "destroy_space p os = do {
     (u, os) \<leftarrow> with_mm (destroyUserVAPool (p_userVirtual (pcbs os p)) (p_pageDirectoryAddress (pcbs os p))) os;
     Some (upd_pcb p (\<lambda>c. c\<lparr>p_userVirtual := (p_userVirtual c)\<lparr>bitmapStart := bitmapStart u, privStart := privStart u,
       bitmapPage := bitmapPage u, privPage := privPage u, uva_owner := uva_owner u, isInitialized := isInitialized u\<rparr>\<rparr>) os)
   }"

text \<open>The walk over all programs that hands the children of the running program to pid 1.\<close>

partial_function (option) orphan_loop :: "ptr \<Rightarrow> nat \<Rightarrow> OS \<Rightarrow> OS option" where
  "orphan_loop item r os =
     (case item of
        None \<Rightarrow> Some os
      | Some a \<Rightarrow>
          orphan_loop (next (links os a)) r
            (if ListItem2PCB os a 52 \<noteq> r \<and> p_parentPid (pcbs os (ListItem2PCB os a 52)) = p_pid (pcbs os r)
             then upd_pcb (ListItem2PCB os a 52) (\<lambda>c. c\<lparr>p_parentPid := 1\<rparr>) os else os))"

definition exit :: "u32 \<Rightarrow> OS \<Rightarrow> OS option" where
  "exit ret os = do {
     let os = os\<lparr>interrupts := False\<rparr>;
     program \<leftarrow> run os;
     let os = upd_pcb program (\<lambda>c. c\<lparr>p_retValue := ret\<rparr>) os;
     os \<leftarrow> release_fs program os;
     let os = set_status program DEAD os;
     os \<leftarrow> (if p_pageDirectoryAddress (pcbs os program) \<noteq> 0 then destroy_space program os else Some os);
     os \<leftarrow> orphan_loop (next (links os (all_list os))) program os;
     schedule os
   }"

text \<open>
  The search of \<^verbatim>\<open>waitpid\<close>: has the running program a child of that pid, and which is the first
  dead one?
\<close>

partial_function (option) child_loop :: "ptr \<Rightarrow> int \<Rightarrow> nat \<Rightarrow> bool \<Rightarrow> OS \<Rightarrow> (bool \<times> nat option) option" where
  "child_loop item pid r hasChild os =
     (case item of
        None \<Rightarrow> Some (hasChild, None)
      | Some a \<Rightarrow>
          (let p = ListItem2PCB os a 52
           in if p_parentPid (pcbs os p) = p_pid (pcbs os r) \<and> (pid = - 1 \<or> p_pid (pcbs os p) = pid)
              then (if p_status (pcbs os p) = DEAD then Some (True, Some p) else child_loop (next (links os a)) pid r True os)
              else child_loop (next (links os a)) pid r hasChild os))"

text \<open>
  One round of \<^verbatim>\<open>waitpid\<close>: it returns a pid with the value the child left, or it has given up
  the processor and searches again when it runs.
\<close>

datatype wait_result = Returns int "u32 option" | Waits

definition waitpid :: "int \<Rightarrow> OS \<Rightarrow> (wait_result \<times> OS) option" where
  "waitpid pid os = do {
     let st = interrupts os;
     let os = os\<lparr>interrupts := False\<rparr>;
     r \<leftarrow> run os;
     (hasChild, zombie) \<leftarrow> child_loop (next (links os (all_list os))) pid r False os;
     if \<not> hasChild then Some (Returns (- 1) None, os\<lparr>interrupts := st\<rparr>)
     else (case zombie of
         None \<Rightarrow> do { os \<leftarrow> schedule (os\<lparr>interrupts := st\<rparr>); Some (Waits, os) }
       | Some z \<Rightarrow> do {
           let ret = p_retValue (pcbs os z);
           let childPid = p_pid (pcbs os z);
           os \<leftarrow> releasePCB z os;
           Some (Returns childPid (Some ret), os\<lparr>interrupts := st\<rparr>)
         })
   }"

definition getpid :: "OS \<Rightarrow> u16 option" where
  "getpid os = map_option (\<lambda>r. word_of_int (p_pid (pcbs os r))) (run os)"

definition getppid :: "OS \<Rightarrow> u16 option" where
  "getppid os = map_option (\<lambda>r. word_of_int (p_parentPid (pcbs os r))) (run os)"

section \<open>Execve\<close>

text \<open>
  A program that cannot be given its new address space any more is dead; \<^verbatim>\<open>schedule\<close> then takes
  another one.  Otherwise user mode is entered through the frame at the top of the kernel stack.
\<close>

definition execve :: "cstr \<Rightarrow> u32 \<Rightarrow> (nat \<Rightarrow> cstr option) option \<Rightarrow> int \<Rightarrow> OS \<Rightarrow> (int option \<times> OS) option" where
  "execve filename addr argv mode os = do {
     let st = interrupts os;
     (conf, os) \<leftarrow> load_image filename addr mode (os\<lparr>interrupts := False\<rparr>);
     if c_entry conf = 0 then Some (Some (- 1), os\<lparr>interrupts := st\<rparr>)
     else do {
       p \<leftarrow> run os;
       let (ok, c) = (if mode = 0 then copy_exec_args (Some filename) argv (pcbs os p) else (True, clear_process_args (pcbs os p)));
       let os = upd_pcb p (\<lambda>_. c) os;
       if \<not> ok then do { os \<leftarrow> close_image conf os; Some (Some (- 1), os\<lparr>interrupts := st\<rparr>) }
       else do {
         let os = upd_pcb p (\<lambda>c. c\<lparr>p_fs := exec_process_fs (p_fs c)\<rparr>) os;
         ASSERT (p_pageDirectoryAddress (pcbs os p) \<noteq> 0);
         os \<leftarrow> destroy_space p os;
         let os = upd_pcb p (\<lambda>c. c\<lparr>p_pageDirectoryAddress := 0\<rparr>) os;
         (dir, os) \<leftarrow> with_mm (createProcessPageDirectory (word_of_int (p_pid (pcbs os p)))) os;
         if dir = 0 then do {
           os \<leftarrow> close_image conf os;
           Some (Some (- 1), (set_status p DEAD os)\<lparr>interrupts := st\<rparr>)
         }
         else do {
           let os = upd_pcb p (\<lambda>c. c\<lparr>p_pageDirectoryAddress := dir\<rparr>) os;
           (res, os) \<leftarrow> createUserVirtualPool p conf mode os;
           if \<not> res then do {
             os \<leftarrow> close_image conf os;
             os \<leftarrow> schedule ((set_status p DEAD os)\<lparr>interrupts := st\<rparr>);
             Some (None, os)
           }
           else do {
             os \<leftarrow> close_image conf os;
             pa \<leftarrow> vaddr2paddr dir (mm_of os);
             let os = os\<lparr>os_mm := (os_mm os)\<lparr>cr3 := pa\<rparr>\<rparr>;
             os \<leftarrow> user_stack p os;
             let (sp, ws) = push_exec_args_to_user_stack (k_exit_at os) (Some (pcbs os p));
             os \<leftarrow> run_mm (do_writes ws) os;
             Some (None, upd_pcb p (\<lambda>c. c\<lparr>p_frame := user_entry os (c_entry conf) sp\<rparr>) (os\<lparr>interrupts := True\<rparr>))
           }
         }
       }
     }
   }"

end
