(* ===== verification/Program_Table.thy ===== *)
theory Program_Table
  imports Program_Life
begin

text \<open>
  The table of programs stays in order: memory and file operations leave the life of every program alone
  (\<open>quiet\<close>), and the creation of threads and processes, the scheduler and the walks over the list of
  all programs keep that list, the ready queue and the allocation of slots in agreement.
\<close>

section \<open>Operations that leave every life alone\<close>

definition same_life :: "PCB \<Rightarrow> PCB \<Rightarrow> bool" where
  "same_life c d \<longleftrightarrow> p_status d = p_status c \<and> p_pid d = p_pid c \<and> p_parentPid d = p_parentPid c \<and> p_retValue d = p_retValue c"

definition quiet :: "OS \<Rightarrow> OS \<Rightarrow> bool" where
  "quiet os os' \<longleftrightarrow> (\<forall>p. same_life (pcbs os p) (pcbs os' p)) \<and>
     (\<exists>mm fm k s i. os' = os\<lparr>pcbs := pcbs os', interrupts := i, os_mm := mm, os_fm := fm, os_keyboard := k, os_screen := s\<rparr>)"

named_theorems quiet_intros

lemma quiet_refl [quiet_intros, simp]: "quiet os os"
proof -
  have "os = os\<lparr>pcbs := pcbs os, interrupts := interrupts os, os_mm := os_mm os, os_fm := os_fm os, os_keyboard := os_keyboard os, os_screen := os_screen os\<rparr>"
    by simp
  then show ?thesis unfolding quiet_def same_life_def by blast
qed

lemma quietI:
  assumes "quiet os os1" and "\<And>p. same_life (pcbs os1 p) (c p)"
  shows "quiet os (os1\<lparr>pcbs := c, interrupts := i, os_mm := mm, os_fm := fm, os_keyboard := k, os_screen := s\<rparr>)"
proof -
  let ?n = "os1\<lparr>pcbs := c, interrupts := i, os_mm := mm, os_fm := fm, os_keyboard := k, os_screen := s\<rparr>"
  obtain mm' fm' k' s' i' where o: "os1 = os\<lparr>pcbs := pcbs os1, interrupts := i', os_mm := mm', os_fm := fm', os_keyboard := k', os_screen := s'\<rparr>"
    using assms(1) unfolding quiet_def by blast
  have "?n = os\<lparr>pcbs := pcbs ?n, interrupts := i, os_mm := mm, os_fm := fm, os_keyboard := k, os_screen := s\<rparr>" by (subst o) simp
  moreover have "\<forall>p. same_life (pcbs os p) (pcbs ?n p)" using assms unfolding quiet_def same_life_def by simp
  ultimately show ?thesis unfolding quiet_def by blast
qed

lemma same_life_refl [simp]: "same_life c c"
  by (simp add: same_life_def)

lemma quiet_upd [quiet_intros]:
  assumes "quiet os os1" and "\<And>c. same_life c (f c)"
  shows "quiet os (upd_pcb p f os1)"
proof -
  have "upd_pcb p f os1 = os1\<lparr>pcbs := (pcbs os1)(p := f (pcbs os1 p)), interrupts := interrupts os1, os_mm := os_mm os1, os_fm := os_fm os1,
      os_keyboard := os_keyboard os1, os_screen := os_screen os1\<rparr>" by (simp add: upd_pcb_def)
  moreover have "quiet os \<dots>" by (rule quietI [OF assms(1)]) (use assms(2) in simp)
  ultimately show ?thesis by (simp only:)
qed

lemma quiet_fields [quiet_intros]:
  assumes "quiet os os1"
  shows "quiet os (os1\<lparr>os_mm := mm\<rparr>)" "quiet os (os1\<lparr>os_fm := fm\<rparr>)" "quiet os (os1\<lparr>interrupts := i\<rparr>)"
    "quiet os (os1\<lparr>os_keyboard := k, os_screen := s\<rparr>)"
proof -
  have "os1\<lparr>os_mm := mm\<rparr> = os1\<lparr>pcbs := pcbs os1, interrupts := interrupts os1, os_mm := mm, os_fm := os_fm os1, os_keyboard := os_keyboard os1, os_screen := os_screen os1\<rparr>"
    "os1\<lparr>os_fm := fm\<rparr> = os1\<lparr>pcbs := pcbs os1, interrupts := interrupts os1, os_mm := os_mm os1, os_fm := fm, os_keyboard := os_keyboard os1, os_screen := os_screen os1\<rparr>"
    "os1\<lparr>interrupts := i\<rparr> = os1\<lparr>pcbs := pcbs os1, interrupts := i, os_mm := os_mm os1, os_fm := os_fm os1, os_keyboard := os_keyboard os1, os_screen := os_screen os1\<rparr>"
    "os1\<lparr>os_keyboard := k, os_screen := s\<rparr> = os1\<lparr>pcbs := pcbs os1, interrupts := interrupts os1, os_mm := os_mm os1, os_fm := os_fm os1, os_keyboard := k, os_screen := s\<rparr>"
    by simp_all
  moreover have "\<And>i mm fm k s. quiet os (os1\<lparr>pcbs := pcbs os1, interrupts := i, os_mm := mm, os_fm := fm, os_keyboard := k, os_screen := s\<rparr>)"
    using assms by (rule quietI) simp
  ultimately show "quiet os (os1\<lparr>os_mm := mm\<rparr>)" "quiet os (os1\<lparr>os_fm := fm\<rparr>)" "quiet os (os1\<lparr>interrupts := i\<rparr>)"
    "quiet os (os1\<lparr>os_keyboard := k, os_screen := s\<rparr>)" by metis+
qed

lemma same_life_upd [quiet_intros]:
  "same_life c (c\<lparr>p_fs := q\<rparr>)" "same_life c (c\<lparr>p_userVirtual := u\<rparr>)" "same_life c (c\<lparr>p_pageDirectoryAddress := d\<rparr>)"
  "same_life c (c\<lparr>p_argv := a\<rparr>)" "same_life c (c\<lparr>p_argv := a, p_argc := n\<rparr>)" "same_life c (c\<lparr>p_frame := fr\<rparr>)"
  "same_life c (c\<lparr>needFork := b\<rparr>)"
  "same_life c (c\<lparr>p_ticks := t, p_ticksPassedBy := t'\<rparr>)"
  by (simp_all add: same_life_def)

lemma put_mm_quiet [quiet_intros]: "quiet os os1 \<Longrightarrow> quiet os (put_mm mm os1)"
  unfolding put_mm_def by (auto split: option.split intro!: quiet_intros)

lemma put_fm_quiet [quiet_intros]: "quiet os os1 \<Longrightarrow> quiet os (put_fm fm os1)"
  unfolding put_fm_def by (auto split: option.split intro!: quiet_intros)

text \<open>Where a computation that starts from \<open>os\<close> may end.\<close>

definition quietly :: "OS \<Rightarrow> ('a \<times> OS) option \<Rightarrow> bool" where
  "quietly os m \<longleftrightarrow> (\<forall>a os'. m = Some (a, os') \<longrightarrow> quiet os os')"

definition quietly1 :: "OS \<Rightarrow> OS option \<Rightarrow> bool" where
  "quietly1 os m \<longleftrightarrow> (\<forall>os'. m = Some os' \<longrightarrow> quiet os os')"

lemma quietlyD: "quietly os m \<Longrightarrow> m = Some (a, os') \<Longrightarrow> quiet os os'"
  and quietly1D: "quietly1 os m' \<Longrightarrow> m' = Some os' \<Longrightarrow> quiet os os'"
  by (simp_all add: quietly_def quietly1_def)

lemma quietly_bind [quiet_intros]:
  "quietly os m \<Longrightarrow> (\<And>a os1. quiet os os1 \<Longrightarrow> quietly os (k a os1)) \<Longrightarrow> quietly os (m \<bind> case_prod k)"
  "quietly1 os m1 \<Longrightarrow> (\<And>os1. quiet os os1 \<Longrightarrow> quietly os (k1 os1)) \<Longrightarrow> quietly os (m1 \<bind> k1)"
  "quietly os m \<Longrightarrow> (\<And>a os1. quiet os os1 \<Longrightarrow> quietly1 os (k2 a os1)) \<Longrightarrow> quietly1 os (m \<bind> case_prod k2)"
  "quietly1 os m1 \<Longrightarrow> (\<And>os1. quiet os os1 \<Longrightarrow> quietly1 os (k3 os1)) \<Longrightarrow> quietly1 os (m1 \<bind> k3)"
  unfolding quietly_def quietly1_def by (auto simp: bind_eq_Some_conv)

lemma quietly_pure:
  "(\<And>x. e = Some x \<Longrightarrow> quietly os (k x)) \<Longrightarrow> quietly os (e \<bind> k)"
  "(\<And>x. e = Some x \<Longrightarrow> quietly1 os (k' x)) \<Longrightarrow> quietly1 os (e \<bind> k')"
  unfolding quietly_def quietly1_def by (auto simp: bind_eq_Some_conv)

lemma quietly_simple [quiet_intros]:
  "quiet os os1 \<Longrightarrow> quietly os (Some (a, os1))" "quiet os os1 \<Longrightarrow> quietly1 os (Some os1)" "quietly os None" "quietly1 os None"
  "(b \<Longrightarrow> quietly os m) \<Longrightarrow> (\<not> b \<Longrightarrow> quietly os m') \<Longrightarrow> quietly os (if b then m else m')"
  "(b \<Longrightarrow> quietly1 os n) \<Longrightarrow> (\<not> b \<Longrightarrow> quietly1 os n') \<Longrightarrow> quietly1 os (if b then n else n')"
  "(\<And>x y. z = (x, y) \<Longrightarrow> quietly os (f x y os1)) \<Longrightarrow> quietly os (case_prod f z os1)"
  "(\<And>x y. z = (x, y) \<Longrightarrow> quietly os (g x y)) \<Longrightarrow> quietly os (case_prod g z)"
  "quietly os (h v) \<Longrightarrow> quietly os (Let v h)" "quietly1 os (h' v) \<Longrightarrow> quietly1 os (Let v h')"
  by (simp_all add: quietly_def quietly1_def Let_def split: prod.split)

lemma with_quiet [quiet_intros]:
  "quiet os os1 \<Longrightarrow> quietly os (with_mm f os1)" "quiet os os1 \<Longrightarrow> quietly1 os (run_mm g os1)"
  "quiet os os1 \<Longrightarrow> quietly os (with_io h os1)" "quiet os os1 \<Longrightarrow> quietly1 os (os_close fd os1)"
  unfolding quietly_def quietly1_def run_mm_def os_close_def with_mm_def with_io_def
  by (auto intro!: quiet_intros)

lemma close_image_quiet [quiet_intros]: "quiet os os1 \<Longrightarrow> quietly1 os (close_image conf os1)"
  unfolding close_image_def by (rule quiet_intros quietly_pure | assumption)+

lemma load_image_quiet [quiet_intros]: "quiet os os1 \<Longrightarrow> quietly os (load_image filename addr mode os1)"
  unfolding load_image_def by (auto intro!: quiet_intros simp: quietly_def [of os "map_option _ _"])

lemma release_fs_quiet [quiet_intros]: "quiet os os1 \<Longrightarrow> quietly1 os (release_fs p os1)"
  unfolding release_fs_def by (auto simp: quietly1_def bind_eq_Some_conv intro!: quiet_intros)

lemma load_segment_page_quiet [quiet_intros]: "quiet os os1 \<Longrightarrow> quietly os (load_segment_page fd sg v pa b os1)"
  unfolding load_segment_page_def by (rule quiet_intros quietly_pure | assumption)+

lemma pool_quiet [quiet_intros]:
  "quiet os os1 \<Longrightarrow> quietly os (init_pool p conf os1)" "quiet os os1 \<Longrightarrow> quietly1 os (destroy_pool p os1)"
  unfolding init_pool_def destroy_pool_def by (rule quiet_intros quietly_pure | assumption)+

lemma load_failed_quiet [quiet_intros]: "quiet os os1 \<Longrightarrow> quietly os (load_failed p conf b os1)"
  unfolding load_failed_def by (rule quiet_intros quietly_pure | assumption)+

lemma load_pages_quiet [quiet_intros]: "quiet os os1 \<Longrightarrow> quietly os (load_pages p conf b pgs os1)"
proof (induction pgs arbitrary: os1)
  case Nil
  then show ?case unfolding load_pages.simps by - (rule quiet_intros quietly_pure | assumption)+
next
  case (Cons pg pgs)
  obtain sg v where "pg = (sg, v)" by fastforce
  then show ?case unfolding load_pages.simps \<open>pg = _\<close> using Cons.prems
    by - (rule quiet_intros quietly_pure Cons.IH | assumption)+
qed

lemma createUserVirtualPool_quiet [quiet_intros]: "quiet os os1 \<Longrightarrow> quietly os (createUserVirtualPool p conf mode os1)"
  unfolding createUserVirtualPool_def by (rule quiet_intros quietly_pure | assumption)+

lemma destroy_space_quiet [quiet_intros]: "quiet os os1 \<Longrightarrow> quietly1 os (destroy_space p os1)"
  unfolding destroy_space_def by (rule quiet_intros quietly_pure | assumption)+

lemma user_stack_quiet [quiet_intros]: "quiet os os1 \<Longrightarrow> quietly1 os (user_stack p os1)"
  unfolding user_stack_def by (rule quiet_intros quietly_pure | assumption)+

lemma load_process_quiet [quiet_intros]: "quiet os os1 \<Longrightarrow> quietly1 os (load_process ent os1)"
  unfolding load_process_def by (rule quiet_intros quietly_pure | assumption)+

section \<open>The table under these operations\<close>

definition same_frame :: "OS \<Rightarrow> OS \<Rightarrow> bool" where
  "same_frame os os' \<longleftrightarrow> PCB_SET os' = PCB_SET os \<and> all_list os' = all_list os \<and> rr_list os' = rr_list os \<and>
     fifs_list os' = fifs_list os \<and> sType os' = sType os \<and> run os' = run os"

lemma same_frame_tags:
  assumes "same_frame os os'"
  shows "tagInAllList os' = tagInAllList os" "tagInGeneralList os' = tagInGeneralList os" "ListItem2PCB os' = ListItem2PCB os"
    "heads_ok os' = heads_ok os" "ready_head os' = ready_head os" "all_list os' = all_list os" "run os' = run os"
  using assms by (simp_all add: same_frame_def fun_eq_iff tagInAllList_def tagInGeneralList_def ListItem2PCB_def heads_ok_def ready_head_def
      split: SchedulerType.split)

lemma same_frame_refl [simp]: "same_frame os os"
  by (simp add: same_frame_def)

lemma same_frame_trans: "same_frame a b \<Longrightarrow> same_frame b c \<Longrightarrow> same_frame a c"
  by (simp add: same_frame_def)

lemma same_frame_upd [simp]:
  "same_frame os (upd_pcb p f os1) = same_frame os os1" "same_frame os (set_status p st os1) = same_frame os os1"
  "same_frame os (os1\<lparr>links := k\<rparr>) = same_frame os os1" "same_frame os (os1\<lparr>interrupts := i\<rparr>) = same_frame os os1"
  "same_frame os (os1\<lparr>PCB_SET_STATUS := b\<rparr>) = same_frame os os1" "same_frame os (os1\<lparr>pcbs := c\<rparr>) = same_frame os os1"
  "same_frame os (os1\<lparr>os_mm := m\<rparr>) = same_frame os os1" "same_frame os (os1\<lparr>os_fm := fm\<rparr>) = same_frame os os1"
  by (simp_all add: same_frame_def upd_pcb_def set_status_def)

lemma quietD:
  assumes "quiet os os'"
  shows "same_frame os os'" "links os' = links os" "PCB_SET_STATUS os' = PCB_SET_STATUS os" "same_life (pcbs os p) (pcbs os' p)"
proof -
  obtain mm fm k s i where o: "os' = os\<lparr>pcbs := pcbs os', interrupts := i, os_mm := mm, os_fm := fm, os_keyboard := k, os_screen := s\<rparr>"
    using assms unfolding quiet_def by blast
  show "same_frame os os'" by (subst o) (simp add: same_frame_def)
  show "links os' = links os" by (subst o) simp
  show "PCB_SET_STATUS os' = PCB_SET_STATUS os" by (subst o) simp
  show "same_life (pcbs os p) (pcbs os' p)" using assms by (simp add: quiet_def)
qed

lemma table_same:
  "same_frame os os' \<Longrightarrow> links os' = links os \<Longrightarrow> PCB_SET_STATUS os' = PCB_SET_STATUS os \<Longrightarrow> table os' = table os"
  by (intro ext) (simp add: table_def same_frame_tags)

lemma quiet_table: "quiet os os' \<Longrightarrow> table os' = table os"
  using quietD table_same by blast

text \<open>An operation on the list of all programs leaves the ready queue alone.\<close>

lemma ready_list_frame:
  assumes h: "heads_ok os" and l: "list_at s (ready_head os) (map (tagInGeneralList os) rs)" and rs: "\<forall>p\<in>set rs. p < MAX_PROGRAM_AMOUNT"
    and o: "only s s' (set (all_list os # map (tagInAllList os) xs))" and x: "\<forall>p\<in>set xs. p < MAX_PROGRAM_AMOUNT"
  shows "list_at s' (ready_head os) (map (tagInGeneralList os) rs)"
proof (rule list_at_frame [OF l o])
  have "all_list os \<noteq> ready_head os" using h ready_head_cases(1) [of os] by (auto simp: heads_ok_def)
  moreover have "\<forall>p\<in>set xs. tagInAllList os p \<noteq> ready_head os" using h x tag_not_head(2) ready_head_cases(2) by blast
  moreover have "\<forall>p\<in>set rs. tagInGeneralList os p \<noteq> all_list os" using h rs tag_not_head(1) by blast
  ultimately show "set (all_list os # map (tagInAllList os) xs) \<inter> set (ready_head os # map (tagInGeneralList os) rs) = {}"
    by (simp add: disjoint_iff image_iff) (metis tag_neq(1))
qed

lemma map_remove1: "inj_on f (set xs \<union> {x}) \<Longrightarrow> map f (remove1 x xs) = remove1 (f x) (map f xs)"
  by (induction xs) (auto simp: inj_on_def)

lemma allocatePCB_cases:
  assumes t: "table os ps rs"
  shows "allocatePCB os = (None, os) \<or>
    (\<exists>t k. allocatePCB os = (Some t, os\<lparr>PCB_SET_STATUS := (PCB_SET_STATUS os)(t := True), pcbs := (pcbs os)(t := zero_pcb), links := k\<rparr>) \<and>
       t < MAX_PROGRAM_AMOUNT \<and> t \<notin> set ps \<and> \<not> PCB_SET_STATUS os t \<and>
       list_at k (all_list os) (map (tagInAllList os) ps) \<and> list_at k (ready_head os) (map (tagInGeneralList os) rs))"
proof (cases "find (\<lambda>i. \<not> PCB_SET_STATUS os i) [0..<MAX_PROGRAM_AMOUNT]")
  case None
  then show ?thesis by (simp add: allocatePCB_def)
next
  case (Some i)
  then have i: "i < MAX_PROGRAM_AMOUNT" "\<not> PCB_SET_STATUS os i" by (auto simp: find_Some_iff)
  have n: "i \<notin> set ps" using t i by (auto simp: table_def)
  define k where "k = (links os)(tagInGeneralList os i := \<lparr>previous = None, next = None\<rparr>, tagInAllList os i := \<lparr>previous = None, next = None\<rparr>)"
  have o: "only (links os) k {tagInGeneralList os i, tagInAllList os i}" by (simp add: only_def k_def)
  have h: "heads_ok os" and m: "set rs \<subseteq> set ps" using tableD [OF t] by auto
  have ne: "tagInGeneralList os i \<noteq> all_list os" "tagInAllList os i \<noteq> all_list os" "tagInGeneralList os i \<noteq> ready_head os" "tagInAllList os i \<noteq> ready_head os"
    using tag_not_head [OF h i(1)] ready_head_cases(2) [of os] by auto
  have d: "tagInGeneralList os p \<noteq> tagInAllList os q" "tagInAllList os q \<noteq> tagInGeneralList os p" for p q by simp_all
  have "{tagInGeneralList os i, tagInAllList os i} \<inter> set (all_list os # map (tagInAllList os) ps) = {}"
    "{tagInGeneralList os i, tagInAllList os i} \<inter> set (ready_head os # map (tagInGeneralList os) rs) = {}"
    using ne n m by auto
  then have "list_at k (all_list os) (map (tagInAllList os) ps)" "list_at k (ready_head os) (map (tagInGeneralList os) rs)"
    using t list_at_frame [OF _ o] by (auto simp: table_def)
  moreover have "allocatePCB os = (Some i, os\<lparr>PCB_SET_STATUS := (PCB_SET_STATUS os)(i := True), pcbs := (pcbs os)(i := zero_pcb), links := k\<rparr>)"
    using Some by (simp add: allocatePCB_def k_def)
  ultimately show ?thesis using i n by blast
qed

lemma same_life_trans: "same_life a b \<Longrightarrow> same_life b c \<Longrightarrow> same_life a c"
  by (simp add: same_life_def)

lemma table_push_back:
  assumes h: "heads_ok os" and st: "set (ps @ [t]) = {p. p < MAX_PROGRAM_AMOUNT \<and> PCB_SET_STATUS os p}" "t \<notin> set ps" "set rs \<subseteq> set ps"
    and l: "list_at (links os) (all_list os) (map (tagInAllList os) ps)" "list_at (links os) (ready_head os) (map (tagInGeneralList os) rs)"
  shows "\<exists>s. List_push_back (all_list os) (tagInAllList os t) (links os) = Some s \<and> table (os\<lparr>links := s\<rparr>) (ps @ [t]) rs"
proof -
  have tm: "t < MAX_PROGRAM_AMOUNT" "\<forall>p\<in>set (t # ps). p < MAX_PROGRAM_AMOUNT" using st(1) by auto
  have "tagInAllList os t \<notin> set (all_list os # map (tagInAllList os) ps)"
    using tag_not_head(2) [OF h tm(1), of "all_list os"] st(2) by auto
  from List_push_back_at [OF l(1) this] obtain s where s: "List_push_back (all_list os) (tagInAllList os t) (links os) = Some s"
      "list_at s (all_list os) (map (tagInAllList os) (ps @ [t]))"
      "only (links os) s (set (all_list os # map (tagInAllList os) (t # ps)))" by auto
  have "list_at s (ready_head os) (map (tagInGeneralList os) rs)"
    by (rule ready_list_frame [OF h l(2) _ s(3) tm(2)]) (use tm st(3) in auto)
  then show ?thesis using s h st by (auto simp: table_def)
qed

definition new_program :: "OS \<Rightarrow> OS \<Rightarrow> nat \<Rightarrow> ProgramStatus \<Rightarrow> bool" where
  "new_program os os' t st \<longleftrightarrow> (\<forall>p. p \<noteq> t \<longrightarrow> same_life (pcbs os p) (pcbs os' p)) \<and> p_status (pcbs os' t) = st \<and> p_pid (pcbs os' t) = int t \<and>
     p_parentPid (pcbs os' t) = (case run os of None \<Rightarrow> 0 | Some c \<Rightarrow> p_pid (pcbs os c))"

lemma executeThread_effect:
  assumes t: "table os ps rs" and c: "run os = Some c" "c \<in> set ps" and x: "executeThread fn par nm prio q os = Some (r, os')"
  shows "same_frame os os' \<and> ((r = - 1 \<and> table os' ps rs \<and> PCB_SET_STATUS os' = PCB_SET_STATUS os \<and>
      (\<forall>p\<in>set ps. same_life (pcbs os p) (pcbs os' p))) \<or>
    (\<exists>t. r = int t \<and> t \<notin> set ps \<and> table os' (ps @ [t]) (if q then rs @ [t] else rs) \<and> new_program os os' t (if q then READY else CREATED)))"
proof -
  let ?os = "os\<lparr>interrupts := False\<rparr>"
  have t0: "table ?os ps rs" using t by simp
  show ?thesis
  proof (cases "fst (allocatePCB ?os)")
    case None
    then have "allocatePCB ?os = (None, ?os)" using allocatePCB_cases [OF t0] by auto
    then show ?thesis using x t0 by (auto simp: executeThread_def)
  next
    case (Some i)
    then have "allocatePCB ?os \<noteq> (None, ?os)" by auto
    then obtain i' k where raw: "allocatePCB ?os = (Some i', ?os\<lparr>PCB_SET_STATUS := (PCB_SET_STATUS ?os)(i' := True), pcbs := (pcbs ?os)(i' := zero_pcb), links := k\<rparr>)"
        "i' < MAX_PROGRAM_AMOUNT" "i' \<notin> set ps" "\<not> PCB_SET_STATUS ?os i'" "list_at k (all_list ?os) (map (tagInAllList ?os) ps)"
        "list_at k (ready_head ?os) (map (tagInGeneralList ?os) rs)"
      using allocatePCB_cases [OF t0] by blast
    have "i' = i" using raw(1) Some by (simp only: fst_conv option.inject)
    note a = raw(1) [unfolded this, simplified] and i = raw(2,3,4) [unfolded this, simplified] and l = raw(5,6) [simplified]
    let ?os1 = "?os\<lparr>PCB_SET_STATUS := (PCB_SET_STATUS os)(i := True), pcbs := (pcbs os)(i := zero_pcb), links := k\<rparr>"
    define os2 where "os2 = upd_pcb i (new_thread ?os1 i nm prio) ?os1"
    have f2: "same_frame os os2" "links os2 = k" "PCB_SET_STATUS os2 = (PCB_SET_STATUS os)(i := True)"
      unfolding os2_def by simp_all (simp_all add: upd_pcb_def)
    have ci: "c \<noteq> i" using c i by auto
    have p2: "pcbs os2 = (pcbs os)(i := new_thread os i nm prio zero_pcb)"
      unfolding os2_def using c ci by (simp add: upd_pcb_def new_thread_def)
    obtain argv os3 where w: "with_mm (allocatePages KERNEL 1 VP_RW EMPTY) os2 = Some (argv, os3)"
      using x unfolding executeThread_def a Let_def prod.case option.case os2_def [symmetric]
      by (cases "with_mm (allocatePages KERNEL 1 VP_RW EMPTY) os2") auto
    define os4 where "os4 = upd_pcb i (\<lambda>c. c\<lparr>p_argv := argv\<rparr>) os3"
    have q24: "quiet os2 os4" unfolding os4_def using quietlyD [OF with_quiet(1) [OF quiet_refl] w] by (auto intro!: quiet_intros)
    note f4 = same_frame_trans [OF f2(1) quietD(1) [OF q24]] quietD(2,3) [OF q24, unfolded f2]
    have life4: "same_life (pcbs os p) (pcbs os4 p)" if "p \<noteq> i" for p
      using quietD(4) [OF q24, of p] p2 that by simp
    show ?thesis
    proof (cases "argv = 0")
      case True
      have r: "r = - 1" "os' = os4\<lparr>PCB_SET_STATUS := (PCB_SET_STATUS os4)(i := False), interrupts := interrupts os\<rparr>"
        using x True by (auto simp: executeThread_def a os2_def [symmetric] w os4_def Let_def)
      have s: "(PCB_SET_STATUS os)(i := False) = PCB_SET_STATUS os" by (rule fun_upd_idem) (use i in simp)
      have "same_frame os os'" using f4(1) r by simp
      moreover have "table os' ps rs" using t l f4 r s by (auto simp: table_def same_frame_tags)
      moreover have "PCB_SET_STATUS os' = PCB_SET_STATUS os" using r f4 s by simp
      moreover have "same_life (pcbs os p) (pcbs os' p)" if "p \<in> set ps" for p using life4 [of p] r i that by auto
      ultimately show ?thesis using r by blast
    next
      case False
      define os5 where "os5 = upd_pcb i (\<lambda>c. (clear_process_args c)\<lparr>p_fs := init_process_fs (p_fs c), p_stack := start_frame fn (program_exit_at os4) par\<rparr>) os4"
      have f5: "same_frame os os5" "links os5 = k" "PCB_SET_STATUS os5 = (PCB_SET_STATUS os)(i := True)"
        using f4 unfolding os5_def by simp_all (simp_all add: upd_pcb_def)
      have life5: "same_life (pcbs os p) (pcbs os5 p)" if "p \<noteq> i" for p using life4 [OF that] that unfolding os5_def by (simp add: upd_pcb_def)
      have i5: "p_pid (pcbs os5 i) = int i" "p_status (pcbs os5 i) = CREATED" "p_parentPid (pcbs os5 i) = (case run os of None \<Rightarrow> 0 | Some c \<Rightarrow> p_pid (pcbs os c))"
        using quietD(4) [OF q24, of i] p2 unfolding os5_def
        by (simp_all add: upd_pcb_def same_life_def new_thread_def clear_process_args_def)
      note g5 = same_frame_tags [OF f5(1)]
      have "set (ps @ [i]) = {p. p < MAX_PROGRAM_AMOUNT \<and> PCB_SET_STATUS os5 p}" using t i f5(3) by (auto simp: table_def)
      from table_push_back [OF _ this i(2) tableD(5) [OF t]] obtain s
        where s: "List_push_back (all_list os5) (tagInAllList os5 i) (links os5) = Some s" "table (os5\<lparr>links := s\<rparr>) (ps @ [i]) rs"
        using tableD(1) [OF t] l unfolding f5(2) g5 by blast
      let ?os6 = "os5\<lparr>links := s\<rparr>"
      have pb: "on_links (List_push_back (all_list os5) (tagInAllList os5 i)) os5 = Some ?os6" using s(1) by (simp add: on_links_def)
      have x': "(if q then enqueue i (set_status i READY ?os6) else Some ?os6) \<bind> (\<lambda>o'. Some (int i, o'\<lparr>interrupts := interrupts os\<rparr>)) = Some (r, os')"
        using x False pb by (simp add: executeThread_def a os2_def [symmetric] w os4_def [symmetric] os5_def [symmetric] Let_def)
      have ir: "i \<notin> set rs" using i(2) tableD(5) [OF t] by auto
      show ?thesis
      proof (cases q)
        case True
        have "table (set_status i READY ?os6) (ps @ [i]) rs" using s(2) by (simp add: set_status_def upd_pcb_def)
        from enqueue_table [OF this _ ir] obtain s' where e: "enqueue i (set_status i READY ?os6) = Some ((set_status i READY ?os6)\<lparr>links := s'\<rparr>)"
            "table ((set_status i READY ?os6)\<lparr>links := s'\<rparr>) (ps @ [i]) (rs @ [i])" by auto
        have r: "r = int i" "os' = (set_status i READY ?os6)\<lparr>links := s', interrupts := interrupts os\<rparr>" using x' True e by auto
        have "new_program os os' i READY" using r life5 i5 by (auto simp: new_program_def set_status_def upd_pcb_def)
        moreover have "table os' (ps @ [i]) (rs @ [i])" using e(2) r by simp
        moreover have "same_frame os os'" using r f5(1) by simp
        ultimately show ?thesis using r True i by auto
      next
        case F: False
        then have r: "r = int i" "os' = ?os6\<lparr>interrupts := interrupts os\<rparr>" using x' by auto
        have "new_program os os' i CREATED" using r life5 i5 by (auto simp: new_program_def)
        moreover have "table os' (ps @ [i]) rs" using s(2) r by simp
        moreover have "same_frame os os'" using r f5(1) by simp
        ultimately show ?thesis using r F i by auto
      qed
    qed
  qed
qed

section \<open>The table in order\<close>

definition live :: "OS \<Rightarrow> nat list \<Rightarrow> nat list \<Rightarrow> nat \<Rightarrow> bool" where
  "live os ps rs c \<longleftrightarrow> sched os ps rs \<and> run os = Some c \<and> p_status (pcbs os c) = RUNNING"

lemma liveD:
  assumes "live os ps rs c"
  shows "sched os ps rs" "run os = Some c" "p_status (pcbs os c) = RUNNING" "table os ps rs" "c \<in> set ps" "c \<notin> set rs"
  using assms schedD [of os ps rs c] by (auto simp: live_def)

lemma live_life:
  assumes l: "live os ps rs c" and f: "same_frame os os'" and t: "table os' ps rs" and p: "\<And>p. p \<in> set ps \<Longrightarrow> same_life (pcbs os p) (pcbs os' p)"
  shows "live os' ps rs c"
proof -
  note d = liveD [OF l]
  note e = schedD [OF d(1,2)]
  have "sched os' ps rs"
  proof (rule schedI [OF t])
    show "run os' = Some c" using same_frame_tags(7) [OF f] d(2) by simp
    show "p_pid (pcbs os' q) = int q" if "q \<in> set ps" for q using e(4) [OF that] p [OF that] by (simp add: same_life_def)
    show "p_status (pcbs os' q) = READY \<longleftrightarrow> q \<in> set rs" if "q \<in> set ps" "q \<noteq> c" for q
      using e(5) [OF that] p [OF that(1)] by (simp add: same_life_def)
  qed (use d in simp_all)
  then show ?thesis using d(2,3,5) p [of c] same_frame_tags(7) [OF f] by (simp add: live_def same_life_def)
qed

lemma live_quiet: "live os ps rs c \<Longrightarrow> quiet os os' \<Longrightarrow> live os' ps rs c"
  using live_life [OF _ quietD(1)] quietD(4) quiet_table liveD(4) by metis

lemma live_interrupts [simp]: "live (os\<lparr>interrupts := i\<rparr>) ps rs c = live os ps rs c"
proof -
  have "live (os\<lparr>interrupts := j\<rparr>) ps rs c" if "live os ps rs c" for j os
    by (rule live_quiet [OF that]) (rule quiet_intros)+
  from this [of os i] this [of "os\<lparr>interrupts := i\<rparr>" "interrupts os"] show ?thesis by auto
qed

lemma live_new:
  assumes l: "live os ps rs c" and f: "same_frame os os'" and t: "t \<notin> set ps" "table os' (ps @ [t]) (if q then rs @ [t] else rs)"
    and n: "new_program os os' t (if q then READY else CREATED)"
  shows "live os' (ps @ [t]) (if q then rs @ [t] else rs) c" "p_status (pcbs os' t) = (if q then READY else CREATED)" "t \<notin> set rs" "c \<noteq> t"
proof -
  note d = liveD [OF l]
  note e = schedD [OF d(1,2)]
  have life: "same_life (pcbs os q) (pcbs os' q)" if "q \<in> set ps" for q using n t(1) that by (auto simp: new_program_def)
  show tr: "t \<notin> set rs" and ct: "c \<noteq> t" using t(1) tableD(5) [OF d(4)] d(5) by auto
  have "sched os' (ps @ [t]) (if q then rs @ [t] else rs)"
  proof (rule schedI [OF t(2)])
    show "run os' = Some c" using same_frame_tags(7) [OF f] d(2) by simp
    show "p_pid (pcbs os' p) = int p" if "p \<in> set (ps @ [t])" for p
      using that e(4) [of p] life [of p] n by (auto simp: same_life_def new_program_def)
    show "p_status (pcbs os' p) = READY \<longleftrightarrow> p \<in> set (if q then rs @ [t] else rs)" if "p \<in> set (ps @ [t])" "p \<noteq> c" for p
      using that e(5) [of p] life [of p] n tr t(1) by (auto simp: same_life_def new_program_def)
  qed (use d ct in auto)
  then show "live os' (ps @ [t]) (if q then rs @ [t] else rs) c"
    using d(2,3,5) life [of c] same_frame_tags(7) [OF f] by (simp add: live_def same_life_def)
  show "p_status (pcbs os' t) = (if q then READY else CREATED)" using n by (simp add: new_program_def)
qed

lemma table_set_status [simp]: "table (set_status p st os) = table os"
  by (simp add: set_status_def upd_pcb_def)

lemma live_dead:
  assumes l: "live os ps rs c" and "p \<notin> set rs" "p \<noteq> c"
  shows "live (set_status p DEAD os) ps rs c"
proof -
  note d = liveD [OF l]
  note e = schedD [OF d(1,2)]
  have "sched (set_status p DEAD os) ps rs"
    by (rule schedI [of _ _ _ c]) (use d e assms in \<open>auto simp: set_status_def upd_pcb_def\<close>)
  then show ?thesis using d assms by (simp add: live_def set_status_def upd_pcb_def)
qed

lemma live_ready:
  assumes l: "live os ps rs c" and p: "p \<in> set ps" "p \<notin> set rs" "p \<noteq> c" and x: "enqueue p (set_status p READY os) = Some os'"
  shows "live os' ps (rs @ [p]) c"
proof -
  note d = liveD [OF l]
  note e = schedD [OF d(1,2)]
  obtain s where s: "enqueue p (set_status p READY os) = Some ((set_status p READY os)\<lparr>links := s\<rparr>)" "table ((set_status p READY os)\<lparr>links := s\<rparr>) ps (rs @ [p])"
    using enqueue_table [of "set_status p READY os" ps rs p] d(4) p by auto
  have "sched os' ps (rs @ [p])"
    by (rule schedI [of _ _ _ c]) (use d e p x s in \<open>auto simp: set_status_def upd_pcb_def\<close>)
  then show ?thesis using d p x s by (auto simp: live_def set_status_def upd_pcb_def)
qed

lemma youngest_last:
  assumes "table os (ps @ [t]) rs"
  shows "youngest os = Some t"
  using List_back_at [of "links os" "all_list os" "map (tagInAllList os) (ps @ [t])"] assms
  by (simp add: youngest_def table_def)

text \<open>Operations that keep the table in order and leave what dead programs have left behind.\<close>

definition keeps_dead :: "OS \<Rightarrow> nat list \<Rightarrow> OS \<Rightarrow> bool" where
  "keeps_dead os ps os' \<longleftrightarrow> (\<exists>ps' rs' c'. live os' ps' rs' c' \<and>
     (\<forall>z\<in>set ps. p_status (pcbs os z) = DEAD \<longrightarrow> z \<in> set ps' \<and> same_life (pcbs os z) (pcbs os' z)))"

lemma keeps_deadI:
  "live os' ps' rs' c' \<Longrightarrow> set ps \<subseteq> set ps' \<Longrightarrow> (\<And>z. z \<in> set ps \<Longrightarrow> p_status (pcbs os z) = DEAD \<Longrightarrow> same_life (pcbs os z) (pcbs os' z)) \<Longrightarrow>
     keeps_dead os ps os'"
  unfolding keeps_dead_def by blast

lemma keeps_dead_refl: "live os ps rs c \<Longrightarrow> keeps_dead os ps os"
  by (rule keeps_deadI) auto

lemma keeps_dead_quiet: "live os ps rs c \<Longrightarrow> quiet os os' \<Longrightarrow> keeps_dead os ps os'"
  by (rule keeps_deadI [OF live_quiet]) (auto simp: quietD(4))

lemma keeps_dead_trans:
  "(\<And>z. z \<in> set ps \<Longrightarrow> p_status (pcbs os z) = DEAD \<Longrightarrow> same_life (pcbs os z) (pcbs os1 z)) \<Longrightarrow> keeps_dead os1 ps os' \<Longrightarrow> keeps_dead os ps os'"
  unfolding keeps_dead_def using same_life_trans by (metis (no_types, opaque_lifting) same_life_def)

text \<open>Creation of threads and processes.\<close>

lemma executeThread_live:
  assumes l: "live os ps rs c" and x: "executeThread fn par nm prio q os = Some (r, os')"
  shows "r = - 1 \<and> live os' ps rs c \<and> PCB_SET_STATUS os' = PCB_SET_STATUS os \<and> (\<forall>p\<in>set ps. same_life (pcbs os p) (pcbs os' p)) \<or>
    (\<exists>t. r = int t \<and> t \<notin> set ps \<and> t \<notin> set rs \<and> c \<noteq> t \<and> live os' (ps @ [t]) (if q then rs @ [t] else rs) c \<and>
      new_program os os' t (if q then READY else CREATED))"
  using executeThread_effect [OF liveD(4,2,5) [OF l] x] live_life [OF l] live_new [OF l] by metis

lemma enqueue_only_links: "enqueue p os = Some os' \<Longrightarrow> \<exists>k. os' = os\<lparr>links := k\<rparr>"
  by (auto simp: enqueue_links on_links_def)

lemma executeThread_keeps_dead:
  assumes l: "live os ps rs c" and x: "executeThread fn par nm prio q os = Some (r, os')"
  shows "keeps_dead os ps os'"
  using executeThread_live [OF assms]
proof (elim disjE exE conjE)
  fix t assume "live os' (ps @ [t]) (if q then rs @ [t] else rs) c" "t \<notin> set ps" "new_program os os' t (if q then READY else CREATED)"
  then show ?thesis by (intro keeps_deadI [of os' "ps @ [t]"]) (auto simp: new_program_def)
qed (rule keeps_deadI, auto)

lemma executeProcess_keeps_dead:
  assumes l: "live os ps rs c" and x: "executeProcess filename addr prio mode os = Some (r, os')"
  shows "keeps_dead os ps os'"
proof -
  obtain conf os1 where i: "load_image filename addr mode (os\<lparr>interrupts := False\<rparr>) = Some (conf, os1)"
    using x by (auto simp: executeProcess_def bind_eq_Some_conv Let_def)
  have q1: "quiet os os1" by (rule quietlyD [OF load_image_quiet i]) (rule quiet_intros)+
  then have l1: "live os1 ps rs c" by (rule live_quiet [OF l])
  note life1 = quietD(4) [OF q1]
  show ?thesis
  proof (cases "c_entry conf = 0")
    case True
    then have o: "os' = os1\<lparr>interrupts := interrupts os\<rparr>" using x i by (auto simp: executeProcess_def)
    have "quiet os os'" unfolding o by (rule quiet_intros q1)+
    then show ?thesis by (rule keeps_dead_quiet [OF l])
  next
    case F: False
    obtain pid os2 where e: "executeThread (load_process_at os1) (c_entry conf) filename prio False os1 = Some (pid, os2)"
      using x i F by (auto simp: executeProcess_def bind_eq_Some_conv Let_def)
    show ?thesis
    proof (cases "pid = - 1")
      case True
      then have l2: "live os2 ps rs c" "\<And>z. z \<in> set ps \<Longrightarrow> same_life (pcbs os1 z) (pcbs os2 z)" using executeThread_live [OF l1 e] by auto
      obtain os3 where cl: "close_image conf os2 = Some os3" "os' = os3\<lparr>interrupts := interrupts os\<rparr>"
        using x i F e True by (auto simp: executeProcess_def bind_eq_Some_conv Let_def)
      have "quiet os2 os'" unfolding cl(2) by (rule quiet_intros quietly1D [OF close_image_quiet [OF quiet_refl] cl(1)])+
      then have "keeps_dead os2 ps os'" by (rule keeps_dead_quiet [OF l2(1)])
      then show ?thesis by (rule keeps_dead_trans [rotated]) (use life1 l2(2) same_life_trans in blast)
    next
      case nm: False
      then obtain t where t: "pid = int t" "t \<notin> set ps" "t \<notin> set rs" "c \<noteq> t" "live os2 (ps @ [t]) rs c" "new_program os1 os2 t CREATED"
        using executeThread_live [OF l1 e] by auto
      have y: "youngest os2 = Some t" using youngest_last liveD(4) [OF t(5)] by blast
      obtain dir os3 where w: "with_mm (createProcessPageDirectory (word_of_int (p_pid (pcbs os2 t)))) os2 = Some (dir, os3)"
        using x i F e nm y by (auto simp: executeProcess_def bind_eq_Some_conv Let_def)
      define os4 where "os4 = upd_pcb t (\<lambda>c. c\<lparr>p_pageDirectoryAddress := dir\<rparr>) os3"
      have q4: "quiet os2 os4" unfolding os4_def by (rule quiet_intros quietlyD [OF with_quiet(1) [OF quiet_refl] w])+
      have life4: "same_life (pcbs os z) (pcbs os4 z)" if "z \<in> set ps" for z
        using life1 [of z] quietD(4) [OF q4, of z] t(2,6) that by (auto simp: new_program_def same_life_def)
      have l4: "live os4 (ps @ [t]) rs c" by (rule live_quiet [OF t(5) q4])
      define i0 where "i0 = interrupts os"
      have x4: "(if dir = 0 then do { os \<leftarrow> close_image conf (set_status t DEAD os4); Some (- 1, os\<lparr>interrupts := i0\<rparr>) }
         else do {
           (res, os) \<leftarrow> createUserVirtualPool t conf mode os4;
           if \<not> res then do { os \<leftarrow> close_image conf (set_status t DEAD os); Some (- 1, os\<lparr>interrupts := i0\<rparr>) }
           else do {
             os \<leftarrow> close_image conf os;
             os \<leftarrow> enqueue t (set_status t READY os);
             Some (pid, os\<lparr>interrupts := i0\<rparr>)
           }
         }) = Some (r, os')"
        using x i F e nm y w unfolding executeProcess_def Let_def os4_def i0_def by (auto split: if_splits)
      have dead: "keeps_dead os ps o'" if h: "live o4 (ps @ [t]) rs c" "\<And>z. z \<in> set ps \<Longrightarrow> same_life (pcbs os4 z) (pcbs o4 z)"
          "close_image conf (set_status t DEAD o4) = Some o5" "o' = o5\<lparr>interrupts := i\<rparr>" for o4 o5 o' i
      proof -
        have "live (set_status t DEAD o4) (ps @ [t]) rs c" by (rule live_dead [OF h(1) t(3)]) (use t(4) in simp)
        moreover have q: "quiet (set_status t DEAD o4) o'" unfolding h(4) by (rule quiet_intros quietly1D [OF close_image_quiet [OF quiet_refl] h(3)])+
        ultimately have "live o' (ps @ [t]) rs c" by (rule live_quiet)
        then show ?thesis
        proof (rule keeps_deadI)
          show "same_life (pcbs os z) (pcbs o' z)" if z: "z \<in> set ps" for z
            using life4 [OF z] h(2) [OF z] quietD(4) [OF q, of z] z t(2) by (auto simp: same_life_def set_status_def upd_pcb_def split: if_splits)
        qed auto
      qed
      show ?thesis
      proof (cases "dir = 0")
        case True
        then obtain o5 where "close_image conf (set_status t DEAD os4) = Some o5" "os' = o5\<lparr>interrupts := i0\<rparr>" using x4 by (auto simp: bind_eq_Some_conv)
        then show ?thesis by (rule dead [OF l4 same_life_refl])
      next
        case False
        obtain res os5 where u: "createUserVirtualPool t conf mode os4 = Some (res, os5)"
          using x4 False by (auto simp: bind_eq_Some_conv)
        have q5: "quiet os4 os5" by (rule quietlyD [OF createUserVirtualPool_quiet [OF quiet_refl] u])
        have l5: "live os5 (ps @ [t]) rs c" by (rule live_quiet [OF l4 q5])
        show ?thesis
        proof (cases res)
          case False
          then obtain o6 where "close_image conf (set_status t DEAD os5) = Some o6" "os' = o6\<lparr>interrupts := i0\<rparr>"
            using x4 \<open>dir \<noteq> 0\<close> u by (auto simp: bind_eq_Some_conv)
          then show ?thesis by (rule dead [OF l5 quietD(4) [OF q5]])
        next
          case True
          then obtain os6 os7 where cl: "close_image conf os5 = Some os6" "enqueue t (set_status t READY os6) = Some os7" "os' = os7\<lparr>interrupts := i0\<rparr>"
            using x4 \<open>dir \<noteq> 0\<close> u by (auto simp: bind_eq_Some_conv)
          have q6: "quiet os5 os6" by (rule quietly1D [OF close_image_quiet [OF quiet_refl] cl(1)])
          then have "live os6 (ps @ [t]) rs c" by (rule live_quiet [OF l5])
          then have "live os7 (ps @ [t]) (rs @ [t]) c" by (rule live_ready) (use t cl in auto)
          then have "live os' (ps @ [t]) (rs @ [t]) c" using cl(3) by simp
          then show ?thesis
          proof (rule keeps_deadI)
            have o7: "pcbs os' = pcbs (set_status t READY os6)" using cl(2,3) by (auto dest!: enqueue_only_links)
            show "same_life (pcbs os z) (pcbs os' z)" if z: "z \<in> set ps" for z
              using life4 [OF z] quietD(4) [OF q5, of z] quietD(4) [OF q6, of z] z t(2) unfolding o7
              by (auto simp: same_life_def set_status_def upd_pcb_def split: if_splits)
          qed auto
        qed
      qed
    qed
  qed
qed

text \<open>The scheduler.\<close>

lemma schedule_dir:
  assumes s: "sched os ps (n # rs)" and c: "run os = Some c" and x: "schedule os = Some os'"
  shows "\<exists>a. dir_at os n = Some a"
proof -
  have t0: "table (os\<lparr>interrupts := False\<rparr>) ps (n # rs)" using schedD(1) [OF s c] by simp
  obtain k where k: "pickNext (os\<lparr>interrupts := False\<rparr>) = (Some n, os\<lparr>interrupts := False, links := k\<rparr>)"
    using pickNext_table [OF t0] by auto
  obtain o1 o2 where o: "(if p_status (pcbs os c) \<noteq> DEAD then enqueue c (set_status c READY (set_status n RUNNING (os\<lparr>interrupts := False, links := k\<rparr>)))
      else Some (set_status n RUNNING (os\<lparr>interrupts := False, links := k\<rparr>))) = Some o1" "activateProgramPage n (o1\<lparr>run := Some n\<rparr>) = Some o2"
    using x c k by (auto simp: schedule_def Let_def bind_eq_Some_conv split: if_splits)
  have e: "page_dir (o1\<lparr>run := Some n\<rparr>) n = page_dir os n" "os_mm (o1\<lparr>run := Some n\<rparr>) = os_mm os"
    using o(1) by (auto dest!: enqueue_only_links simp: page_dir_def set_status_def upd_pcb_def split: if_splits)
  show ?thesis
  proof (cases "page_dir os n = 0")
    case False
    then show ?thesis using o(2) e unfolding activateProgramPage_def dir_at_def page_dir_def Let_def
      by (auto simp: bind_eq_Some_conv mm_of_def)
  qed (simp add: dir_at_def)
qed

lemma schedule_live:
  assumes s: "sched os ps rs" "run os = Some c" and st: "p_status (pcbs os c) \<in> {RUNNING, DEAD}" and x: "schedule os = Some os'"
  shows "case rs of [] \<Rightarrow> os' = os \<and> p_status (pcbs os c) = RUNNING
     | n # ns \<Rightarrow> live os' ps (if p_status (pcbs os c) = DEAD then ns else ns @ [c]) n \<and>
         pcbs os' = (pcbs os)(n := taken_up os (pcbs os n), c := left (interrupts os) (pcbs os c)) \<and> n \<noteq> c"
proof (cases rs)
  case Nil
  have t: "table (os\<lparr>interrupts := False\<rparr>) ps []" using schedD(1) [OF s] Nil by simp
  have p: "pickNext (os\<lparr>interrupts := False\<rparr>) = (None, os\<lparr>interrupts := False\<rparr>)" using pickNext_table [OF t] by auto
  have "p_status (pcbs os c) \<noteq> DEAD" using x s(2) p by (auto simp: schedule_def Let_def)
  then show ?thesis using schedule_alone [of os ps c] s Nil st x by auto
next
  case (Cons n ns)
  obtain a where "dir_at os n = Some a" using schedule_dir [OF _ s(2) x] s(1) Cons by blast
  from schedule_sched [OF _ s(2) this] s(1) Cons x
  have o: "run os' = Some n" "sched os' ps (if p_status (pcbs os c) = DEAD then ns else ns @ [c])"
      "pcbs os' = (pcbs os)(n := taken_up os (pcbs os n), c := left (interrupts os) (pcbs os c))" by auto
  have "n \<noteq> c" using schedD(3) [OF s] Cons by auto
  then show ?thesis using o Cons by (simp add: live_def)
qed

lemma schedule_live': "sched os ps rs \<Longrightarrow> run os = Some c \<Longrightarrow> p_status (pcbs os c) \<in> {RUNNING, DEAD} \<Longrightarrow> schedule os = Some os' \<Longrightarrow>
    \<exists>ps' rs' c'. live os' ps' rs' c'"
  using schedule_live [of os ps rs c os'] by (cases rs) (auto simp: live_def)

lemma schedule_keeps_dead:
  assumes s: "sched os ps rs" "run os = Some c" "p_status (pcbs os c) \<in> {RUNNING, DEAD}" "schedule os = Some os'"
    and e: "\<And>z. z \<in> set ps \<Longrightarrow> p_status (pcbs os0 z) = DEAD \<Longrightarrow> z \<noteq> c \<and> same_life (pcbs os0 z) (pcbs os z)"
  shows "keeps_dead os0 ps os'"
proof (cases rs)
  case Nil
  then have "os' = os" "live os ps [] c" using schedule_live [OF s] s(1,2) by (auto simp: live_def)
  then show ?thesis using e by (intro keeps_deadI [of os' ps "[]" c]) auto
next
  case (Cons n ns)
  note r = schedule_live [OF s, unfolded Cons, simplified]
  have n: "n \<in> set ps" "p_status (pcbs os n) = READY"
    using schedD(5) [OF s(1,2), of n] tableD(5) [OF schedD(1) [OF s(1,2)]] r Cons by auto
  show ?thesis
  proof (rule keeps_deadI [OF conjunct1 [OF r]])
    show "same_life (pcbs os0 z) (pcbs os' z)" if "z \<in> set ps" "p_status (pcbs os0 z) = DEAD" for z
    proof -
      have "z \<noteq> n" using e [OF that] that(2) n(2) by (auto simp: same_life_def)
      then show ?thesis using e [OF that] r by simp
    qed
  qed auto
qed

text \<open>The walks over the list of all programs.\<close>

lemma ListItem2PCB_pcbs [simp]: "ListItem2PCB (os\<lparr>pcbs := c\<rparr>) = ListItem2PCB os" "ListItem2PCB (upd_pcb p f os) = ListItem2PCB os"
  by (simp_all add: fun_eq_iff ListItem2PCB_def upd_pcb_def)

definition is_child :: "OS \<Rightarrow> int \<Rightarrow> nat \<Rightarrow> nat \<Rightarrow> bool" where
  "is_child os pid r p \<longleftrightarrow> p_parentPid (pcbs os p) = p_pid (pcbs os r) \<and> (pid = - 1 \<or> p_pid (pcbs os p) = pid)"

lemma child_loop_forward:
  "forward (links os) item (map (tagInAllList os) ps) \<Longrightarrow>
    child_loop item pid r h os = Some (h \<or> (\<exists>p\<in>set ps. is_child os pid r p), find (\<lambda>p. is_child os pid r p \<and> p_status (pcbs os p) = DEAD) ps)"
proof (induction ps arbitrary: item h)
  case Nil
  then show ?case by (simp add: child_loop.simps)
next
  case (Cons p ps)
  then have i: "item = Some (tagInAllList os p)" "forward (links os) (next (links os (tagInAllList os p))) (map (tagInAllList os) ps)" by simp_all
  show ?case using i Cons.IH [OF i(2)] by (subst child_loop.simps) (auto simp: is_child_def)
qed

definition adopted :: "nat \<Rightarrow> (nat \<Rightarrow> PCB) \<Rightarrow> nat \<Rightarrow> PCB" where
  "adopted r c p = (if p \<noteq> r \<and> p_parentPid (c p) = p_pid (c r) then (c p)\<lparr>p_parentPid := 1\<rparr> else c p)"

lemma adopted_simps [simp]:
  "p_pid (adopted r c p) = p_pid (c p)" "p_status (adopted r c p) = p_status (c p)" "p_retValue (adopted r c p) = p_retValue (c p)"
  "adopted r c r = c r"
  by (simp_all add: adopted_def)

lemma orphan_loop_forward:
  "forward (links os) item (map (tagInAllList os) ps) \<Longrightarrow> distinct ps \<Longrightarrow>
    orphan_loop item r os = Some (os\<lparr>pcbs := (\<lambda>p. if p \<in> set ps then adopted r (pcbs os) p else pcbs os p)\<rparr>)"
proof (induction ps arbitrary: item os)
  case Nil
  then show ?case by (simp add: orphan_loop.simps)
next
  case (Cons p ps)
  have i: "item = Some (tagInAllList os p)" "forward (links os) (next (links os (tagInAllList os p))) (map (tagInAllList os) ps)"
    using Cons.prems by simp_all
  let ?os = "if p \<noteq> r \<and> p_parentPid (pcbs os p) = p_pid (pcbs os r) then upd_pcb p (\<lambda>c. c\<lparr>p_parentPid := 1\<rparr>) os else os"
  have o: "?os = os\<lparr>pcbs := (pcbs os)(p := adopted r (pcbs os) p)\<rparr>"
    by (auto simp: upd_pcb_def adopted_def)
  have f: "forward (links ?os) (next (links os (tagInAllList os p))) (map (tagInAllList ?os) ps)" using i(2) unfolding o by simp
  have step: "orphan_loop item r os = orphan_loop (next (links os (tagInAllList os p))) r ?os"
    using i(1) by (subst orphan_loop.simps) simp
  have eq: "(\<lambda>q. if q \<in> set ps then adopted r (pcbs ?os) q else pcbs ?os q) = (\<lambda>q. if q \<in> set (p # ps) then adopted r (pcbs os) q else pcbs os q)"
    unfolding o using Cons.prems(2) by (auto simp: adopted_def fun_eq_iff)
  have "orphan_loop (next (links os (tagInAllList os p))) r ?os = Some (?os\<lparr>pcbs := (\<lambda>q. if q \<in> set ps then adopted r (pcbs ?os) q else pcbs ?os q)\<rparr>)"
    using Cons.IH [OF f] Cons.prems(2) by simp
  then show ?case unfolding step eq by (simp add: o)
qed

lemma table_forward: "table os ps rs \<Longrightarrow> forward (links os) (next (links os (all_list os))) (map (tagInAllList os) ps)"
  using forward_chain list_atD(2,3) by (fastforce simp: table_def)

end
