(* ===== verification/Program_Family.thy ===== *)
theory Program_Family
  imports Program_Table
begin

text \<open>
  Parents and children: what \<^verbatim>\<open>exit\<close>, \<^verbatim>\<open>waitpid\<close>, \<^verbatim>\<open>fork\<close> and \<^verbatim>\<open>execve\<close> do to
  the table of programs, and what they, the timer and the end of a thread leave as it was.
\<close>

section \<open>Exit and waitpid\<close>

lemma sched_set_dead: "sched os ps rs \<Longrightarrow> run os = Some c \<Longrightarrow> sched (set_status c DEAD os) ps rs"
  by (auto simp: sched_def set_status_def upd_pcb_def)

lemma sched_pcbs: "sched os ps rs \<Longrightarrow> (\<And>p. p \<in> set ps \<Longrightarrow> p_status (c p) = p_status (pcbs os p) \<and> p_pid (c p) = p_pid (pcbs os p)) \<Longrightarrow> sched (os\<lparr>pcbs := c\<rparr>) ps rs"
  by (auto simp: sched_def)

lemma sched_quiet: "sched os ps rs \<Longrightarrow> quiet os os' \<Longrightarrow> sched os' ps rs"
  unfolding sched_def using quietD(4) quiet_table same_frame_tags(7) [OF quietD(1)] by (simp add: same_life_def)

text \<open>What an exit does up to the switch: the program is dead, its children belong to program 1.\<close>

lemma exit_prepares:
  assumes l: "live os ps rs c" and x: "exit ret os = Some os'"
  shows "\<exists>os1. schedule os1 = Some os' \<and> sched os1 ps rs \<and> run os1 = Some c \<and> p_status (pcbs os1 c) = DEAD \<and> p_retValue (pcbs os1 c) = ret \<and>
    (\<forall>p\<in>set ps. p_parentPid (pcbs os1 p) = (if p \<noteq> c \<and> p_parentPid (pcbs os p) = int c then 1 else p_parentPid (pcbs os p)) \<and>
       (p \<noteq> c \<longrightarrow> p_status (pcbs os1 p) = p_status (pcbs os p) \<and> p_retValue (pcbs os1 p) = p_retValue (pcbs os p)))"
proof -
  note d = liveD [OF l]
  define os0 where "os0 = upd_pcb c (\<lambda>c. c\<lparr>p_retValue := ret\<rparr>) (os\<lparr>interrupts := False\<rparr>)"
  obtain oa ob oc where o: "release_fs c os0 = Some oa"
      "(if p_pageDirectoryAddress (pcbs (set_status c DEAD oa) c) \<noteq> 0 then destroy_space c (set_status c DEAD oa) else Some (set_status c DEAD oa)) = Some ob"
      "orphan_loop (next (links ob (all_list ob))) c ob = Some oc" "schedule oc = Some os'"
    using x d(2) by (auto simp: exit_def os0_def bind_eq_Some_conv Let_def)
  have s0: "sched os0 ps rs" "run os0 = Some c" using d(1,2) by (auto simp: sched_def os0_def upd_pcb_def)
  have qa: "quiet os0 oa" by (rule quietly1D [OF release_fs_quiet o(1)]) simp
  have ra: "run oa = Some c" using same_frame_tags(7) [OF quietD(1) [OF qa]] s0(2) by simp
  have sa: "sched (set_status c DEAD oa) ps rs" by (rule sched_set_dead [OF sched_quiet [OF s0(1) qa] ra])
  have qb: "quiet (set_status c DEAD oa) ob"
  proof (cases "p_pageDirectoryAddress (pcbs (set_status c DEAD oa) c) \<noteq> 0")
    case True
    then have "destroy_space c (set_status c DEAD oa) = Some ob" using o(2) by simp
    from quietly1D [OF destroy_space_quiet [OF quiet_refl] this] show ?thesis .
  qed (use o(2) in simp)
  have rb: "run ob = Some c" using same_frame_tags(7) [OF quietD(1) [OF qb]] ra by (simp add: set_status_def upd_pcb_def)
  have sb: "sched ob ps rs" by (rule sched_quiet [OF sa qb])
  have tb: "table ob ps rs" using schedD(1) [OF sb rb] .
  have oc: "oc = ob\<lparr>pcbs := (\<lambda>p. if p \<in> set ps then adopted c (pcbs ob) p else pcbs ob p)\<rparr>"
    using orphan_loop_forward [OF table_forward [OF tb] tableD(2) [OF tb]] o(3) by simp
  have life: "p_status (pcbs ob p) = (if p = c then DEAD else p_status (pcbs os p))" "p_pid (pcbs ob p) = p_pid (pcbs os p)"
      "p_parentPid (pcbs ob p) = p_parentPid (pcbs os p)" "p_retValue (pcbs ob p) = (if p = c then ret else p_retValue (pcbs os p))" for p
    using quietD(4) [OF qa, of p] quietD(4) [OF qb, of p] by (auto simp: same_life_def set_status_def upd_pcb_def os0_def split: if_splits)
  have pid: "p_pid (pcbs os c) = int c" using schedD(4) [OF d(1,2) d(5)] .
  have "sched oc ps rs" unfolding oc by (rule sched_pcbs [OF sb]) simp
  moreover have "\<forall>p\<in>set ps. p_parentPid (pcbs oc p) = (if p \<noteq> c \<and> p_parentPid (pcbs os p) = int c then 1 else p_parentPid (pcbs os p)) \<and>
       (p \<noteq> c \<longrightarrow> p_status (pcbs oc p) = p_status (pcbs os p) \<and> p_retValue (pcbs oc p) = p_retValue (pcbs os p))"
    unfolding oc using life pid by (auto simp: adopted_def)
  moreover have "run oc = Some c" "p_status (pcbs oc c) = DEAD" "p_retValue (pcbs oc c) = ret"
    unfolding oc using rb life d(5) by simp_all
  ultimately show ?thesis using o(4) by blast
qed

lemma exit_effect:
  assumes l: "live os ps rs c" and x: "exit ret os = Some os'"
  shows "\<exists>n ns. rs = n # ns \<and> n \<noteq> c \<and> live os' ps ns n \<and> p_status (pcbs os' c) = DEAD \<and> p_retValue (pcbs os' c) = ret \<and>
    (\<forall>p\<in>set ps. p_parentPid (pcbs os' p) = (if p \<noteq> c \<and> p_parentPid (pcbs os p) = int c then 1 else p_parentPid (pcbs os p)) \<and>
       (p \<noteq> c \<longrightarrow> p_retValue (pcbs os' p) = p_retValue (pcbs os p)) \<and> (p \<notin> {c, n} \<longrightarrow> p_status (pcbs os' p) = p_status (pcbs os p)))"
proof -
  obtain os1 where o: "schedule os1 = Some os'" "sched os1 ps rs" "run os1 = Some c" "p_status (pcbs os1 c) = DEAD" "p_retValue (pcbs os1 c) = ret"
    "\<forall>p\<in>set ps. p_parentPid (pcbs os1 p) = (if p \<noteq> c \<and> p_parentPid (pcbs os p) = int c then 1 else p_parentPid (pcbs os p)) \<and>
       (p \<noteq> c \<longrightarrow> p_status (pcbs os1 p) = p_status (pcbs os p) \<and> p_retValue (pcbs os1 p) = p_retValue (pcbs os p))"
    using exit_prepares [OF l x] by blast
  show ?thesis
  proof (cases rs)
    case Nil
    then show ?thesis using schedule_live [OF o(2,3) _ o(1)] o(4) by simp
  next
    case (Cons n ns)
    have r: "live os' ps ns n" "pcbs os' = (pcbs os1)(n := taken_up os1 (pcbs os1 n), c := left (interrupts os1) (pcbs os1 c))" "n \<noteq> c"
      using schedule_live [OF o(2,3) _ o(1)] o(4) Cons by simp_all
    show ?thesis using Cons r o(4,5,6) by (intro exI [of _ n] exI [of _ ns]) auto
  qed
qed

lemma releasePCB_effect:
  assumes t: "table os ps rs" and z: "z \<in> set ps" "z \<notin> set rs" and x: "releasePCB z os = Some os'"
  shows "same_frame os os'" "table os' (remove1 z ps) rs" "same_life (pcbs os p) (pcbs os' p)" "\<not> PCB_SET_STATUS os' z"
proof -
  obtain oa ob where o: "release_fs z os = Some oa"
      "(if p_argv (pcbs oa z) \<noteq> 0 then do { os \<leftarrow> run_mm (releasePages KERNEL (p_argv (pcbs oa z)) 1 EMPTY) oa;
             Some (upd_pcb z (\<lambda>c. c\<lparr>p_argv := 0, p_argc := 0\<rparr>) os) } else Some oa) = Some ob"
      "on_links (List_erase (all_list ob) (tagInAllList ob z)) (ob\<lparr>PCB_SET_STATUS := (PCB_SET_STATUS ob)(z := False)\<rparr>) = Some os'"
    using x unfolding releasePCB_def Let_def by (auto simp: bind_eq_Some_conv)
  have qa: "quiet os oa" by (rule quietly1D [OF release_fs_quiet o(1)]) simp
  have "quietly1 os (if p_argv (pcbs oa z) \<noteq> 0 then do { os \<leftarrow> run_mm (releasePages KERNEL (p_argv (pcbs oa z)) 1 EMPTY) oa;
             Some (upd_pcb z (\<lambda>c. c\<lparr>p_argv := 0, p_argc := 0\<rparr>) os) } else Some oa)"
    by (rule quiet_intros quietly_pure qa | assumption)+
  then have q: "quiet os ob" using o(2) by (rule quietly1D)
  note f = same_frame_tags [OF quietD(1) [OF q]]
  have l: "list_at (links ob) (all_list os) (map (tagInAllList os) ps)" "list_at (links ob) (ready_head os) (map (tagInGeneralList os) rs)"
    using t quietD(2) [OF q] by (simp_all add: table_def)
  obtain s where s: "List_erase (all_list os) (tagInAllList os z) (links ob) = Some s"
      "list_at s (all_list os) (remove1 (tagInAllList os z) (map (tagInAllList os) ps))"
      "only (links ob) s (set (all_list os # map (tagInAllList os) ps) - {tagInAllList os z})"
    using List_erase_at [OF l(1)] by blast
  have m: "\<forall>p\<in>set ps. p < MAX_PROGRAM_AMOUNT" "\<forall>p\<in>set rs. p < MAX_PROGRAM_AMOUNT" using tableD [OF t] by auto
  have "only (links ob) s (set (all_list os # map (tagInAllList os) ps))" using s(3) by (auto simp: only_def)
  then have r: "list_at s (ready_head os) (map (tagInGeneralList os) rs)"
    by (rule ready_list_frame [OF tableD(1) [OF t] l(2) m(2) _ m(1)])
  have os': "os' = ob\<lparr>PCB_SET_STATUS := (PCB_SET_STATUS ob)(z := False), links := s\<rparr>"
    using o(3) s(1) quietD(2) [OF q] by (simp add: on_links_def f)
  show "same_frame os os'" using quietD(1) [OF q] by (simp add: os')
  have "remove1 (tagInAllList os z) (map (tagInAllList os) ps) = map (tagInAllList os) (remove1 z ps)"
    by (rule map_remove1 [symmetric]) (simp add: inj_on_def)
  moreover have "set (remove1 z ps) = {p. p < MAX_PROGRAM_AMOUNT \<and> PCB_SET_STATUS os' p}"
    using t tableD(2) [OF t] quietD(3) [OF q] by (auto simp: os' table_def)
  moreover have "set rs \<subseteq> set (remove1 z ps)" using tableD(2,5) [OF t] z by auto
  moreover have "table os' xs rs \<longleftrightarrow> heads_ok os \<and> list_at s (all_list os) (map (tagInAllList os) xs) \<and>
      list_at s (ready_head os) (map (tagInGeneralList os) rs) \<and> set xs = {p. p < MAX_PROGRAM_AMOUNT \<and> PCB_SET_STATUS os' p} \<and> set rs \<subseteq> set xs" for xs
    unfolding table_def using f by (simp add: os')
  ultimately show "table os' (remove1 z ps) rs" using s(2) r tableD(1) [OF t] by simp
  show "same_life (pcbs os p) (pcbs os' p)" using quietD(4) [OF q] by (simp add: os')
  show "\<not> PCB_SET_STATUS os' z" by (simp add: os')
qed

definition kids :: "OS \<Rightarrow> int \<Rightarrow> nat \<Rightarrow> nat list \<Rightarrow> nat list" where
  "kids os pid c ps = filter (\<lambda>p. p_parentPid (pcbs os p) = int c \<and> (pid = - 1 \<or> int p = pid)) ps"

lemma find_filter: "find (\<lambda>p. P p \<and> Q p) xs = find Q (filter P xs)"
  by (induction xs) auto

lemma find_cong_set: "(\<And>x. x \<in> set xs \<Longrightarrow> P x = Q x) \<Longrightarrow> find P xs = find Q xs"
  by (induction xs) auto

lemma find_None_all: "find P xs = None \<longleftrightarrow> (\<forall>x\<in>set xs. \<not> P x)"
  by (induction xs) auto

lemma live_reap:
  assumes l: "live os ps rs c" and z: "z \<in> set ps" "p_status (pcbs os z) = DEAD" and x: "releasePCB z os = Some os'"
  shows "live os' (remove1 z ps) rs c" "z \<noteq> c" "same_life (pcbs os p) (pcbs os' p)" "\<not> PCB_SET_STATUS os' z"
proof -
  note d = liveD [OF l]
  show zc: "z \<noteq> c" using z(2) d(3) by auto
  have zr: "z \<notin> set rs" using schedD(5) [OF d(1,2) z(1) zc] z(2) by simp
  note r = releasePCB_effect [OF d(4) z(1) zr x]
  show "same_life (pcbs os p) (pcbs os' p)" "\<not> PCB_SET_STATUS os' z" using r by auto
  have run: "run os' = Some c" using same_frame_tags(7) [OF r(1)] d(2) by simp
  have "sched os' (remove1 z ps) rs"
  proof (rule schedI [OF r(2) run])
    show "c \<in> set (remove1 z ps)" using d(5) zc by (simp add: in_set_remove1)
    show "p_pid (pcbs os' q) = int q" if "q \<in> set (remove1 z ps)" for q
      using schedD(4) [OF d(1,2), of q] r(3) [of q] that set_remove1_subset [of z ps] by (auto simp: same_life_def)
    show "p_status (pcbs os' q) = READY \<longleftrightarrow> q \<in> set rs" if "q \<in> set (remove1 z ps)" "q \<noteq> c" for q
      using schedD(5) [OF d(1,2), of q] r(3) [of q] that set_remove1_subset [of z ps] by (auto simp: same_life_def)
  qed (use d in simp)
  then show "live os' (remove1 z ps) rs c" using run d(3) r(3) [of c] by (simp add: live_def same_life_def)
qed

lemma waitpid_effect:
  assumes l: "live os ps rs c" and x: "waitpid pid os = Some (w, os')"
  shows "case w of
      Returns r v \<Rightarrow>
        if kids os pid c ps = [] then r = - 1 \<and> v = None \<and> os' = os
        else (\<exists>z. find (\<lambda>p. p_status (pcbs os p) = DEAD) (kids os pid c ps) = Some z \<and> z \<noteq> c \<and> r = int z \<and>
          v = Some (p_retValue (pcbs os z)) \<and> live os' (remove1 z ps) rs c \<and> \<not> PCB_SET_STATUS os' z \<and> (\<forall>p. same_life (pcbs os p) (pcbs os' p)))
    | Waits \<Rightarrow> kids os pid c ps \<noteq> [] \<and> (\<forall>p\<in>set (kids os pid c ps). p_status (pcbs os p) \<noteq> DEAD) \<and>
        (case rs of [] \<Rightarrow> os' = os | n # ns \<Rightarrow> live os' ps (ns @ [c]) n)"
proof -
  note d = liveD [OF l]
  let ?os = "os\<lparr>interrupts := False\<rparr>"
  have l0: "live ?os ps rs c" using l by simp
  have pid: "p_pid (pcbs os p) = int p" if "p \<in> set ps" for p using schedD(4) [OF d(1,2) that] .
  have kid: "is_child ?os pid c p = (p_parentPid (pcbs os p) = int c \<and> (pid = - 1 \<or> int p = pid))" if "p \<in> set ps" for p
    using pid [OF that] pid [OF d(5)] by (simp add: is_child_def)
  have f: "find (\<lambda>p. is_child ?os pid c p \<and> p_status (pcbs ?os p) = DEAD) ps = find (\<lambda>p. p_status (pcbs os p) = DEAD) (kids os pid c ps)"
    unfolding kids_def find_filter [symmetric] by (rule find_cong_set) (simp add: kid)
  have h: "(\<exists>p\<in>set ps. is_child ?os pid c p) \<longleftrightarrow> kids os pid c ps \<noteq> []"
    using kid by (auto simp: kids_def filter_empty_conv)
  have cl: "child_loop (next (links ?os (all_list ?os))) pid c False ?os =
      Some (kids os pid c ps \<noteq> [], find (\<lambda>p. p_status (pcbs os p) = DEAD) (kids os pid c ps))"
    using child_loop_forward [OF table_forward [OF liveD(4) [OF l0]], of pid c False] f h by simp
  show ?thesis
  proof (cases "kids os pid c ps = []")
    case True
    then have "w = Returns (- 1) None" "os' = os" using x d(2) cl by (auto simp: waitpid_def Let_def)
    then show ?thesis using True by simp
  next
    case F: False
    show ?thesis
    proof (cases "find (\<lambda>p. p_status (pcbs os p) = DEAD) (kids os pid c ps)")
      case None
      then have w: "w = Waits" "schedule os = Some os'" using x d(2) cl F by (auto simp: waitpid_def Let_def bind_eq_Some_conv)
      have "case rs of [] \<Rightarrow> os' = os | n # ns \<Rightarrow> live os' ps (ns @ [c]) n"
        using schedule_live [OF d(1,2) _ w(2)] d(3) by (auto split: list.splits)
      then show ?thesis using w F None by (simp add: find_None_all)
    next
      case (Some z)
      then obtain o1 where w: "w = Returns (p_pid (pcbs os z)) (Some (p_retValue (pcbs os z)))" "releasePCB z ?os = Some o1" "os' = o1\<lparr>interrupts := interrupts os\<rparr>"
        using x d(2) cl F by (auto simp: waitpid_def Let_def bind_eq_Some_conv)
      have z: "z \<in> set ps" "p_status (pcbs os z) = DEAD" using Some by (auto simp: find_Some_iff kids_def dest: nth_mem)
      have z': "p_status (pcbs ?os z) = DEAD" using z by simp
      note r = live_reap [OF l0 z(1) z' w(2)]
      have "live os' (remove1 z ps) rs c" using r(1) w(3) by simp
      moreover have "\<forall>p. same_life (pcbs os p) (pcbs os' p)" using r(3) w(3) by simp
      moreover have "\<not> PCB_SET_STATUS os' z" using r(4) w(3) by simp
      ultimately show ?thesis using w(1) F Some r(2) pid [OF z(1)] by simp
    qed
  qed
qed

section \<open>Fork and execve\<close>

lemma copyProcess_effect:
  assumes l: "live os ps rs c" and t: "t \<in> set ps" "t \<in> set rs" "t \<noteq> c" and x: "copyProcess c t os = Some (ok, os')"
  shows "live os' ps rs c" "p_parentPid (pcbs os' t) = int c" "p \<noteq> t \<Longrightarrow> same_life (pcbs os p) (pcbs os' p)"
proof -
  note d = liveD [OF l]
  define o1 where "o1 = upd_pcb t (copy_pcb os t (pcbs os c)) os"
  have st: "p_status (pcbs os t) = READY" using schedD(5) [OF d(1,2) t(1,3)] t(2) by simp
  have "quietly o1 (do {
     os \<leftarrow> run_mm (store_words (p_pageDirectoryAddress (pcbs o1 t)) 768 (\<lambda>_. 0)) o1;
     (ok, os) \<leftarrow> with_mm (fork_pages (p_pageDirectoryAddress (pcbs o1 t)) (word_of_int (p_pid (pcbs os t))) FORK_PAGES 0) os;
     if \<not> ok then Some (False, os)
     else do {
       let (q, fm) = fork_process_fs (p_fs (pcbs os t)) (p_fs (pcbs os c)) (os_fm os);
       Some (True, upd_pcb t (\<lambda>c. c\<lparr>p_fs := q\<rparr>) (os\<lparr>os_fm := fm\<rparr>))
     }
   })"
    by (rule quiet_intros quietly_pure | assumption)+
  moreover have "(do {
     os \<leftarrow> run_mm (store_words (p_pageDirectoryAddress (pcbs o1 t)) 768 (\<lambda>_. 0)) o1;
     (ok, os) \<leftarrow> with_mm (fork_pages (p_pageDirectoryAddress (pcbs o1 t)) (word_of_int (p_pid (pcbs os t))) FORK_PAGES 0) os;
     if \<not> ok then Some (False, os)
     else do {
       let (q, fm) = fork_process_fs (p_fs (pcbs os t)) (p_fs (pcbs os c)) (os_fm os);
       Some (True, upd_pcb t (\<lambda>c. c\<lparr>p_fs := q\<rparr>) (os\<lparr>os_fm := fm\<rparr>))
     }
   }) = Some (ok, os')" using x d(2) unfolding copyProcess_def Let_def o1_def [symmetric] by simp
  ultimately have q: "quiet o1 os'" by (rule quietlyD)
  have "sched o1 ps rs"
    by (rule schedI [of _ _ _ c]) (use d schedD(4,5) [OF d(1,2)] st t in \<open>auto simp: o1_def upd_pcb_def copy_pcb_def\<close>)
  then have "live o1 ps rs c" using d t by (simp add: live_def o1_def upd_pcb_def)
  then show "live os' ps rs c" by (rule live_quiet [OF _ q])
  show "p_parentPid (pcbs os' t) = int c"
    using quietD(4) [OF q, of t] schedD(4) [OF d(1,2) d(5)] by (simp add: same_life_def o1_def upd_pcb_def copy_pcb_def)
  show "p \<noteq> t \<Longrightarrow> same_life (pcbs os p) (pcbs os' p)" using quietD(4) [OF q, of p] by (simp add: o1_def upd_pcb_def)
qed

text \<open>
  What a fork comes to.  When it fails after the child has been created, the child stays in the ready queue, dead.
\<close>

lemma fork_effect:
  assumes l: "live os ps rs c" and x: "fork os = Some (r, os')"
  shows "r = - 1 \<and> live os' ps rs c \<and> PCB_SET_STATUS os' = PCB_SET_STATUS os \<and> (\<forall>p\<in>set ps. same_life (pcbs os p) (pcbs os' p)) \<or>
    (\<exists>t. t \<notin> set ps \<and> r = int t \<and> live os' (ps @ [t]) (rs @ [t]) c \<and> p_parentPid (pcbs os' t) = int c \<and>
       (\<forall>p. p \<noteq> t \<longrightarrow> same_life (pcbs os p) (pcbs os' p))) \<or>
    (\<exists>t. t \<notin> set ps \<and> r = - 1 \<and> table os' (ps @ [t]) (rs @ [t]) \<and> run os' = Some c \<and> p_status (pcbs os' t) = DEAD \<and> p_parentPid (pcbs os' t) = int c)"
proof -
  note d = liveD [OF l]
  let ?os = "os\<lparr>interrupts := False\<rparr>"
  have l0: "live ?os ps rs c" using l by simp
  have pidc: "p_pid (pcbs os c) = int c" using schedD(4) [OF d(1,2) d(5)] .
  show ?thesis
  proof (cases "p_pageDirectoryAddress (pcbs os c) = 0")
    case True
    then have "r = - 1" "os' = os" using x d(2) by (auto simp: fork_def Let_def)
    then show ?thesis using l by simp
  next
    case dirc: False
    obtain pid os1 where e: "executeThread (load_process_at os) 0 fork_name 0 True ?os = Some (pid, os1)"
      using x d(2) dirc by (auto simp: fork_def Let_def bind_eq_Some_conv)
    show ?thesis
    proof (cases "pid = - 1")
      case True
      then have "r = - 1" "os' = os1\<lparr>interrupts := interrupts os\<rparr>" using x d(2) dirc e by (auto simp: fork_def Let_def)
      moreover have "live os1 ps rs c" "PCB_SET_STATUS os1 = PCB_SET_STATUS os" "\<forall>p\<in>set ps. same_life (pcbs os p) (pcbs os1 p)"
        using executeThread_live [OF l0 e] True by auto
      ultimately show ?thesis by simp
    next
      case nm: False
      then obtain t where t: "pid = int t" "t \<notin> set ps" "t \<notin> set rs" "c \<noteq> t" "live os1 (ps @ [t]) (rs @ [t]) c" "new_program ?os os1 t READY"
        using executeThread_live [OF l0 e] by auto
      have y: "youngest os1 = Some t" using youngest_last liveD(4) [OF t(5)] by blast
      have par: "p_parentPid (pcbs os1 t) = int c" using t(6) d(2) pidc by (simp add: new_program_def)
      have oth: "same_life (pcbs os p) (pcbs os1 p)" if "p \<noteq> t" for p using t(6) that by (simp add: new_program_def)
      let ?os1 = "upd_pcb t (\<lambda>c. c\<lparr>needFork := True\<rparr>) os1"
      obtain dir os2 where w: "with_mm (createProcessPageDirectory (word_of_int (p_pid (pcbs ?os1 t)))) ?os1 = Some (dir, os2)"
        using x d(2) dirc e nm y by (auto simp: fork_def bind_eq_Some_conv Let_def)
      define os3 where "os3 = upd_pcb t (\<lambda>c. c\<lparr>p_pageDirectoryAddress := dir\<rparr>) os2"
      have q1: "quiet os1 ?os1" by (rule quiet_intros)+
      have q3: "quiet os1 os3" unfolding os3_def by (rule quiet_intros quietlyD [OF with_quiet(1) [OF q1] w])+
      have dead: "\<exists>t. t \<notin> set ps \<and> r = - 1 \<and> table os' (ps @ [t]) (rs @ [t]) \<and> run os' = Some c \<and> p_status (pcbs os' t) = DEAD \<and> p_parentPid (pcbs os' t) = int c"
        if "r = - 1" "quiet (set_status t DEAD o4) os'" "live o4 (ps @ [t]) (rs @ [t]) c" "p_parentPid (pcbs o4 t) = int c" for o4
      proof -
        have "table os' (ps @ [t]) (rs @ [t])" using liveD(4) [OF that(3)] by (simp add: quiet_table [OF that(2)])
        moreover have "run os' = Some c" using same_frame_tags(7) [OF quietD(1) [OF that(2)]] liveD(2) [OF that(3)] by (simp add: set_status_def upd_pcb_def)
        moreover have "p_status (pcbs os' t) = DEAD" "p_parentPid (pcbs os' t) = int c"
          using quietD(4) [OF that(2), of t] that(4) by (simp_all add: same_life_def set_status_def upd_pcb_def)
        ultimately show ?thesis using that(1) t(2) by blast
      qed
      have l3: "live os3 (ps @ [t]) (rs @ [t]) c" by (rule live_quiet [OF t(5) q3])
      have par3: "p_parentPid (pcbs os3 t) = int c" using quietD(4) [OF q3, of t] par by (simp add: same_life_def)
      show ?thesis
      proof (cases "dir = 0")
        case True
        then have r: "r = - 1" "os' = (set_status t DEAD os3)\<lparr>interrupts := interrupts os\<rparr>"
          using x d(2) dirc e nm y w by (auto simp: fork_def Let_def os3_def)
        have "quiet (set_status t DEAD os3) os'" unfolding r(2) by (rule quiet_intros)+
        then show ?thesis using dead [OF r(1) _ l3 par3] by blast
      next
        case dn: False
        obtain res u os4 where cl: "with_mm (\<lambda>mm. map_option (\<lambda>(ok, u, mm). ((ok, u), mm))
               (UserVAddressPool_cloneFrom (p_userVirtual (pcbs os3 c)) (word_of_int (p_pid (pcbs os3 t))) (p_userVirtual (pcbs os3 t)) mm)) os3 =
               Some ((res, u), os4)" "va_length (stackPool u) \<noteq> 0"
          using x d(2) dirc e nm y w dn by (auto simp: fork_def Let_def os3_def [symmetric] bind_eq_Some_conv split: if_splits)
        define os5 where "os5 = upd_pcb t (\<lambda>c. c\<lparr>p_userVirtual := u\<rparr>) os4"
        have q5: "quiet os3 os5" unfolding os5_def by (rule quiet_intros quietlyD [OF with_quiet(1) [OF quiet_refl] cl(1)])+
        have l5: "live os5 (ps @ [t]) (rs @ [t]) c" by (rule live_quiet [OF l3 q5])
        have par5: "p_parentPid (pcbs os5 t) = int c" using quietD(4) [OF q5, of t] par3 by (simp add: same_life_def)
        show ?thesis
        proof (cases res)
          case False
          then have r: "r = - 1" "os' = (set_status t DEAD os5)\<lparr>interrupts := interrupts os\<rparr>"
            using x d(2) dirc e nm y w dn cl by (auto simp: fork_def Let_def os3_def [symmetric] os5_def)
          have "quiet (set_status t DEAD os5) os'" unfolding r(2) by (rule quiet_intros)+
          then show ?thesis using dead [OF r(1) _ l5 par5] by blast
        next
          case True
          obtain flag os6 where cp: "copyProcess c t os5 = Some (flag, os6)"
            using x d(2) dirc e nm y w dn cl True by (auto simp: fork_def Let_def os3_def [symmetric] os5_def [symmetric] bind_eq_Some_conv)
          note c6 = copyProcess_effect [OF l5 _ _ _ cp]
          have l6: "live os6 (ps @ [t]) (rs @ [t]) c" "p_parentPid (pcbs os6 t) = int c" using c6 t(4) by auto
          show ?thesis
          proof (cases flag)
            case False
            then have r: "r = - 1" "destroy_pool t ((set_status t DEAD os6)\<lparr>interrupts := interrupts os\<rparr>) = Some os'"
              using x d(2) dirc e nm y w dn cl True cp
              by (auto simp: fork_def Let_def os3_def [symmetric] os5_def [symmetric] bind_eq_Some_conv)
            have "quietly1 (set_status t DEAD os6) (destroy_pool t ((set_status t DEAD os6)\<lparr>interrupts := interrupts os\<rparr>))"
              by (rule quiet_intros)+
            then have "quiet (set_status t DEAD os6) os'" using r(2) by (rule quietly1D)
            then show ?thesis using dead [OF r(1) _ l6] by blast
          next
            case F: True
            then have r: "r = int t" "os' = os6\<lparr>interrupts := interrupts os\<rparr>"
              using x d(2) dirc e nm y w dn cl True cp t(1)
              by (auto simp: fork_def Let_def os3_def [symmetric] os5_def [symmetric])
            have "same_life (pcbs os p) (pcbs os' p)" if "p \<noteq> t" for p
            proof -
              have "same_life (pcbs os p) (pcbs os1 p)" by (rule oth [OF that])
              moreover have "same_life (pcbs os1 p) (pcbs os3 p)" "same_life (pcbs os3 p) (pcbs os5 p)" using quietD(4) q3 q5 by blast+
              moreover have "same_life (pcbs os5 p) (pcbs os6 p)" using c6(3) t(4) that by simp
              ultimately show ?thesis using r(2) by (auto simp: same_life_def)
            qed
            then show ?thesis using r l6 t(2) by auto
          qed
        qed
      qed
    qed
  qed
qed

lemma clear_process_args_life [simp]: "same_life c (clear_process_args c)"
  by (simp add: same_life_def clear_process_args_def)

lemma arg_loop_life: "arg_loop n i argv p = (ok, p') \<Longrightarrow> same_life p p'"
proof (induction n arbitrary: i p)
  case (Suc n)
  show ?case
  proof (cases "argv i")
    case None
    then show ?thesis using Suc.prems by simp
  next
    case (Some str)
    have "same_life p (p\<lparr>p_args := (p_args p)(i := str), p_argc := p_argc p + 1\<rparr>)" by (simp add: same_life_def)
    moreover have "\<not> exec_arg_strlen (Some str) < 0 \<Longrightarrow> same_life (p\<lparr>p_args := (p_args p)(i := str), p_argc := p_argc p + 1\<rparr>) p'"
      using Suc.IH [of "i + 1" "p\<lparr>p_args := (p_args p)(i := str), p_argc := p_argc p + 1\<rparr>"] Suc.prems Some by simp
    ultimately show ?thesis using Suc.prems Some same_life_trans by (auto split: if_splits)
  qed
qed simp

lemma copy_exec_args_life:
  assumes "copy_exec_args f argv p = (ok, p')"
  shows "same_life p p'"
proof -
  have c: "same_life p (clear_process_args p)" by simp
  have a: "same_life p ((clear_process_args p)\<lparr>p_args := x, p_argc := y\<rparr>)" for x y
    using c by (simp add: same_life_def)
  have l: "same_life p p1" if "arg_loop MAX_ARGC_COUNT 0 args (clear_process_args p) = (ok1, p1)" for args ok1 p1
    using same_life_trans [OF c arg_loop_life [OF that]] .
  show ?thesis using assms c a
    by (auto simp: copy_exec_args_def Let_def split: if_splits option.splits prod.splits dest: l)
qed

lemma execve_effect:
  assumes l: "live os ps rs c" and x: "execve filename addr argv mode os = Some (r, os')"
  shows "keeps_dead os ps os' \<or> r = Some (- 1) \<and> run os' = Some c \<and> p_status (pcbs os' c) = DEAD"
proof -
  note d = liveD [OF l]
  obtain conf os1 where i: "load_image filename addr mode (os\<lparr>interrupts := False\<rparr>) = Some (conf, os1)"
    using x by (auto simp: execve_def bind_eq_Some_conv Let_def)
  have q1: "quiet os os1" by (rule quietlyD [OF load_image_quiet i]) (rule quiet_intros)+
  then have l1: "live os1 ps rs c" by (rule live_quiet [OF l])
  note d1 = liveD [OF l1]
  show ?thesis
  proof (cases "c_entry conf = 0")
    case True
    then have o: "os' = os1\<lparr>interrupts := interrupts os\<rparr>" using x i by (auto simp: execve_def)
    have "quiet os os'" unfolding o by (rule quiet_intros q1)+
    then show ?thesis using keeps_dead_quiet [OF l] by blast
  next
    case ne: False
    obtain ok c' where a: "(if mode = 0 then copy_exec_args (Some filename) argv (pcbs os1 c) else (True, clear_process_args (pcbs os1 c))) = (ok, c')"
      by fastforce
    have lc: "same_life (pcbs os1 c) c'"
      using a copy_exec_args_life by (cases "mode = 0") auto
    define os2 where "os2 = upd_pcb c (\<lambda>_. c') os1"
    have "os2 = os1\<lparr>pcbs := (pcbs os1)(c := c'), interrupts := interrupts os1, os_mm := os_mm os1, os_fm := os_fm os1, os_keyboard := os_keyboard os1, os_screen := os_screen os1\<rparr>"
      by (simp add: os2_def upd_pcb_def)
    moreover have "quiet os1 \<dots>" by (rule quietI) (use lc in auto)
    ultimately have q2: "quiet os1 os2" by simp
    then have l2: "live os2 ps rs c" by (rule live_quiet [OF l1])
    have life2: "same_life (pcbs os z) (pcbs os2 z)" for z using quietD(4) [OF q1, of z] quietD(4) [OF q2, of z] by (rule same_life_trans)
    show ?thesis
    proof (cases ok)
      case False
      then obtain o3 where o: "close_image conf os2 = Some o3" "os' = o3\<lparr>interrupts := interrupts os\<rparr>"
        using x i ne d1(2) a by (auto simp: execve_def Let_def os2_def bind_eq_Some_conv split: prod.splits if_splits)
      have "quiet os2 os'" unfolding o(2) by (rule quiet_intros quietly1D [OF close_image_quiet [OF quiet_refl] o(1)])+
      then have "keeps_dead os2 ps os'" by (rule keeps_dead_quiet [OF l2])
      then have "keeps_dead os ps os'" by (rule keeps_dead_trans [OF life2])
      then show ?thesis by blast
    next
      case ok: True
      define os3 where "os3 = upd_pcb c (\<lambda>c. c\<lparr>p_fs := exec_process_fs (p_fs c)\<rparr>) os2"
      define st where "st = interrupts os"
      have x3: "(do {
         ASSERT (p_pageDirectoryAddress (pcbs os3 c) \<noteq> 0);
         os \<leftarrow> destroy_space c os3;
         let os = upd_pcb c (\<lambda>c. c\<lparr>p_pageDirectoryAddress := 0\<rparr>) os;
         (dir, os) \<leftarrow> with_mm (createProcessPageDirectory (word_of_int (p_pid (pcbs os c)))) os;
         if dir = 0 then do {
           os \<leftarrow> close_image conf os;
           Some (Some (- 1), (set_status c DEAD os)\<lparr>interrupts := st\<rparr>)
         }
         else do {
           let os = upd_pcb c (\<lambda>c. c\<lparr>p_pageDirectoryAddress := dir\<rparr>) os;
           (res, os) \<leftarrow> createUserVirtualPool c conf mode os;
           if \<not> res then do {
             os \<leftarrow> close_image conf os;
             os \<leftarrow> schedule ((set_status c DEAD os)\<lparr>interrupts := st\<rparr>);
             Some (None, os)
           }
           else do {
             os \<leftarrow> close_image conf os;
             pa \<leftarrow> vaddr2paddr dir (mm_of os);
             let os = os\<lparr>os_mm := (os_mm os)\<lparr>cr3 := pa\<rparr>\<rparr>;
             os \<leftarrow> user_stack c os;
             let (sp, ws) = push_exec_args_to_user_stack (k_exit_at os) (Some (pcbs os c));
             os \<leftarrow> run_mm (do_writes ws) os;
             Some (None, upd_pcb c (\<lambda>c. c\<lparr>p_frame := user_entry os (c_entry conf) sp\<rparr>) (os\<lparr>interrupts := True\<rparr>))
           }
         }
       }) = Some (r, os')"
        using x i ne d1(2) a ok unfolding execve_def Let_def os3_def os2_def st_def by (auto split: prod.splits)
      have q3: "quiet os2 os3" unfolding os3_def by (rule quiet_intros)+
      then have l3: "live os3 ps rs c" by (rule live_quiet [OF l2])
      have life3: "same_life (pcbs os z) (pcbs os3 z)" for z using life2 quietD(4) [OF q3, of z] by (rule same_life_trans)
      obtain o4 where o4: "destroy_space c os3 = Some o4" using x3 by (auto simp: bind_eq_Some_conv split: if_splits)
      have q4: "quiet os3 o4" by (rule quietly1D [OF destroy_space_quiet [OF quiet_refl] o4])
      let ?o4 = "upd_pcb c (\<lambda>c. c\<lparr>p_pageDirectoryAddress := 0\<rparr>) o4"
      have q4': "quiet os3 ?o4" by (rule quiet_intros q4)+
      obtain dir o5 where o5: "with_mm (createProcessPageDirectory (word_of_int (p_pid (pcbs ?o4 c)))) ?o4 = Some (dir, o5)"
        using x3 o4 by (auto simp: bind_eq_Some_conv Let_def split: if_splits)
      have q5: "quiet os3 o5" by (rule quietlyD [OF with_quiet(1) [OF q4'] o5])
      show ?thesis
      proof (cases "dir = 0")
        case True
        then have "r = Some (- 1)" "\<exists>o6. close_image conf o5 = Some o6 \<and> os' = (set_status c DEAD o6)\<lparr>interrupts := st\<rparr>"
          using x3 o4 o5 by (auto simp: bind_eq_Some_conv Let_def split: if_splits)
        then obtain o6 where o6: "close_image conf o5 = Some o6" "os' = (set_status c DEAD o6)\<lparr>interrupts := st\<rparr>" by blast
        have "quiet os3 o6" by (rule quietly1D [OF close_image_quiet [OF q5] o6(1)])
        then have "run o6 = Some c" using liveD(2) live_quiet [OF l3] by blast
        then show ?thesis using o6(2) \<open>r = _\<close> by (simp add: set_status_def upd_pcb_def)
      next
        case dn: False
        define o6 where "o6 = upd_pcb c (\<lambda>c. c\<lparr>p_pageDirectoryAddress := dir\<rparr>) o5"
        have q6: "quiet os3 o6" unfolding o6_def by (rule quiet_intros q5)+
        obtain res o7 where o7: "createUserVirtualPool c conf mode o6 = Some (res, o7)"
          using x3 o4 o5 dn by (auto simp: bind_eq_Some_conv Let_def o6_def split: if_splits)
        have q7: "quiet os3 o7" by (rule quietlyD [OF createUserVirtualPool_quiet [OF q6] o7])
        obtain o8 where o8: "close_image conf o7 = Some o8"
          using x3 o4 o5 dn o7 by (auto simp: bind_eq_Some_conv Let_def o6_def split: if_splits)
        have q8: "quiet os3 o8" by (rule quietly1D [OF close_image_quiet [OF q7] o8])
        have l8: "live o8 ps rs c" by (rule live_quiet [OF l3 q8])
        show ?thesis
        proof (cases res)
          case False
          then have s: "schedule ((set_status c DEAD o8)\<lparr>interrupts := st\<rparr>) = Some os'"
            using x3 o4 o5 dn o7 o8 by (auto simp: bind_eq_Some_conv Let_def o6_def split: if_splits)
          let ?o = "(set_status c DEAD o8)\<lparr>interrupts := st\<rparr>"
          have "sched ?o ps rs" using sched_quiet [OF sched_set_dead [OF liveD(1,2) [OF l8]]] quiet_fields(3) [OF quiet_refl] by blast
          moreover have "run ?o = Some c" "p_status (pcbs ?o c) = DEAD" using liveD(2) [OF l8] by (simp_all add: set_status_def upd_pcb_def)
          moreover have "z \<noteq> c \<and> same_life (pcbs os z) (pcbs ?o z)" if "z \<in> set ps" "p_status (pcbs os z) = DEAD" for z
          proof -
            have "z \<noteq> c" using that d(3) by auto
            then show ?thesis using life3 [of z] quietD(4) [OF q8, of z] by (auto simp: same_life_def set_status_def upd_pcb_def)
          qed
          ultimately have "keeps_dead os ps os'" using schedule_keeps_dead [of ?o ps rs c os' os] s by auto
          then show ?thesis by blast
        next
          case True
          have "quietly os3 (do {
             pa \<leftarrow> vaddr2paddr dir (mm_of o8);
             let os = o8\<lparr>os_mm := (os_mm o8)\<lparr>cr3 := pa\<rparr>\<rparr>;
             os \<leftarrow> user_stack c os;
             let (sp, ws) = push_exec_args_to_user_stack (k_exit_at os) (Some (pcbs os c));
             os \<leftarrow> run_mm (do_writes ws) os;
             Some (None :: int option, upd_pcb c (\<lambda>c. c\<lparr>p_frame := user_entry os (c_entry conf) sp\<rparr>) (os\<lparr>interrupts := True\<rparr>))
           })"
            by (rule quiet_intros quietly_pure q8 | assumption)+
          moreover have "(do {
             pa \<leftarrow> vaddr2paddr dir (mm_of o8);
             let os = o8\<lparr>os_mm := (os_mm o8)\<lparr>cr3 := pa\<rparr>\<rparr>;
             os \<leftarrow> user_stack c os;
             let (sp, ws) = push_exec_args_to_user_stack (k_exit_at os) (Some (pcbs os c));
             os \<leftarrow> run_mm (do_writes ws) os;
             Some (None :: int option, upd_pcb c (\<lambda>c. c\<lparr>p_frame := user_entry os (c_entry conf) sp\<rparr>) (os\<lparr>interrupts := True\<rparr>))
           }) = Some (r, os')"
            using x3 o4 o5 dn o7 o8 True by (simp add: bind_eq_Some_conv Let_def o6_def split: if_splits)
          ultimately have "quiet os3 os'" by (rule quietlyD)
          then have "keeps_dead os3 ps os'" by (rule keeps_dead_quiet [OF l3])
          then have "keeps_dead os ps os'" by (rule keeps_dead_trans [OF life3])
          then show ?thesis by blast
        qed
      qed
    qed
  qed
qed

section \<open>The timer and the end of a thread\<close>

lemma tick_keeps_dead:
  assumes l: "live os ps rs c" and x: "c_time_interrupt_handler os = Some os'"
  shows "keeps_dead os ps os'"
proof -
  note d = liveD [OF l]
  obtain b o1 where o: "(case sType os of RR \<Rightarrow> RR_onTick (run os) os | FIFS \<Rightarrow> FIFS_onTick (run os) os) = (b, o1)" by fastforce
  have q: "quiet os o1" using o d(2)
    by (cases "sType os") (auto simp: RR_onTick_def FIFS_onTick_def Let_def intro!: quiet_intros split: if_splits)
  have l1: "live o1 ps rs c" by (rule live_quiet [OF l q])
  show ?thesis
  proof (cases b)
    case True
    then have "schedule o1 = Some os'" using x o by (simp add: c_time_interrupt_handler_def Let_def)
    moreover have "z \<noteq> c \<and> same_life (pcbs os z) (pcbs o1 z)" if "p_status (pcbs os z) = DEAD" for z
      using that d(3) quietD(4) [OF q] by auto
    ultimately show ?thesis using schedule_keeps_dead [OF liveD(1,2) [OF l1], of os' os] liveD(3) [OF l1] by blast
  next
    case False
    then have "os' = o1" using x o by (auto simp: c_time_interrupt_handler_def Let_def)
    then show ?thesis using keeps_dead_quiet [OF l q] by simp
  qed
qed

lemma program_exit_keeps_dead:
  assumes l: "live os ps rs c" and x: "program_exit os = Some os'"
  shows "keeps_dead os ps os'"
proof -
  obtain o1 where o: "release_fs c os = Some o1" "schedule (set_status c DEAD o1) = Some os'"
    using x liveD(2) [OF l] by (auto simp: program_exit_def bind_eq_Some_conv Let_def split: if_splits)
  have q: "quiet os o1" by (rule quietly1D [OF release_fs_quiet [OF quiet_refl] o(1)])
  have l1: "live o1 ps rs c" by (rule live_quiet [OF l q])
  have s: "sched (set_status c DEAD o1) ps rs" "run (set_status c DEAD o1) = Some c" "p_status (pcbs (set_status c DEAD o1) c) = DEAD"
    using sched_set_dead [OF liveD(1,2) [OF l1]] liveD(2) [OF l1] by (simp_all add: set_status_def upd_pcb_def)
  have "z \<noteq> c \<and> same_life (pcbs os z) (pcbs (set_status c DEAD o1) z)" if "z \<in> set ps" "p_status (pcbs os z) = DEAD" for z
  proof -
    have "z \<noteq> c" using that liveD(3) [OF l] by auto
    then show ?thesis using quietD(4) [OF q, of z] by (auto simp: same_life_def set_status_def upd_pcb_def)
  qed
  then show ?thesis using schedule_keeps_dead [OF s(1,2) _ o(2)] s(3) by auto
qed

lemma waitpid_keeps_dead:
  assumes l: "live os ps rs c" and x: "waitpid pid os = Some (w, os')"
  shows "keeps_dead os ps os' \<or> (\<exists>z. z \<in> set ps \<and> p_status (pcbs os z) = DEAD \<and> p_parentPid (pcbs os z) = int c \<and>
     w = Returns (int z) (Some (p_retValue (pcbs os z))) \<and> keeps_dead os (remove1 z ps) os')"
proof (cases w)
  case (Returns r v)
  show ?thesis
  proof (cases "kids os pid c ps = []")
    case True
    then have "os' = os" using waitpid_effect [OF l x] Returns by simp
    then show ?thesis using keeps_dead_refl [OF l] by simp
  next
    case False
    then obtain z where z: "find (\<lambda>p. p_status (pcbs os p) = DEAD) (kids os pid c ps) = Some z" "r = int z" "v = Some (p_retValue (pcbs os z))"
        "live os' (remove1 z ps) rs c" "\<forall>p. same_life (pcbs os p) (pcbs os' p)"
      using waitpid_effect [OF l x] Returns by (simp only: wait_result.case if_False) blast
    have "z \<in> set ps" "p_status (pcbs os z) = DEAD" "p_parentPid (pcbs os z) = int c"
      using z(1) by (auto simp: find_Some_iff kids_def dest!: nth_mem)
    moreover have "keeps_dead os (remove1 z ps) os'" by (rule keeps_deadI [OF z(4)]) (use z(5) in auto)
    ultimately show ?thesis using Returns z(2,3) by blast
  qed
next
  case Waits
  then have "schedule os = Some os'"
    using x liveD(2) [OF l] unfolding waitpid_def Let_def by (auto simp: bind_eq_Some_conv split: option.splits if_splits prod.splits)
  moreover have "z \<noteq> c \<and> same_life (pcbs os z) (pcbs os z)" if "p_status (pcbs os z) = DEAD" for z using that liveD(3) [OF l] by auto
  ultimately have "keeps_dead os ps os'" using schedule_keeps_dead [OF liveD(1,2) [OF l], of os' os] liveD(3) [OF l] by blast
  then show ?thesis by blast
qed

text \<open>
  \<^bold>\<open>C31\<close>: What \<^verbatim>\<open>waitpid\<close> finds (program.cpp, \<^verbatim>\<open>waitpid\<close>, \<^verbatim>\<open>releasePCB\<close>).  Without a
  child of the pid asked for it returns -1 and changes nothing.  When a child is dead, the one created first is
  reaped: its pid and exit value are returned, its slot is free again and it is gone from the list, while
  every other program and the ready queue are as before.  When all of them live, the caller goes to the
  end of the ready queue and the next program runs.
\<close>

theorem waitpid_reaps_first_dead_child:
  assumes "live os ps rs c" and "waitpid pid os = Some (w, os')"
  shows "case w of
      Returns r v \<Rightarrow>
        if kids os pid c ps = [] then r = - 1 \<and> v = None \<and> os' = os
        else (\<exists>z. find (\<lambda>p. p_status (pcbs os p) = DEAD) (kids os pid c ps) = Some z \<and> z \<noteq> c \<and> r = int z \<and>
          v = Some (p_retValue (pcbs os z)) \<and> live os' (remove1 z ps) rs c \<and> \<not> PCB_SET_STATUS os' z \<and> (\<forall>p. same_life (pcbs os p) (pcbs os' p)))
    | Waits \<Rightarrow> kids os pid c ps \<noteq> [] \<and> (\<forall>p\<in>set (kids os pid c ps). p_status (pcbs os p) \<noteq> DEAD) \<and>
        (case rs of [] \<Rightarrow> os' = os | n # ns \<Rightarrow> live os' ps (ns @ [c]) n)"
  by (rule waitpid_effect [OF assms])

text \<open>Program 1, a child of program 0, runs; program 0 is ready.\<close>

definition parent_child :: "MM \<Rightarrow> FileManager \<Rightarrow> KeyboardManager \<Rightarrow> Screen \<Rightarrow> OS" where
  "parent_child mm fm kb sc = (two_threads mm fm kb sc)\<lparr>run := Some 1,
     links := (\<lambda>_. \<lparr>previous = None, next = None\<rparr>)
       (8 := \<lparr>previous = None, next = Some 65588\<rparr>, 65588 := \<lparr>previous = Some 8, next = Some 69684\<rparr>,
        69684 := \<lparr>previous = Some 65588, next = None\<rparr>, 16 := \<lparr>previous = None, next = Some 65580\<rparr>,
        65580 := \<lparr>previous = Some 16, next = None\<rparr>),
     pcbs := (\<lambda>p. zero_pcb\<lparr>p_pid := int p, p_status := (if p = 1 then RUNNING else READY)\<rparr>)\<rparr>"

lemma close_from_idle: "\<forall>k. fd_openfile (fd_table p k) = None \<Longrightarrow> close_from n i p fm = Some (p, fm)"
  by (induction n arbitrary: i) (auto simp: close_fd_def Let_def)

lemma parent_child_live: "live (parent_child mm fm kb sc) [0, 1] [0] 1" "kernel_mapped (parent_child mm fm kb sc) [0, 1]"
proof -
  have "{p. p < MAX_PROGRAM_AMOUNT \<and> p < 2} = {0, 1::nat}" by (auto simp: MAX_PROGRAM_AMOUNT_def)
  then have "table (parent_child mm fm kb sc) [0, 1] [0]"
    by (auto simp: table_def heads_ok_def ready_head_def parent_child_def two_threads_def list_at_def tagInAllList_def tagInGeneralList_def PCB_SIZE_def MAX_PROGRAM_AMOUNT_def)
  then show "live (parent_child mm fm kb sc) [0, 1] [0] 1" by (auto simp: live_def sched_def parent_child_def)
  show "kernel_mapped (parent_child mm fm kb sc) [0, 1]" unfolding kernel_mapped_def
    by (rule exI [of _ "{PAGE_DIRECTORY}"]) (auto simp: parent_child_def two_threads_def dir_at_def page_dir_def zero_pcb_def)
qed

lemma kernel_mapped_cong:
  assumes "kernel_mapped os ps" and "os_mm os' = os_mm os" and "\<And>p. page_dir os' p = page_dir os p"
  shows "kernel_mapped os' ps"
proof -
  have "dir_at (os'\<lparr>os_mm := m\<rparr>) p = dir_at (os\<lparr>os_mm := m\<rparr>) p" for m p
    by (rule dir_at_cong) (use assms(3) in \<open>simp_all add: page_dir_def\<close>)
  then show ?thesis using assms(1,2) by (simp add: kernel_mapped_def)
qed

lemma release_idle: "release_process_fs (p_fs zero_pcb) fm = Some (init_process_fs (p_fs zero_pcb), fm)"
  "release_process_fs (init_process_fs (p_fs zero_pcb)) fm = Some (init_process_fs (init_process_fs (p_fs zero_pcb)), fm)"
  unfolding release_process_fs_def using close_from_idle [of "p_fs zero_pcb"] close_from_idle [of "init_process_fs (p_fs zero_pcb)"]
  by (simp_all add: zero_pcb_def zero_file_def init_process_fs_def)

lemma parent_child_exit:
  "\<exists>os1. exit 7 (parent_child mm fm kb sc) = Some os1 \<and> live os1 [0, 1] [] 0 \<and> p_argv (pcbs os1 1) = 0 \<and>
     p_fs (pcbs os1 1) = init_process_fs (p_fs zero_pcb)"
proof -
  let ?os = "parent_child mm fm kb sc"
  define o1 where "o1 = upd_pcb 1 (\<lambda>c. c\<lparr>p_retValue := 7\<rparr>) (?os\<lparr>interrupts := False\<rparr>)"
  have run: "run ?os = Some 1" "\<And>p. p_pageDirectoryAddress (pcbs ?os p) = 0" "\<And>p. p_fs (pcbs ?os p) = p_fs zero_pcb" "\<And>p. p_argv (pcbs ?os p) = 0"
    by (simp_all add: parent_child_def zero_pcb_def)
  obtain o2 where o2: "release_fs 1 o1 = Some o2" "o2 = upd_pcb 1 (\<lambda>c. c\<lparr>p_fs := init_process_fs (p_fs zero_pcb)\<rparr>) (o1\<lparr>os_fm := os_fm o1\<rparr>)"
    using run(3) release_idle(1) unfolding release_fs_def by (simp add: o1_def upd_pcb_def)
  define o3 where "o3 = set_status 1 DEAD o2"
  have s3: "sched o3 [0, 1] [0]" "run o3 = Some 1" "p_status (pcbs o3 1) = DEAD" "os_mm o3 = os_mm ?os" "\<And>p. p_pageDirectoryAddress (pcbs o3 p) = 0"
    "p_argv (pcbs o3 1) = 0" "p_fs (pcbs o3 1) = init_process_fs (p_fs zero_pcb)"
    using parent_child_live(1) [of mm fm kb sc] run
    by (auto simp: live_def sched_def o3_def o2(2) o1_def set_status_def upd_pcb_def)
  define o4 where "o4 = o3\<lparr>pcbs := (\<lambda>p. if p \<in> set [0, 1] then adopted 1 (pcbs o3) p else pcbs o3 p)\<rparr>"
  have o4: "orphan_loop (next (links o3 (all_list o3))) 1 o3 = Some o4"
    unfolding o4_def by (rule orphan_loop_forward [OF table_forward [OF schedD(1) [OF s3(1,2)]]]) simp
  have s4: "sched o4 [0, 1] [0]" unfolding o4_def by (rule sched_pcbs [OF s3(1)]) simp
  have r4: "run o4 = Some 1" using s3(2) by (simp add: o4_def)
  have "kernel_mapped o4 [0, 1]" using parent_child_live(2)
    by (rule kernel_mapped_cong) (use run(2) s3(4,5) in \<open>auto simp: o4_def page_dir_def adopted_def\<close>)
  from schedule_step [OF s4 r4 this] obtain os1 where os1: "schedule o4 = Some os1"
      "pcbs os1 = (pcbs o4)(0 := taken_up o4 (pcbs o4 0), 1 := left (interrupts o4) (pcbs o4 1))" by blast
  have p0: "p_pageDirectoryAddress (pcbs (set_status 1 DEAD o2) 1) = 0" using s3(5) by (simp add: o3_def)
  have x: "exit 7 ?os = Some os1" using run(1) o2(1) [unfolded o1_def] o4 [unfolded o3_def] os1(1) p0 by (simp add: exit_def Let_def)
  from exit_effect [OF parent_child_live(1) this] have "live os1 [0, 1] [] 0" by auto
  moreover have "p_argv (pcbs os1 1) = 0" "p_fs (pcbs os1 1) = init_process_fs (p_fs zero_pcb)"
    using os1(2) s3(6,7) by (simp_all add: o4_def adopted_def)
  ultimately show ?thesis using x by blast
qed

lemma parent_child_reap:
  assumes l: "live os1 [0, 1] [] 0" and f: "p_argv (pcbs os1 1) = 0" "p_fs (pcbs os1 1) = init_process_fs (p_fs zero_pcb)"
    and c: "p_status (pcbs os1 1) = DEAD" "p_parentPid (pcbs os1 1) = 0" "p_parentPid (pcbs os1 0) = 0"
  shows "kids os1 1 0 [0, 1] = [1]" "\<exists>w os2. waitpid 1 os1 = Some (w, os2)"
proof -
  show k: "kids os1 1 0 [0, 1] = [1]" using c by (simp add: kids_def)
  have pid: "p_pid (pcbs os1 0) = 0" "p_pid (pcbs os1 1) = 1" using schedD(4) [OF liveD(1,2) [OF l]] by simp_all
  let ?os = "os1\<lparr>interrupts := False\<rparr>"
  have "live ?os [0, 1] [] 0" using l by simp
  from child_loop_forward [OF table_forward [OF liveD(4) [OF this]], of 1 0 False]
  have cl: "child_loop (next (links ?os (all_list ?os))) 1 0 False ?os = Some (True, Some 1)"
    using c pid by (simp add: is_child_def)
  obtain o2 where o2: "release_fs 1 ?os = Some o2" "o2 = upd_pcb 1 (\<lambda>c. c\<lparr>p_fs := init_process_fs (init_process_fs (p_fs zero_pcb))\<rparr>) (?os\<lparr>os_fm := os_fm ?os\<rparr>)"
    using f(2) release_idle(2) unfolding release_fs_def by simp
  have a: "p_argv (pcbs o2 1) = 0" using f(1) by (simp add: o2(2) upd_pcb_def)
  have "list_at (links o2) (all_list o2) (map (tagInAllList o2) [0, 1])"
    using liveD(4) [OF l] by (simp add: o2(2) table_def upd_pcb_def)
  then obtain k where "List_erase (all_list o2) (tagInAllList o2 1) (links o2) = Some k" using List_erase_at by blast
  then have "\<exists>o3. releasePCB 1 ?os = Some o3" using o2(1) a by (simp add: releasePCB_def on_links_def)
  then show "\<exists>w os2. waitpid 1 os1 = Some (w, os2)" using cl liveD(2) [OF l] by (auto simp: waitpid_def Let_def)
qed

lemma parent_child_waits:
  assumes "exit 7 (parent_child mm fm kb sc) = Some os1" and l: "live os1 [0, 1] [] 0" and f: "p_argv (pcbs os1 1) = 0"
    "p_fs (pcbs os1 1) = init_process_fs (p_fs zero_pcb)"
  shows "kids os1 1 0 [0, 1] = [1]" "p_status (pcbs os1 1) = DEAD" "p_retValue (pcbs os1 1) = 7" "\<exists>w os2. waitpid 1 os1 = Some (w, os2)"
    "p_parentPid (pcbs os1 1) = 0" "p_parentPid (pcbs os1 0) = 0"
proof -
  show c: "p_status (pcbs os1 1) = DEAD" "p_retValue (pcbs os1 1) = 7" "p_parentPid (pcbs os1 1) = 0" "p_parentPid (pcbs os1 0) = 0"
    using exit_effect [OF parent_child_live(1) assms(1)] by (auto simp: parent_child_def two_threads_def zero_pcb_def)
  show "kids os1 1 0 [0, 1] = [1]" "\<exists>w os2. waitpid 1 os1 = Some (w, os2)" by (rule parent_child_reap [OF l f c(1,3,4)])+
qed

theorem waitpid_reaps_first_dead_child_witness:
  "\<forall>mm fm kb sc. \<exists>os1 os2. exit 7 (parent_child mm fm kb sc) = Some os1 \<and> waitpid 1 os1 = Some (Returns 1 (Some 7), os2) \<and> live os2 [0] [] 0"
proof (intro allI)
  fix mm fm kb sc
  obtain os1 where o: "exit 7 (parent_child mm fm kb sc) = Some os1" "live os1 [0, 1] [] 0" "p_argv (pcbs os1 1) = 0"
      "p_fs (pcbs os1 1) = init_process_fs (p_fs zero_pcb)" using parent_child_exit by blast
  note k = parent_child_waits [OF o]
  obtain w os2 where w: "waitpid 1 os1 = Some (w, os2)" using k(4) by blast
  have "w = Returns 1 (Some 7) \<and> live os2 [0] [] 0"
    using waitpid_reaps_first_dead_child [OF o(2) w] k(1,2,3) by (cases w) simp_all
  then show "\<exists>os1 os2. exit 7 (parent_child mm fm kb sc) = Some os1 \<and> waitpid 1 os1 = Some (Returns 1 (Some 7), os2) \<and> live os2 [0] [] 0"
    using o(1) w by blast
qed

end
