(* ===== verification/Page_Faults.thy ===== *)
theory Page_Faults
  imports Process_Pages
begin

text \<open>
  Page faults (\<^verbatim>\<open>src/kernel/handler.cpp\<close>, the handler of \<^verbatim>\<open>src/kernel/interrupt.cpp\<close>): the
  classification of a fault, pages that are allocated on first use, pages that are copied on the first
  write, and the page that is taken away when none is free.  The error code and the address are what the
  processor delivers; \<open>None\<close> is a kernel that stops.  The result of the user handler is ignored by its
  caller, as in the code, and \<^verbatim>\<open>asm_invlpg\<close> has no effect on a translation without a buffer.
\<close>

section \<open>The handlers\<close>

datatype FaultType =
    DEMAND_ZERO | STACK_GROWTH | HEAP_GROWTH | SWAP_IN | COPY_ON_WRITE | FILE_BACKED
  | PERMISSION_VIOLATION | KERNEL_RESERVED | INVALID_ADDRESS | OUT_OF_MEMORY | PAGE_TABLE_BROKEN | UNKNOWN

definition PG_FILE :: u16 where "PG_FILE = 0x4"
definition PG_ZERO :: u16 where "PG_ZERO = 0x10"

text \<open>
  The words that the search for a victim reads through the addresses in the reverse map; an address
  without a translation reads as 0, which makes its page the victim at once, and the store to the
  entry then stops the kernel.  Only entries of searched pages can have changed, and they are written back.
\<close>

definition word_at :: "MM \<Rightarrow> u32 \<Rightarrow> u32" where
  "word_at s a = (case load a s of Some w \<Rightarrow> w | None \<Rightarrow> 0)"

definition searched_entries :: "MM \<Rightarrow> u32 list" where
  "searched_entries s = map (\<lambda>i. pte_vaddr (RMapStart (rmapManager s)
       (pi_extra (pageinfos s (unat (PA2PGI (pa_startAddress (kernelPhysical s)) + word_of_nat i))))))
     [0..<unat (pa_length (kernelPhysical s))]"

definition write_back :: "(u32 \<Rightarrow> u32) \<Rightarrow> u32 list \<Rightarrow> MM \<Rightarrow> MM option" where
  "write_back mem as s = fold (\<lambda>a r. do { s \<leftarrow> r; if mem a = word_at s a then Some s else store a (mem a) s }) as (Some s)"

definition find_victim :: "AddressPoolType \<Rightarrow> MM \<Rightarrow> (VictimInfo \<times> MM) option" where
  "find_victim type s = do {
     (v, s', mem) \<leftarrow> MM_findVictim type (word_at s) s;
     s' \<leftarrow> write_back mem (searched_entries s) s';
     Some (v, s')
   }"

definition out_of_memory :: "AddressPoolType \<Rightarrow> int \<Rightarrow> MM \<Rightarrow> (u32 \<times> MM) option" where
  "out_of_memory type count s =
     (if count \<noteq> 1 then Some (0, s)
      else do {
        (v, s) \<leftarrow> find_victim type s;
        if vi_paddr v = 0 \<and> vi_PTEptr v = 0 then Some (0, s)
        else do {
          s \<leftarrow> store (vi_PTEptr v) 0 s;
          let pgi = unat (PA2PGI (vi_paddr v));
          let s = upd_page pgi PageInfo_clear s;
          let s = (if type = KERNEL then upd_page pgi (PageInfo_setFlag PG_KERNEL) s else s);
          Some (vi_paddr v, upd_page pgi (PageInfo_setFlag PG_SINGLE) s)
        }
      })"

text \<open>A frame, taken from another page when no frame is free.\<close>

definition some_frame :: "AddressPoolType \<Rightarrow> MM \<Rightarrow> (u32 \<times> MM) option" where
  "some_frame type s = do {
     (paddr, s) \<leftarrow> allocatePhysicalPages type 1 s;
     if paddr = 0 then out_of_memory type 1 s else Some (paddr, s)
   }"

text \<open>Connecting a fresh frame at the page of \<open>addr\<close>, with zeros in it.\<close>

definition zero_page_at :: "u32 \<Rightarrow> u32 \<Rightarrow> MM \<Rightarrow> MM option" where
  "zero_page_at addr paddr s = do {
     let vaddr = addr AND NOT 0xfff;
     (_, s) \<leftarrow> connectPhysicalVirtualPage vaddr paddr s;
     let pgi = unat (PA2PGI paddr);
     if PageInfo_hasFlag (pageinfos s pgi) PG_ZERO then Some (upd_page pgi (PageInfo_clearFlag PG_ZERO) s)
     else clear_table vaddr s
   }"

definition cow_unshare :: "u32 \<Rightarrow> u16 \<Rightarrow> u32 \<Rightarrow> u32 \<Rightarrow> MM \<Rightarrow> (bool \<times> MM) option" where
  "cow_unshare addr owner paddr new_paddr s = do {
     let vaddr = addr AND NOT 0xfff;
     let PTEptr = toPTE addr;
     PTE_paddr \<leftarrow> toPTEpa vaddr s;
     e \<leftarrow> load PTEptr s;
     s \<leftarrow> store PTEptr ((e AND NOT PTE_COW) OR PTE_WRITABLE) s;
     e \<leftarrow> load PTEptr s;
     s \<leftarrow> store PTEptr ((e AND NOT PTE_GET_ADDRESS) OR new_paddr) s;
     (_, s) \<leftarrow> detach_page paddr PTE_paddr owner s;
     (_, s) \<leftarrow> attach_page new_paddr PTE_paddr PTEptr owner s;
     (src, s) \<leftarrow> mapTemp KERNEL paddr s;
     if src = 0 then Some (False, s)
     else do {
       s \<leftarrow> copy_words vaddr src 1024 s;
       s \<leftarrow> unmapTemp KERNEL s;
       Some (True, s)
     }
   }"

definition copy_on_write :: "u32 \<Rightarrow> u16 \<Rightarrow> MM \<Rightarrow> (bool \<times> MM) option" where
  "copy_on_write addr owner s = do {
     let PTEptr = toPTE addr;
     e \<leftarrow> load PTEptr s;
     let paddr = e AND PTE_GET_ADDRESS;
     let pi = pageinfos s (unat (PA2PGI paddr));
     if PageInfo_getRef pi = 0 then Some (False, s)
     else if PageInfo_getRef pi = 1 then do {
       s \<leftarrow> store PTEptr ((e AND NOT PTE_COW) OR PTE_WRITABLE) s;
       let R = rmapManager s;
       Some (True, s\<lparr>rmapManager := R\<lparr>RMapStart := (RMapStart R)(pi_extra pi := (RMapStart R (pi_extra pi))\<lparr>pte_vaddr := PTEptr\<rparr>)\<rparr>\<rparr>)
     }
     else do {
       (new_paddr, s) \<leftarrow> some_frame USER s;
       if new_paddr = 0 then Some (False, s) else cow_unshare addr owner paddr new_paddr s
     }
   }"

definition handle_user_page_fault :: "FaultType \<Rightarrow> u32 \<Rightarrow> MM \<Rightarrow> (bool \<times> MM) option" where
  "handle_user_page_fault faultType addr s =
     (case running s of
        None \<Rightarrow> Some (False, s)
      | Some (owner, userVirtual) \<Rightarrow>
          if faultType = COPY_ON_WRITE then
            (if UserVAddressPool_vaddr2Seg userVirtual addr = EMPTY then Some (False, s) else copy_on_write addr owner s)
          else if faultType = DEMAND_ZERO then
            (if UserVAddressPool_vaddr2Seg userVirtual addr = EMPTY then Some (False, s)
             else do {
               (paddr, s) \<leftarrow> some_frame USER s;
               if paddr = 0 then Some (False, s)
               else do { s \<leftarrow> zero_page_at addr paddr s; Some (True, s) }
             })
          else None)"

definition handle_kernel_page_fault :: "FaultType \<Rightarrow> u32 \<Rightarrow> MM \<Rightarrow> MM option" where
  "handle_kernel_page_fault faultType addr s =
     (if faultType = DEMAND_ZERO then
        (if \<not> VAddressPool_isValidAddr (kernelVirtual s) addr then do {
           (ok, s) \<leftarrow> handle_user_page_fault faultType addr s;
           if ok then Some s else None
         }
         else do {
           (paddr, s) \<leftarrow> some_frame KERNEL s;
           if paddr = 0 then None
           else do {
             s \<leftarrow> zero_page_at addr paddr s;
             Some (upd_page (unat (PA2PGI paddr)) (PageInfo_setFlag PG_KERNEL) s)
           }
         })
      else None)"

section \<open>Classification\<close>

definition fault_from_user :: "u32 \<Rightarrow> bool" where
  "fault_from_user error_code \<longleftrightarrow> error_code AND 0x4 \<noteq> 0"

definition classify_fault :: "bool \<Rightarrow> u32 \<Rightarrow> MM \<Rightarrow> FaultType option" where
  "classify_fault from_user addr s = do {
     PDE \<leftarrow> load (toPDE addr) s;
     if PDE AND PTE_PRESENT = 0 then None
     else do {
       PTE \<leftarrow> load (toPTE addr) s;
       if PTE AND PTE_PRESENT = 0 then
         (if PTE AND PTE_WRITABLE \<noteq> 0 \<and> PTE AND PTE_LAZY \<noteq> 0 then Some DEMAND_ZERO
          else if PageInfo_hasFlag (pageinfos s (unat (PA2PGI (PTE AND PTE_GET_ADDRESS)))) PG_FILE then Some FILE_BACKED
          else if PTE AND PTE_SWAP \<noteq> 0 then Some SWAP_IN
          else if from_user then do {
            (pid, u) \<leftarrow> running s;
            Some (case UserVAddressPool_vaddr2Seg u addr of HEAP \<Rightarrow> HEAP_GROWTH | STACK \<Rightarrow> STACK_GROWTH | _ \<Rightarrow> INVALID_ADDRESS)
          }
          else Some INVALID_ADDRESS)
       else if PTE AND PTE_WRITABLE = 0 \<and> PTE AND PTE_COW \<noteq> 0 then Some COPY_ON_WRITE
       else if (PTE AND PTE_WRITABLE = 0 \<or> from_user \<and> PTE AND PTE_USER_ACCESS = 0) \<and> PTE AND PTE_COW = 0
            then Some PERMISSION_VIOLATION
       else Some UNKNOWN
     }
   }"

definition c_page_fault_handler :: "u32 \<Rightarrow> u32 \<Rightarrow> MM \<Rightarrow> MM option" where
  "c_page_fault_handler error_code addr s = do {
     let from_user = fault_from_user error_code;
     faultType \<leftarrow> classify_fault from_user addr s;
     if from_user then do { (_, s) \<leftarrow> handle_user_page_fault faultType addr s; Some s }
     else handle_kernel_page_fault faultType addr s
   }"

end
