(* ===== verification/Fault_Effects.thy ===== *)
theory Fault_Effects
  imports Page_Faults
begin

text \<open>
  What the page fault handler does to memory: copying and clearing a page through its own mapping,
  taking a fresh frame, the temporary mapping, and from these the first write to a shared page and the
  first touch of a lazily allocated one.
\<close>

section \<open>Words of a mapped page\<close>

text \<open>\<open>page_at s v f\<close>: the page at \<open>v\<close> shows the frame \<open>f\<close>; \<open>walk s v\<close> are the two words that say so.\<close>

definition page_at :: "MM \<Rightarrow> u32 \<Rightarrow> u32 \<Rightarrow> bool" where
  "page_at s v f \<longleftrightarrow> page_aligned v \<and> page_aligned f \<and>
     (\<forall>x. unat x < 4096 \<longrightarrow> translate (phys s) (cr3 s) (v + x) = Some (f + x))"

definition walk :: "MM \<Rightarrow> u32 \<Rightarrow> u32 set" where
  "walk s v = {pde_at (cr3 s) v, pte_at (dir_entry v s) v}"

definition frame_words :: "u32 \<Rightarrow> u32 set" where
  "frame_words f = (\<lambda>i. f + word_of_nat i * 4) ` {..<1024}"

definition put_words :: "u32 \<Rightarrow> nat \<Rightarrow> (nat \<Rightarrow> u32) \<Rightarrow> phys_mem \<Rightarrow> phys_mem" where
  "put_words f n w m = fold (\<lambda>i m. m(f + word_of_nat i * 4 := w i)) [0..<n] m"

lemma put_words_Suc: "put_words f (Suc n) w m = (put_words f n w m)(f + word_of_nat n * 4 := w n)"
  by (simp add: put_words_def)

lemma put_words_0 [simp]: "put_words f 0 w m = m"
  by (simp add: put_words_def)

lemma unat_word_offset: "i < 1024 \<Longrightarrow> unat (word_of_nat i * 4 :: u32) = i * 4"
  using unat_slot [of 0 i] by simp

lemma word_offset_inj:
  assumes "page_aligned f" "page_aligned g" "i < 1024" "j < 1024" "f + word_of_nat i * 4 = g + word_of_nat j * 4"
  shows "f = g \<and> i = j"
proof -
  have "unat (word_of_nat i * 4 :: u32) < 4096" "unat (word_of_nat j * 4 :: u32) < 4096"
    using assms(3,4) by (simp_all only: unat_word_offset)
  then have "f = g \<and> word_of_nat i * 4 = (word_of_nat j * 4 :: u32)" by (rule frame_offset_inj [OF assms(1,2) _ _ assms(5)])
  then show ?thesis using unat_word_offset [OF assms(3)] unat_word_offset [OF assms(4)] by (metis mult_cancel2 zero_neq_numeral)
qed

lemma put_words_other: "n \<le> 1024 \<Longrightarrow> a \<notin> frame_words f \<Longrightarrow> put_words f n w m a = m a"
  by (induction n) (auto simp: put_words_Suc frame_words_def)

lemma put_words_hit: "n \<le> 1024 \<Longrightarrow> page_aligned f \<Longrightarrow> i < n \<Longrightarrow> put_words f n w m (f + word_of_nat i * 4) = w i"
proof (induction n)
  case (Suc n)
  show ?case
  proof (cases "i = n")
    case False
    then have "f + word_of_nat i * 4 \<noteq> f + word_of_nat n * 4" using word_offset_inj [of f f i n] Suc.prems by auto
    then show ?thesis using Suc False by (simp add: put_words_Suc)
  qed (simp add: put_words_Suc)
qed simp

lemma frame_words_disjoint: "page_aligned f \<Longrightarrow> page_aligned g \<Longrightarrow> f \<noteq> g \<Longrightarrow> i < 1024 \<Longrightarrow> f + word_of_nat i * 4 \<notin> frame_words g"
  using word_offset_inj by (auto simp: frame_words_def)

lemma not_in_frame: "page_aligned f \<Longrightarrow> page_aligned g \<Longrightarrow> f \<noteq> g \<Longrightarrow> unat x < 4096 \<Longrightarrow> f + x \<notin> frame_words g"
proof
  assume a: "page_aligned f" "page_aligned g" "f \<noteq> g" "unat x < 4096" "f + x \<in> frame_words g"
  then obtain i where i: "i < 1024" "f + x = g + word_of_nat i * 4" by (auto simp: frame_words_def)
  have "unat (word_of_nat i * 4 :: u32) < 4096" using i(1) by (simp only: unat_word_offset)
  then show False using frame_offset_inj [OF a(1,2,4) _ i(2)] a(3) by blast
qed

lemma page_at_cong:
  assumes p: "page_at s v f" and c: "cr3 s' = cr3 s" and w: "\<And>a. a \<in> walk s v \<Longrightarrow> phys s' a = phys s a"
  shows "page_at s' v f"
proof -
  have al: "page_aligned v" using p by (simp add: page_at_def)
  have d: "phys s' (pde_at (cr3 s) v) = dir_entry v s" using w [of "pde_at (cr3 s) v"] by (simp add: walk_def dir_entry_def)
  have e: "phys s' (pte_at (dir_entry v s) v) = phys s (pte_at (dir_entry v s) v)" using w by (simp add: walk_def)
  have "translate (phys s') (cr3 s') (v + x) = translate (phys s) (cr3 s) (v + x)" if x: "unat x < 4096" for x
  proof -
    have v: "pde_at (cr3 s) (v + x) = pde_at (cr3 s) v" "pte_at d (v + x) = pte_at d v" for d
      using same_page [OF al x] by (simp_all add: pde_at_def pte_at_def)
    show ?thesis using d e by (simp add: translate_def Let_def v c) (simp add: dir_entry_def)
  qed
  then show ?thesis using p by (simp add: page_at_def)
qed

lemma page_atI:
  assumes "page_aligned v" and "dir_entry v s AND PDE_PRESENT \<noteq> 0"
    and "phys s (pte_at (dir_entry v s) v) AND PTE_PRESENT \<noteq> 0" and "phys s (pte_at (dir_entry v s) v) AND PTE_GET_ADDRESS = f"
  shows "page_at s v f"
proof -
  have "translate (phys s) (cr3 s) (v + x) = Some (f + x)" if x: "unat x < 4096" for x
    using assms same_page [OF assms(1) x] by (simp add: translate_def Let_def pde_at_def pte_at_def dir_entry_def)
  then show ?thesis using assms(1,4) frame_aligned(2) by (auto simp: page_at_def)
qed

lemma page_at_load: "page_at s v f \<Longrightarrow> i < 1024 \<Longrightarrow> load (v + word_of_nat i * 4) s = Some (phys s (f + word_of_nat i * 4))"
  by (simp add: page_at_def load_def unat_word_offset)

lemma page_at_store:
  "page_at s v f \<Longrightarrow> i < 1024 \<Longrightarrow> store (v + word_of_nat i * 4) w s = Some (s\<lparr>phys := (phys s)(f + word_of_nat i * 4 := w)\<rparr>)"
  by (simp add: page_at_def store_def unat_word_offset)

lemma page_at_put:
  assumes "page_at s v g" and "page_aligned f" and "walk s v \<inter> frame_words f = {}" and "n \<le> 1024"
  shows "page_at (s\<lparr>phys := put_words f n w (phys s)\<rparr>) v g"
proof (rule page_at_cong [OF assms(1)])
  fix a assume "a \<in> walk s v"
  then have "a \<notin> frame_words f" using assms(3) by blast
  then show "phys (s\<lparr>phys := put_words f n w (phys s)\<rparr>) a = phys s a" using assms(4) by (simp add: put_words_other)
qed simp

lemma store_words_page:
  assumes p: "page_at s v f" and w: "walk s v \<inter> frame_words f = {}" and n: "n \<le> 1024"
  shows "store_words v n w s = Some (s\<lparr>phys := put_words f n w (phys s)\<rparr>)"
  using n
proof (induction n)
  case (Suc n)
  have al: "page_aligned f" using p by (simp add: page_at_def)
  have "page_at (s\<lparr>phys := put_words f n w (phys s)\<rparr>) v f" by (rule page_at_put [OF p al w]) (use Suc.prems in simp)
  from page_at_store [OF this, of n "w n"] Suc show ?case by (simp add: store_words_def put_words_Suc fun_upd_def)
qed (simp add: store_words_def)

lemma clear_table_words: "clear_table v s = store_words v 1024 (\<lambda>_. 0) s"
  by (simp add: clear_table_def store_words_def)

lemma copy_words_page:
  assumes p: "page_at s v f" "page_at s u g" and fg: "f \<noteq> g" and w: "walk s v \<inter> frame_words f = {}" "walk s u \<inter> frame_words f = {}"
    and n: "n \<le> 1024"
  shows "copy_words v u n s = Some (s\<lparr>phys := put_words f n (\<lambda>i. phys s (g + word_of_nat i * 4)) (phys s)\<rparr>)"
  using n
proof (induction n)
  case (Suc n)
  let ?s = "s\<lparr>phys := put_words f n (\<lambda>i. phys s (g + word_of_nat i * 4)) (phys s)\<rparr>"
  have al: "page_aligned f" "page_aligned g" using p by (simp_all add: page_at_def)
  have pv: "page_at ?s v f" by (rule page_at_put [OF p(1) al(1) w(1)]) (use Suc.prems in simp)
  have pu: "page_at ?s u g" by (rule page_at_put [OF p(2) al(1) w(2)]) (use Suc.prems in simp)
  have "g + word_of_nat n * 4 \<notin> frame_words f" by (rule frame_words_disjoint [OF al(2,1)]) (use fg Suc.prems in auto)
  then have "phys ?s (g + word_of_nat n * 4) = phys s (g + word_of_nat n * 4)" using Suc.prems by (simp add: put_words_other)
  then show ?case using Suc page_at_load [OF pu, of n] page_at_store [OF pv, of n "phys s (g + word_of_nat n * 4)"]
    by (simp add: copy_words_def put_words_Suc fun_upd_def)
qed (simp add: copy_words_def)

section \<open>Fresh frames\<close>

text \<open>
  Memory in order: the pools and the reverse map are well formed, the directory maps itself, and no free
  frame is mapped anywhere or holds the directory or one of its tables.
\<close>

definition table_frames :: "MM \<Rightarrow> u32 set" where
  "table_frames s = insert (cr3 s) {dir_entry v s AND PDE_GET_ADDRESS | v. dir_entry v s AND PDE_PRESENT \<noteq> 0}"

definition memory_ok :: "MM \<Rightarrow> (AddressPoolType \<Rightarrow> nat \<Rightarrow> nat list) \<Rightarrow> (nat \<Rightarrow> nat) \<Rightarrow> (nat \<Rightarrow> nat list) \<Rightarrow> bool" where
  "memory_ok s A base X \<longleftrightarrow> frames_ok s A \<and> rmap_ok (rmapManager s) (pageinfos s) base X \<and> self_mapped s \<and>
     (\<forall>ty i. cover (A ty) i = 1 \<longrightarrow> X (frame_no (phys_pool ty s) i) = [] \<and> base (frame_no (phys_pool ty s) i) = 0 \<and>
        pa_frame (phys_pool ty s) i \<notin> table_frames s)"

lemma rmap_ok_clear:
  assumes ok: "rmap_ok R P base X" and q: "X q = []" "base q = 0" and p: "pi_ref p = 0" "pi_extra p = 0"
  shows "rmap_ok R (P(q := p)) base X"
  using ok q p unfolding rmap_ok_def by (auto simp: all_conj_distrib)

lemma fresh_frame:
  assumes ok: "memory_ok s A base X" and al: "allocatePhysicalPages ty 1 s = Some (new, s1)" and nz: "new \<noteq> 0"
  shows "\<exists>p. s1 = upd_page (unat (PA2PGI new)) (\<lambda>_. \<lparr>pi_ref = 0, pi_flags = (if ty = KERNEL then PG_KERNEL else 0) OR PG_SINGLE, pi_extra = 0\<rparr>) (set_phys_pool ty p s)"
    and "page_aligned new" "new \<notin> table_frames s" "X (unat (PA2PGI new)) = []"
    and "rmap_ok (rmapManager s1) (pageinfos s1) base X" "pi_ref (pageinfos s1 (unat (PA2PGI new))) = 0" "base (unat (PA2PGI new)) = 0"
proof -
  let ?p = "phys_pool ty s" and ?q = "unat (PA2PGI new)"
  have fr: "frames_ok s A" and rm: "rmap_ok (rmapManager s) (pageinfos s) base X" using ok by (simp_all add: memory_ok_def)
  have p: "pa_ok ?p (A ty)" using fr unfolding frames_ok_def by blast
  obtain i p' where i: "PAddressPool_allocate 1 ?p = (pa_frame ?p i, p')" "cover (A ty) i = 1" "int i < totalPages (pa_resources ?p)"
  proof (cases rule: pa_alloc_one [OF p])
    case 1
    then show thesis using al nz by (simp add: allocatePhysicalPages_one)
  next
    case 2
    show thesis by (rule that [OF 2(1-3)])
  qed
  have free: "PageInfo_hasFlag (pageinfos s (frame_no ?p i)) PG_FREE" using fr i(2) unfolding frames_ok_def by blast
  have n: "new = pa_frame ?p i" and s1: "s1 = upd_page ?q (\<lambda>_. \<lparr>pi_ref = 0, pi_flags = (if ty = KERNEL then PG_KERNEL else 0) OR PG_SINGLE, pi_extra = 0\<rparr>) (set_phys_pool ty p' s)"
    using al i(1) frames_frame [OF fr i(3)] free by (auto simp: allocatePhysicalPages_one frame_no_def)
  have q: "?q = frame_no ?p i" by (simp add: frame_no_def n)
  show "\<exists>p. s1 = upd_page ?q (\<lambda>_. \<lparr>pi_ref = 0, pi_flags = (if ty = KERNEL then PG_KERNEL else 0) OR PG_SINGLE, pi_extra = 0\<rparr>) (set_phys_pool ty p s)"
    using s1 by blast
  have "X (frame_no ?p i) = [] \<and> base (frame_no ?p i) = 0 \<and> pa_frame ?p i \<notin> table_frames s"
    using ok i(2) unfolding memory_ok_def by blast
  then have u: "X ?q = [] \<and> base ?q = 0 \<and> new \<notin> table_frames s" by (simp add: n frame_no_def)
  then show "X ?q = []" "base ?q = 0" "new \<notin> table_frames s" by blast+
  show "page_aligned new" using unat_pa_frame [OF p i(3)] p unfolding n by (simp add: page_aligned_dvd pa_ok_def)
  have k: "rmapManager s1 = rmapManager s" "pageinfos s1 = (pageinfos s)(?q := \<lparr>pi_ref = 0, pi_flags = (if ty = KERNEL then PG_KERNEL else 0) OR PG_SINGLE, pi_extra = 0\<rparr>)"
    unfolding s1 by (cases ty; simp add: upd_page_def set_phys_pool_def)+
  show "rmap_ok (rmapManager s1) (pageinfos s1) base X" unfolding k by (rule rmap_ok_clear [OF rm]) (use u in simp_all)
  show "pi_ref (pageinfos s1 ?q) = 0" by (simp add: k)
qed

section \<open>The temporary mapping\<close>

lemma mapTemp_slot:
  assumes ok: "temp_slot_ok s"
  shows "mapTemp KERNEL pa s = Some (temp_va s + (pa AND 0xfff), s\<lparr>phys := (phys s)(slot_entry s := (pa AND NOT 0xfff) OR 0x7)\<rparr>)"
  using ok load_toPDE [of s "temp_va s"] load_toPTE [of s "temp_va s"] store_toPTE [of s "temp_va s"]
  by (simp add: temp_slot_ok_def mapTemp_def temp_va_def [symmetric] slot_entry_def [symmetric])

lemma unmapTemp_slot:
  assumes "self_mapped s" "dir_entry (temp_va s) s AND PDE_PRESENT \<noteq> 0" "phys s (slot_entry s) AND PTE_PRESENT \<noteq> 0"
    "phys s (slot_entry s) AND PTE_GET_ADDRESS \<noteq> 0"
  shows "unmapTemp KERNEL s = Some (s\<lparr>phys := (phys s)(slot_entry s := 0)\<rparr>)"
  using assms load_toPTE [of s "temp_va s"] store_toPTE [of s "temp_va s"]
  by (simp add: unmapTemp_def temp_va_def [symmetric] slot_entry_def [symmetric])

text \<open>The slot after a change of memory elsewhere.\<close>

lemma temp_slot_other:
  assumes ok: "temp_slot_ok s" and k: "cr3 s' = cr3 s" "kernelVirtual s' = kernelVirtual s"
    and m: "\<And>a. a \<in> {pde_at (cr3 s) (temp_va s), slot_entry s, cr3 s + 4092} \<Longrightarrow> phys s' a = phys s a"
  shows "temp_slot_ok s'" and "slot_entry s' = slot_entry s" and "temp_va s' = temp_va s" and "dir_entry (temp_va s) s' = dir_entry (temp_va s) s"
proof -
  show t: "temp_va s' = temp_va s" by (simp add: temp_va_def k)
  show d: "dir_entry (temp_va s) s' = dir_entry (temp_va s) s" using m by (simp add: dir_entry_def k)
  show e: "slot_entry s' = slot_entry s" by (simp add: slot_entry_def t d)
  show "temp_slot_ok s'" using ok m unfolding temp_slot_ok_def e t d k by (simp add: self_map_def)
qed

text \<open>A detached mapping leaves a free slot for the next one.\<close>

lemma detach_loop_frees:
  "detach_loop R p pa ow prv idx = Some r \<Longrightarrow> fst r \<Longrightarrow>
     \<exists>i. int i < rm_length (fst (snd r)) \<and> \<not> BitMap_get (rm_bitmap (fst (snd r))) i"
proof (induction R p pa ow prv idx r rule: detach_loop.raw_induct [rotated, consumes 1])
  case (1 loop R p pa ow prv idx r)
  show ?case
  proof (cases "idx \<noteq> 0 \<and> \<not> (pte_paddr (RMapStart R idx) = pa \<and> rm_owner (RMapStart R idx) = ow)")
    case True
    then have "loop R p pa ow idx (rm_next (RMapStart R idx)) = Some r" using 1(2) by (auto split: if_splits)
    from 1(1) [OF this 1(3)] show ?thesis .
  next
    case False
    then show ?thesis using 1(2,3)
      by (auto simp: Let_def bind_eq_Some_conv RMap_release_def ASSERT_def BitMap_get_release1 split: if_splits)
  qed
qed

lemma RMap_detach_frees:
  "RMap_detach R p pa ow = Some (True, R', p') \<Longrightarrow> \<exists>i. int i < rm_length R' \<and> \<not> BitMap_get (rm_bitmap R') i"
  using detach_loop_frees [of R p pa ow "pi_extra p" "rm_next (RMapStart R (pi_extra p))" "(True, R', p')"]
  by (auto simp: RMap_detach_def Let_def bind_eq_Some_conv RMap_release_def BitMap_get_release1 split: if_splits)

section \<open>Copying on the first write\<close>

definition own_entry :: "u32 \<Rightarrow> u32 \<Rightarrow> u32" where
  "own_entry e new = (((e AND NOT PTE_COW) OR PTE_WRITABLE) AND NOT PTE_GET_ADDRESS) OR new"

lemma own_entry_bits:
  assumes "page_aligned new"
  shows "own_entry e new AND PTE_GET_ADDRESS = new" "own_entry e new AND PTE_WRITABLE \<noteq> 0" "own_entry e new AND PTE_COW = 0"
    "own_entry e new AND PTE_PRESENT = e AND PTE_PRESENT" "own_entry e new AND PTE_USER_ACCESS = e AND PTE_USER_ACCESS"
proof -
  have n: "\<not> bit new k" if "k < 12" for k
  proof -
    have "\<not> bit (new AND mask 12) k" using assms by (simp add: page_aligned_def mask_consts)
    then show ?thesis using that by (simp add: bit_and_iff bit_mask_iff)
  qed
  have c: "PTE_COW = push_bit 9 1" "PTE_WRITABLE = push_bit 1 1" "PTE_PRESENT = push_bit 0 1" "PTE_USER_ACCESS = push_bit 2 1"
    "PTE_GET_ADDRESS = NOT (mask 12)" by (simp_all add: pte_flag_defs mask_eq_exp_minus_1)
  have b: "bit (own_entry e new) k \<longleftrightarrow> (if k < 12 then k = 1 \<or> bit e k \<and> k \<noteq> 9 else bit new k)" if "k < 32" for k
    unfolding own_entry_def c bit_and_iff bit_or_iff bit_not_iff bit_push_bit_iff bit_1_iff bit_mask_iff using that n by auto
  show "own_entry e new AND PTE_GET_ADDRESS = new"
    by (rule bit_word_eqI) (use n in \<open>auto simp: c(5) bit_and_iff bit_not_iff bit_mask_iff b\<close>)
  show "own_entry e new AND PTE_WRITABLE \<noteq> 0" "own_entry e new AND PTE_COW = 0"
    unfolding c by (subst and_push_bit_1_eq_0_iff; simp add: b)+
  show "own_entry e new AND PTE_PRESENT = e AND PTE_PRESENT" "own_entry e new AND PTE_USER_ACCESS = e AND PTE_USER_ACCESS"
    unfolding c by (rule bit_word_eqI; auto simp only: bit_and_iff bit_push_bit_iff bit_1_iff b split: if_splits; simp add: b)+
qed

lemma toPTE_page: "toPTE (v AND NOT 0xfff) = toPTE v"
proof -
  have "(v AND NOT 0xfff) AND 0xffc00000 = v AND 0xffc00000" "(v AND NOT 0xfff) AND 0x003ff000 = v AND 0x003ff000"
    by (simp_all add: and.assoc)
  then show ?thesis by (simp only: toPTE_def)
qed

lemma page_base: "page_aligned (v AND NOT 0xfff)"
  by (simp add: page_aligned_def and.assoc)

text \<open>The work on the tables: the entry, the old mapping, the new mapping.\<close>

lemma unshare_entry:
  assumes self: "self_mapped s" and pres: "dir_entry v s AND PDE_PRESENT \<noteq> 0" and tab: "dir_entry v s AND PDE_GET_ADDRESS \<noteq> cr3 s"
  defines "pte \<equiv> pte_at (dir_entry v s) v"
  shows "load (toPTE v) s = Some (phys s pte)"
    "do { s \<leftarrow> store (toPTE v) ((phys s pte AND NOT PTE_COW) OR PTE_WRITABLE) s; e \<leftarrow> load (toPTE v) s;
          store (toPTE v) ((e AND NOT PTE_GET_ADDRESS) OR new) s } = Some (s\<lparr>phys := (phys s)(pte := own_entry (phys s pte) new)\<rparr>)"
proof -
  have ne: "pte \<noteq> pde_at (cr3 s) v" "pte \<noteq> cr3 s + 4092"
    unfolding pte_def by (rule pte_not_pde [OF self_map_aligned [OF self] tab])+
  let ?s = "s\<lparr>phys := (phys s)(pte := (phys s pte AND NOT PTE_COW) OR PTE_WRITABLE)\<rparr>"
  have self': "self_mapped ?s" using self ne(2) by (simp add: self_map_upd)
  have d: "dir_entry v ?s = dir_entry v s" using ne(1) by (simp add: dir_entry_def)
  have pres': "dir_entry v ?s AND PDE_PRESENT \<noteq> 0" using pres d by simp
  show "load (toPTE v) s = Some (phys s pte)" unfolding pte_def by (rule load_toPTE [OF self pres])
  show "do { s \<leftarrow> store (toPTE v) ((phys s pte AND NOT PTE_COW) OR PTE_WRITABLE) s; e \<leftarrow> load (toPTE v) s;
          store (toPTE v) ((e AND NOT PTE_GET_ADDRESS) OR new) s } = Some (s\<lparr>phys := (phys s)(pte := own_entry (phys s pte) new)\<rparr>)"
    using store_toPTE [OF self pres] load_toPTE [OF self' pres'] store_toPTE [OF self' pres'] d
    by (simp add: pte_def own_entry_def)
qed

text \<open>The reverse map: the old frame loses the mapping, the new frame gets it.\<close>

lemma move_mapping:
  assumes rm: "rmap_ok (rmapManager s) (pageinfos s) base X"
    and q: "q = unat (PA2PGI old)" "qn = unat (PA2PGI new)" "q \<noteq> qn" and qn: "X qn = []" "pi_ref (pageinfos s qn) = 0"
    and hit: "\<exists>m\<in>set (mappings (rmapManager s) (X q)). matches pte pid m"
  shows "\<exists>R P X' i. do { (_, s) \<leftarrow> detach_page old pte pid s; (_, s) \<leftarrow> attach_page new pte va pid s; Some s } = Some (s\<lparr>rmapManager := R, pageinfos := P\<rparr>) \<and>
     rmap_ok R P base (X(q := X', qn := [i])) \<and> mappings R X' = remove_first (matches pte pid) (mappings (rmapManager s) (X q)) \<and>
     mappings R [i] = [(pte, va, pid)]"
proof -
  have ne: "X q \<noteq> []" using hit by (auto simp: mappings_def)
  show ?thesis
  proof (cases rule: RMap_detach_ok [OF rm ne, of pte pid])
    case 1
    then show ?thesis using hit by blast
  next
    case (2 R1 p1 X')
    let ?P1 = "(pageinfos s)(q := p1)"
    have ref: "unat (pi_ref (?P1 qn)) < 0xFFFF" using q(3) qn(2) by simp
    have room: "\<exists>i. int i < rm_length R1 \<and> \<not> BitMap_get (rm_bitmap R1) i" by (rule RMap_detach_frees [OF 2(1)])
    have X1: "(X(q := X')) qn = []" "(X(q := X')) q = X'" using q(3) qn(1) by simp_all
    show ?thesis
    proof (cases rule: RMap_attach_ok [OF 2(3) ref, of pte va pid])
      case 1
      then show ?thesis using room by blast
    next
      case (2 i R2 p2)
      let ?P2 = "?P1(qn := p2)"
      have d: "detach_page old pte pid s = Some (True, s\<lparr>rmapManager := R1, pageinfos := ?P1\<rparr>)"
        using \<open>RMap_detach (rmapManager s) (pageinfos s q) pte pid = Some (True, R1, p1)\<close>
        by (simp add: detach_page_def q(1) [symmetric] upd_page_def)
      have a: "attach_page new pte va pid (s\<lparr>rmapManager := R1, pageinfos := ?P1\<rparr>) = Some (int i, s\<lparr>rmapManager := R2, pageinfos := ?P2\<rparr>)"
        using 2(1) by (simp add: attach_page_def q(2) [symmetric] upd_page_def)
      have "mappings R2 X' = mappings R1 X'" using 2(5) [OF q(3)] by (simp only: X1(2))
      then have "mappings R2 X' = remove_first (matches pte pid) (mappings (rmapManager s) (X q))"
        using \<open>mappings R1 X' = _\<close> by (rule trans)
      moreover have "rmap_ok R2 ?P2 base (X(q := X', qn := [i]))" using 2(3) by (simp only: X1(1))
      moreover have "mappings R2 [i] = [(pte, va, pid)]" using 2(4) unfolding X1(1) by (simp add: mappings_def)
      ultimately show ?thesis using d a by (intro exI [of _ R2] exI [of _ ?P2] exI [of _ X'] exI [of _ i]) simp
    qed
  qed
qed

text \<open>Copying a frame through the temporary mapping into the page at \<open>v\<close>.\<close>

lemma copy_through_slot:
  assumes slot: "temp_slot_ok s" and old: "page_aligned old" "old \<noteq> 0" and v: "page_at s v new" and ne: "old \<noteq> new"
    and nw: "new \<notin> {cr3 s, dir_entry v s AND PDE_GET_ADDRESS, dir_entry (temp_va s) s AND PDE_GET_ADDRESS}"
    and ow: "old \<noteq> dir_entry (temp_va s) s AND PDE_GET_ADDRESS" and apart: "slot_entry s \<notin> walk s v"
  shows "do { (src, s) \<leftarrow> mapTemp KERNEL old s; if src = 0 then Some (False, s)
              else do { s \<leftarrow> copy_words v src 1024 s; s \<leftarrow> unmapTemp KERNEL s; Some (True, s) } } =
    Some (True, s\<lparr>phys := put_words new 1024 (\<lambda>i. phys s (old + word_of_nat i * 4)) (phys s)\<rparr>)"
proof -
  let ?t = "temp_va s" and ?sl = "slot_entry s"
  have self: "self_mapped s" and al: "page_aligned ?t" and nz: "?t \<noteq> 0" and pres: "dir_entry ?t s AND PDE_PRESENT \<noteq> 0"
    and tab: "dir_entry ?t s AND PDE_GET_ADDRESS \<noteq> cr3 s" and z: "phys s ?sl = 0" using slot by (simp_all add: temp_slot_ok_def)
  have an: "page_aligned new" using v by (simp add: page_at_def)
  have off: "old AND 0xfff = 0" using old(1) by (simp add: page_aligned_def)
  have base: "old AND NOT 0xfff = old" using split_page [of old] off by simp
  have tne: "?sl \<noteq> pde_at (cr3 s) ?t" "?sl \<noteq> cr3 s + 4092"
    unfolding slot_entry_def by (rule pte_not_pde [OF self_map_aligned [OF self] tab])+
  define s1 where "s1 = s\<lparr>phys := (phys s)(?sl := old OR 0x7)\<rparr>"
  have map: "mapTemp KERNEL old s = Some (?t, s1)" using mapTemp_slot [OF slot, of old] off base by (simp add: s1_def)
  have cr: "cr3 s1 = cr3 s" "temp_va s1 = ?t" by (simp_all add: s1_def temp_va_def)
  have d1: "dir_entry ?t s1 = dir_entry ?t s" using tne(1) by (simp add: s1_def dir_entry_def)
  have sl1: "slot_entry s1 = ?sl" by (simp add: slot_entry_def cr d1)
  have e1: "phys s1 ?sl AND PTE_GET_ADDRESS = old" "phys s1 ?sl AND PTE_PRESENT \<noteq> 0"
    using slot_frame [of old] base by (simp_all add: s1_def)
  have src: "page_at s1 ?t old"
    by (rule page_atI [OF al]) (use pres e1 d1 in \<open>simp_all add: slot_entry_def [symmetric]\<close>)
  have dst: "page_at s1 v new" by (rule page_at_cong [OF v]) (use apart in \<open>auto simp: s1_def\<close>)
  have d1v: "dir_entry v s1 = dir_entry v s" using apart by (auto simp: s1_def dir_entry_def walk_def)
  have far: "pde_at (cr3 s) u \<notin> frame_words new" "pte_at d u \<notin> frame_words new" if "d AND PDE_GET_ADDRESS \<noteq> new" for u d
    using nw that not_in_frame [OF self_map_aligned [OF self] an _ unat_off4(2), of u] not_in_frame [OF frame_aligned(1) an _ unat_off4(1), of d u]
    by (auto simp: pde_at_def pte_at_def)
  have w: "walk s1 v \<inter> frame_words new = {}" "walk s1 ?t \<inter> frame_words new = {}"
    unfolding walk_def cr d1 d1v using nw far [of "dir_entry v s" v] far [of "dir_entry ?t s" ?t] by auto
  let ?w = "\<lambda>i. phys s1 (old + word_of_nat i * 4)"
  define s2 where "s2 = s1\<lparr>phys := put_words new 1024 ?w (phys s1)\<rparr>"
  have cp: "copy_words v ?t 1024 s1 = Some s2" unfolding s2_def by (rule copy_words_page [OF dst src _ w]) (use ne in auto)
  have keep: "phys s2 a = phys s1 a" if "a \<notin> frame_words new" for a using that by (simp add: s2_def put_words_other)
  have slf: "?sl \<notin> frame_words new" "pde_at (cr3 s) ?t \<notin> frame_words new" "cr3 s + 4092 \<notin> frame_words new"
    using w(2) far [of "dir_entry ?t s" ?t] nw not_in_frame [OF self_map_aligned [OF self] an, of 4092]
    by (auto simp: slot_entry_def)
  have cr2: "cr3 s2 = cr3 s" "temp_va s2 = ?t" by (simp_all add: s2_def cr) (simp add: temp_va_def s1_def)
  have d2: "dir_entry ?t s2 = dir_entry ?t s" using keep [OF slf(2)] d1 by (simp add: dir_entry_def cr cr2)
  have sl2: "slot_entry s2 = ?sl" by (simp add: slot_entry_def cr2 d2)
  have self2: "self_mapped s2" using self keep [OF slf(3)] tne(2) by (simp add: self_map_def cr2) (simp add: s1_def)
  have un: "unmapTemp KERNEL s2 = Some (s2\<lparr>phys := (phys s2)(?sl := 0)\<rparr>)"
    using unmapTemp_slot [of s2] self2 d2 pres e1 old(2) keep [OF slf(1)] by (simp add: cr2 sl2)
  have sw: "?sl \<noteq> old + word_of_nat i * 4" if "i < 1024" for i
    using that ow frame_offset_inj [OF frame_aligned(1) old(1) unat_off4(1), of "word_of_nat i * 4" "dir_entry ?t s" ?t]
    by (auto simp: slot_entry_def pte_at_def unat_word_offset)
  have "(phys s2)(?sl := 0) = put_words new 1024 (\<lambda>i. phys s (old + word_of_nat i * 4)) (phys s)"
  proof
    fix a
    show "((phys s2)(?sl := 0)) a = put_words new 1024 (\<lambda>i. phys s (old + word_of_nat i * 4)) (phys s) a"
    proof (cases "a \<in> frame_words new")
      case True
      then obtain i where "i < 1024" "a = new + word_of_nat i * 4" by (auto simp: frame_words_def)
      then show ?thesis using True slf(1) sw [of i] by (auto simp: s2_def put_words_hit an s1_def)
    next
      case False
      then show ?thesis using keep [OF False] z by (auto simp: put_words_other s1_def)
    qed
  qed
  then show ?thesis using map nz cp un by (simp add: s2_def s1_def)
qed


text \<open>Everything that happens once the new frame is there.\<close>

lemma cow_unshare_effect:
  assumes slot: "temp_slot_ok s" and v: "v = addr AND NOT 0xfff" and pte: "pte = pte_at (dir_entry v s) v"
    and pres: "dir_entry v s AND PDE_PRESENT \<noteq> 0" "phys s pte AND PTE_PRESENT \<noteq> 0"
    and tab: "dir_entry v s AND PDE_GET_ADDRESS \<noteq> cr3 s"
    and old: "page_aligned old" "old \<noteq> 0" "old \<notin> table_frames s" and new: "page_aligned new" "new \<noteq> old" "new \<notin> table_frames s"
    and mv: "do { (_, s) \<leftarrow> detach_page old pte pid (s\<lparr>phys := (phys s)(pte := own_entry (phys s pte) new)\<rparr>);
       (_, s) \<leftarrow> attach_page new pte (toPTE addr) pid s; Some s } = Some (s\<lparr>phys := (phys s)(pte := own_entry (phys s pte) new), rmapManager := R, pageinfos := P\<rparr>)"
  defines "s' \<equiv> s\<lparr>phys := put_words new 1024 (\<lambda>i. phys s (old + word_of_nat i * 4)) ((phys s)(pte := own_entry (phys s pte) new)), rmapManager := R, pageinfos := P\<rparr>"
  shows "cow_unshare addr pid old new s = Some (True, s')" and "page_at s' v new" and "phys s' pte = own_entry (phys s pte) new"
proof -
  let ?t = "temp_va s" and ?sl = "slot_entry s" and ?e = "own_entry (phys s pte) new"
  have self: "self_mapped s" and tpres: "dir_entry ?t s AND PDE_PRESENT \<noteq> 0" and z: "phys s ?sl = 0"
    and ttab: "dir_entry ?t s AND PDE_GET_ADDRESS \<noteq> cr3 s" using slot by (simp_all add: temp_slot_ok_def)
  have tv: "toPTE addr = toPTE v" using toPTE_page [of addr] by (simp add: v)
  have av: "page_aligned v" unfolding v by (rule page_base)
  note ue = unshare_entry(1) [OF self pres(1) tab, folded pte] unshare_entry(2) [OF self pres(1) tab, where new = new, folded pte]
  define s3 where "s3 = s\<lparr>phys := (phys s)(pte := ?e), rmapManager := R, pageinfos := P\<rparr>"
  have s3: "phys s3 = (phys s)(pte := ?e)" "cr3 s3 = cr3 s" "kernelVirtual s3 = kernelVirtual s" by (simp_all add: s3_def)
  have pne: "pte \<noteq> pde_at (cr3 s) w" "pte \<noteq> cr3 s + 4092" for w
    unfolding pte by (rule pte_not_pde [OF self_map_aligned [OF self] tab])+
  have slne: "?sl \<noteq> pte" using z pres(2) by auto
  have sl: "temp_slot_ok s3" "slot_entry s3 = ?sl" "temp_va s3 = ?t" "dir_entry ?t s3 = dir_entry ?t s"
    by (rule temp_slot_other [OF slot s3(2,3)]; use pne slne in \<open>auto simp: s3(1)\<close>)+
  have d3: "dir_entry v s3 = dir_entry v s" using pne(1) [of v] by (simp add: dir_entry_def s3)
  have pg: "page_at s3 v new"
    by (rule page_atI [OF av]) (use pres own_entry_bits [OF new(1)] in \<open>simp_all add: d3 pte [symmetric] s3\<close>)
  have tf: "cr3 s \<in> table_frames s" "dir_entry w s AND PDE_PRESENT \<noteq> 0 \<Longrightarrow> dir_entry w s AND PDE_GET_ADDRESS \<in> table_frames s" for w
    by (auto simp: table_frames_def)
  have tabne: "new \<noteq> cr3 s" "new \<noteq> dir_entry v s AND PDE_GET_ADDRESS" "old \<noteq> dir_entry v s AND PDE_GET_ADDRESS"
    using new(3) old(3) tf(1) tf(2) [OF pres(1)] by auto
  have off: "pte \<notin> frame_words new" "pde_at (cr3 s) v \<notin> frame_words new" "pte \<notin> frame_words old"
    unfolding pte pte_at_def pde_at_def
    by (rule not_in_frame [OF _ _ _ unat_off4(1)] not_in_frame [OF _ _ _ unat_off4(2)];
        use tabne new(1) old(1) frame_aligned(1) self_map_aligned [OF self] in auto)+
  have "do { (src, s) \<leftarrow> mapTemp KERNEL old s3; if src = 0 then Some (False, s)
              else do { s \<leftarrow> copy_words v src 1024 s; s \<leftarrow> unmapTemp KERNEL s; Some (True, s) } } =
    Some (True, s3\<lparr>phys := put_words new 1024 (\<lambda>i. phys s3 (old + word_of_nat i * 4)) (phys s3)\<rparr>)"
  proof (rule copy_through_slot [OF sl(1) old(1,2) pg])
    show "new \<notin> {cr3 s3, dir_entry v s3 AND PDE_GET_ADDRESS, dir_entry (temp_va s3) s3 AND PDE_GET_ADDRESS}"
      using new(3) tf(1) tf(2) [OF pres(1)] tf(2) [OF tpres] by (auto simp: s3 d3 sl)
    show "old \<noteq> dir_entry (temp_va s3) s3 AND PDE_GET_ADDRESS" using old(3) tf(2) [OF tpres] by (auto simp: sl)
    have "?sl \<noteq> pde_at (cr3 s) v" unfolding slot_entry_def by (rule pte_not_pde [OF self_map_aligned [OF self] ttab])
    then show "slot_entry s3 \<notin> walk s3 v" using slne by (simp add: walk_def s3 d3 sl pte [symmetric])
  qed (use new(2) in simp)
  moreover have "put_words new 1024 (\<lambda>i. phys s3 (old + word_of_nat i * 4)) = put_words new 1024 (\<lambda>i. phys s (old + word_of_nat i * 4))"
    unfolding put_words_def using off(3) by (intro ext fold_cong) (auto simp: s3 frame_words_def)
  ultimately have cp: "do { (src, s) \<leftarrow> mapTemp KERNEL old s3; if src = 0 then Some (False, s)
              else do { s \<leftarrow> copy_words v src 1024 s; s \<leftarrow> unmapTemp KERNEL s; Some (True, s) } } = Some (True, s')"
    by (simp add: s'_def s3_def)
  obtain sa ea where st: "store (toPTE v) (phys s pte AND NOT PTE_COW OR PTE_WRITABLE) s = Some sa" "load (toPTE v) sa = Some ea"
      "store (toPTE v) (ea AND NOT PTE_GET_ADDRESS OR new) sa = Some (s\<lparr>phys := (phys s)(pte := ?e)\<rparr>)"
    using ue(2) unfolding bind_eq_Some_conv by blast
  obtain b sd c where mv': "detach_page old pte pid (s\<lparr>phys := (phys s)(pte := ?e)\<rparr>) = Some (b, sd)" "attach_page new pte (toPTE addr) pid sd = Some (c, s3)"
    using mv unfolding s3_def by (auto simp: bind_eq_Some_conv)
  have tp: "toPTEpa v s = Some pte" unfolding pte by (rule toPTEpa_window [OF self pres(1)])
  show "cow_unshare addr pid old new s = Some (True, s')"
    unfolding cow_unshare_def Let_def v [symmetric] using cp by (simp add: tp ue(1) [folded tv] st [folded tv] mv')
  show "page_at s' v new"
    by (rule page_at_cong [OF pg]) (use off in \<open>auto simp: s'_def s3 d3 walk_def pte [symmetric] put_words_other\<close>)
  show "phys s' pte = ?e" using off(1) by (simp add: s'_def put_words_other)
qed

lemma free_frame_available:
  assumes ok: "frames_ok s A" and free: "j \<le> MAX_ORDER" "A ty j \<noteq> []"
  shows "\<exists>new s1. allocatePhysicalPages ty 1 s = Some (new, s1) \<and> new \<noteq> 0"
proof -
  have p: "pa_ok (phys_pool ty s) (A ty)" using ok unfolding frames_ok_def by blast
  then have inv: "buddy_inv (pa_resources (phys_pool ty s)) (A ty)" by (simp add: pa_ok_def)
  have nf: "PAddressPool_allocate 1 (phys_pool ty s) \<noteq> (- 1, phys_pool ty s)" 
  proof (cases rule: Buddy_allocate_cases [OF inv, of 1, unfolded order_of_one])
    case 1
    then show ?thesis using free by auto
  next
    case (2 i b' A')
    then have "int i < totalPages (pa_resources (phys_pool ty s))" by simp
    from frames_frame(2) [OF ok this] 2(1) show ?thesis by (simp add: PAddressPool_allocate_def pa_frame_def)
  qed
  show ?thesis
  proof (cases rule: pa_alloc_one [OF p])
    case (2 i p' A')
    have "PageInfo_hasFlag (pageinfos s (frame_no (phys_pool ty s) i)) PG_FREE" using ok 2(2) unfolding frames_ok_def by blast
    then show ?thesis using 2(1) frames_frame [OF ok 2(3)] by (simp add: allocatePhysicalPages_one frame_no_def)
  qed (use nf in blast)
qed

text \<open>
  \<^bold>\<open>C13\<close>: The first write to a shared page (interrupt.cpp and handler.cpp).  Memory is in order, the
  running program writes to a present, read-only copy-on-write page of one of its segments, its frame has
  at least two mappings, one of them this entry, and a frame is free.  The fault handler returns; then the
  page shows a fresh frame that holds a word-for-word copy of the old one, the entry is writable and no
  longer copy-on-write, its other rights are unchanged, no other word of memory has changed (so the other
  programs see what they saw), and in the reverse map exactly this mapping has moved to the new frame.
\<close>

theorem cow_fault_isolates:
  fixes s :: MM and addr :: u32
  assumes ok: "memory_ok s A base X" and run: "running s = Some (pid, u)" and seg: "UserVAddressPool_vaddr2Seg u addr \<noteq> EMPTY"
    and slot: "temp_slot_ok s"
  defines "v \<equiv> addr AND NOT 0xfff" 
  defines "pte \<equiv> pte_at (dir_entry v s) v"
  defines "old \<equiv> phys s pte AND PTE_GET_ADDRESS"
  defines "q \<equiv> unat (PA2PGI old)"
  assumes pres: "dir_entry v s AND PDE_PRESENT \<noteq> 0" and tab: "dir_entry v s AND PDE_GET_ADDRESS \<noteq> cr3 s"
    and cow: "phys s pte AND PTE_PRESENT \<noteq> 0" "phys s pte AND PTE_WRITABLE = 0" "phys s pte AND PTE_COW \<noteq> 0"
    and old: "old \<noteq> 0" "old \<notin> table_frames s" and shared: "2 \<le> length (X q)"
    and hit: "\<exists>m\<in>set (mappings (rmapManager s) (X q)). matches pte pid m"
    and free: "j \<le> MAX_ORDER" "A USER j \<noteq> []"
  shows "\<exists>new s'. c_page_fault_handler 7 addr s = Some s' \<and> page_at s' v new \<and> new \<noteq> old \<and>
    phys s' pte AND PTE_WRITABLE \<noteq> 0 \<and> phys s' pte AND PTE_COW = 0 \<and>
    phys s' pte AND PTE_USER_ACCESS = phys s pte AND PTE_USER_ACCESS \<and>
    (\<forall>i<1024. phys s' (new + word_of_nat i * 4) = phys s (old + word_of_nat i * 4)) \<and>
    (\<forall>a. a \<notin> frame_words new \<longrightarrow> a \<noteq> pte \<longrightarrow> phys s' a = phys s a) \<and>
    (\<exists>X' i. rmap_ok (rmapManager s') (pageinfos s') base (X(q := X', unat (PA2PGI new) := [i])) \<and>
       mappings (rmapManager s') X' = remove_first (matches pte pid) (mappings (rmapManager s) (X q)) \<and>
       mappings (rmapManager s') [i] = [(pte, toPTE addr, pid)])"
proof -
  have self: "self_mapped s" and rm: "rmap_ok (rmapManager s) (pageinfos s) base X" and fr: "frames_ok s A"
    using ok by (simp_all add: memory_ok_def)
  have tv: "toPTE addr = toPTE v" using toPTE_page [of addr] by (simp add: v_def)
  have pdv: "toPDE addr = toPDE v" by (metis tv toPTE_toPTE)
  obtain new s1 where al: "allocatePhysicalPages USER 1 s = Some (new, s1)" "new \<noteq> 0"
    using free_frame_available [where ty = USER, OF fr free] by blast
  note f = fresh_frame [OF ok al]
  obtain p where s1: "s1 = upd_page (unat (PA2PGI new)) (\<lambda>_. \<lparr>pi_ref = 0, pi_flags = (if USER = KERNEL then PG_KERNEL else 0) OR PG_SINGLE, pi_extra = 0\<rparr>) (set_phys_pool USER p s)"
    using f(1) by blast
  have k: "phys s1 = phys s" "cr3 s1 = cr3 s" "kernelVirtual s1 = kernelVirtual s" "rmapManager s1 = rmapManager s"
    by (simp_all add: s1 upd_page_def set_phys_pool_def)
  have de: "dir_entry w s1 = dir_entry w s" for w by (simp add: dir_entry_def k)
  have tf: "table_frames s1 = table_frames s" by (simp add: table_frames_def de k)
  have qne: "q \<noteq> unat (PA2PGI new)" using shared f(4) by auto
  then have nold: "new \<noteq> old" by (auto simp: q_def)
  have cls: "classify_fault True addr s = Some COPY_ON_WRITE"
    using load_toPDE [OF self, of v] load_toPTE [OF self pres] pres cow
    by (simp add: classify_fault_def tv pdv GET_ADDRESS_same pte_def [symmetric])
  have "unat (PageInfo_getRef (pageinfos s q)) \<ge> 2" using rmap_okD(3) [OF rm, of q] shared by (simp add: PageInfo_getRef_def)
  then have ref: "PageInfo_getRef (pageinfos s q) \<noteq> 0" "PageInfo_getRef (pageinfos s q) \<noteq> 1" by auto
  define s2 where "s2 = s1\<lparr>phys := (phys s)(pte := own_entry (phys s pte) new)\<rparr>"
  have rm2: "rmap_ok (rmapManager s2) (pageinfos s2) base X" "pi_ref (pageinfos s2 (unat (PA2PGI new))) = 0" "rmapManager s2 = rmapManager s"
    using f(5,6) k by (simp_all add: s2_def)
  obtain R P X' i where mv: "do { (_, s) \<leftarrow> detach_page old pte pid s2; (_, s) \<leftarrow> attach_page new pte (toPTE addr) pid s; Some s } = Some (s2\<lparr>rmapManager := R, pageinfos := P\<rparr>)"
     "rmap_ok R P base (X(q := X', unat (PA2PGI new) := [i]))" "mappings R X' = remove_first (matches pte pid) (mappings (rmapManager s) (X q))"
     "mappings R [i] = [(pte, toPTE addr, pid)]"
    using move_mapping [OF rm2(1) q_def [THEN meta_eq_to_obj_eq] refl qne f(4) rm2(2) hit [folded rm2(3)], of "toPTE addr"] by (auto simp: rm2(3))
  have slot1: "temp_slot_ok s1" by (rule temp_slot_other(1) [OF slot k(2,3)]) (simp add: k)
  have oal: "page_aligned old" by (simp add: old_def frame_aligned)
  note cu = cow_unshare_effect [OF slot1 v_def [THEN meta_eq_to_obj_eq], where pte = pte and old = old and new = new and pid = pid
      and R = R and P = P, unfolded de k tf,
      OF pte_def [THEN meta_eq_to_obj_eq] pres cow(1) tab oal old f(2) nold f(3) mv(1) [unfolded s2_def]]
  obtain s' where s': "cow_unshare addr pid old new s1 = Some (True, s')" "page_at s' v new" "phys s' pte = own_entry (phys s pte) new"
    "phys s' = put_words new 1024 (\<lambda>i. phys s (old + word_of_nat i * 4)) ((phys s)(pte := own_entry (phys s pte) new))" "rmapManager s' = R" "pageinfos s' = P"
    using cu by fastforce
  have "copy_on_write addr pid s = Some (True, s')"
    using ref al s'(1) load_toPTE [OF self pres]
    by (simp add: copy_on_write_def tv pte_def [symmetric] old_def [symmetric] q_def [symmetric] some_frame_def Let_def)
  then have run': "c_page_fault_handler 7 addr s = Some s'"
    using cls run seg by (simp add: c_page_fault_handler_def fault_from_user_def handle_user_page_fault_def)
  have "\<forall>i<1024. phys s' (new + word_of_nat i * 4) = phys s (old + word_of_nat i * 4)" by (simp add: s'(4) put_words_hit f(2))
  moreover have "\<forall>a. a \<notin> frame_words new \<longrightarrow> a \<noteq> pte \<longrightarrow> phys s' a = phys s a" by (simp add: s'(4) put_words_other)
  ultimately show ?thesis
    using run' nold own_entry_bits(2,3,5) [OF f(2), of "phys s pte"] s'(2) mv(2-4)
    by (intro exI [of _ new] exI [of _ s'] conjI) (auto simp: s'(3,5,6))
qed

section \<open>Zeros on first use\<close>

lemma zero_page_effect:
  assumes self: "self_mapped s" and v: "v = addr AND NOT 0xfff" and pres: "dir_entry v s AND PDE_PRESENT \<noteq> 0"
    and tab: "dir_entry v s AND PDE_GET_ADDRESS \<noteq> cr3 s" and new: "page_aligned new" "new \<notin> table_frames s"
    and fl: "page_flags v s = Some fl" and rm: "rmap_ok (rmapManager s) (pageinfos s) base X"
    and q: "q = unat (PA2PGI new)" and qn: "X q = []" "pi_ref (pageinfos s q) = 0" "pi_flags (pageinfos s q) = PG_SINGLE"
    and room: "\<exists>j. int j < rm_length (rmapManager s) \<and> \<not> BitMap_get (rm_bitmap (rmapManager s)) j"
  defines "pte \<equiv> pte_at (dir_entry v s) v"
  shows "\<exists>s' i. zero_page_at addr new s = Some s' \<and> page_at s' v new \<and>
    phys s' = put_words new 1024 (\<lambda>_. 0) ((phys s)(pte := new OR fl OR PTE_PRESENT, pde_at (cr3 s) v := PDEinc (dir_entry v s))) \<and>
    phys s' pte = new OR fl OR PTE_PRESENT \<and>
    rmap_ok (rmapManager s') (pageinfos s') base (X(q := [i])) \<and> mappings (rmapManager s') [i] = [(pte, toPTE v, running_pid s)]"
proof -
  let ?e = "new OR fl OR PTE_PRESENT"
  have av: "page_aligned v" unfolding v by (rule page_base)
  have ref: "unat (pi_ref (pageinfos s (unat (PA2PGI new)))) < 0xFFFF" using qn(2) by (simp add: q)
  obtain R p i where c: "connectPhysicalVirtualPage v new s = Some (True, s\<lparr>phys := (phys s)(pte := ?e, pde_at (cr3 s) v := PDEinc (dir_entry v s)),
      rmapManager := R, pageinfos := (pageinfos s)(q := p)\<rparr>)" "pi_flags p = pi_flags (pageinfos s q)"
      "rmap_ok R ((pageinfos s)(q := p)) base (X(q := i # X q))" "mappings R (i # X q) = (pte, toPTE v, running_pid s) # mappings (rmapManager s) (X q)"
    using connect_effect [OF self pres tab new(1) fl rm ref room] unfolding pte_def [symmetric] q [symmetric] by blast
  define s2 where "s2 = s\<lparr>phys := (phys s)(pte := ?e, pde_at (cr3 s) v := PDEinc (dir_entry v s)), rmapManager := R, pageinfos := (pageinfos s)(q := p)\<rparr>"
  have pne: "pte \<noteq> pde_at (cr3 s) v" unfolding pte_def by (rule pte_not_pde(1) [OF self_map_aligned [OF self] tab])
  have s2: "phys s2 = (phys s)(pte := ?e, pde_at (cr3 s) v := PDEinc (dir_entry v s))" "cr3 s2 = cr3 s" "pageinfos s2 q = p" by (simp_all add: s2_def)
  have d2: "dir_entry v s2 = PDEinc (dir_entry v s)" by (simp add: dir_entry_def s2)
  have pt2: "pte_at (dir_entry v s2) v = pte" unfolding d2 pte_def by (rule pte_at_cong) (rule PDEinc_keeps)
  have fr: "?e AND PTE_GET_ADDRESS = new" "?e AND PTE_PRESENT \<noteq> 0" by (rule entry_frame [OF new(1) page_flags_bits [OF fl]])+
  have pg: "page_at s2 v new"
    by (rule page_atI [OF av]) (use pres fr pne in \<open>simp_all only: pt2, simp_all add: d2 PDEinc_keeps s2\<close>)
  have tn: "new \<noteq> cr3 s" "new \<noteq> dir_entry v s AND PDE_GET_ADDRESS" using new(2) pres by (auto simp: table_frames_def)
  have off: "pte \<notin> frame_words new" "pde_at (cr3 s) v \<notin> frame_words new"
    unfolding pte_def pte_at_def pde_at_def
    by (rule not_in_frame [OF _ _ _ unat_off4(1)] not_in_frame [OF _ _ _ unat_off4(2)];
        use tn new(1) frame_aligned(1) self_map_aligned [OF self] in auto)+
  have w: "walk s2 v \<inter> frame_words new = {}" using off by (auto simp: walk_def pt2 s2)
  define s' where "s' = s2\<lparr>phys := put_words new 1024 (\<lambda>_. 0) (phys s2)\<rparr>"
  have "clear_table v s2 = Some s'" unfolding clear_table_words s'_def by (rule store_words_page [OF pg w]) simp
  moreover have "\<not> PageInfo_hasFlag (pageinfos s2 q) PG_ZERO" using c(2) qn(3) by (simp add: s2 PageInfo_hasFlag_def PG_ZERO_def pg_flag_defs)
  ultimately have z: "zero_page_at addr new s = Some s'"
    unfolding zero_page_at_def Let_def v [symmetric] q [symmetric] using c(1) [folded s2_def] by simp
  have "page_at s' v new" unfolding s'_def by (rule page_at_put [OF pg new(1) w]) simp
  moreover have "phys s' pte = ?e" using off(1) pne by (simp add: s'_def put_words_other s2)
  moreover have "mappings R [i] = [(pte, toPTE v, running_pid s)]" "rmap_ok R ((pageinfos s)(q := p)) base (X(q := [i]))"
    using c(3,4) by (simp_all only: qn(1)) (simp add: mappings_def)
  ultimately show ?thesis using z by (intro exI [of _ s'] exI [of _ i]) (simp add: s'_def s2(1), simp add: s2_def)
qed

text \<open>
  \<^bold>\<open>C14\<close>: The first touch of a lazily allocated page (interrupt.cpp and handler.cpp).  The running
  program, or the kernel on its behalf, reads or writes a page of one of its segments whose entry is marked
  lazy; memory is in order and a frame and a slot of the reverse map are free.  The fault handler returns;
  then the page shows a fresh frame of zeros with the rights recorded for the page, the reverse map names
  the entry, and the rest of memory is as before but for the count in the directory entry.
\<close>

theorem demand_zero_fault:
  fixes s :: MM and addr :: u32
  assumes ok: "memory_ok s A base X" and run: "running s = Some (pid, u)" and seg: "UserVAddressPool_vaddr2Seg u addr \<noteq> EMPTY"
    and user: "\<not> VAddressPool_isValidAddr (kernelVirtual s) addr"
  defines "v \<equiv> addr AND NOT 0xfff" 
  defines "pte \<equiv> pte_at (dir_entry v s) v"
  assumes pres: "dir_entry v s AND PDE_PRESENT \<noteq> 0" and tab: "dir_entry v s AND PDE_GET_ADDRESS \<noteq> cr3 s"
    and lazy: "phys s pte AND PTE_PRESENT = 0" "phys s pte AND PTE_WRITABLE \<noteq> 0" "phys s pte AND PTE_LAZY \<noteq> 0"
    and fl: "page_flags v s = Some fl"
    and room: "\<exists>j. int j < rm_length (rmapManager s) \<and> \<not> BitMap_get (rm_bitmap (rmapManager s)) j"
    and free: "j \<le> MAX_ORDER" "A USER j \<noteq> []"
  shows "\<exists>new s' i. c_page_fault_handler ec addr s = Some s' \<and> page_at s' v new \<and> phys s' pte = new OR fl OR PTE_PRESENT \<and>
    (\<forall>i<1024. phys s' (new + word_of_nat i * 4) = 0) \<and>
    (\<forall>a. a \<notin> frame_words new \<longrightarrow> a \<noteq> pte \<longrightarrow> a \<noteq> pde_at (cr3 s) v \<longrightarrow> phys s' a = phys s a) \<and>
    rmap_ok (rmapManager s') (pageinfos s') base (X(unat (PA2PGI new) := [i])) \<and> mappings (rmapManager s') [i] = [(pte, toPTE v, pid)]"
proof -
  have self: "self_mapped s" and fr: "frames_ok s A" using ok by (simp_all add: memory_ok_def)
  have tv: "toPTE addr = toPTE v" using toPTE_page [of addr] by (simp add: v_def)
  have pdv: "toPDE addr = toPDE v" by (metis tv toPTE_toPTE)
  obtain new s1 where al: "allocatePhysicalPages USER 1 s = Some (new, s1)" "new \<noteq> 0"
    using free_frame_available [where ty = USER, OF fr free] by blast
  note f = fresh_frame [OF ok al]
  let ?q = "unat (PA2PGI new)"
  obtain p where s1: "s1 = upd_page ?q (\<lambda>_. \<lparr>pi_ref = 0, pi_flags = (if USER = KERNEL then PG_KERNEL else 0) OR PG_SINGLE, pi_extra = 0\<rparr>) (set_phys_pool USER p s)"
    using f(1) by blast
  have k: "phys s1 = phys s" "cr3 s1 = cr3 s" "kernelVirtual s1 = kernelVirtual s" "rmapManager s1 = rmapManager s" "running s1 = running s"
    "pi_flags (pageinfos s1 ?q) = PG_SINGLE" by (simp_all add: s1 upd_page_def set_phys_pool_def)
  have de: "dir_entry w s1 = dir_entry w s" for w by (simp add: dir_entry_def k)
  have tf: "table_frames s1 = table_frames s" by (simp add: table_frames_def de k)
  have fl1: "page_flags v s1 = Some fl" using fl by (simp only: page_flags_def k)
  have rp: "running_pid s1 = pid" by (simp add: running_pid_def k run)
  have cls: "classify_fault b addr s = Some DEMAND_ZERO" for b
    using load_toPDE [OF self, of v] load_toPTE [OF self pres] pres lazy
    by (simp add: classify_fault_def tv pdv GET_ADDRESS_same pte_def [symmetric])
  obtain s' i where z: "zero_page_at addr new s1 = Some s'" "page_at s' v new"
      "phys s' = put_words new 1024 (\<lambda>_. 0) ((phys s)(pte := new OR fl OR PTE_PRESENT, pde_at (cr3 s) v := PDEinc (dir_entry v s)))"
      "phys s' pte = new OR fl OR PTE_PRESENT"
      "rmap_ok (rmapManager s') (pageinfos s') base (X(?q := [i]))" "mappings (rmapManager s') [i] = [(pte, toPTE v, pid)]"
    using zero_page_effect [of s1 v addr new fl base X ?q] self pres tab f fl1 room
    unfolding de k tf rp pte_def [symmetric] by (auto simp: v_def)
  have "handle_user_page_fault DEMAND_ZERO addr s = Some (True, s')"
    using run seg al z(1) by (simp add: handle_user_page_fault_def some_frame_def)
  then have "c_page_fault_handler ec addr s = Some s'"
    using cls user by (simp add: c_page_fault_handler_def Let_def handle_kernel_page_fault_def)
  moreover have "\<forall>i<1024. phys s' (new + word_of_nat i * 4) = 0" by (simp add: z(3) put_words_hit f(2))
  moreover have "\<forall>a. a \<notin> frame_words new \<longrightarrow> a \<noteq> pte \<longrightarrow> a \<noteq> pde_at (cr3 s) v \<longrightarrow> phys s' a = phys s a"
    by (simp add: z(3) put_words_other)
  ultimately show ?thesis using z(2,4-6) by blast
qed

section \<open>An address space for the examples\<close>

text \<open>A user page at \<^verbatim>\<open>0x10000\<close> whose entry \<open>e\<close> is in a table of its own; frame \<open>0x900\<close> is mapped twice.\<close>

definition fault_example :: "u32 \<Rightarrow> MM" where
  "fault_example e = free_frames\<lparr>
     phys := (\<lambda>_. 0)(0x100ffc := 0x100e07, 0x100c00 := 0x101e07, 0x100000 := 0x102007, 0x102040 := e),
     running := Some (1, user_example),
     rmapManager := \<lparr>RMapStart = (\<lambda>_. RMap_zero)(
         1 := \<lparr>pte_paddr = 0x102040, pte_vaddr = 0xffc00040, rm_next = 2, rm_owner = 1\<rparr>,
         2 := \<lparr>pte_paddr = 0x7040, pte_vaddr = 0xff, rm_next = 0, rm_owner = 2\<rparr>),
       rm_bitmap = \<lparr>length_of = 4, bitmap_of = (\<lambda>_. 0)(0 := 7)\<rparr>, rm_length = 4\<rparr>,
     pageinfos := (\<lambda>_. \<lparr>pi_ref = 0, pi_flags = PG_FREE, pi_extra = 0\<rparr>)(0x900 := \<lparr>pi_ref = 2, pi_flags = PG_SINGLE, pi_extra = 1\<rparr>)\<rparr>"

abbreviation (input) example_chains :: "nat \<Rightarrow> nat list" where
  "example_chains \<equiv> (\<lambda>_. [])(0x900 := [1, 2])"

abbreviation (input) example_blocks :: "AddressPoolType \<Rightarrow> nat \<Rightarrow> nat list" where
  "example_blocks \<equiv> (\<lambda>_. (\<lambda>_. [])(2 := [0]))"

lemma fault_example_simps:
  "cr3 (fault_example e) = 0x100000" "phys_pool ty (fault_example e) = phys_pool ty free_frames"
  "phys (fault_example e) = (\<lambda>_. 0)(0x100ffc := 0x100e07, 0x100c00 := 0x101e07, 0x100000 := 0x102007, 0x102040 := e)"
  "kernelPhysical (fault_example e) = kernelPhysical free_frames" "userPhysical (fault_example e) = userPhysical free_frames"
  "running (fault_example e) = Some (1, user_example)" "kernelVirtual (fault_example e) = kernelVirtual mm_example"
  by (cases ty; simp add: fault_example_def free_frames_def mm_example_def phys_pool_def)+

lemma fault_example_dir: "dir_entry w (fault_example e) \<in> {0, 0x100e07, 0x101e07, 0x102007}"
proof -
  have "unat (pde_at 0x100000 w) = 0x100000 + dir_ix w * 4"
    using dir_ix_less [of w] unfolding pde_at_def by (subst unat_add_lem [THEN iffD1]) (simp_all add: unat_dirw4)
  then have "unat (pde_at 0x100000 w) \<noteq> unat (0x102040 :: u32)" using dir_ix_less [of w] by simp
  then have "pde_at 0x100000 w \<noteq> 0x102040" by metis
  then show ?thesis by (simp add: dir_entry_def fault_example_simps)
qed

lemma example_frame:
  assumes "cover (example_blocks ty) i = 1"
  shows "frame_no (phys_pool ty free_frames) i \<in> {0x200..0x203} \<union> {0x800..0x803}"
    "unat (pa_frame (phys_pool ty free_frames) i) \<ge> 0x200000"
proof -
  have ok: "pa_ok (phys_pool ty free_frames) (example_blocks ty)" using free_frames_ok unfolding frames_ok_def by blast
  have t: "totalPages (pa_resources (phys_pool ty free_frames)) = 4"
    "pa_startAddress (phys_pool ty free_frames) = (case ty of KERNEL \<Rightarrow> 0x200000 | USER \<Rightarrow> 0x800000)"
    by (cases ty; simp add: phys_pool_def free_frames_def mm_example_def pa_example_def four_pages_total)+
  have i: "int i < totalPages (pa_resources (phys_pool ty free_frames))"
    using ok assms total_okD [of "totalPages (pa_resources (phys_pool ty free_frames))" "example_blocks ty" i]
    by (auto simp: pa_ok_def buddy_inv_def)
  show "frame_no (phys_pool ty free_frames) i \<in> {0x200..0x203} \<union> {0x800..0x803}"
    using frame_no_eq [OF ok i] i t by (cases ty) auto
  show "unat (pa_frame (phys_pool ty free_frames) i) \<ge> 0x200000"
    using unat_pa_frame(1) [OF ok i] i t by (cases ty) auto
qed

lemma fault_example_ok:
  "memory_ok (fault_example e) example_blocks (\<lambda>_. 0) example_chains"
  unfolding memory_ok_def
proof (intro conjI allI impI)
  note fr = free_frames_ok [unfolded frames_ok_def]
  show "frames_ok (fault_example e) example_blocks"
    unfolding frames_ok_def fault_example_simps
  proof (intro conjI allI impI)
    fix ty i assume "cover (example_blocks ty) i = 1"
    then have "frame_no (phys_pool ty free_frames) i \<noteq> 0x900" using example_frame(1) [where ty = ty and i = i] by auto
    then show "PageInfo_hasFlag (pageinfos (fault_example e) (frame_no (phys_pool ty free_frames) i)) PG_FREE"
      by (simp add: fault_example_def PageInfo_hasFlag_def pg_flag_defs)
  qed (use fr in blast)+
  show "rmap_ok (rmapManager (fault_example e)) (pageinfos (fault_example e)) (\<lambda>_. 0) example_chains"
    by (auto simp: rmap_ok_def fault_example_def BitMap_get_def byte_test_def)
  show "self_mapped (fault_example e)" by (simp add: self_map_def fault_example_simps PDE_PRESENT_def PDE_GET_ADDRESS_def)
  fix ty i assume c: "cover (example_blocks ty) i = 1"
  note x = example_frame [where ty = ty, OF c]
  show "example_chains (frame_no (phys_pool ty (fault_example e)) i) = []" using x(1) by (auto simp: fault_example_simps)
  show "(\<lambda>_. 0) (frame_no (phys_pool ty (fault_example e)) i) = 0" by simp
  show "pa_frame (phys_pool ty (fault_example e)) i \<notin> table_frames (fault_example e)"
  proof
    assume t: "pa_frame (phys_pool ty (fault_example e)) i \<in> table_frames (fault_example e)"
    have "dir_entry w (fault_example e) AND PDE_GET_ADDRESS \<in> {0x100000, 0x101000, 0x102000}"
      if "dir_entry w (fault_example e) AND PDE_PRESENT \<noteq> 0" for w
      using fault_example_dir [of w e] that by (auto simp: pde_flag_defs)
    then have "table_frames (fault_example e) \<subseteq> {0x100000, 0x101000, 0x102000}"
      by (auto simp: table_frames_def fault_example_simps)
    then have "unat (pa_frame (phys_pool ty (fault_example e)) i) \<le> 0x102000" using t by auto
    then show False using x(2) by (simp add: fault_example_simps)
  qed
qed

lemma fault_example_space:
  "dir_entry 0x10000 (fault_example e) = 0x102007" "pte_at 0x102007 0x10000 = 0x102040"
  "UserVAddressPool_vaddr2Seg user_example 0x10010 = HEAP" "0x10010 AND NOT 0xfff = (0x10000 :: u32)"
proof -
  show "dir_entry 0x10000 (fault_example e) = 0x102007"
    by (simp add: dir_entry_def pde_at_def dirw_def fault_example_simps drop_bit_eq_div)
  show "pte_at 0x102007 0x10000 = 0x102040" by (simp add: pte_at_def tabw_def PDE_GET_ADDRESS_def drop_bit_eq_div)
  show "UserVAddressPool_vaddr2Seg user_example 0x10010 = HEAP"
    by (simp add: UserVAddressPool_vaddr2Seg_def user_example_def Boundary_isValidAddr_def VAddressPool_isValidAddr_def)
  show "0x10010 AND NOT 0xfff = (0x10000 :: u32)" by simp
qed

lemma fault_example_slot: "temp_slot_ok (fault_example e)"
proof -
  have t: "temp_va (fault_example e) = 0xc0100000" by (simp add: temp_va_def fault_example_simps) (simp add: mm_example_def)
  have d: "dir_entry 0xc0100000 (fault_example e) = 0x101e07"
    by (simp add: dir_entry_def pde_at_def dirw_def fault_example_simps drop_bit_eq_div)
  have sl: "slot_entry (fault_example e) = 0x101400"
    by (simp add: slot_entry_def t d pte_at_def tabw_def PDE_GET_ADDRESS_def drop_bit_eq_div)
  have "self_mapped (fault_example e)" by (simp add: self_map_def fault_example_simps PDE_PRESENT_def PDE_GET_ADDRESS_def)
  then show ?thesis by (simp add: temp_slot_ok_def t d sl page_aligned_def pde_flag_defs fault_example_simps)
qed

theorem cow_fault_isolates_witness:
  "\<exists>new s'. c_page_fault_handler 7 0x10010 (fault_example 0x900205) = Some s' \<and> page_at s' 0x10000 new \<and> new \<noteq> 0x900000"
proof -
  let ?s = "fault_example 0x900205"
  have e: "phys ?s 0x102040 = 0x900205" by (simp add: fault_example_simps)
  have old: "(0x900205::u32) AND PTE_GET_ADDRESS = 0x900000" "unat (PA2PGI 0x900000) = 0x900"
    by (simp_all add: PTE_GET_ADDRESS_def PA2PGI_def)
  have "\<exists>m\<in>set (mappings (rmapManager ?s) (example_chains 0x900)). matches 0x102040 1 m"
    by (simp add: mappings_def entry_of_def matches_def fault_example_def)
  moreover have "0x900000 \<notin> table_frames ?s"
  proof
    assume "0x900000 \<in> table_frames ?s"
    then obtain w where "dir_entry w ?s AND PDE_GET_ADDRESS = 0x900000" by (auto simp: table_frames_def fault_example_simps)
    then show False using fault_example_dir [of w "0x900205"] by (auto simp: pde_flag_defs)
  qed
  moreover have "(0x102007::u32) AND PDE_PRESENT \<noteq> 0" "(0x102007::u32) AND PDE_GET_ADDRESS \<noteq> 0x100000"
    "(0x900205::u32) AND PTE_PRESENT \<noteq> 0" "(0x900205::u32) AND PTE_WRITABLE = 0" "(0x900205::u32) AND PTE_COW \<noteq> 0"
    by (simp_all add: pde_flag_defs pte_flag_defs)
  ultimately show ?thesis
    using cow_fault_isolates [OF fault_example_ok fault_example_simps(6) _ fault_example_slot, where addr = "0x10010" and e1 = "0x900205" and j = 2]
    unfolding fault_example_space e fault_example_simps(1) old by (simp add: MAX_ORDER_def) blast
qed

theorem demand_zero_fault_witness:
  "\<exists>new s'. c_page_fault_handler 6 0x10010 (fault_example 0x802) = Some s' \<and> page_at s' 0x10000 new \<and>
     phys s' (new + 8) = 0"
proof -
  let ?s = "fault_example 0x802"
  have e: "phys ?s 0x102040 = 0x802" by (simp add: fault_example_simps)
  have "page_flags 0x10000 ?s = Some (vPageFlags2PTE 0)"
    by (simp add: page_flags_def fault_example_simps Let_def UserVAddressPool_getVPageFlag_def UserVAddressPool_vaddr2Seg_def
        VAddressPool_getVPageFlag_def user_example_def Boundary_isValidAddr_def VAddressPool_isValidAddr_def va_example_def mm_example_def BitMap_get_def byte_test_def)
  moreover have "\<not> VAddressPool_isValidAddr (kernelVirtual ?s) 0x10010"
    by (simp add: fault_example_simps mm_example_def VAddressPool_isValidAddr_def)
  moreover have "\<exists>j. int j < rm_length (rmapManager ?s) \<and> \<not> BitMap_get (rm_bitmap (rmapManager ?s)) j"
    by (rule exI [of _ 3]) (simp add: fault_example_def BitMap_get_def byte_test_def)
  moreover have "(0x102007::u32) AND PDE_PRESENT \<noteq> 0" "(0x102007::u32) AND PDE_GET_ADDRESS \<noteq> 0x100000"
    "(0x802::u32) AND PTE_PRESENT = 0" "(0x802::u32) AND PTE_WRITABLE \<noteq> 0" "(0x802::u32) AND PTE_LAZY \<noteq> 0"
    by (simp_all add: pde_flag_defs pte_flag_defs)
  ultimately obtain new s' where "c_page_fault_handler 6 0x10010 ?s = Some s'" "page_at s' 0x10000 new"
      "\<forall>i<1024. phys s' (new + word_of_nat i * 4) = 0"
    using demand_zero_fault [OF fault_example_ok fault_example_simps(6), where addr = "0x10010" and e1 = "0x802" and j = 2 and ec = 6
        and fl = "vPageFlags2PTE 0"]
    unfolding fault_example_space e fault_example_simps(1) by (simp add: MAX_ORDER_def) blast
  moreover from this(3) have "phys s' (new + word_of_nat 2 * 4) = 0" by (elim allE [of _ 2]) simp
  ultimately show ?thesis by (intro exI conjI) simp_all
qed

end
