(* ===== verification/Fork_Sharing.thy ===== *)
theory Fork_Sharing
  imports Fault_Effects
begin

text \<open>
  What a fork does with one page of its parent (\<^verbatim>\<open>setupCOWPages\<close> in \<^verbatim>\<open>src/kernel/program.cpp\<close>): the page table of
  the child is made when there is none, the entries of all who map the frame become read-only, and the
  child gets an entry of its own.  The tables of the child are reached through its directory, which is
  a page of the kernel, and through the temporary mapping.
\<close>

section \<open>Words on the way\<close>

definition cow_leaf :: "u32 \<Rightarrow> u32" where
  "cow_leaf paddr = (paddr OR PTE_PRESENT OR PTE_USER_ACCESS OR PTE_COW) AND NOT PTE_WRITABLE"

lemma cow_leaf_bits:
  assumes "page_aligned p"
  shows "cow_leaf p AND PTE_GET_ADDRESS = p" "cow_leaf p AND PTE_PRESENT \<noteq> 0" "cow_leaf p AND PTE_WRITABLE = 0" "cow_leaf p AND PTE_COW \<noteq> 0"
    "cow_leaf p AND PTE_USER_ACCESS \<noteq> 0"
proof -
  have n: "\<not> bit p k" if "k < 12" for k
  proof -
    have "\<not> bit (p AND mask 12) k" using assms by (simp add: page_aligned_def mask_consts)
    then show ?thesis using that by (simp add: bit_and_iff bit_mask_iff)
  qed
  have c: "PTE_COW = push_bit 9 1" "PTE_WRITABLE = push_bit 1 1" "PTE_PRESENT = push_bit 0 1" "PTE_USER_ACCESS = push_bit 2 1"
    "PTE_GET_ADDRESS = NOT (mask 12)" by (simp_all add: pte_flag_defs mask_eq_exp_minus_1)
  have b: "bit (cow_leaf p) k \<longleftrightarrow> (if k < 12 then k \<in> {0, 2, 9} else bit p k)" if "k < 32" for k
    unfolding cow_leaf_def c bit_and_iff bit_or_iff bit_not_iff bit_push_bit_iff bit_1_iff using that n [of k] by auto
  show "cow_leaf p AND PTE_GET_ADDRESS = p"
    by (rule bit_word_eqI) (use n in \<open>auto simp: c(5) bit_and_iff bit_not_iff bit_mask_iff b\<close>)
  show "cow_leaf p AND PTE_PRESENT \<noteq> 0" "cow_leaf p AND PTE_WRITABLE = 0" "cow_leaf p AND PTE_COW \<noteq> 0" "cow_leaf p AND PTE_USER_ACCESS \<noteq> 0"
    unfolding c by (subst and_push_bit_1_eq_0_iff; simp add: b)+
qed

lemma cow_word_keeps: "cow_word e AND PTE_GET_ADDRESS = e AND PTE_GET_ADDRESS" "cow_word e AND PTE_PRESENT = e AND PTE_PRESENT"
proof -
  have c: "PTE_COW = push_bit 9 1" "PTE_WRITABLE = push_bit 1 1" "PTE_PRESENT = push_bit 0 1"
    "PTE_GET_ADDRESS = NOT (mask 12)" by (simp_all add: pte_flag_defs mask_eq_exp_minus_1)
  have b: "bit (cow_word e) k \<longleftrightarrow> (if k = 9 then True else k \<noteq> 1 \<and> bit e k)" if "k < 32" for k
    unfolding cow_word_def c bit_and_iff bit_or_iff bit_not_iff bit_push_bit_iff bit_1_iff using that by auto
  show "cow_word e AND PTE_GET_ADDRESS = e AND PTE_GET_ADDRESS"
    by (rule bit_word_eqI) (auto simp: c(4) bit_and_iff bit_not_iff bit_mask_iff b)
  show "cow_word e AND PTE_PRESENT = e AND PTE_PRESENT"
    by (rule bit_word_eqI) (auto simp: c(3) bit_and_iff bit_1_iff b)
qed

text \<open>The entry of a directory that is a page of the kernel.\<close>

lemma dir_word:
  assumes "page_at s pgdir D"
  shows "load (pde_ptr pgdir v) s = Some (phys s (pde_at D v))"
    "store (pde_ptr pgdir v) w s = Some (s\<lparr>phys := (phys s)(pde_at D v := w)\<rparr>)"
  using assms unat_off4(2) [of v] by (simp_all add: page_at_def load_def store_def pde_ptr_def dirw_def [symmetric] pde_at_def)

lemma pte_phys_at: "pte_phys d v = pte_at d v"
  by (simp add: pte_phys_def pte_at_def tabw_def GET_ADDRESS_same)

lemma page_at_present: "page_at s v f \<Longrightarrow> dir_entry v s AND PDE_PRESENT \<noteq> 0 \<and> phys s (pte_at (dir_entry v s) v) AND PTE_PRESENT \<noteq> 0 \<and>
    phys s (pte_at (dir_entry v s) v) AND PTE_GET_ADDRESS = f"
proof -
  assume p: "page_at s v f"
  then have "translate (phys s) (cr3 s) (v + 0) = Some (f + 0)" unfolding page_at_def by (metis unsigned_0 zero_less_numeral)
  moreover have "v AND 0xfff = 0" using p by (simp add: page_at_def page_aligned_def)
  ultimately show ?thesis by (auto simp: translate_def Let_def dir_entry_def split: if_splits)
qed

lemma in_frame:
  "pde_at f v \<in> frame_words f" "pte_at d v \<in> frame_words (d AND PDE_GET_ADDRESS)"
  unfolding frame_words_def pde_at_def pte_at_def
  by (rule image_eqI [of _ _ "dir_ix v"] image_eqI [of _ _ "tab_ix v"];
      use dir_ix_less [of v] tab_ix_less [of v] in \<open>simp add: unat_dirw [symmetric] unat_tabw [symmetric]\<close>)+

lemma frames_apart: "page_aligned f \<Longrightarrow> page_aligned g \<Longrightarrow> f \<noteq> g \<Longrightarrow> a \<in> frame_words f \<Longrightarrow> a \<notin> frame_words g"
  using frame_words_disjoint by (auto simp: frame_words_def)

lemma slot_apart:
  assumes "temp_slot_ok s" and "page_at s v f"
  shows "slot_entry s \<notin> walk s v"
proof -
  have "slot_entry s \<noteq> pde_at (cr3 s) v"
    using assms(1) pte_not_pde(1) [OF self_map_aligned] by (auto simp: temp_slot_ok_def slot_entry_def)
  moreover have "phys s (slot_entry s) = 0" using assms(1) by (simp add: temp_slot_ok_def)
  ultimately show ?thesis using page_at_present [OF assms(2)] by (auto simp: walk_def)
qed

section \<open>Editing a table through the temporary mapping\<close>

text \<open>The state while the frame of \<open>pa\<close> is mapped.\<close>

definition slotted :: "u32 \<Rightarrow> MM \<Rightarrow> MM" where
  "slotted pa s = s\<lparr>phys := (phys s)(slot_entry s := (pa AND NOT 0xfff) OR 0x7)\<rparr>"

lemma slotted_page:
  assumes ok: "temp_slot_ok s"
  shows "mapTemp KERNEL pa s = Some (temp_va s + (pa AND 0xfff), slotted pa s)"
    and "page_at (slotted pa s) (temp_va s) (pa AND NOT 0xfff)"
    and "walk (slotted pa s) (temp_va s) = walk s (temp_va s)"
    and "temp_va s + (pa AND 0xfff) \<noteq> 0"
proof -
  let ?t = "temp_va s"
  have self: "self_mapped s" and al: "page_aligned ?t" and nz: "?t \<noteq> 0" and pres: "dir_entry ?t s AND PDE_PRESENT \<noteq> 0"
    and tab: "dir_entry ?t s AND PDE_GET_ADDRESS \<noteq> cr3 s" using ok by (simp_all add: temp_slot_ok_def)
  show "mapTemp KERNEL pa s = Some (?t + (pa AND 0xfff), slotted pa s)" using mapTemp_slot [OF ok] by (simp add: slotted_def)
  have ne: "slot_entry s \<noteq> pde_at (cr3 s) ?t" unfolding slot_entry_def by (rule pte_not_pde [OF self_map_aligned [OF self] tab])
  have d: "dir_entry ?t (slotted pa s) = dir_entry ?t s" using ne by (simp add: slotted_def dir_entry_def)
  show "page_at (slotted pa s) ?t (pa AND NOT 0xfff)"
    by (rule page_atI [OF al]) (use pres slot_frame [of pa] in \<open>simp_all add: d slot_entry_def [symmetric], simp_all add: slotted_def\<close>)
  show "walk (slotted pa s) ?t = walk s ?t" unfolding walk_def d by (simp add: slotted_def)
  have "unat (?t + (pa AND 0xfff)) \<noteq> 0" using unat_frame_offset [OF al unat_offset [of pa]] nz by (simp add: unat_eq_zero)
  then show "?t + (pa AND 0xfff) \<noteq> 0" by (metis unsigned_0)
qed

text \<open>Leaving it after memory has changed elsewhere.\<close>

lemma unslot:
  assumes ok: "temp_slot_ok s" and k: "cr3 s' = cr3 s" "kernelVirtual s' = kernelVirtual s" and b: "pa AND NOT 0xfff \<noteq> 0"
    and m: "phys s' (slot_entry s) = (pa AND NOT 0xfff) OR 0x7" "phys s' (pde_at (cr3 s) (temp_va s)) = phys s (pde_at (cr3 s) (temp_va s))"
      "phys s' (cr3 s + 4092) = phys s (cr3 s + 4092)"
  shows "unmapTemp KERNEL s' = Some (s'\<lparr>phys := (phys s')(slot_entry s := 0)\<rparr>)"
proof -
  have t: "temp_va s' = temp_va s" by (simp add: temp_va_def k)
  have d: "dir_entry (temp_va s) s' = dir_entry (temp_va s) s" using m(2) by (simp add: dir_entry_def k)
  have e: "slot_entry s' = slot_entry s" by (simp add: slot_entry_def t d)
  show ?thesis
    using unmapTemp_slot [of s'] ok m slot_frame [of pa] b unfolding temp_slot_ok_def e t d by (simp add: self_map_def k)
qed

section \<open>One page\<close>

text \<open>
  A frame in use whose entries lie outside the directories and outside what reaches the directory \<open>D\<close>
  of the child, which is the page \<open>pgdir\<close> of the kernel.
\<close>

definition entries_of :: "MM \<Rightarrow> nat list \<Rightarrow> u32 set" where
  "entries_of s is = (\<lambda>j. pte_paddr (RMapStart (rmapManager s) j)) ` set is"

definition shareable :: "MM \<Rightarrow> (nat \<Rightarrow> nat list) \<Rightarrow> u32 \<Rightarrow> u32 \<Rightarrow> u32 \<Rightarrow> bool" where
  "shareable s X paddr pgdir D \<longleftrightarrow> temp_slot_ok s \<and> page_at s pgdir D \<and> D \<notin> table_frames s \<and> page_aligned paddr \<and>
     \<not> PageInfo_hasFlag (pageinfos s (unat (PA2PGI paddr))) PG_FREE \<and> X (unat (PA2PGI paddr)) \<noteq> [] \<and>
     (\<forall>a\<in>entries_of s (X (unat (PA2PGI paddr))). a AND NOT 0xfff \<noteq> 0 \<and> a \<noteq> slot_entry s \<and>
        a \<notin> frame_words (cr3 s) \<and> a \<notin> frame_words D \<and> a \<notin> walk s pgdir)"

lemma shareable_editable:
  assumes "shareable s X paddr pgdir D" and "a \<in> entries_of s (X (unat (PA2PGI paddr)))"
  shows "editable s a"
proof -
  have "cr3 s + 4092 = pde_at (cr3 s) 0xffffffff" by (simp add: pde_at_def dirw_def drop_bit_eq_div)
  then show ?thesis using assms in_frame(1) [of "cr3 s"] unfolding shareable_def editable_def by metis
qed

lemma setCOW_used:
  assumes rm: "rmap_ok (rmapManager s) (pageinfos s) base X" and slot: "temp_slot_ok s" and ed: "\<forall>a\<in>entries_of s (X q). editable s a"
    and fr: "\<not> PageInfo_hasFlag (pageinfos s q) PG_FREE" "X q \<noteq> []"
  shows "MM_setCOW q s = Some (True, s\<lparr>phys := (\<lambda>a. if a \<in> entries_of s (X q) then cow_word (phys s a) else phys s a)\<rparr>)"
proof -
  have ch: "rm_chain (RMapStart (rmapManager s)) (pi_extra (pageinfos s q)) (X q)" by (rule rmap_okD(1) [OF rm])
  have "unat (pi_ref (pageinfos s q)) \<noteq> 0" using rmap_okD(3) [OF rm, of q] fr(2) by simp
  then have ref: "pi_ref (pageinfos s q) \<noteq> 0" by auto
  have ex: "pi_extra (pageinfos s q) \<noteq> 0" using ch fr(2) by (cases "X q") auto
  have "\<forall>j\<in>set (X q). editable s (pte_paddr (RMapStart (rmapManager s) j))" using ed by (simp add: entries_of_def)
  then show ?thesis
    using cow_loop_effect [OF ch slot] fr ref ex by (simp add: MM_setCOW_def RMap_setCOW_def Let_def PageInfo_getRef_def entries_of_def)
qed

text \<open>Memory after a page has been shared.\<close>

definition shared_mem :: "phys_mem \<Rightarrow> u32 set \<Rightarrow> u32 \<Rightarrow> u32 \<Rightarrow> u32 \<Rightarrow> phys_mem" where
  "shared_mem m E pde pte paddr = (\<lambda>a. if a = pde then PDEinc (m pde) else if a = pte then cow_leaf paddr
     else if a \<in> E then cow_word (m a) else m a)"

lemma cow_page_present:
  fixes s :: MM and v paddr pgdir D :: u32
  assumes sh: "shareable s X paddr pgdir D" and rm: "rmap_ok (rmapManager s) (pageinfos s) base X"
  defines "q \<equiv> unat (PA2PGI paddr)" and "pde \<equiv> pde_at D v" and "d \<equiv> phys s (pde_at D v)"
  defines "pte \<equiv> pte_at d v"
  assumes pres: "d AND PDE_PRESENT \<noteq> 0" and tab: "d AND PDE_GET_ADDRESS \<noteq> 0" "d AND PDE_GET_ADDRESS \<noteq> D" "d AND PDE_GET_ADDRESS \<notin> table_frames s"
    and new: "pte \<notin> entries_of s (X q)" and ref: "unat (pi_ref (pageinfos s q)) < 0xFFFF"
    and room: "\<exists>j. int j < rm_length (rmapManager s) \<and> \<not> BitMap_get (rm_bitmap (rmapManager s)) j"
  shows "\<exists>s' i. cow_page pgdir paddr v owner s = Some (True, s') \<and> cr3 s' = cr3 s \<and> phys s' = shared_mem (phys s) (entries_of s (X q)) pde pte paddr \<and>
    rmap_ok (rmapManager s') (pageinfos s') base (X(q := i # X q)) \<and>
    mappings (rmapManager s') (i # X q) =
      (pte, if running s \<noteq> None \<and> running_pid s = owner then toPTE v else PTE_ANON_VADDR, owner) # mappings (rmapManager s) (X q)"
proof -
  let ?E = "entries_of s (X q)" and ?t = "temp_va s" and ?sl = "slot_entry s" and ?off = "pte AND 0xfff" and ?b = "pte AND NOT 0xfff"
  have slot: "temp_slot_ok s" and pg: "page_at s pgdir D" and Dt: "D \<notin> table_frames s" and al: "page_aligned paddr"
    and fr: "\<not> PageInfo_hasFlag (pageinfos s q) PG_FREE" "X q \<noteq> []"
    and ent: "\<And>a. a \<in> ?E \<Longrightarrow> a \<noteq> ?sl \<and> a \<notin> frame_words (cr3 s) \<and> a \<notin> frame_words D \<and> a \<notin> walk s pgdir"
    using sh by (auto simp: shareable_def q_def)
  have self: "self_mapped s" and tpres: "dir_entry ?t s AND PDE_PRESENT \<noteq> 0" and ttab: "dir_entry ?t s AND PDE_GET_ADDRESS \<noteq> cr3 s"
    and z: "phys s ?sl = 0" using slot by (simp_all add: temp_slot_ok_def)
  have ed: "\<forall>a\<in>?E. editable s a" using shareable_editable [OF sh] by (simp add: q_def)
  have tf: "cr3 s \<in> table_frames s" "dir_entry w s AND PDE_PRESENT \<noteq> 0 \<Longrightarrow> dir_entry w s AND PDE_GET_ADDRESS \<in> table_frames s" for w
    by (auto simp: table_frames_def)
  have c4: "cr3 s + 4092 \<in> frame_words (cr3 s)"
  proof -
    have "cr3 s + 4092 = pde_at (cr3 s) 0xffffffff" by (simp add: pde_at_def dirw_def drop_bit_eq_div)
    then show ?thesis using in_frame(1) by metis
  qed
  have cal: "page_aligned (cr3 s)" "page_aligned D" using self_map_aligned [OF self] pg by (simp_all add: page_at_def)
  have ppr: "dir_entry pgdir s AND PDE_PRESENT \<noteq> 0" using page_at_present [OF pg] by blast
  let ?T = "d AND PDE_GET_ADDRESS"
  have pteT: "pte \<in> frame_words ?T" "?b = ?T" 
  proof -
    show "pte \<in> frame_words ?T" unfolding pte_def by (rule in_frame)
    have "pte AND 0xfff = tabw v * 4" unfolding pte_def pte_at_def by (rule same_page(3) [OF frame_aligned(1) unat_off4(1)])
    then show "?b = ?T" using split_page [of pte] unfolding pte_def pte_at_def by (metis add_right_cancel)
  qed
  have pdeD: "pde \<in> frame_words D" unfolding pde_def by (rule in_frame)
  have far: "a \<notin> frame_words g" if "a \<in> frame_words f" "f \<noteq> g" "page_aligned f" "page_aligned g" for a f g
    using frames_apart that by blast
  have slT: "?sl \<in> frame_words (dir_entry ?t s AND PDE_GET_ADDRESS)" unfolding slot_entry_def by (rule in_frame)
  have pcr: "pde_at (cr3 s) w \<in> frame_words (cr3 s)" for w by (rule in_frame)
  have Dne: "cr3 s \<noteq> D" "cr3 s \<noteq> ?T" using tf(1) Dt tab(3) by auto
  have Tne: "dir_entry ?t s AND PDE_GET_ADDRESS \<noteq> ?T" "dir_entry ?t s AND PDE_GET_ADDRESS \<noteq> D" using tf(2) [OF tpres] tab Dt by auto
  have ne: "?sl \<noteq> pte" "?sl \<noteq> pde" "pte \<noteq> pde" "?sl \<notin> frame_words (cr3 s)"
    using far [OF slT Tne(1)] far [OF slT Tne(2)] far [OF pteT(1) tab(2)] far [OF slT ttab] cal frame_aligned(1) pteT(1) pdeD by auto
  have nec: "a \<noteq> pte" "a \<noteq> pde" "a \<noteq> ?sl" if "a \<in> frame_words (cr3 s)" for a
    using far [OF that Dne(1)] far [OF that Dne(2)] that ne(4) cal frame_aligned(1) pteT(1) pdeD by auto
  define s1 where "s1 = s\<lparr>phys := (\<lambda>a. if a \<in> ?E then cow_word (phys s a) else phys s a)\<rparr>"
  have cow: "MM_setCOW q s = Some (True, s1)" unfolding s1_def by (rule setCOW_used [OF rm slot ed fr])
  have k1: "phys s1 a = phys s a" if "a \<notin> ?E" for a using that by (simp add: s1_def)
  have k1': "cr3 s1 = cr3 s" "kernelVirtual s1 = kernelVirtual s" by (simp_all add: s1_def)
  have cr1: "phys s1 a = phys s a" if "a \<in> frame_words (cr3 s)" for a using k1 ent that by blast
  have slot1: "temp_slot_ok s1" "slot_entry s1 = ?sl" "temp_va s1 = ?t" "dir_entry ?t s1 = dir_entry ?t s"
    by (rule temp_slot_other [OF slot k1']; use pcr c4 cr1 k1 ent in blast)+
  have wne: "a \<notin> ?E" if "a \<in> walk s pgdir" for a using ent that by blast
  have pg1: "page_at s1 pgdir D" by (rule page_at_cong [OF pg]) (use k1 wne k1' in simp_all)
  have de1: "dir_entry pgdir s1 = dir_entry pgdir s" unfolding dir_entry_def k1' by (rule cr1 [OF pcr])
  have d1: "phys s1 pde = d" using k1 [of pde] ent pdeD by (auto simp: d_def pde_def)
  have w1: "walk s1 pgdir = walk s pgdir" by (simp add: walk_def de1 k1')
  have wk: "a \<noteq> pte" "a \<noteq> pde" "a \<noteq> ?sl" if a: "a \<in> walk s1 pgdir" for a
  proof -
    have "a \<in> frame_words (cr3 s) \<or> a \<in> frame_words (dir_entry pgdir s AND PDE_GET_ADDRESS)"
      using a in_frame unfolding walk_def de1 k1' by blast
    moreover have "dir_entry pgdir s AND PDE_GET_ADDRESS \<noteq> ?T" "dir_entry pgdir s AND PDE_GET_ADDRESS \<noteq> D" using tf(2) [OF ppr] tab Dt by auto
    ultimately show "a \<noteq> pte" "a \<noteq> pde" using nec [of a] far [of a _ ?T] far [of a _ D] frame_aligned(1) cal(2) pteT(1) pdeD by blast+
    show "a \<noteq> ?sl" using slot_apart [OF slot1(1) pg1] a slot1(2) by auto
  qed
  define s2 where "s2 = slotted pte s1"
  have k2: "phys s2 = (phys s1)(?sl := ?b OR 0x7)" "cr3 s2 = cr3 s" "kernelVirtual s2 = kernelVirtual s" by (simp_all add: s2_def slotted_def slot1 k1')
  have map: "mapTemp KERNEL pte s1 = Some (?t + ?off, s2)" "?t + ?off \<noteq> 0" "page_at s2 ?t ?b"
    using slotted_page [OF slot1(1), of pte] by (simp_all add: s2_def slot1(3))
  have pg2: "page_at s2 pgdir D" by (rule page_at_cong [OF pg1]) (use wk in \<open>auto simp: k2 k1'\<close>)
  define s3 where "s3 = s2\<lparr>phys := (phys s2)(pte := cow_leaf paddr)\<rparr>"
  have "translate (phys s2) (cr3 s2) (?t + ?off) = Some (?b + ?off)" using map(3) unat_offset [of pte] by (simp add: page_at_def)
  then have st: "store (?t + ?off) (cow_leaf paddr) s2 = Some s3" unfolding split_page by (simp add: store_def s3_def)
  have w2: "walk s2 pgdir = walk s1 pgdir" unfolding walk_def k2(2) k1'
    using pcr [of pgdir] ne(4) by (auto simp: dir_entry_def k2 k1')
  have pg3: "page_at s3 pgdir D" by (rule page_at_cong [OF pg2]) (use wk in \<open>auto simp: s3_def w2\<close>)
  have d3: "phys s3 pde = d" using d1 ne by (simp add: s3_def k2)
  define s4 where "s4 = s3\<lparr>phys := (phys s3)(pde := PDEinc d)\<rparr>"
  have inc: "MM_PDEinc (pde_ptr pgdir v) s3 = Some s4"
    using d3 by (simp add: MM_PDEinc_def dir_word [OF pg3] s4_def pde_def)
  have k4: "phys s4 = (phys s1)(?sl := ?b OR 0x7, pte := cow_leaf paddr, pde := PDEinc d)" by (simp add: s4_def s3_def k2)
  have un: "unmapTemp KERNEL s4 = Some (s4\<lparr>phys := (phys s4)(?sl := 0)\<rparr>)"
  proof -
    have "phys s4 a = phys s1 a" if "a \<in> frame_words (cr3 s)" for a using nec [OF that] by (simp add: k4)
    then show ?thesis
      using unslot [OF slot1(1), of s4 pte] pteT(2) tab(1) ne pcr c4 by (simp add: slot1 k1' k4 s4_def s3_def s2_def slotted_def)
  qed
  define s5 where "s5 = s4\<lparr>phys := (phys s4)(?sl := 0)\<rparr>"
  have k5: "rmapManager s5 = rmapManager s" "pageinfos s5 = pageinfos s" "running s5 = running s" "cr3 s5 = cr3 s"
    by (simp_all add: s5_def s4_def s3_def s2_def s1_def slotted_def)
  have "phys s5 a = shared_mem (phys s) ?E pde pte paddr a" for a
    using ne ent z k1 [of ?sl] new by (auto simp: s5_def k4 shared_mem_def d_def pde_def s1_def)
  then have m5: "phys s5 = shared_mem (phys s) ?E pde pte paddr" by blast
  let ?at = "if running s \<noteq> None \<and> running_pid s = owner then toPTE v else PTE_ANON_VADDR"
  show ?thesis
  proof (cases rule: RMap_attach_ok [OF rm ref, of pte ?at owner])
    case 1
    then show ?thesis using room by blast
  next
    case (2 i R' p')
    let ?s' = "upd_page q (\<lambda>_. p') (s5\<lparr>rmapManager := R'\<rparr>)"
    have "attach_page paddr pte ?at owner s5 = Some (int i, ?s')"
      using 2(1) by (simp add: attach_page_def k5 q_def)
    moreover have "running_pid s5 = running_pid s" by (simp add: running_pid_def k5)
    moreover have "phys s pde = d" by (simp add: d_def pde_def)
    ultimately have "cow_page pgdir paddr v owner s = Some (True, ?s')"
      using pres cow d1 map(1,2) st inc un
      by (simp add: cow_page_def Let_def dir_word [OF pg] dir_word [OF pg1] pte_phys_at pde_def [symmetric] pte_def [symmetric]
          q_def [symmetric] cow_leaf_def [symmetric] s5_def [symmetric] k5)
    then show ?thesis using 2(3,4) m5 by (intro exI [of _ ?s'] exI [of _ i]) (simp add: upd_page_def k5)
  qed
qed

section \<open>The page table of the child\<close>

lemma fresh_table:
  assumes ok: "memory_ok s A base X" and free: "j \<le> MAX_ORDER" "A KERNEL j \<noteq> []"
  shows "\<exists>T s1. allocatePageTable s = Some (T, s1) \<and> T \<noteq> 0 \<and> page_aligned T \<and> T \<notin> table_frames s \<and>
    X (unat (PA2PGI T)) = [] \<and> base (unat (PA2PGI T)) = 0 \<and> phys s1 = phys s \<and> cr3 s1 = cr3 s \<and> kernelVirtual s1 = kernelVirtual s \<and>
    rmapManager s1 = rmapManager s \<and> running s1 = running s \<and> (\<forall>r. r \<noteq> unat (PA2PGI T) \<longrightarrow> pageinfos s1 r = pageinfos s r) \<and>
    rmap_ok (rmapManager s1) (pageinfos s1) (base(unat (PA2PGI T) := 1)) X"
proof -
  have "frames_ok s A" using ok by (simp add: memory_ok_def)
  then obtain T s0 where al: "allocatePhysicalPages KERNEL 1 s = Some (T, s0)" "T \<noteq> 0"
    using free_frame_available [where ty = KERNEL and A = A and j = j] free by blast
  note f = fresh_frame [OF ok al]
  let ?q = "unat (PA2PGI T)"
  obtain p where s0: "s0 = upd_page ?q (\<lambda>_. \<lparr>pi_ref = 0, pi_flags = (if KERNEL = KERNEL then PG_KERNEL else 0) OR PG_SINGLE, pi_extra = 0\<rparr>) (set_phys_pool KERNEL p s)"
    using f(1) by blast
  let ?p = "PageInfo_setFlag (PG_KERNEL OR PG_LOCKED) ((pageinfos s0 ?q)\<lparr>pi_ref := 1\<rparr>)"
  define s1 where "s1 = upd_page ?q (\<lambda>_. ?p) s0"
  have t: "allocatePageTable s = Some (T, s1)"
    using al f(6) by (simp add: allocatePageTable_def PageInfo_incRef_def s1_def Let_def)
  have k: "phys s1 = phys s" "cr3 s1 = cr3 s" "kernelVirtual s1 = kernelVirtual s" "rmapManager s1 = rmapManager s" "running s1 = running s"
    "\<forall>r. r \<noteq> ?q \<longrightarrow> pageinfos s1 r = pageinfos s r" "pageinfos s1 = (pageinfos s0)(?q := ?p)" "rmapManager s0 = rmapManager s"
    "pi_extra (pageinfos s0 ?q) = 0"
    by (simp_all add: s1_def s0 upd_page_def set_phys_pool_def)
  have "rmap_ok (rmapManager s1) (pageinfos s1) (base(?q := 1)) X"
    using f(5) f(4,7) k(9) unfolding k(4,7,8) rmap_ok_def by (auto simp: PageInfo_setFlag_def)
  then show ?thesis using t al(2) f(2,3,4,7) k by (intro exI [of _ T] exI [of _ s1]) simp
qed

text \<open>Clearing a fresh table through the temporary mapping.\<close>

lemma clear_through_slot:
  assumes slot: "temp_slot_ok s" and T: "page_aligned T" "T \<noteq> 0" "T \<notin> table_frames s"
  defines "s' \<equiv> s\<lparr>phys := put_words T 1024 (\<lambda>_. 0) (phys s)\<rparr>"
  shows "\<exists>tv s1 s2. mapTemp KERNEL T s = Some (tv, s1) \<and> tv \<noteq> 0 \<and> tv mod PAGE_SIZE = 0 \<and> clear_table tv s1 = Some s2 \<and> unmapTemp KERNEL s2 = Some s'"
    and "temp_slot_ok s'" and "slot_entry s' = slot_entry s" and "temp_va s' = temp_va s"
proof -
  let ?t = "temp_va s" and ?sl = "slot_entry s"
  have self: "self_mapped s" and al: "page_aligned ?t" and tpres: "dir_entry ?t s AND PDE_PRESENT \<noteq> 0" and z: "phys s ?sl = 0"
    and ttab: "dir_entry ?t s AND PDE_GET_ADDRESS \<noteq> cr3 s" using slot by (simp_all add: temp_slot_ok_def)
  have off: "T AND 0xfff = 0" "T AND NOT 0xfff = T" using T(1) split_page [of T] by (simp_all add: page_aligned_def)
  have tn: "cr3 s \<noteq> T" "dir_entry ?t s AND PDE_GET_ADDRESS \<noteq> T" using T(3) tpres by (auto simp: table_frames_def)
  have cal: "page_aligned (cr3 s)" by (rule self_map_aligned [OF self])
  have out: "a \<notin> frame_words T" if "a \<in> {pde_at (cr3 s) ?t, ?sl, cr3 s + 4092}" for a
  proof -
    have "cr3 s + 4092 = pde_at (cr3 s) 0xffffffff" by (simp add: pde_at_def dirw_def drop_bit_eq_div)
    then have "a \<in> frame_words (cr3 s) \<or> a \<in> frame_words (dir_entry ?t s AND PDE_GET_ADDRESS)"
      using that in_frame by (auto simp: slot_entry_def)
    then show ?thesis using frames_apart [OF _ T(1)] cal frame_aligned(1) tn by blast
  qed
  let ?s1 = "slotted T s" and ?s2 = "(slotted T s)\<lparr>phys := put_words T 1024 (\<lambda>_. 0) (phys (slotted T s))\<rparr>"
  note sp = slotted_page [OF slot, of T, unfolded off]
  have w: "walk ?s1 ?t \<inter> frame_words T = {}"
    unfolding sp(3) using out by (auto simp: walk_def slot_entry_def)
  have cl: "clear_table ?t ?s1 = Some ?s2" unfolding clear_table_words by (rule store_words_page [OF sp(2) w]) simp
  have sne: "?sl \<noteq> pde_at (cr3 s) ?t" "?sl \<noteq> cr3 s + 4092"
    unfolding slot_entry_def by (rule pte_not_pde [OF cal ttab])+
  have m2: "phys ?s2 a = (if a \<in> frame_words T then put_words T 1024 (\<lambda>_. 0) (phys s) a else phys ?s1 a)" for a
  proof (cases "a \<in> frame_words T")
    case True
    then obtain i where "i < 1024" "a = T + word_of_nat i * 4" by (auto simp: frame_words_def)
    then show ?thesis using True by (simp add: put_words_hit T(1))
  qed (simp add: put_words_other)
  have un: "unmapTemp KERNEL ?s2 = Some (?s2\<lparr>phys := (phys ?s2)(?sl := 0)\<rparr>)"
  proof (rule unslot [OF slot, of _ T])
    show "phys ?s2 ?sl = T AND NOT 0xfff OR 7" using out [of ?sl] unfolding m2 by (simp add: slotted_def)
    show "phys ?s2 (pde_at (cr3 s) ?t) = phys s (pde_at (cr3 s) ?t)" using out [of "pde_at (cr3 s) ?t"] sne unfolding m2 by (simp add: slotted_def)
    show "phys ?s2 (cr3 s + 4092) = phys s (cr3 s + 4092)" using out [of "cr3 s + 4092"] sne unfolding m2 by (simp add: slotted_def)
  qed (use off T(2) in \<open>simp_all add: slotted_def\<close>)
  have "((phys ?s2)(?sl := 0)) a = put_words T 1024 (\<lambda>_. 0) (phys s) a" for a
    using out [of ?sl] z unfolding fun_upd_apply m2 by (auto simp: put_words_other slotted_def)
  then have "(phys ?s2)(?sl := 0) = put_words T 1024 (\<lambda>_. 0) (phys s)" by blast
  then have "?s2\<lparr>phys := (phys ?s2)(?sl := 0)\<rparr> = s'" by (simp add: s'_def) (simp add: slotted_def)
  moreover have "?t mod PAGE_SIZE = 0" using al by (auto simp: page_aligned_dvd PAGE_SIZE_def unat_mod simp flip: unat_eq_zero)
  ultimately show "\<exists>tv s1 s2. mapTemp KERNEL T s = Some (tv, s1) \<and> tv \<noteq> 0 \<and> tv mod PAGE_SIZE = 0 \<and> clear_table tv s1 = Some s2 \<and> unmapTemp KERNEL s2 = Some s'"
    using sp(1) sp(4) off cl un by (intro exI [of _ ?t] exI [of _ ?s1] exI [of _ ?s2]) simp
  show "temp_slot_ok s'" "slot_entry s' = ?sl" "temp_va s' = ?t"
    by (rule temp_slot_other [OF slot]; use out in \<open>auto simp: s'_def put_words_other\<close>)+
qed

lemma frame_PGI: "page_aligned f \<Longrightarrow> a \<in> frame_words f \<Longrightarrow> PA2PGI a = PA2PGI f"
proof -
  assume f: "page_aligned f" and a: "a \<in> frame_words f"
  then obtain i where i: "i < 1024" "a = f + word_of_nat i * 4" by (auto simp: frame_words_def)
  have u: "unat (word_of_nat i * 4 :: u32) < 4096" using i(1) by (simp only: unat_word_offset)
  have "unat a div 4096 = unat f div 4096"
    using unat_frame_offset [OF f u] f u unfolding i(2) page_aligned_dvd by auto
  then show ?thesis unfolding PA2PGI_def by (intro word_eq_unatI) (simp add: unat_drop_div)
qed

lemma table_word: "page_aligned T \<Longrightarrow> (T OR PDE_USER) AND PDE_GET_ADDRESS = T" "(T OR PDE_USER) AND PDE_PRESENT \<noteq> 0"
proof -
  have "PDE_USER = PDE_USER OR PTE_PRESENT" by (simp add: PDE_USER_def PTE_PRESENT_def)
  then have e: "T OR PDE_USER = T OR PDE_USER OR PTE_PRESENT" by metis
  have b: "PDE_USER AND PTE_GET_ADDRESS = 0" by (simp add: PDE_USER_def PTE_GET_ADDRESS_def)
  show "(T OR PDE_USER) AND PDE_PRESENT \<noteq> 0" by (simp add: PDE_USER_def PDE_PRESENT_def bit.conj_disj_distrib2)
  show "page_aligned T \<Longrightarrow> (T OR PDE_USER) AND PDE_GET_ADDRESS = T"
    using entry_frame(1) [OF _ b] e by (metis GET_ADDRESS_same(1))
qed

lemma cow_page_absent:
  fixes s :: MM and v paddr pgdir D :: u32
  assumes ok: "memory_ok s A base X" and sh: "shareable s X paddr pgdir D" and D: "X (unat (PA2PGI D)) \<noteq> []"
    and absent: "phys s (pde_at D v) AND PDE_PRESENT = 0" and free: "j \<le> MAX_ORDER" "A KERNEL j \<noteq> []"
    and tabs: "\<forall>a\<in>entries_of s (X (unat (PA2PGI paddr))). base (unat (PA2PGI a)) \<noteq> 0"
  obtains T s' where "cow_page pgdir paddr v owner s = cow_page pgdir paddr v owner s'" "T \<noteq> 0" "T \<noteq> D" "T \<notin> table_frames s" "page_aligned T"
    "phys s' = put_words T 1024 (\<lambda>_. 0) ((phys s)(pde_at D v := T OR PDE_USER))" "cr3 s' = cr3 s" "rmapManager s' = rmapManager s"
    "running s' = running s" "table_frames s' = table_frames s" "pageinfos s' (unat (PA2PGI paddr)) = pageinfos s (unat (PA2PGI paddr))"
    "rmap_ok (rmapManager s') (pageinfos s') (base(unat (PA2PGI T) := 1)) X" "shareable s' X paddr pgdir D"
    "entries_of s (X (unat (PA2PGI paddr))) \<inter> frame_words T = {}" "\<forall>w. dir_entry w s' = dir_entry w s"
proof -
  let ?pde = "pde_at D v" and ?q = "unat (PA2PGI paddr)" and ?sl = "slot_entry s" and ?t = "temp_va s"
  let ?E = "entries_of s (X ?q)"
  obtain T s1 where t: "allocatePageTable s = Some (T, s1)" "T \<noteq> 0" "page_aligned T" "T \<notin> table_frames s" "X (unat (PA2PGI T)) = []"
    "base (unat (PA2PGI T)) = 0" and k1: "phys s1 = phys s" "cr3 s1 = cr3 s" "kernelVirtual s1 = kernelVirtual s"
    "rmapManager s1 = rmapManager s" "running s1 = running s" "\<forall>r. r \<noteq> unat (PA2PGI T) \<longrightarrow> pageinfos s1 r = pageinfos s r"
    "rmap_ok (rmapManager s1) (pageinfos s1) (base(unat (PA2PGI T) := 1)) X"
    using fresh_table [OF ok free] by blast
  have slot: "temp_slot_ok s" and pg: "page_at s pgdir D" and Dt: "D \<notin> table_frames s" and al: "page_aligned paddr"
    and fr: "\<not> PageInfo_hasFlag (pageinfos s ?q) PG_FREE" "X ?q \<noteq> []"
    and ent: "\<forall>a\<in>?E. a AND NOT 0xfff \<noteq> 0 \<and> a \<noteq> ?sl \<and> a \<notin> frame_words (cr3 s) \<and> a \<notin> frame_words D \<and> a \<notin> walk s pgdir"
    using sh by (simp_all add: shareable_def)
  have self: "self_mapped s" and tpres: "dir_entry ?t s AND PDE_PRESENT \<noteq> 0" using slot by (simp_all add: temp_slot_ok_def)
  have TD: "T \<noteq> D" using t(5) D by auto
  have qT: "?q \<noteq> unat (PA2PGI T)" using t(5) fr(2) by auto
  have cal: "page_aligned (cr3 s)" "page_aligned D" using self_map_aligned [OF self] pg by (simp_all add: page_at_def)
  have ppr: "dir_entry pgdir s AND PDE_PRESENT \<noteq> 0" using page_at_present [OF pg] by blast
  have tf: "cr3 s \<in> table_frames s" "dir_entry w s AND PDE_PRESENT \<noteq> 0 \<Longrightarrow> dir_entry w s AND PDE_GET_ADDRESS \<in> table_frames s" for w
    by (auto simp: table_frames_def)
  have c4: "cr3 s + 4092 \<in> frame_words (cr3 s)"
  proof -
    have "cr3 s + 4092 = pde_at (cr3 s) 0xffffffff" by (simp add: pde_at_def dirw_def drop_bit_eq_div)
    then show ?thesis using in_frame(1) by metis
  qed
  have out: "a \<notin> frame_words T \<and> a \<notin> frame_words D" if "a \<in> frame_words f" "f \<in> table_frames s" for a f
  proof -
    have "page_aligned f" using that(2) cal(1) frame_aligned(1) by (auto simp: table_frames_def)
    moreover have "f \<noteq> T" "f \<noteq> D" using that(2) t(4) Dt by auto
    ultimately show ?thesis using frames_apart that(1) t(3) cal(2) by blast
  qed
  have pdeD: "?pde \<in> frame_words D" "?pde \<notin> frame_words T" using in_frame(1) frames_apart [OF cal(2) t(3)] TD by blast+
  have slt: "?sl \<in> frame_words (dir_entry ?t s AND PDE_GET_ADDRESS)" unfolding slot_entry_def by (rule in_frame)
  define s2 where "s2 = s1\<lparr>phys := (phys s)(?pde := T OR PDE_USER)\<rparr>"
  have k2: "cr3 s2 = cr3 s" "kernelVirtual s2 = kernelVirtual s" "rmapManager s2 = rmapManager s" "running s2 = running s" "pageinfos s2 = pageinfos s1"
    by (simp_all add: s2_def k1)
  have pg1: "page_at s1 pgdir D" by (rule page_at_cong [OF pg]) (simp_all add: k1)
  have st: "store (pde_ptr pgdir v) (T OR PDE_USER) s1 = Some s2" by (simp add: dir_word [OF pg1] s2_def k1)
  have m2: "phys s2 a = phys s a" if "a \<in> frame_words f" "f \<in> table_frames s" for a f using out [OF that] pdeD(1) by (auto simp: s2_def)
  have slot2: "temp_slot_ok s2" "slot_entry s2 = ?sl" "temp_va s2 = ?t"
    by (rule temp_slot_other [OF slot k2(1,2)]; use m2 [OF c4 tf(1)] m2 [OF in_frame(1) tf(1)] m2 [OF slt tf(2) [OF tpres]] in auto)+
  have de2: "dir_entry w s2 = dir_entry w s" for w unfolding dir_entry_def k2 by (rule m2 [OF in_frame(1) tf(1)])
  have tf2: "table_frames s2 = table_frames s" by (simp add: table_frames_def de2 k2)
  define s3 where "s3 = s2\<lparr>phys := put_words T 1024 (\<lambda>_. 0) (phys s2)\<rparr>"
  note c = clear_through_slot [OF slot2(1) t(3,2) t(4) [folded tf2], folded s3_def, unfolded slot2(2,3)]
  obtain tv s2a s2b where cl: "mapTemp KERNEL T s2 = Some (tv, s2a)" "tv \<noteq> 0" "tv mod PAGE_SIZE = 0" "clear_table tv s2a = Some s2b" "unmapTemp KERNEL s2b = Some s3"
    using c(1) by (elim exE conjE)
  have k3: "cr3 s3 = cr3 s" "kernelVirtual s3 = kernelVirtual s" "rmapManager s3 = rmapManager s" "running s3 = running s" "pageinfos s3 = pageinfos s1"
    "phys s3 = put_words T 1024 (\<lambda>_. 0) ((phys s)(?pde := T OR PDE_USER))" by (simp_all add: s3_def k2) (simp add: s2_def)
  have m3: "phys s3 a = phys s a" if "a \<in> frame_words f" "f \<in> table_frames s" for a f
    using out [OF that] m2 [OF that] by (simp add: s3_def put_words_other)
  have de3: "dir_entry w s3 = dir_entry w s" for w unfolding dir_entry_def k3(1) by (rule m3 [OF in_frame(1) tf(1)])
  have tf3: "table_frames s3 = table_frames s" by (simp add: table_frames_def de3 k3)
  have w3: "walk s3 pgdir = walk s pgdir" by (simp add: walk_def de3 k3)
  have pg3: "page_at s3 pgdir D"
    by (rule page_at_cong [OF pg]) (use m3 [OF in_frame(1) tf(1)] m3 [OF in_frame(2) tf(2) [OF ppr]] in \<open>auto simp: k3 walk_def\<close>)
  have pde3: "phys s3 ?pde = T OR PDE_USER" using pdeD(2) by (simp add: k3 put_words_other)
  have e3: "entries_of s3 = entries_of s" by (simp add: entries_of_def k3 fun_eq_iff)
  have pi3: "pageinfos s3 ?q = pageinfos s ?q" using k1(6) qT by (simp add: k3)
  have "shareable s3 X paddr pgdir D"
    using c(2) pg3 Dt al fr ent unfolding shareable_def e3 pi3 tf3 w3 c(3) k3(1) by blast
  moreover have "?E \<inter> frame_words T = {}"
  proof -
    have "a \<notin> frame_words T" if "a \<in> ?E" for a using bspec [OF tabs that] t(6) frame_PGI [OF t(3), of a] by auto
    then show ?thesis by blast
  qed
  moreover have "cow_page pgdir paddr v owner s = cow_page pgdir paddr v owner s3"
    using absent t(1,2) st cl table_word(2) [of T] pde3
    by (simp add: cow_page_def Let_def dir_word [OF pg] dir_word [OF pg3] ASSERT_def)
  ultimately show thesis using that t(2-4) TD k3 tf3 pi3 de3 k1(7) unfolding k1(4) by simp
qed

section \<open>Two views of one frame\<close>

lemma setupCOWPages_one:
  assumes "page_aligned paddr" and "page_aligned v"
  shows "cow_page pgdir paddr v owner s = Some (True, s') \<Longrightarrow> setupCOWPages pgdir paddr v 1 owner s = Some (True, s')"
proof -
  have "x mod PAGE_SIZE = 0" if "page_aligned x" for x
    using that by (auto simp: page_aligned_dvd PAGE_SIZE_def unat_mod simp flip: unat_eq_zero)
  then show "cow_page pgdir paddr v owner s = Some (True, s') \<Longrightarrow> setupCOWPages pgdir paddr v 1 owner s = Some (True, s')"
    using assms by (simp add: setupCOWPages_def ASSERT_def)
qed

lemma share_present:
  fixes s :: MM and v paddr pgdir D :: u32
  assumes sh: "shareable s X paddr pgdir D" and rm: "rmap_ok (rmapManager s) (pageinfos s) base X" and pv: "page_at s v paddr"
  defines "q \<equiv> unat (PA2PGI paddr)" and "pde \<equiv> pde_at D v" and "d \<equiv> phys s (pde_at D v)"
  defines "pte \<equiv> pte_at d v"
  assumes own: "pte_at (dir_entry v s) v \<in> entries_of s (X q)"
    and pres: "d AND PDE_PRESENT \<noteq> 0" and tab: "d AND PDE_GET_ADDRESS \<noteq> 0" "d AND PDE_GET_ADDRESS \<noteq> D" "d AND PDE_GET_ADDRESS \<notin> table_frames s"
    and new: "pte \<notin> entries_of s (X q)" and ref: "unat (pi_ref (pageinfos s q)) < 0xFFFF"
    and room: "\<exists>j. int j < rm_length (rmapManager s) \<and> \<not> BitMap_get (rm_bitmap (rmapManager s)) j"
  shows "\<exists>s' i. setupCOWPages pgdir paddr v 1 owner s = Some (True, s') \<and>
    pte_at (phys s' pde) v = pte \<and> phys s' pde AND PDE_GET_ADDRESS = d AND PDE_GET_ADDRESS \<and>
    (\<forall>x. unat x < 4096 \<longrightarrow> translate (phys s') D (v + x) = Some (paddr + x)) \<and> phys s' pte = cow_leaf paddr \<and>
    page_at s' v paddr \<and> (\<forall>a\<in>entries_of s (X q). phys s' a = cow_word (phys s a)) \<and>
    (\<forall>a. a \<notin> entries_of s (X q) \<and> a \<noteq> pde \<and> a \<noteq> pte \<longrightarrow> phys s' a = phys s a) \<and>
    rmap_ok (rmapManager s') (pageinfos s') base (X(q := i # X q)) \<and>
    mappings (rmapManager s') (i # X q) =
      (pte, if running s \<noteq> None \<and> running_pid s = owner then toPTE v else PTE_ANON_VADDR, owner) # mappings (rmapManager s) (X q)"
proof -
  let ?E = "entries_of s (X q)"
  have al: "page_aligned paddr" "page_aligned v" "page_aligned D" using sh pv by (simp_all add: shareable_def page_at_def)
  have self: "self_mapped s" and Dt: "D \<notin> table_frames s" and ent: "\<And>a. a \<in> ?E \<Longrightarrow> a \<notin> frame_words (cr3 s) \<and> a \<notin> frame_words D"
    using sh by (auto simp: shareable_def temp_slot_ok_def q_def)
  obtain s' i where c: "cow_page pgdir paddr v owner s = Some (True, s')" "cr3 s' = cr3 s" "phys s' = shared_mem (phys s) ?E pde pte paddr"
    "rmap_ok (rmapManager s') (pageinfos s') base (X(q := i # X q))"
    "mappings (rmapManager s') (i # X q) = (pte, if running s \<noteq> None \<and> running_pid s = owner then toPTE v else PTE_ANON_VADDR, owner) # mappings (rmapManager s) (X q)"
    using cow_page_present [OF sh rm pres [unfolded d_def] tab [unfolded d_def] new [unfolded q_def pte_def d_def] ref [unfolded q_def] room, of owner]
    unfolding q_def pde_def pte_def d_def by blast
  have pdeD: "pde \<in> frame_words D" and pteT: "pte \<in> frame_words (d AND PDE_GET_ADDRESS)" unfolding pde_def pte_def by (rule in_frame)+
  have pne: "pte \<noteq> pde" using frames_apart [OF frame_aligned(1) al(3) tab(2) pteT] pdeD by blast
  have m: "phys s' pde = PDEinc d" "phys s' pte = cow_leaf paddr" "\<forall>a\<in>?E. phys s' a = cow_word (phys s a)"
    "\<forall>a. a \<notin> ?E \<and> a \<noteq> pde \<and> a \<noteq> pte \<longrightarrow> phys s' a = phys s a"
    using pne new ent pdeD by (auto simp: c(3) shared_mem_def d_def pde_def)
  have pt: "pte_at (phys s' pde) v = pte" unfolding m(1) pte_def by (rule pte_at_cong) (rule PDEinc_keeps)
  have tr: "translate (phys s') D (v + x) = Some (paddr + x)" if x: "unat x < 4096" for x
    using same_page [OF al(2) x] pres m(1) pt m(2) cow_leaf_bits(1,2) [OF al(1)]
    by (simp add: translate_def Let_def pde_at_def pte_at_def pde_def PDEinc_keeps)
  have pg: "page_at s' v paddr"
  proof -
    have "cr3 s \<in> table_frames s" by (simp add: table_frames_def)
    then have "cr3 s \<noteq> D" "cr3 s \<noteq> d AND PDE_GET_ADDRESS" using Dt tab(3) by auto
    then have w: "pde_at (cr3 s) v \<noteq> pde" "pde_at (cr3 s) v \<noteq> pte" "pde_at (cr3 s) v \<notin> ?E"
      using frames_apart [OF self_map_aligned [OF self]] frame_aligned(1) al(3) pdeD pteT in_frame(1) [of "cr3 s" v] ent by blast+
    then have de: "dir_entry v s' = dir_entry v s" using m(4) by (simp add: dir_entry_def c(2))
    have "phys s' (pte_at (dir_entry v s) v) = cow_word (phys s (pte_at (dir_entry v s) v))" using m(3) own by blast
    then show ?thesis using page_at_present [OF pv] by (intro page_atI [OF al(2)]) (simp_all add: de cow_word_keeps)
  qed
  show ?thesis using setupCOWPages_one [OF al(1,2) c(1)] pt tr m pg c(4,5) PDEinc_keeps(1) [of d] by (intro exI [of _ s'] exI [of _ i]) simp
qed

text \<open>
  \<^bold>\<open>C33\<close>: Sharing a page with the child of a fork (program.cpp, \<^verbatim>\<open>setupCOWPages\<close>).  Memory is in order, the running
  program sees a frame at a page, its entry is among those of the frame's reverse map, and the directory of the
  child is a page of the kernel; the child has a page table for the address, or a frame for one is free.  The call returns
  true.  Then the child's address space shows the same frame at the same address, with an entry for user mode that is
  read-only and copy-on-write, in the table it had or in a fresh one that is zero elsewhere; the parent still sees the frame;
  every entry that mapped it is now read-only and copy-on-write; no other word of memory has changed but the child's directory entry;
  and in the reverse map exactly the child's entry has been added.
\<close>

theorem fork_shares_page:
  fixes s :: MM and v paddr pgdir D :: u32
  assumes ok: "memory_ok s A base X" and sh: "shareable s X paddr pgdir D" and pv: "page_at s v paddr"
  defines "q \<equiv> unat (PA2PGI paddr)" and "pde \<equiv> pde_at D v" 
  defines "d \<equiv> phys s pde" and "E \<equiv> entries_of s (X q)"
  assumes own: "pte_at (dir_entry v s) v \<in> E" and D: "X (unat (PA2PGI D)) \<noteq> []"
    and absent: "d AND PDE_PRESENT = 0 \<Longrightarrow> j \<le> MAX_ORDER \<and> A KERNEL j \<noteq> [] \<and> (\<forall>a\<in>E. base (unat (PA2PGI a)) \<noteq> 0)"
    and present: "d AND PDE_PRESENT \<noteq> 0 \<Longrightarrow> d AND PDE_GET_ADDRESS \<notin> insert 0 (insert D (table_frames s)) \<and> pte_at d v \<notin> E"
    and ref: "unat (pi_ref (pageinfos s q)) < 0xFFFF"
    and room: "\<exists>k. int k < rm_length (rmapManager s) \<and> \<not> BitMap_get (rm_bitmap (rmapManager s)) k"
  shows "\<exists>s' T pte i base'. setupCOWPages pgdir paddr v 1 owner s = Some (True, s') \<and>
    T = phys s' pde AND PDE_GET_ADDRESS \<and> pte = pte_at (phys s' pde) v \<and> T \<notin> table_frames s \<and>
    (\<forall>x. unat x < 4096 \<longrightarrow> translate (phys s') D (v + x) = Some (paddr + x)) \<and>
    phys s' pte AND PTE_WRITABLE = 0 \<and> phys s' pte AND PTE_COW \<noteq> 0 \<and> phys s' pte AND PTE_USER_ACCESS \<noteq> 0 \<and>
    page_at s' v paddr \<and> (\<forall>a\<in>E. phys s' a = (phys s a OR PTE_COW) AND NOT PTE_WRITABLE) \<and>
    (\<forall>a. a \<notin> E \<and> a \<noteq> pde \<and> a \<noteq> pte \<longrightarrow> phys s' a = (if d AND PDE_PRESENT = 0 \<and> a \<in> frame_words T then 0 else phys s a)) \<and>
    rmap_ok (rmapManager s') (pageinfos s') base' (X(q := i # X q)) \<and>
    mappings (rmapManager s') (i # X q) =
      (pte, if running s \<noteq> None \<and> running_pid s = owner then toPTE v else PTE_ANON_VADDR, owner) # mappings (rmapManager s) (X q)"
proof (cases "d AND PDE_PRESENT = 0")
  case False
  have rm: "rmap_ok (rmapManager s) (pageinfos s) base X" using ok by (simp add: memory_ok_def)
  have t: "d AND PDE_GET_ADDRESS \<noteq> 0" "d AND PDE_GET_ADDRESS \<noteq> D" "d AND PDE_GET_ADDRESS \<notin> table_frames s" "pte_at d v \<notin> E"
    using present [OF False] by auto
  have al: "page_aligned paddr" using sh by (simp add: shareable_def)
  from share_present [OF sh rm pv own [unfolded E_def q_def] False [unfolded d_def pde_def] t(1-3) [unfolded d_def pde_def]
      t(4) [unfolded E_def d_def pde_def q_def] ref [unfolded q_def] room, folded q_def, folded E_def, folded pde_def, folded d_def, of owner]
  obtain s' i where r: "setupCOWPages pgdir paddr v 1 owner s = Some (True, s')" "pte_at (phys s' pde) v = pte_at d v"
    "phys s' pde AND PDE_GET_ADDRESS = d AND PDE_GET_ADDRESS" "\<forall>x. unat x < 4096 \<longrightarrow> translate (phys s') D (v + x) = Some (paddr + x)"
    "phys s' (pte_at d v) = cow_leaf paddr" "page_at s' v paddr" "\<forall>a\<in>E. phys s' a = cow_word (phys s a)"
    "\<forall>a. a \<notin> E \<and> a \<noteq> pde \<and> a \<noteq> pte_at d v \<longrightarrow> phys s' a = phys s a"
    "rmap_ok (rmapManager s') (pageinfos s') base (X(q := i # X q))"
    "mappings (rmapManager s') (i # X q) =
      (pte_at d v, if running s \<noteq> None \<and> running_pid s = owner then toPTE v else PTE_ANON_VADDR, owner) # mappings (rmapManager s) (X q)"
    by blast
  then show ?thesis using t(3) False cow_leaf_bits [OF al]
    by (intro exI [of _ s'] exI [of _ "d AND PDE_GET_ADDRESS"] exI [of _ "pte_at d v"] exI [of _ i] exI [of _ base]) (simp add: cow_word_def)
next
  case True
  have fr: "j \<le> MAX_ORDER" "A KERNEL j \<noteq> []" and tabs: "\<forall>a\<in>E. base (unat (PA2PGI a)) \<noteq> 0" using absent [OF True] by auto
  have al: "page_aligned paddr" "page_aligned v" using sh pv by (simp_all add: shareable_def page_at_def)
  obtain T s1 where c: "cow_page pgdir paddr v owner s = cow_page pgdir paddr v owner s1" "T \<noteq> 0" "T \<noteq> D" "T \<notin> table_frames s" "page_aligned T"
    "phys s1 = put_words T 1024 (\<lambda>_. 0) ((phys s)(pde := T OR PDE_USER))" "cr3 s1 = cr3 s" "rmapManager s1 = rmapManager s"
    "running s1 = running s" "table_frames s1 = table_frames s" "pageinfos s1 q = pageinfos s q"
    "rmap_ok (rmapManager s1) (pageinfos s1) (base(unat (PA2PGI T) := 1)) X" "shareable s1 X paddr pgdir D"
    "E \<inter> frame_words T = {}" "\<forall>w. dir_entry w s1 = dir_entry w s"
    by (rule cow_page_absent [OF ok sh D True [unfolded d_def pde_def] fr tabs [unfolded E_def q_def], of owner, folded q_def, folded E_def, folded pde_def])
  have E1: "entries_of s1 (X q) = E" by (simp add: E_def entries_of_def c(8))
  have Dal: "page_aligned D" and entD: "\<And>a. a \<in> E \<Longrightarrow> a \<notin> frame_words D" using sh by (auto simp: shareable_def page_at_def E_def q_def)
  have "pde \<in> frame_words D" unfolding pde_def by (rule in_frame)
  then have pdo: "pde \<notin> frame_words T" "pde \<notin> E" using frames_apart [OF Dal c(5)] c(3) entD by blast+
  have d1: "phys s1 pde = T OR PDE_USER" using pdo(1) by (simp add: c(6) put_words_other)
  note tw = table_word(1) [OF c(5)] table_word(2) [of T]
  have pT: "pte_at (T OR PDE_USER) v \<in> frame_words T" using in_frame(2) [of "T OR PDE_USER" v] by (simp only: tw)
  have mE: "phys s1 a = phys s a" if "a \<in> E" for a
  proof -
    have "a \<notin> frame_words T" "a \<noteq> pde" using that c(14) pdo(2) by blast+
    then show ?thesis by (simp add: c(6) put_words_other)
  qed
  have "cr3 s \<in> table_frames s" by (simp add: table_frames_def)
  then have cne: "cr3 s \<noteq> T" using c(4) by auto
  have w1: "phys s1 a = phys s a" if "a \<in> walk s v" for a
  proof -
    have "a = pde_at (cr3 s) v \<or> a \<in> E" using that own by (auto simp: walk_def)
    then show ?thesis using mE spec [OF c(15), of v] by (auto simp: dir_entry_def c(7))
  qed
  have pv1: "page_at s1 v paddr" by (rule page_at_cong [OF pv c(7) w1])
  have new: "pte_at (T OR PDE_USER) v \<notin> E" using pT c(14) by blast
  have rp: "running_pid s1 = running_pid s" by (simp add: running_pid_def c(9))
  from share_present [OF c(13,12) pv1, folded q_def, folded pde_def, unfolded E1 d1 tw c(8,9,10,11) spec [OF c(15)] rp,
      OF own tw(2) c(2,3,4) new ref room, of owner]
  obtain s' i where r: "setupCOWPages pgdir paddr v 1 owner s1 = Some (True, s')" "pte_at (phys s' pde) v = pte_at (T OR PDE_USER) v"
    "phys s' pde AND PDE_GET_ADDRESS = T" "\<forall>x. unat x < 4096 \<longrightarrow> translate (phys s') D (v + x) = Some (paddr + x)"
    "phys s' (pte_at (T OR PDE_USER) v) = cow_leaf paddr" "page_at s' v paddr" "\<forall>a\<in>E. phys s' a = cow_word (phys s1 a)"
    "\<forall>a. a \<notin> E \<and> a \<noteq> pde \<and> a \<noteq> pte_at (T OR PDE_USER) v \<longrightarrow> phys s' a = phys s1 a"
    "rmap_ok (rmapManager s') (pageinfos s') (base(unat (PA2PGI T) := 1)) (X(q := i # X q))"
    "mappings (rmapManager s') (i # X q) =
      (pte_at (T OR PDE_USER) v, if running s \<noteq> None \<and> running_pid s = owner then toPTE v else PTE_ANON_VADDR, owner) # mappings (rmapManager s) (X q)"
    by blast
  have "setupCOWPages pgdir paddr v 1 owner s = setupCOWPages pgdir paddr v 1 owner s1" using c(1) by (simp add: setupCOWPages_def)
  then have r1: "setupCOWPages pgdir paddr v 1 owner s = Some (True, s')" using r(1) by simp
  let ?pte = "pte_at (T OR PDE_USER) v"
  have m1: "phys s1 a = (if a \<in> frame_words T then 0 else phys s a)" if "a \<noteq> pde" for a
    using that put_words_hit [of 1024 T _ "\<lambda>_. 0"] c(5) by (auto simp: c(6) put_words_other frame_words_def)
  have "\<forall>a. a \<notin> E \<and> a \<noteq> pde \<and> a \<noteq> ?pte \<longrightarrow> phys s' a = (if d AND PDE_PRESENT = 0 \<and> a \<in> frame_words T then 0 else phys s a)"
    using r(8) m1 True by simp
  moreover have "\<forall>a\<in>E. phys s' a = (phys s a OR PTE_COW) AND NOT PTE_WRITABLE" using r(7) mE by (simp add: cow_word_def)
  moreover have "phys s' ?pte AND PTE_WRITABLE = 0 \<and> phys s' ?pte AND PTE_COW \<noteq> 0 \<and> phys s' ?pte AND PTE_USER_ACCESS \<noteq> 0"
    unfolding r(5) using cow_leaf_bits [OF al(1)] by blast
  ultimately show ?thesis using r1 r(4,6,9,10) r(2,3) [symmetric] c(4) by blast
qed

text \<open>
  The address space of the examples with the directory of a child in frame \<open>0x103\<close>, the page
  \<^verbatim>\<open>0xc0101000\<close> of the kernel; the tables that hold the entries of frame \<open>0x900\<close> have a reference.
\<close>

definition fork_example :: MM where
  "fork_example = (fault_example 0x900007)\<lparr>
     phys := (phys (fault_example 0x900007))(0x101404 := 0x103007),
     rmapManager := \<lparr>RMapStart = (RMapStart (rmapManager (fault_example 0x900007)))(
         3 := \<lparr>pte_paddr = 0x101404, pte_vaddr = 0xfff00404, rm_next = 0, rm_owner = 0\<rparr>),
       rm_bitmap = \<lparr>length_of = 8, bitmap_of = (\<lambda>_. 0)(0 := 15)\<rparr>, rm_length = 8\<rparr>,
     pageinfos := (pageinfos (fault_example 0x900007))(0x102 := \<lparr>pi_ref = 1, pi_flags = PG_KERNEL, pi_extra = 0\<rparr>,
       7 := \<lparr>pi_ref = 1, pi_flags = PG_KERNEL, pi_extra = 0\<rparr>, 0x103 := \<lparr>pi_ref = 1, pi_flags = PG_KERNEL, pi_extra = 3\<rparr>)\<rparr>"

abbreviation (input) fork_chains :: "nat \<Rightarrow> nat list" where
  "fork_chains \<equiv> (\<lambda>_. [])(0x900 := [1, 2], 0x103 := [3])"

abbreviation (input) fork_base :: "nat \<Rightarrow> nat" where
  "fork_base \<equiv> (\<lambda>_. 0)(0x102 := 1, 7 := 1)"

lemma fork_example_simps:
  "cr3 fork_example = 0x100000" "phys_pool ty fork_example = phys_pool ty free_frames"
  "phys fork_example = (\<lambda>_. 0)(0x100ffc := 0x100e07, 0x100c00 := 0x101e07, 0x100000 := 0x102007, 0x102040 := 0x900007, 0x101404 := 0x103007)"
  "kernelPhysical fork_example = kernelPhysical free_frames" "userPhysical fork_example = userPhysical free_frames"
  "running fork_example = Some (1, user_example)" "kernelVirtual fork_example = kernelVirtual mm_example"
  using fault_example_simps [where e = "0x900007"] by (cases ty; simp add: fork_example_def phys_pool_def)+

lemma fork_example_dir: "dir_entry w fork_example = dir_entry w (fault_example 0x900007)"
proof -
  have "unat (pde_at 0x100000 w) = 0x100000 + dir_ix w * 4"
    using dir_ix_less [of w] unfolding pde_at_def by (subst unat_add_lem [THEN iffD1]) (simp_all add: unat_dirw4)
  then have "unat (pde_at 0x100000 w) \<noteq> unat (0x101404 :: u32)" using dir_ix_less [of w] by simp
  then have "pde_at 0x100000 w \<noteq> 0x101404" by metis
  then show ?thesis by (simp add: dir_entry_def fork_example_simps fault_example_simps)
qed

lemma fork_example_tables: "table_frames fork_example \<subseteq> {0x100000, 0x101000, 0x102000}"
proof -
  have "dir_entry w fork_example AND PDE_GET_ADDRESS \<in> {0x100000, 0x101000, 0x102000}"
    if "dir_entry w fork_example AND PDE_PRESENT \<noteq> 0" for w
    using fault_example_dir [of w "0x900007"] that unfolding fork_example_dir by (auto simp: pde_flag_defs)
  then show ?thesis by (auto simp: table_frames_def fork_example_simps)
qed

lemma fork_example_ok: "memory_ok fork_example example_blocks fork_base fork_chains"
  unfolding memory_ok_def
proof (intro conjI allI impI)
  note fr = free_frames_ok [unfolded frames_ok_def]
  show "frames_ok fork_example example_blocks"
    unfolding frames_ok_def fork_example_simps
  proof (intro conjI allI impI)
    fix ty i assume "cover (example_blocks ty) i = 1"
    then have "frame_no (phys_pool ty free_frames) i \<notin> {0x900, 0x102, 7, 0x103}" using example_frame(1) [where ty = ty and i = i] by auto
    then show "PageInfo_hasFlag (pageinfos fork_example (frame_no (phys_pool ty free_frames) i)) PG_FREE"
      by (simp add: fork_example_def fault_example_def PageInfo_hasFlag_def pg_flag_defs)
  qed (use fr in blast)+
  show "rmap_ok (rmapManager fork_example) (pageinfos fork_example) fork_base fork_chains"
    by (auto simp: rmap_ok_def fork_example_def fault_example_def BitMap_get_def byte_test_def)
  show "self_mapped fork_example" by (simp add: self_map_def fork_example_simps PDE_PRESENT_def PDE_GET_ADDRESS_def)
  fix ty i assume c: "cover (example_blocks ty) i = 1"
  note x = example_frame [where ty = ty, OF c]
  show "fork_chains (frame_no (phys_pool ty fork_example) i) = []" using x(1) by (auto simp: fork_example_simps)
  show "fork_base (frame_no (phys_pool ty fork_example) i) = 0" using x(1) by (auto simp: fork_example_simps)
  show "pa_frame (phys_pool ty fork_example) i \<notin> table_frames fork_example"
  proof
    assume "pa_frame (phys_pool ty fork_example) i \<in> table_frames fork_example"
    then have "unat (pa_frame (phys_pool ty fork_example) i) \<le> 0x102000" using fork_example_tables by auto
    then show False using x(2) by (simp add: fork_example_simps)
  qed
qed

lemma fork_example_space:
  "dir_entry 0x10000 fork_example = 0x102007" "dir_entry 0xc0101000 fork_example = 0x101e07" "dir_entry 0xc0100000 fork_example = 0x101e07"
  "pte_at 0x102007 0x10000 = 0x102040" "pte_at 0x101e07 0xc0101000 = 0x101404" "pte_at 0x101e07 0xc0100000 = 0x101400"
  "pde_at 0x100000 0xc0101000 = 0x100c00" "pde_at 0x103000 0x10000 = 0x103000" "temp_va fork_example = 0xc0100000"
  by (simp_all add: dir_entry_def pde_at_def pte_at_def dirw_def tabw_def PDE_GET_ADDRESS_def fork_example_simps drop_bit_eq_div temp_va_def)
    (simp add: mm_example_def)

lemma fork_example_entries: "entries_of fork_example [1, 2] = {0x102040, 0x7040}" "entries_of fork_example [Suc 0, 2] = {0x102040, 0x7040}"
  by (simp_all add: entries_of_def fork_example_def fault_example_def)

lemma fork_example_pages: "page_at fork_example 0x10000 0x900000" "page_at fork_example 0xc0101000 0x103000"
proof -
  show "page_at fork_example 0x10000 0x900000"
    by (rule page_atI) (simp_all add: fork_example_space page_aligned_def pde_flag_defs pte_flag_defs fork_example_simps)
  show "page_at fork_example 0xc0101000 0x103000"
    by (rule page_atI) (simp_all add: fork_example_space page_aligned_def pde_flag_defs pte_flag_defs fork_example_simps)
qed

lemma outside_frame: "page_aligned f \<Longrightarrow> PA2PGI a \<noteq> PA2PGI f \<Longrightarrow> a \<notin> frame_words f"
  using frame_PGI by blast

lemma fork_example_shareable: "shareable fork_example fork_chains 0x900000 0xc0101000 0x103000"
proof -
  have q: "unat (PA2PGI 0x900000) = 0x900" by (simp add: PA2PGI_def)
  have sl: "slot_entry fork_example = 0x101400" by (simp add: slot_entry_def fork_example_space)
  have "self_mapped fork_example" by (simp add: self_map_def fork_example_simps PDE_PRESENT_def PDE_GET_ADDRESS_def)
  then have slot: "temp_slot_ok fork_example"
    by (simp add: temp_slot_ok_def fork_example_space sl page_aligned_def pde_flag_defs fork_example_simps)
  have "0x103000 \<notin> table_frames fork_example" using fork_example_tables by auto
  moreover have "a \<notin> frame_words 0x100000 \<and> a \<notin> frame_words 0x103000" if "a \<in> {0x102040, 0x7040}" for a
  proof -
    have "PA2PGI a \<noteq> PA2PGI 0x100000" "PA2PGI a \<noteq> PA2PGI 0x103000" using that by (auto simp: PA2PGI_def)
    then show ?thesis using outside_frame by (simp add: page_aligned_def)
  qed
  moreover have "walk fork_example 0xc0101000 = {0x100c00, 0x101404}" by (simp add: walk_def fork_example_space fork_example_simps)
  moreover have "\<not> PageInfo_hasFlag (pageinfos fork_example 0x900) PG_FREE"
    by (simp add: fork_example_def fault_example_def PageInfo_hasFlag_def pg_flag_defs)
  ultimately show ?thesis
    using slot fork_example_pages(2) by (auto simp: shareable_def q fork_example_entries sl fork_example_simps page_aligned_def)
qed

theorem fork_shares_page_witness:
  "\<exists>s' T. setupCOWPages 0xc0101000 0x900000 0x10000 1 3 fork_example = Some (True, s') \<and> T \<notin> table_frames fork_example \<and>
     phys s' 0x103000 AND PDE_GET_ADDRESS = T \<and> translate (phys s') 0x103000 0x10010 = Some 0x900010 \<and> page_at s' 0x10000 0x900000 \<and>
     phys s' 0x102040 AND PTE_WRITABLE = 0 \<and> phys s' 0x7040 AND PTE_COW \<noteq> 0"
proof -
  let ?s = fork_example
  have q: "unat (PA2PGI 0x900000) = 0x900" "unat (PA2PGI 0x103000) = 0x103" "unat (PA2PGI 0x102040) = 0x102" "unat (PA2PGI 0x7040) = 7"
    by (simp_all add: PA2PGI_def)
  have ch: "fork_chains 0x900 = [1, 2]" "fork_chains 0x103 = [3]" by simp_all
  have z: "phys ?s 0x103000 = 0" by (simp add: fork_example_simps)
  have ref: "unat (pi_ref (pageinfos ?s 0x900)) < 0xFFFF" by (simp add: fork_example_def fault_example_def)
  have room: "\<exists>k. int k < rm_length (rmapManager ?s) \<and> \<not> BitMap_get (rm_bitmap (rmapManager ?s)) k"
    by (rule exI [of _ 4]) (simp add: fork_example_def BitMap_get_def byte_test_def)
  have free: "\<forall>a\<in>{0x102040, 0x7040}. fork_base (unat (PA2PGI a)) \<noteq> 0" by (simp add: q)
  have "\<exists>s' T pte i base'. setupCOWPages 0xc0101000 0x900000 0x10000 1 3 ?s = Some (True, s') \<and>
    T = phys s' 0x103000 AND PDE_GET_ADDRESS \<and> pte = pte_at (phys s' 0x103000) 0x10000 \<and> T \<notin> table_frames ?s \<and>
    (\<forall>x. unat x < 4096 \<longrightarrow> translate (phys s') 0x103000 (0x10000 + x) = Some (0x900000 + x)) \<and>
    phys s' pte AND PTE_WRITABLE = 0 \<and> phys s' pte AND PTE_COW \<noteq> 0 \<and> phys s' pte AND PTE_USER_ACCESS \<noteq> 0 \<and>
    page_at s' 0x10000 0x900000 \<and> (\<forall>a\<in>{0x102040, 0x7040}. phys s' a = (phys ?s a OR PTE_COW) AND NOT PTE_WRITABLE) \<and>
    (\<forall>a. a \<notin> {0x102040, 0x7040} \<and> a \<noteq> 0x103000 \<and> a \<noteq> pte \<longrightarrow> phys s' a = (if phys ?s 0x103000 AND PDE_PRESENT = 0 \<and> a \<in> frame_words T then 0 else phys ?s a)) \<and>
    rmap_ok (rmapManager s') (pageinfos s') base' (fork_chains(0x900 := i # [1, 2])) \<and>
    mappings (rmapManager s') (i # [1, 2]) =
      (pte, if running ?s \<noteq> None \<and> running_pid ?s = 3 then toPTE 0x10000 else PTE_ANON_VADDR, 3) # mappings (rmapManager ?s) [1, 2]"
    by (rule fork_shares_page [OF fork_example_ok fork_example_shareable fork_example_pages(1), where owner = 3 and j = 2,
          unfolded q ch fork_example_space fork_example_entries, OF _ _ _ _ ref room])
      (use z free in \<open>simp_all add: MAX_ORDER_def\<close>)
  then obtain s' where r: "setupCOWPages 0xc0101000 0x900000 0x10000 1 3 ?s = Some (True, s')" "phys s' 0x103000 AND PDE_GET_ADDRESS \<notin> table_frames ?s"
    "\<forall>x. unat x < 4096 \<longrightarrow> translate (phys s') 0x103000 (0x10000 + x) = Some (0x900000 + x)"
    "page_at s' 0x10000 0x900000" "\<forall>a\<in>{0x102040, 0x7040}. phys s' a = cow_word (phys ?s a)" unfolding cow_word_def by blast
  have "translate (phys s') 0x103000 (0x10000 + 0x10) = Some (0x900000 + 0x10)" using r(3) by (rule allE [of _ "0x10"]) simp
  moreover have "phys s' 0x102040 AND PTE_WRITABLE = 0" "phys s' 0x7040 AND PTE_COW \<noteq> 0" using r(5) by (simp_all add: cow_word_bits)
  ultimately show ?thesis using r(1,2,4) by (intro exI [of _ s'] exI [of _ "phys s' 0x103000 AND PDE_GET_ADDRESS"]) simp
qed

end
