(* ===== verification/Interrupts.thy ===== *)
theory Interrupts
  imports Os_Prelude
begin

text \<open>
  The interrupt manager (\<^verbatim>\<open>src/kernel/interrupt.cpp\<close>): the gates of the interrupt descriptor
  table and the programming of the two 8259A controllers through their ports.  The controllers are
  state machines that take the initialisation words in order and the mask afterwards.
\<close>

section \<open>The controllers\<close>

record pic =
  pic_next :: nat
  pic_icw1 :: u8
  pic_base :: u8
  pic_link :: u8
  pic_mode :: u8
  pic_mask :: u8

text \<open>
  A write to the command port with bit 4 starts an initialisation; the following writes to the data port
  are the vector base, the cascade (unless bit 1 says that the controller is alone) and the mode (if bit 0
  asks for it); a write outside an initialisation sets the mask.
\<close>

definition pic_command :: "u8 \<Rightarrow> pic \<Rightarrow> pic" where
  "pic_command v p = (if v AND 0x10 \<noteq> 0 then p\<lparr>pic_next := 2, pic_icw1 := v, pic_mask := 0\<rparr> else p)"

definition pic_data :: "u8 \<Rightarrow> pic \<Rightarrow> pic" where
  "pic_data v p =
     (let icw4 = (if pic_icw1 p AND 1 \<noteq> 0 then 4 else 0) in
      if pic_next p = 2 then p\<lparr>pic_base := v AND 0xf8, pic_next := (if pic_icw1 p AND 2 \<noteq> 0 then icw4 else 3)\<rparr>
      else if pic_next p = 3 then p\<lparr>pic_link := v, pic_next := icw4\<rparr>
      else if pic_next p = 4 then p\<lparr>pic_mode := v, pic_next := 0\<rparr>
      else p\<lparr>pic_mask := v\<rparr>)"

section \<open>State\<close>

record InterruptManager =
  IDT :: "nat \<Rightarrow> u32"
  idtr :: "u32 \<times> u16"
  IRQ0_8259A_MASTER :: u32
  IRQ0_8259A_SLAVE :: u32
  pic_master :: pic
  pic_slave :: pic
  int_flag :: bool

definition CODE_SELECTOR :: u32 where "CODE_SELECTOR = 0x20"
definition IDT_START_ADDRESS :: u32 where "IDT_START_ADDRESS = 0xc0008880"

definition int_out :: "u16 \<Rightarrow> u8 \<Rightarrow> InterruptManager \<Rightarrow> InterruptManager" where
  "int_out port v s =
     (if port = 0x20 then s\<lparr>pic_master := pic_command v (pic_master s)\<rparr>
      else if port = 0x21 then s\<lparr>pic_master := pic_data v (pic_master s)\<rparr>
      else if port = 0xa0 then s\<lparr>pic_slave := pic_command v (pic_slave s)\<rparr>
      else if port = 0xa1 then s\<lparr>pic_slave := pic_data v (pic_slave s)\<rparr>
      else s)"

definition int_in :: "u16 \<Rightarrow> InterruptManager \<Rightarrow> u8" where
  "int_in port s = (if port = 0x21 then pic_mask (pic_master s) else if port = 0xa1 then pic_mask (pic_slave s) else 0)"

section \<open>Operations\<close>

definition setInterruptDescriptor :: "nat \<Rightarrow> u32 \<Rightarrow> u8 \<Rightarrow> InterruptManager \<Rightarrow> InterruptManager" where
  "setInterruptDescriptor index address DPL s = s\<lparr>IDT := (IDT s)(
     index * 2 := push_bit 16 CODE_SELECTOR OR (address AND 0xffff),
     index * 2 + 1 := (address AND 0xffff0000) OR push_bit 15 1 OR push_bit 13 (ucast DPL) OR push_bit 8 0xe)\<rparr>"

definition initialize8259A :: "InterruptManager \<Rightarrow> InterruptManager" where
  "initialize8259A s =
     (let s = int_out 0xa0 0x11 (int_out 0x20 0x11 s);
          s = s\<lparr>IRQ0_8259A_MASTER := 0x20, IRQ0_8259A_SLAVE := 0x28\<rparr>;
          s = int_out 0x21 (ucast (IRQ0_8259A_MASTER s)) s;
          s = int_out 0xa1 (ucast (IRQ0_8259A_SLAVE s)) s;
          s = int_out 0xa1 2 (int_out 0x21 4 s);
          s = int_out 0xa1 1 (int_out 0x21 1 s)
      in int_out 0xa1 0xff (int_out 0x21 0xfb s))"

record int_handlers =
  unhandled :: u32
  page_fault :: u32
  ide_primary :: u32
  ide_secondary :: u32

definition IM_initialize :: "int_handlers \<Rightarrow> InterruptManager \<Rightarrow> InterruptManager" where
  "IM_initialize h s =
     (let s = s\<lparr>idtr := (IDT_START_ADDRESS, 256 * 8 - 1)\<rparr>;
          s = fold (\<lambda>i. setInterruptDescriptor i (unhandled h) 0) [0..<256] s;
          s = setInterruptDescriptor 14 (page_fault h) 0 s;
          s = setInterruptDescriptor 0x2E (ide_primary h) 0 s;
          s = setInterruptDescriptor 0x2F (ide_secondary h) 0 s
      in initialize8259A s)"

definition enableTimeInterrupt :: "InterruptManager \<Rightarrow> InterruptManager" where
  "enableTimeInterrupt s = int_out 0x21 (int_in 0x21 s AND 0xfe) s"

definition disableTimeInterrupt :: "InterruptManager \<Rightarrow> InterruptManager" where
  "disableTimeInterrupt s = int_out 0x21 (int_in 0x21 s OR 0x01) s"

definition enableKeyboardInterrupt :: "InterruptManager \<Rightarrow> InterruptManager" where
  "enableKeyboardInterrupt s = int_out 0x21 (int_in 0x21 s AND 0xfd) s"

definition disableKeyboardInterrupt :: "InterruptManager \<Rightarrow> InterruptManager" where
  "disableKeyboardInterrupt s = int_out 0x21 (int_in 0x21 s OR 0x02) s"

definition setTimeInterrupt :: "u32 \<Rightarrow> InterruptManager \<Rightarrow> InterruptManager" where
  "setTimeInterrupt handler s = setInterruptDescriptor (unat (IRQ0_8259A_MASTER s)) handler 0 s"

definition setKeyboardInterrupt :: "u32 \<Rightarrow> InterruptManager \<Rightarrow> InterruptManager" where
  "setKeyboardInterrupt handler s = setInterruptDescriptor (unat (IRQ0_8259A_MASTER s + 1)) handler 0 s"

definition enableInterrupt :: "InterruptManager \<Rightarrow> InterruptManager" where
  "enableInterrupt s = s\<lparr>int_flag := True\<rparr>"

definition disableInterrupt :: "InterruptManager \<Rightarrow> InterruptManager" where
  "disableInterrupt s = s\<lparr>int_flag := False\<rparr>"

definition getInterruptStatus :: "InterruptManager \<Rightarrow> bool" where
  "getInterruptStatus s = int_flag s"

definition setInterruptStatus :: "bool \<Rightarrow> InterruptManager \<Rightarrow> InterruptManager" where
  "setInterruptStatus st s = (if st then enableInterrupt s else disableInterrupt s)"

section \<open>What the processor does with them\<close>

text \<open>A gate as the processor decodes it: selector, offset, present, privilege level, type.\<close>

definition gate :: "nat \<Rightarrow> InterruptManager \<Rightarrow> u32 \<times> u32 \<times> bool \<times> u32 \<times> u32" where
  "gate v s = (let lo = IDT s (v * 2); hi = IDT s (v * 2 + 1) in
     (drop_bit 16 lo, (hi AND 0xffff0000) OR (lo AND 0xffff), bit hi 15, drop_bit 13 hi AND 3, drop_bit 8 hi AND 0x1f))"

definition interrupt_gate :: "u32 \<Rightarrow> u32 \<Rightarrow> u32 \<times> u32 \<times> bool \<times> u32 \<times> u32" where
  "interrupt_gate address dpl = (CODE_SELECTOR, address, True, dpl, 0xe)"

definition irq_vector :: "nat \<Rightarrow> InterruptManager \<Rightarrow> nat" where
  "irq_vector irq s = (if irq < 8 then unat (pic_base (pic_master s)) + irq else unat (pic_base (pic_slave s)) + (irq - 8))"

text \<open>A line of the second controller also needs the cascade line of the first.\<close>

definition irq_open :: "nat \<Rightarrow> InterruptManager \<Rightarrow> bool" where
  "irq_open irq s \<longleftrightarrow> pic_next (pic_master s) = 0 \<and> pic_next (pic_slave s) = 0 \<and>
     (if irq < 8 then \<not> bit (pic_mask (pic_master s)) irq
      else \<not> bit (pic_mask (pic_slave s)) (irq - 8) \<and> pic_link (pic_master s) = 2 ^ unat (pic_link (pic_slave s)) \<and>
        \<not> bit (pic_mask (pic_master s)) (unat (pic_link (pic_slave s))))"

section \<open>Properties\<close>

lemma gate_words:
  fixes a d :: u32
  assumes "unat d < 4"
  defines "hi \<equiv> (a AND 0xffff0000) OR push_bit 15 1 OR push_bit 13 d OR push_bit 8 0xe"
  shows "(hi AND 0xffff0000) OR ((push_bit 16 c OR (a AND 0xffff)) AND 0xffff) = a" "drop_bit 16 (push_bit 16 c OR (a AND 0xffff)) = c AND 0xffff"
    "bit hi 15" "drop_bit 13 hi AND 3 = d" "drop_bit 8 hi AND 0x1f = 0xe"
proof -
  have m: "(0xffff0000::u32) = NOT (mask 16)" "(0xffff::u32) = mask 16" "(3::u32) = mask 2" "(0x1f::u32) = mask 5"
    by (simp_all add: mask_eq_exp_minus_1)
  have d: "\<not> bit d k" if "2 \<le> k" for k
  proof -
    have "(2::nat) ^ 2 \<le> 2 ^ k" by (rule power_increasing) (use that in simp_all)
    then have "unat d div 2 ^ k = 0" using assms(1) by simp
    then have "\<not> bit (unat d) k" by (simp add: bit_iff_odd)
    then show ?thesis by (simp add: bit_unsigned_iff)
  qed
  have e: "bit (0xe::u32) k \<longleftrightarrow> k = 1 \<or> k = 2 \<or> k = 3" for k
  proof -
    have "(0xe::u32) = push_bit 1 (mask 3)" by (simp add: mask_eq_exp_minus_1)
    show ?thesis unfolding \<open>0xe = _\<close> bit_push_bit_iff bit_mask_iff by auto
  qed
  have h: "bit hi k \<longleftrightarrow> k < 32 \<and> (16 \<le> k \<and> bit a k \<or> k = 15 \<or> 13 \<le> k \<and> bit d (k - 13) \<or> k \<in> {9, 10, 11})" for k
    using bit_imp_le_length [of a k] unfolding hi_def m bit_or_iff bit_and_iff bit_not_iff bit_mask_iff bit_push_bit_iff bit_1_iff e
    by auto
  show "(hi AND 0xffff0000) OR ((push_bit 16 c OR (a AND 0xffff)) AND 0xffff) = a"
    unfolding m by (rule bit_word_eqI) (use d in \<open>auto simp: h bit_or_iff bit_and_iff bit_not_iff bit_mask_iff bit_push_bit_iff\<close>)
  show "drop_bit 16 (push_bit 16 c OR (a AND 0xffff)) = c AND 0xffff"
    unfolding m by (rule bit_word_eqI) (auto simp: bit_or_iff bit_and_iff bit_mask_iff bit_push_bit_iff bit_drop_bit_eq)
  show "bit hi 15" by (simp add: h)
  have d': "bit d k \<Longrightarrow> k < 2" for k using d [of k] by force
  show "drop_bit 13 hi AND 3 = d"
    unfolding m by (rule bit_word_eqI) (auto simp: h bit_and_iff bit_mask_iff bit_drop_bit_eq dest: d')
  show "drop_bit 8 hi AND 0x1f = 0xe"
    unfolding m by (rule bit_word_eqI) (unfold bit_and_iff bit_drop_bit_eq comp_def h bit_mask_iff e, use d in auto)
qed

lemma gate_set:
  assumes "unat DPL < 4"
  shows "gate v (setInterruptDescriptor i a DPL s) = (if v = i then interrupt_gate a (ucast DPL) else gate v s)"
proof -
  have "unat (ucast DPL :: u32) < 4" using assms by (subst unsigned_ucast_eq, subst take_bit_nat_eq_self) simp_all
  note g = gate_words [OF this, where a = a]
  have ne: "v * 2 + 1 \<noteq> i * 2" "i * 2 + 1 \<noteq> v * 2" by presburger+
  have c: "CODE_SELECTOR AND 0xffff = CODE_SELECTOR" by (simp add: CODE_SELECTOR_def)
  show ?thesis
  proof (cases "v = i")
    case True
    have w: "IDT (setInterruptDescriptor i a DPL s) (i * 2) = push_bit 16 CODE_SELECTOR OR (a AND 0xffff)"
      "IDT (setInterruptDescriptor i a DPL s) (i * 2 + 1) =
         (a AND 0xffff0000) OR push_bit 15 1 OR push_bit 13 (ucast DPL) OR push_bit 8 0xe"
      by (simp_all add: setInterruptDescriptor_def)
    show ?thesis unfolding gate_def Let_def True w g(1,3-5) g(2) c interrupt_gate_def using g(3) by simp
  next
    case False
    then show ?thesis using ne by (simp add: gate_def setInterruptDescriptor_def Let_def)
  qed
qed

lemma gates_out [simp]: "IDT (int_out port v s) = IDT s" "gate i (int_out port v s) = gate i s"
  by (simp_all add: int_out_def gate_def)

lemma gate_cong: "IDT s' = IDT s \<Longrightarrow> gate v s' = gate v s"
  by (simp add: gate_def)

lemma gate_fold: "gate v (fold (\<lambda>i. setInterruptDescriptor i a 0) [0..<n] s) = (if v < n then interrupt_gate a 0 else gate v s)"
  by (induction n) (auto simp: gate_set)

lemma pic_out:
  "pic_master (int_out 0x20 v s) = pic_command v (pic_master s)" "pic_slave (int_out 0x20 v s) = pic_slave s"
  "pic_master (int_out 0x21 v s) = pic_data v (pic_master s)" "pic_slave (int_out 0x21 v s) = pic_slave s"
  "pic_master (int_out 0xa0 v s) = pic_master s" "pic_slave (int_out 0xa0 v s) = pic_command v (pic_slave s)"
  "pic_master (int_out 0xa1 v s) = pic_master s" "pic_slave (int_out 0xa1 v s) = pic_data v (pic_slave s)"
  by (simp_all add: int_out_def)

lemma pic_program:
  "pic_data m (pic_data 1 (pic_data l (pic_data b (pic_command 0x11 p)))) =
     \<lparr>pic_next = 0, pic_icw1 = 0x11, pic_base = b AND 0xf8, pic_link = l, pic_mode = 1, pic_mask = m\<rparr>"
  by (cases p) (simp add: pic_data_def pic_command_def)

lemma IRQ0_out [simp]: "IRQ0_8259A_MASTER (int_out port v s) = IRQ0_8259A_MASTER s" "IRQ0_8259A_SLAVE (int_out port v s) = IRQ0_8259A_SLAVE s"
  by (simp_all add: int_out_def)

lemma initialize8259A_eq:
  "initialize8259A s = int_out 0xa1 0xff (int_out 0x21 0xfb (int_out 0xa1 1 (int_out 0x21 1 (int_out 0xa1 2 (int_out 0x21 4
     (int_out 0xa1 0x28 (int_out 0x21 0x20
       ((int_out 0xa0 0x11 (int_out 0x20 0x11 s))\<lparr>IRQ0_8259A_MASTER := 0x20, IRQ0_8259A_SLAVE := 0x28\<rparr>))))))))"
  by (simp add: initialize8259A_def Let_def IRQ0_out)

lemma gates_8259 [simp]: "gate v (initialize8259A s) = gate v s"
  by (rule gate_cong) (simp add: initialize8259A_eq)

lemma pics_8259:
  "pic_master (initialize8259A s) = \<lparr>pic_next = 0, pic_icw1 = 0x11, pic_base = 0x20, pic_link = 4, pic_mode = 1, pic_mask = 0xfb\<rparr>"
  "pic_slave (initialize8259A s) = \<lparr>pic_next = 0, pic_icw1 = 0x11, pic_base = 0x28, pic_link = 2, pic_mode = 1, pic_mask = 0xff\<rparr>"
  "IRQ0_8259A_MASTER (initialize8259A s) = 0x20"
  by (simp_all add: initialize8259A_eq pic_out pic_program IRQ0_out)

lemma set_pics [simp]: "pic_master (setInterruptDescriptor i a d s) = pic_master s" "pic_slave (setInterruptDescriptor i a d s) = pic_slave s"
  "IRQ0_8259A_MASTER (setInterruptDescriptor i a d s) = IRQ0_8259A_MASTER s"
  by (simp_all add: setInterruptDescriptor_def)

lemma all_less_16: "(\<forall>i<16. P i) \<longleftrightarrow> (\<forall>i\<in>set [0..<16]. P i)" for P :: "nat \<Rightarrow> bool"
  by auto

text \<open>
  The controllers as \<^verbatim>\<open>initialize\<close> programs them, with any lines masked.  A write to the data port is then a
  write to the mask.
\<close>

definition with_masks :: "u8 \<Rightarrow> u8 \<Rightarrow> InterruptManager \<Rightarrow> InterruptManager" where
  "with_masks m m' s = s\<lparr>pic_master := (pic_master s)\<lparr>pic_mask := m\<rparr>, pic_slave := (pic_slave s)\<lparr>pic_mask := m'\<rparr>\<rparr>"

lemma line_open:
  assumes "pic_next (pic_master s) = 0" "pic_next (pic_slave s) = 0" "pic_link (pic_master s) = 4" "pic_link (pic_slave s) = 2"
  shows "irq_open irq (with_masks m m' s) \<longleftrightarrow> (if irq < 8 then \<not> bit m irq else \<not> bit m' (irq - 8) \<and> \<not> bit m 2)"
  using assms by (simp add: irq_open_def with_masks_def)

lemma switched:
  assumes "pic_next (pic_master s) = 0"
  shows "enableTimeInterrupt (with_masks m m' s) = with_masks (m AND 0xfe) m' s" "disableTimeInterrupt (with_masks m m' s) = with_masks (m OR 1) m' s"
    "enableKeyboardInterrupt (with_masks m m' s) = with_masks (m AND 0xfd) m' s" "disableKeyboardInterrupt (with_masks m m' s) = with_masks (m OR 2) m' s"
  using assms by (simp_all add: enableTimeInterrupt_def disableTimeInterrupt_def enableKeyboardInterrupt_def disableKeyboardInterrupt_def
      int_out_def int_in_def pic_data_def with_masks_def)

lemma mask_bits:
  "\<forall>i<8. bit (m AND 0xfe) i \<longleftrightarrow> i \<noteq> 0 \<and> bit m i" "\<forall>i<8. bit (m OR 1) i \<longleftrightarrow> i = 0 \<or> bit m i"
  "\<forall>i<8. bit (m AND 0xfd) i \<longleftrightarrow> i \<noteq> 1 \<and> bit m i" "\<forall>i<8. bit (m OR 2) i \<longleftrightarrow> i = 1 \<or> bit m i" for m :: u8
proof -
  have a: "(\<forall>i<8. P i) \<longleftrightarrow> (\<forall>i\<in>set [0..<8]. P i)" for P :: "nat \<Rightarrow> bool" by auto
  show "\<forall>i<8. bit (m AND 0xfe) i \<longleftrightarrow> i \<noteq> 0 \<and> bit m i" "\<forall>i<8. bit (m OR 1) i \<longleftrightarrow> i = 0 \<or> bit m i"
    "\<forall>i<8. bit (m AND 0xfd) i \<longleftrightarrow> i \<noteq> 1 \<and> bit m i" "\<forall>i<8. bit (m OR 2) i \<longleftrightarrow> i = 1 \<or> bit m i"
    unfolding a by (simp_all add: upt_rec bit_simps)
qed

lemma line_switches:
  assumes "pic_next (pic_master s) = 0" "pic_next (pic_slave s) = 0" "pic_link (pic_master s) = 4" "pic_link (pic_slave s) = 2"
  shows "irq_open irq (enableTimeInterrupt (with_masks m m' s)) \<longleftrightarrow> irq = 0 \<or> irq_open irq (with_masks m m' s)"
    "irq_open irq (disableTimeInterrupt (with_masks m m' s)) \<longleftrightarrow> irq \<noteq> 0 \<and> irq_open irq (with_masks m m' s)"
    "irq_open irq (enableKeyboardInterrupt (with_masks m m' s)) \<longleftrightarrow> irq = 1 \<or> irq_open irq (with_masks m m' s)"
    "irq_open irq (disableKeyboardInterrupt (with_masks m m' s)) \<longleftrightarrow> irq \<noteq> 1 \<and> irq_open irq (with_masks m m' s)"
  using mask_bits [of m] by (auto simp: switched [OF assms(1)] line_open [OF assms])

text \<open>
  \<^bold>\<open>C40\<close>: Setting up interrupts (interrupt.cpp).  Whatever the state of the machine before,
  \<^verbatim>\<open>initialize\<close> leaves every gate of the table a present ring-0 interrupt gate of the kernel's code
  segment with the handler of its vector, sends the sixteen lines to the vectors from \<^verbatim>\<open>0x20\<close> on,
  so that the gates of the two disks are those of lines 14 and 15, and opens no line but the cascade.
  Installing the timer and the keyboard then changes exactly the gates \<^verbatim>\<open>0x20\<close> and \<^verbatim>\<open>0x21\<close>, and whatever
  lines are masked at that time, enabling or disabling one of the two opens or closes its line, 0 or 1, and no other.
\<close>

theorem interrupt_setup:
  fixes s :: InterruptManager and h :: int_handlers and tm kb :: u32
  defines "s0 \<equiv> IM_initialize h s"
  defines "s1 \<equiv> enableKeyboardInterrupt (setKeyboardInterrupt kb (enableTimeInterrupt (setTimeInterrupt tm s0)))"
  shows "(\<forall>v<256. gate v s0 = interrupt_gate (if v = 14 then page_fault h else if v = irq_vector 14 s0 then ide_primary h
       else if v = irq_vector 15 s0 then ide_secondary h else unhandled h) 0) \<and>
    (\<forall>irq<16. irq_vector irq s0 = 0x20 + irq \<and> (irq_open irq s0 \<longleftrightarrow> irq = 2)) \<and>
    (\<forall>v. gate v s1 = (if v = irq_vector 0 s1 then interrupt_gate tm 0 else if v = irq_vector 1 s1 then interrupt_gate kb 0 else gate v s0)) \<and>
    (\<forall>irq<16. irq_vector irq s1 = 0x20 + irq \<and> (irq_open irq s1 \<longleftrightarrow> irq \<le> 2)) \<and>
    (\<forall>m m' irq. (irq_open irq (enableTimeInterrupt (with_masks m m' s1)) \<longleftrightarrow> irq = 0 \<or> irq_open irq (with_masks m m' s1)) \<and>
       (irq_open irq (disableTimeInterrupt (with_masks m m' s1)) \<longleftrightarrow> irq \<noteq> 0 \<and> irq_open irq (with_masks m m' s1)) \<and>
       (irq_open irq (enableKeyboardInterrupt (with_masks m m' s1)) \<longleftrightarrow> irq = 1 \<or> irq_open irq (with_masks m m' s1)) \<and>
       (irq_open irq (disableKeyboardInterrupt (with_masks m m' s1)) \<longleftrightarrow> irq \<noteq> 1 \<and> irq_open irq (with_masks m m' s1)))"
proof -
  define sh where "sh = setInterruptDescriptor 0x2F (ide_secondary h) 0 (setInterruptDescriptor 0x2E (ide_primary h) 0
    (setInterruptDescriptor 14 (page_fault h) 0 (fold (\<lambda>i. setInterruptDescriptor i (unhandled h) 0) [0..<256]
      (s\<lparr>idtr := (IDT_START_ADDRESS, 256 * 8 - 1)\<rparr>))))"
  have s0: "s0 = initialize8259A sh" by (simp add: s0_def IM_initialize_def Let_def sh_def)
  note p = pics_8259 [of sh, folded s0]
  have m: "pic_master s1 = (pic_master s0)\<lparr>pic_mask := 0xf8\<rparr>" "pic_slave s1 = pic_slave s0"
    by (simp_all add: s1_def setKeyboardInterrupt_def setTimeInterrupt_def enableTimeInterrupt_def enableKeyboardInterrupt_def
        int_out_def int_in_def pic_data_def p)
  have vec: "\<forall>irq<16. irq_vector irq s0 = 0x20 + irq" "\<forall>irq<16. irq_vector irq s1 = 0x20 + irq"
    by (auto simp: irq_vector_def m p)
  have "\<forall>v<256. gate v s0 = interrupt_gate (if v = 14 then page_fault h else if v = irq_vector 14 s0 then ide_primary h
       else if v = irq_vector 15 s0 then ide_secondary h else unhandled h) 0"
    using vec(1) by (auto simp: s0 sh_def gate_set gate_fold)
  moreover have "\<forall>irq<16. irq_open irq s0 \<longleftrightarrow> irq = 2"
    unfolding all_less_16 by (simp add: upt_rec irq_open_def p)
  moreover have "\<forall>irq<16. irq_open irq s1 \<longleftrightarrow> irq \<le> 2"
    unfolding all_less_16 by (simp add: upt_rec irq_open_def p m)
  moreover note line_switches [of s1]
  moreover have "\<forall>v. gate v s1 = (if v = irq_vector 0 s1 then interrupt_gate tm 0 else if v = irq_vector 1 s1 then interrupt_gate kb 0 else gate v s0)"
    using vec(2) by (auto simp: s1_def setKeyboardInterrupt_def setTimeInterrupt_def enableTimeInterrupt_def enableKeyboardInterrupt_def gate_set p)
  ultimately show ?thesis using vec by (simp add: m p)
qed

definition reset_state :: InterruptManager where
  "reset_state = (let p = \<lparr>pic_next = 0, pic_icw1 = 0, pic_base = 0, pic_link = 0, pic_mode = 0, pic_mask = 0\<rparr>
     in \<lparr>IDT = (\<lambda>_. 0), idtr = (0, 0), IRQ0_8259A_MASTER = 0, IRQ0_8259A_SLAVE = 0, pic_master = p, pic_slave = p, int_flag = False\<rparr>)"

definition some_handlers :: int_handlers where
  "some_handlers = \<lparr>unhandled = 0xc0020000, page_fault = 0xc0020100, ide_primary = 0xc0020200, ide_secondary = 0xc0020300\<rparr>"

theorem interrupt_setup_witness:
  "gate 14 (IM_initialize some_handlers reset_state) = (0x20, 0xc0020100, True, 0, 0xe) \<and>
   irq_vector 14 (IM_initialize some_handlers reset_state) = 0x2e \<and> \<not> irq_open 1 (IM_initialize some_handlers reset_state)"
proof -
  note t = interrupt_setup [of some_handlers reset_state 0 0]
  have "gate 14 (IM_initialize some_handlers reset_state) = interrupt_gate (page_fault some_handlers) 0" using t by (elim conjE allE [of _ 14]) simp
  moreover have v: "\<forall>irq<16. irq_vector irq (IM_initialize some_handlers reset_state) = 0x20 + irq \<and>
      (irq_open irq (IM_initialize some_handlers reset_state) \<longleftrightarrow> irq = 2)" using t by blast
  ultimately show ?thesis using v [rule_format, of 14] v [rule_format, of 1]
    by (simp add: interrupt_gate_def CODE_SELECTOR_def some_handlers_def)
qed

end
