(* ===== verification/Memory_Boot.thy ===== *)
theory Memory_Boot
  imports Fault_Effects
begin

text \<open>
  \<^verbatim>\<open>MemoryManager::initialize\<close> (\<^verbatim>\<open>src/kernel/memory.cpp\<close>): how the memory above the first 2 MB is
  laid out, the entries that map the tables of the memory manager into the kernel half, and the pools over
  what is left.  The regions of those tables become members of the model's state, so the loops that clear
  them are the zero values they start with.  C \<^verbatim>\<open>int\<close> is \<open>int\<close> here: with at most 2 GB no expression
  of the function overflows.
\<close>

section \<open>Layout\<close>

definition RESERVED_MEMORY :: int where "RESERVED_MEMORY = 0x200000"
definition KERNEL_VIRTUAL_START :: u32 where "KERNEL_VIRTUAL_START = 0xc0100000"
definition KERNEL_VIRTUAL_END :: u32 where "KERNEL_VIRTUAL_END = 0xffffffff"
definition KERNEL_VA_BITMAP_SIZE :: int where "KERNEL_VA_BITMAP_SIZE = 0x8000"

definition page_up :: "int \<Rightarrow> int" where
  "page_up n = (n + 4095) AND NOT 4095"

definition boot_pages :: "int \<Rightarrow> int" where
  "boot_pages memsize = page_up memsize sdiv 4096"

definition rmap_nodes :: "int \<Rightarrow> int" where
  "rmap_nodes memsize = (3 * boot_pages memsize) sdiv 2"

text \<open>
  The sizes of the regions in their order: free nodes, their bitmap and the page map of the kernel's and
  of the users' frames; bitmap and privileges of the kernel's pages; the page descriptors; the entries of
  the reverse map and their bitmap.
\<close>

definition boot_regions :: "int \<Rightarrow> int list" where
  "boot_regions memsize =
     (let maxPages = page_up (memsize sdiv 2) sdiv 4096;
          PAfreeNodeListSize = page_up (maxPages * 16);
          PAfreeNodeBitMapSize = page_up ((maxPages + 7) sdiv 8);
          PABitMapSize = page_up ((maxPages + 7) sdiv 8);
          VABitMapSize = KERNEL_VA_BITMAP_SIZE;
          VAPrevilegeSize = page_up (KERNEL_VA_BITMAP_SIZE * 8 * 1);
          PageInfoSize = page_up (boot_pages memsize * 8);
          RMapNodeListSize = page_up (rmap_nodes memsize * 16);
          RMapBitMapSize = page_up ((rmap_nodes memsize + 7) sdiv 8)
      in [PAfreeNodeListSize, PAfreeNodeBitMapSize, PABitMapSize, PAfreeNodeListSize, PAfreeNodeBitMapSize, PABitMapSize,
          VABitMapSize, VAPrevilegeSize, PageInfoSize, RMapNodeListSize, RMapBitMapSize])"

definition PTE_table_start :: "int \<Rightarrow> int" where
  "PTE_table_start memsize = RESERVED_MEMORY + sum_list (boot_regions memsize)"

definition usedMemory :: "int \<Rightarrow> int" where
  "usedMemory memsize =
     (let PTEcount = (PTE_table_start memsize - RESERVED_MEMORY) sdiv 4096
      in PTE_table_start memsize + c_ceil PTEcount (4096 sdiv 4) * 4096)"

section \<open>The initialisation\<close>

text \<open>One round of the loop over the pages of the regions; \<open>i\<close> counts them.\<close>

definition map_reserved :: "int \<Rightarrow> nat \<Rightarrow> MM \<Rightarrow> MM option" where
  "map_reserved tables i s = do {
     let addr = (word_of_int RESERVED_MEMORY + word_of_nat i * PAGE_SIZE :: u32);
     let vaddr = KERNEL_VIRTUAL_START + word_of_nat i * PAGE_SIZE;
     d \<leftarrow> load (toPDE vaddr) s;
     s \<leftarrow> (if d AND PDE_PRESENT = 0 then do {
            let PDEidx = drop_bit 22 vaddr AND 0x3ff;
            ASSERT (768 \<le> PDEidx \<and> PDEidx < 1024);
            let table = word_of_int tables + PAGE_SIZE * (PDEidx - 768);
            ASSERT (table mod PAGE_SIZE = 0);
            s \<leftarrow> store (toPDE vaddr) (table OR PDE_KERNEL) s;
            clear_table (toPTE vaddr AND NOT 0xfff) s
          }
          else Some s);
     store (toPTE vaddr) (addr OR 0x7) s
   }"

definition boot_maps :: "int \<Rightarrow> nat" where
  "boot_maps memsize = nat ((PTE_table_start memsize - RESERVED_MEMORY + 4095) sdiv 4096)"

definition zero_node :: FreeNode where
  "zero_node = \<lparr>startIndex = 0, order_of = 0, fn_next = None, fn_prev = None\<rparr>"

definition boot_pageinfos :: "int \<Rightarrow> nat \<Rightarrow> PageInfo" where
  "boot_pageinfos memsize i =
     (if int i < usedMemory memsize sdiv 4096 then \<lparr>pi_ref = 1, pi_flags = PG_RESERVED OR PG_KERNEL, pi_extra = 0\<rparr>
      else if int i < boot_pages memsize then \<lparr>pi_ref = 0, pi_flags = PG_FREE, pi_extra = 0\<rparr>
      else \<lparr>pi_ref = 0, pi_flags = 0, pi_extra = 0\<rparr>)"

definition MM_initialize :: "u32 \<Rightarrow> MM \<Rightarrow> MM option" where
  "MM_initialize w s =
     (let memsize = sint (getTotalMemory w 0) in
      if memsize < RESERVED_MEMORY then None
      else do {
        s \<leftarrow> fold (\<lambda>i r. r \<bind> map_reserved (PTE_table_start memsize) i) [0..<boot_maps memsize] (Some s);
        let kernelVirtualStart = KERNEL_VIRTUAL_START + word_of_nat (boot_maps memsize) * PAGE_SIZE;
        let used = usedMemory memsize;
        ASSERT (used AND 0xfff = 0);
        let freePages = (memsize - used) sdiv 4096;
        let kernelPages = freePages sdiv 2;
        let userPages = freePages - kernelPages;
        let kernelVirtualPages = c_ceil (sint (0xffffffff - kernelVirtualStart)) 4096;
        kp \<leftarrow> PAddressPool_initialize (\<lambda>_. 0) kernelPages (word_of_int used) (\<lambda>_. 0) (\<lambda>_. zero_node) (\<lambda>_. None);
        up \<leftarrow> PAddressPool_initialize (\<lambda>_. 0) userPages (word_of_int (used + kernelPages * 4096)) (\<lambda>_. 0) (\<lambda>_. zero_node) (\<lambda>_. None);
        kv \<leftarrow> VAddressPool_initialize (\<lambda>_. 0) kernelVirtualPages kernelVirtualStart KERNEL_VIRTUAL_END (Some (\<lambda>_. 0)) (VP_RW OR VP_USER) False;
        let kv = kv\<lparr>va_resources := BitMap_set 0 True (va_resources kv)\<rparr>;
        Some (s\<lparr>kernelPhysical := kp, userPhysical := up, kernelVirtual := kv,
          rmapManager := RMap_initialize (rmap_nodes memsize) (\<lambda>_. RMap_zero) (\<lambda>_. 0), pageinfos := boot_pageinfos memsize\<rparr>)
      })"

section \<open>Arithmetic of the layout\<close>

lemma page_up_eq: "page_up n = (n + 4095) div 4096 * 4096"
proof -
  have "x AND NOT (mask 12) = push_bit 12 (drop_bit 12 x)" for x :: int
    by (rule bit_eqI) (auto simp: bit_and_iff bit_not_iff bit_mask_iff bit_push_bit_iff bit_drop_bit_eq)
  from this [of "n + 4095"] show ?thesis by (simp add: page_up_def mask_eq_exp_minus_1 push_bit_eq_mult drop_bit_eq_div)
qed

lemma page_up_bounds: "n \<le> page_up n" "page_up n < n + 4096" "4096 dvd page_up n" "0 \<le> n \<Longrightarrow> 0 \<le> page_up n"
proof -
  have "(n + 4095) mod 4096 = n + 4095 - page_up n" by (simp add: page_up_eq minus_mult_div_eq_mod [symmetric] algebra_simps)
  moreover have "0 \<le> (n + 4095) mod 4096" "(n + 4095) mod 4096 < 4096" by simp_all
  ultimately show "n \<le> page_up n" "page_up n < n + 4096" by linarith+
  then show "0 \<le> n \<Longrightarrow> 0 \<le> page_up n" by linarith
  show "4096 dvd page_up n" by (simp add: page_up_eq)
qed

lemma sdiv_pos: "0 \<le> a \<Longrightarrow> 0 \<le> b \<Longrightarrow> a sdiv b = a div b" for a b :: int
  by (cases "a = 0"; cases "b = 0") (simp_all add: signed_divide_int_def sgn_if abs_if)

lemma boot_regions_ok:
  assumes "0 \<le> T" "T < 2 ^ 31"
  shows "4096 dvd sum_list (boot_regions T)" "0 \<le> sum_list (boot_regions T)" "sum_list (boot_regions T) < 0x4000000"
    "\<forall>r\<in>set (boot_regions T). 4096 dvd r \<and> 0 < r \<or> r = 0"
proof -
  define mp where "mp = page_up (T sdiv 2) sdiv 4096"
  define pg where "pg = boot_pages T"
  define rn where "rn = rmap_nodes T"
  have "T sdiv 2 = T div 2" using assms by (simp add: sdiv_pos)
  then have mp: "0 \<le> mp" "mp \<le> 2 ^ 18" using page_up_bounds [of "T div 2"] assms by (simp_all add: mp_def sdiv_pos)
  have pg: "0 \<le> pg" "pg \<le> 2 ^ 19" using page_up_bounds [of T] assms by (simp_all add: pg_def boot_pages_def sdiv_pos)
  have rn: "0 \<le> rn" "rn \<le> 786432" using pg by (simp_all add: rn_def rmap_nodes_def pg_def [symmetric] sdiv_pos)
  have e: "boot_regions T = [page_up (mp * 16), page_up ((mp + 7) div 8), page_up ((mp + 7) div 8), page_up (mp * 16),
      page_up ((mp + 7) div 8), page_up ((mp + 7) div 8), 0x8000, 0x40000, page_up (pg * 8), page_up (rn * 16), page_up ((rn + 7) div 8)]"
    using mp rn by (simp add: boot_regions_def Let_def mp_def [symmetric] pg_def [symmetric] rn_def [symmetric] KERNEL_VA_BITMAP_SIZE_def sdiv_pos) (simp add: page_up_eq)
  show "4096 dvd sum_list (boot_regions T)" unfolding e by (simp add: page_up_bounds dvd_add)
  have pos: "0 \<le> page_up (mp * 16)" "0 \<le> page_up ((mp + 7) div 8)" "0 \<le> page_up (pg * 8)" "0 \<le> page_up (rn * 16)" "0 \<le> page_up ((rn + 7) div 8)"
    using mp pg rn by (auto intro!: page_up_bounds(4))
  then show "0 \<le> sum_list (boot_regions T)" unfolding e by simp
  show "sum_list (boot_regions T) < 0x4000000"
    using page_up_bounds(2) [of "mp * 16"] page_up_bounds(2) [of "(mp + 7) div 8"] page_up_bounds(2) [of "pg * 8"]
      page_up_bounds(2) [of "rn * 16"] page_up_bounds(2) [of "(rn + 7) div 8"] mp pg rn unfolding e by simp
  show "\<forall>r\<in>set (boot_regions T). 4096 dvd r \<and> 0 < r \<or> r = 0"
    unfolding e using pos by (auto simp: page_up_bounds)
qed

lemma usedMemory_ok:
  assumes "0 \<le> T" "T < 2 ^ 31"
  defines "S \<equiv> sum_list (boot_regions T)"
  shows "PTE_table_start T = 0x200000 + S" "boot_maps T = nat (S div 4096)" "4096 dvd usedMemory T" "0x200000 + S \<le> usedMemory T"
    "usedMemory T AND 0xfff = 0"
proof -
  note b = boot_regions_ok [OF assms(1,2), folded S_def]
  obtain k where k: "S = 4096 * k" using b(1) by blast
  have k0: "0 \<le> k" using b(2) k by simp
  show p: "PTE_table_start T = 0x200000 + S" by (simp add: PTE_table_start_def RESERVED_MEMORY_def S_def)
  show "boot_maps T = nat (S div 4096)"
    using k0 by (simp add: boot_maps_def p RESERVED_MEMORY_def k sdiv_pos)
  have u: "usedMemory T = 4096 * (512 + k + (k + 1023) div 1024)"
    using k0 by (simp add: usedMemory_def Let_def p RESERVED_MEMORY_def k sdiv_pos c_ceil_def)
  show "4096 dvd usedMemory T" unfolding u by simp
  show "0x200000 + S \<le> usedMemory T" unfolding u k using k0 by simp
  have "usedMemory T AND mask 12 = usedMemory T mod 2 ^ 12" by (simp only: take_bit_eq_mask [symmetric] take_bit_eq_mod)
  also have "\<dots> = 0" unfolding u by simp
  finally show "usedMemory T AND 0xfff = 0" by (simp add: mask_eq_exp_minus_1)
qed

section \<open>The tables of the boot code\<close>

text \<open>Directory entry \<open>d\<close> and word \<open>k\<close> of the 255 kernel tables, which lie one behind the other.\<close>

definition dir_word :: "nat \<Rightarrow> u32" where "dir_word d = word_of_nat (0x100000 + d * 4)"
definition table_word :: "nat \<Rightarrow> u32" where "table_word k = word_of_nat (0x101000 + k * 4)"

definition table_frame :: "nat \<Rightarrow> u32" where "table_frame j = word_of_nat (0x101000 + j * 4096)"

definition boot_mem :: "phys_mem \<Rightarrow> bool" where
  "boot_mem b \<longleftrightarrow> b (dir_word 0) = table_frame 0 OR PDE_KERNEL \<and> (\<forall>d. 0 < d \<and> d < 768 \<longrightarrow> b (dir_word d) = 0) \<and>
     (\<forall>j<255. b (dir_word (768 + j)) = table_frame j OR PDE_KERNEL) \<and> b (dir_word 1023) = 0x100000 OR PDE_KERNEL \<and>
     (\<forall>k. 256 \<le> k \<and> k < 255 * 1024 \<longrightarrow> b (table_word k) = 0)"

lemma unat_boot_words:
  "d < 1024 \<Longrightarrow> unat (dir_word d) = 0x100000 + d * 4" "k < 255 * 1024 \<Longrightarrow> unat (table_word k) = 0x101000 + k * 4"
  "j < 255 \<Longrightarrow> unat (table_frame j) = 0x101000 + j * 4096"
  unfolding dir_word_def table_word_def table_frame_def by (rule unat_word_of_nat, simp)+

lemma kernel_tables_Suc:
  "1 \<le> n \<Longrightarrow> kernel_tables (Suc n) m = mem_clear (table_frame n) ((kernel_tables n m)(dir_word (768 + n) := table_frame n OR PDE_KERNEL))"
proof -
  assume "1 \<le> n"
  moreover have "PAGE_DIRECTORY + PAGE_SIZE + word_of_nat n * PAGE_SIZE = table_frame n" "PAGE_DIRECTORY + (768 + word_of_nat n) * 4 = dir_word (768 + n)"
    by (simp_all add: PAGE_DIRECTORY_def PAGE_SIZE_def table_frame_def dir_word_def algebra_simps)
  ultimately show ?thesis by (simp add: kernel_tables_def Let_def)
qed

lemma table_frame_word: "i < 1024 \<Longrightarrow> table_frame n + word_of_nat i * 4 = table_word (n * 1024 + i)"
  by (simp add: table_frame_def table_word_def algebra_simps)

lemma clear_table_other: "n < 255 \<Longrightarrow> unat a < 0x101000 + n * 4096 \<or> 0x101000 + n * 4096 + 4096 \<le> unat a \<Longrightarrow> mem_clear (table_frame n) m a = m a"
proof (rule mem_clear_other)
  fix i :: nat assume a: "n < 255" "unat a < 0x101000 + n * 4096 \<or> 0x101000 + n * 4096 + 4096 \<le> unat a" "i < 1024"
  have "unat (table_word (n * 1024 + i)) = 0x101000 + (n * 1024 + i) * 4" by (rule unat_boot_words) (use a in simp)
  then show "a \<noteq> table_frame n + word_of_nat i * 4" using a by (auto simp: table_frame_word)
qed

lemma kernel_tables_dir:
  assumes "n \<le> 255" "1 \<le> j" "j < n"
  shows "kernel_tables n m (dir_word (768 + j)) = table_frame j OR PDE_KERNEL"
  using assms
proof (induction n)
  case (Suc n)
  have u: "unat (dir_word (768 + i)) = 0x100000 + (768 + i) * 4" if "i < 255" for i by (rule unat_boot_words) (use that in simp)
  have c: "kernel_tables (Suc n) m (dir_word (768 + j)) = ((kernel_tables n m)(dir_word (768 + n) := table_frame n OR PDE_KERNEL)) (dir_word (768 + j))"
    using Suc.prems u [of j] by (subst kernel_tables_Suc) (simp_all add: clear_table_other)
  show ?case
  proof (cases "j = n")
    case False
    then have "dir_word (768 + j) \<noteq> dir_word (768 + n)" using u [of j] u [of n] Suc.prems by auto
    then show ?thesis using c Suc False by simp
  qed (use c in simp)
qed simp

lemma kernel_tables_clear:
  assumes "n \<le> 255" "1024 \<le> k" "k < n * 1024"
  shows "kernel_tables n m (table_word k) = 0"
  using assms
proof (induction n)
  case (Suc n)
  then have n: "1 \<le> n" "n < 255" by auto
  have u: "unat (table_word k) = 0x101000 + k * 4" by (rule unat_boot_words) (use Suc.prems in simp)
  show ?case
  proof (cases "n * 1024 \<le> k")
    case True
    then have k: "k = n * 1024 + (k - n * 1024)" "k - n * 1024 < 1024" using Suc.prems by simp_all
    then have "table_word k = table_frame n + word_of_nat (k - n * 1024) * 4" by (subst table_frame_word) simp_all
    then show ?thesis using mem_clear_hit [OF k(2)] n by (simp add: kernel_tables_Suc)
  next
    case False
    have "unat (dir_word (768 + n)) = 0x100000 + (768 + n) * 4" by (rule unat_boot_words) (use n in simp)
    then have "table_word k \<noteq> dir_word (768 + n)" using u n by auto
    then show ?thesis using Suc False n u by (simp add: kernel_tables_Suc clear_table_other)
  qed
qed simp

lemma boot_mem_open: "boot_mem (open_page_mechanism m)"
proof -
  define p where "p = fold (\<lambda>i m. m((0x101000::u32) + word_of_nat i * 4 := (word_of_nat i * PAGE_SIZE) OR 0x7)) [0..<256]
    (mem_clear 0x101000 (mem_clear 0x100000 m))"
  define q where "q = p(0x100000 := 0x101000 OR PDE_KERNEL, 0x100000 + 768 * 4 := 0x101000 OR PDE_KERNEL,
    0x100000 + 1023 * 4 := 0x100000 OR PDE_KERNEL)"
  have b: "open_page_mechanism m = kernel_tables 255 q"
    by (simp add: open_page_mechanism_def kernel_tables_def Let_def q_def p_def PAGE_DIRECTORY_def PAGE_SIZE_def)
  have dir: "kernel_tables 255 q (dir_word d) = 0" if d: "0 < d" "d < 768" for d
  proof -
    have u: "unat (dir_word d) = 0x100000 + d * 4" by (rule unat_boot_words) (use d in simp)
    have "kernel_tables 255 q (dir_word d) = q (dir_word d)" by (rule kernel_tables_other) (use u d in auto)
    moreover have "dir_word d \<noteq> 0x100000" "dir_word d \<noteq> 0x100000 + 768 * 4" "dir_word d \<noteq> 0x100000 + 1023 * 4" using u d by auto
    moreover have "dir_word d \<noteq> 0x101000 + word_of_nat i * 4" if "i < 1024" for i
      using unat_slot [of "0x101000" i] that u d by auto
    then have "p (dir_word d) = mem_clear 0x100000 m (dir_word d)" unfolding p_def by (subst identity_other) (simp_all add: mem_clear_other)
    moreover have "dir_word d = 0x100000 + word_of_nat d * 4" by (simp add: dir_word_def)
    ultimately show ?thesis using mem_clear_hit [of d "0x100000" m] d by (simp add: q_def)
  qed
  have tab: "open_page_mechanism m (table_word k) = 0" if "256 \<le> k" "k < 255 * 1024" for k
  proof (cases "k < 1024")
    case True
    then show ?thesis using open_page_entries(5) [of k m] that by (simp add: table_word_def)
  next
    case False
    then show ?thesis using kernel_tables_clear [of 255 k q] that by (simp add: b)
  qed
  have kd: "open_page_mechanism m (dir_word (768 + j)) = table_frame j OR PDE_KERNEL" if "j < 255" for j
    using kernel_tables_dir [of 255 j q] open_page_entries(2) [of m] that by (cases "j = 0") (simp_all add: b dir_word_def table_frame_def)
  show ?thesis unfolding boot_mem_def using open_page_entries(1,3) [of m] dir tab kd by (auto simp: b dir_word_def table_frame_def)
qed

section \<open>The loop over the regions\<close>

definition kv_page :: "nat \<Rightarrow> u32" where "kv_page i = KERNEL_VIRTUAL_START + word_of_nat i * PAGE_SIZE"
definition region_entry :: "nat \<Rightarrow> u32" where "region_entry i = word_of_nat (0x200000 + i * 4096) OR 0x7"

definition region_maps :: "nat \<Rightarrow> phys_mem \<Rightarrow> phys_mem" where
  "region_maps n m = fold (\<lambda>i m. m(table_word (256 + i) := region_entry i)) [0..<n] m"

lemma kv_bound: "i \<le> 0x4000 \<Longrightarrow> 0xc0100000 + i * 4096 < (2 ^ 32 :: nat)"
  by simp

lemma kv_page_ix:
  assumes "i \<le> 0x4000"
  shows "unat (kv_page i) = 0xc0100000 + i * 4096" "dirw (kv_page i) = word_of_nat (768 + (256 + i) div 1024)"
    "tabw (kv_page i) = word_of_nat ((256 + i) mod 1024)" "page_aligned (kv_page i)"
proof -
  have "kv_page i = word_of_nat (0xc0100000 + i * 4096)" by (simp add: kv_page_def KERNEL_VIRTUAL_START_def PAGE_SIZE_def)
  then show u: "unat (kv_page i) = 0xc0100000 + i * 4096" by (metis unat_word_of_nat assms kv_bound)
  have q: "(0xc0100000 + i * 4096) div 4096 = 768 * 1024 + (256 + i)" by simp
  have "dir_ix (kv_page i) = (0xc0100000 + i * 4096) div 4096 div 1024" unfolding dir_ix_def u by (simp flip: div_mult2_eq)
  also have "\<dots> = 768 + (256 + i) div 1024" unfolding q by (simp add: div_mult_self3)
  finally have d: "unat (dirw (kv_page i)) = 768 + (256 + i) div 1024" by (simp only: unat_dirw)
  have w: "x = word_of_nat (unat x)" for x :: u32 by simp
  show "dirw (kv_page i) = word_of_nat (768 + (256 + i) div 1024)" by (subst w) (simp only: d)
  have "tab_ix (kv_page i) = (768 * 1024 + (256 + i)) mod 1024" unfolding tab_ix_def u using q by simp
  also have "\<dots> = (256 + i) mod 1024" by (rule mod_mult_self3)
  finally have "tab_ix (kv_page i) = (256 + i) mod 1024" .
  then have t: "unat (tabw (kv_page i)) = (256 + i) mod 1024" by (simp only: unat_tabw)
  show "tabw (kv_page i) = word_of_nat ((256 + i) mod 1024)" by (subst w) (simp only: t)
  show "page_aligned (kv_page i)" by (simp add: page_aligned_dvd u)
qed

lemma table_frame_aligned: "page_aligned (table_frame j)"
proof -
  have "table_frame j = push_bit 12 (word_of_nat (0x101 + j))" by (simp add: table_frame_def push_bit_eq_mult algebra_simps)
  then have "table_frame j AND mask 12 = 0" by (auto intro!: bit_word_eqI simp: bit_and_iff bit_push_bit_iff bit_mask_iff)
  then show ?thesis by (simp add: page_aligned_def mask_consts)
qed

lemma table_entry: "page_aligned f \<Longrightarrow> (f OR PDE_KERNEL) AND PDE_GET_ADDRESS = f" "(f OR PDE_KERNEL) AND PDE_PRESENT \<noteq> 0"
proof -
  have k: "f OR PDE_KERNEL = f OR 0xe06 OR PTE_PRESENT" by (simp add: PDE_KERNEL_def PTE_PRESENT_def)
  show "page_aligned f \<Longrightarrow> (f OR PDE_KERNEL) AND PDE_GET_ADDRESS = f"
    unfolding k GET_ADDRESS_same(1) [symmetric] by (rule entry_frame(1)) (simp_all add: PTE_GET_ADDRESS_def)
  have "(x OR PTE_PRESENT) AND PTE_PRESENT = PTE_PRESENT" for x
    by (rule bit_word_eqI) (auto simp: bit_and_iff bit_or_iff)
  then have "(f OR 0xe06 OR PTE_PRESENT) AND PTE_PRESENT = PTE_PRESENT" by (metis or.assoc)
  then show "(f OR PDE_KERNEL) AND PDE_PRESENT \<noteq> 0" unfolding k by (simp add: PTE_PRESENT_def PDE_PRESENT_def)
qed

lemma kv_dir: "i \<le> 0x4000 \<Longrightarrow> pde_at 0x100000 (kv_page i) = dir_word (768 + (256 + i) div 1024)"
  by (simp add: pde_at_def kv_page_ix dir_word_def algebra_simps)

lemma kv_table: "i \<le> 0x4000 \<Longrightarrow> pte_at (table_frame ((256 + i) div 1024) OR PDE_KERNEL) (kv_page i) = table_word (256 + i)"
proof -
  assume i: "i \<le> 0x4000"
  have "pte_at (table_frame ((256 + i) div 1024) OR PDE_KERNEL) (kv_page i) = table_frame ((256 + i) div 1024) + word_of_nat ((256 + i) mod 1024) * 4"
    by (simp only: pte_at_def table_entry(1) [OF table_frame_aligned] kv_page_ix(3) [OF i])
  also have "\<dots> = table_word ((256 + i) div 1024 * 1024 + (256 + i) mod 1024)" by (rule table_frame_word) simp
  finally show ?thesis by simp
qed

text \<open>The directory half of \<open>boot_mem\<close>, which the loop leaves alone.\<close>

definition boot_dir :: "MM \<Rightarrow> bool" where
  "boot_dir s \<longleftrightarrow> cr3 s = 0x100000 \<and> phys s (dir_word 0) = table_frame 0 OR PDE_KERNEL \<and>
     (\<forall>d. 0 < d \<and> d < 768 \<longrightarrow> phys s (dir_word d) = 0) \<and>
     (\<forall>j<255. phys s (dir_word (768 + j)) = table_frame j OR PDE_KERNEL) \<and> phys s (dir_word 1023) = 0x100000 OR PDE_KERNEL"

lemma boot_dir_self: "boot_dir s \<Longrightarrow> self_mapped s"
proof -
  assume b: "boot_dir s"
  have "page_aligned 0x100000" by (simp add: page_aligned_def)
  note t = table_entry(1) [OF this] table_entry(2) [of "0x100000"]
  have "dir_word 1023 = 0x100000 + 4092" by (simp add: dir_word_def)
  then show ?thesis using b t unfolding boot_dir_def self_map_def by simp
qed

lemma kv_entry: "boot_dir s \<Longrightarrow> i \<le> 0x4000 \<Longrightarrow> dir_entry (kv_page i) s = table_frame ((256 + i) div 1024) OR PDE_KERNEL"
  by (simp add: dir_entry_def boot_dir_def kv_dir)

lemma map_reserved_step:
  assumes b: "boot_dir s" and i: "i \<le> 0x4000"
  shows "map_reserved t i s = Some (s\<lparr>phys := (phys s)(table_word (256 + i) := region_entry i)\<rparr>)"
proof -
  note self = boot_dir_self [OF b]
  have d: "dir_entry (kv_page i) s AND PDE_PRESENT \<noteq> 0" by (simp only: kv_entry [OF b i] table_entry(2)) simp
  have e: "word_of_int RESERVED_MEMORY + word_of_nat i * PAGE_SIZE = (word_of_nat (0x200000 + i * 4096) :: u32)"
    by (simp add: RESERVED_MEMORY_def PAGE_SIZE_def)
  show ?thesis
    using load_toPDE [OF self, of "kv_page i"] store_toPTE [OF self d] d
    unfolding map_reserved_def Let_def kv_page_def [symmetric] e kv_entry [OF b i] kv_table [OF i]
    by (simp add: region_entry_def)
qed

lemma boot_dir_upd: "boot_dir s \<Longrightarrow> k < 255 * 1024 \<Longrightarrow> boot_dir (s\<lparr>phys := (phys s)(table_word k := w)\<rparr>)"
proof -
  assume b: "boot_dir s" and k: "k < 255 * 1024"
  have "dir_word d \<noteq> table_word k" if "d < 1024" for d
    using unat_boot_words(1) [OF that] unat_boot_words(2) [OF k] that by auto
  then show ?thesis using b by (auto simp: boot_dir_def)
qed

lemma region_loop:
  assumes b: "boot_dir s" and n: "n \<le> 0x4000"
  shows "fold (\<lambda>i r. r \<bind> map_reserved t i) [0..<n] (Some s) = Some (s\<lparr>phys := region_maps n (phys s)\<rparr>) \<and>
    boot_dir (s\<lparr>phys := region_maps n (phys s)\<rparr>)"
  using n
proof (induction n)
  case 0
  then show ?case using b by (simp add: region_maps_def)
next
  case (Suc n)
  let ?s = "s\<lparr>phys := region_maps n (phys s)\<rparr>"
  have bn: "boot_dir ?s" using Suc by simp
  have eq: "?s\<lparr>phys := (phys ?s)(table_word (256 + n) := region_entry n)\<rparr> = s\<lparr>phys := region_maps (Suc n) (phys s)\<rparr>"
    by (simp add: region_maps_def fun_upd_def)
  show ?case using Suc map_reserved_step [OF bn, of n t] boot_dir_upd [OF bn, of "256 + n" "region_entry n"] unfolding eq by simp
qed

lemma region_maps_at:
  assumes "k < 255 * 1024" "n \<le> 0x4000"
  shows "region_maps n m (table_word k) = (if 256 \<le> k \<and> k < 256 + n then region_entry (k - 256) else m (table_word k))"
  using assms(2)
proof (induction n)
  case (Suc n)
  have "table_word (256 + n) = table_word k \<longleftrightarrow> 256 + n = k"
    using unat_boot_words(2) [of "256 + n"] unat_boot_words(2) [of k] Suc.prems assms(1) by (auto dest: arg_cong [of _ _ unat])
  moreover have "region_maps (Suc n) m = (region_maps n m)(table_word (256 + n) := region_entry n)" by (simp add: region_maps_def)
  ultimately show ?case using Suc by auto
qed (auto simp: region_maps_def)

section \<open>The pools\<close>

lemma pa_init:
  assumes "4096 dvd start" "0 < start" "start + n * 4096 < 2 ^ 31" "0 \<le> n"
  shows "\<exists>p A. PAddressPool_initialize (\<lambda>_. 0) n (word_of_int start) (\<lambda>_. 0) (\<lambda>_. zero_node) (\<lambda>_. None) = Some p \<and> pa_ok p A \<and>
    int (unat (pa_startAddress p)) = start \<and> totalPages (pa_resources p) = n"
proof -
  have z: "Buddy_initialize (\<lambda>_. 0) n (\<lambda>_. 0) (\<lambda>_. zero_node) (\<lambda>_. None) = init_loop 0 (fresh_buddy (\<lambda>_. 0) n)"
    by (simp add: Buddy_initialize_def fresh_buddy_def zero_node_def)
  obtain b A where b: "init_loop 0 (fresh_buddy (\<lambda>_. 0) n) = Some b" "buddy_inv b A" "totalPages b = n"
    using init_loop_inv [OF fresh_rep(1), of "\<lambda>_. 0" n 0] fresh_rep(2) by auto
  have st: "int (unat (word_of_int start :: u32)) = start"
    using assms by (simp add: uint_word_of_int_eq take_bit_int_eq_self)
  then have "4096 dvd unat (word_of_int start :: u32)" using assms(1) by (metis int_dvd_int_iff of_nat_numeral)
  then have "pa_ok \<lparr>pa_resources = b, pa_startAddress = word_of_int start, victim_idx = 0, pa_length = word_of_int n\<rparr> A"
    using b st assms by (simp add: pa_ok_def)
  then show ?thesis using z b st by (auto simp: PAddressPool_initialize_def)
qed

lemma va_init:
  assumes n: "n \<le> 0x4000"
  shows "\<exists>v. VAddressPool_initialize (\<lambda>_. 0) (c_ceil (sint (0xffffffff - kv_page n)) 4096) (kv_page n) KERNEL_VIRTUAL_END
      (Some (\<lambda>_. 0)) (VP_RW OR VP_USER) False = Some v \<and> va_ok v \<and> va_startAddress v = kv_page n"
proof -
  define M where "M = 0x3ff00 - n"
  have M: "M * 4096 = 0x3ff00000 - n * 4096" "0 < M" "M \<le> 0x3ff00" using n by (simp_all add: M_def diff_mult_distrib)
  note u = kv_page_ix(1) [OF n]
  have d: "unat (0xffffffff - kv_page n) = M * 4096 - 1"
    by (subst unat_sub) (use n in \<open>simp_all add: word_le_nat_alt u M\<close>)
  have "M * 4096 - 1 < 2 ^ 31" using M by simp
  then have "sint (0xffffffff - kv_page n) = int (M * 4096 - 1)"
    using sint_small [of "0xffffffff - kv_page n"] d by simp
  then have len: "c_ceil (sint (0xffffffff - kv_page n)) 4096 = int M" using M by (simp add: c_ceil_def sdiv_pos of_nat_diff)
  have e: "unat (KERNEL_VIRTUAL_END - kv_page n + 1) = M * 4096"
    using d M by (subst unat_add_lem [THEN iffD1]) (simp_all add: KERNEL_VIRTUAL_END_def)
  have "(KERNEL_VIRTUAL_END - kv_page n + 1) div PAGE_SIZE = word_of_int (int M)"
    by (rule word_eq_unatI) (use e M in \<open>simp add: unat_div PAGE_SIZE_def unat_word_of_nat\<close>)
  moreover have "4096 dvd unat (kv_page n)" by (simp add: u)
  moreover have "int (unat KERNEL_VIRTUAL_END) + 1 = int (unat (kv_page n)) + int M * 4096"
    using M n by (simp add: u KERNEL_VIRTUAL_END_def M_def)
  ultimately show ?thesis using len M by (simp add: VAddressPool_initialize_def va_ok_def BitMap_initialize_def)
qed

section \<open>After the start\<close>

text \<open>The state that the initialisation leaves behind, from the pools it has built.\<close>

lemma boot_frames_ok:
  assumes kp: "pa_ok kp A1" "int (unat (pa_startAddress kp)) = U" "totalPages (pa_resources kp) = K"
    and up: "pa_ok up A2" "int (unat (pa_startAddress up)) = U + K * 4096" "totalPages (pa_resources up) = F - K"
    and U: "U = usedMemory T" "0 < U" "4096 dvd U" and F: "0 \<le> K" "K \<le> F" "U + F * 4096 \<le> T"
    and s: "kernelPhysical s = kp" "userPhysical s = up" "pageinfos s = boot_pageinfos T"
  shows "frames_ok s (case_AddressPoolType A2 A1)"
    and "cover (case_AddressPoolType A2 A1 ty) i = 1 \<Longrightarrow> U \<le> int (unat (pa_frame (phys_pool ty s) i))"
    and "cover (case_AddressPoolType A2 A1 ty) i = 1 \<Longrightarrow> U div 4096 \<le> int (frame_no (phys_pool ty s) i)"
proof -
  let ?A = "case_AddressPoolType A2 A1"
  obtain u where u: "U = 4096 * u" using U(3) by blast
  have pool: "pa_ok (phys_pool ty s) (?A ty)" "int (unat (pa_startAddress (phys_pool ty s))) = (case ty of KERNEL \<Rightarrow> U | USER \<Rightarrow> U + K * 4096)"
    "totalPages (pa_resources (phys_pool ty s)) = (case ty of KERNEL \<Rightarrow> K | USER \<Rightarrow> F - K)" for ty
    using kp up s by (cases ty; simp add: phys_pool_def)+
  have no: "int (frame_no (phys_pool ty s) i) = (case ty of KERNEL \<Rightarrow> u | USER \<Rightarrow> u + K) + int i"
    if "int i < totalPages (pa_resources (phys_pool ty s))" for ty i
    using frame_no_eq [OF pool(1) that] pool(2) [of ty] by (cases ty) (auto simp: u zdiv_int)
  have adr: "int (unat (pa_frame (phys_pool ty s) i)) = (case ty of KERNEL \<Rightarrow> U | USER \<Rightarrow> U + K * 4096) + int i * 4096"
    if "int i < totalPages (pa_resources (phys_pool ty s))" for ty i
    using unat_pa_frame(1) [OF pool(1) that] pool(2) [of ty] by simp
  have bd: "int i < totalPages (pa_resources (phys_pool ty s))" if "cover (?A ty) i = 1" for ty i
    using pool(1) [of ty] that total_okD [of "totalPages (pa_resources (phys_pool ty s))" "?A ty" i]
    by (auto simp: pa_ok_def buddy_inv_def)
  show "cover (?A ty) i = 1 \<Longrightarrow> U \<le> int (unat (pa_frame (phys_pool ty s) i))"
    using adr [OF bd, of ty i] F(1) by (cases ty) auto
  show "cover (?A ty) i = 1 \<Longrightarrow> U div 4096 \<le> int (frame_no (phys_pool ty s) i)"
    using no [OF bd, of ty i] F(1) by (cases ty) (auto simp: u)
  have pages: "u + F \<le> boot_pages T"
  proof -
    have "4096 * (u + F) \<le> page_up T" using F(3) page_up_bounds(1) [of T] by (simp add: u algebra_simps)
    moreover have "0 \<le> T" using F U(2) by linarith
    then have "boot_pages T = page_up T div 4096" using page_up_bounds(4) [of T] by (simp add: boot_pages_def sdiv_pos)
    ultimately show ?thesis by simp
  qed
  show "frames_ok s ?A"
    unfolding frames_ok_def
  proof (intro conjI allI impI)
    fix ty show "pa_ok (phys_pool ty s) (?A ty)" by (rule pool)
    show "pa_startAddress (phys_pool ty s) \<noteq> 0" using pool(2) [of ty] U(2) F(1) by (cases ty) auto
  next
    fix ty i assume c: "cover (?A ty) i = 1"
    have "int (frame_no (phys_pool ty s) i) \<ge> u" "int (frame_no (phys_pool ty s) i) < u + F"
      using no [OF bd [OF c]] bd [OF c] pool(3) [of ty] F by (cases ty; simp)+
    moreover have "U sdiv 4096 = u" using U(2) by (simp add: u sdiv_pos)
    ultimately show "PageInfo_hasFlag (pageinfos s (frame_no (phys_pool ty s) i)) PG_FREE"
      using pages by (simp add: s(3) boot_pageinfos_def U(1) [symmetric] PageInfo_hasFlag_def pg_flag_defs)
  next
    fix i j assume "int i < totalPages (pa_resources (kernelPhysical s))" "int j < totalPages (pa_resources (userPhysical s))"
    then show "frame_no (kernelPhysical s) i \<noteq> frame_no (userPhysical s) j"
      using no [of i KERNEL] no [of j USER] kp(3) by (auto simp: phys_pool_def s)
  qed
qed

lemma boot_tables:
  assumes b: "boot_dir s" and z: "\<forall>k. 256 \<le> k \<and> k < 255 * 1024 \<longrightarrow> phys s (table_word k) = (if k < 256 + n then region_entry (k - 256) else 0)"
    and n: "n < 0x4000" and v: "va_startAddress (kernelVirtual s) = kv_page n"
  shows "self_mapped s" "f \<in> table_frames s \<Longrightarrow> unat f < 0x200000" "temp_slot_ok s"
    "i < n \<Longrightarrow> page_at s (kv_page i) (word_of_nat (0x200000 + i * 4096))"
proof -
  show self: "self_mapped s" by (rule boot_dir_self [OF b])
  have al: "page_aligned 0x100000" by (simp add: page_aligned_def)
  have ent: "dir_entry v s \<in> insert 0 (insert (0x100000 OR PDE_KERNEL) ((\<lambda>j. table_frame j OR PDE_KERNEL) ` {..<255}))" for v
  proof -
    have c: "pde_at (cr3 s) v = dir_word (dir_ix v)"
      using b unat_dirw [of v] by (simp add: boot_dir_def pde_at_def dir_word_def flip: unat_dirw)
    show ?thesis
    proof (cases "dir_ix v < 768")
      case True
      then show ?thesis using b unfolding dir_entry_def c boot_dir_def by (cases "dir_ix v = 0") auto
    next
      case False
      define j where "j = dir_ix v - 768"
      have j: "dir_ix v = 768 + j" "j \<le> 255" using False dir_ix_less [of v] by (simp_all add: j_def)
      then have "dir_ix v = 1023 \<or> j < 255" by auto
      then show ?thesis using b unfolding dir_entry_def c boot_dir_def by (auto simp: j(1))
    qed
  qed
  show "unat f < 0x200000" if "f \<in> table_frames s" for f
  proof -
    consider "f = cr3 s" | v where "f = dir_entry v s AND PDE_GET_ADDRESS" "dir_entry v s AND PDE_PRESENT \<noteq> 0"
      using \<open>f \<in> table_frames s\<close> by (auto simp: table_frames_def)
    then show ?thesis
    proof cases
      case 1
      then show ?thesis using b by (simp add: boot_dir_def)
    next
      case (2 v)
      then consider "f = 0x100000" | j where "j < 255" "f = table_frame j"
        using ent [of v] table_entry(1) [OF al] table_entry(1) [OF table_frame_aligned] by auto
      then show ?thesis by cases (simp_all add: unat_boot_words(3))
    qed
  qed
  have d: "dir_entry (kv_page i) s = table_frame ((256 + i) div 1024) OR PDE_KERNEL" if "i \<le> n" for i
    by (rule kv_entry [OF b]) (use that n in simp)
  have p: "dir_entry (kv_page i) s AND PDE_PRESENT \<noteq> 0" "dir_entry (kv_page i) s AND PDE_GET_ADDRESS \<noteq> cr3 s"
      "pte_at (dir_entry (kv_page i) s) (kv_page i) = table_word (256 + i)" if "i \<le> n" for i
  proof -
    have "unat (table_frame ((256 + i) div 1024)) = 0x101000 + (256 + i) div 1024 * 4096" using that n by (intro unat_boot_words(3)) simp
    then have "table_frame ((256 + i) div 1024) \<noteq> 0x100000" by auto
    then show "dir_entry (kv_page i) s AND PDE_GET_ADDRESS \<noteq> cr3 s"
      using b by (simp only: d [OF that] table_entry(1) [OF table_frame_aligned]) (simp add: boot_dir_def)
    show "dir_entry (kv_page i) s AND PDE_PRESENT \<noteq> 0" by (simp only: d [OF that] table_entry(2)) simp
    show "pte_at (dir_entry (kv_page i) s) (kv_page i) = table_word (256 + i)"
      unfolding d [OF that] by (rule kv_table) (use that n in simp)
  qed
  have t: "temp_va s = kv_page n" by (simp add: temp_va_def v)
  have "kv_page n \<noteq> 0" using kv_page_ix(1) [of n] n by auto
  moreover have "phys s (table_word (256 + n)) = 0" using z n by simp
  ultimately show "temp_slot_ok s"
    using self kv_page_ix(4) [of n] n p [of n] by (simp add: temp_slot_ok_def t slot_entry_def)
  assume i: "i < n"
  have e: "phys s (table_word (256 + i)) = region_entry i" using z i n by simp
  have ai: "page_aligned (word_of_nat (0x200000 + i * 4096))"
    using unat_word_of_nat [of "0x200000 + i * 4096"] i n by (simp add: page_aligned_dvd)
  have r: "region_entry i = word_of_nat (0x200000 + i * 4096) OR 0x6 OR PTE_PRESENT" by (simp add: region_entry_def PTE_PRESENT_def)
  have fr: "region_entry i AND PTE_GET_ADDRESS = word_of_nat (0x200000 + i * 4096)" "region_entry i AND PTE_PRESENT \<noteq> 0"
    unfolding r by (rule entry_frame [OF ai]; simp add: pte_flag_defs)+
  show "page_at s (kv_page i) (word_of_nat (0x200000 + i * 4096))"
    by (rule page_atI) (use kv_page_ix(4) [of i] p [of i] e fr i n in simp_all)
qed

lemma MM_initialize_runs:
  assumes m: "phys s = open_page_mechanism m" and c: "cr3 s = PAGE_DIRECTORY" and T: "T = sint (getTotalMemory w 0)"
    and enough: "0x200000 \<le> T" "usedMemory T \<le> T"
  shows "\<exists>s' A. MM_initialize w s = Some s' \<and> frames_ok s' A \<and>
    (\<forall>ty i. cover (A ty) i = 1 \<longrightarrow> usedMemory T \<le> int (unat (pa_frame (phys_pool ty s') i)) \<and>
       usedMemory T div 4096 \<le> int (frame_no (phys_pool ty s') i)) \<and>
    phys s' = region_maps (boot_maps T) (phys s) \<and> cr3 s' = cr3 s \<and> running s' = running s \<and>
    va_ok (kernelVirtual s') \<and> va_startAddress (kernelVirtual s') = kv_page (boot_maps T) \<and>
    pageinfos s' = boot_pageinfos T \<and> rmapManager s' = RMap_initialize (rmap_nodes T) (\<lambda>_. RMap_zero) (\<lambda>_. 0)"
proof -
  let ?U = "usedMemory T" and ?n = "boot_maps T"
  have T2: "0 \<le> T" "T < 2 ^ 31" using sint_lt [of "getTotalMemory w 0"] enough by (simp_all add: T)
  note r = boot_regions_ok [OF T2] and l = usedMemory_ok [OF T2]
  have n: "?n < 0x4000" using r(2,3) by (simp add: l(2))
  have b: "boot_dir s" using boot_mem_open [of m] c by (simp add: boot_dir_def boot_mem_def m PAGE_DIRECTORY_def)
  note lp = region_loop [OF b less_imp_le [OF n], THEN conjunct1]
  define F where "F = (T - ?U) div 4096"
  define K where "K = F div 2"
  have sd: "(T - ?U) sdiv 4096 = F" "F sdiv 2 = K" using enough by (simp_all add: F_def K_def sdiv_pos pos_imp_zdiv_nonneg_iff)
  have F: "0 \<le> F" "?U + F * 4096 \<le> T" "0 \<le> K" "K \<le> F" using enough(2) by (simp_all add: F_def K_def pos_imp_zdiv_nonneg_iff)
  have U: "0 < ?U" using l(4) r(2) by simp
  obtain kp A1 where kp: "PAddressPool_initialize (\<lambda>_. 0) K (word_of_int ?U) (\<lambda>_. 0) (\<lambda>_. zero_node) (\<lambda>_. None) = Some kp" "pa_ok kp A1"
    "int (unat (pa_startAddress kp)) = ?U" "totalPages (pa_resources kp) = K"
    using pa_init [OF l(3) U, of K] F T2 by auto
  have U2: "4096 dvd ?U + K * 4096" "0 < ?U + K * 4096" using l(3) U F(3) by simp_all
  obtain up A2 where up: "PAddressPool_initialize (\<lambda>_. 0) (F - K) (word_of_int (?U + K * 4096)) (\<lambda>_. 0) (\<lambda>_. zero_node) (\<lambda>_. None) = Some up"
    "pa_ok up A2" "int (unat (pa_startAddress up)) = ?U + K * 4096" "totalPages (pa_resources up) = F - K"
    using pa_init [OF U2, of "F - K"] F T2 by (auto simp: algebra_simps)
  obtain v where v: "VAddressPool_initialize (\<lambda>_. 0) (c_ceil (sint (0xffffffff - kv_page ?n)) 4096) (kv_page ?n) KERNEL_VIRTUAL_END
      (Some (\<lambda>_. 0)) (VP_RW OR VP_USER) False = Some v" "va_ok v" "va_startAddress v = kv_page ?n"
    using va_init [OF less_imp_le [OF n]] by blast
  define s' where "s' = s\<lparr>phys := region_maps ?n (phys s), kernelPhysical := kp, userPhysical := up,
     kernelVirtual := v\<lparr>va_resources := BitMap_set 0 True (va_resources v)\<rparr>,
     rmapManager := RMap_initialize (rmap_nodes T) (\<lambda>_. RMap_zero) (\<lambda>_. 0), pageinfos := boot_pageinfos T\<rparr>"
  have "\<not> T < RESERVED_MEMORY" using enough by (simp add: RESERVED_MEMORY_def)
  then have run: "MM_initialize w s = Some s'"
    using lp kp(1) up(1) v(1) l(5) unfolding MM_initialize_def Let_def T [symmetric] kv_page_def [symmetric] sd
    by (simp add: s'_def)
  have s': "kernelPhysical s' = kp" "userPhysical s' = up" "pageinfos s' = boot_pageinfos T" by (simp_all add: s'_def)
  note fr = boot_frames_ok [OF kp(2-4) up(2-4) refl U l(3) F(3,4,2) s']
  have "va_ok (kernelVirtual s')" using v(2) by (simp add: s'_def va_ok_def)
  then show ?thesis using run fr v(3)
    by (intro exI [of _ s'] exI [of _ "case_AddressPoolType A2 A1"]) (simp add: s'_def)
qed

text \<open>
  \<^bold>\<open>C23\<close>: Memory after the start of the kernel (memory.cpp, \<^verbatim>\<open>MemoryManager::initialize\<close>, on the page
  tables of \<^verbatim>\<open>boot/page.cpp\<close>).  If the machine has at least 2 MB and at least the memory that the manager's own tables need, the
  initialisation returns, and everything the memory manager relies on holds: the pools of frames are well
  formed, disjoint and outside the page tables, free frames are marked free and mapped nowhere, the reverse
  map is empty, the directory maps itself, the temporary mapping is ready, the kernel's page pool is well
  formed, and the pages from \<^verbatim>\<open>0xc0100000\<close> on show the regions that hold the tables.  With less than
  2 MB the kernel stops.
\<close>

theorem boot_memory_ready:
  fixes w :: u32
  assumes m: "phys s = open_page_mechanism m" and c: "cr3 s = PAGE_DIRECTORY"
  defines "T \<equiv> sint (getTotalMemory w 0)"
  shows "(0x200000 \<le> T \<and> usedMemory T \<le> T \<longrightarrow> (\<exists>s' A. MM_initialize w s = Some s' \<and>
      memory_ok s' A (\<lambda>q. if int q < usedMemory T div 4096 then 1 else 0) (\<lambda>_. []) \<and> temp_slot_ok s' \<and> va_ok (kernelVirtual s') \<and>
      (\<forall>i<boot_maps T. page_at s' (0xc0100000 + word_of_nat i * 4096) (0x200000 + word_of_nat i * 4096)) \<and>
      cr3 s' = PAGE_DIRECTORY \<and> running s' = running s)) \<and>
    (T < 0x200000 \<longrightarrow> MM_initialize w s = None)"
proof (rule conjI [OF impI impI])
  assume "T < 0x200000"
  then show "MM_initialize w s = None" by (simp add: MM_initialize_def Let_def T_def [symmetric] RESERVED_MEMORY_def)
next
  assume enough: "0x200000 \<le> T \<and> usedMemory T \<le> T"
  let ?U = "usedMemory T" and ?n = "boot_maps T" and ?base = "\<lambda>q. if int q < usedMemory T div 4096 then 1 else 0 :: nat"
  have T2: "0 \<le> T" "T < 2 ^ 31" using sint_lt [of "getTotalMemory w 0"] enough by (simp_all add: T_def)
  note r = boot_regions_ok [OF T2] and l = usedMemory_ok [OF T2]
  have n: "?n < 0x4000" using r(2,3) by (simp add: l(2))
  obtain s' A where s': "MM_initialize w s = Some s'" "frames_ok s' A"
    "\<forall>ty i. cover (A ty) i = 1 \<longrightarrow> ?U \<le> int (unat (pa_frame (phys_pool ty s') i)) \<and> ?U div 4096 \<le> int (frame_no (phys_pool ty s') i)"
    "phys s' = region_maps ?n (phys s)" "cr3 s' = cr3 s" "running s' = running s" "va_ok (kernelVirtual s')"
    "va_startAddress (kernelVirtual s') = kv_page ?n" "pageinfos s' = boot_pageinfos T"
    "rmapManager s' = RMap_initialize (rmap_nodes T) (\<lambda>_. RMap_zero) (\<lambda>_. 0)"
    using MM_initialize_runs [OF m c T_def [THEN meta_eq_to_obj_eq]] enough by blast
  have b: "boot_dir s" using boot_mem_open [of m] c by (simp add: boot_dir_def boot_mem_def m PAGE_DIRECTORY_def)
  have b': "boot_dir s'"
    using region_loop [OF b less_imp_le [OF n], of 0, THEN conjunct2] by (simp add: boot_dir_def s'(4,5))
  have z: "\<forall>k. 256 \<le> k \<and> k < 255 * 1024 \<longrightarrow> phys s' (table_word k) = (if k < 256 + ?n then region_entry (k - 256) else 0)"
    using region_maps_at [OF _ less_imp_le [OF n], of _ "phys s"] boot_mem_open [of m] by (simp add: s'(4) m boot_mem_def)
  note bt = boot_tables [OF b' z n s'(8)]
  have U: "0x200000 \<le> ?U" using l(4) r(2) by simp
  have rn: "0 < rmap_nodes T"
  proof -
    have "0x200000 div 4096 \<le> page_up T div 4096" by (rule zdiv_mono1) (use enough page_up_bounds(1) [of T] in simp_all)
    then have "512 \<le> boot_pages T" using T2 page_up_bounds(4) [of T] by (simp add: boot_pages_def sdiv_pos)
    then show ?thesis by (simp add: rmap_nodes_def sdiv_pos)
  qed
  have "rmap_ok (rmapManager s') (pageinfos s') ?base (\<lambda>_. [])"
    unfolding s'(9,10) by (rule RMap_initialize_ok [OF rn]) (use U in \<open>simp_all add: boot_pageinfos_def sdiv_pos\<close>)
  moreover have "pa_frame (phys_pool ty s') i \<notin> table_frames s'" if "cover (A ty) i = 1" for ty i
    using s'(3) that bt(2) [of "pa_frame (phys_pool ty s') i"] U by fastforce
  ultimately have "memory_ok s' A ?base (\<lambda>_. [])" using s'(2,3) bt(1) by (fastforce simp: memory_ok_def)
  moreover have "\<forall>i<?n. page_at s' (0xc0100000 + word_of_nat i * 4096) (0x200000 + word_of_nat i * 4096)"
    using bt(4) by (simp add: kv_page_def KERNEL_VIRTUAL_START_def PAGE_SIZE_def)
  ultimately show "\<exists>s' A. MM_initialize w s = Some s' \<and> memory_ok s' A ?base (\<lambda>_. []) \<and> temp_slot_ok s' \<and> va_ok (kernelVirtual s') \<and>
      (\<forall>i<boot_maps T. page_at s' (0xc0100000 + word_of_nat i * 4096) (0x200000 + word_of_nat i * 4096)) \<and>
      cr3 s' = PAGE_DIRECTORY \<and> running s' = running s"
    using s'(1,5,6,7) bt(3) c by (intro exI [of _ s'] exI [of _ A]) simp
qed

text \<open>A machine with 32 MB.\<close>

lemma layout_32MB:
  "sint (getTotalMemory 0x8000 0) = 0x2000000" "usedMemory 0x2000000 = 0x2ae000" "boot_maps 0x2000000 = 0xad"
proof -
  show "sint (getTotalMemory 0x8000 0) = 0x2000000" by (simp add: getTotalMemory_def Let_def)
  have "boot_regions 0x2000000 = [0x10000, 0x1000, 0x1000, 0x10000, 0x1000, 0x1000, 0x8000, 0x40000, 0x10000, 0x30000, 0x1000]"
    by (simp add: boot_regions_def Let_def boot_pages_def rmap_nodes_def page_up_eq KERNEL_VA_BITMAP_SIZE_def sdiv_pos)
  then have p: "PTE_table_start 0x2000000 = 0x2ad000" by (simp add: PTE_table_start_def RESERVED_MEMORY_def)
  show "usedMemory 0x2000000 = 0x2ae000" by (simp add: usedMemory_def p RESERVED_MEMORY_def sdiv_pos c_ceil_def)
  show "boot_maps 0x2000000 = 0xad" by (simp add: boot_maps_def p RESERVED_MEMORY_def sdiv_pos)
qed

theorem boot_memory_ready_witness:
  "\<exists>s'. MM_initialize 0x8000 (mm_example\<lparr>phys := open_page_mechanism (\<lambda>_. 0), cr3 := PAGE_DIRECTORY\<rparr>) = Some s' \<and>
     temp_slot_ok s' \<and> page_at s' 0xc0100000 0x200000"
proof -
  let ?s = "mm_example\<lparr>phys := open_page_mechanism (\<lambda>_. 0), cr3 := PAGE_DIRECTORY\<rparr>"
  have "phys ?s = open_page_mechanism (\<lambda>_. 0)" "cr3 ?s = PAGE_DIRECTORY" by simp_all
  note r = boot_memory_ready [OF this, of "0x8000", THEN conjunct1, unfolded layout_32MB]
  obtain s' where "MM_initialize 0x8000 ?s = Some s'" "temp_slot_ok s'"
      "\<forall>i<0xad. page_at s' (0xc0100000 + word_of_nat i * 4096) (0x200000 + word_of_nat i * 4096)"
    using r by auto
  moreover from this(3) [rule_format, of 0] have "page_at s' 0xc0100000 0x200000" by simp
  ultimately show ?thesis by blast
qed

end
