(* ===== verification/Format_Print.thy ===== *)
theory Format_Print
  imports Os_Prelude "HOL-Library.Char_ord"
begin

text \<open>
  Formatted output (\<^verbatim>\<open>src/libc/vsprintf.cpp\<close>, \<^verbatim>\<open>src/libc/stdio.cpp\<close>) on the 32-bit target: the
  reader of conversion specifications, the digits of numbers, the conversions, and the buffer of
  \<^verbatim>\<open>printf\<close>.  The callback is the string of characters it receives; the arguments are the 4-byte
  slots that \<^verbatim>\<open>va_arg\<close> walks over, and the string at an address is an argument of the model.  The
  buffer of 128 characters holds any 32-bit number, so digits are lists; the count of characters is an
  unbounded integer.
\<close>

section \<open>Conversion specifications\<close>

datatype format_length = LEN_INT | LEN_LONG | LEN_LLONG

record Format =
  width :: u32
  left_align :: bool
  zero_pad :: bool
  valid :: bool
  fmt_length :: format_length
  specifier :: char

definition DEFAULT_WIDTH :: u32 where "DEFAULT_WIDTH = 1"

definition init_format :: Format where
  "init_format = \<lparr>width = DEFAULT_WIDTH, left_align = False, zero_pad = False, valid = True, fmt_length = LEN_INT, specifier = CHR 0x00\<rparr>"

definition is_digit :: "char \<Rightarrow> bool" where
  "is_digit c \<longleftrightarrow> CHR ''0'' \<le> c \<and> c \<le> CHR ''9''"

definition digit_value :: "char \<Rightarrow> nat" where
  "digit_value c = of_char c - 48"

definition read_width :: "string \<Rightarrow> u32" where
  "read_width ds = fold (\<lambda>c sum. sum * 10 + word_of_nat (digit_value c)) ds 0"

text \<open>
  The loop of \<^verbatim>\<open>analyse_format\<close> behind the percent sign; the result is the format and the text that
  starts with the specifier, or whatever is left when the format is not valid.
\<close>

function analyse_loop :: "string \<Rightarrow> Format \<Rightarrow> Format \<times> string" where
  "analyse_loop [] f = (f\<lparr>valid := False\<rparr>, [])"
| "analyse_loop (c # cs) f =
     (if c \<in> set ''diuxcsp'' then (f\<lparr>specifier := c\<rparr>, c # cs)
      else if c = CHR ''0'' then
        (if \<not> zero_pad f then analyse_loop cs (f\<lparr>zero_pad := True\<rparr>) else (f\<lparr>valid := False\<rparr>, cs))
      else if c = CHR ''-'' then
        (if \<not> left_align f then analyse_loop cs (f\<lparr>left_align := True\<rparr>) else (f\<lparr>valid := False\<rparr>, cs))
      else if c = CHR ''l'' then
        (if fmt_length f = LEN_INT then analyse_loop cs (f\<lparr>fmt_length := LEN_LONG\<rparr>) else (f\<lparr>valid := False\<rparr>, cs))
      else if is_digit c then
        (if width f \<noteq> DEFAULT_WIDTH then (f\<lparr>valid := False\<rparr>, cs)
         else analyse_loop (dropWhile is_digit cs) (f\<lparr>width := read_width (c # takeWhile is_digit cs)\<rparr>))
      else (f\<lparr>valid := False\<rparr>, c # cs))"
  by pat_completeness auto
termination by (relation "measure (length \<circ> fst)") (auto simp: le_imp_less_Suc length_dropWhile_le)

definition analyse_format :: "string \<Rightarrow> Format \<times> string" where
  "analyse_format cs = analyse_loop cs init_format"

section \<open>Digits\<close>

definition char_of_digit :: "nat \<Rightarrow> char" where
  "char_of_digit d = (if d < 10 then char_of (48 + d) else char_of (97 + d - 10))"

fun digits_loop :: "nat \<Rightarrow> nat \<Rightarrow> string \<Rightarrow> string" where
  "digits_loop base n buf = (if n = 0 \<or> base < 2 then buf else digits_loop base (n div base) (char_of_digit (n mod base) # buf))"

declare digits_loop.simps [simp del]

definition sign_decify :: "u32 \<Rightarrow> string" where
  "sign_decify number =
     (let negative = sint number < 0;
          number = (if negative then - number else number);
          buf = (if number = 0 then ''0'' else []);
          buf = (if 0 < sint number then digits_loop 10 (unat number) buf else buf)
      in if negative then CHR ''-'' # buf else buf)"

definition unsign_decify :: "u32 \<Rightarrow> string" where
  "unsign_decify number = digits_loop 10 (unat number) (if number = 0 then ''0'' else [])"

definition hexify :: "u32 \<Rightarrow> string" where
  "hexify number = digits_loop 16 (unat number) (if number = 0 then ''0'' else [])"

section \<open>Conversions\<close>

definition out_str :: "string \<Rightarrow> int \<times> string" where
  "out_str str = (int (length str), str)"

definition out_pad :: "char \<Rightarrow> u32 \<Rightarrow> int \<times> string" where
  "out_pad pad num = (sint num, replicate (nat (sint num)) pad)"

definition then_out :: "int \<times> string \<Rightarrow> int \<times> string \<Rightarrow> int \<times> string" where
  "then_out a b = (fst a + fst b, snd a @ snd b)"

definition pad_number :: "Format \<Rightarrow> string \<Rightarrow> int \<times> string" where
  "pad_number f str =
     (let len = word_of_nat (length str); gap = width f - len in
      if len < width f then
        if left_align f then then_out (out_str str) (out_pad (CHR '' '') gap)
        else if zero_pad f then then_out (out_pad (CHR ''0'') gap) (out_str str)
        else then_out (out_pad (CHR '' '') gap) (out_str str)
      else out_str str)"

text \<open>The sign of a padded negative number is written without being counted.\<close>

definition pad_signed :: "Format \<Rightarrow> string \<Rightarrow> int \<times> string" where
  "pad_signed f str =
     (let len = word_of_nat (length str); gap = width f - len; negative = (case str of c # _ \<Rightarrow> c = CHR ''-'' | [] \<Rightarrow> False) in
      if len < width f then
        if left_align f then then_out (out_str str) (out_pad (CHR '' '') gap)
        else if zero_pad f \<and> negative then then_out (0, ''-'') (then_out (out_pad (CHR ''0'') gap) (out_str (tl str)))
        else if zero_pad f \<and> \<not> negative then then_out (out_pad (CHR ''0'') gap) (out_str str)
        else if \<not> zero_pad f \<and> negative then then_out (out_pad (CHR '' '') gap) (then_out (0, ''-'') (out_str (tl str)))
        else then_out (out_pad (CHR '' '') gap) (out_str str)
      else out_str str)"

type_synonym va_list = "nat \<Rightarrow> u32"

definition varg_to_callback :: "(u32 \<Rightarrow> string) \<Rightarrow> Format \<Rightarrow> u32 \<Rightarrow> int \<times> string" where
  "varg_to_callback mem f arg =
     (if specifier f = CHR ''p'' then then_out (out_str ''0x'') (out_str (hexify arg))
      else if specifier f = CHR ''s'' then out_str (if arg = 0 then ''(null)'' else mem arg)
      else if specifier f = CHR ''c'' then (1, [char_of (unat (ucast arg :: u8))])
      else if specifier f = CHR ''d'' \<or> specifier f = CHR ''i'' then pad_signed f (sign_decify arg)
      else if specifier f = CHR ''u'' then pad_number f (unsign_decify arg)
      else if specifier f = CHR ''x'' then pad_number f (hexify arg)
      else (0, []))"

text \<open>\<open>i\<close> counts the arguments that have been taken; the result is \<^verbatim>\<open>-1\<close> as soon as a format is not valid.\<close>

lemma analyse_loop_shorter: "length (snd (analyse_loop cs f)) \<le> length cs"
proof (induction cs f rule: analyse_loop.induct)
  case (2 c cs f)
  have "length (dropWhile is_digit cs) \<le> length cs" by (rule length_dropWhile_le)
  with 2 show ?case by (auto simp: le_SucI intro: le_SucI order_trans)
qed simp

function vsprintf_loop :: "(u32 \<Rightarrow> string) \<Rightarrow> va_list \<Rightarrow> nat \<Rightarrow> string \<Rightarrow> int \<times> string \<Rightarrow> int \<times> string" where
  "vsprintf_loop mem ap i [] acc = acc"
| "vsprintf_loop mem ap i (c # cs) acc =
     (if c = CHR ''%'' \<and> cs \<noteq> [] \<and> hd cs = CHR ''%'' then vsprintf_loop mem ap i (tl cs) (then_out acc (1, ''%''))
      else if c = CHR ''%'' then
        (let (f, rest) = analyse_format cs in
         if \<not> valid f then (- 1, snd acc)
         else vsprintf_loop mem ap (i + 1) (tl rest) (then_out acc (varg_to_callback mem f (ap i))))
      else vsprintf_loop mem ap i cs (then_out acc (1, [c])))"
  by pat_completeness auto
termination
proof (relation "measure (\<lambda>(mem, ap, i, cs, acc). length cs)", goal_cases)
  case (3 mem ap i c cs acc x f rest)
  then have "rest = snd (analyse_loop cs init_format)" by (metis analyse_format_def snd_conv)
  then have "length rest \<le> length cs" using analyse_loop_shorter [of cs init_format] by simp
  then show ?case by auto
qed auto

definition vsprintf_callback :: "(u32 \<Rightarrow> string) \<Rightarrow> string \<Rightarrow> va_list \<Rightarrow> int \<times> string" where
  "vsprintf_callback mem fmt ap = vsprintf_loop mem ap 0 fmt (0, [])"

section \<open>The buffer of printf\<close>

record print_buf =
  pb_buf :: string
  pb_writes :: "string list"

definition printf_buf_puts :: "char \<Rightarrow> print_buf \<Rightarrow> print_buf" where
  "printf_buf_puts c s =
     (let buf = pb_buf s @ [c] in
      if 64 \<le> length buf \<or> c = CHR 0x0A then \<lparr>pb_buf = [], pb_writes = pb_writes s @ [takeWhile (\<lambda>c. c \<noteq> CHR 0x00) buf]\<rparr>
      else s\<lparr>pb_buf := buf\<rparr>)"

definition printf :: "(u32 \<Rightarrow> string) \<Rightarrow> string \<Rightarrow> va_list \<Rightarrow> print_buf \<Rightarrow> int \<times> print_buf" where
  "printf mem fmt ap s = (let (r, out) = vsprintf_callback mem fmt ap in (r, fold printf_buf_puts out s))"

definition putchar :: "char \<Rightarrow> print_buf \<Rightarrow> print_buf" where
  "putchar ch s = s\<lparr>pb_writes := pb_writes s @ [takeWhile (\<lambda>c. c \<noteq> CHR 0x00) [ch]]\<rparr>"

definition puts :: "string \<Rightarrow> print_buf \<Rightarrow> print_buf" where
  "puts str s = s\<lparr>pb_writes := pb_writes s @ [str]\<rparr>"

section \<open>Digits and their value\<close>

definition hex_value :: "char \<Rightarrow> nat" where
  "hex_value c = (if of_char c < (97::nat) then of_char c - 48 else of_char c - 87)"

lemma hex_value_char_of_digit: "d < 16 \<Longrightarrow> hex_value (char_of_digit d) = d"
  by (auto simp: hex_value_def char_of_digit_def)

lemma digit_char: "d < 10 \<Longrightarrow> is_digit (char_of_digit d)" "d < 10 \<Longrightarrow> digit_value (char_of_digit d) = d"
  by (auto simp: is_digit_def digit_value_def char_of_digit_def less_eq_char_def)

lemma digits_loop_append: "digits_loop b n buf = digits_loop b n [] @ buf"
proof (induction n arbitrary: buf rule: less_induct)
  case (less n)
  show ?case
  proof (cases "n = 0 \<or> b < 2")
    case False
    then have "n div b < n" by simp
    with False less [of "n div b" "char_of_digit (n mod b) # buf"] less [of "n div b" "[char_of_digit (n mod b)]"] show ?thesis
      by (simp add: digits_loop.simps [of b n])
  qed (simp add: digits_loop.simps)
qed

lemma digits_loop_step: "0 < n \<Longrightarrow> 2 \<le> b \<Longrightarrow> digits_loop b n [] = digits_loop b (n div b) [] @ [char_of_digit (n mod b)]"
  by (subst digits_loop.simps) (simp add: digits_loop_append [of b _ "[_]"])

lemma digits_loop_0: "digits_loop b 0 buf = buf" by (simp add: digits_loop.simps)

text \<open>What the digits of a number are: the value comes back, none is superfluous, and \<open>k\<close> digits suffice.\<close>

lemma digits_loop_value:
  assumes "2 \<le> b" "\<And>d. d < b \<Longrightarrow> val (char_of_digit d) = d"
  shows "fold (\<lambda>c v. v * b + val c) (digits_loop b n []) 0 = n"
proof (induction n rule: less_induct)
  case (less n)
  show ?case
  proof (cases "n = 0")
    case False
    have "val (char_of_digit (n mod b)) = n mod b" using assms by simp
    moreover have "fold (\<lambda>c v. v * b + val c) (digits_loop b (n div b) []) 0 = n div b" using assms False by (intro less) simp
    ultimately show ?thesis using False assms(1) by (simp add: digits_loop_step)
  qed (simp add: digits_loop_0)
qed

lemma digits_loop_set: "2 \<le> b \<Longrightarrow> c \<in> set (digits_loop b n []) \<Longrightarrow> \<exists>d<b. c = char_of_digit d"
proof (induction n rule: less_induct)
  case (less n)
  show ?case
  proof (cases "n = 0")
    case False
    then have "c \<in> set (digits_loop b (n div b) []) \<or> c = char_of_digit (n mod b)" "n mod b < b" "n div b < n"
      using less.prems by (auto simp: digits_loop_step)
    then show ?thesis using less.IH [of "n div b"] less.prems(1) by blast
  qed (use less in \<open>simp add: digits_loop_0\<close>)
qed

lemma digits_loop_length: "2 \<le> b \<Longrightarrow> n < b ^ k \<Longrightarrow> length (digits_loop b n []) \<le> k"
proof (induction k arbitrary: n)
  case (Suc k)
  then have "n div b < b ^ k" by (simp add: div_less_iff_less_mult mult.commute)
  with Suc show ?case by (cases "n = 0") (auto simp: digits_loop_step digits_loop_0)
qed (simp add: digits_loop_0)

lemma char_of_digit_0: "d < 16 \<Longrightarrow> char_of_digit d = CHR ''0'' \<longleftrightarrow> d = 0"
proof -
  have "char_of_digit 0 = CHR ''0''" by code_simp
  moreover assume "d < 16"
  ultimately show ?thesis using hex_value_char_of_digit [of d] hex_value_char_of_digit [of 0] by auto
qed

lemma digits_loop_hd: "2 \<le> b \<Longrightarrow> b \<le> 16 \<Longrightarrow> 0 < n \<Longrightarrow> digits_loop b n [] \<noteq> [] \<and> hd (digits_loop b n []) \<noteq> CHR ''0''"
proof (induction n rule: less_induct)
  case (less n)
  show ?case
  proof (cases "n < b")
    case True
    then show ?thesis using less.prems by (simp add: digits_loop_step digits_loop_0 char_of_digit_0)
  next
    case False
    then have "digits_loop b (n div b) [] \<noteq> [] \<and> hd (digits_loop b (n div b) []) \<noteq> CHR ''0''"
      using less.prems by (intro less.IH) (auto simp: div_greater_zero_iff)
    then show ?thesis using less.prems by (simp add: digits_loop_step)
  qed
qed

lemma read_width_nat: "read_width ds = word_of_nat (fold (\<lambda>c v. v * 10 + digit_value c) ds 0)"
proof -
  have "fold (\<lambda>c sum. sum * 10 + word_of_nat (digit_value c)) ds (word_of_nat v) =
      (word_of_nat (fold (\<lambda>c v. v * 10 + digit_value c) ds v) :: u32)" for v
  proof (induction ds arbitrary: v)
    case (Cons c ds)
    have "word_of_nat v * 10 + word_of_nat (digit_value c) = (word_of_nat (v * 10 + digit_value c) :: u32)" by simp
    then show ?case by (simp only: fold_simps Cons)
  qed simp
  from this [of 0] show ?thesis by (simp add: read_width_def)
qed

lemma unat_lt_digits: "unat n < 10 ^ 10" "unat n < 16 ^ 8" for n :: u32
  using unsigned_less [of n, where 'a = nat] by simp_all

lemma unsign_decify_facts:
  "read_width (unsign_decify n) = n" "\<forall>c\<in>set (unsign_decify n). is_digit c" "unsign_decify n \<noteq> []"
  "hd (unsign_decify n) = CHR ''0'' \<longleftrightarrow> n = 0" "length (unsign_decify n) \<le> 10"
proof -
  have z: "is_digit (CHR ''0'')" "digit_value (CHR ''0'') = 0" by code_simp+
  have n: "0 < unat n" if "n \<noteq> 0" using that by (simp add: unat_gt_0)
  show "read_width (unsign_decify n) = n" using digits_loop_value [of 10 digit_value "unat n"]
    by (auto simp: unsign_decify_def read_width_nat digit_char digits_loop_0 z)
  have "is_digit c" if "c \<in> set (digits_loop 10 (unat n) [])" for c using digits_loop_set [OF _ that] digit_char(1) by auto
  then show "\<forall>c\<in>set (unsign_decify n). is_digit c" by (auto simp: unsign_decify_def digits_loop_0 z)
  show "unsign_decify n \<noteq> []" "hd (unsign_decify n) = CHR ''0'' \<longleftrightarrow> n = 0" using digits_loop_hd [of 10 "unat n"] n
    by (cases "n = 0"; force simp: unsign_decify_def digits_loop_0)+
  show "length (unsign_decify n) \<le> 10" using digits_loop_length [of 10 "unat n" 10] unat_lt_digits [of n]
    by (simp add: unsign_decify_def digits_loop_0)
qed

lemma hexify_facts:
  "fold (\<lambda>c v. v * 16 + hex_value c) (hexify n) 0 = unat n" "hexify n \<noteq> []" "length (hexify n) \<le> 8"
proof -
  have z: "hex_value (CHR ''0'') = 0" by code_simp
  show "fold (\<lambda>c v. v * 16 + hex_value c) (hexify n) 0 = unat n" using digits_loop_value [of 16 hex_value "unat n"]
    by (auto simp: hexify_def hex_value_char_of_digit digits_loop_0 z)
  show "hexify n \<noteq> []" using digits_loop_hd [of 16 "unat n"]
    by (cases "n = 0") (auto simp: hexify_def digits_loop_0 unat_gt_0)
  show "length (hexify n) \<le> 8" using digits_loop_length [of 16 "unat n" 8] unat_lt_digits [of n]
    by (simp add: hexify_def digits_loop_0)
qed

lemma sign_decify_cases:
  "0 \<le> sint n \<Longrightarrow> sign_decify n = unsign_decify n"
  "sint n < 0 \<Longrightarrow> n \<noteq> 0x80000000 \<Longrightarrow> sign_decify n = CHR ''-'' # unsign_decify (- n)"
  "sign_decify 0x80000000 = ''-''"
proof -
  show "sign_decify 0x80000000 = ''-''" by (simp add: sign_decify_def)
  have pos: "0 < sint m \<longleftrightarrow> m \<noteq> 0" if "0 \<le> sint m" for m :: u32
    using that by (metis order_le_imp_less_or_eq signed_0 signed_eq_0_iff less_irrefl)
  then show "0 \<le> sint n \<Longrightarrow> sign_decify n = unsign_decify n"
    by (auto simp: sign_decify_def unsign_decify_def Let_def digits_loop_0)
  show "sign_decify n = CHR ''-'' # unsign_decify (- n)" if "sint n < 0" "n \<noteq> 0x80000000"
  proof -
    have "sint n \<noteq> - (2 ^ 31)"
    proof
      assume "sint n = - (2 ^ 31)"
      have "n = word_of_int (sint n)" by simp
      also have "\<dots> = 0x80000000" unfolding \<open>sint n = - (2 ^ 31)\<close> by simp
      finally show False using that(2) by contradiction
    qed
    then have "- (2 ^ 31) \<le> - sint n" "- sint n < 2 ^ 31" using sint_ge [of n] that(1) by auto
    then have "signed_take_bit 31 (- sint n) = - sint n" by (intro signed_take_bit_int_eq_self) simp_all
    then have "sint (word_of_int (- sint n) :: u32) = - sint n" by (simp only: sint_sbintrunc') simp
    then have "sint (- n) = - sint n" by simp
    then show ?thesis using pos [of "- n"] that(1) by (auto simp: sign_decify_def unsign_decify_def Let_def digits_loop_0)
  qed
qed

section \<open>Numbers in fields\<close>

lemma analyse_flags:
  "analyse_format (ds @ c # r) = analyse_loop (ds @ c # r) init_format"
  "analyse_format (CHR ''-'' # cs) = analyse_loop cs (init_format\<lparr>left_align := True\<rparr>)"
  "analyse_format (CHR ''0'' # cs) = analyse_loop cs (init_format\<lparr>zero_pad := True\<rparr>)"
  by (simp_all add: analyse_format_def init_format_def)

lemma analyse_width:
  assumes "\<forall>d\<in>set ds. is_digit d" "ds \<noteq> []" "hd ds \<noteq> CHR ''0''" "c \<in> set ''diuxcsp''" "width f = DEFAULT_WIDTH"
  shows "analyse_loop (ds @ c # r) f = (f\<lparr>width := read_width ds, specifier := c\<rparr>, c # r)"
proof -
  obtain d es where ds: "ds = d # es" using assms(2) by (cases ds) auto
  have "\<forall>x\<in>set ''diuxcsp-l''. \<not> is_digit x" by code_simp
  then have c: "\<not> is_digit c" "d \<notin> set ''diuxcsp-l''" using assms(1,4) ds by auto
  then have t: "dropWhile is_digit (es @ c # r) = c # r" "takeWhile is_digit (es @ c # r) = es"
    using assms(1) ds by (auto simp: dropWhile_append takeWhile_append)
  have "analyse_loop (ds @ c # r) f = analyse_loop (c # r) (f\<lparr>width := read_width ds\<rparr>)"
    using assms(1,3,5) c(2) by (simp add: ds t)
  then show ?thesis using assms(4) by simp
qed

text \<open>The text of a field at least \<open>w\<close> wide: blanks on the left, on the right, or zeros behind the sign.\<close>

definition field :: "string \<Rightarrow> nat \<Rightarrow> string \<Rightarrow> string" where
  "field flag w s =
     (let gap = w - length s; sign = takeWhile (\<lambda>c. c = CHR ''-'') s; digits = dropWhile (\<lambda>c. c = CHR ''-'') s in
      if flag = ''-'' then s @ replicate gap (CHR '' '')
      else if flag = ''0'' then sign @ replicate gap (CHR ''0'') @ digits
      else replicate gap (CHR '' '') @ s)"

definition number_text :: "char \<Rightarrow> u32 \<Rightarrow> string" where
  "number_text c n = (if c = CHR ''d'' then sign_decify n else if c = CHR ''u'' then unsign_decify n else hexify n)"

definition one_conversion :: "string \<Rightarrow> u32 \<Rightarrow> char \<Rightarrow> string" where
  "one_conversion flag w c = ''%'' @ flag @ unsign_decify w @ [c]"

lemma analyse_conversion:
  assumes "flag \<in> {[], ''-'', ''0''}" "c \<in> set ''dux''" "w \<noteq> 0"
  shows "analyse_format (flag @ unsign_decify w @ [c]) =
    (init_format\<lparr>left_align := flag = ''-'', zero_pad := flag = ''0'', width := w, specifier := c\<rparr>, [c])"
proof -
  note w = unsign_decify_facts [of w]
  have "analyse_loop (unsign_decify w @ [c]) f = (f\<lparr>width := w, specifier := c\<rparr>, [c])" if "width f = DEFAULT_WIDTH" for f
    using analyse_width [OF w(2,3), of c f "[]"] w(1,4) assms(2,3) that by auto
  from this [of init_format] this [of "init_format\<lparr>left_align := True\<rparr>"] this [of "init_format\<lparr>zero_pad := True\<rparr>"] assms(1)
  show ?thesis by (auto simp: analyse_flags analyse_flags(1) [of "unsign_decify w" c "[]"] init_format_def)
qed

lemma gap_word:
  fixes w :: u32
  assumes "0 < sint w" "n < 2 ^ 31"
  shows "word_of_nat n < w \<longleftrightarrow> n < unat w"
    "n < unat w \<Longrightarrow> out_pad c (w - word_of_nat n) = (int (unat w - n), replicate (unat w - n) c)"
proof -
  have n: "unat (word_of_nat n :: u32) = n" using assms(2) by (simp add: unat_of_nat)
  then show "word_of_nat n < w \<longleftrightarrow> n < unat w" by (simp add: word_less_nat_alt)
  assume l: "n < unat w"
  have "signed_take_bit 31 (uint w) \<le> uint w - 2 ^ 32" if "2 ^ 31 \<le> uint w" using signed_take_bit_int_less_eq [of 31 "uint w"] that by simp
  moreover have "uint w < 2 ^ 32" "sint w = signed_take_bit 31 (uint w)" using uint_bounded [of w] by (simp_all add: sint_uint)
  ultimately have "uint w < 2 ^ 31" using assms(1) by linarith
  then have "signed_take_bit 31 (uint w) = uint w" by (intro signed_take_bit_int_eq_self order_trans [OF _ uint_ge_0 [of w]]) simp_all
  then have w: "sint w = int (unat w)" by (simp add: sint_uint)
  have "w - word_of_nat n = word_of_int (int (unat w - n))" using l by (simp add: of_nat_diff)
  moreover have "signed_take_bit 31 (int (unat w - n)) = int (unat w - n)"
  proof (rule signed_take_bit_int_eq_self)
    have "int (unat w) < 2 ^ 31" using sint_lt [of w] by (simp only: w) simp
    then show "int (unat w - n) < 2 ^ 31" by linarith
  qed (rule order_trans [OF _ of_nat_0_le_iff], simp)
  ultimately have "sint (w - word_of_nat n) = int (unat w - n)" by (simp only: sint_sbintrunc') simp
  then show "out_pad c (w - word_of_nat n) = (int (unat w - n), replicate (unat w - n) c)" by (simp only: out_pad_def nat_int)
qed

lemma sign_of_text:
  "takeWhile (\<lambda>c. c = CHR ''-'') (unsign_decify n) = []" "dropWhile (\<lambda>c. c = CHR ''-'') (unsign_decify n) = unsign_decify n"
  "hd (unsign_decify n) \<noteq> CHR ''-''"
proof -
  obtain d ds where d: "unsign_decify n = d # ds" using unsign_decify_facts(3) [of n] by (cases "unsign_decify n") auto
  have "\<not> is_digit (CHR ''-'')" by code_simp
  then have "d \<noteq> CHR ''-''" using unsign_decify_facts(2) [of n] d by auto
  then show "takeWhile (\<lambda>c. c = CHR ''-'') (unsign_decify n) = []" "dropWhile (\<lambda>c. c = CHR ''-'') (unsign_decify n) = unsign_decify n"
    "hd (unsign_decify n) \<noteq> CHR ''-''" using d by simp_all
qed

lemma pad_number_field:
  assumes "0 < sint (width f)" "length s < 2 ^ 31" "takeWhile (\<lambda>c. c = CHR ''-'') s = []"
    and "left_align f = (flag = ''-'')" "zero_pad f = (flag = ''0'')"
  shows "pad_number f s = (int (length (field flag (unat (width f)) s)), field flag (unat (width f)) s)"
proof -
  have "dropWhile (\<lambda>c. c = CHR ''-'') s = s" using assms(3) by (cases s) (auto split: if_splits)
  then show ?thesis using assms(3-5)
    by (auto simp: pad_number_def field_def Let_def gap_word [OF assms(1,2)] out_str_def then_out_def)
qed

lemma pad_signed_field:
  fixes n :: u32
  assumes "0 < sint (width f)" and "left_align f = (flag = ''-'')" "zero_pad f = (flag = ''0'')"
  defines "s \<equiv> sign_decify n"
  shows "pad_signed f s = (int (length (field flag (unat (width f)) s)) -
    (if sint n < 0 \<and> flag \<noteq> ''-'' \<and> length s < unat (width f) then 1 else 0), field flag (unat (width f)) s)"
proof (cases "sint n < 0")
  case False
  then have s: "s = unsign_decify n" by (simp add: s_def sign_decify_cases)
  have "length s < 2 ^ 31" using unsign_decify_facts(5) [of n] s by simp
  moreover have "pad_signed f s = pad_number f s"
    using sign_of_text(3) [of n] unsign_decify_facts(3) [of n]
    by (auto simp: pad_signed_def pad_number_def s Let_def split: list.splits)
  ultimately show ?thesis using pad_number_field [OF assms(1) _ _ assms(2,3), of s] sign_of_text(1) [of n] False s by simp
next
  case True
  define ds where "ds = (if n = 0x80000000 then [] else unsign_decify (- n))"
  have s: "s = CHR ''-'' # ds" using True by (simp add: s_def ds_def sign_decify_cases)
  have l: "length s < 2 ^ 31" using unsign_decify_facts(5) [of "- n"] by (simp add: s ds_def)
  have "takeWhile (\<lambda>c. c = CHR ''-'') ds = []" "dropWhile (\<lambda>c. c = CHR ''-'') ds = ds"
    using sign_of_text [of "- n"] by (simp_all add: ds_def)
  then have t: "takeWhile (\<lambda>c. c = CHR ''-'') s = ''-''" "dropWhile (\<lambda>c. c = CHR ''-'') s = ds" "tl s = ds"
    "length ds = length s - 1" "0 < length s" "(case s of c # _ \<Rightarrow> c = CHR ''-'' | [] \<Rightarrow> False)" "CHR ''-'' # ds = s"
    by (simp_all add: s)
  show ?thesis using assms(2,3) True t(5)
    by (auto simp: pad_signed_def field_def Let_def gap_word [OF assms(1) l] t(1-4,6,7) out_str_def then_out_def)
      (simp add: of_nat_diff Suc_le_eq)
qed


text \<open>
  Numbers as text (vsprintf.cpp, \<^verbatim>\<open>unsign_decify\<close>, \<^verbatim>\<open>hexify\<close>, \<^verbatim>\<open>sign_decify\<close>, against the reader of
  widths in \<^verbatim>\<open>analyse_format\<close>).  For every 32-bit number the decimal text consists of digits, is never
  longer than ten characters, starts with 0 only for the number 0, and the code's own reader of decimal
  numbers gives the number back; the hexadecimal text has at most eight characters and denotes the number.
  A signed number is the decimal text of its absolute value behind its sign, except for the smallest one,
  whose text is a bare minus sign.
\<close>

theorem number_text_roundtrip:
  "read_width (unsign_decify n) = n \<and> list_all is_digit (unsign_decify n) \<and> unsign_decify n \<noteq> [] \<and>
    length (unsign_decify n) \<le> 10 \<and> (hd (unsign_decify n) = CHR ''0'' \<longleftrightarrow> n = 0) \<and>
    fold (\<lambda>c v. v * 16 + hex_value c) (hexify n) 0 = unat n \<and> hexify n \<noteq> [] \<and> length (hexify n) \<le> 8 \<and>
    sign_decify n = (if 0 \<le> sint n then unsign_decify n else if n = 0x80000000 then ''-'' else CHR ''-'' # unsign_decify (- n))"
  using unsign_decify_facts [of n] hexify_facts [of n] sign_decify_cases(1,2) [of n] sign_decify_cases(3)
  by (auto simp: not_le list_all_iff)

text \<open>
  \<^bold>\<open>C38\<close>: Numbers in fields (vsprintf.cpp, \<^verbatim>\<open>vsprintf_callback\<close> on a conversion with a width).  A format of
  a percent sign, no flag or one of \<^verbatim>\<open>-\<close> and \<^verbatim>\<open>0\<close>, a positive width in decimal and one of the conversions
  \<^verbatim>\<open>d\<close>, \<^verbatim>\<open>u\<close>, \<^verbatim>\<open>x\<close> writes the first argument as a field of that width at least: never cut off, filled up
  with blanks on the left or on the right, or with zeros between sign and digits.  The result counts the
  characters, but one too few for a negative number that is filled up on the left.
\<close>

theorem number_fields:
  fixes flag :: string and c :: char and w :: u32 and ap :: va_list
  assumes "flag \<in> {[], ''-'', ''0''}" and "c \<in> set ''dux''" and "0 < sint w"
  defines "text \<equiv> number_text c (ap 0)"
  defines "out \<equiv> field flag (unat w) text"
  shows "vsprintf_callback mem (one_conversion flag w c) ap =
      (int (length out) - (if c = CHR ''d'' \<and> sint (ap 0) < 0 \<and> flag \<noteq> ''-'' \<and> length text < unat w then 1 else 0), out) \<and>
    length out = max (unat w) (length text)"
proof -
  let ?f = "init_format\<lparr>left_align := flag = ''-'', zero_pad := flag = ''0'', width := w, specifier := c\<rparr>"
  have "hd (flag @ unsign_decify w @ [c]) \<noteq> CHR ''%''"
  proof -
    have "\<not> is_digit (CHR ''%'')" by code_simp
    then have "hd (unsign_decify w) \<noteq> CHR ''%''" using unsign_decify_facts(2,3) [of w] hd_in_set [of "unsign_decify w"] by metis
    then show ?thesis using assms(1) unsign_decify_facts(3) [of w] by (auto simp: hd_append)
  qed
  moreover have "w \<noteq> 0" using assms(3) by auto
  ultimately have v: "vsprintf_callback mem (one_conversion flag w c) ap = then_out (0, []) (varg_to_callback mem ?f (ap 0))"
    using analyse_conversion [OF assms(1,2)] by (simp add: vsprintf_callback_def one_conversion_def init_format_def)
  have h: "takeWhile (\<lambda>c. c = CHR ''-'') (hexify n) = []" "length (hexify n) < 2 ^ 31" for n
  proof -
    have "c \<noteq> CHR ''-''" if "c \<in> set (hexify n)" for c
    proof -
      have "\<forall>d\<in>set [0..<16]. char_of_digit d \<noteq> CHR ''-''" by code_simp
      then show ?thesis using that digits_loop_set [of 16 c "unat n"] by (auto simp: hexify_def digits_loop_0 split: if_splits)
    qed
    then show "takeWhile (\<lambda>c. c = CHR ''-'') (hexify n) = []" by (cases "hexify n") auto
    show "length (hexify n) < 2 ^ 31" using hexify_facts(3) [of n] by simp
  qed
  have u: "length (unsign_decify n) < 2 ^ 31" for n using unsign_decify_facts(5) [of n] by simp
  have f: "left_align ?f = (flag = ''-'')" "zero_pad ?f = (flag = ''0'')" "0 < sint (width ?f)" using assms(3) by simp_all
  note n = pad_number_field [OF f(3) h(2) h(1) f(1,2)] pad_number_field [OF f(3) u sign_of_text(1) f(1,2)] pad_signed_field [OF f(3,1,2)]
  have "vsprintf_callback mem (one_conversion flag w c) ap =
      (int (length out) - (if c = CHR ''d'' \<and> sint (ap 0) < 0 \<and> flag \<noteq> ''-'' \<and> length text < unat w then 1 else 0), out)"
    using assms(2) n by (auto simp: v varg_to_callback_def then_out_def out_def text_def number_text_def)
  moreover have "length (takeWhile (\<lambda>c. c = CHR ''-'') text) + length (dropWhile (\<lambda>c. c = CHR ''-'') text) = length text"
    by (metis length_append takeWhile_dropWhile_id)
  then have "length out = max (unat w) (length text)" by (auto simp: out_def field_def Let_def)
  ultimately show ?thesis by blast
qed

theorem number_fields_witness:
  "(\<forall>mem. vsprintf_callback mem (one_conversion ''0'' 8 (CHR ''x'')) (\<lambda>_. 0) = (8, ''00000000'')) \<and>
    length (field ''0'' 8 ''0'') = max 8 1"
proof -
  have "unat (8 :: u32) = 8" by simp
  moreover have "number_text (CHR ''x'') 0 = ''0''" by (simp add: number_text_def hexify_def digits_loop_0)
  moreover have "field ''0'' 8 ''0'' = ''00000000''" by code_simp
  ultimately show ?thesis using number_fields [where flag = "''0''" and c = "CHR ''x''" and w = 8 and ap = "\<lambda>_. 0"] by simp
qed

section \<open>What printf writes\<close>

lemma buf_puts_ok:
  assumes "length (pb_buf s) < 64" "CHR 0x0A \<notin> set (pb_buf s)" "CHR 0x00 \<notin> set (c # pb_buf s)"
  defines "s' \<equiv> printf_buf_puts c s"
  shows "length (pb_buf s') < 64" "CHR 0x0A \<notin> set (pb_buf s')" "CHR 0x00 \<notin> set (pb_buf s')"
    "concat (pb_writes s') @ pb_buf s' = concat (pb_writes s) @ pb_buf s @ [c]" "c = CHR 0x0A \<Longrightarrow> pb_buf s' = []"
    "\<exists>ws. pb_writes s' = pb_writes s @ ws \<and> (\<forall>w\<in>set ws. w \<noteq> [] \<and> length w \<le> 64)"
proof -
  have "takeWhile (\<lambda>c. c \<noteq> CHR 0x00) (pb_buf s @ [c]) = pb_buf s @ [c]" using assms(3) by (auto simp: takeWhile_eq_all_conv)
  then show "length (pb_buf s') < 64" "CHR 0x0A \<notin> set (pb_buf s')" "CHR 0x00 \<notin> set (pb_buf s')"
    "concat (pb_writes s') @ pb_buf s' = concat (pb_writes s) @ pb_buf s @ [c]" "c = CHR 0x0A \<Longrightarrow> pb_buf s' = []"
    "\<exists>ws. pb_writes s' = pb_writes s @ ws \<and> (\<forall>w\<in>set ws. w \<noteq> [] \<and> length w \<le> 64)"
    using assms(1-3) by (auto simp: s'_def printf_buf_puts_def Let_def)
qed

lemma fold_buf_puts:
  assumes "length (pb_buf s) < 64" "CHR 0x0A \<notin> set (pb_buf s)" "CHR 0x00 \<notin> set (out @ pb_buf s)"
  defines "s' \<equiv> fold printf_buf_puts out s"
  shows "length (pb_buf s') < 64 \<and> CHR 0x0A \<notin> set (pb_buf s') \<and>
    concat (pb_writes s') @ pb_buf s' = concat (pb_writes s) @ pb_buf s @ out \<and>
    (\<exists>ws. pb_writes s' = pb_writes s @ ws \<and> (\<forall>w\<in>set ws. w \<noteq> [] \<and> length w \<le> 64)) \<and>
    (out \<noteq> [] \<and> last out = CHR 0x0A \<longrightarrow> pb_buf s' = [])"
  using assms(1-3) unfolding s'_def
proof (induction out arbitrary: s)
  case (Cons c out)
  note b = buf_puts_ok [of s c]
  have n: "CHR 0x00 \<notin> set (c # pb_buf s)" using Cons.prems(3) by simp
  note b = b [OF Cons.prems(1,2) n]
  have "CHR 0x00 \<notin> set (out @ pb_buf (printf_buf_puts c s))" using b(3) Cons.prems(3) by simp
  note ih = Cons.IH [OF b(1,2) this]
  obtain ws ws' where "pb_writes (printf_buf_puts c s) = pb_writes s @ ws" "\<forall>w\<in>set ws. w \<noteq> [] \<and> length w \<le> 64"
    "pb_writes (fold printf_buf_puts out (printf_buf_puts c s)) = (pb_writes s @ ws) @ ws'" "\<forall>w\<in>set ws'. w \<noteq> [] \<and> length w \<le> 64"
    using b(6) ih by metis
  then have "\<exists>ws. pb_writes (fold printf_buf_puts (c # out) s) = pb_writes s @ ws \<and> (\<forall>w\<in>set ws. w \<noteq> [] \<and> length w \<le> 64)"
    by (intro exI [of _ "ws @ ws'"]) auto
  moreover have "pb_buf (fold printf_buf_puts (c # out) s) = []" if "last (c # out) = CHR 0x0A"
    using that ih b(5) by (cases "out = []") auto
  moreover have "concat (pb_writes (fold printf_buf_puts (c # out) s)) @ pb_buf (fold printf_buf_puts (c # out) s) =
      concat (pb_writes s) @ pb_buf s @ c # out"
    using ih b(4) by (metis append.assoc append_Cons append_Nil fold_simps(2))
  ultimately show ?case using ih by simp
qed simp

text \<open>
  \<^bold>\<open>C39\<close>: The output of \<^verbatim>\<open>printf\<close> (stdio.cpp, \<^verbatim>\<open>printf\<close> and \<^verbatim>\<open>printf_buf_puts\<close>; vsprintf.cpp).  As long as no
  NUL character is printed, what has been handed to \<^verbatim>\<open>write\<close> followed by what waits in the buffer is the text
  of all calls in their order; every call of \<^verbatim>\<open>write\<close> gets between 1 and 64 characters, fewer than 64 wait
  afterwards and none of them is a newline, and after a text that ends with a newline nothing waits.
\<close>

theorem printf_delivers:
  assumes "length (pb_buf s) < 64" and "CHR 0x0A \<notin> set (pb_buf s)" and "CHR 0x00 \<notin> set (out @ pb_buf s)"
    and "vsprintf_callback mem fmt ap = (r, out)" and "printf mem fmt ap s = (r', s')"
  shows "r' = r \<and> concat (pb_writes s') @ pb_buf s' = concat (pb_writes s) @ pb_buf s @ out \<and>
    (\<exists>ws. pb_writes s' = pb_writes s @ ws \<and> (\<forall>w\<in>set ws. w \<noteq> [] \<and> length w \<le> 64)) \<and>
    length (pb_buf s') < 64 \<and> CHR 0x0A \<notin> set (pb_buf s') \<and> (out \<noteq> [] \<and> last out = CHR 0x0A \<longrightarrow> pb_buf s' = [])"
  using fold_buf_puts [OF assms(1-3)] assms(4,5) by (auto simp: printf_def)

theorem printf_delivers_witness:
  "printf (\<lambda>_. []) ''a%cb'' (\<lambda>_. 10) \<lparr>pb_buf = ''x'', pb_writes = []\<rparr> = (3, \<lparr>pb_buf = ''b'', pb_writes = [''xa\<newline>'']\<rparr>) \<and>
    concat [''xa\<newline>''] @ ''b'' = ''xa\<newline>b''"
proof -
  let ?mem = "\<lambda>_ :: u32. [] :: char list"
  let ?s = "\<lparr>pb_buf = ''x'', pb_writes = []\<rparr>"
  have "char_of (10 :: nat) = CHR 0x0A" by code_simp
  then have v: "vsprintf_callback ?mem ''a%cb'' (\<lambda>_. 10) = (3, ''a\<newline>b'')"
    by (simp add: vsprintf_callback_def analyse_format_def init_format_def varg_to_callback_def then_out_def)
  have p: "printf ?mem ''a%cb'' (\<lambda>_. 10) ?s = (3, \<lparr>pb_buf = ''b'', pb_writes = [''xa\<newline>'']\<rparr>)"
    by (simp add: printf_def v printf_buf_puts_def)
  show ?thesis using p printf_delivers [of ?s "''a\<newline>b''" ?mem "''a%cb''" "\<lambda>_. 10", OF _ _ _ v p] by simp
qed

end
