(* ===== verification/System_Calls.thy ===== *)
theory System_Calls
  imports Program_Family Fault_Effects Interrupts Format_Print
begin

text \<open>
  System calls: the numbers of \<^verbatim>\<open>include/libc/enum.h\<close>, the table and the handlers of
  \<^verbatim>\<open>src/kernel/system_service.cpp\<close>, the entry \<^verbatim>\<open>asm_system_call_handler\<close> and the user's side in
  \<^verbatim>\<open>src/libc/syscall.cpp\<close>.  What the kernel reads through a pointer of the program (a string, a buffer, an
  argument vector) is an argument of the model, and what it writes there is part of the result.
\<close>

section \<open>Numbers and table\<close>

datatype SyscallType = SYS_GETPID | SYS_GETPPID | SYS_FORK | SYS_EXIT | SYS_WAIT | SYS_EXEC | SYS_EXEC_ARGV | SYS_EXECFUNC
  | SYS_YIELD | SYS_SLEEP | SYS_OPEN | SYS_READ | SYS_WRITE | SYS_CLOSE | SYS_FDREAD | SYS_FDWRITE | SYS_FDAPPEND
  | SYS_CREATE_FILE | SYS_REMOVE_FILE | SYS_FSEEK | SYS_SYNC | SYS_MKDIR | SYS_RMDIR | SYS_FD_DUMP | SYS_CHDIR | SYS_GETCWD
  | SYS_LS | SYS_MOVE_CURSOR | SYS_PTE_DUMP | SYS_PA_DUMP | SYS_EXPANDHEAP

primrec syscall_number :: "SyscallType \<Rightarrow> nat" where
  "syscall_number SYS_GETPID = 0"
| "syscall_number SYS_GETPPID = 1"
| "syscall_number SYS_FORK = 2"
| "syscall_number SYS_EXIT = 3"
| "syscall_number SYS_WAIT = 4"
| "syscall_number SYS_EXEC = 5"
| "syscall_number SYS_EXEC_ARGV = 6"
| "syscall_number SYS_EXECFUNC = 7"
| "syscall_number SYS_YIELD = 8"
| "syscall_number SYS_SLEEP = 9"
| "syscall_number SYS_OPEN = 10"
| "syscall_number SYS_READ = 11"
| "syscall_number SYS_WRITE = 12"
| "syscall_number SYS_CLOSE = 13"
| "syscall_number SYS_FDREAD = 14"
| "syscall_number SYS_FDWRITE = 15"
| "syscall_number SYS_FDAPPEND = 16"
| "syscall_number SYS_CREATE_FILE = 17"
| "syscall_number SYS_REMOVE_FILE = 18"
| "syscall_number SYS_FSEEK = 19"
| "syscall_number SYS_SYNC = 20"
| "syscall_number SYS_MKDIR = 21"
| "syscall_number SYS_RMDIR = 22"
| "syscall_number SYS_FD_DUMP = 23"
| "syscall_number SYS_CHDIR = 24"
| "syscall_number SYS_GETCWD = 25"
| "syscall_number SYS_LS = 26"
| "syscall_number SYS_MOVE_CURSOR = 27"
| "syscall_number SYS_PTE_DUMP = 28"
| "syscall_number SYS_PA_DUMP = 29"
| "syscall_number SYS_EXPANDHEAP = 30"

datatype handler = syscall_getpid | syscall_getppid | syscall_fork | syscall_exit | syscall_wait | syscall_yield | syscall_write
  | syscall_read | syscall_open | syscall_close | syscall_fdread | syscall_fdwrite | syscall_fdappend | syscall_create_file
  | syscall_remove_file | syscall_fseek | syscall_sync | syscall_mkdir | syscall_rmdir | syscall_fd_dump | syscall_chdir
  | syscall_getcwd | syscall_ls | syscall_move_cursor | syscall_pte_dump | syscall_pa_dump | syscall_execve | syscall_execveArgv
  | syscall_execveFunc | syscall_expandHeap

type_synonym call_table = "nat \<Rightarrow> handler option"

definition MAX_SYSTEM_CALL :: nat where "MAX_SYSTEM_CALL = 256"

definition setSystemCall :: "SyscallType \<Rightarrow> handler \<Rightarrow> call_table \<Rightarrow> call_table" where
  "setSystemCall index function t = t(syscall_number index := Some function)"

definition SS_initialize :: "u32 \<Rightarrow> InterruptManager \<Rightarrow> call_table \<times> InterruptManager" where
  "SS_initialize system_call_entry im =
     (fold (\<lambda>(n, h). setSystemCall n h)
        [(SYS_GETPID, syscall_getpid), (SYS_GETPPID, syscall_getppid), (SYS_FORK, syscall_fork), (SYS_EXIT, syscall_exit),
         (SYS_WAIT, syscall_wait), (SYS_YIELD, syscall_yield), (SYS_WRITE, syscall_write), (SYS_READ, syscall_read),
         (SYS_OPEN, syscall_open), (SYS_CLOSE, syscall_close), (SYS_FDREAD, syscall_fdread), (SYS_FDWRITE, syscall_fdwrite),
         (SYS_FDAPPEND, syscall_fdappend), (SYS_CREATE_FILE, syscall_create_file), (SYS_REMOVE_FILE, syscall_remove_file),
         (SYS_FSEEK, syscall_fseek), (SYS_SYNC, syscall_sync), (SYS_MKDIR, syscall_mkdir), (SYS_RMDIR, syscall_rmdir),
         (SYS_FD_DUMP, syscall_fd_dump), (SYS_CHDIR, syscall_chdir), (SYS_GETCWD, syscall_getcwd), (SYS_LS, syscall_ls),
         (SYS_MOVE_CURSOR, syscall_move_cursor), (SYS_PTE_DUMP, syscall_pte_dump), (SYS_PA_DUMP, syscall_pa_dump),
         (SYS_EXEC, syscall_execve), (SYS_EXEC_ARGV, syscall_execveArgv), (SYS_EXECFUNC, syscall_execveFunc),
         (SYS_EXPANDHEAP, syscall_expandHeap)] (\<lambda>_. None),
      setInterruptDescriptor 0x80 system_call_entry 3 im)"

text \<open>
  The numbers 0 to 30 have a handler, but for that of \<^verbatim>\<open>SYS_SLEEP\<close>; the gate can be used by programs.
\<close>

lemma call_entry: "n \<in> set [0..<31] \<Longrightarrow> fst (SS_initialize e im) n \<noteq> None \<longleftrightarrow> n \<noteq> syscall_number SYS_SLEEP"
  unfolding SS_initialize_def setSystemCall_def by (simp add: upt_rec) (elim disjE, simp_all)

lemma call_no_entry: "31 \<le> n \<Longrightarrow> fst (SS_initialize e im) n = None"
  unfolding SS_initialize_def setSystemCall_def by simp

lemma system_call_numbers: "fst (SS_initialize e im) n \<noteq> None \<longleftrightarrow> n < 31 \<and> n \<noteq> syscall_number SYS_SLEEP"
  using call_entry [of n e im] call_no_entry [of n e im] by (cases "n < 31") (simp_all add: not_less)

lemma system_call_gate: "gate 0x80 (snd (SS_initialize e im)) = interrupt_gate e 3"
  by (simp add: SS_initialize_def gate_set)

section \<open>Handlers\<close>

text \<open>
  The memory of the program as the kernel sees it, the address of the table of open files, and the hand-overs while
  \<^verbatim>\<open>read\<close> waits for the keyboard.
\<close>

record user =
  str_at :: "u32 \<Rightarrow> cstr"
  bytes_at :: "u32 \<Rightarrow> bytes"
  argv_at :: "u32 \<Rightarrow> nat \<Rightarrow> cstr option"
  table_at :: u32
  key_waits :: "(KeyboardManager \<times> Screen \<Rightarrow> KeyboardManager \<times> Screen) list"

definition buf_at :: "user \<Rightarrow> u32 \<Rightarrow> bytes option" where
  "buf_at u a = (if a = 0 then None else Some (bytes_at u a))"

datatype user_write = Bytes u32 "u8 list" | Word u32 u32 | Entries u32 "LsEntry list"

text \<open>
  The call returns a value and what it wrote; the program is gone or has a new image; it is taken up again
  later; \<^verbatim>\<open>waitpid\<close> searches again when it is taken up.
\<close>

datatype outcome = Result u32 "user_write list" | Gone | Yielded | Again

definition plain :: "(int \<times> OS) option \<Rightarrow> (outcome \<times> OS) option" where
  "plain r = map_option (\<lambda>(n, os). (Result (word_of_int n) [], os)) r"

text \<open>A file operation on a path; all of them refuse a null pointer.\<close>

definition on_path :: "user \<Rightarrow> u32 \<Rightarrow> (cstr \<Rightarrow> FileManager \<Rightarrow> (int \<times> FileManager) option) \<Rightarrow> OS \<Rightarrow> (outcome \<times> OS) option" where
  "on_path u a f os = (if a = 0 then Some (Result (- 1) [], os) else plain (with_fm (f (str_at u a)) os))"

definition do_read :: "user \<Rightarrow> u32 \<Rightarrow> u32 \<Rightarrow> u32 \<Rightarrow> OS \<Rightarrow> (outcome \<times> OS) option" where
  "do_read u fd p sz os = do {
     ((n, out), os) \<leftarrow> with_io (\<lambda>io. map_option (\<lambda>(n, out, io). ((n, out), io)) (fm_read (sint fd) (buf_at u p) sz (key_waits u) io)) os;
     Some (Result (word_of_int n) (case out of Some b \<Rightarrow> if 0 < n then [Bytes p (map b [0..<unat sz])] else [] | None \<Rightarrow> []), os)
   }"

definition do_write :: "user \<Rightarrow> u32 \<Rightarrow> u32 \<Rightarrow> u32 \<Rightarrow> OS \<Rightarrow> (outcome \<times> OS) option" where
  "do_write u fd p sz os =
     plain (with_io (\<lambda>(fm, k, s). map_option (\<lambda>(n, fm, s). (n, fm, k, s)) (fm_write (sint fd) (buf_at u p) sz (fm, s))) os)"

definition do_getcwd :: "user \<Rightarrow> u32 \<Rightarrow> u32 \<Rightarrow> OS \<Rightarrow> outcome" where
  "do_getcwd u p sz os =
     (let (n, out) = fm_getcwd (buf_at u p) (sint sz) (fm_of os)
      in Result (word_of_int n) (case out of Some b \<Rightarrow> if 0 \<le> n then [Bytes p (map b [0..<nat n + 1])] else [] | None \<Rightarrow> []))"

definition do_ls :: "user \<Rightarrow> u32 \<Rightarrow> u32 \<Rightarrow> u32 \<Rightarrow> OS \<Rightarrow> (outcome \<times> OS) option" where
  "do_ls u path entries n os =
     (if path = 0 \<or> entries = 0 then Some (Result (- 1) [], os)
      else do {
        ((r, es), os) \<leftarrow> with_fm (\<lambda>fm. map_option (\<lambda>(r, es, fm). ((r, es), fm)) (fm_ls (str_at u path) (sint n) fm)) os;
        Some (Result (word_of_int r) (if 0 < r then [Entries entries es] else []), os)
      })"

definition kprintf :: "string \<Rightarrow> va_list \<Rightarrow> OS \<Rightarrow> OS" where
  "kprintf fmt ap os = os\<lparr>os_screen := fold (\<lambda>c. print_char (of_char c)) (snd (vsprintf_callback (\<lambda>_. []) fmt ap)) (os_screen os)\<rparr>"

definition SIZEOF_OPENFILE :: u32 where "SIZEOF_OPENFILE = 16"

text \<open>
  \<^verbatim>\<open>dump_fd\<close> prints the entry behind a descriptor.  The root of a file system has no inode, so that printing it
  reads through a null pointer.
\<close>

definition dump_fd :: "u32 \<Rightarrow> int \<Rightarrow> OS \<Rightarrow> (int \<times> OS) option" where
  "dump_fd tbl fd os =
     (case run os of
        None \<Rightarrow> Some (- 1, os)
      | Some r \<Rightarrow>
          if fd < 0 \<or> int MAX_FD_COUNT \<le> fd then Some (- 1, os)
          else
            let file = fd_table (p_fs (pcbs os r)) (nat fd) in
            case fd_openfile file of
              None \<Rightarrow> Some (- 1, os)
            | Some i \<Rightarrow>
                let openfile = openfile_table (os_fm os) i;
                    node = (case of_node openfile of None \<Rightarrow> 0 | Some (s, k) \<Rightarrow> inodes_addr (inodepool (fileSystems (os_fm os) s)) + word_of_nat k * SIZEOF_INODE);
                    os = kprintf (''[fd_dump] fd=%d offset=%d openfile=0x%x type=%d ref=%d attr=0x%x node=0x%x'' @ [CHR 0x0A])
                      (\<lambda>k. [word_of_int fd, fd_offset file, tbl + word_of_nat i * SIZEOF_OPENFILE, if of_type openfile = FXT12 then 0 else 1,
                            word_of_int (of_refcount openfile), word_of_int (of_attr openfile), node] ! k) os
                in if of_type openfile = FXT12 then do {
                     n \<leftarrow> of_node openfile;
                     let node = node_of (os_fm os) n;
                     Some (0, kprintf (''[fd_dump] fat12 size=%d start_cluster=%d parent_cluster=%d attr=0x%x inode_ref=%d'' @ [CHR 0x0A])
                       (\<lambda>k. [ino_size node, ucast (ino_start_cluster node), ucast (parent_dir_start_cluster node), ucast (ino_attr node),
                             refcount node] ! k) os)
                   }
                   else Some (- 1, os))"

text \<open>\<^verbatim>\<open>syscall_pte_dump\<close> logs the entry that maps an address, through the temporary mapping.\<close>

definition pte_dump :: "u32 \<Rightarrow> OS \<Rightarrow> (int \<times> OS) option" where
  "pte_dump vaddr os =
     (if run os = None then Some (- 1, os)
      else with_mm (\<lambda>s. do {
        d \<leftarrow> load (toPDE vaddr) s;
        if d AND PTE_PRESENT = 0 then Some (0, s)
        else do {
          (tmp, s) \<leftarrow> mapTemp KERNEL (d AND PTE_GET_ADDRESS) s;
          if tmp = 0 then Some (- 1, s)
          else do {
            _ \<leftarrow> load (tmp + (drop_bit 12 vaddr AND 0x3ff) * 4) s;
            s \<leftarrow> unmapTemp KERNEL s;
            Some (0, s)
          }
        }
      }) os)"

definition pa_dump :: "OS \<Rightarrow> OS option" where
  "pa_dump os = do {
     k \<leftarrow> PAddressPool_dump (kernelPhysical (os_mm os));
     let os = kprintf (''Kernel Physical Avail Pages: %d'' @ [CHR 0x0A]) (\<lambda>_. k) os;
     p \<leftarrow> PAddressPool_dump (userPhysical (os_mm os));
     Some (kprintf (''User Physical Avail Pages: %d'' @ [CHR 0x0A]) (\<lambda>_. p) os)
   }"

definition do_wait :: "u32 \<Rightarrow> u32 \<Rightarrow> OS \<Rightarrow> (outcome \<times> OS) option" where
  "do_wait pid retval os = do {
     (w, os) \<leftarrow> waitpid (sint pid) os;
     Some (case w of
         Returns n v \<Rightarrow> Result (word_of_int n) (case v of Some x \<Rightarrow> if retval \<noteq> 0 then [Word retval x] else [] | None \<Rightarrow> [])
       | Waits \<Rightarrow> Again, os)
   }"

definition do_exec :: "user \<Rightarrow> u32 \<Rightarrow> (nat \<Rightarrow> cstr option) option \<Rightarrow> int \<Rightarrow> OS \<Rightarrow> (outcome \<times> OS) option" where
  "do_exec u path argv mode os =
     (if mode = 0 \<and> path = 0 then Some (Result (- 1) [], os)
      else do {
        (r, os) \<leftarrow> execve (str_at u path) path argv mode os;
        Some (case r of Some n \<Rightarrow> Result (word_of_int n) [] | None \<Rightarrow> Gone, os)
      })"

fun handle :: "user \<Rightarrow> handler \<Rightarrow> u32 \<Rightarrow> u32 \<Rightarrow> u32 \<Rightarrow> OS \<Rightarrow> (outcome \<times> OS) option" where
  "handle u syscall_getpid a b c os = do { r \<leftarrow> getpid os; Some (Result (ucast r) [], os) }"
| "handle u syscall_getppid a b c os = do { r \<leftarrow> getppid os; Some (Result (ucast r) [], os) }"
| "handle u syscall_fork a b c os = plain (fork os)"
| "handle u syscall_exit a b c os = do { os \<leftarrow> exit a os; Some (Gone, os) }"
| "handle u syscall_wait a b c os = do_wait a b os"
| "handle u syscall_yield a b c os = do { os \<leftarrow> schedule os; Some (Yielded, os) }"
| "handle u syscall_write a b c os = do_write u a b c os"
| "handle u syscall_read a b c os = do_read u a b c os"
| "handle u syscall_open a b c os = on_path u a fm_open os"
| "handle u syscall_close a b c os = plain (with_fm (fm_close (sint a)) os)"
| "handle u syscall_fdread a b c os = do_read u a b c os"
| "handle u syscall_fdwrite a b c os = do_write u a b c os"
| "handle u syscall_fdappend a b c os = plain (with_fm (fm_append (sint a) (buf_at u b) c) os)"
| "handle u syscall_create_file a b c os = on_path u a fm_create_file os"
| "handle u syscall_remove_file a b c os = on_path u a fm_remove_file os"
| "handle u syscall_fseek a b c os = plain (with_fm (fm_fseek (sint a) b c) os)"
| "handle u syscall_sync a b c os = plain (with_fm (\<lambda>fm. map_option (Pair 0) (fm_sync_all fm)) os)"
| "handle u syscall_mkdir a b c os = on_path u a fm_mkdir os"
| "handle u syscall_rmdir a b c os = on_path u a fm_rmdir os"
| "handle u syscall_fd_dump a b c os = plain (dump_fd (table_at u) (sint a) os)"
| "handle u syscall_chdir a b c os = on_path u a fm_chdir os"
| "handle u syscall_getcwd a b c os = Some (do_getcwd u a b os, os)"
| "handle u syscall_ls a b c os = do_ls u a b c os"
| "handle u syscall_move_cursor a b c os = Some (Result 0 [], os\<lparr>os_screen := moveCursor_xy (unat a) (unat b) (os_screen os)\<rparr>)"
| "handle u syscall_pte_dump a b c os = plain (pte_dump a os)"
| "handle u syscall_pa_dump a b c os = do { os \<leftarrow> pa_dump os; Some (Result 0 [], os) }"
| "handle u syscall_execve a b c os = do_exec u a None 0 os"
| "handle u syscall_execveArgv a b c os = do_exec u a (if b = 0 then None else Some (argv_at u b)) 0 os"
| "handle u syscall_execveFunc a b c os = do_exec u a None 1 os"
| "handle u syscall_expandHeap a b c os = do {
     (r, os) \<leftarrow> with_mm (allocatePagesLazy USER (sint a) (VP_USER OR VP_RW) HEAP) os;
     Some (Result r [], os)
   }"

section \<open>The entry\<close>

record registers =
  eax :: u32
  ebx :: u32
  ecx :: u32
  edx :: u32

text \<open>
  \<^verbatim>\<open>asm_system_call_handler\<close>: the handler runs with interrupts enabled.  The number is not checked: an
  empty entry or a number behind the table makes the processor jump somewhere, which is \<^const>\<open>None\<close>.
\<close>

definition system_call :: "call_table \<Rightarrow> user \<Rightarrow> registers \<Rightarrow> OS \<Rightarrow> (outcome \<times> OS) option" where
  "system_call t u r os =
     (if unat (eax r) < MAX_SYSTEM_CALL then do {
        h \<leftarrow> t (unat (eax r));
        (res, os) \<leftarrow> handle u h (ebx r) (ecx r) (edx r) (os\<lparr>interrupts := True\<rparr>);
        Some (res, os\<lparr>interrupts := False\<rparr>)
      }
      else None)"

end
