(* ===== verification/Kernel_Invariant.thy ===== *)
theory Kernel_Invariant
  imports System_Calls
begin

text \<open>
  The whole kernel under system calls, timer interrupts, page faults and key strokes: the table of programs
  stays in order, the counts of open files agree with the descriptors of the programs that exist, and a program
  that has exited keeps its value until its parent has asked for it, as long as neither of two calls that break the
  tables is made (\<open>broken\<close>).
\<close>

section \<open>Descriptors of all programs\<close>

definition fs_of :: "OS \<Rightarrow> nat \<Rightarrow> Process" where
  "fs_of os p = p_fs (pcbs os p)"

definition no_fds :: "Process \<Rightarrow> bool" where
  "no_fds q \<longleftrightarrow> process_ok q \<and> (\<forall>i. fds_on q i = {})"

text \<open>A slot that is not in use holds no reference to an open file.\<close>

definition files_core :: "OS \<Rightarrow> bool" where
  "files_core os \<longleftrightarrow> refs_ok (fs_of os) (os_fm os) \<and> (\<forall>p<MAX_PROGRAM_AMOUNT. \<not> PCB_SET_STATUS os p \<longrightarrow> no_fds (fs_of os p))"

definition files_ok :: "OS \<Rightarrow> bool" where
  "files_ok os \<longleftrightarrow> files_core os \<and> (\<exists>r<MAX_PROGRAM_AMOUNT. run os = Some r \<and> PCB_SET_STATUS os r)"

lemmas files_defs = files_ok_def files_core_def

text \<open>What the invariant looks at.\<close>

definition fs_same :: "OS \<Rightarrow> OS \<Rightarrow> bool" where
  "fs_same os os' \<longleftrightarrow> fs_of os' = fs_of os \<and> os_fm os' = os_fm os \<and> PCB_SET_STATUS os' = PCB_SET_STATUS os \<and> run os' = run os"

lemma files_ok_same: "files_ok os \<Longrightarrow> fs_same os os' \<Longrightarrow> files_ok os'"
  by (simp add: files_defs fs_same_def)

lemma fs_same_refl [simp]: "fs_same os os"
  by (simp add: fs_same_def)

lemma fs_same_trans: "fs_same a b \<Longrightarrow> fs_same b c \<Longrightarrow> fs_same a c"
  by (simp add: fs_same_def)

lemma fs_same_upd [simp]:
  "(\<And>c. p_fs (f c) = p_fs c) \<Longrightarrow> fs_same os (upd_pcb p f os)" "fs_same os (set_status p st os)"
  "fs_same os (os\<lparr>links := k\<rparr>)" "fs_same os (os\<lparr>interrupts := i\<rparr>)" "fs_same os (os\<lparr>os_mm := m\<rparr>)" "fs_same os (os\<lparr>os_screen := s\<rparr>)"
  "fs_same os (os\<lparr>os_keyboard := kb, os_screen := s\<rparr>)" "fs_same os (os\<lparr>os_keyboard := kb\<rparr>)" "fs_same os (os\<lparr>esp0 := e\<rparr>)"
  by (simp_all add: fs_same_def fs_of_def fun_eq_iff upd_pcb_def set_status_def)

lemma put_mm_same [simp]: "fs_same os (put_mm mm os)"
  by (auto simp: fs_same_def put_mm_def fs_of_def upd_pcb_def fun_eq_iff split: option.split)

section \<open>Computations that keep the invariant\<close>

definition filely :: "(OS \<Rightarrow> bool) \<Rightarrow> ('a \<times> OS) option \<Rightarrow> bool" where
  "filely Q m \<longleftrightarrow> (\<forall>a os'. m = Some (a, os') \<longrightarrow> Q os')"

definition filely1 :: "(OS \<Rightarrow> bool) \<Rightarrow> OS option \<Rightarrow> bool" where
  "filely1 Q m \<longleftrightarrow> (\<forall>os'. m = Some os' \<longrightarrow> Q os')"

named_theorems file_intros

lemma filelyD: "filely Q m \<Longrightarrow> m = Some (a, os') \<Longrightarrow> Q os'" "filely1 Q m' \<Longrightarrow> m' = Some os' \<Longrightarrow> Q os'"
  by (simp_all add: filely_def filely1_def)

lemma filely_bind [file_intros]:
  "filely files_ok m \<Longrightarrow> (\<And>a os1. files_ok os1 \<Longrightarrow> filely Q (k a os1)) \<Longrightarrow> filely Q (m \<bind> case_prod k)"
  "filely1 files_ok m1 \<Longrightarrow> (\<And>os1. files_ok os1 \<Longrightarrow> filely Q (k1 os1)) \<Longrightarrow> filely Q (m1 \<bind> k1)"
  "filely files_ok m \<Longrightarrow> (\<And>a os1. files_ok os1 \<Longrightarrow> filely1 Q (k2 a os1)) \<Longrightarrow> filely1 Q (m \<bind> case_prod k2)"
  "filely1 files_ok m1 \<Longrightarrow> (\<And>os1. files_ok os1 \<Longrightarrow> filely1 Q (k3 os1)) \<Longrightarrow> filely1 Q (m1 \<bind> k3)"
  unfolding filely_def filely1_def by (auto simp: bind_eq_Some_conv)

lemma filely_pure:
  "(\<And>x. e = Some x \<Longrightarrow> filely Q (k x)) \<Longrightarrow> filely Q (e \<bind> k)"
  "(\<And>x. e = Some x \<Longrightarrow> filely1 Q (k' x)) \<Longrightarrow> filely1 Q (e \<bind> k')"
  unfolding filely_def filely1_def by (auto simp: bind_eq_Some_conv)

lemma filely_simple [file_intros]:
  "Q os1 \<Longrightarrow> filely Q (Some (a, os1))" "Q os1 \<Longrightarrow> filely1 Q (Some os1)" "filely Q None" "filely1 Q None"
  "(b \<Longrightarrow> filely Q m) \<Longrightarrow> (\<not> b \<Longrightarrow> filely Q m') \<Longrightarrow> filely Q (if b then m else m')"
  "(b \<Longrightarrow> filely1 Q n) \<Longrightarrow> (\<not> b \<Longrightarrow> filely1 Q n') \<Longrightarrow> filely1 Q (if b then n else n')"
  "(\<And>x y. z = (x, y) \<Longrightarrow> filely Q (f x y os1)) \<Longrightarrow> filely Q (case_prod f z os1)"
  "(\<And>x y. z = (x, y) \<Longrightarrow> filely Q (g x y)) \<Longrightarrow> filely Q (case_prod g z)"
  "filely Q (h v) \<Longrightarrow> filely Q (Let v h)" "filely1 Q (h' v) \<Longrightarrow> filely1 Q (Let v h')"
  by (simp_all add: filely_def filely1_def Let_def split: prod.split)

lemma files_core_ok [file_intros]: "files_ok os \<Longrightarrow> files_core os"
  by (simp add: files_ok_def)

lemma files_ok_upd [file_intros]:
  "files_ok os \<Longrightarrow> files_ok (os\<lparr>interrupts := i\<rparr>)" "files_ok os \<Longrightarrow> files_ok (os\<lparr>links := k\<rparr>)" "files_ok os \<Longrightarrow> files_ok (set_status p st os)"
  "files_ok os \<Longrightarrow> files_ok (os\<lparr>os_mm := m\<rparr>)" "files_ok os \<Longrightarrow> files_ok (os\<lparr>os_screen := s\<rparr>)"
  "files_ok os \<Longrightarrow> (\<And>c. p_fs (f c) = p_fs c) \<Longrightarrow> files_ok (upd_pcb p f os)" "files_ok os \<Longrightarrow> files_ok (put_mm mm os)"
  by (erule files_ok_same, simp)+

lemma with_mm_files [file_intros]:
  "files_ok os \<Longrightarrow> filely files_ok (with_mm f os)" "files_ok os \<Longrightarrow> filely1 files_ok (run_mm g os)"
  by (auto simp: filely_def filely1_def with_mm_def run_mm_def intro: file_intros)

section \<open>File operations of the running program\<close>

text \<open>A file operation that keeps the counts, whichever process is the current one.\<close>

definition counts_kept :: "FileManager \<Rightarrow> FileManager \<Rightarrow> bool" where
  "counts_kept fm fm' \<longleftrightarrow> (\<forall>P p. p < MAX_PROGRAM_AMOUNT \<and> current fm = Some (P p) \<and> refs_ok P fm \<longrightarrow>
     (\<exists>q. current fm' = Some q \<and> refs_ok (P(p := q)) fm'))"

lemma counts_kept_refl [simp]: "counts_kept fm fm"
  unfolding counts_kept_def by (metis fun_upd_triv)

lemma counts_kept_trans: "counts_kept a b \<Longrightarrow> counts_kept b c \<Longrightarrow> counts_kept a c"
proof -
  assume ab: "counts_kept a b" and bc: "counts_kept b c"
  have "\<exists>q. current c = Some q \<and> refs_ok (P(p := q)) c" if h: "p < MAX_PROGRAM_AMOUNT" "current a = Some (P p)" "refs_ok P a" for P p
  proof -
    obtain q where q: "current b = Some q" "refs_ok (P(p := q)) b" using ab h unfolding counts_kept_def by blast
    then have "current b = Some ((P(p := q)) p)" by simp
    then obtain q' where "current c = Some q'" "refs_ok ((P(p := q))(p := q')) c" using bc h(1) q(2) unfolding counts_kept_def by blast
    then show ?thesis by auto
  qed
  then show ?thesis unfolding counts_kept_def by blast
qed

lemma keeps_counts: "keeps fm fm' \<Longrightarrow> counts_kept fm fm'"
  unfolding counts_kept_def keeps_def using refs_ok_same by blast

lemma counts_keptI: "(\<And>P p. p < MAX_PROGRAM_AMOUNT \<Longrightarrow> current fm = Some (P p) \<Longrightarrow> refs_ok P fm \<Longrightarrow> \<exists>q. current fm' = Some q \<and> refs_ok (P(p := q)) fm') \<Longrightarrow> counts_kept fm fm'"
  unfolding counts_kept_def by blast

lemma keeps_countsI: "(table_ok fm \<Longrightarrow> keeps fm fm') \<Longrightarrow> counts_kept fm fm'"
  using keeps_counts refs_table_ok unfolding counts_kept_def by blast

lemma calls_keep_counts:
  "fm_open path fm = Some (r, fm') \<Longrightarrow> counts_kept fm fm'"
  "fm_close fd fm = Some (r, fm') \<Longrightarrow> counts_kept fm fm'"
  "fm_read fd out sz waits (fm, k, s) = Some (r, out', fm', k', s') \<Longrightarrow> counts_kept fm fm'"
  "fm_write fd out sz (fm, s) = Some (r, fm', s') \<Longrightarrow> counts_kept fm fm'"
  "fm_append fd out sz fm = Some (r, fm') \<Longrightarrow> counts_kept fm fm'"
  "fm_fseek fd bias whence fm = Some (r, fm') \<Longrightarrow> counts_kept fm fm'"
  "fm_create_file path fm = Some (r, fm') \<Longrightarrow> counts_kept fm fm'"
  "fm_remove_file path fm = Some (r, fm') \<Longrightarrow> counts_kept fm fm'"
  "fm_mkdir path fm = Some (r, fm') \<Longrightarrow> counts_kept fm fm'"
  "fm_rmdir path fm = Some (r, fm') \<Longrightarrow> counts_kept fm fm'"
  "fm_chdir path fm = Some (r, fm') \<Longrightarrow> counts_kept fm fm'"
  "fm_ls path n fm = Some (r, es, fm') \<Longrightarrow> counts_kept fm fm'"
  "fm_sync_all fm = Some fm' \<Longrightarrow> counts_kept fm fm'"
proof -
  show "fm_open path fm = Some (r, fm') \<Longrightarrow> counts_kept fm fm'" by (blast intro: counts_keptI open_refs)
  show "fm_close fd fm = Some (r, fm') \<Longrightarrow> counts_kept fm fm'"
    by (rule counts_keptI) (auto simp: fm_close_def bind_eq_Some_conv refs_current dest: close_refs)
qed (simp_all add: fm_create_file_def fm_remove_file_def fm_mkdir_def fm_rmdir_def keeps_countsI
      read_keeps write_keeps append_keeps fseek_keeps in_parent_keeps chdir_keeps ls_keeps sync_keeps)

text \<open>A computation over files, keyboard and screen.\<close>

definition io_keeps :: "(io \<Rightarrow> ('a \<times> io) option) \<Rightarrow> bool" where
  "io_keeps f \<longleftrightarrow> (\<forall>fm k s a fm' k' s'. f (fm, k, s) = Some (a, fm', k', s') \<longrightarrow> counts_kept fm fm')"


lemma refs_put:
  assumes ok: "files_ok os" and r: "run os = Some r" and k: "counts_kept ((os_fm os)\<lparr>current := Some (fs_of os r)\<rparr>) fm"
  shows "\<exists>q. current fm = Some q \<and> files_ok (upd_pcb r (\<lambda>c. c\<lparr>p_fs := q\<rparr>) (os\<lparr>os_fm := fm\<rparr>))"
proof -
  have "r < MAX_PROGRAM_AMOUNT" "PCB_SET_STATUS os r" using ok r by (auto simp: files_defs)
  moreover have "refs_ok (fs_of os) ((os_fm os)\<lparr>current := Some (fs_of os r)\<rparr>)" using ok by (simp add: files_defs refs_current)
  ultimately obtain q where q: "current fm = Some q" "refs_ok ((fs_of os)(r := q)) fm" using k unfolding counts_kept_def by fastforce
  let ?os = "upd_pcb r (\<lambda>c. c\<lparr>p_fs := q\<rparr>) (os\<lparr>os_fm := fm\<rparr>)"
  have "fs_of ?os = (fs_of os)(r := q)" "os_fm ?os = fm" "PCB_SET_STATUS ?os = PCB_SET_STATUS os" "run ?os = run os"
    by (simp_all add: fs_of_def upd_pcb_def fun_eq_iff)
  then have "files_ok ?os" using q(2) ok \<open>PCB_SET_STATUS os r\<close> by (auto simp: files_defs)
  then show ?thesis using q(1) by blast
qed

lemma with_io_files [file_intros]:
  assumes "files_ok os" and "io_keeps f"
  shows "filely files_ok (with_io f os)"
  unfolding filely_def
proof (intro allI impI)
  fix a os' assume x: "with_io f os = Some (a, os')"
  obtain r where r: "run os = Some r" using assms(1) by (auto simp: files_defs)
  have c: "fm_of os = (os_fm os)\<lparr>current := Some (fs_of os r)\<rparr>" by (simp add: fm_of_def r fs_of_def)
  obtain fm k s where f: "f (fm_of os, os_keyboard os, os_screen os) = Some (a, fm, k, s)" "os' = (put_fm fm os)\<lparr>os_keyboard := k, os_screen := s\<rparr>"
    using x by (auto simp: with_io_def map_option_eq_Some)
  have "counts_kept ((os_fm os)\<lparr>current := Some (fs_of os r)\<rparr>) fm" using assms(2) f(1) unfolding io_keeps_def c by blast
  from refs_put [OF assms(1) r this] obtain q where q: "current fm = Some q" "files_ok (upd_pcb r (\<lambda>c. c\<lparr>p_fs := q\<rparr>) (os\<lparr>os_fm := fm\<rparr>))" by blast
  then have "files_ok (put_fm fm os)" by (simp add: put_fm_def r)
  then show "files_ok os'" unfolding f(2) by (rule files_ok_same) simp
qed

lemma with_fm_files [file_intros]:
  assumes "files_ok os" and "\<And>fm a fm'. f fm = Some (a, fm') \<Longrightarrow> counts_kept fm fm'"
  shows "filely files_ok (with_fm f os)"
  unfolding filely_def
proof (intro allI impI)
  fix a os' assume x: "with_fm f os = Some (a, os')"
  obtain r where r: "run os = Some r" using assms(1) by (auto simp: files_defs)
  obtain fm where f: "f ((os_fm os)\<lparr>current := Some (fs_of os r)\<rparr>) = Some (a, fm)"
    using x by (auto simp: with_fm_def map_option_eq_Some r fs_of_def)
  from refs_put [OF assms(1) r assms(2) [OF f]] show "files_ok os'"
    using x f by (auto simp: with_fm_def r fs_of_def)
qed

text \<open>The operations of the ELF reader.\<close>

lemma io_keepsI: "(\<And>fm k s a fm' k' s'. f (fm, k, s) = Some (a, fm', k', s') \<Longrightarrow> counts_kept fm fm') \<Longrightarrow> io_keeps f"
  unfolding io_keeps_def by blast

lemma io_keeps_bind:
  assumes "io_keeps f" and "\<And>a. io_keeps (g a)"
  shows "io_keeps (\<lambda>io. f io \<bind> (\<lambda>(a, io). g a io))"
  unfolding io_keeps_def
proof (intro allI impI)
  fix fm k s a fm' k' s'
  assume "f (fm, k, s) \<bind> (\<lambda>(a, io). g a io) = Some (a, fm', k', s')"
  then obtain b fm1 k1 s1 where "f (fm, k, s) = Some (b, fm1, k1, s1)" "g b (fm1, k1, s1) = Some (a, fm', k', s')"
    by (auto simp: bind_eq_Some_conv)
  then show "counts_kept fm fm'" using assms unfolding io_keeps_def by (blast intro: counts_kept_trans)
qed

lemma io_keeps_simple [file_intros]:
  "io_keeps (\<lambda>io. Some (x, io))" "io_keeps (\<lambda>io. None)" "io_keeps f \<Longrightarrow> io_keeps g \<Longrightarrow> io_keeps (\<lambda>io. if b then f io else g io)"
  by (auto simp: io_keeps_def)

lemma io_ops_keep [file_intros]:
  "io_keeps (io_seek fd pos)" "io_keeps (io_struct fd sz)" "io_keeps (\<lambda>io. map_option (Pair x) (io_close fd io))"
  "io_keeps (\<lambda>io. map_option (\<lambda>(n, out, io). ((n, out), io)) (fm_read fd o' sz w io))"
  by (auto intro!: io_keepsI simp: io_seek_def io_struct_def io_close_def bind_eq_Some_conv map_option_eq_Some dest: calls_keep_counts split: prod.splits)


lemma read_image_keeps: "io_keeps (read_image fd)"
proof -
  have ph: "counts_kept fm fm'" if "phdr_loop fd off n i conf m (fm, k, s) = Some (ok, conf', m', fm', k', s')" for off n i conf m fm k s ok conf' m' fm' k' s'
    using that
  proof (induction n arbitrary: i conf m fm k s)
    case (Suc n)
    obtain r fm1 k1 s1 where 1: "io_seek fd (off + word_of_nat i * SIZEOF_PHDR) (fm, k, s) = Some (r, fm1, k1, s1)"
      using Suc.prems by (auto simp: bind_eq_Some_conv)
    have k1: "counts_kept fm fm1" using io_ops_keep(1) 1 unfolding io_keeps_def by blast
    show ?case
    proof (cases "r < 0")
      case True
      then show ?thesis using Suc.prems 1 k1 by simp
    next
      case False
      then obtain b fm2 k2 s2 where 2: "io_struct fd SIZEOF_PHDR (fm1, k1, s1) = Some (b, fm2, k2, s2)"
        using Suc.prems 1 by (auto simp: bind_eq_Some_conv)
      have "counts_kept fm1 fm2" using io_ops_keep(2) 2 unfolding io_keeps_def by blast
      then have k2: "counts_kept fm fm2" using k1 counts_kept_trans by blast
      show ?thesis using Suc.prems False 1 2 k2 by (auto split: option.splits prod.splits if_splits dest!: Suc.IH intro: counts_kept_trans)
    qed
  qed auto
  have cl: "counts_kept fm fm'" if "io_close fd (fm, k, s) = Some (fm', k', s')" for fm k s fm' k' s'
    using that by (auto simp: io_close_def bind_eq_Some_conv dest: calls_keep_counts(2))
  have st: "counts_kept fm fm'" if "io_struct fd sz (fm, k, s) = Some (b, fm', k', s')" for sz fm k s b fm' k' s'
    using that io_ops_keep(2) unfolding io_keeps_def by blast
  have ef: "counts_kept fm fm'" if "elf_fail fd conf (fm, k, s) = Some (a, fm', k', s')" for conf fm k s a fm' k' s'
    using that cl by (auto simp: elf_fail_def bind_eq_Some_conv)
  show ?thesis
  proof (rule io_keepsI)
    fix fm k s a fm' k' s'
    assume x: "read_image fd (fm, k, s) = Some (a, fm', k', s')"
    obtain b fm1 k1 s1 where 1: "io_struct fd SIZEOF_EHDR (fm, k, s) = Some (b, fm1, k1, s1)"
      using x unfolding read_image_def Let_def by (cases "io_struct fd SIZEOF_EHDR (fm, k, s)") auto
    note step = counts_kept_trans [OF st [OF 1]]
    show "counts_kept fm fm'"
    proof (cases "\<exists>b'. b = Some b' \<and> ehdr_valid (Ehdr_of b')")
      case False
      then have "\<exists>io. io_close fd (fm1, k1, s1) = Some io \<and> io = (fm', k', s')"
        using x 1 unfolding read_image_def Let_def by (cases b) (auto simp: bind_eq_Some_conv)
      then show ?thesis using cl step by blast
    next
      case True
      then obtain b' where b': "b = Some b'" "ehdr_valid (Ehdr_of b')" by blast
      let ?c = "(zero_config\<lparr>source_fd := - 1\<rparr>)\<lparr>c_entry := e_entry (Ehdr_of b'), entry_in_kernel := 0, source_fd := fd\<rparr>"
      obtain ok c m fm2 k2 s2 where 2: "phdr_loop fd (e_phoff (Ehdr_of b')) (unat (e_phnum (Ehdr_of b'))) 0 ?c USER_VADDR_START (fm1, k1, s1) =
          Some (ok, c, m, fm2, k2, s2)"
        using x 1 b' unfolding read_image_def Let_def
        by (cases "phdr_loop fd (e_phoff (Ehdr_of b')) (unat (e_phnum (Ehdr_of b'))) 0 ?c USER_VADDR_START (fm1, k1, s1)") auto
      have k2: "counts_kept fm fm2" by (rule step) (rule ph [OF 2])
      have "(\<exists>c'. elf_fail fd c' (fm2, k2, s2) = Some (a, fm', k', s')) \<or> fm' = fm2"
        using x 1 b' 2 unfolding read_image_def Let_def by (auto split: if_split_asm)
      then show ?thesis using k2 ef counts_kept_trans by blast
    qed
  qed
qed

lemma parseELF_keeps [file_intros]: "io_keeps (parseELF filename)"
  using read_image_keeps unfolding parseELF_def io_keeps_def
  by (fastforce simp: bind_eq_Some_conv split: if_splits dest!: calls_keep_counts(1) intro: counts_kept_trans)

section \<open>Operations of the program manager\<close>

lemma close_image_files [file_intros]: "files_ok os \<Longrightarrow> filely1 files_ok (close_image conf os)"
  using filelyD(1) [OF with_io_files [OF _ io_ops_keep(3)]]
  by (auto simp: filely1_def close_image_def os_close_def map_option_eq_Some)

lemma load_image_files [file_intros]: "files_ok os \<Longrightarrow> filely files_ok (load_image filename addr mode os)"
  unfolding load_image_def by (auto intro!: file_intros simp: filely_def [of _ "map_option _ _"])

lemma load_segment_page_files [file_intros]: "files_ok os \<Longrightarrow> filely files_ok (load_segment_page fd sg v pa b os)"
  unfolding load_segment_page_def by (rule file_intros filely_pure | assumption)+

lemma pool_files [file_intros]:
  "files_ok os \<Longrightarrow> filely files_ok (init_pool p conf os)" "files_ok os \<Longrightarrow> filely1 files_ok (destroy_pool p os)"
  unfolding init_pool_def destroy_pool_def by (rule file_intros filely_pure | assumption | simp)+

lemma load_failed_files [file_intros]: "files_ok os \<Longrightarrow> filely files_ok (load_failed p conf b os)"
  unfolding load_failed_def by (rule file_intros filely_pure | assumption)+

lemma load_pages_files [file_intros]: "files_ok os \<Longrightarrow> filely files_ok (load_pages p conf b pgs os)"
proof (induction pgs arbitrary: os)
  case Nil
  then show ?case unfolding load_pages.simps by - (rule file_intros filely_pure | assumption)+
next
  case (Cons pg pgs)
  obtain sg v where "pg = (sg, v)" by fastforce
  then show ?case unfolding load_pages.simps \<open>pg = _\<close> using Cons.prems
    by - (rule file_intros filely_pure Cons.IH | assumption)+
qed

lemma createUserVirtualPool_files [file_intros]: "files_ok os \<Longrightarrow> filely files_ok (createUserVirtualPool p conf mode os)"
  unfolding createUserVirtualPool_def by (rule file_intros filely_pure | assumption)+

lemma destroy_space_files [file_intros]: "files_ok os \<Longrightarrow> filely1 files_ok (destroy_space p os)"
  unfolding destroy_space_def by (rule file_intros filely_pure | assumption | simp)+

lemma user_stack_files [file_intros]: "files_ok os \<Longrightarrow> filely1 files_ok (user_stack p os)"
  unfolding user_stack_def by (rule file_intros filely_pure | assumption)+

lemma load_process_files [file_intros]: "files_ok os \<Longrightarrow> filely1 files_ok (load_process ent os)"
  unfolding load_process_def by (rule file_intros filely_pure | assumption | simp)+

lemma enqueue_files [file_intros]: "files_ok os \<Longrightarrow> filely1 files_ok (enqueue p os)"
  by (auto simp: filely1_def dest!: enqueue_only_links intro: file_intros)


text \<open>The scheduler changes who runs, not what programs hold.\<close>

definition core_same :: "OS \<Rightarrow> OS \<Rightarrow> bool" where
  "core_same os os' \<longleftrightarrow> fs_of os' = fs_of os \<and> os_fm os' = os_fm os \<and> PCB_SET_STATUS os' = PCB_SET_STATUS os"

lemma files_core_same: "files_core os \<Longrightarrow> core_same os os' \<Longrightarrow> files_core os'"
  by (simp add: files_core_def core_same_def)

lemma core_same_trans: "core_same a b \<Longrightarrow> core_same b c \<Longrightarrow> core_same a c"
  by (simp add: core_same_def)

lemma core_same_upd [simp]:
  "core_same os os" "fs_same os os' \<Longrightarrow> core_same os os'" "core_same os (os\<lparr>run := r\<rparr>)"
  by (simp_all add: core_same_def fs_same_def fs_of_def fun_eq_iff)

lemma activate_same: "activateProgramPage n os = Some os' \<Longrightarrow> fs_same os os'"
  by (auto simp: activateProgramPage_def Let_def bind_eq_Some_conv fs_same_def fs_of_def fun_eq_iff split: if_splits)

lemma enqueue_same: "enqueue p os = Some os' \<Longrightarrow> fs_same os os'"
  by (auto dest!: enqueue_only_links)

lemma schedule_core: "schedule os = Some os' \<Longrightarrow> core_same os os'"
proof -
  assume x: "schedule os = Some os'"
  obtain c where c: "run os = Some c" using x by (auto simp: schedule_def bind_eq_Some_conv Let_def)
  obtain nxt k where p: "pickNext (os\<lparr>interrupts := False\<rparr>) = (nxt, os\<lparr>interrupts := False, links := k\<rparr>)"
    by (cases "sType os") (auto simp: pickNext_def RR_pickNext_def FIFS_pickNext_def Let_def)
  let ?o = "os\<lparr>interrupts := False, links := k\<rparr>"
  have o: "core_same os ?o" by (simp add: core_same_def fs_of_def fun_eq_iff)
  show ?thesis
  proof (cases nxt)
    case None
    then show ?thesis using x c p by (auto simp: schedule_def Let_def core_same_def fs_of_def fun_eq_iff split: if_splits)
  next
    case (Some n)
    let ?r = "set_status n RUNNING ?o"
    obtain o1 o2 where 1: "(if p_status (pcbs os c) \<noteq> DEAD then enqueue c (set_status c READY ?r) else Some ?r) = Some o1"
      and 2: "activateProgramPage n (o1\<lparr>run := Some n\<rparr>) = Some o2"
      and 3: "os' = switch_thread c n (interrupts os) (if needExecveReload (pcbs o2 n) then upd_pcb n (reload_stack o2) o2 else o2)"
      using x c p Some by (auto simp: schedule_def Let_def bind_eq_Some_conv split: if_splits)
    have "core_same ?o ?r" by simp
    moreover have "core_same ?r o1"
    proof (cases "p_status (pcbs os c) = DEAD")
      case False
      then have "fs_same (set_status c READY ?r) o1" using 1 enqueue_same by simp
      from core_same_upd(2) [OF fs_same_trans [OF fs_same_upd(2) this]] show ?thesis .
    qed (use 1 in simp)
    moreover have "core_same o1 o2" by (rule core_same_trans [OF _ core_same_upd(2) [OF activate_same [OF 2]]]) simp
    moreover have "core_same o2 os'" unfolding 3
      by (auto simp: switch_thread_def reload_stack_def Let_def core_same_def fs_of_def upd_pcb_def fun_eq_iff)
    ultimately show ?thesis using o core_same_trans by blast
  qed
qed

lemma schedule_files [file_intros]: "files_ok os \<Longrightarrow> filely1 files_core (schedule os)"
  using files_core_same [OF files_core_ok schedule_core] by (auto simp: filely1_def)

lemma schedule_then [file_intros]: "files_ok os \<Longrightarrow> filely files_core (schedule os \<bind> (\<lambda>os. Some (a, os)))"
  using files_core_same [OF files_core_ok schedule_core] by (auto simp: filely_def bind_eq_Some_conv)

section \<open>Slots\<close>

text \<open>The process of a slot is replaced by one without descriptors, and the slot is taken or given back.\<close>

lemma refs_ok_renew:
  assumes "refs_ok P fm" and "t < MAX_PROGRAM_AMOUNT" and "no_fds (P t)" and "no_fds q"
  shows "refs_ok (P(t := q)) fm"
proof -
  have "refs (P(t := q)) i = refs P i" for i using refs_upd [OF assms(2), of P q i] assms(3,4) by (simp add: no_fds_def)
  then show ?thesis using assms by (auto simp: refs_ok_def no_fds_def)
qed

lemma files_ok_renew:
  assumes ok: "files_ok os" and t: "t < MAX_PROGRAM_AMOUNT" "no_fds (fs_of os t)" "no_fds q"
    and o: "fs_of os' = (fs_of os)(t := q)" "os_fm os' = os_fm os" "run os' = run os"
    and b: "PCB_SET_STATUS os' = (PCB_SET_STATUS os)(t := b)" "b \<or> run os \<noteq> Some t"
  shows "files_ok os'"
proof -
  have "refs_ok (fs_of os') (os_fm os')" unfolding o by (rule refs_ok_renew) (use ok t in \<open>simp_all add: files_defs\<close>)
  then show ?thesis using ok t(3) o b by (auto simp: files_defs)
qed

lemma release_fs_files:
  assumes ok: "files_ok os" and p: "p < MAX_PROGRAM_AMOUNT" and x: "release_fs p os = Some os'"
  shows "files_ok os'" "no_fds (fs_of os' p)" "PCB_SET_STATUS os' = PCB_SET_STATUS os" "run os' = run os"
proof -
  obtain q fm where q: "release_process_fs (fs_of os p) (os_fm os) = Some (q, fm)"
    and o: "os' = upd_pcb p (\<lambda>c. c\<lparr>p_fs := q\<rparr>) (os\<lparr>os_fm := fm\<rparr>)"
    using x by (auto simp: release_fs_def bind_eq_Some_conv fs_of_def)
  have f: "fs_of os' = (fs_of os)(p := q)" "os_fm os' = fm" by (simp_all add: o fs_of_def upd_pcb_def fun_eq_iff)
  have r: "refs_ok ((fs_of os)(p := q)) fm" "\<forall>i. fds_on q i = {}"
    using release_refs [of "fs_of os" "os_fm os" p q fm] p q ok by (simp_all add: files_defs)
  have "process_ok q" using r(1) p by (auto simp: refs_ok_def)
  then have n: "no_fds q" using r(2) by (simp add: no_fds_def)
  then show "no_fds (fs_of os' p)" by (simp add: f)
  show s: "PCB_SET_STATUS os' = PCB_SET_STATUS os" "run os' = run os" by (simp_all add: o upd_pcb_def)
  show "files_ok os'" using ok r(1) n s f by (auto simp: files_defs)
qed

lemma with_mm_same: "with_mm f os = Some (a, os') \<Longrightarrow> fs_same os os'"
  by (auto simp: with_mm_def map_option_eq_Some)

lemma run_mm_same: "run_mm f os = Some os' \<Longrightarrow> fs_same os os'"
  by (auto simp: run_mm_def map_option_eq_Some dest: with_mm_same)

lemma on_links_same: "on_links f os = Some os' \<Longrightarrow> fs_same os os'"
  by (auto simp: on_links_def map_option_eq_Some)

lemma no_fds_simps: "no_fds (init_process_fs q)" "no_fds (p_fs zero_pcb)"
  using init_process_ok [of q] by (auto simp: no_fds_def zero_pcb_def process_ok_def fds_on_def zero_file_def)

lemma executeThread_files:
  assumes ok: "files_ok os" and x: "executeThread fn par nm prio q os = Some (r, os')"
  shows "files_ok os' \<and> (\<forall>t. r = int t \<longrightarrow> t < MAX_PROGRAM_AMOUNT \<and> PCB_SET_STATUS os' t \<and> no_fds (fs_of os' t) \<and> run os \<noteq> Some t)"
proof (cases "find (\<lambda>i. \<not> PCB_SET_STATUS os i) [0..<MAX_PROGRAM_AMOUNT]")
  case None
  then have "r = - 1" "os' = os\<lparr>interrupts := False\<rparr>" using x by (simp_all add: executeThread_def allocatePCB_def Let_def)
  then show ?thesis using ok by (auto intro: file_intros)
next
  case (Some t)
  then have t: "t < MAX_PROGRAM_AMOUNT" "\<not> PCB_SET_STATUS os t" by (auto simp: find_Some_iff)
  then have nt: "no_fds (fs_of os t)" "run os \<noteq> Some t" using ok by (auto simp: files_defs)
  define o1 where "o1 = snd (allocatePCB (os\<lparr>interrupts := False\<rparr>))"
  have a: "allocatePCB (os\<lparr>interrupts := False\<rparr>) = (Some t, o1)" using Some by (simp add: o1_def allocatePCB_def)
  have f1: "fs_of o1 = (fs_of os)(t := p_fs zero_pcb)" "os_fm o1 = os_fm os" "run o1 = run os" "PCB_SET_STATUS o1 = (PCB_SET_STATUS os)(t := True)"
    using Some by (simp_all add: o1_def allocatePCB_def fs_of_def fun_eq_iff)
  define o2 where "o2 = upd_pcb t (new_thread o1 t nm prio) o1"
  have s2: "fs_same o1 o2" unfolding o2_def by (rule fs_same_upd(1)) (simp add: new_thread_def)
  obtain argv o3 where 3: "with_mm (allocatePages KERNEL 1 VP_RW EMPTY) o2 = Some (argv, o3)"
    using x unfolding executeThread_def Let_def a prod.case option.case o2_def [symmetric]
    by (cases "with_mm (allocatePages KERNEL 1 VP_RW EMPTY) o2") auto
  define o4 where "o4 = upd_pcb t (\<lambda>c. c\<lparr>p_argv := argv\<rparr>) o3"
  have "fs_same o3 o4" unfolding o4_def by simp
  then have s4: "fs_same o1 o4" using s2 with_mm_same [OF 3] fs_same_trans by blast
  show ?thesis
  proof (cases "argv = 0")
    case True
    then have r: "r = - 1" "os' = o4\<lparr>PCB_SET_STATUS := (PCB_SET_STATUS o4)(t := False), interrupts := interrupts os\<rparr>"
      using x unfolding executeThread_def Let_def a prod.case option.case o2_def [symmetric] by (simp_all add: 3 o4_def)
    have "fs_of os' = fs_of o4" "os_fm os' = os_fm o4" "run os' = run o4" "PCB_SET_STATUS os' = (PCB_SET_STATUS o4)(t := False)"
      by (simp_all add: r fs_of_def fun_eq_iff)
    then have "files_ok os'" using s4 f1 nt t
      by (intro files_ok_renew [OF ok t(1) nt(1) no_fds_simps(2), of os' False]) (simp_all add: fs_same_def)
    then show ?thesis using r by simp
  next
    case False
    define o5 where "o5 = upd_pcb t (\<lambda>c. (clear_process_args c)\<lparr>p_fs := init_process_fs (p_fs c), p_stack := start_frame fn (program_exit_at o4) par\<rparr>) o4"
    define i where "i = init_process_fs (p_fs (pcbs o4 t))"
    have f5: "fs_of o5 = (fs_of os)(t := i)" "os_fm o5 = os_fm os" "run o5 = run os" "PCB_SET_STATUS o5 = (PCB_SET_STATUS os)(t := True)"
    proof -
      have "fs_of o5 = (fs_of o4)(t := i)" by (simp add: o5_def i_def fs_of_def upd_pcb_def fun_eq_iff)
      then show "fs_of o5 = (fs_of os)(t := i)" using s4 f1 by (simp add: fs_same_def)
      show "os_fm o5 = os_fm os" "run o5 = run os" "PCB_SET_STATUS o5 = (PCB_SET_STATUS os)(t := True)"
        using s4 f1 by (simp_all add: o5_def fs_same_def) (simp_all add: upd_pcb_def)
    qed
    have ok5: "files_ok o5" by (rule files_ok_renew [OF ok t(1) nt(1) _ f5]) (simp_all add: i_def no_fds_simps)
    obtain o6 o7 where 6: "on_links (List_push_back (all_list o5) (tagInAllList o5 t)) o5 = Some o6"
      and 7: "(if q then enqueue t (set_status t READY o6) else Some o6) = Some o7" and r: "r = int t" "os' = o7\<lparr>interrupts := interrupts os\<rparr>"
      using x False unfolding executeThread_def Let_def a prod.case option.case o2_def [symmetric]
      by (auto simp: 3 o4_def [symmetric] o5_def [symmetric] bind_eq_Some_conv)
    have "fs_same o6 o7"
    proof (cases q)
      case True
      then have "fs_same (set_status t READY o6) o7" using 7 enqueue_same by simp
      from fs_same_trans [OF fs_same_upd(2) this] show ?thesis .
    qed (use 7 in simp)
    then have "fs_same o5 os'" using on_links_same [OF 6] r(2) fs_same_trans fs_same_upd(4) by metis
    then show ?thesis using files_ok_same [OF ok5] f5 t r nt(2) no_fds_simps(1) by (auto simp: fs_same_def i_def)
  qed
qed

lemma executeThread_filely [file_intros]: "files_ok os \<Longrightarrow> filely files_ok (executeThread fn par nm prio q os)"
  using executeThread_files by (auto simp: filely_def)

lemma executeProcess_files: "files_ok os \<Longrightarrow> filely files_ok (executeProcess filename addr prio mode os)"
  unfolding executeProcess_def by (rule file_intros filely_pure | assumption | simp)+

section \<open>Fork, exit, waitpid, execve\<close>

lemma live_slot:
  assumes "live os ps rs c"
  shows "c < MAX_PROGRAM_AMOUNT" "PCB_SET_STATUS os c" "run os = Some c"
  using liveD [OF assms] by (auto simp: table_def)

lemma live_files_ok: "live os ps rs c \<Longrightarrow> files_core os \<Longrightarrow> files_ok os"
  using live_slot by (auto simp: files_ok_def)

text \<open>A child whose descriptors have not been filled in yet.\<close>

definition child_ok :: "nat \<Rightarrow> OS \<Rightarrow> bool" where
  "child_ok t os \<longleftrightarrow> files_ok os \<and> t < MAX_PROGRAM_AMOUNT \<and> PCB_SET_STATUS os t \<and> no_fds (fs_of os t)"

lemma child_ok_same: "child_ok t os \<Longrightarrow> fs_same os os' \<Longrightarrow> child_ok t os'"
  using files_ok_same by (auto simp: child_ok_def fs_same_def)

lemma copyProcess_files:
  assumes k: "child_ok t os" and c: "run os = Some c" and x: "copyProcess c t os = Some (ok, os')"
  shows "files_ok os'"
proof -
  define o1 where "o1 = upd_pcb t (copy_pcb os t (pcbs os c)) os"
  have s1: "fs_same os o1" unfolding o1_def by (rule fs_same_upd(1)) (simp add: copy_pcb_def)
  obtain o2 where 2: "run_mm (store_words (p_pageDirectoryAddress (pcbs o1 t)) 768 (\<lambda>_. 0)) o1 = Some o2"
    using x c unfolding copyProcess_def Let_def o1_def [symmetric] by (auto simp: bind_eq_Some_conv split: if_splits)
  obtain o3 where 3: "with_mm (fork_pages (p_pageDirectoryAddress (pcbs o1 t)) (word_of_int (p_pid (pcbs o2 t))) FORK_PAGES 0) o2 = Some (ok, o3)"
    using x c 2 unfolding copyProcess_def Let_def o1_def [symmetric] by (auto simp: bind_eq_Some_conv split: if_splits prod.splits)
  have s: "fs_same os o3" using s1 run_mm_same [OF 2] with_mm_same [OF 3] fs_same_trans by blast
  have k3: "child_ok t o3" by (rule child_ok_same [OF k s])
  show ?thesis
  proof (cases ok)
    case False
    then have "os' = o3" using x c 2 3 unfolding copyProcess_def Let_def o1_def [symmetric] by (simp split: if_splits)
    then show ?thesis using k3 by (simp add: child_ok_def)
  next
    case True
    obtain q fm where q: "fork_process_fs (fs_of o3 t) (fs_of o3 c) (os_fm o3) = (q, fm)" by fastforce
    then have o: "os' = upd_pcb t (\<lambda>c. c\<lparr>p_fs := q\<rparr>) (o3\<lparr>os_fm := fm\<rparr>)"
      using x c 2 3 True unfolding copyProcess_def Let_def o1_def [symmetric] by (simp add: fs_of_def split: if_splits)
    have f: "fs_of os' = (fs_of o3)(t := q)" "os_fm os' = fm" "PCB_SET_STATUS os' = PCB_SET_STATUS o3" "run os' = run o3"
      by (simp_all add: o fs_of_def upd_pcb_def fun_eq_iff)
    have "run o3 = Some c" using s c by (simp add: fs_same_def)
    then have "c < MAX_PROGRAM_AMOUNT" using k3 by (auto simp: child_ok_def files_ok_def)
    then have "refs_ok ((fs_of o3)(t := q)) fm"
      using fork_refs [of "fs_of o3" "os_fm o3" c t "fs_of o3 t" q fm] k3 q by (auto simp: child_ok_def files_defs no_fds_def)
    then show ?thesis using k3 f by (auto simp: child_ok_def files_defs)
  qed
qed

lemma fork_files:
  assumes l: "live os ps rs c" and ok: "files_ok os" and x: "fork os = Some (r, os')"
  shows "files_ok os'"
proof -
  note d = liveD [OF l]
  let ?os = "os\<lparr>interrupts := False\<rparr>"
  have l0: "live ?os ps rs c" using l by simp
  have ok0: "files_ok ?os" by (rule file_intros ok)+
  show ?thesis
  proof (cases "p_pageDirectoryAddress (pcbs os c) = 0")
    case True
    then have "os' = os" using x d(2) by (auto simp: fork_def Let_def)
    then show ?thesis using ok by simp
  next
    case dirc: False
    obtain pid os1 where e: "executeThread (load_process_at os) 0 fork_name 0 True ?os = Some (pid, os1)"
      using x d(2) dirc by (auto simp: fork_def Let_def bind_eq_Some_conv)
    note e1 = executeThread_files [OF ok0 e]
    show ?thesis
    proof (cases "pid = - 1")
      case True
      then have "os' = os1\<lparr>interrupts := interrupts os\<rparr>" using x d(2) dirc e by (auto simp: fork_def Let_def)
      then show ?thesis using e1 by (auto intro: file_intros)
    next
      case nm: False
      then obtain t where t: "pid = int t" "live os1 (ps @ [t]) (rs @ [t]) c" using executeThread_live [OF l0 e] by auto
      have y: "youngest os1 = Some t" using youngest_last liveD(4) [OF t(2)] by blast
      have k1: "child_ok t os1" using e1 t(1) by (simp add: child_ok_def)
      let ?os1 = "upd_pcb t (\<lambda>c. c\<lparr>needFork := True\<rparr>) os1"
      obtain dir os2 where w: "with_mm (createProcessPageDirectory (word_of_int (p_pid (pcbs ?os1 t)))) ?os1 = Some (dir, os2)"
        using x d(2) dirc e nm y by (auto simp: fork_def bind_eq_Some_conv Let_def)
      define os3 where "os3 = upd_pcb t (\<lambda>c. c\<lparr>p_pageDirectoryAddress := dir\<rparr>) os2"
      have "fs_same os1 ?os1" "fs_same os2 os3" by (simp_all add: os3_def)
      then have s3: "fs_same os1 os3" using with_mm_same [OF w] fs_same_trans by blast
      have k3: "child_ok t os3" by (rule child_ok_same [OF k1 s3])
      show ?thesis
      proof (cases "dir = 0")
        case True
        then have "os' = (set_status t DEAD os3)\<lparr>interrupts := interrupts os\<rparr>"
          using x d(2) dirc e nm y w by (auto simp: fork_def Let_def os3_def)
        then show ?thesis using k3 by (auto simp: child_ok_def intro: file_intros)
      next
        case dn: False
        obtain res u os4 where cl: "with_mm (\<lambda>mm. map_option (\<lambda>(ok, u, mm). ((ok, u), mm))
               (UserVAddressPool_cloneFrom (p_userVirtual (pcbs os3 c)) (word_of_int (p_pid (pcbs os3 t))) (p_userVirtual (pcbs os3 t)) mm)) os3 =
               Some ((res, u), os4)" "va_length (stackPool u) \<noteq> 0"
          using x d(2) dirc e nm y w dn by (auto simp: fork_def Let_def os3_def [symmetric] bind_eq_Some_conv split: if_splits)
        define os5 where "os5 = upd_pcb t (\<lambda>c. c\<lparr>p_userVirtual := u\<rparr>) os4"
        have "fs_same os4 os5" by (simp add: os5_def)
        then have s5: "fs_same os3 os5" using with_mm_same [OF cl(1)] fs_same_trans by blast
        have k5: "child_ok t os5" by (rule child_ok_same [OF k3 s5])
        show ?thesis
        proof (cases res)
          case False
          then have "os' = (set_status t DEAD os5)\<lparr>interrupts := interrupts os\<rparr>"
            using x d(2) dirc e nm y w dn cl by (auto simp: fork_def Let_def os3_def [symmetric] os5_def)
          then show ?thesis using k5 by (auto simp: child_ok_def intro: file_intros)
        next
          case True
          obtain flag os6 where cp: "copyProcess c t os5 = Some (flag, os6)"
            using x d(2) dirc e nm y w dn cl True by (auto simp: fork_def Let_def os3_def [symmetric] os5_def [symmetric] bind_eq_Some_conv)
          have "run os5 = Some c" using liveD(2) [OF t(2)] s3 s5 by (simp add: fs_same_def)
          then have ok6: "files_ok os6" by (rule copyProcess_files [OF k5 _ cp])
          show ?thesis
          proof (cases flag)
            case False
            then have "destroy_pool t ((set_status t DEAD os6)\<lparr>interrupts := interrupts os\<rparr>) = Some os'"
              using x d(2) dirc e nm y w dn cl True cp
              by (auto simp: fork_def Let_def os3_def [symmetric] os5_def [symmetric] bind_eq_Some_conv)
            moreover have "filely1 files_ok (destroy_pool t ((set_status t DEAD os6)\<lparr>interrupts := interrupts os\<rparr>))"
              by (rule file_intros ok6)+
            ultimately show ?thesis by (rule filelyD(2) [rotated])
          next
            case F: True
            then have "os' = os6\<lparr>interrupts := interrupts os\<rparr>"
              using x d(2) dirc e nm y w dn cl True cp t(1)
              by (auto simp: fork_def Let_def os3_def [symmetric] os5_def [symmetric])
            then show ?thesis using ok6 by (auto intro: file_intros)
          qed
        qed
      qed
    qed
  qed
qed

lemma orphan_loop_same: "orphan_loop item r os = Some os' \<Longrightarrow> fs_same os os'"
proof (induction item r os os' rule: orphan_loop.raw_induct [rotated, consumes 1])
  case (1 f item r os os')
  show ?case
  proof (cases item)
    case None
    then show ?thesis using 1 by simp
  next
    case (Some a)
    define o1 where "o1 = (if ListItem2PCB os a 52 \<noteq> r \<and> p_parentPid (pcbs os (ListItem2PCB os a 52)) = p_pid (pcbs os r)
             then upd_pcb (ListItem2PCB os a 52) (\<lambda>c. c\<lparr>p_parentPid := 1\<rparr>) os else os)"
    have "fs_same os o1" by (simp add: o1_def)
    moreover have "fs_same o1 os'" using 1 Some by (simp add: o1_def [symmetric])
    ultimately show ?thesis by (rule fs_same_trans)
  qed
qed

lemma release_running_files:
  assumes "files_ok os" "run os = Some c"
  shows "filely1 files_ok (release_fs c os)"
proof -
  have "c < MAX_PROGRAM_AMOUNT" using assms by (auto simp: files_ok_def)
  then show ?thesis unfolding filely1_def using release_fs_files(1) [OF assms(1)] by blast
qed

lemma orphan_loop_files [file_intros]: "files_ok os \<Longrightarrow> filely1 files_ok (orphan_loop item r os)"
  using files_ok_same orphan_loop_same by (auto simp: filely1_def)

lemma exit_files:
  assumes ok: "files_ok os" and x: "exit ret os = Some os'"
  shows "files_core os'"
proof -
  obtain c where c: "run os = Some c" using ok by (auto simp: files_ok_def)
  define o0 where "o0 = upd_pcb c (\<lambda>c. c\<lparr>p_retValue := ret\<rparr>) (os\<lparr>interrupts := False\<rparr>)"
  have s0: "fs_same os o0" by (simp add: o0_def fs_same_def fs_of_def upd_pcb_def fun_eq_iff)
  then have ok0: "files_ok o0" "run o0 = Some c" using files_ok_same [OF ok] c by (auto simp: fs_same_def)
  obtain o1 o2 o3 where o: "release_fs c o0 = Some o1"
      "(if p_pageDirectoryAddress (pcbs (set_status c DEAD o1) c) \<noteq> 0 then destroy_space c (set_status c DEAD o1) else Some (set_status c DEAD o1)) = Some o2"
      "orphan_loop (next (links o2 (all_list o2))) c o2 = Some o3" "schedule o3 = Some os'"
    using x c unfolding exit_def Let_def o0_def by (auto simp: bind_eq_Some_conv)
  have "files_ok o1" using release_running_files [OF ok0] o(1) by (rule filelyD(2))
  then have "files_ok (set_status c DEAD o1)" by (rule files_ok_upd)
  then have "files_ok o2" using o(2) destroy_space_files by (auto simp: filely1_def split: if_splits)
  then have "files_ok o3" using orphan_loop_files o(3) by (auto simp: filely1_def)
  then show ?thesis using schedule_files o(4) by (auto simp: filely1_def)
qed

lemma program_exit_files:
  assumes ok: "files_ok os" and x: "program_exit os = Some os'"
  shows "files_core os'"
proof -
  obtain c where c: "run os = Some c" using ok by (auto simp: files_ok_def)
  obtain o1 where o: "release_fs c os = Some o1" "schedule (set_status c DEAD o1) = Some os'"
    using x c unfolding program_exit_def Let_def by (auto simp: bind_eq_Some_conv split: if_splits)
  have "files_ok o1" using release_running_files [OF ok c] o(1) by (rule filelyD(2))
  then have "files_ok (set_status c DEAD o1)" by (rule files_ok_upd)
  then show ?thesis using schedule_files o(2) by (auto simp: filely1_def)
qed

lemma releasePCB_files:
  assumes ok: "files_ok os" and z: "z < MAX_PROGRAM_AMOUNT" "run os \<noteq> Some z" and x: "releasePCB z os = Some os'"
  shows "files_ok os'"
proof -
  obtain oa ob where o: "release_fs z os = Some oa"
      "(if p_argv (pcbs oa z) \<noteq> 0 then do { os \<leftarrow> run_mm (releasePages KERNEL (p_argv (pcbs oa z)) 1 EMPTY) oa;
             Some (upd_pcb z (\<lambda>c. c\<lparr>p_argv := 0, p_argc := 0\<rparr>) os) } else Some oa) = Some ob"
      "on_links (List_erase (all_list ob) (tagInAllList ob z)) (ob\<lparr>PCB_SET_STATUS := (PCB_SET_STATUS ob)(z := False)\<rparr>) = Some os'"
    using x unfolding releasePCB_def Let_def by (auto simp: bind_eq_Some_conv)
  note a = release_fs_files [OF ok z(1) o(1)]
  have s: "fs_same oa ob"
  proof (cases "p_argv (pcbs oa z) = 0")
    case False
    then obtain oc where "run_mm (releasePages KERNEL (p_argv (pcbs oa z)) 1 EMPTY) oa = Some oc"
        "ob = upd_pcb z (\<lambda>c. c\<lparr>p_argv := 0, p_argc := 0\<rparr>) oc" using o(2) by (auto simp: bind_eq_Some_conv)
    moreover have "fs_same oc (upd_pcb z (\<lambda>c. c\<lparr>p_argv := 0, p_argc := 0\<rparr>) oc)" by simp
    ultimately show ?thesis using run_mm_same fs_same_trans by metis
  qed (use o(2) in simp)
  have b: "files_ok ob" by (rule files_ok_same [OF a(1) s])
  let ?o = "ob\<lparr>PCB_SET_STATUS := (PCB_SET_STATUS ob)(z := False)\<rparr>"
  have n: "no_fds (fs_of ob z)" using a(2) s by (simp add: fs_same_def)
  have "files_ok ?o"
    by (rule files_ok_renew [OF b z(1) n n, of _ False]) (use s a(4) z(2) in \<open>simp_all add: fs_of_def fun_eq_iff fs_same_def\<close>)
  then show ?thesis by (rule files_ok_same) (rule on_links_same [OF o(3)])
qed

lemma waitpid_files:
  assumes l: "live os ps rs c" and ok: "files_ok os" and x: "waitpid pid os = Some (w, os')"
  shows "files_core os'"
proof -
  let ?os = "os\<lparr>interrupts := False\<rparr>"
  note r = liveD(2) [OF l]
  have l0: "live ?os ps rs c" using l by simp
  have ok0: "files_ok ?os" by (rule file_intros ok)+
  obtain h z where cl: "child_loop (next (links os (all_list os))) pid c False ?os = Some (h, z)"
    using x r by (auto simp: waitpid_def bind_eq_Some_conv Let_def)
  have zs: "p \<in> set ps \<and> p_status (pcbs os p) = DEAD" if "z = Some p" for p
  proof -
    have "find (\<lambda>q. is_child ?os pid c q \<and> p_status (pcbs ?os q) = DEAD) ps = Some p"
      using child_loop_forward [OF table_forward [OF liveD(4) [OF l0]], of pid c False] cl that by simp
    then show ?thesis by (auto simp: find_Some_iff)
  qed
  show ?thesis
  proof (cases h)
    case False
    then have "os' = os" using x r cl by (simp add: waitpid_def Let_def)
    then show ?thesis using ok by (simp add: files_ok_def)
  next
    case True
    show ?thesis
    proof (cases z)
      case None
      then have "schedule os = Some os'" using x r cl True by (auto simp: waitpid_def Let_def bind_eq_Some_conv)
      then show ?thesis using filelyD(2) [OF schedule_files [OF ok]] by blast
    next
      case (Some p)
      then obtain o1 where o: "releasePCB p ?os = Some o1" "os' = o1\<lparr>interrupts := interrupts os\<rparr>"
        using x r cl True by (auto simp: waitpid_def Let_def bind_eq_Some_conv)
      have "p < MAX_PROGRAM_AMOUNT" "run ?os \<noteq> Some p" using zs [OF Some] liveD [OF l] by (auto simp: table_def)
      then have "files_ok o1" by (rule releasePCB_files [OF ok0 _ _ o(1)])
      then show ?thesis using o(2) by (auto intro: file_intros)
    qed
  qed
qed

lemma copy_exec_args_fs:
  assumes "copy_exec_args f argv p = (ok, p')"
  shows "p_fs p' = p_fs p"
proof -
  have c: "p_fs (clear_process_args p) = p_fs p" by (simp add: clear_process_args_def)
  have a: "p_fs p1 = p_fs p0" if "arg_loop n i args p0 = (ok1, p1)" for n i args p0 ok1 p1
    using that by (induction n arbitrary: i p0) (auto simp: Let_def split: if_splits option.splits)
  show ?thesis using assms c
    by (auto simp: copy_exec_args_def Let_def split: if_splits option.splits prod.splits dest!: a)
qed

lemma files_ok_process:
  assumes "files_ok os" "run os = Some c" "same_fds (fs_of os c) (p_fs d)"
  shows "files_ok (upd_pcb c (\<lambda>_. d) os)"
proof -
  have "c < MAX_PROGRAM_AMOUNT" "PCB_SET_STATUS os c" using assms by (auto simp: files_ok_def)
  moreover have "fs_of (upd_pcb c (\<lambda>_. d) os) = (fs_of os)(c := p_fs d)" by (simp add: fs_of_def upd_pcb_def fun_eq_iff)
  moreover have "os_fm (upd_pcb c (\<lambda>_. d) os) = os_fm os" "PCB_SET_STATUS (upd_pcb c (\<lambda>_. d) os) = PCB_SET_STATUS os"
    "run (upd_pcb c (\<lambda>_. d) os) = run os" by (simp_all add: upd_pcb_def)
  moreover have "refs_ok ((fs_of os)(c := p_fs d)) (os_fm os)"
    by (rule refs_ok_same [of "fs_of os" "os_fm os"]) (use assms calculation(1) in \<open>auto simp: files_defs\<close>)
  ultimately show ?thesis using assms by (auto simp: files_defs)
qed

lemma execve_files:
  assumes ok: "files_ok os" and x: "execve filename addr argv mode os = Some (r, os')" and l: "live os ps rs c"
  shows "files_core os'"
proof -
  note d = liveD(2) [OF l]
  obtain conf os1 where i: "load_image filename addr mode (os\<lparr>interrupts := False\<rparr>) = Some (conf, os1)"
    using x by (auto simp: execve_def bind_eq_Some_conv Let_def)
  have ok1: "files_ok os1" by (rule filelyD(1) [OF load_image_files i]) (rule file_intros ok)+
  have "quiet os os1" by (rule quietlyD [OF load_image_quiet i]) (rule quiet_intros)+
  then have d1: "run os1 = Some c" using same_frame_tags(7) [OF quietD(1)] d by simp
  show ?thesis
  proof (cases "c_entry conf = 0")
    case True
    then show ?thesis using x i ok1 by (auto simp: execve_def intro: file_intros)
  next
    case ne: False
    obtain good c' where a: "(if mode = 0 then copy_exec_args (Some filename) argv (pcbs os1 c) else (True, clear_process_args (pcbs os1 c))) = (good, c')"
      by fastforce
    have fc: "p_fs c' = fs_of os1 c" using a copy_exec_args_fs by (auto simp: fs_of_def clear_process_args_def split: if_splits)
    define os2 where "os2 = upd_pcb c (\<lambda>_. c') os1"
    have ok2: "files_ok os2" unfolding os2_def by (rule files_ok_process [OF ok1 d1]) (simp add: fc)
    show ?thesis
    proof (cases good)
      case False
      then obtain o3 where o: "close_image conf os2 = Some o3" "os' = o3\<lparr>interrupts := interrupts os\<rparr>"
        using x i ne d1 a by (auto simp: execve_def Let_def os2_def bind_eq_Some_conv split: prod.splits if_splits)
      have "files_ok o3" by (rule filelyD(2) [OF close_image_files [OF ok2] o(1)])
      then show ?thesis using o(2) by (auto intro: file_intros)
    next
      case good: True
      define os3 where "os3 = upd_pcb c (\<lambda>c. c\<lparr>p_fs := exec_process_fs (p_fs c)\<rparr>) os2"
      define st where "st = interrupts os"
      have "os3 = upd_pcb c (\<lambda>_. (pcbs os2 c)\<lparr>p_fs := exec_process_fs (p_fs (pcbs os2 c))\<rparr>) os2" by (simp add: os3_def upd_pcb_def)
      moreover have "run os2 = Some c" using d1 by (simp add: os2_def upd_pcb_def)
      ultimately have ok3: "files_ok os3" using files_ok_process [OF ok2] exec_keeps_fds by (simp add: fs_of_def)
      let ?m = "do {
         ASSERT (p_pageDirectoryAddress (pcbs os3 c) \<noteq> 0);
         os \<leftarrow> destroy_space c os3;
         let os = upd_pcb c (\<lambda>c. c\<lparr>p_pageDirectoryAddress := 0\<rparr>) os;
         (dir, os) \<leftarrow> with_mm (createProcessPageDirectory (word_of_int (p_pid (pcbs os c)))) os;
         if dir = 0 then do {
           os \<leftarrow> close_image conf os;
           Some (Some (- 1), (set_status c DEAD os)\<lparr>interrupts := st\<rparr>)
         }
         else do {
           let os = upd_pcb c (\<lambda>c. c\<lparr>p_pageDirectoryAddress := dir\<rparr>) os;
           (res, os) \<leftarrow> createUserVirtualPool c conf mode os;
           if \<not> res then do {
             os \<leftarrow> close_image conf os;
             os \<leftarrow> schedule ((set_status c DEAD os)\<lparr>interrupts := st\<rparr>);
             Some (None, os)
           }
           else do {
             os \<leftarrow> close_image conf os;
             pa \<leftarrow> vaddr2paddr dir (mm_of os);
             let os = os\<lparr>os_mm := (os_mm os)\<lparr>cr3 := pa\<rparr>\<rparr>;
             os \<leftarrow> user_stack c os;
             let (sp, ws) = push_exec_args_to_user_stack (k_exit_at os) (Some (pcbs os c));
             os \<leftarrow> run_mm (do_writes ws) os;
             Some (None, upd_pcb c (\<lambda>c. c\<lparr>p_frame := user_entry os (c_entry conf) sp\<rparr>) (os\<lparr>interrupts := True\<rparr>))
           }
         }
       }"
      have "?m = Some (r, os')"
        using x i ne d1 a good unfolding execve_def Let_def os3_def os2_def st_def by (auto split: prod.splits)
      moreover have "filely files_core ?m" by (rule schedule_then file_intros filely_pure ok3 | assumption | simp)+
      ultimately show ?thesis by (rule filelyD(1) [rotated])
    qed
  qed
qed

section \<open>Every system call\<close>

text \<open>The table of programs is in order and so are the counts of open files.\<close>

definition kernel_ok :: "OS \<Rightarrow> bool" where
  "kernel_ok os \<longleftrightarrow> (\<exists>ps rs c. live os ps rs c) \<and> files_core os"

lemma kernel_okI: "live os ps rs c \<Longrightarrow> files_core os \<Longrightarrow> kernel_ok os"
  by (auto simp: kernel_ok_def)

lemma kernel_ok_files: "kernel_ok os \<Longrightarrow> files_ok os"
  using live_files_ok by (auto simp: kernel_ok_def)

lemma kernel_ok_interrupts [simp]: "kernel_ok (os\<lparr>interrupts := i\<rparr>) = kernel_ok os"
  by (simp add: kernel_ok_def files_core_def fs_of_def [abs_def])

text \<open>
  What a step of the kernel leaves: the tables are in order again, and the programs that wait to be reaped, except those
  of a set, are still dead, with their exit values and their parents, or program 1 in place of a parent that is gone.
\<close>

definition dead_at :: "OS \<Rightarrow> nat \<Rightarrow> bool" where
  "dead_at os z \<longleftrightarrow> z < MAX_PROGRAM_AMOUNT \<and> PCB_SET_STATUS os z \<and> p_status (pcbs os z) = DEAD"

definition onward :: "nat set \<Rightarrow> OS \<Rightarrow> OS \<Rightarrow> bool" where
  "onward D os os' \<longleftrightarrow> kernel_ok os' \<and> (\<forall>z. dead_at os z \<and> z \<notin> D \<longrightarrow> dead_at os' z \<and>
     p_retValue (pcbs os' z) = p_retValue (pcbs os z) \<and> p_parentPid (pcbs os' z) \<in> {p_parentPid (pcbs os z), 1})"

lemma onward_interrupts [simp]:
  "onward D (os\<lparr>interrupts := i\<rparr>) os' = onward D os os'" "onward D os (os'\<lparr>interrupts := i\<rparr>) = onward D os os'"
  by (simp_all add: onward_def dead_at_def)

lemma onward_refl [simp]: "kernel_ok os \<Longrightarrow> onward {} os os"
  by (simp add: onward_def)

lemma onward_keeps_dead:
  assumes l: "live os ps rs c" and k: "keeps_dead os qs os'" and q: "set ps - D \<subseteq> set qs" and f: "files_core os'"
  shows "onward D os os'"
proof -
  obtain ps' rs' c' where l': "live os' ps' rs' c'" and z: "\<forall>z\<in>set qs. p_status (pcbs os z) = DEAD \<longrightarrow> z \<in> set ps' \<and> same_life (pcbs os z) (pcbs os' z)"
    using k unfolding keeps_dead_def by blast
  have "set ps = {p. p < MAX_PROGRAM_AMOUNT \<and> PCB_SET_STATUS os p}" "set ps' = {p. p < MAX_PROGRAM_AMOUNT \<and> PCB_SET_STATUS os' p}"
    using liveD(4) [OF l] liveD(4) [OF l'] by (simp_all add: table_def)
  then show ?thesis using z q kernel_okI [OF l' f] by (auto simp: onward_def dead_at_def same_life_def)
qed

lemma onward_quiet:
  assumes "kernel_ok os" and "quiet os os'" and "files_ok os'"
  shows "onward {} os os'"
  using assms keeps_dead_quiet onward_keeps_dead [of os _ _ _ _ os' "{}"] files_core_ok unfolding kernel_ok_def by blast

lemma with_fm_quiet: "quietly os (with_fm f os)"
proof -
  have "quiet os (case (run os, current fm) of (Some r, Some q) \<Rightarrow> upd_pcb r (\<lambda>c. c\<lparr>p_fs := q\<rparr>) (os\<lparr>os_fm := fm\<rparr>) | _ \<Rightarrow> os\<lparr>os_fm := fm\<rparr>)" for fm
    by (auto split: option.split intro!: quiet_intros)
  then show ?thesis by (auto simp: quietly_def with_fm_def)
qed

lemma plain_onward: "kernel_ok os \<Longrightarrow> quietly os m \<Longrightarrow> filely files_ok m \<Longrightarrow> plain m = Some (res, os') \<Longrightarrow> onward {} os os'"
  using onward_quiet by (auto simp: plain_def quietly_def filely_def)

lemma plain_fm_onward:
  "kernel_ok os \<Longrightarrow> (\<And>fm a fm'. f fm = Some (a, fm') \<Longrightarrow> counts_kept fm fm') \<Longrightarrow> plain (with_fm f os) = Some (res, os') \<Longrightarrow> onward {} os os'"
  by (rule plain_onward [OF _ with_fm_quiet with_fm_files [OF kernel_ok_files]])

lemma on_path_onward:
  "kernel_ok os \<Longrightarrow> (\<And>p fm a fm'. f p fm = Some (a, fm') \<Longrightarrow> counts_kept fm fm') \<Longrightarrow> on_path u a f os = Some (res, os') \<Longrightarrow> onward {} os os'"
  using plain_fm_onward [of os "f (str_at u a)"] by (auto simp: on_path_def split: if_splits)

lemma with_mm_onward: "kernel_ok os \<Longrightarrow> with_mm f os = Some (x, os') \<Longrightarrow> onward {} os os'"
  using onward_quiet quietlyD [OF with_quiet(1) [OF quiet_refl]] filelyD(1) [OF with_mm_files(1) [OF kernel_ok_files]] by metis

lemma with_io_onward: "kernel_ok os \<Longrightarrow> io_keeps f \<Longrightarrow> with_io f os = Some (x, os') \<Longrightarrow> onward {} os os'"
  using onward_quiet quietlyD [OF with_quiet(3) [OF quiet_refl]] filelyD(1) [OF with_io_files [OF kernel_ok_files]] by metis

lemma io_write_keeps: "io_keeps (\<lambda>(fm, k, s). map_option (\<lambda>(n, fm, s). (n, fm, k, s)) (fm_write fd b sz (fm, s)))"
  by (rule io_keepsI) (auto simp: map_option_eq_Some dest: calls_keep_counts)

lemma quiet_devices: "quiet os (os\<lparr>os_screen := s\<rparr>)" "quiet os (os\<lparr>os_keyboard := k\<rparr>)"
  using quiet_fields(4) [OF quiet_refl, of os s "os_keyboard os"] quiet_fields(4) [OF quiet_refl, of os "os_screen os" k] by simp_all

lemma screen_onward: "kernel_ok os \<Longrightarrow> onward {} os (os\<lparr>os_screen := s\<rparr>)"
  by (rule onward_quiet [OF _ quiet_devices(1)]) (auto intro: files_ok_upd kernel_ok_files)

lemma keyboard_onward: "kernel_ok os \<Longrightarrow> onward {} os (os\<lparr>os_keyboard := k\<rparr>)"
  by (rule onward_quiet [OF _ quiet_devices(2)]) (auto intro: files_ok_same [OF kernel_ok_files])

lemma schedule_onward: "kernel_ok os \<Longrightarrow> schedule os = Some os' \<Longrightarrow> onward {} os os'"
proof -
  assume ok: "kernel_ok os" and x: "schedule os = Some os'"
  obtain ps rs c where l: "live os ps rs c" using ok by (auto simp: kernel_ok_def)
  have "z \<noteq> c \<and> same_life (pcbs os z) (pcbs os z)" if "p_status (pcbs os z) = DEAD" for z using that liveD(3) [OF l] by auto
  then have "keeps_dead os ps os'" using schedule_keeps_dead [OF liveD(1,2) [OF l] _ x, of os] liveD(3) [OF l] by blast
  moreover have "files_core os'" using files_core_same [OF _ schedule_core [OF x]] ok by (simp add: kernel_ok_def)
  ultimately show ?thesis by (intro onward_keeps_dead [OF l]) auto
qed

lemma exit_onward: "kernel_ok os \<Longrightarrow> exit ret os = Some os' \<Longrightarrow> onward {} os os'"
proof -
  assume ok: "kernel_ok os" and x: "exit ret os = Some os'"
  obtain ps rs c where l: "live os ps rs c" using ok by (auto simp: kernel_ok_def)
  note d = liveD [OF l]
  obtain n ns where e: "rs = n # ns" "live os' ps ns n" "p_status (pcbs os' c) = DEAD" "\<forall>p\<in>set ps. p_parentPid (pcbs os' p) = (if p \<noteq> c \<and> p_parentPid (pcbs os p) = int c then 1 else p_parentPid (pcbs os p)) \<and>
       (p \<noteq> c \<longrightarrow> p_retValue (pcbs os' p) = p_retValue (pcbs os p)) \<and> (p \<notin> {c, n} \<longrightarrow> p_status (pcbs os' p) = p_status (pcbs os p))"
    using exit_effect [OF l x] by blast
  have n: "p_status (pcbs os n) = READY" using schedD(5) [OF d(1,2), of n] d(6) tableD(5) [OF d(4)] e(1) by auto
  have s: "set ps = {p. p < MAX_PROGRAM_AMOUNT \<and> PCB_SET_STATUS os p}" "set ps = {p. p < MAX_PROGRAM_AMOUNT \<and> PCB_SET_STATUS os' p}"
    using d(4) liveD(4) [OF e(2)] by (simp_all add: table_def)
  have "dead_at os' z \<and> p_retValue (pcbs os' z) = p_retValue (pcbs os z) \<and> p_parentPid (pcbs os' z) \<in> {p_parentPid (pcbs os z), 1}"
    if z: "dead_at os z" for z
  proof -
    have m: "z \<noteq> c" "z \<noteq> n" using z d(3) n by (auto simp: dead_at_def)
    have "z \<in> set ps" using z unfolding s(1) dead_at_def by simp
    note m = this m
    have "z < MAX_PROGRAM_AMOUNT \<and> PCB_SET_STATUS os' z" using m(1) unfolding s(2) by simp
    then show ?thesis using bspec [OF e(4) m(1)] m(2,3) z by (simp add: dead_at_def)
  qed
  then show "onward {} os os'" using kernel_okI [OF e(2)] exit_files [OF kernel_ok_files [OF ok] x] by (simp add: onward_def)
qed

lemma program_exit_onward: "kernel_ok os \<Longrightarrow> program_exit os = Some os' \<Longrightarrow> onward {} os os'"
  using program_exit_files [OF kernel_ok_files] program_exit_keeps_dead onward_keeps_dead [of os _ _ _ _ os' "{}"]
  unfolding kernel_ok_def by blast

lemma waitpid_onward:
  assumes ok: "kernel_ok os" and x: "waitpid pid os = Some (w, os')"
  shows "onward {} os os' \<or> (\<exists>z c. run os = Some c \<and> dead_at os z \<and> p_parentPid (pcbs os z) = int c \<and>
     w = Returns (int z) (Some (p_retValue (pcbs os z))) \<and> onward {z} os os')"
proof -
  obtain ps rs c where l: "live os ps rs c" using ok by (auto simp: kernel_ok_def)
  have f: "files_core os'" by (rule waitpid_files [OF l kernel_ok_files [OF ok] x])
  have s: "distinct ps" "set ps = {p. p < MAX_PROGRAM_AMOUNT \<and> PCB_SET_STATUS os p}" using liveD(4) [OF l] tableD(2) by (auto simp: table_def)
  from waitpid_keeps_dead [OF l x] show ?thesis
  proof (elim disjE exE conjE)
    assume "keeps_dead os ps os'"
    then show ?thesis using onward_keeps_dead [OF l _ _ f] by blast
  next
    fix z assume z: "z \<in> set ps" "p_status (pcbs os z) = DEAD" "p_parentPid (pcbs os z) = int c"
      "w = Returns (int z) (Some (p_retValue (pcbs os z)))" "keeps_dead os (remove1 z ps) os'"
    have "onward {z} os os'" by (rule onward_keeps_dead [OF l z(5) _ f]) (use s(1) in auto)
    moreover have "dead_at os z" using z(1,2) s(2) by (simp add: dead_at_def)
    ultimately show ?thesis using z(3,4) liveD(2) [OF l] by blast
  qed
qed

text \<open>The two calls that leave a table which is not in order: a child that is dead and ready, and a dead program that runs on.\<close>

definition dead_child :: "OS \<Rightarrow> OS \<Rightarrow> bool" where
  "dead_child os os' \<longleftrightarrow> (\<exists>t ps rs. \<not> PCB_SET_STATUS os t \<and> table os' (ps @ [t]) (rs @ [t]) \<and> p_status (pcbs os' t) = DEAD)"

definition dead_runs :: "OS \<Rightarrow> bool" where
  "dead_runs os \<longleftrightarrow> (case run os of Some c \<Rightarrow> p_status (pcbs os c) = DEAD | None \<Rightarrow> False)"

lemma fork_onward:
  assumes ok: "kernel_ok os" and x: "fork os = Some (r, os')"
  shows "onward {} os os' \<or> r = - 1 \<and> run os' = run os \<and> dead_child os os'"
proof -
  obtain ps rs c where l: "live os ps rs c" using ok by (auto simp: kernel_ok_def)
  have f: "files_core os'" using fork_files [OF l kernel_ok_files [OF ok] x] by (simp add: files_ok_def)
  have s: "set ps = {p. p < MAX_PROGRAM_AMOUNT \<and> PCB_SET_STATUS os p}" using liveD(4) [OF l] by (simp add: table_def)
  from fork_effect [OF l x] show ?thesis
  proof (elim disjE exE conjE)
    assume "live os' ps rs c" "\<forall>p\<in>set ps. same_life (pcbs os p) (pcbs os' p)"
    then have "keeps_dead os ps os'" by (intro keeps_deadI) auto
    then show ?thesis using onward_keeps_dead [OF l _ _ f] by blast
  next
    fix t assume t: "t \<notin> set ps" "live os' (ps @ [t]) (rs @ [t]) c" "\<forall>p. p \<noteq> t \<longrightarrow> same_life (pcbs os p) (pcbs os' p)"
    then have "keeps_dead os ps os'" by (intro keeps_deadI [OF t(2)]) auto
    then show ?thesis using onward_keeps_dead [OF l _ _ f] by blast
  next
    fix t assume t: "t \<notin> set ps" "r = - 1" "table os' (ps @ [t]) (rs @ [t])" "run os' = Some c" "p_status (pcbs os' t) = DEAD"
    have "t < MAX_PROGRAM_AMOUNT" using tableD(4) [OF t(3)] by simp
    then have "\<not> PCB_SET_STATUS os t" using t(1) s by simp
    then show ?thesis using t liveD(2) [OF l] by (auto simp: dead_child_def)
  qed
qed

lemma execve_onward:
  assumes ok: "kernel_ok os" and x: "execve filename addr argv mode os = Some (r, os')"
  shows "onward {} os os' \<or> r = Some (- 1) \<and> run os' = run os \<and> dead_runs os'"
proof -
  obtain ps rs c where l: "live os ps rs c" using ok by (auto simp: kernel_ok_def)
  have f: "files_core os'" by (rule execve_files [OF kernel_ok_files [OF ok] x l])
  from execve_effect [OF l x] liveD(2) [OF l] onward_keeps_dead [OF l _ _ f, of ps "{}"] show ?thesis
    by (auto simp: dead_runs_def)
qed

lemma pte_dump_onward: "kernel_ok os \<Longrightarrow> plain (pte_dump a os) = Some (res, os') \<Longrightarrow> onward {} os os'"
  using with_mm_onward by (fastforce simp: plain_def pte_dump_def split: if_splits)

lemma pa_dump_onward: "kernel_ok os \<Longrightarrow> pa_dump os = Some os' \<Longrightarrow> onward {} os os'"
  by (auto simp: pa_dump_def kprintf_def Let_def bind_eq_Some_conv intro!: screen_onward)

lemma dump_fd_onward: "kernel_ok os \<Longrightarrow> plain (dump_fd tbl fd os) = Some (res, os') \<Longrightarrow> onward {} os os'"
  by (auto simp: plain_def dump_fd_def kprintf_def Let_def bind_eq_Some_conv split: option.splits if_splits intro!: screen_onward)

lemma do_read_onward: "kernel_ok os \<Longrightarrow> do_read u fd p sz os = Some (res, os') \<Longrightarrow> onward {} os os'"
  using with_io_onward [OF _ io_ops_keep(4)] by (fastforce simp: do_read_def bind_eq_Some_conv)

lemma do_write_onward: "kernel_ok os \<Longrightarrow> do_write u fd p sz os = Some (res, os') \<Longrightarrow> onward {} os os'"
  using with_io_onward [OF _ io_write_keeps] by (fastforce simp: do_write_def plain_def)

lemma do_ls_onward: "kernel_ok os \<Longrightarrow> do_ls u path es n os = Some (res, os') \<Longrightarrow> onward {} os os'"
proof -
  assume ok: "kernel_ok os" and x: "do_ls u path es n os = Some (res, os')"
  let ?f = "\<lambda>fm. map_option (\<lambda>(r, es, fm). ((r, es), fm)) (fm_ls (str_at u path) (sint n) fm)"
  have fl: "filely files_ok (with_fm ?f os)"
    by (rule with_fm_files [OF kernel_ok_files [OF ok]]) (auto simp: map_option_eq_Some dest: calls_keep_counts)
  have k: "onward {} os os1" if "with_fm ?f os = Some (v, os1)" for v os1
    by (rule onward_quiet [OF ok quietlyD [OF with_fm_quiet that] filelyD(1) [OF fl that]])
  show "onward {} os os'"
  proof (cases "path = 0 \<or> es = 0")
    case True
    then show ?thesis using x ok by (simp add: do_ls_def)
  next
    case False
    then obtain v where "with_fm ?f os = Some (v, os')" using x by (auto simp: do_ls_def bind_eq_Some_conv)
    then show ?thesis by (rule k)
  qed
qed

lemma do_wait_onward:
  assumes ok: "kernel_ok os" and x: "do_wait a b os = Some (res, os')"
  shows "onward {} os os' \<or> (\<exists>z c. run os = Some c \<and> dead_at os z \<and> p_parentPid (pcbs os z) = int c \<and>
     res = Result (word_of_nat z) (if b \<noteq> 0 then [Word b (p_retValue (pcbs os z))] else []) \<and> onward {z} os os')"
proof -
  obtain w where w: "waitpid (sint a) os = Some (w, os')" "res = (case w of
      Returns n v \<Rightarrow> Result (word_of_int n) (case v of Some x \<Rightarrow> if b \<noteq> 0 then [Word b x] else [] | None \<Rightarrow> []) | Waits \<Rightarrow> Again)"
    using x by (auto simp: do_wait_def bind_eq_Some_conv)
  from waitpid_onward [OF ok w(1)] show ?thesis
  proof (elim disjE exE conjE)
    fix z c assume "run os = Some c" "dead_at os z" "p_parentPid (pcbs os z) = int c" "onward {z} os os'"
      "w = Returns (int z) (Some (p_retValue (pcbs os z)))"
    then show ?thesis using w(2) by auto
  qed blast
qed

lemma do_exec_onward:
  assumes "kernel_ok os" and "do_exec u path argv mode os = Some (res, os')"
  shows "onward {} os os' \<or> res = Result (- 1) [] \<and> run os' = run os \<and> dead_runs os'"
  using assms execve_onward by (fastforce simp: do_exec_def bind_eq_Some_conv split: if_splits)

lemma sync_counts: "map_option (Pair (0::int)) (fm_sync_all fm) = Some (a, fm') \<Longrightarrow> counts_kept fm fm'"
  by (auto simp: map_option_eq_Some dest: calls_keep_counts)

abbreviation exec_handlers :: "handler set" where
  "exec_handlers \<equiv> {syscall_execve, syscall_execveArgv, syscall_execveFunc}"

lemma handle_onward:
  assumes ok: "kernel_ok os" and x: "handle u h a b d os = Some (res, os')"
  shows "onward {} os os' \<or>
    res = Result (- 1) [] \<and> run os' = run os \<and> (h = syscall_fork \<and> dead_child os os' \<or> h \<in> exec_handlers \<and> dead_runs os') \<or>
    (\<exists>z c. h = syscall_wait \<and> run os = Some c \<and> dead_at os z \<and> p_parentPid (pcbs os z) = int c \<and>
       res = Result (word_of_nat z) (if b \<noteq> 0 then [Word b (p_retValue (pcbs os z))] else []) \<and> onward {z} os os')"
proof (cases h)
  case syscall_fork
  then obtain r where r: "fork os = Some (r, os')" "res = Result (word_of_int r) []" using x by (auto simp: plain_def)
  then show ?thesis using fork_onward [OF ok r(1)] syscall_fork by auto
next
  case syscall_yield
  then show ?thesis using x schedule_onward [OF ok] by (auto simp: bind_eq_Some_conv)
next
  case syscall_exit
  then show ?thesis using x exit_onward [OF ok] by (auto simp: bind_eq_Some_conv)
next
  case syscall_expandHeap
  then show ?thesis using x with_mm_onward [OF ok] by (auto simp: bind_eq_Some_conv)
next
  case syscall_pa_dump
  then show ?thesis using x pa_dump_onward [OF ok] by (auto simp: bind_eq_Some_conv)
next
  case syscall_sync
  then have "plain (with_fm (\<lambda>fm. map_option (Pair 0) (fm_sync_all fm)) os) = Some (res, os')" using x by simp
  from plain_fm_onward [OF ok _ this] show ?thesis using sync_counts by blast
next
  case syscall_close
  then show ?thesis using x plain_fm_onward [OF ok calls_keep_counts(2)] by simp
next
  case syscall_fdappend
  then show ?thesis using x plain_fm_onward [OF ok calls_keep_counts(5)] by simp
next
  case syscall_fseek
  then show ?thesis using x plain_fm_onward [OF ok calls_keep_counts(6)] by simp
next
  case syscall_open
  then show ?thesis using x on_path_onward [OF ok calls_keep_counts(1)] by simp
next
  case syscall_create_file
  then show ?thesis using x on_path_onward [OF ok calls_keep_counts(7)] by simp
next
  case syscall_remove_file
  then show ?thesis using x on_path_onward [OF ok calls_keep_counts(8)] by simp
next
  case syscall_mkdir
  then show ?thesis using x on_path_onward [OF ok calls_keep_counts(9)] by simp
next
  case syscall_rmdir
  then show ?thesis using x on_path_onward [OF ok calls_keep_counts(10)] by simp
next
  case syscall_chdir
  then show ?thesis using x on_path_onward [OF ok calls_keep_counts(11)] by simp
next
  case syscall_getpid
  then show ?thesis using x ok by (auto simp: bind_eq_Some_conv)
next
  case syscall_getppid
  then show ?thesis using x ok by (auto simp: bind_eq_Some_conv)
next
  case syscall_fd_dump
  then show ?thesis using x dump_fd_onward [OF ok] by simp
next
  case syscall_getcwd
  then show ?thesis using x ok by simp
next
  case syscall_move_cursor
  then show ?thesis using x screen_onward [OF ok] by auto
next
  case syscall_wait
  then show ?thesis using x do_wait_onward [OF ok] by auto
next
  case syscall_write
  then show ?thesis using x do_write_onward [OF ok] by simp
next
  case syscall_fdwrite
  then show ?thesis using x do_write_onward [OF ok] by simp
next
  case syscall_read
  then show ?thesis using x do_read_onward [OF ok] by simp
next
  case syscall_fdread
  then show ?thesis using x do_read_onward [OF ok] by simp
next
  case syscall_ls
  then show ?thesis using x do_ls_onward [OF ok] by simp
next
  case syscall_pte_dump
  then show ?thesis using x pte_dump_onward [OF ok] by simp
next
  case syscall_execve
  then show ?thesis using x do_exec_onward [OF ok] by auto
next
  case syscall_execveArgv
  then show ?thesis using x do_exec_onward [OF ok] by auto
next
  case syscall_execveFunc
  then show ?thesis using x do_exec_onward [OF ok] by auto
qed

text \<open>The call a register set asks for, the two calls that break the tables, and the call that reaps a child.\<close>

definition broken :: "call_table \<Rightarrow> OS \<Rightarrow> OS \<Rightarrow> bool" where
  "broken t os os' \<longleftrightarrow> (\<exists>u r h. t (unat (eax r)) = Some h \<and> system_call t u r os = Some (Result (- 1) [], os') \<and> run os' = run os \<and>
     (h = syscall_fork \<and> dead_child os os' \<or> h \<in> exec_handlers \<and> dead_runs os'))"

definition reaps :: "call_table \<Rightarrow> nat \<Rightarrow> OS \<Rightarrow> OS \<Rightarrow> bool" where
  "reaps t z os os' \<longleftrightarrow> (\<exists>u r c. t (unat (eax r)) = Some syscall_wait \<and> run os = Some c \<and> p_parentPid (pcbs os z) = int c \<and>
     system_call t u r os = Some (Result (word_of_nat z) (if ecx r \<noteq> 0 then [Word (ecx r) (p_retValue (pcbs os z))] else []), os'))"

lemma system_call_onward:
  assumes ok: "kernel_ok os" and x: "system_call t u r os = Some (res, os')"
  shows "onward {} os os' \<or> broken t os os' \<or> (\<exists>z. dead_at os z \<and> reaps t z os os' \<and> onward {z} os os')"
proof -
  obtain h o1 where h: "t (unat (eax r)) = Some h" "handle u h (ebx r) (ecx r) (edx r) (os\<lparr>interrupts := True\<rparr>) = Some (res, o1)" "os' = o1\<lparr>interrupts := False\<rparr>"
    using x by (auto simp: system_call_def bind_eq_Some_conv split: if_splits)
  have i: "dead_child (os\<lparr>interrupts := i\<rparr>) (os'\<lparr>interrupts := j\<rparr>) = dead_child os os'" "dead_runs (os\<lparr>interrupts := i\<rparr>) = dead_runs os"
    "dead_at (os\<lparr>interrupts := i\<rparr>) z = dead_at os z" for i j os os' z
    by (simp_all add: dead_child_def dead_runs_def dead_at_def cong: option.case_cong)
  have o1: "o1 = o1\<lparr>interrupts := interrupts o1\<rparr>" by simp
  have ok': "kernel_ok (os\<lparr>interrupts := True\<rparr>)" using ok by simp
  from handle_onward [OF ok' h(2)] show ?thesis
  proof (elim disjE exE conjE)
    assume "onward {} (os\<lparr>interrupts := True\<rparr>) o1" then show ?thesis using h(3) by simp
  next
    assume a: "res = Result (- 1) []" "run o1 = run (os\<lparr>interrupts := True\<rparr>)" "h = syscall_fork" "dead_child (os\<lparr>interrupts := True\<rparr>) o1"
    then have "dead_child os os'" using h(3) i(1) [of True os "interrupts o1" o1] i(1) [of "interrupts os" os False o1] by simp
    then have "broken t os os'" unfolding broken_def using a h x by (intro exI [of _ u] exI [of _ r] exI [of _ h]) simp
    then show ?thesis by blast
  next
    assume a: "res = Result (- 1) []" "run o1 = run (os\<lparr>interrupts := True\<rparr>)" "h \<in> exec_handlers" "dead_runs o1"
    then have "broken t os os'" unfolding broken_def using h x i(2) by (intro exI [of _ u] exI [of _ r] exI [of _ h]) simp
    then show ?thesis by blast
  next
    fix z c assume a: "h = syscall_wait" "run (os\<lparr>interrupts := True\<rparr>) = Some c" "dead_at (os\<lparr>interrupts := True\<rparr>) z" "p_parentPid (pcbs (os\<lparr>interrupts := True\<rparr>) z) = int c"
      "res = Result (word_of_nat z) (if ecx r \<noteq> 0 then [Word (ecx r) (p_retValue (pcbs (os\<lparr>interrupts := True\<rparr>) z))] else [])" "onward {z} (os\<lparr>interrupts := True\<rparr>) o1"
    then have "reaps t z os os'" unfolding reaps_def using h x by (intro exI [of _ u] exI [of _ r] exI [of _ c]) simp
    then show ?thesis using a h(3) i(3) by auto
  qed
qed

section \<open>The whole kernel\<close>

text \<open>
  What can happen next: a system call of the running program, the end of a kernel thread, an interrupt of the timer or
  the keyboard, a page fault, and what kernel code does on its own: new threads and processes, the first steps of a process.
  Nothing is asked of the calls.  Two of them may break the tables (see the findings): a fork that fails after its child is
  in the list of programs, and an execve that returns to a program whose space is gone; a clean step is any other.
\<close>

inductive kernel_step :: "call_table \<Rightarrow> OS \<Rightarrow> OS \<Rightarrow> bool" for t where
  step_call: "system_call t u r os = Some (res, os') \<Longrightarrow> kernel_step t os os'"
| step_timer: "c_time_interrupt_handler os = Some os' \<Longrightarrow> kernel_step t os os'"
| step_key: "kernel_step t os (os\<lparr>os_keyboard := handleScancode code (os_keyboard os)\<rparr>)"
| step_fault: "run_mm (c_page_fault_handler code addr) os = Some os' \<Longrightarrow> kernel_step t os os'"
| step_new_thread: "executeThread fn par nm prio q os = Some (pid, os') \<Longrightarrow> kernel_step t os os'"
| step_new_process: "executeProcess filename addr prio mode os = Some (pid, os') \<Longrightarrow> kernel_step t os os'"
| step_enter: "load_process ent os = Some os' \<Longrightarrow> kernel_step t os os'"
| step_thread_end: "program_exit os = Some os' \<Longrightarrow> kernel_step t os os'"

definition clean_step :: "call_table \<Rightarrow> OS \<Rightarrow> OS \<Rightarrow> bool" where
  "clean_step t os os' \<longleftrightarrow> kernel_step t os os' \<and> \<not> broken t os os'"

lemma tick_files: "files_ok os \<Longrightarrow> c_time_interrupt_handler os = Some os' \<Longrightarrow> files_core os'"
proof -
  assume ok: "files_ok os" and x: "c_time_interrupt_handler os = Some os'"
  obtain b o1 where o: "(case sType os of RR \<Rightarrow> RR_onTick (run os) os | FIFS \<Rightarrow> FIFS_onTick (run os) os) = (b, o1)" by fastforce
  have "fs_same os o1" using o ok
    by (cases "sType os") (auto simp: files_ok_def RR_onTick_def FIFS_onTick_def Let_def split: if_splits)
  then have "files_ok o1" by (rule files_ok_same [OF ok])
  moreover have "os' = o1 \<or> schedule o1 = Some os'" using x o by (auto simp: c_time_interrupt_handler_def Let_def split: if_splits)
  ultimately show "files_core os'" using filelyD(2) [OF schedule_files] files_core_ok by metis
qed

lemma kernel_step_onward:
  assumes "kernel_step t os os'" and ok: "kernel_ok os"
  shows "onward {} os os' \<or> broken t os os' \<or> (\<exists>z. dead_at os z \<and> reaps t z os os' \<and> onward {z} os os')"
  using assms(1)
proof cases
  case (step_call u r res)
  then show ?thesis by (rule system_call_onward [OF ok])
next
  case step_timer
  then have "files_core os'" by (rule tick_files [OF kernel_ok_files [OF ok]])
  then show ?thesis using tick_keeps_dead [OF _ step_timer] onward_keeps_dead [of os _ _ _ _ os' "{}"] ok unfolding kernel_ok_def by blast
next
  case (step_key code)
  then show ?thesis using keyboard_onward [OF ok] by simp
next
  case (step_fault code addr)
  then obtain v where "with_mm (\<lambda>mm. map_option (Pair ()) (c_page_fault_handler code addr mm)) os = Some (v, os')" by (auto simp: run_mm_def)
  then have "onward {} os os'" by (rule with_mm_onward [OF ok])
  then show ?thesis by blast
next
  case (step_new_thread fn par nm prio q pid)
  have "files_ok os'" by (rule filelyD(1) [OF executeThread_filely [OF kernel_ok_files [OF ok]] step_new_thread])
  then show ?thesis
    using executeThread_keeps_dead [OF _ step_new_thread] onward_keeps_dead [of os _ _ _ _ os' "{}"] ok files_core_ok unfolding kernel_ok_def by blast
next
  case (step_new_process filename addr prio mode pid)
  have "files_ok os'" by (rule filelyD(1) [OF executeProcess_files [OF kernel_ok_files [OF ok]] step_new_process])
  then show ?thesis
    using executeProcess_keeps_dead [OF _ step_new_process] onward_keeps_dead [of os _ _ _ _ os' "{}"] ok files_core_ok unfolding kernel_ok_def by blast
next
  case (step_enter ent)
  have "files_ok os'" by (rule filelyD(2) [OF load_process_files [OF kernel_ok_files [OF ok]] step_enter])
  then show ?thesis using onward_quiet [OF ok quietly1D [OF load_process_quiet [OF quiet_refl] step_enter]] by blast
next
  case step_thread_end
  then show ?thesis using program_exit_onward [OF ok] by blast
qed

lemma onward_ok: "onward D os os' \<Longrightarrow> kernel_ok os'"
  by (simp add: onward_def)



section \<open>The exit value of a program\<close>

lemma kids_own_pid:
  assumes "sched os ps rs" and "run os = Some d" and "z \<in> set ps" and "p_parentPid (pcbs os z) = int d" and "p_status (pcbs os z) = DEAD"
  shows "find (\<lambda>p. p_status (pcbs os p) = DEAD) (kids os (int z) d ps) = Some z" "kids os (int z) d ps \<noteq> []"
proof -
  have d: "distinct ps" using tableD(2) [OF schedD(1) [OF assms(1,2)]] .
  have "kids os (int z) d ps = filter (\<lambda>p. p = z) ps"
    unfolding kids_def using schedD(4) [OF assms(1,2)] assms(3,4) by (intro filter_cong) auto
  also have "\<dots> = [z]" using d assms(3) by (induction ps) (auto simp: filter_empty_conv)
  finally show "find (\<lambda>p. p_status (pcbs os p) = DEAD) (kids os (int z) d ps) = Some z" "kids os (int z) d ps \<noteq> []"
    using assms(5) by simp_all
qed

text \<open>The program is dead, keeps its value, and belongs to its parent or to program 1.\<close>

definition waits_with :: "nat \<Rightarrow> u32 \<Rightarrow> int \<Rightarrow> OS \<Rightarrow> bool" where
  "waits_with z v q os \<longleftrightarrow> dead_at os z \<and> p_retValue (pcbs os z) = v \<and> p_parentPid (pcbs os z) \<in> {q, 1}"

lemma waits_with_onward: "waits_with z v q os \<Longrightarrow> onward D os os' \<Longrightarrow> z \<notin> D \<Longrightarrow> waits_with z v q os'"
  unfolding waits_with_def onward_def by (metis insert_iff empty_iff)

lemma waits_with_waitpid:
  assumes "live os ps rs d" and w: "waits_with z v q os" and "p_parentPid (pcbs os z) = int d" and x: "waitpid (int z) os = Some (r, os')"
  shows "r = Returns (int z) (Some v) \<and> \<not> PCB_SET_STATUS os' z"
proof -
  note l = liveD [OF assms(1)]
  have z: "z \<in> set ps" "p_status (pcbs os z) = DEAD" "p_retValue (pcbs os z) = v"
    using w l(4) by (auto simp: waits_with_def dead_at_def table_def)
  note k = kids_own_pid [OF l(1,2) z(1) assms(3) z(2)]
  show ?thesis
  proof (cases r)
    case (Returns n u)
    then show ?thesis using waitpid_effect [OF assms(1) x] k z(3) by auto
  next
    case Waits
    then have "\<forall>p\<in>set (kids os (int z) d ps). p_status (pcbs os p) \<noteq> DEAD" using waitpid_effect [OF assms(1) x] by simp
    moreover have "z \<in> set (kids os (int z) d ps)" using k(1) by (metis find_Some_iff nth_mem)
    ultimately show ?thesis using z(2) by blast
  qed
qed


text \<open>No file is open.\<close>

definition no_open_fm :: FileManager where
  "no_open_fm = one_open_fm\<lparr>openfile_table := (\<lambda>_. zero_openfile), openfile_map := \<lparr>length_of = 1024, bitmap_of = (\<lambda>_. 0)\<rparr>\<rparr>"

lemma two_threads_files: "files_core (two_threads mm no_open_fm kb sc)"
proof -
  have f: "fs_of (two_threads mm no_open_fm kb sc) = (\<lambda>_. p_fs zero_pcb)" by (simp add: fs_of_def two_threads_def fun_eq_iff)
  have n: "process_ok (p_fs zero_pcb)" "fds_on (p_fs zero_pcb) i = {}" for i using no_fds_simps(2) by (auto simp: no_fds_def)
  have "refs (\<lambda>_. p_fs zero_pcb) i = 0" for i by (simp add: refs_def n)
  moreover have "BitMap_get \<lparr>length_of = 1024, bitmap_of = (\<lambda>_. 0)\<rparr> i = False" for i by (simp add: BitMap_get_def byte_test_def)
  ultimately have "refs_ok (\<lambda>_. p_fs zero_pcb) no_open_fm"
    by (auto simp: refs_ok_def n count_of_def taken_def no_open_fm_def one_open_fm_def zero_openfile_def MAX_OPENFILE_COUNT_def)
  then show ?thesis using no_fds_simps(2) by (simp add: files_core_def f) (simp add: two_threads_def)
qed

section \<open>A family\<close>

text \<open>Program 1 exits with 7, a key is pressed, and program 0 asks for its child.\<close>

lemma parent_child_files: "files_core (parent_child mm no_open_fm kb sc)"
proof -
  have "fs_of (parent_child mm no_open_fm kb sc) = fs_of (two_threads mm no_open_fm kb sc)"
    by (simp add: fs_of_def parent_child_def two_threads_def fun_eq_iff)
  then show ?thesis using two_threads_files [of mm kb sc] by (simp add: files_core_def) (simp add: parent_child_def)
qed

lemma live_free: "live os ps rs c \<Longrightarrow> z \<notin> set ps \<Longrightarrow> z < MAX_PROGRAM_AMOUNT \<Longrightarrow> \<not> PCB_SET_STATUS os z"
  using liveD(4) [of os ps rs c] unfolding table_def by blast

lemma live_not_broken:
  assumes "live os ps rs c" and "live os' ps' rs' c'" and "set ps' \<subseteq> set ps"
  shows "\<not> broken t os os'"
proof
  assume "broken t os os'"
  then have "dead_child os os' \<or> dead_runs os'" unfolding broken_def by blast
  moreover have "\<not> dead_runs os'" using liveD(2,3) [OF assms(2)] by (simp add: dead_runs_def)
  moreover have "PCB_SET_STATUS os z" if "table os' (qs @ [z]) ss" for z qs ss
  proof -
    have "z < MAX_PROGRAM_AMOUNT \<and> PCB_SET_STATUS os' z" using that by (auto simp: table_def)
    then have "z \<in> set ps'" using liveD(4) [OF assms(2)] by (simp add: table_def)
    then have "z \<in> set ps" using assms(3) by blast
    then show ?thesis using liveD(4) [OF assms(1)] by (simp add: table_def)
  qed
  then have "\<not> dead_child os os'" unfolding dead_child_def by blast
  ultimately show False by blast
qed

lemma live_keyboard [simp]: "live (os\<lparr>os_keyboard := k\<rparr>) ps rs c = live os ps rs c"
proof -
  have "live (os\<lparr>os_keyboard := k\<rparr>) ps rs c" if "live os ps rs c" for k os
    by (rule live_quiet [OF that quiet_devices(2)])
  from this [of os k] this [of "os\<lparr>os_keyboard := k\<rparr>" "os_keyboard os"] show ?thesis by auto
qed

definition ask :: "nat \<Rightarrow> nat \<Rightarrow> nat \<Rightarrow> registers" where
  "ask n b c = \<lparr>eax = word_of_nat n, ebx = word_of_nat b, ecx = word_of_nat c, edx = 0\<rparr>"

lemma family_run:
  fixes mm kb sc im u t
  defines "os \<equiv> parent_child mm no_open_fm kb sc" and "t \<equiv> fst (SS_initialize 0 im)"
  shows "\<exists>os1 os2 os3. exit 7 os = Some os1 \<and> live os1 [0, 1] [] 0 \<and> os2 = os1\<lparr>interrupts := False, os_keyboard := handleScancode 30 (os_keyboard os1)\<rparr> \<and>
    system_call t u (ask 3 7 0) os = Some (Gone, os1\<lparr>interrupts := False\<rparr>) \<and>
    system_call t u (ask 4 1 4096) os2 = Some (Result 1 [Word 4096 7], os3) \<and> live os3 [0] [] 0 \<and> clean_step t os (os1\<lparr>interrupts := False\<rparr>) \<and>
    clean_step t (os1\<lparr>interrupts := False\<rparr>) os2 \<and> clean_step t os2 os3"
proof -
  obtain os1 where o: "exit 7 os = Some os1" "live os1 [0, 1] [] 0" "p_argv (pcbs os1 1) = 0"
      "p_fs (pcbs os1 1) = init_process_fs (p_fs zero_pcb)" using parent_child_exit unfolding os_def by blast
  note k = parent_child_waits [OF o [unfolded os_def]]
  have n: "t 3 = Some syscall_exit" "t 4 = Some syscall_wait" by (simp_all add: t_def SS_initialize_def setSystemCall_def)
  have i: "os\<lparr>interrupts := True\<rparr> = os" by (simp add: os_def parent_child_def two_threads_def)
  let ?o = "os1\<lparr>interrupts := False\<rparr>"
  have x1: "system_call t u (ask 3 7 0) os = Some (Gone, ?o)"
    using o(1) n i by (simp add: system_call_def MAX_SYSTEM_CALL_def ask_def)
  define o2 where "o2 = ?o\<lparr>os_keyboard := handleScancode 30 (os_keyboard ?o)\<rparr>"
  define o2' where "o2' = o2\<lparr>interrupts := True\<rparr>"
  have f: "live o2 [0, 1] [] 0" "live o2' [0, 1] [] 0" "pcbs o2' = pcbs os1" unfolding o2'_def o2_def using o(2) by simp_all
  have kids: "kids o2' 1 0 [0, 1] = [1]" and "\<exists>w os3. waitpid 1 o2' = Some (w, os3)"
    by (rule parent_child_reap [OF f(2)]; use f(3) o(3,4) k(2,5,6) in simp)+
  then obtain w os3 where w: "waitpid 1 o2' = Some (w, os3)" by blast
  have r: "w = Returns 1 (Some 7) \<and> live os3 [0] [] 0"
    using waitpid_effect [OF f(2) w] kids k(2,3) f(3) by (cases w) simp_all
  then have x2: "system_call t u (ask 4 1 4096) o2 = Some (Result 1 [Word 4096 7], os3\<lparr>interrupts := False\<rparr>)"
    using w n by (simp add: system_call_def MAX_SYSTEM_CALL_def ask_def do_wait_def o2'_def)
  have l: "live os [0, 1] [0] 1" "live ?o [0, 1] [] 0" "live (os3\<lparr>interrupts := False\<rparr>) [0] [] 0"
    using parent_child_live(1) o(2) r by (simp_all add: os_def)
  have "clean_step t os ?o" unfolding clean_step_def using kernel_step.step_call [OF x1] live_not_broken [OF l(1,2)] by simp
  moreover have "clean_step t ?o o2"
    unfolding clean_step_def using kernel_step.step_key [of t ?o 30] live_not_broken [OF l(2) f(1)] by (simp add: o2_def)
  moreover have "clean_step t o2 (os3\<lparr>interrupts := False\<rparr>)"
    unfolding clean_step_def using kernel_step.step_call [OF x2] live_not_broken [OF f(1) l(3)] by simp
  moreover have "o2 = os1\<lparr>interrupts := False, os_keyboard := handleScancode 30 (os_keyboard os1)\<rparr>" by (simp add: o2_def)
  ultimately show ?thesis using o(1,2) x1 x2 l(3) by blast
qed



end
