(* ===== verification/Spec2Isabelle.thy ===== *)
theory Spec2Isabelle
  imports Intrusive_List Memory_Manager File_Ops Exec_Args Program_Family Fork_Sharing Fault_Effects Interrupts Memory_Boot Format_Print
    System_Calls Kernel_Invariant
begin

text \<open>
  A verification library for SYSU-OS-2026, an i386 teaching kernel with paging, processes, a FAT12 file
  system and a small C library.  Paths are relative to the repository; \<^verbatim>\<open>kernel/\<close> and \<^verbatim>\<open>libc/\<close> stand for
  \<^verbatim>\<open>src/kernel/\<close> and \<^verbatim>\<open>src/libc/\<close> with their headers under \<^verbatim>\<open>include/\<close>.

  \<^bold>\<open>Parts of the program.\<close>  The boot loader builds the first page tables (\<^verbatim>\<open>src/boot/page.cpp\<close>) and enters
  the kernel.  \<^verbatim>\<open>MemoryManager\<close> divides the memory that is left into two pools of frames and a pool of kernel
  pages; frames come from a buddy allocator, pages from bitmaps, every frame has a descriptor with the list
  of the page-table entries that map it, and page faults make lazily allocated and copy-on-write pages real.
  \<^verbatim>\<open>ProgramManager\<close> keeps a table of PCBs linked into a list of all programs and a ready queue, loads ELF
  images from files into new address spaces, forks with copy-on-write pages and collects dead children.
  \<^verbatim>\<open>FileManager\<close> gives each program a table of descriptors on a shared table of open files, over FAT12
  volumes with a cluster cache and an in-memory allocation table, over a polling IDE driver.  Screen,
  keyboard and formatted printing are the console.

  \<^bold>\<open>Conventions.\<close>  A class is a record, a member function a definition that takes the old state last and returns
  the new one.  A pointer into a fixed array or pool is an index, a null pointer \<^const>\<open>None\<close>; a pointer that
  leads to raw memory is an address.  A machine integer is a word of its width; a C \<^verbatim>\<open>int\<close> is a 32-bit word
  where it may wrap or is passed on as a word and \<open>int\<close> where it only counts.  A call that does not come back
  (a failed \<^verbatim>\<open>ASSERT\<close>, \<^verbatim>\<open>PANIC\<close>, a page fault of the kernel, a loop that never ends) is \<^const>\<open>None\<close>, so a theorem
  that gives a \<^const>\<open>Some\<close> says that the code returns; error codes and null results are ordinary values.  Loops
  with a known bound are recursions or folds, loops that may run for ever are partial functions; no fuel is
  used, except that hand-overs while a reader waits for keys are a list of given length.

  \<^bold>\<open>Theories and sources.\<close>
  \<^item> \<^theory_text>\<open>Os_Prelude\<close>: word types of \<^verbatim>\<open>libc/os_type.h\<close>, byte storage, shared lemmas.  Interfaces as locales:
    \<^theory_text>\<open>Alloc_Interface\<close> (run allocators, interpreted by \<^theory_text>\<open>Bitmap\<close>), \<^theory_text>\<open>Queue_Interface\<close> (intrusive queues,
    interpreted by \<^theory_text>\<open>Intrusive_List\<close>), \<^theory_text>\<open>Cache_Interface\<close> (block caches, interpreted by \<^theory_text>\<open>Fat12_Cache\<close>).
  \<^item> \<^theory_text>\<open>Bitmap\<close>, \<^theory_text>\<open>Intrusive_List\<close>, \<^theory_text>\<open>Buddy\<close>: \<^verbatim>\<open>kernel/bitmap.cpp\<close>, \<^verbatim>\<open>list.cpp\<close>, \<^verbatim>\<open>buddy.cpp\<close>.  Search loops find
    the first or last run; the pointer lists implement sequences; the free lists cover every free page once.
  \<^item> \<^theory_text>\<open>Page_Info\<close>, \<^theory_text>\<open>Address_Pool\<close>, \<^theory_text>\<open>Paging_Words\<close>, \<^theory_text>\<open>Mmu\<close>: \<^verbatim>\<open>kernel/pageinfo.cpp\<close>, \<^verbatim>\<open>rmap.cpp\<close>,
    \<^verbatim>\<open>address_pool.cpp\<close>, the macros of \<^verbatim>\<open>memory.h\<close>, \<^verbatim>\<open>src/boot/page.cpp\<close> and the address translation of the processor.
    The chains of the reverse map refine one list of mappings per frame.
  \<^item> \<^theory_text>\<open>Memory_Manager\<close>, \<^theory_text>\<open>Memory_Boot\<close>: \<^verbatim>\<open>kernel/memory.cpp\<close>.  The invariant \<open>memory_ok\<close> of pools, descriptors and
    reverse map holds after start-up; allocation, mapping, release and copy-on-write marking change exactly
    what they should.
  \<^item> \<^theory_text>\<open>Page_Faults\<close>, \<^theory_text>\<open>Fault_Effects\<close>, \<^theory_text>\<open>Interrupts\<close>: \<^verbatim>\<open>kernel/handler.cpp\<close>, \<^verbatim>\<open>interrupt.cpp\<close>.  What a fault does to
    memory, word by word; the gates and the two interrupt controllers behind their ports.
  \<^item> \<^theory_text>\<open>Ide_Disk\<close>, \<^theory_text>\<open>Fat12_Entry\<close>, \<^theory_text>\<open>Fat12_State\<close>, \<^theory_text>\<open>Fat12_Table\<close>, \<^theory_text>\<open>Fat12_Fs\<close>, \<^theory_text>\<open>Fat12_Cache\<close>, \<^theory_text>\<open>Fat12_Io\<close>,
    \<^theory_text>\<open>Fat12_Dir\<close>: \<^verbatim>\<open>kernel/fileSys/disk_driver.cpp\<close>, \<^verbatim>\<open>fat12_entry.cpp\<close>, \<^verbatim>\<open>fat12_inode_pool.cpp\<close>, \<^verbatim>\<open>fat12_fs.cpp\<close>.
    Sector transfers, round trips of entries and table, files as byte sequences through the cache, the life
    of a file of the root directory.
  \<^item> \<^theory_text>\<open>File_Paths\<close>, \<^theory_text>\<open>File_Manager\<close>, \<^theory_text>\<open>File_Refs\<close>, \<^theory_text>\<open>File_Ops\<close>: \<^verbatim>\<open>kernel/fileSys/file_manager.cpp\<close>.  Path
    normalisation, the invariant of the reference counts over every sequence of operations, reading through a descriptor.
  \<^item> \<^theory_text>\<open>Scheduler\<close>, \<^theory_text>\<open>Elf\<close>, \<^theory_text>\<open>Exec_Args\<close>, \<^theory_text>\<open>Process_Pages\<close>, \<^theory_text>\<open>Program_Life\<close>, \<^theory_text>\<open>Program_Table\<close>, \<^theory_text>\<open>Program_Family\<close>,
    \<^theory_text>\<open>Fork_Sharing\<close>: \<^verbatim>\<open>kernel/schduler.cpp\<close>, \<^verbatim>\<open>sync.cpp\<close>, \<^verbatim>\<open>program.cpp\<close>.  The ready queue turns as a ring; images stay inside
    user space and are what the file says; arguments arrive on the new stack; what each operation does to the table of
    programs and to the programs that wait to be reaped (\<open>live\<close>, \<open>keeps_dead\<close>); \<^verbatim>\<open>waitpid\<close> reaps the first dead child; the
    pages of a fork are shared read-only.
  \<^item> \<^theory_text>\<open>System_Calls\<close>, \<^theory_text>\<open>Kernel_Invariant\<close>: \<^verbatim>\<open>kernel/system_service.cpp\<close>, \<^verbatim>\<open>kernel/asm_utils.asm\<close> (the entry),
    \<^verbatim>\<open>include/libc/enum.h\<close>.  Every system call from the registers of the program to the change of the kernel; a step of
    the kernel (\<open>kernel_step\<close>) is any call, interrupt, fault or start of a program.  Any run of steps keeps the table of
    programs and the counts of open files, up to the first of two calls that break it (\<open>broken\<close>: a fork that fails after queueing
    its child, an execve that returns to a program without a space); without these an exit value reaches its parent.
    The memory of a program is an argument of a call, and what the kernel writes there is part of its result.
  \<^item> \<^theory_text>\<open>Console\<close>, \<^theory_text>\<open>Libc\<close>, \<^theory_text>\<open>Format_Print\<close>: \<^verbatim>\<open>kernel/screen.cpp\<close>, \<^verbatim>\<open>keyboard.cpp\<close>, \<^verbatim>\<open>libc/stdlib.cpp\<close>,
    \<^verbatim>\<open>vsprintf.cpp\<close>, \<^verbatim>\<open>stdio.cpp\<close>.  The screen scrolls a grid of cells, the ring of keys is a bounded queue, numbers
    are printed as they should, \<^verbatim>\<open>printf\<close> loses no character.

  \<^bold>\<open>Bounds.\<close>  The invariant of the buddy allocator needs no bound on the pool; only that a release returns every
  page is stated for pools of at most 1024 pages, since merging two blocks of the largest order loses pages.
  The start-up theorem covers every size of memory that fits a C \<^verbatim>\<open>int\<close> (below 2 GB) and leaves room for the
  tables.  Images have at most \<open>ELF_SEGMENT_AMOUNT\<close> segments, the room of the loader's array, which it tests.

  \<^bold>\<open>Not modelled.\<close>  Assembly (boot loader, interrupt entries, the switch of stacks) appears only as what the C++
  code relies on, in the theories that use it.  There is no translation buffer, so \<^verbatim>\<open>asm_invlpg\<close> does nothing,
  and one processor.  Interrupts are atomic steps between operations; code that runs with interrupts off is one
  step, and so is every system call, although the entry enables interrupts and \<^verbatim>\<open>FileManager::read\<close> and \<^verbatim>\<open>write\<close>
  leave them enabled (see the findings).  Strings have no bound in the model where the code copies them into arrays.  Log messages are left out.  \<^verbatim>\<open>setup.cpp\<close> only calls the initialisations in order.  \<^verbatim>\<open>FileManager::umount\<close>
  works on an object at a wrong address and is left out.  The heap of user programs
  (\<^verbatim>\<open>libc/malloc.cpp\<close>) does not keep the heap invariant a proof would need (after a split a block can stay outside
  every list and later be unlinked through old user data).  The shell, the user commands, \<^verbatim>\<open>init\<close> and the tests are clients of the operations above and hold no state of the kernel.
\<close>

end
